(* ===== verification/Nova_Prelude.thy ===== *)
theory Nova_Prelude
  imports Main "HOL-Library.Word"
begin

text \<open>
  Shared vocabulary of the development: C++ exceptions and procedures with effects as values,
  the part of \<^verbatim>\<open>std::string_view\<close> and of the C locale's \<^verbatim>\<open><cctype>\<close> the framework relies on,
  decimal printing (\<^verbatim>\<open>std::to_string\<close>) and parsing (\<^verbatim>\<open>std::stoull\<close>), and the generic list lemmas
  the component theories use. Strings are lists of bytes (\<^typ>\<open>char\<close>), which is what
  \<^verbatim>\<open>std::string\<close> stores.
\<close>

named_theorems sv_simps \<open>rewriting of string-view operations\<close>
named_theorems nova_defs \<open>definitions that component proofs unfold together\<close>

section \<open>Exceptions and effects\<close>

text \<open>
  A C++ exception is a value. A function that may throw returns \<open>exn + 'a\<close>; a procedure that
  mutates objects through references returns the exception, if any, with the state it left
  behind, because mutations made before a throw stay visible to the caller.
\<close>

datatype exn =
    Invalid_argument string
  | Runtime_error string
  | Out_of_range string
  | Binding_exception "string list"
  | Validation_exception "string list"
  | Std_exception string string
  | Non_standard_thrown
  | Undefined_behaviour string

text \<open>
  \<open>Std_exception t w\<close> is any other class \<open>t\<close> derived from \<^verbatim>\<open>std::exception\<close> with message
  \<open>w\<close>; \<open>Non_standard_thrown\<close> is a thrown value that is no \<^verbatim>\<open>std::exception\<close>.
  \<open>Undefined_behaviour\<close> marks a run the C++ standard gives no meaning, such as an unchecked
  vector access out of range; no handler can catch it.
\<close>

type_synonym 'a result = "exn + 'a"
type_synonym 's proc = "'s \<Rightarrow> exn option \<times> 's"

section \<open>Characters: the C locale\<close>

abbreviation byte_of :: "char \<Rightarrow> nat" where
  "byte_of c \<equiv> of_char c"

abbreviation CR :: char where "CR \<equiv> CHR 0x0D"
abbreviation LF :: char where "LF \<equiv> CHR 0x0A"
abbreviation CRLF :: string where "CRLF \<equiv> [CR, LF]"

definition tolower :: "char \<Rightarrow> char" where
  "tolower c = (if 65 \<le> byte_of c \<and> byte_of c \<le> 90 then char_of (byte_of c + 32) else c)"

definition toupper :: "char \<Rightarrow> char" where
  "toupper c = (if 97 \<le> byte_of c \<and> byte_of c \<le> 122 then char_of (byte_of c - 32) else c)"

definition isspace :: "char \<Rightarrow> bool" where
  "isspace c \<longleftrightarrow> byte_of c = 32 \<or> (9 \<le> byte_of c \<and> byte_of c \<le> 13)"

definition isdigit :: "char \<Rightarrow> bool" where
  "isdigit c \<longleftrightarrow> 48 \<le> byte_of c \<and> byte_of c \<le> 57"

definition isalpha :: "char \<Rightarrow> bool" where
  "isalpha c \<longleftrightarrow> (65 \<le> byte_of c \<and> byte_of c \<le> 90) \<or> (97 \<le> byte_of c \<and> byte_of c \<le> 122)"

definition isalnum :: "char \<Rightarrow> bool" where
  "isalnum c \<longleftrightarrow> isalpha c \<or> isdigit c"

lemma tolower_idem [simp]: "tolower (tolower c) = tolower c"
  by (simp add: tolower_def)

section \<open>String views\<close>

text \<open>
  \<^verbatim>\<open>find(c)\<close> returns a position or \<^verbatim>\<open>npos\<close>, here \<^const>\<open>None\<close>; \<^verbatim>\<open>substr(0, pos)\<close> with
  \<^verbatim>\<open>pos = npos\<close> is the whole view.
\<close>

definition find_ch :: "char \<Rightarrow> string \<Rightarrow> nat option" where
  "find_ch c s = (if c \<in> set s then Some (length (takeWhile (\<lambda>x. x \<noteq> c) s)) else None)"

definition substr_upto :: "nat option \<Rightarrow> string \<Rightarrow> string" where
  "substr_upto pos s = (case pos of None \<Rightarrow> s | Some n \<Rightarrow> take n s)"

definition starts_with :: "string \<Rightarrow> string \<Rightarrow> bool" where
  "starts_with s p \<longleftrightarrow> take (length p) s = p"

definition ends_with :: "string \<Rightarrow> string \<Rightarrow> bool" where
  "ends_with s p \<longleftrightarrow> length p \<le> length s \<and> drop (length s - length p) s = p"

text \<open>The two loops that drop matching characters from both ends of a view.\<close>

definition trim_by :: "(char \<Rightarrow> bool) \<Rightarrow> string \<Rightarrow> string" where
  "trim_by P s = rev (dropWhile P (rev (dropWhile P s)))"

lemma find_ch_None [sv_simps]: "find_ch c s = None \<longleftrightarrow> c \<notin> set s"
  by (simp add: find_ch_def)

lemma find_ch_Nil [simp]: "find_ch c [] = None"
  by (simp add: find_ch_def)

lemma takeWhile_neq_append: "c \<notin> set ys \<Longrightarrow> takeWhile (\<lambda>x. x \<noteq> c) (ys @ c # zs) = ys"
  by (induction ys) auto

lemma dropWhile_none: "(\<forall>c\<in>set s. \<not> P c) \<Longrightarrow> dropWhile P s = s"
  by (cases s) auto

lemma find_ch_SomeD:
  assumes "find_ch c s = Some n"
  shows "n < length s" and "s = take n s @ c # drop (Suc n) s" and "c \<notin> set (take n s)"
proof -
  from assms have mem: "c \<in> set s" and n: "n = length (takeWhile (\<lambda>x. x \<noteq> c) s)"
    by (auto simp: find_ch_def split: if_splits)
  from mem obtain ys zs where s: "s = ys @ c # zs" and ys: "c \<notin> set ys"
    by (meson split_list_first)
  then have "takeWhile (\<lambda>x. x \<noteq> c) s = ys"
    by (simp add: takeWhile_neq_append)
  with n have n': "n = length ys" by simp
  from s ys show "n < length s" "s = take n s @ c # drop (Suc n) s" "c \<notin> set (take n s)"
    by (simp_all add: n')
qed

lemma find_ch_append [sv_simps]:
  "c \<notin> set ys \<Longrightarrow> find_ch c (ys @ c # zs) = Some (length ys)"
  by (simp add: find_ch_def takeWhile_neq_append)

lemma length_substr_upto [simp]: "length (substr_upto p s) \<le> length s"
  by (simp add: substr_upto_def split: option.split)

lemma substr_upto_find_notin [simp]: "c \<notin> set (substr_upto (find_ch c s) s)"
  by (auto simp: substr_upto_def sv_simps split: option.split dest: find_ch_SomeD(3))

lemma length_trim_by [simp]: "length (trim_by P s) \<le> length s"
  unfolding trim_by_def length_rev
  by (rule le_trans [OF length_dropWhile_le]) (simp add: length_dropWhile_le)

lemma trim_by_id: "(\<forall>c\<in>set s. \<not> P c) \<Longrightarrow> trim_by P s = s"
  by (simp add: trim_by_def dropWhile_none)

lemma set_trim_by: "set (trim_by P s) \<subseteq> set s"
  unfolding trim_by_def by (metis set_dropWhileD set_rev subsetI)

lemma starts_with_append [simp]: "starts_with (p @ s) p"
  by (simp add: starts_with_def)

lemma starts_withD: "starts_with s p \<Longrightarrow> s = p @ drop (length p) s"
  by (metis append_take_drop_id starts_with_def)

lemma starts_with_shorter: "starts_with s p \<Longrightarrow> starts_with s q \<Longrightarrow> length q \<le> length p \<Longrightarrow> starts_with p q"
  unfolding starts_with_def by (metis min_def take_take)

text \<open>
  The loop shape \<^verbatim>\<open>while (!rest.empty()) { pos = rest.find(c); part = rest.substr(0, pos); ...;
  if (pos == npos) break; rest.remove_prefix(pos + 1); }\<close> visits the parts \<open>segs c s\<close>. It
  recurs in the router, the query string, cookies, \<^verbatim>\<open>Forwarded\<close> and the WebSocket handshake; the
  models below keep each loop, and lemmas relate it to \<open>segs\<close>. An empty rest ends the loop, so
  a trailing separator adds no empty part.
\<close>

function segs :: "char \<Rightarrow> string \<Rightarrow> string list" where
  "segs c s =
     (if s = [] then []
      else case find_ch c s of
             None \<Rightarrow> [s]
           | Some n \<Rightarrow> take n s # segs c (drop (Suc n) s))"
  by pat_completeness auto
termination
  by (relation "measure (\<lambda>(c, s). length s)") (auto dest: find_ch_SomeD(1))

declare segs.simps [simp del]

lemma segs_Nil [simp]: "segs c [] = []"
  by (simp add: segs.simps)

lemma segs_single: "s \<noteq> [] \<Longrightarrow> c \<notin> set s \<Longrightarrow> segs c s = [s]"
  by (simp add: segs.simps find_ch_def)

lemma segs_Cons: "c \<notin> set s \<Longrightarrow> segs c (s @ c # t) = s # segs c t"
  by (subst segs.simps) (simp add: find_ch_append)

lemma segs_notin: "x \<in> set (segs c s) \<Longrightarrow> c \<notin> set x"
proof (induction c s rule: segs.induct)
  case (1 c s)
  then show ?case
    by (subst (asm) segs.simps [of c s])
       (auto split: if_splits option.splits simp: sv_simps dest: find_ch_SomeD(3))
qed

text \<open>Joining parts with a separator, and that the loop takes such a text apart again.\<close>

fun join_with :: "char \<Rightarrow> string list \<Rightarrow> string" where
  "join_with c [] = []"
| "join_with c [x] = x"
| "join_with c (x # y # ys) = x @ c # join_with c (y # ys)"

lemma segs_join_with:
  "(\<forall>x\<in>set xs. c \<notin> set x) \<Longrightarrow> xs \<noteq> [] \<Longrightarrow> last xs \<noteq> [] \<Longrightarrow> segs c (join_with c xs) = xs"
  by (induction c xs rule: join_with.induct) (auto simp: segs_Cons segs_single)

section \<open>Decimal numbers\<close>

definition digit_char :: "nat \<Rightarrow> char" where
  "digit_char d = char_of (48 + d)"

fun to_string_nat :: "nat \<Rightarrow> string" where
  "to_string_nat n =
     (if n < 10 then [digit_char n] else to_string_nat (n div 10) @ [digit_char (n mod 10)])"

declare to_string_nat.simps [simp del]

definition to_string_int :: "int \<Rightarrow> string" where
  "to_string_int i = (if i < 0 then CHR ''-'' # to_string_nat (nat (- i)) else to_string_nat (nat i))"

definition digit_val :: "char \<Rightarrow> nat" where
  "digit_val c = byte_of c - 48"

definition dec_value :: "string \<Rightarrow> nat" where
  "dec_value ds = foldl (\<lambda>v c. v * 10 + digit_val c) 0 ds"

lemma isdigit_digit_char [simp]: "d < 10 \<Longrightarrow> isdigit (digit_char d)"
  by (simp add: isdigit_def digit_char_def)

lemma digit_val_digit_char [simp]: "d < 10 \<Longrightarrow> digit_val (digit_char d) = d"
  by (simp add: digit_val_def digit_char_def)

lemma to_string_nat_nonempty [simp]: "to_string_nat n \<noteq> []"
  by (subst to_string_nat.simps) simp

lemma to_string_nat_digits: "\<forall>c \<in> set (to_string_nat n). isdigit c"
proof (induction n rule: to_string_nat.induct)
  case (1 n)
  then show ?case by (subst to_string_nat.simps) auto
qed

lemma dec_value_snoc [simp]: "dec_value (ds @ [c]) = dec_value ds * 10 + digit_val c"
  by (simp add: dec_value_def)

lemma dec_value_to_string [simp]: "dec_value (to_string_nat n) = n"
proof (induction n rule: to_string_nat.induct)
  case (1 n)
  then show ?case
    by (subst to_string_nat.simps) (auto simp: dec_value_def)
qed

lemma to_string_nat_inject [simp]: "to_string_nat m = to_string_nat n \<longleftrightarrow> m = n"
  by (metis dec_value_to_string)

text \<open>
  \<^verbatim>\<open>std::stoull\<close> in base 10: leading white space is skipped, a sign is accepted, at least one
  digit is needed, a value above \<open>2 ^ 64 - 1\<close> is out of range, and a minus sign negates the value
  modulo \<open>2 ^ 64\<close>. The result carries the number of characters consumed.
\<close>

definition stoull :: "string \<Rightarrow> (nat \<times> nat) result" where
  "stoull s =
     (let s1 = dropWhile isspace s;
          neg = (s1 \<noteq> [] \<and> hd s1 = CHR ''-'');
          s2 = (if s1 \<noteq> [] \<and> (hd s1 = CHR ''-'' \<or> hd s1 = CHR ''+'') then tl s1 else s1);
          ds = takeWhile isdigit s2;
          v = dec_value ds
      in if ds = [] then Inl (Invalid_argument ''stoull'')
         else if 2 ^ 64 \<le> v then Inl (Out_of_range ''stoull'')
         else Inr (if neg then (2 ^ 64 - v) mod 2 ^ 64 else v,
                   length s - length s2 + length ds))"

lemma isdigit_not_space [simp]: "isdigit c \<Longrightarrow> \<not> isspace c"
  by (auto simp: isdigit_def isspace_def)

lemma not_isdigit_sign [simp]: "\<not> isdigit CHR ''-''" "\<not> isdigit CHR ''+''" "\<not> isdigit CHR '':''"
  by (simp_all add: isdigit_def)

lemma stoull_to_string:
  assumes "n < 2 ^ 64"
  shows "stoull (to_string_nat n) = Inr (n, length (to_string_nat n))"
proof -
  let ?s = "to_string_nat n"
  obtain c cs where s: "?s = c # cs" by (cases ?s) auto
  have c: "isdigit c" using to_string_nat_digits [of n] s by simp
  have sp: "dropWhile isspace ?s = ?s" using c s by simp
  have ds: "takeWhile isdigit ?s = ?s"
    using to_string_nat_digits [of n] by simp
  have sgn: "hd ?s \<noteq> CHR ''-''" "hd ?s \<noteq> CHR ''+''" using c s by auto
  show ?thesis
    unfolding stoull_def Let_def sp using sgn assms by (simp add: ds del: takeWhile_eq_all_conv)
qed

section \<open>Hexadecimal\<close>

text \<open>The table \<^verbatim>\<open>"0123456789abcdef"\<close> indexed by a nibble, and the two characters of a byte.\<close>

definition hex_digit :: "nat \<Rightarrow> char" where
  "hex_digit d = (if d < 10 then char_of (48 + d) else char_of (87 + d))"

definition hex_encode :: "nat list \<Rightarrow> string" where
  "hex_encode bs = concat (map (\<lambda>b. [hex_digit (b div 16), hex_digit (b mod 16)]) bs)"

definition hex_value :: "char \<Rightarrow> nat option" where
  "hex_value c = (if isdigit c then Some (byte_of c - 48)
     else if 97 \<le> byte_of c \<and> byte_of c \<le> 102 then Some (byte_of c - 87) else None)"

lemma hex_value_digit: "d < 16 \<Longrightarrow> hex_value (hex_digit d) = Some d"
  by (auto simp: hex_value_def hex_digit_def isdigit_def)

lemma hex_digit_inject: "d < 16 \<Longrightarrow> e < 16 \<Longrightarrow> hex_digit d = hex_digit e \<longleftrightarrow> d = e"
  by (metis hex_value_digit option.inject)

lemma hex_digit_isalnum: "d < 16 \<Longrightarrow> isalnum (hex_digit d)"
  by (auto simp: hex_digit_def isalnum_def isalpha_def isdigit_def)

lemma hex_encode_isalnum: "\<forall>b\<in>set bs. b < 256 \<Longrightarrow> c \<in> set (hex_encode bs) \<Longrightarrow> isalnum c"
  by (auto simp: hex_encode_def intro!: hex_digit_isalnum)

lemma length_hex_encode [simp]: "length (hex_encode bs) = 2 * length bs"
  by (induction bs) (auto simp: hex_encode_def)

lemma hex_encode_inject:
  "\<forall>b\<in>set bs. b < 256 \<Longrightarrow> \<forall>b\<in>set cs. b < 256 \<Longrightarrow> hex_encode bs = hex_encode cs \<Longrightarrow> bs = cs"
proof (induction bs arbitrary: cs)
  case Nil
  then show ?case by (cases cs) (auto simp: hex_encode_def)
next
  case (Cons b bs)
  then obtain d ds where cs: "cs = d # ds" by (cases cs) (auto simp: hex_encode_def)
  with Cons.prems have "hex_digit (b div 16) = hex_digit (d div 16)"
    "hex_digit (b mod 16) = hex_digit (d mod 16)" "hex_encode bs = hex_encode ds"
    by (auto simp: hex_encode_def)
  moreover have "b div 16 < 16" "d div 16 < 16"
    using Cons.prems cs by (simp_all add: less_mult_imp_div_less)
  with calculation(1,2) have "b div 16 = d div 16" "b mod 16 = d mod 16"
    by (simp_all add: hex_digit_inject)
  ultimately show ?case
    using Cons cs by (metis div_mult_mod_eq list.set_intros(2))
qed

text \<open>\<^verbatim>\<open>std::from_chars\<close> on a 64-bit unsigned target, when it succeeds and consumes the whole text.\<close>

definition from_chars_u64 :: "string \<Rightarrow> nat option" where
  "from_chars_u64 s =
     (if s = [] \<or> \<not> list_all isdigit s then None
      else if 2 ^ 64 \<le> dec_value s then None else Some (dec_value s))"

lemma from_chars_to_string: "n < 2 ^ 64 \<Longrightarrow> from_chars_u64 (to_string_nat n) = Some n"
  using to_string_nat_digits [of n] by (simp add: from_chars_u64_def list_all_iff)

section \<open>Lists\<close>

lemma find_Some_split:
  "find P xs = Some x \<Longrightarrow> \<exists>ys zs. xs = ys @ x # zs \<and> P x \<and> (\<forall>y\<in>set ys. \<not> P y)"
proof (induction xs)
  case (Cons a xs)
  show ?case
  proof (cases "P a")
    case True
    with Cons.prems have "a # xs = [] @ x # xs \<and> P x \<and> (\<forall>y\<in>set []. \<not> P y)" by simp
    then show ?thesis by blast
  next
    case False
    with Cons obtain ys zs where "xs = ys @ x # zs" "P x" "\<forall>y\<in>set ys. \<not> P y" by auto
    with False have "a # xs = (a # ys) @ x # zs \<and> P x \<and> (\<forall>y\<in>set (a # ys). \<not> P y)" by simp
    then show ?thesis by blast
  qed
qed simp

end
