(* ===== verification/Http_Message.thy ===== *)
theory Http_Message
  imports Nova_Prelude
begin

text \<open>
  The HTTP message types every transport and middleware shares:
  \<^verbatim>\<open>HeaderMap\<close> (\<^verbatim>\<open>src/http3/header_map.cpp\<close>), \<^verbatim>\<open>PathParams\<close>
  (\<^verbatim>\<open>include/novaboot/router/path_params.h\<close>), \<^verbatim>\<open>Request\<close> with its query-string parser
  (\<^verbatim>\<open>src/http3/request.cpp\<close>) and the \<^verbatim>\<open>Response\<close> builder
  (\<^verbatim>\<open>include/novaboot/http3/response.h\<close>). The interface \<open>header_store\<close> states the lookup laws
  clients of a header map rely on.
\<close>

section \<open>HeaderMap\<close>

record Entry =
  hname :: string
  hvalue :: string

type_synonym header_map = "Entry list"

definition names_equal :: "string \<Rightarrow> string \<Rightarrow> bool" where
  "names_equal a b \<longleftrightarrow>
     length a = length b \<and> list_all2 (\<lambda>x y. tolower x = tolower y) a b"

definition HeaderMap_add :: "header_map \<Rightarrow> string \<Rightarrow> string \<Rightarrow> header_map" where
  "HeaderMap_add m n v = m @ [\<lparr>hname = n, hvalue = v\<rparr>]"

fun HeaderMap_set :: "header_map \<Rightarrow> string \<Rightarrow> string \<Rightarrow> header_map" where
  "HeaderMap_set [] n v = HeaderMap_add [] n v"
| "HeaderMap_set (e # es) n v =
     (if names_equal (hname e) n then e\<lparr>hvalue := v\<rparr> # es else e # HeaderMap_set es n v)"

fun HeaderMap_get :: "header_map \<Rightarrow> string \<Rightarrow> string option" where
  "HeaderMap_get [] n = None"
| "HeaderMap_get (e # es) n =
     (if names_equal (hname e) n then Some (hvalue e) else HeaderMap_get es n)"

fun HeaderMap_get_all :: "header_map \<Rightarrow> string \<Rightarrow> string list" where
  "HeaderMap_get_all [] n = []"
| "HeaderMap_get_all (e # es) n =
     (if names_equal (hname e) n then hvalue e # HeaderMap_get_all es n
      else HeaderMap_get_all es n)"

definition HeaderMap_has :: "header_map \<Rightarrow> string \<Rightarrow> bool" where
  "HeaderMap_has m n \<longleftrightarrow> HeaderMap_get m n \<noteq> None"

definition HeaderMap_remove :: "header_map \<Rightarrow> string \<Rightarrow> header_map" where
  "HeaderMap_remove m n = filter (\<lambda>e. \<not> names_equal (hname e) n) m"

text \<open>Names are compared by an equivalence, so lookups may replace one spelling by another.\<close>

lemma names_equal_iff: "names_equal a b \<longleftrightarrow> map tolower a = map tolower b"
proof -
  have "list_all2 (\<lambda>x y. tolower x = tolower y) a b \<longleftrightarrow> map tolower a = map tolower b"
    by (auto simp: list_all2_conv_all_nth list_eq_iff_nth_eq)
  then show ?thesis
    using map_eq_imp_length_eq by (auto simp: names_equal_def)
qed

lemma names_equal_refl [simp]: "names_equal a a"
  by (simp add: names_equal_iff)

lemma names_equal_sym: "names_equal a b \<longleftrightarrow> names_equal b a"
  by (auto simp: names_equal_iff)

lemma names_equal_trans: "names_equal a b \<Longrightarrow> names_equal b c \<Longrightarrow> names_equal a c"
  by (simp add: names_equal_iff)

lemma HeaderMap_get_cong: "names_equal n n' \<Longrightarrow> HeaderMap_get m n = HeaderMap_get m n'"
  by (induction m) (auto simp: names_equal_iff)

lemma HeaderMap_get_add:
  "HeaderMap_get (HeaderMap_add m n v) n' =
     (case HeaderMap_get m n' of Some x \<Rightarrow> Some x
      | None \<Rightarrow> if names_equal n n' then Some v else None)"
  by (induction m) (auto simp: HeaderMap_add_def split: option.splits)

lemma HeaderMap_get_set:
  "HeaderMap_get (HeaderMap_set m n v) n' =
     (if names_equal n n' then Some v else HeaderMap_get m n')"
  by (induction m) (auto simp: HeaderMap_add_def names_equal_iff)

lemma HeaderMap_get_remove:
  "HeaderMap_get (HeaderMap_remove m n) n' =
     (if names_equal n n' then None else HeaderMap_get m n')"
  by (induction m) (auto simp: HeaderMap_remove_def names_equal_iff)

lemma HeaderMap_get_all_add:
  "HeaderMap_get_all (HeaderMap_add m n v) n' =
     HeaderMap_get_all m n' @ (if names_equal n n' then [v] else [])"
  by (induction m) (auto simp: HeaderMap_add_def)

lemma HeaderMap_get_all_set:
  "HeaderMap_get_all (HeaderMap_set m n v) n' =
     (if names_equal n n' then v # tl (HeaderMap_get_all m n') else HeaderMap_get_all m n')"
  by (induction m) (auto simp: HeaderMap_add_def names_equal_iff)

lemma HeaderMap_get_eq_hd:
  "HeaderMap_get m n = (case HeaderMap_get_all m n of [] \<Rightarrow> None | v # _ \<Rightarrow> Some v)"
  by (induction m) auto

subsection \<open>The interface clients of a header map use\<close>

locale header_store =
  fixes hget :: "'m \<Rightarrow> string \<Rightarrow> string option"
    and hadd :: "'m \<Rightarrow> string \<Rightarrow> string \<Rightarrow> 'm"
    and hset :: "'m \<Rightarrow> string \<Rightarrow> string \<Rightarrow> 'm"
    and same :: "string \<Rightarrow> string \<Rightarrow> bool"
  assumes get_add: "hget (hadd m n v) n' =
      (case hget m n' of Some x \<Rightarrow> Some x | None \<Rightarrow> if same n n' then Some v else None)"
    and get_set: "hget (hset m n v) n' = (if same n n' then Some v else hget m n')"
    and same_refl: "same n n"
    and get_same: "same n n' \<Longrightarrow> hget m n = hget m n'"
begin

lemma set_then_get: "hget (hset m n v) n = Some v"
  by (simp add: get_set same_refl)

lemma set_set: "hget (hset (hset m n v) n w) n' = hget (hset m n w) n'"
  by (simp add: get_set)

lemma add_keeps: "hget m n' = Some x \<Longrightarrow> hget (hadd m n v) n' = Some x"
  by (simp add: get_add)

lemma add_absent: "hget m n = None \<Longrightarrow> hget (hadd m n v) n = Some v"
  by (simp add: get_add same_refl)

text \<open>The shape of \<^verbatim>\<open>set_if_absent\<close>: a value the handler chose survives, a missing one appears.\<close>

lemma add_if_absent:
  "hget (if hget m n = None then hadd m n v else m) n' =
     (if hget m n' = None \<and> same n n' then Some v else hget m n')"
  using get_same [of n n' m] by (auto simp: get_add split: option.splits)

end

interpretation hm: header_store HeaderMap_get HeaderMap_add HeaderMap_set names_equal
  by unfold_locales (auto simp: HeaderMap_get_add HeaderMap_get_set HeaderMap_get_cong)

section \<open>PathParams\<close>

type_synonym path_params = "string \<rightharpoonup> string"

definition PathParams_set :: "path_params \<Rightarrow> string \<Rightarrow> string \<Rightarrow> path_params" where
  "PathParams_set p n v = p(n \<mapsto> v)"

definition PathParams_get :: "path_params \<Rightarrow> string \<Rightarrow> string option" where
  "PathParams_get p n = p n"

definition PathParams_has :: "path_params \<Rightarrow> string \<Rightarrow> bool" where
  "PathParams_has p n \<longleftrightarrow> p n \<noteq> None"

definition PathParams_remove :: "path_params \<Rightarrow> string \<Rightarrow> path_params" where
  "PathParams_remove p n = p(n := None)"

lemmas PathParams_defs = PathParams_set_def PathParams_get_def PathParams_has_def
  PathParams_remove_def

section \<open>Request\<close>

record request =
  req_method :: string
  req_path :: string
  req_scheme :: string
  req_authority :: string
  req_peer_address :: string
  req_client_address :: string
  req_headers :: header_map
  req_body :: string
  req_path_params :: path_params
  req_headers_complete :: bool
  req_body_complete :: bool

definition empty_request :: request where
  "empty_request = \<lparr>req_method = [], req_path = [], req_scheme = [], req_authority = [],
     req_peer_address = [], req_client_address = [], req_headers = [], req_body = [],
     req_path_params = Map.empty, req_headers_complete = False, req_body_complete = False\<rparr>"

definition set_peer_address :: "request \<Rightarrow> string \<Rightarrow> request" where
  "set_peer_address r a = r\<lparr>req_peer_address := a, req_client_address := a\<rparr>"

definition request_header :: "request \<Rightarrow> string \<Rightarrow> string option" where
  "request_header r n = HeaderMap_get (req_headers r) n"

definition append_body :: "request \<Rightarrow> string \<Rightarrow> request" where
  "append_body r d = r\<lparr>req_body := req_body r @ d\<rparr>"

definition content_length :: "request \<Rightarrow> nat" where
  "content_length r = length (req_body r)"

definition query_string :: "request \<Rightarrow> string" where
  "query_string r = (case find_ch CHR ''?'' (req_path r) of
       None \<Rightarrow> []
     | Some q \<Rightarrow> drop (q + 1) (req_path r))"

function query_loop :: "string \<Rightarrow> string \<Rightarrow> string option" where
  "query_loop name remaining =
     (if remaining = [] then None
      else
        let amp = find_ch CHR ''&'' remaining;
            pair = substr_upto amp remaining;
            eq = find_ch CHR ''='' pair;
            key = substr_upto eq pair
        in if key = name then
             (case eq of Some e \<Rightarrow> Some (drop (e + 1) pair) | None \<Rightarrow> Some [])
           else case amp of
             None \<Rightarrow> None
           | Some a \<Rightarrow> query_loop name (drop (a + 1) remaining))"
  by pat_completeness auto
termination
  by (relation "measure (\<lambda>(n, s). length s)") (auto dest: find_ch_SomeD(1))

declare query_loop.simps [simp del]

definition query_param :: "request \<Rightarrow> string \<Rightarrow> string option" where
  "query_param r name =
     (let qs = query_string r in if qs = [] then None else query_loop name qs)"

text \<open>
  Reference reading of a query string: the list of its \<open>&\<close>-separated pairs, each cut at its
  first equals sign, searched for the first pair with the key.
\<close>

definition query_pair :: "string \<Rightarrow> string \<times> string" where
  "query_pair p = (case find_ch CHR ''='' p of
       None \<Rightarrow> (p, [])
     | Some e \<Rightarrow> (take e p, drop (e + 1) p))"

lemma query_loop_map_of:
  "query_loop name s = map_of (map query_pair (segs CHR ''&'' s)) name"
proof (induction name s rule: query_loop.induct)
  case (1 name s)
  show ?case
  proof (cases "find_ch CHR ''&'' s")
    case None
    then show ?thesis
      by (simp add: query_loop.simps [of name s] segs.simps [of _ s] query_pair_def substr_upto_def
          split: option.split)
  next
    case (Some a)
    then show ?thesis
      using 1 [OF _ refl refl refl refl _ Some]
      by (auto simp: query_loop.simps [of name s] segs.simps [of _ s] query_pair_def substr_upto_def
          split: option.splits)
  qed
qed

section \<open>Response\<close>

record response =
  status_code :: int
  res_headers :: header_map
  res_body :: string
  sse_channel :: "nat option"
  submitted :: bool
  bytes_sent :: nat
  bytes_provided :: nat

definition default_response :: response where
  "default_response = \<lparr>status_code = 200, res_headers = [], res_body = [], sse_channel = None,
     submitted = False, bytes_sent = 0, bytes_provided = 0\<rparr>"

definition Response_status :: "response \<Rightarrow> int \<Rightarrow> response" where
  "Response_status r code = r\<lparr>status_code := code\<rparr>"

definition Response_header :: "response \<Rightarrow> string \<Rightarrow> string \<Rightarrow> response" where
  "Response_header r n v = r\<lparr>res_headers := HeaderMap_add (res_headers r) n v\<rparr>"

definition Response_body :: "response \<Rightarrow> string \<Rightarrow> response" where
  "Response_body r d = r\<lparr>res_body := d\<rparr>"

definition Response_json :: "response \<Rightarrow> string \<Rightarrow> response" where
  "Response_json r j = r\<lparr>
     res_headers := HeaderMap_set (res_headers r) ''content-type'' ''application/json'',
     res_body := j\<rparr>"

definition Response_text :: "response \<Rightarrow> string \<Rightarrow> response" where
  "Response_text r t = r\<lparr>
     res_headers := HeaderMap_set (res_headers r) ''content-type'' ''text/plain; charset=utf-8'',
     res_body := t\<rparr>"

text \<open>Characters a download file name keeps; the double quote is byte 34, the backslash byte 92.\<close>

definition download_safe_char :: "char \<Rightarrow> bool" where
  "download_safe_char c \<longleftrightarrow>
     byte_of c \<ge> 32 \<and> byte_of c \<noteq> 34 \<and> byte_of c \<noteq> 92 \<and> c \<noteq> CHR ''/'' \<and> c \<noteq> CHR '':''"

definition download_safe_name :: "string \<Rightarrow> string" where
  "download_safe_name filename =
     (let s = map (\<lambda>c. if download_safe_char c then c else CHR ''_'') filename
      in if s = [] then ''download'' else s)"

definition Response_download :: "response \<Rightarrow> string \<Rightarrow> string \<Rightarrow> response" where
  "Response_download r filename content_type =
     (let h1 = HeaderMap_set (res_headers r) ''content-type'' content_type;
          h2 = HeaderMap_set h1 ''content-disposition''
                 (''attachment; filename='' @ [CHR 0x22] @ download_safe_name filename @ [CHR 0x22])
      in r\<lparr>res_headers := h2\<rparr>)"

definition Response_event_stream :: "response \<Rightarrow> nat \<Rightarrow> response" where
  "Response_event_stream r ch = r\<lparr>sse_channel := Some ch\<rparr>"

definition mark_submitted :: "response \<Rightarrow> response" where
  "mark_submitted r = r\<lparr>submitted := True\<rparr>"

definition add_bytes_sent :: "response \<Rightarrow> nat \<Rightarrow> response" where
  "add_bytes_sent r n = r\<lparr>bytes_sent := (bytes_sent r + n) mod 2 ^ 64\<rparr>"

definition add_bytes_provided :: "response \<Rightarrow> nat \<Rightarrow> response" where
  "add_bytes_provided r n = r\<lparr>bytes_provided := (bytes_provided r + n) mod 2 ^ 64\<rparr>"

definition is_body_complete :: "response \<Rightarrow> bool" where
  "is_body_complete r \<longleftrightarrow> bytes_sent r \<ge> length (res_body r)"

lemmas response_defs = Response_status_def Response_header_def Response_body_def
  Response_json_def Response_text_def

lemma download_safe_name_chars: "c \<in> set (download_safe_name f) \<Longrightarrow> download_safe_char c"
  by (auto simp: download_safe_name_def download_safe_char_def Let_def split: if_splits)

end
