(* ===== verification/Route_Tree.thy ===== *)
theory Route_Tree
  imports Http_Message
begin

text \<open>
  The URL router (\<^verbatim>\<open>src/router/router.cpp\<close>, \<^verbatim>\<open>include/novaboot/router/router.h\<close>,
  \<^verbatim>\<open>include/novaboot/router/route.h\<close>): a tree of path segments with static, parameter and
  wildcard children, the insertion and the backtracking search for HTTP and WebSocket routes.
  The abstract specification is a table of patterns with a matching predicate; the lemmas show
  that the tree built by any sequence of registrations refines that table.
\<close>

section \<open>Methods\<close>

datatype Method = GET | POST | PUT | DELETE | PATCH | HEAD | OPTIONS | ANY

definition method_from_string :: "string \<Rightarrow> Method" where
  "method_from_string s =
     (if s = ''GET'' then GET
      else if s = ''POST'' then POST
      else if s = ''PUT'' then PUT
      else if s = ''DELETE'' then DELETE
      else if s = ''PATCH'' then PATCH
      else if s = ''HEAD'' then HEAD
      else if s = ''OPTIONS'' then OPTIONS
      else ANY)"

definition method_to_string :: "Method \<Rightarrow> string" where
  "method_to_string m = (case m of
       GET \<Rightarrow> ''GET'' | POST \<Rightarrow> ''POST'' | PUT \<Rightarrow> ''PUT'' | DELETE \<Rightarrow> ''DELETE''
     | PATCH \<Rightarrow> ''PATCH'' | HEAD \<Rightarrow> ''HEAD'' | OPTIONS \<Rightarrow> ''OPTIONS'' | ANY \<Rightarrow> ''*'')"

section \<open>The tree\<close>

text \<open>
  \<open>'h\<close> stands for HTTP handlers and \<open>'w\<close> for WebSocket handlers, which the router only stores
  and returns. The array of handlers indexed by method is a function; an empty slot is \<^const>\<open>None\<close>.
\<close>

datatype ('h, 'w) Node = Node
  (n_segment: string)
  (n_handlers: "Method \<Rightarrow> 'h option")
  (n_websocket_handler: "'w option")
  (n_children: "('h, 'w) Node list")
  (n_param_child: "('h, 'w) Node option")
  (n_param_name: string)
  (n_wildcard_child: "('h, 'w) Node option")
  (n_wildcard_name: string)

definition new_node :: "string \<Rightarrow> ('h, 'w) Node" where
  "new_node seg = Node seg (\<lambda>_. None) None [] None [] None []"

definition get_handler :: "('h, 'w) Node \<Rightarrow> Method \<Rightarrow> 'h option" where
  "get_handler n m = (case n_handlers n m of Some h \<Rightarrow> Some h | None \<Rightarrow> n_handlers n ANY)"

definition has_handler :: "('h, 'w) Node \<Rightarrow> Method \<Rightarrow> bool" where
  "has_handler n m \<longleftrightarrow> n_handlers n m \<noteq> None \<or> n_handlers n ANY \<noteq> None"

text \<open>The next segment of a remaining path and what follows its slash.\<close>

definition split_segment :: "string \<Rightarrow> string \<times> string" where
  "split_segment remaining =
     (let slash_pos = find_ch CHR ''/'' remaining
      in (substr_upto slash_pos remaining,
          case slash_pos of None \<Rightarrow> [] | Some k \<Rightarrow> drop (k + 1) remaining))"

lemma split_segment_shorter:
  "remaining \<noteq> [] \<Longrightarrow> split_segment remaining = (s, r) \<Longrightarrow> length r < length remaining"
  by (auto simp: split_segment_def Let_def split: option.splits dest: find_ch_SomeD(1))

definition is_wildcard :: "string \<Rightarrow> bool" where
  "is_wildcard seg \<longleftrightarrow> seg \<noteq> [] \<and> hd seg = CHR ''*''"

definition is_param :: "string \<Rightarrow> bool" where
  "is_param seg \<longleftrightarrow> seg \<noteq> [] \<and> hd seg = CHR '':''"

fun set_handler :: "('h, 'w) Node \<Rightarrow> Method \<Rightarrow> 'h \<Rightarrow> ('h, 'w) Node" where
  "set_handler (Node sg hs ws cs pc pn wc wn) m h = Node sg (hs(m \<mapsto> h)) ws cs pc pn wc wn"

fun set_websocket :: "('h, 'w) Node \<Rightarrow> 'w \<Rightarrow> ('h, 'w) Node" where
  "set_websocket (Node sg hs ws cs pc pn wc wn) w = Node sg hs (Some w) cs pc pn wc wn"

text \<open>The loop that looks for a static child: the position of the first with the segment.\<close>

fun find_child :: "string \<Rightarrow> ('h, 'w) Node list \<Rightarrow> nat option" where
  "find_child seg [] = None"
| "find_child seg (c # cs) =
     (if n_segment c = seg then Some 0 else map_option Suc (find_child seg cs))"

function insert_route :: "('h, 'w) Node \<Rightarrow> string \<Rightarrow> Method \<Rightarrow> 'h \<Rightarrow> ('h, 'w) Node" where
  "insert_route (Node sg hs ws cs pc pn wc wn) remaining m h =
     (if remaining = [] then Node sg (hs(m \<mapsto> h)) ws cs pc pn wc wn
      else
        let (segment, rest) = split_segment remaining
        in if is_wildcard segment then
             (case wc of
                None \<Rightarrow> Node sg hs ws cs pc pn (Some (set_handler (new_node []) m h)) (tl segment)
              | Some w \<Rightarrow> Node sg hs ws cs pc pn (Some (set_handler w m h)) wn)
           else if is_param segment then
             (case pc of
                None \<Rightarrow> Node sg hs ws cs (Some (insert_route (new_node []) rest m h)) (tl segment) wc wn
              | Some c \<Rightarrow> Node sg hs ws cs (Some (insert_route c rest m h)) pn wc wn)
           else
             (case find_child segment cs of
                Some i \<Rightarrow> Node sg hs ws (cs[i := insert_route (cs ! i) rest m h]) pc pn wc wn
              | None \<Rightarrow>
                  Node sg hs ws (cs @ [insert_route (new_node segment) rest m h]) pc pn wc wn))"
  by pat_completeness auto
termination
  by (relation "measure (\<lambda>(n, r, m, h). length r)") (auto dest: split_segment_shorter [OF _ sym])

function insert_websocket :: "('h, 'w) Node \<Rightarrow> string \<Rightarrow> 'w \<Rightarrow> ('h, 'w) Node" where
  "insert_websocket (Node sg hs ws cs pc pn wc wn) remaining h =
     (if remaining = [] then Node sg hs (Some h) cs pc pn wc wn
      else
        let (segment, rest) = split_segment remaining
        in if is_wildcard segment then
             (case wc of
                None \<Rightarrow> Node sg hs ws cs pc pn (Some (set_websocket (new_node []) h)) (tl segment)
              | Some w \<Rightarrow> Node sg hs ws cs pc pn (Some (set_websocket w h)) wn)
           else if is_param segment then
             (case pc of
                None \<Rightarrow> Node sg hs ws cs (Some (insert_websocket (new_node []) rest h)) (tl segment) wc wn
              | Some c \<Rightarrow> Node sg hs ws cs (Some (insert_websocket c rest h)) pn wc wn)
           else
             (case find_child segment cs of
                Some i \<Rightarrow> Node sg hs ws (cs[i := insert_websocket (cs ! i) rest h]) pc pn wc wn
              | None \<Rightarrow>
                  Node sg hs ws (cs @ [insert_websocket (new_node segment) rest h]) pc pn wc wn))"
  by pat_completeness auto
termination
  by (relation "measure (\<lambda>(n, r, h). length r)") (auto dest: split_segment_shorter [OF _ sym])

declare insert_route.simps [simp del] insert_websocket.simps [simp del]

section \<open>Search\<close>

text \<open>
  The parameters are passed by reference and keep what a failed branch wrote, so the model
  returns them beside the handler on every path.
\<close>

function search :: "('h, 'w) Node \<Rightarrow> Method \<Rightarrow> string \<Rightarrow> path_params \<Rightarrow> 'h option \<times> path_params"
  and search_children ::
    "('h, 'w) Node list \<Rightarrow> Method \<Rightarrow> string \<Rightarrow> string \<Rightarrow> path_params \<Rightarrow> 'h option \<times> path_params"
  where
  "search n m remaining params =
     (if remaining = [] then (get_handler n m, params)
      else
        let (segment, rest) = split_segment remaining;
            (h1, params1) = search_children (n_children n) m segment rest params
        in if h1 \<noteq> None then (h1, params1)
           else
             let (h2, params2) = (case n_param_child n of
                   None \<Rightarrow> (None, params1)
                 | Some c \<Rightarrow> search c m rest (PathParams_set params1 (n_param_name n) segment))
             in if h2 \<noteq> None then (h2, params2)
                else case n_wildcard_child n of
                  None \<Rightarrow> (None, params2)
                | Some w \<Rightarrow>
                    (get_handler w m, PathParams_set params2 (n_wildcard_name n) remaining))"
| "search_children [] m segment rest params = (None, params)"
| "search_children (c # cs) m segment rest params =
     (if n_segment c = segment then
        let (h, params1) = search c m rest params
        in if h \<noteq> None then (h, params1) else search_children cs m segment rest params1
      else search_children cs m segment rest params)"
  by pat_completeness auto
termination
  by (relation "measures
      [case_sum (\<lambda>(n, m, r, p). length r) (\<lambda>(cs, m, s, r, p). length r),
       case_sum (\<lambda>_. 0) (\<lambda>(cs, m, s, r, p). Suc (length cs))]")
     (auto dest: split_segment_shorter [OF _ sym])

function search_websocket ::
    "('h, 'w) Node \<Rightarrow> string \<Rightarrow> path_params \<Rightarrow> 'w option \<times> path_params"
  and search_websocket_children ::
    "('h, 'w) Node list \<Rightarrow> string \<Rightarrow> string \<Rightarrow> path_params \<Rightarrow> 'w option \<times> path_params"
  where
  "search_websocket n remaining params =
     (if remaining = [] then (n_websocket_handler n, params)
      else
        let (segment, rest) = split_segment remaining;
            (h1, params1) = search_websocket_children (n_children n) segment rest params
        in if h1 \<noteq> None then (h1, params1)
           else
             let (h2, params2) = (case n_param_child n of
                   None \<Rightarrow> (None, params1)
                 | Some c \<Rightarrow>
                     (let (h, p) = search_websocket c rest
                            (PathParams_set params1 (n_param_name n) segment)
                      in if h \<noteq> None then (h, p) else (None, PathParams_remove p (n_param_name n))))
             in if h2 \<noteq> None then (h2, params2)
                else case n_wildcard_child n of
                  None \<Rightarrow> (None, params2)
                | Some w \<Rightarrow>
                    if n_websocket_handler w \<noteq> None
                    then (n_websocket_handler w,
                          PathParams_set params2 (n_wildcard_name n) remaining)
                    else (None, params2))"
| "search_websocket_children [] segment rest params = (None, params)"
| "search_websocket_children (c # cs) segment rest params =
     (if n_segment c = segment then
        let (h, params1) = search_websocket c rest params
        in if h \<noteq> None then (h, params1) else search_websocket_children cs segment rest params1
      else search_websocket_children cs segment rest params)"
  by pat_completeness auto
termination
  by (relation "measures
      [case_sum (\<lambda>(n, r, p). length r) (\<lambda>(cs, s, r, p). length r),
       case_sum (\<lambda>_. 0) (\<lambda>(cs, s, r, p). Suc (length cs))]")
     (auto dest: split_segment_shorter [OF _ sym])

declare search.simps [simp del] search_websocket.simps [simp del]

section \<open>Router\<close>

record ('h, 'w) router =
  root :: "('h, 'w) Node"
  route_count :: nat
  route_infos :: "(Method \<times> string) list"
  websocket_route_infos :: "string list"

definition empty_router :: "('h, 'w) router" where
  "empty_router = \<lparr>root = new_node [], route_count = 0, route_infos = [],
     websocket_route_infos = []\<rparr>"

definition add_route :: "('h, 'w) router \<Rightarrow> Method \<Rightarrow> string \<Rightarrow> 'h \<Rightarrow> ('h, 'w) router result" where
  "add_route r m pattern h =
     (if pattern = [] \<or> hd pattern \<noteq> CHR ''/''
      then Inl (Invalid_argument (''Route pattern must start with '' @ [CHR 0x27, CHR ''/'', CHR 0x27]))
      else Inr (r\<lparr>root := insert_route (root r) (tl pattern) m h,
                 route_count := route_count r + 1,
                 route_infos := route_infos r @ [(m, pattern)]\<rparr>))"

definition add_websocket :: "('h, 'w) router \<Rightarrow> string \<Rightarrow> 'w \<Rightarrow> ('h, 'w) router result" where
  "add_websocket r pattern h =
     (if pattern = [] \<or> hd pattern \<noteq> CHR ''/''
      then Inl (Invalid_argument (''WebSocket route pattern must start with '' @ [CHR 0x27, CHR ''/'', CHR 0x27]))
      else Inr (r\<lparr>root := insert_websocket (root r) (tl pattern) h,
                 websocket_route_infos := websocket_route_infos r @ [pattern]\<rparr>))"

definition strip_query :: "string \<Rightarrow> string" where
  "strip_query path = substr_upto (find_ch CHR ''?'' path) path"

definition match_route ::
    "('h, 'w) router \<Rightarrow> Method \<Rightarrow> string \<Rightarrow> 'h option \<times> path_params" where
  "match_route r m path0 =
     (let path = strip_query path0
      in if path = [] \<or> hd path \<noteq> CHR ''/'' then (None, Map.empty)
         else let (h, params) = search (root r) m (tl path) Map.empty
              in if h \<noteq> None then (h, params) else (None, Map.empty))"

definition match_string ::
    "('h, 'w) router \<Rightarrow> string \<Rightarrow> string \<Rightarrow> 'h option \<times> path_params" where
  "match_string r m path = match_route r (method_from_string m) path"

definition match_websocket :: "('h, 'w) router \<Rightarrow> string \<Rightarrow> 'w option \<times> path_params" where
  "match_websocket r path0 =
     (let path = strip_query path0
      in if path = [] \<or> hd path \<noteq> CHR ''/'' then (None, Map.empty)
         else let (h, params) = search_websocket (root r) (tl path) Map.empty
              in if h \<noteq> None then (h, params) else (None, Map.empty))"

text \<open>The fluent builders: each verb forwards to \<^const>\<open>add_route\<close> with its method constant.\<close>

datatype verb = V_get | V_post | V_put | V_del | V_patch | V_head | V_options | V_any

definition verb_method :: "verb \<Rightarrow> Method" where
  "verb_method v = (case v of
       V_get \<Rightarrow> GET | V_post \<Rightarrow> POST | V_put \<Rightarrow> PUT | V_del \<Rightarrow> DELETE
     | V_patch \<Rightarrow> PATCH | V_head \<Rightarrow> HEAD | V_options \<Rightarrow> OPTIONS | V_any \<Rightarrow> ANY)"

definition RouteBuilder_call ::
    "('h, 'w) router \<Rightarrow> string \<Rightarrow> verb \<Rightarrow> 'h \<Rightarrow> ('h, 'w) router result" where
  "RouteBuilder_call r path v h = add_route r (verb_method v) path h"

definition join_path :: "string \<Rightarrow> string \<Rightarrow> string" where
  "join_path base rel =
     (if rel = [] then base
      else if base = [] then rel
      else if last base = CHR ''/'' \<and> hd rel = CHR ''/'' then butlast base @ rel
      else if last base \<noteq> CHR ''/'' \<and> hd rel \<noteq> CHR ''/'' then base @ [CHR ''/''] @ rel
      else base @ rel)"

definition RouterGroup_call ::
    "('h, 'w) router \<Rightarrow> string \<Rightarrow> verb \<Rightarrow> string \<Rightarrow> 'h \<Rightarrow> ('h, 'w) router result" where
  "RouterGroup_call r prefix v path h = add_route r (verb_method v) (join_path prefix path) h"

section \<open>Specification: a table of patterns\<close>

text \<open>
  A pattern is a list of segment patterns; what follows a wildcard segment is ignored. A path
  remainder matches when its segments match one by one; a wildcard needs at least one more
  character. The same text splitting is used for patterns and for paths.
\<close>

datatype pseg = is_static: PStatic string | PParam | PWild

function parse_pattern :: "string \<Rightarrow> pseg list" where
  "parse_pattern remaining =
     (if remaining = [] then []
      else let (segment, rest) = split_segment remaining
           in if is_wildcard segment then [PWild]
              else if is_param segment then PParam # parse_pattern rest
              else PStatic segment # parse_pattern rest)"
  by pat_completeness auto
termination
  by (relation "measure length") (auto dest: split_segment_shorter [OF _ sym])

declare parse_pattern.simps [simp del]

fun pmatch :: "pseg list \<Rightarrow> string \<Rightarrow> bool" where
  "pmatch [] remaining = (remaining = [])"
| "pmatch (p # ps) remaining =
     (remaining \<noteq> [] \<and>
      (let (segment, rest) = split_segment remaining
       in case p of
            PWild \<Rightarrow> True
          | PParam \<Rightarrow> pmatch ps rest
          | PStatic s \<Rightarrow> s = segment \<and> pmatch ps rest))"

text \<open>A pattern string matches a request path (query string stripped).\<close>

definition pattern_matches :: "string \<Rightarrow> string \<Rightarrow> bool" where
  "pattern_matches pattern path0 \<longleftrightarrow>
     (let path = strip_query path0
      in path \<noteq> [] \<and> hd path = CHR ''/'' \<and> pmatch (parse_pattern (tl pattern)) (tl path))"

text \<open>What a tree denotes: the handlers its slots hold, addressed by patterns.\<close>

fun denotes ::
    "(('h, 'w) Node \<Rightarrow> 'k \<Rightarrow> 'x option) \<Rightarrow> ('h, 'w) Node \<Rightarrow> pseg list \<Rightarrow> 'k \<Rightarrow> 'x \<Rightarrow> bool" where
  "denotes sl n [] k x = (sl n k = Some x)"
| "denotes sl n (PStatic s # ps) k x =
     (\<exists>c\<in>set (n_children n). n_segment c = s \<and> denotes sl c ps k x)"
| "denotes sl n (PParam # ps) k x =
     (case n_param_child n of None \<Rightarrow> False | Some c \<Rightarrow> denotes sl c ps k x)"
| "denotes sl n (PWild # ps) k x =
     (ps = [] \<and> (case n_wildcard_child n of None \<Rightarrow> False | Some w \<Rightarrow> sl w k = Some x))"

definition ws_slot :: "('h, 'w) Node \<Rightarrow> unit \<Rightarrow> 'w option" where
  "ws_slot n k = n_websocket_handler n"

subsection \<open>Insertion, once for both kinds of handler\<close>

function insert_gen ::
    "(('h, 'w) Node \<Rightarrow> ('h, 'w) Node) \<Rightarrow> ('h, 'w) Node \<Rightarrow> string \<Rightarrow> ('h, 'w) Node" where
  "insert_gen upd (Node sg hs ws cs pc pn wc wn) remaining =
     (if remaining = [] then upd (Node sg hs ws cs pc pn wc wn)
      else
        let (segment, rest) = split_segment remaining
        in if is_wildcard segment then
             (case wc of
                None \<Rightarrow> Node sg hs ws cs pc pn (Some (upd (new_node []))) (tl segment)
              | Some w \<Rightarrow> Node sg hs ws cs pc pn (Some (upd w)) wn)
           else if is_param segment then
             (case pc of
                None \<Rightarrow> Node sg hs ws cs (Some (insert_gen upd (new_node []) rest)) (tl segment) wc wn
              | Some c \<Rightarrow> Node sg hs ws cs (Some (insert_gen upd c rest)) pn wc wn)
           else
             (case find_child segment cs of
                Some i \<Rightarrow> Node sg hs ws (cs[i := insert_gen upd (cs ! i) rest]) pc pn wc wn
              | None \<Rightarrow>
                  Node sg hs ws (cs @ [insert_gen upd (new_node segment) rest]) pc pn wc wn))"
  by pat_completeness auto
termination
  by (relation "measure (\<lambda>(u, n, r). length r)") (auto dest: split_segment_shorter [OF _ sym])

declare insert_gen.simps [simp del]

lemma insert_route_gen: "insert_route n remaining m h = insert_gen (\<lambda>n. set_handler n m h) n remaining"
proof (induction n remaining m h rule: insert_route.induct)
  case (1 sg hs ws cs pc pn wc wn remaining m h)
  obtain s r where sr: "split_segment remaining = (s, r)" by force
  show ?case
    using 1 [OF _ sr [symmetric] refl]
    by (simp add: insert_route.simps insert_gen.simps sr split: option.split)
qed

lemma insert_websocket_gen: "insert_websocket n remaining h = insert_gen (\<lambda>n. set_websocket n h) n remaining"
proof (induction n remaining h rule: insert_websocket.induct)
  case (1 sg hs ws cs pc pn wc wn remaining h)
  obtain s r where sr: "split_segment remaining = (s, r)" by force
  show ?case
    using 1 [OF _ sr [symmetric] refl]
    by (simp add: insert_websocket.simps insert_gen.simps sr split: option.split)
qed

lemma find_child_Some:
  "find_child seg cs = Some i \<Longrightarrow> i < length cs \<and> n_segment (cs ! i) = seg"
  by (induction cs arbitrary: i) (auto split: if_splits)

lemma find_child_None: "find_child seg cs = None \<longleftrightarrow> (\<forall>c\<in>set cs. n_segment c \<noteq> seg)"
  by (induction cs) auto

lemma bex_set_update:
  "i < length cs \<Longrightarrow>
     (\<exists>c\<in>set (cs[i := y]). P c) \<longleftrightarrow> P y \<or> (\<exists>j<length cs. j \<noteq> i \<and> P (cs ! j))"
  by (auto simp: Bex_def in_set_conv_nth nth_list_update)

lemma new_node_sel [simp]:
  "n_segment (new_node s) = s" "n_handlers (new_node s) = (\<lambda>_. None)"
  "n_websocket_handler (new_node s) = None" "n_children (new_node s) = []"
  "n_param_child (new_node s) = None" "n_wildcard_child (new_node s) = None"
  by (simp_all add: new_node_def)

text \<open>
  The interface insertion relies on: an update of one slot of a node that leaves the node's
  place in the tree alone.
\<close>

locale node_update =
  fixes upd :: "('h, 'w) Node \<Rightarrow> ('h, 'w) Node"
    and sl :: "('h, 'w) Node \<Rightarrow> 'k \<Rightarrow> 'x option"
    and rd :: "(Method \<Rightarrow> 'h option) \<Rightarrow> 'w option \<Rightarrow> 'k \<Rightarrow> 'x option"
  assumes slot_local: "sl (Node sg hs ws cs pc pn wc wn) k = rd hs ws k"
    and new_slot: "sl (new_node s) k = None"
    and upd_segment: "n_segment (upd n) = n_segment n"
    and upd_children: "n_children (upd n) = n_children n"
    and upd_param: "n_param_child (upd n) = n_param_child n"
    and upd_wildcard: "n_wildcard_child (upd n) = n_wildcard_child n"
begin

lemma new_denotes: "\<not> denotes sl (new_node s) ps k x"
  by (cases "(sl, new_node s :: ('h, 'w) Node, ps, k, x)" rule: denotes.cases) (auto simp: new_slot)

lemma insert_segment: "n_segment (insert_gen upd n remaining) = n_segment n"
  by (cases n) (auto simp: insert_gen.simps upd_segment split: prod.split option.split)

end

text \<open>An update that writes one slot, and one that leaves the slots \<open>sl\<close> reads alone.\<close>

locale slot_frame = node_update +
  assumes keep_slot: "sl (upd n) k = sl n k"
begin

lemma insert_frame: "denotes sl (insert_gen upd n remaining) ps k x \<longleftrightarrow> denotes sl n ps k x"
proof (induction remaining arbitrary: n ps rule: length_induct)
  case (1 remaining)
  obtain sg hs ws cs pc pn wc wn where n: "n = Node sg hs ws cs pc pn wc wn" by (cases n)
  show ?case
  proof (cases "remaining = []")
    case True
    then show ?thesis
      by (cases "(sl, n, ps, k, x)" rule: denotes.cases)
         (auto simp: n insert_gen.simps keep_slot upd_children upd_param upd_wildcard)
  next
    case False
    obtain s r where sr: "split_segment remaining = (s, r)" by force
    have IH: "\<And>c qs. denotes sl (insert_gen upd c r) qs k x \<longleftrightarrow> denotes sl c qs k x"
      using "1.IH" split_segment_shorter [OF False sr] by blast
    have child: "(\<exists>c\<in>set (cs[i := insert_gen upd (cs ! i) r]). n_segment c = t \<and> denotes sl c qs k x)
        \<longleftrightarrow> (\<exists>c\<in>set cs. n_segment c = t \<and> denotes sl c qs k x)" if "find_child s cs = Some i" for i t qs
      using find_child_Some [OF that]
        bex_set_update [of i cs "cs ! i" "\<lambda>c. n_segment c = t \<and> denotes sl c qs k x"]
      by (simp add: bex_set_update insert_segment IH)
    show ?thesis
      using False
      by (cases "(sl, n, ps, k, x)" rule: denotes.cases)
         (auto simp: n insert_gen.simps sr slot_local keep_slot new_slot new_denotes IH child
            insert_segment split: option.splits)
  qed
qed

end

locale slot_update = node_update +
  fixes k0 :: 'c and x0 :: 'd
  assumes upd_slot: "sl (upd n) k = (if k = k0 then Some x0 else sl n k)"
begin

lemmas upd_simps = upd_slot new_slot upd_segment upd_children upd_param upd_wildcard

lemma upd_denotes:
  "denotes sl (upd n) ps k x \<longleftrightarrow> (if ps = [] \<and> k = k0 then x = x0 else denotes sl n ps k x)"
  by (cases "(sl, n, ps, k, x)" rule: denotes.cases) (auto simp: upd_simps)

text \<open>Insertion adds the pattern and nothing else.\<close>

lemma insert_sound:
  "denotes sl (insert_gen upd n remaining) ps k x \<Longrightarrow>
     (ps = parse_pattern remaining \<and> k = k0 \<and> x = x0) \<or> denotes sl n ps k x"
proof (induction remaining arbitrary: n ps rule: length_induct)
  case (1 remaining)
  obtain sg hs ws cs pc pn wc wn where n: "n = Node sg hs ws cs pc pn wc wn" by (cases n)
  show ?case
  proof (cases "remaining = []")
    case True
    with "1.prems" show ?thesis
      by (auto simp: n insert_gen.simps upd_denotes parse_pattern.simps split: if_splits)
  next
    case False
    obtain s r where sr: "split_segment remaining = (s, r)" by force
    with False have IH: "\<And>c qs. denotes sl (insert_gen upd c r) qs k x \<Longrightarrow>
        (qs = parse_pattern r \<and> k = k0 \<and> x = x0) \<or> denotes sl c qs k x"
      using "1.IH" split_segment_shorter [OF False sr] by blast
    note IH' = IH [of "new_node _", simplified new_denotes simp_thms]
    have child: "\<exists>c\<in>set (cs[i := insert_gen upd (cs ! i) r]). n_segment c = t \<and> denotes sl c qs k x \<Longrightarrow>
        (t = s \<and> qs = parse_pattern r \<and> k = k0 \<and> x = x0) \<or>
        (\<exists>c\<in>set cs. n_segment c = t \<and> denotes sl c qs k x)" if "find_child s cs = Some i" for i t qs
      using find_child_Some [OF that] IH [of "cs ! i" qs]
      by (auto simp: bex_set_update insert_segment)
    show ?thesis
      using "1.prems" False
      by (cases "(sl, n, ps, k, x)" rule: denotes.cases)
         (auto simp: n insert_gen.simps parse_pattern.simps [of remaining] sr slot_local insert_segment
            upd_simps dest: IH IH' dest!: child split: if_splits option.splits)
  qed
qed

text \<open>Insertion keeps every address the tree had, and makes the new one available.\<close>

lemma insert_complete:
  "(ps = parse_pattern remaining \<and> k = k0) \<or> denotes sl n ps k x \<Longrightarrow>
     \<exists>y. denotes sl (insert_gen upd n remaining) ps k y"
proof (induction remaining arbitrary: n ps x rule: length_induct)
  case (1 remaining)
  obtain sg hs ws cs pc pn wc wn where n: "n = Node sg hs ws cs pc pn wc wn" by (cases n)
  show ?case
  proof (cases "remaining = []")
    case True
    with "1.prems" show ?thesis
      by (auto simp: n insert_gen.simps upd_denotes parse_pattern.simps)
  next
    case False
    obtain s r where sr: "split_segment remaining = (s, r)" by force
    have new: "\<And>c. k = k0 \<Longrightarrow> \<exists>y. denotes sl (insert_gen upd c r) (parse_pattern r) k0 y"
      and old: "\<And>c qs z. denotes sl c qs k z \<Longrightarrow> \<exists>y. denotes sl (insert_gen upd c r) qs k y"
      using "1.IH" split_segment_shorter [OF False sr] by blast+
    consider (wild) "is_wildcard s" | (param) "\<not> is_wildcard s" "is_param s"
      | (static) "\<not> is_wildcard s" "\<not> is_param s" by blast
    then show ?thesis
    proof cases
      case wild
      with "1.prems" False show ?thesis
        by (cases "(sl, n, ps, k, x)" rule: denotes.cases)
           (auto simp: n insert_gen.simps parse_pattern.simps [of remaining] sr slot_local upd_simps
              split: option.splits)
    next
      case param
      with "1.prems" False show ?thesis
        by (cases "(sl, n, ps, k, x)" rule: denotes.cases)
           (auto simp: n insert_gen.simps parse_pattern.simps [of remaining] sr slot_local
              intro: new old split: option.splits)
    next
      case static
      have child: "\<exists>y. \<exists>c\<in>set (cs[i := insert_gen upd (cs ! i) r]). n_segment c = t \<and> denotes sl c qs k y"
        if "find_child s cs = Some i" "c \<in> set cs" "n_segment c = t" "denotes sl c qs k z" for i t qs c z
      proof -
        from that obtain j where j: "j < length cs" "c = cs ! j" by (auto simp: in_set_conv_nth)
        with find_child_Some [OF that(1)] that old [of c qs z] show ?thesis
          by (cases "j = i") (auto simp: bex_set_update insert_segment)
      qed
      have child': "\<exists>y. \<exists>c\<in>set (cs[i := insert_gen upd (cs ! i) r]). n_segment c = s \<and> denotes sl c (parse_pattern r) k0 y"
        if "find_child s cs = Some i" "k = k0" for i
        using find_child_Some [OF that(1)] new [OF that(2), of "cs ! i"]
        by (auto simp: bex_set_update insert_segment)
      from static "1.prems" False show ?thesis
        by (cases "(sl, n, ps, k, x)" rule: denotes.cases)
           (auto simp: n insert_gen.simps parse_pattern.simps [of remaining] sr slot_local insert_segment
              ex_disj_distrib intro: child child' new split: option.splits)
    qed
  qed
qed

end


lemma set_handler_sel [simp]:
  "n_segment (set_handler n m h) = n_segment n" "n_children (set_handler n m h) = n_children n"
  "n_param_child (set_handler n m h) = n_param_child n"
  "n_wildcard_child (set_handler n m h) = n_wildcard_child n"
  "n_handlers (set_handler n m h) = (n_handlers n)(m \<mapsto> h)"
  "n_websocket_handler (set_handler n m h) = n_websocket_handler n"
  by (cases n; simp)+

lemma set_websocket_sel [simp]:
  "n_segment (set_websocket n w) = n_segment n" "n_children (set_websocket n w) = n_children n"
  "n_param_child (set_websocket n w) = n_param_child n"
  "n_wildcard_child (set_websocket n w) = n_wildcard_child n"
  "n_handlers (set_websocket n w) = n_handlers n"
  "n_websocket_handler (set_websocket n w) = Some w"
  by (cases n; simp)+

interpretation http: slot_update "\<lambda>n. set_handler n m h" n_handlers "\<lambda>hs ws. hs" m h for m h
  by unfold_locales auto

interpretation http_ws: slot_frame "\<lambda>n. set_websocket n w" n_handlers "\<lambda>hs ws. hs" for w
  by unfold_locales auto

interpretation ws: slot_update "\<lambda>n. set_websocket n w" ws_slot "\<lambda>hs ws k. ws" "()" w for w
  by unfold_locales (auto simp: ws_slot_def)

interpretation ws_http: slot_frame "\<lambda>n. set_handler n m h" ws_slot "\<lambda>hs ws k. ws" for m h
  by unfold_locales (auto simp: ws_slot_def)

subsection \<open>Search finds what the tree denotes\<close>

lemma get_handler_Some:
  "get_handler n m = Some h \<Longrightarrow> \<exists>m'. n_handlers n m' = Some h \<and> (m' = m \<or> m' = ANY)"
  by (auto simp: get_handler_def split: option.splits)

lemma get_handler_ex:
  "n_handlers n m = Some h \<Longrightarrow> \<exists>y. get_handler n m = Some y"
  "n_handlers n ANY = Some h \<Longrightarrow> \<exists>y. get_handler n m = Some y"
  by (auto simp: get_handler_def split: option.splits)

definition serves :: "('h, 'w) Node \<Rightarrow> Method \<Rightarrow> string \<Rightarrow> 'h \<Rightarrow> bool" where
  "serves n m remaining h \<longleftrightarrow>
     (\<exists>ps m'. denotes n_handlers n ps m' h \<and> pmatch ps remaining \<and> (m' = m \<or> m' = ANY))"

lemma serves_Nil: "serves n m [] h \<longleftrightarrow> (\<exists>m'. n_handlers n m' = Some h \<and> (m' = m \<or> m' = ANY))"
proof -
  have "pmatch ps [] \<longleftrightarrow> ps = []" for ps by (cases ps) auto
  then show ?thesis by (auto simp: serves_def)
qed

lemma serves_Cons:
  assumes "remaining \<noteq> []" "split_segment remaining = (s, r)"
  shows "serves n m remaining h \<longleftrightarrow>
     (\<exists>c\<in>set (n_children n). n_segment c = s \<and> serves c m r h) \<or>
     (\<exists>c. n_param_child n = Some c \<and> serves c m r h) \<or>
     (\<exists>w m'. n_wildcard_child n = Some w \<and> n_handlers w m' = Some h \<and> (m' = m \<or> m' = ANY))"
  (is "?L \<longleftrightarrow> ?S \<or> ?P \<or> ?W")
proof
  assume ?L
  then obtain ps m' where d: "denotes n_handlers n ps m' h" "pmatch ps remaining"
    and m: "m' = m \<or> m' = ANY" by (auto simp: serves_def)
  then obtain p qs where ps: "ps = p # qs" using assms(1) by (cases ps) auto
  from d m assms show "?S \<or> ?P \<or> ?W"
    by (cases p) (auto simp: ps serves_def split: option.splits)
next
  assume "?S \<or> ?P \<or> ?W"
  then show ?L
  proof (elim disjE)
    assume ?S
    then obtain c ps m' where "c \<in> set (n_children n)" "n_segment c = s"
      "denotes n_handlers c ps m' h" "pmatch ps r" "m' = m \<or> m' = ANY" by (auto simp: serves_def)
    with assms show ?L unfolding serves_def
      by (intro exI [of _ "PStatic s # ps"] exI [of _ m']) auto
  next
    assume ?P
    then obtain c ps m' where "n_param_child n = Some c"
      "denotes n_handlers c ps m' h" "pmatch ps r" "m' = m \<or> m' = ANY" by (auto simp: serves_def)
    with assms show ?L unfolding serves_def
      by (intro exI [of _ "PParam # ps"] exI [of _ m']) auto
  next
    assume ?W
    then obtain w m' where "n_wildcard_child n = Some w" "n_handlers w m' = Some h"
      "m' = m \<or> m' = ANY" by blast
    with assms show ?L unfolding serves_def
      by (intro exI [of _ "[PWild]"] exI [of _ m']) auto
  qed
qed

lemma search_sound:
  fixes n :: "('h, 'w) Node" and cs :: "('h, 'w) Node list"
  shows "fst (search n m remaining p) = Some h \<Longrightarrow> serves n m remaining h"
    and "fst (search_children cs m2 s r p2) = Some h \<Longrightarrow> \<exists>c\<in>set cs. n_segment c = s \<and> serves c m2 r h"
proof (induction n m remaining p and cs m2 s r p2 rule: search_search_children.induct)
  case (1 n m remaining params)
  show ?case
  proof (cases "remaining = []")
    case True
    with "1.prems" show ?thesis by (simp add: search.simps serves_Nil get_handler_Some)
  next
    case False
    obtain s r where sr: "split_segment remaining = (s, r)" by force
    obtain h1 p1 where c1: "search_children (n_children n) m s r params = (h1, p1)" by force
    show ?thesis
      using "1.prems" "1.IH"(1) [OF False sr [symmetric] refl] False
        "1.IH"(2) [OF False sr [symmetric] refl c1 [symmetric] refl]
      by (auto simp: search.simps [of n] sr c1 serves_Cons [OF False sr] dest: get_handler_Some
          split: option.splits prod.splits if_splits)
  qed
next
  case (3 c cs m s r params)
  then show ?case by (auto split: prod.splits if_splits)
qed simp

lemma search_complete:
  fixes n :: "('h, 'w) Node" and cs :: "('h, 'w) Node list"
  shows "serves n m remaining h \<Longrightarrow> fst (search n m remaining p) \<noteq> None"
    and "\<exists>c\<in>set cs. n_segment c = s \<and> serves c m2 r h \<Longrightarrow> fst (search_children cs m2 s r p2) \<noteq> None"
proof (induction n m remaining p and cs m2 s r p2 rule: search_search_children.induct)
  case (1 n m remaining params)
  show ?case
  proof (cases "remaining = []")
    case True
    with "1.prems" show ?thesis
      by (auto simp: search.simps serves_Nil dest: get_handler_ex)
  next
    case False
    obtain s r where sr: "split_segment remaining = (s, r)" by force
    obtain h1 p1 where c1: "search_children (n_children n) m s r params = (h1, p1)" by force
    show ?thesis
      using "1.prems" "1.IH"(1) [OF False sr [symmetric] refl] False
        "1.IH"(2) [OF False sr [symmetric] refl c1 [symmetric] refl]
      by (cases h1)
         (auto simp: search.simps [of n] sr c1 serves_Cons [OF False sr] intro: get_handler_ex
          split: option.splits prod.splits if_splits)
  qed
next
  case (3 c cs m s r params)
  obtain h1 p1 where c1: "search c m r params = (h1, p1)" by force
  show ?case
    using "3.prems" "3.IH"(1) "3.IH"(2) [OF _ c1 [symmetric] refl] "3.IH"(3)
    by (cases "n_segment c = s"; cases h1) (auto simp: c1)
qed simp

text \<open>The same for WebSocket endpoints.\<close>

definition serves_ws :: "('h, 'w) Node \<Rightarrow> string \<Rightarrow> 'w \<Rightarrow> bool" where
  "serves_ws n remaining h \<longleftrightarrow> (\<exists>ps. denotes ws_slot n ps () h \<and> pmatch ps remaining)"

lemma serves_ws_Nil: "serves_ws n [] h \<longleftrightarrow> n_websocket_handler n = Some h"
proof -
  have "pmatch ps [] \<longleftrightarrow> ps = []" for ps by (cases ps) auto
  then show ?thesis by (auto simp: serves_ws_def ws_slot_def)
qed

lemma serves_ws_Cons:
  assumes "remaining \<noteq> []" "split_segment remaining = (s, r)"
  shows "serves_ws n remaining h \<longleftrightarrow>
     (\<exists>c\<in>set (n_children n). n_segment c = s \<and> serves_ws c r h) \<or>
     (\<exists>c. n_param_child n = Some c \<and> serves_ws c r h) \<or>
     (\<exists>w. n_wildcard_child n = Some w \<and> n_websocket_handler w = Some h)"
  (is "?L \<longleftrightarrow> ?S \<or> ?P \<or> ?W")
proof
  assume ?L
  then obtain ps where d: "denotes ws_slot n ps () h" "pmatch ps remaining"
    by (auto simp: serves_ws_def)
  then obtain p qs where ps: "ps = p # qs" using assms(1) by (cases ps) auto
  from d assms show "?S \<or> ?P \<or> ?W"
    by (cases p) (auto simp: ps serves_ws_def ws_slot_def split: option.splits)
next
  assume "?S \<or> ?P \<or> ?W"
  then show ?L
  proof (elim disjE)
    assume ?S
    then obtain c ps where "c \<in> set (n_children n)" "n_segment c = s"
      "denotes ws_slot c ps () h" "pmatch ps r" by (auto simp: serves_ws_def)
    with assms show ?L unfolding serves_ws_def by (intro exI [of _ "PStatic s # ps"]) auto
  next
    assume ?P
    then obtain c ps where "n_param_child n = Some c" "denotes ws_slot c ps () h" "pmatch ps r"
      by (auto simp: serves_ws_def)
    with assms show ?L unfolding serves_ws_def by (intro exI [of _ "PParam # ps"]) auto
  next
    assume ?W
    with assms show ?L unfolding serves_ws_def
      by (intro exI [of _ "[PWild]"]) (auto simp: ws_slot_def)
  qed
qed

lemma search_websocket_sound:
  fixes n :: "('h, 'w) Node" and cs :: "('h, 'w) Node list"
  shows "fst (search_websocket n remaining p) = Some h \<Longrightarrow> serves_ws n remaining h"
    and "fst (search_websocket_children cs s r p2) = Some h \<Longrightarrow>
           \<exists>c\<in>set cs. n_segment c = s \<and> serves_ws c r h"
proof (induction n remaining p and cs s r p2 rule: search_websocket_search_websocket_children.induct)
  case (1 n remaining params)
  show ?case
  proof (cases "remaining = []")
    case True
    with "1.prems" show ?thesis by (simp add: search_websocket.simps serves_ws_Nil)
  next
    case False
    obtain s r where sr: "split_segment remaining = (s, r)" by force
    obtain h1 p1 where c1: "search_websocket_children (n_children n) s r params = (h1, p1)" by force
    show ?thesis
      using "1.prems" "1.IH"(1) [OF False sr [symmetric] refl] False
        "1.IH"(2) [OF False sr [symmetric] refl c1 [symmetric] refl]
      by (auto simp: search_websocket.simps [of n] sr c1 serves_ws_Cons [OF False sr]
          split: option.splits prod.splits if_splits)
  qed
next
  case (3 c cs s r params)
  then show ?case by (auto split: prod.splits if_splits)
qed simp

lemma search_websocket_complete:
  fixes n :: "('h, 'w) Node" and cs :: "('h, 'w) Node list"
  shows "serves_ws n remaining h \<Longrightarrow> fst (search_websocket n remaining p) \<noteq> None"
    and "\<exists>c\<in>set cs. n_segment c = s \<and> serves_ws c r h \<Longrightarrow>
           fst (search_websocket_children cs s r p2) \<noteq> None"
proof (induction n remaining p and cs s r p2 rule: search_websocket_search_websocket_children.induct)
  case (1 n remaining params)
  show ?case
  proof (cases "remaining = []")
    case True
    with "1.prems" show ?thesis by (auto simp: search_websocket.simps serves_ws_Nil)
  next
    case False
    obtain s r where sr: "split_segment remaining = (s, r)" by force
    obtain h1 p1 where c1: "search_websocket_children (n_children n) s r params = (h1, p1)" by force
    show ?thesis
      using "1.prems" "1.IH"(1) [OF False sr [symmetric] refl] False
        "1.IH"(2) [OF False sr [symmetric] refl c1 [symmetric] refl]
      by (cases h1)
         (auto simp: search_websocket.simps [of n] sr c1 serves_ws_Cons [OF False sr]
          split: option.splits prod.splits if_splits)
  qed
next
  case (3 c cs s r params)
  obtain h1 p1 where c1: "search_websocket c r params = (h1, p1)" by force
  show ?case
    using "3.prems" "3.IH"(1) "3.IH"(2) [OF _ c1 [symmetric] refl] "3.IH"(3)
    by (cases "n_segment c = s"; cases h1) (auto simp: c1)
qed simp

subsection \<open>A router refines its table of registrations\<close>

datatype ('h, 'w) registration = Reg_http Method string 'h | Reg_ws string 'w

fun register :: "('h, 'w) router \<Rightarrow> ('h, 'w) registration \<Rightarrow> ('h, 'w) router result" where
  "register r (Reg_http m p h) = add_route r m p h"
| "register r (Reg_ws p w) = add_websocket r p w"

fun register_all :: "('h, 'w) router \<Rightarrow> ('h, 'w) registration list \<Rightarrow> ('h, 'w) router result" where
  "register_all r [] = Inr r"
| "register_all r (x # xs) = (case register r x of Inl e \<Rightarrow> Inl e | Inr r' \<Rightarrow> register_all r' xs)"

definition http_refines :: "('h, 'w) Node \<Rightarrow> ('h, 'w) registration list \<Rightarrow> bool" where
  "http_refines n regs \<longleftrightarrow>
     (\<forall>ps m h. denotes n_handlers n ps m h \<longrightarrow>
        (\<exists>p. Reg_http m p h \<in> set regs \<and> ps = parse_pattern (tl p))) \<and>
     (\<forall>m p h. Reg_http m p h \<in> set regs \<longrightarrow> (\<exists>y. denotes n_handlers n (parse_pattern (tl p)) m y))"

definition ws_refines :: "('h, 'w) Node \<Rightarrow> ('h, 'w) registration list \<Rightarrow> bool" where
  "ws_refines n regs \<longleftrightarrow>
     (\<forall>ps w. denotes ws_slot n ps () w \<longrightarrow>
        (\<exists>p. Reg_ws p w \<in> set regs \<and> ps = parse_pattern (tl p))) \<and>
     (\<forall>p w. Reg_ws p w \<in> set regs \<longrightarrow> (\<exists>y. denotes ws_slot n (parse_pattern (tl p)) () y))"

definition tree_refines :: "('h, 'w) Node \<Rightarrow> ('h, 'w) registration list \<Rightarrow> bool" where
  "tree_refines n regs \<longleftrightarrow> http_refines n regs \<and> ws_refines n regs"

lemma tree_refines_empty: "tree_refines (new_node []) []"
  by (simp add: tree_refines_def http_refines_def ws_refines_def http.new_denotes ws.new_denotes)

lemma http_refinesD:
  assumes "http_refines n regs"
  shows "denotes n_handlers n ps m h \<Longrightarrow> \<exists>p. Reg_http m p h \<in> set regs \<and> ps = parse_pattern (tl p)"
    and "Reg_http m p h \<in> set regs \<Longrightarrow> \<exists>y. denotes n_handlers n (parse_pattern (tl p)) m y"
  using assms unfolding http_refines_def by blast+

lemma ws_refinesD:
  assumes "ws_refines n regs"
  shows "denotes ws_slot n ps () w \<Longrightarrow> \<exists>p. Reg_ws p w \<in> set regs \<and> ps = parse_pattern (tl p)"
    and "Reg_ws p w \<in> set regs \<Longrightarrow> \<exists>y. denotes ws_slot n (parse_pattern (tl p)) () y"
  using assms unfolding ws_refines_def by blast+

lemma http_refines_insert:
  assumes "http_refines n regs"
  shows "http_refines (insert_gen (\<lambda>n. set_handler n m h) n (tl p)) (regs @ [Reg_http m p h])"
proof -
  have "\<exists>q. Reg_http m' q h' \<in> set (regs @ [Reg_http m p h]) \<and> ps = parse_pattern (tl q)"
    if "denotes n_handlers (insert_gen (\<lambda>n. set_handler n m h) n (tl p)) ps m' h'" for ps m' h'
    using http.insert_sound [OF that] by (fastforce dest: http_refinesD(1) [OF assms])
  moreover have "\<exists>y. denotes n_handlers (insert_gen (\<lambda>n. set_handler n m h) n (tl p)) (parse_pattern (tl q)) m' y"
    if "Reg_http m' q h' \<in> set (regs @ [Reg_http m p h])" for m' q h'
    using that http_refinesD(2) [OF assms, of m' q h']
      http.insert_complete [of "parse_pattern (tl q)" "tl p" m' m n _ h] by auto
  ultimately show ?thesis by (simp add: http_refines_def)
qed

lemma ws_refines_insert:
  assumes "ws_refines n regs"
  shows "ws_refines (insert_gen (\<lambda>n. set_websocket n w) n (tl p)) (regs @ [Reg_ws p w])"
proof -
  have "\<exists>q. Reg_ws q w' \<in> set (regs @ [Reg_ws p w]) \<and> ps = parse_pattern (tl q)"
    if "denotes ws_slot (insert_gen (\<lambda>n. set_websocket n w) n (tl p)) ps () w'" for ps w'
    using ws.insert_sound [OF that] by (fastforce dest: ws_refinesD(1) [OF assms])
  moreover have "\<exists>y. denotes ws_slot (insert_gen (\<lambda>n. set_websocket n w) n (tl p)) (parse_pattern (tl q)) () y"
    if "Reg_ws q w' \<in> set (regs @ [Reg_ws p w])" for q w'
    using that ws_refinesD(2) [OF assms, of q w']
      ws.insert_complete [of "parse_pattern (tl q)" "tl p" "()" n _ w] by auto
  ultimately show ?thesis by (simp add: ws_refines_def)
qed

lemma register_refines:
  assumes "tree_refines (root r) regs" "register r x = Inr r'"
  shows "tree_refines (root r') (regs @ [x])"
proof (cases x)
  case (Reg_http m p h)
  with assms(2) have r': "root r' = insert_gen (\<lambda>n. set_handler n m h) (root r) (tl p)"
    by (auto simp: add_route_def insert_route_gen split: if_splits)
  with assms(1) show ?thesis
    by (simp add: tree_refines_def Reg_http http_refines_insert)
       (simp add: ws_refines_def ws_http.insert_frame)
next
  case (Reg_ws p w)
  with assms(2) have r': "root r' = insert_gen (\<lambda>n. set_websocket n w) (root r) (tl p)"
    by (auto simp: add_websocket_def insert_websocket_gen split: if_splits)
  with assms(1) show ?thesis
    by (simp add: tree_refines_def Reg_ws ws_refines_insert)
       (simp add: http_refines_def http_ws.insert_frame)
qed

lemma register_all_refines:
  "tree_refines (root r) regs \<Longrightarrow> register_all r xs = Inr r' \<Longrightarrow> tree_refines (root r') (regs @ xs)"
proof (induction xs arbitrary: r regs)
  case (Cons x xs)
  from Cons.prems(2) obtain r1 where r1: "register r x = Inr r1" "register_all r1 xs = Inr r'"
    by (auto split: sum.splits)
  from Cons.IH [OF register_refines [OF Cons.prems(1) r1(1)] r1(2)] show ?case by simp
qed simp

corollary built_router_refines:
  "register_all empty_router regs = Inr r \<Longrightarrow> tree_refines (root r) regs"
  using register_all_refines [of empty_router "[]"] tree_refines_empty by (simp add: empty_router_def)

lemma fst_match_route:
  "fst (match_route r m path) =
     (if strip_query path = [] \<or> hd (strip_query path) \<noteq> CHR ''/'' then None
      else fst (search (root r) m (tl (strip_query path)) Map.empty))"
  by (auto simp: match_route_def Let_def split: prod.split)

lemma fst_match_websocket:
  "fst (match_websocket r path) =
     (if strip_query path = [] \<or> hd (strip_query path) \<noteq> CHR ''/'' then None
      else fst (search_websocket (root r) (tl (strip_query path)) Map.empty))"
  by (auto simp: match_websocket_def Let_def split: prod.split)

lemma serves_refines:
  assumes "http_refines n regs"
  shows "serves n m remaining h \<Longrightarrow>
      \<exists>m' p. Reg_http m' p h \<in> set regs \<and> (m' = m \<or> m' = ANY) \<and> pmatch (parse_pattern (tl p)) remaining"
    and "Reg_http m' p h \<in> set regs \<Longrightarrow> m' = m \<or> m' = ANY \<Longrightarrow>
      pmatch (parse_pattern (tl p)) remaining \<Longrightarrow> \<exists>y. serves n m remaining y"
  unfolding serves_def using http_refinesD [OF assms] by blast+

lemma serves_ws_refines:
  assumes "ws_refines n regs"
  shows "serves_ws n remaining w \<Longrightarrow>
      \<exists>p. Reg_ws p w \<in> set regs \<and> pmatch (parse_pattern (tl p)) remaining"
    and "Reg_ws p w \<in> set regs \<Longrightarrow> pmatch (parse_pattern (tl p)) remaining \<Longrightarrow>
      \<exists>y. serves_ws n remaining y"
  unfolding serves_ws_def using ws_refinesD [OF assms] by blast+

section \<open>Properties\<close>

text \<open>
  C1: a router built by any accepted sequence of registrations implements the table of those
  registrations. A handler that \<^verbatim>\<open>Router::match\<close> returns was registered for the method (or for
  ANY) with a pattern that matches the path, and when \<^verbatim>\<open>match\<close> finds nothing no such registration
  exists: backtracking misses no route.
\<close>

theorem match_route_refines_table:
  assumes "register_all empty_router regs = Inr r"
  shows "case fst (match_route r m path) of
      Some h \<Rightarrow> \<exists>m' p. Reg_http m' p h \<in> set regs \<and> (m' = m \<or> m' = ANY) \<and> pattern_matches p path
    | None \<Rightarrow> \<not> (\<exists>m' p h. Reg_http m' p h \<in> set regs \<and> (m' = m \<or> m' = ANY) \<and> pattern_matches p path)"
proof -
  have ref: "http_refines (root r) regs"
    using built_router_refines [OF assms] by (simp add: tree_refines_def)
  show ?thesis
  proof (cases "fst (match_route r m path)")
    case None
    have False if reg: "Reg_http m' p h \<in> set regs" "m' = m \<or> m' = ANY"
      and pm: "pattern_matches p path" for m' p h
    proof -
      from pm obtain y where "serves (root r) m (tl (strip_query path)) y"
        using serves_refines(2) [OF ref reg] by (auto simp: pattern_matches_def Let_def)
      with pm None show False
        using search_complete(1) [of "root r" m "tl (strip_query path)" y]
        by (simp add: fst_match_route pattern_matches_def Let_def)
    qed
    with None show ?thesis by auto
  next
    case (Some h)
    then have path: "strip_query path \<noteq> []" "hd (strip_query path) = CHR ''/''"
      and "serves (root r) m (tl (strip_query path)) h"
      by (auto simp: fst_match_route dest: search_sound(1) split: if_splits)
    from serves_refines(1) [OF ref this(3)] path Some show ?thesis
      by (simp add: pattern_matches_def Let_def)
  qed
qed

definition sample_regs :: "(nat, nat) registration list" where
  "sample_regs = [Reg_http GET ''/users/:id'' 1, Reg_http ANY ''/static/*file'' 2,
     Reg_ws ''/chat/:room'' 3]"

definition sample_router :: "(nat, nat) router" where
  "sample_router = (case register_all empty_router sample_regs of Inr r \<Rightarrow> r | Inl _ \<Rightarrow> empty_router)"

lemma sample_router_built: "register_all empty_router sample_regs = Inr sample_router"
  by (simp add: sample_router_def sample_regs_def add_route_def add_websocket_def)

theorem match_route_refines_table_witness:
  "fst (match_route sample_router GET ''/users/42?x=1'') = Some 1 \<and>
   (\<exists>m' p. Reg_http m' p 1 \<in> set sample_regs \<and> (m' = GET \<or> m' = ANY) \<and>
      pattern_matches p ''/users/42?x=1'')"
proof -
  have "fst (match_route sample_router GET ''/users/42?x=1'') = Some 1" by code_simp
  with match_route_refines_table [OF sample_router_built, of GET "''/users/42?x=1''"]
  show ?thesis by simp
qed

text \<open>
  the same for WebSocket endpoints and \<^verbatim>\<open>Router::match_websocket\<close>, on the same tree, so HTTP
  and WebSocket registrations do not disturb each other.
\<close>

theorem match_websocket_refines_table:
  assumes "register_all empty_router regs = Inr r"
  shows "case fst (match_websocket r path) of
      Some w \<Rightarrow> \<exists>p. Reg_ws p w \<in> set regs \<and> pattern_matches p path
    | None \<Rightarrow> \<not> (\<exists>p w. Reg_ws p w \<in> set regs \<and> pattern_matches p path)"
proof -
  have ref: "ws_refines (root r) regs"
    using built_router_refines [OF assms] by (simp add: tree_refines_def)
  show ?thesis
  proof (cases "fst (match_websocket r path)")
    case None
    have False if reg: "Reg_ws p w \<in> set regs" and pm: "pattern_matches p path" for p w
    proof -
      from pm obtain y where "serves_ws (root r) (tl (strip_query path)) y"
        using serves_ws_refines(2) [OF ref reg] by (auto simp: pattern_matches_def Let_def)
      with pm None show False
        using search_websocket_complete(1) [of "root r" "tl (strip_query path)" y]
        by (simp add: fst_match_websocket pattern_matches_def Let_def)
    qed
    with None show ?thesis by auto
  next
    case (Some w)
    then have path: "strip_query path \<noteq> []" "hd (strip_query path) = CHR ''/''"
      and "serves_ws (root r) (tl (strip_query path)) w"
      by (auto simp: fst_match_websocket dest: search_websocket_sound(1) split: if_splits)
    from serves_ws_refines(1) [OF ref this(3)] path Some show ?thesis
      by (simp add: pattern_matches_def Let_def)
  qed
qed

theorem match_websocket_refines_table_witness:
  "fst (match_websocket sample_router ''/chat/lobby'') = Some 3 \<and>
   (\<exists>p. Reg_ws p 3 \<in> set sample_regs \<and> pattern_matches p ''/chat/lobby'')"
proof -
  have "fst (match_websocket sample_router ''/chat/lobby'') = Some 3" by code_simp
  with match_websocket_refines_table [OF sample_router_built, of "''/chat/lobby''"]
  show ?thesis by simp
qed

text \<open>
  The routes a pattern of static segments names: insertion reaches the same child the search
  visits first.
\<close>

lemma search_children_update:
  assumes "find_child s cs = Some i" "n_segment c = s" "fst (search c m r p) \<noteq> None"
  shows "search_children (cs[i := c]) m s r p = search c m r p"
  using assms
proof (induction cs arbitrary: i)
  case (Cons d cs)
  then show ?case by (cases "n_segment d = s") (auto split: prod.splits)
qed simp

lemma search_children_append:
  assumes "find_child s cs = None" "n_segment c = s" "fst (search c m r p) \<noteq> None"
  shows "search_children (cs @ [c]) m s r p = search c m r p"
  using assms by (induction cs) (auto split: prod.splits)

lemma search_inserted_static:
  fixes n :: "('h, 'w) Node"
  assumes "list_all is_static (parse_pattern remaining)"
  shows "fst (search (insert_gen (\<lambda>n. set_handler n m h) n remaining) m remaining p) = Some h"
  using assms
proof (induction remaining arbitrary: n p rule: length_induct)
  case (1 remaining)
  obtain sg hs ws cs pc pn wc wn where n: "n = Node sg hs ws cs pc pn wc wn" by (cases n)
  show ?case
  proof (cases "remaining = []")
    case True
    then show ?thesis by (simp add: n insert_gen.simps search.simps get_handler_def)
  next
    case False
    obtain s r where sr: "split_segment remaining = (s, r)" by force
    from "1.prems" False sr have st: "\<not> is_wildcard s" "\<not> is_param s"
      and rest: "list_all is_static (parse_pattern r)"
      by (auto simp: parse_pattern.simps [of remaining] split: if_splits)
    let ?ins = "\<lambda>c :: ('h, 'w) Node. insert_gen (\<lambda>n. set_handler n m h) c r"
    have IH: "fst (search (?ins c) m r p) = Some h" for c :: "('h, 'w) Node"
      using "1.IH" [rule_format, OF split_segment_shorter [OF False sr] rest] by blast
    have "fst (search_children (n_children (insert_gen (\<lambda>n. set_handler n m h) n remaining)) m s r p) = Some h"
    proof (cases "find_child s cs")
      case None
      then have "search_children (cs @ [?ins (new_node s)]) m s r p = search (?ins (new_node s)) m r p"
        by (rule search_children_append) (simp_all add: http.insert_segment IH)
      with None False show ?thesis by (simp add: n insert_gen.simps sr st IH)
    next
      case (Some i)
      then have "search_children (cs[i := ?ins (cs ! i)]) m s r p = search (?ins (cs ! i)) m r p"
        by (rule search_children_update) (simp_all add: http.insert_segment IH find_child_Some [OF Some])
      with Some False show ?thesis by (simp add: n insert_gen.simps sr st IH)
    qed
    with False show ?thesis
      by (auto simp: search.simps [of "insert_gen _ _ _"] sr split: prod.splits)
  qed
qed

text \<open>
  registering a route whose pattern has static segments only, on any router, makes
  \<^verbatim>\<open>match\<close> return exactly that handler for that path and method, whatever parameter or wildcard
  routes and earlier registrations of the same path exist: static segments have priority and
  the last registration wins.
\<close>

theorem add_static_route_then_match:
  assumes "add_route r m pattern h = Inr r'"
    and "list_all is_static (parse_pattern (tl pattern))"
    and "CHR ''?'' \<notin> set pattern"
  shows "fst (match_route r' m pattern) = Some h"
proof -
  from assms(1) have p: "pattern \<noteq> []" "hd pattern = CHR ''/''"
    and r': "root r' = insert_gen (\<lambda>n. set_handler n m h) (root r) (tl pattern)"
    by (auto simp: add_route_def insert_route_gen split: if_splits)
  have "strip_query pattern = pattern"
    using assms(3) by (simp add: strip_query_def find_ch_def substr_upto_def)
  with p show ?thesis
    by (simp add: fst_match_route r' search_inserted_static [OF assms(2)])
qed

definition shadowed_router :: "(nat, nat) router" where
  "shadowed_router = (case register_all empty_router
      [Reg_http ANY ''/*all'' 1, Reg_http GET ''/:name'' 2, Reg_http GET ''/admin'' 3] of
     Inr r \<Rightarrow> r | Inl _ \<Rightarrow> empty_router)"

theorem add_static_route_then_match_witness:
  "\<exists>r'. add_route shadowed_router GET ''/admin'' 4 = Inr r' \<and>
        fst (match_route r' GET ''/admin'') = Some 4"
proof -
  have st: "list_all is_static (parse_pattern (tl ''/admin''))" by code_simp
  obtain r' where r': "add_route shadowed_router GET ''/admin'' 4 = Inr r'"
    by (simp add: add_route_def)
  from add_static_route_then_match [OF r' st] r' show ?thesis by auto
qed

text \<open>
  Reading a path back: a route template whose parameters are filled with values. The pattern
  and the path are the two texts the template renders to.
\<close>

datatype tseg = TStatic string | TParam string string

fun tseg_pattern :: "tseg \<Rightarrow> string" where
  "tseg_pattern (TStatic s) = s"
| "tseg_pattern (TParam n v) = CHR '':'' # n"

fun tseg_path :: "tseg \<Rightarrow> string" where
  "tseg_path (TStatic s) = s"
| "tseg_path (TParam n v) = v"

fun tseg_ok :: "tseg \<Rightarrow> bool" where
  "tseg_ok (TStatic s) =
     (s \<noteq> [] \<and> CHR ''/'' \<notin> set s \<and> CHR ''?'' \<notin> set s \<and> \<not> is_wildcard s \<and> \<not> is_param s)"
| "tseg_ok (TParam n v) =
     (CHR ''/'' \<notin> set n \<and> v \<noteq> [] \<and> CHR ''/'' \<notin> set v \<and> CHR ''?'' \<notin> set v)"

definition render :: "(tseg \<Rightarrow> string) \<Rightarrow> tseg list \<Rightarrow> string" where
  "render f ts = CHR ''/'' # join_with CHR ''/'' (map f ts)"

fun bind_params :: "path_params \<Rightarrow> tseg list \<Rightarrow> path_params" where
  "bind_params p [] = p"
| "bind_params p (TStatic s # ts) = bind_params p ts"
| "bind_params p (TParam n v # ts) = bind_params (p(n \<mapsto> v)) ts"

lemma split_segment_join:
  "x \<noteq> [] \<Longrightarrow> CHR ''/'' \<notin> set x \<Longrightarrow>
     split_segment (join_with CHR ''/'' (x # xs)) = (x, join_with CHR ''/'' xs)"
  by (cases xs) (simp_all add: split_segment_def find_ch_append substr_upto_def find_ch_None [THEN iffD2])

lemma join_with_Nil_iff: "x \<noteq> [] \<Longrightarrow> join_with c (x # xs) \<noteq> []"
  by (cases xs) auto

lemma tseg_ok_parts:
  assumes "tseg_ok t"
  shows "tseg_path t \<noteq> []" "CHR ''/'' \<notin> set (tseg_path t)" "CHR ''?'' \<notin> set (tseg_path t)"
    "tseg_pattern t \<noteq> []" "CHR ''/'' \<notin> set (tseg_pattern t)"
  using assms by (cases t; simp)+

lemma search_inserted_template:
  assumes "list_all tseg_ok ts"
  shows "search (insert_gen (\<lambda>n. set_handler n m h) (new_node sg :: ('h, 'w) Node) (join_with CHR ''/'' (map tseg_pattern ts)))
           m (join_with CHR ''/'' (map tseg_path ts)) p = (Some h, bind_params p ts)"
  using assms
proof (induction ts arbitrary: sg p)
  case Nil
  then show ?case by (simp add: new_node_def insert_gen.simps search.simps get_handler_def)
next
  case (Cons t ts)
  let ?upd = "\<lambda>n :: ('h, 'w) Node. set_handler n m h"
  let ?pat = "join_with CHR ''/'' (map tseg_pattern ts)"
  from Cons.prems have t: "tseg_ok t" by simp
  note parts = tseg_ok_parts [OF t]
  have split: "split_segment (join_with CHR ''/'' (map tseg_pattern (t # ts))) = (tseg_pattern t, ?pat)"
    "split_segment (join_with CHR ''/'' (map tseg_path (t # ts))) =
       (tseg_path t, join_with CHR ''/'' (map tseg_path ts))"
    using parts by (simp_all add: split_segment_join del: join_with.simps)
  have ne: "join_with CHR ''/'' (map tseg_pattern (t # ts)) \<noteq> []"
    "join_with CHR ''/'' (map tseg_path (t # ts)) \<noteq> []"
    using parts by (simp_all add: join_with_Nil_iff del: join_with.simps)
  have IH: "search (insert_gen ?upd (new_node sg' :: ('h, 'w) Node) ?pat) m (join_with CHR ''/'' (map tseg_path ts)) q
      = (Some h, bind_params q ts)" for sg' q
    using Cons by simp
  show ?case
  proof (cases t)
    case (TStatic s)
    have ins: "insert_gen ?upd (new_node sg) (join_with CHR ''/'' (map tseg_pattern (t # ts))) =
        Node sg (\<lambda>_. None) None [insert_gen ?upd (new_node s) ?pat] None [] None []"
      using ne(1) split(1) t
      by (simp add: new_node_def [of sg] insert_gen.simps TStatic del: join_with.simps)
    show ?thesis
      unfolding ins by (subst search.simps)
        (use ne(2) split(2) in \<open>simp add: TStatic http.insert_segment IH del: join_with.simps\<close>)
  next
    case (TParam n v)
    have ins: "insert_gen ?upd (new_node sg) (join_with CHR ''/'' (map tseg_pattern (t # ts))) =
        Node sg (\<lambda>_. None) None [] (Some (insert_gen ?upd (new_node []) ?pat)) n None []"
      using ne(1) split(1)
      by (simp add: new_node_def [of sg] insert_gen.simps TParam is_wildcard_def is_param_def
          del: join_with.simps)
    show ?thesis
      unfolding ins by (subst search.simps)
        (use ne(2) split(2) in \<open>simp add: TParam PathParams_set_def IH del: join_with.simps\<close>)
  qed
qed

lemma query_free_render: "list_all tseg_ok ts \<Longrightarrow> CHR ''?'' \<notin> set (render tseg_path ts)"
proof -
  have "list_all tseg_ok ts \<Longrightarrow> CHR ''?'' \<notin> set (join_with CHR ''/'' (map tseg_path ts))"
    by (induction ts rule: induct_list012) (auto dest: tseg_ok_parts)
  then show "list_all tseg_ok ts \<Longrightarrow> CHR ''?'' \<notin> set (render tseg_path ts)"
    by (simp add: render_def)
qed

text \<open>
  registering a parameterised route on a fresh router and matching a path made from the
  pattern by filling in non-empty values returns the handler together with exactly the filled-in
  bindings; a repeated name keeps its last value.
\<close>

theorem match_route_binds_params:
  assumes "list_all tseg_ok ts"
    and "add_route empty_router m (render tseg_pattern ts) h = Inr r"
  shows "match_route r m (render tseg_path ts) = (Some h, bind_params Map.empty ts)"
proof -
  from assms(2) have r: "root r =
      insert_gen (\<lambda>n. set_handler n m h) (new_node []) (join_with CHR ''/'' (map tseg_pattern ts))"
    by (auto simp: add_route_def insert_route_gen render_def empty_router_def)
  have "strip_query (render tseg_path ts) = render tseg_path ts"
    using query_free_render [OF assms(1)]
    by (simp add: strip_query_def find_ch_def substr_upto_def)
  then show ?thesis
    by (simp add: match_route_def r search_inserted_template [OF assms(1)])
       (simp add: render_def r search_inserted_template [OF assms(1)])
qed

theorem match_route_binds_params_witness:
  "\<exists>r. add_route (empty_router :: (nat, nat) router) GET ''/users/:id/posts/:post'' 7 = Inr r \<and>
       match_route r GET ''/users/42/posts/9'' = (Some 7, [''id'' \<mapsto> ''42'', ''post'' \<mapsto> ''9''])"
proof -
  let ?ts = "[TStatic ''users'', TParam ''id'' ''42'', TStatic ''posts'', TParam ''post'' ''9'']"
  have ok: "list_all tseg_ok ?ts" by (simp add: is_wildcard_def is_param_def)
  have pat: "render tseg_pattern ?ts = ''/users/:id/posts/:post''"
    and path: "render tseg_path ?ts = ''/users/42/posts/9''"
    by (simp_all add: render_def)
  obtain r where r: "add_route (empty_router :: (nat, nat) router) GET (render tseg_pattern ?ts) 7 = Inr r"
    by (simp add: add_route_def render_def)
  from match_route_binds_params [OF ok r] r show ?thesis
    unfolding pat path by auto
qed

text \<open>
  C5: unlike \<^verbatim>\<open>search_websocket\<close>, which removes a parameter when its branch fails,
  \<^verbatim>\<open>search\<close> keeps it: a request served by the wildcard route also carries the parameter of
  the parameter route that was tried before and did not match.
\<close>

definition leaky_router :: "(nat, nat) router" where
  "leaky_router = (case register_all empty_router
      [Reg_http GET ''/:id/edit'' 1, Reg_http GET ''/*rest'' 2,
       Reg_ws ''/:id/edit'' 1, Reg_ws ''/*rest'' 2] of
     Inr r \<Rightarrow> r | Inl _ \<Rightarrow> empty_router)"

theorem match_route_leaks_backtracked_param:
  "fst (match_route leaky_router GET ''/a/b'') = Some 2 \<and>
   snd (match_route leaky_router GET ''/a/b'') ''id'' = Some ''a'' \<and>
   fst (match_websocket leaky_router ''/a/b'') = Some 2 \<and>
   snd (match_websocket leaky_router ''/a/b'') ''id'' = None"
  by code_simp

end
