(* ===== verification/Request_Pipeline.thy ===== *)
theory Request_Pipeline
  imports Http_Message Route_Tree
begin

text \<open>
  The request path through a shard: the per-request context
  (\<^verbatim>\<open>include/novaboot/context/request_context.h\<close>) with the principals middleware stores in it, the
  middleware pipeline (\<^verbatim>\<open>src/middleware/pipeline.cpp\<close>), the error responses
  (\<^verbatim>\<open>include/novaboot/core/error_response.h\<close>) and the final handler that routes a request and
  turns exceptions into responses (\<^verbatim>\<open>src/core/shard.cpp\<close>). The interfaces \<open>request_wrapper\<close> and
  \<open>request_gate\<close> state what a middleware does with its continuation.
\<close>

section \<open>Request context\<close>

record JwtClaims =
  string_claims :: "string \<rightharpoonup> string"
  integer_claims :: "string \<rightharpoonup> int"
  bool_claims :: "string \<rightharpoonup> bool"
  string_array_claims :: "string \<rightharpoonup> string list"

record JwtPrincipal =
  jwt_subject :: string
  jwt_issuer :: string
  jwt_audience :: "string list"
  jwt_scopes :: "string list"
  jwt_token_id :: string
  jwt_expires_at :: "int option"
  jwt_not_before :: "int option"
  jwt_issued_at :: "int option"
  jwt_claims :: JwtClaims

record SessionPrincipal =
  sp_subject :: string
  sp_roles :: "string list"
  sp_scopes :: "string list"

text \<open>
  The typed store maps a type to one value of it. \<open>Other t v\<close> stands for a value of any other
  type \<open>t\<close>, which the framework stores and hands back unseen.
\<close>

datatype type_index = TI_Jwt | TI_Session | TI_Other string

datatype ctx_value = Jwt JwtPrincipal | Sess SessionPrincipal | Other string string

fun typeid :: "ctx_value \<Rightarrow> type_index" where
  "typeid (Jwt _) = TI_Jwt"
| "typeid (Sess _) = TI_Session"
| "typeid (Other t _) = TI_Other t"

record request_context =
  ctx_address :: nat
  ctx_values :: "type_index \<rightharpoonup> ctx_value"
  string_values :: "string \<rightharpoonup> string"

definition new_context :: "nat \<Rightarrow> request_context" where
  "new_context a = \<lparr>ctx_address = a, ctx_values = Map.empty, string_values = Map.empty\<rparr>"

definition ctx_set :: "request_context \<Rightarrow> ctx_value \<Rightarrow> request_context" where
  "ctx_set c v = c\<lparr>ctx_values := (ctx_values c)(typeid v \<mapsto> v)\<rparr>"

definition ctx_get :: "request_context \<Rightarrow> type_index \<Rightarrow> ctx_value option" where
  "ctx_get c t = (case ctx_values c t of
       None \<Rightarrow> None
     | Some v \<Rightarrow> if typeid v = t then Some v else None)"

definition ctx_has :: "request_context \<Rightarrow> type_index \<Rightarrow> bool" where
  "ctx_has c t \<longleftrightarrow> ctx_values c t \<noteq> None"

definition ctx_remove :: "request_context \<Rightarrow> type_index \<Rightarrow> request_context" where
  "ctx_remove c t = c\<lparr>ctx_values := (ctx_values c)(t := None)\<rparr>"

definition set_string :: "request_context \<Rightarrow> string \<Rightarrow> string \<Rightarrow> request_context" where
  "set_string c k v = c\<lparr>string_values := (string_values c)(k \<mapsto> v)\<rparr>"

definition get_string :: "request_context \<Rightarrow> string \<Rightarrow> string" where
  "get_string c k = (case string_values c k of Some v \<Rightarrow> v | None \<Rightarrow> [])"

definition ctx_clear :: "request_context \<Rightarrow> request_context" where
  "ctx_clear c = c\<lparr>ctx_values := Map.empty, string_values := Map.empty\<rparr>"

definition get_jwt :: "request_context \<Rightarrow> JwtPrincipal option" where
  "get_jwt c = (case ctx_get c TI_Jwt of Some (Jwt p) \<Rightarrow> Some p | _ \<Rightarrow> None)"

definition get_session :: "request_context \<Rightarrow> SessionPrincipal option" where
  "get_session c = (case ctx_get c TI_Session of Some (Sess p) \<Rightarrow> Some p | _ \<Rightarrow> None)"

lemma get_session_set [simp]: "get_session (ctx_set c (Sess p)) = Some p"
  by (simp add: get_session_def ctx_get_def ctx_set_def)

lemma get_jwt_set_session [simp]: "get_jwt (ctx_set c (Sess p)) = get_jwt c"
  by (simp add: get_jwt_def ctx_get_def ctx_set_def)

section \<open>Middleware and the pipeline\<close>

text \<open>
  A middleware receives the request, response and context by reference together with the rest
  of the chain. The state of one exchange is a record that middleware with state of its own
  extend; \<open>current_context\<close> is the thread-local pointer \<^verbatim>\<open>RequestContext::current_\<close>.
\<close>

record exchange =
  ex_req :: request
  ex_res :: response
  ex_ctx :: request_context
  current_context :: "nat option"

type_synonym 's middleware = "'s proc \<Rightarrow> 's proc"

definition build_chain :: "'s middleware list \<Rightarrow> 's proc \<Rightarrow> 's proc" where
  "build_chain mws handler = fold (\<lambda>mw next. mw next) (rev mws) handler"

definition execute ::
    "'z exchange_scheme middleware list \<Rightarrow> 'z exchange_scheme proc \<Rightarrow> 'z exchange_scheme proc" where
  "execute mws handler s =
     (let previous = current_context s;
          s1 = s\<lparr>current_context := Some (ctx_address (ex_ctx s))\<rparr>;
          (e, s2) = (if mws = [] then handler s1 else build_chain mws handler s1)
      in (e, s2\<lparr>current_context := previous\<rparr>))"

lemma build_chain_Nil [simp]: "build_chain [] h = h"
  by (simp add: build_chain_def)

lemma build_chain_Cons [simp]: "build_chain (mw # mws) h = mw (build_chain mws h)"
  by (simp add: build_chain_def)

lemma execute_eq:
  "execute mws handler s =
     (case build_chain mws handler (s\<lparr>current_context := Some (ctx_address (ex_ctx s))\<rparr>) of
        (e, s2) \<Rightarrow> (e, s2\<lparr>current_context := current_context s\<rparr>))"
  by (auto simp: execute_def Let_def split: prod.split)

text \<open>
  What a middleware promises: it decides from the state alone whether to continue, and from
  which state, or to stop with a result of its own; what it does after the rest of the chain
  returned (or threw) is \<open>post\<close>.
\<close>

locale request_wrapper =
  fixes handle :: "'s middleware"
    and decide :: "'s \<Rightarrow> 's + (exn option \<times> 's)"
    and post :: "'s \<Rightarrow> exn option \<times> 's \<Rightarrow> exn option \<times> 's"
  assumes wrap: "handle next s = (case decide s of Inl s' \<Rightarrow> post s (next s') | Inr r \<Rightarrow> r)"
begin

lemma stop_skips_rest: "decide s = Inr r \<Longrightarrow> build_chain (handle # mws) h s = r"
  by (simp add: wrap)

lemma continue_runs_rest:
  "decide s = Inl s' \<Longrightarrow> build_chain (handle # mws) h s = post s (build_chain mws h s')"
  by (simp add: wrap)

text \<open>The result depends on the continuation only through its value at the state passed on.\<close>

lemma calls_next_at_most_once:
  "decide s = Inl s' \<Longrightarrow> next s' = next' s' \<Longrightarrow> handle next s = handle next' s"
  by (simp add: wrap)

end

locale request_gate =
  fixes handle :: "'s middleware"
    and decide :: "'s \<Rightarrow> 's + (exn option \<times> 's)"
  assumes gate: "handle next s = (case decide s of Inl s' \<Rightarrow> next s' | Inr r \<Rightarrow> r)"

sublocale request_gate \<subseteq> request_wrapper handle decide "\<lambda>_ r. r"
  by unfold_locales (rule gate)

context request_gate
begin

lemma admitted_runs_rest: "decide s = Inl s' \<Longrightarrow> build_chain (handle # mws) h s = build_chain mws h s'"
  by (rule continue_runs_rest)

end

section \<open>Error responses\<close>

definition json_escape_char :: "char \<Rightarrow> string" where
  "json_escape_char c =
     (if byte_of c = 34 then [CHR 0x5C, CHR 0x22]
      else if byte_of c = 92 then [CHR 0x5C, CHR 0x5C]
      else if byte_of c = 8 then [CHR 0x5C, CHR ''b'']
      else if byte_of c = 12 then [CHR 0x5C, CHR ''f'']
      else if byte_of c = 10 then [CHR 0x5C, CHR ''n'']
      else if byte_of c = 13 then [CHR 0x5C, CHR ''r'']
      else if byte_of c = 9 then [CHR 0x5C, CHR ''t'']
      else if byte_of c < 0x20
        then [CHR 0x5C, CHR ''u'', CHR ''0'', CHR ''0'',
              hex_digit (byte_of c div 16), hex_digit (byte_of c mod 16)]
      else [c])"

definition json_escape :: "string \<Rightarrow> string" where
  "json_escape text = concat (map json_escape_char text)"

fun what :: "exn \<Rightarrow> string" where
  "what (Invalid_argument w) = w"
| "what (Runtime_error w) = w"
| "what (Out_of_range w) = w"
| "what (Binding_exception es) = ''Invalid JSON request body''"
| "what (Validation_exception es) = ''Validation failed''"
| "what (Std_exception t w) = w"
| "what Non_standard_thrown = []"
| "what (Undefined_behaviour u) = []"

definition quoted :: "string \<Rightarrow> string" where
  "quoted s = [CHR 0x22] @ s @ [CHR 0x22]"

definition internal_error_json :: string where
  "internal_error_json = ''{'' @ quoted ''error'' @ '':'' @ quoted ''Internal Server Error'' @ ''}''"

definition write_unhandled_error :: "response \<Rightarrow> exn \<Rightarrow> bool \<Rightarrow> response" where
  "write_unhandled_error r e expose =
     (if expose then
        Response_json (Response_status r 500)
          (''{'' @ quoted ''error'' @ '':'' @ quoted ''Internal Server Error'' @ '','' @
           quoted ''message'' @ '':'' @ quoted (json_escape (what e)) @ ''}'')
      else Response_json (Response_status r 500) internal_error_json)"

definition write_unknown_error :: "response \<Rightarrow> response" where
  "write_unknown_error r = Response_json (Response_status r 500) internal_error_json"

section \<open>Routing and exception mapping\<close>

text \<open>
  \<^verbatim>\<open>Router::handle_exception\<close>: registered handlers are tried in order until one reports true. A handler
  may itself throw, which leaves the loop.
\<close>

fun handle_exception :: "(exn \<Rightarrow> 's \<Rightarrow> bool result \<times> 's) list \<Rightarrow> exn \<Rightarrow> 's \<Rightarrow> bool result \<times> 's" where
  "handle_exception [] e s = (Inr False, s)"
| "handle_exception (h # hs) e s =
     (case h e s of
        (Inl x, s1) \<Rightarrow> (Inl x, s1)
      | (Inr handled, s1) \<Rightarrow> if handled then (Inr True, s1) else handle_exception hs e s1)"

fun error_list :: "string list \<Rightarrow> string" where
  "error_list [] = []"
| "error_list [e] = quoted (json_escape e)"
| "error_list (e # e' # es) = quoted (json_escape e) @ '','' @ error_list (e' # es)"

definition bad_request_json :: "string \<Rightarrow> string list \<Rightarrow> string" where
  "bad_request_json msg errors =
     ''{'' @ quoted ''error'' @ '':'' @ quoted ''Bad Request'' @ '','' @ quoted ''message'' @ '':'' @
     quoted msg @ '','' @ quoted ''errors'' @ '':['' @ error_list errors @ '']}''"

definition set_res :: "('z exchange_scheme) \<Rightarrow> response \<Rightarrow> 'z exchange_scheme" where
  "set_res s r = s\<lparr>ex_res := r\<rparr>"

text \<open>
  The final handler of a shard. \<open>static\<close> is the static-resource fallback: it reports whether it
  produced a response, and the response.
\<close>

definition final_handler ::
    "('z exchange_scheme proc, 'w) router \<Rightarrow>
     (exn \<Rightarrow> 'z exchange_scheme \<Rightarrow> bool result \<times> 'z exchange_scheme) list \<Rightarrow>
     (request \<Rightarrow> response \<Rightarrow> bool \<Rightarrow> bool \<times> response) \<Rightarrow> bool \<Rightarrow> 'z exchange_scheme proc" where
  "final_handler r handlers static expose s =
     (let rq = ex_req s; (h, params) = match_string r (req_method rq) (req_path rq)
      in case h of
        None \<Rightarrow>
          let get_or_head = (req_method rq = ''GET'' \<or> req_method rq = ''HEAD'');
              (served, rs) = (if get_or_head then static rq (ex_res s) (req_method rq = ''HEAD'')
                              else (False, ex_res s))
          in if served then (None, set_res s rs)
             else (None, set_res s (Response_body
                    (Response_header (Response_status rs 404) ''content-type'' ''text/plain'')
                    ''Not Found''))
      | Some handler \<Rightarrow>
          (case handler (s\<lparr>ex_req := rq\<lparr>req_path_params := params\<rparr>\<rparr>) of
             (None, s1) \<Rightarrow> (None, s1)
           | (Some (Binding_exception errors), s1) \<Rightarrow>
               (None, set_res s1 (Response_body
                  (Response_header (Response_status (ex_res s1) 400) ''content-type'' ''application/json'')
                  (bad_request_json ''Invalid JSON request body'' errors)))
           | (Some (Validation_exception errors), s1) \<Rightarrow>
               (None, set_res s1 (Response_body
                  (Response_header (Response_status (ex_res s1) 400) ''content-type'' ''application/json'')
                  (bad_request_json ''Validation failed'' errors)))
           | (Some (Undefined_behaviour u), s1) \<Rightarrow> (Some (Undefined_behaviour u), s1)
           | (Some Non_standard_thrown, s1) \<Rightarrow>
               (None, set_res s1 (write_unknown_error (ex_res s1)))
           | (Some e, s1) \<Rightarrow>
               (case handle_exception handlers e s1 of
                  (Inl x, s2) \<Rightarrow> (Some x, s2)
                | (Inr handled, s2) \<Rightarrow>
                    if handled then (None, s2)
                    else (None, set_res s2 (write_unhandled_error (ex_res s2) e expose)))))"

definition serve_request ::
    "'z exchange_scheme middleware list \<Rightarrow> ('z exchange_scheme proc, 'w) router \<Rightarrow>
     (exn \<Rightarrow> 'z exchange_scheme \<Rightarrow> bool result \<times> 'z exchange_scheme) list \<Rightarrow>
     (request \<Rightarrow> response \<Rightarrow> bool \<Rightarrow> bool \<times> response) \<Rightarrow> bool \<Rightarrow> 'z exchange_scheme proc" where
  "serve_request mws r handlers static expose = execute mws (final_handler r handlers static expose)"

section \<open>Properties\<close>

text \<open>
  Reference reader of a JSON string body: the inverse of escaping, refusing raw control
  characters, bare quotes and unknown escapes.
\<close>

definition simple_escape :: "char \<Rightarrow> char option" where
  "simple_escape c =
     (if byte_of c = 34 then Some (CHR 0x22) else if byte_of c = 92 then Some (CHR 0x5C)
      else if c = CHR ''b'' then Some (CHR 0x08) else if c = CHR ''f'' then Some (CHR 0x0C)
      else if c = CHR ''n'' then Some (CHR 0x0A) else if c = CHR ''r'' then Some (CHR 0x0D)
      else if c = CHR ''t'' then Some (CHR 0x09) else None)"

fun json_unescape :: "string \<Rightarrow> string option" where
  "json_unescape [] = Some []"
| "json_unescape (c # cs) =
     (if byte_of c < 0x20 \<or> byte_of c = 34 then None
      else if byte_of c \<noteq> 92 then map_option (Cons c) (json_unescape cs)
      else case cs of
        [] \<Rightarrow> None
      | d # ds \<Rightarrow>
          (case simple_escape d of
             Some x \<Rightarrow> map_option (Cons x) (json_unescape ds)
           | None \<Rightarrow>
               (case ds of
                  z1 # z2 # h # l # rest \<Rightarrow>
                    if d = CHR ''u'' \<and> z1 = CHR ''0'' \<and> z2 = CHR ''0'' then
                      (case (hex_value h, hex_value l) of
                         (Some a, Some b) \<Rightarrow>
                           map_option (Cons (char_of (a * 16 + b))) (json_unescape rest)
                       | _ \<Rightarrow> None)
                    else None
                | _ \<Rightarrow> None)))"

lemma json_unescape_char: "json_unescape (json_escape_char c @ cs) = map_option (Cons c) (json_unescape cs)"
proof -
  have b: "byte_of c = 34 \<Longrightarrow> CHR 0x22 = c" "byte_of c = 92 \<Longrightarrow> CHR 0x5C = c"
    "byte_of c = 8 \<Longrightarrow> CHR 0x08 = c" "byte_of c = 12 \<Longrightarrow> CHR 0x0C = c"
    "byte_of c = 10 \<Longrightarrow> CHR 0x0A = c" "byte_of c = 13 \<Longrightarrow> CHR 0x0D = c"
    "byte_of c = 9 \<Longrightarrow> CHR 0x09 = c"
    using of_char_eq_iff [of c "CHR 0x22", where 'a = nat] of_char_eq_iff [of c "CHR 0x5C", where 'a = nat]
      of_char_eq_iff [of c "CHR 0x08", where 'a = nat] of_char_eq_iff [of c "CHR 0x0C", where 'a = nat]
      of_char_eq_iff [of c "CHR 0x0A", where 'a = nat] of_char_eq_iff [of c "CHR 0x0D", where 'a = nat]
      of_char_eq_iff [of c "CHR 0x09", where 'a = nat]
    by simp_all
  consider "byte_of c \<in> {34, 92, 8, 12, 10, 13, 9}"
    | (ctrl) "byte_of c \<notin> {34, 92, 8, 12, 10, 13, 9}" "byte_of c < 32"
    | (plain) "byte_of c \<notin> {34, 92, 8, 12, 10, 13, 9}" "\<not> byte_of c < 32" by blast
  then show ?thesis
  proof cases
    case 1
    then show ?thesis
      by (elim insertE emptyE) (simp_all add: json_escape_char_def simple_escape_def b)
  next
    case ctrl
    then have "hex_value (hex_digit (byte_of c div 16)) = Some (byte_of c div 16)"
      "hex_value (hex_digit (byte_of c mod 16)) = Some (byte_of c mod 16)"
      by (simp_all add: hex_value_digit)
    with ctrl show ?thesis
      by (simp add: json_escape_char_def simple_escape_def)
  next
    case plain
    then show ?thesis by (simp add: json_escape_char_def)
  qed
qed

text \<open>
  JSON error bodies are well formed whatever text they carry: reading back
  \<^verbatim>\<open>json_escape(text)\<close> with a reader that refuses raw control characters, bare quotes and unknown
  escapes returns exactly the text, so an exception message cannot break out of its string.
\<close>

theorem json_escape_roundtrip: "json_unescape (json_escape msg) = Some msg"
  by (induction msg) (simp_all add: json_escape_def json_unescape_char)

text \<open>
  How a request ends in the final handler: a missing route answers 404 (unless a static resource is served), a
  binding or validation failure answers 400 with the list of errors, and a failure no exception handler accepts
  answers 500. Only an exception that a registered exception handler throws leaves the final handler. (A route
  handler whose run has no defined meaning is left out.)
\<close>

lemma final_handler_cases:
  "let (h, params) = match_string r (req_method (ex_req s)) (req_path (ex_req s));
       (e, s') = final_handler r handlers static expose s
   in case h of
        None \<Rightarrow> e = None \<and>
          ((\<exists>rs. static (ex_req s) (ex_res s) (req_method (ex_req s) = ''HEAD'') = (True, rs) \<and>
              ex_res s' = rs) \<or> status_code (ex_res s') = 404 \<and> res_body (ex_res s') = ''Not Found'')
      | Some f \<Rightarrow>
          (case f (s\<lparr>ex_req := (ex_req s)\<lparr>req_path_params := params\<rparr>\<rparr>) of
             (None, s2) \<Rightarrow> e = None \<and> s' = s2
           | (Some (Binding_exception es), s2) \<Rightarrow> e = None \<and> status_code (ex_res s') = 400 \<and>
               res_body (ex_res s') = bad_request_json ''Invalid JSON request body'' es
           | (Some (Validation_exception es), s2) \<Rightarrow> e = None \<and> status_code (ex_res s') = 400 \<and>
               res_body (ex_res s') = bad_request_json ''Validation failed'' es
           | (Some (Undefined_behaviour u), s2) \<Rightarrow> e = Some (Undefined_behaviour u)
           | (Some Non_standard_thrown, s2) \<Rightarrow> e = None \<and> status_code (ex_res s') = 500
           | (Some x, s2) \<Rightarrow>
               (case handle_exception handlers x s2 of
                  (Inl y, s3) \<Rightarrow> e = Some y \<and> s' = s3
                | (Inr handled, s3) \<Rightarrow> e = None \<and> (if handled then s' = s3 else status_code (ex_res s') = 500)))"
  by (auto simp: final_handler_def set_res_def response_defs write_unhandled_error_def
      write_unknown_error_def Let_def split: option.split prod.split exn.split sum.split)

lemma exception_handler_throw_escapes:
  assumes "match_string r (req_method (ex_req s)) (req_path (ex_req s)) = (Some f, params)"
    and "f (s\<lparr>ex_req := (ex_req s)\<lparr>req_path_params := params\<rparr>\<rparr>) = (Some (Runtime_error w), s1)"
    and "h (Runtime_error w) s1 = (Inl x, s2)"
  shows "final_handler r (h # hs) static expose s = (Some x, s2)"
  using assms by (simp add: final_handler_def Let_def)

text \<open>
  with error details hidden (the default), the response to an unhandled exception does not
  depend on the exception: its message cannot leak.
\<close>

theorem unhandled_error_hides_message:
  assumes "match_string r (req_method (ex_req s)) (req_path (ex_req s)) = (Some f, params)"
    and "match_string r' (req_method (ex_req s)) (req_path (ex_req s)) = (Some f', params)"
    and "f (s\<lparr>ex_req := (ex_req s)\<lparr>req_path_params := params\<rparr>\<rparr>) = (Some (Runtime_error w), s1)"
    and "f' (s\<lparr>ex_req := (ex_req s)\<lparr>req_path_params := params\<rparr>\<rparr>) = (Some (Runtime_error w'), s1)"
  shows "final_handler r [] static False s = final_handler r' [] static False s"
  using assms by (simp add: final_handler_def write_unhandled_error_def Let_def)

definition failing_router :: "string \<Rightarrow> (exchange proc, unit) router" where
  "failing_router w = (case add_route empty_router GET ''/x'' (\<lambda>s. (Some (Runtime_error w), s)) of
     Inr r \<Rightarrow> r | Inl _ \<Rightarrow> empty_router)"

definition get_exchange :: "string \<Rightarrow> exchange" where
  "get_exchange path = \<lparr>ex_req = empty_request\<lparr>req_method := ''GET'', req_path := path\<rparr>,
     ex_res = default_response, ex_ctx = new_context 1, current_context = None\<rparr>"

lemma failing_router_match:
  "match_string (failing_router w) ''GET'' ''/x'' = (Some (\<lambda>s. (Some (Runtime_error w), s)), Map.empty)"
  by (simp add: failing_router_def add_route_def match_string_def match_route_def strip_query_def
      method_from_string_def empty_router_def insert_route.simps search.simps split_segment_def
      new_node_def find_ch_def substr_upto_def is_wildcard_def is_param_def get_handler_def)

theorem unhandled_error_hides_message_witness:
  "final_handler (failing_router ''db password'') [] (\<lambda>_ r _. (False, r)) False (get_exchange ''/x'') =
   final_handler (failing_router ''other'') [] (\<lambda>_ r _. (False, r)) False (get_exchange ''/x'')"
  by (rule unhandled_error_hides_message)
     (simp_all add: failing_router_match get_exchange_def empty_request_def)

end
