(* ===== verification/Exchange_Filters.thy ===== *)
theory Exchange_Filters
  imports Request_Pipeline
begin

text \<open>
  Middleware that annotates exchanges: request identifiers (\<^verbatim>\<open>request_id_middleware.cpp\<close>), gzip compression
  (\<^verbatim>\<open>compression_middleware.cpp\<close>), trace contexts and HTTP observations (\<^verbatim>\<open>observability/trace_context.cpp\<close>,
  \<^verbatim>\<open>http_observation_middleware.cpp\<close>). Random bytes and the compressor are parameters; of the meters the
  recorded events are kept without their durations.
\<close>

section \<open>Request identifiers\<close>

record RequestId_Config =
  rid_header_name :: string
  trust_inbound_header :: bool
  add_response_header :: bool

definition new_request_id_middleware :: "RequestId_Config \<Rightarrow> RequestId_Config result" where
  "new_request_id_middleware cfg =
     (if rid_header_name cfg = [] then Inl (Invalid_argument ''Request ID header name must not be empty'') else Inr cfg)"

definition valid_id :: "string \<Rightarrow> bool" where
  "valid_id v \<longleftrightarrow> v \<noteq> [] \<and> length v \<le> 128 \<and> \<not> (\<exists>c\<in>set v. byte_of c < 0x21 \<or> byte_of c > 0x7e)"

definition generate_request_id :: "nat list option \<Rightarrow> string result" where
  "generate_request_id rand =
     (case rand of
        None \<Rightarrow> Inl (Runtime_error ''OpenSSL could not generate a request identifier'')
      | Some bytes \<Rightarrow> Inr (hex_encode bytes))"

definition RequestId_decide :: "nat list option \<Rightarrow> RequestId_Config \<Rightarrow> exchange \<Rightarrow> exchange + (exn option \<times> exchange)" where
  "RequestId_decide rand cfg s =
     (let inbound = (if trust_inbound_header cfg
            then (case request_header (ex_req s) (rid_header_name cfg) of
                    Some v \<Rightarrow> if valid_id v then v else [] | None \<Rightarrow> [])
            else [])
      in case (if inbound = [] then generate_request_id rand else Inr inbound) of
           Inl e \<Rightarrow> Inr (Some e, s)
         | Inr request_id \<Rightarrow>
             let s1 = s\<lparr>ex_ctx := set_string (ex_ctx s) ''request_id'' request_id\<rparr>
             in Inl (if add_response_header cfg then set_res s1 (Response_header (ex_res s1) (rid_header_name cfg) request_id) else s1))"

definition RequestId_handle :: "nat list option \<Rightarrow> RequestId_Config \<Rightarrow> exchange middleware" where
  "RequestId_handle rand cfg next s = (case RequestId_decide rand cfg s of Inl s1 \<Rightarrow> next s1 | Inr r \<Rightarrow> r)"

interpretation request_ids: request_gate "RequestId_handle rand cfg" "RequestId_decide rand cfg" for rand cfg
  by unfold_locales (simp add: RequestId_handle_def)

section \<open>Compression\<close>

record Compression_Config =
  min_size_bytes :: nat
  gzip_level :: int
  compressible_content_types :: "string list"

definition lower_case :: "string \<Rightarrow> string" where
  "lower_case s = map tolower s"

function gzip_listed :: "string \<Rightarrow> bool" where
  "gzip_listed v =
     (if v = [] then False
      else
        let comma = find_ch CHR '','' v;
            token = trim_by isspace (substr_upto comma v)
        in if starts_with token ''gzip'' then True
           else case comma of None \<Rightarrow> False | Some n \<Rightarrow> gzip_listed (drop (Suc n) v))"
  by pat_completeness auto
termination
  by (relation "measure length") (auto dest: find_ch_SomeD(1))

declare gzip_listed.simps [simp del]

definition accepts_gzip :: "request \<Rightarrow> bool" where
  "accepts_gzip req = (case request_header req ''accept-encoding'' of None \<Rightarrow> False | Some v \<Rightarrow> gzip_listed (lower_case v))"

definition status_allows_body :: "int \<Rightarrow> bool" where
  "status_allows_body status \<longleftrightarrow> status \<ge> 200 \<and> status \<noteq> 204 \<and> status \<noteq> 304"

definition content_type_matches :: "string \<Rightarrow> string list \<Rightarrow> bool" where
  "content_type_matches content_type prefixes \<longleftrightarrow> list_ex (\<lambda>p. starts_with (lower_case content_type) (lower_case p)) prefixes"

definition response_is_compressible :: "response \<Rightarrow> Compression_Config \<Rightarrow> bool" where
  "response_is_compressible res cfg =
     (if \<not> status_allows_body (status_code res) then False
      else if length (res_body res) < min_size_bytes cfg then False
      else if HeaderMap_has (res_headers res) ''content-encoding'' then False
      else case HeaderMap_get (res_headers res) ''content-type'' of
             None \<Rightarrow> False
           | Some content_type \<Rightarrow> content_type_matches content_type (compressible_content_types cfg))"

fun has_substring :: "string \<Rightarrow> string \<Rightarrow> bool" where
  "has_substring [] p = (p = [])"
| "has_substring (c # s) p = (starts_with (c # s) p \<or> has_substring s p)"

definition append_vary :: "response \<Rightarrow> string \<Rightarrow> response" where
  "append_vary res v =
     (case HeaderMap_get (res_headers res) ''vary'' of
        None \<Rightarrow> Response_header res ''Vary'' v
      | Some current \<Rightarrow>
          (if current = [] then Response_header res ''Vary'' v
           else if has_substring (lower_case current) (lower_case v) then res
           else res\<lparr>res_headers := HeaderMap_set (res_headers res) ''Vary'' (current @ '', '' @ v)\<rparr>))"

definition compress_response ::
    "(string \<Rightarrow> int \<Rightarrow> string option) \<Rightarrow> Compression_Config \<Rightarrow> request \<Rightarrow> response \<Rightarrow> response" where
  "compress_response gzip cfg req res =
     (if \<not> accepts_gzip req \<or> \<not> response_is_compressible res cfg then res
      else case gzip (res_body res) (gzip_level cfg) of
             None \<Rightarrow> res
           | Some compressed \<Rightarrow>
               (if length compressed \<ge> length (res_body res) then res
                else
                  let r1 = Response_body res compressed;
                      r2 = r1\<lparr>res_headers := HeaderMap_remove (res_headers r1) ''content-length''\<rparr>
                  in append_vary (Response_header r2 ''Content-Encoding'' ''gzip'') ''Accept-Encoding''))"

definition Compression_post ::
    "(string \<Rightarrow> int \<Rightarrow> string option) \<Rightarrow> Compression_Config \<Rightarrow> exchange \<Rightarrow> exn option \<times> exchange \<Rightarrow> exn option \<times> exchange" where
  "Compression_post gzip cfg s r =
     (case r of (Some e, s1) \<Rightarrow> (Some e, s1) | (None, s1) \<Rightarrow> (None, set_res s1 (compress_response gzip cfg (ex_req s1) (ex_res s1))))"

definition Compression_handle :: "(string \<Rightarrow> int \<Rightarrow> string option) \<Rightarrow> Compression_Config \<Rightarrow> exchange middleware" where
  "Compression_handle gzip cfg next s = Compression_post gzip cfg s (next s)"

interpretation compression: request_wrapper "Compression_handle gzip cfg" Inl "Compression_post gzip cfg" for gzip cfg
  by unfold_locales (simp add: Compression_handle_def)

section \<open>Trace contexts\<close>

record TraceContext =
  trace_id :: string
  span_id :: string
  parent_span_id :: string
  trace_flags :: string
  tracestate :: string

definition empty_trace :: TraceContext where
  "empty_trace = \<lparr>trace_id = [], span_id = [], parent_span_id = [], trace_flags = [], tracestate = []\<rparr>"

definition is_lower_hex :: "string \<Rightarrow> bool" where
  "is_lower_hex v \<longleftrightarrow> v \<noteq> [] \<and> list_all (\<lambda>c. isdigit c \<or> (97 \<le> byte_of c \<and> byte_of c \<le> 102)) v"

definition all_zero :: "string \<Rightarrow> bool" where
  "all_zero v \<longleftrightarrow> list_all (\<lambda>c. c = CHR ''0'') v"

definition random_hex :: "nat list option \<Rightarrow> string result" where
  "random_hex rand =
     (case rand of
        None \<Rightarrow> Inl (Runtime_error ''OpenSSL could not generate a trace identifier'')
      | Some bytes \<Rightarrow> Inr (hex_encode bytes))"

definition traceparent :: "TraceContext \<Rightarrow> string" where
  "traceparent t = ''00-'' @ trace_id t @ ''-'' @ span_id t @ ''-'' @ trace_flags t"

definition extract_trace_context :: "request \<Rightarrow> TraceContext option" where
  "extract_trace_context req =
     (case request_header req ''traceparent'' of
        None \<Rightarrow> None
      | Some v \<Rightarrow>
          (if length v \<noteq> 55 then None
           else if v ! 2 \<noteq> CHR ''-'' \<or> v ! 35 \<noteq> CHR ''-'' \<or> v ! 52 \<noteq> CHR ''-'' then None
           else
             let version = take 2 v; tid = take 32 (drop 3 v); parent_id = take 16 (drop 36 v); flags = take 2 (drop 53 v)
             in if version = ''ff'' \<or> \<not> is_lower_hex version \<or> \<not> is_lower_hex tid \<or> \<not> is_lower_hex parent_id \<or>
                   \<not> is_lower_hex flags \<or> all_zero tid \<or> all_zero parent_id then None
                else Some (empty_trace\<lparr>trace_id := tid, parent_span_id := parent_id, trace_flags := flags,
                       tracestate := (case request_header req ''tracestate'' of Some st \<Rightarrow> st | None \<Rightarrow> [])\<rparr>)))"

text \<open>The random sources of the two identifiers a span may need.\<close>

definition fill_span :: "nat list option \<Rightarrow> nat list option \<Rightarrow> TraceContext \<Rightarrow> TraceContext result" where
  "fill_span rand_trace rand_span c =
     (case (if trace_id c = [] then random_hex rand_trace else Inr (trace_id c)) of
        Inl e \<Rightarrow> Inl e
      | Inr tid \<Rightarrow>
          (case random_hex rand_span of
             Inl e \<Rightarrow> Inl e
           | Inr sid \<Rightarrow> Inr (c\<lparr>trace_id := tid, trace_flags := (if trace_flags c = [] then ''01'' else trace_flags c), span_id := sid\<rparr>)))"

definition begin_server_span :: "nat list option \<Rightarrow> nat list option \<Rightarrow> request \<Rightarrow> TraceContext result" where
  "begin_server_span rand_trace rand_span req =
     fill_span rand_trace rand_span (case extract_trace_context req of Some c \<Rightarrow> c | None \<Rightarrow> empty_trace)"

definition begin_client_span :: "nat list option \<Rightarrow> nat list option \<Rightarrow> TraceContext option \<Rightarrow> TraceContext result" where
  "begin_client_span rand_trace rand_span parent =
     fill_span rand_trace rand_span
       (case parent of
          None \<Rightarrow> empty_trace
        | Some p \<Rightarrow> empty_trace\<lparr>trace_id := trace_id p, parent_span_id := span_id p, trace_flags := trace_flags p, tracestate := tracestate p\<rparr>)"

definition inject_trace_headers :: "TraceContext \<Rightarrow> header_map \<Rightarrow> header_map" where
  "inject_trace_headers t h =
     (let h1 = HeaderMap_set h ''traceparent'' (traceparent t)
      in if tracestate t = [] then HeaderMap_remove h1 ''tracestate'' else HeaderMap_set h1 ''tracestate'' (tracestate t))"

text \<open>The typed value the context keeps is written as the text of its fields.\<close>

definition trace_value :: "TraceContext \<Rightarrow> ctx_value" where
  "trace_value t = Other ''novaboot::observability::TraceContext''
     (trace_id t @ '','' @ span_id t @ '','' @ parent_span_id t @ '','' @ trace_flags t @ '','' @ tracestate t)"

definition inject_trace_exchange :: "TraceContext \<Rightarrow> response \<times> request_context \<Rightarrow> response \<times> request_context" where
  "inject_trace_exchange t rc =
     (let r1 = Response_header (fst rc) ''traceparent'' (traceparent t);
          r2 = (if tracestate t = [] then r1 else Response_header r1 ''tracestate'' (tracestate t));
          c1 = ctx_set (snd rc) (trace_value t)
      in (r2, set_string (set_string (set_string c1 ''trace_id'' (trace_id t)) ''span_id'' (span_id t)) ''parent_span_id'' (parent_span_id t)))"

section \<open>Observations\<close>

datatype meter_event =
    Counter_add string int
  | Histogram_record string string "(string \<times> string) list"
  | Record_span string "(string \<times> string) list" bool

record metered = exchange + meters :: "meter_event list"

definition record_meter :: "meter_event list \<Rightarrow> metered \<Rightarrow> metered" where
  "record_meter es s = s\<lparr>meters := meters s @ es\<rparr>"

definition observe_failure :: "metered \<Rightarrow> metered" where
  "observe_failure s =
     record_meter [Record_span ''http.server.request''
         [(''http.request.method'', req_method (ex_req s)), (''url.scheme'', req_scheme (ex_req s)),
          (''trace_id'', get_string (ex_ctx s) ''trace_id'')] True,
       Counter_add ''http.server.active_requests'' (- 1)] s"

definition observe_success :: "metered \<Rightarrow> metered" where
  "observe_success s =
     (let attributes = [(''http.request.method'', req_method (ex_req s)),
            (''http.response.status_code'', to_string_int (status_code (ex_res s))), (''url.scheme'', req_scheme (ex_req s))]
      in record_meter [Histogram_record ''http.server.request.duration'' ''s'' attributes,
           Histogram_record ''http.server.request.body.size'' ''By'' attributes,
           Histogram_record ''http.server.response.body.size'' ''By'' attributes,
           Record_span ''http.server.request'' (attributes @ [(''trace_id'', get_string (ex_ctx s) ''trace_id'')])
             (status_code (ex_res s) \<ge> 500),
           Counter_add ''http.server.active_requests'' (- 1)] s)"

definition HttpObservation_handle :: "nat list option \<Rightarrow> nat list option \<Rightarrow> metered middleware" where
  "HttpObservation_handle rand_trace rand_span next s =
     (case begin_server_span rand_trace rand_span (ex_req s) of
        Inl e \<Rightarrow> (Some e, s)
      | Inr t \<Rightarrow>
          (case inject_trace_exchange t (ex_res s, ex_ctx s) of
             (res, ctx) \<Rightarrow>
               (case next (record_meter [Counter_add ''http.server.active_requests'' 1] (s\<lparr>ex_res := res, ex_ctx := ctx\<rparr>)) of
                  (Some e, s1) \<Rightarrow> (Some e, observe_failure s1)
                | (None, s1) \<Rightarrow> (None, observe_success s1))))"

section \<open>Identifiers are safe\<close>

text \<open>What \<^verbatim>\<open>RAND_bytes\<close> delivers, all zeroes apart.\<close>

definition random_bytes :: "nat \<Rightarrow> nat list \<Rightarrow> bool" where
  "random_bytes n bs \<longleftrightarrow> length bs = n \<and> (\<forall>b\<in>set bs. b < 256) \<and> (\<exists>b\<in>set bs. b \<noteq> 0)"

lemma hex_digit_lower: "d < 16 \<Longrightarrow> isdigit (hex_digit d) \<or> 97 \<le> byte_of (hex_digit d) \<and> byte_of (hex_digit d) \<le> 102"
  by (auto simp: hex_digit_def isdigit_def)

lemma hex_encode_lower:
  assumes "\<forall>b\<in>set bs. b < 256" "bs \<noteq> []"
  shows "is_lower_hex (hex_encode bs)"
  using assms hex_digit_lower by (auto simp: is_lower_hex_def hex_encode_def list_all_iff less_mult_imp_div_less)

lemma hex_digit_zero: "d < 16 \<Longrightarrow> hex_digit d = CHR ''0'' \<longleftrightarrow> d = 0"
proof -
  assume "d < 16"
  moreover have "hex_digit 0 = CHR ''0''" by code_simp
  ultimately show ?thesis using hex_digit_inject [of d 0] by auto
qed

lemma hex_encode_zero: "\<forall>b\<in>set bs. b < 256 \<Longrightarrow> all_zero (hex_encode bs) \<Longrightarrow> b \<in> set bs \<Longrightarrow> b = 0"
proof -
  assume a: "\<forall>b\<in>set bs. b < 256" "all_zero (hex_encode bs)" "b \<in> set bs"
  then have "hex_digit (b div 16) = CHR ''0''" "hex_digit (b mod 16) = CHR ''0''"
    by (auto simp: all_zero_def hex_encode_def list_all_iff)
  moreover have "b div 16 < 16" using a by (auto simp: less_mult_imp_div_less)
  ultimately have "b div 16 = 0" "b mod 16 = 0" by (simp_all add: hex_digit_zero)
  then show "b = 0" by presburger
qed

lemma random_hex_ok:
  assumes "random_bytes n bs"
  shows "random_hex (Some bs) = Inr (hex_encode bs)" "is_lower_hex (hex_encode bs)" "\<not> all_zero (hex_encode bs)" "length (hex_encode bs) = 2 * n"
proof -
  have bs: "length bs = n" "\<forall>b\<in>set bs. b < 256" "\<exists>b\<in>set bs. b \<noteq> 0" "bs \<noteq> []" using assms by (auto simp: random_bytes_def)
  show "random_hex (Some bs) = Inr (hex_encode bs)" "length (hex_encode bs) = 2 * n" using bs(1) by (simp_all add: random_hex_def)
  show "is_lower_hex (hex_encode bs)" by (rule hex_encode_lower [OF bs(2,4)])
  show "\<not> all_zero (hex_encode bs)" using hex_encode_zero [OF bs(2)] bs(3) by blast
qed

lemma lower_hex_valid: "is_lower_hex v \<Longrightarrow> length v \<le> 128 \<Longrightarrow> valid_id v"
  by (auto simp: is_lower_hex_def valid_id_def list_all_iff isdigit_def)

text \<open>
  The identifier later middleware and the handler see is never empty, at most 128 characters long and made
  of visible ASCII characters, whatever the client sent; it is the one in the response header.
\<close>

lemma request_id_safe:
  assumes "random_bytes 16 bs" "RequestId_decide (Some bs) cfg s = Inl s'"
  shows "valid_id (get_string (ex_ctx s') ''request_id'')"
    and "add_response_header cfg \<Longrightarrow>
      ex_res s' = Response_header (ex_res s) (rid_header_name cfg) (get_string (ex_ctx s') ''request_id'')"
proof -
  have h: "valid_id (hex_encode bs)" using random_hex_ok [OF assms(1)] by (intro lower_hex_valid) simp_all
  then show "valid_id (get_string (ex_ctx s') ''request_id'')"
    using assms(2) by (auto simp: RequestId_decide_def generate_request_id_def Let_def set_string_def get_string_def set_res_def split: if_splits option.splits)
  show "add_response_header cfg \<Longrightarrow>
      ex_res s' = Response_header (ex_res s) (rid_header_name cfg) (get_string (ex_ctx s') ''request_id'')"
    using assms(2) by (auto simp: RequestId_decide_def generate_request_id_def Let_def set_string_def get_string_def set_res_def split: if_splits option.splits)
qed

section \<open>Compression is transparent\<close>

lemma HeaderMap_get_append_vary:
  "\<not> names_equal ''Vary'' n \<Longrightarrow> HeaderMap_get (res_headers (append_vary res v)) n = HeaderMap_get (res_headers res) n"
  by (auto simp: append_vary_def Response_header_def HeaderMap_get_add HeaderMap_get_set split: option.splits)

lemma append_vary_same [simp]: "res_body (append_vary res v) = res_body res" "status_code (append_vary res v) = status_code res"
  by (auto simp: append_vary_def Response_header_def split: option.splits)

text \<open>
  Compression changes nothing a client can see after decoding: either the response is the one the chain
  made, or the client offered gzip, the body is shorter and decodes to the original, the encoding is
  declared, the stale length is gone, and status and other headers are unchanged.
\<close>

lemma compression_transparent:
  assumes gunzip: "\<And>x l y. gzip x l = Some y \<Longrightarrow> gunzip y = x" and res'_def: "res' = compress_response gzip cfg req res"
  shows "res' = res \<or>
    accepts_gzip req \<and> gunzip (res_body res') = res_body res \<and> length (res_body res') < length (res_body res) \<and>
    HeaderMap_get (res_headers res') ''content-encoding'' = Some ''gzip'' \<and> HeaderMap_get (res_headers res') ''content-length'' = None \<and>
    status_code res' = status_code res \<and>
    (\<forall>n. \<not> names_equal n ''content-encoding'' \<longrightarrow> \<not> names_equal n ''content-length'' \<longrightarrow> \<not> names_equal n ''vary'' \<longrightarrow>
       HeaderMap_get (res_headers res') n = HeaderMap_get (res_headers res) n)"
proof (cases "res' = res")
  case False
  then obtain z where z: "accepts_gzip req" "response_is_compressible res cfg" "gzip (res_body res) (gzip_level cfg) = Some z"
      "length z < length (res_body res)"
      "res' = append_vary (Response_header (res\<lparr>res_body := z, res_headers := HeaderMap_remove (res_headers res) ''content-length''\<rparr>)
        ''Content-Encoding'' ''gzip'') ''Accept-Encoding''"
    unfolding res'_def compress_response_def by (auto simp: Let_def Response_body_def split: if_splits option.splits)
  have none: "HeaderMap_get (res_headers res) ''content-encoding'' = None"
    using z(2) by (auto simp: response_is_compressible_def HeaderMap_has_def split: if_splits)
  have ne: "\<not> names_equal ''Vary'' ''content-encoding''" "\<not> names_equal ''Vary'' ''content-length''"
      "names_equal ''Content-Encoding'' ''content-encoding''" "\<not> names_equal ''Content-Encoding'' ''content-length''"
      "\<not> names_equal ''content-length'' ''content-encoding''" "names_equal ''Vary'' ''vary''"
    by code_simp+
  have get: "HeaderMap_get (res_headers res') n =
      (case HeaderMap_get (HeaderMap_remove (res_headers res) ''content-length'') n of
         Some x \<Rightarrow> Some x | None \<Rightarrow> if names_equal ''Content-Encoding'' n then Some ''gzip'' else None)"
    if "\<not> names_equal ''Vary'' n" for n
    unfolding z(5) HeaderMap_get_append_vary [OF that] by (simp add: Response_header_def HeaderMap_get_add)
  have cl: "HeaderMap_get (res_headers res') ''content-length'' = None" by (simp add: get ne HeaderMap_get_remove)
  have ce: "HeaderMap_get (res_headers res') ''content-encoding'' = Some ''gzip''" by (simp add: get ne none HeaderMap_get_remove)
  have "HeaderMap_get (res_headers res') n = HeaderMap_get (res_headers res) n"
    if "\<not> names_equal n ''content-encoding''" "\<not> names_equal n ''content-length''" "\<not> names_equal n ''vary''" for n
  proof -
    have "\<not> names_equal ''Vary'' n" "\<not> names_equal ''Content-Encoding'' n" "\<not> names_equal ''content-length'' n"
      using that ne by (auto simp: names_equal_iff)
    then show ?thesis by (simp add: get HeaderMap_get_remove split: option.split)
  qed
  moreover have "res_body res' = z" "status_code res' = status_code res" by (simp_all add: z(5) Response_header_def)
  ultimately show ?thesis using z(1,3,4) cl ce gunzip by auto
qed simp

text \<open>A client that refuses gzip with a zero quality value is sent gzip.\<close>

lemma compression_ignores_quality:
  "request_header req ''accept-encoding'' = Some ''identity, gzip;q=0'' \<Longrightarrow> accepts_gzip req"
proof -
  have "gzip_listed (lower_case ''identity, gzip;q=0'')" by code_simp
  then show "request_header req ''accept-encoding'' = Some ''identity, gzip;q=0'' \<Longrightarrow> accepts_gzip req"
    by (simp add: accepts_gzip_def)
qed

section \<open>Traces cross services\<close>

definition valid_trace :: "TraceContext \<Rightarrow> bool" where
  "valid_trace t \<longleftrightarrow>
     length (trace_id t) = 32 \<and> is_lower_hex (trace_id t) \<and> \<not> all_zero (trace_id t) \<and>
     length (span_id t) = 16 \<and> is_lower_hex (span_id t) \<and> \<not> all_zero (span_id t) \<and>
     length (trace_flags t) = 2 \<and> is_lower_hex (trace_flags t)"

lemma extract_written:
  assumes t: "valid_trace t" and h: "request_header req ''traceparent'' = Some (traceparent t)"
    "(case request_header req ''tracestate'' of Some st \<Rightarrow> st | None \<Rightarrow> []) = tracestate t"
  shows "extract_trace_context req = Some \<lparr>trace_id = trace_id t, span_id = [], parent_span_id = span_id t,
    trace_flags = trace_flags t, tracestate = tracestate t\<rparr>"
proof -
  let ?v = "traceparent t"
  have l: "length (trace_id t) = 32" "length (span_id t) = 16" "length (trace_flags t) = 2" using t by (simp_all add: valid_trace_def)
  have v: "?v = CHR ''0'' # CHR ''0'' # CHR ''-'' # trace_id t @ CHR ''-'' # span_id t @ CHR ''-'' # trace_flags t"
    by (simp add: traceparent_def)
  have len: "length ?v = 55" by (simp add: v l)
  have n: "?v ! 2 = CHR ''-''" "?v ! 35 = CHR ''-''" "?v ! 52 = CHR ''-''"
    unfolding v by (simp_all add: nth_append l nth_Cons')
  have parts: "take 2 ?v = ''00''" "take 32 (drop 3 ?v) = trace_id t" "take 16 (drop 36 ?v) = span_id t" "take 2 (drop 53 ?v) = trace_flags t"
    unfolding v by (simp_all add: l numeral_eq_Suc drop_append take_append)
  have "is_lower_hex ''00''" by code_simp
  with t show ?thesis unfolding extract_trace_context_def h option.case
    by (simp add: len n parts valid_trace_def empty_trace_def Let_def)
qed

lemma extract_valid:
  assumes "extract_trace_context req = Some t"
  shows "length (trace_id t) = 32" "is_lower_hex (trace_id t)" "\<not> all_zero (trace_id t)" "length (trace_flags t) = 2"
    "is_lower_hex (trace_flags t)"
  using assms by (auto simp: extract_trace_context_def empty_trace_def Let_def split: option.splits if_splits)

lemma fill_span_ok:
  assumes "random_bytes 16 a" "random_bytes 8 b"
    and "trace_id c \<noteq> [] \<Longrightarrow> length (trace_id c) = 32 \<and> is_lower_hex (trace_id c) \<and> \<not> all_zero (trace_id c)"
    and "trace_flags c \<noteq> [] \<Longrightarrow> length (trace_flags c) = 2 \<and> is_lower_hex (trace_flags c)"
  shows "\<exists>s. fill_span (Some a) (Some b) c = Inr s \<and> valid_trace s \<and> (trace_id c \<noteq> [] \<longrightarrow> trace_id s = trace_id c) \<and>
    (trace_flags c \<noteq> [] \<longrightarrow> trace_flags s = trace_flags c) \<and> parent_span_id s = parent_span_id c \<and> tracestate s = tracestate c"
proof -
  have "is_lower_hex ''01''" by code_simp
  then show ?thesis using assms random_hex_ok [OF assms(1)] random_hex_ok [OF assms(2)]
    by (auto simp: fill_span_def valid_trace_def)
qed

text \<open>
  For code that opens a client span under the span of the request it serves, as the interface allows, and injects
  it into the headers of a call: the next server reads the same trace identifier, flags and state, with the
  calling span as parent, whatever propagation headers the call had before; the span of the request itself
  continues the trace of the request.
\<close>

lemma child_span_propagates:
  assumes rand: "random_bytes 16 a" "random_bytes 8 b" "random_bytes 16 a'" "random_bytes 8 b'"
    and out: "req_headers next_req = inject_trace_headers c h"
    and server: "begin_server_span (Some a) (Some b) req = Inr s" and client: "begin_client_span (Some a') (Some b') (Some s) = Inr c"
  shows "extract_trace_context next_req = Some \<lparr>trace_id = trace_id s, span_id = [], parent_span_id = span_id c,
      trace_flags = trace_flags s, tracestate = tracestate s\<rparr> \<and> parent_span_id c = span_id s \<and>
    (\<forall>t. extract_trace_context req = Some t \<longrightarrow>
       trace_id s = trace_id t \<and> parent_span_id s = parent_span_id t \<and> trace_flags s = trace_flags t \<and> tracestate s = tracestate t)"
proof -
  let ?c0 = "case extract_trace_context req of Some c \<Rightarrow> c | None \<Rightarrow> empty_trace"
  have "trace_id ?c0 \<noteq> [] \<Longrightarrow> length (trace_id ?c0) = 32 \<and> is_lower_hex (trace_id ?c0) \<and> \<not> all_zero (trace_id ?c0)"
      "trace_flags ?c0 \<noteq> [] \<Longrightarrow> length (trace_flags ?c0) = 2 \<and> is_lower_hex (trace_flags ?c0)"
    using extract_valid by (auto simp: empty_trace_def split: option.splits)
  from fill_span_ok [OF rand(1,2) this] server
  have s: "valid_trace s" "trace_id ?c0 \<noteq> [] \<longrightarrow> trace_id s = trace_id ?c0" "trace_flags ?c0 \<noteq> [] \<longrightarrow> trace_flags s = trace_flags ?c0"
      "parent_span_id s = parent_span_id ?c0" "tracestate s = tracestate ?c0"
    by (auto simp: begin_server_span_def)
  let ?p = "empty_trace\<lparr>trace_id := trace_id s, parent_span_id := span_id s, trace_flags := trace_flags s, tracestate := tracestate s\<rparr>"
  have ne: "trace_id s \<noteq> []" "trace_flags s \<noteq> []" using s(1) by (auto simp: valid_trace_def)
  have "trace_id ?p \<noteq> [] \<Longrightarrow> length (trace_id ?p) = 32 \<and> is_lower_hex (trace_id ?p) \<and> \<not> all_zero (trace_id ?p)"
      "trace_flags ?p \<noteq> [] \<Longrightarrow> length (trace_flags ?p) = 2 \<and> is_lower_hex (trace_flags ?p)"
    using s(1) by (auto simp: valid_trace_def)
  from fill_span_ok [OF rand(3,4) this] client ne
  have c: "valid_trace c" "trace_id c = trace_id s" "trace_flags c = trace_flags s" "parent_span_id c = span_id s" "tracestate c = tracestate s"
    by (auto simp: begin_client_span_def)
  have names: "\<not> names_equal ''tracestate'' ''traceparent''" "\<not> names_equal ''traceparent'' ''tracestate''" by code_simp+
  have h: "request_header next_req ''traceparent'' = Some (traceparent c)"
      "(case request_header next_req ''tracestate'' of Some st \<Rightarrow> st | None \<Rightarrow> []) = tracestate c"
    by (simp_all add: request_header_def out inject_trace_headers_def Let_def HeaderMap_get_set HeaderMap_get_remove names)
  have "trace_id s = trace_id t \<and> parent_span_id s = parent_span_id t \<and> trace_flags s = trace_flags t \<and> tracestate s = tracestate t"
    if "extract_trace_context req = Some t" for t
    using that s extract_valid [OF that] by fastforce
  then show ?thesis using extract_written [OF c(1) h] c(2-5) by simp
qed

lemma fill_span_total: "\<exists>s. fill_span (Some a) (Some b) c = Inr s"
  by (auto simp: fill_span_def random_hex_def)

section \<open>The gauge of active requests\<close>

definition active_requests :: "metered \<Rightarrow> int" where
  "active_requests s = sum_list (map (\<lambda>e. case e of Counter_add n d \<Rightarrow> if n = ''http.server.active_requests'' then d else 0 | _ \<Rightarrow> 0) (meters s))"

text \<open>Whatever happens inside, exceptions included, an observed request leaves the gauge as it found it.\<close>

lemma observation_gauge_balanced:
  assumes "\<And>s r s'. next s = (r, s') \<Longrightarrow> active_requests s' = active_requests s"
    and "HttpObservation_handle rand_trace rand_span next s = (r, s')"
  shows "active_requests s' = active_requests s"
proof (cases "begin_server_span rand_trace rand_span (ex_req s)")
  case (Inl e)
  then show ?thesis using assms(2) by (simp add: HttpObservation_handle_def)
next
  case (Inr t)
  let ?s1 = "record_meter [Counter_add ''http.server.active_requests'' 1]
      (s\<lparr>ex_res := fst (inject_trace_exchange t (ex_res s, ex_ctx s)), ex_ctx := snd (inject_trace_exchange t (ex_res s, ex_ctx s))\<rparr>)"
  obtain r1 s2 where n: "next ?s1 = (r1, s2)" by (cases "next ?s1")
  have "active_requests ?s1 = active_requests s + 1" by (simp add: active_requests_def record_meter_def)
  moreover have "active_requests (observe_failure s2) = active_requests s2 - 1" "active_requests (observe_success s2) = active_requests s2 - 1"
    by (simp_all add: active_requests_def record_meter_def observe_failure_def observe_success_def Let_def)
  moreover have "s' = observe_failure s2 \<or> s' = observe_success s2"
    using assms(2) n by (auto simp: HttpObservation_handle_def Inr split: option.splits prod.splits)
  ultimately show ?thesis using assms(1) [OF n] by auto
qed

end
