(* ===== verification/Meter_Registry.thy ===== *)
theory Meter_Registry
  imports Exchange_Filters "HOL-Library.List_Lexorder" "HOL-Library.Char_ord"
begin

text \<open>
  The meter registry (\<^verbatim>\<open>observability/observation.cpp\<close>): counters, gauges and histograms keyed by a text, and the
  retained spans and events. The arithmetic and printing of \<^verbatim>\<open>double\<close> are a parameter; counts are 64-bit words. A
  \<^verbatim>\<open>std::map\<close> is the list of its entries in key order. Each operation holds the registry's mutex throughout.
\<close>

section \<open>Ordered maps\<close>

fun map_put :: "'k::linorder \<Rightarrow> 'v \<Rightarrow> ('k \<times> 'v) list \<Rightarrow> ('k \<times> 'v) list" where
  "map_put k v [] = [(k, v)]"
| "map_put k v ((j, w) # m) =
     (if k < j then (k, v) # (j, w) # m else if k = j then (k, v) # m else (j, w) # map_put k v m)"

definition std_map :: "('k::linorder \<times> 'v) list \<Rightarrow> ('k \<times> 'v) list" where
  "std_map kvs = fold (\<lambda>(k, v). map_put k v) kvs []"

abbreviation ordered :: "('k::linorder \<times> 'v) list \<Rightarrow> bool" where
  "ordered m \<equiv> sorted_wrt (<) (map fst m)"

lemma keys_map_put [simp]: "fst ` set (map_put k v m) = insert k (fst ` set m)"
  by (induction k v m rule: map_put.induct) auto

lemma ordered_map_put [simp]: "ordered m \<Longrightarrow> ordered (map_put k v m)"
proof (induction k v m rule: map_put.induct)
  case (2 k v j w m)
  have "\<forall>y\<in>fst ` set (map_put k v m). j < y" if "j < k"
    using 2(2) that by simp
  with 2 show ?case by (auto simp: not_less order_le_less)
qed simp

lemma map_of_map_put [simp]: "ordered m \<Longrightarrow> map_of (map_put k v m) = (map_of m)(k \<mapsto> v)"
proof (induction k v m rule: map_put.induct)
  case (2 k v j w m)
  have "map_of m k = None" if "k \<le> j"
    using 2(2) that by (force simp: map_of_eq_None_iff)
  with 2 show ?case by (auto simp: fun_eq_iff)
qed simp

lemma ordered_distinct: "ordered m \<Longrightarrow> distinct (map fst m)"
  by (simp add: strict_sorted_iff)

section \<open>Meters\<close>

text \<open>What the code uses of \<^verbatim>\<open>double\<close>: zero, addition, comparison, literals \<open>m * 10 ^ - k\<close>, seconds of a duration, printing.\<close>

record 'd fp =
  fp_zero :: 'd
  fp_add :: "'d \<Rightarrow> 'd \<Rightarrow> 'd"
  fp_le :: "'d \<Rightarrow> 'd \<Rightarrow> bool"
  fp_lit :: "nat \<Rightarrow> nat \<Rightarrow> 'd"
  fp_seconds :: "int \<Rightarrow> 'd"
  fp_format :: "'d \<Rightarrow> string"
  fp_to_string :: "'d \<Rightarrow> string"

type_synonym Attributes = "(string \<times> string) list"

datatype InstrumentKind = Counter | UpDownCounter | Histogram | Gauge

record 'd MetricPoint =
  mp_name :: string
  mp_unit :: string
  mp_kind :: InstrumentKind
  mp_attributes :: Attributes
  mp_value :: 'd
  mp_count :: "64 word"
  mp_sum :: 'd
  mp_buckets :: "('d \<times> 64 word) list"

record SpanRecord =
  span_name :: string
  span_attributes :: Attributes
  span_duration :: int
  span_error :: bool

record EventRecord =
  event_name :: string
  event_attributes :: Attributes

record 'd MeterRegistry =
  points :: "(string \<times> 'd MetricPoint) list"
  spans_log :: "SpanRecord list"
  events_log :: "EventRecord list"

definition max_completed_records :: nat where
  "max_completed_records = 1024"

definition empty_registry :: "'d MeterRegistry" where
  "empty_registry = \<lparr>points = [], spans_log = [], events_log = []\<rparr>"

definition fresh_point :: "'d fp \<Rightarrow> string \<Rightarrow> string \<Rightarrow> InstrumentKind \<Rightarrow> Attributes \<Rightarrow> 'd MetricPoint" where
  "fresh_point fp name unit kind attributes =
     \<lparr>mp_name = name, mp_unit = unit, mp_kind = kind, mp_attributes = attributes, mp_value = fp_zero fp,
      mp_count = 0, mp_sum = fp_zero fp, mp_buckets = []\<rparr>"

definition kind_index :: "InstrumentKind \<Rightarrow> nat" where
  "kind_index k = (case k of Counter \<Rightarrow> 0 | UpDownCounter \<Rightarrow> 1 | Histogram \<Rightarrow> 2 | Gauge \<Rightarrow> 3)"

definition key_for :: "string \<Rightarrow> InstrumentKind \<Rightarrow> string \<Rightarrow> Attributes \<Rightarrow> string" where
  "key_for name kind unit attributes =
     name @ ''|'' @ to_string_nat (kind_index kind) @ ''|'' @ unit @
     concat (map (\<lambda>(attribute_name, attribute_value). ''|'' @ attribute_name @ ''='' @ attribute_value) attributes)"

definition histogram_bounds :: "'d fp \<Rightarrow> string \<Rightarrow> 'd list" where
  "histogram_bounds fp unit =
     (if unit = ''s''
      then [fp_lit fp 1 3, fp_lit fp 5 3, fp_lit fp 1 2, fp_lit fp 25 3, fp_lit fp 5 2, fp_lit fp 1 1, fp_lit fp 25 2,
            fp_lit fp 5 1, fp_lit fp 1 0, fp_lit fp 25 1, fp_lit fp 5 0, fp_lit fp 10 0]
      else [fp_lit fp 128 0, fp_lit fp 512 0, fp_lit fp 1024 0, fp_lit fp 4096 0, fp_lit fp 16384 0, fp_lit fp 65536 0,
            fp_lit fp 262144 0, fp_lit fp 1048576 0, fp_lit fp 4194304 0, fp_lit fp 16777216 0])"

definition default_histogram_buckets :: "'d fp \<Rightarrow> string \<Rightarrow> ('d \<times> 64 word) list" where
  "default_histogram_buckets fp unit = map (\<lambda>bound. (bound, 0)) (histogram_bounds fp unit)"

text \<open>\<^verbatim>\<open>points_[key].point\<close> inserts a default point, whose name is empty, when there is none.\<close>

definition stored_point :: "'d fp \<Rightarrow> 'd MeterRegistry \<Rightarrow> string \<Rightarrow> 'd MetricPoint" where
  "stored_point fp r key = (case map_of (points r) key of Some p \<Rightarrow> p | None \<Rightarrow> fresh_point fp [] [] Counter [])"

definition counter_add :: "'d fp \<Rightarrow> string \<Rightarrow> 'd \<Rightarrow> Attributes \<Rightarrow> 'd MeterRegistry \<Rightarrow> 'd MeterRegistry" where
  "counter_add fp name v attributes r =
     (let key = key_for name Counter ''1'' attributes; stored0 = stored_point fp r key;
          stored = (if mp_name stored0 = [] then fresh_point fp name ''1'' Counter attributes else stored0)
      in r\<lparr>points := map_put key (stored\<lparr>mp_value := fp_add fp (mp_value stored) v\<rparr>) (points r)\<rparr>)"

definition up_down_counter_add :: "'d fp \<Rightarrow> string \<Rightarrow> 'd \<Rightarrow> Attributes \<Rightarrow> 'd MeterRegistry \<Rightarrow> 'd MeterRegistry" where
  "up_down_counter_add fp name v attributes r =
     (let key = key_for name UpDownCounter ''1'' attributes; stored0 = stored_point fp r key;
          stored = (if mp_name stored0 = [] then fresh_point fp name ''1'' UpDownCounter attributes else stored0)
      in r\<lparr>points := map_put key (stored\<lparr>mp_value := fp_add fp (mp_value stored) v\<rparr>) (points r)\<rparr>)"

definition histogram_record :: "'d fp \<Rightarrow> string \<Rightarrow> 'd \<Rightarrow> string \<Rightarrow> Attributes \<Rightarrow> 'd MeterRegistry \<Rightarrow> 'd MeterRegistry" where
  "histogram_record fp name v unit attributes r =
     (let key = key_for name Histogram unit attributes; stored0 = stored_point fp r key;
          stored = (if mp_name stored0 = []
            then (fresh_point fp name unit Histogram attributes)\<lparr>mp_buckets := default_histogram_buckets fp unit\<rparr> else stored0)
      in r\<lparr>points := map_put key
            (stored\<lparr>mp_count := mp_count stored + 1, mp_sum := fp_add fp (mp_sum stored) v,
               mp_buckets := map (\<lambda>(upper_bound, n). (upper_bound, if fp_le fp v upper_bound then n + 1 else n)) (mp_buckets stored)\<rparr>)
            (points r)\<rparr>)"

definition gauge_set :: "'d fp \<Rightarrow> string \<Rightarrow> 'd \<Rightarrow> string \<Rightarrow> Attributes \<Rightarrow> 'd MeterRegistry \<Rightarrow> 'd MeterRegistry" where
  "gauge_set fp name v unit attributes r =
     (let key = key_for name Gauge unit attributes; stored0 = stored_point fp r key;
          stored = (if mp_name stored0 = [] then fresh_point fp name unit Gauge attributes else stored0)
      in r\<lparr>points := map_put key (stored\<lparr>mp_value := v\<rparr>) (points r)\<rparr>)"

definition snapshot :: "'d MeterRegistry \<Rightarrow> 'd MetricPoint list" where
  "snapshot r = map snd (points r)"

definition record_span :: "SpanRecord \<Rightarrow> 'd MeterRegistry \<Rightarrow> 'd MeterRegistry" where
  "record_span span r =
     (let kept = (if length (spans_log r) = max_completed_records then tl (spans_log r) else spans_log r)
      in r\<lparr>spans_log := kept @ [span]\<rparr>)"

definition record_event :: "EventRecord \<Rightarrow> 'd MeterRegistry \<Rightarrow> 'd MeterRegistry" where
  "record_event event r =
     (let kept = (if length (events_log r) = max_completed_records then tl (events_log r) else events_log r)
      in r\<lparr>events_log := kept @ [event]\<rparr>)"

section \<open>Series\<close>

text \<open>Specification: one point per combination of name, kind, unit and attributes, computed from all that was observed.\<close>

type_synonym series = "string \<times> InstrumentKind \<times> string \<times> Attributes"

datatype 'd observation =
    Ob_counter string 'd Attributes
  | Ob_updown string 'd Attributes
  | Ob_histogram string 'd string Attributes
  | Ob_gauge string 'd string Attributes

fun observe :: "'d fp \<Rightarrow> 'd observation \<Rightarrow> 'd MeterRegistry \<Rightarrow> 'd MeterRegistry" where
  "observe fp (Ob_counter n v a) = counter_add fp n v a"
| "observe fp (Ob_updown n v a) = up_down_counter_add fp n v a"
| "observe fp (Ob_histogram n v u a) = histogram_record fp n v u a"
| "observe fp (Ob_gauge n v u a) = gauge_set fp n v u a"

fun ob_series :: "'d observation \<Rightarrow> series" where
  "ob_series (Ob_counter n v a) = (n, Counter, ''1'', a)"
| "ob_series (Ob_updown n v a) = (n, UpDownCounter, ''1'', a)"
| "ob_series (Ob_histogram n v u a) = (n, Histogram, u, a)"
| "ob_series (Ob_gauge n v u a) = (n, Gauge, u, a)"

fun ob_amount :: "'d observation \<Rightarrow> 'd" where
  "ob_amount (Ob_counter n v a) = v"
| "ob_amount (Ob_updown n v a) = v"
| "ob_amount (Ob_histogram n v u a) = v"
| "ob_amount (Ob_gauge n v u a) = v"

definition samples :: "series \<Rightarrow> 'd observation list \<Rightarrow> 'd list" where
  "samples s log = map ob_amount (filter (\<lambda>ob. ob_series ob = s) log)"

fun series_point :: "'d fp \<Rightarrow> series \<Rightarrow> 'd list \<Rightarrow> 'd MetricPoint" where
  "series_point fp (n, k, u, a) vs =
     \<lparr>mp_name = n, mp_unit = u, mp_kind = k, mp_attributes = a,
      mp_value = (case k of Histogram \<Rightarrow> fp_zero fp | Gauge \<Rightarrow> last vs | _ \<Rightarrow> foldl (fp_add fp) (fp_zero fp) vs),
      mp_count = (if k = Histogram then of_nat (length vs) else 0),
      mp_sum = (if k = Histogram then foldl (fp_add fp) (fp_zero fp) vs else fp_zero fp),
      mp_buckets = (if k = Histogram
        then map (\<lambda>bound. (bound, of_nat (length (filter (\<lambda>v. fp_le fp v bound) vs)))) (histogram_bounds fp u) else [])\<rparr>"

fun series_key :: "series \<Rightarrow> string" where
  "series_key (n, k, u, a) = key_for n k u a"

text \<open>Texts the key keeps apart: no separator in any part, and a name.\<close>

fun series_ok :: "series \<Rightarrow> bool" where
  "series_ok (n, k, u, a) \<longleftrightarrow> n \<noteq> [] \<and> CHR ''|'' \<notin> set n \<and> CHR ''|'' \<notin> set u \<and>
     list_all (\<lambda>(x, y). CHR ''|'' \<notin> set x \<and> CHR ''='' \<notin> set x \<and> CHR ''|'' \<notin> set y) a"

lemma split_at_inject:
  assumes "c \<notin> set x" "c \<notin> set y" "x @ c # xs = y @ c # ys"
  shows "x = y \<and> xs = ys"
proof -
  have "x = takeWhile (\<lambda>z. z \<noteq> c) (y @ c # ys)"
    using takeWhile_neq_append [OF assms(1), of xs] assms(3) by simp
  then have "x = y" by (simp add: takeWhile_neq_append [OF assms(2)])
  with assms(3) show ?thesis by simp
qed

lemma join_with_inject:
  "\<forall>x\<in>set xs. c \<notin> set x \<Longrightarrow> \<forall>y\<in>set ys. c \<notin> set y \<Longrightarrow> xs \<noteq> [] \<Longrightarrow> ys \<noteq> [] \<Longrightarrow>
   join_with c xs = join_with c ys \<Longrightarrow> xs = ys"
proof (induction c xs arbitrary: ys rule: join_with.induct)
  case (2 c x)
  then show ?case by (cases "(c, ys)" rule: join_with.cases) auto
next
  case (3 c x x' xs)
  show ?case
  proof (cases "(c, ys)" rule: join_with.cases)
    case (3 c' y y' ys')
    with "3.prems" have "x @ c # join_with c (x' # xs) = y @ c # join_with c (y' # ys')" by simp
    moreover have "c \<notin> set x" "c \<notin> set y" using "3.prems"(1,2) 3 by simp_all
    ultimately have e: "x = y" "join_with c (x' # xs) = join_with c (y' # ys')"
      using split_at_inject by metis+
    have "x' # xs = y' # ys'"
      by (rule "3.IH" [OF _ _ _ _ e(2)]) (use "3.prems"(1,2) 3 in simp_all)
    with e(1) show ?thesis using 3 by simp
  qed (use "3.prems" in auto)
qed simp

lemma key_for_join:
  "key_for n k u a =
     join_with (CHR ''|'') (n # to_string_nat (kind_index k) # u # map (\<lambda>(x, y). x @ CHR ''='' # y) a)"
proof -
  have "u @ concat (map (\<lambda>(x, y). ''|'' @ x @ ''='' @ y) a) = join_with (CHR ''|'') (u # map (\<lambda>(x, y). x @ CHR ''='' # y) a)"
  proof (induction a arbitrary: u)
    case (Cons p a)
    show ?case using Cons.IH [of "fst p @ CHR ''='' # snd p"] by (cases p) simp
  qed simp
  then show ?thesis by (simp add: key_for_def)
qed

lemma kind_index_inject: "kind_index k = kind_index k' \<longleftrightarrow> k = k'"
  by (cases k; cases k') (simp_all add: kind_index_def)

lemma attributes_inject:
  "list_all (\<lambda>(x, y). CHR ''='' \<notin> set x) a \<Longrightarrow> list_all (\<lambda>(x, y). CHR ''='' \<notin> set x) b \<Longrightarrow>
   map (\<lambda>(x, y). x @ CHR ''='' # y) a = map (\<lambda>(x, y). x @ CHR ''='' # y) b \<Longrightarrow> a = b"
proof (induction a arbitrary: b)
  case (Cons p a)
  then obtain q b' where b: "b = q # b'" by (cases b) auto
  obtain x y x' y' where xy: "p = (x, y)" "q = (x', y')" by (cases p; cases q)
  with Cons.prems b have "x @ CHR ''='' # y = x' @ CHR ''='' # y'" "CHR ''='' \<notin> set x" "CHR ''='' \<notin> set x'" by auto
  with split_at_inject have "p = q" by (metis xy)
  with Cons b show ?case by simp
qed simp

lemma digits_no_bar: "CHR ''|'' \<notin> set (to_string_nat n)"
  using to_string_nat_digits [of n] by (auto simp: isdigit_def)

lemma series_key_inject:
  assumes "series_ok s" "series_ok t" "series_key s = series_key t"
  shows "s = t"
proof -
  obtain n k u a where s: "s = (n, k, u, a)" by (cases s)
  obtain n' k' u' a' where t: "t = (n', k', u', a')" by (cases t)
  let ?l = "\<lambda>n k u a. n # to_string_nat (kind_index k) # u # map (\<lambda>(x, y). x @ CHR ''='' # y) a"
  have parts: "\<forall>x\<in>set (?l n k u a). CHR ''|'' \<notin> set x" if "series_ok (n, k, u, a)" for n k u a
    using that digits_no_bar by (auto simp: list_all_iff)
  from assms(3) have "join_with (CHR ''|'') (?l n k u a) = join_with (CHR ''|'') (?l n' k' u' a')"
    by (simp only: s t series_key.simps key_for_join)
  then have "?l n k u a = ?l n' k' u' a'"
    by (intro join_with_inject [OF parts [OF assms(1) [unfolded s]] parts [OF assms(2) [unfolded t]]]) simp_all
  moreover have "a = a'" if "map (\<lambda>(x, y). x @ CHR ''='' # y) a = map (\<lambda>(x, y). x @ CHR ''='' # y) a'"
    using attributes_inject [OF _ _ that] assms(1,2) by (auto simp: s t list_all_iff)
  ultimately show ?thesis by (simp add: s t kind_index_inject)
qed

text \<open>What the registry holds after a log of observations.\<close>

definition registry_refines :: "'d fp \<Rightarrow> 'd MeterRegistry \<Rightarrow> 'd observation list \<Rightarrow> bool" where
  "registry_refines fp r log \<longleftrightarrow> ordered (points r) \<and> fst ` set (points r) = (series_key \<circ> ob_series) ` set log \<and>
     (\<forall>ob\<in>set log. map_of (points r) (series_key (ob_series ob)) = Some (series_point fp (ob_series ob) (samples (ob_series ob) log)))"

lemma samples_snoc: "samples s (log @ [ob]) = samples s log @ (if ob_series ob = s then [ob_amount ob] else [])"
  by (simp add: samples_def)

lemma samples_none: "ob_series ob \<notin> ob_series ` set log \<Longrightarrow> samples (ob_series ob) log = []"
  by (auto simp: samples_def filter_empty_conv) (metis imageI)

lemma count_snoc:
  "(of_nat (length (filter P (vs @ [v]))) :: 64 word) =
   (if P v then 1 + of_nat (length (filter P vs)) else of_nat (length (filter P vs)))"
  by simp

lemma count_single: "(of_nat (length (if b then [v] else [])) :: 64 word) = (if b then 1 else 0)"
  by simp

text \<open>An operation stores the point of its series with one more sample.\<close>

lemma observe_points:
  assumes "series_ok (ob_series ob)"
    "map_of (points r) (series_key (ob_series ob)) = (if vs = [] then None else Some (series_point fp (ob_series ob) vs))"
  shows "points (observe fp ob r) = map_put (series_key (ob_series ob)) (series_point fp (ob_series ob) (vs @ [ob_amount ob])) (points r)"
  using assms
  by (cases ob; cases "vs = []")
     (simp_all add: counter_add_def up_down_counter_add_def histogram_record_def gauge_set_def stored_point_def fresh_point_def
        default_histogram_buckets_def Let_def comp_def add.commute count_snoc count_single cong: if_cong del: filter_append)

lemma observe_refines:
  assumes "registry_refines fp r log" "\<forall>o'\<in>set (log @ [ob]). series_ok (ob_series o')"
  shows "registry_refines fp (observe fp ob r) (log @ [ob])"
proof -
  let ?s = "ob_series ob"
  have keys: "series_key (ob_series o') = series_key ?s \<longleftrightarrow> ob_series o' = ?s" if "o' \<in> set log" for o'
    using assms(2) that series_key_inject [of "ob_series o'" ?s] by auto
  have "map_of (points r) (series_key ?s) = (if samples ?s log = [] then None else Some (series_point fp ?s (samples ?s log)))"
  proof (cases "?s \<in> ob_series ` set log")
    case True
    then obtain o' where o': "o' \<in> set log" "ob_series o' = ?s" by force
    then have "samples ?s log \<noteq> []" by (auto simp: samples_def filter_empty_conv)
    with o' assms(1) show ?thesis by (auto simp: registry_refines_def)
  next
    case False
    then have "series_key ?s \<notin> (series_key \<circ> ob_series) ` set log"
      using keys by (metis (no_types, lifting) comp_apply imageE imageI)
    then have "series_key ?s \<notin> fst ` set (points r)"
      using assms(1) by (simp add: registry_refines_def)
    with False show ?thesis by (simp add: samples_none map_of_eq_None_iff)
  qed
  from observe_points [OF _ this] assms(2)
  have p: "points (observe fp ob r) = map_put (series_key ?s) (series_point fp ?s (samples ?s log @ [ob_amount ob])) (points r)"
    by simp
  show ?thesis
    using assms(1) keys unfolding registry_refines_def p
    by (auto simp: samples_snoc)
qed

definition observe_all :: "'d fp \<Rightarrow> 'd observation list \<Rightarrow> 'd MeterRegistry" where
  "observe_all fp log = foldl (\<lambda>r ob. observe fp ob r) empty_registry log"

lemma observe_all_refines:
  "\<forall>ob\<in>set log. series_ok (ob_series ob) \<Longrightarrow> registry_refines fp (observe_all fp log) log"
proof (induction log rule: rev_induct)
  case (snoc ob log)
  then show ?case
    using observe_refines [of fp "observe_all fp log" log ob] by (simp add: observe_all_def)
qed (simp add: observe_all_def empty_registry_def registry_refines_def)

lemma refines_snapshot:
  assumes "registry_refines fp r log"
  shows "set (snapshot r) = (\<lambda>s. series_point fp s (samples s log)) ` ob_series ` set log"
proof -
  have d: "distinct (map fst (points r))" using assms by (auto simp: registry_refines_def ordered_distinct)
  have "p \<in> (\<lambda>s. series_point fp s (samples s log)) ` ob_series ` set log" if "(k, p) \<in> set (points r)" for k p
  proof -
    have "k \<in> (series_key \<circ> ob_series) ` set log"
      using assms that by (metis fst_conv imageI registry_refines_def)
    then obtain ob where ob: "ob \<in> set log" "k = series_key (ob_series ob)" by auto
    have "map_of (points r) k = Some p" using d that by simp
    with assms ob have "p = series_point fp (ob_series ob) (samples (ob_series ob) log)"
      by (simp add: registry_refines_def)
    with ob(1) show ?thesis by blast
  qed
  moreover have "series_point fp (ob_series ob) (samples (ob_series ob) log) \<in> snd ` set (points r)" if "ob \<in> set log" for ob
    using assms that unfolding registry_refines_def by (metis map_of_SomeD image_eqI snd_conv)
  ultimately show ?thesis by (auto simp: snapshot_def)
qed

lemma refines_length:
  assumes "registry_refines fp r log" "\<forall>ob\<in>set log. series_ok (ob_series ob)"
  shows "length (snapshot r) = card (ob_series ` set log)"
proof -
  have "length (points r) = card (fst ` set (points r))"
    using assms(1) distinct_card [of "map fst (points r)"] by (simp add: registry_refines_def ordered_distinct)
  also have "\<dots> = card (series_key ` ob_series ` set log)"
    using assms(1) by (simp add: registry_refines_def image_comp)
  also have "\<dots> = card (ob_series ` set log)"
  proof (rule card_image, rule inj_onI)
    fix s t assume "s \<in> ob_series ` set log" "t \<in> ob_series ` set log" "series_key s = series_key t"
    with assms(2) show "s = t" by (intro series_key_inject) auto
  qed
  finally show ?thesis by (simp add: snapshot_def)
qed

text \<open>
  C29: the registry refines its specification. After any log of observations with a name that is not empty and texts that avoid the key's separators, a
  snapshot has exactly one point for every combination of name, kind, unit and attributes observed: counters hold the sum
  of their amounts in order, gauges the last value, and every bucket of a histogram the number of samples up to its bound.
\<close>

theorem meters_refine_series:
  assumes "\<forall>ob\<in>set log. series_ok (ob_series ob)"
  shows "set (snapshot (observe_all fp log)) = (\<lambda>s. series_point fp s (samples s log)) ` ob_series ` set log \<and>
    length (snapshot (observe_all fp log)) = card (ob_series ` set log)"
  using refines_snapshot [OF observe_all_refines [OF assms]] refines_length [OF observe_all_refines [OF assms] assms] by simp

text \<open>Integers in the place of \<^verbatim>\<open>double\<close>.\<close>

definition int_fp :: "int fp" where
  "int_fp = \<lparr>fp_zero = 0, fp_add = (+), fp_le = (\<le>), fp_lit = (\<lambda>m k. int m * 1000 div 10 ^ k), fp_seconds = (\<lambda>n. n div 1000000),
     fp_format = to_string_int, fp_to_string = to_string_int\<rparr>"

definition demo_log :: "int observation list" where
  "demo_log = [Ob_counter ''hits'' 2 [(''path'', ''a'')], Ob_histogram ''latency'' 7 ''s'' [],
     Ob_counter ''hits'' 3 [(''path'', ''a'')], Ob_counter ''hits'' 1 [(''path'', ''b'')]]"

theorem meters_refine_series_witness:
  "length (snapshot (observe_all int_fp demo_log)) = card (ob_series ` set demo_log) \<and>
   series_point int_fp (''hits'', Counter, ''1'', [(''path'', ''a'')]) [2, 3] \<in> set (snapshot (observe_all int_fp demo_log))"
proof -
  have ok: "\<forall>ob\<in>set demo_log. series_ok (ob_series ob)" by (simp add: demo_log_def)
  note t = meters_refine_series [OF ok, of int_fp]
  have "(''hits'', Counter, ''1'', [(''path'', ''a'')]) \<in> ob_series ` set demo_log"
    "samples (''hits'', Counter, ''1'', [(''path'', ''a'')]) demo_log = [2, 3]"
    by (simp_all add: demo_log_def samples_def)
  then have "series_point int_fp (''hits'', Counter, ''1'', [(''path'', ''a'')]) [2, 3]
      \<in> (\<lambda>s. series_point int_fp s (samples s demo_log)) ` ob_series ` set demo_log"
    by (metis (no_types, lifting) image_eqI)
  with t show ?thesis by simp
qed

text \<open>
  Outside of that: attribute values are not escaped in the key, so two different sets of attributes can share a
  point, and a meter without a name starts afresh at each observation.
\<close>

lemma meter_key_collision:
  "series_key (''hits'', Counter, ''1'', [(''a'', ''1|b=2'')]) = series_key (''hits'', Counter, ''1'', [(''a'', ''1''), (''b'', ''2'')])"
  by (simp add: key_for_def)

lemma unnamed_counter_forgets:
  "snapshot (observe_all int_fp [Ob_counter [] 5 [], Ob_counter [] 7 []]) = [series_point int_fp ([], Counter, ''1'', []) [7]]"
  by (simp add: observe_all_def counter_add_def stored_point_def fresh_point_def empty_registry_def snapshot_def int_fp_def)

subsection \<open>Retained records\<close>

definition latest :: "nat \<Rightarrow> 'a list \<Rightarrow> 'a list" where
  "latest n xs = drop (length xs - n) xs"

lemma latest_snoc:
  "0 < n \<Longrightarrow> latest n (xs @ [x]) = (if length (latest n xs) = n then tl (latest n xs) else latest n xs) @ [x]"
  by (auto simp: latest_def drop_Suc tl_drop not_le Suc_diff_le)

text \<open>The registry keeps the most recent 1024 spans, and events, in order.\<close>

lemma spans_latest:
  "spans_log (fold record_span xs empty_registry) = latest max_completed_records xs"
proof (induction xs rule: rev_induct)
  case (snoc x xs)
  then show ?case
    using latest_snoc [of max_completed_records xs x] by (simp add: record_span_def max_completed_records_def)
qed (simp add: latest_def empty_registry_def)

lemma events_latest:
  "events_log (fold record_event xs empty_registry) = latest max_completed_records xs"
proof (induction xs rule: rev_induct)
  case (snoc x xs)
  then show ?case
    using latest_snoc [of max_completed_records xs x] by (simp add: record_event_def max_completed_records_def)
qed (simp add: latest_def empty_registry_def)

end
