(* ===== verification/Actuator_Endpoints.thy ===== *)
theory Actuator_Endpoints
  imports Meter_Registry
begin

text \<open>
  The management endpoints (\<^verbatim>\<open>actuator/actuator.cpp\<close>): health, info, metrics, configuration, loggers and observations,
  registered on the router behind the configured authorizer. What contributors read of the host is part of the state; the
  names of the logger's levels and the printing of \<^verbatim>\<open>double\<close> are parameters.
\<close>

section \<open>Configuration and state\<close>

datatype HealthStatus = Up | Down | OutOfService | Unknown

record Health =
  h_status :: HealthStatus
  h_details :: "(string \<times> string) list"

datatype Availability = Starting | Ready | RefusingTraffic | Stopped

record Actuator_Config =
  base_path :: string
  expose_health :: bool
  expose_info :: bool
  expose_metrics :: bool
  expose_prometheus :: bool
  expose_config :: bool
  expose_loggers :: bool
  expose_observations :: bool
  disk_path :: string
  disk_min_free_bytes :: nat
  require_authorization :: bool
  authorizer :: "(request \<Rightarrow> bool) option"

definition default_actuator_config :: Actuator_Config where
  "default_actuator_config =
     \<lparr>base_path = ''/actuator'', expose_health = True, expose_info = True, expose_metrics = False, expose_prometheus = False,
      expose_config = False, expose_loggers = False, expose_observations = False, disk_path = ''/'', disk_min_free_bytes = 0,
      require_authorization = False, authorizer = None\<rparr>"

text \<open>What the built-in contributors ask the system for: the file system call reports blocks available and their size.\<close>

record host =
  host_pid :: nat
  host_clock_ns :: nat
  host_processors :: nat
  host_statvfs :: "string \<Rightarrow> (nat \<times> nat) option"

datatype log_level = L_trace | L_debug | L_info | L_warn | L_err | L_critical | L_off

record ('d, 'e) Actuator =
  ac_config :: Actuator_Config
  ac_meters :: "'d MeterRegistry"
  health_contributors :: "(string \<times> ('e host_scheme \<Rightarrow> Health result)) list"
  ac_info :: "(string \<times> string) list"
  config_sources :: "(string \<times> (string \<times> string) list) list"
  availability :: Availability
  routes_registered :: bool

text \<open>An exchange on a server with an actuator; the logger's level is global.\<close>

record ('d, 'e) managed = exchange +
  mg_actuator :: "('d, 'e) Actuator"
  mg_level :: log_level
  mg_host :: "'e host_scheme"

section \<open>Texts\<close>

definition status_name :: "HealthStatus \<Rightarrow> string" where
  "status_name s = (case s of Up \<Rightarrow> ''UP'' | Down \<Rightarrow> ''DOWN'' | OutOfService \<Rightarrow> ''OUT_OF_SERVICE'' | Unknown \<Rightarrow> ''UNKNOWN'')"

definition severity :: "HealthStatus \<Rightarrow> nat" where
  "severity s = (case s of Down \<Rightarrow> 4 | OutOfService \<Rightarrow> 3 | Unknown \<Rightarrow> 2 | Up \<Rightarrow> 1)"

definition escape_json_char :: "char \<Rightarrow> string" where
  "escape_json_char c =
     (if byte_of c = 34 then [CHR 0x5C, CHR 0x22]
      else if byte_of c = 92 then [CHR 0x5C, CHR 0x5C]
      else if byte_of c = 10 then CHR 0x5C # ''n''
      else if byte_of c = 13 then CHR 0x5C # ''r''
      else if byte_of c = 9 then CHR 0x5C # ''t''
      else [c])"

definition escape_json :: "string \<Rightarrow> string" where
  "escape_json v = concat (map escape_json_char v)"

text \<open>The loops that separate items by commas.\<close>

fun comma_separated :: "string list \<Rightarrow> string" where
  "comma_separated [] = []"
| "comma_separated [x] = x"
| "comma_separated (x # y # ys) = x @ '','' @ comma_separated (y # ys)"

definition json_pairs :: "(string \<times> string) list \<Rightarrow> string" where
  "json_pairs kvs = comma_separated (map (\<lambda>(k, v). quoted (escape_json k) @ '':'' @ quoted (escape_json v)) kvs)"

definition health_json :: "Health \<Rightarrow> string" where
  "health_json h =
     ''{'' @ quoted ''status'' @ '':'' @ quoted (status_name (h_status h)) @
     (if h_details h = [] then [] else '','' @ quoted ''details'' @ '':{'' @ json_pairs (h_details h) @ ''}'') @ ''}''"

definition metric_type :: "InstrumentKind \<Rightarrow> string" where
  "metric_type k = (if k = Counter then ''counter'' else if k = UpDownCounter then ''updowncounter''
     else if k = Histogram then ''histogram'' else ''gauge'')"

definition count_text :: "64 word \<Rightarrow> string" where
  "count_text n = to_string_nat (unat n)"

definition metric_json :: "'d fp \<Rightarrow> 'd MetricPoint \<Rightarrow> string" where
  "metric_json fp m =
     ''{'' @ quoted ''name'' @ '':'' @ quoted (escape_json (mp_name m)) @ '','' @ quoted ''unit'' @ '':'' @ quoted (escape_json (mp_unit m)) @
     '','' @ quoted ''type'' @ '':'' @ quoted (metric_type (mp_kind m)) @ '','' @ quoted ''value'' @ '':'' @ fp_format fp (mp_value m) @
     (if mp_kind m = Histogram
      then '','' @ quoted ''count'' @ '':'' @ count_text (mp_count m) @ '','' @ quoted ''sum'' @ '':'' @ fp_format fp (mp_sum m) else []) @
     '','' @ quoted ''attributes'' @ '':{'' @ json_pairs (mp_attributes m) @ ''}}''"

definition metrics_json :: "'d fp \<Rightarrow> 'd MetricPoint list \<Rightarrow> string" where
  "metrics_json fp metrics = ''{'' @ quoted ''metrics'' @ '':['' @ comma_separated (map (metric_json fp) metrics) @ '']}''"

definition prometheus_char :: "char \<Rightarrow> char" where
  "prometheus_char c = (if isalnum c \<or> c = CHR ''_'' then c else CHR ''_'')"

definition prometheus_name :: "'d MetricPoint \<Rightarrow> string" where
  "prometheus_name m =
     map prometheus_char (mp_name m) @ (if mp_unit m = ''s'' then ''_seconds'' else []) @
     (if mp_unit m = ''By'' then ''_bytes'' else []) @ (if mp_kind m = Counter then ''_total'' else [])"

definition escape_prometheus_label :: "string \<Rightarrow> string" where
  "escape_prometheus_label v =
     concat (map (\<lambda>c. if byte_of c = 92 then [CHR 0x5C, CHR 0x5C] else if byte_of c = 34 then [CHR 0x5C, CHR 0x22]
                      else if byte_of c = 10 then CHR 0x5C # ''n'' else [c]) v)"

definition prometheus_labels :: "Attributes \<Rightarrow> string \<Rightarrow> string \<Rightarrow> string" where
  "prometheus_labels attributes extra_name extra_value =
     (if attributes = [] \<and> extra_name = [] then []
      else ''{'' @ comma_separated
        (map (\<lambda>(k, v). map prometheus_char k @ ''='' @ quoted (escape_prometheus_label v)) attributes @
         (if extra_name = [] then [] else [extra_name @ ''='' @ quoted (escape_prometheus_label extra_value)])) @ ''}'')"

definition prometheus_type :: "InstrumentKind \<Rightarrow> string" where
  "prometheus_type k = (if k = Histogram then ''histogram'' else if k = Counter then ''counter'' else ''gauge'')"

definition prometheus_lines :: "'d fp \<Rightarrow> 'd MetricPoint \<Rightarrow> string" where
  "prometheus_lines fp m =
     (let name = prometheus_name m
      in if mp_kind m = Histogram
         then concat (map (\<lambda>(upper_bound, n). name @ ''_bucket'' @
                prometheus_labels (mp_attributes m) ''le'' (fp_to_string fp upper_bound) @ '' '' @ count_text n @ [LF]) (mp_buckets m)) @
              name @ ''_bucket'' @ prometheus_labels (mp_attributes m) ''le'' ''+Inf'' @ '' '' @ count_text (mp_count m) @ [LF] @
              name @ ''_sum'' @ prometheus_labels (mp_attributes m) [] [] @ '' '' @ fp_format fp (mp_sum m) @ [LF] @
              name @ ''_count'' @ prometheus_labels (mp_attributes m) [] [] @ '' '' @ count_text (mp_count m) @ [LF]
         else name @ prometheus_labels (mp_attributes m) [] [] @ '' '' @ fp_format fp (mp_value m) @ [LF])"

text \<open>The loop over the metrics, with the names whose type was emitted.\<close>

fun prometheus_loop :: "'d fp \<Rightarrow> string list \<Rightarrow> 'd MetricPoint list \<Rightarrow> string" where
  "prometheus_loop fp emitted [] = []"
| "prometheus_loop fp emitted (m # ms) =
     (let name = prometheus_name m
      in (if name \<in> set emitted then [] else ''# TYPE '' @ name @ '' '' @ prometheus_type (mp_kind m) @ [LF]) @
         prometheus_lines fp m @ prometheus_loop fp (name # emitted) ms)"

definition prometheus_metrics :: "'d fp \<Rightarrow> 'd MetricPoint list \<Rightarrow> string" where
  "prometheus_metrics fp metrics = prometheus_loop fp [] metrics"

definition secret_like_key :: "string \<Rightarrow> bool" where
  "secret_like_key key =
     (let lower = map tolower key
      in has_substring lower ''password'' \<or> has_substring lower ''secret'' \<or> has_substring lower ''token'' \<or>
         has_substring lower ''credential'' \<or> ends_with lower ''.key'' \<or> ends_with lower ''_key'')"

definition source_json :: "string \<times> (string \<times> string) list \<Rightarrow> string" where
  "source_json source =
     (case source of (source_name, properties) \<Rightarrow>
        ''{'' @ quoted ''name'' @ '':'' @ quoted (escape_json source_name) @ '','' @ quoted ''properties'' @ '':{'' @
        comma_separated (map (\<lambda>(key, v). quoted (escape_json key) @ '':{'' @ quoted ''value'' @ '':'' @
            quoted (escape_json (if secret_like_key key then ''******'' else v)) @ ''}'') properties) @ ''}}'')"

definition config_json :: "(string \<times> (string \<times> string) list) list \<Rightarrow> string" where
  "config_json sources = ''{'' @ quoted ''propertySources'' @ '':['' @ comma_separated (map source_json sources) @ '']}''"

definition span_json :: "'d fp \<Rightarrow> SpanRecord \<Rightarrow> string" where
  "span_json fp span =
     ''{'' @ quoted ''name'' @ '':'' @ quoted (escape_json (span_name span)) @ '','' @ quoted ''error'' @ '':'' @
     (if span_error span then ''true'' else ''false'') @ '','' @ quoted ''durationSeconds'' @ '':'' @
     fp_format fp (fp_seconds fp (span_duration span)) @ ''}''"

definition observations_json :: "'d fp \<Rightarrow> 'd MeterRegistry \<Rightarrow> string" where
  "observations_json fp r =
     ''{'' @ quoted ''spans'' @ '':['' @ comma_separated (map (span_json fp) (spans_log r)) @ '']'' @
     '','' @ quoted ''eventCount'' @ '':'' @ to_string_nat (length (events_log r)) @ ''}''"

text \<open>Finding a text: the first position at which it starts, and the same from a position on.\<close>

fun find_text :: "string \<Rightarrow> string \<Rightarrow> nat option" where
  "find_text p [] = (if p = [] then Some 0 else None)"
| "find_text p (c # s) = (if starts_with (c # s) p then Some 0 else map_option Suc (find_text p s))"

definition find_ch_from :: "char \<Rightarrow> nat \<Rightarrow> string \<Rightarrow> nat option" where
  "find_ch_from c n s = map_option (\<lambda>i. n + i) (find_ch c (drop n s))"

definition level_of_text :: "string \<Rightarrow> log_level option" where
  "level_of_text v =
     (if v = ''trace'' then Some L_trace else if v = ''debug'' then Some L_debug else if v = ''info'' then Some L_info
      else if v = ''warn'' then Some L_warn else if v = ''error'' then Some L_err else if v = ''critical'' then Some L_critical
      else if v = ''off'' then Some L_off else None)"

definition parse_level :: "string \<Rightarrow> log_level option" where
  "parse_level body =
     (let property = quoted ''configuredLevel''
      in case find_text property body of
           None \<Rightarrow> None
         | Some property_position \<Rightarrow>
             (case find_ch_from CHR '':'' (property_position + length property) body of
                None \<Rightarrow> None
              | Some colon \<Rightarrow>
                  (case find_ch_from CHR 0x22 (colon + 1) body of
                     None \<Rightarrow> None
                   | Some quote_begin \<Rightarrow>
                       (case find_ch_from CHR 0x22 (quote_begin + 1) body of
                          None \<Rightarrow> None
                        | Some quote_end \<Rightarrow> level_of_text (take (quote_end - quote_begin - 1) (drop (quote_begin + 1) body))))))"

section \<open>The actuator\<close>

function trim_base :: "string \<Rightarrow> string" where
  "trim_base p = (if 1 < length p \<and> last p = CHR ''/'' then trim_base (butlast p) else p)"
  by pat_completeness auto
termination
  by (relation "measure length") auto

declare trim_base.simps [simp del]

definition process_contributor :: "nat \<Rightarrow> 'e host_scheme \<Rightarrow> Health result" where
  "process_contributor process_started w =
     Inr \<lparr>h_status = Up, h_details = std_map
       [(''pid'', to_string_nat (host_pid w)),
        (''uptime_seconds'', to_string_nat ((host_clock_ns w - process_started) div 1000000000)),
        (''available_processors'', to_string_nat (host_processors w))]\<rparr>"

definition disk_contributor :: "string \<Rightarrow> nat \<Rightarrow> 'e host_scheme \<Rightarrow> Health result" where
  "disk_contributor path minimum_free w =
     (case host_statvfs w path of
        None \<Rightarrow> Inr \<lparr>h_status = Down, h_details = std_map [(''path'', path), (''error'', ''statvfs failed'')]\<rparr>
      | Some (bavail, frsize) \<Rightarrow>
          let free_bytes = (bavail * frsize) mod 2 ^ 64
          in Inr \<lparr>h_status = (if free_bytes < minimum_free then Down else Up),
                  h_details = std_map [(''path'', path), (''free_bytes'', to_string_nat free_bytes)]\<rparr>)"

definition new_Actuator :: "Actuator_Config \<Rightarrow> nat \<Rightarrow> ('d, 'e) Actuator result" where
  "new_Actuator cfg now =
     (if base_path cfg = [] \<or> hd (base_path cfg) \<noteq> CHR ''/''
      then Inl (Invalid_argument (''Actuator base_path must start with '' @ [CHR 0x27, CHR ''/'', CHR 0x27]))
      else Inr \<lparr>ac_config = cfg\<lparr>base_path := trim_base (base_path cfg)\<rparr>, ac_meters = empty_registry,
             health_contributors = std_map [(''process'', process_contributor now),
               (''disk'', disk_contributor (disk_path cfg) (disk_min_free_bytes cfg))],
             ac_info = [], config_sources = [], availability = Starting, routes_registered = False\<rparr>)"

definition add_health_contributor :: "string \<Rightarrow> ('e host_scheme \<Rightarrow> Health result) \<Rightarrow> ('d, 'e) Actuator \<Rightarrow> ('d, 'e) Actuator" where
  "add_health_contributor name contributor a = a\<lparr>health_contributors := map_put name contributor (health_contributors a)\<rparr>"

definition add_info :: "string \<Rightarrow> string \<Rightarrow> ('d, 'e) Actuator \<Rightarrow> ('d, 'e) Actuator" where
  "add_info key v a = a\<lparr>ac_info := map_put key v (ac_info a)\<rparr>"

definition add_config_source :: "string \<Rightarrow> (string \<times> string) list \<Rightarrow> ('d, 'e) Actuator \<Rightarrow> ('d, 'e) Actuator" where
  "add_config_source name properties a = a\<lparr>config_sources := map_put name properties (config_sources a)\<rparr>"

definition set_availability :: "Availability \<Rightarrow> ('d, 'e) Actuator \<Rightarrow> ('d, 'e) Actuator" where
  "set_availability v a = a\<lparr>availability := v\<rparr>"

definition authorized :: "('d, 'e) Actuator \<Rightarrow> request \<Rightarrow> bool" where
  "authorized a req \<longleftrightarrow> \<not> require_authorization (ac_config a) \<or>
     (case authorizer (ac_config a) of None \<Rightarrow> False | Some f \<Rightarrow> f req)"

definition liveness :: "('d, 'e) Actuator \<Rightarrow> Health" where
  "liveness a = \<lparr>h_status = (if availability a = Stopped then Down else Up), h_details = []\<rparr>"

definition readiness :: "('d, 'e) Actuator \<Rightarrow> Health" where
  "readiness a = \<lparr>h_status = (if availability a = Ready then Up else OutOfService), h_details = []\<rparr>"

definition merge_health :: "string \<Rightarrow> Health \<Rightarrow> Health \<Rightarrow> Health" where
  "merge_health name health acc =
     \<lparr>h_status = (if severity (h_status health) > severity (h_status acc) then h_status health else h_status acc),
      h_details = fold (\<lambda>(detail_name, detail_value). map_put (name @ ''.'' @ detail_name) detail_value) (h_details health)
        (map_put (name @ ''.status'') (status_name (h_status health)) (h_details acc))\<rparr>"

fun health_loop :: "(string \<times> ('e host_scheme \<Rightarrow> Health result)) list \<Rightarrow> 'e host_scheme \<Rightarrow> Health \<Rightarrow> Health result" where
  "health_loop [] w acc = Inr acc"
| "health_loop ((name, contributor) # cs) w acc =
     (case contributor w of Inl e \<Rightarrow> Inl e | Inr health \<Rightarrow> health_loop cs w (merge_health name health acc))"

definition overall_health :: "('d, 'e) Actuator \<Rightarrow> 'e host_scheme \<Rightarrow> Health result" where
  "overall_health a w = health_loop (health_contributors a) w (readiness a)"

section \<open>Endpoints\<close>

definition denied_body :: string where
  "denied_body = ''{'' @ quoted ''error'' @ '':'' @ quoted ''management access denied'' @ ''}''"

definition deny :: "('d, 'e) managed proc" where
  "deny s = (None, set_res s (Response_json (Response_status (ex_res s) 403) denied_body))"

definition respond_json :: "string \<Rightarrow> ('d, 'e) managed proc" where
  "respond_json body s = (None, set_res s (Response_json (ex_res s) body))"

definition guarded :: "('d, 'e) managed proc \<Rightarrow> ('d, 'e) managed proc" where
  "guarded h s = (if \<not> authorized (mg_actuator s) (ex_req s) then deny s else h s)"

definition health_endpoint :: "('d, 'e) managed proc" where
  "health_endpoint s =
     (case overall_health (mg_actuator s) (mg_host s) of Inl e \<Rightarrow> (Some e, s) | Inr h \<Rightarrow> respond_json (health_json h) s)"

definition liveness_endpoint :: "('d, 'e) managed proc" where
  "liveness_endpoint s = respond_json (health_json (liveness (mg_actuator s))) s"

definition readiness_endpoint :: "('d, 'e) managed proc" where
  "readiness_endpoint s =
     (let health = readiness (mg_actuator s)
      in (None, set_res s (Response_json (Response_status (ex_res s) (if h_status health = Up then 200 else 503)) (health_json health))))"

definition info_endpoint :: "('d, 'e) managed proc" where
  "info_endpoint s = respond_json (''{'' @ json_pairs (ac_info (mg_actuator s)) @ ''}'') s"

definition metrics_endpoint :: "'d fp \<Rightarrow> ('d, 'e) managed proc" where
  "metrics_endpoint fp s = respond_json (metrics_json fp (snapshot (ac_meters (mg_actuator s)))) s"

definition prometheus_endpoint :: "'d fp \<Rightarrow> ('d, 'e) managed proc" where
  "prometheus_endpoint fp s =
     (None, set_res s (Response_body (Response_header (ex_res s) ''content-type'' ''text/plain; version=0.0.4; charset=utf-8'')
        (prometheus_metrics fp (snapshot (ac_meters (mg_actuator s))))))"

definition config_endpoint :: "('d, 'e) managed proc" where
  "config_endpoint s = respond_json (config_json (config_sources (mg_actuator s))) s"

definition level_json :: "(log_level \<Rightarrow> string) \<Rightarrow> log_level \<Rightarrow> string" where
  "level_json level_name l = ''{'' @ quoted ''configuredLevel'' @ '':'' @ quoted (level_name l) @ ''}''"

definition loggers_endpoint :: "(log_level \<Rightarrow> string) \<Rightarrow> ('d, 'e) managed proc" where
  "loggers_endpoint level_name s = respond_json (''{'' @ quoted ''ROOT'' @ '':'' @ level_json level_name (mg_level s) @ ''}'') s"

definition root_logger_get :: "(log_level \<Rightarrow> string) \<Rightarrow> ('d, 'e) managed proc" where
  "root_logger_get level_name s = respond_json (level_json level_name (mg_level s)) s"

definition unsupported_level_body :: string where
  "unsupported_level_body = ''{'' @ quoted ''error'' @ '':'' @ quoted ''configuredLevel must be a supported lowercase level'' @ ''}''"

definition root_logger_post :: "(log_level \<Rightarrow> string) \<Rightarrow> ('d, 'e) managed proc" where
  "root_logger_post level_name s =
     (case parse_level (req_body (ex_req s)) of
        None \<Rightarrow> (None, set_res s (Response_json (Response_status (ex_res s) 400) unsupported_level_body))
      | Some l \<Rightarrow> respond_json (level_json level_name l) (s\<lparr>mg_level := l\<rparr>))"

definition observations_endpoint :: "'d fp \<Rightarrow> ('d, 'e) managed proc" where
  "observations_endpoint fp s = respond_json (observations_json fp (ac_meters (mg_actuator s))) s"

definition actuator_routes ::
    "'d fp \<Rightarrow> (log_level \<Rightarrow> string) \<Rightarrow> Actuator_Config \<Rightarrow> (('d, 'e) managed proc, 'w) registration list" where
  "actuator_routes fp level_name cfg =
     (let at = (\<lambda>m path h. Reg_http m (base_path cfg @ path) (guarded h))
      in (if expose_health cfg
          then [at GET ''/health'' health_endpoint, at GET ''/health/liveness'' liveness_endpoint,
                at GET ''/health/readiness'' readiness_endpoint] else []) @
         (if expose_info cfg then [at GET ''/info'' info_endpoint] else []) @
         (if expose_metrics cfg then [at GET ''/metrics'' (metrics_endpoint fp)] else []) @
         (if expose_prometheus cfg then [at GET ''/prometheus'' (prometheus_endpoint fp)] else []) @
         (if expose_config cfg then [at GET ''/configprops'' config_endpoint] else []) @
         (if expose_loggers cfg
          then [at GET ''/loggers'' (loggers_endpoint level_name), at GET ''/loggers/ROOT'' (root_logger_get level_name),
                at POST ''/loggers/ROOT'' (root_logger_post level_name)] else []) @
         (if expose_observations cfg then [at GET ''/observations'' (observations_endpoint fp)] else []))"

definition register_routes ::
    "'d fp \<Rightarrow> (log_level \<Rightarrow> string) \<Rightarrow> ('d, 'e) Actuator \<Rightarrow> (('d, 'e) managed proc, 'w) router \<Rightarrow>
     (('d, 'e) Actuator \<times> (('d, 'e) managed proc, 'w) router) result" where
  "register_routes fp level_name a r =
     (if routes_registered a then Inl (Std_exception ''std::logic_error'' ''Actuator routes are already registered'')
      else case register_all r (actuator_routes fp level_name (ac_config a)) of
             Inl e \<Rightarrow> Inl e
           | Inr r' \<Rightarrow> Inr (a\<lparr>routes_registered := True\<rparr>, r'))"

section \<open>Access\<close>

lemma guarded_denies: "\<not> authorized (mg_actuator s) (ex_req s) \<Longrightarrow> guarded h s = deny s"
  by (simp add: guarded_def)

lemma actuator_route_guarded:
  "Reg_http m p h \<in> set (actuator_routes fp level_name cfg) \<Longrightarrow> \<exists>e. h = guarded e"
  by (auto simp: actuator_routes_def Let_def split: if_splits)

text \<open>The handler found on a router with the management routes is one of theirs or one registered before them.\<close>

lemma management_handler_origin:
  assumes "register_all empty_router app = Inr r0" "register_routes fp level_name a r0 = Inr (a', r)"
    "fst (match_string r m path) = Some h"
  shows "(\<exists>m' p. Reg_http m' p h \<in> set app) \<or> (\<exists>e. h = guarded e)"
proof -
  from assms(2) have r: "register_all r0 (actuator_routes fp level_name (ac_config a)) = Inr r"
    by (auto simp: register_routes_def split: if_splits sum.splits)
  have ref: "http_refines (root r) (app @ actuator_routes fp level_name (ac_config a))"
    using register_all_refines [OF built_router_refines [OF assms(1)] r] by (simp add: tree_refines_def)
  from assms(3) have "serves (root r) (method_from_string m) (tl (strip_query path)) h"
    by (auto simp: match_string_def fst_match_route dest: search_sound(1) split: if_splits)
  from serves_refines(1) [OF ref this] obtain m' p where "Reg_http m' p h \<in> set (app @ actuator_routes fp level_name (ac_config a))"
    by blast
  then show ?thesis using actuator_route_guarded [of m' p h fp level_name "ac_config a"] by auto
qed

text \<open>
  C28: management access is denied as a whole. On a server whose router has application routes and then the actuator's, a
  request that the authorizer refuses is answered 403 with a fixed body by every management endpoint, whatever is exposed,
  and leaves the log level and the actuator as they were; no other handler than the application's own answers it.
\<close>

theorem management_denied:
  assumes "register_all empty_router app = Inr r0" "register_routes fp level_name a r0 = Inr (a', r)"
    "\<forall>params. \<not> authorized (mg_actuator s) ((ex_req s)\<lparr>req_path_params := params\<rparr>)"
    "fst (match_string r (req_method (ex_req s)) (req_path (ex_req s))) = Some h"
  shows "(\<exists>m p. Reg_http m p h \<in> set app) \<or>
    (case final_handler r handlers static expose s of (e, s') \<Rightarrow>
       e = None \<and> status_code (ex_res s') = 403 \<and> res_body (ex_res s') = denied_body \<and>
       mg_level s' = mg_level s \<and> mg_actuator s' = mg_actuator s)"
proof -
  obtain params where m: "match_string r (req_method (ex_req s)) (req_path (ex_req s)) = (Some h, params)"
    using assms(4) by (metis prod.collapse)
  have "case final_handler r handlers static expose s of (e, s') \<Rightarrow>
       e = None \<and> status_code (ex_res s') = 403 \<and> res_body (ex_res s') = denied_body \<and>
       mg_level s' = mg_level s \<and> mg_actuator s' = mg_actuator s" if "h = guarded e" for e
    using assms(3) by (simp add: final_handler_def m that guarded_denies deny_def set_res_def Response_json_def Response_status_def)
  then show ?thesis using management_handler_origin [OF assms(1,2,4)] by (elim disjE exE) (blast, simp)
qed

definition demo_host :: host where
  "demo_host = \<lparr>host_pid = 7, host_clock_ns = 0, host_processors = 4, host_statvfs = (\<lambda>_. Some (10, 4096))\<rparr>"

definition locked_config :: Actuator_Config where
  "locked_config = default_actuator_config\<lparr>expose_health := False, expose_info := False, expose_loggers := True,
     require_authorization := True\<rparr>"

definition locked_actuator :: "(int, unit) Actuator" where
  "locked_actuator = \<lparr>ac_config = locked_config, ac_meters = empty_registry, health_contributors = [], ac_info = [],
     config_sources = [], availability = Ready, routes_registered = False\<rparr>"

definition level_texts :: "log_level \<Rightarrow> string" where
  "level_texts l = (case l of L_trace \<Rightarrow> ''trace'' | L_debug \<Rightarrow> ''debug'' | L_info \<Rightarrow> ''info'' | L_warn \<Rightarrow> ''warning''
     | L_err \<Rightarrow> ''error'' | L_critical \<Rightarrow> ''critical'' | L_off \<Rightarrow> ''off'')"

definition locked_router :: "((int, unit) managed proc, unit) router" where
  "locked_router = (case register_all empty_router (actuator_routes int_fp level_texts locked_config) of Inr r \<Rightarrow> r | Inl _ \<Rightarrow> empty_router)"

definition level_request :: "(int, unit) managed" where
  "level_request = \<lparr>ex_req = empty_request\<lparr>req_method := ''POST'', req_path := ''/actuator/loggers/ROOT'',
       req_body := level_json level_texts L_off\<rparr>,
     ex_res = default_response, ex_ctx = new_context 1, current_context = None,
     mg_actuator = locked_actuator, mg_level = L_info, mg_host = demo_host\<rparr>"

lemma locked_routes:
  "register_routes int_fp level_texts locked_actuator empty_router = Inr (locked_actuator\<lparr>routes_registered := True\<rparr>, locked_router)"
  by (simp add: register_routes_def locked_router_def locked_actuator_def actuator_routes_def locked_config_def
      default_actuator_config_def add_route_def)

lemma locked_match: "fst (match_string locked_router ''POST'' ''/actuator/loggers/ROOT'') \<noteq> None"
  by code_simp

theorem management_denied_witness:
  "status_code (ex_res (snd (final_handler locked_router [] (\<lambda>_ r _. (False, r)) False level_request))) = 403 \<and>
   mg_level (snd (final_handler locked_router [] (\<lambda>_ r _. (False, r)) False level_request)) = L_info"
proof -
  obtain h where h: "fst (match_string locked_router (req_method (ex_req level_request)) (req_path (ex_req level_request))) = Some h"
    using locked_match by (auto simp: level_request_def)
  have no: "\<forall>params. \<not> authorized (mg_actuator level_request) ((ex_req level_request)\<lparr>req_path_params := params\<rparr>)"
    by (simp add: authorized_def level_request_def locked_actuator_def locked_config_def default_actuator_config_def)
  have "mg_level level_request = L_info" by (simp add: level_request_def)
  with management_denied [of "[]", OF _ locked_routes no h, of "[]" "\<lambda>_ r _. (False, r)" False] show ?thesis
    by (auto split: prod.splits)
qed

section \<open>Secrets\<close>

text \<open>Configurations that differ only in the values of secret-like keys.\<close>

definition same_public :: "(string \<times> (string \<times> string) list) list \<Rightarrow> (string \<times> (string \<times> string) list) list \<Rightarrow> bool" where
  "same_public = list_all2 (\<lambda>(n, ps) (n', ps'). n = n' \<and>
     list_all2 (\<lambda>(k, v) (k', v'). k = k' \<and> (secret_like_key k \<or> v = v')) ps ps')"

lemma map_list_all2_eq: "list_all2 P xs ys \<Longrightarrow> (\<And>x y. P x y \<Longrightarrow> f x = f y) \<Longrightarrow> map f xs = map f ys"
  by (induction rule: list_all2_induct) auto

lemma source_json_public:
  assumes "list_all2 (\<lambda>(k, v) (k', v'). k = k' \<and> (secret_like_key k \<or> v = v')) ps ps'"
  shows "source_json (n, ps) = source_json (n, ps')"
  unfolding source_json_def prod.case
  by (subst map_list_all2_eq [OF assms]) (auto split: prod.splits)

lemma config_json_public: "same_public xs ys \<Longrightarrow> config_json xs = config_json ys"
  using map_list_all2_eq [of _ xs ys source_json] source_json_public
  by (fastforce simp: same_public_def config_json_def)

text \<open>
  no management endpoint discloses a secret. Whatever is exposed, the answer of every endpoint to any request, authorized
  or not, is the same for two configurations that differ only in the values of secret-like keys.
\<close>

theorem management_keeps_secrets:
  assumes "Reg_http m p h \<in> set (actuator_routes fp level_name cfg)"
    "same_public (config_sources (mg_actuator s)) sources"
    "s' = s\<lparr>mg_actuator := (mg_actuator s)\<lparr>config_sources := sources\<rparr>\<rparr>"
  shows "fst (h s') = fst (h s) \<and> ex_res (snd (h s')) = ex_res (snd (h s)) \<and> mg_level (snd (h s')) = mg_level (snd (h s))"
proof -
  have c: "config_json (config_sources (mg_actuator s')) = config_json (config_sources (mg_actuator s))"
    using config_json_public [OF assms(2)] by (simp add: assms(3))
  have same: "ex_req s' = ex_req s" "ex_res s' = ex_res s" "mg_level s' = mg_level s" "mg_host s' = mg_host s"
    "ac_config (mg_actuator s') = ac_config (mg_actuator s)" "ac_meters (mg_actuator s') = ac_meters (mg_actuator s)"
    "health_contributors (mg_actuator s') = health_contributors (mg_actuator s)" "ac_info (mg_actuator s') = ac_info (mg_actuator s)"
    "availability (mg_actuator s') = availability (mg_actuator s)"
    by (simp_all add: assms(3))
  from assms(1) show ?thesis
    unfolding actuator_routes_def Let_def
    by (auto simp: guarded_def deny_def respond_json_def set_res_def authorized_def same c health_endpoint_def overall_health_def
        readiness_def liveness_endpoint_def liveness_def readiness_endpoint_def info_endpoint_def metrics_endpoint_def
        prometheus_endpoint_def config_endpoint_def loggers_endpoint_def root_logger_get_def root_logger_post_def
        observations_endpoint_def Let_def split: if_splits sum.splits option.splits)
qed

definition secret_sources :: "string \<Rightarrow> (string \<times> (string \<times> string) list) list" where
  "secret_sources v = [(''application.toml'', [(''database.password'', v), (''server.port'', ''4435'')])]"

definition open_request :: "string \<Rightarrow> (int, unit) managed" where
  "open_request v = level_request\<lparr>mg_actuator := locked_actuator\<lparr>ac_config := default_actuator_config, config_sources := secret_sources v\<rparr>\<rparr>"

lemma open_request_sources:
  "open_request w = (open_request v)\<lparr>mg_actuator := (mg_actuator (open_request v))\<lparr>config_sources := secret_sources w\<rparr>\<rparr>"
  by (simp add: open_request_def)

theorem management_keeps_secrets_witness:
  "ex_res (snd (guarded config_endpoint (open_request ''one''))) = ex_res (snd (guarded config_endpoint (open_request ''two'')))"
proof -
  have r: "Reg_http GET ''/actuator/configprops'' (guarded config_endpoint) \<in>
      set (actuator_routes int_fp level_texts (default_actuator_config\<lparr>expose_config := True\<rparr>) :: ((int, unit) managed proc, unit) registration list)"
    by (simp add: actuator_routes_def default_actuator_config_def)
  have "secret_like_key ''database.password''" by code_simp
  then have "same_public (config_sources (mg_actuator (open_request ''two''))) (secret_sources ''one'')"
    by (simp add: same_public_def secret_sources_def open_request_def)
  from management_keeps_secrets [OF r this open_request_sources] show ?thesis by simp
qed

text \<open>Other values are shown as they are, those of keys that spell a secret in another way among them.\<close>

lemma unmasked_keys: "list_all (\<lambda>k. \<not> secret_like_key k) [''database.passwd'', ''jwt.signing-key'', ''stripe.apikey'', ''private-key'']"
  by code_simp

section \<open>Health\<close>

lemma merge_severity: "severity (h_status (merge_health n h acc)) = max (severity (h_status h)) (severity (h_status acc))"
  by (simp add: merge_health_def)

lemma health_loop_severity:
  "health_loop cs w acc = Inr h \<Longrightarrow>
   severity (h_status h) = Max (insert (severity (h_status acc)) {severity (h_status x) | n c x. (n, c) \<in> set cs \<and> c w = Inr x})"
proof (induction cs w acc rule: health_loop.induct)
  case (2 name contributor cs w acc)
  let ?S = "\<lambda>cs. {severity (h_status x) | n c x. (n, c) \<in> set cs \<and> c w = Inr x}"
  from "2.prems" obtain x where x: "contributor w = Inr x" "health_loop cs w (merge_health name x acc) = Inr h"
    by (auto split: sum.splits)
  have fin: "finite (?S cs)"
    by (rule finite_subset [of _ "severity ` UNIV"]) (auto intro!: finite_imageI finite_subset [of UNIV "{Up, Down, OutOfService, Unknown}"]
        intro: HealthStatus.exhaust)
  have "?S ((name, contributor) # cs) = insert (severity (h_status x)) (?S cs)" using x(1) by auto
  moreover have "severity (h_status h) = Max (insert (max (severity (h_status x)) (severity (h_status acc))) (?S cs))"
    using "2.IH" [OF x(1,2)] by (simp add: merge_severity)
  ultimately show ?case using fin by (cases "?S cs = {}") (simp_all add: max.assoc max.commute max.left_commute)
qed simp

text \<open>
  The overall status is the worst of readiness and all contributors; an exception of any contributor is the endpoint's. The
  endpoint answers with the status code it found, 200, even when the service is down; only readiness answers 503.
\<close>

lemma overall_health_worst:
  "overall_health a w = Inr h \<Longrightarrow> severity (h_status h) =
     Max (insert (severity (h_status (readiness a))) {severity (h_status x) | n c x. (n, c) \<in> set (health_contributors a) \<and> c w = Inr x})"
  unfolding overall_health_def by (rule health_loop_severity)

lemma health_endpoint_status:
  "fst (health_endpoint s) = None \<Longrightarrow> status_code (ex_res (snd (health_endpoint s))) = status_code (ex_res s)"
  by (auto simp: health_endpoint_def respond_json_def set_res_def Response_json_def split: sum.splits)

lemma health_loop_exception:
  "(n, c) \<in> set cs \<Longrightarrow> c w = Inl e \<Longrightarrow> \<exists>e'. health_loop cs w acc = Inl e'"
  by (induction cs w acc rule: health_loop.induct) (auto split: sum.split)

text \<open>A contributor's detail named like its status replaces it: the component reads as up while the whole is down.\<close>

lemma detail_hides_status:
  "overall_health (locked_actuator\<lparr>health_contributors := [(''db'', \<lambda>_. Inr \<lparr>h_status = Down, h_details = [(''status'', ''UP'')]\<rparr>)]\<rparr>) demo_host =
   Inr \<lparr>h_status = Down, h_details = [(''db.status'', ''UP'')]\<rparr>"
  by (simp add: overall_health_def locked_actuator_def merge_health_def readiness_def severity_def)

section \<open>Log levels\<close>

lemma parse_level_json:
  assumes "CHR 0x22 \<notin> set (level_name l)"
  shows "parse_level (level_json level_name l) = level_of_text (level_name l)"
proof -
  let ?p = "quoted ''configuredLevel''"
  have e: "level_json level_name l = CHR 0x7B # ?p @ CHR 0x3A # CHR 0x22 # level_name l @ CHR 0x22 # ''}''"
    by (simp add: level_json_def quoted_def)
  have "find_text ?p (level_json level_name l) = Some 1"
    by (simp add: e quoted_def starts_with_def)
  moreover have "find_ch_from CHR 0x3A (1 + length ?p) (level_json level_name l) = Some 18"
    by (simp add: e quoted_def find_ch_from_def find_ch_def)
  moreover have "find_ch_from CHR 0x22 19 (level_json level_name l) = Some 19"
    by (simp add: e quoted_def find_ch_from_def find_ch_def)
  moreover have "find_ch_from CHR 0x22 20 (level_json level_name l) = Some (20 + length (level_name l))"
    using find_ch_append [OF assms, of "''}''"] by (simp add: e quoted_def find_ch_from_def)
  moreover have "take (length (level_name l)) (drop 20 (level_json level_name l)) = level_name l"
    by (simp add: e quoted_def)
  ultimately show ?thesis by (simp add: parse_level_def)
qed

text \<open>
  Posting the text a level is shown as sets that level, as long as the logger's names are those the endpoint accepts. The
  library's name of the level \<^verbatim>\<open>warn\<close> is \<^verbatim>\<open>warning\<close>, which the endpoint refuses.
\<close>

lemma root_logger_round_trip:
  assumes "CHR 0x22 \<notin> set (level_name l)" "req_body (ex_req s) = level_json level_name l"
  shows "root_logger_post level_name s =
    (case level_of_text (level_name l) of
       Some l' \<Rightarrow> respond_json (level_json level_name l') (s\<lparr>mg_level := l'\<rparr>)
     | None \<Rightarrow> (None, set_res s (Response_json (Response_status (ex_res s) 400) unsupported_level_body)))"
  using parse_level_json [of level_name l] assms by (simp add: root_logger_post_def split: option.split)

lemma shown_level_accepted: "level_of_text (level_texts l) = (if l = L_warn then None else Some l)"
  by (cases l) (simp_all add: level_of_text_def level_texts_def)

lemma refused_level_kept:
  "parse_level (req_body (ex_req s)) = None \<Longrightarrow> mg_level (snd (root_logger_post level_name s)) = mg_level s"
  by (simp add: root_logger_post_def set_res_def)

section \<open>JSON and Prometheus texts\<close>

definition unescaped_control :: "char \<Rightarrow> bool" where
  "unescaped_control c \<longleftrightarrow> byte_of c < 32 \<and> byte_of c \<noteq> 10 \<and> byte_of c \<noteq> 13 \<and> byte_of c \<noteq> 9"

lemma json_unescape_escape_char:
  "json_unescape (escape_json_char c @ cs) = (if unescaped_control c then None else map_option (Cons c) (json_unescape cs))"
proof -
  have b: "byte_of c = 34 \<Longrightarrow> CHR 0x22 = c" "byte_of c = 92 \<Longrightarrow> CHR 0x5C = c" "byte_of c = 10 \<Longrightarrow> CHR 0x0A = c"
    "byte_of c = 13 \<Longrightarrow> CHR 0x0D = c" "byte_of c = 9 \<Longrightarrow> CHR 0x09 = c"
    using of_char_eq_iff [of c "CHR 0x22", where 'a = nat] of_char_eq_iff [of c "CHR 0x5C", where 'a = nat]
      of_char_eq_iff [of c "CHR 0x0A", where 'a = nat] of_char_eq_iff [of c "CHR 0x0D", where 'a = nat]
      of_char_eq_iff [of c "CHR 0x09", where 'a = nat] by simp_all
  consider "byte_of c \<in> {34, 92, 10, 13, 9}" | (ctrl) "unescaped_control c"
    | (plain) "byte_of c \<notin> {34, 92, 10, 13, 9}" "\<not> byte_of c < 32"
    by (auto simp: unescaped_control_def)
  then show ?thesis
  proof cases
    case 1
    then show ?thesis by (auto simp: escape_json_char_def simple_escape_def unescaped_control_def b)
  next
    case ctrl
    then show ?thesis by (auto simp: escape_json_char_def unescaped_control_def)
  next
    case plain
    then show ?thesis by (simp add: escape_json_char_def unescaped_control_def)
  qed
qed

text \<open>
  Escaped texts read back as themselves exactly when they hold no control character but tab, line feed and carriage
  return: any other makes the body no JSON.
\<close>

lemma escape_json_exact: "json_unescape (escape_json v) = (if list_ex unescaped_control v then None else Some v)"
  by (induction v) (simp_all add: escape_json_def json_unescape_escape_char)

text \<open>
  Meters whose names differ only in punctuation share a Prometheus name. The type is announced once, so the second is
  exported under the type of the first.
\<close>

lemma prometheus_type_clash:
  "prometheus_metrics int_fp [series_point int_fp (''queue.size'', Gauge, ''1'', []) [3], series_point int_fp (''queue_size'', Histogram, ''1'', []) []] =
   ''# TYPE queue_size gauge'' @ [LF] @ ''queue_size 3'' @ [LF] @
   prometheus_lines int_fp (series_point int_fp (''queue_size'', Histogram, ''1'', []) [])"
proof -
  have n: "prometheus_name (series_point int_fp (''queue.size'', Gauge, ''1'', []) [3]) = ''queue_size''"
    "prometheus_name (series_point int_fp (''queue_size'', Histogram, ''1'', []) []) = ''queue_size''"
    by (simp_all add: prometheus_name_def prometheus_char_def isalnum_def isalpha_def isdigit_def)
  have "prometheus_lines int_fp (series_point int_fp (''queue.size'', Gauge, ''1'', []) [3]) = ''queue_size 3'' @ [LF]"
  proof -
    have "to_string_int 3 = ''3''" by code_simp
    with n(1) show ?thesis by (simp add: prometheus_lines_def prometheus_labels_def int_fp_def)
  qed
  moreover have "mp_kind (series_point int_fp (''queue.size'', Gauge, ''1'', []) [3]) = Gauge" by simp
  ultimately show ?thesis
    using n unfolding prometheus_metrics_def prometheus_loop.simps Let_def
    by (simp only: prometheus_type_def) simp
qed

section \<open>Base paths\<close>

lemma trim_base_slash: "p \<noteq> [] \<Longrightarrow> trim_base (p @ [CHR ''/'']) = trim_base p"
  by (subst trim_base.simps) simp

text \<open>
  Trailing slashes of the base path are dropped, but the path of a lone slash is kept: the endpoints are then
  registered below an empty segment and the documented path finds none.
\<close>

definition root_routes :: "((int, unit) managed proc, unit) router" where
  "root_routes = (case register_all empty_router (actuator_routes int_fp level_texts (default_actuator_config\<lparr>base_path := trim_base ''/''\<rparr>)) of
     Inr r \<Rightarrow> r | Inl _ \<Rightarrow> empty_router)"

lemma root_base_path_misses:
  "fst (match_string root_routes ''GET'' ''/health'') = None \<and> fst (match_string root_routes ''GET'' ''//health'') \<noteq> None"
proof
  show "fst (match_string root_routes ''GET'' ''/health'') = None" by code_simp
  show "fst (match_string root_routes ''GET'' ''//health'') \<noteq> None" by code_simp
qed

end
