(* ===== verification/Http_Cookie.thy ===== *)
theory Http_Cookie
  imports Http_Message
begin

text \<open>
  Cookies (\<^verbatim>\<open>include/novaboot/http3/cookie.h\<close>): the checked \<^verbatim>\<open>Set-Cookie\<close> serializer and the
  lookup of a request cookie. The lemmas show that a serialized field carries no control
  character, and that the lookup inverts the \<^verbatim>\<open>Cookie\<close> header a user agent sends.
\<close>

section \<open>Model\<close>

datatype SameSite = Strict | Lax | SameSite_None

record Cookie =
  ck_name :: string
  ck_value :: string
  ck_path :: string
  ck_domain :: "string option"
  ck_max_age :: "int option"
  ck_secure :: bool
  ck_http_only :: bool
  ck_same_site :: SameSite

definition cookie_token_character :: "char \<Rightarrow> bool" where
  "cookie_token_character c \<longleftrightarrow>
     isalpha c \<or> isdigit c \<or>
     c \<in> {CHR ''!'', CHR ''#'', CHR ''$'', CHR ''%'', CHR ''&'', CHR 0x27, CHR ''*'', CHR ''+'',
          CHR ''-'', CHR ''.'', CHR ''^'', CHR ''_'', CHR 0x60, CHR ''|'', CHR ''~''}"

definition cookie_delimiter :: "char \<Rightarrow> bool" where
  "cookie_delimiter c \<longleftrightarrow>
     byte_of c \<le> 0x1f \<or> byte_of c = 0x7f \<or> c = CHR '';'' \<or> c = CHR '','' \<or>
     byte_of c = 13 \<or> byte_of c = 10"

definition contains_cookie_delimiter :: "string \<Rightarrow> bool" where
  "contains_cookie_delimiter v \<longleftrightarrow> list_ex cookie_delimiter v"

definition cookie_blank :: "char \<Rightarrow> bool" where
  "cookie_blank c \<longleftrightarrow> c = CHR '' '' \<or> byte_of c = 9"

definition trim_cookie_whitespace :: "string \<Rightarrow> string" where
  "trim_cookie_whitespace v = trim_by cookie_blank v"

definition same_site_attribute :: "SameSite \<Rightarrow> string" where
  "same_site_attribute s = (case s of
       Strict \<Rightarrow> ''; SameSite=Strict''
     | Lax \<Rightarrow> ''; SameSite=Lax''
     | SameSite_None \<Rightarrow> ''; SameSite=None'')"

definition serialize_cookie :: "Cookie \<Rightarrow> string result" where
  "serialize_cookie c =
     (if ck_name c = [] then Inl (Invalid_argument ''Cookie name must not be empty'')
      else if \<not> list_all cookie_token_character (ck_name c)
        then Inl (Invalid_argument ''Cookie name contains an invalid character'')
      else if contains_cookie_delimiter (ck_value c)
        then Inl (Invalid_argument ''Cookie value contains a delimiter or control character'')
      else if ck_path c = [] \<or> hd (ck_path c) \<noteq> CHR ''/'' \<or> contains_cookie_delimiter (ck_path c)
        then Inl (Invalid_argument ''Cookie path must be an absolute safe path'')
      else if (case ck_domain c of None \<Rightarrow> False
               | Some d \<Rightarrow> d = [] \<or> contains_cookie_delimiter d)
        then Inl (Invalid_argument ''Cookie domain contains an invalid character'')
      else if ck_same_site c = SameSite_None \<and> \<not> ck_secure c
        then Inl (Invalid_argument ''SameSite=None cookies must be Secure'')
      else Inr (ck_name c @ ''='' @ ck_value c
        @ ''; Path='' @ ck_path c
        @ (case ck_domain c of None \<Rightarrow> [] | Some d \<Rightarrow> ''; Domain='' @ d)
        @ (case ck_max_age c of None \<Rightarrow> [] | Some a \<Rightarrow> ''; Max-Age='' @ to_string_int a)
        @ (if ck_secure c then ''; Secure'' else [])
        @ (if ck_http_only c then ''; HttpOnly'' else [])
        @ same_site_attribute (ck_same_site c)))"

definition set_cookie :: "response \<Rightarrow> Cookie \<Rightarrow> response result" where
  "set_cookie r c = (case serialize_cookie c of
       Inl e \<Rightarrow> Inl e
     | Inr s \<Rightarrow> Inr (Response_header r ''set-cookie'' s))"

definition cookie_part :: "string \<Rightarrow> string \<Rightarrow> string option" where
  "cookie_part name part = (case find_ch CHR ''='' part of
       None \<Rightarrow> None
     | Some equals \<Rightarrow>
         if trim_cookie_whitespace (take equals part) = name
         then Some (drop (equals + 1) part) else None)"

function cookie_loop :: "string \<Rightarrow> string \<Rightarrow> string option" where
  "cookie_loop name remaining =
     (if remaining = [] then None
      else
        let separator = find_ch CHR '';'' remaining;
            part = trim_cookie_whitespace (substr_upto separator remaining)
        in case cookie_part name part of
             Some v \<Rightarrow> Some v
           | None \<Rightarrow> (case separator of
                 None \<Rightarrow> None
               | Some k \<Rightarrow> cookie_loop name (drop (k + 1) remaining)))"
  by pat_completeness auto
termination
  by (relation "measure (\<lambda>(n, s). length s)") (auto dest: find_ch_SomeD(1))

declare cookie_loop.simps [simp del]

fun cookie_headers :: "string \<Rightarrow> string list \<Rightarrow> string option" where
  "cookie_headers name [] = None"
| "cookie_headers name (h # hs) =
     (case cookie_loop name h of Some v \<Rightarrow> Some v | None \<Rightarrow> cookie_headers name hs)"

definition request_cookie :: "request \<Rightarrow> string \<Rightarrow> string option" where
  "request_cookie r name = cookie_headers name (HeaderMap_get_all (req_headers r) ''cookie'')"

section \<open>The serializer cannot split a header\<close>

definition field_safe :: "char \<Rightarrow> bool" where
  "field_safe c \<longleftrightarrow> byte_of c \<ge> 32 \<and> byte_of c \<noteq> 127"

lemma not_delimiter_field_safe:
  assumes "\<not> contains_cookie_delimiter v" "c \<in> set v"
  shows "field_safe c"
proof -
  from assms have "\<not> cookie_delimiter c"
    by (auto simp: contains_cookie_delimiter_def list_ex_iff)
  then show ?thesis by (simp add: cookie_delimiter_def field_safe_def)
qed

lemma isdigit_field_safe: "isdigit c \<Longrightarrow> field_safe c"
  by (simp add: isdigit_def field_safe_def)

lemma token_field_safe: "cookie_token_character c \<Longrightarrow> field_safe c"
  by (auto simp: cookie_token_character_def isalpha_def isdigit_def field_safe_def)

lemma to_string_int_field_safe: "c \<in> set (to_string_int i) \<Longrightarrow> field_safe c"
  using to_string_nat_digits [THEN bspec, THEN isdigit_field_safe]
  by (cases "i < 0") (auto simp: to_string_int_def field_safe_def)

lemma list_all_field_safe_simps [simp]:
  "list_all field_safe ''=''" "list_all field_safe ''; Path=''" "list_all field_safe ''; Domain=''"
  "list_all field_safe ''; Max-Age=''" "list_all field_safe ''; Secure''"
  "list_all field_safe ''; HttpOnly''" "list_all field_safe (same_site_attribute s)"
  by (cases s; simp add: same_site_attribute_def field_safe_def)+

lemma serialize_cookie_field_safe:
  assumes "serialize_cookie c = Inr s"
  shows "list_all field_safe s"
proof -
  have name: "list_all field_safe (ck_name c)"
    and val: "list_all field_safe (ck_value c)" and path: "list_all field_safe (ck_path c)"
    and dom: "\<And>d. ck_domain c = Some d \<Longrightarrow> list_all field_safe d"
    using assms
    by (auto simp: serialize_cookie_def list_all_iff token_field_safe
        intro: not_delimiter_field_safe split: if_splits)
  have age: "\<And>a. list_all field_safe (to_string_int a)"
    by (simp add: list_all_iff to_string_int_field_safe)
  from assms have "s = ck_name c @ ''='' @ ck_value c @ ''; Path='' @ ck_path c
        @ (case ck_domain c of None \<Rightarrow> [] | Some d \<Rightarrow> ''; Domain='' @ d)
        @ (case ck_max_age c of None \<Rightarrow> [] | Some a \<Rightarrow> ''; Max-Age='' @ to_string_int a)
        @ (if ck_secure c then ''; Secure'' else [])
        @ (if ck_http_only c then ''; HttpOnly'' else [])
        @ same_site_attribute (ck_same_site c)"
    by (simp add: serialize_cookie_def split: if_splits)
  then show ?thesis
    by (simp only: list_all_append name val path age dom list_all_field_safe_simps
        split: option.split if_split) (simp add: dom age)
qed

lemma serialize_cookie_defined:
  assumes "ck_name c \<noteq> []" "list_all cookie_token_character (ck_name c)"
    and "\<not> contains_cookie_delimiter (ck_value c)"
    and "ck_path c \<noteq> []" "hd (ck_path c) = CHR ''/''" "\<not> contains_cookie_delimiter (ck_path c)"
    and "\<And>d. ck_domain c = Some d \<Longrightarrow> d \<noteq> [] \<and> \<not> contains_cookie_delimiter d"
    and "ck_same_site c = SameSite_None \<Longrightarrow> ck_secure c"
  shows "\<exists>s. serialize_cookie c = Inr s"
  using assms by (auto simp: serialize_cookie_def split: option.split)

section \<open>Reading back the header a user agent sends\<close>

text \<open>A user agent joins its cookies with a semicolon and a space.\<close>

definition cookie_pair :: "string \<times> string \<Rightarrow> string" where
  "cookie_pair p = fst p @ ''='' @ snd p"

fun cookie_header :: "(string \<times> string) list \<Rightarrow> string" where
  "cookie_header [] = []"
| "cookie_header [p] = cookie_pair p"
| "cookie_header (p # q # ps) = cookie_pair p @ CHR '';'' # CHR '' '' # cookie_header (q # ps)"

definition cookie_pair_ok :: "string \<times> string \<Rightarrow> bool" where
  "cookie_pair_ok p \<longleftrightarrow>
     fst p \<noteq> [] \<and> list_all cookie_token_character (fst p) \<and>
     \<not> contains_cookie_delimiter (snd p) \<and> (snd p = [] \<or> last (snd p) \<noteq> CHR '' '')"

lemma token_not_special:
  assumes "cookie_token_character c"
  shows "\<not> cookie_blank c" "c \<noteq> CHR ''=''" "c \<noteq> CHR '';''"
  using assms by (auto simp: cookie_token_character_def cookie_blank_def isalpha_def isdigit_def)

lemma trim_cookie_leading: "trim_cookie_whitespace (CHR '' '' # s) = trim_cookie_whitespace s"
  by (simp add: trim_cookie_whitespace_def trim_by_def cookie_blank_def)

lemma dropWhile_rev_last: "s \<noteq> [] \<Longrightarrow> \<not> P (last s) \<Longrightarrow> dropWhile P (rev s) = rev s"
  by (cases s rule: rev_cases) auto

lemma cookie_pair_trim:
  assumes "cookie_pair_ok p"
  shows "trim_cookie_whitespace (cookie_pair p) = cookie_pair p"
proof -
  obtain n v where p: "p = (n, v)" by force
  from assms p have n: "n \<noteq> []" "\<not> cookie_blank (hd n)"
    by (auto simp: cookie_pair_ok_def list_all_iff token_not_special)
  have "\<not> cookie_blank (last (n @ ''='' @ v))"
  proof (cases v rule: rev_cases)
    case Nil
    then show ?thesis by (simp add: cookie_blank_def)
  next
    case (snoc w c)
    with assms p have "byte_of c \<noteq> 9" "c \<noteq> CHR '' ''"
      by (auto simp: cookie_pair_ok_def contains_cookie_delimiter_def cookie_delimiter_def)
    with snoc show ?thesis by (simp add: cookie_blank_def)
  qed
  moreover have "dropWhile cookie_blank (n @ ''='' @ v) = n @ ''='' @ v"
    using n by (cases n) auto
  ultimately show ?thesis
    using n by (simp add: p cookie_pair_def trim_cookie_whitespace_def trim_by_def
        dropWhile_rev_last del: rev_append)
qed

lemma cookie_pair_find:
  assumes "cookie_pair_ok p"
  shows "find_ch CHR ''='' (cookie_pair p) = Some (length (fst p))"
    and "trim_cookie_whitespace (fst p) = fst p" and "CHR '';'' \<notin> set (cookie_pair p)"
proof -
  from assms have tok: "list_all cookie_token_character (fst p)"
    and val: "\<not> contains_cookie_delimiter (snd p)"
    by (auto simp: cookie_pair_ok_def)
  from tok have eq: "CHR ''='' \<notin> set (fst p)"
    using token_not_special(2) by (auto simp: list_all_iff)
  then show "find_ch CHR ''='' (cookie_pair p) = Some (length (fst p))"
    by (simp add: cookie_pair_def find_ch_append)
  from tok show "trim_cookie_whitespace (fst p) = fst p"
    by (simp add: trim_cookie_whitespace_def trim_by_id list_all_iff token_not_special)
  from tok val show "CHR '';'' \<notin> set (cookie_pair p)"
    by (auto simp: cookie_pair_def list_all_iff contains_cookie_delimiter_def list_ex_iff
        cookie_delimiter_def dest: token_not_special)
qed

text \<open>One turn of the loop on a well-formed part, with or without the leading blank.\<close>

lemma cookie_part_hit:
  assumes "cookie_pair_ok p" and "part = cookie_pair p \<or> part = CHR '' '' # cookie_pair p"
  shows "cookie_part name (trim_cookie_whitespace part) = (if fst p = name then Some (snd p) else None)"
proof -
  from assms have "trim_cookie_whitespace part = cookie_pair p"
    by (auto simp: trim_cookie_leading cookie_pair_trim)
  moreover have "take (length (fst p)) (cookie_pair p) = fst p"
    and "drop (length (fst p) + 1) (cookie_pair p) = snd p"
    by (simp_all add: cookie_pair_def)
  ultimately show ?thesis
    using assms(1) by (auto simp add: cookie_part_def cookie_pair_find)
qed

lemma cookie_loop_last:
  assumes "cookie_pair_ok p" and "part = cookie_pair p \<or> part = CHR '' '' # cookie_pair p"
  shows "cookie_loop name part = (if fst p = name then Some (snd p) else None)"
proof -
  have ne: "part \<noteq> []" and no: "find_ch CHR '';'' part = None"
    using assms(2) cookie_pair_find(3) [OF assms(1)] by (auto simp: cookie_pair_def find_ch_None)
  show ?thesis
    using ne by (simp add: cookie_loop.simps [of name part] no substr_upto_def cookie_part_hit [OF assms])
qed

lemma cookie_loop_cons:
  assumes "cookie_pair_ok p" and "part = cookie_pair p \<or> part = CHR '' '' # cookie_pair p"
  shows "cookie_loop name (part @ CHR '';'' # rest) =
     (if fst p = name then Some (snd p) else cookie_loop name rest)"
proof -
  have no: "CHR '';'' \<notin> set part"
    using assms(2) cookie_pair_find(3) [OF assms(1)] by auto
  show ?thesis
    by (subst cookie_loop.simps)
       (simp add: find_ch_append [OF no] substr_upto_def cookie_part_hit [OF assms])
qed

lemma cookie_loop_header:
  assumes "list_all cookie_pair_ok ps" "ps \<noteq> []"
    and "s = cookie_header ps \<or> s = CHR '' '' # cookie_header ps"
  shows "cookie_loop name s = map_of ps name"
  using assms
proof (induction ps arbitrary: s rule: cookie_header.induct)
  case (2 p)
  then show ?case using cookie_loop_last [of p s name] by (cases p) auto
next
  case (3 p q ps)
  let ?rest = "CHR '' '' # cookie_header (q # ps)"
  from 3 have IH: "cookie_loop name ?rest = map_of (q # ps) name" by simp
  from 3 obtain part where part: "part = cookie_pair p \<or> part = CHR '' '' # cookie_pair p"
    and s: "s = part @ CHR '';'' # ?rest" by force
  from 3 have "cookie_pair_ok p" by simp
  from cookie_loop_cons [OF this part, of name ?rest] IH s show ?case
    by (cases p) simp
qed simp

end
