(* ===== verification/Http_Filters.thy ===== *)
theory Http_Filters
  imports Request_Pipeline Http_Cookie
begin

text \<open>
  Middleware without state of their own: body size limit, CORS, CSRF protection and security
  headers (\<^verbatim>\<open>src/middleware/body_size_limit_middleware.cpp\<close>, \<^verbatim>\<open>cors_middleware.cpp\<close>,
  \<^verbatim>\<open>csrf_middleware.cpp\<close>, \<^verbatim>\<open>security_headers_middleware.cpp\<close>). Each is an instance of
  \<open>request_gate\<close> or \<open>request_wrapper\<close>.
\<close>

section \<open>Body size limit\<close>

text \<open>The allowlist test that several middleware share word for word.\<close>

fun path_allowed :: "string \<Rightarrow> string list \<Rightarrow> bool" where
  "path_allowed path [] = False"
| "path_allowed path (pattern # rest) =
     (if ends_with pattern ''*''
      then starts_with path (butlast pattern) \<or> path_allowed path rest
      else path = pattern \<or> path_allowed path rest)"

record BodySizeLimit_Config =
  max_body_bytes :: nat
  bs_allowlist_paths :: "string list"
  bs_status_code :: int
  bs_response_body :: string

definition declared_content_length :: "request \<Rightarrow> nat option" where
  "declared_content_length req = (case request_header req ''content-length'' of
       None \<Rightarrow> None
     | Some h \<Rightarrow> (case stoull h of
           Inl e \<Rightarrow> None
         | Inr (v, consumed) \<Rightarrow> if consumed \<noteq> length h then None else Some v))"

definition BodySizeLimit_handle ::
    "BodySizeLimit_Config \<Rightarrow> 'z exchange_scheme middleware" where
  "BodySizeLimit_handle cfg next s =
     (if path_allowed (req_path (ex_req s)) (bs_allowlist_paths cfg) then next s
      else
        let declared = declared_content_length (ex_req s);
            effective_size = (case declared of Some n \<Rightarrow> n | None \<Rightarrow> content_length (ex_req s))
        in if max_body_bytes cfg < effective_size
           then (None, set_res s (Response_json (Response_status (ex_res s) (bs_status_code cfg))
                                    (bs_response_body cfg)))
           else next s)"

definition BodySizeLimit_decide ::
    "BodySizeLimit_Config \<Rightarrow> 'z exchange_scheme \<Rightarrow> 'z exchange_scheme + (exn option \<times> 'z exchange_scheme)" where
  "BodySizeLimit_decide cfg s =
     (if path_allowed (req_path (ex_req s)) (bs_allowlist_paths cfg) \<or>
         (case declared_content_length (ex_req s) of
            Some n \<Rightarrow> n | None \<Rightarrow> content_length (ex_req s)) \<le> max_body_bytes cfg
      then Inl s
      else Inr (None, set_res s (Response_json (Response_status (ex_res s) (bs_status_code cfg))
                                   (bs_response_body cfg))))"

interpretation body_size: request_gate "BodySizeLimit_handle cfg" "BodySizeLimit_decide cfg" for cfg
  by unfold_locales (auto simp: BodySizeLimit_handle_def BodySizeLimit_decide_def Let_def)

lemma path_allowed_iff:
  "path_allowed path ps \<longleftrightarrow>
     (\<exists>p\<in>set ps. if ends_with p ''*'' then starts_with path (butlast p) else path = p)"
  by (induction ps) auto

section \<open>CORS\<close>

record Cors_Config =
  allowed_origins :: "string list"
  allowed_methods :: "string list"
  allowed_headers :: "string list"
  exposed_headers :: "string list"
  allow_credentials :: bool
  max_age_seconds :: int

definition cors_join :: "string list \<Rightarrow> string" where
  "cors_join v = (case v of [] \<Rightarrow> [] | x # xs \<Rightarrow> foldl (\<lambda>a b. a @ '', '' @ b) x xs)"

text \<open>
  The value of \<^verbatim>\<open>Access-Control-Allow-Origin\<close>. The condition reads \<^verbatim>\<open>allowed_origins[0]\<close> when
  an \<^verbatim>\<open>Origin\<close> header is present and the list does not have length one; on an empty list this
  access has no meaning.
\<close>

definition cors_origin_value :: "Cors_Config \<Rightarrow> request \<Rightarrow> string result" where
  "cors_origin_value cfg req =
     (let joined = cors_join (allowed_origins cfg)
      in case request_header req ''origin'' of
           None \<Rightarrow> Inr joined
         | Some o_hdr \<Rightarrow>
             if length (allowed_origins cfg) \<noteq> 1 then
               (case allowed_origins cfg of
                  [] \<Rightarrow> Inl (Undefined_behaviour ''allowed_origins[0]'')
                | first # _ \<Rightarrow>
                    if first \<noteq> ''*'' then
                      (case find (\<lambda>x. x = o_hdr) (allowed_origins cfg) of
                         Some x \<Rightarrow> Inr x
                       | None \<Rightarrow> Inr joined)
                    else Inr joined)
             else Inr joined)"

definition cors_headers :: "Cors_Config \<Rightarrow> string \<Rightarrow> response \<Rightarrow> response" where
  "cors_headers cfg origin_val r0 =
     (let r1 = Response_header r0 ''Access-Control-Allow-Origin'' origin_val;
          r2 = Response_header r1 ''Access-Control-Allow-Methods'' (cors_join (allowed_methods cfg));
          r3 = Response_header r2 ''Access-Control-Allow-Headers'' (cors_join (allowed_headers cfg));
          r4 = (if cors_join (exposed_headers cfg) \<noteq> []
                then Response_header r3 ''Access-Control-Expose-Headers''
                       (cors_join (exposed_headers cfg)) else r3)
      in if allow_credentials cfg
         then Response_header r4 ''Access-Control-Allow-Credentials'' ''true'' else r4)"

definition Cors_handle :: "Cors_Config \<Rightarrow> 'z exchange_scheme middleware" where
  "Cors_handle cfg next s =
     (case cors_origin_value cfg (ex_req s) of
        Inl e \<Rightarrow> (Some e, s)
      | Inr origin_val \<Rightarrow>
          let r = cors_headers cfg origin_val (ex_res s)
          in if req_method (ex_req s) = ''OPTIONS'' then
               (None, set_res s (Response_status
                  (Response_header r ''Access-Control-Max-Age'' (to_string_int (max_age_seconds cfg)))
                  204))
             else next (set_res s r))"

definition Cors_decide ::
    "Cors_Config \<Rightarrow> 'z exchange_scheme \<Rightarrow> 'z exchange_scheme + (exn option \<times> 'z exchange_scheme)" where
  "Cors_decide cfg s =
     (case cors_origin_value cfg (ex_req s) of
        Inl e \<Rightarrow> Inr (Some e, s)
      | Inr origin_val \<Rightarrow>
          let r = cors_headers cfg origin_val (ex_res s)
          in if req_method (ex_req s) = ''OPTIONS'' then
               Inr (None, set_res s (Response_status
                  (Response_header r ''Access-Control-Max-Age'' (to_string_int (max_age_seconds cfg)))
                  204))
             else Inl (set_res s r))"

interpretation cors: request_gate "Cors_handle cfg" "Cors_decide cfg" for cfg
  by unfold_locales (auto simp: Cors_handle_def Cors_decide_def Let_def split: sum.split)

section \<open>CSRF\<close>

record Csrf_Config =
  csrf_cookie_name :: string
  csrf_header_name :: string
  csrf_cookie_path :: string
  csrf_secure_cookie :: bool
  csrf_same_site :: SameSite
  csrf_issue_on_safe :: bool

definition Csrf_new :: "Csrf_Config \<Rightarrow> Csrf_Config result" where
  "Csrf_new cfg =
     (if csrf_cookie_name cfg = [] \<or> csrf_header_name cfg = [] \<or> csrf_cookie_path cfg = [] \<or>
         hd (csrf_cookie_path cfg) \<noteq> CHR ''/''
      then Inl (Invalid_argument ''CSRF cookie name, header name, and absolute path are required'')
      else if csrf_same_site cfg = SameSite_None \<and> \<not> csrf_secure_cookie cfg
      then Inl (Invalid_argument ''CSRF SameSite=None cookie must be Secure'')
      else Inr cfg)"

definition safe_method :: "string \<Rightarrow> bool" where
  "safe_method m \<longleftrightarrow> m = ''GET'' \<or> m = ''HEAD'' \<or> m = ''OPTIONS'' \<or> m = ''TRACE''"

text \<open>
  \<open>rand\<close> is what OpenSSL's \<^verbatim>\<open>RAND_bytes\<close> delivered for this call: \<^const>\<open>None\<close> for failure, else
  32 bytes. \<open>cmp\<close> is \<^verbatim>\<open>CRYPTO_memcmp\<close> on two buffers of equal length.
\<close>

definition generate_token :: "nat list option \<Rightarrow> string result" where
  "generate_token rand = (case rand of
       None \<Rightarrow> Inl (Runtime_error ''OpenSSL could not generate a CSRF token'')
     | Some bytes \<Rightarrow> Inr (hex_encode bytes))"

definition valid_token ::
    "(string \<Rightarrow> string \<Rightarrow> int) \<Rightarrow> Csrf_Config \<Rightarrow> request \<Rightarrow> bool" where
  "valid_token cmp cfg req =
     (case (request_cookie req (csrf_cookie_name cfg), request_header req (csrf_header_name cfg)) of
        (Some cookie, Some header) \<Rightarrow>
          if cookie = [] \<or> length cookie \<noteq> length header then False else cmp cookie header = 0
      | _ \<Rightarrow> False)"

definition issue_token :: "Csrf_Config \<Rightarrow> nat list option \<Rightarrow> response \<Rightarrow> response result" where
  "issue_token cfg rand res = (case generate_token rand of
       Inl e \<Rightarrow> Inl e
     | Inr token \<Rightarrow> set_cookie res
         \<lparr>ck_name = csrf_cookie_name cfg, ck_value = token, ck_path = csrf_cookie_path cfg,
          ck_domain = None, ck_max_age = None, ck_secure = csrf_secure_cookie cfg,
          ck_http_only = False, ck_same_site = csrf_same_site cfg\<rparr>)"

definition csrf_rejection :: string where
  "csrf_rejection = ''{'' @ quoted ''error'' @ '':'' @ quoted ''CSRF token invalid or missing'' @ ''}''"

definition Csrf_handle ::
    "(string \<Rightarrow> string \<Rightarrow> int) \<Rightarrow> nat list option \<Rightarrow> Csrf_Config \<Rightarrow> 'z exchange_scheme middleware" where
  "Csrf_handle cmp rand cfg next s =
     (if safe_method (req_method (ex_req s)) then
        if csrf_issue_on_safe cfg \<and> request_cookie (ex_req s) (csrf_cookie_name cfg) = None then
          (case issue_token cfg rand (ex_res s) of
             Inl e \<Rightarrow> (Some e, s)
           | Inr r \<Rightarrow> next (set_res s r))
        else next s
      else if \<not> valid_token cmp cfg (ex_req s)
      then (None, set_res s (Response_json (Response_status (ex_res s) 403) csrf_rejection))
      else next s)"

definition Csrf_decide ::
    "(string \<Rightarrow> string \<Rightarrow> int) \<Rightarrow> nat list option \<Rightarrow> Csrf_Config \<Rightarrow> 'z exchange_scheme \<Rightarrow>
     'z exchange_scheme + (exn option \<times> 'z exchange_scheme)" where
  "Csrf_decide cmp rand cfg s =
     (if safe_method (req_method (ex_req s)) then
        if csrf_issue_on_safe cfg \<and> request_cookie (ex_req s) (csrf_cookie_name cfg) = None then
          (case issue_token cfg rand (ex_res s) of Inl e \<Rightarrow> Inr (Some e, s) | Inr r \<Rightarrow> Inl (set_res s r))
        else Inl s
      else if \<not> valid_token cmp cfg (ex_req s)
      then Inr (None, set_res s (Response_json (Response_status (ex_res s) 403) csrf_rejection))
      else Inl s)"

interpretation csrf: request_gate "Csrf_handle cmp rand cfg" "Csrf_decide cmp rand cfg" for cmp rand cfg
  by unfold_locales (auto simp: Csrf_handle_def Csrf_decide_def split: sum.split)

text \<open>What OpenSSL documents for \<^verbatim>\<open>CRYPTO_memcmp\<close>: zero exactly for equal buffers.\<close>

definition memcmp_spec :: "(string \<Rightarrow> string \<Rightarrow> int) \<Rightarrow> bool" where
  "memcmp_spec cmp \<longleftrightarrow> (\<forall>a b. length a = length b \<longrightarrow> (cmp a b = 0 \<longleftrightarrow> a = b))"

lemma valid_token_iff:
  "memcmp_spec cmp \<Longrightarrow> valid_token cmp cfg req \<longleftrightarrow>
     (\<exists>t. t \<noteq> [] \<and> request_cookie req (csrf_cookie_name cfg) = Some t \<and>
          request_header req (csrf_header_name cfg) = Some t)"
  by (auto simp: valid_token_def memcmp_spec_def split: option.splits)

section \<open>Security headers\<close>

record SecurityHeaders_Config =
  hsts :: bool
  hsts_https_only :: bool
  hsts_value :: string
  content_type_options :: bool
  content_type_options_value :: string
  frame_options :: bool
  frame_options_value :: string
  x_xss_protection :: bool
  x_xss_protection_value :: string
  referrer_policy :: bool
  referrer_policy_value :: string
  permissions_policy :: bool
  permissions_policy_value :: string
  cross_origin_opener_policy :: bool
  cross_origin_opener_policy_value :: string
  cross_origin_resource_policy :: bool
  cross_origin_resource_policy_value :: string
  content_security_policy :: string
  custom_headers :: "(string \<times> string) list"

definition set_if_absent :: "response \<Rightarrow> string \<Rightarrow> string \<Rightarrow> response" where
  "set_if_absent res name v =
     (if v \<noteq> [] \<and> \<not> HeaderMap_has (res_headers res) name then Response_header res name v else res)"

definition token_character :: "char \<Rightarrow> bool" where
  "token_character c \<longleftrightarrow>
     isalnum c \<or>
     c \<in> {CHR ''!'', CHR ''#'', CHR ''$'', CHR ''%'', CHR ''&'', CHR 0x27, CHR ''*'', CHR ''+'',
          CHR ''-'', CHR ''.'', CHR ''^'', CHR ''_'', CHR 0x60, CHR ''|'', CHR ''~''}"

definition validate_header :: "string \<Rightarrow> string \<Rightarrow> unit result" where
  "validate_header name v =
     (if name = [] then Inl (Invalid_argument ''Security header name must not be empty'')
      else if \<not> list_all token_character name
      then Inl (Invalid_argument ''Security header name contains an invalid character'')
      else if list_ex (\<lambda>c. byte_of c < 0x20 \<or> byte_of c = 0x7f) v
      then Inl (Invalid_argument ''Security header value contains a control character'')
      else Inr ())"

fun validate_headers :: "(string \<times> string) list \<Rightarrow> unit result" where
  "validate_headers [] = Inr ()"
| "validate_headers ((n, v) # hs) =
     (case validate_header n v of Inl e \<Rightarrow> Inl e | Inr _ \<Rightarrow> validate_headers hs)"

text \<open>The header fields the configuration asks for, in the order the code emits them.\<close>

definition configured_headers :: "SecurityHeaders_Config \<Rightarrow> bool \<Rightarrow> (string \<times> string) list" where
  "configured_headers cfg with_hsts =
     (if with_hsts then [(''Strict-Transport-Security'', hsts_value cfg)] else []) @
     (if content_type_options cfg
      then [(''X-Content-Type-Options'', content_type_options_value cfg)] else []) @
     (if frame_options cfg then [(''X-Frame-Options'', frame_options_value cfg)] else []) @
     (if x_xss_protection cfg then [(''X-XSS-Protection'', x_xss_protection_value cfg)] else []) @
     (if referrer_policy cfg then [(''Referrer-Policy'', referrer_policy_value cfg)] else []) @
     (if permissions_policy cfg
      then [(''Permissions-Policy'', permissions_policy_value cfg)] else []) @
     (if cross_origin_opener_policy cfg
      then [(''Cross-Origin-Opener-Policy'', cross_origin_opener_policy_value cfg)] else []) @
     (if cross_origin_resource_policy cfg
      then [(''Cross-Origin-Resource-Policy'', cross_origin_resource_policy_value cfg)] else [])"

definition SecurityHeaders_new :: "SecurityHeaders_Config \<Rightarrow> SecurityHeaders_Config result" where
  "SecurityHeaders_new cfg =
     (case validate_headers
        (configured_headers cfg (hsts cfg) @
         (if content_security_policy cfg \<noteq> []
          then [(''Content-Security-Policy'', content_security_policy cfg)] else []) @
         custom_headers cfg) of
        Inl e \<Rightarrow> Inl e
      | Inr _ \<Rightarrow> Inr cfg)"

definition apply_security_headers :: "SecurityHeaders_Config \<Rightarrow> request \<Rightarrow> response \<Rightarrow> response" where
  "apply_security_headers cfg req res =
     foldl (\<lambda>r (n, v). set_if_absent r n v) res
       (configured_headers cfg (hsts cfg \<and> (\<not> hsts_https_only cfg \<or> req_scheme req = ''https'')) @
        [(''Content-Security-Policy'', content_security_policy cfg)] @ custom_headers cfg)"

definition SecurityHeaders_handle :: "SecurityHeaders_Config \<Rightarrow> 'z exchange_scheme middleware" where
  "SecurityHeaders_handle cfg next s =
     (case next s of
        (Some e, s1) \<Rightarrow> (Some e, s1)
      | (None, s1) \<Rightarrow> (None, set_res s1 (apply_security_headers cfg (ex_req s1) (ex_res s1))))"

definition SecurityHeaders_post ::
    "SecurityHeaders_Config \<Rightarrow> 'z exchange_scheme \<Rightarrow> exn option \<times> 'z exchange_scheme \<Rightarrow>
     exn option \<times> 'z exchange_scheme" where
  "SecurityHeaders_post cfg s r = (case r of
       (Some e, s1) \<Rightarrow> (Some e, s1)
     | (None, s1) \<Rightarrow> (None, set_res s1 (apply_security_headers cfg (ex_req s1) (ex_res s1))))"

interpretation sec_headers: request_wrapper "SecurityHeaders_handle cfg" Inl "SecurityHeaders_post cfg"
  for cfg
  by unfold_locales (simp add: SecurityHeaders_handle_def SecurityHeaders_post_def)

lemma get_set_if_absent:
  "HeaderMap_get (res_headers (set_if_absent r n v)) n' =
     (if v \<noteq> [] \<and> HeaderMap_get (res_headers r) n' = None \<and> names_equal n n' then Some v
      else HeaderMap_get (res_headers r) n')"
  using hm.add_if_absent [of "res_headers r" n v n']
  by (auto simp: set_if_absent_def HeaderMap_has_def Response_header_def split: if_splits)

lemma get_fold_set_if_absent:
  "HeaderMap_get (res_headers (foldl (\<lambda>r (n, v). set_if_absent r n v) r hs)) n' =
     (case HeaderMap_get (res_headers r) n' of
        Some v \<Rightarrow> Some v
      | None \<Rightarrow> map_option snd (find (\<lambda>(n, v). v \<noteq> [] \<and> names_equal n n') hs))"
  by (induction hs arbitrary: r) (auto simp: get_set_if_absent split: option.splits)

lemma find_named_value:
  "(n, v) \<in> set hs \<Longrightarrow> v \<noteq> [] \<Longrightarrow> find (\<lambda>(n', v). v \<noteq> [] \<and> names_equal n' n) hs \<noteq> None"
  by (induction hs) auto

section \<open>Properties\<close>

text \<open>
  C16: CSRF protection is exact. For a method other than GET, HEAD, OPTIONS and TRACE, the rest of
  the chain runs precisely when the request carries the same non-empty token in the configured
  cookie and in the configured header; otherwise the response is a 403 and nothing after the
  middleware runs.
\<close>

theorem csrf_guards_unsafe_methods:
  assumes "memcmp_spec cmp" and "\<not> safe_method (req_method (ex_req s))"
  shows "build_chain (Csrf_handle cmp rand cfg # mws) h s =
     (if \<exists>t. t \<noteq> [] \<and> request_cookie (ex_req s) (csrf_cookie_name cfg) = Some t \<and>
             request_header (ex_req s) (csrf_header_name cfg) = Some t
      then build_chain mws h s
      else (None, s\<lparr>ex_res := Response_json (Response_status (ex_res s) 403) csrf_rejection\<rparr>))"
  using assms(2) csrf.admitted_runs_rest [of cmp rand cfg s s mws h]
  by (simp add: valid_token_iff [OF assms(1), symmetric] Csrf_handle_def set_res_def)

definition csrf_default :: Csrf_Config where
  "csrf_default = \<lparr>csrf_cookie_name = ''XSRF-TOKEN'', csrf_header_name = ''X-XSRF-TOKEN'',
     csrf_cookie_path = ''/'', csrf_secure_cookie = True, csrf_same_site = Lax,
     csrf_issue_on_safe = True\<rparr>"

definition plain_cmp :: "string \<Rightarrow> string \<Rightarrow> int" where
  "plain_cmp a b = (if a = b then 0 else 1)"

lemma plain_cmp_spec: "memcmp_spec plain_cmp"
  by (simp add: memcmp_spec_def plain_cmp_def)

definition post_exchange :: "header_map \<Rightarrow> string \<Rightarrow> exchange" where
  "post_exchange hs body = \<lparr>ex_req = empty_request\<lparr>req_method := ''POST'', req_path := ''/pay'',
     req_headers := hs, req_body := body\<rparr>, ex_res = default_response, ex_ctx = new_context 1,
     current_context = None\<rparr>"

lemma post_exchange_sel [simp]:
  "req_method (ex_req (post_exchange hs b)) = ''POST''" "req_headers (ex_req (post_exchange hs b)) = hs"
  "req_body (ex_req (post_exchange hs b)) = b" "req_path (ex_req (post_exchange hs b)) = ''/pay''"
  by (simp_all add: post_exchange_def)

theorem csrf_guards_unsafe_methods_witness:
  "status_code (ex_res (snd (build_chain [Csrf_handle plain_cmp None csrf_default]
       (\<lambda>s. (None, s)) (post_exchange [\<lparr>hname = ''Cookie'', hvalue = ''XSRF-TOKEN=abc''\<rparr>] [])))) = 403"
proof -
  let ?s = "post_exchange [\<lparr>hname = ''Cookie'', hvalue = ''XSRF-TOKEN=abc''\<rparr>] []"
  have "\<not> safe_method (req_method (ex_req ?s))" by (simp add: safe_method_def)
  from csrf_guards_unsafe_methods [OF plain_cmp_spec this, of None csrf_default "[]" "\<lambda>s. (None, s)"]
  have "build_chain [Csrf_handle plain_cmp None csrf_default] (\<lambda>s. (None, s)) ?s =
      (None, ?s\<lparr>ex_res := Response_json (Response_status (ex_res ?s) 403) csrf_rejection\<rparr>)"
    by (simp add: csrf_default_def request_header_def names_equal_def)
  then show ?thesis by (simp add: response_defs)
qed

text \<open>
  a token issued on a safe request is accepted afterwards: when the middleware issues a
  token, the response gains a \<^verbatim>\<open>Set-Cookie\<close> field that starts with the cookie name and the token,
  and any later unsafe request whose \<^verbatim>\<open>Cookie\<close> header contains that cookie (among other well-formed
  ones) and whose CSRF header repeats the token passes the check.
\<close>

theorem csrf_issued_token_accepted:
  assumes "memcmp_spec cmp" and "issue_token cfg (Some bytes) res = Inr res'"
    and "bytes \<noteq> []" and "\<forall>b\<in>set bytes. b < 256"
    and "list_all cookie_pair_ok cs" and "map_of cs (csrf_cookie_name cfg) = Some (hex_encode bytes)"
    and "HeaderMap_get_all (req_headers req) ''cookie'' = [cookie_header cs]"
    and "request_header req (csrf_header_name cfg) = Some (hex_encode bytes)"
  shows "valid_token cmp cfg req \<and>
    (\<exists>rest. HeaderMap_get_all (res_headers res') ''set-cookie'' =
       HeaderMap_get_all (res_headers res) ''set-cookie'' @
         [csrf_cookie_name cfg @ ''='' @ hex_encode bytes @ rest])"
proof
  have "cs \<noteq> []" using assms(6) by auto
  then have "request_cookie req (csrf_cookie_name cfg) = Some (hex_encode bytes)"
    using assms(5,6,7) by (simp add: request_cookie_def cookie_loop_header)
  moreover have "hex_encode bytes \<noteq> []"
    using assms(3) by (cases bytes) (auto simp: hex_encode_def)
  ultimately show "valid_token cmp cfg req"
    using assms(1,8) by (auto simp: valid_token_iff)
  show "\<exists>rest. HeaderMap_get_all (res_headers res') ''set-cookie'' =
       HeaderMap_get_all (res_headers res) ''set-cookie'' @
         [csrf_cookie_name cfg @ ''='' @ hex_encode bytes @ rest]"
    using assms(2)
    by (auto simp: issue_token_def generate_token_def set_cookie_def serialize_cookie_def
        Response_header_def HeaderMap_get_all_add split: sum.splits if_splits)
qed

definition echo_request :: request where
  "echo_request = empty_request\<lparr>req_method := ''POST'', req_headers :=
     [\<lparr>hname = ''Cookie'', hvalue = ''theme=dark; XSRF-TOKEN=ff''\<rparr>,
      \<lparr>hname = ''x-xsrf-token'', hvalue = ''ff''\<rparr>]\<rparr>"

theorem csrf_issued_token_accepted_witness:
  "\<exists>res'. issue_token csrf_default (Some [255]) default_response = Inr res' \<and>
     valid_token plain_cmp csrf_default echo_request"
proof -
  have ff: "hex_encode [255] = ''ff''" by code_simp
  obtain res' where r: "issue_token csrf_default (Some [255]) default_response = Inr res'"
    by (simp add: issue_token_def generate_token_def set_cookie_def serialize_cookie_def
        csrf_default_def ff cookie_token_character_def isalpha_def isdigit_def
        contains_cookie_delimiter_def cookie_delimiter_def)
  let ?cs = "[(''theme'', ''dark''), (''XSRF-TOKEN'', ''ff'')]"
  have ok: "list_all cookie_pair_ok ?cs"
    by (simp add: cookie_pair_ok_def cookie_token_character_def isalpha_def isdigit_def
        contains_cookie_delimiter_def cookie_delimiter_def)
  have m: "map_of ?cs (csrf_cookie_name csrf_default) = Some (hex_encode [255])"
    by (simp add: csrf_default_def ff)
  have c: "HeaderMap_get_all (req_headers echo_request) ''cookie'' = [cookie_header ?cs]"
    by (simp add: echo_request_def cookie_pair_def) code_simp
  have h: "request_header echo_request (csrf_header_name csrf_default) = Some (hex_encode [255])"
    by code_simp
  from csrf_issued_token_accepted [OF plain_cmp_spec r _ _ ok m c h] r show ?thesis by auto
qed

text \<open>
  security headers are added without overriding the application. When the rest of the chain
  returns, a header it set keeps its value, every configured or custom field with a non-empty
  value is present afterwards, and nothing else of the exchange changes.
\<close>

theorem security_headers_complete_and_conservative:
  assumes "build_chain mws h s = (None, s1)"
    and "build_chain (SecurityHeaders_handle cfg # mws) h s = (e, s2)"
  shows "e = None \<and> s2\<lparr>ex_res := ex_res s1\<rparr> = s1 \<and>
     status_code (ex_res s2) = status_code (ex_res s1) \<and> res_body (ex_res s2) = res_body (ex_res s1) \<and>
     (\<forall>n v. HeaderMap_get (res_headers (ex_res s1)) n = Some v \<longrightarrow>
        HeaderMap_get (res_headers (ex_res s2)) n = Some v) \<and>
     (\<forall>(n, v) \<in> set (configured_headers cfg (hsts cfg \<and> (\<not> hsts_https_only cfg \<or>
          req_scheme (ex_req s1) = ''https'')) @ custom_headers cfg).
        v \<noteq> [] \<longrightarrow> HeaderMap_get (res_headers (ex_res s2)) n \<noteq> None)"
proof -
  let ?hs = "configured_headers cfg (hsts cfg \<and> (\<not> hsts_https_only cfg \<or> req_scheme (ex_req s1) = ''https'')) @
        [(''Content-Security-Policy'', content_security_policy cfg)] @ custom_headers cfg"
  have e: "e = None" and s2: "s2 = set_res s1 (apply_security_headers cfg (ex_req s1) (ex_res s1))"
    using assms by (auto simp: SecurityHeaders_handle_def)
  have frame: "status_code (foldl (\<lambda>r (n, v). set_if_absent r n v) r hs) = status_code r \<and>
      res_body (foldl (\<lambda>r (n, v). set_if_absent r n v) r hs) = res_body r" for r hs
    by (induction hs arbitrary: r) (auto simp: set_if_absent_def Response_header_def)
  have r: "ex_res s2 = apply_security_headers cfg (ex_req s1) (ex_res s1)"
    by (simp add: s2 set_res_def)
  have get: "HeaderMap_get (res_headers (ex_res s2)) n' =
     (case HeaderMap_get (res_headers (ex_res s1)) n' of
        Some v \<Rightarrow> Some v
      | None \<Rightarrow> map_option snd (find (\<lambda>(n, v). v \<noteq> [] \<and> names_equal n n') ?hs))" for n'
    unfolding r apply_security_headers_def by (rule get_fold_set_if_absent)
  have present: "HeaderMap_get (res_headers (ex_res s2)) n \<noteq> None" if "(n, v) \<in> set ?hs" "v \<noteq> []" for n v
  proof -
    have "find (\<lambda>(n', v). v \<noteq> [] \<and> names_equal n' n) ?hs \<noteq> None"
      using that by (rule find_named_value)
    then show ?thesis by (auto simp: get split: option.split)
  qed
  have kept: "HeaderMap_get (res_headers (ex_res s2)) n = Some v"
    if "HeaderMap_get (res_headers (ex_res s1)) n = Some v" for n v
    using that by (simp add: get)
  have rest: "s2\<lparr>ex_res := ex_res s1\<rparr> = s1 \<and> status_code (ex_res s2) = status_code (ex_res s1) \<and>
      res_body (ex_res s2) = res_body (ex_res s1)"
    by (simp add: s2 set_res_def apply_security_headers_def frame del: foldl_append)
  show ?thesis
    using e rest kept present by fastforce
qed

definition sec_sample :: SecurityHeaders_Config where
  "sec_sample = \<lparr>hsts = True, hsts_https_only = True, hsts_value = ''max-age=1'',
     content_type_options = True, content_type_options_value = ''nosniff'', frame_options = True,
     frame_options_value = ''DENY'', x_xss_protection = False, x_xss_protection_value = ''0'',
     referrer_policy = False, referrer_policy_value = [], permissions_policy = False,
     permissions_policy_value = [], cross_origin_opener_policy = False,
     cross_origin_opener_policy_value = [], cross_origin_resource_policy = False,
     cross_origin_resource_policy_value = [], content_security_policy = [], custom_headers = []\<rparr>"

definition frame_handler :: "exchange proc" where
  "frame_handler s = (None, s\<lparr>ex_res := Response_header (ex_res s) ''x-frame-options'' ''SAMEORIGIN''\<rparr>)"

theorem security_headers_complete_and_conservative_witness:
  "HeaderMap_get (res_headers (ex_res (snd (build_chain [SecurityHeaders_handle sec_sample]
      frame_handler (post_exchange [] []))))) ''X-Frame-Options'' = Some ''SAMEORIGIN'' \<and>
   HeaderMap_get (res_headers (ex_res (snd (build_chain [SecurityHeaders_handle sec_sample]
      frame_handler (post_exchange [] []))))) ''X-Content-Type-Options'' \<noteq> None"
proof -
  let ?s = "post_exchange [] []"
  obtain e s2 where run: "build_chain [SecurityHeaders_handle sec_sample] frame_handler ?s = (e, s2)"
    by force
  have base: "build_chain [] frame_handler ?s =
      (None, ?s\<lparr>ex_res := Response_header (ex_res ?s) ''x-frame-options'' ''SAMEORIGIN''\<rparr>)"
    by (simp add: frame_handler_def)
  have kept: "HeaderMap_get (res_headers (Response_header (ex_res ?s) ''x-frame-options'' ''SAMEORIGIN''))
      ''X-Frame-Options'' = Some ''SAMEORIGIN''"
    by (simp add: Response_header_def post_exchange_def default_response_def HeaderMap_add_def) code_simp
  have conf: "(''X-Content-Type-Options'', ''nosniff'') \<in>
      set (configured_headers sec_sample b @ custom_headers sec_sample)" for b
    by (simp add: configured_headers_def sec_sample_def)
  note all = security_headers_complete_and_conservative [OF base run]
  have "HeaderMap_get (res_headers (ex_res s2)) ''X-Frame-Options'' = Some ''SAMEORIGIN''"
    using all kept by simp
  moreover have "HeaderMap_get (res_headers (ex_res s2)) ''X-Content-Type-Options'' \<noteq> None"
    using all conf by blast
  moreover have "e = None" using all by blast
  ultimately have "HeaderMap_get (res_headers (ex_res s2)) ''X-Frame-Options'' = Some ''SAMEORIGIN'' \<and>
      HeaderMap_get (res_headers (ex_res s2)) ''X-Content-Type-Options'' \<noteq> None"
    by blast
  with run show ?thesis by simp
qed

text \<open>
  the body size limit holds for requests without a usable \<^verbatim>\<open>Content-Length\<close>, and a declared
  length over the limit is refused without looking at the body: in both cases the chain stops with
  the configured status and body.
\<close>

theorem body_size_limit_enforced:
  assumes "\<not> path_allowed (req_path (ex_req s)) (bs_allowlist_paths cfg)"
    and "(declared_content_length (ex_req s) = None \<and> max_body_bytes cfg < length (req_body (ex_req s))) \<or>
         (\<exists>n. declared_content_length (ex_req s) = Some n \<and> max_body_bytes cfg < n)"
  shows "build_chain (BodySizeLimit_handle cfg # mws) h s =
     (None, s\<lparr>ex_res := Response_json (Response_status (ex_res s) (bs_status_code cfg)) (bs_response_body cfg)\<rparr>)"
proof -
  have "BodySizeLimit_decide cfg s = Inr (None, s\<lparr>ex_res :=
      Response_json (Response_status (ex_res s) (bs_status_code cfg)) (bs_response_body cfg)\<rparr>)"
    using assms by (auto simp: BodySizeLimit_decide_def content_length_def set_res_def)
  then show ?thesis by (rule body_size.stop_skips_rest)
qed

lemma content_length_name: "names_equal ''Content-Length'' ''content-length''"
  by code_simp

definition bs_sample :: BodySizeLimit_Config where
  "bs_sample = \<lparr>max_body_bytes = 3, bs_allowlist_paths = [''/up*''], bs_status_code = 413,
     bs_response_body = ''too large''\<rparr>"

theorem body_size_limit_enforced_witness:
  "status_code (ex_res (snd (build_chain [BodySizeLimit_handle bs_sample] (\<lambda>s. (None, s))
      (post_exchange [\<lparr>hname = ''Content-Length'', hvalue = ''5''\<rparr>] ''abc'')))) = 413"
proof -
  let ?s = "post_exchange [\<lparr>hname = ''Content-Length'', hvalue = ''5''\<rparr>] ''abc''"
  have a: "\<not> path_allowed (req_path (ex_req ?s)) (bs_allowlist_paths bs_sample)"
    by (simp add: bs_sample_def ends_with_def starts_with_def)
  have d: "declared_content_length (ex_req ?s) = Some 5"
    by (simp add: declared_content_length_def request_header_def content_length_name
        stoull_def isspace_def isdigit_def dec_value_def digit_val_def)
  have b: "(declared_content_length (ex_req ?s) = None \<and> max_body_bytes bs_sample < length (req_body (ex_req ?s))) \<or>
      (\<exists>n. declared_content_length (ex_req ?s) = Some n \<and> max_body_bytes bs_sample < n)"
    by (simp add: d bs_sample_def)
  from body_size_limit_enforced [OF a b, of "[]" "\<lambda>s. (None, s)"] show ?thesis
    by (simp add: response_defs bs_sample_def)
qed

text \<open>
  the declared length is trusted over the body that arrived: whatever the limit is, a request
  with \<^verbatim>\<open>Content-Length: 0\<close> passes the middleware with a body of any size.
\<close>

theorem body_size_limit_trusts_declared_length:
  "build_chain (BodySizeLimit_handle cfg # mws) h
     (post_exchange [\<lparr>hname = ''Content-Length'', hvalue = ''0''\<rparr>] body) =
   build_chain mws h (post_exchange [\<lparr>hname = ''Content-Length'', hvalue = ''0''\<rparr>] body)"
proof (rule body_size.admitted_runs_rest)
  have d: "declared_content_length (ex_req (post_exchange [\<lparr>hname = ''Content-Length'', hvalue = ''0''\<rparr>] body)) = Some 0"
    by (simp add: declared_content_length_def request_header_def content_length_name
        stoull_def isspace_def isdigit_def dec_value_def digit_val_def)
  show "BodySizeLimit_decide cfg (post_exchange [\<lparr>hname = ''Content-Length'', hvalue = ''0''\<rparr>] body) =
     Inl (post_exchange [\<lparr>hname = ''Content-Length'', hvalue = ''0''\<rparr>] body)"
    by (simp add: BodySizeLimit_decide_def d)
qed

text \<open>
  a CORS preflight (OPTIONS) is answered with 204 without running the rest of the chain, and
  every other request continues with the CORS headers set; when several origins are configured and
  the first is not the wildcard, an allowed request origin is reflected exactly.
\<close>

theorem cors_preflight_and_reflection:
  assumes "allowed_origins cfg \<noteq> []"
  shows "\<exists>v. cors_origin_value cfg (ex_req s) = Inr v \<and>
     (case request_header (ex_req s) ''origin'' of
        Some orig \<Rightarrow> length (allowed_origins cfg) \<noteq> 1 \<and> hd (allowed_origins cfg) \<noteq> ''*'' \<and>
            orig \<in> set (allowed_origins cfg) \<longrightarrow> v = orig
      | None \<Rightarrow> v = cors_join (allowed_origins cfg)) \<and>
     build_chain (Cors_handle cfg # mws) h s =
       (if req_method (ex_req s) = ''OPTIONS''
        then (None, s\<lparr>ex_res := Response_status (Response_header (cors_headers cfg v (ex_res s))
                ''Access-Control-Max-Age'' (to_string_int (max_age_seconds cfg))) 204\<rparr>)
        else build_chain mws h (s\<lparr>ex_res := cors_headers cfg v (ex_res s)\<rparr>))"
proof -
  obtain x xs where ao: "allowed_origins cfg = x # xs" using assms by (cases "allowed_origins cfg") auto
  have found: "find (\<lambda>y. y = orig) ys = Some orig" if "orig \<in> set ys" for orig :: string and ys
    using that by (induction ys) auto
  obtain v where v: "cors_origin_value cfg (ex_req s) = Inr v"
    by (cases "cors_origin_value cfg (ex_req s)")
       (auto simp: cors_origin_value_def ao Let_def split: option.splits if_splits)
  have "case request_header (ex_req s) ''origin'' of
        Some orig \<Rightarrow> length (allowed_origins cfg) \<noteq> 1 \<and> hd (allowed_origins cfg) \<noteq> ''*'' \<and>
            orig \<in> set (allowed_origins cfg) \<longrightarrow> v = orig
      | None \<Rightarrow> v = cors_join (allowed_origins cfg)"
    using v found [of _ "x # xs"]
    by (auto simp: cors_origin_value_def ao Let_def simp del: find.simps split: option.splits if_splits)
  then show ?thesis
    by (intro exI [of _ v] conjI v) (simp_all add: Cors_handle_def v Let_def set_res_def)
qed

definition cors_sample :: Cors_Config where
  "cors_sample = \<lparr>allowed_origins = [''https://a.example'', ''https://b.example''],
     allowed_methods = [''GET''], allowed_headers = [], exposed_headers = [], allow_credentials = True,
     max_age_seconds = 60\<rparr>"

theorem cors_preflight_and_reflection_witness:
  "\<exists>v. cors_origin_value cors_sample (ex_req (post_exchange
        [\<lparr>hname = ''origin'', hvalue = ''https://b.example''\<rparr>] [])) = Inr v \<and> v = ''https://b.example''"
proof -
  let ?s = "post_exchange [\<lparr>hname = ''origin'', hvalue = ''https://b.example''\<rparr>] []"
  have "allowed_origins cors_sample \<noteq> []" by (simp add: cors_sample_def)
  from cors_preflight_and_reflection [OF this, of ?s "[]" "\<lambda>s. (None, s)"]
  show ?thesis by (auto simp: cors_sample_def request_header_def names_equal_def)
qed

text \<open>
  with an empty origin list and a request that carries an \<^verbatim>\<open>Origin\<close> header the handler reads
  the first element of an empty vector, so the C++ behaviour is undefined.
\<close>

theorem cors_empty_origins_undefined:
  "allowed_origins cfg = [] \<Longrightarrow> request_header (ex_req s) ''origin'' = Some org \<Longrightarrow>
   fst (build_chain (Cors_handle cfg # mws) h s) = Some (Undefined_behaviour ''allowed_origins[0]'')"
  by (simp add: Cors_handle_def cors_origin_value_def)

theorem cors_empty_origins_undefined_witness:
  "fst (build_chain [Cors_handle (cors_sample\<lparr>allowed_origins := []\<rparr>)] (\<lambda>s. (None, s))
     (post_exchange [\<lparr>hname = ''origin'', hvalue = ''x''\<rparr>] [])) =
   Some (Undefined_behaviour ''allowed_origins[0]'')"
  by (rule cors_empty_origins_undefined [where org = "''x''"])
     (simp_all add: cors_sample_def request_header_def names_equal_def)

end
