(* ===== verification/Authorization.thy ===== *)
theory Authorization
  imports Request_Pipeline Http_Filters
begin

text \<open>
  Authorization: the policy middleware (\<^verbatim>\<open>src/middleware/authorization_middleware.cpp\<close>) and the
  declarative checks that controllers and service proxies share
  (\<^verbatim>\<open>src/middleware/declarative_authorization.cpp\<close>). Custom policies are application functions; they are
  fields of the policy, and one that throws is an error value.
\<close>

section \<open>The policy middleware\<close>

datatype MatchMode = Any | All

record Policy =
  pol_path :: string
  pol_method :: "string list"
  pol_methods :: "string list"
  require_authenticated :: bool
  required_scopes :: "string list"
  scope_match :: MatchMode
  required_roles :: "string list"
  role_match :: MatchMode
  custom_policies :: "(request \<Rightarrow> request_context \<Rightarrow> bool result) list"

record Authorization_Config =
  policies :: "Policy list"
  roles_claim :: string
  auth_unauthorized_status :: int
  auth_unauthorized_body :: string
  forbidden_status :: int
  forbidden_body :: string

definition path_matches :: "string \<Rightarrow> string \<Rightarrow> bool" where
  "path_matches pattern path =
     (if pattern = ''*'' then True
      else if ends_with pattern ''*'' then starts_with path (butlast pattern)
      else path = pattern)"

definition upper :: "string \<Rightarrow> string" where
  "upper v = map toupper v"

definition method_matches :: "string list \<Rightarrow> string \<Rightarrow> bool" where
  "method_matches methods m = (if methods = [] then True else list_ex (\<lambda>x. upper x = upper m) methods)"

definition policy_matches :: "Policy \<Rightarrow> request \<Rightarrow> bool" where
  "policy_matches p req \<longleftrightarrow>
     path_matches (pol_path p) (req_path req) \<and>
     method_matches (if pol_method p = [] then pol_methods p else pol_method p) (req_method req)"

text \<open>The tokenizer loop that both files use, with their own notion of a separator.\<close>

function split_tokens :: "(char \<Rightarrow> bool) \<Rightarrow> string \<Rightarrow> string list" where
  "split_tokens sep s =
     (if s = [] then []
      else let from_start = dropWhile sep s;
               token = takeWhile (\<lambda>c. \<not> sep c) from_start;
               rest = dropWhile (\<lambda>c. \<not> sep c) from_start
           in (if token \<noteq> [] then [token] else []) @ split_tokens sep rest)"
  by pat_completeness auto
termination
proof (relation "measure (\<lambda>(sep, s). length s)", simp)
  fix sep :: "char \<Rightarrow> bool" and s x xa xb
  assume "s \<noteq> []" and x: "x = dropWhile sep s" and "xb = dropWhile (\<lambda>c. \<not> sep c) x"
  have "length (dropWhile (\<lambda>c. \<not> sep c) (dropWhile sep s)) < length s"
  proof (cases "dropWhile sep s")
    case Nil
    with \<open>s \<noteq> []\<close> show ?thesis by (simp only: Nil dropWhile.simps) simp
  next
    case (Cons c cs)
    then have "\<not> sep c" by (metis hd_dropWhile list.distinct(1) list.sel(1))
    moreover have "length cs < length s"
      using Cons length_dropWhile_le [of sep s] by simp
    ultimately show ?thesis
      using Cons length_dropWhile_le [of "\<lambda>c. \<not> sep c" cs] by simp
  qed
  with x \<open>xb = _\<close> show "((sep, xb), (sep, s)) \<in> measure (\<lambda>(sep, s). length s)" by simp
qed

declare split_tokens.simps [simp del]

definition split_space_separated :: "string \<Rightarrow> string list" where
  "split_space_separated s = split_tokens isspace s"

definition roles_from_claim :: "JwtPrincipal \<Rightarrow> string \<Rightarrow> string list" where
  "roles_from_claim p claim =
     (case string_array_claims (jwt_claims p) claim of
        Some roles \<Rightarrow> roles
      | None \<Rightarrow> (case string_claims (jwt_claims p) claim of
          Some roles \<Rightarrow> split_space_separated roles
        | None \<Rightarrow> []))"

definition contains_value :: "string list \<Rightarrow> string \<Rightarrow> bool" where
  "contains_value values needle = list_ex (\<lambda>v. v = needle) values"

definition satisfies :: "string list \<Rightarrow> string list \<Rightarrow> MatchMode \<Rightarrow> bool" where
  "satisfies actual required mode =
     (if required = [] then True
      else if mode = Any then list_ex (contains_value actual) required
      else list_all (contains_value actual) required)"

definition bearer_challenge :: string where
  "bearer_challenge = ''Bearer error='' @ quoted ''invalid_token''"

definition reject_unauthorized :: "Authorization_Config \<Rightarrow> response \<Rightarrow> response" where
  "reject_unauthorized cfg res =
     Response_json (Response_header (Response_status res (auth_unauthorized_status cfg))
       ''WWW-Authenticate'' bearer_challenge) (auth_unauthorized_body cfg)"

definition reject_forbidden :: "Authorization_Config \<Rightarrow> response \<Rightarrow> response" where
  "reject_forbidden cfg res = Response_json (Response_status res (forbidden_status cfg)) (forbidden_body cfg)"

text \<open>The scan over the policies: the first matching one that needs a principal ends it.\<close>

fun scan_policies :: "request \<Rightarrow> Policy list \<Rightarrow> bool \<Rightarrow> bool \<times> bool" where
  "scan_policies req [] matched = (matched, False)"
| "scan_policies req (p # ps) matched =
     (if \<not> policy_matches p req then scan_policies req ps matched
      else if require_authenticated p then (True, True)
      else scan_policies req ps True)"

fun run_custom :: "request \<Rightarrow> request_context \<Rightarrow> (request \<Rightarrow> request_context \<Rightarrow> bool result) list \<Rightarrow> bool result" where
  "run_custom req ctx [] = Inr True"
| "run_custom req ctx (c # cs) =
     (case c req ctx of
        Inl e \<Rightarrow> Inl e
      | Inr False \<Rightarrow> Inr False
      | Inr True \<Rightarrow> run_custom req ctx cs)"

text \<open>
  The enforcing loop; \<open>None\<close> for the scope and role lists is the null pointer, and dereferencing it
  would be undefined behaviour.
\<close>

fun enforce_policies ::
    "request \<Rightarrow> request_context \<Rightarrow> string list option \<Rightarrow> string list option \<Rightarrow> Policy list \<Rightarrow> bool result" where
  "enforce_policies req ctx scopes roles [] = Inr True"
| "enforce_policies req ctx scopes roles (p # ps) =
     (if \<not> policy_matches p req then enforce_policies req ctx scopes roles ps
      else
        let principal_ok =
          (if require_authenticated p then
             (case scopes of
                None \<Rightarrow> Inl (Undefined_behaviour ''null scopes'')
              | Some sc \<Rightarrow>
                  if \<not> satisfies sc (required_scopes p) (scope_match p) then Inr False
                  else (case roles of
                      None \<Rightarrow> Inl (Undefined_behaviour ''null roles'')
                    | Some ro \<Rightarrow> Inr (satisfies ro (required_roles p) (role_match p))))
           else Inr True)
        in case principal_ok of
             Inl e \<Rightarrow> Inl e
           | Inr False \<Rightarrow> Inr False
           | Inr True \<Rightarrow>
               (case run_custom req ctx (custom_policies p) of
                  Inl e \<Rightarrow> Inl e
                | Inr False \<Rightarrow> Inr False
                | Inr True \<Rightarrow> enforce_policies req ctx scopes roles ps))"

definition principal_scopes :: "request_context \<Rightarrow> string list option" where
  "principal_scopes ctx = (case get_jwt ctx of
       Some j \<Rightarrow> Some (jwt_scopes j)
     | None \<Rightarrow> map_option sp_scopes (get_session ctx))"

definition principal_roles :: "string \<Rightarrow> request_context \<Rightarrow> string list option" where
  "principal_roles claim ctx = (case get_jwt ctx of
       Some j \<Rightarrow> Some (roles_from_claim j claim)
     | None \<Rightarrow> map_option sp_roles (get_session ctx))"

definition Authorization_decide ::
    "Authorization_Config \<Rightarrow> 'z exchange_scheme \<Rightarrow> 'z exchange_scheme + (exn option \<times> 'z exchange_scheme)" where
  "Authorization_decide cfg s =
     (case scan_policies (ex_req s) (policies cfg) False of
        (matched, needs) \<Rightarrow>
          if \<not> matched then Inl s
          else if needs \<and> get_jwt (ex_ctx s) = None \<and> get_session (ex_ctx s) = None
          then Inr (None, set_res s (reject_unauthorized cfg (ex_res s)))
          else case enforce_policies (ex_req s) (ex_ctx s) (principal_scopes (ex_ctx s))
                      (principal_roles (roles_claim cfg) (ex_ctx s)) (policies cfg) of
                 Inl e \<Rightarrow> Inr (Some e, s)
               | Inr False \<Rightarrow> Inr (None, set_res s (reject_forbidden cfg (ex_res s)))
               | Inr True \<Rightarrow> Inl s)"

definition Authorization_handle :: "Authorization_Config \<Rightarrow> 'z exchange_scheme middleware" where
  "Authorization_handle cfg next s =
     (case scan_policies (ex_req s) (policies cfg) False of
        (matched, needs) \<Rightarrow>
          if \<not> matched then next s
          else if needs \<and> get_jwt (ex_ctx s) = None \<and> get_session (ex_ctx s) = None
          then (None, set_res s (reject_unauthorized cfg (ex_res s)))
          else case enforce_policies (ex_req s) (ex_ctx s) (principal_scopes (ex_ctx s))
                      (principal_roles (roles_claim cfg) (ex_ctx s)) (policies cfg) of
                 Inl e \<Rightarrow> (Some e, s)
               | Inr False \<Rightarrow> (None, set_res s (reject_forbidden cfg (ex_res s)))
               | Inr True \<Rightarrow> next s)"

interpretation auth_gate: request_gate "Authorization_handle cfg" "Authorization_decide cfg" for cfg
  by unfold_locales
     (auto simp: Authorization_handle_def Authorization_decide_def split: prod.split sum.split bool.split)

section \<open>Declarative authorization\<close>

datatype AuthorizationMatch = Match_Any | Match_All

datatype DeclarativeAuthorizationDecision = Allowed | Unauthenticated | Forbidden

record DeclarativeAuthorization =
  decl_roles :: string
  decl_scopes :: string
  decl_role_match :: AuthorizationMatch
  decl_scope_match :: AuthorizationMatch

definition split_values :: "string \<Rightarrow> string list" where
  "split_values s = split_tokens (\<lambda>c. isspace c \<or> c = CHR '','') s"

definition decl_satisfies :: "string list \<Rightarrow> string \<Rightarrow> AuthorizationMatch \<Rightarrow> bool" where
  "decl_satisfies actual required m =
     (let values = split_values required
      in if values = [] then True
         else if m = Match_Any then list_ex (contains_value actual) values
         else list_all (contains_value actual) values)"

definition decl_jwt_roles :: "JwtPrincipal \<Rightarrow> string list" where
  "decl_jwt_roles p =
     (case string_array_claims (jwt_claims p) ''roles'' of
        Some roles \<Rightarrow> roles
      | None \<Rightarrow> (case string_claims (jwt_claims p) ''roles'' of
          Some t \<Rightarrow> split_values t
        | None \<Rightarrow> []))"

definition evaluate_declarative :: "request_context \<Rightarrow> DeclarativeAuthorization \<Rightarrow> DeclarativeAuthorizationDecision" where
  "evaluate_declarative ctx r =
     (let verdict = (\<lambda>roles scopes.
            if \<not> decl_satisfies roles (decl_roles r) (decl_role_match r) \<or>
               \<not> decl_satisfies scopes (decl_scopes r) (decl_scope_match r)
            then Forbidden else Allowed)
      in case get_jwt ctx of
           Some j \<Rightarrow> verdict (decl_jwt_roles j) (jwt_scopes j)
         | None \<Rightarrow> (case get_session ctx of
             Some p \<Rightarrow> verdict (sp_roles p) (sp_scopes p)
           | None \<Rightarrow> Unauthenticated))"

definition decl_error_json :: "string \<Rightarrow> string \<Rightarrow> string" where
  "decl_error_json e m = ''{'' @ quoted ''error'' @ '':'' @ quoted e @ '','' @ quoted ''message'' @ '':'' @ quoted m @ ''}''"

definition authorize_declarative ::
    "request_context \<Rightarrow> DeclarativeAuthorization \<Rightarrow> response \<Rightarrow> bool \<times> response" where
  "authorize_declarative ctx r res =
     (case evaluate_declarative ctx r of
        Allowed \<Rightarrow> (True, res)
      | Unauthenticated \<Rightarrow>
          (False, Response_json (Response_header (Response_status res 401) ''WWW-Authenticate'' bearer_challenge)
             (decl_error_json ''Unauthorized'' ''Authentication required''))
      | Forbidden \<Rightarrow>
          (False, Response_json (Response_status res 403)
             (decl_error_json ''Forbidden'' ''Insufficient permissions'')))"

text \<open>\<^verbatim>\<open>AuthorizationProxy::invoke\<close>, on the requirements computed for the method and the active request context.\<close>

definition proxy_invoke ::
    "DeclarativeAuthorization option \<Rightarrow> request_context option \<Rightarrow> ('s \<Rightarrow> ('v result \<times> 's)) \<Rightarrow> 's \<Rightarrow> 'v result \<times> 's" where
  "proxy_invoke requirements current call s =
     (case requirements of
        None \<Rightarrow> call s
      | Some r \<Rightarrow> (case current of
          None \<Rightarrow> (Inl (Std_exception ''AccessDeniedException'' ''Secured service method requires an active request context''), s)
        | Some ctx \<Rightarrow> (case evaluate_declarative ctx r of
            Unauthenticated \<Rightarrow> (Inl (Std_exception ''AccessDeniedException'' ''Secured service method requires authentication''), s)
          | Forbidden \<Rightarrow> (Inl (Std_exception ''AccessDeniedException'' ''Secured service method requires additional roles or scopes''), s)
          | Allowed \<Rightarrow> call s)))"

section \<open>What the policies say\<close>

text \<open>
  The declarative reading: a request is permitted when every policy that matches it is met by the
  principal and by the custom checks.
\<close>

definition has_all :: "string list \<Rightarrow> string list \<Rightarrow> MatchMode \<Rightarrow> bool" where
  "has_all actual required mode \<longleftrightarrow> required = [] \<or>
     (case mode of Any \<Rightarrow> set required \<inter> set actual \<noteq> {} | All \<Rightarrow> set required \<subseteq> set actual)"

definition policy_met :: "Authorization_Config \<Rightarrow> request \<Rightarrow> request_context \<Rightarrow> Policy \<Rightarrow> bool" where
  "policy_met cfg req ctx p \<longleftrightarrow>
     (require_authenticated p \<longrightarrow> (\<exists>sc ro. principal_scopes ctx = Some sc \<and>
        principal_roles (roles_claim cfg) ctx = Some ro \<and>
        has_all sc (required_scopes p) (scope_match p) \<and> has_all ro (required_roles p) (role_match p))) \<and>
     (\<forall>c\<in>set (custom_policies p). c req ctx = Inr True)"

lemma satisfies_iff: "satisfies actual required mode \<longleftrightarrow> has_all actual required mode"
  by (cases mode) (auto simp: satisfies_def has_all_def contains_value_def list_ex_iff list_all_iff)

lemma run_custom_True: "run_custom req ctx cs = Inr True \<longleftrightarrow> (\<forall>c\<in>set cs. c req ctx = Inr True)"
  by (induction cs) (auto split: sum.splits bool.splits)

lemma run_custom_total: "\<forall>c\<in>set cs. \<exists>b. c req ctx = Inr b \<Longrightarrow> \<exists>b. run_custom req ctx cs = Inr b"
  by (induction cs) (auto split: bool.splits)

lemma scan_policies_eq:
  "scan_policies req ps matched =
     (matched \<or> (\<exists>p\<in>set ps. policy_matches p req),
      \<exists>p\<in>set ps. policy_matches p req \<and> require_authenticated p)"
  by (induction ps arbitrary: matched) auto

lemma principal_known:
  "get_jwt ctx \<noteq> None \<or> get_session ctx \<noteq> None \<Longrightarrow>
   \<exists>sc ro. principal_scopes ctx = Some sc \<and> principal_roles claim ctx = Some ro"
  by (cases "get_jwt ctx") (auto simp: principal_scopes_def principal_roles_def)

lemma principal_unknown:
  "get_jwt ctx = None \<Longrightarrow> get_session ctx = None \<Longrightarrow> principal_scopes ctx = None"
  by (simp add: principal_scopes_def)

text \<open>The enforcing loop never dereferences a null pointer once the scan has passed.\<close>

lemma enforce_policies_eq:
  assumes "\<And>p c. p \<in> set ps \<Longrightarrow> c \<in> set (custom_policies p) \<Longrightarrow> \<exists>b. c req ctx = Inr b"
    and "(\<exists>p\<in>set ps. policy_matches p req \<and> require_authenticated p) \<Longrightarrow>
      get_jwt ctx \<noteq> None \<or> get_session ctx \<noteq> None"
  shows "enforce_policies req ctx (principal_scopes ctx) (principal_roles (roles_claim cfg) ctx) ps =
     Inr (\<forall>p\<in>set ps. policy_matches p req \<longrightarrow> policy_met cfg req ctx p)"
  using assms
proof (induction ps)
  case (Cons p ps)
  have IH: "enforce_policies req ctx (principal_scopes ctx) (principal_roles (roles_claim cfg) ctx) ps =
     Inr (\<forall>p\<in>set ps. policy_matches p req \<longrightarrow> policy_met cfg req ctx p)"
    using Cons by auto
  obtain b where b: "run_custom req ctx (custom_policies p) = Inr b"
    using run_custom_total [of "custom_policies p" req ctx] Cons.prems(1) [of p] by auto
  then have b_iff: "b \<longleftrightarrow> (\<forall>c\<in>set (custom_policies p). c req ctx = Inr True)"
    using run_custom_True [of req ctx "custom_policies p"] by auto
  show ?case
  proof (cases "policy_matches p req \<and> require_authenticated p")
    case True
    then obtain sc ro where pr: "principal_scopes ctx = Some sc" "principal_roles (roles_claim cfg) ctx = Some ro"
      using principal_known [of ctx "roles_claim cfg"] Cons.prems(2) by auto
    have "policy_met cfg req ctx p \<longleftrightarrow> satisfies sc (required_scopes p) (scope_match p) \<and>
        satisfies ro (required_roles p) (role_match p) \<and> b"
      using True pr b_iff by (auto simp: policy_met_def satisfies_iff)
    with True IH pr b show ?thesis by (auto simp: Let_def split: bool.split)
  next
    case False
    then have "policy_matches p req \<Longrightarrow> policy_met cfg req ctx p \<longleftrightarrow> b"
      using b_iff by (auto simp: policy_met_def)
    with False IH b show ?thesis by (auto simp: split: bool.split)
  qed
qed simp

section \<open>Properties\<close>

text \<open>
  C17: the policy middleware enforces every matching policy. Provided the custom checks return, the
  rest of the chain runs exactly when each matching policy is met; otherwise the answer is 401 when
  a matching policy needs a principal and there is none, and 403 in every other case, and the chain
  stops. In particular the code never follows a null principal pointer.
\<close>

theorem authorization_enforces_policies:
  assumes "\<And>p c. p \<in> set (policies cfg) \<Longrightarrow> c \<in> set (custom_policies p) \<Longrightarrow> \<exists>b. c (ex_req s) (ex_ctx s) = Inr b"
  shows "build_chain (Authorization_handle cfg # mws) h s =
    (if \<forall>p\<in>set (policies cfg). policy_matches p (ex_req s) \<longrightarrow> policy_met cfg (ex_req s) (ex_ctx s) p
     then build_chain mws h s
     else if (\<exists>p\<in>set (policies cfg). policy_matches p (ex_req s) \<and> require_authenticated p) \<and>
        get_jwt (ex_ctx s) = None \<and> get_session (ex_ctx s) = None
     then (None, s\<lparr>ex_res := reject_unauthorized cfg (ex_res s)\<rparr>)
     else (None, s\<lparr>ex_res := reject_forbidden cfg (ex_res s)\<rparr>))"
proof (cases "(\<exists>p\<in>set (policies cfg). policy_matches p (ex_req s) \<and> require_authenticated p) \<and>
        get_jwt (ex_ctx s) = None \<and> get_session (ex_ctx s) = None")
  case True
  then have "\<not> (\<forall>p\<in>set (policies cfg). policy_matches p (ex_req s) \<longrightarrow> policy_met cfg (ex_req s) (ex_ctx s) p)"
    by (auto simp: policy_met_def principal_unknown)
  moreover have "Authorization_decide cfg s = Inr (None, s\<lparr>ex_res := reject_unauthorized cfg (ex_res s)\<rparr>)"
    using True by (auto simp: Authorization_decide_def scan_policies_eq set_res_def)
  ultimately show ?thesis using True by (auto simp: auth_gate.stop_skips_rest simp del: build_chain_Cons)
next
  case False
  then have e: "enforce_policies (ex_req s) (ex_ctx s) (principal_scopes (ex_ctx s))
      (principal_roles (roles_claim cfg) (ex_ctx s)) (policies cfg) =
      Inr (\<forall>p\<in>set (policies cfg). policy_matches p (ex_req s) \<longrightarrow> policy_met cfg (ex_req s) (ex_ctx s) p)"
    using assms by (intro enforce_policies_eq) auto
  show ?thesis
    using False by (auto simp: Authorization_handle_def scan_policies_eq e set_res_def split: bool.split)
qed

definition admin_policy :: Policy where
  "admin_policy = \<lparr>pol_path = ''/admin'', pol_method = [], pol_methods = [], require_authenticated = True,
     required_scopes = [], scope_match = All, required_roles = [''admin''], role_match = All, custom_policies = []\<rparr>"

definition admin_cfg :: Authorization_Config where
  "admin_cfg = \<lparr>policies = [admin_policy], roles_claim = ''roles'', auth_unauthorized_status = 401,
     auth_unauthorized_body = ''u'', forbidden_status = 403, forbidden_body = ''f''\<rparr>"

theorem authorization_enforces_policies_witness:
  "status_code (ex_res (snd (build_chain [Authorization_handle admin_cfg] (\<lambda>s. (None, s)) (get_exchange ''/admin'')))) = 401"
proof -
  have none: "get_jwt (new_context 1) = None" "get_session (new_context 1) = None"
    by (simp_all add: get_jwt_def get_session_def ctx_get_def new_context_def)
  have c: "\<exists>b. c (ex_req (get_exchange ''/admin'')) (ex_ctx (get_exchange ''/admin'')) = Inr b"
    if "p \<in> set (policies admin_cfg)" "c \<in> set (custom_policies p)" for p c
    using that by (simp add: admin_cfg_def admin_policy_def)
  have m: "policy_matches admin_policy (ex_req (get_exchange ''/admin''))" by code_simp
  have "build_chain [Authorization_handle admin_cfg] (\<lambda>s. (None, s)) (get_exchange ''/admin'') =
    (if \<forall>p\<in>set (policies admin_cfg). policy_matches p (ex_req (get_exchange ''/admin'')) \<longrightarrow>
          policy_met admin_cfg (ex_req (get_exchange ''/admin'')) (ex_ctx (get_exchange ''/admin'')) p
     then build_chain [] (\<lambda>s. (None, s)) (get_exchange ''/admin'')
     else if (\<exists>p\<in>set (policies admin_cfg). policy_matches p (ex_req (get_exchange ''/admin'')) \<and> require_authenticated p) \<and>
        get_jwt (ex_ctx (get_exchange ''/admin'')) = None \<and> get_session (ex_ctx (get_exchange ''/admin'')) = None
     then (None, (get_exchange ''/admin'')\<lparr>ex_res := reject_unauthorized admin_cfg (ex_res (get_exchange ''/admin''))\<rparr>)
     else (None, (get_exchange ''/admin'')\<lparr>ex_res := reject_forbidden admin_cfg (ex_res (get_exchange ''/admin''))\<rparr>))"
    by (rule authorization_enforces_policies) (rule c)
  with m none show ?thesis
    by (simp add: admin_cfg_def admin_policy_def policy_met_def principal_unknown get_exchange_def
        reject_unauthorized_def response_defs)
qed

text \<open>
  a policy on an exact path does not see the request target without its query. When all policies
  name the exact path \<open>p\<close>, a request for \<open>p\<close> followed by a query passes the middleware unchecked,
  while the router finds the very route of \<open>p\<close> for it, with the same parameters.
\<close>

theorem authorization_exact_path_misses_query:
  assumes "\<forall>pol\<in>set (policies cfg). pol_path pol = p" and "p \<noteq> []" and "last p \<noteq> CHR ''*''"
    and "CHR ''?'' \<notin> set p" and "req_path (ex_req s) = p @ CHR ''?'' # q"
  shows "build_chain (Authorization_handle cfg # mws) h s = build_chain mws h s \<and>
    match_string r m (req_path (ex_req s)) = match_string r m p"
proof
  have ends: "\<not> ends_with p ''*''"
    using assms(2,3) by (cases p rule: rev_cases) (auto simp: ends_with_def)
  have star: "p \<noteq> ''*''" using assms(3) by auto
  have "\<not> policy_matches pol (ex_req s)" if "pol \<in> set (policies cfg)" for pol
    using that assms(1,5) ends star by (simp add: policy_matches_def path_matches_def)
  then show "build_chain (Authorization_handle cfg # mws) h s = build_chain mws h s"
    by (simp add: Authorization_handle_def scan_policies_eq)
  have "strip_query (p @ CHR ''?'' # q) = p" "strip_query p = p"
    using assms(4) by (simp_all add: strip_query_def find_ch_append find_ch_None [THEN iffD2] substr_upto_def)
  then show "match_string r m (req_path (ex_req s)) = match_string r m p"
    by (simp add: assms(5) match_string_def match_route_def)
qed

theorem authorization_exact_path_misses_query_witness:
  "build_chain [Authorization_handle admin_cfg] (\<lambda>s. (None, s)) (get_exchange ''/admin?x'') = (None, get_exchange ''/admin?x'')"
proof -
  have "\<forall>pol\<in>set (policies admin_cfg). pol_path pol = ''/admin''" by (simp add: admin_cfg_def admin_policy_def)
  moreover have "req_path (ex_req (get_exchange ''/admin?x'')) = ''/admin'' @ CHR ''?'' # ''x''"
    by (simp add: get_exchange_def)
  ultimately show ?thesis
    using authorization_exact_path_misses_query [of admin_cfg "''/admin''" "get_exchange ''/admin?x''" "''x''" "[]"
      "\<lambda>s. (None, s)", THEN conjunct1] by simp
qed

definition csv_principal :: JwtPrincipal where
  "csv_principal = \<lparr>jwt_subject = ''u'', jwt_issuer = [], jwt_audience = [], jwt_scopes = [], jwt_token_id = [],
     jwt_expires_at = None, jwt_not_before = None, jwt_issued_at = None,
     jwt_claims = \<lparr>string_claims = [''roles'' \<mapsto> ''user,admin''], integer_claims = Map.empty, bool_claims = Map.empty,
       string_array_claims = Map.empty\<rparr>\<rparr>"

definition csv_exchange :: exchange where
  "csv_exchange = (get_exchange ''/admin'')\<lparr>ex_ctx := ctx_set (new_context 1) (Jwt csv_principal)\<rparr>"

text \<open>
  the two readers of a textual roles claim disagree: for a token whose claim is the comma
  separated list of \<open>a\<close> and \<open>b\<close>, the declarative check finds both roles while the
  policy middleware sees the single role spelled with the comma and answers 403 to a policy that requires \<open>b\<close>.
\<close>

theorem roles_claim_readers_disagree:
  "evaluate_declarative (ex_ctx csv_exchange) \<lparr>decl_roles = ''admin'', decl_scopes = [], decl_role_match = Match_All,
      decl_scope_match = Match_All\<rparr> = Allowed \<and>
   build_chain (Authorization_handle admin_cfg # mws) h csv_exchange =
      (None, csv_exchange\<lparr>ex_res := reject_forbidden admin_cfg (ex_res csv_exchange)\<rparr>)"
proof
  have jwt: "get_jwt (ex_ctx csv_exchange) = Some csv_principal"
    by (simp add: csv_exchange_def get_jwt_def ctx_get_def ctx_set_def)
  have v: "split_values ''user,admin'' = [''user'', ''admin'']" "split_values ''admin'' = [''admin'']"
    "split_values [] = []" by code_simp+
  show "evaluate_declarative (ex_ctx csv_exchange) \<lparr>decl_roles = ''admin'', decl_scopes = [], decl_role_match = Match_All,
      decl_scope_match = Match_All\<rparr> = Allowed"
    by (simp add: evaluate_declarative_def jwt decl_satisfies_def decl_jwt_roles_def csv_principal_def v
        contains_value_def)
  have w: "split_space_separated ''user,admin'' = [''user,admin'']" by code_simp
  have m: "policy_matches admin_policy (ex_req csv_exchange)" by code_simp
  have "\<not> policy_met admin_cfg (ex_req csv_exchange) (ex_ctx csv_exchange) admin_policy"
    by (simp add: policy_met_def principal_scopes_def principal_roles_def jwt roles_from_claim_def csv_principal_def
        w has_all_def admin_policy_def admin_cfg_def)
  moreover have "enforce_policies (ex_req csv_exchange) (ex_ctx csv_exchange) (principal_scopes (ex_ctx csv_exchange))
      (principal_roles (roles_claim admin_cfg) (ex_ctx csv_exchange)) (policies admin_cfg) =
      Inr (\<forall>p\<in>set (policies admin_cfg). policy_matches p (ex_req csv_exchange) \<longrightarrow>
        policy_met admin_cfg (ex_req csv_exchange) (ex_ctx csv_exchange) p)"
    by (rule enforce_policies_eq) (auto simp: jwt admin_cfg_def admin_policy_def)
  ultimately show "build_chain (Authorization_handle admin_cfg # mws) h csv_exchange =
      (None, csv_exchange\<lparr>ex_res := reject_forbidden admin_cfg (ex_res csv_exchange)\<rparr>)"
    using m by (simp add: Authorization_handle_def scan_policies_eq jwt set_res_def admin_cfg_def)
qed

definition decl_has :: "string list \<Rightarrow> string \<Rightarrow> AuthorizationMatch \<Rightarrow> bool" where
  "decl_has actual required m \<longleftrightarrow> split_values required = [] \<or>
     (case m of Match_Any \<Rightarrow> set (split_values required) \<inter> set actual \<noteq> {}
      | Match_All \<Rightarrow> set (split_values required) \<subseteq> set actual)"

definition decl_met :: "request_context \<Rightarrow> DeclarativeAuthorization \<Rightarrow> bool" where
  "decl_met ctx r \<longleftrightarrow>
     (\<exists>roles scopes. (roles, scopes) \<in>
        (case get_jwt ctx of Some j \<Rightarrow> {(decl_jwt_roles j, jwt_scopes j)}
         | None \<Rightarrow> (case get_session ctx of Some p \<Rightarrow> {(sp_roles p, sp_scopes p)} | None \<Rightarrow> {})) \<and>
        decl_has roles (decl_roles r) (decl_role_match r) \<and> decl_has scopes (decl_scopes r) (decl_scope_match r))"

lemma decl_satisfies_iff: "decl_satisfies actual required m \<longleftrightarrow> decl_has actual required m"
  by (cases m) (auto simp: decl_satisfies_def decl_has_def contains_value_def list_ex_iff list_all_iff Let_def)

lemma evaluate_declarative_iff:
  "evaluate_declarative ctx r =
     (if decl_met ctx r then Allowed
      else if get_jwt ctx = None \<and> get_session ctx = None then Unauthenticated else Forbidden)"
  by (auto simp: evaluate_declarative_def decl_met_def decl_satisfies_iff Let_def split: option.split)

text \<open>
  the declarative check is the stated requirement, and its users agree on it: a controller
  handler may run, and a proxied service method is called, exactly when there is a principal that
  has all (or any) of the listed roles and scopes; a refused call leaves the service untouched and
  a refused request gets a 401 without and a 403 with a principal.
\<close>

theorem declarative_authorization_consistent:
  "(fst (authorize_declarative ctx r res) \<longleftrightarrow> decl_met ctx r) \<and>
   (if decl_met ctx r then snd (authorize_declarative ctx r res) = res
    else status_code (snd (authorize_declarative ctx r res)) =
      (if get_jwt ctx = None \<and> get_session ctx = None then 401 else 403)) \<and>
   (if decl_met ctx r then proxy_invoke (Some r) (Some ctx) call st = call st
    else \<exists>msg. proxy_invoke (Some r) (Some ctx) call st = (Inl (Std_exception ''AccessDeniedException'' msg), st))"
  by (auto simp: authorize_declarative_def proxy_invoke_def evaluate_declarative_iff response_defs)

end
