(* ===== verification/Cancel_Token.thy ===== *)
theory Cancel_Token
  imports Nova_Prelude "HOL-Library.Multiset"
begin

text \<open>
  Cooperative cancellation (\<^verbatim>\<open>async/cancellation.h\<close>). Any number of calls of \<^verbatim>\<open>on_cancel\<close>, \<^verbatim>\<open>cancel\<close> and
  \<^verbatim>\<open>reset\<close> are in flight at once, on several threads or nested in callbacks, and interleave at the accesses to the
  flag, at the critical sections and at the invocations of callbacks. A callback is identified by the number of the
  \<^verbatim>\<open>on_cancel\<close> call that brought it; \<open>ran_log\<close> and \<open>dropped\<close> log what became of it. Accesses are sequentially
  consistent; the counter of callback ids does not reach the end of \<^verbatim>\<open>size_t\<close>.
\<close>

section \<open>State and calls\<close>

text \<open>The shared \<^verbatim>\<open>CancellationToken::State\<close>; \<open>callbacks\<close> pairs ids with callbacks.\<close>

record cancel_state =
  cancelled_flag :: bool
  mutex_held :: bool
  callbacks :: "(nat \<times> nat) list"
  next_callback_id :: nat

definition new_cancel_state :: cancel_state where
  "new_cancel_state = \<lparr>cancelled_flag = False, mutex_held = False, callbacks = [], next_callback_id = 1\<rparr>"

text \<open>A token without state is never cancelled.\<close>

definition CancellationToken_cancelled :: "cancel_state option \<Rightarrow> bool" where
  "CancellationToken_cancelled tok = (case tok of None \<Rightarrow> False | Some st \<Rightarrow> cancelled_flag st)"

text \<open>
  Where a call stands: entered, inside the critical section having read the flag as false, about to invoke its callback
  outside of it, returned with a registration id; past the exchange of the flag, or calling the callbacks it took.
\<close>

datatype call =
    On_cancel nat
  | Emplace nat
  | Invoke_now nat
  | Cancel
  | Take_callbacks
  | Calling "nat list"
  | Returned nat

text \<open>One step of a call: the call and the state after it, and the callbacks it ran.\<close>

definition on_cancel_check :: "nat \<Rightarrow> cancel_state \<Rightarrow> call \<times> cancel_state" where
  "on_cancel_check k st = (if cancelled_flag st then (Invoke_now k, st) else (Emplace k, st\<lparr>mutex_held := True\<rparr>))"

definition on_cancel_emplace :: "nat \<Rightarrow> cancel_state \<Rightarrow> call \<times> cancel_state" where
  "on_cancel_emplace k st =
     (Returned (next_callback_id st),
      st\<lparr>callbacks := (next_callback_id st, k) # callbacks st, next_callback_id := next_callback_id st + 1, mutex_held := False\<rparr>)"

definition cancel_exchange :: "cancel_state \<Rightarrow> call \<times> cancel_state" where
  "cancel_exchange st = (if cancelled_flag st then (Returned 0, st) else (Take_callbacks, st\<lparr>cancelled_flag := True\<rparr>))"

text \<open>Swapping the table out; its iteration order is the order \<open>ks\<close> of the callbacks in it.\<close>

definition cancel_swap :: "nat list \<Rightarrow> cancel_state \<Rightarrow> call \<times> cancel_state" where
  "cancel_swap ks st = (Calling ks, st\<lparr>callbacks := []\<rparr>)"

fun cancel_call :: "nat list \<Rightarrow> call \<times> nat list" where
  "cancel_call [] = (Returned 0, [])"
| "cancel_call (k # ks) = (Calling ks, [k])"

section \<open>Registrations\<close>

text \<open>A registration holds a weak reference, alive or not, and an id.\<close>

record CancellationRegistration =
  reg_state :: bool
  reg_id :: nat

definition empty_registration :: CancellationRegistration where
  "empty_registration = \<lparr>reg_state = False, reg_id = 0\<rparr>"

text \<open>\<^verbatim>\<open>on_cancel\<close> on an empty token or with an empty callback returns at once; otherwise the id it ends with is wrapped.\<close>

definition on_cancel_result :: "bool \<Rightarrow> bool \<Rightarrow> nat \<Rightarrow> CancellationRegistration" where
  "on_cancel_result callback_set state_set i =
     (if \<not> callback_set then empty_registration
      else if \<not> state_set then empty_registration
      else \<lparr>reg_state = True, reg_id = i\<rparr>)"

definition erase_callback :: "nat \<Rightarrow> cancel_state \<Rightarrow> cancel_state" where
  "erase_callback i st = st\<lparr>callbacks := filter (\<lambda>(j, k). j \<noteq> i) (callbacks st)\<rparr>"

definition Registration_reset :: "CancellationRegistration \<Rightarrow> cancel_state \<Rightarrow> CancellationRegistration \<times> cancel_state" where
  "Registration_reset r st =
     (if \<not> reg_state r \<or> reg_id r = 0 then (r, st) else (r\<lparr>reg_id := 0\<rparr>, erase_callback (reg_id r) st))"

text \<open>Moving out of a registration: the result and what is left of the source.\<close>

definition Registration_move :: "CancellationRegistration \<Rightarrow> CancellationRegistration \<times> CancellationRegistration" where
  "Registration_move other = (other, other\<lparr>reg_state := False, reg_id := 0\<rparr>)"

definition Registration_move_assign ::
    "bool \<Rightarrow> CancellationRegistration \<Rightarrow> CancellationRegistration \<Rightarrow> cancel_state \<Rightarrow>
     CancellationRegistration \<times> CancellationRegistration \<times> cancel_state" where
  "Registration_move_assign same_object this other st =
     (if same_object then (this, other, st)
      else case Registration_reset this st of (_, st') \<Rightarrow> (case Registration_move other of (r, left) \<Rightarrow> (r, left, st')))"

section \<open>Interleavings\<close>

record system =
  shared :: cancel_state
  calls :: "call list"
  issued :: nat
  ran_log :: "nat list"
  dropped :: "nat list"

definition initial_system :: system where
  "initial_system = \<lparr>shared = new_cancel_state, calls = [], issued = 0, ran_log = [], dropped = []\<rparr>"

abbreviation moved :: "system \<Rightarrow> nat \<Rightarrow> call \<times> cancel_state \<Rightarrow> system" where
  "moved s i r \<equiv> s\<lparr>calls := (calls s)[i := fst r], shared := snd r\<rparr>"

text \<open>
  A call starts at any time. The flag is exchanged without the mutex; \<^verbatim>\<open>on_cancel\<close> reads it holding the mutex and
  keeps it held until the callback is in the table. Resetting erases under the mutex, for any id handed out.
\<close>

inductive cstep :: "system \<Rightarrow> system \<Rightarrow> bool" where
  start_on_cancel: "cstep s (s\<lparr>calls := calls s @ [On_cancel (issued s)], issued := issued s + 1\<rparr>)"
| start_cancel: "cstep s (s\<lparr>calls := calls s @ [Cancel]\<rparr>)"
| check: "i < length (calls s) \<Longrightarrow> calls s ! i = On_cancel k \<Longrightarrow> \<not> mutex_held (shared s) \<Longrightarrow>
    cstep s (moved s i (on_cancel_check k (shared s)))"
| emplace: "i < length (calls s) \<Longrightarrow> calls s ! i = Emplace k \<Longrightarrow> cstep s (moved s i (on_cancel_emplace k (shared s)))"
| invoke: "i < length (calls s) \<Longrightarrow> calls s ! i = Invoke_now k \<Longrightarrow>
    cstep s (s\<lparr>calls := (calls s)[i := Returned 0], ran_log := ran_log s @ [k]\<rparr>)"
| exchange: "i < length (calls s) \<Longrightarrow> calls s ! i = Cancel \<Longrightarrow> cstep s (moved s i (cancel_exchange (shared s)))"
| swap: "i < length (calls s) \<Longrightarrow> calls s ! i = Take_callbacks \<Longrightarrow> \<not> mutex_held (shared s) \<Longrightarrow>
    mset ks = mset (map snd (callbacks (shared s))) \<Longrightarrow> cstep s (moved s i (cancel_swap ks (shared s)))"
| call: "i < length (calls s) \<Longrightarrow> calls s ! i = Calling ks \<Longrightarrow>
    cstep s (s\<lparr>calls := (calls s)[i := fst (cancel_call ks)], ran_log := ran_log s @ snd (cancel_call ks)\<rparr>)"
| reset: "\<not> mutex_held (shared s) \<Longrightarrow>
    cstep s (s\<lparr>shared := snd (Registration_reset r (shared s)),
               dropped := dropped s @ map snd (filter (\<lambda>p. p \<notin> set (callbacks (snd (Registration_reset r (shared s))))) (callbacks (shared s)))\<rparr>)"

inductive reachable :: "system \<Rightarrow> bool" where
  start: "reachable initial_system"
| step: "reachable s \<Longrightarrow> cstep s s' \<Longrightarrow> reachable s'"

section \<open>Every callback is in one place\<close>

text \<open>The callbacks a call in flight still has to dispose of.\<close>

fun held_by :: "call \<Rightarrow> nat list" where
  "held_by (On_cancel k) = [k]"
| "held_by (Emplace k) = [k]"
| "held_by (Invoke_now k) = [k]"
| "held_by (Calling ks) = ks"
| "held_by _ = []"

definition in_flight :: "call list \<Rightarrow> nat multiset" where
  "in_flight cs = mset (concat (map held_by cs))"

definition callback_ledger :: "system \<Rightarrow> nat multiset" where
  "callback_ledger s = in_flight (calls s) + mset (map snd (callbacks (shared s))) + mset (ran_log s) + mset (dropped s)"

lemma in_flight_append [simp]: "in_flight (cs @ [c]) = in_flight cs + mset (held_by c)"
  by (simp add: in_flight_def)

lemma in_flight_update:
  "i < length cs \<Longrightarrow> in_flight (cs[i := c]) + mset (held_by (cs ! i)) = in_flight cs + mset (held_by c)"
proof (induction cs arbitrary: i)
  case (Cons d cs)
  then show ?case by (cases i) (auto simp: in_flight_def ac_simps)
qed simp

lemma in_flight_move:
  assumes "i < length cs" "mset (held_by c) + A = mset (held_by (cs ! i)) + B"
  shows "in_flight (cs[i := c]) + A = in_flight cs + B"
proof -
  have "in_flight (cs[i := c]) + A + mset (held_by (cs ! i)) = in_flight cs + (mset (held_by c) + A)"
    using in_flight_update [OF assms(1), of c] by (simp add: ac_simps)
  also have "\<dots> = in_flight cs + B + mset (held_by (cs ! i))"
    using assms(2) by (simp add: ac_simps)
  finally show ?thesis by simp
qed

definition emplacing :: "call \<Rightarrow> bool" where
  "emplacing c \<longleftrightarrow> (\<exists>k. c = Emplace k)"

lemma filter_update_length:
  "i < length cs \<Longrightarrow>
   length (filter P (cs[i := c])) + (if P (cs ! i) then 1 else 0) = length (filter P cs) + (if P c then 1 else 0)"
proof (induction cs arbitrary: i)
  case (Cons d cs)
  then show ?case by (cases i) auto
qed simp

lemma emplacing_simps [simp]:
  "emplacing (Emplace k)" "\<not> emplacing (On_cancel k)" "\<not> emplacing (Invoke_now k)" "\<not> emplacing Cancel"
  "\<not> emplacing Take_callbacks" "\<not> emplacing (Calling ks)" "\<not> emplacing (Returned i)"
  by (simp_all add: emplacing_def)

lemma Take_callbacks_update:
  "i < length cs \<Longrightarrow> cs ! i \<noteq> Take_callbacks \<Longrightarrow> Take_callbacks \<in> set cs \<Longrightarrow> Take_callbacks \<in> set (cs[i := c])"
  by (metis in_set_conv_nth length_list_update nth_list_update_neq)

lemma Take_callbacks_update_iff:
  "i < length cs \<Longrightarrow> cs ! i \<noteq> Take_callbacks \<Longrightarrow> c \<noteq> Take_callbacks \<Longrightarrow>
   Take_callbacks \<in> set (cs[i := c]) \<longleftrightarrow> Take_callbacks \<in> set cs"
  by (metis Take_callbacks_update in_set_conv_nth length_list_update nth_list_update)

lemma mset_partition_by:
  "mset (map f (filter P xs)) + mset (map f (filter (\<lambda>x. \<not> P x) xs)) = mset (map f xs)"
  by (induction xs) auto

lemma ledger_erase:
  "mset (map snd (filter (\<lambda>(j, k). j \<noteq> i) cbs)) +
   mset (map snd (filter (\<lambda>p. p \<notin> set (filter (\<lambda>(j, k). j \<noteq> i) cbs)) cbs)) = mset (map snd cbs)"
proof -
  have "filter (\<lambda>p. p \<notin> set (filter (\<lambda>(j, k). j \<noteq> i) cbs)) cbs = filter (\<lambda>p. \<not> (case p of (j, k) \<Rightarrow> j \<noteq> i)) cbs"
    by (rule filter_cong) auto
  then show ?thesis
    using mset_partition_by [of snd "\<lambda>(j, k). j \<noteq> i" cbs] by simp
qed

lemma ledger_reset:
  "mset (map snd (callbacks (snd (Registration_reset r st)))) +
   mset (map snd (filter (\<lambda>p. p \<notin> set (callbacks (snd (Registration_reset r st)))) (callbacks st))) = mset (map snd (callbacks st))"
proof (cases "reg_state r \<and> reg_id r \<noteq> 0")
  case True
  then show ?thesis
    using ledger_erase [of "reg_id r" "callbacks st"] by (simp add: Registration_reset_def erase_callback_def del: set_filter filter_set)
next
  case False
  then have "Registration_reset r st = (r, st)" by (simp add: Registration_reset_def)
  moreover have "filter (\<lambda>p. p \<notin> set (callbacks st)) (callbacks st) = []" by simp
  ultimately show ?thesis by (simp only: snd_conv) simp
qed

lemma ledger_cstep: "cstep s s' \<Longrightarrow> callback_ledger s = mset [0..<issued s] \<Longrightarrow> callback_ledger s' = mset [0..<issued s']"
proof (induction rule: cstep.cases)
  case (start_on_cancel t)
  then show ?case by (simp add: callback_ledger_def ac_simps)
next
  case (check i t k)
  then show ?case
    using in_flight_move [of i "calls t" "fst (on_cancel_check k (shared t))" "{#}" "{#}"]
    by (simp add: callback_ledger_def on_cancel_check_def split: if_splits)
next
  case (emplace i t k)
  then show ?case
    using in_flight_move [of i "calls t" "fst (on_cancel_emplace k (shared t))" "{#k#}" "{#}", symmetric]
    by (simp add: callback_ledger_def on_cancel_emplace_def ac_simps)
next
  case (invoke i t k)
  then show ?case
    using in_flight_move [of i "calls t" "Returned 0" "{#k#}" "{#}", symmetric] by (simp add: callback_ledger_def ac_simps)
next
  case (exchange i t)
  then show ?case
    using in_flight_move [of i "calls t" "fst (cancel_exchange (shared t))" "{#}" "{#}"]
    by (simp add: callback_ledger_def cancel_exchange_def split: if_splits)
next
  case (swap i t ks)
  then show ?case
    using in_flight_move [of i "calls t" "Calling ks" "{#}" "mset ks"] by (simp add: callback_ledger_def cancel_swap_def ac_simps)
next
  case (call i t ks)
  then show ?case
    using in_flight_move [of i "calls t" "fst (cancel_call ks)" "mset (snd (cancel_call ks))" "{#}", symmetric]
    by (cases ks) (simp_all add: callback_ledger_def ac_simps)
next
  case (reset t r)
  then show ?case
    using ledger_reset [of r "shared t"] by (simp add: callback_ledger_def ac_simps flip: mset_map mset_filter)
qed (simp add: callback_ledger_def)

definition ids_ok :: "cancel_state \<Rightarrow> bool" where
  "ids_ok st \<longleftrightarrow> distinct (map fst (callbacks st)) \<and> (\<forall>(j, k)\<in>set (callbacks st). 0 < j \<and> j < next_callback_id st) \<and>
     0 < next_callback_id st"

lemma ids_ok_erase: "ids_ok st \<Longrightarrow> ids_ok (snd (Registration_reset r st))"
  by (auto simp: ids_ok_def Registration_reset_def erase_callback_def distinct_map_filter)

lemma ids_ok_cstep: "cstep s s' \<Longrightarrow> ids_ok (shared s) \<Longrightarrow> ids_ok (shared s')"
proof (induction rule: cstep.cases)
  case (emplace i t k)
  then show ?case by (fastforce simp: ids_ok_def on_cancel_emplace_def)
next
  case (reset t r)
  then show ?case by (simp add: ids_ok_erase)
qed (auto simp: ids_ok_def on_cancel_check_def cancel_exchange_def cancel_swap_def)

definition mutex_ok :: "system \<Rightarrow> bool" where
  "mutex_ok s \<longleftrightarrow> length (filter emplacing (calls s)) = (if mutex_held (shared s) then 1 else 0)"

lemma mutex_reset [simp]: "mutex_held (snd (Registration_reset r st)) = mutex_held st"
  "cancelled_flag (snd (Registration_reset r st)) = cancelled_flag st"
  by (simp_all add: Registration_reset_def erase_callback_def)

lemma mutex_ok_cstep: "cstep s s' \<Longrightarrow> mutex_ok s \<Longrightarrow> mutex_ok s'"
proof (induction rule: cstep.cases)
  case (check i t k)
  then show ?case
    using filter_update_length [of i "calls t" emplacing "fst (on_cancel_check k (shared t))"]
    by (auto simp: mutex_ok_def on_cancel_check_def split: if_splits)
next
  case (emplace i t k)
  then show ?case
    using filter_update_length [of i "calls t" emplacing "fst (on_cancel_emplace k (shared t))"]
    by (auto simp: mutex_ok_def on_cancel_emplace_def split: if_splits)
next
  case (invoke i t k)
  then show ?case
    using filter_update_length [of i "calls t" emplacing "Returned 0"] by (simp add: mutex_ok_def)
next
  case (exchange i t)
  then show ?case
    using filter_update_length [of i "calls t" emplacing "fst (cancel_exchange (shared t))"]
    by (simp add: mutex_ok_def cancel_exchange_def split: if_splits)
next
  case (swap i t ks)
  then show ?case
    using filter_update_length [of i "calls t" emplacing "Calling ks"] by (simp add: mutex_ok_def cancel_swap_def)
next
  case (call i t ks)
  then show ?case
    using filter_update_length [of i "calls t" emplacing "fst (cancel_call ks)"] by (cases ks) (simp_all add: mutex_ok_def)
qed (simp_all add: mutex_ok_def)

definition table_ok :: "system \<Rightarrow> bool" where
  "table_ok s \<longleftrightarrow>
     (cancelled_flag (shared s) \<longrightarrow> Take_callbacks \<notin> set (calls s) \<longrightarrow> callbacks (shared s) = [] \<and> \<not> mutex_held (shared s)) \<and>
     (\<not> cancelled_flag (shared s) \<longrightarrow> Take_callbacks \<notin> set (calls s))"

lemma table_ok_cstep: "cstep s s' \<Longrightarrow> mutex_ok s \<Longrightarrow> table_ok s \<Longrightarrow> table_ok s'"
proof (induction rule: cstep.cases)
  case (check i t k)
  then show ?case by (auto simp: table_ok_def on_cancel_check_def Take_callbacks_update_iff split: if_splits)
next
  case (emplace i t k)
  then have "mutex_held (shared t)"
    by (auto simp: mutex_ok_def filter_empty_conv emplacing_def in_set_conv_nth split: if_splits)
  with emplace show ?case
    by (auto simp: table_ok_def on_cancel_emplace_def Take_callbacks_update_iff)
next
  case (exchange i t)
  then show ?case
    by (auto simp: table_ok_def cancel_exchange_def Take_callbacks_update_iff set_update_memI)
next
  case (swap i t ks)
  then show ?case
    by (auto simp: table_ok_def cancel_swap_def in_set_conv_nth nth_list_update split: if_splits)
next
  case (call i t ks)
  then show ?case by (cases ks) (auto simp: table_ok_def Take_callbacks_update_iff)
next
  case (reset t r)
  then show ?case by (auto simp: table_ok_def Registration_reset_def erase_callback_def)
qed (auto simp: table_ok_def Take_callbacks_update_iff)

text \<open>Before the flag is set nothing runs and nothing is on its way to run.\<close>

fun delivering :: "call \<Rightarrow> bool" where
  "delivering (Invoke_now k) = True"
| "delivering (Calling ks) = True"
| "delivering _ = False"

definition early_ok :: "system \<Rightarrow> bool" where
  "early_ok s \<longleftrightarrow> cancelled_flag (shared s) \<or>
     ran_log s = [] \<and> (\<forall>c\<in>set (calls s). \<not> delivering c)"

lemma delivering_update: "c \<in> set (cs[i := d]) \<Longrightarrow> delivering c \<Longrightarrow> \<not> delivering d \<Longrightarrow> \<exists>c\<in>set cs. delivering c"
  using set_update_subset_insert [of cs i d] by blast

lemma early_ok_cstep: "cstep s s' \<Longrightarrow> table_ok s \<Longrightarrow> early_ok s \<Longrightarrow> early_ok s'"
proof (induction rule: cstep.cases)
  case (swap i t ks)
  then have "cancelled_flag (shared t)" unfolding table_ok_def using nth_mem [of i "calls t"] by auto
  with swap show ?case by (simp add: early_ok_def cancel_swap_def)
next
  case (invoke i t k)
  then have "cancelled_flag (shared t)" unfolding early_ok_def using nth_mem [of i "calls t"] by fastforce
  with invoke show ?case by (simp add: early_ok_def)
next
  case (call i t ks)
  then have "cancelled_flag (shared t)" unfolding early_ok_def using nth_mem [of i "calls t"] by fastforce
  with call show ?case by (simp add: early_ok_def)
qed (auto simp: early_ok_def on_cancel_check_def on_cancel_emplace_def cancel_exchange_def dest!: delivering_update split: if_splits)

text \<open>The invariant of all reachable states.\<close>

definition cancel_inv :: "system \<Rightarrow> bool" where
  "cancel_inv s \<longleftrightarrow> callback_ledger s = mset [0..<issued s] \<and> ids_ok (shared s) \<and> mutex_ok s \<and> table_ok s \<and> early_ok s"

lemma cancel_inv_initial: "cancel_inv initial_system"
  by (simp add: cancel_inv_def initial_system_def new_cancel_state_def callback_ledger_def in_flight_def ids_ok_def mutex_ok_def
      table_ok_def early_ok_def)

lemma cancel_inv_cstep: "cancel_inv s \<Longrightarrow> cstep s s' \<Longrightarrow> cancel_inv s'"
  unfolding cancel_inv_def
  using ledger_cstep ids_ok_cstep mutex_ok_cstep table_ok_cstep early_ok_cstep by blast

lemma reachable_inv: "reachable s \<Longrightarrow> cancel_inv s"
  by (induction rule: reachable.induct) (auto intro: cancel_inv_initial cancel_inv_cstep)

section \<open>Calls finish\<close>

definition quiescent :: "system \<Rightarrow> bool" where
  "quiescent s \<longleftrightarrow> list_all (\<lambda>c. \<exists>i. c = Returned i) (calls s)"

fun remaining_steps :: "call \<Rightarrow> nat" where
  "remaining_steps (On_cancel k) = 4"
| "remaining_steps (Emplace k) = 3"
| "remaining_steps (Invoke_now k) = 1"
| "remaining_steps Cancel = 3"
| "remaining_steps Take_callbacks = 2"
| "remaining_steps (Calling ks) = length ks + 1"
| "remaining_steps (Returned i) = 0"

definition work :: "system \<Rightarrow> nat" where
  "work s = sum_list (map remaining_steps (calls s)) + length (callbacks (shared s))"

lemma sum_list_update_less:
  fixes f :: "'a \<Rightarrow> nat"
  shows "i < length cs \<Longrightarrow> f c + m < f (cs ! i) + n \<Longrightarrow> sum_list (map f (cs[i := c])) + m < sum_list (map f cs) + n"
proof (induction cs arbitrary: i)
  case (Cons d cs)
  then show ?case by (cases i) auto
qed simp

lemma moved_work:
  assumes "i < length (calls s)"
    "remaining_steps c + length (callbacks st) < remaining_steps (calls s ! i) + length (callbacks (shared s))"
  shows "work (s\<lparr>calls := (calls s)[i := c], shared := st, ran_log := r\<rparr>) < work s"
  using sum_list_update_less [OF assms(1), of remaining_steps c "length (callbacks st)" "length (callbacks (shared s))"] assms(2)
  by (simp add: work_def)

text \<open>
  Whatever is in flight, some call can take its next step, and each such step uses up work: the mutex is never waited for
  in vain, and since callbacks run outside of it they may call back into the token.
\<close>

lemma call_progress:
  assumes "cancel_inv s" "\<not> quiescent s"
  shows "\<exists>s'. cstep s s' \<and> work s' < work s \<and> issued s' = issued s \<and> cancelled_flag (shared s) \<le> cancelled_flag (shared s')"
proof (cases "mutex_held (shared s)")
  case True
  with assms(1) have "filter emplacing (calls s) \<noteq> []" by (auto simp: cancel_inv_def mutex_ok_def)
  then obtain i k where i: "i < length (calls s)" "calls s ! i = Emplace k"
    by (auto simp: filter_empty_conv emplacing_def in_set_conv_nth)
  let ?s = "moved s i (on_cancel_emplace k (shared s))"
  have "cstep s ?s" using i by (rule cstep.emplace)
  moreover have "work ?s < work s"
    using moved_work [of i s "fst (on_cancel_emplace k (shared s))" "snd (on_cancel_emplace k (shared s))" "ran_log s"] i
    by (simp add: on_cancel_emplace_def)
  moreover have "cancelled_flag (shared s) \<le> cancelled_flag (shared ?s)" by (simp add: on_cancel_emplace_def)
  ultimately show ?thesis by (intro exI [of _ ?s]) simp
next
  case False
  from assms(2) obtain i where i: "i < length (calls s)" and ni: "\<nexists>j. calls s ! i = Returned j"
    by (auto simp: quiescent_def list_all_length)
  note w = moved_work [of i s, OF i]
  show ?thesis
  proof (cases "calls s ! i")
    case (On_cancel k)
    with i False show ?thesis using w [of "fst (on_cancel_check k (shared s))" "snd (on_cancel_check k (shared s))" "ran_log s"]
      by (intro exI [of _ "moved s i (on_cancel_check k (shared s))"] conjI cstep.check) (auto simp: on_cancel_check_def)
  next
    case (Emplace k)
    with i show ?thesis using w [of "fst (on_cancel_emplace k (shared s))" "snd (on_cancel_emplace k (shared s))" "ran_log s"]
      by (intro exI [of _ "moved s i (on_cancel_emplace k (shared s))"] conjI cstep.emplace) (auto simp: on_cancel_emplace_def)
  next
    case (Invoke_now k)
    with i show ?thesis using w [of "Returned 0" "shared s" "ran_log s @ [k]"]
      by (intro exI [of _ "s\<lparr>calls := (calls s)[i := Returned 0], ran_log := ran_log s @ [k]\<rparr>"] conjI cstep.invoke) auto
  next
    case Cancel
    with i show ?thesis using w [of "fst (cancel_exchange (shared s))" "snd (cancel_exchange (shared s))" "ran_log s"]
      by (intro exI [of _ "moved s i (cancel_exchange (shared s))"] conjI cstep.exchange) (auto simp: cancel_exchange_def)
  next
    case Take_callbacks
    let ?ks = "map snd (callbacks (shared s))"
    from Take_callbacks i False show ?thesis using w [of "fst (cancel_swap ?ks (shared s))" "snd (cancel_swap ?ks (shared s))" "ran_log s"]
      by (intro exI [of _ "moved s i (cancel_swap ?ks (shared s))"] conjI cstep.swap) (auto simp: cancel_swap_def)
  next
    case (Calling ks)
    with i show ?thesis using w [of "fst (cancel_call ks)" "shared s" "ran_log s @ snd (cancel_call ks)"]
      by (intro exI [of _ "s\<lparr>calls := (calls s)[i := fst (cancel_call ks)], ran_log := ran_log s @ snd (cancel_call ks)\<rparr>"] conjI cstep.call)
         (cases ks; auto)+
  qed (use ni in blast)
qed

lemma call_can_finish:
  "cancel_inv s \<Longrightarrow> \<exists>s'. cstep\<^sup>*\<^sup>* s s' \<and> quiescent s' \<and> issued s' = issued s \<and> cancelled_flag (shared s) \<le> cancelled_flag (shared s')"
proof (induction "work s" arbitrary: s rule: less_induct)
  case less
  show ?case
  proof (cases "quiescent s")
    case False
    from call_progress [OF less.prems False] obtain s1 where s1: "cstep s s1" "work s1 < work s" "issued s1 = issued s"
      "cancelled_flag (shared s) \<le> cancelled_flag (shared s1)" by blast
    with less.hyps [OF s1(2) cancel_inv_cstep [OF less.prems s1(1)]] show ?thesis
      by (metis converse_rtranclp_into_rtranclp order_trans)
  qed auto
qed

lemma reachable_steps: "cstep\<^sup>*\<^sup>* s s' \<Longrightarrow> reachable s \<Longrightarrow> reachable s'"
  by (induction rule: rtranclp_induct) (auto intro: reachable.step)

lemma settled_mset:
  assumes "cancel_inv s" "quiescent s" "cancelled_flag (shared s)"
  shows "mset (ran_log s @ dropped s) = mset [0..<issued s]"
proof -
  have "held_by c = []" if "c \<in> set (calls s)" for c
    using assms(2) that by (fastforce simp: quiescent_def list_all_iff)
  then have "in_flight (calls s) = {#}"
    by (simp add: in_flight_def)
  moreover have "Take_callbacks \<notin> set (calls s)"
    using assms(2) by (auto simp: quiescent_def list_all_iff)
  with assms(1,3) have "callbacks (shared s) = []" by (simp add: cancel_inv_def table_ok_def)
  ultimately show ?thesis using assms(1) by (simp add: cancel_inv_def callback_ledger_def)
qed

lemma ledger_distinct:
  assumes "cancel_inv s"
  shows "distinct (ran_log s @ dropped s)"
proof -
  have "mset (concat (map held_by (calls s)) @ map snd (callbacks (shared s)) @ ran_log s @ dropped s) = mset [0..<issued s]"
    using assms by (simp add: cancel_inv_def callback_ledger_def in_flight_def ac_simps)
  then have "distinct (concat (map held_by (calls s)) @ map snd (callbacks (shared s)) @ ran_log s @ dropped s)"
    by (metis distinct_upt mset_eq_imp_distinct_iff)
  then show ?thesis by simp
qed

section \<open>Properties\<close>

text \<open>
  C30: however calls of \<^verbatim>\<open>on_cancel\<close>, \<^verbatim>\<open>cancel\<close> and \<^verbatim>\<open>reset\<close> interleave, on any number of threads and nested in
  callbacks, no callback runs before the token is cancelled, none runs twice or both runs and is unsubscribed, and once the
  token is cancelled and the calls in flight have returned every callback handed to \<^verbatim>\<open>on_cancel\<close> has run or was
  unsubscribed: a registration racing with \<^verbatim>\<open>cancel\<close> is not lost.
\<close>

theorem cancellation_settles:
  assumes "reachable s"
  shows "distinct (ran_log s @ dropped s) \<and>
    (ran_log s \<noteq> [] \<longrightarrow> CancellationToken_cancelled (Some (shared s))) \<and>
    (CancellationToken_cancelled (Some (shared s)) \<and> quiescent s \<longrightarrow> set (ran_log s) \<union> set (dropped s) = {..<issued s})"
proof -
  note inv = reachable_inv [OF assms]
  have "set (ran_log s) \<union> set (dropped s) = {..<issued s}" if "cancelled_flag (shared s)" "quiescent s"
    using settled_mset [OF inv that(2,1)] by (metis atLeast0LessThan atLeast_upt mset_eq_setD set_append set_upt)
  with ledger_distinct [OF inv] inv show ?thesis
    by (auto simp: CancellationToken_cancelled_def cancel_inv_def early_ok_def)
qed

text \<open>
  One callback registered before cancellation and one after it: the first is taken from the table, the second is
  invoked by the call that registers it.
\<close>

definition settled_demo :: system where
  "settled_demo = \<lparr>shared = \<lparr>cancelled_flag = True, mutex_held = False, callbacks = [], next_callback_id = 2\<rparr>,
     calls = [Returned 1, Returned 0, Returned 0], issued = 2, ran_log = [1, 0], dropped = []\<rparr>"

definition swapped_demo :: system where
  "swapped_demo = \<lparr>shared = \<lparr>cancelled_flag = True, mutex_held = False, callbacks = [], next_callback_id = 2\<rparr>,
     calls = [Returned 1, Calling [0]], issued = 1, ran_log = [], dropped = []\<rparr>"

lemma swapped_demo_reachable: "reachable swapped_demo"
proof -
  note r0 = reachable.start
  note r1 = reachable.step [OF r0 cstep.start_on_cancel, unfolded initial_system_def new_cancel_state_def, simplified]
  note r2 = reachable.step [OF r1 cstep.check [of 0 _ 0], simplified on_cancel_check_def, simplified]
  note r3 = reachable.step [OF r2 cstep.emplace [of 0 _ 0], simplified on_cancel_emplace_def, simplified]
  note r4 = reachable.step [OF r3 cstep.start_cancel, simplified]
  note r5 = reachable.step [OF r4 cstep.exchange [of 1], simplified cancel_exchange_def, simplified]
  note r6 = reachable.step [OF r5 cstep.swap [of 1 _ "[0]"], simplified cancel_swap_def, simplified]
  then show ?thesis by (simp add: swapped_demo_def numeral_2_eq_2)
qed

lemma settled_demo_reachable: "reachable settled_demo"
proof -
  note r0 = swapped_demo_reachable
  note r1 = reachable.step [OF r0 cstep.start_on_cancel, unfolded swapped_demo_def, simplified]
  note r2 = reachable.step [OF r1 cstep.check [of 2 _ 1], simplified on_cancel_check_def, simplified]
  note r3 = reachable.step [OF r2 cstep.invoke [of 2 _ 1], simplified]
  note r4 = reachable.step [OF r3 cstep.call [of 1 _ "[0]"], simplified]
  note r5 = reachable.step [OF r4 cstep.call [of 1 _ "[]"], simplified]
  then show ?thesis by (simp add: settled_demo_def numeral_2_eq_2)
qed

theorem cancellation_settles_witness: "set (ran_log settled_demo) \<union> set (dropped settled_demo) = {..<2}"
  using cancellation_settles [OF settled_demo_reachable]
  by (simp add: settled_demo_def quiescent_def CancellationToken_cancelled_def)

text \<open>
  From every reachable state the calls in flight can all return, so the last clause is met: nothing waits for
  the mutex for ever.
\<close>

lemma cancellation_can_settle:
  "reachable s \<Longrightarrow> \<exists>s'. cstep\<^sup>*\<^sup>* s s' \<and> reachable s' \<and> quiescent s' \<and> issued s' = issued s"
  using call_can_finish [OF reachable_inv] reachable_steps by blast

text \<open>
  Unsubscribing does not wait for a cancellation under way: when the table has been swapped out, \<^verbatim>\<open>reset\<close> (and with it
  the destructor) returns at once without effect and the callback runs afterwards.
\<close>

lemma reset_too_late:
  "reachable swapped_demo \<and> Calling [0] \<in> set (calls swapped_demo) \<and>
   Registration_reset \<lparr>reg_state = True, reg_id = 1\<rparr> (shared swapped_demo) = (\<lparr>reg_state = True, reg_id = 0\<rparr>, shared swapped_demo)"
  by (simp add: swapped_demo_reachable) (simp add: swapped_demo_def Registration_reset_def erase_callback_def)

text \<open>
  A registration unsubscribes once: resetting again, resetting the moved-from source or destroying the registration of a
  callback that was invoked at once changes nothing; move assignment first unsubscribes what the target held.
\<close>

lemma reset_idempotent:
  "Registration_reset r st = (r', st') \<Longrightarrow> Registration_reset r' st'' = (r', st'')"
  by (auto simp: Registration_reset_def split: if_splits)

lemma reset_moved_from: "Registration_reset (snd (Registration_move r)) st = (snd (Registration_move r), st)"
  by (simp add: Registration_reset_def Registration_move_def)

lemma reset_invoked: "Registration_reset (on_cancel_result c t 0) st = (on_cancel_result c t 0, st)"
  by (simp add: Registration_reset_def on_cancel_result_def empty_registration_def)

lemma move_assign_unsubscribes:
  assumes "reg_state this" "reg_id this \<noteq> 0"
  shows "Registration_move_assign False this other st =
    (other, \<lparr>reg_state = False, reg_id = 0\<rparr>, erase_callback (reg_id this) st)"
  using assms by (simp add: Registration_move_assign_def Registration_reset_def Registration_move_def)

text \<open>Unsubscribing removes exactly its own callback.\<close>

lemma erase_exact:
  "(j, k) \<in> set (callbacks (erase_callback i st)) \<longleftrightarrow> (j, k) \<in> set (callbacks st) \<and> j \<noteq> i"
  by (auto simp: erase_callback_def)

end
