(* ===== verification/Concurrency_Limit.thy ===== *)
theory Concurrency_Limit
  imports Request_Pipeline Http_Filters "HOL-Library.AList" "HOL-Library.Multiset"
begin

text \<open>
  Bounding and draining in-flight work: \<^verbatim>\<open>src/middleware/concurrency_limit_middleware.cpp\<close> (a keyed
  table of active permits under one mutex, with the permit released when the chain returns or
  throws), \<^verbatim>\<open>include/novaboot/core/http_drain.h\<close> (the gate that rejects requests during shutdown)
  and \<^verbatim>\<open>src/core/shutdown.cpp\<close> (the coordinator that polls participants until a deadline).

  The middleware are modelled twice: as a handler over the exchange, as the code has it, and as a
  step relation whose steps are the critical sections (\<open>cl_step\<close>) or the atomic accesses
  (\<open>gate_step\<close>) that threads interleave.
\<close>

section \<open>ConcurrencyLimitMiddleware\<close>

type_synonym active_table = "(string \<times> nat) list"

record Concurrency_Config =
  max_concurrent :: nat
  cl_max_keys :: nat
  cl_key_resolver :: "(request \<Rightarrow> request_context \<Rightarrow> string) option"
  cl_allowlist_paths :: "string list"
  cl_max_key_length :: nat
  rejected_status :: int
  rejected_body :: string

record concurrency_exchange = exchange +
  active :: active_table

definition global_key :: "request \<Rightarrow> request_context \<Rightarrow> string" where
  "global_key req ctx = ''global''"

definition client_address_key :: "request \<Rightarrow> request_context \<Rightarrow> string" where
  "client_address_key req ctx =
     (if req_client_address req = [] then ''anonymous'' else ''ip:'' @ req_client_address req)"

definition ConcurrencyLimit_new :: "Concurrency_Config \<Rightarrow> Concurrency_Config result" where
  "ConcurrencyLimit_new cfg =
     (if max_concurrent cfg = 0 \<or> cl_max_keys cfg = 0 \<or> cl_max_key_length cfg = 0 \<or>
         cl_key_resolver cfg = None
      then Inl (Invalid_argument ''Concurrency limiting requires positive limits and a key resolver'')
      else Inr cfg)"

text \<open>
  \<^verbatim>\<open>try_acquire\<close> runs under the mutex; \<open>None\<close> is the empty permit and \<open>Some\<close> the table after a
  permit for the key was handed out. \<^verbatim>\<open>release\<close> is the permit's destructor.
\<close>

definition try_acquire :: "Concurrency_Config \<Rightarrow> string \<Rightarrow> active_table \<Rightarrow> active_table option" where
  "try_acquire cfg key act =
     (case map_of act key of
        None \<Rightarrow> if length act \<ge> cl_max_keys cfg then None else Some ((key, 1) # act)
      | Some n \<Rightarrow> if n \<ge> max_concurrent cfg then None else Some (AList.update key (n + 1) act))"

definition release_permit :: "string \<Rightarrow> active_table \<Rightarrow> active_table" where
  "release_permit key act =
     (case map_of act key of
        None \<Rightarrow> act
      | Some n \<Rightarrow> if n \<le> 1 then AList.delete key act else AList.update key (n - 1) act)"

definition cl_key :: "Concurrency_Config \<Rightarrow> request \<Rightarrow> request_context \<Rightarrow> string" where
  "cl_key cfg req ctx =
     (let key = (case cl_key_resolver cfg of Some f \<Rightarrow> f req ctx | None \<Rightarrow> [])
      in if key = [] then ''anonymous'' else key)"

definition key_too_long_json :: string where
  "key_too_long_json = ''{'' @ quoted ''error'' @ '':'' @ quoted ''Bad Request'' @ '','' @
     quoted ''message'' @ '':'' @ quoted ''Concurrency key is too long'' @ ''}''"

definition ConcurrencyLimit_decide ::
    "Concurrency_Config \<Rightarrow> 'z concurrency_exchange_scheme \<Rightarrow>
     'z concurrency_exchange_scheme + (exn option \<times> 'z concurrency_exchange_scheme)" where
  "ConcurrencyLimit_decide cfg s =
     (if path_allowed (req_path (ex_req s)) (cl_allowlist_paths cfg) then Inl s
      else let key = cl_key cfg (ex_req s) (ex_ctx s)
      in if length key > cl_max_key_length cfg
         then Inr (None, set_res s (Response_json (Response_status (ex_res s) 400) key_too_long_json))
      else (case try_acquire cfg key (active s) of
          None \<Rightarrow> Inr (None, set_res s (Response_json (Response_status (ex_res s) (rejected_status cfg))
                       (rejected_body cfg)))
        | Some act \<Rightarrow> Inl (s\<lparr>active := act\<rparr>)))"

definition ConcurrencyLimit_post ::
    "Concurrency_Config \<Rightarrow> 'z concurrency_exchange_scheme \<Rightarrow>
     exn option \<times> 'z concurrency_exchange_scheme \<Rightarrow> exn option \<times> 'z concurrency_exchange_scheme" where
  "ConcurrencyLimit_post cfg s r =
     (if path_allowed (req_path (ex_req s)) (cl_allowlist_paths cfg) then r
      else (fst r, (snd r)\<lparr>active := release_permit (cl_key cfg (ex_req s) (ex_ctx s)) (active (snd r))\<rparr>))"

definition ConcurrencyLimit_handle ::
    "Concurrency_Config \<Rightarrow> 'z concurrency_exchange_scheme middleware" where
  "ConcurrencyLimit_handle cfg next s =
     (if path_allowed (req_path (ex_req s)) (cl_allowlist_paths cfg) then next s
      else let key = cl_key cfg (ex_req s) (ex_ctx s)
      in if length key > cl_max_key_length cfg
         then (None, set_res s (Response_json (Response_status (ex_res s) 400) key_too_long_json))
      else (case try_acquire cfg key (active s) of
          None \<Rightarrow> (None, set_res s (Response_json (Response_status (ex_res s) (rejected_status cfg))
                     (rejected_body cfg)))
        | Some act \<Rightarrow>
            (case next (s\<lparr>active := act\<rparr>) of
               (e, s1) \<Rightarrow> (e, s1\<lparr>active := release_permit key (active s1)\<rparr>))))"

interpretation conc_limit: request_wrapper
    "ConcurrencyLimit_handle cfg" "ConcurrencyLimit_decide cfg" "ConcurrencyLimit_post cfg"
  for cfg
  by unfold_locales
     (auto simp: ConcurrencyLimit_handle_def ConcurrencyLimit_decide_def ConcurrencyLimit_post_def
        Let_def split: option.split prod.split)

subsection \<open>The permit table against the outstanding permits\<close>

text \<open>
  The specification counts the permits handed out and not yet released; the table is a
  representation of that multiset.
\<close>

definition table_of :: "string multiset \<Rightarrow> active_table \<Rightarrow> bool" where
  "table_of ps act \<longleftrightarrow> distinct (map fst act) \<and>
     map_of act = (\<lambda>k. if k \<in># ps then Some (count ps k) else None)"

definition within_limits :: "Concurrency_Config \<Rightarrow> string multiset \<Rightarrow> bool" where
  "within_limits cfg ps \<longleftrightarrow>
     (\<forall>k. count ps k \<le> max_concurrent cfg) \<and> card (set_mset ps) \<le> cl_max_keys cfg"

lemma table_of_lookup:
  "table_of ps act \<Longrightarrow> map_of act k = (if k \<in># ps then Some (count ps k) else None)"
  by (simp add: table_of_def)

lemma table_of_length:
  assumes "table_of ps act"
  shows "length act = card (set_mset ps)"
proof -
  have "fst ` set act = dom (map_of act)" by (simp add: dom_map_of_conv_image_fst)
  also have "\<dots> = set_mset ps" using assms by (auto simp: table_of_def dom_def)
  finally have "set (map fst act) = set_mset ps" by simp
  moreover have "distinct (map fst act)" using assms by (simp add: table_of_def)
  ultimately show ?thesis by (metis distinct_card length_map)
qed

lemma table_of_empty [simp]: "table_of {#} []"
  by (auto simp: table_of_def)

lemma table_of_acquire:
  assumes t: "table_of ps act" and a: "try_acquire cfg k act = Some act'"
  shows "table_of (add_mset k ps) act'"
proof (cases "k \<in># ps")
  case True
  then have "act' = AList.update k (count ps k + 1) act"
    using a by (simp add: try_acquire_def table_of_lookup [OF t] split: if_splits)
  with t True show ?thesis
    by (auto simp: table_of_def update_conv' distinct_update fun_eq_iff)
next
  case False
  then have act': "act' = (k, 1) # act" and new: "map_of act k = None"
    using a by (auto simp: try_acquire_def table_of_lookup [OF t] split: if_splits)
  from new have "k \<notin> fst ` set act" by (simp add: map_of_eq_None_iff)
  with t act' False show ?thesis
    by (auto simp: table_of_def fun_eq_iff not_in_iff)
qed

lemma table_of_release:
  assumes t: "table_of ps act" and k: "k \<in># ps"
  shows "table_of (ps - {#k#}) (release_permit k act)"
proof (cases "count ps k \<le> 1")
  case True
  with k have "count ps k = 1" using count_greater_zero_iff [of ps k] by linarith
  with t k show ?thesis
    by (auto simp: release_permit_def table_of_lookup [OF t] table_of_def delete_conv'
        distinct_delete fun_eq_iff in_diff_count)
next
  case False
  with t k show ?thesis
    by (auto simp: release_permit_def table_of_lookup [OF t] table_of_def update_conv'
        distinct_update fun_eq_iff in_diff_count)
qed

lemma try_acquire_refused_iff:
  assumes "table_of ps act"
  shows "try_acquire cfg k act = None \<longleftrightarrow>
     (if k \<in># ps then max_concurrent cfg \<le> count ps k else cl_max_keys cfg \<le> card (set_mset ps))"
  by (simp add: try_acquire_def table_of_lookup [OF assms] table_of_length [OF assms])

lemma acquire_within_limits:
  assumes "table_of ps act" and "within_limits cfg ps" and "try_acquire cfg k act = Some act'"
    and "0 < max_concurrent cfg"
  shows "within_limits cfg (add_mset k ps)"
proof -
  have "\<not> (if k \<in># ps then max_concurrent cfg \<le> count ps k else cl_max_keys cfg \<le> card (set_mset ps))"
    using assms(3) try_acquire_refused_iff [OF assms(1), of cfg k] by auto
  with assms(2,4) show ?thesis
    by (auto simp: within_limits_def insert_absorb not_in_iff split: if_splits)
qed

lemma within_limits_release: "within_limits cfg ps \<Longrightarrow> within_limits cfg (ps - {#k#})"
  by (auto simp: within_limits_def intro: le_trans [OF card_mono [OF _ set_mset_mono [OF diff_subset_eq_self]]]
      diff_le_self le_trans)

subsection \<open>Interleaved requests\<close>

text \<open>
  Requests on all threads share the table; each critical section is one step. The second
  component is a ghost: the keys of the permits currently held.
\<close>

type_synonym limiter = "active_table \<times> string multiset"

inductive cl_step :: "Concurrency_Config \<Rightarrow> limiter \<Rightarrow> limiter \<Rightarrow> bool" for cfg where
  acquired: "try_acquire cfg k act = Some act' \<Longrightarrow> cl_step cfg (act, ps) (act', add_mset k ps)"
| refused: "try_acquire cfg k act = None \<Longrightarrow> cl_step cfg (act, ps) (act, ps)"
| released: "k \<in># ps \<Longrightarrow> cl_step cfg (act, ps) (release_permit k act, ps - {#k#})"

inductive cl_reachable :: "Concurrency_Config \<Rightarrow> limiter \<Rightarrow> bool" for cfg where
  initial: "cl_reachable cfg ([], {#})"
| step: "cl_reachable cfg \<sigma> \<Longrightarrow> cl_step cfg \<sigma> \<sigma>' \<Longrightarrow> cl_reachable cfg \<sigma>'"

inductive_cases cl_stepE: "cl_step cfg (act, ps) \<sigma>'"

definition cl_inv :: "Concurrency_Config \<Rightarrow> limiter \<Rightarrow> bool" where
  "cl_inv cfg \<sigma> \<longleftrightarrow> table_of (snd \<sigma>) (fst \<sigma>) \<and> within_limits cfg (snd \<sigma>)"

lemma cl_inv_step: "cl_inv cfg \<sigma> \<Longrightarrow> cl_step cfg \<sigma> \<sigma>' \<Longrightarrow> 0 < max_concurrent cfg \<Longrightarrow> cl_inv cfg \<sigma>'"
  by (cases \<sigma>) (auto simp: cl_inv_def elim!: cl_stepE
      intro: table_of_acquire table_of_release acquire_within_limits within_limits_release)

lemma cl_inv_reachable: "cl_reachable cfg \<sigma> \<Longrightarrow> 0 < max_concurrent cfg \<Longrightarrow> cl_inv cfg \<sigma>"
proof (induction rule: cl_reachable.induct)
  case initial
  then show ?case by (simp add: cl_inv_def within_limits_def)
next
  case (step \<sigma> \<sigma>')
  then show ?case by (blast intro: cl_inv_step)
qed

section \<open>HttpDrainGate\<close>

record drain_gate =
  accepting :: bool
  in_flight :: nat

definition new_gate :: drain_gate where
  "new_gate = \<lparr>accepting = True, in_flight = 0\<rparr>"

definition stop_accepting :: "drain_gate \<Rightarrow> drain_gate" where
  "stop_accepting g = g\<lparr>accepting := False\<rparr>"

definition drained :: "drain_gate \<Rightarrow> bool" where
  "drained g \<longleftrightarrow> in_flight g = 0"

record gated_exchange = exchange +
  gate :: drain_gate

definition shutting_down_json :: string where
  "shutting_down_json = ''{'' @ quoted ''error'' @ '':'' @ quoted ''Server is shutting down'' @ ''}''"

definition gate_enter :: "drain_gate \<Rightarrow> drain_gate" where
  "gate_enter g = g\<lparr>in_flight := in_flight g + 1\<rparr>"

definition gate_leave :: "drain_gate \<Rightarrow> drain_gate" where
  "gate_leave g = g\<lparr>in_flight := in_flight g - 1\<rparr>"

definition HttpDrainGate_handle :: "'z gated_exchange_scheme middleware" where
  "HttpDrainGate_handle next s =
     (if \<not> accepting (gate s)
      then (None, set_res s (Response_json (Response_status (ex_res s) 503) shutting_down_json))
      else case next (s\<lparr>gate := gate_enter (gate s)\<rparr>) of
             (e, s1) \<Rightarrow> (e, s1\<lparr>gate := gate_leave (gate s1)\<rparr>))"

interpretation drain_gate: request_wrapper HttpDrainGate_handle
    "\<lambda>s. if accepting (gate s) then Inl (s\<lparr>gate := gate_enter (gate s)\<rparr>)
         else Inr (None, set_res s (Response_json (Response_status (ex_res s) 503) shutting_down_json))"
    "\<lambda>_ r. (fst r, (snd r)\<lparr>gate := gate_leave (gate (snd r))\<rparr>)"
  by unfold_locales (auto simp: HttpDrainGate_handle_def split: prod.split)

text \<open>
  Threads interleave at the atomic accesses of the handler: the load of \<^verbatim>\<open>accepting_\<close>, the
  \<^verbatim>\<open>fetch_add\<close> and the guard's \<^verbatim>\<open>fetch_sub\<close>, which runs on return and on unwinding.
\<close>

datatype gate_pc = G_Start | G_Admitted | G_Running | G_Done

type_synonym gate_sys = "drain_gate \<times> gate_pc list"

inductive gate_step :: "gate_sys \<Rightarrow> gate_sys \<Rightarrow> bool" where
  arrive: "gate_step (g, pcs) (g, pcs @ [G_Start])"
| check_open: "i < length pcs \<Longrightarrow> pcs ! i = G_Start \<Longrightarrow> accepting g \<Longrightarrow>
    gate_step (g, pcs) (g, pcs[i := G_Admitted])"
| check_closed: "i < length pcs \<Longrightarrow> pcs ! i = G_Start \<Longrightarrow> \<not> accepting g \<Longrightarrow>
    gate_step (g, pcs) (g, pcs[i := G_Done])"
| enter: "i < length pcs \<Longrightarrow> pcs ! i = G_Admitted \<Longrightarrow> gate_step (g, pcs) (gate_enter g, pcs[i := G_Running])"
| leave: "i < length pcs \<Longrightarrow> pcs ! i = G_Running \<Longrightarrow> gate_step (g, pcs) (gate_leave g, pcs[i := G_Done])"
| stop: "gate_step (g, pcs) (stop_accepting g, pcs)"

inductive_cases gate_stepE: "gate_step (g, pcs) \<sigma>'"

definition gate_inv :: "gate_sys \<Rightarrow> bool" where
  "gate_inv \<sigma> \<longleftrightarrow> in_flight (fst \<sigma>) = count (mset (snd \<sigma>)) G_Running"

lemma count_update:
  "i < length xs \<Longrightarrow> count (mset (xs[i := y])) x =
     count (mset xs) x - (if xs ! i = x then 1 else 0) + (if y = x then 1 else 0)"
  by (auto simp: mset_update)

lemma count_pos_nth: "i < length xs \<Longrightarrow> 0 < count (mset xs) (xs ! i)"
  by simp

lemma gate_inv_step: "gate_inv \<sigma> \<Longrightarrow> gate_step \<sigma> \<sigma>' \<Longrightarrow> gate_inv \<sigma>'"
  by (cases \<sigma>) (auto simp: gate_inv_def count_update gate_enter_def gate_leave_def stop_accepting_def
      elim!: gate_stepE)

lemma gate_inv_reachable: "gate_step\<^sup>*\<^sup>* \<sigma> \<sigma>' \<Longrightarrow> gate_inv \<sigma> \<Longrightarrow> gate_inv \<sigma>'"
  by (induction rule: rtranclp_induct) (auto intro: gate_inv_step)

definition settled :: "gate_sys \<Rightarrow> bool" where
  "settled \<sigma> \<longleftrightarrow> \<not> accepting (fst \<sigma>) \<and> drained (fst \<sigma>) \<and>
     G_Admitted \<notin> set (snd \<sigma>) \<and> G_Running \<notin> set (snd \<sigma>)"

lemma settled_step: "settled \<sigma> \<Longrightarrow> gate_step \<sigma> \<sigma>' \<Longrightarrow> settled \<sigma>'"
  by (cases \<sigma>) (auto simp: settled_def drained_def stop_accepting_def dest: set_update_subset_insert [THEN subsetD]
      nth_mem elim!: gate_stepE)

lemma settled_forever: "gate_step\<^sup>*\<^sup>* \<sigma> \<sigma>' \<Longrightarrow> settled \<sigma> \<Longrightarrow> settled \<sigma>'"
  by (induction rule: rtranclp_induct) (auto intro: settled_step)

section \<open>ShutdownCoordinator\<close>

text \<open>
  Participants act on a world \<open>'w\<close> through the functions they registered (each may be empty). The
  clock and what the rest of the process does while the coordinator sleeps are parameters.
\<close>

record 'w ShutdownParticipant =
  participant_name :: string
  p_stop_accepting :: "('w \<Rightarrow> 'w) option"
  p_drained :: "('w \<Rightarrow> bool) option"
  p_force_close :: "('w \<Rightarrow> 'w) option"

record ShutdownResult =
  sr_drained :: bool
  forced_participants :: "string list"

definition coordinator_add :: "'w ShutdownParticipant list \<Rightarrow> 'w ShutdownParticipant \<Rightarrow> 'w ShutdownParticipant list" where
  "coordinator_add ps p = ps @ [p]"

definition run_opt :: "('w \<Rightarrow> 'w) option \<Rightarrow> 'w \<Rightarrow> 'w" where
  "run_opt f w = (case f of Some g \<Rightarrow> g w | None \<Rightarrow> w)"

definition still_busy :: "'w \<Rightarrow> 'w ShutdownParticipant \<Rightarrow> bool" where
  "still_busy w p \<longleftrightarrow> (case p_drained p of Some d \<Rightarrow> \<not> d w | None \<Rightarrow> False)"

partial_function (option) drain_loop ::
    "('w \<Rightarrow> int) \<Rightarrow> ('w \<Rightarrow> 'w) \<Rightarrow> 'w ShutdownParticipant list \<Rightarrow> int \<Rightarrow> 'w \<Rightarrow> (bool \<times> 'w) option" where
  "drain_loop clock sleep ps deadline w =
     (if \<not> list_ex (still_busy w) ps then Some (True, w)
      else if clock w \<ge> deadline then Some (False, w)
      else drain_loop clock sleep ps deadline (sleep w))"

fun force_loop :: "'w ShutdownParticipant list \<Rightarrow> string list \<Rightarrow> 'w \<Rightarrow> string list \<times> 'w" where
  "force_loop [] forced w = (forced, w)"
| "force_loop (p # ps) forced w =
     (if still_busy w p then force_loop ps (forced @ [participant_name p]) (run_opt (p_force_close p) w)
      else force_loop ps forced w)"

definition drain_for ::
    "('w \<Rightarrow> int) \<Rightarrow> ('w \<Rightarrow> 'w) \<Rightarrow> 'w ShutdownParticipant list \<Rightarrow> int \<Rightarrow> 'w \<Rightarrow> (ShutdownResult \<times> 'w) option" where
  "drain_for clock sleep ps timeout w =
     (let w1 = foldl (\<lambda>w p. run_opt (p_stop_accepting p) w) w ps;
          deadline = clock w1 + timeout
      in case drain_loop clock sleep ps deadline w1 of
           None \<Rightarrow> None
         | Some (True, w2) \<Rightarrow> Some (\<lparr>sr_drained = True, forced_participants = []\<rparr>, w2)
         | Some (False, w2) \<Rightarrow>
             (case force_loop ps [] w2 of
                (forced, w3) \<Rightarrow> Some (\<lparr>sr_drained = False, forced_participants = forced\<rparr>, w3)))"

lemma drain_loop_returns:
  assumes "\<And>w. clock w + 10 \<le> clock (sleep w)"
  shows "\<exists>d w'. drain_loop clock sleep ps deadline w = Some (d, w') \<and>
     (if d then \<not> list_ex (still_busy w') ps else list_ex (still_busy w') ps \<and> deadline \<le> clock w')"
proof (induction "nat (deadline - clock w)" arbitrary: w rule: less_induct)
  case less
  show ?case
  proof (cases "\<not> list_ex (still_busy w) ps \<or> deadline \<le> clock w")
    case True
    then show ?thesis by (subst drain_loop.simps) auto
  next
    case False
    then have "nat (deadline - clock (sleep w)) < nat (deadline - clock w)"
      using assms [of w] by simp
    from less [OF this] False show ?thesis by (subst drain_loop.simps) auto
  qed
qed

lemma force_loop_names:
  "\<exists>names. fst (force_loop ps forced w) = forced @ names \<and> set names \<subseteq> participant_name ` set ps"
proof (induction ps arbitrary: forced w)
  case (Cons p ps)
  show ?case
    using Cons [of "forced @ [participant_name p]" "run_opt (p_force_close p) w"] Cons [of forced w]
    by auto
qed simp

lemma force_loop_first_busy:
  "list_ex (still_busy w) ps \<Longrightarrow> fst (force_loop ps forced w) \<noteq> forced"
proof (induction ps arbitrary: forced w)
  case (Cons p ps)
  show ?case
    using Cons force_loop_names [of ps "forced @ [participant_name p]" "run_opt (p_force_close p) w"]
    by auto
qed simp

section \<open>Properties\<close>

text \<open>
  C20: whatever way requests on all threads interleave, no key has more than \<^verbatim>\<open>max_concurrent\<close>
  permits out, at most \<^verbatim>\<open>max_keys\<close> keys are tracked, the table holds exactly the outstanding
  permits, and a permit is refused exactly when its key is full or the key is new and the table is
  full (so released permits are usable again).
\<close>

theorem concurrency_limit_exact:
  assumes "ConcurrencyLimit_new cfg = Inr cfg" and "cl_reachable cfg (act, ps)"
  shows "count ps k \<le> max_concurrent cfg \<and> length act \<le> cl_max_keys cfg \<and>
    map_of act k = (if k \<in># ps then Some (count ps k) else None) \<and>
    (try_acquire cfg k act = None \<longleftrightarrow>
       (if k \<in># ps then count ps k = max_concurrent cfg else length act = cl_max_keys cfg))"
proof -
  have "0 < max_concurrent cfg" using assms(1) by (auto simp: ConcurrencyLimit_new_def split: if_splits)
  with assms(2) have "cl_inv cfg (act, ps)" by (rule cl_inv_reachable)
  then have t: "table_of ps act" and w: "within_limits cfg ps" by (simp_all add: cl_inv_def)
  have c: "count ps k \<le> max_concurrent cfg" and l: "length act \<le> cl_max_keys cfg"
    using w by (simp_all add: within_limits_def table_of_length [OF t])
  then show ?thesis
    using try_acquire_refused_iff [OF t, of cfg k] table_of_lookup [OF t, of k] table_of_length [OF t]
    by auto
qed

definition cl_sample :: Concurrency_Config where
  "cl_sample = \<lparr>max_concurrent = 2, cl_max_keys = 3, cl_key_resolver = Some global_key,
     cl_allowlist_paths = [], cl_max_key_length = 16, rejected_status = 429, rejected_body = []\<rparr>"

theorem concurrency_limit_exact_witness:
  "try_acquire cl_sample ''global'' [(''global'', 2)] = None"
proof -
  have "ConcurrencyLimit_new cl_sample = Inr cl_sample"
    by (simp add: ConcurrencyLimit_new_def cl_sample_def)
  moreover have "cl_reachable cl_sample ([(''global'', 2)], {#''global'', ''global''#})"
  proof -
    have "cl_step cl_sample ([], {#}) ([(''global'', 1)], {#''global''#})"
      by (rule acquired) (simp add: try_acquire_def cl_sample_def)
    moreover have "cl_step cl_sample ([(''global'', 1)], {#''global''#}) ([(''global'', 2)], {#''global'', ''global''#})"
      by (rule acquired) (simp add: try_acquire_def cl_sample_def)
    ultimately show ?thesis by (blast intro: cl_reachable.intros)
  qed
  ultimately show ?thesis
    using concurrency_limit_exact [of cl_sample "[(''global'', 2)]" "{#''global'', ''global''#}" "''global''"]
    by (simp add: cl_sample_def)
qed

text \<open>
  a permit is always given back. When the rest of the chain leaves the outstanding permits as
  it found them, so does the middleware with its own permit included, whether the chain returned
  or threw, and while the chain ran the request's own permit was counted.
\<close>

theorem concurrency_permit_released:
  assumes "table_of ps (active s)"
    and "\<And>s qs. table_of qs (active s) \<Longrightarrow> table_of qs (active (snd (next s)))"
  shows "table_of ps (active (snd (ConcurrencyLimit_handle cfg next s))) \<and>
    (\<forall>s'. ConcurrencyLimit_decide cfg s = Inl s' \<longrightarrow>
       fst (ConcurrencyLimit_handle cfg next s) = fst (next s') \<and>
       (path_allowed (req_path (ex_req s)) (cl_allowlist_paths cfg) \<or>
        table_of (add_mset (cl_key cfg (ex_req s) (ex_ctx s)) ps) (active s')))"
proof (cases "ConcurrencyLimit_decide cfg s")
  case (Inr r)
  then have "ConcurrencyLimit_handle cfg next s = r" by (simp add: conc_limit.wrap)
  moreover have "active (snd r) = active s"
    using Inr by (auto simp: ConcurrencyLimit_decide_def Let_def set_res_def split: if_splits option.splits)
  ultimately show ?thesis using Inr assms(1) by simp
next
  case (Inl s')
  let ?k = "cl_key cfg (ex_req s) (ex_ctx s)"
  have run: "ConcurrencyLimit_handle cfg next s = ConcurrencyLimit_post cfg s (next s')"
    using Inl by (simp add: conc_limit.wrap)
  show ?thesis
  proof (cases "path_allowed (req_path (ex_req s)) (cl_allowlist_paths cfg)")
    case True
    with Inl have "s' = s" by (simp add: ConcurrencyLimit_decide_def)
    with True Inl run assms show ?thesis by (simp add: ConcurrencyLimit_post_def)
  next
    case False
    with Inl obtain act where "try_acquire cfg ?k (active s) = Some act" and s': "s' = s\<lparr>active := act\<rparr>"
      by (auto simp: ConcurrencyLimit_decide_def Let_def split: if_splits option.splits)
    with assms(1) have held: "table_of (add_mset ?k ps) (active s')" by (simp add: table_of_acquire)
    from table_of_release [OF assms(2) [OF held], of ?k] held False run Inl show ?thesis
      by (simp add: ConcurrencyLimit_post_def)
  qed
qed

definition idle_exchange :: concurrency_exchange where
  "idle_exchange = \<lparr>ex_req = empty_request, ex_res = default_response, ex_ctx = new_context 1,
     current_context = None, active = []\<rparr>"

theorem concurrency_permit_released_witness:
  "table_of {#} (active (snd (ConcurrencyLimit_handle cl_sample
     (\<lambda>s. (Some (Runtime_error ''boom''), s)) idle_exchange)))"
  using concurrency_permit_released [of "{#}" idle_exchange "\<lambda>s. (Some (Runtime_error ''boom''), s)" cl_sample]
  by (simp add: idle_exchange_def)

text \<open>
  C38: in every interleaving the drain gate counts the requests inside it exactly, and once it no longer
  accepts, reports drained and no request sits between its check and its count, no request runs in any later
  state and it stays drained: shutdown may proceed.
\<close>

theorem drain_gate_settles:
  assumes "gate_step\<^sup>*\<^sup>* (new_gate, []) (g, pcs)"
  shows "in_flight g = count (mset pcs) G_Running \<and>
    (\<not> accepting g \<longrightarrow> drained g \<longrightarrow> G_Admitted \<notin> set pcs \<longrightarrow> gate_step\<^sup>*\<^sup>* (g, pcs) (g', pcs') \<longrightarrow>
       \<not> accepting g' \<and> drained g' \<and> G_Running \<notin> set pcs')"
proof -
  have "gate_inv (g, pcs)"
    using gate_inv_reachable [OF assms] by (simp add: gate_inv_def new_gate_def)
  moreover have "settled (g, pcs) \<Longrightarrow> gate_step\<^sup>*\<^sup>* (g, pcs) (g', pcs') \<Longrightarrow> settled (g', pcs')"
    by (rule settled_forever)
  ultimately show ?thesis
    by (auto simp: gate_inv_def settled_def drained_def count_eq_zero_iff)
qed

text \<open>
  A gate that admitted a request, was stopped while it ran and saw it leave; a request that arrives later is turned away.
\<close>

definition drained_gate :: drain_gate where
  "drained_gate = gate_leave (stop_accepting (gate_enter new_gate))"

lemma drained_gate_run: "gate_step\<^sup>*\<^sup>* (new_gate, []) (drained_gate, [G_Done])"
proof -
  have "gate_step (new_gate, []) (new_gate, [G_Start])" using arrive [of new_gate "[]"] by simp
  moreover have "gate_step (new_gate, [G_Start]) (new_gate, [G_Admitted])"
    using check_open [of 0 "[G_Start]" new_gate] by (simp add: new_gate_def)
  moreover have "gate_step (new_gate, [G_Admitted]) (gate_enter new_gate, [G_Running])"
    using enter [of 0 "[G_Admitted]" new_gate] by simp
  moreover have "gate_step (gate_enter new_gate, [G_Running]) (stop_accepting (gate_enter new_gate), [G_Running])" by (rule stop)
  moreover have "gate_step (stop_accepting (gate_enter new_gate), [G_Running]) (drained_gate, [G_Done])"
    unfolding drained_gate_def using leave [of 0 "[G_Running]"] by simp
  ultimately show ?thesis by (meson converse_rtranclp_into_rtranclp rtranclp.rtrancl_refl)
qed

theorem drain_gate_settles_witness:
  "\<not> accepting drained_gate \<and> drained drained_gate \<and> gate_step\<^sup>*\<^sup>* (drained_gate, [G_Done]) (drained_gate, [G_Done, G_Start]) \<and>
   \<not> (\<exists>g pcs. gate_step\<^sup>*\<^sup>* (drained_gate, [G_Done, G_Start]) (g, pcs) \<and> (accepting g \<or> \<not> drained g \<or> G_Running \<in> set pcs))"
proof -
  have g: "\<not> accepting drained_gate" "drained drained_gate"
    by (simp_all add: drained_gate_def new_gate_def gate_enter_def gate_leave_def stop_accepting_def drained_def)
  have later: "gate_step\<^sup>*\<^sup>* (drained_gate, [G_Done]) (drained_gate, [G_Done, G_Start])"
    using arrive [of drained_gate "[G_Done]"] by auto
  have "\<not> accepting g \<and> drained g \<and> G_Running \<notin> set pcs"
    if "gate_step\<^sup>*\<^sup>* (drained_gate, [G_Done, G_Start]) (g, pcs)" for g pcs
    using drain_gate_settles [OF drained_gate_run, of g pcs] g rtranclp_trans [OF later that] by simp
  with g later show ?thesis by blast
qed

text \<open>
  Without the last condition of \<^verbatim>\<open>drain_gate_settles\<close> the guarantee fails: the handler loads
  \<^verbatim>\<open>accepting_\<close> and adds to \<^verbatim>\<open>active_\<close> in two accesses, so shutdown can stop accepting and observe a drained gate while an admitted request
  has not been counted yet, and that request then runs.
\<close>

theorem drain_gate_observed_drained_then_runs:
  "\<exists>g pcs. gate_step\<^sup>*\<^sup>* (new_gate, []) (g, pcs) \<and> \<not> accepting g \<and> drained g \<and>
     gate_step (g, pcs) (gate_enter g, [G_Running])"
proof (intro exI conjI)
  let ?g = "stop_accepting new_gate"
  have "gate_step (new_gate, []) (new_gate, [G_Start])" using arrive [of new_gate "[]"] by simp
  moreover have "gate_step (new_gate, [G_Start]) (new_gate, [G_Admitted])"
    using check_open [of 0 "[G_Start]" new_gate] by (simp add: new_gate_def)
  moreover have "gate_step (new_gate, [G_Admitted]) (?g, [G_Admitted])" by (rule stop)
  ultimately show "gate_step\<^sup>*\<^sup>* (new_gate, []) (?g, [G_Admitted])"
    by (meson converse_rtranclp_into_rtranclp rtranclp.rtrancl_refl)
  show "\<not> accepting ?g" "drained ?g" by (simp_all add: stop_accepting_def new_gate_def drained_def)
  show "gate_step (?g, [G_Admitted]) (gate_enter ?g, [G_Running])"
    using enter [of 0 "[G_Admitted]" ?g] by simp
qed

text \<open>
  the coordinator always returns when sleeping advances the clock by the ten milliseconds
  asked for. It reports drained only in a world where no participant is busy and nobody was
  forced; otherwise the deadline has passed, somebody was forced, and every name it reports is a
  registered participant's.
\<close>

theorem shutdown_coordinator_returns:
  assumes "\<And>w. clock w + 10 \<le> clock (sleep w)"
  shows "\<exists>r w'. drain_for clock sleep ps timeout w = Some (r, w') \<and>
    (if sr_drained r then forced_participants r = [] \<and> \<not> list_ex (still_busy w') ps
     else forced_participants r \<noteq> [] \<and> set (forced_participants r) \<subseteq> participant_name ` set ps)"
proof -
  let ?w1 = "foldl (\<lambda>w p. run_opt (p_stop_accepting p) w) w ps"
  from drain_loop_returns [of clock sleep ps "clock ?w1 + timeout" ?w1] assms
  obtain d w2 where loop: "drain_loop clock sleep ps (clock ?w1 + timeout) ?w1 = Some (d, w2)"
    and d: "if d then \<not> list_ex (still_busy w2) ps else list_ex (still_busy w2) ps"
    by (auto split: if_splits)
  show ?thesis
  proof (cases d)
    case True
    with loop d show ?thesis by (simp add: drain_for_def)
  next
    case False
    obtain forced w3 where f: "force_loop ps [] w2 = (forced, w3)" by force
    then have "forced \<noteq> [] \<and> set forced \<subseteq> participant_name ` set ps"
      using False d force_loop_names [of ps "[]" w2] force_loop_first_busy [of w2 ps "[]"] by simp
    moreover have "drain_for clock sleep ps timeout w =
        Some (\<lparr>sr_drained = False, forced_participants = forced\<rparr>, w3)"
      using loop False f by (simp add: drain_for_def)
    ultimately show ?thesis
      by (intro exI [of _ "\<lparr>sr_drained = False, forced_participants = forced\<rparr>"] exI [of _ w3]) auto
  qed
qed

theorem shutdown_coordinator_returns_witness:
  "\<exists>r w'. drain_for id (\<lambda>w. w + 10) [\<lparr>participant_name = ''http'', p_stop_accepting = None,
     p_drained = Some (\<lambda>w. w > 25), p_force_close = None\<rparr>] 100 (0 :: int) = Some (r, w') \<and>
     (sr_drained r \<longrightarrow> forced_participants r = [])"
proof -
  let ?p = "\<lparr>participant_name = ''http'', p_stop_accepting = None, p_drained = Some (\<lambda>w. w > 25),
     p_force_close = None\<rparr>"
  have "id w + 10 \<le> id (w + 10)" for w :: int by simp
  from shutdown_coordinator_returns [of id "\<lambda>w. w + 10" "[?p]" 100 0] this
  obtain r w' where "drain_for id (\<lambda>w. w + 10) [?p] 100 0 = Some (r, w')"
    and "sr_drained r \<Longrightarrow> forced_participants r = []"
    by (auto split: if_splits)
  then show ?thesis by blast
qed

end
