(* ===== verification/Db_Migration.thy ===== *)
theory Db_Migration
  imports Nova_Prelude "HOL-Library.AList"
begin

text \<open>
  Schema migrations (\<^verbatim>\<open>include/novaboot/db/migration.h\<close>): checksums, the checks of declared against applied
  migrations, and the run that applies the pending ones with their ledger entries. The database is a
  parameter; the locale \<open>sql_ledger\<close> states what the runner's SQL means to it.
\<close>

unbundle bit_operations_syntax

section \<open>Migrations\<close>

datatype sql_param = P_int int | P_string string | P_bool bool

record 'w Migration =
  mg_version :: int
  mg_description :: string
  mg_checksum :: string
  mg_apply :: "('w \<Rightarrow> exn option \<times> 'w) option"

record AppliedMigration =
  am_version :: int
  am_description :: string
  am_checksum :: string
  am_success :: bool

record 'w migration_db =
  mdb_connect :: "'w \<Rightarrow> exn option \<times> 'w"
  mdb_execute :: "string \<Rightarrow> sql_param list \<Rightarrow> 'w \<Rightarrow> exn option \<times> 'w"
  mdb_rows :: "'w \<Rightarrow> AppliedMigration list result \<times> 'w"
  mdb_begin :: "'w \<Rightarrow> exn option \<times> 'w"
  mdb_commit :: "'w \<Rightarrow> exn option \<times> 'w"
  mdb_rollback :: "'w \<Rightarrow> exn option \<times> 'w"

definition fnv_step :: "char \<Rightarrow> 64 word \<Rightarrow> 64 word" where
  "fnv_step ch hash = (hash XOR of_nat (byte_of ch)) * 1099511628211"

definition fnv_hash :: "string \<Rightarrow> 64 word" where
  "fnv_hash txt = fold fnv_step txt 14695981039346656037"

definition hex16 :: "64 word \<Rightarrow> string" where
  "hex16 w = map (\<lambda>i. hex_digit (unat (drop_bit (4 * i) w) mod 16)) (rev [0..<16])"

definition checksum_of :: "string \<Rightarrow> string" where
  "checksum_of txt = hex16 (fnv_hash txt)"

definition Migration_sql :: "'w migration_db \<Rightarrow> int \<Rightarrow> string \<Rightarrow> string \<Rightarrow> 'w Migration" where
  "Migration_sql db version description statement =
     \<lparr>mg_version = version, mg_description = description, mg_checksum = checksum_of statement,
      mg_apply = Some (mdb_execute db statement [])\<rparr>"

definition Migration_callback :: "int \<Rightarrow> string \<Rightarrow> string \<Rightarrow> ('w \<Rightarrow> exn option \<times> 'w) option \<Rightarrow> 'w Migration" where
  "Migration_callback version description checksum f =
     \<lparr>mg_version = version, mg_description = description, mg_checksum = checksum, mg_apply = f\<rparr>"

definition MigrationException :: "string \<Rightarrow> exn" where
  "MigrationException w = Std_exception ''MigrationException'' w"

section \<open>The runner\<close>

definition create_sql :: string where
  "create_sql = ''CREATE TABLE IF NOT EXISTS novaboot_schema_migrations ('' @ ''version BIGINT PRIMARY KEY, '' @
     ''description VARCHAR(255) NOT NULL, '' @ ''checksum VARCHAR(64) NOT NULL, '' @ ''success BOOLEAN NOT NULL, '' @
     ''installed_at TIMESTAMP NOT NULL DEFAULT CURRENT_TIMESTAMP'' @ '')''"

definition alter_sqls :: "string list" where
  "alter_sqls =
     [''ALTER TABLE novaboot_schema_migrations '' @ ''ADD COLUMN checksum VARCHAR(64) NOT NULL DEFAULT '' @ [CHR 0x27] @ ''legacy'' @ [CHR 0x27],
      ''ALTER TABLE novaboot_schema_migrations '' @ ''ADD COLUMN success BOOLEAN NOT NULL DEFAULT true'',
      ''ALTER TABLE novaboot_schema_migrations '' @ ''ADD COLUMN installed_at TIMESTAMP'']"

definition insert_sql :: string where
  "insert_sql = ''INSERT INTO novaboot_schema_migrations '' @ ''(version, description, checksum, success) VALUES (?, ?, ?, ?)''"

definition update_sql :: string where
  "update_sql = ''UPDATE novaboot_schema_migrations SET success = ? WHERE version = ?''"

definition delete_sql :: string where
  "delete_sql = ''DELETE FROM novaboot_schema_migrations WHERE version = ?''"

text \<open>The best-effort upgrades: an exception of one statement is swallowed.\<close>

definition ensure_ledger :: "'w migration_db \<Rightarrow> 'w \<Rightarrow> exn option \<times> 'w" where
  "ensure_ledger db w =
     (case mdb_execute db create_sql [] w of
        (Some e, w1) \<Rightarrow> (Some e, w1)
      | (None, w1) \<Rightarrow> (None, fold (\<lambda>q w. snd (mdb_execute db q [] w)) alter_sqls w1))"

fun normalize_loop :: "int set \<Rightarrow> 'w Migration list \<Rightarrow> 'w Migration list result" where
  "normalize_loop declared [] = Inr []"
| "normalize_loop declared (m # ms) =
     (if mg_version m \<le> 0 \<or> mg_description m = [] \<or> mg_apply m = None
      then Inl (MigrationException ''Each migration needs a positive version, description, and callback'')
      else if mg_version m \<in> declared then Inl (MigrationException ''Migration versions must be unique'')
      else
        let m' = (if mg_checksum m = [] then m\<lparr>mg_checksum := checksum_of (mg_description m)\<rparr> else m)
        in case normalize_loop (insert (mg_version m) declared) ms of Inl e \<Rightarrow> Inl e | Inr ms' \<Rightarrow> Inr (m' # ms'))"

text \<open>
  Migrations of equal version may be sorted either way; the loop then throws whatever their order.
\<close>

definition normalize :: "'w Migration list \<Rightarrow> 'w Migration list result" where
  "normalize ms = normalize_loop {} (sort_key mg_version ms)"

definition emplace_row :: "AppliedMigration \<Rightarrow> (int \<times> AppliedMigration) list \<Rightarrow> (int \<times> AppliedMigration) list" where
  "emplace_row row m = (if am_version row \<in> fst ` set m then m else m @ [(am_version row, row)])"

definition applied_map :: "'w migration_db \<Rightarrow> 'w \<Rightarrow> (int \<times> AppliedMigration) list result \<times> 'w" where
  "applied_map db w =
     (case mdb_rows db w of
        (Inl e, w1) \<Rightarrow> (Inl e, w1)
      | (Inr rows, w1) \<Rightarrow> (Inr (fold emplace_row rows []), w1))"

definition row_params :: "'w Migration \<Rightarrow> bool \<Rightarrow> sql_param list" where
  "row_params m ok = [P_int (mg_version m), P_string (mg_description m), P_string (mg_checksum m), P_bool ok]"

definition record_failed :: "'w migration_db \<Rightarrow> 'w Migration \<Rightarrow> 'w \<Rightarrow> 'w" where
  "record_failed db m w =
     (case mdb_execute db delete_sql [P_int (mg_version m)] w of
        (Some _, w1) \<Rightarrow> w1
      | (None, w1) \<Rightarrow> snd (mdb_execute db insert_sql (row_params m False) w1))"

text \<open>Iteration over the applied rows is in the order \<open>ord\<close> of the hash map.\<close>

definition mg_applied ::
    "'w migration_db \<Rightarrow> ((int \<times> AppliedMigration) list \<Rightarrow> (int \<times> AppliedMigration) list) \<Rightarrow> 'w \<Rightarrow> AppliedMigration list result \<times> 'w" where
  "mg_applied db ord w =
     (case mdb_connect db w of
        (Some e, w1) \<Rightarrow> (Inl e, w1)
      | (None, w1) \<Rightarrow>
          (case ensure_ledger db w1 of
             (Some e, w2) \<Rightarrow> (Inl e, w2)
           | (None, w2) \<Rightarrow>
               (case applied_map db w2 of
                  (Inl e, w3) \<Rightarrow> (Inl e, w3)
                | (Inr rows, w3) \<Rightarrow> (Inr (sort_key am_version (map snd (ord rows))), w3))))"

definition check_row :: "(int \<rightharpoonup> 'w Migration) \<Rightarrow> int \<times> AppliedMigration \<Rightarrow> exn option" where
  "check_row declared vr =
     (case vr of (version, row) \<Rightarrow>
        if \<not> am_success row
        then Some (MigrationException (''Database contains failed migration version '' @ to_string_int version @
               ''; fix the database or repair the migration ledger''))
        else
          (case declared version of
             None \<Rightarrow> Some (MigrationException (''Database contains migration version '' @ to_string_int version @
                       '' that is not declared by this application''))
           | Some m \<Rightarrow>
               if am_description row \<noteq> mg_description m
               then Some (MigrationException (''Migration version '' @ to_string_int version @
                      '' description changed after it was applied''))
               else if am_checksum row \<noteq> ''legacy'' \<and> am_checksum row \<noteq> mg_checksum m
               then Some (MigrationException (''Migration version '' @ to_string_int version @
                      '' checksum changed after it was applied''))
               else None))"

fun check_rows :: "(int \<rightharpoonup> 'w Migration) \<Rightarrow> (int \<times> AppliedMigration) list \<Rightarrow> exn option" where
  "check_rows declared [] = None"
| "check_rows declared (vr # vrs) = (case check_row declared vr of Some e \<Rightarrow> Some e | None \<Rightarrow> check_rows declared vrs)"

text \<open>The body of the try block: ledger entry, callback, success mark, commit.\<close>

definition apply_body :: "'w migration_db \<Rightarrow> 'w Migration \<Rightarrow> 'w \<Rightarrow> exn option \<times> 'w" where
  "apply_body db m w =
     (case mdb_execute db insert_sql (row_params m False) w of
        (Some e, w1) \<Rightarrow> (Some e, w1)
      | (None, w1) \<Rightarrow>
          (case (case mg_apply m of None \<Rightarrow> (Some (Std_exception ''std::bad_function_call'' ''bad_function_call''), w1)
                 | Some f \<Rightarrow> f w1) of
             (Some e, w2) \<Rightarrow> (Some e, w2)
           | (None, w2) \<Rightarrow>
               (case mdb_execute db update_sql [P_bool True, P_int (mg_version m)] w2 of
                  (Some e, w3) \<Rightarrow> (Some e, w3)
                | (None, w3) \<Rightarrow> mdb_commit db w3)))"

definition apply_migration :: "'w migration_db \<Rightarrow> 'w Migration \<Rightarrow> 'w \<Rightarrow> exn option \<times> 'w" where
  "apply_migration db m w =
     (case mdb_begin db w of
        (Some e, w1) \<Rightarrow> (Some e, w1)
      | (None, w1) \<Rightarrow>
          (case apply_body db m w1 of
             (None, w2) \<Rightarrow> (None, w2)
           | (Some e, w2) \<Rightarrow> (Some e, record_failed db m (snd (mdb_rollback db w2)))))"

fun apply_pending :: "'w migration_db \<Rightarrow> int set \<Rightarrow> 'w Migration list \<Rightarrow> 'w \<Rightarrow> exn option \<times> 'w" where
  "apply_pending db applied [] w = (None, w)"
| "apply_pending db applied (m # ms) w =
     (if mg_version m \<in> applied then apply_pending db applied ms w
      else case apply_migration db m w of (Some e, w1) \<Rightarrow> (Some e, w1) | (None, w1) \<Rightarrow> apply_pending db applied ms w1)"

definition migration_run ::
    "'w migration_db \<Rightarrow> ((int \<times> AppliedMigration) list \<Rightarrow> (int \<times> AppliedMigration) list) \<Rightarrow> 'w Migration list \<Rightarrow> 'w \<Rightarrow>
     exn option \<times> 'w" where
  "migration_run db ord migrations w =
     (case normalize migrations of
        Inl e \<Rightarrow> (Some e, w)
      | Inr ms \<Rightarrow>
          (case mdb_connect db w of
             (Some e, w1) \<Rightarrow> (Some e, w1)
           | (None, w1) \<Rightarrow>
               (case ensure_ledger db w1 of
                  (Some e, w2) \<Rightarrow> (Some e, w2)
                | (None, w2) \<Rightarrow>
                    (case applied_map db w2 of
                       (Inl e, w3) \<Rightarrow> (Some e, w3)
                     | (Inr applied, w3) \<Rightarrow>
                         (case check_rows (map_of (map (\<lambda>m. (mg_version m, m)) ms)) (ord applied) of
                            Some e \<Rightarrow> (Some e, w3)
                          | None \<Rightarrow> apply_pending db (fst ` set applied) ms w3)))))"

section \<open>Checksums\<close>

lemma fnv_prime_inverse: "1099511628211 * 14886173955864302971 = (1 :: 64 word)"
  by simp

lemma fnv_mult_cancel:
  assumes "x * 1099511628211 = y * (1099511628211 :: 64 word)"
  shows "x = y"
proof -
  from assms have "x * (1099511628211 * 14886173955864302971) = y * (1099511628211 * 14886173955864302971)"
    by (simp only: mult.assoc [symmetric])
  then show ?thesis by (simp only: fnv_prime_inverse mult_1_right)
qed

lemma xor_cancel:
  assumes "a XOR b = a XOR c"
  shows "b = (c :: 64 word)"
proof -
  from assms have "a XOR (a XOR b) = a XOR (a XOR c)" by simp
  then show ?thesis by (simp flip: xor.assoc)
qed

lemma fnv_step_inject:
  assumes "fnv_step c h = fnv_step c h'"
  shows "h = h'"
proof -
  from assms have "h XOR of_nat (byte_of c) = h' XOR of_nat (byte_of c)" unfolding fnv_step_def by (rule fnv_mult_cancel)
  then have "of_nat (byte_of c) XOR h = of_nat (byte_of c) XOR h'" by (simp only: xor.commute)
  then show ?thesis by (rule xor_cancel)
qed

lemma fnv_step_char:
  assumes "fnv_step c h = fnv_step c' h"
  shows "c = c'"
proof -
  from assms have "of_nat (byte_of c) = (of_nat (byte_of c') :: 64 word)"
    unfolding fnv_step_def by (blast dest: fnv_mult_cancel xor_cancel)
  moreover have "byte_of x < 2 ^ LENGTH(64)" for x by (rule less_trans [of _ 256]) simp_all
  ultimately have "byte_of c = byte_of c'" by (metis of_nat_inverse)
  then show ?thesis by simp
qed

lemma fnv_fold_inject: "fold fnv_step v h = fold fnv_step v h' \<Longrightarrow> h = h'"
  by (induction v arbitrary: h h') (auto dest: fnv_step_inject)

lemma hex16_inject:
  assumes "hex16 w = hex16 w'"
  shows "w = w'"
proof (rule bit_word_eqI)
  fix n assume n: "n < LENGTH(64)"
  let ?i = "n div 4"
  have "?i < 16" using n by simp
  then have "hex_digit (unat (drop_bit (4 * ?i) w) mod 16) = hex_digit (unat (drop_bit (4 * ?i) w') mod 16)"
    using assms by (auto simp: hex16_def)
  then have "unat (drop_bit (4 * ?i) w) mod 16 = unat (drop_bit (4 * ?i) w') mod 16" by (simp add: hex_digit_inject)
  then have "bit (take_bit 4 (unat (drop_bit (4 * ?i) w))) (n mod 4) = bit (take_bit 4 (unat (drop_bit (4 * ?i) w'))) (n mod 4)"
    by (simp add: take_bit_eq_mod)
  moreover have "bit (unat (drop_bit (4 * ?i) x)) (n mod 4) = bit x n" for x :: "64 word"
    using n by (simp add: bit_unsigned_iff bit_drop_bit_eq)
  ultimately show "bit w n = bit w' n" by (simp add: bit_take_bit_iff)
qed

text \<open>
  Changing one character of a migration's text changes its checksum.
\<close>

theorem checksum_detects_edit:
  assumes "a \<noteq> b"
  shows "checksum_of (u @ a # v) \<noteq> checksum_of (u @ b # v)"
proof
  assume "checksum_of (u @ a # v) = checksum_of (u @ b # v)"
  then have "fnv_hash (u @ a # v) = fnv_hash (u @ b # v)" unfolding checksum_of_def by (rule hex16_inject)
  then have "fnv_step a (fold fnv_step u 14695981039346656037) = fnv_step b (fold fnv_step u 14695981039346656037)"
    by (simp add: fnv_hash_def fnv_fold_inject)
  with assms show False by (blast dest: fnv_step_char)
qed

theorem checksum_detects_edit_witness: "checksum_of ''ab'' \<noteq> checksum_of ''ac''"
  using checksum_detects_edit [of "CHR ''b''" "CHR ''c''" "''a''" "[]"] by simp

section \<open>What the runner needs of the database\<close>

type_synonym ledger = "int \<rightharpoonup> AppliedMigration"

definition ledger_row :: "'w Migration \<Rightarrow> bool \<Rightarrow> AppliedMigration" where
  "ledger_row m ok = \<lparr>am_version = mg_version m, am_description = mg_description m, am_checksum = mg_checksum m, am_success = ok\<rparr>"

text \<open>
  A callback changes the data by the effect of its version, or throws, and touches neither the ledger nor
  the transaction it runs in.
\<close>

definition sound_apply ::
    "('w \<Rightarrow> ledger \<times> 'd) \<Rightarrow> ('w \<Rightarrow> (ledger \<times> 'd) option) \<Rightarrow> (int \<Rightarrow> 'd \<Rightarrow> 'd result) \<Rightarrow> 'w Migration \<Rightarrow> bool" where
  "sound_apply view saved eff m \<longleftrightarrow>
     (\<exists>f. mg_apply m = Some f \<and>
        (\<forall>w. saved w \<noteq> None \<longrightarrow>
           (\<exists>w'. fst (view w') = fst (view w) \<and> saved w' = saved w \<and>
              (case eff (mg_version m) (snd (view w)) of
                 Inr d \<Rightarrow> f w = (None, w') \<and> snd (view w') = d
               | Inl e \<Rightarrow> f w = (Some e, w')))))"

text \<open>The plan: pending migrations in order, each with its effect and its ledger row, until one fails.\<close>

fun migrate_plan :: "(int \<Rightarrow> 'd \<Rightarrow> 'd result) \<Rightarrow> int set \<Rightarrow> 'w Migration list \<Rightarrow> ledger \<times> 'd \<Rightarrow> exn option \<times> ledger \<times> 'd" where
  "migrate_plan eff applied [] (l, d) = (None, l, d)"
| "migrate_plan eff applied (m # ms) (l, d) =
     (if mg_version m \<in> applied then migrate_plan eff applied ms (l, d)
      else case eff (mg_version m) d of
             Inr d' \<Rightarrow> migrate_plan eff applied ms (l(mg_version m \<mapsto> ledger_row m True), d')
           | Inl e \<Rightarrow> (Some e, l(mg_version m \<mapsto> ledger_row m False), d))"

lemma check_rows_None: "check_rows declared xs = None \<longleftrightarrow> (\<forall>x\<in>set xs. check_row declared x = None)"
  by (induction xs) (auto split: option.split)

lemma check_rows_Some: "check_rows declared xs = Some e \<Longrightarrow> \<exists>t. e = MigrationException t"
  by (induction xs) (auto simp: check_row_def split: prod.splits if_splits option.splits)

text \<open>
  \<open>view\<close> is what the connection sees: the ledger table and everything else. \<open>saved\<close> is what a rollback
  restores, when a transaction is open.
\<close>

locale sql_ledger =
  fixes db :: "'w migration_db" and view :: "'w \<Rightarrow> ledger \<times> 'd" and saved :: "'w \<Rightarrow> (ledger \<times> 'd) option"
  assumes connect: "\<exists>w'. mdb_connect db w = (None, w') \<and> view w' = view w \<and> saved w' = saved w"
    and create: "\<exists>w'. mdb_execute db create_sql [] w = (None, w') \<and> view w' = view w \<and> saved w' = saved w"
    and alter: "q \<in> set alter_sqls \<Longrightarrow> mdb_execute db q [] w = (e, w') \<Longrightarrow> view w' = view w \<and> saved w' = saved w"
    and rows: "\<exists>rs w'. mdb_rows db w = (Inr rs, w') \<and> view w' = view w \<and> saved w' = saved w \<and> distinct (map am_version rs) \<and>
      (\<forall>v r. fst (view w) v = Some r \<longleftrightarrow> r \<in> set rs \<and> am_version r = v)"
    and insert_row: "fst (view w) v = None \<Longrightarrow>
      \<exists>w'. mdb_execute db insert_sql [P_int v, P_string d, P_string c, P_bool b] w = (None, w') \<and> saved w' = saved w \<and>
        view w' = ((fst (view w))(v \<mapsto> \<lparr>am_version = v, am_description = d, am_checksum = c, am_success = b\<rparr>), snd (view w))"
    and update_row: "fst (view w) v = Some r \<Longrightarrow>
      \<exists>w'. mdb_execute db update_sql [P_bool b, P_int v] w = (None, w') \<and> saved w' = saved w \<and>
        view w' = ((fst (view w))(v \<mapsto> r\<lparr>am_success := b\<rparr>), snd (view w))"
    and delete_row: "\<exists>w'. mdb_execute db delete_sql [P_int v] w = (None, w') \<and> saved w' = saved w \<and>
        view w' = ((fst (view w))(v := None), snd (view w))"
    and begins: "saved w = None \<Longrightarrow> \<exists>w'. mdb_begin db w = (None, w') \<and> view w' = view w \<and> saved w' = Some (view w)"
    and commits: "saved w = Some x \<Longrightarrow> \<exists>w'. mdb_commit db w = (None, w') \<and> view w' = view w \<and> saved w' = None"
    and rolls: "saved w = Some x \<Longrightarrow> \<exists>w'. mdb_rollback db w = (None, w') \<and> view w' = x \<and> saved w' = None"
begin

lemma ensure_ledger_keeps: "\<exists>w'. ensure_ledger db w = (None, w') \<and> view w' = view w \<and> saved w' = saved w"
proof -
  have keep: "set qs \<subseteq> set alter_sqls \<Longrightarrow> view (fold (\<lambda>q w. snd (mdb_execute db q [] w)) qs w) = view w \<and>
      saved (fold (\<lambda>q w. snd (mdb_execute db q [] w)) qs w) = saved w" for qs w
  proof (induction qs arbitrary: w)
    case (Cons q qs)
    obtain e w1 where q: "mdb_execute db q [] w = (e, w1)" by fastforce
    from Cons alter [OF _ q] show ?case by (simp add: q)
  qed simp
  obtain w1 where w1: "mdb_execute db create_sql [] w = (None, w1)" "view w1 = view w" "saved w1 = saved w"
    using create by blast
  with keep [OF order_refl, of w1] show ?thesis unfolding ensure_ledger_def by simp
qed

lemma apply_migration_plan:
  assumes idle: "saved w = None" and new: "fst (view w) (mg_version m) = None" and f: "sound_apply view saved eff m"
  shows "case eff (mg_version m) (snd (view w)) of
      Inr d \<Rightarrow> \<exists>w'. apply_migration db m w = (None, w') \<and> saved w' = None \<and>
        view w' = ((fst (view w))(mg_version m \<mapsto> ledger_row m True), d)
    | Inl e \<Rightarrow> \<exists>w'. apply_migration db m w = (Some e, w') \<and> saved w' = None \<and>
        view w' = ((fst (view w))(mg_version m \<mapsto> ledger_row m False), snd (view w))"
proof -
  let ?v = "mg_version m"
  obtain w1 where w1: "mdb_begin db w = (None, w1)" "view w1 = view w" "saved w1 = Some (view w)" using begins [OF idle] by blast
  obtain w2 where w2: "mdb_execute db insert_sql (row_params m False) w1 = (None, w2)" "saved w2 = Some (view w)"
      "view w2 = ((fst (view w))(?v \<mapsto> ledger_row m False), snd (view w))"
    using insert_row [of w1 ?v "mg_description m" "mg_checksum m" False] w1 new by (auto simp: row_params_def ledger_row_def)
  obtain g where g: "mg_apply m = Some g" using f by (auto simp: sound_apply_def)
  then obtain w3 where w3: "fst (view w3) = (fst (view w))(?v \<mapsto> ledger_row m False)" "saved w3 = Some (view w)"
      and run: "case eff ?v (snd (view w)) of Inr d \<Rightarrow> g w2 = (None, w3) \<and> snd (view w3) = d | Inl e \<Rightarrow> g w2 = (Some e, w3)"
  proof -
    have "saved w2 \<noteq> None" using w2(2) by simp
    with f g obtain w3 where "fst (view w3) = fst (view w2) \<and> saved w3 = saved w2 \<and>
        (case eff ?v (snd (view w2)) of Inr d \<Rightarrow> g w2 = (None, w3) \<and> snd (view w3) = d | Inl e \<Rightarrow> g w2 = (Some e, w3))"
      by (auto simp: sound_apply_def simp del: not_None_eq)
    with w2 show thesis by (intro that [of w3]) simp_all
  qed
  show ?thesis
  proof (cases "eff ?v (snd (view w))")
    case (Inr d)
    obtain w4 where w4: "mdb_execute db update_sql [P_bool True, P_int ?v] w3 = (None, w4)" "saved w4 = Some (view w)"
        "view w4 = ((fst (view w))(?v \<mapsto> ledger_row m True), d)"
      using update_row [of w3 ?v "ledger_row m False" True] w3 run Inr by (auto simp: ledger_row_def)
    obtain w5 where "mdb_commit db w4 = (None, w5)" "view w5 = view w4" "saved w5 = None" using commits [OF w4(2)] by blast
    then show ?thesis using w1 w2 w4 run by (simp add: Inr apply_migration_def apply_body_def g)
  next
    case (Inl e)
    obtain w4 where w4: "mdb_rollback db w3 = (None, w4)" "view w4 = view w" "saved w4 = None" using rolls [OF w3(2)] by blast
    obtain w5 where w5: "mdb_execute db delete_sql [P_int ?v] w4 = (None, w5)" "saved w5 = None" "view w5 = view w"
      using delete_row [of ?v w4] w4 new by (auto simp: fun_upd_idem)
    obtain w6 where "mdb_execute db insert_sql (row_params m False) w5 = (None, w6)" "saved w6 = None"
        "view w6 = ((fst (view w))(?v \<mapsto> ledger_row m False), snd (view w))"
      using insert_row [of w5 ?v "mg_description m" "mg_checksum m" False] w5 new by (auto simp: row_params_def ledger_row_def)
    then show ?thesis using w1 w2 w4 w5 run by (simp add: Inl apply_migration_def apply_body_def g record_failed_def)
  qed
qed

lemma apply_pending_plan:
  assumes "saved w = None" "distinct (map mg_version ms)" "\<forall>m\<in>set ms. sound_apply view saved eff m"
    and "\<forall>m\<in>set ms. mg_version m \<notin> applied \<longrightarrow> fst (view w) (mg_version m) = None"
  shows "\<exists>w'. apply_pending db applied ms w = (fst (migrate_plan eff applied ms (view w)), w') \<and>
    view w' = snd (migrate_plan eff applied ms (view w)) \<and> saved w' = None"
  using assms
proof (induction ms arbitrary: w)
  case Nil
  then show ?case by (cases "view w") simp
next
  case (Cons m ms)
  obtain l d where v: "view w = (l, d)" by fastforce
  show ?case
  proof (cases "mg_version m \<in> applied")
    case True
    have "\<exists>w'. apply_pending db applied ms w = (fst (migrate_plan eff applied ms (view w)), w') \<and>
        view w' = snd (migrate_plan eff applied ms (view w)) \<and> saved w' = None"
      using Cons.prems by (intro Cons.IH) auto
    with True v show ?thesis by simp
  next
    case False
    with Cons.prems have new: "fst (view w) (mg_version m) = None" and f: "sound_apply view saved eff m" by auto
    note step = apply_migration_plan [OF Cons.prems(1) new f]
    show ?thesis
    proof (cases "eff (mg_version m) d")
      case (Inl e)
      with step v False show ?thesis by auto
    next
      case (Inr d')
      with step v obtain w1 where w1: "apply_migration db m w = (None, w1)" "saved w1 = None"
          "view w1 = (l(mg_version m \<mapsto> ledger_row m True), d')" by auto
      moreover have "\<forall>m'\<in>set ms. mg_version m' \<notin> applied \<longrightarrow> fst (view w1) (mg_version m') = None"
      proof (intro ballI impI)
        fix m' assume m': "m' \<in> set ms" "mg_version m' \<notin> applied"
        then have "mg_version m' \<noteq> mg_version m" using Cons.prems(2) by (metis distinct.simps(2) imageI list.set_map list.simps(9))
        with m' Cons.prems(4) w1(3) v show "fst (view w1) (mg_version m') = None" by simp
      qed
      ultimately have "\<exists>w'. apply_pending db applied ms w1 = (fst (migrate_plan eff applied ms (view w1)), w') \<and>
          view w' = snd (migrate_plan eff applied ms (view w1)) \<and> saved w' = None"
        using Cons.prems(2,3) by (intro Cons.IH) auto
      with w1 Inr False v show ?thesis by auto
    qed
  qed
qed

lemma applied_map_ledger:
  "\<exists>rs w'. applied_map db w = (Inr rs, w') \<and> view w' = view w \<and> saved w' = saved w \<and>
     (\<forall>v r. (v, r) \<in> set rs \<longleftrightarrow> fst (view w) v = Some r)"
proof -
  obtain rs w' where r: "mdb_rows db w = (Inr rs, w')" "view w' = view w" "saved w' = saved w" "distinct (map am_version rs)"
      "\<forall>v r. fst (view w) v = Some r \<longleftrightarrow> r \<in> set rs \<and> am_version r = v"
    using rows [of w] by blast
  have "fold emplace_row rs acc = acc @ map (\<lambda>r. (am_version r, r)) rs"
    if "distinct (map am_version rs)" "fst ` set acc \<inter> am_version ` set rs = {}" for rs acc
    using that by (induction rs arbitrary: acc) (auto simp: emplace_row_def)
  from this [OF r(4), of "[]"] r show ?thesis by (auto simp: applied_map_def)
qed

lemma run_starts:
  assumes "normalize migrations = Inr ms"
  obtains rs w' where "view w' = view w" "saved w' = saved w" "\<And>v r. (v, r) \<in> set rs \<longleftrightarrow> fst (view w) v = Some r"
    "migration_run db ord migrations w =
       (case check_rows (map_of (map (\<lambda>m. (mg_version m, m)) ms)) (ord rs) of
          Some e \<Rightarrow> (Some e, w') | None \<Rightarrow> apply_pending db (fst ` set rs) ms w')"
proof -
  obtain w1 where w1: "mdb_connect db w = (None, w1)" "view w1 = view w" "saved w1 = saved w" using connect by blast
  obtain w2 where w2: "ensure_ledger db w1 = (None, w2)" "view w2 = view w" "saved w2 = saved w"
    using ensure_ledger_keeps [of w1] w1 by auto
  obtain rs w3 where w3: "applied_map db w2 = (Inr rs, w3)" "view w3 = view w" "saved w3 = saved w"
      "\<forall>v r. (v, r) \<in> set rs \<longleftrightarrow> fst (view w) v = Some r"
    using applied_map_ledger [of w2] w2 by auto
  show thesis by (rule that [of w3 rs]) (use w1 w2 w3 assms in \<open>auto simp: migration_run_def\<close>)
qed

text \<open>A run against a ledger that matches the declarations carries out the plan.\<close>

lemma run_plan:
  assumes idle: "saved w = None" and ms: "normalize migrations = Inr ms" "distinct (map mg_version ms)"
    "\<forall>m\<in>set ms. sound_apply view saved eff m"
    and ord: "\<And>xs. set (ord xs) = set xs"
    and ok: "\<And>v r. fst (view w) v = Some r \<Longrightarrow> check_row (map_of (map (\<lambda>m. (mg_version m, m)) ms)) (v, r) = None"
  shows "\<exists>w'. migration_run db ord migrations w = (fst (migrate_plan eff (dom (fst (view w))) ms (view w)), w') \<and>
    view w' = snd (migrate_plan eff (dom (fst (view w))) ms (view w)) \<and> saved w' = None"
proof -
  obtain rs w1 where start: "view w1 = view w" "saved w1 = saved w" "\<And>v r. (v, r) \<in> set rs \<longleftrightarrow> fst (view w) v = Some r"
    and run: "migration_run db ord migrations w =
       (case check_rows (map_of (map (\<lambda>m. (mg_version m, m)) ms)) (ord rs) of
          Some e \<Rightarrow> (Some e, w1) | None \<Rightarrow> apply_pending db (fst ` set rs) ms w1)"
    by (rule run_starts [OF ms(1), of w ord], rule that)
  have "check_rows (map_of (map (\<lambda>m. (mg_version m, m)) ms)) (ord rs) = None"
    using ok start(3) ord by (auto simp: check_rows_None)
  moreover have "fst ` set rs = dom (fst (view w))" using start(3) by force
  moreover have "\<exists>w'. apply_pending db (dom (fst (view w))) ms w1 = (fst (migrate_plan eff (dom (fst (view w))) ms (view w1)), w') \<and>
      view w' = snd (migrate_plan eff (dom (fst (view w))) ms (view w1)) \<and> saved w' = None"
    using idle start(1,2) ms by (intro apply_pending_plan) auto
  ultimately show ?thesis by (simp add: run start(1))
qed

lemma run_refused:
  assumes ms: "normalize migrations = Inr ms" and ord: "\<And>xs. set (ord xs) = set xs"
    and bad: "fst (view w) v = Some r" "check_row (map_of (map (\<lambda>m. (mg_version m, m)) ms)) (v, r) \<noteq> None"
  shows "\<exists>e w'. migration_run db ord migrations w = (Some (MigrationException e), w') \<and> view w' = view w \<and> saved w' = saved w"
proof -
  obtain rs w1 where start: "view w1 = view w" "saved w1 = saved w" "\<And>v r. (v, r) \<in> set rs \<longleftrightarrow> fst (view w) v = Some r"
    and run: "migration_run db ord migrations w =
       (case check_rows (map_of (map (\<lambda>m. (mg_version m, m)) ms)) (ord rs) of
          Some e \<Rightarrow> (Some e, w1) | None \<Rightarrow> apply_pending db (fst ` set rs) ms w1)"
    by (rule run_starts [OF ms, of w ord], rule that)
  have "(v, r) \<in> set (ord rs)" using bad(1) start(3) ord by simp
  with bad(2) have "check_rows (map_of (map (\<lambda>m. (mg_version m, m)) ms)) (ord rs) \<noteq> None" by (auto simp: check_rows_None)
  then obtain t where "check_rows (map_of (map (\<lambda>m. (mg_version m, m)) ms)) (ord rs) = Some (MigrationException t)"
    using check_rows_Some by blast
  with run start show ?thesis by auto
qed

end

section \<open>Runs of declared migrations\<close>

lemma normalize_loop_sound:
  "normalize_loop D ms = Inr ms' \<Longrightarrow> map mg_version ms' = map mg_version ms \<and> map mg_apply ms' = map mg_apply ms \<and>
     distinct (map mg_version ms) \<and> mg_version ` set ms \<inter> D = {}"
  by (induction ms arbitrary: D ms') (auto simp: Let_def split: if_splits sum.splits)

lemma normalize_sound:
  assumes "normalize ms = Inr ms'"
  shows "distinct (map mg_version ms')" "sorted (map mg_version ms')"
    and "m' \<in> set ms' \<Longrightarrow> \<exists>m\<in>set ms. mg_version m = mg_version m' \<and> mg_apply m = mg_apply m'"
proof -
  let ?s = "sort_key mg_version ms"
  have s: "map mg_version ms' = map mg_version ?s" "map mg_apply ms' = map mg_apply ?s" "distinct (map mg_version ?s)"
    using normalize_loop_sound assms unfolding normalize_def by blast+
  then show "distinct (map mg_version ms')" "sorted (map mg_version ms')" by simp_all
  assume "m' \<in> set ms'"
  then obtain i where i: "i < length ms'" "m' = ms' ! i" by (auto simp: in_set_conv_nth)
  moreover have "length ms' = length ?s" using s(1) by (metis length_map)
  ultimately have "?s ! i \<in> set ms" "mg_version (?s ! i) = mg_version m'" "mg_apply (?s ! i) = mg_apply m'"
    using s(1,2) by (metis nth_mem set_sort, metis nth_map, metis nth_map)
  then show "\<exists>m\<in>set ms. mg_version m = mg_version m' \<and> mg_apply m = mg_apply m'" by blast
qed

text \<open>
  C21: When the ledger matches the declarations, a run carries out the plan: the pending migrations in the
  order of their versions, each with its effect and its ledger entry in one transaction, up to the first
  that throws; that one leaves no effect but its entry as failed, and its exception leaves the run.
\<close>

theorem migrations_follow_plan:
  assumes db: "sql_ledger db view saved" and idle: "saved w = None" and ms: "normalize migrations = Inr ms"
    and f: "\<forall>m\<in>set migrations. sound_apply view saved eff m" and ord: "\<forall>xs. set (ord xs) = set xs"
    and ok: "\<forall>v r. fst (view w) v = Some r \<longrightarrow> check_row (map_of (map (\<lambda>m. (mg_version m, m)) ms)) (v, r) = None"
  shows "sorted (map mg_version ms) \<and>
    (\<exists>w'. migration_run db ord migrations w = (fst (migrate_plan eff (dom (fst (view w))) ms (view w)), w') \<and>
      view w' = snd (migrate_plan eff (dom (fst (view w))) ms (view w)) \<and> saved w' = None)"
proof -
  note n = normalize_sound [OF ms]
  have "\<forall>m\<in>set ms. sound_apply view saved eff m"
  proof
    fix m' assume "m' \<in> set ms"
    then obtain m where "m \<in> set migrations" "mg_version m = mg_version m'" "mg_apply m = mg_apply m'" using n(3) by blast
    then show "sound_apply view saved eff m'" using f unfolding sound_apply_def by metis
  qed
  with sql_ledger.run_plan [OF db idle ms n(1)] ord ok n(2) show ?thesis by blast
qed

text \<open>
  A run stops before it changes anything when the ledger has a failed migration, one that is not
  declared any more, or one whose description or checksum changed.
\<close>

theorem migrations_refuse_drift:
  assumes db: "sql_ledger db view saved" and ms: "normalize migrations = Inr ms" and ord: "\<forall>xs. set (ord xs) = set xs"
    and row: "fst (view w) v = Some r"
    and drift: "\<not> am_success r \<or> v \<notin> mg_version ` set ms \<or>
      (\<exists>m\<in>set ms. mg_version m = v \<and>
        (am_description r \<noteq> mg_description m \<or> (am_checksum r \<noteq> ''legacy'' \<and> am_checksum r \<noteq> mg_checksum m)))"
  shows "\<exists>e w'. migration_run db ord migrations w = (Some (MigrationException e), w') \<and> view w' = view w"
proof -
  let ?d = "map_of (map (\<lambda>m. (mg_version m, m)) ms)"
  have none: "?d v = None \<longleftrightarrow> v \<notin> mg_version ` set ms" by (auto simp: map_of_eq_None_iff image_image)
  have "distinct (map fst (map (\<lambda>m. (mg_version m, m)) ms))" using normalize_sound(1) [OF ms] by (simp add: comp_def)
  then have some: "?d (mg_version m) = Some m" if "m \<in> set ms" for m using that by (intro map_of_is_SomeI) auto
  have "check_row ?d (v, r) \<noteq> None"
    using drift
  proof (elim disjE bexE conjE)
    fix m assume "m \<in> set ms" "mg_version m = v" "am_description r \<noteq> mg_description m"
    then show ?thesis using some [of m] by (simp add: check_row_def)
  next
    fix m assume "m \<in> set ms" "mg_version m = v" "am_checksum r \<noteq> ''legacy''" "am_checksum r \<noteq> mg_checksum m"
    then show ?thesis using some [of m] by (simp add: check_row_def)
  qed (simp_all add: check_row_def none [THEN iffD2])
  from sql_ledger.run_refused [OF db ms _ row this] ord show ?thesis by blast
qed

text \<open>A run that ends normally leaves every declared migration recorded; the next run has nothing to do.\<close>

lemma plan_complete:
  "migrate_plan eff applied ms (l, d) = (None, l', d') \<Longrightarrow> distinct (map mg_version ms) \<Longrightarrow>
     (\<forall>m\<in>set ms. mg_version m \<in> applied \<or> l' (mg_version m) = Some (ledger_row m True)) \<and>
     (\<forall>v. v \<notin> mg_version ` set ms \<longrightarrow> l' v = l v)"
proof (induction ms arbitrary: l d)
  case (Cons m ms)
  then show ?case by (cases "mg_version m \<in> applied"; cases "eff (mg_version m) d") fastforce+
qed simp

lemma plan_nothing_pending: "mg_version ` set ms \<subseteq> applied \<Longrightarrow> migrate_plan eff applied ms x = (None, x)"
  by (induction eff applied ms x rule: migrate_plan.induct) auto

section \<open>A database in memory\<close>

record mem_db =
  mem_rows :: "AppliedMigration list"
  mem_data :: "string list"
  mem_saved :: "(AppliedMigration list \<times> string list) option"

fun mem_select :: "AppliedMigration list \<Rightarrow> AppliedMigration list" where
  "mem_select [] = []"
| "mem_select (r # rs) = r # filter (\<lambda>q. am_version q \<noteq> am_version r) (mem_select rs)"

definition mem_update :: "int \<Rightarrow> bool \<Rightarrow> AppliedMigration list \<Rightarrow> AppliedMigration list" where
  "mem_update v b rs = map (\<lambda>r. if am_version r = v then r\<lparr>am_success := b\<rparr> else r) rs"

definition mem_execute :: "string \<Rightarrow> sql_param list \<Rightarrow> mem_db \<Rightarrow> exn option \<times> mem_db" where
  "mem_execute q ps s =
     (if q = create_sql then (None, s)
      else if q \<in> set alter_sqls then (Some (Runtime_error ''duplicate column name''), s)
      else if q = insert_sql then
        (case ps of
           [P_int v, P_string d, P_string c, P_bool b] \<Rightarrow>
             if v \<in> am_version ` set (mem_rows s) then (Some (Runtime_error ''UNIQUE constraint failed''), s)
             else (None, s\<lparr>mem_rows := mem_rows s @ [\<lparr>am_version = v, am_description = d, am_checksum = c, am_success = b\<rparr>]\<rparr>)
         | _ \<Rightarrow> (Some (Runtime_error ''bind''), s))
      else if q = update_sql then
        (case ps of
           [P_bool b, P_int v] \<Rightarrow> (None, s\<lparr>mem_rows := mem_update v b (mem_rows s)\<rparr>)
         | _ \<Rightarrow> (Some (Runtime_error ''bind''), s))
      else if q = delete_sql then
        (case ps of
           [P_int v] \<Rightarrow> (None, s\<lparr>mem_rows := filter (\<lambda>r. am_version r \<noteq> v) (mem_rows s)\<rparr>)
         | _ \<Rightarrow> (Some (Runtime_error ''bind''), s))
      else (None, s\<lparr>mem_data := mem_data s @ [q]\<rparr>))"

definition mem_ops :: "mem_db migration_db" where
  "mem_ops = \<lparr>mdb_connect = (\<lambda>s. (None, s)), mdb_execute = mem_execute, mdb_rows = (\<lambda>s. (Inr (mem_select (mem_rows s)), s)),
     mdb_begin = (\<lambda>s. (None, s\<lparr>mem_saved := Some (mem_rows s, mem_data s)\<rparr>)),
     mdb_commit = (\<lambda>s. (None, s\<lparr>mem_saved := None\<rparr>)),
     mdb_rollback = (\<lambda>s. case mem_saved s of None \<Rightarrow> (Some (Runtime_error ''no transaction''), s)
        | Some (rs, d) \<Rightarrow> (None, s\<lparr>mem_rows := rs, mem_data := d, mem_saved := None\<rparr>))\<rparr>"

definition mem_table :: "AppliedMigration list \<Rightarrow> ledger" where
  "mem_table rs = map_of (map (\<lambda>r. (am_version r, r)) rs)"

definition mem_view :: "mem_db \<Rightarrow> ledger \<times> string list" where
  "mem_view s = (mem_table (mem_rows s), mem_data s)"

definition mem_saved_view :: "mem_db \<Rightarrow> (ledger \<times> string list) option" where
  "mem_saved_view s = map_option (\<lambda>(rs, d). (mem_table rs, d)) (mem_saved s)"

lemma sql_distinct:
  "insert_sql \<noteq> create_sql" "update_sql \<noteq> create_sql" "delete_sql \<noteq> create_sql" "insert_sql \<notin> set alter_sqls"
  "update_sql \<notin> set alter_sqls" "delete_sql \<notin> set alter_sqls" "update_sql \<noteq> insert_sql" "delete_sql \<noteq> insert_sql"
  "delete_sql \<noteq> update_sql"
  by (simp_all add: create_sql_def alter_sqls_def insert_sql_def update_sql_def delete_sql_def)

lemma mem_table_simps:
  "mem_table [] = Map.empty" "mem_table (r # rs) = (mem_table rs)(am_version r \<mapsto> r)"
  by (simp_all add: mem_table_def)

lemma mem_table_None: "mem_table rs v = None \<longleftrightarrow> v \<notin> am_version ` set rs"
  by (induction rs) (auto simp: mem_table_simps)

lemma mem_table_key: "mem_table rs v = Some r \<Longrightarrow> am_version r = v"
  by (induction rs) (auto simp: mem_table_simps split: if_splits)

lemma mem_table_append: "v \<notin> am_version ` set rs \<Longrightarrow> am_version r = v \<Longrightarrow> mem_table (rs @ [r]) = (mem_table rs)(v \<mapsto> r)"
  by (induction rs) (auto simp: mem_table_simps)

lemma mem_table_update:
  "mem_table (mem_update v b rs) = (\<lambda>k. if k = v then map_option (am_success_update (\<lambda>_. b)) (mem_table rs v) else mem_table rs k)"
  by (induction rs) (auto simp: mem_update_def mem_table_simps fun_eq_iff)

lemma mem_table_delete: "mem_table (filter (\<lambda>r. am_version r \<noteq> v) rs) = (mem_table rs)(v := None)"
  by (induction rs) (auto simp: mem_table_simps fun_eq_iff)

lemma mem_select_table: "r \<in> set (mem_select rs) \<longleftrightarrow> mem_table rs (am_version r) = Some r"
  by (induction rs) (auto simp: mem_table_simps)

lemma mem_select_distinct: "distinct (map am_version (mem_select rs))"
  by (induction rs) (auto simp: distinct_map_filter)

interpretation mem: sql_ledger mem_ops mem_view mem_saved_view
proof unfold_locales
  fix w v r b d c q e w' and x :: "ledger \<times> string list"
  show "\<exists>w'. mdb_connect mem_ops w = (None, w') \<and> mem_view w' = mem_view w \<and> mem_saved_view w' = mem_saved_view w"
    by (simp add: mem_ops_def)
  show "\<exists>w'. mdb_execute mem_ops create_sql [] w = (None, w') \<and> mem_view w' = mem_view w \<and> mem_saved_view w' = mem_saved_view w"
    by (simp add: mem_ops_def mem_execute_def)
  show "mem_view w' = mem_view w \<and> mem_saved_view w' = mem_saved_view w"
    if "q \<in> set alter_sqls" "mdb_execute mem_ops q [] w = (e, w')"
    using that by (auto simp: mem_ops_def mem_execute_def split: if_splits)
  show "\<exists>rs w'. mdb_rows mem_ops w = (Inr rs, w') \<and> mem_view w' = mem_view w \<and> mem_saved_view w' = mem_saved_view w \<and>
      distinct (map am_version rs) \<and> (\<forall>v r. fst (mem_view w) v = Some r \<longleftrightarrow> r \<in> set rs \<and> am_version r = v)"
    by (auto simp: mem_ops_def mem_view_def mem_select_distinct mem_select_table dest: mem_table_key)
  show "\<exists>w'. mdb_execute mem_ops insert_sql [P_int v, P_string d, P_string c, P_bool b] w = (None, w') \<and> mem_saved_view w' = mem_saved_view w \<and>
      mem_view w' = ((fst (mem_view w))(v \<mapsto> \<lparr>am_version = v, am_description = d, am_checksum = c, am_success = b\<rparr>), snd (mem_view w))"
    if "fst (mem_view w) v = None"
    using that by (simp add: mem_ops_def mem_execute_def sql_distinct mem_view_def mem_saved_view_def mem_table_None mem_table_append)
  show "\<exists>w'. mdb_execute mem_ops update_sql [P_bool b, P_int v] w = (None, w') \<and> mem_saved_view w' = mem_saved_view w \<and>
      mem_view w' = ((fst (mem_view w))(v \<mapsto> r\<lparr>am_success := b\<rparr>), snd (mem_view w))"
    if "fst (mem_view w) v = Some r"
    using that by (auto simp: mem_ops_def mem_execute_def sql_distinct mem_view_def mem_saved_view_def mem_table_update fun_eq_iff)
  show "\<exists>w'. mdb_execute mem_ops delete_sql [P_int v] w = (None, w') \<and> mem_saved_view w' = mem_saved_view w \<and>
      mem_view w' = ((fst (mem_view w))(v := None), snd (mem_view w))"
    by (simp add: mem_ops_def mem_execute_def sql_distinct mem_view_def mem_saved_view_def mem_table_delete)
  show "\<exists>w'. mdb_begin mem_ops w = (None, w') \<and> mem_view w' = mem_view w \<and> mem_saved_view w' = Some (mem_view w)"
    by (simp add: mem_ops_def mem_view_def mem_saved_view_def)
  show "\<exists>w'. mdb_commit mem_ops w = (None, w') \<and> mem_view w' = mem_view w \<and> mem_saved_view w' = None"
    by (simp add: mem_ops_def mem_view_def mem_saved_view_def)
  show "\<exists>w'. mdb_rollback mem_ops w = (None, w') \<and> mem_view w' = x \<and> mem_saved_view w' = None"
    if "mem_saved_view w = Some x"
    using that by (auto simp: mem_ops_def mem_view_def mem_saved_view_def)
qed

text \<open>Two migrations, the second of which throws.\<close>

definition demo_migrations :: "mem_db Migration list" where
  "demo_migrations = [Migration_callback 2 ''two'' ''c2'' (Some (\<lambda>s. (Some (Runtime_error ''syntax''), s))),
     Migration_callback 1 ''one'' ''c1'' (Some (mem_execute ''CREATE TABLE t'' []))]"

definition demo_effect :: "int \<Rightarrow> string list \<Rightarrow> string list result" where
  "demo_effect v d = (if v = 1 then Inr (d @ [''CREATE TABLE t'']) else Inl (Runtime_error ''syntax''))"

definition mem_empty :: mem_db where
  "mem_empty = \<lparr>mem_rows = [], mem_data = [], mem_saved = None\<rparr>"

lemma demo_normalized: "normalize demo_migrations = Inr (rev demo_migrations)"
  by (simp add: normalize_def demo_migrations_def Migration_callback_def)

lemma statement_is_data: "mem_execute ''CREATE TABLE t'' [] s = (None, s\<lparr>mem_data := mem_data s @ [''CREATE TABLE t'']\<rparr>)"
  by (simp add: mem_execute_def create_sql_def alter_sqls_def insert_sql_def update_sql_def delete_sql_def)

theorem migrations_follow_plan_witness:
  "\<exists>w'. migration_run mem_ops (\<lambda>xs. xs) demo_migrations mem_empty = (Some (Runtime_error ''syntax''), w') \<and>
     snd (mem_view w') = [''CREATE TABLE t'']"
proof -
  have f: "\<forall>m\<in>set demo_migrations. sound_apply mem_view mem_saved_view demo_effect m"
    by (auto simp: demo_migrations_def sound_apply_def demo_effect_def Migration_callback_def statement_is_data
        mem_view_def mem_saved_view_def)
  have "mem_saved_view mem_empty = None" "\<forall>v r. fst (mem_view mem_empty) v = Some r \<longrightarrow>
      check_row (map_of (map (\<lambda>m. (mg_version m, m)) (rev demo_migrations))) (v, r) = None" "\<forall>xs. set xs = set xs"
    by (simp_all add: mem_empty_def mem_view_def mem_saved_view_def mem_table_def)
  from migrations_follow_plan [OF mem.sql_ledger_axioms this(1) demo_normalized f this(3,2)]
  show ?thesis by (auto simp: demo_migrations_def mem_empty_def mem_view_def demo_effect_def Migration_callback_def mem_table_simps)
qed

theorem migrations_refuse_drift_witness:
  "\<exists>e w'. migration_run mem_ops (\<lambda>xs. xs) demo_migrations
      (mem_empty\<lparr>mem_rows := [\<lparr>am_version = 7, am_description = ''x'', am_checksum = ''c'', am_success = True\<rparr>]\<rparr>) =
      (Some (MigrationException e), w')"
proof -
  let ?r = "\<lparr>am_version = 7, am_description = ''x'', am_checksum = ''c'', am_success = True\<rparr>"
  have "fst (mem_view (mem_empty\<lparr>mem_rows := [?r]\<rparr>)) 7 = Some ?r" by (simp add: mem_view_def mem_table_def)
  moreover have "7 \<notin> mg_version ` set (rev demo_migrations)" by (simp add: demo_migrations_def Migration_callback_def)
  ultimately show ?thesis
    using migrations_refuse_drift [OF mem.sql_ledger_axioms demo_normalized, of "\<lambda>xs. xs" "mem_empty\<lparr>mem_rows := [?r]\<rparr>" 7 ?r] by blast
qed

section \<open>Two instances at once\<close>

text \<open>
  When another instance has applied a migration between the check and the insert, the insert fails on the
  primary key, and recording the failure replaces the other instance's successful entry.
\<close>

lemma migration_race_overwrites_success:
  assumes "mem_rows w = [ledger_row m True]" "mem_saved w = None"
  shows "apply_migration mem_ops m w =
    (Some (Runtime_error ''UNIQUE constraint failed''), w\<lparr>mem_rows := [ledger_row m False], mem_saved := None\<rparr>)"
  using assms
  by (cases w) (auto simp: apply_migration_def apply_body_def record_failed_def mem_ops_def mem_execute_def row_params_def
    sql_distinct ledger_row_def)

end
