(* ===== verification/Db_Query.thy ===== *)
theory Db_Query
  imports Nova_Prelude "HOL-Library.Signed_Division"
begin

text \<open>
  The query builder (\<^verbatim>\<open>db/query_builder.h\<close>) and the SQL dialects (\<^verbatim>\<open>db/dialect.h\<close>). What compile-time reflection
  knows of an entity, its table, its columns and its relations, is a parameter. The builder is
  parametric in the type of bound values, as it only passes them on. Executing a query is the pair of the
  text and the bound values handed to the connection.
\<close>

section \<open>Dialects\<close>

datatype SqlDialect = SqliteDialect | PostgresDialect

fun number_placeholders :: "nat \<Rightarrow> string \<Rightarrow> string" where
  "number_placeholders n [] = []"
| "number_placeholders n (c # s) =
     (if c = CHR ''?'' then ''$'' @ to_string_nat n @ number_placeholders (Suc n) s else c # number_placeholders n s)"

definition convert_placeholders :: "SqlDialect \<Rightarrow> string \<Rightarrow> string" where
  "convert_placeholders d sql = (case d of SqliteDialect \<Rightarrow> sql | PostgresDialect \<Rightarrow> number_placeholders 1 sql)"

definition compile_pagination :: "SqlDialect \<Rightarrow> int \<Rightarrow> int \<Rightarrow> string" where
  "compile_pagination d limit offset =
     (if limit > 0 then '' LIMIT '' @ to_string_int limit else []) @
     (if offset > 0 then '' OFFSET '' @ to_string_int offset else [])"

section \<open>Entities\<close>

record entity_info =
  ent_table :: string
  ent_columns :: "string list"
  ent_pk :: string

text \<open>A many-to-one member: its name, its join column and the entity it refers to.\<close>

record relation =
  rel_member :: string
  rel_column :: string
  rel_target :: entity_info

definition comma_list :: "string list \<Rightarrow> string" where
  "comma_list xs = (case xs of [] \<Rightarrow> [] | x # ys \<Rightarrow> x @ concat (map (\<lambda>y. '', '' @ y) ys))"

definition select_column_list :: "entity_info \<Rightarrow> string" where
  "select_column_list e = comma_list (ent_columns e)"

definition qualified_column_list :: "string \<Rightarrow> entity_info \<Rightarrow> string" where
  "qualified_column_list qualifier e =
     comma_list (map (\<lambda>c. (if qualifier = [] then [] else qualifier @ ''.'') @ c) (ent_columns e))"

definition aliased_column_list :: "string \<Rightarrow> string \<Rightarrow> entity_info \<Rightarrow> string" where
  "aliased_column_list qualifier prefix e =
     comma_list (map (\<lambda>c. (if qualifier = [] then [] else qualifier @ ''.'') @ c @ '' AS '' @ prefix @ c) (ent_columns e))"

definition is_persisted_column :: "entity_info \<Rightarrow> string \<Rightarrow> bool" where
  "is_persisted_column e column \<longleftrightarrow> column \<in> set (ent_columns e)"

section \<open>The builder\<close>

datatype Op = Equal | LessThan | GreaterThan | Like | NotEqual | LessThanOrEqual | GreaterThanOrEqual

fun get_op_symbol :: "Op \<Rightarrow> string" where
  "get_op_symbol Equal = '' = ''"
| "get_op_symbol LessThan = '' < ''"
| "get_op_symbol GreaterThan = '' > ''"
| "get_op_symbol Like = '' LIKE ''"
| "get_op_symbol NotEqual = '' != ''"
| "get_op_symbol LessThanOrEqual = '' <= ''"
| "get_op_symbol GreaterThanOrEqual = '' >= ''"

record 'p QueryBuilder =
  qb_table :: string
  sql_where :: string
  qb_params :: "'p list"
  sql_order :: string
  limit_val :: int
  offset_val :: int
  fetch_to_one :: "string list"
  fetch_collection :: "string list"

definition new_builder :: "string \<Rightarrow> 'p QueryBuilder" where
  "new_builder table = \<lparr>qb_table = table, sql_where = [], qb_params = [], sql_order = [], limit_val = - 1, offset_val = - 1,
     fetch_to_one = [], fetch_collection = []\<rparr>"

definition append_condition :: "string \<Rightarrow> 'p list \<Rightarrow> string \<Rightarrow> 'p QueryBuilder \<Rightarrow> 'p QueryBuilder" where
  "append_condition condition ps connector q =
     q\<lparr>sql_where := (if sql_where q = [] then '' WHERE '' @ condition else sql_where q @ '' '' @ connector @ '' '' @ condition),
       qb_params := qb_params q @ ps\<rparr>"

definition clear_where :: "'p QueryBuilder \<Rightarrow> 'p QueryBuilder" where
  "clear_where q = q\<lparr>sql_where := [], qb_params := []\<rparr>"

definition placeholders_for :: "nat \<Rightarrow> string" where
  "placeholders_for n = comma_list (replicate n ''?'')"

definition append_in :: "string \<Rightarrow> 'p list \<Rightarrow> string \<Rightarrow> 'p QueryBuilder \<Rightarrow> 'p QueryBuilder" where
  "append_in col ps connector q =
     (if ps = [] then append_condition ''1 = 0'' [] connector q
      else append_condition (col @ '' IN ('' @ placeholders_for (length ps) @ '')'') ps connector q)"

definition qb_where :: "string \<Rightarrow> Op \<Rightarrow> 'p \<Rightarrow> 'p QueryBuilder \<Rightarrow> 'p QueryBuilder" where
  "qb_where col op v q = append_condition (col @ get_op_symbol op @ ''?'') [v] ''AND'' (clear_where q)"

definition qb_and :: "string \<Rightarrow> Op \<Rightarrow> 'p \<Rightarrow> 'p QueryBuilder \<Rightarrow> 'p QueryBuilder" where
  "qb_and col op v q =
     (if sql_where q = [] then qb_where col op v q else append_condition (col @ get_op_symbol op @ ''?'') [v] ''AND'' q)"

definition qb_or :: "string \<Rightarrow> Op \<Rightarrow> 'p \<Rightarrow> 'p QueryBuilder \<Rightarrow> 'p QueryBuilder" where
  "qb_or col op v q =
     (if sql_where q = [] then qb_where col op v q else append_condition (col @ get_op_symbol op @ ''?'') [v] ''OR'' q)"

definition related_condition :: "relation \<Rightarrow> string \<Rightarrow> Op \<Rightarrow> string" where
  "related_condition r col op =
     rel_column r @ '' IN (SELECT '' @ ent_pk (rel_target r) @ '' FROM '' @ ent_table (rel_target r) @ '' WHERE '' @
     col @ get_op_symbol op @ ''?)''"

definition and_related :: "relation \<Rightarrow> string \<Rightarrow> Op \<Rightarrow> 'p \<Rightarrow> 'p QueryBuilder \<Rightarrow> 'p QueryBuilder" where
  "and_related r col op v q = append_condition (related_condition r col op) [v] ''AND'' q"

definition where_related :: "relation \<Rightarrow> string \<Rightarrow> Op \<Rightarrow> 'p \<Rightarrow> 'p QueryBuilder \<Rightarrow> 'p QueryBuilder" where
  "where_related r col op v q = and_related r col op v (clear_where q)"

definition or_related :: "relation \<Rightarrow> string \<Rightarrow> Op \<Rightarrow> 'p \<Rightarrow> 'p QueryBuilder \<Rightarrow> 'p QueryBuilder" where
  "or_related r col op v q =
     (if sql_where q = [] then where_related r col op v q
      else append_condition (related_condition r col op) [v] ''OR'' q)"

definition where_is_null :: "string \<Rightarrow> 'p QueryBuilder \<Rightarrow> 'p QueryBuilder" where
  "where_is_null col q = append_condition (col @ '' IS NULL'') [] ''AND'' (clear_where q)"

definition where_is_not_null :: "string \<Rightarrow> 'p QueryBuilder \<Rightarrow> 'p QueryBuilder" where
  "where_is_not_null col q = append_condition (col @ '' IS NOT NULL'') [] ''AND'' (clear_where q)"

definition and_is_null :: "string \<Rightarrow> 'p QueryBuilder \<Rightarrow> 'p QueryBuilder" where
  "and_is_null col q = append_condition (col @ '' IS NULL'') [] ''AND'' q"

definition or_is_null :: "string \<Rightarrow> 'p QueryBuilder \<Rightarrow> 'p QueryBuilder" where
  "or_is_null col q = append_condition (col @ '' IS NULL'') [] ''OR'' q"

definition where_in :: "string \<Rightarrow> 'p list \<Rightarrow> 'p QueryBuilder \<Rightarrow> 'p QueryBuilder" where
  "where_in col ps q = append_in col ps ''AND'' (clear_where q)"

definition and_in :: "string \<Rightarrow> 'p list \<Rightarrow> 'p QueryBuilder \<Rightarrow> 'p QueryBuilder" where
  "and_in col ps q = append_in col ps ''AND'' q"

definition where_between :: "string \<Rightarrow> 'p \<Rightarrow> 'p \<Rightarrow> 'p QueryBuilder \<Rightarrow> 'p QueryBuilder" where
  "where_between col lo hi q = append_condition (col @ '' BETWEEN ? AND ?'') [lo, hi] ''AND'' (clear_where q)"

definition and_between :: "string \<Rightarrow> 'p \<Rightarrow> 'p \<Rightarrow> 'p QueryBuilder \<Rightarrow> 'p QueryBuilder" where
  "and_between col lo hi q = append_condition (col @ '' BETWEEN ? AND ?'') [lo, hi] ''AND'' q"

definition add_order :: "string \<Rightarrow> bool \<Rightarrow> 'p QueryBuilder \<Rightarrow> 'p QueryBuilder" where
  "add_order expr ascending q =
     q\<lparr>sql_order := (if sql_order q = [] then '' ORDER BY '' else sql_order q @ '', '') @ expr @ (if ascending then '' ASC'' else '' DESC'')\<rparr>"

definition append_order_by_column :: "entity_info \<Rightarrow> string \<Rightarrow> bool \<Rightarrow> 'p QueryBuilder \<Rightarrow> exn option \<times> 'p QueryBuilder" where
  "append_order_by_column e column ascending q =
     (if \<not> is_persisted_column e column
      then (Some (Invalid_argument (''QueryBuilder sort column is not a persisted entity field: '' @ column)), q)
      else (None, add_order column ascending q))"

definition order_by_related :: "relation \<Rightarrow> string \<Rightarrow> bool \<Rightarrow> 'p QueryBuilder \<Rightarrow> 'p QueryBuilder" where
  "order_by_related r col ascending q =
     add_order (''(SELECT '' @ col @ '' FROM '' @ ent_table (rel_target r) @ '' WHERE '' @ ent_pk (rel_target r) @ '' = '' @ rel_column r @ '')'')
       ascending q"

definition qb_limit :: "int \<Rightarrow> 'p QueryBuilder \<Rightarrow> 'p QueryBuilder" where
  "qb_limit n q = q\<lparr>limit_val := n\<rparr>"

definition qb_offset :: "int \<Rightarrow> 'p QueryBuilder \<Rightarrow> 'p QueryBuilder" where
  "qb_offset n q = q\<lparr>offset_val := n\<rparr>"

definition fetch_relation :: "bool \<Rightarrow> string \<Rightarrow> 'p QueryBuilder \<Rightarrow> 'p QueryBuilder" where
  "fetch_relation collection member q =
     (if collection then q\<lparr>fetch_collection := List.insert member (fetch_collection q)\<rparr>
      else q\<lparr>fetch_to_one := List.insert member (fetch_to_one q)\<rparr>)"

text \<open>
  A chain of calls on a builder. The callback of a group is itself such a chain, run on a fresh builder.
\<close>

datatype 'p query_call =
    Where string Op 'p | And string Op 'p | Or string Op 'p
  | Where_related relation string Op 'p | And_related relation string Op 'p | Or_related relation string Op 'p
  | Where_is_null string | Where_is_not_null string | And_is_null string | Or_is_null string
  | Where_in string "'p list" | And_in string "'p list"
  | Where_between string 'p 'p | And_between string 'p 'p
  | Where_group "'p query_call list" | And_group "'p query_call list" | Or_group "'p query_call list"
  | Order_by string bool | Order_by_related relation string bool
  | Limit int | Offset int | Fetch bool string

definition close_group ::
    "string \<Rightarrow> exn option \<times> 'p QueryBuilder \<Rightarrow> 'p QueryBuilder \<Rightarrow> exn option \<times> 'p QueryBuilder" where
  "close_group connector r q =
     (case r of
        (Some e, _) \<Rightarrow> (Some e, q)
      | (None, inner) \<Rightarrow>
          (if sql_where inner = [] then (Some (Invalid_argument ''QueryBuilder group must contain a predicate''), q)
           else (None, append_condition (''('' @ drop 7 (sql_where inner) @ '')'') (qb_params inner) connector q)))"

fun run_call :: "entity_info \<Rightarrow> 'p query_call \<Rightarrow> 'p QueryBuilder \<Rightarrow> exn option \<times> 'p QueryBuilder"
  and run_calls :: "entity_info \<Rightarrow> 'p query_call list \<Rightarrow> 'p QueryBuilder \<Rightarrow> exn option \<times> 'p QueryBuilder" where
  "run_call e (Where c op v) q = (None, qb_where c op v q)"
| "run_call e (And c op v) q = (None, qb_and c op v q)"
| "run_call e (Or c op v) q = (None, qb_or c op v q)"
| "run_call e (Where_related r c op v) q = (None, where_related r c op v q)"
| "run_call e (And_related r c op v) q = (None, and_related r c op v q)"
| "run_call e (Or_related r c op v) q = (None, or_related r c op v q)"
| "run_call e (Where_is_null c) q = (None, where_is_null c q)"
| "run_call e (Where_is_not_null c) q = (None, where_is_not_null c q)"
| "run_call e (And_is_null c) q = (None, and_is_null c q)"
| "run_call e (Or_is_null c) q = (None, or_is_null c q)"
| "run_call e (Where_in c vs) q = (None, where_in c vs q)"
| "run_call e (And_in c vs) q = (None, and_in c vs q)"
| "run_call e (Where_between c a b) q = (None, where_between c a b q)"
| "run_call e (And_between c a b) q = (None, and_between c a b q)"
| "run_call e (Where_group cs) q = close_group ''AND'' (run_calls e cs (new_builder (qb_table q))) (clear_where q)"
| "run_call e (And_group cs) q = close_group ''AND'' (run_calls e cs (new_builder (qb_table q))) q"
| "run_call e (Or_group cs) q = close_group ''OR'' (run_calls e cs (new_builder (qb_table q))) q"
| "run_call e (Order_by c asc) q = append_order_by_column e c asc q"
| "run_call e (Order_by_related r c asc) q = (None, order_by_related r c asc q)"
| "run_call e (Limit n) q = (None, qb_limit n q)"
| "run_call e (Offset n) q = (None, qb_offset n q)"
| "run_call e (Fetch b m) q = (None, fetch_relation b m q)"
| "run_calls e [] q = (None, q)"
| "run_calls e (c # cs) q = (case run_call e c q of (Some x, q1) \<Rightarrow> (Some x, q1) | (None, q1) \<Rightarrow> run_calls e cs q1)"

section \<open>Queries\<close>

definition join_fetch_prefix :: "string \<Rightarrow> string" where
  "join_fetch_prefix member = ''__novaboot_'' @ member @ ''_''"

definition join_fetch_alias :: "string \<Rightarrow> string" where
  "join_fetch_alias member = ''__nb_'' @ member"

definition joined_to_one_sql :: "relation list \<Rightarrow> 'p QueryBuilder \<Rightarrow> string \<times> string" where
  "joined_to_one_sql rels q =
     (let rs = filter (\<lambda>r. rel_member r \<in> set (fetch_to_one q)) rels
      in (concat (map (\<lambda>r. '', '' @ aliased_column_list (join_fetch_alias (rel_member r)) (join_fetch_prefix (rel_member r)) (rel_target r)) rs),
          concat (map (\<lambda>r. '' LEFT JOIN '' @ ent_table (rel_target r) @ '' '' @ join_fetch_alias (rel_member r) @ '' ON nb_root.'' @
            rel_column r @ '' = '' @ join_fetch_alias (rel_member r) @ ''.'' @ ent_pk (rel_target r)) rs)))"

definition select_sql :: "SqlDialect \<Rightarrow> string \<Rightarrow> 'p QueryBuilder \<Rightarrow> string" where
  "select_sql d columns q =
     ''SELECT '' @ columns @ '' FROM '' @ qb_table q @ sql_where q @ sql_order q @ compile_pagination d (limit_val q) (offset_val q)"

definition build_list_sql :: "SqlDialect \<Rightarrow> entity_info \<Rightarrow> relation list \<Rightarrow> 'p QueryBuilder \<Rightarrow> string" where
  "build_list_sql d e rels q =
     (let base_sql = select_sql d (select_column_list e) q
      in if fetch_to_one q = [] then base_sql
         else case joined_to_one_sql rels q of
                (columns, joins) \<Rightarrow>
                  ''SELECT '' @ qualified_column_list ''nb_root'' e @ columns @ '' FROM ('' @ base_sql @ '') nb_root'' @ joins)"

type_synonym 'p query = "string \<times> 'p list"

definition list_query :: "SqlDialect \<Rightarrow> entity_info \<Rightarrow> relation list \<Rightarrow> 'p QueryBuilder \<Rightarrow> 'p query" where
  "list_query d e rels q = (convert_placeholders d (build_list_sql d e rels q), qb_params q)"

text \<open>The limit that \<^verbatim>\<open>single\<close> sets stays in the builder.\<close>

definition single_query :: "SqlDialect \<Rightarrow> entity_info \<Rightarrow> relation list \<Rightarrow> 'p QueryBuilder \<Rightarrow> 'p query \<times> 'p QueryBuilder" where
  "single_query d e rels q = (list_query d e rels (qb_limit 1 q), qb_limit 1 q)"

definition project_query :: "SqlDialect \<Rightarrow> entity_info \<Rightarrow> 'p QueryBuilder \<Rightarrow> 'p query" where
  "project_query d projection q = (convert_placeholders d (select_sql d (select_column_list projection) q), qb_params q)"

definition project_single_query :: "SqlDialect \<Rightarrow> entity_info \<Rightarrow> 'p QueryBuilder \<Rightarrow> 'p query \<times> 'p QueryBuilder" where
  "project_single_query d projection q = (project_query d projection (qb_limit 1 q), qb_limit 1 q)"

definition count_query :: "SqlDialect \<Rightarrow> 'p QueryBuilder \<Rightarrow> 'p query" where
  "count_query d q = (convert_placeholders d (''SELECT COUNT(1) FROM '' @ qb_table q @ sql_where q), qb_params q)"

definition exists_query :: "SqlDialect \<Rightarrow> 'p QueryBuilder \<Rightarrow> 'p query" where
  "exists_query d q =
     (convert_placeholders d (''SELECT 1 FROM '' @ qb_table q @ sql_where q @ compile_pagination d 1 (- 1)), qb_params q)"

record Pageable =
  pg_page :: int
  pg_size :: int
  pg_sort :: "(string \<times> bool) list"

fun append_sorts :: "entity_info \<Rightarrow> (string \<times> bool) list \<Rightarrow> 'p QueryBuilder \<Rightarrow> exn option \<times> 'p QueryBuilder" where
  "append_sorts e [] q = (None, q)"
| "append_sorts e ((column, ascending) # ss) q =
     (case append_order_by_column e column ascending q of
        (Some x, q1) \<Rightarrow> (Some x, q1)
      | (None, q1) \<Rightarrow> append_sorts e ss q1)"

text \<open>The queries of a page: the count, then the rows. The offset is a product of 32-bit integers.\<close>

definition page_queries ::
    "SqlDialect \<Rightarrow> entity_info \<Rightarrow> relation list \<Rightarrow> Pageable \<Rightarrow> 'p QueryBuilder \<Rightarrow> ('p query \<times> 'p query) result" where
  "page_queries d e rels p q =
     (if pg_page p < 0 \<or> pg_size p \<le> 0
      then Inl (Invalid_argument ''Pageable requires a non-negative page and a positive size'')
      else case append_sorts e (pg_sort p) q of
             (Some x, _) \<Rightarrow> Inl x
           | (None, paged) \<Rightarrow>
               (if pg_page p * pg_size p \<ge> 2 ^ 31 then Inl (Undefined_behaviour ''signed integer overflow'')
                else Inr (count_query d q, list_query d e rels (qb_offset (pg_page p * pg_size p) (qb_limit (pg_size p) paged)))))"

record 'a Page =
  page_content :: "'a list"
  page_number :: int
  page_size :: int
  total_elements :: int

definition total_pages :: "'a Page \<Rightarrow> int" where
  "total_pages p = (if page_size p = 0 then 0 else (total_elements p + page_size p - 1) sdiv page_size p)"

definition has_next :: "'a Page \<Rightarrow> bool result" where
  "has_next p =
     (if page_number p + 1 \<ge> 2 ^ 31 then Inl (Undefined_behaviour ''signed integer overflow'')
      else Inr (page_number p + 1 < total_pages p))"

definition has_previous :: "'a Page \<Rightarrow> bool" where
  "has_previous p \<longleftrightarrow> page_number p > 0 \<and> total_pages p > 0"

text \<open>
  The two queries of \<^verbatim>\<open>page\<close> as a whole: \<open>count\<close> and \<open>rows\<close> are what the connection answers.
\<close>

definition page :: "SqlDialect \<Rightarrow> entity_info \<Rightarrow> relation list \<Rightarrow> ('p query \<Rightarrow> int) \<Rightarrow> ('p query \<Rightarrow> 'a list) \<Rightarrow>
    Pageable \<Rightarrow> 'p QueryBuilder \<Rightarrow> 'a Page result" where
  "page d e rels count rows p q =
     (case page_queries d e rels p q of
        Inl x \<Rightarrow> Inl x
      | Inr (cq, rq) \<Rightarrow> Inr \<lparr>page_content = rows rq, page_number = pg_page p, page_size = pg_size p, total_elements = count cq\<rparr>)"

text \<open>
  Collections are loaded in one query for all parents of a result. Parents are identified by the text of
  their identifier; a row of the answer is the parent it belongs to, if the column holds one, and the child.
  The loader's guard against cycles of eager relations is part of the entity mapping and not modelled.
\<close>

fun parent_ids_for :: "('p \<Rightarrow> string) \<Rightarrow> 'p list \<Rightarrow> string set \<Rightarrow> 'p list" where
  "parent_ids_for fmt [] seen = []"
| "parent_ids_for fmt (i # ids) seen =
     (if fmt i \<in> seen then parent_ids_for fmt ids seen else i # parent_ids_for fmt ids (insert (fmt i) seen))"

definition one_to_many_sql :: "entity_info \<Rightarrow> string \<Rightarrow> nat \<Rightarrow> string" where
  "one_to_many_sql child join_column n =
     ''SELECT '' @ select_column_list child @ '', '' @ join_column @ '' AS __novaboot_parent_id FROM '' @ ent_table child @
     '' WHERE '' @ join_column @ '' IN ('' @ placeholders_for n @ '')''"

definition many_to_many_sql :: "entity_info \<Rightarrow> string \<Rightarrow> string \<Rightarrow> string \<Rightarrow> nat \<Rightarrow> string" where
  "many_to_many_sql child join_table join_column inverse_join_column n =
     ''SELECT jt.'' @ join_column @ '' AS __novaboot_parent_id, '' @ qualified_column_list ''c'' child @ '' FROM '' @ ent_table child @
     '' c JOIN '' @ join_table @ '' jt ON c.'' @ ent_pk child @ '' = jt.'' @ inverse_join_column @ '' WHERE jt.'' @ join_column @
     '' IN ('' @ placeholders_for n @ '')''"

fun group_rows :: "('p \<Rightarrow> string) \<Rightarrow> ('p option \<times> 'c) list \<Rightarrow> (string \<Rightarrow> 'c list) \<Rightarrow> string \<Rightarrow> 'c list" where
  "group_rows fmt [] grouped = grouped"
| "group_rows fmt ((None, child) # rows) grouped = group_rows fmt rows grouped"
| "group_rows fmt ((Some p, child) # rows) grouped = group_rows fmt rows (grouped(fmt p := grouped (fmt p) @ [child]))"

text \<open>The children are moved out of the table, so an entity that is listed twice finds an empty list the second time.\<close>

fun assign_children :: "('p \<Rightarrow> string) \<Rightarrow> 'p list \<Rightarrow> (string \<Rightarrow> 'c list) \<Rightarrow> 'c list list" where
  "assign_children fmt [] grouped = []"
| "assign_children fmt (i # ids) grouped = grouped (fmt i) # assign_children fmt ids (grouped(fmt i := []))"

definition hydrate_collection ::
    "('p \<Rightarrow> string) \<Rightarrow> (nat \<Rightarrow> string) \<Rightarrow> SqlDialect \<Rightarrow> ('p query \<Rightarrow> ('p option \<times> 'c) list) \<Rightarrow> 'p list \<Rightarrow> 'c list list" where
  "hydrate_collection fmt sql d run ids =
     (if ids = [] then []
      else let parents = parent_ids_for fmt ids {}
           in assign_children fmt ids (group_rows fmt (run (convert_placeholders d (sql (length parents)), parents)) (\<lambda>_. [])))"

section \<open>What a chain of calls means\<close>

text \<open>
  A filter is a disjunction of conjunctions of conditions; a condition is a test with its values, or a
  nested filter. AND extends the last alternative, OR starts a new one, as SQL reads the text.
\<close>

datatype 'p test =
    Compares string Op 'p
  | Is_null string
  | Is_not_null string
  | Is_in string "'p list"
  | Is_between string 'p 'p
  | Has_related relation string Op 'p

datatype 'p cond = Test "'p test" | Group "'p cond list list"

type_synonym 'p dnf = "'p cond list list"

fun join_texts :: "string \<Rightarrow> string list \<Rightarrow> string" where
  "join_texts sep [] = []"
| "join_texts sep [x] = x"
| "join_texts sep (x # y # ys) = x @ sep @ join_texts sep (y # ys)"

text \<open>The SQL of a test: the comparison operators of the standard, a placeholder for every value.\<close>

definition sql_operator :: "Op \<Rightarrow> string" where
  "sql_operator op =
     (case op of Equal \<Rightarrow> ''='' | NotEqual \<Rightarrow> ''!='' | LessThan \<Rightarrow> ''<'' | LessThanOrEqual \<Rightarrow> ''<=''
      | GreaterThan \<Rightarrow> ''>'' | GreaterThanOrEqual \<Rightarrow> ''>='' | Like \<Rightarrow> ''LIKE'')"

fun test_text :: "'p test \<Rightarrow> string" where
  "test_text (Compares c op v) = join_texts '' '' [c, sql_operator op, ''?'']"
| "test_text (Is_null c) = join_texts '' '' [c, ''IS'', ''NULL'']"
| "test_text (Is_not_null c) = join_texts '' '' [c, ''IS'', ''NOT'', ''NULL'']"
| "test_text (Is_in c vs) =
     (if vs = [] then ''1 = 0'' else join_texts '' '' [c, ''IN'', ''('' @ join_texts '', '' (map (\<lambda>_. ''?'') vs) @ '')''])"
| "test_text (Is_between c lo hi) = join_texts '' '' [c, ''BETWEEN'', ''?'', ''AND'', ''?'']"
| "test_text (Has_related r c op v) =
     join_texts '' '' [rel_column r, ''IN'', ''('' @ join_texts '' '' [''SELECT'', ent_pk (rel_target r), ''FROM'',
       ent_table (rel_target r), ''WHERE'', c, sql_operator op, ''?''] @ '')'']"

fun test_params :: "'p test \<Rightarrow> 'p list" where
  "test_params (Compares c op v) = [v]"
| "test_params (Is_null c) = []"
| "test_params (Is_not_null c) = []"
| "test_params (Is_in c vs) = vs"
| "test_params (Is_between c lo hi) = [lo, hi]"
| "test_params (Has_related r c op v) = [v]"

fun render_cond :: "'p cond \<Rightarrow> string" where
  "render_cond (Test t) = test_text t"
| "render_cond (Group d) = ''('' @ join_texts '' OR '' (map (\<lambda>cs. join_texts '' AND '' (map render_cond cs)) d) @ '')''"

definition render_dnf :: "'p dnf \<Rightarrow> string" where
  "render_dnf d = join_texts '' OR '' (map (\<lambda>cs. join_texts '' AND '' (map render_cond cs)) d)"

fun cond_params :: "'p cond \<Rightarrow> 'p list" where
  "cond_params (Test t) = test_params t"
| "cond_params (Group d) = concat (map (\<lambda>cs. concat (map cond_params cs)) d)"

definition dnf_params :: "'p dnf \<Rightarrow> 'p list" where
  "dnf_params d = concat (map (\<lambda>cs. concat (map cond_params cs)) d)"

definition add_and :: "'p cond \<Rightarrow> 'p dnf \<Rightarrow> 'p dnf" where
  "add_and c d = (if d = [] then [[c]] else butlast d @ [last d @ [c]])"

definition add_or :: "'p cond \<Rightarrow> 'p dnf \<Rightarrow> 'p dnf" where
  "add_or c d = d @ [[c]]"

fun meaning_call :: "'p query_call \<Rightarrow> 'p dnf \<Rightarrow> 'p dnf"
  and meaning :: "'p query_call list \<Rightarrow> 'p dnf \<Rightarrow> 'p dnf" where
  "meaning_call (Where c op v) d = [[Test (Compares c op v)]]"
| "meaning_call (And c op v) d = add_and (Test (Compares c op v)) d"
| "meaning_call (Or c op v) d = add_or (Test (Compares c op v)) d"
| "meaning_call (Where_related r c op v) d = [[Test (Has_related r c op v)]]"
| "meaning_call (And_related r c op v) d = add_and (Test (Has_related r c op v)) d"
| "meaning_call (Or_related r c op v) d = add_or (Test (Has_related r c op v)) d"
| "meaning_call (Where_is_null c) d = [[Test (Is_null c)]]"
| "meaning_call (Where_is_not_null c) d = [[Test (Is_not_null c)]]"
| "meaning_call (And_is_null c) d = add_and (Test (Is_null c)) d"
| "meaning_call (Or_is_null c) d = add_or (Test (Is_null c)) d"
| "meaning_call (Where_in c vs) d = [[Test (Is_in c vs)]]"
| "meaning_call (And_in c vs) d = add_and (Test (Is_in c vs)) d"
| "meaning_call (Where_between c a b) d = [[Test (Is_between c a b)]]"
| "meaning_call (And_between c a b) d = add_and (Test (Is_between c a b)) d"
| "meaning_call (Where_group cs) d = [[Group (meaning cs [])]]"
| "meaning_call (And_group cs) d = add_and (Group (meaning cs [])) d"
| "meaning_call (Or_group cs) d = add_or (Group (meaning cs [])) d"
| "meaning_call (Order_by c asc) d = d"
| "meaning_call (Order_by_related r c asc) d = d"
| "meaning_call (Limit n) d = d"
| "meaning_call (Offset n) d = d"
| "meaning_call (Fetch b m) d = d"
| "meaning [] d = d"
| "meaning (c # cs) d = meaning cs (meaning_call c d)"

lemma join_texts_snoc: "join_texts sep (xs @ [x]) = (if xs = [] then x else join_texts sep xs @ sep @ x)"
  by (induction sep xs rule: join_texts.induct) simp_all

lemma render_cond_Group [simp]: "render_cond (Group d) = ''('' @ render_dnf d @ '')''"
  by (simp add: render_dnf_def)

lemma cond_params_Group [simp]: "cond_params (Group d) = dnf_params d"
  by (simp add: dnf_params_def)

declare render_cond.simps(2) [simp del] cond_params.simps(2) [simp del]

text \<open>The builder holds the filter \<open>d\<close>.\<close>

definition holds_filter :: "'p QueryBuilder \<Rightarrow> 'p dnf \<Rightarrow> bool" where
  "holds_filter q d \<longleftrightarrow> [] \<notin> set d \<and> sql_where q = (if d = [] then [] else '' WHERE '' @ render_dnf d) \<and> qb_params q = dnf_params d"

lemma render_add_and: "d \<noteq> [] \<Longrightarrow> [] \<notin> set d \<Longrightarrow> render_dnf (add_and c d) = render_dnf d @ '' AND '' @ render_cond c"
proof -
  assume "d \<noteq> []" "[] \<notin> set d"
  then obtain ds x where d: "d = ds @ [x]" "x \<noteq> []" by (metis append_butlast_last_id last_in_set)
  then show ?thesis by (simp add: add_and_def render_dnf_def join_texts_snoc)
qed

lemma render_add_or: "d \<noteq> [] \<Longrightarrow> render_dnf (add_or c d) = render_dnf d @ '' OR '' @ render_cond c"
  by (simp add: add_or_def render_dnf_def join_texts_snoc)

lemma render_single [simp]: "render_dnf [[c]] = render_cond c"
  by (simp add: render_dnf_def)

lemma dnf_params_simps [simp]:
  "dnf_params [] = []" "dnf_params [[c]] = cond_params c"
  "dnf_params (add_and c d) = dnf_params d @ cond_params c" "dnf_params (add_or c d) = dnf_params d @ cond_params c"
  by (cases d rule: rev_cases; simp add: dnf_params_def add_and_def add_or_def)+

lemma add_cond_shape [simp]:
  "add_and c d \<noteq> []" "add_or c d \<noteq> []" "[] \<notin> set d \<Longrightarrow> [] \<notin> set (add_and c d)" "[] \<notin> set d \<Longrightarrow> [] \<notin> set (add_or c d)"
  by (auto simp: add_and_def add_or_def dest: in_set_butlastD)

lemma holds_filter_append:
  assumes "holds_filter q d"
  shows "holds_filter (append_condition (render_cond c) (cond_params c) ''AND'' q) (add_and c d)"
    and "holds_filter (append_condition (render_cond c) (cond_params c) ''OR'' q) (add_or c d)"
  using assms
  by (cases "d = []"; simp add: holds_filter_def append_condition_def render_add_and render_add_or; simp add: add_and_def add_or_def)+

lemma holds_filter_clear [simp]: "holds_filter (clear_where q) []"
  by (simp add: holds_filter_def clear_where_def)

lemma holds_filter_first:
  "holds_filter (append_condition (render_cond c) (cond_params c) connector (clear_where q)) [[c]]"
  by (simp add: holds_filter_def append_condition_def clear_where_def)

text \<open>The builder's own texts for the tests.\<close>

lemma op_symbol_text: "get_op_symbol op = '' '' @ sql_operator op @ '' ''"
  by (cases op) (simp_all add: sql_operator_def)

lemma placeholders_for_text: "placeholders_for (length vs) = join_texts '', '' (map (\<lambda>_. ''?'') vs)"
proof -
  have "x @ concat (map (\<lambda>y. '', '' @ y) xs) = join_texts '', '' (x # xs)" for x and xs :: "string list"
  proof (induction xs arbitrary: x)
    case (Cons a xs)
    show ?case using Cons.IH [of a] by simp
  qed simp
  then have "comma_list (x # xs) = join_texts '', '' (x # xs)" for x xs by (simp only: comma_list_def list.case)
  then have "comma_list xs = join_texts '', '' xs" for xs by (cases xs) (simp_all add: comma_list_def)
  moreover have "replicate (length vs) ''?'' = map (\<lambda>_. ''?'') vs" by (induction vs) simp_all
  ultimately show ?thesis by (simp add: placeholders_for_def)
qed

lemma append_tests:
  "append_condition (c @ get_op_symbol op @ ''?'') [v] k q = append_condition (render_cond (Test (Compares c op v))) (cond_params (Test (Compares c op v))) k q"
  "append_condition (related_condition r c op) [v] k q = append_condition (render_cond (Test (Has_related r c op v))) (cond_params (Test (Has_related r c op v))) k q"
  "append_condition (c @ '' IS NULL'') [] k q = append_condition (render_cond (Test (Is_null c :: 'p test))) (cond_params (Test (Is_null c :: 'p test))) k q"
  "append_condition (c @ '' IS NOT NULL'') [] k q = append_condition (render_cond (Test (Is_not_null c :: 'p test))) (cond_params (Test (Is_not_null c :: 'p test))) k q"
  "append_condition (c @ '' BETWEEN ? AND ?'') [v, w] k q = append_condition (render_cond (Test (Is_between c v w))) (cond_params (Test (Is_between c v w))) k q"
  "append_in c vs k q = append_condition (render_cond (Test (Is_in c vs))) (cond_params (Test (Is_in c vs))) k q"
  for q :: "'p QueryBuilder"
  by (simp_all add: op_symbol_text related_condition_def placeholders_for_text append_in_def)

lemmas test_rules = append_tests holds_filter_append holds_filter_first

lemma holds_filter_empty: "holds_filter q d \<Longrightarrow> sql_where q = [] \<longleftrightarrow> d = []"
  by (simp add: holds_filter_def)

lemma holds_filter_new [simp]: "holds_filter (new_builder t) []"
  by (simp add: holds_filter_def new_builder_def)

lemma holds_filter_group:
  assumes "holds_filter inner (meaning cs [])" "close_group connector (None, inner) q = (None, q')"
  shows "q' = append_condition (render_cond (Group (meaning cs []))) (cond_params (Group (meaning cs []))) connector q"
  using assms by (auto simp: close_group_def holds_filter_def split: if_splits)

lemma close_group_ok: "close_group connector r q = (None, q') \<Longrightarrow> \<exists>inner. r = (None, inner)"
  by (auto simp: close_group_def split: prod.splits option.splits)

lemma holds_filter_close:
  assumes inner: "\<And>q1. r = (None, q1) \<Longrightarrow> holds_filter q1 (meaning cs [])"
  shows "holds_filter q d \<Longrightarrow> close_group ''AND'' r q = (None, q') \<Longrightarrow> holds_filter q' (add_and (Group (meaning cs [])) d)"
    and "holds_filter q d \<Longrightarrow> close_group ''OR'' r q = (None, q') \<Longrightarrow> holds_filter q' (add_or (Group (meaning cs [])) d)"
    and "close_group ''AND'' r (clear_where q) = (None, q') \<Longrightarrow> holds_filter q' [[Group (meaning cs [])]]"
proof -
  have eq: "q' = append_condition (render_cond (Group (meaning cs []))) (cond_params (Group (meaning cs []))) k p"
    if "close_group k r p = (None, q')" for k p
    using close_group_ok [OF that] that inner holds_filter_group by blast
  show "holds_filter q d \<Longrightarrow> close_group ''AND'' r q = (None, q') \<Longrightarrow> holds_filter q' (add_and (Group (meaning cs [])) d)"
    unfolding eq by (rule holds_filter_append)
  show "holds_filter q d \<Longrightarrow> close_group ''OR'' r q = (None, q') \<Longrightarrow> holds_filter q' (add_or (Group (meaning cs [])) d)"
    unfolding eq by (rule holds_filter_append)
  show "close_group ''AND'' r (clear_where q) = (None, q') \<Longrightarrow> holds_filter q' [[Group (meaning cs [])]]"
    unfolding eq by (rule holds_filter_first)
qed

lemma holds_filter_or_first:
  "holds_filter q d \<Longrightarrow> sql_where q = [] \<Longrightarrow> add_or c d = [[c]] \<and> add_and c d = [[c]]"
  by (simp add: holds_filter_empty add_or_def add_and_def)

lemma holds_filter_update [simp]:
  "holds_filter (q\<lparr>sql_order := ob\<rparr>) d = holds_filter q d" "holds_filter (q\<lparr>limit_val := n\<rparr>) d = holds_filter q d"
  "holds_filter (q\<lparr>offset_val := n\<rparr>) d = holds_filter q d" "holds_filter (q\<lparr>fetch_to_one := ms\<rparr>) d = holds_filter q d"
  "holds_filter (q\<lparr>fetch_collection := ms\<rparr>) d = holds_filter q d"
  by (simp_all add: holds_filter_def)

lemmas builder_defs = qb_where_def qb_and_def qb_or_def and_related_def where_related_def or_related_def where_is_null_def
  where_is_not_null_def and_is_null_def or_is_null_def where_in_def and_in_def where_between_def and_between_def

lemma run_holds_filter:
  "holds_filter q d \<Longrightarrow> run_call e c q = (None, q') \<Longrightarrow> holds_filter q' (meaning_call c d)"
  "holds_filter q d \<Longrightarrow> run_calls e cs q = (None, q') \<Longrightarrow> holds_filter q' (meaning cs d)"
proof (induction e c q and e cs q arbitrary: d q' and d q' rule: run_call_run_calls.induct)
  case (15 e cs q)
  then show ?case using holds_filter_close(3) by (metis holds_filter_new meaning_call.simps(15) run_call.simps(15))
next
  case (16 e cs q)
  then show ?case using holds_filter_close(1) by (metis holds_filter_new meaning_call.simps(16) run_call.simps(16))
next
  case (17 e cs q)
  then show ?case using holds_filter_close(2) by (metis holds_filter_new meaning_call.simps(17) run_call.simps(17))
next
  case (18 e c asc q)
  then show ?case by (auto simp: append_order_by_column_def add_order_def split: if_splits)
next
  case (24 e c cs q)
  then show ?case by (auto split: prod.splits option.splits)
qed (auto simp: builder_defs test_rules holds_filter_or_first simp del: render_cond.simps cond_params.simps
    simp: order_by_related_def add_order_def qb_limit_def qb_offset_def fetch_relation_def split: if_splits)

text \<open>
  C26: A chain of calls means the filter it reads as: the WHERE text a builder ends with is the disjunction of
  conjunctions of the calls' tests in SQL, groups in parentheses, each test with the operator asked for and a
  placeholder for every value, and the bound values are the values of the tests in the order of their
  placeholders. AND binds closer than OR, so a call that adds a conjunct extends the last alternative only.
\<close>

theorem query_filter_meaning:
  assumes "run_calls e cs (new_builder t) = (None, q)"
  shows "sql_where q = (if meaning cs [] = [] then [] else '' WHERE '' @ render_dnf (meaning cs [])) \<and>
    qb_params q = dnf_params (meaning cs [])"
  using run_holds_filter(2) [OF holds_filter_new assms] by (simp add: holds_filter_def)

section \<open>Values never reach the text\<close>

definition map_params :: "('p \<Rightarrow> 'r) \<Rightarrow> 'p QueryBuilder \<Rightarrow> 'r QueryBuilder" where
  "map_params f q = \<lparr>qb_table = qb_table q, sql_where = sql_where q, qb_params = map f (qb_params q), sql_order = sql_order q,
     limit_val = limit_val q, offset_val = offset_val q, fetch_to_one = fetch_to_one q, fetch_collection = fetch_collection q\<rparr>"

lemma map_params_simps [simp]:
  "sql_where (map_params f q) = sql_where q" "qb_table (map_params f q) = qb_table q" "qb_params (map_params f q) = map f (qb_params q)"
  "map_params f (new_builder t) = new_builder t"
  "clear_where (map_params f q) = map_params f (clear_where q)"
  "append_condition c (map f ps) k (map_params f q) = map_params f (append_condition c ps k q)"
  by (simp_all add: map_params_def new_builder_def clear_where_def append_condition_def)

lemma append_condition_map_params [simp]:
  "append_condition c [f v] k (map_params f q) = map_params f (append_condition c [v] k q)"
  "append_condition c [f v, f w] k (map_params f q) = map_params f (append_condition c [v, w] k q)"
  "append_condition c [] k (map_params f q) = map_params f (append_condition c [] k q)"
  using map_params_simps(6) [of c f "[v]" k q] map_params_simps(6) [of c f "[v, w]" k q] map_params_simps(6) [of c f "[]" k q] by simp_all

lemma set_map_params [simp]:
  "add_order x a (map_params f q) = map_params f (add_order x a q)" "qb_limit n (map_params f q) = map_params f (qb_limit n q)"
  "qb_offset n (map_params f q) = map_params f (qb_offset n q)" "fetch_relation b m (map_params f q) = map_params f (fetch_relation b m q)"
  by (simp_all add: add_order_def qb_limit_def qb_offset_def fetch_relation_def map_params_def)

lemma append_in_map_params [simp]: "append_in c (map f vs) k (map_params f q) = map_params f (append_in c vs k q)"
  by (simp add: append_in_def)

lemma close_group_map_params [simp]:
  "close_group k (apsnd (map_params f) r) (map_params f q) = apsnd (map_params f) (close_group k r q)"
  by (auto simp: close_group_def split: prod.splits option.splits)

lemma run_map_params:
  "run_call e (map_query_call f c) (map_params f q) = apsnd (map_params f) (run_call e c q)"
  "run_calls e (map (map_query_call f) cs) (map_params f q) = apsnd (map_params f) (run_calls e cs q)"
proof (induction e c q and e cs q rule: run_call_run_calls.induct)
  case (15 e cs q)
  then show ?case by simp
next
  case (16 e cs q)
  then show ?case by simp
next
  case (17 e cs q)
  then show ?case by simp
next
  case (24 e c cs q)
  then show ?case by (auto split: prod.splits option.splits)
qed (simp_all add: builder_defs append_order_by_column_def order_by_related_def)

section \<open>Placeholders and bound values\<close>

abbreviation plain :: "string \<Rightarrow> bool" where
  "plain s \<equiv> CHR ''?'' \<notin> set s"

definition plain_entity :: "entity_info \<Rightarrow> bool" where
  "plain_entity e \<longleftrightarrow> plain (ent_table e) \<and> plain (ent_pk e) \<and> (\<forall>c\<in>set (ent_columns e). plain c)"

definition plain_relation :: "relation \<Rightarrow> bool" where
  "plain_relation r \<longleftrightarrow> plain (rel_member r) \<and> plain (rel_column r) \<and> plain_entity (rel_target r)"

fun plain_call :: "'p query_call \<Rightarrow> bool" where
  "plain_call (Where c op v) = plain c"
| "plain_call (And c op v) = plain c"
| "plain_call (Or c op v) = plain c"
| "plain_call (Where_related r c op v) = (plain_relation r \<and> plain c)"
| "plain_call (And_related r c op v) = (plain_relation r \<and> plain c)"
| "plain_call (Or_related r c op v) = (plain_relation r \<and> plain c)"
| "plain_call (Where_is_null c) = plain c"
| "plain_call (Where_is_not_null c) = plain c"
| "plain_call (And_is_null c) = plain c"
| "plain_call (Or_is_null c) = plain c"
| "plain_call (Where_in c vs) = plain c"
| "plain_call (And_in c vs) = plain c"
| "plain_call (Where_between c a b) = plain c"
| "plain_call (And_between c a b) = plain c"
| "plain_call (Where_group cs) = (\<forall>c\<in>set cs. plain_call c)"
| "plain_call (And_group cs) = (\<forall>c\<in>set cs. plain_call c)"
| "plain_call (Or_group cs) = (\<forall>c\<in>set cs. plain_call c)"
| "plain_call (Order_by_related r c asc) = (plain_relation r \<and> plain c)"
| "plain_call _ = True"

abbreviation placeholders :: "string \<Rightarrow> nat" where
  "placeholders s \<equiv> count_list s CHR ''?''"

lemma placeholders_plain [simp]: "plain s \<Longrightarrow> placeholders s = 0"
  by (simp add: count_list_0_iff)

lemma placeholders_op [simp]: "placeholders (get_op_symbol op) = 0" "plain (get_op_symbol op)"
  by (cases op; simp)+

lemma placeholders_comma: "xs \<noteq> [] \<Longrightarrow> placeholders (comma_list xs) = sum_list (map placeholders xs)"
  by (cases xs) (auto simp: comma_list_def, induct_tac list, simp_all)

lemma plain_comma: "\<forall>x\<in>set xs. plain x \<Longrightarrow> plain (comma_list xs)"
  by (cases xs) (auto simp: comma_list_def)

lemma placeholders_for_count [simp]: "placeholders (placeholders_for n) = n"
proof (cases "n = 0")
  case True
  then show ?thesis by (simp add: placeholders_for_def comma_list_def)
next
  case False
  then show ?thesis by (simp add: placeholders_for_def placeholders_comma sum_list_replicate)
qed

fun binds_all :: "'p cond \<Rightarrow> bool" where
  "binds_all (Test t) = (placeholders (test_text t) = length (test_params t))"
| "binds_all (Group d) = (\<forall>cs\<in>set d. \<forall>c\<in>set cs. binds_all c)"

lemma placeholders_join: "plain sep \<Longrightarrow> placeholders (join_texts sep xs) = sum_list (map placeholders xs)"
  by (induction sep xs rule: join_texts.induct) simp_all

lemma placeholders_conds:
  assumes "\<And>c. c \<in> set cs \<Longrightarrow> placeholders (render_cond c) = length (cond_params c)"
  shows "placeholders (join_texts '' AND '' (map render_cond cs)) = length (concat (map cond_params cs))"
  using assms by (induction cs) (simp_all add: placeholders_join length_concat)

lemma placeholders_alternatives:
  assumes "\<And>cs c. cs \<in> set d \<Longrightarrow> c \<in> set cs \<Longrightarrow> placeholders (render_cond c) = length (cond_params c)"
  shows "placeholders (render_dnf d) = length (dnf_params d)"
proof -
  have "map placeholders (map (\<lambda>cs. join_texts '' AND '' (map render_cond cs)) d) =
      map length (map (\<lambda>cs. concat (map cond_params cs)) d)"
    using assms by (simp add: placeholders_conds)
  then show ?thesis by (simp only: render_dnf_def dnf_params_def length_concat placeholders_join [of "'' OR ''", simplified])
qed

lemma placeholders_cond: "binds_all c \<Longrightarrow> placeholders (render_cond c) = length (cond_params c)"
proof (induction c)
  case (Group d)
  then have "placeholders (render_dnf d) = length (dnf_params d)" by (intro placeholders_alternatives) auto
  then show ?case by simp
qed simp

definition binds_dnf :: "'p dnf \<Rightarrow> bool" where
  "binds_dnf d \<longleftrightarrow> (\<forall>cs\<in>set d. \<forall>c\<in>set cs. binds_all c)"

lemma binds_dnf_add [simp]:
  "binds_dnf []" "binds_dnf [[c]] = binds_all c"
  "binds_dnf d \<Longrightarrow> binds_all c \<Longrightarrow> binds_dnf (add_and c d)" "binds_dnf d \<Longrightarrow> binds_all c \<Longrightarrow> binds_dnf (add_or c d)"
  by (cases d rule: rev_cases; auto simp: binds_dnf_def add_and_def add_or_def)+

lemma binds_all_group [simp]: "binds_all (Group d) = binds_dnf d"
  by (simp add: binds_dnf_def)

lemma placeholders_sql_operator [simp]: "placeholders (sql_operator op) = 0" "plain (sql_operator op)"
  by (cases op; simp add: sql_operator_def)+

lemma placeholders_tests [simp]:
  "plain c \<Longrightarrow> placeholders (test_text (Compares c op v)) = 1" "plain c \<Longrightarrow> placeholders (test_text (Is_in c vs)) = length vs"
  "plain_relation r \<Longrightarrow> plain c \<Longrightarrow> placeholders (test_text (Has_related r c op v)) = 1"
  by (simp_all add: placeholders_join plain_relation_def plain_entity_def sum_list_triv comp_def)

lemma meaning_binds:
  "plain_call c \<Longrightarrow> binds_dnf d \<Longrightarrow> binds_dnf (meaning_call c d)"
  "\<forall>c\<in>set cs. plain_call c \<Longrightarrow> binds_dnf d \<Longrightarrow> binds_dnf (meaning cs d)"
  by (induction c d and cs d rule: meaning_call_meaning.induct) (simp_all del: binds_all.simps(2) test_text.simps(1,4,6))

lemma placeholders_filter:
  assumes "holds_filter q d" "binds_dnf d"
  shows "placeholders (sql_where q) = length (qb_params q)"
proof -
  have "placeholders (render_dnf d) = length (dnf_params d)"
    using assms(2) by (intro placeholders_alternatives placeholders_cond) (auto simp: binds_dnf_def)
  with assms(1) show ?thesis by (auto simp: holds_filter_def)
qed

text \<open>The other parts of a query hold no placeholder.\<close>

definition plain_parts :: "entity_info \<Rightarrow> 'p QueryBuilder \<Rightarrow> bool" where
  "plain_parts e q \<longleftrightarrow> plain (sql_order q) \<and> qb_table q = ent_table e"

lemma plain_parts_update [simp]:
  "plain_parts e (append_condition c ps k q) = plain_parts e q" "plain_parts e (clear_where q) = plain_parts e q"
  "plain_parts e (append_in c vs k q) = plain_parts e q" "plain_parts e (qb_limit n q) = plain_parts e q"
  "plain_parts e (qb_offset n q) = plain_parts e q" "plain_parts e (fetch_relation b m q) = plain_parts e q"
  by (simp_all add: plain_parts_def append_condition_def clear_where_def append_in_def qb_limit_def qb_offset_def fetch_relation_def)

lemma plain_parts_order: "plain_parts e q \<Longrightarrow> plain x \<Longrightarrow> plain_parts e (add_order x a q)"
  by (simp add: plain_parts_def add_order_def)

lemma close_group_plain: "plain_parts e q \<Longrightarrow> close_group k r q = (None, q') \<Longrightarrow> plain_parts e q'"
  by (auto simp: close_group_def split: prod.splits option.splits if_splits)

lemma run_plain_parts:
  "plain_entity e \<Longrightarrow> plain_call c \<Longrightarrow> plain_parts e q \<Longrightarrow> run_call e c q = (None, q') \<Longrightarrow> plain_parts e q'"
  "plain_entity e \<Longrightarrow> \<forall>c\<in>set cs. plain_call c \<Longrightarrow> plain_parts e q \<Longrightarrow> run_calls e cs q = (None, q') \<Longrightarrow> plain_parts e q'"
proof (induction e c q and e cs q arbitrary: q' and q' rule: run_call_run_calls.induct)
  case (18 e c asc q)
  then show ?case
    by (auto simp: append_order_by_column_def is_persisted_column_def plain_entity_def intro: plain_parts_order split: if_splits)
next
  case (19 e r c asc q)
  then show ?case
    by (simp add: order_by_related_def plain_relation_def plain_entity_def) (drule sym, simp add: plain_parts_order)
next
  case (24 e c cs q)
  obtain x q1 where r: "run_call e c q = (x, q1)" by (cases "run_call e c q")
  with 24(6) have x: "x = None" "run_calls e cs q1 = (None, q')" by (simp_all split: option.splits)
  with 24(1,3-5) r have "plain_parts e q1" by simp
  with 24(2) [OF r [symmetric] x(1)] 24(3,4) x(2) show ?case by simp
qed (auto simp: builder_defs dest: close_group_plain [rotated] split: if_splits)

lemma plain_to_string [simp]: "plain (to_string_nat n)" "plain (to_string_int i)"
proof -
  have "\<not> isdigit CHR ''?''" by code_simp
  then show nat: "plain (to_string_nat n)" for n using to_string_nat_digits by blast
  show "plain (to_string_int i)" by (simp add: to_string_int_def nat)
qed

lemma plain_pagination [simp]: "plain (compile_pagination d l n)"
  by (simp add: compile_pagination_def)

lemma plain_columns [simp]:
  "plain_entity e \<Longrightarrow> plain (select_column_list e)"
  "plain_entity e \<Longrightarrow> plain x \<Longrightarrow> plain (qualified_column_list x e)"
  "plain_entity e \<Longrightarrow> plain x \<Longrightarrow> plain y \<Longrightarrow> plain (aliased_column_list x y e)"
  unfolding select_column_list_def qualified_column_list_def aliased_column_list_def
  by (rule plain_comma, simp add: plain_entity_def)+

lemma plain_fetch_names [simp]:
  "plain m \<Longrightarrow> plain (join_fetch_prefix m)" "plain m \<Longrightarrow> plain (join_fetch_alias m)"
  by (simp_all add: join_fetch_prefix_def join_fetch_alias_def)

lemma plain_concat: "\<forall>x\<in>set xs. plain x \<Longrightarrow> plain (concat xs)"
  by auto

lemma plain_joined:
  assumes "\<forall>r\<in>set rels. plain_relation r"
  shows "plain (fst (joined_to_one_sql rels q))" "plain (snd (joined_to_one_sql rels q))"
  unfolding joined_to_one_sql_def Let_def fst_conv snd_conv
  using assms by (intro plain_concat; simp add: plain_relation_def; simp add: plain_entity_def)+

lemma placeholders_list_sql:
  assumes "plain_entity e" "\<forall>r\<in>set rels. plain_relation r" "plain_parts e q"
  shows "placeholders (build_list_sql d e rels q) = placeholders (sql_where q)"
proof -
  have "placeholders (select_sql d (select_column_list e) q) = placeholders (sql_where q)"
    using assms(1,3) by (simp add: select_sql_def plain_parts_def plain_entity_def)
  then show ?thesis
    using assms(1) plain_joined [OF assms(2), of q]
    by (cases "joined_to_one_sql rels q") (simp add: build_list_sql_def Let_def)
qed

text \<open>The text in the two dialects, and where the values go.\<close>

fun number_parts :: "nat \<Rightarrow> string list \<Rightarrow> string" where
  "number_parts k [] = []"
| "number_parts k [x] = x"
| "number_parts k (x # y # ys) = x @ ''$'' @ to_string_nat k @ number_parts (Suc k) (y # ys)"

definition binds_in_order :: "'p query \<Rightarrow> 'p query \<Rightarrow> 'p list \<Rightarrow> bool" where
  "binds_in_order sqlite postgres vs \<longleftrightarrow> snd sqlite = vs \<and> snd postgres = vs \<and>
     (\<exists>parts. length parts = Suc (length vs) \<and> (\<forall>p\<in>set parts. plain p) \<and>
        fst sqlite = join_texts ''?'' parts \<and> fst postgres = number_parts 1 parts)"

lemma number_plain: "plain x \<Longrightarrow> number_placeholders k (x @ s) = x @ number_placeholders k s"
  by (induction x) auto

lemma number_join:
  "\<forall>p\<in>set parts. plain p \<Longrightarrow> number_placeholders k (join_texts ''?'' parts) = number_parts k parts"
proof (induction k parts rule: number_parts.induct)
  case (2 k x)
  then show ?case using number_plain [of x k "[]"] by simp
qed (simp_all add: number_plain)

lemma split_placeholders:
  "\<exists>parts. length parts = Suc (placeholders s) \<and> (\<forall>p\<in>set parts. plain p) \<and> s = join_texts ''?'' parts"
proof (induction s)
  case Nil
  then show ?case by (intro exI [of _ "[[]]"]) simp
next
  case (Cons c s)
  then obtain p ps where parts: "length ps = placeholders s" "plain p" "\<forall>p\<in>set ps. plain p" "s = join_texts ''?'' (p # ps)"
    by (auto simp: length_Suc_conv)
  show ?case
  proof (cases "c = CHR ''?''")
    case True
    with parts show ?thesis by (intro exI [of _ "[] # p # ps"]) simp
  next
    case False
    with parts show ?thesis by (intro exI [of _ "(c # p) # ps"]) (cases ps; simp)
  qed
qed

lemma binds_in_orderI:
  assumes "placeholders s = length vs"
  shows "binds_in_order (convert_placeholders SqliteDialect s, vs) (convert_placeholders PostgresDialect s, vs) vs"
  using split_placeholders [of s] assms number_join
  by (auto simp: binds_in_order_def convert_placeholders_def)

lemma compile_pagination_dialect: "compile_pagination d = compile_pagination SqliteDialect"
  by (simp add: compile_pagination_def fun_eq_iff)

lemma build_list_sql_dialect: "build_list_sql d e rels q = build_list_sql SqliteDialect e rels q"
  by (simp add: build_list_sql_def select_sql_def compile_pagination_dialect [of d])

text \<open>
  C14: Values reach the database only as bound values. Whatever a chain of calls passes as values, the text of
  the query is the same; in every query it has exactly one placeholder for each bound value, and the PostgreSQL
  text numbers them in the order of the values.
\<close>

theorem query_values_bound:
  assumes run: "run_calls e cs (new_builder (ent_table e)) = (None, q)"
    and names: "plain_entity e" "\<forall>r\<in>set rels. plain_relation r" "\<forall>c\<in>set cs. plain_call c"
  shows "run_calls e (map (map_query_call f) cs) (new_builder (ent_table e)) = (None, map_params f q) \<and>
    binds_in_order (list_query SqliteDialect e rels q) (list_query PostgresDialect e rels q) (qb_params q) \<and>
    binds_in_order (count_query SqliteDialect q) (count_query PostgresDialect q) (qb_params q) \<and>
    binds_in_order (exists_query SqliteDialect q) (exists_query PostgresDialect q) (qb_params q)"
proof -
  have filter: "placeholders (sql_where q) = length (qb_params q)"
    using placeholders_filter [OF run_holds_filter(2) [OF holds_filter_new run]] meaning_binds(2) [OF names(3)] by simp
  have parts: "plain_parts e q"
    using run_plain_parts(2) [OF names(1,3) _ run] by (simp add: plain_parts_def new_builder_def)
  have table: "plain (qb_table q)" using parts names(1) by (simp add: plain_parts_def plain_entity_def)
  have "binds_in_order (list_query SqliteDialect e rels q) (list_query PostgresDialect e rels q) (qb_params q)"
    unfolding list_query_def build_list_sql_dialect [of PostgresDialect]
    by (rule binds_in_orderI) (simp add: placeholders_list_sql names parts filter)
  moreover have "binds_in_order (count_query SqliteDialect q) (count_query PostgresDialect q) (qb_params q)"
    unfolding count_query_def by (rule binds_in_orderI) (simp add: table filter)
  moreover have "binds_in_order (exists_query SqliteDialect q) (exists_query PostgresDialect q) (qb_params q)"
    unfolding exists_query_def compile_pagination_dialect [of PostgresDialect]
    by (rule binds_in_orderI) (simp add: table filter)
  ultimately show ?thesis
    using run_map_params(2) [of e f cs "new_builder (ent_table e)"] by (simp add: run)
qed

section \<open>Collections and pages\<close>

definition children_of :: "('p \<Rightarrow> string) \<Rightarrow> ('p option \<times> 'c) list \<Rightarrow> string \<Rightarrow> 'c list" where
  "children_of fmt rows k = map snd (filter (\<lambda>(p, c). \<exists>x. p = Some x \<and> fmt x = k) rows)"

lemma group_rows_children: "group_rows fmt rows grouped k = grouped k @ children_of fmt rows k"
proof (induction fmt rows grouped rule: group_rows.induct)
  case (3 fmt p child rows grouped)
  then show ?case by (cases "fmt p = k") (simp_all add: children_of_def fun_upd_def)
qed (simp_all add: children_of_def)

lemma assign_children_distinct: "distinct (map fmt ids) \<Longrightarrow> assign_children fmt ids grouped = map (\<lambda>i. grouped (fmt i)) ids"
  by (induction ids arbitrary: grouped) (auto, metis imageI)

lemma parent_ids_distinct: "distinct (map fmt ids) \<Longrightarrow> fmt ` set ids \<inter> seen = {} \<Longrightarrow> parent_ids_for fmt ids seen = ids"
  by (induction ids arbitrary: seen) auto

text \<open>
  Entities with different identifiers get exactly their own children, in the order of the rows; every one of
  their identifiers is bound once.
\<close>

lemma hydrate_collection_exact:
  assumes "distinct (map fmt ids)"
  shows "hydrate_collection fmt sql d run ids =
    map (\<lambda>i. children_of fmt (run (convert_placeholders d (sql (length ids)), ids)) (fmt i)) ids"
  using assms by (simp add: hydrate_collection_def parent_ids_distinct assign_children_distinct group_rows_children Let_def)

lemma collection_sql_binds:
  assumes "plain_entity child" "plain join_table" "plain join_column" "plain inv_column"
  shows "placeholders (one_to_many_sql child join_column n) = n" "placeholders (many_to_many_sql child join_table join_column inv_column n) = n"
proof -
  have "plain (ent_table child)" "plain (ent_pk child)" using assms(1) by (simp_all add: plain_entity_def)
  then show "placeholders (one_to_many_sql child join_column n) = n"
      "placeholders (many_to_many_sql child join_table join_column inv_column n) = n"
    using assms by (simp_all add: one_to_many_sql_def many_to_many_sql_def)
qed

lemma less_ceiling_div:
  fixes k s t :: int
  assumes "0 < s"
  shows "k < (t + s - 1) div s \<longleftrightarrow> k * s < t"
proof -
  define m where "m = (t + s - 1) div s"
  define r where "r = (t + s - 1) mod s"
  have m: "s * m + r = t + s - 1" "0 \<le> r" "r < s" using assms by (simp_all add: m_def r_def)
  have "k * s < t" if "k < m"
  proof -
    have "(k + 1) * s \<le> m * s" using that assms by (intro mult_right_mono) auto
    with m show ?thesis by (simp add: distrib_right mult.commute [of s])
  qed
  moreover have "\<not> k * s < t" if "\<not> k < m"
  proof -
    have "m * s \<le> k * s" using that assms by (intro mult_right_mono) auto
    with m show ?thesis unfolding mult.commute [of s] by linarith
  qed
  ultimately show ?thesis unfolding m_def [symmetric] by blast
qed

lemma has_next_exact:
  assumes "0 < page_size p" "0 \<le> total_elements p" "page_number p + 1 < 2 ^ 31"
  shows "has_next p = Inr ((page_number p + 1) * page_size p < total_elements p)"
proof -
  let ?k = "page_number p + 1" and ?s = "page_size p" and ?t = "total_elements p"
  have "(?t + ?s - 1) sdiv ?s = (?t + ?s - 1) div ?s"
    using assms by (simp add: signed_divide_int_def sgn_if)
  moreover have "?k < (?t + ?s - 1) div ?s \<longleftrightarrow> ?k * ?s < ?t"
    using assms(1) by (rule less_ceiling_div)
  ultimately show ?thesis using assms by (simp add: has_next_def total_pages_def)
qed

section \<open>Examples and limits\<close>

definition users :: entity_info where
  "users = \<lparr>ent_table = ''users'', ent_columns = [''id'', ''name''], ent_pk = ''id''\<rparr>"

definition demo_calls :: "nat query_call list" where
  "demo_calls = [Where ''name'' Like 1, Or_group [Where ''id'' LessThan 2, And_is_null ''name''], And_in ''id'' [3, 4], Order_by ''id'' True]"

lemmas query_eval = users_def demo_calls_def builder_defs append_in_def new_builder_def close_group_def append_condition_def clear_where_def
  append_order_by_column_def is_persisted_column_def add_order_def

theorem query_filter_meaning_witness:
  "\<exists>q. run_calls users demo_calls (new_builder ''users'') = (None, q) \<and>
     sql_where q = '' WHERE name LIKE ? OR (id < ? AND name IS NULL) AND id IN (?, ?)'' \<and> qb_params q = [1, 2, 3, 4]"
proof -
  obtain q where q: "run_calls users demo_calls (new_builder ''users'') = (None, q)" by (simp add: query_eval)
  show ?thesis
    using q query_filter_meaning [OF q] by (simp add: demo_calls_def sql_operator_def add_or_def add_and_def render_dnf_def dnf_params_def)
qed

theorem query_values_bound_witness:
  "\<exists>q. run_calls users demo_calls (new_builder ''users'') = (None, q) \<and>
     binds_in_order (list_query SqliteDialect users [] q) (list_query PostgresDialect users [] q) [1, 2, 3, 4]"
proof -
  obtain q where q: "run_calls users demo_calls (new_builder ''users'') = (None, q)" "qb_params q = [1, 2, 3, 4]" by (simp add: query_eval)
  have "plain_entity users" "\<forall>c\<in>set demo_calls. plain_call c" "ent_table users = ''users''"
    by (simp_all add: users_def demo_calls_def plain_entity_def)
  then show ?thesis using query_values_bound [of users demo_calls q "[]" id] q by auto
qed

text \<open>A limit of zero is not written, so the query returns every row; an offset alone is written without LIMIT, which SQLite does not parse.\<close>

lemma query_limit_zero_ignored: "compile_pagination d 0 n = compile_pagination d (- 1) n"
  by (simp add: compile_pagination_def)

lemma query_offset_without_limit: "compile_pagination SqliteDialect (- 1) 10 = '' OFFSET 10''"
  by code_simp

text \<open>The offset of a page is computed in 32 bits.\<close>

lemma query_page_overflow:
  "page_queries d users [] \<lparr>pg_page = 65536, pg_size = 32768, pg_sort = []\<rparr> (new_builder ''users'') =
     Inl (Undefined_behaviour ''signed integer overflow'')"
  by (simp add: page_queries_def)

text \<open>With a fetched relation the ORDER BY is inside the derived table, and the outer query has none.\<close>

lemma query_fetch_order_inside:
  "fetch_to_one q \<noteq> [] \<Longrightarrow> joined_to_one_sql rels q = (columns, joins) \<Longrightarrow>
   build_list_sql d e rels q = ''SELECT '' @ qualified_column_list ''nb_root'' e @ columns @ '' FROM (SELECT '' @ select_column_list e @
     '' FROM '' @ qb_table q @ sql_where q @ sql_order q @ compile_pagination d (limit_val q) (offset_val q) @ '') nb_root'' @ joins"
  by (simp add: build_list_sql_def select_sql_def Let_def)

end
