(* ===== verification/Db_Transaction.thy ===== *)
theory Db_Transaction
  imports Nova_Prelude
begin

text \<open>
  Transactions (\<^verbatim>\<open>include/novaboot/db/transaction.h\<close>): the RAII transaction, the transaction manager with
  its propagation modes, rollback rules and timeouts, and the thread-local stack of active transactions.
  The database driver is a parameter. Service code that nests transactional calls is the datatype \<open>svc\<close>;
  the operations themselves take arbitrary callbacks.
\<close>

section \<open>Options\<close>

datatype TransactionPropagation = Required | RequiresNew | Supports | NotSupported | Mandatory | Never

datatype TransactionIsolation = Isolation_Default | ReadUncommitted | ReadCommitted | RepeatableRead | Serializable

record TransactionOptions =
  propagation :: TransactionPropagation
  isolation :: TransactionIsolation
  read_only :: bool
  timeout_seconds :: int
  rollback_for_types :: "string list"
  no_rollback_for_types :: "string list"

definition default_options :: TransactionOptions where
  "default_options = \<lparr>propagation = Required, isolation = Isolation_Default, read_only = False, timeout_seconds = 0,
     rollback_for_types = [], no_rollback_for_types = []\<rparr>"

definition rollback_for :: "string list \<Rightarrow> TransactionOptions \<Rightarrow> TransactionOptions" where
  "rollback_for ts opts = opts\<lparr>rollback_for_types := rollback_for_types opts @ ts\<rparr>"

definition no_rollback_for :: "string list \<Rightarrow> TransactionOptions \<Rightarrow> TransactionOptions" where
  "no_rollback_for ts opts = opts\<lparr>no_rollback_for_types := no_rollback_for_types opts @ ts\<rparr>"

definition TransactionTimeoutException :: "int \<Rightarrow> exn" where
  "TransactionTimeoutException n = Std_exception ''TransactionTimeoutException''
     (''Transaction timed out after '' @ to_string_int n @ '' seconds'')"

definition UnexpectedRollbackException :: exn where
  "UnexpectedRollbackException = Std_exception ''UnexpectedRollbackException'' ''Transaction was marked rollback-only''"

definition logic_error :: "string \<Rightarrow> exn" where
  "logic_error w = Std_exception ''std::logic_error'' w"

text \<open>The dynamic type of a standard exception; other thrown values have none.\<close>

fun exn_type :: "exn \<Rightarrow> string option" where
  "exn_type (Invalid_argument _) = Some ''std::invalid_argument''"
| "exn_type (Runtime_error _) = Some ''std::runtime_error''"
| "exn_type (Out_of_range _) = Some ''std::out_of_range''"
| "exn_type (Binding_exception _) = Some ''BindingException''"
| "exn_type (Validation_exception _) = Some ''ValidationException''"
| "exn_type (Std_exception t _) = Some t"
| "exn_type _ = None"

fun is_undefined :: "exn \<Rightarrow> bool" where
  "is_undefined (Undefined_behaviour _) = True"
| "is_undefined _ = False"

definition tx_matches :: "string list \<Rightarrow> exn \<Rightarrow> bool" where
  "tx_matches types ex = (case exn_type ex of None \<Rightarrow> False | Some t \<Rightarrow> t \<in> set types)"

definition should_rollback :: "TransactionOptions \<Rightarrow> exn \<Rightarrow> bool" where
  "should_rollback opts ex =
     (if tx_matches (no_rollback_for_types opts) ex then False
      else if rollback_for_types opts = [] then True
      else tx_matches (rollback_for_types opts) ex)"

text \<open>The decision of the two catch clauses: values that are no standard exception always roll back.\<close>

definition rolls_back :: "TransactionOptions \<Rightarrow> exn \<Rightarrow> bool" where
  "rolls_back opts ex \<longleftrightarrow> exn_type ex = None \<or> should_rollback opts ex"

section \<open>State\<close>

type_synonym conn = nat
type_synonym datasource = nat

datatype db_call = Begin | Commit | Rollback | Execute string

record 'w db_ops =
  get_connection :: "datasource \<Rightarrow> 'w \<Rightarrow> conn option result \<times> 'w"
  call_connection :: "conn \<Rightarrow> db_call \<Rightarrow> 'w \<Rightarrow> exn option \<times> 'w"
  dialect_name :: "datasource \<Rightarrow> string"
  steady_clock :: "'w \<Rightarrow> int"

record ActiveTransaction =
  at_datasource :: datasource
  at_connection :: conn
  at_rollback_only :: nat

text \<open>
  The vector of active transactions of the thread. An element has the reference that a pointer to it
  holds; growth gives every element a new one, and \<^verbatim>\<open>erase\<close> every element behind the erased one, so a
  pointer taken before is then dangling. \<open>tx_flags\<close> are the shared rollback-only flags, \<open>tx_calls\<close> records
  the calls made to connections and how they ended.
\<close>

record 'w tx_state =
  tx_active :: "(nat \<times> ActiveTransaction) list"
  tx_capacity :: nat
  tx_next_ref :: nat
  tx_flags :: "bool list"
  tx_calls :: "(conn \<times> db_call \<times> exn option) list"
  tx_world :: 'w

type_synonym ('w, 'v) tx_run = "'w tx_state \<Rightarrow> 'v result \<times> 'w tx_state"

definition restamp :: "nat \<Rightarrow> (nat \<times> 'a) list \<Rightarrow> (nat \<times> 'a) list" where
  "restamp n xs = zip [n..<n + length xs] (map snd xs)"

definition push_active :: "ActiveTransaction \<Rightarrow> 'w tx_state \<Rightarrow> 'w tx_state" where
  "push_active a s =
     (let n = tx_next_ref s; xs = tx_active s
      in if length xs < tx_capacity s
         then s\<lparr>tx_active := xs @ [(n, a)], tx_next_ref := Suc n\<rparr>
         else s\<lparr>tx_active := restamp n xs @ [(n + length xs, a)], tx_next_ref := Suc (n + length xs),
                tx_capacity := max 1 (2 * length xs)\<rparr>)"

definition pop_active :: "'w tx_state \<Rightarrow> exn option \<times> 'w tx_state" where
  "pop_active s =
     (if tx_active s = [] then (Some (Undefined_behaviour ''pop_back of an empty vector''), s)
      else (None, s\<lparr>tx_active := butlast (tx_active s)\<rparr>))"

function suspend_loop ::
    "datasource \<Rightarrow> (nat \<times> ActiveTransaction) list \<Rightarrow> (nat \<times> ActiveTransaction) list \<Rightarrow> ActiveTransaction list \<Rightarrow> nat \<Rightarrow>
     (nat \<times> ActiveTransaction) list \<times> ActiveTransaction list \<times> nat" where
  "suspend_loop ds kept [] suspended n = (kept, suspended, n)"
| "suspend_loop ds kept ((r, a) # rest) suspended n =
     (if at_datasource a = ds
      then suspend_loop ds kept (restamp n rest) (suspended @ [a]) (n + length rest)
      else suspend_loop ds (kept @ [(r, a)]) rest suspended n)"
  by pat_completeness auto
termination
  by (relation "measure (\<lambda>(ds, kept, rest, suspended, n). length rest)") (auto simp: restamp_def)

definition suspend_transactions :: "datasource \<Rightarrow> 'w tx_state \<Rightarrow> ActiveTransaction list \<times> 'w tx_state" where
  "suspend_transactions ds s =
     (case suspend_loop ds [] (tx_active s) [] (tx_next_ref s) of
        (kept, suspended, n) \<Rightarrow> (suspended, s\<lparr>tx_active := kept, tx_next_ref := n\<rparr>))"

definition resume_transactions :: "ActiveTransaction list \<Rightarrow> 'w tx_state \<Rightarrow> 'w tx_state" where
  "resume_transactions suspended s =
     (let n = tx_next_ref s; xs = tx_active s; k = length suspended
      in if length xs + k \<le> tx_capacity s
         then s\<lparr>tx_active := xs @ zip [n..<n + k] suspended, tx_next_ref := n + k\<rparr>
         else s\<lparr>tx_active := restamp n xs @ zip [n + length xs..<n + length xs + k] suspended,
                tx_next_ref := n + length xs + k, tx_capacity := length xs + max (length xs) k\<rparr>)"

definition current_active :: "datasource \<Rightarrow> 'w tx_state \<Rightarrow> nat option" where
  "current_active ds s = map_option fst (find (\<lambda>(r, a). at_datasource a = ds) (rev (tx_active s)))"

definition current_connection_for :: "datasource \<Rightarrow> 'w tx_state \<Rightarrow> conn option" where
  "current_connection_for ds s = map_option (at_connection \<circ> snd) (find (\<lambda>(r, a). at_datasource a = ds) (rev (tx_active s)))"

section \<open>Connections and transactions\<close>

definition conn_call :: "'w db_ops \<Rightarrow> conn \<Rightarrow> db_call \<Rightarrow> 'w tx_state \<Rightarrow> exn option \<times> 'w tx_state" where
  "conn_call ops c op s =
     (case call_connection ops c op (tx_world s) of
        (e, w) \<Rightarrow> (e, s\<lparr>tx_world := w, tx_calls := tx_calls s @ [(c, op, e)]\<rparr>))"

definition obtain_connection :: "'w db_ops \<Rightarrow> datasource \<Rightarrow> ('w, conn option) tx_run" where
  "obtain_connection ops ds s = (case get_connection ops ds (tx_world s) of (r, w) \<Rightarrow> (r, s\<lparr>tx_world := w\<rparr>))"

record Transaction =
  tr_connection :: conn
  tr_completed :: bool

definition Transaction_new :: "'w db_ops \<Rightarrow> datasource \<Rightarrow> ('w, Transaction) tx_run" where
  "Transaction_new ops ds s =
     (case obtain_connection ops ds s of
        (Inl e, s1) \<Rightarrow> (Inl e, s1)
      | (Inr None, s1) \<Rightarrow> (Inl (Invalid_argument ''Transaction requires a DataSource''), s1)
      | (Inr (Some c), s1) \<Rightarrow>
          (case conn_call ops c Begin s1 of
             (Some e, s2) \<Rightarrow> (Inl e, s2)
           | (None, s2) \<Rightarrow> (Inr \<lparr>tr_connection = c, tr_completed = False\<rparr>, s2)))"

definition Transaction_destroy :: "'w db_ops \<Rightarrow> Transaction \<Rightarrow> 'w tx_state \<Rightarrow> 'w tx_state" where
  "Transaction_destroy ops tr s = (if tr_completed tr then s else snd (conn_call ops (tr_connection tr) Rollback s))"

definition complete_transaction ::
    "'w db_ops \<Rightarrow> db_call \<Rightarrow> Transaction \<Rightarrow> 'w tx_state \<Rightarrow> exn option \<times> Transaction \<times> 'w tx_state" where
  "complete_transaction ops op tr s =
     (if tr_completed tr then (Some (logic_error ''Transaction has already completed''), tr, s)
      else case conn_call ops (tr_connection tr) op s of
             (Some e, s1) \<Rightarrow> (Some e, tr, s1)
           | (None, s1) \<Rightarrow> (None, tr\<lparr>tr_completed := True\<rparr>, s1))"

definition Transaction_commit ::
    "'w db_ops \<Rightarrow> Transaction \<Rightarrow> 'w tx_state \<Rightarrow> exn option \<times> Transaction \<times> 'w tx_state" where
  "Transaction_commit ops = complete_transaction ops Commit"

definition Transaction_rollback ::
    "'w db_ops \<Rightarrow> Transaction \<Rightarrow> 'w tx_state \<Rightarrow> exn option \<times> Transaction \<times> 'w tx_state" where
  "Transaction_rollback ops = complete_transaction ops Rollback"

section \<open>The manager\<close>

definition isolation_level :: "TransactionIsolation \<Rightarrow> string" where
  "isolation_level i =
     (case i of Isolation_Default \<Rightarrow> [] | ReadUncommitted \<Rightarrow> ''READ UNCOMMITTED'' | ReadCommitted \<Rightarrow> ''READ COMMITTED''
      | RepeatableRead \<Rightarrow> ''REPEATABLE READ'' | Serializable \<Rightarrow> ''SERIALIZABLE'')"

definition apply_transaction_options ::
    "'w db_ops \<Rightarrow> datasource \<Rightarrow> conn \<Rightarrow> TransactionOptions \<Rightarrow> 'w tx_state \<Rightarrow> exn option \<times> 'w tx_state" where
  "apply_transaction_options ops ds c opts s =
     (if dialect_name ops ds \<noteq> ''postgresql'' then (None, s)
      else
        (case (if isolation opts \<noteq> Isolation_Default
               then conn_call ops c (Execute (''SET TRANSACTION ISOLATION LEVEL '' @ isolation_level (isolation opts))) s
               else (None, s)) of
           (Some e, s1) \<Rightarrow> (Some e, s1)
         | (None, s1) \<Rightarrow> if read_only opts then conn_call ops c (Execute ''SET TRANSACTION READ ONLY'') s1 else (None, s1)))"

definition check_timeout :: "'w db_ops \<Rightarrow> int \<Rightarrow> TransactionOptions \<Rightarrow> 'w tx_state \<Rightarrow> exn option" where
  "check_timeout ops started opts s =
     (if timeout_seconds opts \<le> 0 then None
      else if steady_clock ops (tx_world s) - started > timeout_seconds opts * 1000000000
        then Some (TransactionTimeoutException (timeout_seconds opts))
        else None)"

definition execute_non_transactional ::
    "'w db_ops \<Rightarrow> datasource \<Rightarrow> TransactionOptions \<Rightarrow> (conn option \<Rightarrow> ('w, 'v) tx_run) \<Rightarrow> ('w, 'v) tx_run" where
  "execute_non_transactional ops ds opts fn s =
     (let started = steady_clock ops (tx_world s)
      in case obtain_connection ops ds s of
           (Inl e, s1) \<Rightarrow> (Inl e, s1)
         | (Inr c, s1) \<Rightarrow>
             (case fn c s1 of
                (Inl e, s2) \<Rightarrow> (Inl e, s2)
              | (Inr v, s2) \<Rightarrow>
                  (case check_timeout ops started opts s2 of Some e \<Rightarrow> (Inl e, s2) | None \<Rightarrow> (Inr v, s2))))"

text \<open>
  A joined call reports failure through the reference to the active transaction that it took before
  the callback ran.
\<close>

definition mark_rollback_only :: "nat \<Rightarrow> 'w tx_state \<Rightarrow> exn option \<times> 'w tx_state" where
  "mark_rollback_only r s =
     (case map_of (tx_active s) r of
        None \<Rightarrow> (Some (Undefined_behaviour ''dangling reference to an active transaction''), s)
      | Some a \<Rightarrow> (None, s\<lparr>tx_flags := (tx_flags s)[at_rollback_only a := True]\<rparr>))"

definition existing_failed :: "nat \<Rightarrow> TransactionOptions \<Rightarrow> exn \<Rightarrow> ('w, 'v) tx_run" where
  "existing_failed r opts e s =
     (if is_undefined e then (Inl e, s)
      else if rolls_back opts e
        then (case mark_rollback_only r s of (Some u, s1) \<Rightarrow> (Inl u, s1) | (None, s1) \<Rightarrow> (Inl e, s1))
        else (Inl e, s))"

definition execute_existing ::
    "'w db_ops \<Rightarrow> nat \<Rightarrow> TransactionOptions \<Rightarrow> (conn option \<Rightarrow> ('w, 'v) tx_run) \<Rightarrow> ('w, 'v) tx_run" where
  "execute_existing ops r opts fn s =
     (let started = steady_clock ops (tx_world s)
      in case map_of (tx_active s) r of
           None \<Rightarrow> (Inl (Undefined_behaviour ''dangling reference to an active transaction''), s)
         | Some a \<Rightarrow>
             (case fn (Some (at_connection a)) s of
                (Inl e, s1) \<Rightarrow> existing_failed r opts e s1
              | (Inr v, s1) \<Rightarrow>
                  (case check_timeout ops started opts s1 of
                     Some e \<Rightarrow> existing_failed r opts e s1
                   | None \<Rightarrow> (Inr v, s1))))"

text \<open>The body of the try block after the callback, and the catch clauses.\<close>

definition finish_new ::
    "'w db_ops \<Rightarrow> int \<Rightarrow> TransactionOptions \<Rightarrow> nat \<Rightarrow> Transaction \<Rightarrow> 'w tx_state \<Rightarrow> exn option \<times> Transaction \<times> 'w tx_state" where
  "finish_new ops started opts flag tr s =
     (case check_timeout ops started opts s of
        Some e \<Rightarrow> (Some e, tr, s)
      | None \<Rightarrow>
          (if tx_flags s ! flag
           then (case Transaction_rollback ops tr s of
                   (Some e, tr1, s1) \<Rightarrow> (Some e, tr1, s1)
                 | (None, tr1, s1) \<Rightarrow> (Some UnexpectedRollbackException, tr1, s1))
           else Transaction_commit ops tr s))"

definition new_failed ::
    "'w db_ops \<Rightarrow> TransactionOptions \<Rightarrow> exn \<Rightarrow> Transaction \<Rightarrow> 'w tx_state \<Rightarrow> exn \<times> Transaction \<times> 'w tx_state" where
  "new_failed ops opts e tr s =
     (if is_undefined e \<or> exn_type e = Some ''UnexpectedRollbackException'' then (e, tr, s)
      else case (if rolls_back opts e then Transaction_rollback ops tr s else Transaction_commit ops tr s) of
             (Some e2, tr1, s1) \<Rightarrow> (e2, tr1, s1)
           | (None, tr1, s1) \<Rightarrow> (e, tr1, s1))"

definition leave_new :: "'w db_ops \<Rightarrow> 'v result \<Rightarrow> Transaction \<Rightarrow> ('w, 'v) tx_run" where
  "leave_new ops r tr s =
     (case pop_active s of
        (Some u, s1) \<Rightarrow> (Inl u, s1)
      | (None, s1) \<Rightarrow> (r, Transaction_destroy ops tr s1))"

definition execute_new ::
    "'w db_ops \<Rightarrow> datasource \<Rightarrow> TransactionOptions \<Rightarrow> (conn option \<Rightarrow> ('w, 'v) tx_run) \<Rightarrow> ('w, 'v) tx_run" where
  "execute_new ops ds opts fn s =
     (let started = steady_clock ops (tx_world s)
      in case Transaction_new ops ds s of
           (Inl e, s1) \<Rightarrow> (Inl e, s1)
         | (Inr tr, s1) \<Rightarrow>
             (case apply_transaction_options ops ds (tr_connection tr) opts s1 of
                (Some e, s2) \<Rightarrow> (Inl e, Transaction_destroy ops tr s2)
              | (None, s2) \<Rightarrow>
                  (let flag = length (tx_flags s2);
                       s3 = push_active \<lparr>at_datasource = ds, at_connection = tr_connection tr, at_rollback_only = flag\<rparr>
                              (s2\<lparr>tx_flags := tx_flags s2 @ [False]\<rparr>)
                   in case fn (Some (tr_connection tr)) s3 of
                        (Inl e, s4) \<Rightarrow>
                          (case new_failed ops opts e tr s4 of (e', tr1, s5) \<Rightarrow> leave_new ops (Inl e') tr1 s5)
                      | (Inr v, s4) \<Rightarrow>
                          (case finish_new ops started opts flag tr s4 of
                             (None, tr1, s5) \<Rightarrow> leave_new ops (Inr v) tr1 s5
                           | (Some e, tr1, s5) \<Rightarrow>
                               (case new_failed ops opts e tr1 s5 of (e', tr2, s6) \<Rightarrow> leave_new ops (Inl e') tr2 s6)))))"

definition tx_execute ::
    "'w db_ops \<Rightarrow> datasource \<Rightarrow> TransactionOptions \<Rightarrow> (conn option \<Rightarrow> ('w, 'v) tx_run) \<Rightarrow> ('w, 'v) tx_run" where
  "tx_execute ops ds opts fn s =
     (let active = current_active ds s
      in case propagation opts of
           Required \<Rightarrow> (case active of Some r \<Rightarrow> execute_existing ops r opts fn s | None \<Rightarrow> execute_new ops ds opts fn s)
         | RequiresNew \<Rightarrow> execute_new ops ds opts fn s
         | Supports \<Rightarrow> (case active of Some r \<Rightarrow> execute_existing ops r opts fn s
                        | None \<Rightarrow> execute_non_transactional ops ds opts fn s)
         | NotSupported \<Rightarrow>
             (case suspend_transactions ds s of
                (suspended, s1) \<Rightarrow>
                  (case execute_non_transactional ops ds opts fn s1 of (r, s2) \<Rightarrow> (r, resume_transactions suspended s2)))
         | Mandatory \<Rightarrow>
             (case active of
                None \<Rightarrow> (Inl (logic_error ''Transaction propagation MANDATORY requires an active transaction''), s)
              | Some r \<Rightarrow> execute_existing ops r opts fn s)
         | Never \<Rightarrow>
             (case active of
                Some _ \<Rightarrow> (Inl (logic_error ''Transaction propagation NEVER forbids an active transaction''), s)
              | None \<Rightarrow> execute_non_transactional ops ds opts fn s))"

definition execute_default :: "'w db_ops \<Rightarrow> datasource \<Rightarrow> (conn option \<Rightarrow> ('w, 'v) tx_run) \<Rightarrow> ('w, 'v) tx_run" where
  "execute_default ops ds fn = tx_execute ops ds default_options fn"

text \<open>Calls of a service method: the annotation gives the options; other methods are plain calls.\<close>

definition tx_invoke ::
    "'w db_ops \<Rightarrow> datasource \<Rightarrow> TransactionOptions option \<Rightarrow> ('w, 'v) tx_run \<Rightarrow> ('w, 'v) tx_run" where
  "tx_invoke ops ds annotation body =
     (case annotation of
        None \<Rightarrow> body
      | Some t \<Rightarrow> tx_execute ops ds (t\<lparr>rollback_for_types := [], no_rollback_for_types := []\<rparr>) (\<lambda>_. body))"

section \<open>Service code\<close>

text \<open>
  Code behind a transactional boundary: statements on the connection it was given, exceptions, handlers
  that swallow them, and further transactional calls.
\<close>

datatype svc =
    Done
  | Statement string
  | Raise exn
  | Seq svc svc
  | Try svc svc
  | Exec datasource TransactionOptions svc

primrec run_svc :: "'w db_ops \<Rightarrow> svc \<Rightarrow> conn option \<Rightarrow> ('w, unit) tx_run" where
  "run_svc ops Done c s = (Inr (), s)"
| "run_svc ops (Statement q) c s =
     (case c of
        None \<Rightarrow> (Inl (Undefined_behaviour ''null connection''), s)
      | Some c' \<Rightarrow> (case conn_call ops c' (Execute q) s of (Some e, s1) \<Rightarrow> (Inl e, s1) | (None, s1) \<Rightarrow> (Inr (), s1)))"
| "run_svc ops (Raise e) c s = (Inl e, s)"
| "run_svc ops (Seq p q) c s = (case run_svc ops p c s of (Inl e, s1) \<Rightarrow> (Inl e, s1) | (Inr _, s1) \<Rightarrow> run_svc ops q c s1)"
| "run_svc ops (Try p q) c s =
     (case run_svc ops p c s of
        (Inl e, s1) \<Rightarrow> if is_undefined e then (Inl e, s1) else run_svc ops q c s1
      | (Inr v, s1) \<Rightarrow> (Inr v, s1))"
| "run_svc ops (Exec ds opts p) c s = tx_execute ops ds opts (run_svc ops p) s"

section \<open>How a transaction ends\<close>

definition defined_result :: "'v result \<Rightarrow> bool" where
  "defined_result r \<longleftrightarrow> (case r of Inl e \<Rightarrow> \<not> is_undefined e | Inr _ \<Rightarrow> True)"

lemma conn_call_simps:
  assumes "conn_call ops c op s = (e, s')"
  shows "tx_calls s' = tx_calls s @ [(c, op, e)]" "tx_flags s' = tx_flags s" "tx_active s' = tx_active s"
  using assms by (auto simp: conn_call_def split: prod.splits)

lemma Transaction_new_fails:
  assumes "Transaction_new ops ds s = (Inl e, s')"
  shows "tx_calls s' = tx_calls s \<or> (\<exists>c. tx_calls s' = tx_calls s @ [(c, Begin, Some e)])" "tx_active s' = tx_active s"
  using assms
  by (auto simp: Transaction_new_def obtain_connection_def split: prod.splits sum.splits option.splits dest: conn_call_simps)

lemma Transaction_new_opens:
  assumes "Transaction_new ops ds s = (Inr tr, s')"
  shows "tx_calls s' = tx_calls s @ [(tr_connection tr, Begin, None)]" "tx_flags s' = tx_flags s" "\<not> tr_completed tr"
    "tx_active s' = tx_active s"
  using assms
  by (auto simp: Transaction_new_def obtain_connection_def split: prod.splits sum.splits option.splits dest: conn_call_simps)

lemma apply_options_frame:
  assumes "apply_transaction_options ops ds c opts s = (e, s')"
  shows "tx_flags s' = tx_flags s" "tx_active s' = tx_active s"
proof -
  show "tx_flags s' = tx_flags s" using assms
    by (auto simp: apply_transaction_options_def split: if_splits prod.splits option.splits dest!: conn_call_simps(2))
  show "tx_active s' = tx_active s" using assms
    by (auto simp: apply_transaction_options_def split: if_splits prod.splits option.splits dest!: conn_call_simps(3))
qed

lemma apply_options_calls:
  assumes "apply_transaction_options ops ds c opts s = (None, s')"
  shows "\<exists>prep. tx_calls s' = tx_calls s @ prep \<and> (\<forall>y\<in>set prep. \<exists>q. y = (c, Execute (''SET TRANSACTION '' @ q), None))"
  using assms
  by (auto simp: apply_transaction_options_def split: if_splits prod.splits option.splits dest!: conn_call_simps(1))

lemma complete_cases:
  assumes "complete_transaction ops op tr s = (e, tr', s')" "\<not> tr_completed tr"
  shows "tx_calls s' = tx_calls s @ [(tr_connection tr, op, e)]" "tr_connection tr' = tr_connection tr"
    "tr_completed tr' \<longleftrightarrow> e = None" "tx_active s' = tx_active s"
  using assms by (auto simp: complete_transaction_def split: prod.splits option.splits dest: conn_call_simps)

text \<open>The last call of a run that did not return normally.\<close>

definition ends_badly :: "TransactionOptions \<Rightarrow> conn \<Rightarrow> exn \<Rightarrow> 'w tx_state \<Rightarrow> bool" where
  "ends_badly opts c e s \<longleftrightarrow> (\<exists>pre res. tx_calls s = pre @ [(c, Rollback, res)]) \<or>
     ((\<exists>pre. tx_calls s = pre @ [(c, Commit, None)]) \<and> \<not> rolls_back opts e)"

lemma destroy_open:
  "\<not> tr_completed tr \<Longrightarrow> \<exists>res. tx_calls (Transaction_destroy ops tr s) = tx_calls s @ [(tr_connection tr, Rollback, res)]"
  by (cases "conn_call ops (tr_connection tr) Rollback s") (auto simp: Transaction_destroy_def dest: conn_call_simps)

lemma leave_calls:
  assumes "leave_new ops r tr s = (r', s')" "defined_result r'"
  shows "r' = r" "tr_completed tr \<Longrightarrow> tx_calls s' = tx_calls s"
    "\<not> tr_completed tr \<Longrightarrow> \<exists>res. tx_calls s' = tx_calls s @ [(tr_connection tr, Rollback, res)]"
  using assms destroy_open [of tr ops "s\<lparr>tx_active := butlast (tx_active s)\<rparr>"]
  by (auto simp: leave_new_def pop_active_def defined_result_def Transaction_destroy_def split: if_splits)

lemma leave_failed:
  assumes new: "new_failed ops opts e tr s = (e', tr', s')" and leave: "leave_new ops (Inl e') tr' s' = (r, s'')"
    and r: "r = Inl x" "\<not> is_undefined x"
    and tr: "\<not> tr_completed tr \<or> (e = UnexpectedRollbackException \<and> (\<exists>pre res. tx_calls s = pre @ [(tr_connection tr, Rollback, res)]))"
  shows "ends_badly opts (tr_connection tr) x s''"
proof -
  note l = leave_calls [OF leave]
  have x: "x = e'" using l(1) r by (simp add: defined_result_def)
  note l = l(2,3) [unfolded r defined_result_def]
  consider "is_undefined e \<or> exn_type e = Some ''UnexpectedRollbackException''"
    | "\<not> is_undefined e" "exn_type e \<noteq> Some ''UnexpectedRollbackException''" "\<not> tr_completed tr"
    using tr by (auto simp: UnexpectedRollbackException_def)
  then show ?thesis
  proof cases
    case 1
    with new have "e' = e" "tr' = tr" "s' = s" by (auto simp: new_failed_def)
    with l r tr show ?thesis unfolding ends_badly_def by (cases "tr_completed tr") auto
  next
    case 2
    then obtain op res where c: "complete_transaction ops op tr s = (res, tr', s')"
      and op: "op = (if rolls_back opts e then Rollback else Commit)" and e': "e' = (case res of None \<Rightarrow> e | Some e2 \<Rightarrow> e2)"
      using new by (auto simp: new_failed_def Transaction_rollback_def Transaction_commit_def split: if_splits option.splits prod.splits)
    note cc = complete_cases [OF c 2(3)]
    show ?thesis
    proof (cases res)
      case None
      with cc l r op e' x show ?thesis by (auto simp: ends_badly_def)
    next
      case (Some e2)
      with cc l r show ?thesis by (auto simp: ends_badly_def)
    qed
  qed
qed

lemma finish_cases:
  assumes "finish_new ops started opts flag tr s = (e, tr', s')" "\<not> tr_completed tr"
  shows "e = None \<Longrightarrow> \<not> tx_flags s ! flag \<and> tr_completed tr' \<and> tx_calls s' = tx_calls s @ [(tr_connection tr, Commit, None)]"
    and "tr_connection tr' = tr_connection tr" and "tx_active s' = tx_active s"
    and "e = Some x \<Longrightarrow> \<not> tr_completed tr' \<or>
      (x = UnexpectedRollbackException \<and> (\<exists>pre res. tx_calls s' = pre @ [(tr_connection tr', Rollback, res)]))"
  using assms
  by (auto simp: finish_new_def Transaction_rollback_def Transaction_commit_def split: option.splits if_splits prod.splits
      dest: complete_cases [OF _ assms(2)]) (metis complete_cases(1,2) assms(2))

lemma execute_new_cases:
  assumes "execute_new ops ds opts fn s = (r, s')"
  obtains (no_transaction) e where "Transaction_new ops ds s = (Inl e, s')" "r = Inl e"
  | (no_options) tr s1 s2 e where "Transaction_new ops ds s = (Inr tr, s1)"
      "apply_transaction_options ops ds (tr_connection tr) opts s1 = (Some e, s2)" "r = Inl e" "s' = Transaction_destroy ops tr s2"
  | (ran) tr s1 s2 s3 rf s4 where "Transaction_new ops ds s = (Inr tr, s1)"
      "apply_transaction_options ops ds (tr_connection tr) opts s1 = (None, s2)"
      "s3 = push_active \<lparr>at_datasource = ds, at_connection = tr_connection tr, at_rollback_only = length (tx_flags s2)\<rparr>
              (s2\<lparr>tx_flags := tx_flags s2 @ [False]\<rparr>)"
      "fn (Some (tr_connection tr)) s3 = (rf, s4)"
      "(\<exists>e e' tr1 s5. rf = Inl e \<and> new_failed ops opts e tr s4 = (e', tr1, s5) \<and> leave_new ops (Inl e') tr1 s5 = (r, s')) \<or>
       (\<exists>v tr1 s5. rf = Inr v \<and>
          finish_new ops (steady_clock ops (tx_world s)) opts (length (tx_flags s2)) tr s4 = (None, tr1, s5) \<and>
          leave_new ops (Inr v) tr1 s5 = (r, s')) \<or>
       (\<exists>v e tr1 s5 e' tr2 s6. rf = Inr v \<and>
          finish_new ops (steady_clock ops (tx_world s)) opts (length (tx_flags s2)) tr s4 = (Some e, tr1, s5) \<and>
          new_failed ops opts e tr1 s5 = (e', tr2, s6) \<and> leave_new ops (Inl e') tr2 s6 = (r, s'))"
proof (cases "Transaction_new ops ds s")
  case (Pair rt s1)
  show thesis
  proof (cases rt)
    case (Inl e)
    with Pair assms no_transaction show thesis by (auto simp: execute_new_def)
  next
    case (Inr tr)
    obtain eo s2 where opt: "apply_transaction_options ops ds (tr_connection tr) opts s1 = (eo, s2)" by fastforce
    show thesis
    proof (cases eo)
      case (Some e)
      with Pair Inr opt assms no_options show thesis by (auto simp: execute_new_def)
    next
      case None
      let ?s3 = "push_active \<lparr>at_datasource = ds, at_connection = tr_connection tr, at_rollback_only = length (tx_flags s2)\<rparr>
              (s2\<lparr>tx_flags := tx_flags s2 @ [False]\<rparr>)"
      obtain rf s4 where fn: "fn (Some (tr_connection tr)) ?s3 = (rf, s4)" by fastforce
      note start = Pair [unfolded Inr] opt [unfolded None]
      show thesis
        by (rule ran [OF start refl fn], insert assms, cases rf)
           (auto simp: execute_new_def start fn Let_def split: prod.splits option.splits)
    qed
  qed
qed

text \<open>
  C10: However the callback of a new transaction behaves, the transaction it runs in is ended: a normal
  return means that the callback returned that value, nothing had marked the transaction rollback-only
  and the last call on the connection was a successful commit; an exception means that no transaction
  was opened, or that the last call was a rollback, or that the exception is one the options exempt from
  rollback and the last call was a successful commit.
\<close>

theorem transaction_outcome:
  assumes run: "execute_new ops ds opts fn s = (r, s')" and r: "defined_result r"
  shows "case r of
      Inr v \<Rightarrow> \<exists>c s1 s2. fn (Some c) s1 = (Inr v, s2) \<and> \<not> tx_flags s2 ! length (tx_flags s) \<and>
        tx_calls s' = tx_calls s2 @ [(c, Commit, None)]
    | Inl e \<Rightarrow> tx_calls s' = tx_calls s \<or> (\<exists>c. tx_calls s' = tx_calls s @ [(c, Begin, Some e)]) \<or>
        (\<exists>c. ends_badly opts c e s')"
  using run
proof (cases rule: execute_new_cases)
  case (no_transaction e)
  then show ?thesis using Transaction_new_fails [OF no_transaction(1)] by auto
next
  case (no_options tr s1 s2 e)
  note new = Transaction_new_opens [OF no_options(1)]
  from destroy_open [OF new(3)] no_options(4) have "ends_badly opts (tr_connection tr) e s'"
    unfolding ends_badly_def by blast
  with no_options(3) show ?thesis by auto
next
  case (ran tr s1 s2 s3 rf s4)
  note new = Transaction_new_opens [OF ran(1)]
  have flags: "length (tx_flags s2) = length (tx_flags s)" using new(2) apply_options_frame(1) [OF ran(2)] by simp
  from ran(5) show ?thesis
  proof (elim disjE exE conjE)
    fix e e' tr1 s5
    assume f: "new_failed ops opts e tr s4 = (e', tr1, s5)" "leave_new ops (Inl e') tr1 s5 = (r, s')"
    then have "r = Inl e'" using leave_calls(1) [OF f(2) r] by simp
    with leave_failed [OF f, of e'] r new(3) show ?thesis by (auto simp: defined_result_def)
  next
    fix v tr1 s5
    assume f: "rf = Inr v" "leave_new ops (Inr v) tr1 s5 = (r, s')"
      and fin: "finish_new ops (steady_clock ops (tx_world s)) opts (length (tx_flags s2)) tr s4 = (None, tr1, s5)"
    with finish_cases(1) [OF fin new(3)] leave_calls(1,2) [OF f(2) r] ran(4) flags show ?thesis by auto
  next
    fix v e tr1 s5 e' tr2 s6
    assume fin: "finish_new ops (steady_clock ops (tx_world s)) opts (length (tx_flags s2)) tr s4 = (Some e, tr1, s5)"
      and f: "new_failed ops opts e tr1 s5 = (e', tr2, s6)" "leave_new ops (Inl e') tr2 s6 = (r, s')"
    then have x: "r = Inl e'" using leave_calls(1) [OF f(2) r] by simp
    from finish_cases(4) [OF fin new(3) refl] leave_failed [OF f x] r x show ?thesis by (auto simp: defined_result_def)
  qed
qed

section \<open>The stack of active transactions\<close>

abbreviation stack :: "'w tx_state \<Rightarrow> ActiveTransaction list" where
  "stack s \<equiv> map snd (tx_active s)"

lemma snd_restamp [simp]: "map snd (restamp n xs) = map snd xs" "length (restamp n xs) = length xs"
  by (simp_all add: restamp_def)

lemma stack_push [simp]: "stack (push_active a s) = stack s @ [a]"
  by (simp add: push_active_def Let_def)

lemma stack_resume [simp]: "stack (resume_transactions susp s) = stack s @ susp"
  by (simp add: resume_transactions_def Let_def)

lemma suspend_loop_stack:
  "suspend_loop ds kept rest susp n = (kept', susp', n') \<Longrightarrow>
     map snd kept' = map snd kept @ filter (\<lambda>a. at_datasource a \<noteq> ds) (map snd rest) \<and>
     susp' = susp @ filter (\<lambda>a. at_datasource a = ds) (map snd rest)"
  by (induction ds kept rest susp n arbitrary: kept' susp' n' rule: suspend_loop.induct) (auto split: if_splits)

lemma stack_suspend:
  assumes "suspend_transactions ds s = (susp, s')"
  shows "stack s' = filter (\<lambda>a. at_datasource a \<noteq> ds) (stack s)" "susp = filter (\<lambda>a. at_datasource a = ds) (stack s)"
  using assms
  by (auto simp: suspend_transactions_def split: prod.splits dest: suspend_loop_stack)

lemma destroy_active [simp]: "tx_active (Transaction_destroy ops tr s) = tx_active s"
  by (cases "conn_call ops (tr_connection tr) Rollback s") (auto simp: Transaction_destroy_def dest: conn_call_simps)

lemma leave_stack: "leave_new ops r tr s = (r', s') \<Longrightarrow> defined_result r' \<Longrightarrow> stack s' = butlast (stack s)"
  by (auto simp: leave_new_def pop_active_def defined_result_def map_butlast split: if_splits)

lemma new_failed_active: "new_failed ops opts e tr s = (e', tr', s') \<Longrightarrow> tx_active s' = tx_active s"
  by (auto simp: new_failed_def Transaction_rollback_def Transaction_commit_def complete_transaction_def
      split: if_splits prod.splits option.splits dest!: conn_call_simps(3))

text \<open>
  A callback that leaves the stack as it found it, for stacks of one data source. Every propagation mode
  keeps the property, so code that only nests calls has it too.
\<close>

definition one_source :: "datasource \<Rightarrow> 'w tx_state \<Rightarrow> bool" where
  "one_source d s \<longleftrightarrow> (\<forall>a\<in>set (stack s). at_datasource a = d)"

definition keeps_stack :: "datasource \<Rightarrow> ('w, 'v) tx_run \<Rightarrow> bool" where
  "keeps_stack d f \<longleftrightarrow> (\<forall>s r s'. one_source d s \<longrightarrow> f s = (r, s') \<longrightarrow> defined_result r \<longrightarrow> stack s' = stack s)"

lemma keeps_stackD: "keeps_stack d f \<Longrightarrow> f s = (r, s') \<Longrightarrow> defined_result r \<Longrightarrow> one_source d s \<Longrightarrow> stack s' = stack s"
  by (simp add: keeps_stack_def)

lemma obtain_connection_active: "obtain_connection ops ds s = (r, s') \<Longrightarrow> tx_active s' = tx_active s"
  by (auto simp: obtain_connection_def split: prod.splits)

lemma non_transactional_keeps:
  assumes "\<And>c. keeps_stack d (fn c)"
  shows "keeps_stack d (execute_non_transactional ops ds opts fn)"
proof (unfold keeps_stack_def, intro allI impI)
  fix s r s' assume one: "one_source d s" and run: "execute_non_transactional ops ds opts fn s = (r, s')" and r: "defined_result r"
  obtain rc s1 where oc: "obtain_connection ops ds s = (rc, s1)" by fastforce
  note s1 = obtain_connection_active [OF oc]
  show "stack s' = stack s"
  proof (cases rc)
    case (Inl e)
    with oc run s1 show ?thesis by (auto simp: execute_non_transactional_def)
  next
    case (Inr c)
    obtain rf s2 where fn: "fn c s1 = (rf, s2)" by fastforce
    then have "s' = s2" "defined_result rf"
      using run oc Inr r by (auto simp: execute_non_transactional_def defined_result_def Let_def split: sum.splits option.splits)
    with keeps_stackD [OF assms fn] one s1 show ?thesis by (simp add: one_source_def)
  qed
qed

lemma existing_keeps: "(\<And>c. keeps_stack d (fn c)) \<Longrightarrow> keeps_stack d (execute_existing ops r opts fn)"
  unfolding keeps_stack_def [of d "execute_existing ops r opts fn"]
  by (auto simp: execute_existing_def existing_failed_def mark_rollback_only_def Let_def split: prod.splits sum.splits option.splits if_splits)
     (auto simp: keeps_stack_def defined_result_def)

lemma new_keeps:
  assumes "\<And>c. keeps_stack d (fn c)"
  shows "keeps_stack d (execute_new ops d opts fn)"
proof (unfold keeps_stack_def, intro allI impI)
  fix s r s' assume one: "one_source d s" and run: "execute_new ops d opts fn s = (r, s')" and r: "defined_result r"
  from run show "stack s' = stack s"
  proof (cases rule: execute_new_cases)
    case (no_transaction e)
    then show ?thesis using Transaction_new_fails(2) by fastforce
  next
    case (no_options tr s1 s2 e)
    then show ?thesis using Transaction_new_opens(4) apply_options_frame(2) by fastforce
  next
    case (ran tr s1 s2 s3 rf s4)
    note new = Transaction_new_opens [OF ran(1)]
    have s2: "stack s2 = stack s" using new(4) apply_options_frame(2) [OF ran(2)] by simp
    have one3: "one_source d s3" using one s2 by (auto simp: ran(3) one_source_def)
    have "butlast (stack s3) = stack s" by (simp add: ran(3) s2)
    moreover have "stack s' = butlast (stack s4)"
      using ran(5) leave_stack [OF _ r] new_failed_active finish_cases(3) [OF _ new(3)] by metis
    moreover have "stack s4 = stack s3" if "defined_result rf" using keeps_stackD [OF assms ran(4) that one3] .
    moreover have "defined_result rf" if "rf = Inl e" for e
    proof (rule ccontr)
      assume "\<not> defined_result rf"
      then have "is_undefined e" using that by (simp add: defined_result_def)
      then have "leave_new ops (Inl e) tr s4 = (r, s')" using ran(5) that by (auto simp: new_failed_def)
      from leave_calls(1) [OF this r] r \<open>is_undefined e\<close> show False by (simp add: defined_result_def)
    qed
    ultimately show ?thesis by (cases rf) (auto simp: defined_result_def)
  qed
qed

lemma not_supported_keeps:
  assumes "\<And>c. keeps_stack d (fn c)" "one_source d s" "defined_result r"
    and "suspend_transactions d s = (susp, s1)" "execute_non_transactional ops d opts fn s1 = (r, s2)"
  shows "stack (resume_transactions susp s2) = stack s"
proof -
  note st = stack_suspend [OF assms(4)]
  have all: "filter (\<lambda>a. at_datasource a \<noteq> d) (stack s) = []" "filter (\<lambda>a. at_datasource a = d) (stack s) = stack s"
    using assms(2) by (auto simp: one_source_def filter_empty_conv intro!: filter_True)
  then have "one_source d s1" unfolding one_source_def st by simp
  then have "stack s2 = stack s1" by (rule keeps_stackD [OF non_transactional_keeps [OF assms(1)] assms(5,3)])
  then show ?thesis by (simp add: st all)
qed

lemma execute_keeps:
  assumes "\<And>c. keeps_stack d (fn c)"
  shows "keeps_stack d (tx_execute ops d opts fn)"
proof (unfold keeps_stack_def, intro allI impI)
  fix s r s' assume one: "one_source d s" and run: "tx_execute ops d opts fn s = (r, s')" and r: "defined_result r"
  note keeps = keeps_stackD [OF non_transactional_keeps [OF assms] _ r one] keeps_stackD [OF existing_keeps [OF assms] _ r one]
    keeps_stackD [OF new_keeps [OF assms] _ r one] not_supported_keeps [OF assms one r]
  from run show "stack s' = stack s"
    by (cases "propagation opts"; cases "current_active d s")
       (auto simp: tx_execute_def Let_def split: prod.splits intro: keeps)
qed

primrec uses :: "datasource \<Rightarrow> svc \<Rightarrow> bool" where
  "uses d Done \<longleftrightarrow> True"
| "uses d (Statement q) \<longleftrightarrow> True"
| "uses d (Raise e) \<longleftrightarrow> True"
| "uses d (Seq p q) \<longleftrightarrow> uses d p \<and> uses d q"
| "uses d (Try p q) \<longleftrightarrow> uses d p \<and> uses d q"
| "uses d (Exec ds opts p) \<longleftrightarrow> ds = d \<and> uses d p"

lemma keeps_stack_bind:
  assumes f: "keeps_stack d f" and g: "\<And>v. keeps_stack d (g v)"
  shows "keeps_stack d (\<lambda>s. case f s of (Inl e, s1) \<Rightarrow> (Inl e, s1) | (Inr v, s1) \<Rightarrow> g v s1)"
proof (unfold keeps_stack_def, intro allI impI)
  fix s r s' assume one: "one_source d s" and r: "defined_result r"
    and run: "(case f s of (Inl e, s1) \<Rightarrow> (Inl e, s1) | (Inr v, s1) \<Rightarrow> g v s1) = (r, s')"
  obtain rf s1 where fs: "f s = (rf, s1)" by fastforce
  note keep = keeps_stackD [OF f fs _ one]
  show "stack s' = stack s"
  proof (cases rf)
    case (Inl e)
    with run fs r keep show ?thesis by (auto simp: defined_result_def)
  next
    case (Inr v)
    then have "stack s1 = stack s" using keep by (simp add: defined_result_def)
    moreover have "g v s1 = (r, s')" using run fs Inr by simp
    ultimately show ?thesis using keeps_stackD [OF g _ r] one by (metis one_source_def)
  qed
qed

lemma keeps_stack_catch:
  assumes f: "keeps_stack d f" and h: "keeps_stack d h"
  shows "keeps_stack d (\<lambda>s. case f s of (Inl e, s1) \<Rightarrow> if is_undefined e then (Inl e, s1) else h s1 | (Inr v, s1) \<Rightarrow> (Inr v, s1))"
proof (unfold keeps_stack_def, intro allI impI)
  fix s r s' assume one: "one_source d s" and r: "defined_result r"
    and run: "(case f s of (Inl e, s1) \<Rightarrow> if is_undefined e then (Inl e, s1) else h s1 | (Inr v, s1) \<Rightarrow> (Inr v, s1)) = (r, s')"
  obtain rf s1 where fs: "f s = (rf, s1)" by fastforce
  note keep = keeps_stackD [OF f fs _ one]
  show "stack s' = stack s"
  proof (cases "\<exists>e. rf = Inl e \<and> \<not> is_undefined e")
    case False
    with run fs r keep show ?thesis by (auto simp: defined_result_def split: sum.splits)
  next
    case True
    then have "stack s1 = stack s" using keep by (auto simp: defined_result_def)
    moreover have "h s1 = (r, s')" using run fs True by auto
    ultimately show ?thesis using keeps_stackD [OF h _ r] one by (metis one_source_def)
  qed
qed

lemma run_svc_keeps: "uses d p \<Longrightarrow> keeps_stack d (run_svc ops p c)"
proof (induction p arbitrary: c)
  case (Statement q)
  then show ?case
    by (auto simp: keeps_stack_def split: option.splits prod.splits dest: conn_call_simps(3))
next
  case (Seq p q)
  then show ?case using keeps_stack_bind [of d "run_svc ops p c" "\<lambda>_. run_svc ops q c"] by simp
next
  case (Try p q)
  then show ?case using keeps_stack_catch [of d "run_svc ops p c" "run_svc ops q c"] by simp
next
  case (Exec ds opts p)
  then show ?case using execute_keeps [of d "run_svc ops p"] by (simp add: keeps_stack_def)
qed (auto simp: keeps_stack_def)

text \<open>
  Service code on one data source leaves the thread's stack of active transactions as it found it,
  however its transactional calls nest, whatever they throw and whatever their propagation, unless the
  run has undefined behaviour.
\<close>

theorem transaction_stack_restored:
  assumes "uses d p" "one_source d s" "run_svc ops p c s = (r, s')" "defined_result r"
  shows "stack s' = stack s"
  using keeps_stackD [OF run_svc_keeps [OF assms(1)] assms(3,4,2)] .

section \<open>Calls that join a transaction\<close>

primrec joins :: "datasource \<Rightarrow> svc \<Rightarrow> bool" where
  "joins d Done \<longleftrightarrow> True"
| "joins d (Statement q) \<longleftrightarrow> True"
| "joins d (Raise e) \<longleftrightarrow> True"
| "joins d (Seq p q) \<longleftrightarrow> joins d p \<and> joins d q"
| "joins d (Try p q) \<longleftrightarrow> joins d p \<and> joins d q"
| "joins d (Exec ds opts p) \<longleftrightarrow> ds = d \<and> propagation opts \<in> {Required, Supports, Mandatory} \<and> joins d p"

text \<open>
  What such code means: statements on one connection, and a mark that is set when an exception leaves a
  transactional call that rolls back on it. Nothing is begun or ended.
\<close>

type_synonym 'w joined = "bool \<times> 'w \<times> (conn \<times> db_call \<times> exn option) list"

definition joined_timeout :: "'w db_ops \<Rightarrow> 'w \<Rightarrow> TransactionOptions \<Rightarrow> 'w \<Rightarrow> exn option" where
  "joined_timeout ops started opts w =
     (if timeout_seconds opts \<le> 0 \<or> steady_clock ops w - steady_clock ops started \<le> timeout_seconds opts * 1000000000
      then None else Some (TransactionTimeoutException (timeout_seconds opts)))"

primrec joined_run :: "'w db_ops \<Rightarrow> svc \<Rightarrow> conn \<Rightarrow> 'w joined \<Rightarrow> unit result \<times> 'w joined" where
  "joined_run ops Done c x = (Inr (), x)"
| "joined_run ops (Statement q) c x =
     (case x of (rb, w, calls) \<Rightarrow>
        case call_connection ops c (Execute q) w of
          (e, w') \<Rightarrow> (case e of None \<Rightarrow> Inr () | Some e' \<Rightarrow> Inl e', rb, w', calls @ [(c, Execute q, e)]))"
| "joined_run ops (Raise e) c x = (Inl e, x)"
| "joined_run ops (Seq p q) c x = (case joined_run ops p c x of (Inl e, y) \<Rightarrow> (Inl e, y) | (Inr _, y) \<Rightarrow> joined_run ops q c y)"
| "joined_run ops (Try p q) c x =
     (case joined_run ops p c x of
        (Inl e, y) \<Rightarrow> if is_undefined e then (Inl e, y) else joined_run ops q c y
      | (Inr v, y) \<Rightarrow> (Inr v, y))"
| "joined_run ops (Exec ds opts p) c x =
     (case joined_run ops p c x of
        (r, rb, w, calls) \<Rightarrow>
          (case (case r of Inl e \<Rightarrow> Some e | Inr _ \<Rightarrow> joined_timeout ops (fst (snd x)) opts w) of
             None \<Rightarrow> (Inr (), rb, w, calls)
           | Some e \<Rightarrow> (Inl e, rb \<or> (\<not> is_undefined e \<and> rolls_back opts e), w, calls)))"

definition concrete :: "'w tx_state \<Rightarrow> nat \<Rightarrow> 'w joined \<Rightarrow> 'w tx_state" where
  "concrete s fl x = (case x of (rb, w, calls) \<Rightarrow> s\<lparr>tx_flags := (tx_flags s)[fl := rb], tx_world := w, tx_calls := calls\<rparr>)"

lemma concrete_active [simp]: "tx_active (concrete s fl x) = tx_active s"
  "current_active d (concrete s fl x) = current_active d s"
  by (simp_all add: concrete_def current_active_def split: prod.split)

lemma joined_refines:
  assumes "current_active d s = Some r" "map_of (tx_active s) r = Some a" "at_rollback_only a < length (tx_flags s)"
    and "joins d p"
  shows "run_svc ops p (Some (at_connection a)) (concrete s (at_rollback_only a) x) =
    (case joined_run ops p (at_connection a) x of (res, y) \<Rightarrow> (res, concrete s (at_rollback_only a) y))"
  using assms(4)
proof (induction p arbitrary: x)
  case (Statement q)
  show ?case
    by (cases x) (auto simp: concrete_def conn_call_def split: prod.splits option.splits)
next
  case (Seq p q)
  then show ?case by (auto split: prod.splits sum.splits)
next
  case (Try p q)
  then show ?case by (auto split: prod.splits sum.splits)
next
  case (Exec ds opts p)
  let ?c = "at_connection a" and ?fl = "at_rollback_only a"
  obtain rb0 w0 calls0 where x: "x = (rb0, w0, calls0)" by (cases x)
  obtain res rb w calls where run: "joined_run ops p ?c x = (res, rb, w, calls)" by (metis prod_cases4)
  have inner: "run_svc ops p (Some ?c) (concrete s ?fl x) = (res, concrete s ?fl (rb, w, calls))" using Exec run by simp
  have mark: "mark_rollback_only r (concrete s ?fl (rb, w, calls)) = (None, concrete s ?fl (True, w, calls))"
    using assms(2) by (simp add: mark_rollback_only_def concrete_def)
  have failed: "existing_failed r opts e (concrete s ?fl (rb, w, calls)) =
      (Inl e, concrete s ?fl (rb \<or> (\<not> is_undefined e \<and> rolls_back opts e), w, calls))" for e
    by (simp add: existing_failed_def mark)
  have time: "check_timeout ops (steady_clock ops (tx_world (concrete s ?fl x))) opts (concrete s ?fl (rb, w, calls)) =
      joined_timeout ops w0 opts w"
    by (simp add: check_timeout_def joined_timeout_def concrete_def x)
  have "run_svc ops (Exec ds opts p) (Some ?c) (concrete s ?fl x) = execute_existing ops r opts (run_svc ops p) (concrete s ?fl x)"
    using Exec.prems assms(1) by (auto simp: tx_execute_def)
  also have "\<dots> = (case joined_run ops (Exec ds opts p) ?c x of (res, y) \<Rightarrow> (res, concrete s ?fl y))"
    using run by (cases res) (auto simp: execute_existing_def assms(2) inner [unfolded x] failed time [unfolded x] Let_def x split: option.splits)
  finally show ?case .
qed simp_all

lemma joined_calls:
  "\<exists>inner. snd (snd (snd (joined_run ops p c x))) = snd (snd x) @ inner \<and> (\<forall>y\<in>set inner. \<exists>q e. y = (c, Execute q, e))"
proof (induction p arbitrary: x)
  case (Statement q)
  show ?case by (auto split: prod.splits)
next
  case (Seq p q)
  obtain r y where p: "joined_run ops p c x = (r, y)" by (cases "joined_run ops p c x")
  from Seq(1) [of x] Seq(2) [of y] show ?case by (fastforce simp: p split: sum.splits)
next
  case (Try p q)
  obtain r y where p: "joined_run ops p c x = (r, y)" by (cases "joined_run ops p c x")
  from Try(1) [of x] Try(2) [of y] show ?case by (fastforce simp: p split: sum.splits)
next
  case (Exec ds opts p)
  obtain r rb w calls where p: "joined_run ops p c x = (r, rb, w, calls)" by (metis prod_cases4)
  from Exec [of x] show ?case by (auto simp: p split: sum.splits option.splits)
qed simp_all

definition refs_ok :: "'w tx_state \<Rightarrow> bool" where
  "refs_ok s \<longleftrightarrow> (\<forall>(r, a)\<in>set (tx_active s). r < tx_next_ref s)"

lemma pushed_is_current:
  assumes "refs_ok s" "at_datasource a = d"
  obtains r where "current_active d (push_active a s) = Some r" "map_of (tx_active (push_active a s)) r = Some a"
proof -
  obtain xs n where xs: "tx_active (push_active a s) = xs @ [(n, a)]" "n \<notin> fst ` set xs"
  proof (cases "length (tx_active s) < tx_capacity s")
    case True
    then show thesis using assms(1) by (intro that [of "tx_active s" "tx_next_ref s"]) (auto simp: push_active_def refs_ok_def Let_def)
  next
    case False
    then show thesis by (intro that [of "restamp (tx_next_ref s) (tx_active s)" "tx_next_ref s + length (tx_active s)"])
      (auto simp: push_active_def Let_def restamp_def dest: set_zip_leftD)
  qed
  then have "map_of (tx_active (push_active a s)) n = Some a" by (simp add: map_add_def map_of_eq_None_iff [THEN iffD2])
  moreover have "current_active d (push_active a s) = Some n" using assms(2) by (simp add: current_active_def xs)
  ultimately show thesis using that by blast
qed

text \<open>How the opening call ends when the code inside has run.\<close>

definition joined_outcome :: "unit result \<Rightarrow> bool \<Rightarrow> unit result" where
  "joined_outcome res rb = (case res of Inl e \<Rightarrow> Inl e | Inr _ \<Rightarrow> if rb then Inl UnexpectedRollbackException else Inr ())"

definition joined_commits :: "TransactionOptions \<Rightarrow> unit result \<Rightarrow> bool \<Rightarrow> bool" where
  "joined_commits opts res rb =
     (case res of
        Inl e \<Rightarrow> exn_type e \<noteq> Some ''UnexpectedRollbackException'' \<and> \<not> rolls_back opts e
      | Inr _ \<Rightarrow> \<not> rb)"

lemma completed_call:
  assumes "\<And>w. fst (call_connection ops c op w) = None"
  shows "complete_transaction ops op \<lparr>tr_connection = c, tr_completed = False\<rparr> s =
    (None, \<lparr>tr_connection = c, tr_completed = True\<rparr>,
     s\<lparr>tx_world := snd (call_connection ops c op (tx_world s)), tx_calls := tx_calls s @ [(c, op, None)]\<rparr>)"
  using assms [of "tx_world s"]
  by (cases "call_connection ops c op (tx_world s)") (simp add: complete_transaction_def conn_call_def)


section \<open>A driver, and runs the code gets wrong\<close>

text \<open>A pool that numbers its connections and never fails.\<close>

definition demo_db :: "nat db_ops" where
  "demo_db = \<lparr>get_connection = (\<lambda>ds w. (Inr (Some w), Suc w)), call_connection = (\<lambda>c op w. (None, w)),
     dialect_name = (\<lambda>ds. ''sqlite''), steady_clock = (\<lambda>w. 0)\<rparr>"

definition demo_tx_state :: "nat tx_state" where
  "demo_tx_state = \<lparr>tx_active = [], tx_capacity = 0, tx_next_ref = 0, tx_flags = [], tx_calls = [], tx_world = 0\<rparr>"

lemmas demo_db_defs = demo_db_def demo_tx_state_def default_options_def tx_execute_def execute_new_def Transaction_new_def
  obtain_connection_def conn_call_def apply_transaction_options_def push_active_def pop_active_def restamp_def current_active_def
  finish_new_def new_failed_def leave_new_def Transaction_destroy_def Transaction_commit_def Transaction_rollback_def
  complete_transaction_def check_timeout_def execute_existing_def existing_failed_def mark_rollback_only_def rolls_back_def
  should_rollback_def tx_matches_def Let_def defined_result_def

lemma transaction_outcome_witness:
  "tx_calls (snd (execute_new demo_db 7 default_options (run_svc demo_db (Statement ''q'')) demo_tx_state)) =
     [(0, Begin, None), (0, Execute ''q'', None), (0, Commit, None)] \<and>
   (\<exists>c s1 s2. run_svc demo_db (Statement ''q'') (Some c) s1 = (Inr (), s2) \<and>
      [(0, Begin, None), (0, Execute ''q'', None), (0, Commit, None)] = tx_calls s2 @ [(c, Commit, None)])"
proof -
  let ?run = "execute_new demo_db 7 default_options (run_svc demo_db (Statement ''q'')) demo_tx_state"
  have calls: "tx_calls (snd ?run) = [(0, Begin, None), (0, Execute ''q'', None), (0, Commit, None)]" and "fst ?run = Inr ()"
    by (simp_all add: demo_db_defs)
  then have "?run = (Inr (), snd ?run)" by (metis prod.collapse)
  from transaction_outcome [OF this] calls show ?thesis by (simp only: defined_result_def sum.case) metis
qed

definition demo_nested :: svc where
  "demo_nested = Seq (Statement ''a'') (Try (Exec 7 default_options (Raise (Runtime_error ''x''))) (Statement ''b''))"

lemma transaction_stack_restored_witness:
  "map snd (tx_active (snd (run_svc demo_db (Exec 7 default_options demo_nested) None demo_tx_state))) = []"
proof -
  let ?run = "run_svc demo_db (Exec 7 default_options demo_nested) None demo_tx_state"
  have "uses 7 (Exec 7 default_options demo_nested)" "one_source 7 demo_tx_state" "defined_result (fst ?run)"
    by (simp_all add: demo_nested_def one_source_def demo_db_defs UnexpectedRollbackException_def)
  from transaction_stack_restored [OF this(1,2) _ this(3), of demo_db None "snd ?run"] show ?thesis
    by (simp add: demo_tx_state_def)
qed


text \<open>
  A joined call keeps a pointer into the vector of active transactions. A call inside it that opens a
  transaction makes the vector grow; when the joined call then fails the pointer dangles.
\<close>

lemma transaction_joined_call_dangles:
  "fst (run_svc demo_db (Exec 7 default_options (Exec 7 default_options
      (Seq (Exec 7 (default_options\<lparr>propagation := RequiresNew\<rparr>) Done) (Raise (Runtime_error ''x''))))) None demo_tx_state) =
   Inl (Undefined_behaviour ''dangling reference to an active transaction'')"
  by (simp add: demo_db_defs)

text \<open>
  Suspended transactions come back at the end of the vector, and the guard of a transaction removes the
  last element. With two data sources the wrong one goes: inside the call on source 1, source 1 has no
  connection any more, and source 2, whose transaction is over, still has one.
\<close>

lemma transaction_suspension_pops_other:
  "let s = snd (run_svc demo_db (Exec 2 default_options (Exec 1 (default_options\<lparr>propagation := NotSupported\<rparr>) Done)) None
       (push_active \<lparr>at_datasource = 1, at_connection = 5, at_rollback_only = 0\<rparr> (demo_tx_state\<lparr>tx_flags := [False]\<rparr>)))
   in current_connection_for 1 s = None \<and> current_connection_for 2 s \<noteq> None"
  by (simp add: demo_db_defs suspend_transactions_def resume_transactions_def execute_non_transactional_def
      current_connection_for_def)

text \<open>A transaction marked rollback-only is committed when an exempted exception leaves the outer call.\<close>

lemma transaction_rollback_only_committed:
  "last (tx_calls (snd (run_svc demo_db (Exec 7 (no_rollback_for [''Business''] default_options)
      (Seq (Try (Exec 7 default_options (Raise (Runtime_error ''x''))) Done) (Raise (Std_exception ''Business'' ''y''))))
      None demo_tx_state))) = (0, Commit, None)"
  by (simp add: demo_db_defs no_rollback_for_def)

end
