(* ===== verification/Di_Container.thy ===== *)
theory Di_Container
  imports Nova_Prelude "HOL-Library.AList"
begin

text \<open>
  Dependency injection (\<^verbatim>\<open>di/container.h\<close>, \<^verbatim>\<open>di/container.cpp\<close>, \<^verbatim>\<open>di/lifecycle.cpp\<close>): registration of beans,
  cycle detection, construction order, building, lazy and request-scoped resolution, and destruction.

  A \<^verbatim>\<open>std::type_index\<close> is the name of its type. A factory is the list of types it resolves, in order, and
  what it then does; a callback is a label and its outcome. Objects are addresses, and \<open>bean_log\<close> records
  what happened to them. An unordered map is an association list in its iteration order, which the theorems
  leave arbitrary.
\<close>

section \<open>Registrations\<close>

type_synonym type_id = string
type_synonym hook = "string \<times> exn option"

datatype Scope = Singleton | Prototype | Connection | Request_scope

datatype product = New_object | Last_resolved | Throws exn

datatype factory = Factory "type_id list" product

record BeanRegistration =
  reg_name :: string
  reg_qualifier :: string
  reg_scope :: Scope
  is_primary :: bool
  is_lazy :: bool
  is_async :: bool
  async_timeout_ms :: nat
  reg_factory :: factory
  post_construct_fn :: "hook list"
  pre_destroy_fn :: "hook list"
  destructor_fn :: bool
  dep_type_ids :: "type_id list"
  middleware_order :: int

record LifecycleEntry =
  le_instance :: nat
  on_post_construct :: "hook list"
  on_pre_destroy :: "hook list"

record container =
  instances :: "type_id \<rightharpoonup> nat"
  qualified_instances :: "string \<rightharpoonup> nat"
  registrations :: "(type_id \<times> BeanRegistration) list"
  lifecycle :: "LifecycleEntry list"
  owned_instances :: "(nat \<times> bool) list"
  built :: bool
  topo_order :: "type_id list"

definition new_container :: container where
  "new_container = \<lparr>instances = Map.empty, qualified_instances = Map.empty, registrations = [], lifecycle = [],
     owned_instances = [], built = False, topo_order = []\<rparr>"

datatype bean_event = Constructed type_id nat | Hook string nat | Destroyed nat

record di_world =
  next_address :: nat
  bean_log :: "bean_event list"

definition log_event :: "bean_event \<Rightarrow> di_world \<Rightarrow> di_world" where
  "log_event e w = w\<lparr>bean_log := bean_log w @ [e]\<rparr>"

definition DIError :: "string \<Rightarrow> exn" where
  "DIError m = Std_exception ''novaboot::di::DIError'' m"

text \<open>What a C++ type tells the templates: its name and the lifecycle interfaces it implements.\<close>

record bean_type =
  bt_name :: type_id
  bt_initializable :: "hook option"
  bt_destroyable :: "hook option"

definition the_hooks :: "hook option \<Rightarrow> hook list" where
  "the_hooks h = (case h of None \<Rightarrow> [] | Some x \<Rightarrow> [x])"

definition register_bean ::
    "bean_type \<Rightarrow> factory \<Rightarrow> Scope \<Rightarrow> string \<Rightarrow> bool \<Rightarrow> bool \<Rightarrow> int \<Rightarrow> container \<Rightarrow> container" where
  "register_bean T f scope qualifier primary lazy order c =
     c\<lparr>registrations := AList.update (bt_name T)
        \<lparr>reg_name = bt_name T, reg_qualifier = qualifier, reg_scope = scope, is_primary = primary, is_lazy = lazy,
         is_async = False, async_timeout_ms = 30000, reg_factory = f, post_construct_fn = the_hooks (bt_initializable T),
         pre_destroy_fn = the_hooks (bt_destroyable T), destructor_fn = True, dep_type_ids = [], middleware_order = order\<rparr>
        (registrations c)\<rparr>"

definition register_async_bean :: "bean_type \<Rightarrow> factory \<Rightarrow> nat \<Rightarrow> string \<Rightarrow> container \<Rightarrow> container" where
  "register_async_bean T f timeout_ms qualifier c =
     c\<lparr>registrations := AList.update (bt_name T)
        \<lparr>reg_name = bt_name T, reg_qualifier = qualifier, reg_scope = Singleton, is_primary = False, is_lazy = False,
         is_async = True, async_timeout_ms = timeout_ms, reg_factory = f, post_construct_fn = [], pre_destroy_fn = [],
         destructor_fn = True, dep_type_ids = [], middleware_order = 0\<rparr>
        (registrations c)\<rparr>"

definition update_registration :: "type_id \<Rightarrow> (BeanRegistration \<Rightarrow> BeanRegistration) \<Rightarrow> container \<Rightarrow> container" where
  "update_registration tid f c =
     (case map_of (registrations c) tid of
        None \<Rightarrow> c
      | Some reg \<Rightarrow> c\<lparr>registrations := AList.update tid (f reg) (registrations c)\<rparr>)"

definition with_post_construct :: "type_id \<Rightarrow> hook \<Rightarrow> container \<Rightarrow> container result" where
  "with_post_construct tid h c =
     (case map_of (registrations c) tid of
        None \<Rightarrow> Inl (DIError (''novaboot::di: No registration for '' @ tid))
      | Some reg \<Rightarrow> Inr (update_registration tid (\<lambda>reg. reg\<lparr>post_construct_fn := post_construct_fn reg @ [h]\<rparr>) c))"

definition with_pre_destroy :: "type_id \<Rightarrow> hook \<Rightarrow> container \<Rightarrow> container result" where
  "with_pre_destroy tid h c =
     (case map_of (registrations c) tid of
        None \<Rightarrow> Inl (DIError (''novaboot::di: No registration for '' @ tid))
      | Some reg \<Rightarrow> Inr (update_registration tid (\<lambda>reg. reg\<lparr>pre_destroy_fn := h # pre_destroy_fn reg\<rparr>) c))"

definition add_dependency :: "type_id \<Rightarrow> type_id \<Rightarrow> container \<Rightarrow> container" where
  "add_dependency parent dep = update_registration parent (\<lambda>reg. reg\<lparr>dep_type_ids := dep_type_ids reg @ [dep]\<rparr>)"

definition bean_qualifier :: "type_id \<Rightarrow> string \<Rightarrow> container \<Rightarrow> container" where
  "bean_qualifier tid name = update_registration tid (\<lambda>reg. reg\<lparr>reg_qualifier := name\<rparr>)"

definition bean_primary :: "type_id \<Rightarrow> container \<Rightarrow> container" where
  "bean_primary tid = update_registration tid (\<lambda>reg. reg\<lparr>is_primary := True\<rparr>)"

definition bean_lazy :: "type_id \<Rightarrow> container \<Rightarrow> container" where
  "bean_lazy tid = update_registration tid (\<lambda>reg. reg\<lparr>is_lazy := True\<rparr>)"

definition autowire :: "bean_type \<Rightarrow> type_id list \<Rightarrow> Scope \<Rightarrow> container \<Rightarrow> container" where
  "autowire T args scope c =
     fold (add_dependency (bt_name T)) args (register_bean T (Factory args New_object) scope [] False False 0 c)"

definition bind_to :: "bean_type \<Rightarrow> type_id \<Rightarrow> container \<Rightarrow> container" where
  "bind_to interface impl c =
     (let (scope, q, prim, lazy) =
        (case map_of (registrations c) impl of
           None \<Rightarrow> (Singleton, [], False, False)
         | Some reg \<Rightarrow> (reg_scope reg, reg_qualifier reg, is_primary reg, is_lazy reg));
        c1 = register_bean interface (Factory [impl] Last_resolved) scope q prim lazy 0 c;
        c2 = add_dependency (bt_name interface) impl c1
      in update_registration (bt_name interface)
           (\<lambda>reg. reg\<lparr>destructor_fn := False, post_construct_fn := [], pre_destroy_fn := [], is_lazy := True\<rparr>) c2)"

section \<open>Lifecycle\<close>

fun call_hooks :: "hook list \<Rightarrow> nat \<Rightarrow> di_world \<Rightarrow> exn option \<times> di_world" where
  "call_hooks [] p w = (None, w)"
| "call_hooks ((l, r) # hs) p w =
     (case r of Some e \<Rightarrow> (Some e, log_event (Hook l p) w) | None \<Rightarrow> call_hooks hs p (log_event (Hook l p) w))"

definition lifecycle_register :: "nat \<Rightarrow> hook list \<Rightarrow> hook list \<Rightarrow> container \<Rightarrow> container" where
  "lifecycle_register p pc pd c =
     c\<lparr>lifecycle := lifecycle c @ [\<lparr>le_instance = p, on_post_construct = pc, on_pre_destroy = pd\<rparr>]\<rparr>"

definition lifecycle_register_typed :: "bean_type \<Rightarrow> nat \<Rightarrow> hook list \<Rightarrow> hook list \<Rightarrow> container \<Rightarrow> container" where
  "lifecycle_register_typed T p pc pd =
     lifecycle_register p (pc @ the_hooks (bt_initializable T)) (the_hooks (bt_destroyable T) @ pd)"

fun invoke_post_constructs :: "LifecycleEntry list \<Rightarrow> di_world \<Rightarrow> exn option \<times> di_world" where
  "invoke_post_constructs [] w = (None, w)"
| "invoke_post_constructs (e # es) w =
     (case call_hooks (on_post_construct e) (le_instance e) w of
        (Some x, w1) \<Rightarrow> (Some x, w1)
      | (None, w1) \<Rightarrow> invoke_post_constructs es w1)"

definition invoke_pre_destroys :: "LifecycleEntry list \<Rightarrow> di_world \<Rightarrow> di_world" where
  "invoke_pre_destroys es w = fold (\<lambda>e w. snd (call_hooks (on_pre_destroy e) (le_instance e) w)) (rev es) w"

definition destroy_owned :: "(nat \<times> bool) list \<Rightarrow> di_world \<Rightarrow> di_world" where
  "destroy_owned owned w = fold (\<lambda>(p, dtor) w. if dtor \<and> p \<noteq> 0 then log_event (Destroyed p) w else w) (rev owned) w"

section \<open>Resolution\<close>

text \<open>
  A chain is a container with its parents, the root last. \<open>ready\<close> says whether the future of an
  asynchronous bean completes within its timeout. When it does not, the future's destructor still waits for
  the factory, so its effects happen, but the object is dropped. The fuel bounds the nesting of factories.
\<close>

definition bean_not_found :: "type_id \<Rightarrow> exn" where
  "bean_not_found tid = DIError (''novaboot::di: Bean not found: '' @ tid @ ''. Did you forget to register it?'')"

definition qualified_key :: "type_id \<Rightarrow> string \<Rightarrow> string" where
  "qualified_key tid q = tid @ '':'' @ q"

definition store_instance :: "type_id \<Rightarrow> BeanRegistration \<Rightarrow> nat \<Rightarrow> container \<Rightarrow> container" where
  "store_instance tid reg p c =
     c\<lparr>instances := (instances c)(tid \<mapsto> p),
       qualified_instances :=
         (if reg_qualifier reg = [] then qualified_instances c
          else (qualified_instances c)(qualified_key (reg_name reg) (reg_qualifier reg) \<mapsto> p))\<rparr>"

definition produce :: "type_id \<Rightarrow> product \<Rightarrow> nat \<Rightarrow> di_world \<Rightarrow> nat result \<times> di_world" where
  "produce tid made resolved w =
     (case made of
        New_object \<Rightarrow> (Inr (next_address w), log_event (Constructed tid (next_address w)) (w\<lparr>next_address := Suc (next_address w)\<rparr>))
      | Last_resolved \<Rightarrow> (Inr resolved, w)
      | Throws e \<Rightarrow> (Inl e, w))"

definition await :: "(type_id \<Rightarrow> nat \<Rightarrow> bool) \<Rightarrow> BeanRegistration \<Rightarrow> nat result \<times> di_world \<Rightarrow> nat result \<times> di_world" where
  "await ready reg rw =
     (if is_async reg \<and> async_timeout_ms reg \<noteq> 0 \<and> \<not> ready (reg_name reg) (async_timeout_ms reg)
      then (Inl (DIError (''novaboot::di: Async bean '' @ [CHR 0x27] @ reg_name reg @ [CHR 0x27] @ '' timed out after '' @
              to_string_nat (async_timeout_ms reg) @ ''ms'')), snd rw)
      else rw)"

definition keep_lazy :: "type_id \<Rightarrow> BeanRegistration \<Rightarrow> nat result \<times> di_world \<Rightarrow> container \<Rightarrow> nat result \<times> container \<times> di_world" where
  "keep_lazy tid reg rw c =
     (case rw of
        (Inl e, w) \<Rightarrow> (Inl e, c, w)
      | (Inr p, w) \<Rightarrow>
          let c1 = store_instance tid reg p c
          in case call_hooks (post_construct_fn reg) p w of
               (Some e, w1) \<Rightarrow> (Inl e, c1, w1)
             | (None, w1) \<Rightarrow> (Inr p, c1\<lparr>owned_instances := owned_instances c1 @ [(p, destructor_fn reg)]\<rparr>, w1))"

type_synonym di_run = "(nat result \<times> container list \<times> di_world) option"

fun factory_types :: "factory \<Rightarrow> type_id list" where
  "factory_types (Factory ts p) = ts"

fun factory_product :: "factory \<Rightarrow> product" where
  "factory_product (Factory ts p) = p"

function resolve :: "nat \<Rightarrow> (type_id \<Rightarrow> nat \<Rightarrow> bool) \<Rightarrow> type_id \<Rightarrow> container list \<Rightarrow> di_world \<Rightarrow> di_run"
  and resolve_each :: "nat \<Rightarrow> (type_id \<Rightarrow> nat \<Rightarrow> bool) \<Rightarrow> type_id list \<Rightarrow> nat \<Rightarrow> container list \<Rightarrow> di_world \<Rightarrow> di_run" where
  "resolve 0 ready tid chain w = None"
| "resolve (Suc n) ready tid [] w = Some (Inl (bean_not_found tid), [], w)"
| "resolve (Suc n) ready tid (c # parents) w =
     (case instances c tid of
        Some p \<Rightarrow> Some (Inr p, c # parents, w)
      | None \<Rightarrow>
          (case map_of (registrations c) tid of
             Some reg \<Rightarrow>
               (if is_lazy reg \<and> reg_scope reg \<noteq> Prototype \<and> parents = []
                then
                  (case resolve_each n ready (factory_types (reg_factory reg)) 0 [c] w of
                     None \<Rightarrow> None
                   | Some (Inl e, chain, w1) \<Rightarrow>
                       (case keep_lazy tid reg (await ready reg (Inl e, w1)) (hd chain) of
                          (r, c2, w2) \<Rightarrow> Some (r, [c2], w2))
                   | Some (Inr q, chain, w1) \<Rightarrow>
                       (case keep_lazy tid reg (await ready reg (produce tid (factory_product (reg_factory reg)) q w1)) (hd chain) of
                          (r, c2, w2) \<Rightarrow> Some (r, [c2], w2)))
                else
                  (case resolve (Suc n) ready tid parents w of
                     None \<Rightarrow> None
                   | Some (r, ps, w1) \<Rightarrow> Some (r, c # ps, w1)))
           | None \<Rightarrow>
               (case resolve (Suc n) ready tid parents w of
                  None \<Rightarrow> None
                | Some (r, ps, w1) \<Rightarrow> Some (r, c # ps, w1))))"
| "resolve_each n ready [] q chain w = Some (Inr q, chain, w)"
| "resolve_each n ready (t # ts) q chain w =
     (case resolve n ready t chain w of
        None \<Rightarrow> None
      | Some (Inl e, chain1, w1) \<Rightarrow> Some (Inl e, chain1, w1)
      | Some (Inr p, chain1, w1) \<Rightarrow> resolve_each n ready ts p chain1 w1)"
  by pat_completeness auto
termination
  by (relation "measures [\<lambda>x. case x of Inl (n, _) \<Rightarrow> n | Inr (n, _) \<Rightarrow> n,
        \<lambda>x. case x of Inl _ \<Rightarrow> 0 | Inr _ \<Rightarrow> Suc 0,
        \<lambda>x. case x of Inl (_, _, _, chain, _) \<Rightarrow> length chain | Inr (_, _, ts, _) \<Rightarrow> length ts]") auto

fun find_registration :: "type_id \<Rightarrow> container list \<Rightarrow> BeanRegistration option" where
  "find_registration tid [] = None"
| "find_registration tid (c # parents) =
     (case map_of (registrations c) tid of Some reg \<Rightarrow> Some reg | None \<Rightarrow> find_registration tid parents)"

fun resolve_named :: "type_id \<Rightarrow> string \<Rightarrow> container list \<Rightarrow> nat result" where
  "resolve_named tid q [] =
     Inl (DIError (''novaboot::di: Bean not found: '' @ tid @ '' with qualifier '' @ [CHR 0x27] @ q @ [CHR 0x27]))"
| "resolve_named tid q (c # parents) =
     (case qualified_instances c (qualified_key tid q) of Some p \<Rightarrow> Inr p | None \<Rightarrow> resolve_named tid q parents)"

fun resolve_dynamic :: "type_id \<Rightarrow> container list \<Rightarrow> nat option" where
  "resolve_dynamic tid [] = None"
| "resolve_dynamic tid (c # parents) = (case instances c tid of Some p \<Rightarrow> Some p | None \<Rightarrow> resolve_dynamic tid parents)"

fun has_bean :: "type_id \<Rightarrow> container list \<Rightarrow> bool" where
  "has_bean tid [] = False"
| "has_bean tid (c # parents) =
     (if instances c tid \<noteq> None then True
      else if map_of (registrations c) tid \<noteq> None then True
      else has_bean tid parents)"

definition run_factory ::
    "nat \<Rightarrow> (type_id \<Rightarrow> nat \<Rightarrow> bool) \<Rightarrow> type_id \<Rightarrow> factory \<Rightarrow> container list \<Rightarrow> di_world \<Rightarrow> di_run" where
  "run_factory fuel ready tid f chain w =
     (case resolve_each fuel ready (factory_types f) 0 chain w of
        None \<Rightarrow> None
      | Some (Inl e, chain1, w1) \<Rightarrow> Some (Inl e, chain1, w1)
      | Some (Inr q, chain1, w1) \<Rightarrow> (case produce tid (factory_product f) q w1 of (r, w2) \<Rightarrow> Some (r, chain1, w2)))"

definition resolve_new :: "nat \<Rightarrow> (type_id \<Rightarrow> nat \<Rightarrow> bool) \<Rightarrow> type_id \<Rightarrow> container list \<Rightarrow> di_world \<Rightarrow> di_run" where
  "resolve_new fuel ready tid chain w =
     (case find_registration tid chain of
        None \<Rightarrow> Some (Inl (DIError (''novaboot::di: resolve_new<T> requires Prototype scope for: '' @ tid)), chain, w)
      | Some reg \<Rightarrow>
          (if reg_scope reg \<noteq> Prototype
           then Some (Inl (DIError (''novaboot::di: resolve_new<T> requires Prototype scope for: '' @ tid)), chain, w)
           else
             case run_factory fuel ready tid (reg_factory reg) chain w of
               None \<Rightarrow> None
             | Some (Inl e, chain1, w1) \<Rightarrow> Some (Inl e, chain1, w1)
             | Some (Inr p, chain1, w1) \<Rightarrow>
                 (case call_hooks (post_construct_fn reg) p w1 of
                    (Some e, w2) \<Rightarrow> Some (Inl e, chain1, w2)
                  | (None, w2) \<Rightarrow> Some (Inr p, chain1, w2))))"

section \<open>Cycle detection\<close>

datatype color = White | Gray | Black

type_synonym dfs_state = "(type_id \<rightharpoonup> color) \<times> type_id list"

definition cycle_names :: "(type_id \<times> BeanRegistration) list \<Rightarrow> type_id list \<Rightarrow> type_id \<Rightarrow> string" where
  "cycle_names regs path dep =
     concat (map (\<lambda>t. case map_of regs t of None \<Rightarrow> [] | Some reg \<Rightarrow> reg_name reg @ '' -> '') (dropWhile (\<lambda>t. t \<noteq> dep) path)) @
     (case map_of regs dep of Some reg \<Rightarrow> reg_name reg | None \<Rightarrow> dep)"

definition cycle_error :: "(type_id \<times> BeanRegistration) list \<Rightarrow> type_id list \<Rightarrow> type_id \<Rightarrow> exn" where
  "cycle_error regs path dep = DIError (''novaboot::di: Circular dependency detected: '' @ cycle_names regs path dep)"

fun dfs :: "nat \<Rightarrow> (type_id \<times> BeanRegistration) list \<Rightarrow> type_id \<Rightarrow> dfs_state \<Rightarrow> dfs_state result option"
  and dfs_deps :: "nat \<Rightarrow> (type_id \<times> BeanRegistration) list \<Rightarrow> type_id list \<Rightarrow> dfs_state \<Rightarrow> dfs_state result option" where
  "dfs 0 regs tid s = None"
| "dfs (Suc n) regs tid (color, path) =
     (case map_of regs tid of
        None \<Rightarrow> Some (Inr (color(tid \<mapsto> Gray), path))
      | Some reg \<Rightarrow>
          (case dfs_deps n regs (dep_type_ids reg) (color(tid \<mapsto> Gray), path @ [tid]) of
             None \<Rightarrow> None
           | Some (Inl e) \<Rightarrow> Some (Inl e)
           | Some (Inr (color1, path1)) \<Rightarrow> Some (Inr (color1(tid \<mapsto> Black), butlast path1))))"
| "dfs_deps n regs [] s = Some (Inr s)"
| "dfs_deps n regs (d # ds) (color, path) =
     (case color d of
        None \<Rightarrow> dfs_deps n regs ds (color, path)
      | Some Gray \<Rightarrow> Some (Inl (cycle_error regs path d))
      | Some Black \<Rightarrow> dfs_deps n regs ds (color, path)
      | Some White \<Rightarrow>
          (case dfs n regs d (color, path) of
             None \<Rightarrow> None
           | Some (Inl e) \<Rightarrow> Some (Inl e)
           | Some (Inr s1) \<Rightarrow> dfs_deps n regs ds s1))"

fun dfs_all :: "nat \<Rightarrow> (type_id \<times> BeanRegistration) list \<Rightarrow> type_id list \<Rightarrow> dfs_state \<Rightarrow> dfs_state result option" where
  "dfs_all n regs [] s = Some (Inr s)"
| "dfs_all n regs (t # ts) (color, path) =
     (if color t = Some White
      then case dfs n regs t (color, path) of
             None \<Rightarrow> None
           | Some (Inl e) \<Rightarrow> Some (Inl e)
           | Some (Inr s1) \<Rightarrow> dfs_all n regs ts s1
      else dfs_all n regs ts (color, path))"

text \<open>Each nested call of the search has made another registered type gray, so this fuel is enough.\<close>

definition detect_cycles :: "(type_id \<times> BeanRegistration) list \<Rightarrow> exn option option" where
  "detect_cycles regs =
     (case dfs_all (Suc (length regs)) regs (map fst regs) (map_of (map (\<lambda>(t, _). (t, White)) regs), []) of
        None \<Rightarrow> None
      | Some (Inl e) \<Rightarrow> Some (Some e)
      | Some (Inr _) \<Rightarrow> Some None)"

section \<open>Construction order\<close>

text \<open>In-degrees are 64-bit: a decrement of zero would wrap. \<open>ord\<close> is the iteration order of the map of in-degrees.\<close>

definition registered_deps :: "(type_id \<times> BeanRegistration) list \<Rightarrow> BeanRegistration \<Rightarrow> type_id list" where
  "registered_deps regs reg = filter (\<lambda>d. map_of regs d \<noteq> None) (dep_type_ids reg)"

definition add_edge ::
    "type_id \<Rightarrow> type_id \<Rightarrow> (type_id \<Rightarrow> nat) \<times> (type_id \<Rightarrow> type_id list) \<Rightarrow> (type_id \<Rightarrow> nat) \<times> (type_id \<Rightarrow> type_id list)" where
  "add_edge tid d s = ((fst s)(tid := fst s tid + 1), (snd s)(d := snd s d @ [tid]))"

definition count_edges ::
    "(type_id \<times> BeanRegistration) list \<Rightarrow> (type_id \<Rightarrow> nat) \<times> (type_id \<Rightarrow> type_id list)" where
  "count_edges regs = fold (\<lambda>(tid, reg). fold (add_edge tid) (registered_deps regs reg)) regs (\<lambda>_. 0, \<lambda>_. [])"

fun kahn_relax :: "type_id list \<Rightarrow> (type_id \<Rightarrow> nat) \<Rightarrow> type_id list \<Rightarrow> (type_id \<Rightarrow> nat) \<times> type_id list" where
  "kahn_relax [] deg queue = (deg, queue)"
| "kahn_relax (d # ds) deg queue =
     (let k = (if deg d = 0 then 2 ^ 64 - 1 else deg d - 1)
      in kahn_relax ds (deg(d := k)) (if k = 0 then queue @ [d] else queue))"

partial_function (option) kahn_loop ::
    "(type_id \<Rightarrow> type_id list) \<Rightarrow> (type_id \<Rightarrow> nat) \<Rightarrow> type_id list \<Rightarrow> type_id list \<Rightarrow> type_id list option" where
  "kahn_loop out deg queue order =
     (case queue of
        [] \<Rightarrow> Some order
      | tid # queue1 \<Rightarrow>
          (case kahn_relax (out tid) deg queue1 of (deg1, queue2) \<Rightarrow> kahn_loop out deg1 queue2 (order @ [tid])))"

definition build_topo_order ::
    "(type_id list \<Rightarrow> type_id list) \<Rightarrow> (type_id \<times> BeanRegistration) list \<Rightarrow> type_id list option" where
  "build_topo_order ord regs =
     (case count_edges regs of
        (deg, out) \<Rightarrow>
          (case kahn_loop out deg (filter (\<lambda>t. deg t = 0) (ord (map fst regs))) [] of
             None \<Rightarrow> None
           | Some order \<Rightarrow>
               Some (if length order < length regs
                     then order @ filter (\<lambda>t. t \<notin> set order) (map fst regs)
                     else order)))"

section \<open>Building and shutting down\<close>

definition keep_eager :: "type_id \<Rightarrow> BeanRegistration \<Rightarrow> nat \<Rightarrow> container \<Rightarrow> container" where
  "keep_eager tid reg p c =
     (let c1 = lifecycle_register p (post_construct_fn reg) (pre_destroy_fn reg) (store_instance tid reg p c)
      in c1\<lparr>owned_instances := owned_instances c1 @ [(p, destructor_fn reg)]\<rparr>)"

definition instantiate ::
    "nat \<Rightarrow> (type_id \<Rightarrow> nat \<Rightarrow> bool) \<Rightarrow> type_id \<Rightarrow> BeanRegistration \<Rightarrow> container \<Rightarrow> di_world \<Rightarrow> (nat result \<times> container \<times> di_world) option" where
  "instantiate fuel ready tid reg c w =
     (case run_factory fuel ready tid (reg_factory reg) [c] w of
        None \<Rightarrow> None
      | Some (r, chain, w1) \<Rightarrow> (case await ready reg (r, w1) of (r', w2) \<Rightarrow> Some (r', hd chain, w2)))"

fun build_beans ::
    "nat \<Rightarrow> (type_id \<Rightarrow> nat \<Rightarrow> bool) \<Rightarrow> type_id list \<Rightarrow> container \<Rightarrow> di_world \<Rightarrow> (exn option \<times> container \<times> di_world) option" where
  "build_beans fuel ready [] c w = Some (None, c, w)"
| "build_beans fuel ready (tid # tids) c w =
     (case map_of (registrations c) tid of
        None \<Rightarrow> build_beans fuel ready tids c w
      | Some reg \<Rightarrow>
          (if reg_scope reg = Prototype \<or> is_lazy reg then build_beans fuel ready tids c w
           else
             case instantiate fuel ready tid reg c w of
               None \<Rightarrow> None
             | Some (Inl e, c1, w1) \<Rightarrow> Some (Some e, c1, w1)
             | Some (Inr p, c1, w1) \<Rightarrow> build_beans fuel ready tids (keep_eager tid reg p c1) w1))"

definition build ::
    "nat \<Rightarrow> (type_id \<Rightarrow> nat \<Rightarrow> bool) \<Rightarrow> (type_id list \<Rightarrow> type_id list) \<Rightarrow> container \<Rightarrow> di_world \<Rightarrow>
     (exn option \<times> container \<times> di_world) option" where
  "build fuel ready ord c w =
     (if built c then Some (Some (DIError ''novaboot::di: RootContainer::build() called twice''), c, w)
      else
        case detect_cycles (registrations c) of
          None \<Rightarrow> None
        | Some (Some e) \<Rightarrow> Some (Some e, c, w)
        | Some None \<Rightarrow>
            (case build_topo_order ord (registrations c) of
               None \<Rightarrow> None
             | Some order \<Rightarrow>
                 (case build_beans fuel ready order (c\<lparr>topo_order := order\<rparr>) w of
                    None \<Rightarrow> None
                  | Some (Some e, c1, w1) \<Rightarrow> Some (Some e, c1, w1)
                  | Some (None, c1, w1) \<Rightarrow>
                      (case invoke_post_constructs (lifecycle c1) w1 of
                         (Some e, w2) \<Rightarrow> Some (Some e, c1, w2)
                       | (None, w2) \<Rightarrow> Some (None, c1\<lparr>built := True\<rparr>, w2)))))"

definition di_shutdown :: "container \<Rightarrow> di_world \<Rightarrow> container \<times> di_world" where
  "di_shutdown c w =
     (if \<not> built c then (c, w)
      else
        (c\<lparr>owned_instances := [], instances := Map.empty, qualified_instances := Map.empty, built := False\<rparr>,
         destroy_owned (owned_instances c) (invoke_pre_destroys (lifecycle c) w)))"

definition root_destroy :: "container \<Rightarrow> di_world \<Rightarrow> di_world" where
  "root_destroy c w = (if built c then snd (di_shutdown c w) else w)"

section \<open>Scoped containers\<close>

definition make_shard_container :: "container \<Rightarrow> container result" where
  "make_shard_container root =
     (if \<not> built root then Inl (DIError ''novaboot::di: Cannot create ShardContainer before build()'') else Inr new_container)"

fun shard_beans ::
    "nat \<Rightarrow> (type_id \<Rightarrow> nat \<Rightarrow> bool) \<Rightarrow> (type_id \<times> BeanRegistration) list \<Rightarrow> container list \<Rightarrow> di_world \<Rightarrow>
     (exn option \<times> container list \<times> di_world) option" where
  "shard_beans fuel ready [] chain w = Some (None, chain, w)"
| "shard_beans fuel ready ((tid, reg) # regs) chain w =
     (if is_lazy reg then shard_beans fuel ready regs chain w
      else
        case run_factory fuel ready tid (reg_factory reg) chain w of
          None \<Rightarrow> None
        | Some (Inl e, chain1, w1) \<Rightarrow> Some (Some e, chain1, w1)
        | Some (Inr p, chain1, w1) \<Rightarrow> shard_beans fuel ready regs (keep_eager tid reg p (hd chain1) # tl chain1) w1)"

definition shard_initialize ::
    "nat \<Rightarrow> (type_id \<Rightarrow> nat \<Rightarrow> bool) \<Rightarrow> container list \<Rightarrow> di_world \<Rightarrow> (exn option \<times> container list \<times> di_world) option" where
  "shard_initialize fuel ready chain w =
     (case shard_beans fuel ready (registrations (hd chain)) chain w of
        None \<Rightarrow> None
      | Some (Some e, chain1, w1) \<Rightarrow> Some (Some e, chain1, w1)
      | Some (None, chain1, w1) \<Rightarrow>
          (case invoke_post_constructs (lifecycle (hd chain1)) w1 of (e, w2) \<Rightarrow> Some (e, chain1, w2)))"

definition destroy_container :: "container \<Rightarrow> di_world \<Rightarrow> di_world" where
  "destroy_container c w = destroy_owned (owned_instances c) (invoke_pre_destroys (lifecycle c) w)"

text \<open>The resolve of a request container (\<open>scope\<close> is the request scope) and of a connection container.\<close>

definition scoped_resolve ::
    "nat \<Rightarrow> (type_id \<Rightarrow> nat \<Rightarrow> bool) \<Rightarrow> Scope \<Rightarrow> bean_type \<Rightarrow> container list \<Rightarrow> di_world \<Rightarrow> di_run" where
  "scoped_resolve fuel ready scope T chain w =
     (case instances (hd chain) (bt_name T) of
        Some p \<Rightarrow> Some (Inr p, chain, w)
      | None \<Rightarrow>
          (case find_registration (bt_name T) chain of
             None \<Rightarrow> resolve fuel ready (bt_name T) chain w
           | Some reg \<Rightarrow>
               (if reg_scope reg \<noteq> scope then resolve fuel ready (bt_name T) chain w
                else
                  case run_factory fuel ready (bt_name T) (reg_factory reg) chain w of
                    None \<Rightarrow> None
                  | Some (Inl e, chain1, w1) \<Rightarrow> Some (Inl e, chain1, w1)
                  | Some (Inr p, chain1, w1) \<Rightarrow>
                      (case call_hooks (post_construct_fn reg) p w1 of
                         (Some e, w2) \<Rightarrow> Some (Inl e, chain1, w2)
                       | (None, w2) \<Rightarrow>
                           let c1 = lifecycle_register_typed T p [] (pre_destroy_fn reg) (hd chain1);
                               c2 = c1\<lparr>instances := (instances c1)(bt_name T \<mapsto> p),
                                       owned_instances := owned_instances c1 @ [(p, destructor_fn reg)]\<rparr>
                           in Some (Inr p, c2 # tl chain1, w2)))))"

section \<open>The dependency graph\<close>

definition depends :: "(type_id \<times> BeanRegistration) list \<Rightarrow> type_id \<Rightarrow> type_id \<Rightarrow> bool" where
  "depends regs t d \<longleftrightarrow> (\<exists>reg. map_of regs t = Some reg \<and> d \<in> set (dep_type_ids reg)) \<and> map_of regs d \<noteq> None"

definition cyclic :: "(type_id \<times> BeanRegistration) list \<Rightarrow> bool" where
  "cyclic regs \<longleftrightarrow> (\<exists>t. (depends regs)\<^sup>+\<^sup>+ t t)"

definition well_named :: "(type_id \<times> BeanRegistration) list \<Rightarrow> bool" where
  "well_named regs \<longleftrightarrow> distinct (map fst regs) \<and> (\<forall>(t, reg)\<in>set regs. reg_name reg = t)"

text \<open>The message of the error names the types of a cycle in order.\<close>

definition reports_cycle :: "(type_id \<times> BeanRegistration) list \<Rightarrow> exn \<Rightarrow> bool" where
  "reports_cycle regs e \<longleftrightarrow>
     (\<exists>cyc. cyc \<noteq> [] \<and> successively (depends regs) cyc \<and> depends regs (last cyc) (hd cyc) \<and>
        e = DIError (''novaboot::di: Circular dependency detected: '' @ concat (map (\<lambda>t. t @ '' -> '') cyc) @ hd cyc))"

lemma depends_registered: "depends regs t d \<Longrightarrow> map_of regs t \<noteq> None \<and> map_of regs d \<noteq> None"
  by (auto simp: depends_def)

lemma successively_tranclp: "successively P xs \<Longrightarrow> xs \<noteq> [] \<Longrightarrow> P\<^sup>*\<^sup>* (hd xs) (last xs)"
proof (induction xs rule: induct_list012)
  case (3 x y zs)
  then show ?case by (auto intro: converse_rtranclp_into_rtranclp)
qed simp_all

lemma reports_cycle_cyclic: "reports_cycle regs e \<Longrightarrow> cyclic regs"
  unfolding reports_cycle_def cyclic_def by (metis successively_tranclp rtranclp_into_tranclp1)

lemma cycle_error_reports:
  assumes named: "well_named regs" and path: "successively (depends regs) path" "d \<in> set path" "depends regs (last path) d"
  shows "reports_cycle regs (cycle_error regs path d)"
proof -
  let ?cyc = "dropWhile (\<lambda>t. t \<noteq> d) path"
  obtain us where us: "path = us @ ?cyc" by (metis takeWhile_dropWhile_id)
  have ne: "?cyc \<noteq> []" using path(2) by (auto simp: dropWhile_eq_Nil_conv)
  then have hd: "hd ?cyc = d" by (rule hd_dropWhile [THEN notnotD])
  have cyc: "last ?cyc = last path" using ne by (metis us last_appendR)
  have succ: "successively (depends regs) ?cyc" using path(1) us by (metis successively_append_iff)
  have reg: "map_of regs t \<noteq> None" if "t \<in> set ?cyc" for t
  proof (cases "t = hd ?cyc")
    case True
    then show ?thesis using depends_registered [OF path(3)] hd by simp
  next
    case False
    with that have "t \<in> set (tl ?cyc)" using ne by (metis list.collapse set_ConsD)
    then obtain i where "i < length (tl ?cyc)" "tl ?cyc ! i = t" by (auto simp: in_set_conv_nth)
    then have i: "Suc i < length ?cyc" "?cyc ! Suc i = t" by (auto simp: nth_tl)
    then have "depends regs (?cyc ! i) t" using succ i successively_nth [of "depends regs" ?cyc i] by simp
    then show ?thesis by (rule depends_registered [THEN conjunct2])
  qed
  have name: "map_of regs t = Some reg \<Longrightarrow> reg_name reg = t" for t reg using named by (auto simp: well_named_def dest: map_of_SomeD)
  have "concat (map (\<lambda>t. case map_of regs t of None \<Rightarrow> [] | Some reg \<Rightarrow> reg_name reg @ '' -> '') ?cyc) = concat (map (\<lambda>t. t @ '' -> '') ?cyc)"
    by (rule arg_cong [where f = concat], rule map_cong [OF refl]) (use reg name in \<open>auto split: option.splits\<close>)
  moreover have "(case map_of regs d of Some reg \<Rightarrow> reg_name reg | None \<Rightarrow> d) = d" using name by (auto split: option.split)
  ultimately have "cycle_error regs path d =
      DIError (''novaboot::di: Circular dependency detected: '' @ concat (map (\<lambda>t. t @ '' -> '') ?cyc) @ hd ?cyc)"
    by (simp add: cycle_error_def cycle_names_def hd)
  with ne cyc succ path(3) hd show ?thesis unfolding reports_cycle_def by metis
qed

section \<open>Depth-first search\<close>

definition whites :: "(type_id \<rightharpoonup> color) \<Rightarrow> type_id set" where
  "whites color = {t. color t = Some White}"

definition dfs_inv :: "(type_id \<times> BeanRegistration) list \<Rightarrow> (type_id \<rightharpoonup> color) \<Rightarrow> type_id list \<Rightarrow> bool" where
  "dfs_inv regs color path \<longleftrightarrow>
     dom color = fst ` set regs \<and> distinct path \<and> set path = {t. color t = Some Gray} \<and> successively (depends regs) path \<and>
     (\<forall>t d. color t = Some Black \<longrightarrow> depends regs t d \<longrightarrow> color d = Some Black) \<and>
     (\<forall>t. color t = Some Black \<longrightarrow> \<not> (depends regs)\<^sup>+\<^sup>+ t t)"

definition searched ::
    "(type_id \<times> BeanRegistration) list \<Rightarrow> type_id set \<Rightarrow> dfs_state \<Rightarrow> dfs_state result option \<Rightarrow> bool" where
  "searched regs done_set s r \<longleftrightarrow>
     (case r of
        None \<Rightarrow> False
      | Some (Inl e) \<Rightarrow> reports_cycle regs e
      | Some (Inr (color', path')) \<Rightarrow>
          path' = snd s \<and> dfs_inv regs color' path' \<and> whites color' \<subseteq> whites (fst s) \<and>
          (\<forall>t. fst s t = Some Black \<longrightarrow> color' t = Some Black) \<and> (\<forall>t\<in>done_set. color' t = Some Black))"

lemma finite_whites: "dfs_inv regs color path \<Longrightarrow> finite (whites color)"
  by (rule finite_subset [of _ "dom color"]) (auto simp: whites_def dfs_inv_def)

lemma dfs_inv_gray:
  assumes "dfs_inv regs color path" "color tid = Some White" "path \<noteq> [] \<longrightarrow> depends regs (last path) tid"
  shows "dfs_inv regs (color(tid \<mapsto> Gray)) (path @ [tid])"
  using assms by (auto simp: dfs_inv_def successively_append_iff)

lemma black_closed:
  assumes inv: "dfs_inv regs color path" and "(depends regs)\<^sup>*\<^sup>* t d" "color t = Some Black"
  shows "color d = Some Black"
  using assms(2,3) by (induction rule: rtranclp_induct) (use inv in \<open>auto simp: dfs_inv_def\<close>)

lemma dfs_inv_black:
  assumes inv: "dfs_inv regs color (path @ [tid])" and deps: "\<forall>d. depends regs tid d \<longrightarrow> color d = Some Black"
  shows "dfs_inv regs (color(tid \<mapsto> Black)) path"
proof -
  have gray: "color tid = Some Gray" using inv by (auto simp: dfs_inv_def)
  have "\<not> (depends regs)\<^sup>+\<^sup>+ tid tid"
  proof
    assume "(depends regs)\<^sup>+\<^sup>+ tid tid"
    then obtain d where "depends regs tid d" "(depends regs)\<^sup>*\<^sup>* d tid" by (blast dest: tranclpD)
    with black_closed [OF inv] deps gray show False by force
  qed
  moreover have "set path = {t. (color(tid \<mapsto> Black)) t = Some Gray}" using inv by (auto simp: dfs_inv_def)
  moreover have "tid \<in> fst ` set regs" using inv gray by (metis dfs_inv_def domI)
  ultimately show ?thesis using inv deps by (auto simp: dfs_inv_def successively_append_iff)
qed

lemma dfs_searched:
  shows "well_named regs \<Longrightarrow> dfs_inv regs (fst s) (snd s) \<Longrightarrow> fst s tid = Some White \<Longrightarrow> (snd s \<noteq> [] \<longrightarrow> depends regs (last (snd s)) tid) \<Longrightarrow>
      card (whites (fst s)) \<le> n \<Longrightarrow> searched regs {tid} s (dfs n regs tid s)"
    and "well_named regs \<Longrightarrow> dfs_inv regs (fst s) (snd s) \<Longrightarrow> snd s \<noteq> [] \<Longrightarrow> (\<forall>d\<in>set ds. map_of regs d \<noteq> None \<longrightarrow> depends regs (last (snd s)) d) \<Longrightarrow>
      card (whites (fst s)) \<le> n \<Longrightarrow> searched regs {d \<in> set ds. map_of regs d \<noteq> None} s (dfs_deps n regs ds s)"
proof (induction n regs tid s and n regs ds s rule: dfs_dfs_deps.induct)
  case (1 regs tid s)
  then show ?case using finite_whites [of regs "fst s" "snd s"] by (auto simp: whites_def)
next
  case (2 n regs tid color path)
  have inv: "dfs_inv regs color path" and white: "color tid = Some White" using 2 by simp_all
  then obtain reg where reg: "map_of regs tid = Some reg"
    by (metis dfs_inv_def domI dom_map_of_conv_image_fst domD)
  let ?s = "(color(tid \<mapsto> Gray), path @ [tid])"
  have inv': "dfs_inv regs (fst ?s) (snd ?s)" using dfs_inv_gray [OF inv white] 2 by simp
  have "whites (fst ?s) = whites color - {tid}" by (auto simp: whites_def)
  then have card: "card (whites (fst ?s)) \<le> n" using 2(6) white finite_whites [OF inv] by (simp add: whites_def card_Diff_singleton)
  have deps: "depends regs tid d \<longleftrightarrow> d \<in> set (dep_type_ids reg) \<and> map_of regs d \<noteq> None" for d by (auto simp: depends_def reg)
  have IH: "searched regs {d \<in> set (dep_type_ids reg). map_of regs d \<noteq> None} ?s (dfs_deps n regs (dep_type_ids reg) ?s)"
    using 2(1) [OF reg 2(2) inv' _ _ card] deps by simp
  show ?case
  proof (cases "dfs_deps n regs (dep_type_ids reg) ?s")
    case None
    with IH show ?thesis by (simp add: searched_def)
  next
    case (Some r)
    show ?thesis
    proof (cases r)
      case (Inl e)
      with IH Some show ?thesis by (simp add: searched_def reg)
    next
      case (Inr s1)
      obtain color1 path1 where s1: "s1 = (color1, path1)" by (cases s1)
      from IH Some Inr s1 have r: "path1 = path @ [tid]" "dfs_inv regs color1 (path @ [tid])" "whites color1 \<subseteq> whites (fst ?s)"
          "\<forall>t. fst ?s t = Some Black \<longrightarrow> color1 t = Some Black" "\<forall>d. depends regs tid d \<longrightarrow> color1 d = Some Black"
        by (auto simp: searched_def deps)
      have "dfs_inv regs (color1(tid \<mapsto> Black)) path" by (rule dfs_inv_black [OF r(2,5)])
      moreover have "whites (color1(tid \<mapsto> Black)) \<subseteq> whites color" using r(3) by (auto simp: whites_def split: if_splits)
      ultimately show ?thesis using r(1,4) by (simp add: searched_def reg Some Inr s1)
    qed
  qed
next
  case (3 n regs s)
  then show ?case by (cases s) (simp add: searched_def)
next
  case (4 n regs d ds color path)
  have inv: "dfs_inv regs color path" using 4 by simp
  have dom: "map_of regs d \<noteq> None \<longleftrightarrow> color d \<noteq> None"
    using inv by (metis dfs_inv_def domIff dom_map_of_conv_image_fst)
  show ?case
  proof (cases "color d")
    case None
    have "searched regs {d \<in> set ds. map_of regs d \<noteq> None} (color, path) (dfs_deps n regs ds (color, path))"
      using 4(1) [OF None] 4(5-) by simp
    moreover have "{x \<in> set (d # ds). map_of regs x \<noteq> None} = {x \<in> set ds. map_of regs x \<noteq> None}" using dom None by auto
    ultimately show ?thesis using None by (simp only: dfs_deps.simps option.case)
  next
    case (Some c)
    show ?thesis
    proof (cases c)
      case Gray
      have "d \<in> set path" using inv Some Gray by (auto simp: dfs_inv_def)
      moreover have "depends regs (last path) d" using 4(8) dom Some by simp
      ultimately have "reports_cycle regs (cycle_error regs path d)"
        using cycle_error_reports [OF 4(5)] inv by (auto simp: dfs_inv_def)
      then show ?thesis by (simp add: searched_def Some Gray)
    next
      case Black
      have "searched regs {d \<in> set ds. map_of regs d \<noteq> None} (color, path) (dfs_deps n regs ds (color, path))"
        using 4(4) [OF Some Black] 4(5-) by simp
      then show ?thesis using Some Black by (auto simp: searched_def split: option.splits sum.splits prod.splits)
    next
      case White
      have first: "searched regs {d} (color, path) (dfs n regs d (color, path))"
        using 4(2) [OF Some White] 4(5-) Some White dom by simp
      show ?thesis
      proof (cases "dfs n regs d (color, path)")
        case None
        with first show ?thesis by (simp add: searched_def)
      next
        case r: (Some r)
        show ?thesis
        proof (cases r)
          case (Inl e)
          with first r show ?thesis by (simp add: searched_def Some White)
        next
          case (Inr s1)
          obtain color1 where s1: "s1 = (color1, path)" using first r Inr by (cases s1) (simp add: searched_def)
          with first r Inr have f: "dfs_inv regs color1 path" "whites color1 \<subseteq> whites color"
              "\<forall>t. color t = Some Black \<longrightarrow> color1 t = Some Black" "color1 d = Some Black"
            by (auto simp: searched_def)
          have "card (whites color1) \<le> n" using card_mono [OF finite_whites [OF inv] f(2)] 4(9) by simp
          with f have "searched regs {d \<in> set ds. map_of regs d \<noteq> None} (color1, path) (dfs_deps n regs ds (color1, path))"
            using 4(3) [OF Some White r Inr, unfolded s1] 4(5-) by simp
          then show ?thesis using f
            by (auto simp: searched_def Some White r Inr s1 split: option.splits sum.splits prod.splits)
        qed
      qed
    qed
  qed
qed

lemma dfs_all_searched:
  assumes "well_named regs"
  shows "dfs_inv regs color [] \<Longrightarrow> set ts \<subseteq> fst ` set regs \<Longrightarrow> card (whites color) \<le> n \<Longrightarrow>
    searched regs (set ts) (color, []) (dfs_all n regs ts (color, []))"
proof (induction ts arbitrary: color)
  case Nil
  then show ?case by (simp add: searched_def)
next
  case (Cons t ts)
  show ?case
  proof (cases "color t = Some White")
    case True
    have first: "searched regs {t} (color, []) (dfs n regs t (color, []))"
      using dfs_searched(1) [OF assms, of "(color, [])" t n] Cons.prems True by simp
    then obtain r where r: "dfs n regs t (color, []) = Some r" by (auto simp: searched_def split: option.splits)
    show ?thesis
    proof (cases r)
      case (Inl e)
      with first r True show ?thesis by (simp add: searched_def)
    next
      case (Inr s1)
      obtain color1 where s1: "s1 = (color1, [])" using first r Inr by (cases s1) (simp add: searched_def)
      with first r Inr have f: "dfs_inv regs color1 []" "whites color1 \<subseteq> whites color"
          "\<forall>t. color t = Some Black \<longrightarrow> color1 t = Some Black" "color1 t = Some Black"
        by (auto simp: searched_def)
      have "card (whites color1) \<le> n" using card_mono [OF finite_whites [OF Cons.prems(1)] f(2)] Cons.prems(3) by simp
      then have "searched regs (set ts) (color1, []) (dfs_all n regs ts (color1, []))" using Cons.IH f(1) Cons.prems(2) by simp
      then show ?thesis using f by (auto simp: searched_def True r Inr s1 split: option.splits sum.splits prod.splits)
    qed
  next
    case False
    have "t \<in> dom color" "color t \<noteq> Some Gray" using Cons.prems(1,2) by (auto simp: dfs_inv_def)
    then have black: "color t = Some Black" using False by (metis color.exhaust domD)
    have "searched regs (set ts) (color, []) (dfs_all n regs ts (color, []))" using Cons by simp
    then show ?thesis using black by (auto simp: searched_def split: option.splits sum.splits prod.splits)
  qed
qed

lemma cyclic_registered: "cyclic regs \<Longrightarrow> \<exists>t\<in>fst ` set regs. (depends regs)\<^sup>+\<^sup>+ t t"
proof -
  assume "cyclic regs"
  then obtain t where t: "(depends regs)\<^sup>+\<^sup>+ t t" by (auto simp: cyclic_def)
  then obtain d where "depends regs t d" by (blast dest: tranclpD)
  then have "t \<in> fst ` set regs" using depends_registered by (metis domIff dom_map_of_conv_image_fst)
  with t show ?thesis by blast
qed

lemma detect_cycles_result:
  assumes "well_named regs"
  shows "if cyclic regs then \<exists>e. detect_cycles regs = Some (Some e) \<and> reports_cycle regs e
    else detect_cycles regs = Some None"
proof -
  let ?color = "map_of (map (\<lambda>(t, _). (t, White)) regs)"
  have white: "?color t = (if t \<in> fst ` set regs then Some White else None)" for t
    by (induction regs) auto
  have inv: "dfs_inv regs ?color []" by (auto simp: dfs_inv_def dom_def white)
  have "whites ?color = fst ` set regs" by (auto simp: whites_def white)
  then have "card (whites ?color) \<le> Suc (length regs)" using card_length [of "map fst regs"] by simp
  then have s: "searched regs (set (map fst regs)) (?color, []) (dfs_all (Suc (length regs)) regs (map fst regs) (?color, []))"
    by (intro dfs_all_searched [OF assms inv]) simp_all
  then obtain r where r: "dfs_all (Suc (length regs)) regs (map fst regs) (?color, []) = Some r"
    by (auto simp: searched_def split: option.splits)
  show ?thesis
  proof (cases r)
    case (Inl e)
    with s r have "reports_cycle regs e" by (simp add: searched_def)
    with Inl r reports_cycle_cyclic show ?thesis by (auto simp: detect_cycles_def)
  next
    case (Inr s1)
    obtain color1 path1 where "s1 = (color1, path1)" by (cases s1)
    with s r Inr have "\<forall>t\<in>fst ` set regs. color1 t = Some Black" "dfs_inv regs color1 path1" by (auto simp: searched_def)
    then have "\<not> cyclic regs" using cyclic_registered [of regs] by (auto simp: dfs_inv_def)
    with Inr r show ?thesis by (simp add: detect_cycles_def)
  qed
qed

lemma detect_cycles_none: "well_named regs \<Longrightarrow> \<not> cyclic regs \<Longrightarrow> detect_cycles regs = Some None"
  using detect_cycles_result [of regs] by simp

text \<open>
  C25: Cycle detection is exact. It always returns; it throws exactly when the dependencies between
  registered types have a cycle, and the error it throws names the types of such a cycle in order.
\<close>

theorem detect_cycles_exact:
  assumes "well_named regs"
  shows "if cyclic regs then \<exists>e. detect_cycles regs = Some (Some e) \<and> reports_cycle regs e
    else detect_cycles regs = Some None"
  using assms by (rule detect_cycles_result)

section \<open>The construction order\<close>

definition deps_first :: "(type_id \<times> BeanRegistration) list \<Rightarrow> type_id list \<Rightarrow> bool" where
  "deps_first regs order \<longleftrightarrow> (\<forall>i<length order. \<forall>d. depends regs (order ! i) d \<longrightarrow> d \<in> set (take i order))"

definition rdeps :: "(type_id \<times> BeanRegistration) list \<Rightarrow> type_id \<Rightarrow> type_id list" where
  "rdeps regs t = (case map_of regs t of None \<Rightarrow> [] | Some reg \<Rightarrow> registered_deps regs reg)"

lemma set_rdeps: "set (rdeps regs t) = {d. depends regs t d}"
  by (cases "map_of regs t") (auto simp: rdeps_def registered_deps_def depends_def)

lemma count_inner:
  "fold (add_edge tid) ds s = ((fst s)(tid := fst s tid + length ds), \<lambda>d. snd s d @ replicate (count_list ds d) tid)"
proof (induction ds arbitrary: s)
  case Nil
  then show ?case by simp
next
  case (Cons x ds)
  show ?case unfolding fold_simps o_apply Cons.IH by (auto simp: add_edge_def fun_eq_iff)
qed

lemma count_outer:
  "distinct (map fst xs) \<Longrightarrow>
   fold (\<lambda>(tid, reg). fold (add_edge tid) (f reg)) xs s =
     (\<lambda>t. fst s t + (case map_of xs t of None \<Rightarrow> 0 | Some reg \<Rightarrow> length (f reg)),
      \<lambda>d. snd s d @ concat (map (\<lambda>(t, reg). replicate (count_list (f reg) d) t) xs))"
proof (induction xs arbitrary: s)
  case Nil
  then show ?case by simp
next
  case (Cons x xs)
  obtain t reg where x: "x = (t, reg)" by (cases x)
  have "map_of xs t = None" using Cons.prems x by (auto simp: map_of_eq_None_iff)
  have "fold (\<lambda>(tid, reg). fold (add_edge tid) (f reg)) (x # xs) s =
      fold (\<lambda>(tid, reg). fold (add_edge tid) (f reg)) xs (fold (add_edge t) (f reg) s)"
    by (simp add: x)
  also have "\<dots> = (\<lambda>u. fst (fold (add_edge t) (f reg) s) u + (case map_of xs u of None \<Rightarrow> 0 | Some reg \<Rightarrow> length (f reg)),
      \<lambda>d. snd (fold (add_edge t) (f reg) s) d @ concat (map (\<lambda>(t, reg). replicate (count_list (f reg) d) t) xs))"
    using Cons.prems by (intro Cons.IH) simp
  also have "\<dots> = (\<lambda>u. fst s u + (case map_of (x # xs) u of None \<Rightarrow> 0 | Some reg \<Rightarrow> length (f reg)),
      \<lambda>d. snd s d @ concat (map (\<lambda>(t, reg). replicate (count_list (f reg) d) t) (x # xs)))"
    using \<open>map_of xs t = None\<close> by (auto simp: count_inner x fun_eq_iff)
  finally show ?case .
qed

lemma count_replicates:
  "distinct (map fst xs) \<Longrightarrow>
   count_list (concat (map (\<lambda>(t, reg). replicate (f reg) t) xs)) t = (case map_of xs t of None \<Rightarrow> 0 | Some reg \<Rightarrow> f reg)"
proof (induction xs)
  case Nil
  then show ?case by simp
next
  case (Cons x xs)
  have "count_list (replicate n u) t = (if u = t then n else 0)" for n u by (induction n) auto
  moreover have "map_of xs (fst x) = None" using Cons.prems by (auto simp: map_of_eq_None_iff)
  ultimately show ?case using Cons by (auto split: prod.splits)
qed

lemma count_edges_result:
  assumes "well_named regs"
  obtains out where "count_edges regs = (\<lambda>t. length (rdeps regs t), out)" "\<And>d t. count_list (out d) t = count_list (rdeps regs t) d"
proof -
  have d: "distinct (map fst regs)" using assms by (simp add: well_named_def)
  have l: "(case map_of regs t of None \<Rightarrow> 0 | Some reg \<Rightarrow> g (registered_deps regs reg)) = g (rdeps regs t)"
    if "g [] = (0::nat)" for g t using that by (simp add: rdeps_def split: option.split)
  show ?thesis
  proof
    show "count_edges regs = (\<lambda>t. length (rdeps regs t), \<lambda>d. concat (map (\<lambda>(t, reg). replicate (count_list (registered_deps regs reg) d) t) regs))"
      unfolding count_edges_def count_outer [OF d] using l [of length] by simp
    show "count_list (concat (map (\<lambda>(t, reg). replicate (count_list (registered_deps regs reg) d) t) regs)) t = count_list (rdeps regs t) d" for d t
      using count_replicates [OF d, of "\<lambda>reg. count_list (registered_deps regs reg) d" t] l [of "\<lambda>ds. count_list ds d"] by simp
  qed
qed

lemma kahn_relax_result:
  "\<forall>d. count_list ds d \<le> deg d \<Longrightarrow>
   \<exists>new. kahn_relax ds deg queue = (\<lambda>d. deg d - count_list ds d, queue @ new) \<and> distinct new \<and>
     set new = {d \<in> set ds. deg d = count_list ds d}"
proof (induction ds arbitrary: deg queue)
  case Nil
  then show ?case by simp
next
  case (Cons x ds)
  have pos: "deg x \<noteq> 0" using Cons.prems [rule_format, of x] by simp
  have le: "\<forall>d. count_list ds d \<le> (deg(x := deg x - 1)) d"
  proof
    fix d
    show "count_list ds d \<le> (deg(x := deg x - 1)) d" using Cons.prems [rule_format, of d] by (simp split: if_splits)
  qed
  obtain new where new: "kahn_relax ds (deg(x := deg x - 1)) (if deg x - 1 = 0 then queue @ [x] else queue) =
      (\<lambda>d. (deg(x := deg x - 1)) d - count_list ds d, (if deg x - 1 = 0 then queue @ [x] else queue) @ new)"
      "distinct new" "set new = {d \<in> set ds. (deg(x := deg x - 1)) d = count_list ds d}"
    using Cons.IH [OF le] by blast
  have step: "kahn_relax (x # ds) deg queue = (\<lambda>d. deg d - count_list (x # ds) d, (if deg x - 1 = 0 then queue @ [x] else queue) @ new)"
    using new(1) pos by (auto simp: Let_def fun_eq_iff)
  have in_ds: "count_list ds d = 0 \<longleftrightarrow> d \<notin> set ds" for d by (simp add: count_list_0_iff)
  show ?case
  proof (cases "deg x - 1 = 0")
    case True
    then have one: "deg x = 1" using pos by simp
    then have "x \<notin> set ds" using le in_ds [of x] by (metis True fun_upd_same le_zero_eq)
    then have "distinct (x # new)" "set (x # new) = {d \<in> set (x # ds). deg d = count_list (x # ds) d}"
      using new(2,3) one in_ds [of x] by auto
    with step True show ?thesis by (intro exI [of _ "x # new"]) simp
  next
    case False
    have "set new = {d \<in> set (x # ds). deg d = count_list (x # ds) d}"
    proof (intro set_eqI iffI)
      fix d assume "d \<in> set new"
      then show "d \<in> {d \<in> set (x # ds). deg d = count_list (x # ds) d}" using new(3) pos by (auto split: if_splits)
    next
      fix d assume d: "d \<in> {d \<in> set (x # ds). deg d = count_list (x # ds) d}"
      then have "d \<in> set ds" using False in_ds [of d] by (cases "d = x") auto
      with d show "d \<in> set new" using new(3) by (auto split: if_splits)
    qed
    with step False new(2) show ?thesis by (intro exI [of _ new]) simp
  qed
qed

definition kahn_inv ::
    "(type_id \<times> BeanRegistration) list \<Rightarrow> (type_id \<Rightarrow> nat) \<Rightarrow> type_id list \<Rightarrow> type_id list \<Rightarrow> bool" where
  "kahn_inv regs deg queue order \<longleftrightarrow>
     distinct (order @ queue) \<and> set (order @ queue) = {t \<in> fst ` set regs. deg t = 0} \<and>
     (\<forall>t. deg t = length (filter (\<lambda>d. d \<notin> set order) (rdeps regs t))) \<and> deps_first regs order"

lemma filter_remove_count: "t \<notin> D \<Longrightarrow> length (filter (\<lambda>d. d \<notin> insert t D) ds) = length (filter (\<lambda>d. d \<notin> D) ds) - count_list ds t"
  and filter_count_le: "t \<notin> D \<Longrightarrow> count_list ds t \<le> length (filter (\<lambda>d. d \<notin> D) ds)"
  by (induction ds) (auto simp: Suc_diff_le)

lemma deps_first_snoc: "deps_first regs (order @ [t]) \<longleftrightarrow> deps_first regs order \<and> (\<forall>d. depends regs t d \<longrightarrow> d \<in> set order)"
  by (auto simp: deps_first_def less_Suc_eq nth_append)

lemma kahn_inv_step:
  assumes out: "\<And>d t. count_list (out d) t = count_list (rdeps regs t) d" and inv: "kahn_inv regs deg (tid # queue) order"
  shows "\<exists>new. kahn_relax (out tid) deg queue = (\<lambda>t. deg t - count_list (rdeps regs t) tid, queue @ new) \<and>
    kahn_inv regs (\<lambda>t. deg t - count_list (rdeps regs t) tid) (queue @ new) (order @ [tid])"
proof -
  have tid: "tid \<notin> set order" "deg tid = 0" and deg: "deg t = length (filter (\<lambda>d. d \<notin> set order) (rdeps regs t))" for t
    using inv by (auto simp: kahn_inv_def)
  have le: "\<forall>t. count_list (out tid) t \<le> deg t" using filter_count_le [OF tid(1)] deg out by simp
  obtain new where new: "kahn_relax (out tid) deg queue = (\<lambda>t. deg t - count_list (rdeps regs t) tid, queue @ new)"
      "distinct new" "set new = {t \<in> set (out tid). deg t = count_list (rdeps regs t) tid}"
    using kahn_relax_result [OF le, of queue] out by auto
  have mem: "t \<in> set (out tid) \<longleftrightarrow> depends regs t tid" for t
    using out [of tid t] set_rdeps [of regs t] by (metis count_list_0_iff mem_Collect_eq)
  let ?deg = "\<lambda>t. deg t - count_list (rdeps regs t) tid"
  have d': "\<forall>t. ?deg t = length (filter (\<lambda>d. d \<notin> set (order @ [tid])) (rdeps regs t))"
    using filter_remove_count [OF tid(1)] deg by simp
  have pos: "deg t > 0" if "t \<in> set new" for t
  proof -
    have "count_list (rdeps regs t) tid \<noteq> 0" using that new(3) mem set_rdeps by (auto simp: count_list_0_iff)
    then show ?thesis using that new(3) by simp
  qed
  have zero: "set (order @ [tid] @ queue @ new) = {t \<in> fst ` set regs. ?deg t = 0}"
  proof (intro set_eqI iffI)
    fix t assume t: "t \<in> set (order @ [tid] @ queue @ new)"
    show "t \<in> {t \<in> fst ` set regs. ?deg t = 0}"
    proof (cases "t \<in> set new")
      case True
      then have "map_of regs t \<noteq> None" using new(3) mem depends_registered by blast
      then have "t \<in> fst ` set regs" by (metis domIff dom_map_of_conv_image_fst)
      with True new(3) show ?thesis by simp
    next
      case False
      then have "t \<in> set (order @ tid # queue)" using t by auto
      then have "t \<in> {t \<in> fst ` set regs. deg t = 0}" using inv unfolding kahn_inv_def by blast
      then show ?thesis by simp
    qed
  next
    fix t assume t: "t \<in> {t \<in> fst ` set regs. ?deg t = 0}"
    show "t \<in> set (order @ [tid] @ queue @ new)"
    proof (cases "deg t = 0")
      case True
      then have "t \<in> set (order @ tid # queue)" using t inv by (auto simp: kahn_inv_def)
      then show ?thesis by auto
    next
      case False
      then have "deg t = count_list (rdeps regs t) tid" using t le out by (metis (mono_tags, lifting) diff_is_0_eq le_antisym mem_Collect_eq)
      moreover from this False have "t \<in> set (out tid)" using out [of tid t] by (metis count_list_0_iff)
      ultimately show ?thesis using new(3) by simp
    qed
  qed
  have "distinct (order @ tid # queue)" and old: "set (order @ tid # queue) = {t \<in> fst ` set regs. deg t = 0}"
    using inv unfolding kahn_inv_def by blast+
  moreover have "set new \<inter> set (order @ tid # queue) = {}" unfolding old using pos by fastforce
  ultimately have "distinct ((order @ [tid]) @ queue @ new)" using new(2) by auto
  moreover have "deps_first regs (order @ [tid])"
    using inv deg [of tid] tid(2) set_rdeps [of regs tid] by (auto simp: kahn_inv_def deps_first_snoc filter_empty_conv)
  ultimately have "kahn_inv regs ?deg (queue @ new) (order @ [tid])" using zero d' by (simp add: kahn_inv_def)
  with new(1) show ?thesis by blast
qed

lemma kahn_loop_result:
  assumes out: "\<And>d t. count_list (out d) t = count_list (rdeps regs t) d"
  shows "kahn_inv regs deg queue order \<Longrightarrow> \<exists>deg' order'. kahn_loop out deg queue order = Some order' \<and> kahn_inv regs deg' [] order'"
proof (induction "card (fst ` set regs) - length order" arbitrary: deg queue order rule: less_induct)
  case less
  show ?case
  proof (cases queue)
    case Nil
    with less.prems show ?thesis by (subst kahn_loop.simps) auto
  next
    case (Cons tid queue1)
    obtain new where new: "kahn_relax (out tid) deg queue1 = (\<lambda>t. deg t - count_list (rdeps regs t) tid, queue1 @ new)"
        "kahn_inv regs (\<lambda>t. deg t - count_list (rdeps regs t) tid) (queue1 @ new) (order @ [tid])"
      using kahn_inv_step [OF out] less.prems Cons by blast
    have "set (order @ [tid]) \<subseteq> fst ` set regs" "distinct (order @ [tid])" using new(2) by (auto simp: kahn_inv_def)
    then have "length (order @ [tid]) \<le> card (fst ` set regs)" by (metis card_mono distinct_card finite_imageI finite_set)
    then have "card (fst ` set regs) - length (order @ [tid]) < card (fst ` set regs) - length order" by simp
    from less.hyps [OF this new(2)] show ?thesis using new(1) Cons by (subst kahn_loop.simps) simp
  qed
qed

lemma finite_successors_cycle:
  assumes "finite R" "R \<noteq> {}" "\<forall>t\<in>R. \<exists>d\<in>R. P t d"
  shows "\<exists>t. P\<^sup>+\<^sup>+ t t"
proof (rule ccontr)
  assume no: "\<nexists>t. P\<^sup>+\<^sup>+ t t"
  let ?r = "{(d, t). d \<in> R \<and> t \<in> R \<and> P t d}"
  have fin: "finite ?r" by (rule finite_subset [of _ "R \<times> R"]) (use assms(1) in auto)
  have "(d, t) \<in> ?r\<^sup>+ \<Longrightarrow> P\<^sup>+\<^sup>+ t d" for d t
    by (induction rule: trancl_induct) (auto intro: tranclp_into_tranclp2)
  then have "acyclic ?r" using no by (auto simp: acyclic_def)
  then have "wf ?r" using fin by (rule finite_acyclic_wf [rotated])
  then obtain t where "t \<in> R" "\<And>d. (d, t) \<in> ?r \<Longrightarrow> d \<notin> R" using assms(2) wfE_min' [of ?r R] by blast
  with assms(3) show False by blast
qed

definition reorders :: "('a list \<Rightarrow> 'a list) \<Rightarrow> bool" where
  "reorders ord \<longleftrightarrow> (\<forall>xs. set (ord xs) = set xs \<and> (distinct xs \<longrightarrow> distinct (ord xs)))"

lemma topo_order_result:
  assumes named: "well_named regs" and ord: "reorders ord"
  shows "\<exists>order. build_topo_order ord regs = Some order \<and> distinct order \<and> set order = fst ` set regs \<and>
    (\<not> cyclic regs \<longrightarrow> deps_first regs order)"
proof -
  obtain out where e: "count_edges regs = (\<lambda>t. length (rdeps regs t), out)" and out: "\<And>d t. count_list (out d) t = count_list (rdeps regs t) d"
    using count_edges_result [OF named] by blast
  have dist: "distinct (map fst regs)" using named by (simp add: well_named_def)
  let ?queue = "filter (\<lambda>t. length (rdeps regs t) = 0) (ord (map fst regs))"
  have "kahn_inv regs (\<lambda>t. length (rdeps regs t)) ?queue []"
  proof -
    have "set (ord (map fst regs)) = fst ` set regs" "distinct (ord (map fst regs))" using ord dist by (auto simp: reorders_def)
    then have "distinct ([] @ ?queue)" "set ([] @ ?queue) = {t \<in> fst ` set regs. length (rdeps regs t) = 0}" by auto
    then show ?thesis unfolding kahn_inv_def by (simp add: deps_first_def)
  qed
  then obtain deg order where o: "kahn_loop out (\<lambda>t. length (rdeps regs t)) ?queue [] = Some order" "kahn_inv regs deg [] order"
    using kahn_loop_result [OF out] by blast
  have order: "distinct order" "set order = {t \<in> fst ` set regs. deg t = 0}" "deps_first regs order"
      and deg: "deg t = length (filter (\<lambda>d. d \<notin> set order) (rdeps regs t))" for t
    using o(2) unfolding kahn_inv_def append_Nil2 by blast+
  have full: "set order = fst ` set regs" if "\<not> cyclic regs"
  proof (rule ccontr)
    let ?R = "fst ` set regs - set order"
    assume "set order \<noteq> fst ` set regs"
    then have "?R \<noteq> {}" using order(2) by auto
    moreover have "\<exists>d\<in>?R. depends regs t d" if t: "t \<in> ?R" for t
    proof -
      have "deg t \<noteq> 0" using t order(2) by auto
      then obtain d where d: "d \<in> set (rdeps regs t)" "d \<notin> set order" using deg [of t] by (auto simp: filter_empty_conv)
      then have "depends regs t d" using set_rdeps by blast
      moreover from this have "d \<in> fst ` set regs" using depends_registered by (metis domIff dom_map_of_conv_image_fst)
      ultimately show ?thesis using d(2) by blast
    qed
    ultimately have "\<exists>t. (depends regs)\<^sup>+\<^sup>+ t t" by (intro finite_successors_cycle [of ?R]) auto
    with that show False by (simp add: cyclic_def)
  qed
  let ?order = "if length order < length regs then order @ filter (\<lambda>t. t \<notin> set order) (map fst regs) else order"
  have b: "build_topo_order ord regs = Some ?order" unfolding build_topo_order_def e prod.case o(1) option.case ..
  have len: "length order < length regs \<longleftrightarrow> set order \<noteq> fst ` set regs"
  proof -
    have "card (fst ` set regs) = length regs" using distinct_card [OF dist] by simp
    moreover have "card (set order) = length order" by (rule distinct_card [OF order(1)])
    moreover have "set order \<subseteq> fst ` set regs" using order(2) by auto
    ultimately show ?thesis using psubset_card_mono [of "fst ` set regs" "set order"] by auto
  qed
  have "distinct ?order" using order(1) dist by auto
  moreover have "set ?order = fst ` set regs" using order(2) len by auto
  moreover have "\<not> cyclic regs \<longrightarrow> deps_first regs ?order" using full len order(3) by simp
  ultimately show ?thesis using b by blast
qed

section \<open>Building in order\<close>

definition constructions :: "bean_event list \<Rightarrow> (type_id \<times> nat) list" where
  "constructions log = concat (map (\<lambda>e. case e of Constructed t p \<Rightarrow> [(t, p)] | _ \<Rightarrow> []) log)"

definition destructions :: "bean_event list \<Rightarrow> nat list" where
  "destructions log = concat (map (\<lambda>e. case e of Destroyed p \<Rightarrow> [p] | _ \<Rightarrow> []) log)"

lemma log_simps [simp]:
  "constructions [] = []" "destructions [] = []"
  "constructions (bean_log (log_event (Hook l p) w)) = constructions (bean_log w)"
  "destructions (bean_log (log_event (Hook l p) w)) = destructions (bean_log w)"
  "constructions (bean_log (log_event (Constructed t p) w)) = constructions (bean_log w) @ [(t, p)]"
  "destructions (bean_log (log_event (Constructed t p) w)) = destructions (bean_log w)"
  "constructions (bean_log (log_event (Destroyed p) w)) = constructions (bean_log w)"
  "destructions (bean_log (log_event (Destroyed p) w)) = destructions (bean_log w) @ [p]"
  "next_address (log_event e w) = next_address w"
  by (simp_all add: constructions_def destructions_def log_event_def)

text \<open>
  A registration whose factory resolves only dependencies that are declared and that the container
  can resolve, and neither throws nor times out; only objects it creates are deleted.
\<close>

definition bean_ok :: "(type_id \<times> BeanRegistration) list \<Rightarrow> (type_id \<Rightarrow> nat \<Rightarrow> bool) \<Rightarrow> BeanRegistration \<Rightarrow> bool" where
  "bean_ok regs ready reg \<longleftrightarrow>
     (\<forall>d\<in>set (factory_types (reg_factory reg)).
        d \<in> set (dep_type_ids reg) \<and> (case map_of regs d of None \<Rightarrow> False | Some r \<Rightarrow> reg_scope r \<noteq> Prototype)) \<and>
     (factory_product (reg_factory reg) = New_object \<or>
      factory_product (reg_factory reg) = Last_resolved \<and> factory_types (reg_factory reg) \<noteq> []) \<and>
     (destructor_fn reg \<longleftrightarrow> factory_product (reg_factory reg) = New_object) \<and>
     (\<forall>h\<in>set (post_construct_fn reg). snd h = None) \<and>
     (is_async reg \<longrightarrow> async_timeout_ms reg = 0 \<or> ready (reg_name reg) (async_timeout_ms reg))"

definition factory_deps :: "(type_id \<times> BeanRegistration) list \<Rightarrow> type_id \<Rightarrow> type_id list" where
  "factory_deps regs t = (case map_of regs t of None \<Rightarrow> [] | Some reg \<Rightarrow> factory_types (reg_factory reg))"

definition objects_in_order :: "(type_id \<times> BeanRegistration) list \<Rightarrow> (type_id \<rightharpoonup> nat) \<Rightarrow> (type_id \<times> nat) list \<Rightarrow> bool" where
  "objects_in_order regs insts cs \<longleftrightarrow>
     (\<forall>i<length cs. \<forall>d\<in>set (factory_deps regs (fst (cs ! i))). \<exists>q. insts d = Some q \<and> q \<in> set (map snd (take i cs)))"

definition di_inv :: "(type_id \<times> BeanRegistration) list \<Rightarrow> container \<Rightarrow> di_world \<Rightarrow> bool" where
  "di_inv regs c w \<longleftrightarrow>
     (let cs = constructions (bean_log w)
      in registrations c = regs \<and> destructions (bean_log w) = [] \<and> 0 < next_address w \<and> distinct (map fst cs) \<and> distinct (map snd cs) \<and>
         (\<forall>(t, p)\<in>set cs. instances c t = Some p \<and> p \<noteq> 0 \<and> p < next_address w) \<and>
         ran (instances c) \<subseteq> snd ` set cs \<and> objects_in_order regs (instances c) cs \<and>
         map fst (filter snd (owned_instances c)) = map snd cs)"

lemma call_hooks_ok:
  "\<forall>h\<in>set hs. snd h = None \<Longrightarrow>
   \<exists>w'. call_hooks hs p w = (None, w') \<and> constructions (bean_log w') = constructions (bean_log w) \<and>
     destructions (bean_log w') = destructions (bean_log w) \<and> next_address w' = next_address w"
  by (induction hs p w rule: call_hooks.induct) auto

lemma di_inv_cong:
  "di_inv regs c w \<Longrightarrow> constructions (bean_log w') = constructions (bean_log w) \<Longrightarrow>
   destructions (bean_log w') = destructions (bean_log w) \<Longrightarrow> next_address w' = next_address w \<Longrightarrow> di_inv regs c w'"
  by (simp add: di_inv_def)

lemma objects_in_order_mono:
  "objects_in_order regs m cs \<Longrightarrow> m \<subseteq>\<^sub>m m' \<Longrightarrow> objects_in_order regs m' cs"
proof -
  assume a: "objects_in_order regs m cs" "m \<subseteq>\<^sub>m m'"
  have "m d = Some q \<Longrightarrow> m' d = Some q" for d q using a(2) by (metis domI map_le_def)
  with a(1) show "objects_in_order regs m' cs" unfolding objects_in_order_def by meson
qed

lemma objects_in_order_snoc:
  "objects_in_order regs m (cs @ [(t, p)]) \<longleftrightarrow>
     objects_in_order regs m cs \<and> (\<forall>d\<in>set (factory_deps regs t). \<exists>q. m d = Some q \<and> q \<in> snd ` set cs)"
  by (auto simp: objects_in_order_def less_Suc_eq nth_append)

lemma di_inv_keep:
  assumes inv: "di_inv regs c w" and reg: "map_of regs t = Some reg" "instances c t = None" and ok: "bean_ok regs ready reg"
    and deps: "\<forall>d\<in>set (factory_types (reg_factory reg)). instances c d \<noteq> None"
    and q: "factory_types (reg_factory reg) \<noteq> [] \<longrightarrow> q \<in> ran (instances c)"
  shows "\<exists>p w1. produce t (factory_product (reg_factory reg)) q w = (Inr p, w1) \<and>
    (\<forall>c2. registrations c2 = regs \<longrightarrow> instances c2 = (instances c)(t \<mapsto> p) \<longrightarrow>
       owned_instances c2 = owned_instances c @ [(p, destructor_fn reg)] \<longrightarrow> di_inv regs c2 w1)"
proof -
  let ?cs = "constructions (bean_log w)" and ?a = "next_address w"
  have i: "0 < ?a" "distinct (map fst ?cs)" "distinct (map snd ?cs)" "\<forall>(t, p)\<in>set ?cs. instances c t = Some p \<and> p \<noteq> 0 \<and> p < ?a"
      "ran (instances c) \<subseteq> snd ` set ?cs" "objects_in_order regs (instances c) ?cs" "map fst (filter snd (owned_instances c)) = map snd ?cs"
      "destructions (bean_log w) = []"
    using inv by (auto simp: di_inv_def Let_def)
  have le: "instances c \<subseteq>\<^sub>m (instances c)(t \<mapsto> p)" for p using reg(2) by (auto simp: map_le_def)
  have new: "t \<notin> fst ` set ?cs" using i(4) reg(2) by fastforce
  have others: "\<forall>(u, p)\<in>set ?cs. u \<noteq> t" using new by force
  show ?thesis
  proof (cases "factory_product (reg_factory reg) = New_object")
    case True
    have "\<forall>d\<in>set (factory_deps regs t). \<exists>q. ((instances c)(t \<mapsto> ?a)) d = Some q \<and> q \<in> snd ` set ?cs"
    proof
      fix d assume "d \<in> set (factory_deps regs t)"
      then obtain q where "instances c d = Some q" using deps reg(1) by (auto simp: factory_deps_def)
      moreover from this have "q \<in> snd ` set ?cs" "d \<noteq> t" using i(5) reg(2) by (auto intro: ranI)
      ultimately show "\<exists>q. ((instances c)(t \<mapsto> ?a)) d = Some q \<and> q \<in> snd ` set ?cs" by simp
    qed
    then have "objects_in_order regs ((instances c)(t \<mapsto> ?a)) (?cs @ [(t, ?a)])"
      unfolding objects_in_order_snoc using objects_in_order_mono [OF i(6) le] by blast
    moreover have "?a \<notin> snd ` set ?cs" using i(4) by force
    moreover have "ran ((instances c)(t \<mapsto> ?a)) \<subseteq> insert ?a (snd ` set ?cs)" using i(5) reg(2) by (auto simp: ran_map_upd)
    moreover have "destructor_fn reg" using ok True by (simp add: bean_ok_def)
    ultimately show ?thesis using True i(1-4,7,8) new others
      by (intro exI conjI) (force simp: produce_def di_inv_def Let_def)+
  next
    case False
    then have last: "factory_product (reg_factory reg) = Last_resolved" "factory_types (reg_factory reg) \<noteq> []" "\<not> destructor_fn reg"
      using ok by (auto simp: bean_ok_def)
    then have "q \<in> snd ` set ?cs" using q i(5) by blast
    then have "ran ((instances c)(t \<mapsto> q)) \<subseteq> snd ` set ?cs" using i(5) reg(2) by (simp add: ran_map_upd)
    moreover have "objects_in_order regs ((instances c)(t \<mapsto> q)) ?cs" by (rule objects_in_order_mono [OF i(6) le])
    ultimately show ?thesis using last i(1-4,7,8) others
      by (intro exI conjI) (force simp: produce_def di_inv_def Let_def)+
  qed
qed

text \<open>Two states of a root container while it is being built: nothing that was there is lost.\<close>

definition grows :: "(type_id \<times> BeanRegistration) list \<Rightarrow> type_id set \<Rightarrow> container \<Rightarrow> container \<Rightarrow> di_world \<Rightarrow> bool" where
  "grows regs A c c' w' \<longleftrightarrow>
     di_inv regs c' w' \<and> instances c \<subseteq>\<^sub>m instances c' \<and> dom (instances c') \<subseteq> dom (instances c) \<union> A \<and>
     lifecycle c' = lifecycle c \<and> built c' = built c"

definition eager :: "(type_id \<times> BeanRegistration) list \<Rightarrow> type_id \<Rightarrow> bool" where
  "eager regs t \<longleftrightarrow> (case map_of regs t of None \<Rightarrow> False | Some reg \<Rightarrow> reg_scope reg \<noteq> Prototype \<and> \<not> is_lazy reg)"

definition present :: "(type_id \<times> BeanRegistration) list \<Rightarrow> type_id set \<Rightarrow> container \<Rightarrow> bool" where
  "present regs S c \<longleftrightarrow> (\<forall>t\<in>S. eager regs t \<longrightarrow> instances c t \<noteq> None)"

lemma grows_refl: "di_inv regs c w \<Longrightarrow> grows regs A c c w"
  by (simp add: grows_def)

lemma grows_trans: "grows regs A a b w \<Longrightarrow> grows regs A b c w' \<Longrightarrow> grows regs A a c w'"
proof -
  assume a: "grows regs A a b w" and b: "grows regs A b c w'"
  have "instances a \<subseteq>\<^sub>m instances c" using map_le_trans [of "instances a" "instances b" "instances c"] a b unfolding grows_def by blast
  moreover have "dom (instances c) \<subseteq> dom (instances a) \<union> A" using a b unfolding grows_def by blast
  ultimately show "grows regs A a c w'" using a b by (simp add: grows_def)
qed

lemma grows_mono: "grows regs A c c' w \<Longrightarrow> A \<subseteq> B \<Longrightarrow> grows regs B c c' w"
  by (auto simp: grows_def)

lemma grows_lookup: "grows regs A c c' w \<Longrightarrow> instances c t = Some p \<Longrightarrow> instances c' t = Some p"
  by (metis domI grows_def map_le_def)

lemma present_grows: "present regs S c \<Longrightarrow> grows regs A c c' w \<Longrightarrow> present regs S c'"
  by (metis present_def grows_lookup not_None_eq)

lemma resolve_each_ok:
  assumes one: "\<And>t c w. t \<in> set ts \<Longrightarrow> di_inv regs c w \<Longrightarrow> present regs S c \<Longrightarrow>
      \<exists>p c' w'. resolve n ready t [c] w = Some (Inr p, [c'], w') \<and> grows regs A c c' w' \<and> instances c' t = Some p"
  shows "di_inv regs c w \<Longrightarrow> present regs S c \<Longrightarrow>
    \<exists>p c' w'. resolve_each n ready ts q [c] w = Some (Inr p, [c'], w') \<and> grows regs A c c' w' \<and>
      (\<forall>t\<in>set ts. instances c' t \<noteq> None) \<and> (ts \<noteq> [] \<longrightarrow> p \<in> ran (instances c'))"
  using one
proof (induction ts arbitrary: q c w)
  case Nil
  then show ?case by (simp add: grows_refl)
next
  case (Cons t ts)
  obtain p1 c1 w1 where r1: "resolve n ready t [c] w = Some (Inr p1, [c1], w1)" "grows regs A c c1 w1" "instances c1 t = Some p1"
    using Cons.prems(3) [of t c w] Cons.prems(1,2) by auto
  then have i1: "di_inv regs c1 w1" "present regs S c1" using present_grows [OF Cons.prems(2)] by (auto simp: grows_def)
  have tail: "\<And>t c w. t \<in> set ts \<Longrightarrow> di_inv regs c w \<Longrightarrow> present regs S c \<Longrightarrow>
      \<exists>p c' w'. resolve n ready t [c] w = Some (Inr p, [c'], w') \<and> grows regs A c c' w' \<and> instances c' t = Some p"
    by (rule Cons.prems(3)) simp_all
  obtain p c' w' where r2: "resolve_each n ready ts p1 [c1] w1 = Some (Inr p, [c'], w')" "grows regs A c1 c' w'"
      "\<forall>t\<in>set ts. instances c' t \<noteq> None" "ts \<noteq> [] \<longrightarrow> p \<in> ran (instances c')"
    using Cons.IH [OF i1 tail, of p1] by blast
  have t: "instances c' t = Some p1" using grows_lookup [OF r2(2) r1(3)] .
  have "p \<in> ran (instances c')"
  proof (cases ts)
    case Nil
    with r2(1) t show ?thesis by (auto intro: ranI)
  next
    case (Cons u us)
    with r2(4) show ?thesis by simp
  qed
  then show ?case using r1(1) r2(1,3) grows_trans [OF r1(2) r2(2)] t by simp
qed

lemma await_ok: "bean_ok regs ready reg \<Longrightarrow> await ready reg rw = rw"
  by (auto simp: await_def bean_ok_def)

lemma keep_lazy_ok:
  assumes p: "produce t (factory_product (reg_factory reg)) q w = (Inr p, w1)" and hooks: "\<forall>h\<in>set (post_construct_fn reg). snd h = None"
    and keep: "\<forall>c2. registrations c2 = regs \<longrightarrow> instances c2 = (instances c)(t \<mapsto> p) \<longrightarrow>
       owned_instances c2 = owned_instances c @ [(p, destructor_fn reg)] \<longrightarrow> di_inv regs c2 w1"
    and c: "registrations c = regs" "instances c t = None"
  shows "\<exists>c' w'. keep_lazy t reg (Inr p, w1) c = (Inr p, c', w') \<and> grows regs {t} c c' w' \<and> instances c' t = Some p"
proof -
  obtain w2 where w2: "call_hooks (post_construct_fn reg) p w1 = (None, w2)" "constructions (bean_log w2) = constructions (bean_log w1)"
      "destructions (bean_log w2) = destructions (bean_log w1)" "next_address w2 = next_address w1"
    using call_hooks_ok [OF hooks] by blast
  let ?c1 = "store_instance t reg p c"
  let ?c2 = "?c1\<lparr>owned_instances := owned_instances ?c1 @ [(p, destructor_fn reg)]\<rparr>"
  have "di_inv regs ?c2 w1" using keep c(1) by (simp add: store_instance_def)
  then have "grows regs {t} c ?c2 w2" using di_inv_cong [OF _ w2(2-4)] c(2)
    by (auto simp: grows_def store_instance_def map_le_def)
  moreover have "keep_lazy t reg (Inr p, w1) c = (Inr p, ?c2, w2)" using w2(1) by (simp add: keep_lazy_def Let_def)
  ultimately show ?thesis by (auto simp: store_instance_def)
qed

lemma resolve_ok:
  assumes named: "well_named regs" and ok: "\<forall>(t, reg)\<in>set regs. bean_ok regs ready reg"
    and order: "deps_first regs order" "distinct order"
  shows "i < k \<Longrightarrow> k \<le> length order \<Longrightarrow> i < fuel \<Longrightarrow> map_of regs (order ! i) = Some reg \<Longrightarrow> reg_scope reg \<noteq> Prototype \<Longrightarrow>
    di_inv regs c w \<Longrightarrow> present regs (set (take k order)) c \<Longrightarrow>
    \<exists>p c' w'. resolve fuel ready (order ! i) [c] w = Some (Inr p, [c'], w') \<and>
      grows regs (set (take (Suc i) order)) c c' w' \<and> instances c' (order ! i) = Some p"
proof (induction i arbitrary: fuel c w reg rule: less_induct)
  case (less i)
  obtain n where fuel: "fuel = Suc n" using less.prems(3) by (cases fuel) auto
  let ?t = "order ! i"
  have regs: "registrations c = regs" using less.prems(6) by (simp add: di_inv_def Let_def)
  show ?case
  proof (cases "instances c ?t")
    case (Some p)
    then show ?thesis using less.prems(6) by (auto simp: fuel grows_refl)
  next
    case None
    have "?t \<in> set (take k order)" using less.prems(1,2) by (metis in_set_conv_nth length_take min.absorb2 nth_take)
    then have lazy: "is_lazy reg" using less.prems(4,5,7) None by (auto simp: present_def eager_def)
    have bok: "bean_ok regs ready reg" using ok less.prems(4) by (auto dest: map_of_SomeD)
    let ?ts = "factory_types (reg_factory reg)"
    have one: "\<exists>p c' w'. resolve n ready d [c] w = Some (Inr p, [c'], w') \<and> grows regs (set (take i order)) c c' w' \<and> instances c' d = Some p"
      if d: "d \<in> set ?ts" and inv: "di_inv regs c w" "present regs (set (take k order)) c" for d c w
    proof -
      obtain r where r: "d \<in> set (dep_type_ids reg)" "map_of regs d = Some r" "reg_scope r \<noteq> Prototype"
        using bok d by (auto simp: bean_ok_def split: option.splits)
      then have "depends regs ?t d" using less.prems(4) by (auto simp: depends_def)
      then have "d \<in> set (take i order)" using order(1) less.prems(1,2) by (auto simp: deps_first_def)
      then obtain j where j: "j < i" "order ! j = d" by (auto simp: in_set_conv_nth)
      have "set (take (Suc j) order) \<subseteq> set (take i order)" using j(1) by (intro set_take_subset_set_take) simp
      then show ?thesis using less.IH [OF j(1), of n r c w] j r less.prems(1-3) inv fuel grows_mono by fastforce
    qed
    obtain q c1 w1 where e: "resolve_each n ready ?ts 0 [c] w = Some (Inr q, [c1], w1)" "grows regs (set (take i order)) c c1 w1"
        "\<forall>t\<in>set ?ts. instances c1 t \<noteq> None" "?ts \<noteq> [] \<longrightarrow> q \<in> ran (instances c1)"
      using resolve_each_ok [OF one less.prems(6,7), where q = 0] by blast
    have i1: "di_inv regs c1 w1" using e(2) by (simp add: grows_def)
    have "?t \<notin> set (take i order)" using order(2) less.prems(1,2)
      by (auto simp: in_set_conv_nth nth_eq_iff_index_eq)
    then have none: "instances c1 ?t = None" using e(2) None by (auto simp: grows_def)
    obtain p w2 where p: "produce ?t (factory_product (reg_factory reg)) q w1 = (Inr p, w2)"
        "\<forall>c2. registrations c2 = regs \<longrightarrow> instances c2 = (instances c1)(?t \<mapsto> p) \<longrightarrow>
           owned_instances c2 = owned_instances c1 @ [(p, destructor_fn reg)] \<longrightarrow> di_inv regs c2 w2"
      using di_inv_keep [OF i1 less.prems(4) none bok e(3,4)] by blast
    have "\<forall>h\<in>set (post_construct_fn reg). snd h = None" "registrations c1 = regs"
      using bok i1 by (auto simp: bean_ok_def di_inv_def Let_def)
    from keep_lazy_ok [OF p(1) this(1) p(2) this(2) none]
    obtain c2 w3 where k: "keep_lazy ?t reg (Inr p, w2) c1 = (Inr p, c2, w3)" "grows regs {?t} c1 c2 w3" "instances c2 ?t = Some p"
      by blast
    have "set (take i order) \<subseteq> set (take (Suc i) order)" "{?t} \<subseteq> set (take (Suc i) order)"
      using less.prems(1,2) by (auto simp: take_Suc_conv_app_nth)
    then have "grows regs (set (take (Suc i) order)) c c2 w3" using grows_trans grows_mono e(2) k(2) by meson
    moreover have "resolve fuel ready ?t [c] w = Some (Inr p, [c2], w3)"
      by (simp add: fuel None regs less.prems(4,5) lazy e(1) p(1) await_ok [OF bok] k(1))
    ultimately show ?thesis using k(3) by blast
  qed
qed

definition hooks_ok :: "LifecycleEntry list \<Rightarrow> bool" where
  "hooks_ok es \<longleftrightarrow> (\<forall>e\<in>set es. \<forall>h\<in>set (on_post_construct e). snd h = None)"

lemma instantiate_ok:
  assumes named: "well_named regs" and ok: "\<forall>(t, reg)\<in>set regs. bean_ok regs ready reg"
    and order: "deps_first regs order" "distinct order" and fuel: "length order \<le> fuel"
    and i: "i < length order" and reg: "map_of regs (order ! i) = Some reg"
    and c: "di_inv regs c w" "present regs (set (take i order)) c" "dom (instances c) \<subseteq> set (take i order)"
  shows "\<exists>p c1 w1. instantiate fuel ready (order ! i) reg c w = Some (Inr p, c1, w1) \<and>
    di_inv regs (keep_eager (order ! i) reg p c1) w1 \<and> instances c \<subseteq>\<^sub>m instances c1 \<and> dom (instances c1) \<subseteq> set (take i order) \<and>
    lifecycle c1 = lifecycle c \<and> built c1 = built c"
proof -
  let ?t = "order ! i" and ?ts = "factory_types (reg_factory reg)"
  have bok: "bean_ok regs ready reg" using ok reg by (auto dest: map_of_SomeD)
  have one: "\<exists>p c' w'. resolve fuel ready d [c] w = Some (Inr p, [c'], w') \<and> grows regs (set (take i order)) c c' w' \<and> instances c' d = Some p"
    if d: "d \<in> set ?ts" and inv: "di_inv regs c w" "present regs (set (take i order)) c" for d c w
  proof -
    obtain r where r: "d \<in> set (dep_type_ids reg)" "map_of regs d = Some r" "reg_scope r \<noteq> Prototype"
      using bok d by (auto simp: bean_ok_def split: option.splits)
    then have "depends regs ?t d" using reg by (auto simp: depends_def)
    then have "d \<in> set (take i order)" using order(1) i by (auto simp: deps_first_def)
    then obtain j where j: "j < i" "order ! j = d" by (auto simp: in_set_conv_nth)
    have "set (take (Suc j) order) \<subseteq> set (take i order)" using j(1) by (intro set_take_subset_set_take) simp
    then show ?thesis using resolve_ok [OF named ok order j(1), of fuel r c w] j r i inv fuel grows_mono by fastforce
  qed
  obtain q c1 w1 where e: "resolve_each fuel ready ?ts 0 [c] w = Some (Inr q, [c1], w1)" "grows regs (set (take i order)) c c1 w1"
      "\<forall>t\<in>set ?ts. instances c1 t \<noteq> None" "?ts \<noteq> [] \<longrightarrow> q \<in> ran (instances c1)"
    using resolve_each_ok [OF one c(1,2), where q = 0] by blast
  have i1: "di_inv regs c1 w1" "dom (instances c1) \<subseteq> set (take i order)" using e(2) c(3) unfolding grows_def by blast+
  have "?t \<notin> set (take i order)" using order(2) i by (auto simp: in_set_conv_nth nth_eq_iff_index_eq)
  then have none: "instances c1 ?t = None" using i1(2) by auto
  obtain p w2 where p: "produce ?t (factory_product (reg_factory reg)) q w1 = (Inr p, w2)"
      "\<forall>c2. registrations c2 = regs \<longrightarrow> instances c2 = (instances c1)(?t \<mapsto> p) \<longrightarrow>
         owned_instances c2 = owned_instances c1 @ [(p, destructor_fn reg)] \<longrightarrow> di_inv regs c2 w2"
    using di_inv_keep [OF i1(1) reg none bok e(3,4)] by blast
  have "di_inv regs (keep_eager ?t reg p c1) w2"
  proof -
    have "registrations c1 = regs" using i1(1) by (simp add: di_inv_def Let_def)
    then show ?thesis using p(2) by (simp add: keep_eager_def lifecycle_register_def store_instance_def Let_def)
  qed
  moreover have "instantiate fuel ready ?t reg c w = Some (Inr p, c1, w2)"
    by (simp add: instantiate_def run_factory_def e(1) p(1) await_ok [OF bok])
  ultimately show ?thesis using e(2) i1(2) by (auto simp: grows_def)
qed

lemma build_beans_ok:
  assumes named: "well_named regs" and ok: "\<forall>(t, reg)\<in>set regs. bean_ok regs ready reg"
    and order: "deps_first regs order" "distinct order" and fuel: "length order \<le> fuel"
  shows "i \<le> length order \<Longrightarrow> di_inv regs c w \<Longrightarrow> present regs (set (take i order)) c \<Longrightarrow>
    dom (instances c) \<subseteq> set (take i order) \<Longrightarrow> hooks_ok (lifecycle c) \<Longrightarrow>
    \<exists>c' w'. build_beans fuel ready (drop i order) c w = Some (None, c', w') \<and> di_inv regs c' w' \<and> present regs (set order) c' \<and>
      hooks_ok (lifecycle c') \<and> built c' = built c"
proof (induction "length order - i" arbitrary: i c w)
  case 0
  then show ?case by simp
next
  case (Suc m)
  let ?t = "order ! i"
  have i: "i < length order" "m = length order - Suc i" using Suc.hyps(2) by auto
  have d: "drop i order = ?t # drop (Suc i) order" using i(1) by (simp add: Cons_nth_drop_Suc)
  have tk: "set (take (Suc i) order) = insert ?t (set (take i order))" using i(1) by (simp add: take_Suc_conv_app_nth)
  have regs: "registrations c = regs" using Suc.prems(2) by (simp add: di_inv_def Let_def)
  show ?case
  proof (cases "eager regs ?t")
    case False
    then have "build_beans fuel ready (drop i order) c w = build_beans fuel ready (drop (Suc i) order) c w"
      unfolding d by (auto simp: regs eager_def split: option.splits)
    moreover have "present regs (set (take (Suc i) order)) c" using Suc.prems(3) False tk by (auto simp: present_def)
    ultimately show ?thesis using Suc.hyps(1) [OF i(2), of c w] Suc.prems tk i(1) by auto
  next
    case True
    then obtain reg where reg: "map_of regs ?t = Some reg" "reg_scope reg \<noteq> Prototype" "\<not> is_lazy reg"
      by (auto simp: eager_def split: option.splits)
    obtain p c1 w1 where r: "instantiate fuel ready ?t reg c w = Some (Inr p, c1, w1)" "di_inv regs (keep_eager ?t reg p c1) w1"
        "instances c \<subseteq>\<^sub>m instances c1" "dom (instances c1) \<subseteq> set (take i order)" "lifecycle c1 = lifecycle c" "built c1 = built c"
      using instantiate_ok [OF named ok order fuel i(1) reg(1) Suc.prems(2-4)] by blast
    let ?c = "keep_eager ?t reg p c1"
    have f: "instances ?c = (instances c1)(?t \<mapsto> p)" "built ?c = built c"
        "lifecycle ?c = lifecycle c @ [\<lparr>le_instance = p, on_post_construct = post_construct_fn reg, on_pre_destroy = pre_destroy_fn reg\<rparr>]"
      using r(5,6) by (simp_all add: keep_eager_def lifecycle_register_def store_instance_def Let_def)
    have "bean_ok regs ready reg" using ok reg(1) by (auto dest: map_of_SomeD)
    then have "hooks_ok (lifecycle ?c)" using Suc.prems(5) f(3) by (auto simp: hooks_ok_def bean_ok_def)
    moreover have "present regs (set (take (Suc i) order)) ?c"
      using Suc.prems(3) r(3) f(1) tk by (auto simp: present_def map_le_def dom_def)
    moreover have "dom (instances ?c) \<subseteq> set (take (Suc i) order)" using r(4) f(1) tk by auto
    moreover have "build_beans fuel ready (drop i order) c w = build_beans fuel ready (drop (Suc i) order) ?c w1"
      unfolding d by (simp add: regs reg r(1))
    ultimately show ?thesis using Suc.hyps(1) [OF i(2), of ?c w1] r(2) i(1) f(2) by simp
  qed
qed

lemma invoke_post_constructs_ok:
  "hooks_ok es \<Longrightarrow> \<exists>w'. invoke_post_constructs es w = (None, w') \<and> constructions (bean_log w') = constructions (bean_log w) \<and>
     destructions (bean_log w') = destructions (bean_log w) \<and> next_address w' = next_address w"
proof (induction es arbitrary: w)
  case Nil
  then show ?case by simp
next
  case (Cons e es)
  then obtain w1 where "call_hooks (on_post_construct e) (le_instance e) w = (None, w1)" "constructions (bean_log w1) = constructions (bean_log w)"
      "destructions (bean_log w1) = destructions (bean_log w)" "next_address w1 = next_address w"
    using call_hooks_ok [of "on_post_construct e" "le_instance e" w] by (auto simp: hooks_ok_def)
  with Cons.IH [of w1] Cons.prems show ?case by (auto simp: hooks_ok_def)
qed

lemma call_hooks_log:
  "call_hooks hs p w = (r, w') \<Longrightarrow> constructions (bean_log w') = constructions (bean_log w) \<and> destructions (bean_log w') = destructions (bean_log w)"
  by (induction hs p w rule: call_hooks.induct) (auto split: option.splits)

lemma invoke_pre_destroys_log:
  "constructions (bean_log (invoke_pre_destroys es w)) = constructions (bean_log w) \<and>
   destructions (bean_log (invoke_pre_destroys es w)) = destructions (bean_log w)"
proof -
  have "constructions (bean_log (fold (\<lambda>e w. snd (call_hooks (on_pre_destroy e) (le_instance e) w)) xs w)) = constructions (bean_log w) \<and>
      destructions (bean_log (fold (\<lambda>e w. snd (call_hooks (on_pre_destroy e) (le_instance e) w)) xs w)) = destructions (bean_log w)" for xs
  proof (induction xs arbitrary: w)
    case Nil
    then show ?case by simp
  next
    case (Cons e xs)
    obtain r w1 where h: "call_hooks (on_pre_destroy e) (le_instance e) w = (r, w1)" by (cases "call_hooks (on_pre_destroy e) (le_instance e) w")
    show ?case using Cons.IH [of w1] call_hooks_log [OF h] by (simp add: h)
  qed
  then show ?thesis by (simp add: invoke_pre_destroys_def)
qed

lemma destroy_owned_log:
  "constructions (bean_log (destroy_owned os w)) = constructions (bean_log w) \<and>
   destructions (bean_log (destroy_owned os w)) = destructions (bean_log w) @ rev (map fst (filter (\<lambda>(p, dtor). dtor \<and> p \<noteq> 0) os))"
proof -
  have "constructions (bean_log (fold (\<lambda>(p, dtor) w. if dtor \<and> p \<noteq> 0 then log_event (Destroyed p) w else w) xs w)) = constructions (bean_log w) \<and>
      destructions (bean_log (fold (\<lambda>(p, dtor) w. if dtor \<and> p \<noteq> 0 then log_event (Destroyed p) w else w) xs w)) =
        destructions (bean_log w) @ map fst (filter (\<lambda>(p, dtor). dtor \<and> p \<noteq> 0) xs)" for xs
    by (induction xs arbitrary: w) auto
  from this [of "rev os"] show ?thesis by (simp add: destroy_owned_def rev_map rev_filter)
qed

text \<open>
  C13: Building a container whose factories resolve only declared dependencies succeeds for every acyclic
  wiring. Every bean that is neither lazy nor a prototype then has an instance, each type is constructed at
  most once, and an object is constructed only after the objects its factory asked for. Shutting the
  container down destroys exactly the objects it constructed, once each, in the reverse order.
\<close>

theorem container_lifecycle:
  assumes named: "well_named (registrations c)" and acyclic: "\<not> cyclic (registrations c)"
    and ok: "\<forall>(t, reg)\<in>set (registrations c). bean_ok (registrations c) ready reg"
    and fresh: "instances c = Map.empty" "owned_instances c = []" "lifecycle c = []" "\<not> built c"
    and world: "bean_log w = []" "0 < next_address w"
    and ord: "reorders ord" and fuel: "length (registrations c) \<le> fuel"
  shows "\<exists>c1 w1. build fuel ready ord c w = Some (None, c1, w1) \<and>
    (\<forall>t. eager (registrations c) t \<longrightarrow> instances c1 t \<noteq> None) \<and>
    distinct (map fst (constructions (bean_log w1))) \<and>
    objects_in_order (registrations c) (instances c1) (constructions (bean_log w1)) \<and>
    destructions (bean_log (snd (di_shutdown c1 w1))) = rev (map snd (constructions (bean_log w1)))"
proof -
  let ?regs = "registrations c"
  obtain order where order: "build_topo_order ord ?regs = Some order" "distinct order" "set order = fst ` set ?regs" "deps_first ?regs order"
    using topo_order_result [OF named ord] acyclic by blast
  have "length order = length ?regs"
    using distinct_card [OF order(2)] order(3) named distinct_card [of "map fst ?regs"] by (simp add: well_named_def)
  then have len: "length order \<le> fuel" using fuel by simp
  let ?c0 = "c\<lparr>topo_order := order\<rparr>"
  have "di_inv ?regs ?c0 w" using fresh world by (simp add: di_inv_def objects_in_order_def)
  then obtain c1 w1 where b: "build_beans fuel ready order ?c0 w = Some (None, c1, w1)" "di_inv ?regs c1 w1"
      "present ?regs (set order) c1" "hooks_ok (lifecycle c1)"
    using build_beans_ok [OF named ok order(4,2) len, of 0 ?c0 w] fresh by (auto simp: present_def hooks_ok_def)
  obtain w2 where w2: "invoke_post_constructs (lifecycle c1) w1 = (None, w2)" "constructions (bean_log w2) = constructions (bean_log w1)"
      "destructions (bean_log w2) = destructions (bean_log w1)"
    using invoke_post_constructs_ok [OF b(4)] by blast
  let ?c = "c1\<lparr>built := True\<rparr>" and ?cs = "constructions (bean_log w1)"
  have inv: "destructions (bean_log w1) = []" "distinct (map fst ?cs)" "objects_in_order ?regs (instances c1) ?cs"
      "map fst (filter snd (owned_instances c1)) = map snd ?cs" "\<forall>(t, p)\<in>set ?cs. p \<noteq> 0"
    using b(2) by (auto simp: di_inv_def Let_def)
  have "filter (\<lambda>(p, dtor). dtor \<and> p \<noteq> 0) (owned_instances c1) = filter snd (owned_instances c1)"
  proof (rule filter_cong [OF refl])
    fix o' assume o': "o' \<in> set (owned_instances c1)"
    have "fst o' \<in> snd ` set ?cs" if "snd o'"
    proof -
      have "fst o' \<in> set (map fst (filter snd (owned_instances c1)))" using that o' by auto
      then show ?thesis by (simp add: inv(4))
    qed
    then show "(case o' of (p, dtor) \<Rightarrow> dtor \<and> p \<noteq> 0) = snd o'" using inv(5) by (cases o') fastforce
  qed
  then have "destructions (bean_log (snd (di_shutdown ?c w2))) = rev (map snd ?cs)"
    by (simp add: di_shutdown_def destroy_owned_log invoke_pre_destroys_log w2(3) inv(1,4))
  moreover have "build fuel ready ord c w = Some (None, ?c, w2)"
    using detect_cycles_none [OF named acyclic] fresh(4) order(1) b(1) w2(1) by (simp add: build_def)
  moreover have "\<forall>t. eager ?regs t \<longrightarrow> instances ?c t \<noteq> None"
  proof (intro allI impI)
    fix t assume t: "eager ?regs t"
    then have "t \<in> set order" using order(3) by (auto simp: eager_def dom_map_of_conv_image_fst [symmetric] split: option.splits)
    with t b(3) show "instances ?c t \<noteq> None" by (simp add: present_def)
  qed
  ultimately show ?thesis using inv(2,3) w2(2) by auto
qed

section \<open>Examples\<close>

definition plain_type :: "type_id \<Rightarrow> bean_type" where
  "plain_type t = \<lparr>bt_name = t, bt_initializable = None, bt_destroyable = None\<rparr>"

definition empty_world :: di_world where
  "empty_world = \<lparr>next_address = 1, bean_log = []\<rparr>"

definition four :: nat where
  "four = Suc (Suc (Suc (Suc 0)))"

definition demo_container :: container where
  "demo_container = bind_to (plain_type ''Repo'') ''SqlRepo'' (autowire (plain_type ''SqlRepo'') [''Pool''] Singleton
     (autowire (plain_type ''Service'') [''Repo'', ''Pool''] Singleton (autowire (plain_type ''Pool'') [] Singleton new_container)))"

definition demo_cycle :: container where
  "demo_cycle = autowire (plain_type ''A'') [''B''] Singleton (autowire (plain_type ''B'') [''A''] Singleton new_container)"

lemmas container_defs = bind_to_def autowire_def register_bean_def add_dependency_def update_registration_def plain_type_def
  the_hooks_def new_container_def Let_def

lemma kahn_loop_eqs:
  "kahn_loop out deg [] order = Some order"
  "kahn_loop out deg (t # queue) order =
     (case kahn_relax (out t) deg queue of (deg1, queue2) \<Rightarrow> kahn_loop out deg1 queue2 (order @ [t]))"
  by (simp_all add: kahn_loop.simps [of _ _ "[]"] kahn_loop.simps [of _ _ "t # queue"])

lemmas di_eval = demo_container_def empty_world_def build_def detect_cycles_def build_topo_order_def count_edges_def add_edge_def
  registered_deps_def kahn_loop_eqs instantiate_def run_factory_def produce_def await_def keep_eager_def keep_lazy_def
  lifecycle_register_def lifecycle_register_typed_def store_instance_def log_event_def di_shutdown_def destroy_owned_def
  invoke_pre_destroys_def destroy_container_def root_destroy_def scoped_resolve_def shard_initialize_def container_defs four_def

theorem detect_cycles_exact_witness:
  "well_named (registrations demo_cycle) \<and> cyclic (registrations demo_cycle) \<and>
   (\<exists>e. detect_cycles (registrations demo_cycle) = Some (Some e) \<and> reports_cycle (registrations demo_cycle) e)"
proof -
  have regs: "well_named (registrations demo_cycle)" by (simp add: demo_cycle_def container_defs well_named_def)
  have "depends (registrations demo_cycle) ''A'' ''B''" "depends (registrations demo_cycle) ''B'' ''A''"
    by (simp_all add: demo_cycle_def container_defs depends_def)
  then have "cyclic (registrations demo_cycle)" unfolding cyclic_def by (meson tranclp.r_into_trancl tranclp.trancl_into_trancl)
  with detect_cycles_exact [OF regs] regs show ?thesis by simp
qed

theorem container_lifecycle_witness:
  "\<exists>c1 w1. build 10 (\<lambda>_ _. True) (\<lambda>xs. xs) demo_container empty_world = Some (None, c1, w1) \<and>
    instances c1 ''Service'' \<noteq> None \<and> distinct (map fst (constructions (bean_log w1))) \<and>
    destructions (bean_log (snd (di_shutdown c1 w1))) = rev (map snd (constructions (bean_log w1)))"
proof -
  let ?regs = "registrations demo_container"
  have named: "well_named ?regs" by (simp add: demo_container_def container_defs well_named_def)
  have "detect_cycles ?regs = Some None" by (simp add: di_eval)
  then have acyclic: "\<not> cyclic ?regs" using detect_cycles_result [OF named] by (auto split: if_splits)
  have ok: "\<forall>(t, reg)\<in>set ?regs. bean_ok ?regs (\<lambda>_ _. True) reg"
    by (simp add: demo_container_def container_defs bean_ok_def)
  have eager: "eager ?regs ''Service''" by (simp add: demo_container_def container_defs eager_def)
  show ?thesis
    using container_lifecycle [OF named acyclic ok, of empty_world "\<lambda>xs. xs" 10] eager
    by (auto simp: demo_container_def container_defs empty_world_def reorders_def)
qed

section \<open>What the container does not promise\<close>

definition outcome_log :: "('a \<times> 'b \<times> di_world) option \<Rightarrow> bean_event list" where
  "outcome_log r = (case r of None \<Rightarrow> [] | Some (_, _, w) \<Rightarrow> bean_log w)"

definition built_root :: "container \<Rightarrow> container" where
  "built_root c = (case build four (\<lambda>_ _. True) (\<lambda>xs. xs) c empty_world of Some (_, c1, _) \<Rightarrow> c1 | None \<Rightarrow> c)"

definition built_world :: "container \<Rightarrow> di_world" where
  "built_world c = (case build four (\<lambda>_ _. True) (\<lambda>xs. xs) c empty_world of Some (_, _, w1) \<Rightarrow> w1 | None \<Rightarrow> empty_world)"

lemmas di_outcomes = di_eval outcome_log_def built_root_def built_world_def

text \<open>
  Request-scoped beans registered at the root are built eagerly, once for the application. A request bean
  that depends on another one gets that shared instance, while the request resolves its own: the two
  disagree about which object belongs to the request.
\<close>

definition closing_type :: bean_type where
  "closing_type = \<lparr>bt_name = ''Closing'', bt_initializable = None, bt_destroyable = Some (''close'', None)\<rparr>"

definition request_root :: container where
  "request_root = autowire (plain_type ''Handler'') [''RequestContext''] Request_scope
     (autowire (plain_type ''RequestContext'') [] Request_scope new_container)"

lemma di_request_bean_shared:
  "outcome_log (scoped_resolve four (\<lambda>_ _. True) Request_scope (plain_type ''RequestContext'')
      [new_container, new_container, built_root request_root] (built_world request_root)) =
     [Constructed ''RequestContext'' 1, Constructed ''Handler'' 2, Constructed ''RequestContext'' 3] \<and>
   resolve_dynamic ''RequestContext'' [new_container, new_container, built_root request_root] = Some 1"
  by (simp add: di_outcomes request_root_def closing_type_def)

text \<open>A bean that implements \<^verbatim>\<open>Destroyable\<close> in the request scope has its callback called twice.\<close>

lemma di_request_pre_destroy_twice:
  "(case scoped_resolve four (\<lambda>_ _. True) Request_scope closing_type
      [register_bean closing_type (Factory [] New_object) Request_scope [] False False 0 new_container] empty_world of
      Some (_, c # _, w) \<Rightarrow> bean_log (destroy_container c w)) =
   [Constructed ''Closing'' 1, Hook ''close'' 1, Hook ''close'' 1, Destroyed 1]"
  by (simp add: di_outcomes request_root_def closing_type_def)

text \<open>A lazy bean is not registered for lifecycle callbacks: it is destroyed without its pre-destroy callback.\<close>

lemma di_lazy_pre_destroy_skipped:
  "(case resolve four (\<lambda>_ _. True) ''Closing''
      [(register_bean closing_type (Factory [] New_object) Singleton [] False True 0 new_container)\<lparr>built := True\<rparr>] empty_world of
      Some (_, c # _, w) \<Rightarrow> bean_log (snd (di_shutdown c w))) =
   [Constructed ''Closing'' 1, Destroyed 1]"
  by (simp add: di_outcomes request_root_def closing_type_def)

text \<open>
  Shutting down keeps the lifecycle entries. Building again is allowed, and calls the post-construct
  callback of an object that has been deleted.
\<close>

definition starting_container :: container where
  "starting_container = register_bean \<lparr>bt_name = ''T'', bt_initializable = Some (''start'', None), bt_destroyable = None\<rparr>
     (Factory [] New_object) Singleton [] False False 0 new_container"

lemma starting_container_built:
  "build four (\<lambda>_ _. True) (\<lambda>xs. xs) starting_container empty_world = Some (None,
     starting_container\<lparr>instances := [''T'' \<mapsto> 1], owned_instances := [(1, True)], built := True, topo_order := [''T''],
       lifecycle := [\<lparr>le_instance = 1, on_post_construct = [(''start'', None)], on_pre_destroy = []\<rparr>]\<rparr>,
     \<lparr>next_address = Suc 1, bean_log = [Constructed ''T'' 1, Hook ''start'' 1]\<rparr>)"
  by (simp add: di_eval starting_container_def)

lemma di_rebuild_uses_destroyed:
  "(case build four (\<lambda>_ _. True) (\<lambda>xs. xs) starting_container empty_world of
      Some (_, c1, w1) \<Rightarrow>
        (case di_shutdown c1 w1 of (c2, w2) \<Rightarrow> outcome_log (build four (\<lambda>_ _. True) (\<lambda>xs. xs) c2 w2))) =
   [Constructed ''T'' 1, Hook ''start'' 1, Destroyed 1, Constructed ''T'' 2, Hook ''start'' 1, Hook ''start'' 2]"
  unfolding starting_container_built by (simp add: di_outcomes starting_container_def)

text \<open>When a factory throws during the build, the objects already made are never destroyed.\<close>

lemma di_failed_build_leaks:
  "(let c = add_dependency ''B'' ''A'' (register_bean (plain_type ''B'') (Factory [] (Throws (Runtime_error ''x''))) Singleton [] False False 0
         (register_bean (plain_type ''A'') (Factory [] New_object) Singleton [] False False 0 new_container))
    in case build four (\<lambda>_ _. True) (\<lambda>xs. xs) c empty_world of
         Some (e, c1, w1) \<Rightarrow> (e, bean_log (root_destroy c1 w1))) =
   (Some (Runtime_error ''x''), [Constructed ''A'' 1])"
  by (simp add: di_outcomes request_root_def closing_type_def)

text \<open>The beans of a shard are made in the iteration order of an unordered map, not in dependency order.\<close>

lemma di_shard_order_matters:
  "(case shard_initialize four (\<lambda>_ _. True)
      [register_bean (plain_type ''B'') (Factory [] New_object) Singleton [] False False 0
        (register_bean (plain_type ''A'') (Factory [''B''] New_object) Singleton [] False False 0 new_container), new_container] empty_world of
      Some (e, _, _) \<Rightarrow> e) = Some (bean_not_found ''B'')"
  by (simp add: di_outcomes request_root_def closing_type_def)


end
