(* ===== verification/Forwarded_Headers.thy ===== *)
theory Forwarded_Headers
  imports Request_Pipeline Http_Filters "HOL-Library.Word"
begin

text \<open>
  \<^verbatim>\<open>src/middleware/trusted_forwarded_headers_middleware.cpp\<close>: RFC 7239 values are applied to the
  request only when the direct peer is in a trusted network. \<^verbatim>\<open>inet_pton\<close> is a parameter: a
  function from the family and the text to the address bytes.
\<close>

section \<open>Model\<close>

datatype family = AF_INET | AF_INET6

type_synonym inet_pton = "family \<Rightarrow> string \<Rightarrow> 8 word list option"

definition fwd_trim :: "string \<Rightarrow> string" where
  "fwd_trim v = trim_by isspace v"

definition safe_value :: "string \<Rightarrow> bool" where
  "safe_value v \<longleftrightarrow> v \<noteq> [] \<and>
     list_all (\<lambda>c. \<not> (byte_of c < 0x21 \<or> byte_of c = 0x7f \<or> c = CHR '','' \<or> c = CHR '';'')) v"

definition equals_ignore_case :: "string \<Rightarrow> string \<Rightarrow> bool" where
  "equals_ignore_case l r \<longleftrightarrow> length l = length r \<and> list_all (\<lambda>(a, b). tolower a = tolower b) (zip l r)"

definition unquote :: "string \<Rightarrow> string" where
  "unquote v0 =
     (let v = fwd_trim v0
      in if length v \<ge> 2 \<and> hd v = CHR 0x22 \<and> last v = CHR 0x22 then butlast (tl v) else v)"

definition parse_ip :: "inet_pton \<Rightarrow> string \<Rightarrow> (family \<times> 8 word list) option" where
  "parse_ip pton v =
     (let text = takeWhile (\<lambda>c. byte_of c \<noteq> 0) v
      in case pton AF_INET text of
           Some bytes \<Rightarrow> Some (AF_INET, bytes)
         | None \<Rightarrow> (case pton AF_INET6 text of
             Some bytes \<Rightarrow> Some (AF_INET6, bytes)
           | None \<Rightarrow> None))"

text \<open>The decimal loop accumulates in an \<^verbatim>\<open>int\<close>; going past \<^verbatim>\<open>INT_MAX\<close> is undefined behaviour.\<close>

fun prefix_loop :: "int \<Rightarrow> string \<Rightarrow> int option result" where
  "prefix_loop acc [] = Inr (Some acc)"
| "prefix_loop acc (c # cs) =
     (if \<not> isdigit c then Inr None
      else let p = acc * 10 + int (digit_val c)
           in if p > 2147483647 then Inl (Undefined_behaviour ''signed overflow'') else prefix_loop p cs)"

definition prefix_equal :: "int \<Rightarrow> 8 word list \<Rightarrow> 8 word list \<Rightarrow> bool" where
  "prefix_equal prefix network candidate =
     (let full_bytes = nat (prefix div 8); trailing_bits = nat (prefix mod 8)
      in if take full_bytes network \<noteq> take full_bytes candidate then False
         else if trailing_bits = 0 then True
         else let mask = push_bit (8 - trailing_bits) (0xff :: 8 word)
              in and (network ! full_bytes) mask = and (candidate ! full_bytes) mask)"

definition cidr_contains :: "inet_pton \<Rightarrow> string \<Rightarrow> string \<Rightarrow> bool result" where
  "cidr_contains pton cidr peer =
     (case find_ch CHR ''/'' cidr of
        None \<Rightarrow> Inr False
      | Some slash \<Rightarrow>
          (case prefix_loop 0 (drop (slash + 1) cidr) of
             Inl e \<Rightarrow> Inl e
           | Inr None \<Rightarrow> Inr False
           | Inr (Some prefix) \<Rightarrow>
               (case (parse_ip pton (take slash cidr), parse_ip pton peer) of
                  (Some (nf, network), Some (cf, candidate)) \<Rightarrow>
                    if nf \<noteq> cf then Inr False
                    else if prefix < 0 \<or> prefix > (if nf = AF_INET then 32 else 128) then Inr False
                    else Inr (prefix_equal prefix network candidate)
                | _ \<Rightarrow> Inr False)))"

definition rfind_ch :: "char \<Rightarrow> string \<Rightarrow> nat option" where
  "rfind_ch c s = map_option (\<lambda>k. length s - 1 - k) (find_ch c (rev s))"

definition forwarded_client_ip :: "inet_pton \<Rightarrow> string \<Rightarrow> string option" where
  "forwarded_client_ip pton v0 =
     (let v = unquote v0;
          candidate =
            (if starts_with v ''['' then
               (case find_ch CHR '']'' v of None \<Rightarrow> None | Some closing \<Rightarrow> Some (take (closing - 1) (drop 1 v)))
             else if find_ch CHR '':'' v \<noteq> rfind_ch CHR '':'' v then Some v
             else (case find_ch CHR '':'' v of Some colon \<Rightarrow> Some (take colon v) | None \<Rightarrow> Some v))
      in case candidate of
           None \<Rightarrow> None
         | Some a \<Rightarrow> (case parse_ip pton a of Some _ \<Rightarrow> Some a | None \<Rightarrow> None))"

record Forwarded_Config =
  trust_all_direct_peers :: bool
  trusted_peer_cidrs :: "string list"
  apply_proto :: bool
  apply_host :: bool

definition TrustedForwardedHeaders_new :: "Forwarded_Config \<Rightarrow> Forwarded_Config result" where
  "TrustedForwardedHeaders_new cfg =
     (if \<not> trust_all_direct_peers cfg \<and> trusted_peer_cidrs cfg = []
      then Inl (Invalid_argument ''TrustedForwardedHeadersMiddleware requires trusted peer CIDRs or explicit trust_all_direct_peers'')
      else Inr cfg)"

fun any_cidr :: "inet_pton \<Rightarrow> string list \<Rightarrow> string \<Rightarrow> bool result" where
  "any_cidr pton [] peer = Inr False"
| "any_cidr pton (c # cs) peer =
     (case cidr_contains pton c peer of
        Inl e \<Rightarrow> Inl e
      | Inr True \<Rightarrow> Inr True
      | Inr False \<Rightarrow> any_cidr pton cs peer)"

definition peer_is_trusted :: "inet_pton \<Rightarrow> Forwarded_Config \<Rightarrow> string \<Rightarrow> bool result" where
  "peer_is_trusted pton cfg peer =
     (if trust_all_direct_peers cfg then Inr True else any_cidr pton (trusted_peer_cidrs cfg) peer)"

definition apply_part :: "inet_pton \<Rightarrow> Forwarded_Config \<Rightarrow> string \<Rightarrow> request \<Rightarrow> request" where
  "apply_part pton cfg part req =
     (case find_ch CHR ''='' part of
        None \<Rightarrow> req
      | Some equals \<Rightarrow>
          let name = fwd_trim (take equals part);
              value = unquote (drop (equals + 1) part)
          in if \<not> safe_value value then req
             else
               let r1 = (if apply_proto cfg \<and> equals_ignore_case name ''proto'' \<and>
                            (value = ''https'' \<or> value = ''http'')
                         then req\<lparr>req_scheme := value\<rparr> else req);
                   r2 = (if apply_host cfg \<and> equals_ignore_case name ''host''
                         then r1\<lparr>req_authority := value\<rparr> else r1)
               in if equals_ignore_case name ''for'' then
                    (case forwarded_client_ip pton value of
                       Some ip \<Rightarrow> r2\<lparr>req_client_address := ip\<rparr>
                     | None \<Rightarrow> r2)
                  else r2)"

function apply_loop :: "inet_pton \<Rightarrow> Forwarded_Config \<Rightarrow> string \<Rightarrow> request \<Rightarrow> request" where
  "apply_loop pton cfg remaining req =
     (if remaining = [] then req
      else
        let separator = find_ch CHR '';'' remaining;
            req' = apply_part pton cfg (fwd_trim (substr_upto separator remaining)) req
        in case separator of
             None \<Rightarrow> req'
           | Some k \<Rightarrow> apply_loop pton cfg (drop (k + 1) remaining) req')"
  by pat_completeness auto
termination
  by (relation "measure (\<lambda>(p, c, s, r). length s)") (auto dest: find_ch_SomeD(1))

declare apply_loop.simps [simp del]

definition forwarded_request :: "inet_pton \<Rightarrow> Forwarded_Config \<Rightarrow> request \<Rightarrow> request" where
  "forwarded_request pton cfg req =
     (case request_header req ''forwarded'' of
        None \<Rightarrow> req
      | Some header \<Rightarrow> apply_loop pton cfg (substr_upto (find_ch CHR '','' header) header) req)"

definition TrustedForwardedHeaders_decide ::
    "inet_pton \<Rightarrow> Forwarded_Config \<Rightarrow> 'z exchange_scheme \<Rightarrow> 'z exchange_scheme + (exn option \<times> 'z exchange_scheme)" where
  "TrustedForwardedHeaders_decide pton cfg s =
     (case peer_is_trusted pton cfg (req_peer_address (ex_req s)) of
        Inl e \<Rightarrow> Inr (Some e, s)
      | Inr False \<Rightarrow> Inl s
      | Inr True \<Rightarrow> Inl (s\<lparr>ex_req := forwarded_request pton cfg (ex_req s)\<rparr>))"

definition TrustedForwardedHeaders_handle :: "inet_pton \<Rightarrow> Forwarded_Config \<Rightarrow> 'z exchange_scheme middleware" where
  "TrustedForwardedHeaders_handle pton cfg next s =
     (case peer_is_trusted pton cfg (req_peer_address (ex_req s)) of
        Inl e \<Rightarrow> (Some e, s)
      | Inr False \<Rightarrow> next s
      | Inr True \<Rightarrow> next (s\<lparr>ex_req := forwarded_request pton cfg (ex_req s)\<rparr>))"

interpretation forwarded: request_gate "TrustedForwardedHeaders_handle pton cfg" "TrustedForwardedHeaders_decide pton cfg"
  for pton cfg
  by unfold_locales
     (auto simp: TrustedForwardedHeaders_handle_def TrustedForwardedHeaders_decide_def split: sum.split bool.split)

section \<open>Networks as bit prefixes\<close>

text \<open>The address as its bits, most significant first; a network is the set of addresses that share a prefix of them.\<close>

definition byte_bits :: "8 word \<Rightarrow> bool list" where
  "byte_bits b = map (bit b) [7, 6, 5, 4, 3, 2, 1, 0]"

definition addr_bits :: "8 word list \<Rightarrow> bool list" where
  "addr_bits bs = concat (map byte_bits bs)"

lemma length_byte_bits [simp]: "length (byte_bits b) = 8"
  by (simp add: byte_bits_def)

lemma addr_bits_simps [simp]: "addr_bits [] = []" "addr_bits (b # bs) = byte_bits b @ addr_bits bs"
  by (simp_all add: addr_bits_def)

lemma word8_eq_iff: "(a :: 8 word) = b \<longleftrightarrow> (\<forall>i\<in>{0, 1, 2, 3, 4, 5, 6, 7}. bit a i = bit b i)"
proof
  assume h: "\<forall>i\<in>{0, 1, 2, 3, 4, 5, 6, 7}. bit a i = bit b i"
  show "a = b"
  proof (rule bit_word_eqI)
    fix n assume "n < LENGTH(8)"
    then have "n \<in> {0, 1, 2, 3, 4, 5, 6, 7}" by auto
    with h show "bit a n \<longleftrightarrow> bit b n" by blast
  qed
qed simp

lemma byte_bits_inject: "byte_bits a = byte_bits b \<longleftrightarrow> a = b"
  by (auto simp: byte_bits_def word8_eq_iff)

lemma masked_eq_iff:
  assumes "0 < k" "k < 8"
  shows "and a (push_bit (8 - k) (0xff :: 8 word)) = and b (push_bit (8 - k) 0xff) \<longleftrightarrow>
     take k (byte_bits a) = take k (byte_bits b)"
proof -
  have m: "bit (push_bit (8 - k) (0xff :: 8 word)) i \<longleftrightarrow> 8 - k \<le> i" if "i < 8" for i
  proof -
    have ff: "(0xff :: 8 word) = mask 8" by (simp add: mask_eq_exp_minus_1)
    show ?thesis unfolding ff using that by (auto simp: bit_push_bit_iff bit_mask_iff)
  qed
  have masked: "and a (push_bit (8 - k) (0xff :: 8 word)) = and b (push_bit (8 - k) 0xff) \<longleftrightarrow>
      (\<forall>i\<in>{0, 1, 2, 3, 4, 5, 6, 7}. 8 - k \<le> i \<longrightarrow> bit a i = bit b i)"
    unfolding word8_eq_iff bit_and_iff by (rule ball_cong) (auto simp: m)
  have "k \<in> {1, 2, 3, 4, 5, 6, 7}" using assms by auto
  then show ?thesis
    unfolding masked by (elim insertE emptyE) (simp_all add: byte_bits_def, argo+)
qed

lemma prefix_equal_Cons:
  assumes "8 \<le> k"
  shows "prefix_equal (int k) (a # n) (b # c) \<longleftrightarrow> a = b \<and> prefix_equal (int (k - 8)) n c"
proof -
  obtain j where k: "k = j + 8" using assms by (metis le_iff_add add.commute)
  have "nat (int k div 8) = Suc (nat (int j div 8))" "nat (int k mod 8) = nat (int j mod 8)"
    by (simp_all add: k)
  then show ?thesis by (auto simp: prefix_equal_def Let_def k)
qed

lemma prefix_equal_small:
  assumes "k < 8"
  shows "prefix_equal (int k) (a # n) (b # c) \<longleftrightarrow> take k (byte_bits a) = take k (byte_bits b)"
  using assms masked_eq_iff [of k a b] by (cases "k = 0") (auto simp: prefix_equal_def Let_def)

lemma prefix_equal_bits:
  "length n = length c \<Longrightarrow> k \<le> 8 * length n \<Longrightarrow>
   prefix_equal (int k) n c \<longleftrightarrow> take k (addr_bits n) = take k (addr_bits c)"
proof (induction n c arbitrary: k rule: list_induct2)
  case Nil
  then show ?case by (simp add: prefix_equal_def)
next
  case (Cons a n b c)
  show ?case
  proof (cases "8 \<le> k")
    case True
    with Cons.IH [of "k - 8"] Cons.prems show ?thesis by (simp add: prefix_equal_Cons byte_bits_inject)
  next
    case False
    then show ?thesis by (simp add: prefix_equal_small)
  qed
qed

text \<open>What the middleware relies on of \<^verbatim>\<open>inet_pton\<close>: an IPv4 address has four bytes and an IPv6 address sixteen.\<close>

definition pton_sizes :: "inet_pton \<Rightarrow> bool" where
  "pton_sizes pton \<longleftrightarrow> (\<forall>t bs. (pton AF_INET t = Some bs \<longrightarrow> length bs = 4) \<and> (pton AF_INET6 t = Some bs \<longrightarrow> length bs = 16))"

definition family_bits :: "family \<Rightarrow> nat" where
  "family_bits f = (case f of AF_INET \<Rightarrow> 32 | AF_INET6 \<Rightarrow> 128)"

lemma parse_ip_length: "pton_sizes pton \<Longrightarrow> parse_ip pton v = Some (f, bs) \<Longrightarrow> 8 * length bs = family_bits f"
  by (auto simp: parse_ip_def pton_sizes_def family_bits_def Let_def split: option.splits)

lemma prefix_loop_digits:
  "list_all isdigit cs \<Longrightarrow> int (foldl (\<lambda>v c. v * 10 + digit_val c) acc cs) \<le> 2147483647 \<Longrightarrow>
   prefix_loop (int acc) cs = Inr (Some (int (foldl (\<lambda>v c. v * 10 + digit_val c) acc cs)))"
proof (induction cs arbitrary: acc)
  case (Cons c cs)
  have le: "v \<le> foldl (\<lambda>v c. v * 10 + digit_val c) v cs" for v
  proof (induction cs arbitrary: v)
    case (Cons d ds)
    from Cons [of "v * 10 + digit_val d"] show ?case by simp
  qed simp
  from le [of "acc * 10 + digit_val c"] Cons.prems(2) have "\<not> int acc * 10 + int (digit_val c) > 2147483647"
    by simp
  moreover have "prefix_loop (int (acc * 10 + digit_val c)) cs =
      Inr (Some (int (foldl (\<lambda>v c. v * 10 + digit_val c) (acc * 10 + digit_val c) cs)))"
    using Cons.IH [of "acc * 10 + digit_val c"] Cons.prems by simp
  ultimately show ?case using Cons.prems(1) by (simp add: Let_def)
qed simp

lemma prefix_loop_to_string: "n \<le> 128 \<Longrightarrow> prefix_loop 0 (to_string_nat n) = Inr (Some (int n))"
  using prefix_loop_digits [of "to_string_nat n" 0] dec_value_to_string [of n] to_string_nat_digits [of n]
  by (simp add: dec_value_def list_all_iff)

definition net_contains :: "inet_pton \<Rightarrow> string \<times> nat \<Rightarrow> string \<Rightarrow> bool" where
  "net_contains pton net peer \<longleftrightarrow>
     (\<exists>f n c. parse_ip pton (fst net) = Some (f, n) \<and> parse_ip pton peer = Some (f, c) \<and>
        snd net \<le> family_bits f \<and> take (snd net) (addr_bits n) = take (snd net) (addr_bits c))"

definition cidr_text :: "string \<times> nat \<Rightarrow> string" where
  "cidr_text net = fst net @ CHR ''/'' # to_string_nat (snd net)"

lemma cidr_contains_iff:
  assumes "pton_sizes pton" and "CHR ''/'' \<notin> set (fst net)" and "snd net \<le> 128"
  shows "cidr_contains pton (cidr_text net) peer = Inr (net_contains pton net peer)"
proof -
  have f: "find_ch CHR ''/'' (cidr_text net) = Some (length (fst net))"
    using assms(2) by (simp add: cidr_text_def find_ch_append)
  have parts: "take (length (fst net)) (cidr_text net) = fst net"
    "drop (length (fst net) + 1) (cidr_text net) = to_string_nat (snd net)" by (simp_all add: cidr_text_def)
  have bits: "prefix_equal (int (snd net)) n c \<longleftrightarrow> take (snd net) (addr_bits n) = take (snd net) (addr_bits c)"
    if "parse_ip pton (fst net) = Some (g, n)" "parse_ip pton peer = Some (g, c)" "snd net \<le> family_bits g" for g n c
    using parse_ip_length [OF assms(1) that(1)] parse_ip_length [OF assms(1) that(2)] that(3)
    by (intro prefix_equal_bits) simp_all
  have fam: "(if g = AF_INET then 32 else 128) = int (family_bits g)" for g
    by (cases g) (simp_all add: family_bits_def)
  show ?thesis
    unfolding cidr_contains_def f option.case parts prefix_loop_to_string [OF assms(3)] sum.case fam
    using bits by (auto simp: net_contains_def split: option.split)
qed

lemma any_cidr_iff:
  assumes "pton_sizes pton"
  shows "\<forall>net\<in>set nets. CHR ''/'' \<notin> set (fst net) \<and> snd net \<le> 128 \<Longrightarrow>
    any_cidr pton (map cidr_text nets) peer = Inr (\<exists>net\<in>set nets. net_contains pton net peer)"
  by (induction nets) (auto simp: cidr_contains_iff [OF assms] split: bool.split)

section \<open>What a trusted peer can change\<close>

definition forwarded_change :: "inet_pton \<Rightarrow> request \<Rightarrow> request \<Rightarrow> bool" where
  "forwarded_change pton req req' \<longleftrightarrow>
     req'\<lparr>req_scheme := req_scheme req, req_authority := req_authority req,
          req_client_address := req_client_address req\<rparr> = req \<and>
     req_scheme req' \<in> {req_scheme req, ''http'', ''https''} \<and>
     (req_authority req' = req_authority req \<or> safe_value (req_authority req')) \<and>
     (req_client_address req' = req_client_address req \<or> parse_ip pton (req_client_address req') \<noteq> None)"

lemma forwarded_change_refl: "forwarded_change pton req req"
  by (simp add: forwarded_change_def)

lemma forwarded_client_ip_parses: "forwarded_client_ip pton v = Some a \<Longrightarrow> parse_ip pton a \<noteq> None"
  by (auto simp: forwarded_client_ip_def Let_def split: option.splits if_splits)

lemma forwarded_change_set:
  "forwarded_change pton req r \<Longrightarrow> v = ''https'' \<or> v = ''http'' \<Longrightarrow> forwarded_change pton req (r\<lparr>req_scheme := v\<rparr>)"
  "forwarded_change pton req r \<Longrightarrow> safe_value v \<Longrightarrow> forwarded_change pton req (r\<lparr>req_authority := v\<rparr>)"
  "forwarded_change pton req r \<Longrightarrow> parse_ip pton v \<noteq> None \<Longrightarrow> forwarded_change pton req (r\<lparr>req_client_address := v\<rparr>)"
  by (auto simp: forwarded_change_def)

lemma apply_part_change:
  "forwarded_change pton req r \<Longrightarrow> forwarded_change pton req (apply_part pton cfg part r)"
  by (auto simp: apply_part_def Let_def intro!: forwarded_change_set dest: forwarded_client_ip_parses split: option.split)

lemma apply_loop_change:
  "forwarded_change pton req r \<Longrightarrow> forwarded_change pton req (apply_loop pton cfg remaining r)"
proof (induction pton cfg remaining r rule: apply_loop.induct)
  case (1 pton cfg remaining r)
  have part: "forwarded_change pton req
      (apply_part pton cfg (fwd_trim (substr_upto (find_ch CHR '';'' remaining) remaining)) r)"
    using "1.prems" by (rule apply_part_change)
  show ?case
  proof (cases "remaining = []")
    case False
    with part 1 show ?thesis by (subst apply_loop.simps) (auto simp: Let_def split: option.split)
  qed (use "1.prems" in \<open>simp add: apply_loop.simps\<close>)
qed

section \<open>Properties\<close>

text \<open>
  a CIDR entry is a prefix of address bits. For a list of networks written as address, slash and
  decimal prefix length, the forwarded header is applied exactly when some network has the peer's
  family and agrees with the peer's address in its first prefix-length bits; for every other peer the
  chain runs on the untouched request.
\<close>

theorem forwarded_applied_iff_peer_in_network:
  assumes "pton_sizes pton" and "\<not> trust_all_direct_peers cfg"
    and "trusted_peer_cidrs cfg = map cidr_text nets"
    and "\<forall>net\<in>set nets. CHR ''/'' \<notin> set (fst net) \<and> snd net \<le> 128"
  shows "build_chain (TrustedForwardedHeaders_handle pton cfg # mws) h s =
    build_chain mws h
      (if \<exists>net\<in>set nets. net_contains pton net (req_peer_address (ex_req s))
       then s\<lparr>ex_req := forwarded_request pton cfg (ex_req s)\<rparr> else s)"
proof -
  have "peer_is_trusted pton cfg (req_peer_address (ex_req s)) =
      Inr (\<exists>net\<in>set nets. net_contains pton net (req_peer_address (ex_req s)))"
    using assms any_cidr_iff [OF assms(1,4)] by (simp add: peer_is_trusted_def)
  then show ?thesis
    by (intro forwarded.admitted_runs_rest) (simp add: TrustedForwardedHeaders_decide_def)
qed

definition pton_sample :: inet_pton where
  "pton_sample f t = (case f of AF_INET \<Rightarrow>
       (if t = ''10.0.0.0'' then Some [10, 0, 0, 0] else if t = ''10.1.2.3'' then Some [10, 1, 2, 3]
        else if t = ''192.0.2.9'' then Some [192, 0, 2, 9] else None) | AF_INET6 \<Rightarrow> None)"

lemma pton_sample_sizes: "pton_sizes pton_sample"
  by (simp add: pton_sizes_def pton_sample_def)

definition fwd_sample :: Forwarded_Config where
  "fwd_sample = \<lparr>trust_all_direct_peers = False, trusted_peer_cidrs = map cidr_text [(''10.0.0.0'', 8)],
     apply_proto = True, apply_host = True\<rparr>"

definition fwd_exchange :: "string \<Rightarrow> exchange" where
  "fwd_exchange peer = (get_exchange ''/'')\<lparr>ex_req := empty_request\<lparr>req_peer_address := peer,
     req_headers := [\<lparr>hname = ''forwarded'', hvalue = ''for=192.0.2.9;proto=https''\<rparr>]\<rparr>\<rparr>"

theorem forwarded_applied_iff_peer_in_network_witness:
  "build_chain [TrustedForwardedHeaders_handle pton_sample fwd_sample] (\<lambda>s. (None, s)) (fwd_exchange ''192.0.2.9'') =
   (None, fwd_exchange ''192.0.2.9'')"
proof -
  have p: "parse_ip pton_sample ''10.0.0.0'' = Some (AF_INET, [10, 0, 0, 0])"
    "parse_ip pton_sample ''192.0.2.9'' = Some (AF_INET, [192, 0, 2, 9])"
    by (simp_all add: parse_ip_def pton_sample_def)
  have "take 8 (addr_bits [10, 0, 0, 0]) \<noteq> take 8 (addr_bits [192, 0, 2, 9])" by code_simp
  then have "\<not> (\<exists>net\<in>set [(''10.0.0.0'', 8)]. net_contains pton_sample net (req_peer_address (ex_req (fwd_exchange ''192.0.2.9''))))"
    by (simp add: net_contains_def p fwd_exchange_def)
  with forwarded_applied_iff_peer_in_network [OF pton_sample_sizes, of fwd_sample "[(''10.0.0.0'', 8)]" "[]" "\<lambda>s. (None, s)"
      "fwd_exchange ''192.0.2.9''"]
  show ?thesis by (simp add: fwd_sample_def)
qed

text \<open>
  even a trusted peer controls little: applying the header changes at most the scheme (to http
  or https), the authority (to a value without blanks, control characters, commas and semicolons)
  and the client address (to something that parses as an IP address).
\<close>

theorem forwarded_request_change: "forwarded_change pton req (forwarded_request pton cfg req)"
  by (simp add: forwarded_request_def apply_loop_change forwarded_change_refl split: option.split)

text \<open>
  an entry whose prefix length is missing is not rejected: the loop over an empty text leaves
  the length at 0, so the entry trusts every peer of the address family.
\<close>

theorem cidr_without_prefix_trusts_family:
  assumes "CHR ''/'' \<notin> set ip" and "parse_ip pton ip = Some (f, n)" and "parse_ip pton peer = Some (f, c)"
  shows "cidr_contains pton (ip @ ''/'') peer = Inr True"
  using assms by (simp add: cidr_contains_def find_ch_append prefix_equal_def)

theorem cidr_without_prefix_trusts_family_witness:
  "cidr_contains pton_sample ''10.0.0.0/'' ''192.0.2.9'' = Inr True"
  using cidr_without_prefix_trusts_family [of "''10.0.0.0''" pton_sample AF_INET "[10, 0, 0, 0]" "''192.0.2.9''" "[192, 0, 2, 9]"]
  by (simp add: parse_ip_def pton_sample_def)

end
