(* ===== verification/Http_Multipart.thy ===== *)
theory Http_Multipart
  imports Http_Message
begin

text \<open>
  Multipart forms (\<^verbatim>\<open>src/http/multipart.cpp\<close>): the boundary of the content type, the parts with their headers,
  the limits, and the form they make. Writing a large file to a temporary file is the parameter \<open>spill\<close>. An
  offset into the body is the rest of the body from there.
\<close>

section \<open>Texts\<close>

fun find_str :: "string \<Rightarrow> string \<Rightarrow> nat option" where
  "find_str p [] = (if p = [] then Some 0 else None)"
| "find_str p (c # s) = (if starts_with (c # s) p then Some 0 else map_option Suc (find_str p s))"

definition mp_trim :: "string \<Rightarrow> string" where
  "mp_trim v = trim_by (\<lambda>c. c = CHR '' '' \<or> c = CHR 0x09) v"

definition safe_token :: "string \<Rightarrow> bool" where
  "safe_token v \<longleftrightarrow> v \<noteq> [] \<and>
     \<not> (\<exists>c\<in>set v. byte_of c < 0x21 \<or> byte_of c = 0x7f \<or> c = CHR 0x22 \<or> c = CHR 0x5C)"

definition unquoted :: "string \<Rightarrow> string" where
  "unquoted v = (if length v \<ge> 2 \<and> hd v = CHR 0x22 \<and> last v = CHR 0x22 then butlast (tl v) else v)"

function mp_parameter :: "string \<Rightarrow> string \<Rightarrow> string option" where
  "mp_parameter v wanted =
     (if v = [] then None
      else
        let separator = find_ch CHR '';'' v;
            part = mp_trim (substr_upto separator v);
            continue = (case separator of None \<Rightarrow> None | Some n \<Rightarrow> mp_parameter (drop (Suc n) v) wanted)
        in case find_ch CHR ''='' part of
             None \<Rightarrow> continue
           | Some equals \<Rightarrow>
               (if mp_trim (take equals part) = wanted
                then let r = unquoted (mp_trim (drop (Suc equals) part))
                     in if CR \<notin> set r \<and> LF \<notin> set r then Some r else None
                else continue))"
  by pat_completeness auto
termination
  by (relation "measure (\<lambda>(v, wanted). length v)") (auto dest: find_ch_SomeD(1))

declare mp_parameter.simps [simp del]

definition boundary_from :: "string \<Rightarrow> string option" where
  "boundary_from content_type =
     (let semicolon = find_ch CHR '';'' content_type
      in if mp_trim (substr_upto semicolon content_type) \<noteq> ''multipart/form-data'' then None
         else
           case mp_parameter (case semicolon of None \<Rightarrow> [] | Some n \<Rightarrow> drop (Suc n) content_type) ''boundary'' of
             None \<Rightarrow> None
           | Some boundary \<Rightarrow> if length boundary > 70 \<or> \<not> safe_token boundary then None else Some boundary)"

definition valid_header_value :: "string \<Rightarrow> bool" where
  "valid_header_value v \<longleftrightarrow> \<not> (\<exists>c\<in>set v. c = CR \<or> c = LF \<or> c = CHR 0x00)"

section \<open>Forms\<close>

record MultipartLimits =
  max_total_bytes :: nat
  max_parts :: nat
  max_header_bytes :: nat
  max_field_bytes :: nat
  max_in_memory_file_bytes :: nat

record UploadedFile =
  uf_field_name :: string
  uf_filename :: string
  uf_content_type :: string
  uf_size :: nat
  uf_data :: string
  uf_temporary_file :: "string option"

record MultipartForm =
  mf_fields :: "string \<rightharpoonup> string list"
  mf_files :: "UploadedFile list"

definition temporary_path :: "UploadedFile \<Rightarrow> string" where
  "temporary_path f = (case uf_temporary_file f of None \<Rightarrow> [] | Some p \<Rightarrow> p)"

definition form_fields :: "MultipartForm \<Rightarrow> string \<Rightarrow> string list option" where
  "form_fields f name = mf_fields f name"

definition form_field :: "MultipartForm \<Rightarrow> string \<Rightarrow> string option" where
  "form_field f name = (case form_fields f name of None \<Rightarrow> None | Some [] \<Rightarrow> None | Some (v # _) \<Rightarrow> Some v)"

definition form_files :: "MultipartForm \<Rightarrow> string \<Rightarrow> UploadedFile list" where
  "form_files f field_name = filter (\<lambda>file. uf_field_name file = field_name) (mf_files f)"

definition add_field :: "string \<Rightarrow> string \<Rightarrow> MultipartForm \<Rightarrow> MultipartForm" where
  "add_field name content f =
     f\<lparr>mf_fields := (mf_fields f)(name \<mapsto> (case mf_fields f name of None \<Rightarrow> [] | Some vs \<Rightarrow> vs) @ [content])\<rparr>"

section \<open>Parsing\<close>

function part_headers :: "string \<Rightarrow> string option \<Rightarrow> string \<Rightarrow> string + (string option \<times> string)" where
  "part_headers headers disposition content_type =
     (if headers = [] then Inr (disposition, content_type)
      else
        let line_end = find_str CRLF headers;
            line = substr_upto line_end headers
        in case find_ch CHR '':'' line of
             None \<Rightarrow> Inl ''Malformed multipart part header''
           | Some colon \<Rightarrow>
               (if \<not> valid_header_value line then Inl ''Malformed multipart part header''
                else
                  let name = mp_trim (take colon line);
                      v = mp_trim (drop (Suc colon) line);
                      disposition' = (if name = ''Content-Disposition'' then Some v else disposition);
                      content_type' = (if name = ''Content-Type'' then v else content_type)
                  in case line_end of
                       None \<Rightarrow> Inr (disposition', content_type')
                     | Some e \<Rightarrow> part_headers (drop (e + 2) headers) disposition' content_type'))"
  by pat_completeness auto
termination
  by (relation "measure (\<lambda>(headers, d, c). length headers)") auto

declare part_headers.simps [simp del]

definition store_part ::
    "MultipartLimits \<Rightarrow> (string \<Rightarrow> string + string) \<Rightarrow> string \<Rightarrow> string option \<Rightarrow> string \<Rightarrow> string \<Rightarrow> MultipartForm \<Rightarrow> string + MultipartForm" where
  "store_part limits spill field_name filename content_type content form =
     (case filename of
        None \<Rightarrow>
          (if length content > max_field_bytes limits then Inl ''Multipart field exceeds configured size limit''
           else Inr (add_field field_name content form))
      | Some fname \<Rightarrow>
          let file = \<lparr>uf_field_name = field_name, uf_filename = fname, uf_content_type = content_type,
                      uf_size = length content, uf_data = [], uf_temporary_file = None\<rparr>
          in if length content \<le> max_in_memory_file_bytes limits
             then Inr (form\<lparr>mf_files := mf_files form @ [file\<lparr>uf_data := content\<rparr>]\<rparr>)
             else case spill content of
                    Inl e \<Rightarrow> Inl e
                  | Inr path \<Rightarrow> Inr (form\<lparr>mf_files := mf_files form @ [file\<lparr>uf_temporary_file := Some path\<rparr>]\<rparr>))"

definition multipart_part ::
    "MultipartLimits \<Rightarrow> (string \<Rightarrow> string + string) \<Rightarrow> string \<Rightarrow> string \<Rightarrow> MultipartForm \<Rightarrow> string + (MultipartForm \<times> string)" where
  "multipart_part limits spill delimiter rest form =
     (case find_str (CRLF @ CRLF) rest of
        None \<Rightarrow> Inl ''Multipart part headers are malformed or too large''
      | Some header_end \<Rightarrow>
          (if header_end > max_header_bytes limits then Inl ''Multipart part headers are malformed or too large''
           else case part_headers (take header_end rest) None [] of
                  Inl e \<Rightarrow> Inl e
                | Inr (disposition, content_type) \<Rightarrow>
                    (case disposition of
                       None \<Rightarrow> Inl ''Multipart part requires form-data Content-Disposition''
                     | Some d \<Rightarrow>
                         (if \<not> starts_with d ''form-data'' then Inl ''Multipart part requires form-data Content-Disposition''
                          else case mp_parameter d ''name'' of
                                 None \<Rightarrow> Inl ''Multipart part is missing a field name''
                               | Some field_name \<Rightarrow>
                                   (if field_name = [] then Inl ''Multipart part is missing a field name''
                                    else
                                      let filename = mp_parameter d ''filename'';
                                          content_begin = drop (header_end + 4) rest
                                      in case find_str (CRLF @ delimiter) content_begin of
                                           None \<Rightarrow> Inl ''Multipart part is missing a closing boundary''
                                         | Some n \<Rightarrow>
                                             (case store_part limits spill field_name filename content_type (take n content_begin) form of
                                                Inl e \<Rightarrow> Inl e
                                              | Inr form' \<Rightarrow> Inr (form', drop (n + 2) content_begin)))))))"

lemma multipart_part_shorter:
  "multipart_part limits spill delimiter rest form = Inr (form', rest') \<Longrightarrow> length rest' \<le> length rest"
  by (auto simp: multipart_part_def Let_def split: option.splits if_splits sum.splits)

function multipart_loop ::
    "MultipartLimits \<Rightarrow> (string \<Rightarrow> string + string) \<Rightarrow> string \<Rightarrow> string \<Rightarrow> nat \<Rightarrow> MultipartForm \<Rightarrow> string + MultipartForm" where
  "multipart_loop limits spill delimiter rest parts form =
     (if \<not> starts_with rest delimiter then Inl ''Malformed multipart boundary''
      else
        let rest1 = drop (length delimiter) rest
        in if starts_with rest1 ''--''
           then if drop 2 rest1 \<noteq> [] \<and> drop 2 rest1 \<noteq> CRLF then Inl ''Unexpected data after multipart terminator''
                else Inr form
           else if \<not> starts_with rest1 CRLF then Inl ''Multipart boundary must end with CRLF''
           else if Suc parts > max_parts limits then Inl ''Multipart part count exceeds configured limit''
           else case multipart_part limits spill delimiter (drop 2 rest1) form of
                  Inl e \<Rightarrow> Inl e
                | Inr (form', rest') \<Rightarrow> multipart_loop limits spill delimiter rest' (Suc parts) form')"
  by pat_completeness auto
termination
proof (relation "measure (\<lambda>(limits, spill, delimiter, rest, parts, form). length rest)", goal_cases)
  case (2 limits spill delimiter rest parts form rest1 p form' rest')
  then have "length rest' \<le> length (drop 2 rest1)" by (auto dest: multipart_part_shorter)
  moreover have "2 \<le> length rest1" using 2 by (auto simp: starts_with_def dest: arg_cong [of _ _ length])
  ultimately show ?case using 2 by simp
qed simp

declare multipart_loop.simps [simp del]

definition parse_multipart :: "MultipartLimits \<Rightarrow> (string \<Rightarrow> string + string) \<Rightarrow> request \<Rightarrow> string + MultipartForm" where
  "parse_multipart limits spill req =
     (case request_header req ''content-type'' of
        None \<Rightarrow> Inl ''Missing multipart Content-Type''
      | Some content_type \<Rightarrow>
          (case boundary_from content_type of
             None \<Rightarrow> Inl ''Invalid multipart boundary''
           | Some boundary \<Rightarrow>
               (if length (req_body req) > max_total_bytes limits then Inl ''Multipart body exceeds configured size limit''
                else if \<not> starts_with (req_body req) (''--'' @ boundary) then Inl ''Multipart body does not start with boundary''
                else multipart_loop limits spill (''--'' @ boundary) (req_body req) 0
                       \<lparr>mf_fields = Map.empty, mf_files = []\<rparr>)))"

section \<open>Searching and trimming\<close>

lemma starts_with_simps [simp]:
  "starts_with s []" "starts_with (c # s) (d # p) \<longleftrightarrow> c = d \<and> starts_with s p" "\<not> starts_with [] (d # p)"
  by (simp_all add: starts_with_def)

lemma find_str_skip: "x \<notin> set l \<Longrightarrow> find_str (x # p) (l @ s) = map_option ((+) (length l)) (find_str (x # p) s)"
proof (induction l)
  case Nil
  then show ?case by (simp add: option.map_ident)
next
  case (Cons c l)
  then show ?case by (auto simp: option.map_comp comp_def)
qed

lemma find_str_absent: "x \<notin> set s \<Longrightarrow> find_str (x # p) s = None"
  by (induction s) auto

lemma starts_with_overlap:
  assumes "starts_with (cs @ x # after) p" "x \<notin> set p"
  shows "starts_with cs p"
proof -
  have "take (length p) (cs @ x # after) = p" using assms(1) by (simp add: starts_with_def)
  moreover have "length p \<le> length cs"
  proof (rule ccontr)
    assume "\<not> length p \<le> length cs"
    then have "x \<in> set (take (length p) (cs @ x # after))" by (auto simp: take_Cons' not_le)
    with \<open>take (length p) (cs @ x # after) = p\<close> assms(2) show False by simp
  qed
  ultimately show ?thesis by (simp add: starts_with_def)
qed

lemma find_str_first:
  "x \<notin> set p \<Longrightarrow> find_str (x # p) content = None \<Longrightarrow> find_str (x # p) (content @ x # p @ after) = Some (length content)"
proof (induction content)
  case Nil
  then show ?case by simp
next
  case (Cons c cs)
  then have "\<not> starts_with ((c # cs) @ x # p @ after) (x # p)" using starts_with_overlap by (auto split: if_splits)
  with Cons show ?case by (auto split: if_splits)
qed

lemma trim_id: "s \<noteq> [] \<Longrightarrow> \<not> P (hd s) \<Longrightarrow> \<not> P (last s) \<Longrightarrow> trim_by P s = s"
  by (simp add: trim_by_def dropWhile_eq_self_iff [THEN iffD2] hd_rev)

lemma mp_trim_id: "s \<noteq> [] \<Longrightarrow> hd s \<notin> {CHR '' '', CHR 0x09} \<Longrightarrow> last s \<notin> {CHR '' '', CHR 0x09} \<Longrightarrow> mp_trim s = s"
  unfolding mp_trim_def by (rule trim_id) auto

lemma mp_trim_space: "mp_trim (CHR '' '' # s) = mp_trim s"
  by (simp add: mp_trim_def trim_by_def)

section \<open>Writing a form\<close>

definition in_quotes :: "string \<Rightarrow> string" where
  "in_quotes s = CHR 0x22 # s @ [CHR 0x22]"

record form_part =
  fp_name :: string
  fp_filename :: "string option"
  fp_type :: string
  fp_content :: string

definition disposition_of :: "form_part \<Rightarrow> string" where
  "disposition_of p = ''form-data; name='' @ in_quotes (fp_name p) @
     (case fp_filename p of None \<Rightarrow> [] | Some f \<Rightarrow> ''; filename='' @ in_quotes f)"

definition headers_of :: "form_part \<Rightarrow> string" where
  "headers_of p = ''Content-Disposition: '' @ disposition_of p @
     (if fp_type p = [] then [] else CRLF @ ''Content-Type: '' @ fp_type p)"

definition write_part :: "string \<Rightarrow> form_part \<Rightarrow> string" where
  "write_part boundary p = ''--'' @ boundary @ CRLF @ headers_of p @ CRLF @ CRLF @ fp_content p @ CRLF"

definition write_form :: "string \<Rightarrow> form_part list \<Rightarrow> string" where
  "write_form boundary ps = concat (map (write_part boundary) ps) @ ''--'' @ boundary @ ''--'' @ CRLF"

text \<open>Texts that may stand between quotes, and parts that fit the limits.\<close>

definition plain :: "string \<Rightarrow> bool" where
  "plain s \<longleftrightarrow> set s \<inter> {CR, LF, CHR 0x00, CHR '';''} = {}"

definition part_ok :: "MultipartLimits \<Rightarrow> (string \<Rightarrow> string + string) \<Rightarrow> string \<Rightarrow> form_part \<Rightarrow> bool" where
  "part_ok limits spill boundary p \<longleftrightarrow>
     fp_name p \<noteq> [] \<and> plain (fp_name p) \<and> (\<forall>f. fp_filename p = Some f \<longrightarrow> plain f) \<and> plain (fp_type p) \<and>
     mp_trim (fp_type p) = fp_type p \<and> length (headers_of p) \<le> max_header_bytes limits \<and>
     find_str (CRLF @ ''--'' @ boundary) (fp_content p) = None \<and>
     (fp_filename p = None \<longrightarrow> length (fp_content p) \<le> max_field_bytes limits) \<and>
     (fp_filename p \<noteq> None \<longrightarrow> length (fp_content p) \<le> max_in_memory_file_bytes limits \<or> (\<exists>path. spill (fp_content p) = Inr path))"

text \<open>
  The form that parts make: under each name the contents of its fields, and the files in order, a large
  one by the path of the temporary file that has its content.
\<close>

definition file_of :: "MultipartLimits \<Rightarrow> (string \<Rightarrow> string + string) \<Rightarrow> form_part \<Rightarrow> string \<Rightarrow> UploadedFile" where
  "file_of limits spill p f =
     (let small = length (fp_content p) \<le> max_in_memory_file_bytes limits
      in \<lparr>uf_field_name = fp_name p, uf_filename = f, uf_content_type = fp_type p, uf_size = length (fp_content p),
          uf_data = (if small then fp_content p else []),
          uf_temporary_file = (if small then None else case spill (fp_content p) of Inl _ \<Rightarrow> None | Inr path \<Rightarrow> Some path)\<rparr>)"

definition field_values :: "form_part list \<Rightarrow> string \<Rightarrow> string list" where
  "field_values ps n = [fp_content p. p \<leftarrow> ps, fp_filename p = None \<and> fp_name p = n]"

definition form_of :: "MultipartLimits \<Rightarrow> (string \<Rightarrow> string + string) \<Rightarrow> form_part list \<Rightarrow> MultipartForm" where
  "form_of limits spill ps = \<lparr>
     mf_fields = (\<lambda>n. if field_values ps n = [] then None else Some (field_values ps n)),
     mf_files = concat (map (\<lambda>p. case fp_filename p of None \<Rightarrow> [] | Some f \<Rightarrow> [file_of limits spill p f]) ps)\<rparr>"

section \<open>Reading it back\<close>

lemma unquoted_in_quotes: "unquoted (in_quotes s) = s"
  by (simp add: unquoted_def in_quotes_def)

definition segment_value :: "string \<Rightarrow> string \<Rightarrow> string option \<Rightarrow> string option" where
  "segment_value part wanted continue =
     (case find_ch CHR ''='' part of
        None \<Rightarrow> continue
      | Some equals \<Rightarrow>
          (if mp_trim (take equals part) = wanted
           then let r = unquoted (mp_trim (drop (Suc equals) part)) in if CR \<notin> set r \<and> LF \<notin> set r then Some r else None
           else continue))"

lemma parameter_last: "CHR '';'' \<notin> set seg \<Longrightarrow> seg \<noteq> [] \<Longrightarrow> mp_parameter seg wanted = segment_value (mp_trim seg) wanted None"
proof -
  assume seg: "CHR '';'' \<notin> set seg" "seg \<noteq> []"
  then have "find_ch CHR '';'' seg = None" by (simp add: find_ch_None)
  with seg(2) show ?thesis by (simp add: mp_parameter.simps [of seg] segment_value_def substr_upto_def Let_def cong: option.case_cong if_cong)
qed

lemma parameter_cons:
  assumes "CHR '';'' \<notin> set seg"
  shows "mp_parameter (seg @ CHR '';'' # rest) wanted = segment_value (mp_trim seg) wanted (mp_parameter rest wanted)"
  using find_ch_append [OF assms, of rest]
  by (simp add: mp_parameter.simps [of "seg @ CHR '';'' # rest"] segment_value_def substr_upto_def Let_def cong: option.case_cong if_cong)

lemma segment_value_quoted:
  assumes k: "k \<noteq> []" "set k \<inter> {CHR ''='', CHR '';'', CHR '' '', CHR 0x09} = {}" and n: "plain n"
  shows "segment_value (mp_trim (CHR '' '' # k @ CHR ''='' # in_quotes n)) wanted c = (if k = wanted then Some n else c)"
proof -
  have "hd k \<notin> {CHR '' '', CHR 0x09}" "last k \<notin> {CHR '' '', CHR 0x09}"
    using k by (metis IntI empty_iff hd_in_set insertCI, metis IntI empty_iff last_in_set insertCI)
  then have t: "mp_trim (CHR '' '' # k @ CHR ''='' # in_quotes n) = k @ CHR ''='' # in_quotes n" "mp_trim k = k"
    using k(1) by (auto simp: mp_trim_space in_quotes_def intro!: mp_trim_id)
  have eq: "find_ch CHR ''='' (k @ CHR ''='' # in_quotes n) = Some (length k)" using k(2) by (intro find_ch_append) auto
  have q: "mp_trim (in_quotes n) = in_quotes n" by (intro mp_trim_id) (auto simp: in_quotes_def)
  have "CR \<notin> set n" "LF \<notin> set n" using n by (auto simp: plain_def)
  then show ?thesis unfolding t segment_value_def eq by (simp add: q t unquoted_in_quotes)
qed

lemma parameter_segment:
  assumes "k \<noteq> []" "set k \<inter> {CHR ''='', CHR '';'', CHR '' '', CHR 0x09} = {}" "plain n"
  shows "mp_parameter (CHR '' '' # k @ CHR ''='' # in_quotes n) wanted = (if k = wanted then Some n else None)"
    and "mp_parameter ((CHR '' '' # k @ CHR ''='' # in_quotes n) @ CHR '';'' # rest) wanted =
      (if k = wanted then Some n else mp_parameter rest wanted)"
proof -
  have seg: "CHR '';'' \<notin> set (CHR '' '' # k @ CHR ''='' # in_quotes n)" using assms by (auto simp: plain_def in_quotes_def)
  show "mp_parameter (CHR '' '' # k @ CHR ''='' # in_quotes n) wanted = (if k = wanted then Some n else None)"
    using parameter_last [OF seg] segment_value_quoted [OF assms] by simp
  show "mp_parameter ((CHR '' '' # k @ CHR ''='' # in_quotes n) @ CHR '';'' # rest) wanted =
      (if k = wanted then Some n else mp_parameter rest wanted)"
    unfolding parameter_cons [OF seg] by (rule segment_value_quoted [OF assms])
qed

lemma parameter_form_data: "mp_parameter (''form-data;'' @ rest) wanted = mp_parameter rest wanted"
proof -
  have "mp_trim ''form-data'' = ''form-data''" by (intro mp_trim_id) simp_all
  then have "segment_value (mp_trim ''form-data'') wanted c = c" for c by (simp add: segment_value_def find_ch_def)
  with parameter_cons [of "''form-data''" rest wanted] show ?thesis by simp
qed

lemma disposition_parameters:
  assumes "plain (fp_name p)" "\<forall>f. fp_filename p = Some f \<longrightarrow> plain f"
  shows "mp_parameter (disposition_of p) ''name'' = Some (fp_name p)"
    and "mp_parameter (disposition_of p) ''filename'' = fp_filename p"
proof -
  have k: "set ''name'' \<inter> {CHR ''='', CHR '';'', CHR '' '', CHR 0x09} = {}" "set ''filename'' \<inter> {CHR ''='', CHR '';'', CHR '' '', CHR 0x09} = {}"
    by auto
  note name = parameter_segment [of "''name''", OF _ k(1) assms(1)]
  have "mp_parameter (disposition_of p) w = (if w = ''name'' then Some (fp_name p) else if w = ''filename'' then fp_filename p else None)" for w
  proof (cases "fp_filename p")
    case None
    then have d: "disposition_of p = ''form-data;'' @ CHR '' '' # ''name'' @ CHR ''='' # in_quotes (fp_name p)"
      by (simp add: disposition_of_def)
    show ?thesis using name(1) [of w] unfolding d parameter_form_data by (auto simp: None)
  next
    case (Some f)
    then have d: "disposition_of p = ''form-data;'' @ ((CHR '' '' # ''name'' @ CHR ''='' # in_quotes (fp_name p)) @
        CHR '';'' # CHR '' '' # ''filename'' @ CHR ''='' # in_quotes f)"
      by (simp add: disposition_of_def)
    have f: "plain f" using assms(2) Some by blast
    show ?thesis using name(2) [of "CHR '' '' # ''filename'' @ CHR ''='' # in_quotes f" w] parameter_segment(1) [of "''filename''", OF _ k(2) f, of w]
      unfolding d parameter_form_data by (auto simp: Some)
  qed
  then show "mp_parameter (disposition_of p) ''name'' = Some (fp_name p)" "mp_parameter (disposition_of p) ''filename'' = fp_filename p"
    by simp_all
qed

lemma header_line:
  assumes name: "CHR '':'' \<notin> set name" "name \<noteq> []" "hd name \<notin> {CHR '' '', CHR 0x09}" "last name \<notin> {CHR '' '', CHR 0x09}" "valid_header_value name"
    and v: "mp_trim v = v" "valid_header_value v"
  defines "line \<equiv> name @ CHR '':'' # CHR '' '' # v"
  shows "part_headers line d c =
      Inr (if name = ''Content-Disposition'' then Some v else d, if name = ''Content-Type'' then v else c)"
    and "part_headers (line @ CRLF @ rest) d c =
      part_headers rest (if name = ''Content-Disposition'' then Some v else d) (if name = ''Content-Type'' then v else c)"
proof -
  have valid: "valid_header_value line" using name(5) v(2) by (auto simp: valid_header_value_def line_def)
  then have cr: "CR \<notin> set line" by (auto simp: valid_header_value_def)
  have colon: "find_ch CHR '':'' line = Some (length name)" unfolding line_def by (rule find_ch_append [OF name(1)])
  have parts: "mp_trim (take (length name) line) = name" "mp_trim (drop (Suc (length name)) line) = v"
    using name(2-4) v(1) by (simp_all add: line_def mp_trim_id mp_trim_space)
  have ne: "line \<noteq> []" by (simp add: line_def)
  have step: "part_headers (line @ tail) d c =
      (case find_str CRLF (line @ tail) of
         None \<Rightarrow> Inr (d', c') | Some e \<Rightarrow> part_headers (drop (e + 2) (line @ tail)) d' c')"
    if "substr_upto (find_str CRLF (line @ tail)) (line @ tail) = line"
      and "d' = (if name = ''Content-Disposition'' then Some v else d)" "c' = (if name = ''Content-Type'' then v else c)" for tail d' c'
    using that ne
    by (subst part_headers.simps) (simp only: Let_def colon valid parts option.case append_is_Nil_conv simp_thms if_False)
  show "part_headers line d c =
      Inr (if name = ''Content-Disposition'' then Some v else d, if name = ''Content-Type'' then v else c)"
    using step [of "[]", OF _ refl refl] by (simp add: find_str_absent [OF cr] substr_upto_def)
  have "find_str CRLF (line @ CRLF @ rest) = Some (length line)" using find_str_skip [OF cr, of "[LF]" "CRLF @ rest"] by simp
  then show "part_headers (line @ CRLF @ rest) d c =
      part_headers rest (if name = ''Content-Disposition'' then Some v else d) (if name = ''Content-Type'' then v else c)"
    using step [of "CRLF @ rest", OF _ refl refl] by (simp add: substr_upto_def)
qed

lemma disposition_text:
  assumes "part_ok limits spill b p"
  shows "mp_trim (disposition_of p) = disposition_of p" "valid_header_value (disposition_of p)" "starts_with (disposition_of p) ''form-data''"
proof -
  have "hd (disposition_of p) = CHR ''f''" "last (disposition_of p) = CHR 0x22"
    by (simp_all add: disposition_of_def in_quotes_def split: option.split)
  then show "mp_trim (disposition_of p) = disposition_of p" by (intro mp_trim_id) (auto simp: disposition_of_def)
  show "valid_header_value (disposition_of p)"
    using assms by (auto simp: valid_header_value_def disposition_of_def in_quotes_def part_ok_def plain_def split: option.splits)
  show "starts_with (disposition_of p) ''form-data''" by (simp add: disposition_of_def)
qed

lemma headers_read:
  assumes "part_ok limits spill b p"
  shows "part_headers (headers_of p) None [] = Inr (Some (disposition_of p), fp_type p)"
proof -
  note d = disposition_text [OF assms]
  have t: "mp_trim (fp_type p) = fp_type p" "valid_header_value (fp_type p)"
    using assms by (auto simp: part_ok_def plain_def valid_header_value_def)
  have v: "valid_header_value ''Content-Disposition''" "valid_header_value ''Content-Type''" by (simp_all add: valid_header_value_def)
  note first = header_line [of "''Content-Disposition''", OF _ _ _ _ v(1) d(1,2)]
  note second = header_line(1) [of "''Content-Type''", OF _ _ _ _ v(2) t]
  show ?thesis
  proof (cases "fp_type p = []")
    case True
    then show ?thesis using first(1) by (simp add: headers_of_def)
  next
    case False
    then have "headers_of p = (''Content-Disposition'' @ CHR '':'' # CHR '' '' # disposition_of p) @ CRLF @
        ''Content-Type'' @ CHR '':'' # CHR '' '' # fp_type p"
      by (simp add: headers_of_def)
    then show ?thesis using first(2) [of "''Content-Type'' @ CHR '':'' # CHR '' '' # fp_type p" None "[]"] second [of "Some (disposition_of p)" "[]"] by simp
  qed
qed

lemma header_end_found:
  assumes "part_ok limits spill b p"
  shows "find_str (CRLF @ CRLF) (headers_of p @ CRLF @ CRLF @ rest) = Some (length (headers_of p))"
proof -
  have cr: "CR \<notin> set (''Content-Disposition: '' @ disposition_of p)" "CR \<notin> set (LF # ''Content-Type: '' @ fp_type p)"
    using disposition_text(2) [OF assms] assms by (auto simp: valid_header_value_def part_ok_def plain_def)
  have two: "find_str (CRLF @ CRLF) (LF # ''Content-Type: '' @ fp_type p @ CRLF @ CRLF @ rest) = Some (length (LF # ''Content-Type: '' @ fp_type p))"
    using find_str_skip [OF cr(2), of "LF # CRLF" "CRLF @ CRLF @ rest"] by simp
  show ?thesis
  proof (cases "fp_type p = []")
    case True
    then show ?thesis using find_str_skip [OF cr(1), of "LF # CRLF" "CRLF @ CRLF @ rest"] by (simp add: headers_of_def)
  next
    case False
    have "find_str (CRLF @ CRLF) (CRLF @ ''Content-Type: '' @ fp_type p @ CRLF @ CRLF @ rest) = Some (16 + length (fp_type p))"
      using two by simp
    with False show ?thesis
      using find_str_skip [OF cr(1), of "LF # CRLF" "CRLF @ ''Content-Type: '' @ fp_type p @ CRLF @ CRLF @ rest"] by (simp add: headers_of_def)
  qed
qed

definition add_part :: "MultipartLimits \<Rightarrow> (string \<Rightarrow> string + string) \<Rightarrow> form_part \<Rightarrow> MultipartForm \<Rightarrow> MultipartForm" where
  "add_part limits spill p form =
     (case fp_filename p of
        None \<Rightarrow> add_field (fp_name p) (fp_content p) form
      | Some f \<Rightarrow> form\<lparr>mf_files := mf_files form @ [file_of limits spill p f]\<rparr>)"

lemma add_part_form: "add_part limits spill p (form_of limits spill ps) = form_of limits spill (ps @ [p])"
proof -
  have "field_values (ps @ [p]) n = field_values ps n @ (if fp_filename p = None \<and> fp_name p = n then [fp_content p] else [])" for n
    by (simp add: field_values_def)
  then show ?thesis by (auto simp: add_part_def add_field_def form_of_def fun_eq_iff split: option.split)
qed

lemma fold_add_part: "fold (add_part limits spill) ps \<lparr>mf_fields = Map.empty, mf_files = []\<rparr> = form_of limits spill ps"
proof (induction ps rule: rev_induct)
  case (snoc p ps)
  then show ?case by (simp add: add_part_form)
qed (simp add: form_of_def field_values_def)

lemma part_read:
  assumes ok: "part_ok limits spill b p" and b: "CR \<notin> set b"
  shows "multipart_part limits spill (''--'' @ b) (headers_of p @ CRLF @ CRLF @ fp_content p @ CRLF @ ''--'' @ b @ after) form =
    Inr (add_part limits spill p form, ''--'' @ b @ after)"
proof -
  have "find_str (CRLF @ ''--'' @ b) (fp_content p @ CRLF @ ''--'' @ b @ after) = Some (length (fp_content p))"
    using find_str_first [of CR "LF # ''--'' @ b" "fp_content p" after] ok b by (simp add: part_ok_def)
  moreover have "store_part limits spill (fp_name p) (fp_filename p) (fp_type p) (fp_content p) form = Inr (add_part limits spill p form)"
    using ok by (cases "fp_filename p") (auto simp: store_part_def add_part_def part_ok_def file_of_def Let_def)
  moreover have "length (headers_of p) \<le> max_header_bytes limits" "fp_name p \<noteq> []" using ok by (simp_all add: part_ok_def)
  moreover have "mp_parameter (disposition_of p) ''name'' = Some (fp_name p)" "mp_parameter (disposition_of p) ''filename'' = fp_filename p"
    using disposition_parameters ok by (simp_all add: part_ok_def)
  ultimately show ?thesis
    using header_end_found [OF ok, of "fp_content p @ CRLF @ ''--'' @ b @ after"]
    by (simp add: multipart_part_def headers_read [OF ok] disposition_text [OF ok])
qed

lemma form_text_starts: "\<exists>after. concat (map (write_part b) ps) @ ''--'' @ b @ ''--'' @ CRLF = ''--'' @ b @ after"
  by (cases ps) (auto simp: write_part_def)

lemma loop_reads:
  assumes b: "CR \<notin> set b"
  shows "\<forall>p\<in>set ps. part_ok limits spill b p \<Longrightarrow> n + length ps \<le> max_parts limits \<Longrightarrow>
    multipart_loop limits spill (''--'' @ b) (concat (map (write_part b) ps) @ ''--'' @ b @ ''--'' @ CRLF) n form = Inr (fold (add_part limits spill) ps form)"
proof (induction ps arbitrary: n form)
  case Nil
  show ?case by (subst multipart_loop.simps) (simp add: starts_with_def)
next
  case (Cons p ps)
  obtain after where after: "concat (map (write_part b) ps) @ ''--'' @ b @ ''--'' @ CRLF = ''--'' @ b @ after"
    using form_text_starts by blast
  have body: "concat (map (write_part b) (p # ps)) @ ''--'' @ b @ ''--'' @ CRLF =
      (''--'' @ b) @ CRLF @ headers_of p @ CRLF @ CRLF @ fp_content p @ CRLF @ ''--'' @ b @ after"
    using after by (simp add: write_part_def)
  have ok: "part_ok limits spill b p" and n: "Suc n \<le> max_parts limits" using Cons.prems by auto
  have "multipart_loop limits spill (''--'' @ b) (concat (map (write_part b) (p # ps)) @ ''--'' @ b @ ''--'' @ CRLF) n form =
      multipart_loop limits spill (''--'' @ b) (''--'' @ b @ after) (Suc n) (add_part limits spill p form)"
    unfolding body using n part_read [OF ok b, of after form]
    by (subst multipart_loop.simps) (simp only: starts_with_append, simp)
  also have "\<dots> = Inr (fold (add_part limits spill) (p # ps) form)" using Cons.IH [of "Suc n" "add_part limits spill p form"] Cons.prems after by simp
  finally show ?case .
qed

text \<open>
  C24: A form written by a client in the syntax of RFC 7578 is parsed into exactly its fields, in order under each
  name, and its files, in order, each with its name, type and content. The form has up to the configured number
  of parts; their header names are written as the parser expects them, their names, file names and types have
  no semicolon, line end or zero byte, their contents do not contain the boundary, fields keep to the size
  limit, and files beyond the memory limit can be written to disk, where the form names the file that has the
  content.
\<close>

theorem multipart_roundtrip:
  assumes b: "safe_token b" "length b \<le> 70" "CHR '';'' \<notin> set b"
    and ps: "\<forall>p\<in>set ps. part_ok limits spill b p" "length ps \<le> max_parts limits"
    and req: "request_header req ''content-type'' = Some (''multipart/form-data; boundary='' @ b)" "req_body req = write_form b ps"
    and len: "length (write_form b ps) \<le> max_total_bytes limits"
  shows "parse_multipart limits spill req = Inr (form_of limits spill ps)"
proof -
  have ch: "\<not> byte_of c < 0x21" "c \<noteq> CHR 0x22" if "c \<in> set b" for c using b(1) that by (auto simp: safe_token_def)
  have nb: "CR \<notin> set b" "LF \<notin> set b" "CHR '' '' \<notin> set b" "CHR 0x09 \<notin> set b" "CHR 0x22 \<notin> set b" "b \<noteq> []"
    using ch(1) [of CR] ch(1) [of LF] ch(1) [of "CHR '' ''"] ch(1) [of "CHR 0x09"] ch(2) b(1) by (auto simp: safe_token_def)
  then have t: "mp_trim b = b" by (intro mp_trim_id) (auto dest: hd_in_set last_in_set)
  have u: "unquoted b = b" using nb(5) hd_in_set [OF nb(6)] by (auto simp: unquoted_def)
  let ?seg = "'' boundary='' @ b"
  have trimmed: "mp_trim ?seg = ''boundary='' @ b"
    using nb by (simp add: mp_trim_space) (intro mp_trim_id; auto dest: last_in_set)
  have "find_ch CHR ''='' (''boundary='' @ b) = Some 8" using find_ch_append [of "CHR ''=''" "''boundary''" b] by simp
  moreover have "mp_trim ''boundary'' = ''boundary''" by (intro mp_trim_id) simp_all
  ultimately have "mp_parameter ?seg ''boundary'' = Some b"
    using b(3) nb parameter_last [of ?seg "''boundary''"] trimmed by (simp add: segment_value_def t u)
  moreover have "find_ch CHR '';'' (''multipart/form-data; boundary='' @ b) = Some 19"
    using find_ch_append [of "CHR '';''" "''multipart/form-data''" ?seg] by simp
  moreover have "mp_trim ''multipart/form-data'' = ''multipart/form-data''" by (intro mp_trim_id) simp_all
  ultimately have "boundary_from (''multipart/form-data; boundary='' @ b) = Some b"
    using b by (simp add: boundary_from_def substr_upto_def)
  moreover have "starts_with (req_body req) (''--'' @ b)"
    using form_text_starts [of b ps] req(2) by (auto simp: write_form_def)
  ultimately show ?thesis
    using loop_reads [OF nb(1) ps(1), of 0] ps(2) len req by (simp add: parse_multipart_def write_form_def fold_add_part)
qed

definition demo_limits :: MultipartLimits where
  "demo_limits = \<lparr>max_total_bytes = 1000, max_parts = 4, max_header_bytes = 200, max_field_bytes = 10, max_in_memory_file_bytes = 10\<rparr>"

definition demo_parts :: "form_part list" where
  "demo_parts = [\<lparr>fp_name = ''a'', fp_filename = None, fp_type = [], fp_content = ''1''\<rparr>,
     \<lparr>fp_name = ''f'', fp_filename = Some ''t.txt'', fp_type = ''text/plain'', fp_content = ''hi''\<rparr>,
     \<lparr>fp_name = ''a'', fp_filename = None, fp_type = [], fp_content = ''2''\<rparr>,
     \<lparr>fp_name = ''g'', fp_filename = Some ''u.txt'', fp_type = [], fp_content = ''a longer text''\<rparr>]"

definition demo_form_request :: request where
  "demo_form_request = empty_request\<lparr>req_headers := HeaderMap_add [] ''content-type'' ''multipart/form-data; boundary=X'',
     req_body := write_form ''X'' demo_parts\<rparr>"

definition demo_spill :: "string \<Rightarrow> string + string" where
  "demo_spill content = Inr ''/tmp/upload''"

theorem multipart_roundtrip_witness:
  "\<exists>form. parse_multipart demo_limits demo_spill demo_form_request = Inr form \<and> mf_fields form ''a'' = Some [''1'', ''2''] \<and>
     mf_fields form ''f'' = None \<and>
     mf_files form = [\<lparr>uf_field_name = ''f'', uf_filename = ''t.txt'', uf_content_type = ''text/plain'', uf_size = 2,
          uf_data = ''hi'', uf_temporary_file = None\<rparr>,
        \<lparr>uf_field_name = ''g'', uf_filename = ''u.txt'', uf_content_type = [], uf_size = 13,
          uf_data = [], uf_temporary_file = Some ''/tmp/upload''\<rparr>]"
proof -
  have h: "request_header demo_form_request ''content-type'' = Some (''multipart/form-data; boundary='' @ ''X'')"
    by code_simp
  have ok: "\<forall>p\<in>set demo_parts. part_ok demo_limits demo_spill ''X'' p"
    by (simp add: demo_parts_def demo_limits_def demo_spill_def part_ok_def plain_def headers_of_def disposition_of_def in_quotes_def
      mp_trim_def trim_by_def)
  have len: "length (write_form ''X'' demo_parts) \<le> max_total_bytes demo_limits"
    by (simp add: demo_parts_def demo_limits_def write_form_def write_part_def headers_of_def disposition_of_def in_quotes_def)
  have "parse_multipart demo_limits demo_spill demo_form_request = Inr (form_of demo_limits demo_spill demo_parts)"
    using multipart_roundtrip [OF _ _ _ ok _ h _ len] by (simp add: safe_token_def demo_form_request_def demo_parts_def demo_limits_def)
  then show ?thesis by (simp add: form_of_def field_values_def file_of_def demo_parts_def demo_limits_def demo_spill_def)
qed

section \<open>What the parser does not read\<close>

text \<open>
  A semicolon inside a quoted file name ends the parameter: the name of the file is cut there, and the
  opening quote stays in it.
\<close>

lemma multipart_quoted_semicolon_cut:
  "mp_parameter (''form-data; name=a; filename='' @ in_quotes ''x;y.txt'') ''filename'' = Some (CHR 0x22 # ''x'')"
  by (simp add: mp_parameter.simps in_quotes_def find_ch_def substr_upto_def mp_trim_def trim_by_def unquoted_def)

text \<open>
  Header names are case-insensitive (RFC 9110), but the parser compares them as written: a part whose
  client writes \<open>content-disposition\<close> in lower case is refused.
\<close>

lemma multipart_header_case_refused:
  "part_headers (''content-disposition: form-data'') None [] = Inr (None, [])"
  by (simp add: part_headers.simps find_ch_def substr_upto_def mp_trim_def trim_by_def valid_header_value_def)

end
