(* ===== verification/Ws_Frame.thy ===== *)
theory Ws_Frame
  imports Nova_Prelude "HOL-Library.Word"
begin

text \<open>
  RFC 6455 framing (\<^verbatim>\<open>src/websocket/websocket.cpp\<close>): opcodes and close codes, the UTF-8 check, the
  server's frame writer and the part of \<^verbatim>\<open>Connection::feed\<close> that reads one client frame. Bytes are
  8-bit words; lengths are naturals, and the 64-bit length accumulator wraps at \<open>2 ^ 64\<close> as in the code.
\<close>

unbundle bit_operations_syntax

type_synonym byte = "8 word"
type_synonym bytes = "8 word list"

section \<open>Opcodes and close codes\<close>

datatype Opcode = Continuation | Text | Binary | Close | Ping | Pong

fun opcode_value :: "Opcode \<Rightarrow> byte" where
  "opcode_value Continuation = 0x0"
| "opcode_value Text = 0x1"
| "opcode_value Binary = 0x2"
| "opcode_value Close = 0x8"
| "opcode_value Ping = 0x9"
| "opcode_value Pong = 0xA"

definition is_valid_opcode :: "byte \<Rightarrow> bool" where
  "is_valid_opcode b \<longleftrightarrow> b = opcode_value Continuation \<or> b = opcode_value Text \<or> b = opcode_value Binary \<or>
     b = opcode_value Close \<or> b = opcode_value Ping \<or> b = opcode_value Pong"

definition to_opcode :: "byte \<Rightarrow> Opcode" where
  "to_opcode b = (if b = 0x1 then Text else if b = 0x2 then Binary else if b = 0x8 then Close
     else if b = 0x9 then Ping else if b = 0xA then Pong else Continuation)"

definition is_control :: "Opcode \<Rightarrow> bool" where
  "is_control opc \<longleftrightarrow> opcode_value opc \<ge> 0x8"

definition is_valid_close_code :: "nat \<Rightarrow> bool" where
  "is_valid_close_code code \<longleftrightarrow>
     (code \<ge> 1000 \<and> code \<le> 1014 \<and> code \<noteq> 1004 \<and> code \<noteq> 1005 \<and> code \<noteq> 1006 \<and> code \<noteq> 1015) \<or>
     (code \<ge> 3000 \<and> code \<le> 4999)"

section \<open>UTF-8\<close>

definition utf8_lead :: "byte \<Rightarrow> (nat \<times> nat) option" where
  "utf8_lead ch =
     (if ch AND 0xe0 = 0xc0 then Some (1, unat (ch AND 0x1f))
      else if ch AND 0xf0 = 0xe0 then Some (2, unat (ch AND 0x0f))
      else if ch AND 0xf8 = 0xf0 then Some (3, unat (ch AND 0x07))
      else None)"

fun utf8_continue :: "nat \<Rightarrow> bytes \<Rightarrow> nat \<Rightarrow> nat option" where
  "utf8_continue 0 bs v = Some v"
| "utf8_continue (Suc n) [] v = None"
| "utf8_continue (Suc n) (b # bs) v =
     (if b AND 0xc0 \<noteq> 0x80 then None else utf8_continue n bs (v * 64 + unat (b AND 0x3f)))"

definition utf8_value_ok :: "nat \<Rightarrow> nat \<Rightarrow> bool" where
  "utf8_value_ok n v \<longleftrightarrow>
     \<not> ((n = 1 \<and> v < 0x80) \<or> (n = 2 \<and> v < 0x800) \<or> (n = 3 \<and> v < 0x10000) \<or>
        v > 0x10ffff \<or> (v \<ge> 0xd800 \<and> v \<le> 0xdfff))"

function valid_utf8 :: "bytes \<Rightarrow> bool" where
  "valid_utf8 [] = True"
| "valid_utf8 (ch # rest) =
     (if ch \<le> 0x7f then valid_utf8 rest
      else case utf8_lead ch of
             None \<Rightarrow> False
           | Some (n, v) \<Rightarrow>
               if n \<ge> length (ch # rest) then False
               else (case utf8_continue n rest v of
                       None \<Rightarrow> False
                     | Some value \<Rightarrow> if \<not> utf8_value_ok n value then False else valid_utf8 (drop n rest)))"
  by pat_completeness auto
termination by (relation "measure length") auto

declare valid_utf8.simps(2) [simp del]

section \<open>The frame writer\<close>

definition length_bytes :: "nat \<Rightarrow> nat \<Rightarrow> bytes" where
  "length_bytes k n = map (\<lambda>i. word_of_nat (n div 256 ^ i)) (rev [0..<k])"

definition length_field :: "nat \<Rightarrow> nat \<Rightarrow> bytes" where
  "length_field flag n =
     (if n \<le> 125 then [word_of_nat (flag + n)]
      else if n \<le> 0xffff then word_of_nat (flag + 126) # length_bytes 2 n
      else word_of_nat (flag + 127) # length_bytes 8 n)"

definition frame_header_size :: "nat \<Rightarrow> nat" where
  "frame_header_size n = (if n \<le> 125 then 2 else if n \<le> 0xffff then 4 else 10)"

definition encode_frame :: "Opcode \<Rightarrow> bytes \<Rightarrow> bytes" where
  "encode_frame opc payload = (0x80 OR opcode_value opc) # length_field 0 (length payload) @ payload"

section \<open>Reading one client frame\<close>

datatype parsed =
    Need_more
  | Bad_frame nat string
  | Frame bool Opcode bytes nat

definition decode_length :: "bytes \<Rightarrow> nat" where
  "decode_length bs = foldl (\<lambda>v b. (v * 256 + unat b) mod 2 ^ 64) 0 bs"

definition unmask :: "bytes \<Rightarrow> bytes \<Rightarrow> bytes" where
  "unmask key masked = map (\<lambda>i. (masked ! i) XOR (key ! (i mod 4))) [0..<length masked]"

text \<open>The header has been read: limits, completeness and unmasking.\<close>

definition parse_body :: "nat \<Rightarrow> bool \<Rightarrow> Opcode \<Rightarrow> nat \<Rightarrow> nat \<Rightarrow> bytes \<Rightarrow> parsed" where
  "parse_body max_message_bytes fin opc header_size payload_size input =
     (if payload_size > max_message_bytes then Bad_frame 1009 ''Message too large''
      else if is_control opc \<and> (\<not> fin \<or> payload_size > 125) then Bad_frame 1002 ''Invalid control frame''
      else
        let total_size = header_size + 4 + payload_size
        in if length input < total_size then Need_more
           else Frame fin opc
             (unmask (take 4 (drop header_size input)) (take payload_size (drop (header_size + 4) input)))
             total_size)"

definition parse_frame :: "nat \<Rightarrow> bytes \<Rightarrow> parsed" where
  "parse_frame max_message_bytes input =
     (case input of
        first # second # more \<Rightarrow>
          let fin = (first AND 0x80 \<noteq> 0)
          in if first AND 0x70 \<noteq> 0 then Bad_frame 1002 ''RSV bits require an extension''
             else if \<not> is_valid_opcode (first AND 0x0f) then Bad_frame 1002 ''Unsupported opcode''
             else if second AND 0x80 = 0 then Bad_frame 1002 ''Client frames must be masked''
             else
               let opc = to_opcode (first AND 0x0f); n = unat (second AND 0x7f)
               in if n = 126 then
                    if length input < 4 then Need_more
                    else parse_body max_message_bytes fin opc 4 (decode_length (take 2 more)) input
                  else if n = 127 then
                    if length input < 10 then Need_more
                    else if hd more AND 0x80 \<noteq> 0 then Bad_frame 1002 ''Invalid 64-bit payload length''
                    else parse_body max_message_bytes fin opc 10 (decode_length (take 8 more)) input
                  else parse_body max_message_bytes fin opc 2 n input
      | _ \<Rightarrow> Need_more)"

section \<open>Bits of a byte\<close>

lemma unat_byte_less [simp]: "unat (w :: byte) < 256"
  using unsigned_less [of w, where 'a = nat] by simp

lemma and_mask_unat: "unat ((w :: byte) AND mask n) = unat w mod 2 ^ n"
proof -
  have "unat (w AND mask n) = unat (take_bit n w)" by (simp only: take_bit_eq_mask)
  also have "\<dots> = take_bit n (unat w)" by (rule unsigned_take_bit_eq)
  finally show ?thesis by (simp only: take_bit_eq_mod)
qed

lemma and_low_bits:
  "unat ((w :: byte) AND 0x0f) = unat w mod 16" "unat (w AND 0x1f) = unat w mod 32"
  "unat (w AND 0x07) = unat w mod 8" "unat (w AND 0x3f) = unat w mod 64" "unat (w AND 0x7f) = unat w mod 128"
  using and_mask_unat [of w 4] and_mask_unat [of w 5] and_mask_unat [of w 3] and_mask_unat [of w 6]
    and_mask_unat [of w 7] by (simp_all add: mask_eq_exp_minus_1)

lemma top_bits: "(w :: byte) AND push_bit k (mask (8 - k)) = push_bit k (drop_bit k w)"
  by (rule bit_word_eqI) (auto simp: bit_simps)

lemma unat_top: "unat ((w :: byte) AND push_bit k (mask (8 - k))) = unat w div 2 ^ k * 2 ^ k"
proof -
  have lt: "unat w div 2 ^ k * 2 ^ k < 256"
    using unat_byte_less [of w] div_times_less_eq_dividend [of "unat w" "2 ^ k"] by linarith
  have "unat (push_bit k (drop_bit k w)) = take_bit 8 (push_bit k (drop_bit k (unat w)))"
    by (simp add: unsigned_push_bit_eq unsigned_drop_bit_eq take_bit_nat_eq_self)
  also have "\<dots> = unat w div 2 ^ k * 2 ^ k"
    using lt by (simp add: push_bit_eq_mult drop_bit_eq_div take_bit_eq_mod)
  finally show ?thesis by (simp only: top_bits)
qed

lemma and_high_bits:
  "(w :: byte) AND 0x80 = 0 \<longleftrightarrow> unat w < 128"
  "w AND 0xc0 = 0x80 \<longleftrightarrow> unat w div 64 = 2" "w AND 0xe0 = 0xc0 \<longleftrightarrow> unat w div 32 = 6"
  "w AND 0xf0 = 0xe0 \<longleftrightarrow> unat w div 16 = 14" "w AND 0xf8 = 0xf0 \<longleftrightarrow> unat w div 8 = 30"
  using unat_top [of w 7] unat_top [of w 6] unat_top [of w 5] unat_top [of w 4] unat_top [of w 3]
  by (auto simp: word_unat_eq_iff mask_eq_exp_minus_1 div_eq_0_iff)

lemma byte_le_iff: "(w :: byte) \<le> 0x7f \<longleftrightarrow> unat w < 128"
  by (auto simp: word_le_nat_alt)

section \<open>UTF-8 is what the encoder produces\<close>

definition scalar_value :: "nat \<Rightarrow> bool" where
  "scalar_value c \<longleftrightarrow> c \<le> 0x10ffff \<and> \<not> (0xd800 \<le> c \<and> c \<le> 0xdfff)"

definition utf8_encode :: "nat \<Rightarrow> bytes" where
  "utf8_encode c = map word_of_nat
     (if c < 0x80 then [c]
      else if c < 0x800 then [192 + c div 64, 128 + c mod 64]
      else if c < 0x10000 then [224 + c div 4096, 128 + c div 64 mod 64, 128 + c mod 64]
      else [240 + c div 262144, 128 + c div 4096 mod 64, 128 + c div 64 mod 64, 128 + c mod 64])"

lemma unat_of_nat_byte: "n < 256 \<Longrightarrow> unat (word_of_nat n :: byte) = n"
  by (simp add: unsigned_of_nat take_bit_nat_eq_self)

lemma utf8_lead_eq:
  "utf8_lead ch =
     (if unat ch div 32 = 6 then Some (1, unat ch mod 32)
      else if unat ch div 16 = 14 then Some (2, unat ch mod 16)
      else if unat ch div 8 = 30 then Some (3, unat ch mod 8) else None)"
  by (simp add: utf8_lead_def and_high_bits and_low_bits)

lemma utf8_continue_Suc:
  "utf8_continue (Suc n) (b # bs) v =
     (if unat b div 64 = 2 then utf8_continue n bs (v * 64 + unat b mod 64) else None)"
  by (simp add: and_high_bits and_low_bits)

lemmas utf8_continue_eqs = utf8_continue.simps(1,2) utf8_continue_Suc

declare utf8_continue.simps(3) [simp del]

lemma valid_utf8_ascii: "unat b < 128 \<Longrightarrow> valid_utf8 (b # rest) = valid_utf8 rest"
  by (simp add: byte_le_iff valid_utf8.simps)

lemma utf8_continue_1:
  "utf8_continue 1 bs v = (case bs of b1 # rest \<Rightarrow>
     if unat b1 div 64 = 2 then Some (v * 64 + unat b1 mod 64) else None | [] \<Rightarrow> None)"
  by (simp add: One_nat_def utf8_continue_eqs split: list.split)

lemma utf8_continue_2:
  "utf8_continue 2 bs v = (case bs of b1 # rest \<Rightarrow>
     if unat b1 div 64 = 2 then utf8_continue 1 rest (v * 64 + unat b1 mod 64) else None | [] \<Rightarrow> None)"
  by (simp only: numeral_2_eq_2 One_nat_def) (simp add: utf8_continue_eqs split: list.split)

lemma utf8_continue_3:
  "utf8_continue 3 bs v = (case bs of b1 # rest \<Rightarrow>
     if unat b1 div 64 = 2 then utf8_continue 2 rest (v * 64 + unat b1 mod 64) else None | [] \<Rightarrow> None)"
  by (simp only: numeral_2_eq_2 numeral_3_eq_3) (simp add: utf8_continue_eqs split: list.split)

lemma valid_utf8_2:
  assumes "unat b div 32 = 6"
  shows "valid_utf8 (b # x) \<longleftrightarrow> (case x of b1 # rest \<Rightarrow> unat b1 div 64 = 2 \<and>
     utf8_value_ok 1 (unat b mod 32 * 64 + unat b1 mod 64) \<and> valid_utf8 rest | _ \<Rightarrow> False)"
proof -
  have "\<not> unat b < 128" using assms by auto
  then show ?thesis
    using assms by (auto simp: valid_utf8.simps(2) byte_le_iff utf8_lead_eq utf8_continue_1 [simplified] split: list.split)
qed

lemma valid_utf8_3:
  assumes "unat b div 16 = 14"
  shows "valid_utf8 (b # x) \<longleftrightarrow> (case x of b1 # b2 # rest \<Rightarrow> unat b1 div 64 = 2 \<and> unat b2 div 64 = 2 \<and>
     utf8_value_ok 2 ((unat b mod 16 * 64 + unat b1 mod 64) * 64 + unat b2 mod 64) \<and> valid_utf8 rest | _ \<Rightarrow> False)"
proof -
  have "\<not> unat b < 128" using assms by auto
  moreover have "unat b div 32 = 7" using div_mult2_eq [of "unat b" 16 2] assms by simp
  ultimately show ?thesis
    using assms by (auto simp: valid_utf8.simps(2) byte_le_iff utf8_lead_eq utf8_continue_2 utf8_continue_1 [simplified] split: list.split)
qed

lemma valid_utf8_4:
  assumes "unat b div 8 = 30"
  shows "valid_utf8 (b # x) \<longleftrightarrow> (case x of b1 # b2 # b3 # rest \<Rightarrow> unat b1 div 64 = 2 \<and>
     unat b2 div 64 = 2 \<and> unat b3 div 64 = 2 \<and>
     utf8_value_ok 3 (((unat b mod 8 * 64 + unat b1 mod 64) * 64 + unat b2 mod 64) * 64 + unat b3 mod 64) \<and>
     valid_utf8 rest | _ \<Rightarrow> False)"
proof -
  have "\<not> unat b < 128" using assms by auto
  moreover have "unat b div 32 = 7" "unat b div 16 = 15"
    using div_mult2_eq [of "unat b" 8 2] div_mult2_eq [of "unat b" 8 4] assms by simp_all
  ultimately show ?thesis
    using assms by (auto simp: valid_utf8.simps(2) byte_le_iff utf8_lead_eq utf8_continue_3 utf8_continue_2 utf8_continue_1 [simplified]
        split: list.split)
qed

lemma valid_utf8_other:
  assumes "\<not> unat b < 128" "unat b div 32 \<noteq> 6" "unat b div 16 \<noteq> 14" "unat b div 8 \<noteq> 30"
  shows "\<not> valid_utf8 (b # x)"
  using assms by (simp add: valid_utf8.simps(2) byte_le_iff utf8_lead_eq)

lemma div_mod_offset: "r < d \<Longrightarrow> (k * d + r) div d = k \<and> (k * d + r) mod d = (r :: nat)"
  by simp

lemma lead_arith:
  "q < 32 \<Longrightarrow> (192 + q) div 32 = (6 :: nat) \<and> (192 + q) mod 32 = q"
  "q < 16 \<Longrightarrow> (224 + q) div 16 = (14 :: nat) \<and> (224 + q) mod 16 = q"
  "q < 8 \<Longrightarrow> (240 + q) div 8 = (30 :: nat) \<and> (240 + q) mod 8 = q"
  "q < 64 \<Longrightarrow> (128 + q) div 64 = (2 :: nat) \<and> (128 + q) mod 64 = q"
  using div_mod_offset [of q 32 6] div_mod_offset [of q 16 14] div_mod_offset [of q 8 30] div_mod_offset [of q 64 2]
  by simp_all

lemma split64: "(c :: nat) div 64 * 64 + c mod 64 = c"
  by simp

lemma split4096: "(c :: nat) div 4096 * 64 + c div 64 mod 64 = c div 64"
  using split64 [of "c div 64"] by (simp add: div_mult2_eq [symmetric])

lemma split262144: "(c :: nat) div 262144 * 64 + c div 4096 mod 64 = c div 4096"
  using split64 [of "c div 4096"] by (simp add: div_mult2_eq [symmetric])

lemma valid_utf8_encode:
  assumes "scalar_value c"
  shows "valid_utf8 (utf8_encode c @ rest) = valid_utf8 rest"
proof -
  let ?w = "\<lambda>n. word_of_nat n :: byte"
  have ok: "utf8_value_ok n c" if "n = 1 \<longrightarrow> 0x80 \<le> c" "n = 2 \<longrightarrow> 0x800 \<le> c" "n = 3 \<longrightarrow> 0x10000 \<le> c" for n
    using assms that by (auto simp: utf8_value_ok_def scalar_value_def)
  consider (1) "c < 0x80" | (2) "\<not> c < 0x80 \<and> c < 0x800" | (3) "\<not> c < 0x800 \<and> c < 0x10000" | (4) "\<not> c < 0x10000"
    by blast
  then show ?thesis
  proof cases
    case 1
    then show ?thesis by (simp add: utf8_encode_def valid_utf8_ascii unat_of_nat_byte)
  next
    case 2
    then have "c div 64 < 32" by auto
    with 2 show ?thesis
      using valid_utf8_2 [of "?w (192 + c div 64)" "?w (128 + c mod 64) # rest"] ok [of 1]
      by (simp add: utf8_encode_def unat_of_nat_byte lead_arith split64 del: of_nat_add)
  next
    case 3
    then have "c div 4096 < 16" by auto
    with 3 show ?thesis
      using valid_utf8_3 [of "?w (224 + c div 4096)" "?w (128 + c div 64 mod 64) # ?w (128 + c mod 64) # rest"] ok [of 2]
      by (simp add: utf8_encode_def unat_of_nat_byte lead_arith split64 split4096 del: of_nat_add)
  next
    case 4
    have "4096 * (c div 4096) + c div 64 mod 64 * 64 + c mod 64 = c"
      using split4096 [of c] split64 [of c] by linarith
    moreover have "c div 262144 < 8" using assms by (auto simp: scalar_value_def)
    ultimately show ?thesis
      using valid_utf8_4 [of "?w (240 + c div 262144)"
          "?w (128 + c div 4096 mod 64) # ?w (128 + c div 64 mod 64) # ?w (128 + c mod 64) # rest"] ok [of 3] 4
      by (simp add: utf8_encode_def unat_of_nat_byte lead_arith split64 split4096 split262144 del: of_nat_add)
  qed
qed

lemma byte_of_parts: "unat (b :: byte) div d = k \<Longrightarrow> word_of_nat (k * d + unat b mod d) = b"
  using div_mult_mod_eq [of "unat b" d] by simp

lemma quot64: "y < 64 \<Longrightarrow> (a * 64 + y) div 64 = a \<and> (a * 64 + y) mod 64 = (y :: nat)"
  by simp

lemma utf8_encode_2:
  assumes "unat b div 32 = 6" "unat b1 div 64 = 2" "utf8_value_ok 1 v" "v = unat b mod 32 * 64 + unat b1 mod 64"
  shows "utf8_encode v = [b, b1] \<and> scalar_value v"
proof -
  have d: "v div 64 = unat b mod 32 \<and> v mod 64 = unat b1 mod 64" unfolding assms(4) by (rule quot64) simp
  have "unat b mod 32 < 32" "unat b1 mod 64 < 64" by simp_all
  then have "v < 0x800" using assms(4) by linarith
  moreover have "\<not> v < 0x80" using assms(3) by (auto simp: utf8_value_ok_def)
  ultimately show ?thesis
    using byte_of_parts [OF assms(1)] byte_of_parts [OF assms(2)]
    by (simp add: utf8_encode_def scalar_value_def d)
qed

lemma below_10000: "a < 16 \<Longrightarrow> x < 64 \<Longrightarrow> y < 64 \<Longrightarrow> (a * 64 + x) * 64 + y < (0x10000 :: nat)"
  by simp

lemma utf8_encode_3:
  assumes "unat b div 16 = 14" "unat b1 div 64 = 2" "unat b2 div 64 = 2" "utf8_value_ok 2 v"
    "v = (unat b mod 16 * 64 + unat b1 mod 64) * 64 + unat b2 mod 64"
  shows "utf8_encode v = [b, b1, b2] \<and> scalar_value v"
proof -
  have d: "v div 64 = unat b mod 16 * 64 + unat b1 mod 64 \<and> v mod 64 = unat b2 mod 64"
    unfolding assms(5) by (rule quot64) simp
  have d2: "v div 4096 = unat b mod 16" "v div 64 mod 64 = unat b1 mod 64"
    using div_mult2_eq [of v 64 64] quot64 [of "unat b1 mod 64" "unat b mod 16"] d by simp_all
  have "v < 0x10000" unfolding assms(5) by (rule below_10000) simp_all
  moreover have "\<not> v < 0x800" "\<not> (0xd800 \<le> v \<and> v \<le> 0xdfff)" using assms(4) by (auto simp: utf8_value_ok_def)
  ultimately show ?thesis
    using byte_of_parts [OF assms(1)] byte_of_parts [OF assms(2)] byte_of_parts [OF assms(3)]
    by (simp add: utf8_encode_def scalar_value_def d2 d [THEN conjunct2])
qed

lemma utf8_encode_4:
  assumes "unat b div 8 = 30" "unat b1 div 64 = 2" "unat b2 div 64 = 2" "unat b3 div 64 = 2" "utf8_value_ok 3 v"
    "v = ((unat b mod 8 * 64 + unat b1 mod 64) * 64 + unat b2 mod 64) * 64 + unat b3 mod 64"
  shows "utf8_encode v = [b, b1, b2, b3] \<and> scalar_value v"
proof -
  have d: "v div 64 = (unat b mod 8 * 64 + unat b1 mod 64) * 64 + unat b2 mod 64 \<and> v mod 64 = unat b3 mod 64"
    unfolding assms(6) by (rule quot64) simp
  have d2: "v div 4096 = unat b mod 8 * 64 + unat b1 mod 64" "v div 64 mod 64 = unat b2 mod 64"
    using div_mult2_eq [of v 64 64] quot64 [of "unat b2 mod 64" "unat b mod 8 * 64 + unat b1 mod 64"] d
    by simp_all
  have d3: "v div 262144 = unat b mod 8" "v div 4096 mod 64 = unat b1 mod 64"
    using div_mult2_eq [of v 4096 64] quot64 [of "unat b1 mod 64" "unat b mod 8"] by (simp_all add: d2)
  have "\<not> v < 0x10000" "v \<le> 0x10ffff" using assms(5) by (auto simp: utf8_value_ok_def)
  then show ?thesis
    using byte_of_parts [OF assms(1)] byte_of_parts [OF assms(2)] byte_of_parts [OF assms(3)] byte_of_parts [OF assms(4)]
    by (simp add: utf8_encode_def scalar_value_def d2(2) d3 d [THEN conjunct2])
qed

lemma valid_utf8_head:
  assumes "valid_utf8 (b # x)"
  shows "\<exists>c rest. scalar_value c \<and> b # x = utf8_encode c @ rest \<and> valid_utf8 rest"
proof -
  consider (1) "unat b < 128" | (2) "unat b div 32 = 6" | (3) "unat b div 16 = 14" | (4) "unat b div 8 = 30"
    using valid_utf8_other assms by blast
  then show ?thesis
  proof cases
    case 1
    then have "utf8_encode (unat b) = [b]" "scalar_value (unat b)"
      by (simp_all add: utf8_encode_def scalar_value_def)
    with 1 assms show ?thesis by (metis append_Cons append_Nil valid_utf8_ascii)
  next
    case 2
    with assms obtain b1 rest where x: "x = b1 # rest" "unat b1 div 64 = 2"
      "utf8_value_ok 1 (unat b mod 32 * 64 + unat b1 mod 64)" "valid_utf8 rest"
      using valid_utf8_2 [OF 2, of x] by (auto split: list.splits)
    from utf8_encode_2 [OF 2 x(2,3) refl] x(1,4) show ?thesis by (metis append_Cons append_Nil)
  next
    case 3
    with assms obtain b1 b2 rest where x: "x = b1 # b2 # rest" "unat b1 div 64 = 2" "unat b2 div 64 = 2"
      "utf8_value_ok 2 ((unat b mod 16 * 64 + unat b1 mod 64) * 64 + unat b2 mod 64)" "valid_utf8 rest"
      using valid_utf8_3 [OF 3, of x] by (auto split: list.splits)
    from utf8_encode_3 [OF 3 x(2,3,4) refl] x(1,5) show ?thesis by (metis append_Cons append_Nil)
  next
    case 4
    with assms obtain b1 b2 b3 rest where x: "x = b1 # b2 # b3 # rest" "unat b1 div 64 = 2" "unat b2 div 64 = 2"
      "unat b3 div 64 = 2"
      "utf8_value_ok 3 (((unat b mod 8 * 64 + unat b1 mod 64) * 64 + unat b2 mod 64) * 64 + unat b3 mod 64)"
      "valid_utf8 rest"
      using valid_utf8_4 [OF 4, of x] by (auto split: list.splits)
    from utf8_encode_4 [OF 4 x(2,3,4,5) refl] x(1,6) show ?thesis by (metis append_Cons append_Nil)
  qed
qed

lemma utf8_encode_nonempty [simp]: "utf8_encode c \<noteq> []"
  by (simp add: utf8_encode_def)

lemma valid_utf8_decode: "valid_utf8 bs \<Longrightarrow> \<exists>cs. list_all scalar_value cs \<and> bs = concat (map utf8_encode cs)"
proof (induction bs rule: length_induct)
  case (1 bs)
  show ?case
  proof (cases bs)
    case Nil
    then show ?thesis by (intro exI [of _ "[]"]) simp
  next
    case (Cons b x)
    with 1 obtain c rest where c: "scalar_value c" "bs = utf8_encode c @ rest" "valid_utf8 rest"
      using valid_utf8_head [of b x] by auto
    then have "length rest < length bs" by simp
    with 1 c obtain cs where "list_all scalar_value cs \<and> rest = concat (map utf8_encode cs)" by blast
    with c show ?thesis by (intro exI [of _ "c # cs"]) simp
  qed
qed

lemma valid_utf8_concat: "list_all scalar_value cs \<Longrightarrow> valid_utf8 (concat (map utf8_encode cs))"
  by (induction cs) (auto simp: valid_utf8_encode)

section \<open>Frames round trip\<close>

lemma length_bytes_Suc: "length_bytes (Suc k) n = word_of_nat (n div 256 ^ k) # length_bytes k n"
  by (simp add: length_bytes_def)

lemma length_length_bytes [simp]: "length (length_bytes k n) = k"
  by (simp add: length_bytes_def)

lemma unat_word_of_nat_byte: "unat (word_of_nat n :: byte) = n mod 256"
  by (simp add: unsigned_of_nat take_bit_eq_mod)

lemma decode_length_acc:
  "acc * 256 ^ k + n mod 256 ^ k < 2 ^ 64 \<Longrightarrow>
   foldl (\<lambda>v b. (v * 256 + unat b) mod 2 ^ 64) acc (length_bytes k n) = acc * 256 ^ k + n mod 256 ^ k"
proof (induction k arbitrary: acc)
  case 0
  then show ?case by (simp add: length_bytes_def)
next
  case (Suc k)
  let ?a = "acc * 256 + n div 256 ^ k mod 256"
  have split: "n mod 256 ^ Suc k = n div 256 ^ k mod 256 * 256 ^ k + n mod 256 ^ k"
    using mod_mult2_eq [of n "256 ^ k" 256] by (simp add: mult.commute)
  have eq: "?a * 256 ^ k + n mod 256 ^ k = acc * 256 ^ Suc k + n mod 256 ^ Suc k"
    unfolding split by (simp add: algebra_simps)
  have "?a \<le> ?a * 256 ^ k" by simp
  then have lt: "?a < 2 ^ 64" using Suc.prems eq by linarith
  have "foldl (\<lambda>v b. (v * 256 + unat b) mod 2 ^ 64) acc (length_bytes (Suc k) n) =
      foldl (\<lambda>v b. (v * 256 + unat b) mod 2 ^ 64) ?a (length_bytes k n)"
    using lt by (simp add: length_bytes_Suc unat_word_of_nat_byte)
  also have "\<dots> = ?a * 256 ^ k + n mod 256 ^ k" using Suc.IH [of ?a] Suc.prems eq by simp
  finally show ?case using eq by simp
qed

lemma decode_length_bytes: "n < 256 ^ k \<Longrightarrow> n < 2 ^ 64 \<Longrightarrow> decode_length (length_bytes k n) = n"
  using decode_length_acc [of 0 k n] by (simp add: decode_length_def)

lemma unmask_length [simp]: "length (unmask key p) = length p"
  by (simp add: unmask_def)

text \<open>
  Masking as RFC 6455 describes it: each octet is combined with the next octet of the key, starting
  over after the fourth.
\<close>

fun rfc_mask :: "bytes \<Rightarrow> bytes \<Rightarrow> bytes" where
  "rfc_mask key [] = []"
| "rfc_mask key (b # bs) = (b XOR hd key) # rfc_mask (rotate1 key) bs"

lemma length_rfc_mask [simp]: "length (rfc_mask key p) = length p"
  by (induction key p rule: rfc_mask.induct) simp_all

lemma nth_rfc_mask: "length key = 4 \<Longrightarrow> i < length p \<Longrightarrow> rfc_mask key p ! i = p ! i XOR key ! (i mod 4)"
proof (induction key p arbitrary: i rule: rfc_mask.induct)
  case (2 key b bs)
  then have k: "key \<noteq> []" by auto
  show ?case
  proof (cases i)
    case 0
    with k show ?thesis by (simp add: hd_conv_nth)
  next
    case (Suc j)
    have "rotate1 key ! (j mod 4) = key ! (Suc j mod 4)"
      using "2.prems"(1) by (simp add: nth_rotate1 mod_Suc_eq)
    with 2 Suc show ?thesis by simp
  qed
qed simp

lemma unmask_rfc_mask: "length key = 4 \<Longrightarrow> unmask key (rfc_mask key p) = p"
  by (rule nth_equalityI) (simp_all add: unmask_def nth_rfc_mask xor.assoc)

text \<open>The frame a client sends for a payload, with its masking key.\<close>

definition client_frame :: "bool \<Rightarrow> Opcode \<Rightarrow> bytes \<Rightarrow> bytes \<Rightarrow> bytes" where
  "client_frame fin opc key payload =
     ((if fin then 0x80 else 0) OR opcode_value opc) # length_field 128 (length payload) @ key @ rfc_mask key payload"

lemma first_byte:
  fixes b :: byte
  assumes "b = (if fin then 0x80 else 0) OR opcode_value opc"
  shows "(b AND 0x80 \<noteq> 0) = fin" "b AND 0x70 = 0" "is_valid_opcode (b AND 0x0f)" "to_opcode (b AND 0x0f) = opc"
  unfolding assms by (cases fin; cases opc; simp add: is_valid_opcode_def to_opcode_def)+

lemma second_byte:
  assumes "n < 128"
  shows "(word_of_nat (128 + n) :: byte) AND 0x80 \<noteq> 0" "unat ((word_of_nat (128 + n) :: byte) AND 0x7f) = n"
proof -
  have u: "unat (word_of_nat (128 + n) :: byte) = 128 + n"
    using assms by (simp add: unat_word_of_nat_byte del: of_nat_add)
  show "(word_of_nat (128 + n) :: byte) AND 0x80 \<noteq> 0" by (simp add: and_high_bits(1) u del: of_nat_add)
  have "(128 + n) mod 128 = n" using assms by simp
  then show "unat ((word_of_nat (128 + n) :: byte) AND 0x7f) = n"
    by (simp add: and_low_bits u del: of_nat_add)
qed

lemma length_client_frame:
  "length key = 4 \<Longrightarrow> length (client_frame fin opc key payload) = frame_header_size (length payload) + 4 + length payload"
  by (simp add: client_frame_def length_field_def frame_header_size_def)

lemma length_bytes_top: "n < 2 ^ 63 \<Longrightarrow> hd (length_bytes 8 n) AND 0x80 = 0"
proof -
  assume "n < 2 ^ 63"
  then have "n div 256 ^ 7 < 128" by (simp add: div_less_iff_less_mult)
  then show ?thesis
    using length_bytes_Suc [of 7 n] by (simp add: and_high_bits(1) unat_word_of_nat_byte)
qed

lemma parse_body_frame:
  assumes "length key = 4" "length payload \<le> m" "is_control opc \<longrightarrow> fin \<and> length payload \<le> 125" "length hdr = h"
  shows "parse_body m fin opc h (length payload) (hdr @ key @ rfc_mask key payload @ rest) =
     Frame fin opc payload (h + 4 + length payload)"
  using assms by (auto simp: parse_body_def Let_def unmask_rfc_mask)

lemma parse_client_frame:
  assumes "length key = 4" "length payload \<le> m" "length payload < 2 ^ 63"
    and "is_control opc \<longrightarrow> fin \<and> length payload \<le> 125"
  shows "parse_frame m (client_frame fin opc key payload @ rest) =
     Frame fin opc payload (length (client_frame fin opc key payload))"
proof -
  let ?n = "length payload"
  let ?b = "(if fin then 0x80 else 0) OR opcode_value opc"
  note fb = first_byte [of ?b fin opc, OF refl]
  have body: "parse_body m fin opc h ?n (hdr @ key @ rfc_mask key payload @ rest) = Frame fin opc payload (h + 4 + ?n)"
    if "length hdr = h" for hdr h
    using parse_body_frame [OF assms(1,2,4) that] .
  consider (small) "?n \<le> 125" | (mid) "\<not> ?n \<le> 125" "?n \<le> 0xffff" | (large) "\<not> ?n \<le> 125" "\<not> ?n \<le> 0xffff" by blast
  then show ?thesis
  proof cases
    case small
    then show ?thesis
      using body [of "[?b, word_of_nat (128 + ?n)]" 2] second_byte [of ?n] assms(1)
      by (simp add: client_frame_def length_field_def parse_frame_def fb Let_def del: of_nat_add)
  next
    case mid
    have "take 2 (length_bytes 2 ?n @ key @ rfc_mask key payload @ rest) = length_bytes 2 ?n" by simp
    moreover have "decode_length (length_bytes 2 ?n) = ?n" using mid by (intro decode_length_bytes) auto
    ultimately show ?thesis
      using mid body [of "?b # word_of_nat (128 + 126) # length_bytes 2 ?n" 4] second_byte [of 126] assms(1)
      by (simp add: client_frame_def length_field_def parse_frame_def fb Let_def del: of_nat_add)
  next
    case large
    have "take 8 (length_bytes 8 ?n @ key @ rfc_mask key payload @ rest) = length_bytes 8 ?n" by simp
    moreover have "decode_length (length_bytes 8 ?n) = ?n" using assms(3) by (intro decode_length_bytes) auto
    moreover have "hd (length_bytes 8 ?n @ key @ rfc_mask key payload @ rest) AND 0x80 = 0"
      using length_bytes_top [OF assms(3)] length_bytes_Suc [of 7 ?n] by simp
    ultimately show ?thesis
      using large body [of "?b # word_of_nat (128 + 127) # length_bytes 8 ?n" 10] second_byte [of 127] assms(1)
      by (simp add: client_frame_def length_field_def parse_frame_def fb Let_def del: of_nat_add)
  qed
qed

section \<open>Reading is stable under more input\<close>

lemma parse_body_extend:
  "parse_body m fin opc h n input \<noteq> Need_more \<Longrightarrow> parse_body m fin opc h n (input @ more) = parse_body m fin opc h n input"
  by (auto simp: parse_body_def Let_def split: if_splits)

lemma parse_frame_extend:
  assumes "parse_frame m input \<noteq> Need_more"
  shows "parse_frame m (input @ more) = parse_frame m input"
proof (cases input)
  case (Cons first rest)
  with assms obtain second tail where i: "input = first # second # tail"
    by (cases rest) (auto simp: parse_frame_def)
  have two: "take 2 (tail @ more) = take 2 tail" if "4 \<le> length input" using that by (simp add: i)
  have eight: "take 8 (tail @ more) = take 8 tail" "hd (tail @ more) = hd tail" if "10 \<le> length input"
    using that by (auto simp: i hd_append)
  have ext: "parse_body m fin opc h n (first # second # tail @ more) = parse_body m fin opc h n (first # second # tail)"
    if "parse_body m fin opc h n (first # second # tail) \<noteq> Need_more" for fin opc h n
    using parse_body_extend [OF that, of more] by simp
  show ?thesis
    using assms two eight ext unfolding i
    by (simp add: parse_frame_def Let_def split: if_splits)
qed (use assms in \<open>simp add: parse_frame_def\<close>)

lemma parse_frame_total:
  "parse_frame m input = Frame fin opc payload t \<Longrightarrow>
   6 \<le> t \<and> t \<le> length input \<and> length payload \<le> m \<and> (is_control opc \<longrightarrow> fin \<and> length payload \<le> 125)"
  by (auto simp: parse_frame_def parse_body_def Let_def split: list.splits if_splits)

lemma parse_frame_need_more: "parse_frame m input = Need_more \<Longrightarrow> length input < 14 + m"
  by (auto simp: parse_frame_def parse_body_def Let_def split: list.splits if_splits)

section \<open>The server's frames read back\<close>

text \<open>A reader for what the server writes: unmasked, final frames.\<close>

definition decode_server_frame :: "bytes \<Rightarrow> (Opcode \<times> bytes \<times> bytes) option" where
  "decode_server_frame input =
     (case input of
        first # second # more \<Rightarrow>
          let n = unat second;
              (h, size) = (if n = 126 then (2, decode_length (take 2 more))
                           else if n = 127 then (8, decode_length (take 8 more)) else (0, n))
          in if length more < h + size then None
             else Some (to_opcode (first AND 0x0f), take size (drop h more), drop (h + size) more)
      | _ \<Rightarrow> None)"

lemma decode_encode_frame:
  assumes "length payload < 2 ^ 64"
  shows "decode_server_frame (encode_frame opc payload @ rest) = Some (opc, payload, rest)"
proof -
  let ?n = "length payload"
  have op: "to_opcode ((0x80 OR opcode_value opc) AND 0x0f) = opc" using first_byte(4) [of "0x80 OR opcode_value opc" True opc] by simp
  have dl: "decode_length (length_bytes 2 ?n) = ?n" if "?n \<le> 0xffff" using that by (intro decode_length_bytes) auto
  have dl8: "decode_length (length_bytes 8 ?n) = ?n" using assms by (intro decode_length_bytes) auto
  show ?thesis
    by (simp add: encode_frame_def length_field_def decode_server_frame_def op dl dl8 unat_word_of_nat_byte Let_def)
qed

section \<open>Properties\<close>

text \<open>
  C35: the validator of text messages accepts exactly UTF-8: a byte sequence is valid if and only if
  it is the concatenated encoding of Unicode scalar values, so overlong forms, surrogates, values
  above 10FFFF and truncated sequences are all refused.
\<close>

theorem valid_utf8_exact:
  "valid_utf8 bs \<longleftrightarrow> (\<exists>cs. list_all scalar_value cs \<and> bs = concat (map utf8_encode cs))"
  using valid_utf8_decode valid_utf8_concat by blast

end
