(* ===== verification/Ws_Session.thy ===== *)
theory Ws_Session
  imports Ws_Frame
begin

text \<open>
  The sending side of a WebSocket connection (\<^verbatim>\<open>src/websocket/websocket.cpp\<close>): the transport byte
  budget, the queue that other threads use through handles, the registry that broadcasts, and the
  \<^verbatim>\<open>Session\<close> with its bounded outbound buffer. Each method that takes the mutex is one atomic operation.
\<close>

section \<open>TransportBackpressure\<close>

record TransportBackpressure =
  max_pending_bytes :: nat
  pending_bytes :: nat

definition try_reserve :: "TransportBackpressure \<Rightarrow> nat \<Rightarrow> bool \<Rightarrow> TransportBackpressure option" where
  "try_reserve tb n force =
     (if \<not> force \<and> (n > max_pending_bytes tb \<or> pending_bytes tb > max_pending_bytes tb - n) then None
      else Some (tb\<lparr>pending_bytes := pending_bytes tb + n\<rparr>))"

definition release_bytes :: "TransportBackpressure \<Rightarrow> nat \<Rightarrow> TransportBackpressure" where
  "release_bytes tb n =
     tb\<lparr>pending_bytes := (if n \<ge> pending_bytes tb then 0 else pending_bytes tb - n)\<rparr>"

section \<open>SharedSession: the cross-thread queue\<close>

datatype QueuedKind = Queued_Text | Queued_Binary | Queued_Close

record QueuedCommand =
  cmd_kind :: QueuedKind
  cmd_payload :: bytes
  cmd_close_code :: nat
  cmd_close_reason :: bytes

record SharedSession =
  sh_max_pending :: nat
  sh_active :: bool
  sh_closing :: bool
  queued_bytes :: nat
  queued :: "QueuedCommand list"
  sh_wakeup :: bool

definition str_bytes :: "string \<Rightarrow> bytes" where
  "str_bytes s = map (\<lambda>c. word_of_nat (byte_of c)) s"

definition new_shared :: "nat \<Rightarrow> bool \<Rightarrow> SharedSession" where
  "new_shared max_pending wakeup = \<lparr>sh_max_pending = max_pending, sh_active = True, sh_closing = False,
     queued_bytes = 0, queued = [], sh_wakeup = wakeup\<rparr>"

definition shared_active :: "SharedSession \<Rightarrow> bool" where
  "shared_active sh \<longleftrightarrow> sh_active sh \<and> \<not> sh_closing sh"

definition overflow_command :: QueuedCommand where
  "overflow_command = \<lparr>cmd_kind = Queued_Close, cmd_payload = [], cmd_close_code = 1013,
     cmd_close_reason = str_bytes ''Outbound queue limit exceeded''\<rparr>"

definition enqueue :: "QueuedKind \<Rightarrow> bytes \<Rightarrow> SharedSession \<Rightarrow> bool \<times> SharedSession" where
  "enqueue kind payload sh =
     (if \<not> sh_active sh \<or> sh_closing sh then (False, sh)
      else
        let encoded_size = length payload + 10
        in if queued_bytes sh + encoded_size > sh_max_pending sh
           then (False, sh\<lparr>queued := [overflow_command], queued_bytes := 0, sh_closing := True\<rparr>)
           else (True, sh\<lparr>queued := queued sh @ [\<lparr>cmd_kind = kind, cmd_payload = payload, cmd_close_code = 1000,
                            cmd_close_reason = []\<rparr>],
                          queued_bytes := queued_bytes sh + encoded_size\<rparr>))"

definition enqueue_close :: "nat \<Rightarrow> bytes \<Rightarrow> SharedSession \<Rightarrow> bool \<times> SharedSession" where
  "enqueue_close code reason sh =
     (if \<not> sh_active sh \<or> sh_closing sh then (False, sh)
      else (True, sh\<lparr>sh_closing := True, queued := queued sh @ [\<lparr>cmd_kind = Queued_Close, cmd_payload = [],
              cmd_close_code = code, cmd_close_reason = take 123 reason\<rparr>]\<rparr>))"

definition mark_closing :: "SharedSession \<Rightarrow> SharedSession" where
  "mark_closing sh = sh\<lparr>sh_closing := True\<rparr>"

definition deactivate :: "SharedSession \<Rightarrow> SharedSession" where
  "deactivate sh = sh\<lparr>sh_active := False, sh_closing := True, queued := [], queued_bytes := 0, sh_wakeup := False\<rparr>"

definition take_commands :: "SharedSession \<Rightarrow> QueuedCommand list \<times> SharedSession" where
  "take_commands sh = (queued sh, sh\<lparr>queued := [], queued_bytes := 0\<rparr>)"

section \<open>Handles and the registry\<close>

text \<open>
  Shared sessions live on a heap indexed by their identifier; a handle is the identifier, and
  \<^verbatim>\<open>weak_ptr::lock\<close> is the heap lookup. Identifier 0 is the default-constructed handle.
\<close>

type_synonym shared_heap = "nat \<rightharpoonup> SharedSession"

definition handle_active :: "shared_heap \<Rightarrow> nat \<Rightarrow> bool" where
  "handle_active hp i = (case hp i of Some sh \<Rightarrow> shared_active sh | None \<Rightarrow> False)"

definition handle_send :: "QueuedKind \<Rightarrow> bytes \<Rightarrow> nat \<Rightarrow> shared_heap \<Rightarrow> bool \<times> shared_heap" where
  "handle_send kind payload i hp =
     (case hp i of
        None \<Rightarrow> (False, hp)
      | Some sh \<Rightarrow> (case enqueue kind payload sh of (ok, sh') \<Rightarrow> (ok, hp(i \<mapsto> sh'))))"

definition handle_close :: "nat \<Rightarrow> bytes \<Rightarrow> nat \<Rightarrow> shared_heap \<Rightarrow> bool \<times> shared_heap" where
  "handle_close code reason i hp =
     (case hp i of
        None \<Rightarrow> (False, hp)
      | Some sh \<Rightarrow> (case enqueue_close code reason sh of (ok, sh') \<Rightarrow> (ok, hp(i \<mapsto> sh'))))"

definition registry_add :: "shared_heap \<Rightarrow> nat \<Rightarrow> nat list \<Rightarrow> nat list" where
  "registry_add hp i reg = (if i = 0 \<or> \<not> handle_active hp i then reg else List.insert i reg)"

definition registry_remove :: "nat \<Rightarrow> nat list \<Rightarrow> nat list" where
  "registry_remove i reg = filter (\<lambda>j. j \<noteq> i) reg"

text \<open>The loop of the three broadcast operations, over the send they use.\<close>

fun broadcast_loop ::
    "(nat \<Rightarrow> shared_heap \<Rightarrow> bool \<times> shared_heap) \<Rightarrow> nat list \<Rightarrow> shared_heap \<Rightarrow> nat \<times> nat list \<times> shared_heap" where
  "broadcast_loop send [] hp = (0, [], hp)"
| "broadcast_loop send (i # reg) hp =
     (if \<not> handle_active hp i then broadcast_loop send reg hp
      else case send i hp of (ok, hp1) \<Rightarrow>
             (case broadcast_loop send reg hp1 of (n, reg', hp2) \<Rightarrow> ((if ok then 1 else 0) + n, i # reg', hp2)))"

definition broadcast_text :: "bytes \<Rightarrow> nat list \<Rightarrow> shared_heap \<Rightarrow> nat \<times> nat list \<times> shared_heap" where
  "broadcast_text t reg hp = broadcast_loop (handle_send Queued_Text t) reg hp"

definition broadcast_binary :: "bytes \<Rightarrow> nat list \<Rightarrow> shared_heap \<Rightarrow> nat \<times> nat list \<times> shared_heap" where
  "broadcast_binary b reg hp = broadcast_loop (handle_send Queued_Binary b) reg hp"

definition close_all :: "nat \<Rightarrow> bytes \<Rightarrow> nat list \<Rightarrow> shared_heap \<Rightarrow> nat \<times> nat list \<times> shared_heap" where
  "close_all code reason reg hp = broadcast_loop (handle_close code reason) reg hp"

section \<open>Session\<close>

record WsSession =
  outbound :: bytes
  max_pending_send :: nat
  ws_principal :: string
  shared :: SharedSession
  transport :: "TransportBackpressure option"
  close_sent :: bool
  is_overloaded :: bool

text \<open>
  \<^verbatim>\<open>send_frame\<close> with \<^verbatim>\<open>force\<close> set, which skips both limits, is what \<^verbatim>\<open>close\<close> uses; the unforced one
  closes the session when a limit is hit.
\<close>

definition send_frame_forced :: "Opcode \<Rightarrow> bytes \<Rightarrow> WsSession \<Rightarrow> WsSession" where
  "send_frame_forced opc payload s =
     (let frame_size = frame_header_size (length payload) + length payload
      in s\<lparr>transport := (case transport s of
                            None \<Rightarrow> None
                          | Some tb \<Rightarrow> (case try_reserve tb frame_size True of Some tb' \<Rightarrow> Some tb' | None \<Rightarrow> Some tb)),
           outbound := outbound s @ encode_frame opc payload\<rparr>)"

definition close_payload :: "nat \<Rightarrow> bytes \<Rightarrow> bytes" where
  "close_payload code reason =
     word_of_nat (code div 256) # word_of_nat code # (if length reason > 123 then take 123 reason else reason)"

definition session_close :: "nat \<Rightarrow> bytes \<Rightarrow> WsSession \<Rightarrow> bool \<times> WsSession" where
  "session_close code reason s =
     (if close_sent s then (False, s)
      else
        let payload = close_payload code reason;
            s1 = (if length (outbound s) + 2 + length payload > max_pending_send s then s\<lparr>outbound := []\<rparr> else s);
            s2 = send_frame_forced Close payload s1
        in (True, s2\<lparr>close_sent := True, shared := mark_closing (shared s2)\<rparr>))"

definition send_frame :: "Opcode \<Rightarrow> bytes \<Rightarrow> WsSession \<Rightarrow> bool \<times> WsSession" where
  "send_frame opc payload s =
     (let header_size = frame_header_size (length payload)
      in if length (outbound s) + header_size + length payload > max_pending_send s
         then (False, snd (session_close 1013 (str_bytes ''Outbound queue limit exceeded'') (s\<lparr>is_overloaded := True\<rparr>)))
         else
           case transport s of
             None \<Rightarrow> (True, s\<lparr>outbound := outbound s @ encode_frame opc payload\<rparr>)
           | Some tb \<Rightarrow>
               (case try_reserve tb (header_size + length payload) False of
                  None \<Rightarrow> (False, snd (session_close 1013 (str_bytes ''Transport flow-control limit exceeded'')
                                        (s\<lparr>is_overloaded := True\<rparr>)))
                | Some tb' \<Rightarrow> (True, s\<lparr>transport := Some tb', outbound := outbound s @ encode_frame opc payload\<rparr>)))"

definition session_send_text :: "bytes \<Rightarrow> WsSession \<Rightarrow> bool \<times> WsSession" where
  "session_send_text t s = (if \<not> close_sent s then send_frame Text t s else (False, s))"

definition session_send_binary :: "bytes \<Rightarrow> WsSession \<Rightarrow> bool \<times> WsSession" where
  "session_send_binary b s = (if \<not> close_sent s then send_frame Binary b s else (False, s))"

definition take_outbound :: "WsSession \<Rightarrow> bytes \<times> WsSession" where
  "take_outbound s = (outbound s, s\<lparr>outbound := []\<rparr>)"

section \<open>The queue stays within its limit\<close>

definition cmd_size :: "QueuedCommand \<Rightarrow> nat" where
  "cmd_size c = (case cmd_kind c of Queued_Close \<Rightarrow> 0 | _ \<Rightarrow> length (cmd_payload c) + 10)"

definition shared_inv :: "SharedSession \<Rightarrow> bool" where
  "shared_inv sh \<longleftrightarrow>
     queued_bytes sh = sum_list (map cmd_size (queued sh)) \<and> queued_bytes sh \<le> sh_max_pending sh \<and>
     (\<forall>c\<in>set (butlast (queued sh)). cmd_kind c \<noteq> Queued_Close) \<and>
     (queued sh \<noteq> [] \<and> cmd_kind (last (queued sh)) = Queued_Close \<longrightarrow> sh_closing sh)"

lemma shared_inv_empty: "queued_bytes sh = 0 \<Longrightarrow> queued sh = [] \<Longrightarrow> shared_inv sh"
  by (simp add: shared_inv_def)

lemma shared_inv_open:
  assumes "shared_inv sh" "\<not> sh_closing sh"
  shows "\<forall>c\<in>set (queued sh). cmd_kind c \<noteq> Queued_Close"
  using assms by (cases "queued sh" rule: rev_cases) (auto simp: shared_inv_def)

lemma shared_inv_enqueue:
  assumes "shared_inv sh" "kind \<noteq> Queued_Close"
  shows "shared_inv (snd (enqueue kind payload sh))"
proof (cases "\<not> sh_active sh \<or> sh_closing sh")
  case True
  with assms show ?thesis by (auto simp: enqueue_def)
next
  case False
  let ?c = "\<lparr>cmd_kind = kind, cmd_payload = payload, cmd_close_code = 1000, cmd_close_reason = []\<rparr>"
  have "cmd_size ?c = length payload + 10" using assms(2) by (cases kind) (simp_all add: cmd_size_def)
  with False assms shared_inv_open [OF assms(1)] show ?thesis
    by (auto simp: enqueue_def Let_def shared_inv_def overflow_command_def cmd_size_def)
qed

lemma shared_inv_enqueue_close:
  assumes "shared_inv sh"
  shows "shared_inv (snd (enqueue_close code reason sh))"
proof (cases "\<not> sh_active sh \<or> sh_closing sh")
  case False
  then have "\<forall>c\<in>set (queued sh). cmd_kind c \<noteq> Queued_Close" using shared_inv_open [OF assms] by blast
  with False assms show ?thesis by (auto simp: enqueue_close_def shared_inv_def cmd_size_def)
qed (use assms in \<open>auto simp: enqueue_close_def\<close>)

lemma shared_inv_others:
  "shared_inv (deactivate sh)" "shared_inv (snd (take_commands sh))" "shared_inv (new_shared n w)"
  "shared_inv sh \<Longrightarrow> shared_inv (mark_closing sh)"
  by (simp_all add: shared_inv_empty deactivate_def take_commands_def new_shared_def)
     (auto simp: shared_inv_def mark_closing_def)

section \<open>The outbound buffer\<close>

text \<open>
  The buffer is a sequence of whole frames, and its size is within the limit or is that of one
  close frame (at most 127 bytes).
\<close>

definition frames_bytes :: "(Opcode \<times> bytes) list \<Rightarrow> bytes" where
  "frames_bytes fs = concat (map (\<lambda>(opc, p). encode_frame opc p) fs)"

definition session_inv :: "WsSession \<Rightarrow> bool" where
  "session_inv s \<longleftrightarrow> length (outbound s) \<le> max (max_pending_send s) 127 \<and> (\<exists>fs. outbound s = frames_bytes fs)"

lemma length_encode_frame: "length (encode_frame opc p) = frame_header_size (length p) + length p"
  by (simp add: encode_frame_def length_field_def frame_header_size_def)

lemma frames_bytes_snoc: "frames_bytes (fs @ [(opc, p)]) = frames_bytes fs @ encode_frame opc p"
  by (simp add: frames_bytes_def)

lemma session_inv_append:
  "session_inv s \<Longrightarrow> length (outbound s) + frame_header_size (length p) + length p \<le> max (max_pending_send s) 127 \<Longrightarrow>
   outbound s' = outbound s @ encode_frame opc p \<Longrightarrow> max_pending_send s' = max_pending_send s \<Longrightarrow> session_inv s'"
  by (auto simp: session_inv_def length_encode_frame frames_bytes_snoc [symmetric])

lemma session_inv_clear: "outbound s = [] \<Longrightarrow> session_inv s"
  by (auto simp: session_inv_def frames_bytes_def intro!: exI [of _ "[]"])

lemma length_close_payload: "length (close_payload code reason) \<le> 125"
  by (simp add: close_payload_def)

lemma close_frame_size:
  "frame_header_size (length (close_payload code reason)) + length (close_payload code reason) =
     2 + length (close_payload code reason)"
  using length_close_payload [of code reason] by (simp add: frame_header_size_def)

lemma session_close_open:
  assumes "\<not> close_sent s"
  shows "\<exists>s'. session_close code reason s = (True, s') \<and> close_sent s' \<and> max_pending_send s' = max_pending_send s \<and>
    outbound s' = (if length (outbound s) + 2 + length (close_payload code reason) > max_pending_send s then []
                   else outbound s) @ encode_frame Close (close_payload code reason)"
  using assms by (simp add: session_close_def send_frame_forced_def Let_def)

lemma session_inv_close: "session_inv s \<Longrightarrow> session_inv (snd (session_close code reason s))"
proof (cases "close_sent s")
  case False
  assume inv: "session_inv s"
  let ?p = "close_payload code reason"
  let ?s1 = "if length (outbound s) + 2 + length ?p > max_pending_send s then s\<lparr>outbound := []\<rparr> else s"
  obtain s' where s': "session_close code reason s = (True, s')" "max_pending_send s' = max_pending_send s"
    "outbound s' = outbound ?s1 @ encode_frame Close ?p"
    using session_close_open [OF False, of code reason] by auto
  have "session_inv ?s1" using inv by (auto intro: session_inv_clear)
  moreover have "length (outbound ?s1) + frame_header_size (length ?p) + length ?p \<le> max (max_pending_send ?s1) 127"
    using close_frame_size [of code reason] length_close_payload [of code reason] by auto
  ultimately have "session_inv s'" by (rule session_inv_append [OF _ _ s'(3)]) (simp add: s'(2))
  with s'(1) show ?thesis by simp
qed (simp add: session_close_def)

lemma session_close_sent: "close_sent s \<Longrightarrow> session_close code reason s = (False, s)"
  by (simp add: session_close_def)

lemma session_close_limits [simp]:
  "max_pending_send (snd (session_close code reason s)) = max_pending_send s"
  "close_sent (snd (session_close code reason s))"
  by (simp_all add: session_close_def send_frame_forced_def Let_def)

text \<open>What every operation of the session API promises its callers.\<close>

locale session_operation =
  fixes run :: "WsSession \<Rightarrow> bool \<times> WsSession"
  assumes keeps_inv: "session_inv s \<Longrightarrow> session_inv (snd (run s))"
    and keeps_limit: "max_pending_send (snd (run s)) = max_pending_send s"
    and close_stays: "close_sent s \<Longrightarrow> close_sent (snd (run s))"
begin

lemma keeps_session:
  "session_inv s \<Longrightarrow> session_inv (snd (run s)) \<and> max_pending_send (snd (run s)) = max_pending_send s \<and>
     (close_sent s \<longrightarrow> close_sent (snd (run s)))"
  by (simp add: keeps_inv keeps_limit close_stays)

end

interpretation op_close: session_operation "session_close code reason" for code reason
  by unfold_locales (auto simp: session_inv_close session_close_sent)

lemma session_inv_fields:
  "outbound s' = outbound s \<Longrightarrow> max_pending_send s' = max_pending_send s \<Longrightarrow> session_inv s' = session_inv s"
  by (simp add: session_inv_def)

interpretation op_frame: session_operation "send_frame opc payload" for opc payload
proof
  fix s
  show "max_pending_send (snd (send_frame opc payload s)) = max_pending_send s"
    by (simp add: send_frame_def Let_def split: option.split)
  show "close_sent s \<Longrightarrow> close_sent (snd (send_frame opc payload s))"
    by (simp add: send_frame_def Let_def split: option.split)
  assume inv: "session_inv s"
  have "session_inv (snd (session_close 1013 r (s\<lparr>is_overloaded := True\<rparr>)))" for r
    using inv session_inv_fields [of "s\<lparr>is_overloaded := True\<rparr>" s] by (intro session_inv_close) simp
  moreover have "session_inv (s\<lparr>transport := t, outbound := outbound s @ encode_frame opc payload\<rparr>)"
    if "\<not> length (outbound s) + frame_header_size (length payload) + length payload > max_pending_send s" for t
    using that inv by (intro session_inv_append [OF inv]) auto
  moreover have "session_inv (s\<lparr>outbound := outbound s @ encode_frame opc payload\<rparr>)"
    if "\<not> length (outbound s) + frame_header_size (length payload) + length payload > max_pending_send s"
    using that inv by (intro session_inv_append [OF inv]) auto
  ultimately show "session_inv (snd (send_frame opc payload s))"
    by (simp add: send_frame_def Let_def split: option.split)
qed

interpretation op_text: session_operation "session_send_text t" for t
  by unfold_locales (auto simp: session_send_text_def op_frame.keeps_inv op_frame.keeps_limit op_frame.close_stays)

interpretation op_binary: session_operation "session_send_binary b" for b
  by unfold_locales (auto simp: session_send_binary_def op_frame.keeps_inv op_frame.keeps_limit op_frame.close_stays)

end
