(* ===== verification/Ws_Connection.thy ===== *)
theory Ws_Connection
  imports Ws_Session
begin

text \<open>
  The receiving side of a WebSocket connection: \<^verbatim>\<open>Connection\<close> of
  \<^verbatim>\<open>src/websocket/websocket.cpp\<close>, with reassembly of fragmented messages, the close handshake and
  the application callbacks. Commands other threads queue through a handle are steps between calls
  of the owning shard. The meters a handler may carry are not modelled.
\<close>

section \<open>Application callbacks\<close>

text \<open>
  A callback receives a \<^verbatim>\<open>Session&\<close> and may call its operations; it is a list of steps, each of
  which looks at the session as the earlier ones left it and performs at most one call. Callbacks
  also depend on everything the connection told the application before, the event log.
\<close>

datatype session_action = Act_text bytes | Act_binary bytes | Act_close nat bytes

datatype ws_event = Ev_open | Ev_message Opcode bytes | Ev_close nat bytes

type_synonym script = "(WsSession \<Rightarrow> session_action option) list"

fun run_action :: "session_action \<Rightarrow> WsSession \<Rightarrow> bool \<times> WsSession" where
  "run_action (Act_text t) s = session_send_text t s"
| "run_action (Act_binary b) s = session_send_binary b s"
| "run_action (Act_close code reason) s = session_close code reason s"

fun run_script :: "script \<Rightarrow> WsSession \<Rightarrow> WsSession" where
  "run_script [] s = s"
| "run_script (step # steps) s =
     run_script steps (case step s of None \<Rightarrow> s | Some a \<Rightarrow> snd (run_action a s))"

record Handler =
  on_open :: "script option"
  on_message :: "(ws_event list \<Rightarrow> Opcode \<Rightarrow> bytes \<Rightarrow> script) option"
  on_close :: "(ws_event list \<Rightarrow> nat \<Rightarrow> bytes \<Rightarrow> script) option"
  max_message_bytes :: nat
  max_pending_send_bytes :: nat

record Connection =
  cn_session :: WsSession
  cn_max_message :: nat
  cn_input :: bytes
  fragmented_payload :: bytes
  fragmented_opcode :: Opcode
  fragmented :: bool
  cn_closed :: bool
  close_notified :: bool
  cn_log :: "ws_event list"

definition map_session :: "(WsSession \<Rightarrow> WsSession) \<Rightarrow> Connection \<Rightarrow> Connection" where
  "map_session f c = c\<lparr>cn_session := f (cn_session c)\<rparr>"

definition notify_app :: "ws_event \<Rightarrow> script \<Rightarrow> Connection \<Rightarrow> Connection" where
  "notify_app ev sc c = (map_session (run_script sc) c)\<lparr>cn_log := cn_log c @ [ev]\<rparr>"

definition new_session :: "nat \<Rightarrow> string \<Rightarrow> bool \<Rightarrow> TransportBackpressure option \<Rightarrow> WsSession" where
  "new_session max_pending who wakeup tb =
     \<lparr>outbound = [], max_pending_send = max_pending, ws_principal = who,
      shared = new_shared max_pending wakeup, transport = tb, close_sent = False, is_overloaded = False\<rparr>"

definition Connection_new :: "Handler \<Rightarrow> string \<Rightarrow> bool \<Rightarrow> TransportBackpressure option \<Rightarrow> Connection" where
  "Connection_new h who wakeup tb =
     (let c = \<lparr>cn_session = new_session (max_pending_send_bytes h) who wakeup tb,
               cn_max_message = max_message_bytes h, cn_input = [], fragmented_payload = [],
               fragmented_opcode = Continuation, fragmented = False, cn_closed = False,
               close_notified = False, cn_log = []\<rparr>
      in case on_open h of None \<Rightarrow> c | Some sc \<Rightarrow> notify_app Ev_open sc c)"

section \<open>Closing\<close>

definition notify_close :: "Handler \<Rightarrow> nat \<Rightarrow> bytes \<Rightarrow> Connection \<Rightarrow> Connection" where
  "notify_close h code reason c =
     (let c1 = (case on_close h of
                  Some f \<Rightarrow> if close_notified c then c
                            else notify_app (Ev_close code reason) (f (cn_log c) code reason) c
                | None \<Rightarrow> c)
      in c1\<lparr>close_notified := True\<rparr>)"

definition begin_close :: "nat \<Rightarrow> bytes \<Rightarrow> Connection \<Rightarrow> Connection" where
  "begin_close code reason c =
     (let s = cn_session c;
          s1 = (if \<not> close_sent s then snd (session_close code reason s) else s)
      in c\<lparr>cn_session := s1\<lparr>shared := deactivate (shared s1)\<rparr>, cn_closed := True\<rparr>)"

definition protocol_close :: "Handler \<Rightarrow> nat \<Rightarrow> string \<Rightarrow> Connection \<Rightarrow> Connection" where
  "protocol_close h code reason c =
     notify_close h code (str_bytes reason) (begin_close code (str_bytes reason) c)"

section \<open>One frame\<close>

type_synonym ws_error = "(nat \<times> string) option"

definition protocol_error :: "Handler \<Rightarrow> nat \<Rightarrow> string \<Rightarrow> Connection \<Rightarrow> ws_error \<times> Connection" where
  "protocol_error h code reason c = (Some (code, reason), protocol_close h code reason c)"

definition deliver :: "Handler \<Rightarrow> Opcode \<Rightarrow> bytes \<Rightarrow> Connection \<Rightarrow> Connection" where
  "deliver h opc payload c =
     (case on_message h of
        None \<Rightarrow> c
      | Some f \<Rightarrow> notify_app (Ev_message opc payload) (f (cn_log c) opc payload) c)"

definition process_close :: "Handler \<Rightarrow> bytes \<Rightarrow> Connection \<Rightarrow> ws_error \<times> Connection" where
  "process_close h payload c =
     (let finish = (\<lambda>code reason. (None, notify_close h code reason (begin_close code reason c)))
      in case payload of
           [] \<Rightarrow> finish 1000 []
         | [_] \<Rightarrow> protocol_error h 1002 ''Invalid close payload'' c
         | hi # lo # reason \<Rightarrow>
             let code = unat hi * 256 + unat lo
             in if \<not> is_valid_close_code code \<or> \<not> valid_utf8 reason
                then protocol_error h 1002 ''Invalid close payload'' c
                else finish code reason)"

definition process_continuation :: "Handler \<Rightarrow> bool \<Rightarrow> bytes \<Rightarrow> Connection \<Rightarrow> ws_error \<times> Connection" where
  "process_continuation h fin payload c =
     (if \<not> fragmented c then protocol_error h 1002 ''Unexpected continuation frame'' c
      else if length (fragmented_payload c) + length payload > cn_max_message c
      then protocol_error h 1009 ''Message too large'' c
      else
        let c1 = c\<lparr>fragmented_payload := fragmented_payload c @ payload\<rparr>
        in if \<not> fin then (None, c1)
           else if fragmented_opcode c1 = Text \<and> \<not> valid_utf8 (fragmented_payload c1)
           then protocol_error h 1007 ''Invalid UTF-8 text message'' c1
           else (None, (deliver h (fragmented_opcode c1) (fragmented_payload c1) c1)
                   \<lparr>fragmented_payload := [], fragmented := False, fragmented_opcode := Continuation\<rparr>))"

definition process_data :: "Handler \<Rightarrow> bool \<Rightarrow> Opcode \<Rightarrow> bytes \<Rightarrow> Connection \<Rightarrow> ws_error \<times> Connection" where
  "process_data h fin opc payload c =
     (if fragmented c then protocol_error h 1002 ''Expected continuation frame'' c
      else if \<not> fin
      then (None, c\<lparr>fragmented := True, fragmented_opcode := opc, fragmented_payload := payload\<rparr>)
      else if opc = Text \<and> \<not> valid_utf8 payload
      then protocol_error h 1007 ''Invalid UTF-8 text message'' c
      else (None, deliver h opc payload c))"

fun process_frame :: "Handler \<Rightarrow> bool \<Rightarrow> Opcode \<Rightarrow> bytes \<Rightarrow> Connection \<Rightarrow> ws_error \<times> Connection" where
  "process_frame h fin Ping payload c = (None, map_session (\<lambda>s. snd (send_frame Pong payload s)) c)"
| "process_frame h fin Pong payload c = (None, c)"
| "process_frame h fin Close payload c = process_close h payload c"
| "process_frame h fin Continuation payload c = process_continuation h fin payload c"
| "process_frame h fin opc payload c = process_data h fin opc payload c"

section \<open>The input loop\<close>

text \<open>
  The loop keeps an offset into the input and, when it stops, reports how many bytes \<^verbatim>\<open>feed\<close>
  erases; a malformed header returns before the erase.
\<close>

function feed_loop :: "Handler \<Rightarrow> bytes \<Rightarrow> nat \<Rightarrow> Connection \<Rightarrow> ws_error \<times> nat \<times> Connection" where
  "feed_loop h input off c =
     (case parse_frame (cn_max_message c) (drop off input) of
        Need_more \<Rightarrow> (None, off, c)
      | Bad_frame code msg \<Rightarrow> (Some (code, msg), 0, protocol_close h code msg c)
      | Frame fin opc payload total_size \<Rightarrow>
          (let (err, c1) = process_frame h fin opc payload c
           in if err \<noteq> None \<or> cn_closed c1 then (err, off + total_size, c1)
              else feed_loop h input (off + total_size) c1))"
  by pat_completeness auto

termination
  by (relation "measure (\<lambda>(h, input, off, c). length input - off)") (auto dest!: parse_frame_total)

declare feed_loop.simps [simp del]

definition feed :: "Handler \<Rightarrow> bytes \<Rightarrow> Connection \<Rightarrow> ws_error \<times> Connection" where
  "feed h data c =
     (if cn_closed c then (None, c)
      else
        let input = cn_input c @ data;
            (err, erased, c1) = feed_loop h input 0 (c\<lparr>cn_input := input\<rparr>)
        in (err, c1\<lparr>cn_input := drop erased input\<rparr>))"

section \<open>Sending from other threads\<close>

definition Connection_take_outbound :: "Connection \<Rightarrow> bytes \<times> Connection" where
  "Connection_take_outbound c =
     (fst (take_outbound (cn_session c)), map_session (\<lambda>s. snd (take_outbound s)) c)"

definition run_command :: "QueuedCommand \<Rightarrow> WsSession \<Rightarrow> WsSession" where
  "run_command cmd s =
     snd (case cmd_kind cmd of
            Queued_Text \<Rightarrow> session_send_text (cmd_payload cmd) s
          | Queued_Binary \<Rightarrow> session_send_binary (cmd_payload cmd) s
          | Queued_Close \<Rightarrow> session_close (cmd_close_code cmd) (cmd_close_reason cmd) s)"

definition drain_external_outbound :: "Connection \<Rightarrow> bytes \<times> Connection" where
  "drain_external_outbound c =
     (let (cmds, sh) = take_commands (shared (cn_session c));
          s = fold run_command cmds ((cn_session c)\<lparr>shared := sh\<rparr>)
      in Connection_take_outbound (c\<lparr>cn_session := s\<rparr>))"

definition handle_enqueue :: "QueuedKind \<Rightarrow> bytes \<Rightarrow> Connection \<Rightarrow> Connection" where
  "handle_enqueue kind payload =
     map_session (\<lambda>s. s\<lparr>shared := snd (enqueue kind payload (shared s))\<rparr>)"

definition handle_enqueue_close :: "nat \<Rightarrow> bytes \<Rightarrow> Connection \<Rightarrow> Connection" where
  "handle_enqueue_close code reason =
     map_session (\<lambda>s. s\<lparr>shared := snd (enqueue_close code reason (shared s))\<rparr>)"

text \<open>What can happen to a connection: its shard feeds it and takes output, other threads use handles.\<close>

inductive conn_step :: "Handler \<Rightarrow> Connection \<Rightarrow> Connection \<Rightarrow> bool" for h where
  step_feed: "conn_step h c (snd (feed h data c))"
| step_take: "conn_step h c (snd (Connection_take_outbound c))"
| step_drain: "conn_step h c (snd (drain_external_outbound c))"
| step_enqueue: "kind \<noteq> Queued_Close \<Longrightarrow> conn_step h c (handle_enqueue kind payload c)"
| step_enqueue_close: "conn_step h c (handle_enqueue_close code reason c)"

inductive conn_reachable :: "Handler \<Rightarrow> Connection \<Rightarrow> bool" for h where
  reach_new: "conn_reachable h (Connection_new h who wakeup tb)"
| reach_step: "conn_reachable h c \<Longrightarrow> conn_step h c c' \<Longrightarrow> conn_reachable h c'"


section \<open>What the session operations keep\<close>

text \<open>The relation every call on a session stays in, so also every callback and every drain.\<close>

definition session_good :: "nat \<Rightarrow> WsSession \<Rightarrow> bool" where
  "session_good m s \<longleftrightarrow> session_inv s \<and> shared_inv (shared s) \<and> max_pending_send s = m \<and> sh_max_pending (shared s) = m"

definition session_after :: "WsSession \<Rightarrow> WsSession \<Rightarrow> bool" where
  "session_after s s' \<longleftrightarrow> (\<forall>m. session_good m s \<longrightarrow> session_good m s') \<and>
     (close_sent s \<longrightarrow> close_sent s') \<and> sh_active (shared s') = sh_active (shared s)"

lemma session_after_refl [simp]: "session_after s s"
  by (simp add: session_after_def)

lemma session_after_trans: "session_after s1 s2 \<Longrightarrow> session_after s2 s3 \<Longrightarrow> session_after s1 s3"
  by (auto simp: session_after_def)

lemma session_close_shared:
  "shared (snd (session_close code reason s)) = shared s \<or>
   shared (snd (session_close code reason s)) = mark_closing (shared s)"
  by (auto simp: session_close_def send_frame_forced_def Let_def)

lemma send_frame_shared:
  "shared (snd (send_frame opc payload s)) = shared s \<or>
   shared (snd (send_frame opc payload s)) = mark_closing (shared s)"
  using session_close_shared [of 1013 _ "s\<lparr>is_overloaded := True\<rparr>"]
  by (auto simp: send_frame_def Let_def split: option.split)

context session_operation
begin

lemma session_after_run:
  assumes "shared (snd (run s)) = shared s \<or> shared (snd (run s)) = mark_closing (shared s)"
  shows "session_after s (snd (run s))"
  using assms keeps_session [of s] close_stays [of s] shared_inv_others(4) [of "shared s"]
  by (auto simp: session_after_def session_good_def mark_closing_def)

end

lemma session_after_close: "session_after s (snd (session_close code reason s))"
  using op_close.session_after_run [OF session_close_shared] .

lemma session_after_frame: "session_after s (snd (send_frame opc payload s))"
  using op_frame.session_after_run [OF send_frame_shared] .

lemma session_after_text: "session_after s (snd (session_send_text t s))"
  using session_after_frame by (simp add: session_send_text_def)

lemma session_after_binary: "session_after s (snd (session_send_binary b s))"
  using session_after_frame by (simp add: session_send_binary_def)

lemmas session_afters = session_after_close session_after_frame session_after_text session_after_binary

lemma session_after_action: "session_after s (snd (run_action a s))"
  by (cases a) (simp_all add: session_afters)

lemma session_after_script: "session_after s (run_script sc s)"
proof (induction sc arbitrary: s)
  case (Cons step steps)
  have "session_after s (case step s of None \<Rightarrow> s | Some a \<Rightarrow> snd (run_action a s))"
    by (simp add: session_after_action split: option.split)
  from session_after_trans [OF this Cons.IH] show ?case by simp
qed simp

lemma session_after_command: "session_after s (run_command cmd s)"
  by (simp add: run_command_def session_afters split: QueuedKind.split)

lemma session_after_commands: "session_after s (fold run_command cmds s)"
proof (induction cmds arbitrary: s)
  case (Cons cmd cmds)
  show ?case using session_after_trans [OF session_after_command Cons.IH] by simp
qed simp

section \<open>The connection invariant\<close>

fun is_close_event :: "ws_event \<Rightarrow> bool" where
  "is_close_event (Ev_close code reason) = True"
| "is_close_event ev = False"

fun event_ok :: "nat \<Rightarrow> ws_event \<Rightarrow> bool" where
  "event_ok m (Ev_message opc p) \<longleftrightarrow>
     opc \<in> {Text, Binary} \<and> length p \<le> m \<and> (opc = Text \<longrightarrow> valid_utf8 p)"
| "event_ok m ev \<longleftrightarrow> True"

text \<open>
  While the connection is open the session is good and the application saw only legal messages;
  a closed connection has sent its close frame, notified the application, and takes no more
  commands. The application is told of the close at most once, after everything else.
\<close>

definition conn_open :: "Handler \<Rightarrow> Connection \<Rightarrow> bool" where
  "conn_open h c \<longleftrightarrow> session_good (max_pending_send_bytes h) (cn_session c) \<and>
     cn_max_message c = max_message_bytes h \<and>
     length (fragmented_payload c) \<le> cn_max_message c \<and> (fragmented c \<longrightarrow> fragmented_opcode c \<in> {Text, Binary}) \<and>
     list_all (event_ok (cn_max_message c)) (cn_log c) \<and>
     \<not> cn_closed c \<and> \<not> close_notified c \<and> \<not> list_ex is_close_event (cn_log c)"

definition conn_done :: "Handler \<Rightarrow> Connection \<Rightarrow> bool" where
  "conn_done h c \<longleftrightarrow> session_good (max_pending_send_bytes h) (cn_session c) \<and>
     cn_max_message c = max_message_bytes h \<and> length (fragmented_payload c) \<le> cn_max_message c \<and>
     list_all (event_ok (cn_max_message c)) (cn_log c) \<and>
     cn_closed c \<and> close_notified c \<and> close_sent (cn_session c) \<and> \<not> sh_active (shared (cn_session c)) \<and>
     \<not> list_ex is_close_event (butlast (cn_log c)) \<and>
     (on_close h \<noteq> None \<longrightarrow> cn_log c \<noteq> [] \<and> is_close_event (last (cn_log c)))"

lemma conn_open_session:
  assumes "conn_open h c" "session_after (cn_session c) s"
  shows "conn_open h (c\<lparr>cn_session := s\<rparr>)"
  using assms by (auto simp: conn_open_def session_after_def)

lemma conn_open_deliver:
  assumes "conn_open h c" "event_ok (cn_max_message c) (Ev_message opc p)"
  shows "conn_open h (deliver h opc p c)"
proof (cases "on_message h")
  case (Some f)
  have "conn_open h (map_session (run_script (f (cn_log c) opc p)) c)"
    using conn_open_session [OF assms(1) session_after_script] by (simp add: map_session_def)
  with assms(2) Some show ?thesis by (auto simp: deliver_def notify_app_def conn_open_def map_session_def)
qed (simp add: deliver_def assms)

lemma butlast_no_close: "\<not> list_ex is_close_event xs \<Longrightarrow> \<not> list_ex is_close_event (butlast xs)"
  by (auto simp: list_ex_iff dest: in_set_butlastD)

lemma conn_done_close:
  assumes "conn_open h c"
  shows "conn_done h (notify_close h code reason (begin_close code reason c))"
proof -
  define s where "s = cn_session (begin_close code reason c)"
  have "session_after (cn_session c) (if \<not> close_sent (cn_session c)
      then snd (session_close code reason (cn_session c)) else cn_session c)"
    by (simp add: session_after_close)
  moreover have "session_inv (s1\<lparr>shared := sh\<rparr>) = session_inv s1" for s1 sh by (simp add: session_inv_def)
  ultimately have s: "session_good (max_pending_send_bytes h) s" "close_sent s" "\<not> sh_active (shared s)"
    using assms by (auto simp: s_def begin_close_def Let_def conn_open_def session_after_def session_good_def
      shared_inv_others(1) deactivate_def shared_inv_empty)
  have run: "session_good (max_pending_send_bytes h) (run_script sc s)" "close_sent (run_script sc s)"
    "\<not> sh_active (shared (run_script sc s))" for sc
    using s session_after_script [of s sc] by (auto simp: session_after_def)
  from assms have c: "begin_close code reason c = c\<lparr>cn_session := s, cn_closed := True\<rparr>"
    by (simp add: s_def begin_close_def Let_def)
  from assms show ?thesis
    by (auto simp: c notify_close_def conn_done_def conn_open_def s run notify_app_def map_session_def
      butlast_no_close split: option.split)
qed

lemma conn_done_protocol_close: "conn_open h c \<Longrightarrow> conn_done h (protocol_close h code reason c)"
  unfolding protocol_close_def by (rule conn_done_close)


text \<open>A frame keeps an open connection open and legal, or closes it.\<close>

definition conn_inv :: "Handler \<Rightarrow> Connection \<Rightarrow> bool" where
  "conn_inv h c \<longleftrightarrow> conn_open h c \<or> conn_done h c"

lemma conn_open_pong:
  "conn_open h c \<Longrightarrow> conn_open h (map_session (\<lambda>s. snd (send_frame Pong payload s)) c)"
  unfolding map_session_def by (rule conn_open_session [OF _ session_after_frame])

lemma conn_inv_protocol_error: "conn_open h c \<Longrightarrow> conn_inv h (snd (protocol_error h code reason c))"
  by (simp add: protocol_error_def conn_inv_def conn_done_protocol_close)

lemma conn_inv_process_close: "conn_open h c \<Longrightarrow> conn_inv h (snd (process_close h payload c))"
  by (auto simp: process_close_def Let_def conn_inv_protocol_error split: list.split)
     (simp_all add: conn_inv_def conn_done_close)

lemma conn_inv_process_continuation:
  assumes "conn_open h c"
  shows "conn_inv h (snd (process_continuation h fin payload c))"
proof -
  let ?c1 = "c\<lparr>fragmented_payload := fragmented_payload c @ payload\<rparr>"
  consider "\<not> fragmented c \<or> length (fragmented_payload c) + length payload > cn_max_message c"
    | "fragmented c" "length (fragmented_payload c) + length payload \<le> cn_max_message c" "conn_open h ?c1"
    using assms by (fastforce simp: conn_open_def)
  then show ?thesis
  proof cases
    case 1
    with assms show ?thesis by (auto simp: process_continuation_def conn_inv_protocol_error)
  next
    case 2
    have "conn_open h (deliver h (fragmented_opcode c) (fragmented_payload c @ payload) ?c1)"
      if "fragmented_opcode c = Text \<longrightarrow> valid_utf8 (fragmented_payload c @ payload)"
      using that 2 assms by (intro conn_open_deliver) (auto simp: conn_open_def)
    then have "conn_open h ((deliver h (fragmented_opcode c) (fragmented_payload c @ payload) ?c1)
        \<lparr>fragmented_payload := [], fragmented := False, fragmented_opcode := Continuation\<rparr>)"
      if "fragmented_opcode c = Text \<longrightarrow> valid_utf8 (fragmented_payload c @ payload)"
      using that by (auto simp: conn_open_def)
    with 2 assms show ?thesis
      by (auto simp: process_continuation_def Let_def conn_inv_protocol_error) (auto simp: conn_inv_def)
  qed
qed

lemma conn_inv_process_data:
  assumes "conn_open h c" "opc \<in> {Text, Binary}" "length payload \<le> cn_max_message c"
  shows "conn_inv h (snd (process_data h fin opc payload c))"
proof -
  have "conn_open h (deliver h opc payload c)" if "opc = Text \<longrightarrow> valid_utf8 payload"
    using that assms by (intro conn_open_deliver) auto
  moreover have "conn_open h (c\<lparr>fragmented := True, fragmented_opcode := opc, fragmented_payload := payload\<rparr>)"
    using assms by (auto simp: conn_open_def)
  ultimately show ?thesis
    using assms by (auto simp: process_data_def conn_inv_protocol_error) (auto simp: conn_inv_def)
qed

lemma conn_inv_process_frame:
  assumes "conn_open h c" "length payload \<le> cn_max_message c"
  shows "conn_inv h (snd (process_frame h fin opc payload c))"
  using assms conn_open_pong
  by (cases opc) (auto simp: conn_inv_process_close conn_inv_process_continuation conn_inv_process_data conn_inv_def [of h "map_session _ _"] conn_inv_def [of h c])

lemma conn_open_iff: "conn_inv h c \<Longrightarrow> conn_open h c \<longleftrightarrow> \<not> cn_closed c"
  by (auto simp: conn_inv_def conn_open_def conn_done_def)

text \<open>An error always closes the connection, so the loop goes on only from an open one.\<close>

lemma notify_close_closed [simp]: "cn_closed (notify_close h code reason c) = cn_closed c"
  by (auto simp: notify_close_def notify_app_def map_session_def Let_def split: option.split)

lemma protocol_error_closed [simp]: "cn_closed (protocol_close h code reason c)"
  by (simp add: protocol_close_def begin_close_def Let_def)

lemma process_frame_error_closed: "fst (process_frame h fin opc payload c) \<noteq> None \<Longrightarrow> cn_closed (snd (process_frame h fin opc payload c))"
  by (cases opc)
     (auto simp: process_close_def process_continuation_def process_data_def protocol_error_def Let_def
       split: list.splits if_splits)

lemma conn_inv_feed_loop:
  "conn_open h c \<Longrightarrow> feed_loop h input off c = (err, k, c') \<Longrightarrow> conn_inv h c'"
proof (induction h input off c arbitrary: err k c' rule: feed_loop.induct)
  case (1 h input off c)
  show ?case
  proof (cases "parse_frame (cn_max_message c) (drop off input)")
    case Need_more
    with 1(2,3) show ?thesis by (auto simp: feed_loop.simps [of h input] conn_inv_def)
  next
    case (Bad_frame code msg)
    with 1(2,3) show ?thesis
      by (auto simp: feed_loop.simps [of h input] conn_inv_def conn_done_protocol_close)
  next
    case (Frame fin opc payload sz)
    obtain e c1 where pf: "process_frame h fin opc payload c = (e, c1)" by fastforce
    have inv: "conn_inv h c1"
      using conn_inv_process_frame [OF 1(2), of payload fin opc] parse_frame_total [OF Frame] pf by simp
    show ?thesis
    proof (cases "e \<noteq> None \<or> cn_closed c1")
      case True
      with 1(3) Frame pf inv show ?thesis by (auto simp: feed_loop.simps [of h input])
    next
      case False
      with inv have "conn_open h c1" by (simp add: conn_open_iff)
      from 1(1) [OF Frame pf [symmetric] refl False this] 1(3) Frame pf False show ?thesis
        by (simp add: feed_loop.simps [of h input off c])
    qed
  qed
qed


lemma conn_inv_input [simp]:
  "conn_open h (c\<lparr>cn_input := i\<rparr>) = conn_open h c" "conn_done h (c\<lparr>cn_input := i\<rparr>) = conn_done h c"
  "conn_inv h (c\<lparr>cn_input := i\<rparr>) = conn_inv h c"
  by (simp_all add: conn_open_def conn_done_def conn_inv_def)

lemma conn_inv_feed: "conn_inv h c \<Longrightarrow> conn_inv h (snd (feed h data c))"
proof (cases "cn_closed c")
  case False
  assume "conn_inv h c"
  with False have "conn_open h (c\<lparr>cn_input := cn_input c @ data\<rparr>)" by (simp add: conn_open_iff)
  from conn_inv_feed_loop [OF this] show ?thesis
    using False by (auto simp: feed_def Let_def split: prod.split)
qed (simp add: feed_def)

lemma conn_inv_session:
  assumes "conn_inv h c" "session_after (cn_session c) s"
  shows "conn_inv h (c\<lparr>cn_session := s\<rparr>)"
  using assms(1) unfolding conn_inv_def
proof
  assume "conn_open h c"
  from conn_open_session [OF this assms(2)] show "conn_open h (c\<lparr>cn_session := s\<rparr>) \<or> conn_done h (c\<lparr>cn_session := s\<rparr>)" ..
next
  assume "conn_done h c"
  with assms(2) have "conn_done h (c\<lparr>cn_session := s\<rparr>)" by (auto simp: conn_done_def session_after_def)
  then show "conn_open h (c\<lparr>cn_session := s\<rparr>) \<or> conn_done h (c\<lparr>cn_session := s\<rparr>)" ..
qed

lemma session_after_take: "session_after s (snd (take_outbound s))"
  by (simp add: session_after_def session_good_def take_outbound_def session_inv_clear)

lemma session_after_shared:
  "(shared_inv (shared s) \<Longrightarrow> shared_inv sh) \<Longrightarrow> sh_active sh = sh_active (shared s) \<Longrightarrow>
   sh_max_pending sh = sh_max_pending (shared s) \<Longrightarrow> session_after s (s\<lparr>shared := sh\<rparr>)"
  by (simp add: session_after_def session_good_def session_inv_def)

lemma conn_inv_step: "conn_step h c c' \<Longrightarrow> conn_inv h c \<Longrightarrow> conn_inv h c'"
proof (induction rule: conn_step.induct)
  case (step_feed c data)
  then show ?case by (rule conn_inv_feed)
next
  case (step_take c)
  then show ?case
    by (simp add: Connection_take_outbound_def map_session_def conn_inv_session session_after_take)
next
  case (step_drain c)
  let ?s0 = "(cn_session c)\<lparr>shared := snd (take_commands (shared (cn_session c)))\<rparr>"
  have "session_after (cn_session c) ?s0"
    by (rule session_after_shared) (simp_all add: shared_inv_others(2), simp_all add: take_commands_def)
  then have "session_after (cn_session c)
      (snd (take_outbound (fold run_command (fst (take_commands (shared (cn_session c)))) ?s0)))"
    by (meson session_after_trans session_after_commands session_after_take)
  from conn_inv_session [OF step_drain this] show ?case
    by (simp add: drain_external_outbound_def Connection_take_outbound_def map_session_def case_prod_unfold Let_def)
next
  case (step_enqueue kind c payload)
  have "session_after (cn_session c) ((cn_session c)\<lparr>shared := snd (enqueue kind payload (shared (cn_session c)))\<rparr>)"
    by (rule session_after_shared)
       (simp add: shared_inv_enqueue step_enqueue(1), simp_all add: enqueue_def Let_def)
  from conn_inv_session [OF step_enqueue(2) this] show ?case by (simp add: handle_enqueue_def map_session_def)
next
  case (step_enqueue_close c code reason)
  have "session_after (cn_session c)
      ((cn_session c)\<lparr>shared := snd (enqueue_close code reason (shared (cn_session c)))\<rparr>)"
    by (rule session_after_shared) (simp add: shared_inv_enqueue_close, simp_all add: enqueue_close_def)
  from conn_inv_session [OF step_enqueue_close this] show ?case
    by (simp add: handle_enqueue_close_def map_session_def)
qed

lemma session_good_new: "session_good m (new_session m who wakeup tb)"
  by (simp add: session_good_def new_session_def session_inv_clear shared_inv_others(3))
     (simp add: new_shared_def)

lemma conn_inv_new: "conn_inv h (Connection_new h who wakeup tb)"
proof -
  let ?s = "new_session (max_pending_send_bytes h) who wakeup tb"
  have "session_good (max_pending_send_bytes h) (run_script sc ?s)" for sc
    using session_after_script [of ?s sc] session_good_new by (simp add: session_after_def)
  then show ?thesis
    by (simp add: Connection_new_def Let_def conn_inv_def conn_open_def notify_app_def map_session_def
      session_good_new split: option.split)
qed

lemma conn_reachable_inv: "conn_reachable h c \<Longrightarrow> conn_inv h c"
  by (induction rule: conn_reachable.induct) (simp_all add: conn_inv_new conn_inv_step)

section \<open>The close frame on the wire\<close>

text \<open>
  The bytes a connection has handed to its transport so far are a log of the run. The number of close
  frames in a sequence of frames is independent of the session's own flag.
\<close>

inductive conn_output :: "Handler \<Rightarrow> Connection \<Rightarrow> bytes \<Rightarrow> bool" for h where
  output_new: "conn_output h (Connection_new h who wakeup tb) []"
| output_feed: "conn_output h c out \<Longrightarrow> conn_output h (snd (feed h data c)) out"
| output_take: "conn_output h c out \<Longrightarrow> Connection_take_outbound c = (bs, c') \<Longrightarrow> conn_output h c' (out @ bs)"
| output_drain: "conn_output h c out \<Longrightarrow> drain_external_outbound c = (bs, c') \<Longrightarrow> conn_output h c' (out @ bs)"
| output_enqueue: "conn_output h c out \<Longrightarrow> kind \<noteq> Queued_Close \<Longrightarrow> conn_output h (handle_enqueue kind payload c) out"
| output_enqueue_close: "conn_output h c out \<Longrightarrow> conn_output h (handle_enqueue_close code reason c) out"

lemma conn_output_reachable: "conn_output h c out \<Longrightarrow> conn_reachable h c"
proof (induction rule: conn_output.induct)
  case (output_take c out bs c')
  then show ?case using reach_step [OF _ step_take] by (metis snd_conv)
next
  case (output_drain c out bs c')
  then show ?case using reach_step [OF _ step_drain] by (metis snd_conv)
qed (auto intro: conn_reachable.intros conn_step.intros)

definition close_frames :: "(Opcode \<times> bytes) list \<Rightarrow> nat" where
  "close_frames fs = length (filter (\<lambda>f. fst f = Close) fs)"

definition frames_ok :: "nat \<Rightarrow> WsSession \<Rightarrow> bool" where
  "frames_ok n s \<longleftrightarrow> (\<exists>fs. outbound s = frames_bytes fs \<and> n + close_frames fs = (if close_sent s then 1 else 0))"

lemma frames_ok_cong: "outbound s' = outbound s \<Longrightarrow> close_sent s' = close_sent s \<Longrightarrow> frames_ok n s' = frames_ok n s"
  by (simp add: frames_ok_def)

lemma frames_ok_append:
  assumes "frames_ok n s" "outbound s' = outbound s @ encode_frame opc p" "opc \<noteq> Close" "close_sent s' = close_sent s"
  shows "frames_ok n s'"
proof -
  from assms(1) obtain fs where "outbound s = frames_bytes fs" "n + close_frames fs = (if close_sent s then 1 else 0)"
    by (auto simp: frames_ok_def)
  with assms show ?thesis
    unfolding frames_ok_def by (intro exI [of _ "fs @ [(opc, p)]"]) (simp add: frames_bytes_snoc close_frames_def)
qed

lemma frames_ok_close:
  assumes "frames_ok n s"
  shows "frames_ok n (snd (session_close code reason s))"
proof (cases "close_sent s")
  case False
  let ?p = "close_payload code reason"
  from assms False obtain fs where fs: "outbound s = frames_bytes fs" "n = 0" "close_frames fs = 0"
    by (auto simp: frames_ok_def)
  obtain s' where s': "session_close code reason s = (True, s')" "close_sent s'"
    "outbound s' = (if length (outbound s) + 2 + length ?p > max_pending_send s then [] else outbound s) @ encode_frame Close ?p"
    using session_close_open [OF False, of code reason] by blast
  have "\<exists>gs. outbound s' = frames_bytes gs \<and> close_frames gs = 1"
  proof (cases "length (outbound s) + 2 + length ?p > max_pending_send s")
    case True
    with s'(3) show ?thesis by (intro exI [of _ "[(Close, ?p)]"]) (simp add: frames_bytes_def close_frames_def)
  next
    case False
    with s'(3) fs show ?thesis by (intro exI [of _ "fs @ [(Close, ?p)]"]) (simp add: frames_bytes_snoc close_frames_def)
  qed
  with s'(1,2) fs(2) show ?thesis by (simp add: frames_ok_def)
qed (simp add: session_close_sent assms)

lemma frames_ok_send: "frames_ok n s \<Longrightarrow> opc \<noteq> Close \<Longrightarrow> frames_ok n (snd (send_frame opc payload s))"
proof -
  assume s: "frames_ok n s" "opc \<noteq> Close"
  have "frames_ok n (s\<lparr>is_overloaded := True\<rparr>)" using s(1) by (simp add: frames_ok_def)
  note close = frames_ok_close [OF this]
  have "frames_ok n (s\<lparr>outbound := outbound s @ encode_frame opc payload\<rparr>)"
    "frames_ok n (s\<lparr>transport := t, outbound := outbound s @ encode_frame opc payload\<rparr>)" for t
    using frames_ok_append [OF s(1) _ s(2)] by simp_all
  with close show ?thesis by (simp add: send_frame_def Let_def split: option.split)
qed

text \<open>What a step of a connection does to its session keeps the count.\<close>

definition counts_close :: "WsSession \<Rightarrow> WsSession \<Rightarrow> bool" where
  "counts_close s s' \<longleftrightarrow> (\<forall>n. frames_ok n s \<longrightarrow> frames_ok n s')"

lemma counts_close_refl [simp]: "counts_close s s"
  by (simp add: counts_close_def)

lemma counts_close_trans: "counts_close s1 s2 \<Longrightarrow> counts_close s2 s3 \<Longrightarrow> counts_close s1 s3"
  by (simp add: counts_close_def)

lemma counts_close_session:
  "counts_close s (snd (session_close code reason s))" "opc \<noteq> Close \<Longrightarrow> counts_close s (snd (send_frame opc payload s))"
  "counts_close s (snd (session_send_text t s))" "counts_close s (snd (session_send_binary t s))"
  "counts_close s (s\<lparr>shared := sh\<rparr>)"
  by (simp_all add: counts_close_def frames_ok_close frames_ok_send session_send_text_def session_send_binary_def)
     (simp add: frames_ok_def)

lemma counts_close_action: "counts_close s (snd (run_action a s))"
  by (cases a) (simp_all add: counts_close_session)

lemma counts_close_script: "counts_close s (run_script sc s)"
proof (induction sc arbitrary: s)
  case (Cons step steps)
  have "counts_close s (case step s of None \<Rightarrow> s | Some a \<Rightarrow> snd (run_action a s))"
    by (simp add: counts_close_action split: option.split)
  from counts_close_trans [OF this Cons.IH] show ?case by simp
qed simp

lemma counts_close_commands: "counts_close s (fold run_command cmds s)"
proof (induction cmds arbitrary: s)
  case (Cons cmd cmds)
  have "counts_close s (run_command cmd s)"
    by (simp add: run_command_def counts_close_session split: QueuedKind.split)
  from counts_close_trans [OF this Cons.IH] show ?case by simp
qed simp

lemma counts_close_notify: "counts_close (cn_session c) (cn_session (notify_close h code reason c))"
  "counts_close (cn_session c) (cn_session (deliver h opc p c))"
  by (simp_all add: notify_close_def deliver_def notify_app_def map_session_def counts_close_script Let_def split: option.split)

lemma counts_close_begin: "counts_close (cn_session c) (cn_session (begin_close code reason c))"
  using counts_close_trans [OF counts_close_session(1) counts_close_session(5)] counts_close_session(5)
  by (simp add: begin_close_def Let_def)

lemma counts_close_end:
  "counts_close (cn_session c) (cn_session (notify_close h code reason (begin_close code reason c)))"
  by (rule counts_close_trans [OF counts_close_begin counts_close_notify(1)])

lemma counts_close_error: "counts_close (cn_session c) (cn_session (protocol_close h code reason c))"
  "counts_close (cn_session c) (cn_session (snd (protocol_error h code reason c)))"
  by (simp_all add: protocol_error_def protocol_close_def counts_close_end)

lemma counts_close_frame: "counts_close (cn_session c) (cn_session (snd (process_frame h fin opc payload c)))"
proof -
  have "counts_close (cn_session c) (cn_session (snd (process_close h payload c)))"
    by (auto simp: process_close_def Let_def counts_close_error counts_close_end split: list.split)
  moreover have "counts_close (cn_session c) (cn_session (snd (process_continuation h fin payload c)))"
    using counts_close_notify(2) [of "c\<lparr>fragmented_payload := fragmented_payload c @ payload\<rparr>"]
      counts_close_error(2) [of "c\<lparr>fragmented_payload := fragmented_payload c @ payload\<rparr>"]
    by (auto simp: process_continuation_def Let_def counts_close_error)
  moreover have "counts_close (cn_session c) (cn_session (snd (process_data h fin opc payload c)))" for opc
    by (auto simp: process_data_def counts_close_error counts_close_notify)
  ultimately show ?thesis
    by (cases opc) (simp_all add: map_session_def counts_close_session)
qed

lemma counts_close_feed_loop: "feed_loop h input off c = (err, k, c') \<Longrightarrow> counts_close (cn_session c) (cn_session c')"
proof (induction h input off c arbitrary: err k c' rule: feed_loop.induct)
  case (1 h input off c)
  show ?case
  proof (cases "parse_frame (cn_max_message c) (drop off input)")
    case (Frame fin opc payload sz)
    obtain e c1 where pf: "process_frame h fin opc payload c = (e, c1)" by fastforce
    have step: "counts_close (cn_session c) (cn_session c1)" using counts_close_frame [of c h fin opc payload] pf by simp
    show ?thesis
    proof (cases "e \<noteq> None \<or> cn_closed c1")
      case True
      with "1.prems" Frame pf step show ?thesis by (auto simp: feed_loop.simps [of h input off c])
    next
      case False
      with "1.IH" [OF Frame pf [symmetric] refl False] "1.prems" Frame pf step show ?thesis
        by (auto simp: feed_loop.simps [of h input off c] intro: counts_close_trans)
    qed
  qed (use "1.prems" in \<open>auto simp: feed_loop.simps [of h input off c] counts_close_error\<close>)
qed

lemma counts_close_feed: "counts_close (cn_session c) (cn_session (snd (feed h data c)))"
  using counts_close_feed_loop [of h "cn_input c @ data" 0 "c\<lparr>cn_input := cn_input c @ data\<rparr>"]
  by (auto simp: feed_def Let_def split: prod.split)

lemma frames_ok_take:
  assumes "frames_ok (close_frames fs) s" "out = frames_bytes fs"
  shows "\<exists>gs. out @ outbound s = frames_bytes gs \<and> frames_ok (close_frames gs) (s\<lparr>outbound := []\<rparr>)"
proof -
  from assms(1) obtain gs where "outbound s = frames_bytes gs" "close_frames fs + close_frames gs = (if close_sent s then 1 else 0)"
    by (auto simp: frames_ok_def)
  with assms(2) show ?thesis
    by (intro exI [of _ "fs @ gs"]) (auto simp: frames_ok_def frames_bytes_def close_frames_def intro!: exI [of _ "[]"])
qed

lemma conn_output_frames: "conn_output h c out \<Longrightarrow> \<exists>fs. out = frames_bytes fs \<and> frames_ok (close_frames fs) (cn_session c)"
proof (induction rule: conn_output.induct)
  case (output_new who wakeup tb)
  have "frames_ok 0 (new_session (max_pending_send_bytes h) who wakeup tb)"
    by (auto simp: frames_ok_def new_session_def frames_bytes_def close_frames_def intro!: exI [of _ "[]"])
  with counts_close_script have "frames_ok 0 (cn_session (Connection_new h who wakeup tb))"
    by (auto simp: Connection_new_def Let_def notify_app_def map_session_def counts_close_def split: option.split)
  then show ?case by (intro exI [of _ "[]"]) (simp add: frames_bytes_def close_frames_def)
next
  case (output_feed c out data)
  with counts_close_feed [of c h data] show ?case by (auto simp: counts_close_def)
next
  case (output_take c out bs c')
  then obtain fs where "frames_ok (close_frames fs) (cn_session c)" "out = frames_bytes fs" by blast
  from frames_ok_take [OF this] output_take(2) show ?case
    by (auto simp: Connection_take_outbound_def map_session_def take_outbound_def)
next
  case (output_drain c out bs c')
  let ?s = "fold run_command (queued (shared (cn_session c)))
      ((cn_session c)\<lparr>shared := snd (take_commands (shared (cn_session c)))\<rparr>)"
  from output_drain obtain fs where fs: "frames_ok (close_frames fs) (cn_session c)" "out = frames_bytes fs" by blast
  have "counts_close (cn_session c) ?s" by (rule counts_close_trans [OF counts_close_session(5) counts_close_commands])
  with fs(1) have "frames_ok (close_frames fs) ?s" by (simp add: counts_close_def)
  from frames_ok_take [OF this fs(2)] output_drain(2) show ?case
    by (auto simp: drain_external_outbound_def Connection_take_outbound_def map_session_def take_outbound_def take_commands_def Let_def)
next
  case (output_enqueue c out kind payload)
  then show ?case using counts_close_session(5) by (fastforce simp: handle_enqueue_def map_session_def counts_close_def)
next
  case (output_enqueue_close c out code reason)
  then show ?case using counts_close_session(5) by (fastforce simp: handle_enqueue_close_def map_session_def counts_close_def)
qed

section \<open>The input buffer is bounded\<close>

lemma session_max_message [simp]:
  "cn_max_message (map_session f c) = cn_max_message c" "cn_max_message (notify_app ev sc c) = cn_max_message c"
  "cn_max_message (notify_close h code reason c) = cn_max_message c"
  "cn_max_message (begin_close code reason c) = cn_max_message c"
  "cn_max_message (deliver h opc p c) = cn_max_message c"
  by (auto simp: map_session_def notify_app_def notify_close_def begin_close_def deliver_def Let_def split: option.split)

lemma process_frame_max_message [simp]:
  "cn_max_message (snd (process_frame h fin opc payload c)) = cn_max_message c"
  by (cases opc)
     (auto simp: process_close_def process_continuation_def process_data_def protocol_error_def
       protocol_close_def Let_def split: list.splits)

lemma feed_loop_stops:
  "feed_loop h input off c = (err, k, c') \<Longrightarrow> \<not> cn_closed c' \<Longrightarrow>
   err = None \<and> parse_frame (cn_max_message c') (drop k input) = Need_more"
proof (induction h input off c arbitrary: err k c' rule: feed_loop.induct)
  case (1 h input off c)
  show ?case
  proof (cases "parse_frame (cn_max_message c) (drop off input)")
    case (Frame fin opc payload sz)
    obtain e c1 where pf: "process_frame h fin opc payload c = (e, c1)" by fastforce
    show ?thesis
    proof (cases "e \<noteq> None \<or> cn_closed c1")
      case True
      with pf process_frame_error_closed [of h fin opc payload c] 1(2,3) Frame show ?thesis
        by (auto simp: feed_loop.simps [of h input off])
    next
      case False
      from 1(1) [OF Frame pf [symmetric] refl False] 1(2,3) Frame pf False show ?thesis
        by (simp add: feed_loop.simps [of h input off c])
    qed
  qed (use 1(2,3) in \<open>auto simp: feed_loop.simps [of h input off]\<close>)
qed

lemma feed_input_bound:
  assumes "\<not> cn_closed (snd (feed h data c))"
  shows "length (cn_input (snd (feed h data c))) < 14 + cn_max_message (snd (feed h data c))"
proof -
  obtain err k c1 where fl: "feed_loop h (cn_input c @ data) 0 (c\<lparr>cn_input := cn_input c @ data\<rparr>) = (err, k, c1)"
    by (cases "feed_loop h (cn_input c @ data) 0 (c\<lparr>cn_input := cn_input c @ data\<rparr>)") auto
  have "\<not> cn_closed c" using assms by (auto simp: feed_def)
  with fl have f: "snd (feed h data c) = c1\<lparr>cn_input := drop k (cn_input c @ data)\<rparr>"
    by (simp add: feed_def Let_def)
  with assms feed_loop_stops [OF fl] have "parse_frame (cn_max_message c1) (drop k (cn_input c @ data)) = Need_more"
    by simp
  from parse_frame_need_more [OF this] show ?thesis by (simp add: f)
qed


section \<open>The split of the input into reads does not matter\<close>

text \<open>The unread input is not looked at while a frame is processed.\<close>

definition with_input :: "bytes \<Rightarrow> ws_error \<times> Connection \<Rightarrow> ws_error \<times> Connection" where
  "with_input i = map_prod id (\<lambda>c. c\<lparr>cn_input := i\<rparr>)"

lemma input_commutes:
  "notify_app ev sc (c\<lparr>cn_input := i\<rparr>) = (notify_app ev sc c)\<lparr>cn_input := i\<rparr>"
  "begin_close code reason (c\<lparr>cn_input := i\<rparr>) = (begin_close code reason c)\<lparr>cn_input := i\<rparr>"
  by (simp_all add: notify_app_def map_session_def begin_close_def Let_def)

lemma notify_input_commutes:
  "notify_close h code reason (c\<lparr>cn_input := i\<rparr>) = (notify_close h code reason c)\<lparr>cn_input := i\<rparr>"
  "deliver h opc payload (c\<lparr>cn_input := i\<rparr>) = (deliver h opc payload c)\<lparr>cn_input := i\<rparr>"
  "protocol_close h code msg (c\<lparr>cn_input := i\<rparr>) = (protocol_close h code msg c)\<lparr>cn_input := i\<rparr>"
  by (simp_all add: notify_close_def deliver_def protocol_close_def input_commutes Let_def split: option.split)

lemma input_swap:
  "c\<lparr>cn_input := i, fragmented_payload := w\<rparr> = (c :: Connection)\<lparr>fragmented_payload := w, cn_input := i\<rparr>"
  by (cases c) simp

lemma process_frame_input:
  "process_frame h fin opc payload (c\<lparr>cn_input := i\<rparr>) = with_input i (process_frame h fin opc payload c)"
proof -
  have "(deliver h q p (c\<lparr>cn_input := i, fragmented_payload := w\<rparr>)) =
      (deliver h q p (c\<lparr>fragmented_payload := w\<rparr>))\<lparr>cn_input := i\<rparr>" for q p w
    by (simp only: input_swap notify_input_commutes)
  moreover have "protocol_close h q p (c\<lparr>cn_input := i, fragmented_payload := w\<rparr>) =
      (protocol_close h q p (c\<lparr>fragmented_payload := w\<rparr>))\<lparr>cn_input := i\<rparr>" for q p w
    by (simp only: input_swap notify_input_commutes)
  moreover have "x\<lparr>cn_input := i, fragmented_payload := [], fragmented := False, fragmented_opcode := Continuation\<rparr> =
      (x :: Connection)\<lparr>fragmented_payload := [], fragmented := False, fragmented_opcode := Continuation, cn_input := i\<rparr>" for x
    by (cases x) simp
  ultimately show ?thesis
    by (cases opc) (auto simp: with_input_def map_session_def process_close_def process_continuation_def
      process_data_def protocol_error_def input_commutes notify_input_commutes Let_def split: list.split)
qed

lemma feed_loop_input:
  "feed_loop h input off c = (err, k, c') \<Longrightarrow>
   feed_loop h input off (c\<lparr>cn_input := i\<rparr>) = (err, k, c'\<lparr>cn_input := i\<rparr>)"
proof (induction h input off c arbitrary: err k c' rule: feed_loop.induct)
  case (1 h input off c)
  show ?case
  proof (cases "parse_frame (cn_max_message c) (drop off input)")
    case (Frame fin opc payload sz)
    obtain e c1 where pf: "process_frame h fin opc payload c = (e, c1)" by fastforce
    have pfi: "process_frame h fin opc payload (c\<lparr>cn_input := i\<rparr>) = (e, c1\<lparr>cn_input := i\<rparr>)"
      using process_frame_input [of h fin opc payload i c] pf by (simp add: with_input_def)
    show ?thesis
    proof (cases "e \<noteq> None \<or> cn_closed c1")
      case True
      with 1(2) Frame pf pfi show ?thesis by (auto simp: feed_loop.simps [of h input off])
    next
      case False
      from 1(1) [OF Frame pf [symmetric] refl False] 1(2) Frame pf pfi False show ?thesis
        by (simp add: feed_loop.simps [of h input off])
    qed
  qed (use 1(2) in \<open>auto simp: feed_loop.simps [of h input] notify_input_commutes\<close>)
qed

text \<open>More input continues where the loop stopped for want of it.\<close>

lemma feed_loop_append:
  "feed_loop h input off c = (err, k, c') \<Longrightarrow> off \<le> length input \<Longrightarrow> \<not> cn_closed c \<Longrightarrow>
   feed_loop h (input @ data) off c =
     (if cn_closed c' then (err, k, c') else feed_loop h (input @ data) k c')"
proof (induction h input off c arbitrary: err k c' rule: feed_loop.induct)
  case (1 h input off c)
  have d: "drop off (input @ data) = drop off input @ data" using 1(3) by simp
  show ?case
  proof (cases "parse_frame (cn_max_message c) (drop off input)")
    case Need_more
    with 1(2,4) show ?thesis
      by (auto simp: feed_loop.simps [of h input off] feed_loop.simps [of h "input @ data" off])
  next
    case (Bad_frame code msg)
    with 1(2) d parse_frame_extend [of "cn_max_message c" "drop off input" data] show ?thesis
      by (auto simp: feed_loop.simps [of h input off] feed_loop.simps [of h "input @ data" off])
  next
    case (Frame fin opc payload sz)
    obtain e c1 where pf: "process_frame h fin opc payload c = (e, c1)" by fastforce
    have full: "parse_frame (cn_max_message c) (drop off (input @ data)) = Frame fin opc payload sz"
      using parse_frame_extend [of "cn_max_message c" "drop off input" data] Frame d by simp
    show ?thesis
    proof (cases "e \<noteq> None \<or> cn_closed c1")
      case True
      moreover from True have "cn_closed c1" using process_frame_error_closed [of h fin opc payload c] pf by auto
      ultimately show ?thesis using 1(2) Frame full pf
        by (auto simp: feed_loop.simps [of h input off] feed_loop.simps [of h "input @ data" off])
    next
      case False
      have "off + sz \<le> length input" using parse_frame_total [OF Frame] 1(3) by (simp add: le_diff_conv2 add.commute)
      with 1(1) [OF Frame pf [symmetric] refl False] 1(2) Frame full pf False show ?thesis
        by (simp add: feed_loop.simps [of h input off] feed_loop.simps [of h "input @ data" off])
    qed
  qed
qed


lemma feed_loop_shift:
  "feed_loop h tail off c = (err, k, c') \<Longrightarrow> tail = drop j input \<Longrightarrow>
   \<exists>k'. feed_loop h input (j + off) c = (err, k', c') \<and> (cn_closed c' \<or> k' = j + k)"
proof (induction h tail off c arbitrary: err k c' rule: feed_loop.induct)
  case (1 h tail off c)
  have d: "drop off tail = drop (j + off) input" by (simp add: 1(3) add.commute)
  show ?case
  proof (cases "parse_frame (cn_max_message c) (drop off tail)")
    case (Frame fin opc payload sz)
    obtain e c1 where pf: "process_frame h fin opc payload c = (e, c1)" by fastforce
    show ?thesis
    proof (cases "e \<noteq> None \<or> cn_closed c1")
      case True
      with 1(2) Frame d pf process_frame_error_closed [of h fin opc payload c] show ?thesis
        by (auto simp: feed_loop.simps [of h tail off] feed_loop.simps [of h input "j + off"])
    next
      case False
      have "feed_loop h tail off c = feed_loop h tail (off + sz) c1"
        using Frame pf False by (simp add: feed_loop.simps [of h tail off])
      moreover have "feed_loop h input (j + off) c = feed_loop h input (j + (off + sz)) c1"
        using Frame d pf False by (simp add: feed_loop.simps [of h input "j + off"] add.assoc)
      ultimately show ?thesis using 1(1) [OF Frame pf [symmetric] refl False _ 1(3)] 1(2) by simp
    qed
  qed (use 1(2) d in \<open>auto simp: feed_loop.simps [of h tail] feed_loop.simps [of h input]\<close>)
qed

lemma feed_loop_erased: "feed_loop h input off c = (err, k, c') \<Longrightarrow> off \<le> length input \<Longrightarrow> k \<le> length input"
proof (induction h input off c arbitrary: err k c' rule: feed_loop.induct)
  case (1 h input off c)
  show ?case
  proof (cases "parse_frame (cn_max_message c) (drop off input)")
    case (Frame fin opc payload sz)
    obtain e c1 where pf: "process_frame h fin opc payload c = (e, c1)" by fastforce
    have le: "off + sz \<le> length input"
      using parse_frame_total [OF Frame] 1(3) by (simp add: le_diff_conv2 add.commute)
    show ?thesis
    proof (cases "e \<noteq> None \<or> cn_closed c1")
      case True
      with 1(2) Frame pf le show ?thesis by (auto simp: feed_loop.simps [of h input off])
    next
      case False
      from 1(1) [OF Frame pf [symmetric] refl False] 1(2) Frame pf le False show ?thesis
        by (simp add: feed_loop.simps [of h input off])
    qed
  qed (use 1(2,3) in \<open>auto simp: feed_loop.simps [of h input]\<close>)
qed

text \<open>A call of \<^verbatim>\<open>feed\<close> on an open connection, by its loop on the connection itself.\<close>

lemma feed_by_loop:
  assumes "\<not> cn_closed c" "feed_loop h (cn_input c @ data) 0 c = (err, k, c')"
  shows "feed h data c = (err, c'\<lparr>cn_input := drop k (cn_input c @ data)\<rparr>)"
  using assms(1) feed_loop_input [OF assms(2), of "cn_input c @ data"] by (simp add: feed_def Let_def)

definition same_connection :: "Connection \<Rightarrow> Connection \<Rightarrow> bool" where
  "same_connection c d \<longleftrightarrow> c\<lparr>cn_input := []\<rparr> = d\<lparr>cn_input := []\<rparr> \<and> (cn_closed c \<or> cn_input c = cn_input d)"

lemma feed_two_reads:
  assumes "feed h a c = (e1, c1)" "feed h b c1 = (e2, c2)" "feed h (a @ b) c = (e, c')"
  shows "e = (if e1 = None then e2 else e1) \<and> same_connection c' c2"
proof (cases "cn_closed c")
  case True
  with assms show ?thesis by (auto simp: feed_def same_connection_def)
next
  case open_c: False
  let ?i = "cn_input c @ a"
  obtain k cl where fl: "feed_loop h ?i 0 c = (e1, k, cl)" and c1: "c1 = cl\<lparr>cn_input := drop k ?i\<rparr>"
    using feed_by_loop [OF open_c, of h a] assms(1) by (cases "feed_loop h ?i 0 c") auto
  have app: "feed_loop h (?i @ b) 0 c = (if cn_closed cl then (e1, k, cl) else feed_loop h (?i @ b) k cl)"
    using feed_loop_append [OF fl _ open_c] by simp
  show ?thesis
  proof (cases "cn_closed cl")
    case True
    with app open_c feed_by_loop [OF open_c, of h "a @ b"] assms(3)
    have c': "e = e1" "c' = cl\<lparr>cn_input := drop k (?i @ b)\<rparr>" by simp_all
    from True c1 assms(2) have "e2 = None" "c2 = c1" by (simp_all add: feed_def)
    with True c' c1 show ?thesis by (simp add: same_connection_def)
  next
    case False
    with feed_loop_stops [OF fl] have "e1 = None" by simp
    have "k \<le> length ?i" using feed_loop_erased [OF fl] by simp
    then have i2: "cn_input c1 @ b = drop k (?i @ b)" using c1 by simp
    obtain k2 c2' where fl2: "feed_loop h (drop k (?i @ b)) 0 cl = (e2, k2, c2')"
      and c2: "c2 = c2'\<lparr>cn_input := drop k2 (drop k (?i @ b))\<rparr>"
    proof -
      obtain e3 k3 c3 where l: "feed_loop h (drop k (?i @ b)) 0 cl = (e3, k3, c3)"
        by (cases "feed_loop h (drop k (?i @ b)) 0 cl") auto
      from feed_loop_input [OF l, of "drop k ?i"] have "feed_loop h (cn_input c1 @ b) 0 c1 = (e3, k3, c3\<lparr>cn_input := drop k ?i\<rparr>)"
        by (simp only: i2 c1 [symmetric])
      from feed_by_loop [OF _ this] False c1 assms(2) i2 l that show ?thesis by simp
    qed
    from feed_loop_shift [OF fl2 refl] obtain k' where
      fl3: "feed_loop h (?i @ b) k cl = (e2, k', c2')" "cn_closed c2' \<or> k' = k + k2" by auto
    from feed_by_loop [OF open_c, of h "a @ b"] app False fl3(1) assms(3)
    have "e = e2" "c' = c2'\<lparr>cn_input := drop k' (?i @ b)\<rparr>" by simp_all
    moreover have "drop k2 (drop k (?i @ b)) = drop (k + k2) (?i @ b)" by (simp only: drop_drop add.commute)
    ultimately show ?thesis using c2 fl3(2) \<open>e1 = None\<close>
      by (auto simp: same_connection_def simp del: drop_append append_assoc drop_drop)
  qed
qed


text \<open>The owning shard calls \<^verbatim>\<open>feed\<close> for every read; the first error is the one reported.\<close>

fun feed_all :: "Handler \<Rightarrow> bytes list \<Rightarrow> Connection \<Rightarrow> ws_error \<times> Connection" where
  "feed_all h [] c = (None, c)"
| "feed_all h (d # ds) c =
     (let (e1, c1) = feed h d c; (e2, c2) = feed_all h ds c1 in (if e1 = None then e2 else e1, c2))"

lemma feed_all_snoc:
  "feed_all h (ds @ [d]) c =
     (let (e1, c1) = feed_all h ds c; (e2, c2) = feed h d c1 in (if e1 = None then e2 else e1, c2))"
  by (induction ds arbitrary: c) (auto simp: Let_def case_prod_unfold prod_eq_iff)

lemma same_connection_closed: "same_connection c d \<Longrightarrow> cn_closed c = cn_closed d"
  by (cases c, cases d) (simp add: same_connection_def)

lemma same_connection_open: "same_connection c d \<Longrightarrow> \<not> cn_closed c \<Longrightarrow> c = d"
  by (cases c, cases d) (auto simp: same_connection_def)

lemma feed_same: "same_connection c d \<Longrightarrow> fst (feed h x c) = fst (feed h x d) \<and> same_connection (snd (feed h x c)) (snd (feed h x d))"
proof (cases "cn_closed c")
  case True
  assume "same_connection c d"
  with True show ?thesis using same_connection_closed [of c d] by (simp add: feed_def)
next
  case False
  assume "same_connection c d"
  with same_connection_open [OF this False] show ?thesis by (simp add: same_connection_def)
qed

lemma same_connection_trans: "same_connection a b \<Longrightarrow> same_connection b c \<Longrightarrow> same_connection a c"
  using same_connection_closed [of a b] by (auto simp: same_connection_def)

lemma feed_all_concat:
  "fst (feed h (concat (d # ds)) c) = fst (feed_all h (d # ds) c) \<and>
   same_connection (snd (feed h (concat (d # ds)) c)) (snd (feed_all h (d # ds) c))"
proof (induction ds rule: rev_induct)
  case Nil
  show ?case by (simp add: case_prod_unfold Let_def same_connection_def)
next
  case (snoc x ds)
  let ?big = "feed h (concat (d # ds)) c" and ?all = "feed_all h (d # ds) c"
  have two: "fst (feed h (concat (d # ds) @ x) c) = (if fst ?big = None then fst (feed h x (snd ?big)) else fst ?big)"
    "same_connection (snd (feed h (concat (d # ds) @ x) c)) (snd (feed h x (snd ?big)))"
    using feed_two_reads [of h "concat (d # ds)" c "fst ?big" "snd ?big" x] by (simp_all add: prod_eq_iff)
  have last: "feed_all h (d # ds @ [x]) c = (if fst ?all = None then fst (feed h x (snd ?all)) else fst ?all, snd (feed h x (snd ?all)))"
    using feed_all_snoc [of h "d # ds" x c] by (simp only: append_Cons Let_def case_prod_unfold)
  from feed_same [of "snd ?big" "snd ?all" h x] snoc.IH two last same_connection_trans show ?case
    by (simp only: concat.simps concat_append append_Nil2 append_assoc fst_conv snd_conv)
qed

section \<open>A message in fragments is delivered once and whole\<close>

lemma data_opcodes: "\<not> is_control Continuation" "\<not> is_control Text" "\<not> is_control Binary"
  by code_simp+

fun continuation_frames :: "(bytes \<times> bytes) list \<Rightarrow> bytes" where
  "continuation_frames [] = []"
| "continuation_frames ((key, p) # fs) = client_frame (fs = []) Continuation key p @ continuation_frames fs"

definition message_frames :: "Opcode \<Rightarrow> (bytes \<times> bytes) list \<Rightarrow> bytes" where
  "message_frames opc fs = client_frame (tl fs = []) opc (fst (hd fs)) (snd (hd fs)) @ continuation_frames (tl fs)"

definition message_of :: "(bytes \<times> bytes) list \<Rightarrow> bytes" where
  "message_of fs = concat (map snd fs)"

lemma feed_loop_frame:
  assumes "drop off input = client_frame fin opc key p @ rest" "length key = 4" "length p \<le> cn_max_message c"
    "length p < 2 ^ 63" "\<not> is_control opc" "process_frame h fin opc p c = (None, c1)" "\<not> cn_closed c1"
  shows "feed_loop h input off c = feed_loop h input (off + length (client_frame fin opc key p)) c1"
    and "drop (off + length (client_frame fin opc key p)) input = rest"
proof -
  show "feed_loop h input off c = feed_loop h input (off + length (client_frame fin opc key p)) c1"
    using assms parse_client_frame [of key p "cn_max_message c" opc fin rest]
    by (simp add: feed_loop.simps [of h input off])
  show "drop (off + length (client_frame fin opc key p)) input = rest"
    using arg_cong [OF assms(1), of "drop (length (client_frame fin opc key p))"] by (simp add: add.commute)
qed

lemma feed_loop_end: "drop off input = [] \<Longrightarrow> feed_loop h input off c = (None, off, c)"
  by (simp add: feed_loop.simps [of h input] parse_frame_def)

definition delivered_in :: "Handler \<Rightarrow> Opcode \<Rightarrow> bytes \<Rightarrow> Connection \<Rightarrow> Connection \<Rightarrow> bool" where
  "delivered_in h opc msg c c' \<longleftrightarrow> cn_session c' = cn_session (deliver h opc msg c) \<and>
     cn_log c' = cn_log (deliver h opc msg c) \<and> \<not> fragmented c' \<and> cn_closed c' = cn_closed c"

lemma deliver_frame:
  "cn_closed (deliver h opc msg c) = cn_closed c" "fragmented (deliver h opc msg c) = fragmented c"
  "cn_session (deliver h opc msg (c\<lparr>fragmented_payload := w\<rparr>)) = cn_session (deliver h opc msg c)"
  "cn_log (deliver h opc msg (c\<lparr>fragmented_payload := w\<rparr>)) = cn_log (deliver h opc msg c)"
  by (simp_all add: deliver_def notify_app_def map_session_def split: option.split)

lemma feed_loop_continuation:
  assumes "fs \<noteq> []" "drop off input = continuation_frames fs" "fragmented c" "fragmented_opcode c = opc"
    "\<not> cn_closed c" "list_all (\<lambda>f. length (fst f) = 4) fs"
    "msg = fragmented_payload c @ message_of fs" "length msg \<le> cn_max_message c" "length msg < 2 ^ 63"
    "opc = Text \<longrightarrow> valid_utf8 msg"
  shows "\<exists>k c'. feed_loop h input off c = (None, k, c') \<and> drop k input = [] \<and> delivered_in h opc msg c c'"
  using assms
proof (induction fs arbitrary: off c)
  case (Cons f fs)
  obtain key p where f: "f = (key, p)" by fastforce
  let ?c1 = "c\<lparr>fragmented_payload := fragmented_payload c @ p\<rparr>"
  have size: "length p \<le> cn_max_message c" "length p < 2 ^ 63"
    "length (fragmented_payload c) + length p \<le> cn_max_message c"
    using Cons.prems(7-9) by (simp_all add: f message_of_def)
  note frame = feed_loop_frame [OF _ _ size(1,2), where opc = Continuation and h = h and input = input]
  show ?case
  proof (cases "fs = []")
    case True
    let ?c2 = "(deliver h opc msg ?c1)\<lparr>fragmented_payload := [], fragmented := False, fragmented_opcode := Continuation\<rparr>"
    have msg: "fragmented_payload c @ p = msg" using Cons.prems(7) by (simp add: f True message_of_def)
    have pf: "process_frame h True Continuation p c = (None, ?c2)"
      using Cons.prems size(3) msg by (auto simp: process_continuation_def Let_def)
    have "feed_loop h input off c = (None, off + length (client_frame True Continuation key p), ?c2)"
      "drop (off + length (client_frame True Continuation key p)) input = []"
      using frame [of off True key "[]" ?c2] Cons.prems(2,5,6) pf feed_loop_end
      by (simp_all add: f True data_opcodes deliver_frame)
    moreover have "delivered_in h opc msg c ?c2" by (simp add: delivered_in_def deliver_frame)
    ultimately show ?thesis by blast
  next
    case False
    have pf: "process_frame h False Continuation p c = (None, ?c1)"
      using Cons.prems(3) size(3) by (simp add: process_continuation_def)
    let ?off = "off + length (client_frame False Continuation key p)"
    have step: "feed_loop h input off c = feed_loop h input ?off ?c1" "drop ?off input = continuation_frames fs"
      using frame [of off False key "continuation_frames fs" ?c1] Cons.prems(2,5,6) pf False
      by (simp_all add: f data_opcodes)
    have "\<exists>k c'. feed_loop h input ?off ?c1 = (None, k, c') \<and> drop k input = [] \<and> delivered_in h opc msg ?c1 c'"
      using Cons.prems False step(2) by (intro Cons.IH) (simp_all add: f message_of_def)
    then show ?thesis by (simp add: step(1) delivered_in_def deliver_frame)
  qed
qed simp


lemma feed_message:
  assumes "fs \<noteq> []" "\<not> cn_closed c" "\<not> fragmented c" "cn_input c = []" "opc \<in> {Text, Binary}"
    "list_all (\<lambda>f. length (fst f) = 4) fs" "length (message_of fs) \<le> cn_max_message c"
    "length (message_of fs) < 2 ^ 63" "opc = Text \<longrightarrow> valid_utf8 (message_of fs)"
  shows "fst (feed h (message_frames opc fs) c) = None \<and> cn_input (snd (feed h (message_frames opc fs) c)) = [] \<and>
    delivered_in h opc (message_of fs) c (snd (feed h (message_frames opc fs) c))"
proof -
  obtain key p gs where fs: "fs = (key, p) # gs" using assms(1) by (cases fs) auto
  let ?m = "message_frames opc fs"
  have m: "drop 0 ?m = client_frame (gs = []) opc key p @ continuation_frames gs" by (simp add: message_frames_def fs)
  have size: "length p \<le> cn_max_message c" "length p < 2 ^ 63" using assms(7,8) by (simp_all add: fs message_of_def)
  note frame = feed_loop_frame [OF m _ size, where h = h]
  have "\<exists>k c'. feed_loop h ?m 0 c = (None, k, c') \<and> drop k ?m = [] \<and> delivered_in h opc (message_of fs) c c'"
  proof (cases "gs = []")
    case True
    have "process_frame h True opc p c = (None, deliver h opc p c)"
      using assms(3,5,9) by (auto simp: process_data_def fs True message_of_def)
    then show ?thesis
      using frame [of "deliver h opc p c"] assms(2,3,5,6) feed_loop_end
      by (auto simp: True fs data_opcodes deliver_frame delivered_in_def message_of_def)
  next
    case False
    let ?c1 = "c\<lparr>fragmented := True, fragmented_opcode := opc, fragmented_payload := p\<rparr>"
    have "process_frame h False opc p c = (None, ?c1)" using assms(3,5) by (auto simp: process_data_def)
    then have step: "feed_loop h ?m 0 c = feed_loop h ?m (length (client_frame False opc key p)) ?c1"
      "drop (length (client_frame False opc key p)) ?m = continuation_frames gs"
      using frame [of ?c1] assms(2,5,6) False by (auto simp: fs data_opcodes)
    have "\<exists>k c'. feed_loop h ?m (length (client_frame False opc key p)) ?c1 = (None, k, c') \<and> drop k ?m = [] \<and>
        delivered_in h opc (message_of fs) ?c1 c'"
      using assms step(2) False by (intro feed_loop_continuation) (auto simp: fs message_of_def)
    moreover have "delivered_in h opc msg ?c1 c' = delivered_in h opc msg c c'" for msg c'
      by (simp add: delivered_in_def deliver_def notify_app_def map_session_def split: option.split)
    ultimately show ?thesis by (simp add: step(1))
  qed
  then show ?thesis using feed_by_loop [OF assms(2), of h ?m] assms(4) by (auto simp: delivered_in_def)
qed

lemma reachable_input_bound: "conn_reachable h c \<Longrightarrow> \<not> cn_closed c \<Longrightarrow> length (cn_input c) < 14 + max_message_bytes h"
proof (induction rule: conn_reachable.induct)
  case (reach_new who wakeup tb)
  show ?case by (simp add: Connection_new_def Let_def notify_app_def map_session_def split: option.split)
next
  case (reach_step c c')
  have "conn_inv h c'" using reach_step(1,2) conn_reachable_inv conn_inv_step by blast
  then have max: "cn_max_message c' = max_message_bytes h" by (auto simp: conn_inv_def conn_open_def conn_done_def)
  from reach_step(2) show ?case
  proof cases
    case (step_feed data)
    with feed_input_bound [of h data c] reach_step(4) max show ?thesis by simp
  qed (use reach_step(3,4) in \<open>simp_all add: Connection_take_outbound_def drain_external_outbound_def
      handle_enqueue_def handle_enqueue_close_def map_session_def case_prod_unfold Let_def\<close>)
qed

section \<open>Properties\<close>

text \<open>
  C3: whatever a client sends and whatever other threads queue, and as long as the application's callbacks return, a
  connection stays within its limits: the outbound buffer holds whole frames within the pending limit (or one close
  frame), the commands other threads queued, the message under reassembly and the unread input are bounded; the
  application only ever sees text or binary messages within the size limit with text in valid UTF-8 and is told of the
  close at most once; all that was handed to the transport and is still buffered is a sequence of frames with at most one
  close frame, and exactly one once the connection is closed, which then accepts no more commands.
\<close>

theorem ws_connection_invariant:
  assumes "conn_output h c out"
  shows "length (outbound (cn_session c)) \<le> max (max_pending_send_bytes h) 127 \<and>
    sum_list (map cmd_size (queued (shared (cn_session c)))) \<le> max_pending_send_bytes h \<and>
    length (fragmented_payload c) \<le> max_message_bytes h \<and>
    (cn_closed c \<or> length (cn_input c) < 14 + max_message_bytes h) \<and>
    list_all (event_ok (max_message_bytes h)) (cn_log c) \<and>
    length (filter is_close_event (cn_log c)) \<le> 1 \<and>
    (\<exists>fs. out @ outbound (cn_session c) = frames_bytes fs \<and> close_frames fs \<le> 1 \<and> (cn_closed c \<longrightarrow> close_frames fs = 1)) \<and>
    (if cn_closed c then \<not> sh_active (shared (cn_session c)) else \<not> list_ex is_close_event (cn_log c))"
proof -
  have none: "\<not> list_ex is_close_event xs \<Longrightarrow> filter is_close_event xs = []" for xs
    by (simp add: list_ex_iff filter_empty_conv)
  have once: "length (filter is_close_event xs) \<le> 1" if "\<not> list_ex is_close_event (butlast xs)" for xs
    using that none [of "butlast xs"] by (cases xs rule: rev_cases) auto
  have reach: "conn_reachable h c" by (rule conn_output_reachable [OF assms])
  then have inv: "conn_inv h c" by (rule conn_reachable_inv)
  obtain fs where fs: "out = frames_bytes fs" "frames_ok (close_frames fs) (cn_session c)"
    using conn_output_frames [OF assms] by blast
  then obtain gs where gs: "outbound (cn_session c) = frames_bytes gs"
    "close_frames fs + close_frames gs = (if close_sent (cn_session c) then 1 else 0)" by (auto simp: frames_ok_def)
  have "close_sent (cn_session c)" if "cn_closed c" using inv that by (auto simp: conn_inv_def conn_open_def conn_done_def)
  with fs(1) gs have wire: "\<exists>fs. out @ outbound (cn_session c) = frames_bytes fs \<and> close_frames fs \<le> 1 \<and> (cn_closed c \<longrightarrow> close_frames fs = 1)"
    by (intro exI [of _ "fs @ gs"]) (auto simp: frames_bytes_def close_frames_def split: if_splits)
  show ?thesis
    using inv wire reachable_input_bound [OF reach] once [of "cn_log c"] none [of "cn_log c"]
    by (auto simp: conn_inv_def conn_open_def conn_done_def session_good_def session_inv_def shared_inv_def)
qed

definition echo_handler :: Handler where
  "echo_handler = \<lparr>on_open = None,
     on_message = Some (\<lambda>log opc p. [\<lambda>s. Some (if opc = Text then Act_text p else Act_binary p)]),
     on_close = Some (\<lambda>log code reason. []), max_message_bytes = 16, max_pending_send_bytes = 64\<rparr>"

definition hello_frames :: "(bytes \<times> bytes) list" where
  "hello_frames = [([1, 2, 3, 4], [72, 101]), ([5, 6, 7, 8], [108, 108, 111])]"

text \<open>A message is echoed, the client closes, and the transport takes everything.\<close>

definition closed_demo :: "bytes \<times> Connection" where
  "closed_demo = Connection_take_outbound (snd (feed echo_handler (client_frame True Close [1, 2, 3, 4] [])
     (snd (feed echo_handler (message_frames Text hello_frames) (Connection_new echo_handler [] False None)))))"

theorem ws_connection_invariant_witness:
  "cn_closed (snd closed_demo) \<and>
   fst closed_demo = encode_frame Text [72, 101, 108, 108, 111] @ encode_frame Close (close_payload 1000 []) \<and>
   (\<exists>fs. fst closed_demo = frames_bytes fs \<and> close_frames fs = 1) \<and>
   list_all (event_ok (max_message_bytes echo_handler)) (cn_log (snd closed_demo))"
proof -
  have o: "conn_output echo_handler (snd closed_demo) ([] @ fst closed_demo)"
    unfolding closed_demo_def by (rule output_take [OF output_feed [OF output_feed [OF output_new]]]) simp
  note inv = ws_connection_invariant [OF o]
  have "cn_closed (snd closed_demo)" "outbound (cn_session (snd closed_demo)) = []"
    "fst closed_demo = encode_frame Text [72, 101, 108, 108, 111] @ encode_frame Close (close_payload 1000 [])"
    by code_simp+
  with inv show ?thesis by auto
qed

text \<open>
  C4: how the network splits the client's bytes into reads is invisible. Feeding any sequence of
  reads reports the error, and leaves the session, the application's event log and the reassembly
  state, that feeding their concatenation at once does; the unread input is the same as long as the
  connection is open.
\<close>

theorem ws_feed_chunking:
  "case feed_all h (d # ds) c of (e1, c1) \<Rightarrow> case feed h (concat (d # ds)) c of (e2, c2) \<Rightarrow>
     e2 = e1 \<and> c2\<lparr>cn_input := []\<rparr> = c1\<lparr>cn_input := []\<rparr> \<and> (cn_closed c2 \<or> cn_input c2 = cn_input c1)"
  using feed_all_concat [of h d ds c] by (simp only: case_prod_unfold same_connection_def)

text \<open>
  C5: a text or binary message that a client sends in any number of masked fragments, read by the
  server in any pieces, is delivered to the application once, whole and unmasked, and nothing else
  changes than what the application's callback does.
\<close>

theorem ws_message_reassembled:
  assumes "conn_reachable h c" "\<not> cn_closed c" "\<not> fragmented c" "cn_input c = []"
    and "opc = Text \<or> opc = Binary" "fs \<noteq> []" "list_all (\<lambda>f. length (fst f) = 4) fs"
    and "length (message_of fs) \<le> max_message_bytes h" "length (message_of fs) < 2 ^ 63"
    and "opc = Text \<longrightarrow> valid_utf8 (message_of fs)"
    and "concat (d # ds) = message_frames opc fs"
  shows "case feed_all h (d # ds) c of (e, c') \<Rightarrow> e = None \<and> cn_input c' = [] \<and> \<not> fragmented c' \<and> \<not> cn_closed c' \<and>
    cn_log c' = cn_log c @ (if on_message h = None then [] else [Ev_message opc (message_of fs)]) \<and>
    cn_session c' = (case on_message h of None \<Rightarrow> cn_session c
      | Some f \<Rightarrow> run_script (f (cn_log c) opc (message_of fs)) (cn_session c))"
proof -
  let ?all = "feed_all h (d # ds) c" and ?one = "feed h (message_frames opc fs) c"
  have "cn_max_message c = max_message_bytes h"
    using conn_reachable_inv [OF assms(1)] by (auto simp: conn_inv_def conn_open_def conn_done_def)
  then have one: "fst ?one = None" "cn_input (snd ?one) = []" "delivered_in h opc (message_of fs) c (snd ?one)"
    using feed_message [of fs c opc h] assms by auto
  have "\<not> cn_closed (snd ?one)" using one(3) assms(2) by (simp add: delivered_in_def)
  moreover have "fst ?one = fst ?all" "same_connection (snd ?one) (snd ?all)"
    using feed_all_concat [of h d ds c] unfolding assms(11) by blast+
  ultimately have "snd ?all = snd ?one" "fst ?all = None"
    using same_connection_open [of "snd ?one" "snd ?all"] one(1) by metis+
  with one assms(2) show ?thesis
    by (auto simp: case_prod_unfold delivered_in_def deliver_def notify_app_def map_session_def
      simp del: feed_all.simps split: option.split)
qed

theorem ws_message_reassembled_witness:
  "case feed_all echo_handler [take 5 (message_frames Text hello_frames), drop 5 (message_frames Text hello_frames)]
      (Connection_new echo_handler [] False None)
   of (e, c') \<Rightarrow> e = None \<and> cn_log c' = [Ev_message Text [72, 101, 108, 108, 111]]"
proof -
  let ?c = "Connection_new echo_handler [] False None"
  have c: "\<not> cn_closed ?c" "\<not> fragmented ?c" "cn_input ?c = []" "cn_log ?c = []"
    by (simp_all add: Connection_new_def echo_handler_def)
  have m: "message_of hello_frames = [72, 101, 108, 108, 111]" by (simp add: message_of_def hello_frames_def)
  have u: "valid_utf8 (message_of hello_frames)" by code_simp
  let ?m = "message_frames Text hello_frames"
  have "list_all (\<lambda>f. length (fst f) = 4) hello_frames" "hello_frames \<noteq> []"
    "length (message_of hello_frames) \<le> max_message_bytes echo_handler" "on_message echo_handler \<noteq> None"
    by (simp_all add: m) (simp_all add: hello_frames_def echo_handler_def)
  then show ?thesis
    using ws_message_reassembled [of echo_handler ?c Text hello_frames "take 5 ?m" "[drop 5 ?m]", OF reach_new] c u
    by (auto simp: m case_prod_unfold simp del: feed_all.simps)
qed

text \<open>The reason of a close frame is cut after 123 bytes, also inside a character.\<close>

lemma close_reason_cut_inside_character:
  "\<exists>reason. valid_utf8 reason \<and> \<not> valid_utf8 (drop 2 (close_payload 1000 reason))"
proof -
  have ascii: "valid_utf8 (replicate n 97 @ bs) = valid_utf8 bs" for n bs by (induction n) (simp_all add: valid_utf8.simps(2) byte_le_iff)
  have "valid_utf8 [0xc3, 0xa9]" "\<not> valid_utf8 [0xc3]"
    by (simp_all add: valid_utf8.simps(2) utf8_lead_def utf8_value_ok_def utf8_continue.simps byte_le_iff)
  then have "valid_utf8 (replicate 122 97 @ [0xc3, 0xa9])" "\<not> valid_utf8 (replicate 122 97 @ [0xc3])"
    by (simp_all only: ascii not_False_eq_True)
  moreover have "drop 2 (close_payload 1000 (replicate 122 97 @ [0xc3, 0xa9])) = replicate 122 97 @ [0xc3]"
    by (simp add: close_payload_def)
  ultimately show ?thesis by metis
qed

end
