(* ===== verification/Ws_Handshake.thy ===== *)
theory Ws_Handshake
  imports Route_Tree Ws_Connection
begin

text \<open>
  The opening handshake of a WebSocket connection: the header checks of
  \<^verbatim>\<open>src/websocket/websocket.cpp\<close> and the upgrade handler that \<^verbatim>\<open>src/core/shard.cpp\<close> installs.
  OpenSSL's \<^verbatim>\<open>EVP_DecodeBlock\<close>, \<^verbatim>\<open>SHA1\<close> and \<^verbatim>\<open>EVP_EncodeBlock\<close> are parameters; the first returns
  its result and the number of bytes it wrote to its output buffer.
\<close>

definition ascii_iequals :: "string \<Rightarrow> string \<Rightarrow> bool" where
  "ascii_iequals left right \<longleftrightarrow>
     length left = length right \<and> list_all2 (\<lambda>x y. tolower x = tolower y) left right"

definition blank_or_tab :: "char \<Rightarrow> bool" where
  "blank_or_tab c \<longleftrightarrow> byte_of c = 32 \<or> byte_of c = 9"

function has_token :: "string \<Rightarrow> string \<Rightarrow> bool" where
  "has_token value wanted =
     (if value = [] then False
      else
        let comma = find_ch CHR '','' value;
            token = trim_by blank_or_tab (substr_upto comma value)
        in if token \<noteq> [] \<and> ascii_iequals token wanted then True
           else case comma of None \<Rightarrow> False | Some k \<Rightarrow> has_token (drop (k + 1) value) wanted)"
  by pat_completeness auto
termination
  by (relation "measure (\<lambda>(v, w). length v)") (auto dest: find_ch_SomeD(1))

declare has_token.simps [simp del]

definition is_upgrade_attempt :: "request \<Rightarrow> bool" where
  "is_upgrade_attempt req =
     (case request_header req ''upgrade'' of None \<Rightarrow> False | Some u \<Rightarrow> has_token u ''websocket'')"

record HandshakeDecision =
  accepted :: bool
  rejection_status :: int
  rejection_body :: string
  hd_principal :: string

definition decision_allow :: "string \<Rightarrow> HandshakeDecision" where
  "decision_allow who = \<lparr>accepted = True, rejection_status = 403, rejection_body = ''Forbidden'', hd_principal = who\<rparr>"

definition decision_reject :: "int \<Rightarrow> string \<Rightarrow> HandshakeDecision" where
  "decision_reject status body =
     \<lparr>accepted = False, rejection_status = status, rejection_body = body, hd_principal = []\<rparr>"

definition origin_authorizer :: "string list \<Rightarrow> bool \<Rightarrow> request \<Rightarrow> HandshakeDecision" where
  "origin_authorizer origins allow_missing_origin req =
     (case request_header req ''origin'' of
        None \<Rightarrow> if allow_missing_origin then decision_allow []
                else decision_reject 403 ''Missing WebSocket Origin''
      | Some origin \<Rightarrow>
          if origin \<in> set origins then decision_allow []
          else decision_reject 403 ''WebSocket Origin is not allowed'')"

function offers_token :: "string \<Rightarrow> string \<Rightarrow> bool" where
  "offers_token preferred remaining =
     (if remaining = [] then False
      else
        let comma = find_ch CHR '','' remaining;
            token = trim_by blank_or_tab (substr_upto comma remaining)
        in if token = preferred then True
           else case comma of None \<Rightarrow> False | Some k \<Rightarrow> offers_token preferred (drop (k + 1) remaining))"
  by pat_completeness auto
termination
  by (relation "measure (\<lambda>(p, v). length v)") (auto dest: find_ch_SomeD(1))

declare offers_token.simps [simp del]

definition select_subprotocol :: "request \<Rightarrow> string list \<Rightarrow> string option" where
  "select_subprotocol req supported =
     (case request_header req ''sec-websocket-protocol'' of
        None \<Rightarrow> None
      | Some header \<Rightarrow> find (\<lambda>preferred. offers_token preferred header) supported)"

section \<open>Validating the request\<close>

type_synonym evp_decode = "string \<Rightarrow> int \<times> nat"

record crypto =
  evp_decode_block :: evp_decode
  sha1 :: "string \<Rightarrow> nat list"
  evp_encode_block :: "nat list \<Rightarrow> string"

definition websocket_guid :: string where
  "websocket_guid = ''258EAFA5-E914-47DA-95CA-C5AB0DC85B11''"

definition key_padding :: "string \<Rightarrow> nat" where
  "key_padding key = (if ends_with key ''=='' then 2 else if ends_with key ''='' then 1 else 0)"

definition upgrade_error :: "string \<Rightarrow> ((nat \<times> string) + string) result" where
  "upgrade_error msg = Inr (Inl (1002, msg))"

definition validate_upgrade_request :: "crypto \<Rightarrow> request \<Rightarrow> ((nat \<times> string) + string) result" where
  "validate_upgrade_request cr req =
     (let upgrade = request_header req ''upgrade'';
          connection = request_header req ''connection'';
          version = request_header req ''sec-websocket-version'';
          key = request_header req ''sec-websocket-key''
      in if req_method req \<noteq> ''GET'' then upgrade_error ''WebSocket upgrade requires GET''
         else if upgrade = None \<or> \<not> has_token (the upgrade) ''websocket'' \<or> connection = None \<or>
                 \<not> has_token (the connection) ''upgrade''
         then upgrade_error ''Invalid WebSocket upgrade headers''
         else if version \<noteq> Some ''13'' then upgrade_error ''Unsupported WebSocket version''
         else case key of
           None \<Rightarrow> upgrade_error ''Missing Sec-WebSocket-Key''
         | Some key \<Rightarrow>
             (let (decoded_size, written) = evp_decode_block cr key; padding = key_padding key
              in if written > 32 then Inl (Undefined_behaviour ''decoded overflows'')
                 else if decoded_size < 0 \<or> decoded_size < int padding \<or> decoded_size - int padding \<noteq> 16
                 then upgrade_error ''Invalid Sec-WebSocket-Key''
                 else Inr (Inr (evp_encode_block cr (sha1 cr (key @ websocket_guid))))))"

section \<open>The upgrade handler of a shard\<close>

record WsEndpoint =
  authorize :: "(request \<Rightarrow> HandshakeDecision) option"
  subprotocols :: "string list"
  require_subprotocol :: bool
  ep_handler :: Handler

datatype UpgradeResult =
    NotWebSocketRoute
  | Upgrade_accepted WsEndpoint string string
  | Upgrade_rejected int string

definition websocket_upgrade_handler :: "('h, WsEndpoint) router \<Rightarrow> request \<Rightarrow> UpgradeResult \<times> request" where
  "websocket_upgrade_handler r req =
     (case match_websocket r (req_path req) of
        (None, _) \<Rightarrow> (NotWebSocketRoute, req)
      | (Some ep, params) \<Rightarrow>
          let req = req\<lparr>req_path_params := params\<rparr>;
              subprotocol = select_subprotocol req (subprotocols ep);
              chosen = (case subprotocol of None \<Rightarrow> [] | Some p \<Rightarrow> p)
          in if require_subprotocol ep \<and> subprotocol = None
             then (Upgrade_rejected 400 ''Required WebSocket subprotocol was not offered'', req)
             else case authorize ep of
               Some auth \<Rightarrow>
                 let decision = auth req
                 in if \<not> accepted decision
                    then (Upgrade_rejected (rejection_status decision) (rejection_body decision), req)
                    else (Upgrade_accepted ep (hd_principal decision) chosen, req)
             | None \<Rightarrow> (Upgrade_accepted ep [] chosen, req))"

section \<open>Header lists\<close>

lemma has_token_iff:
  "has_token v w \<longleftrightarrow> (\<exists>s\<in>set (segs CHR '','' v). trim_by blank_or_tab s \<noteq> [] \<and> ascii_iequals (trim_by blank_or_tab s) w)"
proof (induction v w rule: has_token.induct)
  case (1 v w)
  then show ?case
    by (subst has_token.simps, subst segs.simps) (auto simp: Let_def substr_upto_def split: option.split)
qed

lemma offers_token_iff:
  "offers_token p v \<longleftrightarrow> p \<in> set (map (trim_by blank_or_tab) (segs CHR '','' v))"
proof (induction p v rule: offers_token.induct)
  case (1 p v)
  then show ?case
    by (subst offers_token.simps, subst segs.simps) (auto simp: Let_def substr_upto_def split: option.split)
qed


definition header_lists :: "request \<Rightarrow> string \<Rightarrow> string \<Rightarrow> bool" where
  "header_lists req name token \<longleftrightarrow> (\<exists>v. request_header req name = Some v \<and>
     (\<exists>s\<in>set (segs CHR '','' v). trim_by blank_or_tab s \<noteq> [] \<and>
        map tolower (trim_by blank_or_tab s) = map tolower token))"

lemma ascii_iequals_iff: "ascii_iequals a b \<longleftrightarrow> map tolower a = map tolower b"
  using names_equal_iff by (simp add: ascii_iequals_def names_equal_def)

lemma header_lists_token: "header_lists req name token \<longleftrightarrow> (\<exists>v. request_header req name = Some v \<and> has_token v token)"
  by (auto simp: header_lists_def has_token_iff ascii_iequals_iff)

lemma select_subprotocol_sound:
  assumes "select_subprotocol req supported = Some p"
  shows "p \<in> set supported \<and> (\<exists>v. request_header req ''sec-websocket-protocol'' = Some v \<and>
    p \<in> set (map (trim_by blank_or_tab) (segs CHR '','' v)))"
  using assms by (auto simp: select_subprotocol_def offers_token_iff split: option.splits dest!: find_Some_split)

section \<open>Properties\<close>

text \<open>
  What the opening handshake checks: a GET request whose first Upgrade header lists \<^verbatim>\<open>websocket\<close> and whose first
  Connection header lists \<^verbatim>\<open>upgrade\<close> (without regard to case, anywhere in the comma separated lists), version
  13 and a key that decodes to 16 bytes; the answer is the encoded digest of the key and the protocol's GUID. The
  Host header and the HTTP version are not looked at, and a list spread over several headers of one name is read
  only up to the first of them. The key must be short enough for the buffer it is decoded into.
\<close>

lemma validate_upgrade_iff:
  assumes "\<And>k. snd (evp_decode_block cr k) \<le> 3 * (length k div 4)"
    and "\<And>key. request_header req ''sec-websocket-key'' = Some key \<Longrightarrow> length key \<le> 43"
  shows "validate_upgrade_request cr req = Inr (Inr accept) \<longleftrightarrow>
    req_method req = ''GET'' \<and> header_lists req ''upgrade'' ''websocket'' \<and> header_lists req ''connection'' ''upgrade'' \<and>
    request_header req ''sec-websocket-version'' = Some ''13'' \<and>
    (\<exists>key. request_header req ''sec-websocket-key'' = Some key \<and>
       fst (evp_decode_block cr key) = 16 + int (key_padding key) \<and>
       accept = evp_encode_block cr (sha1 cr (key @ websocket_guid)))"
proof (cases "request_header req ''sec-websocket-key''")
  case None
  then show ?thesis by (auto simp: validate_upgrade_request_def upgrade_error_def Let_def)
next
  case (Some key)
  have "length key div 4 \<le> 10" using assms(2) [OF Some] by simp
  then have "\<not> snd (evp_decode_block cr key) > 32" using assms(1) [of key] by simp
  with Some show ?thesis
    by (auto simp: validate_upgrade_request_def upgrade_error_def header_lists_token Let_def case_prod_unfold
      split: if_splits)
qed

definition upgrade_request :: "string \<Rightarrow> request" where
  "upgrade_request key = empty_request\<lparr>req_method := ''GET'', req_path := ''/chat'', req_headers :=
     [\<lparr>hname = ''Upgrade'', hvalue = ''WebSocket''\<rparr>, \<lparr>hname = ''Connection'', hvalue = ''keep-alive, Upgrade''\<rparr>,
      \<lparr>hname = ''Sec-WebSocket-Version'', hvalue = ''13''\<rparr>, \<lparr>hname = ''Sec-WebSocket-Key'', hvalue = key\<rparr>]\<rparr>"

definition toy_crypto :: crypto where
  "toy_crypto = \<lparr>evp_decode_block = (\<lambda>k. if length k mod 4 = 0 then (int (3 * (length k div 4)), 3 * (length k div 4)) else (-1, 0)),
     sha1 = (\<lambda>t. map of_char t), evp_encode_block = (\<lambda>d. ''digest'')\<rparr>"

lemma upgrade_request_fields:
  "request_header (upgrade_request key) ''sec-websocket-key'' = Some key"
  "request_header (upgrade_request key) ''sec-websocket-version'' = Some ''13''"
  "request_header (upgrade_request key) ''upgrade'' = Some ''WebSocket''"
  "request_header (upgrade_request key) ''connection'' = Some ''keep-alive, Upgrade''"
  "req_method (upgrade_request key) = ''GET''"
  by (simp_all add: upgrade_request_def request_header_def names_equal_iff tolower_def char_of_eq_iff)

lemma upgrade_request_tokens:
  "has_token ''WebSocket'' ''websocket''" "has_token ''keep-alive, Upgrade'' ''upgrade''"
  by code_simp+

lemma sample_handshake:
  "validate_upgrade_request toy_crypto (upgrade_request ''dGhlIHNhbXBsZSBub25jZQ=='') = Inr (Inr ''digest'')"
proof -
  have "key_padding ''dGhlIHNhbXBsZSBub25jZQ=='' = 2" by code_simp
  then show ?thesis
    using validate_upgrade_iff [of toy_crypto "upgrade_request ''dGhlIHNhbXBsZSBub25jZQ==''" "''digest''"]
    by (simp add: upgrade_request_fields header_lists_token upgrade_request_tokens toy_crypto_def)
qed


definition chat_endpoint :: WsEndpoint where
  "chat_endpoint = \<lparr>authorize = Some (\<lambda>r. decision_allow ''ada''), subprotocols = [''v1''], require_subprotocol = True,
     ep_handler = echo_handler\<rparr>"

definition chat_router :: "(nat, WsEndpoint) router" where
  "chat_router = (case register_all empty_router [Reg_ws ''/chat'' chat_endpoint] of Inr r \<Rightarrow> r | Inl _ \<Rightarrow> empty_router)"

definition chat_request :: request where
  "chat_request = empty_request\<lparr>req_method := ''GET'', req_path := ''/chat'',
     req_headers := [\<lparr>hname = ''Sec-WebSocket-Protocol'', hvalue = ''v2, v1''\<rparr>]\<rparr>"


text \<open>
  The length of the key is not checked before it is decoded into 32 bytes: a well-formed key of 44
  or more characters writes past the end.
\<close>

lemma ws_long_key_overflows:
  assumes "snd (evp_decode_block cr key) = 3 * (length key div 4)" "44 \<le> length key"
  shows "validate_upgrade_request cr (upgrade_request key) = Inl (Undefined_behaviour ''decoded overflows'')"
proof -
  have "snd (evp_decode_block cr key) > 32" using assms div_le_mono [OF assms(2), of 4] by simp
  then show ?thesis
    by (simp add: validate_upgrade_request_def upgrade_request_fields upgrade_request_tokens Let_def case_prod_unfold)
qed

end
