(* ===== verification/Sse_Channel.thy ===== *)
theory Sse_Channel
  imports Http_Message
begin

text \<open>
  Server-sent events (\<^verbatim>\<open>include/novaboot/http/sse.h\<close>): the encoder of one event and the bounded
  queue between publishers and the connection that streams it. The encoder is checked against a
  reader of the event stream format as a browser's EventSource interprets it.
\<close>

section \<open>Encoding an event\<close>

record Event =
  ev_data :: string
  ev_event :: "string option"
  ev_id :: "string option"
  ev_retry :: "nat option"
  ev_comment :: "string option"


definition valid_single_line :: "string option \<Rightarrow> bool" where
  "valid_single_line v = (case v of None \<Rightarrow> True | Some s \<Rightarrow> find_ch CR s = None \<and> find_ch LF s = None)"

definition pop_cr :: "string \<Rightarrow> string" where
  "pop_cr line = (if line \<noteq> [] \<and> last line = CR then butlast line else line)"

text \<open>One field per line of a text; the text after the last line feed is a line too, even if empty.\<close>

function field_lines :: "string \<Rightarrow> string \<Rightarrow> string" where
  "field_lines field s =
     (let end = find_ch LF s;
          line = pop_cr (substr_upto end s);
          encoded = field @ (if line \<noteq> [] then CHR '' '' # line else []) @ [LF]
      in case end of None \<Rightarrow> encoded | Some n \<Rightarrow> encoded @ field_lines field (drop (n + 1) s))"
  by pat_completeness auto
termination by (relation "measure (\<lambda>(f, s). length s)") (auto dest!: find_ch_SomeD(1) [OF sym])

declare field_lines.simps [simp del]

datatype EncodeError = InvalidField

definition encode :: "Event \<Rightarrow> EncodeError + string" where
  "encode e =
     (if \<not> valid_single_line (ev_event e) \<or> \<not> valid_single_line (ev_id e) then Inl InvalidField
      else Inr
        ((case ev_comment e of None \<Rightarrow> [] | Some c \<Rightarrow> field_lines '':'' c)
         @ (case ev_event e of None \<Rightarrow> [] | Some n \<Rightarrow> ''event: '' @ n @ [LF])
         @ (case ev_id e of None \<Rightarrow> [] | Some i \<Rightarrow> ''id: '' @ i @ [LF])
         @ (case ev_retry e of None \<Rightarrow> [] | Some r \<Rightarrow> ''retry: '' @ to_string_nat r @ [LF])
         @ field_lines ''data:'' (ev_data e) @ [LF]))"

definition configure_response :: "response \<Rightarrow> response" where
  "configure_response res =
     Response_header (Response_header (Response_header (Response_status res 200)
       ''content-type'' ''text/event-stream; charset=utf-8'') ''cache-control'' ''no-cache'')
       ''x-accel-buffering'' ''no''"

definition sse_open :: "response \<Rightarrow> nat \<Rightarrow> response" where
  "sse_open res channel = Response_event_stream (configure_response res) channel"

section \<open>Channel\<close>

record Channel =
  max_pending_events :: nat
  ch_max_pending_bytes :: nat
  pending :: "string list"
  ch_pending_bytes :: nat
  ch_closed :: bool

datatype PublishResult = Publish_Accepted | Publish_Closed | Backpressured | InvalidEvent

definition new_channel :: "nat \<Rightarrow> nat \<Rightarrow> Channel" where
  "new_channel events bytes = \<lparr>max_pending_events = events, ch_max_pending_bytes = bytes, pending = [],
     ch_pending_bytes = 0, ch_closed = False\<rparr>"

definition publish :: "Event \<Rightarrow> Channel \<Rightarrow> PublishResult \<times> Channel" where
  "publish e ch =
     (case encode e of
        Inl _ \<Rightarrow> (InvalidEvent, ch)
      | Inr encoded \<Rightarrow>
          if ch_closed ch then (Publish_Closed, ch)
          else if length (pending ch) \<ge> max_pending_events ch \<or>
                  length encoded > ch_max_pending_bytes ch - ch_pending_bytes ch
          then (Backpressured, ch)
          else (Publish_Accepted, ch\<lparr>ch_pending_bytes := ch_pending_bytes ch + length encoded,
                                     pending := pending ch @ [encoded]\<rparr>))"

definition take_next :: "Channel \<Rightarrow> string option \<times> Channel" where
  "take_next ch =
     (case pending ch of
        [] \<Rightarrow> (None, ch)
      | e # es \<Rightarrow> (Some e, ch\<lparr>pending := es, ch_pending_bytes := ch_pending_bytes ch - length e\<rparr>))"

definition channel_close :: "Channel \<Rightarrow> Channel" where
  "channel_close ch = ch\<lparr>ch_closed := True\<rparr>"

section \<open>Reading an event stream\<close>

text \<open>
  The interpretation an EventSource client follows: lines end at a line feed, a carriage return or
  both; an empty line dispatches an event with the collected data unless there is none.
\<close>

fun es_lines :: "string \<Rightarrow> string \<Rightarrow> string list" where
  "es_lines cur [] = []"
| "es_lines cur (c # s) =
     (if c = LF then cur # es_lines [] s
      else if c = CR then cur # (if s \<noteq> [] \<and> hd s = LF then es_lines [] (tl s) else es_lines [] s)
      else es_lines (cur @ [c]) s)"

record es_state =
  es_type :: string
  es_data :: string
  es_last_id :: string

record es_event =
  got_type :: string
  got_data :: string
  got_id :: string

definition es_field :: "string \<Rightarrow> string \<times> string" where
  "es_field line = (case find_ch CHR '':'' line of
       None \<Rightarrow> (line, [])
     | Some n \<Rightarrow> (take n line,
         let v = drop (n + 1) line in if v \<noteq> [] \<and> hd v = CHR '' '' then tl v else v))"

definition es_apply :: "string \<Rightarrow> es_state \<Rightarrow> es_state" where
  "es_apply line st =
     (case es_field line of (name, value) \<Rightarrow>
        if name = ''event'' then st\<lparr>es_type := value\<rparr>
        else if name = ''data'' then st\<lparr>es_data := es_data st @ value @ [LF]\<rparr>
        else if name = ''id'' \<and> CHR 0x00 \<notin> set value then st\<lparr>es_last_id := value\<rparr>
        else st)"

fun es_run :: "es_state \<Rightarrow> string list \<Rightarrow> es_event list" where
  "es_run st [] = []"
| "es_run st (l # ls) =
     (if l \<noteq> [] then es_run (es_apply l st) ls
      else (if es_data st = [] then [] else [\<lparr>got_type = es_type st, got_data = butlast (es_data st), got_id = es_last_id st\<rparr>])
           @ es_run (st\<lparr>es_type := [], es_data := []\<rparr>) ls)"

definition event_source :: "string \<Rightarrow> es_event list" where
  "event_source s = es_run \<lparr>es_type = [], es_data = [], es_last_id = []\<rparr> (es_lines [] s)"


section \<open>What a reader sees of an encoded event\<close>

lemma es_lines_line: "CR \<notin> set l \<Longrightarrow> LF \<notin> set l \<Longrightarrow> es_lines cur (l @ LF # t) = (cur @ l) # es_lines [] t"
  by (induction l arbitrary: cur) auto

lemma es_lines_empty: "es_lines [] (LF # t) = [] # es_lines [] t"
  by simp

function lf_split :: "string \<Rightarrow> string list" where
  "lf_split s = (case find_ch LF s of None \<Rightarrow> [s] | Some n \<Rightarrow> take n s # lf_split (drop (n + 1) s))"
  by pat_completeness auto
termination by (relation "measure length") (auto dest!: find_ch_SomeD(1))

declare lf_split.simps [simp del]

definition field_line :: "string \<Rightarrow> string \<Rightarrow> string" where
  "field_line field line = field @ (if line \<noteq> [] then CHR '' '' # line else [])"

lemma lf_split_lines: "l \<in> set (lf_split s) \<Longrightarrow> LF \<notin> set l \<and> set l \<subseteq> set s"
proof (induction s rule: lf_split.induct)
  case (1 s)
  show ?case
  proof (cases "find_ch LF s")
    case None
    with 1(2) show ?thesis by (simp add: lf_split.simps [of s] find_ch_None)
  next
    case (Some n)
    from 1(2) Some have "l = take n s \<or> l \<in> set (lf_split (drop (n + 1) s))" by (simp add: lf_split.simps [of s])
    with 1(1) [OF Some] find_ch_SomeD(3) [OF Some] show ?thesis
      by (auto dest: in_set_takeD in_set_dropD)
  qed
qed

lemma lf_split_join: "concat (map (\<lambda>l. l @ [LF]) (lf_split s)) = s @ [LF]"
proof (induction s rule: lf_split.induct)
  case (1 s)
  show ?case
  proof (cases "find_ch LF s")
    case None
    then show ?thesis by (simp add: lf_split.simps [of s])
  next
    case (Some n)
    from find_ch_SomeD(2) [OF Some] 1 [OF Some] Some show ?thesis
      by (simp add: lf_split.simps [of s])
  qed
qed

lemma pop_cr_id: "CR \<notin> set l \<Longrightarrow> pop_cr l = l"
  unfolding pop_cr_def using last_in_set [of l] by metis

lemma field_lines_split:
  "CR \<notin> set s \<Longrightarrow> field_lines field s = concat (map (\<lambda>l. field_line field l @ [LF]) (lf_split s))"
proof (induction field s rule: field_lines.induct)
  case (1 field s)
  have pop: "pop_cr (substr_upto e s) = substr_upto e s" for e
    using 1(2) by (intro pop_cr_id) (auto simp: substr_upto_def split: option.splits dest: in_set_takeD)
  show ?case
  proof (cases "find_ch LF s")
    case None
    with pop show ?thesis by (simp add: field_lines.simps [of field s] lf_split.simps [of s] field_line_def substr_upto_def)
  next
    case (Some n)
    have "CR \<notin> set (drop (n + 1) s)" using 1(2) by (auto dest: in_set_dropD)
    with 1(1) [OF refl refl refl Some] Some pop show ?thesis
      by (simp add: field_lines.simps [of field s] lf_split.simps [of s] field_line_def substr_upto_def Let_def)
  qed
qed

lemma es_lines_fields:
  "\<forall>l\<in>set ls. CR \<notin> set (g l) \<and> LF \<notin> set (g l) \<Longrightarrow>
   es_lines [] (concat (map (\<lambda>l. g l @ [LF]) ls) @ t) = map g ls @ es_lines [] t"
  by (induction ls) (simp_all add: es_lines_line)

lemma es_lines_field_lines:
  assumes "CR \<notin> set s" "CR \<notin> set field" "LF \<notin> set field"
  shows "es_lines [] (field_lines field s @ t) = map (field_line field) (lf_split s) @ es_lines [] t"
proof -
  have "\<forall>l\<in>set (lf_split s). CR \<notin> set (field_line field l) \<and> LF \<notin> set (field_line field l)"
    using assms by (auto simp: field_line_def dest: lf_split_lines)
  from es_lines_fields [OF this] assms(1) show ?thesis by (simp add: field_lines_split)
qed

lemma es_field_colon: "CHR '':'' \<notin> set n \<Longrightarrow> es_field (n @ '': '' @ v) = (n, v)"
  using find_ch_append [of "CHR '':''" n "CHR '' '' # v"] by (simp add: es_field_def)

lemma es_apply_data: "es_apply (field_line ''data:'' l) st = st\<lparr>es_data := es_data st @ l @ [LF]\<rparr>"
proof -
  have "es_field (field_line ''data:'' l) = (''data'', l)"
    using es_field_colon [of "''data''" l]
    by (cases "l = []") (simp_all add: field_line_def, simp add: es_field_def find_ch_def)
  then show ?thesis by (simp add: es_apply_def)
qed

lemma es_run_data:
  "es_run st (map (field_line ''data:'') ls @ rest) =
     es_run (st\<lparr>es_data := es_data st @ concat (map (\<lambda>l. l @ [LF]) ls)\<rparr>) rest"
proof (induction ls arbitrary: st)
  case (Cons l ls)
  have "field_line ''data:'' l \<noteq> []" by (simp add: field_line_def)
  with Cons show ?case by (simp add: es_apply_data)
qed simp

lemma es_run_comment: "es_run st (map (field_line '':'') ls @ rest) = es_run st rest"
proof (induction ls)
  case (Cons l ls)
  have "fst (es_field (field_line '':'' l)) = []" "field_line '':'' l \<noteq> []"
    by (simp_all add: field_line_def es_field_def find_ch_def)
  then have "es_apply (field_line '':'' l) st = st" by (simp add: es_apply_def case_prod_unfold)
  with Cons \<open>field_line '':'' l \<noteq> []\<close> show ?case by simp
qed simp

definition sse_clean :: "Event \<Rightarrow> bool" where
  "sse_clean e \<longleftrightarrow> valid_single_line (ev_event e) \<and> valid_single_line (ev_id e) \<and> CR \<notin> set (ev_data e) \<and>
     (case ev_comment e of None \<Rightarrow> True | Some c \<Rightarrow> CR \<notin> set c) \<and>
     (case ev_id e of None \<Rightarrow> True | Some i \<Rightarrow> CHR 0x00 \<notin> set i)"

definition expected_id :: "string \<Rightarrow> Event \<Rightarrow> string" where
  "expected_id prev e = (case ev_id e of None \<Rightarrow> prev | Some i \<Rightarrow> i)"

fun expected_events :: "string \<Rightarrow> Event list \<Rightarrow> es_event list" where
  "expected_events prev [] = []"
| "expected_events prev (e # es) =
     \<lparr>got_type = (case ev_event e of None \<Rightarrow> [] | Some n \<Rightarrow> n), got_data = ev_data e, got_id = expected_id prev e\<rparr>
     # expected_events (expected_id prev e) es"

definition encoded :: "Event \<Rightarrow> string" where
  "encoded e = (case encode e of Inr s \<Rightarrow> s | Inl _ \<Rightarrow> [])"

lemma to_string_nat_no_eol: "CR \<notin> set (to_string_nat n)" "LF \<notin> set (to_string_nat n)"
  using to_string_nat_digits [of n] by (auto simp: isdigit_def)

text \<open>The lines of an encoded event, and what they do to the reader's state.\<close>

lemma es_lines_encoded:
  assumes "sse_clean e"
  shows "es_lines [] (encoded e @ t) =
     (case ev_comment e of None \<Rightarrow> [] | Some c \<Rightarrow> map (field_line '':'') (lf_split c))
     @ (case ev_event e of None \<Rightarrow> [] | Some n \<Rightarrow> [''event: '' @ n])
     @ (case ev_id e of None \<Rightarrow> [] | Some i \<Rightarrow> [''id: '' @ i])
     @ (case ev_retry e of None \<Rightarrow> [] | Some r \<Rightarrow> [''retry: '' @ to_string_nat r])
     @ map (field_line ''data:'') (lf_split (ev_data e)) @ [] # es_lines [] t"
proof -
  have single: "es_lines [] (p @ n @ LF # u) = (p @ n) # es_lines [] u"
    if "CR \<notin> set (p @ n)" "LF \<notin> set (p @ n)" for p n u
    using es_lines_line [of "p @ n" "[]" u] that by simp
  have data: "es_lines [] (field_lines ''data:'' (ev_data e) @ LF # t) =
      map (field_line ''data:'') (lf_split (ev_data e)) @ [] # es_lines [] t"
    using assms es_lines_field_lines [of "ev_data e" "''data:''" "LF # t"] by (simp add: sse_clean_def)
  have com: "es_lines [] ((case ev_comment e of None \<Rightarrow> [] | Some c \<Rightarrow> field_lines '':'' c) @ u) =
      (case ev_comment e of None \<Rightarrow> [] | Some c \<Rightarrow> map (field_line '':'') (lf_split c)) @ es_lines [] u" for u
    using assms es_lines_field_lines [of _ "'':''" u] by (auto simp: sse_clean_def split: option.splits)
  have ev: "es_lines [] ((case ev_event e of None \<Rightarrow> [] | Some n \<Rightarrow> ''event: '' @ n @ [LF]) @ u) =
      (case ev_event e of None \<Rightarrow> [] | Some n \<Rightarrow> [''event: '' @ n]) @ es_lines [] u" for u
    using assms single [of "''event: ''" _ u]
    by (auto simp: sse_clean_def valid_single_line_def find_ch_None split: option.splits)
  have ident: "es_lines [] ((case ev_id e of None \<Rightarrow> [] | Some i \<Rightarrow> ''id: '' @ i @ [LF]) @ u) =
      (case ev_id e of None \<Rightarrow> [] | Some i \<Rightarrow> [''id: '' @ i]) @ es_lines [] u" for u
    using assms single [of "''id: ''" _ u]
    by (auto simp: sse_clean_def valid_single_line_def find_ch_None split: option.splits)
  have retry: "es_lines [] ((case ev_retry e of None \<Rightarrow> [] | Some r \<Rightarrow> ''retry: '' @ to_string_nat r @ [LF]) @ u) =
      (case ev_retry e of None \<Rightarrow> [] | Some r \<Rightarrow> [''retry: '' @ to_string_nat r]) @ es_lines [] u" for u
    using single [of "''retry: ''" _ u] by (simp add: to_string_nat_no_eol split: option.split)
  have "encoded e @ t = (case ev_comment e of None \<Rightarrow> [] | Some c \<Rightarrow> field_lines '':'' c) @
      (case ev_event e of None \<Rightarrow> [] | Some n \<Rightarrow> ''event: '' @ n @ [LF]) @
      (case ev_id e of None \<Rightarrow> [] | Some i \<Rightarrow> ''id: '' @ i @ [LF]) @
      (case ev_retry e of None \<Rightarrow> [] | Some r \<Rightarrow> ''retry: '' @ to_string_nat r @ [LF]) @
      field_lines ''data:'' (ev_data e) @ LF # t"
    using assms by (simp add: encoded_def encode_def sse_clean_def)
  then show ?thesis by (simp only: com ev ident retry data)
qed


lemma es_run_encoded:
  assumes "sse_clean e"
  shows "es_run \<lparr>es_type = [], es_data = [], es_last_id = prev\<rparr> (es_lines [] (encoded e @ t)) =
     \<lparr>got_type = (case ev_event e of None \<Rightarrow> [] | Some n \<Rightarrow> n), got_data = ev_data e, got_id = expected_id prev e\<rparr>
     # es_run \<lparr>es_type = [], es_data = [], es_last_id = expected_id prev e\<rparr> (es_lines [] t)"
proof -
  have ev: "es_apply (''event: '' @ n) st = st\<lparr>es_type := n\<rparr>" for n st
    using es_field_colon [of "''event''" n] by (simp add: es_apply_def)
  have ident: "es_apply (''id: '' @ i) st = st\<lparr>es_last_id := i\<rparr>" if "CHR 0x00 \<notin> set i" for i st
    using es_field_colon [of "''id''" i] that by (simp add: es_apply_def)
  have retry: "es_apply (''retry: '' @ r) st = st" for r st
    using es_field_colon [of "''retry''" r] by (simp add: es_apply_def)
  have com: "es_run st ((case ev_comment e of None \<Rightarrow> [] | Some c \<Rightarrow> map (field_line '':'') (lf_split c)) @ rest) =
      es_run st rest" for st rest
    by (simp add: es_run_comment split: option.split)
  have evs: "es_run st ((case ev_event e of None \<Rightarrow> [] | Some n \<Rightarrow> [''event: '' @ n]) @ rest) =
      es_run (case ev_event e of None \<Rightarrow> st | Some n \<Rightarrow> st\<lparr>es_type := n\<rparr>) rest" for st rest
    using ev by (simp split: option.split)
  have ids: "es_run st ((case ev_id e of None \<Rightarrow> [] | Some i \<Rightarrow> [''id: '' @ i]) @ rest) =
      es_run (st\<lparr>es_last_id := expected_id (es_last_id st) e\<rparr>) rest" for st rest
    using ident assms by (auto simp: sse_clean_def expected_id_def split: option.splits)
  have rts: "es_run st ((case ev_retry e of None \<Rightarrow> [] | Some r \<Rightarrow> [''retry: '' @ to_string_nat r]) @ rest) =
      es_run st rest" for st rest
    using retry by (simp split: option.split)
  show ?thesis
    by (simp only: es_lines_encoded [OF assms] com evs ids rts es_run_data lf_split_join)
       (auto split: option.split)
qed

section \<open>The queue\<close>

definition channel_inv :: "Channel \<Rightarrow> bool" where
  "channel_inv ch \<longleftrightarrow> ch_pending_bytes ch = sum_list (map length (pending ch)) \<and>
     ch_pending_bytes ch \<le> ch_max_pending_bytes ch \<and> length (pending ch) \<le> max_pending_events ch"

datatype channel_op = Op_publish Event | Op_take | Op_close

record channel_trace =
  tr_channel :: Channel
  tr_accepted :: "string list"
  tr_taken :: "string list"

fun channel_step :: "channel_op \<Rightarrow> channel_trace \<Rightarrow> channel_trace" where
  "channel_step (Op_publish e) tr =
     (let (r, ch) = publish e (tr_channel tr)
      in tr\<lparr>tr_channel := ch,
            tr_accepted := tr_accepted tr @ (if r = Publish_Accepted then [encoded e] else [])\<rparr>)"
| "channel_step Op_take tr =
     (let (r, ch) = take_next (tr_channel tr)
      in tr\<lparr>tr_channel := ch, tr_taken := tr_taken tr @ (case r of None \<Rightarrow> [] | Some e \<Rightarrow> [e])\<rparr>)"
| "channel_step Op_close tr = tr\<lparr>tr_channel := channel_close (tr_channel tr)\<rparr>"

definition trace_inv :: "nat \<Rightarrow> nat \<Rightarrow> channel_trace \<Rightarrow> bool" where
  "trace_inv events bytes tr \<longleftrightarrow> channel_inv (tr_channel tr) \<and>
     max_pending_events (tr_channel tr) = events \<and> ch_max_pending_bytes (tr_channel tr) = bytes \<and>
     tr_accepted tr = tr_taken tr @ pending (tr_channel tr)"

lemma trace_inv_step: "trace_inv events bytes tr \<Longrightarrow> trace_inv events bytes (channel_step op tr)"
  by (cases op)
     (auto simp: trace_inv_def channel_inv_def publish_def take_next_def channel_close_def encoded_def
       split: sum.split list.split)

lemma trace_inv_run: "trace_inv events bytes tr \<Longrightarrow> trace_inv events bytes (fold channel_step ops tr)"
  by (induction ops arbitrary: tr) (simp_all add: trace_inv_step)

section \<open>Properties\<close>

text \<open>
  C37: what a publisher encodes is what a browser receives. Reading the concatenated encodings of
  any sequence of events gives back exactly their types, data (line breaks included) and event
  identifiers, in order, provided no text holds a carriage return and identifiers hold no NUL.
\<close>

theorem sse_stream_roundtrip:
  assumes "list_all sse_clean es"
  shows "event_source (concat (map encoded es)) = expected_events [] es"
proof -
  have "es_run \<lparr>es_type = [], es_data = [], es_last_id = prev\<rparr> (es_lines [] (concat (map encoded es))) =
      expected_events prev es" for prev
    using assms by (induction es arbitrary: prev) (simp_all add: es_run_encoded)
  then show ?thesis by (simp add: event_source_def)
qed

definition tick_event :: Event where
  "tick_event = \<lparr>ev_data = ''a'' @ [LF] @ ''b'', ev_event = Some ''tick'', ev_id = Some ''7'', ev_retry = Some 10,
     ev_comment = Some ''hi''\<rparr>"

theorem sse_stream_roundtrip_witness:
  "event_source (encoded tick_event) = [\<lparr>got_type = ''tick'', got_data = ''a'' @ [LF] @ ''b'', got_id = ''7''\<rparr>]"
  using sse_stream_roundtrip [of "[tick_event]"]
  by (simp add: sse_clean_def tick_event_def valid_single_line_def find_ch_def expected_id_def)

text \<open>
  the queue of a channel is first in, first out and bounded. Whatever publishers, the streaming
  connection and close calls do in whatever order, the events handed to the connection followed by
  those still queued are exactly the accepted ones in the order of acceptance, and neither limit is
  exceeded.
\<close>

theorem sse_channel_fifo:
  "case fold channel_step ops \<lparr>tr_channel = new_channel events bytes, tr_accepted = [], tr_taken = []\<rparr> of tr \<Rightarrow>
     tr_accepted tr = tr_taken tr @ pending (tr_channel tr) \<and>
     length (pending (tr_channel tr)) \<le> events \<and> sum_list (map length (pending (tr_channel tr))) \<le> bytes"
  using trace_inv_run [of events bytes "\<lparr>tr_channel = new_channel events bytes, tr_accepted = [], tr_taken = []\<rparr>" ops]
  by (auto simp: trace_inv_def channel_inv_def new_channel_def)

text \<open>
  A carriage return inside the data is not a line break for the encoder and is one for the reader:
  published data can set the event type.
\<close>

lemma sse_carriage_return_injects:
  "event_source (encoded \<lparr>ev_data = ''x'' @ [CR] @ ''event: admin'', ev_event = None, ev_id = None, ev_retry = None,
     ev_comment = None\<rparr>) = [\<lparr>got_type = ''admin'', got_data = ''x'', got_id = []\<rparr>]"
  by code_simp

end
