(* ===== verification/Http1_Session.thy ===== *)
theory Http1_Session
  imports Ws_Handshake Sse_Channel
begin

text \<open>
  The HTTP/1.1 connection of \<^verbatim>\<open>src/http1/http1_session.cpp\<close>: the incremental request parser, the
  response writer, the switch to WebSocket and the streaming of server-sent events. The request
  handler, the upgrade handler and OpenSSL are parameters. Output is the list of plain texts passed
  to the encryption callback, in order. A run that never returns is the value \<^const>\<open>None\<close>.
\<close>

section \<open>Writing\<close>

definition get_status_text :: "int \<Rightarrow> string" where
  "get_status_text code =
     (if code = 200 then ''OK'' else if code = 201 then ''Created'' else if code = 202 then ''Accepted''
      else if code = 204 then ''No Content'' else if code = 301 then ''Moved Permanently''
      else if code = 302 then ''Found'' else if code = 304 then ''Not Modified''
      else if code = 101 then ''Switching Protocols'' else if code = 400 then ''Bad Request''
      else if code = 401 then ''Unauthorized'' else if code = 403 then ''Forbidden''
      else if code = 404 then ''Not Found'' else if code = 500 then ''Internal Server Error''
      else if code = 502 then ''Bad Gateway'' else if code = 503 then ''Service Unavailable''
      else ''Unknown'')"

definition serialize_upgrade_response :: "string \<Rightarrow> string \<Rightarrow> string" where
  "serialize_upgrade_response accept_key subprotocol =
     ''HTTP/1.1 101 Switching Protocols'' @ CRLF @ ''Upgrade: websocket'' @ CRLF @
     ''Connection: Upgrade'' @ CRLF @ ''Sec-WebSocket-Accept: '' @ accept_key @ CRLF @
     (if subprotocol = [] then [] else ''Sec-WebSocket-Protocol: '' @ subprotocol @ CRLF) @ CRLF"

definition status_line :: "int \<Rightarrow> string" where
  "status_line code = ''HTTP/1.1 '' @ to_string_int code @ '' '' @ get_status_text code @ CRLF"

definition serialize_rejection_response :: "int \<Rightarrow> string \<Rightarrow> string" where
  "serialize_rejection_response status body =
     status_line status @ ''Connection: close'' @ CRLF @ ''Content-Type: text/plain'' @ CRLF @
     ''Content-Length: '' @ to_string_nat (length body) @ CRLF @ CRLF @ body"

fun to_hex_nat :: "nat \<Rightarrow> string" where
  "to_hex_nat n = (if n < 16 then [hex_digit n] else to_hex_nat (n div 16) @ [hex_digit (n mod 16)])"

declare to_hex_nat.simps [simp del]

definition append_chunk :: "string \<Rightarrow> string \<Rightarrow> string" where
  "append_chunk output body = output @ to_hex_nat (length body) @ CRLF @ body @ CRLF"

definition lower :: "string \<Rightarrow> string" where
  "lower s = map tolower s"

definition header_written :: "bool \<Rightarrow> Entry \<Rightarrow> bool" where
  "header_written is_sse e \<longleftrightarrow>
     (let n = lower (hname e)
      in n \<noteq> ''connection'' \<and> n \<noteq> ''alt-svc'' \<and>
         (\<not> is_sse \<or> (n \<noteq> ''content-length'' \<and> n \<noteq> ''transfer-encoding'')))"

definition header_line :: "Entry \<Rightarrow> string" where
  "header_line e = hname e @ '': '' @ hvalue e @ CRLF"

definition serialize_response :: "bool \<Rightarrow> response \<Rightarrow> string" where
  "serialize_response keep res =
     (let is_sse = (sse_channel res \<noteq> None)
      in status_line (status_code res) @
         ''Alt-Svc: h3='' @ [CHR 0x22] @ '':4433'' @ [CHR 0x22] @ ''; ma=86400'' @ CRLF @
         (if keep then ''Connection: keep-alive'' else ''Connection: close'') @ CRLF @
         concat (map header_line (filter (header_written is_sse) (res_headers res))) @
         (if is_sse then ''Transfer-Encoding: chunked'' @ CRLF
          else if \<not> HeaderMap_has (res_headers res) ''content-length''
          then ''Content-Length: '' @ to_string_nat (length (res_body res)) @ CRLF else []) @ CRLF @
         (if is_sse then [] else res_body res))"

section \<open>Reading lines and numbers\<close>

fun find_crlf :: "string \<Rightarrow> nat option" where
  "find_crlf (a # b # s) = (if a = CR \<and> b = LF then Some 0 else map_option Suc (find_crlf (b # s)))"
| "find_crlf s = None"

definition get_line :: "string \<Rightarrow> nat \<Rightarrow> (string \<times> nat) option" where
  "get_line buf offset =
     (case find_crlf (drop offset buf) of
        None \<Rightarrow> None
      | Some k \<Rightarrow> Some (take k (drop offset buf), offset + k + 2))"

definition h1_trim :: "string \<Rightarrow> string" where
  "h1_trim s = trim_by blank_or_tab s"

definition isxdigit :: "char \<Rightarrow> bool" where
  "isxdigit c \<longleftrightarrow> isdigit c \<or> (65 \<le> byte_of c \<and> byte_of c \<le> 70) \<or> (97 \<le> byte_of c \<and> byte_of c \<le> 102)"

definition xdigit_val :: "char \<Rightarrow> nat" where
  "xdigit_val c = (if isdigit c then byte_of c - 48 else if byte_of c \<le> 70 then byte_of c - 55 else byte_of c - 87)"

text \<open>\<^verbatim>\<open>std::stoull\<close> in base 16, which also accepts blanks, a sign and a \<^verbatim>\<open>0x\<close> prefix.\<close>

definition stoull16 :: "string \<Rightarrow> nat result" where
  "stoull16 s =
     (let s1 = dropWhile isspace s;
          neg = (s1 \<noteq> [] \<and> hd s1 = CHR ''-'');
          s2 = (if s1 \<noteq> [] \<and> (hd s1 = CHR ''-'' \<or> hd s1 = CHR ''+'') then tl s1 else s1);
          s3 = (if (starts_with s2 ''0x'' \<or> starts_with s2 ''0X'') \<and> length s2 > 2 \<and> isxdigit (s2 ! 2)
                then drop 2 s2 else s2);
          ds = takeWhile isxdigit s3;
          v = foldl (\<lambda>v c. v * 16 + xdigit_val c) 0 ds
      in if ds = [] then Inl (Invalid_argument ''stoull'')
         else if 2 ^ 64 \<le> v then Inl (Out_of_range ''stoull'')
         else Inr (if neg then (2 ^ 64 - v) mod 2 ^ 64 else v))"

section \<open>The session\<close>

datatype ParseState = RequestLine | Headers | Body | Complete | Error_state

record AcceptedUpgrade =
  au_endpoint :: WsEndpoint
  au_principal :: string
  au_subprotocol :: string

record Http1Session =
  h1_buffer :: string
  parse_offset :: nat
  h1_state :: ParseState
  current_request :: request
  h1_content_length :: nat
  chunked_body :: bool
  keep_alive :: bool
  h1_upgraded :: bool
  upgraded_handler :: "AcceptedUpgrade option"
  h1_channel :: "nat option"
  sse_active :: bool
  sse_terminal_sent :: bool
  h1_peer_address :: string

definition new_http1 :: Http1Session where
  "new_http1 = \<lparr>h1_buffer = [], parse_offset = 0, h1_state = RequestLine, current_request = empty_request,
     h1_content_length = 0, chunked_body = False, keep_alive = True, h1_upgraded = False,
     upgraded_handler = None, h1_channel = None, sse_active = False, sse_terminal_sent = False,
     h1_peer_address = []\<rparr>"

definition http1_set_peer_address :: "string \<Rightarrow> Http1Session \<Rightarrow> Http1Session" where
  "http1_set_peer_address a s =
     s\<lparr>h1_peer_address := a, current_request := set_peer_address (current_request s) a\<rparr>"

definition h1_reset :: "Http1Session \<Rightarrow> Http1Session" where
  "h1_reset s = s\<lparr>h1_state := RequestLine,
     current_request := set_peer_address empty_request (h1_peer_address s),
     h1_content_length := 0, chunked_body := False\<rparr>"

definition take_upgrade_handler :: "Http1Session \<Rightarrow> AcceptedUpgrade option \<times> Http1Session" where
  "take_upgrade_handler s = (upgraded_handler s, s\<lparr>upgraded_handler := None\<rparr>)"

definition take_remaining_data :: "Http1Session \<Rightarrow> string \<times> Http1Session" where
  "take_remaining_data s =
     ((if parse_offset s \<ge> length (h1_buffer s) then [] else drop (parse_offset s) (h1_buffer s)),
      s\<lparr>h1_buffer := [], parse_offset := 0\<rparr>)"

text \<open>
  The surroundings of a session: the application's request handler with its state, the handler of
  upgrade requests and OpenSSL. Event channels are shared with publishers, a heap by identity. The two
  handlers return: an exception would leave \<^verbatim>\<open>feed_data\<close> at once, with the request still complete and
  nothing of it consumed.
\<close>

record 's world =
  app :: 's
  channels :: "nat \<rightharpoonup> Channel"

record 's h1_env =
  request_handler :: "request \<Rightarrow> 's world \<Rightarrow> response \<times> 's world"
  upgrade_handler :: "(request \<Rightarrow> UpgradeResult \<times> request) option"
  openssl :: crypto

section \<open>Headers\<close>

datatype 's h1_step =
    H1_more Http1Session "'s world" "string list"
  | H1_stop Http1Session "'s world" "string list"
  | H1_return Http1Session "'s world" "string list"
  | H1_error int Http1Session "'s world"
  | H1_throw exn Http1Session "'s world"

definition reject_upgrade :: "int \<Rightarrow> string \<Rightarrow> Http1Session \<Rightarrow> Http1Session \<times> string" where
  "reject_upgrade status body s =
     (h1_reset (s\<lparr>keep_alive := False\<rparr>), serialize_rejection_response status body)"

definition body_state :: "Http1Session \<Rightarrow> Http1Session" where
  "body_state s = s\<lparr>h1_state := (if h1_content_length s > 0 \<or> chunked_body s then Body else Complete)\<rparr>"

definition end_of_headers :: "'s h1_env \<Rightarrow> Http1Session \<Rightarrow> 's world \<Rightarrow> string list \<Rightarrow> 's h1_step" where
  "end_of_headers env s w out =
     (let s = s\<lparr>current_request := (current_request s)\<lparr>req_headers_complete := True\<rparr>\<rparr>
      in case upgrade_handler env of
           None \<Rightarrow> H1_more (body_state s) w out
         | Some upgrade \<Rightarrow>
             if \<not> is_upgrade_attempt (current_request s) then H1_more (body_state s) w out
             else
               (case upgrade (current_request s) of (result, req) \<Rightarrow>
                  let s = s\<lparr>current_request := req\<rparr>
                  in case result of
                       NotWebSocketRoute \<Rightarrow> H1_more (body_state s) w out
                     | Upgrade_rejected status body \<Rightarrow>
                         (case reject_upgrade status body s of (s, raw) \<Rightarrow> H1_more s w (out @ [raw]))
                     | Upgrade_accepted ep who subprotocol \<Rightarrow>
                         (case validate_upgrade_request (openssl env) req of
                            Inl e \<Rightarrow> H1_throw e s w
                          | Inr (Inl (_, msg)) \<Rightarrow>
                              (case reject_upgrade 400 msg s of (s, raw) \<Rightarrow> H1_more s w (out @ [raw]))
                          | Inr (Inr accept_key) \<Rightarrow>
                              H1_stop (s\<lparr>upgraded_handler := Some \<lparr>au_endpoint = ep, au_principal = who,
                                           au_subprotocol = subprotocol\<rparr>,
                                         h1_upgraded := True, keep_alive := True\<rparr>)
                                w (out @ [serialize_upgrade_response accept_key subprotocol]))))"

definition add_header :: "string \<Rightarrow> string \<Rightarrow> Http1Session \<Rightarrow> Http1Session" where
  "add_header name value s =
     s\<lparr>current_request := (current_request s)\<lparr>req_headers := HeaderMap_add (req_headers (current_request s)) name value\<rparr>\<rparr>"

definition apply_header :: "string \<Rightarrow> string \<Rightarrow> Http1Session \<Rightarrow> int option \<times> Http1Session" where
  "apply_header name value s0 =
     (let s = add_header name value s0; n = lower name
      in if n = ''content-length'' then
           (case stoull value of
              Inl _ \<Rightarrow> (Some (-3), s\<lparr>h1_state := Error_state\<rparr>)
            | Inr (v, _) \<Rightarrow> (None, s\<lparr>h1_content_length := v\<rparr>))
         else if n = ''transfer-encoding'' then
           (None, if lower value = ''chunked'' then s\<lparr>chunked_body := True\<rparr> else s)
         else if n = ''connection'' then
           (None, if lower value = ''close'' then s\<lparr>keep_alive := False\<rparr>
                  else if lower value = ''keep-alive'' then s\<lparr>keep_alive := True\<rparr> else s)
         else if n = ''host'' then
           (None, s\<lparr>current_request := (current_request s)\<lparr>req_authority := value\<rparr>\<rparr>)
         else (None, s))"

lemma find_crlf_length: "find_crlf s = Some k \<Longrightarrow> k + 2 \<le> length s"
  by (induction s arbitrary: k rule: find_crlf.induct) (auto split: if_splits)

lemma get_line_advances: "get_line buf off = Some (line, off') \<Longrightarrow> off < off' \<and> off' \<le> length buf"
  by (auto simp: get_line_def split: option.splits dest!: find_crlf_length)

lemma apply_header_buffer [simp]:
  "h1_buffer (snd (apply_header name value s)) = h1_buffer s"
  "parse_offset (snd (apply_header name value s)) = parse_offset s"
  by (auto simp: apply_header_def add_header_def Let_def split: sum.split)

function header_loop :: "'s h1_env \<Rightarrow> Http1Session \<Rightarrow> 's world \<Rightarrow> string list \<Rightarrow> 's h1_step" where
  "header_loop env s w out =
     (case get_line (h1_buffer s) (parse_offset s) of
        None \<Rightarrow> H1_stop s w out
      | Some (line, off) \<Rightarrow>
          let s = s\<lparr>parse_offset := off\<rparr>
          in if line = [] then end_of_headers env s w out
             else case find_ch CHR '':'' line of
               None \<Rightarrow> H1_error (-2) (s\<lparr>h1_state := Error_state\<rparr>) w
             | Some colon \<Rightarrow>
                 (case apply_header (h1_trim (take colon line)) (h1_trim (drop (colon + 1) line)) s of
                    (Some code, s) \<Rightarrow> H1_error code s w
                  | (None, s) \<Rightarrow> header_loop env s w out))"
  by pat_completeness auto
termination
proof (relation "measure (\<lambda>(env, s, w, out). length (h1_buffer s) - parse_offset s)")
  fix env :: "'s h1_env" and s w out p line off s1 colon r oc s2
  assume "get_line (h1_buffer s) (parse_offset s) = Some p" "(line, off) = p" "s1 = s\<lparr>parse_offset := off\<rparr>"
    "(oc, s2) = apply_header (h1_trim (take colon line)) (h1_trim (drop (colon + 1) line)) s1"
  then show "((env, s2, w, out), env, s, w, out) \<in> measure (\<lambda>(env, s, w, out). length (h1_buffer s) - parse_offset s)"
    using get_line_advances [of "h1_buffer s" "parse_offset s" line off]
      apply_header_buffer [of "h1_trim (take colon line)" "h1_trim (drop (colon + 1) line)" s1]
    by (auto simp: diff_less_mono2 dest!: arg_cong [of "(oc, s2)" _ snd])
qed simp

declare header_loop.simps [simp del]


section \<open>Bodies\<close>

function trailer_loop :: "string \<Rightarrow> nat \<Rightarrow> bool \<times> nat" where
  "trailer_loop buf off =
     (case get_line buf off of
        None \<Rightarrow> (False, off)
      | Some (trailer, off') \<Rightarrow> if trailer = [] then (True, off') else trailer_loop buf off')"
  by pat_completeness auto
termination
  by (relation "measure (\<lambda>(buf, off). length buf - off)") (auto dest!: get_line_advances)

declare trailer_loop.simps [simp del]

datatype chunks = Ch_incomplete Http1Session | Ch_complete Http1Session | Ch_error int Http1Session
  | Ch_throw exn Http1Session

definition h1_append_body :: "string \<Rightarrow> Http1Session \<Rightarrow> Http1Session" where
  "h1_append_body d s = s\<lparr>current_request := append_body (current_request s) d\<rparr>"

definition h1_body_complete :: "Http1Session \<Rightarrow> Http1Session" where
  "h1_body_complete s = s\<lparr>current_request := (current_request s)\<lparr>req_body_complete := True\<rparr>, h1_state := Complete\<rparr>"

text \<open>
  Sizes are 64 bit: the bounds check adds the chunk size to an offset and may wrap. Appending a
  length above the largest string throws.
\<close>

definition chunk_data :: "nat \<Rightarrow> nat \<Rightarrow> Http1Session \<Rightarrow> chunks" where
  "chunk_data data_start chunk_size s =
     (let buf = h1_buffer s; i = (data_start + chunk_size) mod 2 ^ 64
      in if length buf < (data_start + chunk_size + 2) mod 2 ^ 64 then Ch_incomplete s
         else if i + 1 \<ge> length buf then Ch_throw (Undefined_behaviour ''buffer_ index'') s
         else if buf ! i \<noteq> CR \<or> buf ! (i + 1) \<noteq> LF then Ch_error (-5) (s\<lparr>h1_state := Error_state\<rparr>)
         else if chunk_size \<ge> 2 ^ 63 then Ch_throw (Std_exception ''std::length_error'' ''basic_string::append'') s
         else Ch_complete ((h1_append_body (take chunk_size (drop data_start buf)) s)
                \<lparr>parse_offset := data_start + chunk_size + 2\<rparr>))"

lemma chunk_data_buffer: "chunk_data d n s = Ch_complete s' \<Longrightarrow> h1_buffer s' = h1_buffer s \<and> parse_offset s' = d + n + 2"
  by (auto simp: chunk_data_def h1_append_body_def Let_def split: if_splits)

definition chunk_size_text :: "string \<Rightarrow> string" where
  "chunk_size_text line = substr_upto (find_ch CHR '';'' line) line"

function chunk_loop :: "Http1Session \<Rightarrow> chunks" where
  "chunk_loop s =
     (let buf = h1_buffer s; off = parse_offset s
      in if \<not> off < length buf then Ch_incomplete s
         else case find_crlf (drop off buf) of
           None \<Rightarrow> Ch_incomplete s
         | Some k \<Rightarrow>
             (case stoull16 (chunk_size_text (take k (drop off buf))) of
                Inl _ \<Rightarrow> Ch_error (-4) (s\<lparr>h1_state := Error_state\<rparr>)
              | Inr chunk_size \<Rightarrow>
                  let data_start = off + k + 2
                  in if chunk_size = 0 then
                       (case trailer_loop buf data_start of
                          (True, off') \<Rightarrow> Ch_complete (h1_body_complete (s\<lparr>parse_offset := off'\<rparr>))
                        | (False, off') \<Rightarrow> Ch_incomplete (s\<lparr>parse_offset := off'\<rparr>))
                     else case chunk_data data_start chunk_size s of
                            Ch_complete s' \<Rightarrow> chunk_loop s'
                          | r \<Rightarrow> r))"
  by pat_completeness auto
termination
  by (relation "measure (\<lambda>s. length (h1_buffer s) - parse_offset s)")
     (auto dest!: chunk_data_buffer find_crlf_length)

declare chunk_loop.simps [simp del]

definition read_body :: "Http1Session \<Rightarrow> chunks" where
  "read_body s =
     (if chunked_body s then chunk_loop s
      else if length (h1_buffer s) - parse_offset s < h1_content_length s then Ch_incomplete s
      else Ch_complete (h1_body_complete
             ((h1_append_body (take (h1_content_length s) (drop (parse_offset s) (h1_buffer s))) s)
               \<lparr>parse_offset := parse_offset s + h1_content_length s\<rparr>)))"

section \<open>Server-sent events\<close>

function drain_channel :: "string \<Rightarrow> Channel \<Rightarrow> string \<times> Channel" where
  "drain_channel raw ch =
     (case take_next ch of
        (None, ch') \<Rightarrow> (raw, ch')
      | (Some event, ch') \<Rightarrow> drain_channel (append_chunk raw event) ch')"
  by pat_completeness auto
termination
  by (relation "measure (\<lambda>(raw, ch). length (pending ch))") (auto simp: take_next_def split: list.splits)

declare drain_channel.simps [simp del]

definition drain_sse_outbound ::
    "Http1Session \<Rightarrow> 's world \<Rightarrow> string list \<times> Http1Session \<times> 's world" where
  "drain_sse_outbound s w =
     (case h1_channel s of
        None \<Rightarrow> ([], s, w)
      | Some c \<Rightarrow>
          (case channels w c of
             None \<Rightarrow> ([], s, w)
           | Some ch \<Rightarrow>
               if \<not> sse_active s then ([], s, w)
               else
                 let (raw, ch') = drain_channel [] ch;
                     w' = w\<lparr>channels := (channels w)(c \<mapsto> ch')\<rparr>;
                     last = ch_closed ch' \<and> \<not> sse_terminal_sent s;
                     raw' = (if last then raw @ ''0'' @ CRLF @ CRLF else raw);
                     s' = (if last then s\<lparr>sse_terminal_sent := True, sse_active := False,
                                          keep_alive := False, h1_channel := None\<rparr> else s)
                 in (if raw' = [] then [] else [raw'], s', w')))"

section \<open>The loop\<close>

definition read_request_line :: "Http1Session \<Rightarrow> 's world \<Rightarrow> string list \<Rightarrow> 's h1_step + Http1Session" where
  "read_request_line s w out =
     (case get_line (h1_buffer s) (parse_offset s) of
        None \<Rightarrow> Inl (H1_stop s w out)
      | Some (line, off) \<Rightarrow>
          let s = s\<lparr>parse_offset := off\<rparr>
          in if line = [] then Inl (H1_more s w out)
             else case find_ch CHR '' '' line of
               None \<Rightarrow> Inl (H1_error (-1) (s\<lparr>h1_state := Error_state\<rparr>) w)
             | Some first_space \<Rightarrow>
                 let last_space = length line - 1 - length (takeWhile (\<lambda>c. c \<noteq> CHR '' '') (rev line))
                 in if first_space = last_space then Inl (H1_error (-1) (s\<lparr>h1_state := Error_state\<rparr>) w)
                    else Inr (s\<lparr>current_request := (current_request s)\<lparr>req_method := take first_space line,
                                  req_path := take (last_space - first_space - 1) (drop (first_space + 1) line),
                                  req_scheme := ''https''\<rparr>,
                                h1_state := Headers\<rparr>))"

definition respond :: "'s h1_env \<Rightarrow> Http1Session \<Rightarrow> 's world \<Rightarrow> string list \<Rightarrow> 's h1_step" where
  "respond env s w out =
     (let (res, w1) = request_handler env (current_request s) w;
          raw = serialize_response (keep_alive s) res
      in case sse_channel res of
           None \<Rightarrow> H1_more (h1_reset s) w1 (out @ [raw])
         | Some c \<Rightarrow>
             let s1 = s\<lparr>h1_channel := Some c, sse_active := True, sse_terminal_sent := False\<rparr>;
                 (events, s2, w2) = drain_sse_outbound s1 w1
             in H1_return (h1_reset (s2\<lparr>h1_buffer := [], parse_offset := 0\<rparr>)) w2 (out @ raw # events))"

definition body_and_respond :: "'s h1_env \<Rightarrow> Http1Session \<Rightarrow> 's world \<Rightarrow> string list \<Rightarrow> 's h1_step" where
  "body_and_respond env s w out =
     (if h1_state s = Body then
        (case read_body s of
           Ch_incomplete s \<Rightarrow> H1_stop s w out
         | Ch_error code s \<Rightarrow> H1_error code s w
         | Ch_throw e s \<Rightarrow> H1_throw e s w
         | Ch_complete s \<Rightarrow> respond env s w out)
      else if h1_state s = Complete then respond env s w out
      else H1_more s w out)"

text \<open>One round of \<^verbatim>\<open>while (parse_offset_ < buffer_.size())\<close>.\<close>

definition h1_iter :: "'s h1_env \<Rightarrow> Http1Session \<Rightarrow> 's world \<Rightarrow> string list \<Rightarrow> 's h1_step" where
  "h1_iter env s w out =
     (case (if h1_state s = RequestLine then read_request_line s w out else Inr s) of
        Inl r \<Rightarrow> r
      | Inr s \<Rightarrow>
          (case (if h1_state s = Headers then header_loop env s w out else H1_more s w out) of
             H1_more s w out \<Rightarrow> if h1_upgraded s then H1_stop s w out else body_and_respond env s w out
           | r \<Rightarrow> r))"

definition h1_cleanup :: "Http1Session \<Rightarrow> Http1Session" where
  "h1_cleanup s = (if parse_offset s > 0 \<and> \<not> h1_upgraded s
     then s\<lparr>h1_buffer := drop (parse_offset s) (h1_buffer s), parse_offset := 0\<rparr> else s)"

text \<open>What \<^verbatim>\<open>feed_data\<close> does for its caller: the output, an error code, or an exception.\<close>

datatype feed_result = Feed_out "string list" | Feed_error int | Feed_throw exn

partial_function (option) h1_loop ::
    "'s h1_env \<Rightarrow> Http1Session \<Rightarrow> 's world \<Rightarrow> string list \<Rightarrow> (feed_result \<times> Http1Session \<times> 's world) option" where
  "h1_loop env s w out =
     (if parse_offset s < length (h1_buffer s) then
        (case h1_iter env s w out of
           H1_more s w out \<Rightarrow> h1_loop env s w out
         | H1_stop s w out \<Rightarrow> Some (Feed_out out, h1_cleanup s, w)
         | H1_return s w out \<Rightarrow> Some (Feed_out out, s, w)
         | H1_error code s w \<Rightarrow> Some (Feed_error code, s, w)
         | H1_throw e s w \<Rightarrow> Some (Feed_throw e, s, w))
      else Some (Feed_out out, h1_cleanup s, w))"

declare h1_loop.simps [code]

definition feed_data ::
    "'s h1_env \<Rightarrow> string \<Rightarrow> Http1Session \<Rightarrow> 's world \<Rightarrow> (feed_result \<times> Http1Session \<times> 's world) option" where
  "feed_data env data s w =
     (if sse_active s then
        (case drain_sse_outbound s w of (out, s, w) \<Rightarrow> Some (Feed_out out, s, w))
      else h1_loop env (s\<lparr>h1_buffer := h1_buffer s @ data\<rparr>) w [])"


section \<open>Every round makes progress\<close>

lemma end_of_headers_more:
  "end_of_headers env s w out = H1_more s' w' out' \<Longrightarrow>
   h1_buffer s' = h1_buffer s \<and> parse_offset s' = parse_offset s \<and> h1_state s' \<in> {RequestLine, Body, Complete}"
  by (auto simp: end_of_headers_def body_state_def reject_upgrade_def h1_reset_def Let_def
      split: option.splits if_splits UpgradeResult.splits sum.splits prod.splits)

lemma header_loop_more:
  "header_loop env s w out = H1_more s' w' out' \<Longrightarrow>
   h1_buffer s' = h1_buffer s \<and> parse_offset s < parse_offset s' \<and> h1_state s' \<in> {RequestLine, Body, Complete}"
proof (induction env s w out arbitrary: s' w' out' rule: header_loop.induct)
  case (1 env s w out)
  from 1(2) obtain line off where gl: "get_line (h1_buffer s) (parse_offset s) = Some (line, off)"
    by (subst (asm) header_loop.simps) (auto split: option.splits)
  note adv = get_line_advances [OF gl]
  show ?case
  proof (cases "line = []")
    case True
    with 1(2) gl have "end_of_headers env (s\<lparr>parse_offset := off\<rparr>) w out = H1_more s' w' out'"
      by (subst (asm) header_loop.simps) simp
    from end_of_headers_more [OF this] adv show ?thesis by simp
  next
    case False
    with 1(2) gl obtain colon s1 where c: "find_ch CHR '':'' line = Some colon"
      "apply_header (h1_trim (take colon line)) (h1_trim (drop (colon + 1) line)) (s\<lparr>parse_offset := off\<rparr>) = (None, s1)"
      "header_loop env s1 w out = H1_more s' w' out'"
      by (subst (asm) header_loop.simps) (auto simp: Let_def split: option.splits prod.splits)
    from apply_header_buffer [of "h1_trim (take colon line)" "h1_trim (drop (colon + 1) line)" "s\<lparr>parse_offset := off\<rparr>"] c(2)
    have "h1_buffer s1 = h1_buffer s" "parse_offset s1 = off" by (simp_all only: snd_conv) simp_all
    with 1(1) [OF gl refl refl False c(1) c(2) [symmetric] refl c(3)] adv show ?thesis by simp
  qed
qed

lemma trailer_loop_advances: "trailer_loop buf off = (b, off') \<Longrightarrow> off \<le> off'"
proof (induction buf off rule: trailer_loop.induct)
  case (1 buf off)
  then show ?case
    by (subst (asm) (2) trailer_loop.simps) (fastforce split: option.splits if_splits dest!: get_line_advances)
qed

lemma chunk_loop_complete:
  "chunk_loop s = Ch_complete s' \<Longrightarrow> h1_buffer s' = h1_buffer s \<and> parse_offset s \<le> parse_offset s' \<and> h1_state s' = Complete"
proof (induction s rule: chunk_loop.induct)
  case (1 s)
  let ?buf = "h1_buffer s" and ?off = "parse_offset s"
  from 1(2) obtain k n where k: "?off < length ?buf" "find_crlf (drop ?off ?buf) = Some k"
    "stoull16 (chunk_size_text (take k (drop ?off ?buf))) = Inr n"
    by (subst (asm) chunk_loop.simps) (auto simp: Let_def split: if_splits option.splits sum.splits)
  show ?case
  proof (cases "n = 0")
    case True
    with 1(2) k show ?thesis
      by (subst (asm) chunk_loop.simps)
         (auto simp: Let_def h1_body_complete_def split: prod.splits bool.splits dest!: trailer_loop_advances)
  next
    case False
    with 1(2) k obtain s1 where s1: "chunk_data (?off + k + 2) n s = Ch_complete s1" "chunk_loop s1 = Ch_complete s'"
      by (subst (asm) chunk_loop.simps) (auto simp: Let_def split: chunks.splits)
    from 1(1) [OF refl refl _ k(2,3) refl False s1] k(1) chunk_data_buffer [OF s1(1)] show ?thesis by simp
  qed
qed

lemma read_body_complete:
  "read_body s = Ch_complete s' \<Longrightarrow> h1_buffer s' = h1_buffer s \<and> parse_offset s \<le> parse_offset s' \<and> h1_state s' = Complete"
  by (auto simp: read_body_def h1_body_complete_def h1_append_body_def split: if_splits dest!: chunk_loop_complete)

lemma respond_more:
  "respond env s w out = H1_more s' w' out' \<Longrightarrow>
   h1_buffer s' = h1_buffer s \<and> parse_offset s' = parse_offset s \<and> h1_state s' = RequestLine"
  by (auto simp: respond_def h1_reset_def Let_def split: prod.splits option.splits)

lemma body_and_respond_more:
  assumes "body_and_respond env s w out = H1_more s' w' out'" "h1_state s \<in> {RequestLine, Body, Complete}"
  shows "h1_buffer s' = h1_buffer s \<and> parse_offset s \<le> parse_offset s' \<and> h1_state s' = RequestLine"
proof (cases "h1_state s = Body")
  case True
  with assms(1) obtain s1 where "read_body s = Ch_complete s1" "respond env s1 w out = H1_more s' w' out'"
    by (auto simp: body_and_respond_def split: chunks.splits)
  then show ?thesis using read_body_complete [of s s1] respond_more [of env s1 w out s' w' out'] by simp
next
  case False
  with assms respond_more [of env s w out s' w' out'] show ?thesis
    by (auto simp: body_and_respond_def split: if_splits)
qed

lemma h1_iter_more:
  assumes "h1_iter env s w out = H1_more s' w' out'" "h1_state s \<noteq> Error_state"
  shows "h1_buffer s' = h1_buffer s \<and> h1_state s' = RequestLine \<and>
    (parse_offset s < parse_offset s' \<or> parse_offset s \<le> parse_offset s' \<and> h1_state s \<noteq> RequestLine)"
proof -
  have tail: "h1_buffer s' = h1_buffer t \<and> parse_offset t < parse_offset s' \<and> h1_state s' = RequestLine"
    if "h1_state t = Headers" and it: "(case header_loop env t w out of
      H1_more s w out \<Rightarrow> if h1_upgraded s then H1_stop s w out else body_and_respond env s w out | r \<Rightarrow> r) = H1_more s' w' out'" for t
  proof -
    from it obtain u wu ou where u: "header_loop env t w out = H1_more u wu ou"
      "body_and_respond env u wu ou = H1_more s' w' out'" by (auto split: h1_step.splits if_splits)
    from header_loop_more [OF u(1)] body_and_respond_more [OF u(2)] show ?thesis by auto
  qed
  show ?thesis
  proof (cases "h1_state s = RequestLine")
    case True
    show ?thesis
    proof (cases "read_request_line s w out")
      case (Inl r)
      with True assms(1) show ?thesis
        by (auto simp: h1_iter_def read_request_line_def Let_def split: option.splits if_splits prod.splits dest!: get_line_advances)
    next
      case (Inr t)
      then have t: "h1_buffer t = h1_buffer s" "parse_offset s < parse_offset t" "h1_state t = Headers"
        by (auto simp: read_request_line_def Let_def split: option.splits if_splits prod.splits dest!: get_line_advances)
      with tail [OF t(3)] True Inr assms(1) show ?thesis by (auto simp: h1_iter_def)
    qed
  next
    case False
    show ?thesis
    proof (cases "h1_state s = Headers")
      case True
      with tail [OF True] assms(1) show ?thesis by (auto simp: h1_iter_def)
    next
      case False2: False
      with False assms have "h1_state s \<in> {RequestLine, Body, Complete}" by (cases "h1_state s") auto
      with body_and_respond_more [of env s w out s' w' out'] False False2 assms(1) show ?thesis
        by (auto simp: h1_iter_def split: if_splits)
    qed
  qed
qed

lemma h1_loop_returns: "h1_state s \<noteq> Error_state \<Longrightarrow> \<exists>r. h1_loop env s w out = Some r"
proof (induction "2 * (length (h1_buffer s) - parse_offset s) + (if h1_state s = RequestLine then 0 else 1)"
    arbitrary: s w out rule: less_induct)
  case less
  show ?case
  proof (cases "parse_offset s < length (h1_buffer s)")
    case True
    show ?thesis
    proof (cases "h1_iter env s w out")
      case (H1_more s' w' out')
      note more = h1_iter_more [OF H1_more less(2)]
      then have "\<exists>r. h1_loop env s' w' out' = Some r" using True by (intro less(1)) auto
      with True H1_more show ?thesis by (subst h1_loop.simps) simp
    qed (use True in \<open>subst h1_loop.simps; simp\<close>)+
  qed (subst h1_loop.simps; simp)
qed

text \<open>A session left in the error state and fed again spins: nothing in the loop handles that state.\<close>

lemma h1_loop_error_diverges:
  assumes "h1_state s = Error_state" "parse_offset s < length (h1_buffer s)" "\<not> h1_upgraded s"
  shows "h1_loop env s w out = None"
proof -
  have "h1_loop env s w out = Some r \<Longrightarrow>
      \<not> (h1_state s = Error_state \<and> parse_offset s < length (h1_buffer s) \<and> \<not> h1_upgraded s)" for r
    by (erule h1_loop.raw_induct [rotated])
       (auto simp: h1_iter_def body_and_respond_def split: if_splits)
  with assms show ?thesis by (cases "h1_loop env s w out") auto
qed


section \<open>Pipelined requests\<close>

text \<open>
  A client's request with a body of known length, how it is written, and the request object and
  connection flag it stands for.
\<close>

record plain_request =
  pr_method :: string
  pr_target :: string
  pr_headers :: "(string \<times> string) list"
  pr_last_headers :: "(string \<times> string) list"
  pr_body :: string

definition pr_named_headers :: "plain_request \<Rightarrow> (string \<times> string) list" where
  "pr_named_headers pr = pr_headers pr @ pr_last_headers pr"

definition pr_all_headers :: "plain_request \<Rightarrow> (string \<times> string) list" where
  "pr_all_headers pr = pr_headers pr @
     (if pr_body pr = [] then [] else [(''Content-Length'', to_string_nat (length (pr_body pr)))]) @ pr_last_headers pr"

definition header_text :: "string \<times> string \<Rightarrow> string" where
  "header_text h = (fst h @ '': '' @ snd h) @ CRLF"

definition request_line :: "plain_request \<Rightarrow> string" where
  "request_line pr = pr_method pr @ '' '' @ pr_target pr @ '' HTTP/1.1''"

definition render_request :: "plain_request \<Rightarrow> string" where
  "render_request pr = request_line pr @ CRLF @ concat (map header_text (pr_all_headers pr)) @ CRLF @ pr_body pr"

definition field_ok :: "string \<times> string \<Rightarrow> bool" where
  "field_ok h \<longleftrightarrow> CR \<notin> set (fst h) \<and> CR \<notin> set (snd h) \<and> CHR '':'' \<notin> set (fst h) \<and>
     h1_trim (fst h) = fst h \<and> h1_trim (CHR '' '' # snd h) = snd h"

definition plain_ok :: "plain_request \<Rightarrow> bool" where
  "plain_ok pr \<longleftrightarrow> CHR '' '' \<notin> set (pr_method pr) \<and> CR \<notin> set (pr_method pr) \<and> CR \<notin> set (pr_target pr) \<and>
     list_all (\<lambda>h. field_ok h \<and> lower (fst h) \<notin> {''content-length'', ''transfer-encoding'', ''upgrade''}) (pr_named_headers pr) \<and>
     length (pr_body pr) < 2 ^ 64"

definition keep_header :: "string \<times> string \<Rightarrow> bool \<Rightarrow> bool" where
  "keep_header h k = (if lower (fst h) = ''connection'' then
     (if lower (snd h) = ''close'' then False else if lower (snd h) = ''keep-alive'' then True else k) else k)"

definition host_header :: "string \<times> string \<Rightarrow> string \<Rightarrow> string" where
  "host_header h a = (if lower (fst h) = ''host'' then snd h else a)"

definition header_entry :: "string \<times> string \<Rightarrow> Entry" where
  "header_entry h = \<lparr>hname = fst h, hvalue = snd h\<rparr>"

definition request_of :: "string \<Rightarrow> plain_request \<Rightarrow> request" where
  "request_of peer pr = (set_peer_address empty_request peer)\<lparr>req_method := pr_method pr, req_path := pr_target pr,
     req_scheme := ''https'', req_headers := map header_entry (pr_all_headers pr),
     req_authority := fold host_header (pr_named_headers pr) [], req_body := pr_body pr,
     req_headers_complete := True, req_body_complete := (pr_body pr \<noteq> [])\<rparr>"

fun serve_all :: "'s h1_env \<Rightarrow> string \<Rightarrow> bool \<Rightarrow> plain_request list \<Rightarrow> 's world \<Rightarrow> string list \<Rightarrow> string list \<times> bool \<times> 's world" where
  "serve_all env peer keep [] w out = (out, keep, w)"
| "serve_all env peer keep (pr # prs) w out =
     (let keep = fold keep_header (pr_named_headers pr) keep;
          (res, w) = request_handler env (request_of peer pr) w
      in serve_all env peer keep prs w (out @ [serialize_response keep res]))"

definition ready :: "Http1Session \<Rightarrow> bool" where
  "ready s \<longleftrightarrow> h1_reset s = s \<and> \<not> h1_upgraded s \<and> \<not> sse_active s"

subsection \<open>Lines\<close>

lemma find_crlf_append: "CR \<notin> set l \<Longrightarrow> find_crlf (l @ CR # LF # t) = Some (length l)"
proof (induction l)
  case (Cons a l)
  then obtain b u where "l @ CR # LF # t = b # u" by (cases l) auto
  with Cons show ?case by auto
qed simp

lemma get_line_append:
  assumes "drop off buf = l @ CRLF @ t" "CR \<notin> set l"
  shows "get_line buf off = Some (l, off + length l + 2)" "drop (off + length l + 2) buf = t"
proof -
  show "get_line buf off = Some (l, off + length l + 2)"
    using assms find_crlf_append [of l t] by (simp add: get_line_def)
  have "drop (length l + 2) (drop off buf) = t" by (simp add: assms(1))
  then show "drop (off + length l + 2) buf = t" by (simp add: add.commute add.left_commute)
qed

subsection \<open>Headers\<close>

lemma apply_header_offset:
  "apply_header n v (s\<lparr>parse_offset := k\<rparr>) = map_prod id (\<lambda>s. s\<lparr>parse_offset := k\<rparr>) (apply_header n v s)"
  by (simp add: apply_header_def add_header_def Let_def split: sum.split)

definition apply_headers :: "(string \<times> string) list \<Rightarrow> Http1Session \<Rightarrow> Http1Session" where
  "apply_headers hs s = fold (\<lambda>h s. snd (apply_header (fst h) (snd h) s)) hs s"

definition length_parses :: "string \<times> string \<Rightarrow> bool" where
  "length_parses h \<longleftrightarrow> lower (fst h) = ''content-length'' \<longrightarrow> (\<exists>v. stoull (snd h) = Inr v)"

lemma apply_header_ok: "length_parses h \<Longrightarrow> fst (apply_header (fst h) (snd h) s) = None"
  by (auto simp: apply_header_def length_parses_def Let_def)

lemma header_loop_fields:
  assumes "list_all field_ok hs" "list_all length_parses hs"
    "drop (parse_offset s) (h1_buffer s) = concat (map header_text hs) @ CRLF @ rest"
  shows "header_loop env s w out =
    end_of_headers env ((apply_headers hs s)\<lparr>parse_offset := length (h1_buffer s) - length rest\<rparr>) w out"
  using assms
proof (induction hs arbitrary: s)
  case Nil
  then have "get_line (h1_buffer s) (parse_offset s) = Some ([], parse_offset s + 2)"
    using get_line_append(1) [of "parse_offset s" "h1_buffer s" "[]" rest] by simp
  moreover have "parse_offset s + 2 = length (h1_buffer s) - length rest"
    using arg_cong [OF Nil(3), of length] by simp
  ultimately show ?case by (simp add: header_loop.simps [of env s] apply_headers_def)
next
  case (Cons h hs)
  let ?line = "fst h @ '': '' @ snd h"
  let ?off = "parse_offset s + length ?line + 2"
  have cr: "CR \<notin> set ?line" using Cons.prems(1) by (simp add: field_ok_def)
  have "drop (parse_offset s) (h1_buffer s) = ?line @ CRLF @ concat (map header_text hs) @ CRLF @ rest"
    using Cons.prems(3) by (simp add: header_text_def [of h])
  note gl = get_line_append [OF this cr]
  have colon: "find_ch CHR '':'' ?line = Some (length (fst h))"
    using Cons.prems(1) find_ch_append [of "CHR '':''" "fst h" "CHR '' '' # snd h"] by (simp add: field_ok_def)
  let ?s1 = "(snd (apply_header (fst h) (snd h) s))\<lparr>parse_offset := ?off\<rparr>"
  have trims: "h1_trim (take (length (fst h)) ?line) = fst h" "h1_trim (drop (length (fst h) + 1) ?line) = snd h"
    using Cons.prems(1) by (simp_all add: field_ok_def)
  have ah: "apply_header (fst h) (snd h) (s\<lparr>parse_offset := ?off\<rparr>) = (None, ?s1)"
    using apply_header_ok [of h s] Cons.prems(2) by (simp add: apply_header_offset prod_eq_iff)
  have "header_loop env s w out = header_loop env ?s1 w out"
    by (subst header_loop.simps) (simp only: gl(1) option.case prod.case Let_def colon trims ah, simp)
  also have "\<dots> = end_of_headers env ((apply_headers hs ?s1)\<lparr>parse_offset := length (h1_buffer s) - length rest\<rparr>) w out"
    using Cons.prems gl(2) by (subst Cons.IH) simp_all
  also have "(apply_headers hs ?s1)\<lparr>parse_offset := p\<rparr> = (apply_headers hs (snd (apply_header (fst h) (snd h) s)))\<lparr>parse_offset := p\<rparr>" for p
  proof -
    have "(fold (\<lambda>h s. snd (apply_header (fst h) (snd h) s)) hs (t\<lparr>parse_offset := q\<rparr>)) =
        (fold (\<lambda>h s. snd (apply_header (fst h) (snd h) s)) hs t)\<lparr>parse_offset := q\<rparr>" for t q
      by (induction hs arbitrary: t) (simp_all add: apply_header_offset)
    then show ?thesis by (simp add: apply_headers_def)
  qed
  finally show ?case by (simp add: apply_headers_def)
qed

lemma apply_headers_plain:
  "list_all (\<lambda>h. lower (fst h) \<notin> {''content-length'', ''transfer-encoding''}) hs \<Longrightarrow>
   apply_headers hs s = s\<lparr>current_request := (current_request s)
       \<lparr>req_headers := req_headers (current_request s) @ map header_entry hs,
        req_authority := fold host_header hs (req_authority (current_request s))\<rparr>,
     keep_alive := fold keep_header hs (keep_alive s)\<rparr>"
proof (induction hs arbitrary: s)
  case (Cons h hs)
  have "snd (apply_header (fst h) (snd h) s) = s\<lparr>current_request := (current_request s)
       \<lparr>req_headers := req_headers (current_request s) @ [header_entry h],
        req_authority := host_header h (req_authority (current_request s))\<rparr>,
     keep_alive := keep_header h (keep_alive s)\<rparr>"
    using Cons.prems by (auto simp: apply_header_def add_header_def HeaderMap_add_def header_entry_def host_header_def
      keep_header_def Let_def)
  with Cons show ?case by (simp add: apply_headers_def)
qed (simp add: apply_headers_def)


subsection \<open>One request\<close>

definition line_read :: "plain_request \<Rightarrow> nat \<Rightarrow> Http1Session \<Rightarrow> Http1Session" where
  "line_read pr off s = s\<lparr>parse_offset := off, current_request := (current_request s)\<lparr>req_method := pr_method pr,
     req_path := pr_target pr, req_scheme := ''https''\<rparr>, h1_state := Headers\<rparr>"

lemma read_request_line_plain:
  assumes "plain_ok pr" "drop (parse_offset s) (h1_buffer s) = request_line pr @ CRLF @ rest"
  shows "read_request_line s w out = Inr (line_read pr (length (h1_buffer s) - length rest) s)"
    and "drop (length (h1_buffer s) - length rest) (h1_buffer s) = rest"
proof -
  let ?line = "request_line pr"
  have cr: "CR \<notin> set ?line" using assms(1) by (simp add: request_line_def plain_ok_def)
  have off: "parse_offset s + length ?line + 2 = length (h1_buffer s) - length rest"
    using arg_cong [OF assms(2), of length] by simp
  note gl = get_line_append [OF assms(2) cr, unfolded off]
  have first: "find_ch CHR '' '' ?line = Some (length (pr_method pr))"
    using find_ch_append [of "CHR '' ''" "pr_method pr" "pr_target pr @ '' HTTP/1.1''"] assms(1)
    by (simp add: request_line_def plain_ok_def)
  have "takeWhile (\<lambda>c. c \<noteq> CHR '' '') (rev ?line) = rev ''HTTP/1.1''" by (simp add: request_line_def)
  then have last: "length ?line - 1 - length (takeWhile (\<lambda>c. c \<noteq> CHR '' '') (rev ?line)) =
      length (pr_method pr) + 1 + length (pr_target pr)" by (simp add: request_line_def)
  have parts: "take (length (pr_method pr)) ?line = pr_method pr"
    "take (length (pr_method pr) + 1 + length (pr_target pr) - length (pr_method pr) - 1)
       (drop (length (pr_method pr) + 1) ?line) = pr_target pr" "?line \<noteq> []"
    by (simp_all add: request_line_def)
  show "read_request_line s w out = Inr (line_read pr (length (h1_buffer s) - length rest) s)"
    by (simp only: read_request_line_def gl(1) option.case prod.case Let_def first last parts line_read_def) simp
  show "drop (length (h1_buffer s) - length rest) (h1_buffer s) = rest" by (rule gl(2))
qed

definition headers_read :: "plain_request \<Rightarrow> nat \<Rightarrow> Http1Session \<Rightarrow> Http1Session" where
  "headers_read pr off s = s\<lparr>parse_offset := off,
     current_request := (request_of (h1_peer_address s) pr)\<lparr>req_body := [], req_body_complete := False\<rparr>,
     h1_content_length := length (pr_body pr),
     h1_state := (if pr_body pr = [] then Complete else Body),
     keep_alive := fold keep_header (pr_named_headers pr) (keep_alive s)\<rparr>"

lemma ready_fields:
  assumes "ready s"
  shows "h1_state s = RequestLine" "current_request s = set_peer_address empty_request (h1_peer_address s)"
    "h1_content_length s = 0" "\<not> chunked_body s" "\<not> h1_upgraded s" "\<not> sse_active s"
proof -
  have r: "h1_reset s = s" using assms by (simp add: ready_def)
  show "h1_state s = RequestLine" "current_request s = set_peer_address empty_request (h1_peer_address s)"
    "h1_content_length s = 0" "\<not> chunked_body s"
    by (subst r [symmetric], simp add: h1_reset_def)+
  show "\<not> h1_upgraded s" "\<not> sse_active s" using assms by (simp_all add: ready_def)
qed

lemma end_of_headers_plain:
  "\<not> is_upgrade_attempt (current_request s) \<Longrightarrow> end_of_headers env s w out =
     H1_more (body_state (s\<lparr>current_request := (current_request s)\<lparr>req_headers_complete := True\<rparr>\<rparr>)) w out"
  by (simp add: end_of_headers_def is_upgrade_attempt_def request_header_def Let_def split: option.split)

lemma drop_to_suffix: "drop k buf = x @ y \<Longrightarrow> drop (length buf - length y) buf = y"
  using append_take_drop_id [of k buf, symmetric] by (metis append_assoc append_eq_conv_conj diff_add_inverse2 length_append)

lemma no_upgrade_header:
  "list_all (\<lambda>h. lower (fst h) \<noteq> ''upgrade'') hs \<Longrightarrow> HeaderMap_get (map header_entry hs) ''upgrade'' = None"
proof (induction hs)
  case (Cons h hs)
  have "map tolower ''upgrade'' = ''upgrade''" by code_simp
  with Cons show ?case by (simp add: names_equal_iff header_entry_def lower_def)
qed simp

lemma length_header: "lower ''Content-Length'' = ''content-length''"
  by code_simp

lemma headers_of_plain:
  assumes "ready s" "plain_ok pr"
  shows "end_of_headers env ((apply_headers (pr_all_headers pr) (line_read pr o1 s))\<lparr>parse_offset := o2\<rparr>) w out =
    H1_more (headers_read pr o2 s) w out"
proof -
  note r = ready_fields [OF assms(1)]
  let ?n = "length (pr_body pr)"
  have hs: "list_all (\<lambda>h. lower (fst h) \<notin> {''content-length'', ''transfer-encoding''}) (pr_headers pr)"
    "list_all (\<lambda>h. lower (fst h) \<notin> {''content-length'', ''transfer-encoding''}) (pr_last_headers pr)"
    "list_all (\<lambda>h. lower (fst h) \<noteq> ''upgrade'') (pr_all_headers pr)"
    using assms(2) length_header by (auto simp: plain_ok_def pr_all_headers_def pr_named_headers_def list_all_iff)
  have split: "apply_headers (pr_all_headers pr) t = apply_headers (pr_last_headers pr)
      (if pr_body pr = [] then apply_headers (pr_headers pr) t
       else snd (apply_header ''Content-Length'' (to_string_nat ?n) (apply_headers (pr_headers pr) t)))" for t
    by (simp add: apply_headers_def pr_all_headers_def)
  have all: "map header_entry (pr_all_headers pr) = map header_entry (pr_headers pr) @
      (if pr_body pr = [] then [] else [header_entry (''Content-Length'', to_string_nat ?n)]) @ map header_entry (pr_last_headers pr)"
    by (simp add: pr_all_headers_def)
  have "stoull (to_string_nat ?n) = Inr (?n, length (to_string_nat ?n))"
    using assms(2) by (intro stoull_to_string) (simp add: plain_ok_def)
  then have ah: "(apply_headers (pr_all_headers pr) (line_read pr o1 s))\<lparr>parse_offset := o2\<rparr> =
      (headers_read pr o2 s)\<lparr>h1_state := Headers, current_request :=
        (current_request (headers_read pr o2 s))\<lparr>req_headers_complete := False\<rparr>\<rparr>"
    unfolding split using r(2,3)
    by (cases s) (auto simp: all apply_headers_plain [OF hs(1)] apply_headers_plain [OF hs(2)] pr_named_headers_def apply_header_def add_header_def length_header
      line_read_def headers_read_def request_of_def HeaderMap_add_def header_entry_def
      set_peer_address_def empty_request_def)
  have "\<not> is_upgrade_attempt (current_request ((headers_read pr o2 s)\<lparr>h1_state := Headers, current_request :=
        (current_request (headers_read pr o2 s))\<lparr>req_headers_complete := False\<rparr>\<rparr>))"
    using no_upgrade_header [OF hs(3)] by (simp add: is_upgrade_attempt_def request_header_def headers_read_def request_of_def)
  note eoh = end_of_headers_plain [OF this]
  show ?thesis unfolding ah eoh
    using r(4) by (cases s) (auto simp: body_state_def headers_read_def request_of_def set_peer_address_def empty_request_def)
qed

lemma headers_read_respond:
  assumes "ready s" "drop off (h1_buffer s) = pr_body pr @ rest"
  shows "body_and_respond env (headers_read pr off s) w out =
    respond env (s\<lparr>parse_offset := off + length (pr_body pr), keep_alive := fold keep_header (pr_named_headers pr) (keep_alive s),
      h1_state := Complete, current_request := request_of (h1_peer_address s) pr,
      h1_content_length := length (pr_body pr)\<rparr>) w out" (is "_ = respond env ?t w out")
proof -
  show ?thesis
  proof (cases "pr_body pr = []")
    case True
    then have "headers_read pr off s = ?t" by (cases s) (simp add: headers_read_def request_of_def)
    moreover have "h1_state ?t = Complete" by simp
    ultimately show ?thesis by (simp add: body_and_respond_def)
  next
    case False
    have len: "length (pr_body pr) \<le> length (h1_buffer s) - off" using arg_cong [OF assms(2), of length] by simp
    have "append_body ((request_of (h1_peer_address s) pr)\<lparr>req_body := [], req_body_complete := False\<rparr>) (pr_body pr)
        \<lparr>req_body_complete := True\<rparr> = request_of (h1_peer_address s) pr"
      using False by (simp add: append_body_def request_of_def)
    then have "read_body (headers_read pr off s) = Ch_complete ?t"
      using False len assms(2) ready_fields(4) [OF assms(1)]
      by (cases s) (simp add: read_body_def headers_read_def h1_body_complete_def h1_append_body_def)
    moreover have "h1_state (headers_read pr off s) = Body" using False by (simp add: headers_read_def)
    ultimately show ?thesis by (simp add: body_and_respond_def)
  qed
qed

lemma h1_iter_plain:
  assumes "ready s" "plain_ok pr" "drop (parse_offset s) (h1_buffer s) = render_request pr @ rest"
    and "request_handler env (request_of (h1_peer_address s) pr) w = (res, w1)" "sse_channel res = None"
  shows "h1_iter env s w out =
    H1_more (s\<lparr>parse_offset := length (h1_buffer s) - length rest, keep_alive := fold keep_header (pr_named_headers pr) (keep_alive s)\<rparr>)
      w1 (out @ [serialize_response (fold keep_header (pr_named_headers pr) (keep_alive s)) res])"
proof -
  note r = ready_fields [OF assms(1)]
  let ?o = "length (h1_buffer s) - length rest" and ?o2 = "length (h1_buffer s) - length (pr_body pr @ rest)"
  let ?k = "fold keep_header (pr_named_headers pr) (keep_alive s)"
  let ?tail = "concat (map header_text (pr_all_headers pr)) @ CRLF @ pr_body pr @ rest"
  have d: "drop (parse_offset s) (h1_buffer s) = request_line pr @ CRLF @ ?tail"
    using assms(3) by (simp add: render_request_def)
  note rl = read_request_line_plain [OF assms(2) d]
  let ?s1 = "line_read pr (length (h1_buffer s) - length ?tail) s"
  have "list_all field_ok (pr_all_headers pr)"
  proof -
    have cl: "field_ok (''Content-Length'', to_string_nat n)" for n
    proof -
      have "\<forall>c\<in>set (to_string_nat n). \<not> blank_or_tab c \<and> c \<noteq> CR"
        using to_string_nat_digits [of n] by (auto simp: isdigit_def blank_or_tab_def)
      then have "h1_trim (CHR '' '' # to_string_nat n) = to_string_nat n" "CR \<notin> set (to_string_nat n)"
        using trim_by_id [of "to_string_nat n" blank_or_tab]
        by (auto simp: h1_trim_def trim_by_def blank_or_tab_def)
      moreover have "h1_trim ''Content-Length'' = ''Content-Length''" by code_simp
      ultimately show ?thesis by (simp add: field_ok_def)
    qed
    with assms(2) show ?thesis by (auto simp: pr_all_headers_def pr_named_headers_def plain_ok_def list_all_iff)
  qed
  moreover have "list_all length_parses (pr_all_headers pr)"
    using assms(2) stoull_to_string [of "length (pr_body pr)"]
    by (auto simp: pr_all_headers_def pr_named_headers_def plain_ok_def list_all_iff length_parses_def)
  ultimately have hl: "header_loop env ?s1 w out = H1_more (headers_read pr ?o2 s) w out"
    using rl(2) headers_of_plain [OF assms(1,2)]
    by (subst header_loop_fields [where rest = "pr_body pr @ rest"]) (simp_all add: line_read_def)
  have dlen: "drop ?o2 (h1_buffer s) = pr_body pr @ rest"
    using d drop_to_suffix [of "parse_offset s" "h1_buffer s" "request_line pr @ CRLF @ concat (map header_text (pr_all_headers pr)) @ CRLF" "pr_body pr @ rest"]
    by simp
  have "?o2 + length (pr_body pr) = ?o" using arg_cong [OF dlen, of length] by (cases "pr_body pr @ rest = []") auto
  have body: "body_and_respond env (headers_read pr ?o2 s) w out =
      H1_more (s\<lparr>parse_offset := ?o, keep_alive := ?k\<rparr>) w1 (out @ [serialize_response ?k res])"
  proof -
    have "h1_reset (s\<lparr>parse_offset := ?o, keep_alive := ?k, h1_state := Complete,
        current_request := request_of (h1_peer_address s) pr, h1_content_length := length (pr_body pr)\<rparr>) =
      s\<lparr>parse_offset := ?o, keep_alive := ?k\<rparr>"
      using r(1-4) by (cases s) (simp add: h1_reset_def)
    then show ?thesis
      using headers_read_respond [OF assms(1) dlen, of env w out] assms(4,5) \<open>?o2 + length (pr_body pr) = ?o\<close>
      by (simp add: respond_def)
  qed
  have up: "h1_state ?s1 = Headers" "h1_upgraded (headers_read pr ?o2 s) = False"
    using r(5) by (simp_all add: line_read_def headers_read_def)
  show ?thesis
    by (simp only: h1_iter_def r(1) rl(1) [of w out] up hl body if_True if_False sum.case h1_step.case simp_thms)
qed


lemma h1_loop_plain:
  assumes "\<And>req w. sse_channel (fst (request_handler env req w)) = None"
  shows "ready s \<Longrightarrow> list_all plain_ok prs \<Longrightarrow> drop (parse_offset s) (h1_buffer s) = concat (map render_request prs) \<Longrightarrow>
    h1_loop env s w out =
      (case serve_all env (h1_peer_address s) (keep_alive s) prs w out of (out', keep, w') \<Rightarrow>
         Some (Feed_out out', h1_cleanup (s\<lparr>parse_offset := max (parse_offset s) (length (h1_buffer s)), keep_alive := keep\<rparr>), w'))"
proof (induction prs arbitrary: s w out)
  case Nil
  then have "length (h1_buffer s) \<le> parse_offset s" by simp
  then show ?case by (subst h1_loop.simps) (simp add: max_absorb1)
next
  case (Cons pr prs)
  obtain res w1 where h: "request_handler env (request_of (h1_peer_address s) pr) w = (res, w1)" by fastforce
  have sse: "sse_channel res = None" using assms [of "request_of (h1_peer_address s) pr" w] h by simp
  let ?rest = "concat (map render_request prs)"
  let ?k = "fold keep_header (pr_named_headers pr) (keep_alive s)"
  let ?s1 = "s\<lparr>parse_offset := length (h1_buffer s) - length ?rest, keep_alive := ?k\<rparr>"
  have d: "drop (parse_offset s) (h1_buffer s) = render_request pr @ ?rest" using Cons.prems(3) by simp
  have lt: "parse_offset s < length (h1_buffer s)"
    using arg_cong [OF d, of length] by (simp add: render_request_def)
  have "plain_ok pr" using Cons.prems(2) by simp
  note it = h1_iter_plain [OF Cons.prems(1) this d h sse]
  have "h1_loop env s w out = h1_loop env ?s1 w1 (out @ [serialize_response ?k res])"
    by (subst h1_loop.simps) (simp only: lt if_True it h1_step.case)
  also have "\<dots> = (case serve_all env (h1_peer_address ?s1) (keep_alive ?s1) prs w1 (out @ [serialize_response ?k res]) of (out', keep, w') \<Rightarrow>
         Some (Feed_out out', h1_cleanup (?s1\<lparr>parse_offset := max (parse_offset ?s1) (length (h1_buffer ?s1)), keep_alive := keep\<rparr>), w'))"
  proof (rule Cons.IH)
    show "ready ?s1" using Cons.prems(1) by (cases s) (simp add: ready_def h1_reset_def)
    show "list_all plain_ok prs" using Cons.prems(2) by simp
    show "drop (parse_offset ?s1) (h1_buffer ?s1) = ?rest" using drop_to_suffix [OF d] by simp
  qed
  finally show ?case using lt h by (simp add: max_def Let_def)
qed

section \<open>Properties\<close>

lemma feed_plain_requests:
  assumes "\<And>req w. sse_channel (fst (request_handler env req w)) = None"
    and "ready s" "h1_buffer s = []" "parse_offset s = 0" "list_all plain_ok prs"
  shows "feed_data env (concat (map render_request prs)) s w =
    (case serve_all env (h1_peer_address s) (keep_alive s) prs w [] of (out, keep, w') \<Rightarrow>
       Some (Feed_out out, s\<lparr>keep_alive := keep\<rparr>, w'))"
proof -
  let ?d = "concat (map render_request prs)"
  let ?s = "s\<lparr>h1_buffer := ?d\<rparr>"
  have "ready ?s" using assms(2) by (cases s) (simp add: ready_def h1_reset_def)
  from h1_loop_plain [OF assms(1) this assms(5), of w "[]"] assms(4)
  have "h1_loop env ?s w [] = (case serve_all env (h1_peer_address s) (keep_alive s) prs w [] of (out, keep, w') \<Rightarrow>
      Some (Feed_out out, h1_cleanup (?s\<lparr>parse_offset := length ?d, keep_alive := keep\<rparr>), w'))" by simp
  moreover have "h1_cleanup (?s\<lparr>parse_offset := length ?d, keep_alive := keep\<rparr>) = s\<lparr>keep_alive := keep\<rparr>" for keep
    using assms(2-4) by (cases s) (auto simp: h1_cleanup_def ready_def)
  moreover have "\<not> sse_active s" using assms(2) by (simp add: ready_def)
  ultimately show ?thesis using assms(3) by (simp add: feed_data_def split: prod.split)
qed

text \<open>
  C2: the parser and writer of an HTTP/1.1 connection serve pipelined requests. For any sequence of
  well-formed requests with bodies of declared length, sent back to back, the application's handler
  runs once per request, in order, on exactly the method, target, headers, authority, body and peer
  that were sent, and the responses, of handlers that return and open no event stream, are written in that order; afterwards the session is ready for
  the next request with nothing left unread.
\<close>

theorem http1_pipelined_requests:
  assumes "\<And>req w. sse_channel (fst (request_handler env req w)) = None"
    and "ready s" "h1_buffer s = []" "parse_offset s = 0" "list_all plain_ok prs"
  shows "feed_data env (concat (map render_request prs)) s w =
    (case serve_all env (h1_peer_address s) (keep_alive s) prs w [] of (out, keep, w') \<Rightarrow>
       Some (Feed_out out, s\<lparr>keep_alive := keep\<rparr>, w'))"
  using assms by (rule feed_plain_requests)

definition echo_env :: "nat h1_env" where
  "echo_env = \<lparr>request_handler = (\<lambda>req w. (Response_text default_response (req_body req), w\<lparr>app := app w + 1\<rparr>)),
     upgrade_handler = None,
     openssl = \<lparr>evp_decode_block = (\<lambda>k. (18, 18)), sha1 = (\<lambda>t. []), evp_encode_block = (\<lambda>d. ''accept'')\<rparr>\<rparr>"

definition two_requests :: "plain_request list" where
  "two_requests = [\<lparr>pr_method = ''GET'', pr_target = ''/a'', pr_headers = [(''Host'', ''h'')], pr_last_headers = [], pr_body = []\<rparr>,
     \<lparr>pr_method = ''POST'', pr_target = ''/b'', pr_headers = [(''Host'', ''h'')], pr_last_headers = [], pr_body = ''xy''\<rparr>]"

theorem http1_pipelined_requests_witness:
  "\<exists>out s'. feed_data echo_env (concat (map render_request two_requests)) new_http1 \<lparr>app = 0, channels = Map.empty\<rparr> =
     Some (Feed_out out, s', \<lparr>app = 2, channels = Map.empty\<rparr>) \<and> length out = 2 \<and> keep_alive s'"
proof -
  have ready: "ready new_http1" "h1_buffer new_http1 = []" "parse_offset new_http1 = 0"
    by (simp_all add: ready_def h1_reset_def new_http1_def set_peer_address_def empty_request_def)
  have trims: "h1_trim ''Host'' = ''Host''" "h1_trim '' h'' = ''h''" "lower ''Host'' = ''host''" by code_simp+
  have ok: "list_all plain_ok two_requests"
    by (simp add: two_requests_def plain_ok_def pr_named_headers_def field_ok_def trims)
  have keep: "keep_header (''Host'', ''h'') k = k" for k by (simp add: keep_header_def trims)
  have "sse_channel (fst (request_handler echo_env req w)) = None" for req and w :: "nat world"
    by (simp add: echo_env_def Response_text_def Response_header_def default_response_def Response_body_def)
  from http1_pipelined_requests [OF this ready ok, of "\<lparr>app = 0, channels = Map.empty\<rparr>"]
  show ?thesis by (simp add: two_requests_def pr_named_headers_def echo_env_def keep new_http1_def)
qed

text \<open>
  C34: parsing never hangs: whatever bytes arrive, in whatever state other than after a reported
  error, one call of \<^verbatim>\<open>feed_data\<close> returns.
\<close>

theorem http1_feed_returns:
  assumes "h1_state s \<noteq> Error_state"
  shows "\<exists>r. feed_data env data s w = Some r"
  using h1_loop_returns [of "s\<lparr>h1_buffer := h1_buffer s @ data\<rparr>" env w "[]"] assms
  by (simp add: feed_data_def split: prod.split)

theorem http1_feed_returns_witness:
  "\<exists>r. feed_data echo_env ''garbage'' new_http1 \<lparr>app = 0, channels = Map.empty\<rparr> = Some r"
  by (rule http1_feed_returns) (simp add: new_http1_def)

text \<open>
  The check that a chunk has arrived adds 64-bit sizes and wraps: the size line
  \<^verbatim>\<open>fffffffffffffffe\<close> points two bytes before the data, at the line's own end, passes both checks
  and makes the string throw out of \<^verbatim>\<open>feed_data\<close>.
\<close>

lemma http1_chunk_size_wraps:
  assumes "2 \<le> d" "d \<le> length (h1_buffer s)" "length (h1_buffer s) < 2 ^ 63"
    "h1_buffer s ! (d - 2) = CR" "h1_buffer s ! (d - 1) = LF"
  shows "chunk_data d (2 ^ 64 - 2) s = Ch_throw (Std_exception ''std::length_error'' ''basic_string::append'') s"
proof -
  have "(d + (2 ^ 64 - 2)) mod 2 ^ 64 = d - 2" "(d + (2 ^ 64 - 2) + 2) mod 2 ^ 64 = d"
    using assms(1-3) by (simp_all add: mod_if)
  moreover have "Suc (d - 2) = d - 1" using assms(1) by simp
  ultimately show ?thesis using assms by (simp add: chunk_data_def Let_def)
qed


text \<open>
  The end of a chunked body depends on how the reads fall: with the last chunk's size line and the
  final empty line in one read the body is complete, but when the read ends between them the size
  line is consumed, the body stays open, and the empty line of the next read is refused as a size.
\<close>

lemma http1_last_chunk_split:
  "chunk_loop (s\<lparr>h1_buffer := ''0'' @ CRLF @ CRLF, parse_offset := 0\<rparr>) =
     Ch_complete (h1_body_complete (s\<lparr>h1_buffer := ''0'' @ CRLF @ CRLF, parse_offset := 5\<rparr>))"
  "chunk_loop (s\<lparr>h1_buffer := ''0'' @ CRLF, parse_offset := 0\<rparr>) =
     Ch_incomplete (s\<lparr>h1_buffer := ''0'' @ CRLF, parse_offset := 3\<rparr>)"
  "chunk_loop (s\<lparr>h1_buffer := CRLF, parse_offset := 0\<rparr>) =
     Ch_error (-4) (s\<lparr>h1_buffer := CRLF, parse_offset := 0, h1_state := Error_state\<rparr>)"
proof -
  have z: "stoull16 (chunk_size_text ''0'') = Inr 0"
    by (simp add: stoull16_def chunk_size_text_def find_ch_def substr_upto_def isspace_def isxdigit_def isdigit_def
      starts_with_def xdigit_val_def)
  have e: "stoull16 (chunk_size_text []) = Inl (Invalid_argument ''stoull'')"
    by (simp add: stoull16_def chunk_size_text_def substr_upto_def starts_with_def)
  have t: "trailer_loop (''0'' @ CRLF @ CRLF) 3 = (True, 5)" "trailer_loop (''0'' @ CRLF) 3 = (False, 3)"
    by (simp_all add: trailer_loop.simps get_line_def)
  show "chunk_loop (s\<lparr>h1_buffer := ''0'' @ CRLF @ CRLF, parse_offset := 0\<rparr>) =
     Ch_complete (h1_body_complete (s\<lparr>h1_buffer := ''0'' @ CRLF @ CRLF, parse_offset := 5\<rparr>))"
    "chunk_loop (s\<lparr>h1_buffer := ''0'' @ CRLF, parse_offset := 0\<rparr>) =
     Ch_incomplete (s\<lparr>h1_buffer := ''0'' @ CRLF, parse_offset := 3\<rparr>)"
    "chunk_loop (s\<lparr>h1_buffer := CRLF, parse_offset := 0\<rparr>) =
     Ch_error (-4) (s\<lparr>h1_buffer := CRLF, parse_offset := 0, h1_state := Error_state\<rparr>)"
    using z e t by (simp_all add: chunk_loop.simps Let_def numeral_3_eq_3 [symmetric])
qed

end
