(* ===== verification/Stomp_Codec.thy ===== *)
theory Stomp_Codec
  imports Nova_Prelude "HOL-Library.AList" "HOL-Library.Multiset"
begin

text \<open>
  The STOMP 1.2 codec of \<^verbatim>\<open>src/messaging/stomp.cpp\<close>: header escaping, the incremental decoder, the
  serializer, the frame authorizer and the heart-beat header. Frames that were serialized are decoded
  again, and the decoder is independent of how its input is cut into pieces as long as it succeeds.
\<close>

section \<open>Frames\<close>

text \<open>
  The headers are a \<^verbatim>\<open>std::unordered_map\<close>: an association list with distinct keys, \<^const>\<open>AList.update\<close>
  for \<^verbatim>\<open>insert_or_assign\<close>. Its iteration order is not specified, so the operations that iterate take
  the order as an argument, any function that permutes the entries.
\<close>

type_synonym header_table = "(string \<times> string) list"

record Frame =
  fr_command :: string
  fr_headers :: header_table
  fr_body :: string

definition iteration_order :: "('a list \<Rightarrow> 'a list) \<Rightarrow> bool" where
  "iteration_order ord \<longleftrightarrow> (\<forall>xs. mset (ord xs) = mset xs)"

abbreviation NUL :: char where "NUL \<equiv> CHR 0x00"
abbreviation backslash :: char where "backslash \<equiv> CHR 0x5C"

definition frame_header :: "Frame \<Rightarrow> string \<Rightarrow> string" where
  "frame_header f name = (case map_of (fr_headers f) name of None \<Rightarrow> [] | Some v \<Rightarrow> v)"

definition escape_char :: "char \<Rightarrow> string" where
  "escape_char ch =
     (if ch = backslash then [backslash, backslash]
      else if ch = LF then [backslash, CHR ''n'']
      else if ch = CR then [backslash, CHR ''r'']
      else if ch = CHR '':'' then [backslash, CHR ''c'']
      else [ch])"

definition escape :: "string \<Rightarrow> string" where
  "escape value = concat (map escape_char value)"

fun unescape :: "string \<Rightarrow> string + string" where
  "unescape [] = Inr []"
| "unescape (ch # value) =
     (if ch \<noteq> backslash then (case unescape value of Inl e \<Rightarrow> Inl e | Inr r \<Rightarrow> Inr (ch # r))
      else case value of
             [] \<Rightarrow> Inl ''unterminated STOMP header escape''
           | d # rest \<Rightarrow>
               (if d = backslash then (case unescape rest of Inl e \<Rightarrow> Inl e | Inr r \<Rightarrow> Inr (backslash # r))
                else if d = CHR ''n'' then (case unescape rest of Inl e \<Rightarrow> Inl e | Inr r \<Rightarrow> Inr (LF # r))
                else if d = CHR ''r'' then (case unescape rest of Inl e \<Rightarrow> Inl e | Inr r \<Rightarrow> Inr (CR # r))
                else if d = CHR ''c'' then (case unescape rest of Inl e \<Rightarrow> Inl e | Inr r \<Rightarrow> Inr (CHR '':'' # r))
                else Inl ''invalid STOMP header escape''))"

definition line_without_cr :: "string \<Rightarrow> string" where
  "line_without_cr line = (if ends_with line [CR] then take (length line - 1) line else line)"

section \<open>Authorization of frames\<close>

definition destination_allowed :: "string \<Rightarrow> string list \<Rightarrow> bool" where
  "destination_allowed destination allowed_prefixes \<longleftrightarrow>
     allowed_prefixes = [] \<or>
     (\<exists>prefix\<in>set allowed_prefixes.
        destination = prefix \<or>
        (starts_with destination prefix \<and> length destination > length prefix \<and>
         destination ! length prefix = CHR ''/''))"

record AuthorizationPolicy =
  require_authenticated_principal :: bool
  allowed_send_destinations :: "string list"
  allowed_subscribe_destinations :: "string list"

definition frame_authorizer :: "AuthorizationPolicy \<Rightarrow> string \<Rightarrow> Frame \<Rightarrow> bool" where
  "frame_authorizer policy who f =
     (if require_authenticated_principal policy \<and> who = [] then False
      else
        let destination = frame_header f ''destination''
        in if fr_command f = ''SEND''
           then destination \<noteq> [] \<and> destination_allowed destination (allowed_send_destinations policy)
           else if fr_command f = ''SUBSCRIBE''
           then destination \<noteq> [] \<and> destination_allowed destination (allowed_subscribe_destinations policy)
           else True)"

section \<open>Heart-beat header\<close>

definition parse_heartbeat :: "string \<Rightarrow> string + nat \<times> nat" where
  "parse_heartbeat value =
     (if value = [] then Inr (0, 0)
      else case find_ch CHR '','' value of
             None \<Rightarrow> Inl ''invalid STOMP heart-beat header''
           | Some comma \<Rightarrow>
               (case (from_chars_u64 (take comma value), from_chars_u64 (drop (Suc comma) value)) of
                  (Some client_outgoing, Some client_incoming) \<Rightarrow> Inr (client_outgoing, client_incoming)
                | _ \<Rightarrow> Inl ''invalid STOMP heart-beat header''))"

section \<open>Decoder\<close>

text \<open>
  A cursor into the buffer is the rest of the buffer from there. A scan either needs more input,
  rejects the input, or gives a value and the rest.
\<close>

datatype 'a scan = Need_more | Bad string | Got 'a string

definition header_field :: "string \<Rightarrow> header_table \<Rightarrow> string + header_table" where
  "header_field line hs =
     (case find_ch CHR '':'' line of
        None \<Rightarrow> Inl ''malformed STOMP header''
      | Some colon \<Rightarrow>
          (if colon = 0 then Inl ''malformed STOMP header''
           else case unescape (take colon line) of
                  Inl e \<Rightarrow> Inl e
                | Inr name \<Rightarrow>
                    (case unescape (drop (Suc colon) line) of
                       Inl e \<Rightarrow> Inl e
                     | Inr value \<Rightarrow> Inr (AList.update name value hs))))"

function read_headers :: "string \<Rightarrow> header_table \<Rightarrow> header_table scan" where
  "read_headers buf hs =
     (case find_ch LF buf of
        None \<Rightarrow> Need_more
      | Some n \<Rightarrow>
          (if line_without_cr (take n buf) = [] then Got hs (drop (Suc n) buf)
           else case header_field (line_without_cr (take n buf)) hs of
                  Inl e \<Rightarrow> Bad e
                | Inr hs' \<Rightarrow> read_headers (drop (Suc n) buf) hs'))"
  by pat_completeness auto
termination
  by (relation "measure (\<lambda>(buf, hs). length buf)") (auto dest: find_ch_SomeD(1))

declare read_headers.simps [simp del]

definition read_frame_body :: "header_table \<Rightarrow> string \<Rightarrow> string scan" where
  "read_frame_body hs buf =
     (case map_of hs ''content-length'' of
        Some text \<Rightarrow>
          (case from_chars_u64 text of
             None \<Rightarrow> Bad ''invalid STOMP content-length''
           | Some body_size \<Rightarrow>
               (if body_size > length buf then Need_more
                else if length buf < body_size + 1 then Need_more
                else if buf ! body_size \<noteq> NUL then Bad ''STOMP frame is missing NUL terminator''
                else Got (take body_size buf) (drop (body_size + 1) buf)))
      | None \<Rightarrow>
          (case find_ch NUL buf of
             None \<Rightarrow> Need_more
           | Some terminator \<Rightarrow> Got (take terminator buf) (drop (Suc terminator) buf)))"

definition read_frame :: "string \<Rightarrow> Frame scan" where
  "read_frame buf =
     (if buf = [] then Need_more
      else case find_ch LF buf of
             None \<Rightarrow> Need_more
           | Some n \<Rightarrow>
               (let command = line_without_cr (take n buf)
                in if command = [] then Bad ''STOMP command is empty''
                   else case read_headers (drop (Suc n) buf) [] of
                          Need_more \<Rightarrow> Need_more
                        | Bad e \<Rightarrow> Bad e
                        | Got hs rest \<Rightarrow>
                            (case read_frame_body hs rest of
                               Need_more \<Rightarrow> Need_more
                             | Bad e \<Rightarrow> Bad e
                             | Got body rest' \<Rightarrow>
                                 Got \<lparr>fr_command = command, fr_headers = hs, fr_body = body\<rparr> rest')))"

text \<open>The two loops that skip heartbeats: first every LF, then every CRLF.\<close>

fun skip_crlf :: "string \<Rightarrow> string" where
  "skip_crlf (a # b # buf) = (if a = CR \<and> b = LF then skip_crlf buf else a # b # buf)"
| "skip_crlf buf = buf"

definition skip_heartbeats :: "string \<Rightarrow> string" where
  "skip_heartbeats buf = skip_crlf (dropWhile (\<lambda>c. c = LF) buf)"

lemma length_skip_crlf: "length (skip_crlf buf) \<le> length buf"
  by (induction buf rule: skip_crlf.induct) auto

lemma length_skip_heartbeats: "length (skip_heartbeats buf) \<le> length buf"
  unfolding skip_heartbeats_def using length_skip_crlf length_dropWhile_le le_trans by blast

lemma read_headers_line:
  "find_ch LF buf = Some n \<Longrightarrow> read_headers buf hs =
     (if line_without_cr (take n buf) = [] then Got hs (drop (Suc n) buf)
      else case header_field (line_without_cr (take n buf)) hs of
             Inl e \<Rightarrow> Bad e | Inr hs' \<Rightarrow> read_headers (drop (Suc n) buf) hs')"
  by (subst read_headers.simps) simp

lemma read_headers_no_line: "find_ch LF buf = None \<Longrightarrow> read_headers buf hs = Need_more"
  by (subst read_headers.simps) simp

lemma read_headers_shorter: "read_headers buf hs = Got hs' rest \<Longrightarrow> length rest < length buf"
proof (induction buf hs rule: read_headers.induct)
  case (1 buf hs)
  show ?case
  proof (cases "find_ch LF buf")
    case None
    with 1(2) show ?thesis by (simp add: read_headers_no_line)
  next
    case (Some n)
    then have "length (drop (Suc n) buf) < length buf" using find_ch_SomeD(1) [OF Some] by simp
    with 1(2) Some 1(1) [OF Some] show ?thesis
      by (fastforce simp: read_headers_line split: if_splits sum.splits)
  qed
qed

lemma read_frame_body_shorter: "read_frame_body hs buf = Got b rest \<Longrightarrow> length rest \<le> length buf"
  by (auto simp: read_frame_body_def split: option.splits if_splits)

lemma read_frame_shorter: "read_frame buf = Got f rest \<Longrightarrow> length rest < length buf"
  by (auto simp: read_frame_def Let_def split: option.splits if_splits scan.splits
      dest!: read_headers_shorter read_frame_body_shorter find_ch_SomeD(1))

record Decoder =
  dec_buffer :: string
  dec_failed :: bool

definition Decoder_new :: Decoder where
  "Decoder_new = \<lparr>dec_buffer = [], dec_failed = False\<rparr>"

function decode_loop :: "string \<Rightarrow> (string + Frame list) \<times> string" where
  "decode_loop buffer =
     (let buf = skip_heartbeats buffer
      in case read_frame buf of
           Need_more \<Rightarrow> (Inr [], buf)
         | Bad e \<Rightarrow> (Inl e, buf)
         | Got f rest \<Rightarrow>
             (case decode_loop rest of (Inl e, buf') \<Rightarrow> (Inl e, buf') | (Inr fs, buf') \<Rightarrow> (Inr (f # fs), buf')))"
  by pat_completeness auto
termination
  by (relation "measure length") (auto dest!: read_frame_shorter intro: less_le_trans length_skip_heartbeats)

declare decode_loop.simps [simp del]

definition decoder_feed :: "Decoder \<Rightarrow> string \<Rightarrow> (string + Frame list) \<times> Decoder" where
  "decoder_feed d bytes =
     (if dec_failed d then (Inl ''STOMP decoder is in failed state'', d)
      else case decode_loop (dec_buffer d @ bytes) of
             (Inl e, buf) \<Rightarrow> (Inl e, \<lparr>dec_buffer = buf, dec_failed = True\<rparr>)
           | (Inr fs, buf) \<Rightarrow> (Inr fs, \<lparr>dec_buffer = buf, dec_failed = False\<rparr>))"

section \<open>Serializer\<close>

definition stomp_header_line :: "string \<times> string \<Rightarrow> string" where
  "stomp_header_line h = escape (fst h) @ CHR '':'' # escape (snd h) @ [LF]"

definition serialize :: "(header_table \<Rightarrow> header_table) \<Rightarrow> Frame \<Rightarrow> string" where
  "serialize ord f =
     (let hs = ord (fr_headers f);
          has_content_length = (\<exists>h\<in>set hs. fst h = ''content-length'')
      in fr_command f @ LF # concat (map stomp_header_line hs)
         @ (if NUL \<in> set (fr_body f) \<and> \<not> has_content_length
            then ''content-length:'' @ to_string_nat (length (fr_body f)) @ [LF] else [])
         @ LF # fr_body f @ [NUL])"

section \<open>More input does not change a decision\<close>

lemma find_ch_extend: "find_ch c s = Some n \<Longrightarrow> find_ch c (s @ x) = Some n"
  by (auto simp: find_ch_def split: if_splits)

text \<open>A scan is stable when input that arrives later does not change its decision.\<close>

fun extend_scan :: "string \<Rightarrow> 'a scan \<Rightarrow> 'a scan" where
  "extend_scan x (Got v rest) = Got v (rest @ x)"
| "extend_scan x s = s"

lemma read_headers_extend:
  "read_headers buf hs \<noteq> Need_more \<Longrightarrow> read_headers (buf @ x) hs = extend_scan x (read_headers buf hs)"
proof (induction buf hs rule: read_headers.induct)
  case (1 buf hs)
  show ?case
  proof (cases "find_ch LF buf")
    case None
    with 1(2) show ?thesis by (simp add: read_headers_no_line)
  next
    case (Some n)
    let ?l = "line_without_cr (take n buf)"
    have eq: "read_headers b hs = (if ?l = [] then Got hs (drop (Suc n) b)
       else case header_field ?l hs of Inl e \<Rightarrow> Bad e | Inr hs' \<Rightarrow> read_headers (drop (Suc n) b) hs')"
      if "find_ch LF b = Some n" "take n b = take n buf" for b
      using read_headers_line [OF that(1)] that(2) by simp
    have n: "Suc n \<le> length buf" using find_ch_SomeD(1) [OF Some] by simp
    show ?thesis
    proof (cases "?l = [] \<or> (\<exists>e. header_field ?l hs = Inl e)")
      case True
      then show ?thesis using n by (auto simp: eq [OF Some refl] eq [OF find_ch_extend [OF Some]])
    next
      case False
      then obtain hs' where hs': "?l \<noteq> []" "header_field ?l hs = Inr hs'" by (cases "header_field ?l hs") auto
      with 1(1) [OF Some hs'] 1(2) n show ?thesis
        by (simp add: eq [OF Some refl] eq [OF find_ch_extend [OF Some]])
    qed
  qed
qed

lemma read_frame_body_extend:
  "read_frame_body hs buf \<noteq> Need_more \<Longrightarrow> read_frame_body hs (buf @ x) = extend_scan x (read_frame_body hs buf)"
  by (auto simp: read_frame_body_def nth_append find_ch_extend [of _ buf _ x] split: option.splits if_splits
      dest: find_ch_SomeD(1) [of NUL buf])

lemma read_frame_extend:
  assumes "read_frame buf \<noteq> Need_more"
  shows "read_frame (buf @ x) = extend_scan x (read_frame buf)"
proof -
  obtain n where n: "find_ch LF buf = Some n" and buf: "buf \<noteq> []"
    using assms by (auto simp: read_frame_def split: if_splits option.splits)
  let ?c = "line_without_cr (take n buf)"
  have lt: "Suc n \<le> length buf" using find_ch_SomeD(1) [OF n] by simp
  then have cut: "take n (buf @ x) = take n buf" "drop (Suc n) (buf @ x) = drop (Suc n) buf @ x" by simp_all
  note eqs = read_frame_def n find_ch_extend [OF n, of x] buf cut
  show ?thesis
  proof (cases "?c = []")
    case False
    let ?h = "read_headers (drop (Suc n) buf) []"
    have h: "?h \<noteq> Need_more" using assms False by (auto simp: eqs)
    note h' = read_headers_extend [OF h, of x]
    show ?thesis
    proof (cases ?h)
      case (Got hs rest)
      have "read_frame_body hs rest \<noteq> Need_more" using assms False Got by (auto simp: eqs)
      from read_frame_body_extend [OF this, of x] show ?thesis
        using False Got h' by (cases "read_frame_body hs rest") (simp_all add: eqs del: take_append drop_append)
    qed (use h h' False in \<open>simp_all add: eqs del: take_append drop_append\<close>)
  qed (simp add: eqs del: take_append drop_append)
qed

lemma skip_crlf_extend: "skip_crlf buf \<noteq> [] \<Longrightarrow> skip_crlf buf \<noteq> [CR] \<Longrightarrow> skip_crlf (buf @ x) = skip_crlf buf @ x"
proof (induction buf rule: skip_crlf.induct)
  case "2_2"
  then show ?case by (cases x) simp_all
next
  case (1 a b buf)
  then show ?case by (cases "a = CR \<and> b = LF") auto
qed simp

lemma skip_heartbeats_append:
  "skip_heartbeats (buf @ x) =
     (if dropWhile (\<lambda>c. c = LF) buf = [] then skip_heartbeats x else skip_crlf (dropWhile (\<lambda>c. c = LF) buf @ x))"
  by (induction buf) (simp_all add: skip_heartbeats_def)

lemma skip_heartbeats_extend:
  "skip_heartbeats buf \<noteq> [] \<Longrightarrow> skip_heartbeats buf \<noteq> [CR] \<Longrightarrow> skip_heartbeats (buf @ x) = skip_heartbeats buf @ x"
  unfolding skip_heartbeats_append unfolding skip_heartbeats_def
  by (cases "dropWhile (\<lambda>c. c = LF) buf = []") (simp_all add: skip_crlf_extend del: dropWhile_eq_Nil_conv)

text \<open>
  What is left after skipping can be skipped again with more input, unless an LF follows a CRLF: that
  LF is taken for a command line.
\<close>

lemma skip_crlf_again:
  "\<not> starts_with (skip_crlf (buf @ x)) [LF] \<Longrightarrow> skip_heartbeats (skip_crlf buf @ x) = skip_crlf (buf @ x)"
proof (induction buf rule: skip_crlf.induct)
  case (1 a b buf)
  then show ?case by (auto simp: skip_heartbeats_def starts_with_def)
next
  case "2_1"
  show ?case
  proof (cases "starts_with x [LF]")
    case True
    then have "skip_crlf x = x" by (cases x rule: skip_crlf.cases) (auto simp: starts_with_def)
    with True "2_1" show ?thesis by simp
  next
    case False
    then show ?thesis by (cases x) (auto simp: skip_heartbeats_def starts_with_def)
  qed
next
  case "2_2"
  then show ?case by (cases x) (auto simp: skip_heartbeats_def starts_with_def split: if_splits)
qed

lemma skip_heartbeats_again:
  "\<not> starts_with (skip_heartbeats (buf @ x)) [LF] \<Longrightarrow>
   skip_heartbeats (skip_heartbeats buf @ x) = skip_heartbeats (buf @ x)"
  unfolding skip_heartbeats_append [of buf x] unfolding skip_heartbeats_def [of buf]
  by (cases "dropWhile (\<lambda>c. c = LF) buf = []") (simp_all add: skip_crlf_again del: dropWhile_eq_Nil_conv)

lemma read_frame_LF: "starts_with buf [LF] \<Longrightarrow> read_frame buf = Bad ''STOMP command is empty''"
  by (cases buf) (auto simp: starts_with_def read_frame_def find_ch_def Let_def line_without_cr_def ends_with_def)

lemma decode_loop_append:
  "decode_loop (a @ b) = (Inr fs, buf) \<Longrightarrow>
   \<exists>fs1 fs2 r. decode_loop a = (Inr fs1, r) \<and> decode_loop (r @ b) = (Inr fs2, buf) \<and> fs = fs1 @ fs2"
proof (induction a arbitrary: fs rule: decode_loop.induct)
  case (1 a)
  let ?s = "skip_heartbeats a"
  have noLF: "\<not> starts_with (skip_heartbeats (a @ b)) [LF]"
  proof
    assume "starts_with (skip_heartbeats (a @ b)) [LF]"
    from read_frame_LF [OF this] 1(2) show False by (subst (asm) decode_loop.simps) (simp add: Let_def)
  qed
  show ?case
  proof (cases "read_frame ?s")
    case Need_more
    have "decode_loop (?s @ b) = decode_loop (a @ b)"
      by (subst (1 2) decode_loop.simps) (simp add: skip_heartbeats_again [OF noLF])
    with Need_more 1(2) show ?thesis by (subst (1) decode_loop.simps) simp
  next
    case other: (Bad e)
    then have "?s \<noteq> []" "?s \<noteq> [CR]" by (auto simp: read_frame_def find_ch_def)
    from skip_heartbeats_extend [OF this, of b] read_frame_extend [of ?s b] other 1(2) show ?thesis
      by (subst (asm) decode_loop.simps) simp
  next
    case got: (Got f rest)
    then have "?s \<noteq> []" "?s \<noteq> [CR]" by (auto simp: read_frame_def find_ch_def)
    from skip_heartbeats_extend [OF this, of b] read_frame_extend [of ?s b] got 1(2)
    obtain fs' where fs: "fs = f # fs'" and rest: "decode_loop (rest @ b) = (Inr fs', buf)"
      by (subst (asm) decode_loop.simps) (auto split: prod.splits sum.splits)
    from 1(1) [OF refl got rest] obtain fs1 fs2 r where
      "decode_loop rest = (Inr fs1, r)" "decode_loop (r @ b) = (Inr fs2, buf)" "fs' = fs1 @ fs2" by blast
    with got fs show ?thesis by (subst (1) decode_loop.simps) simp
  qed
qed

section \<open>Input in pieces\<close>

fun feed_pieces :: "Decoder \<Rightarrow> string list \<Rightarrow> (string + Frame list) \<times> Decoder" where
  "feed_pieces d [] = (Inr [], d)"
| "feed_pieces d (p # ps) =
     (case decoder_feed d p of
        (Inl e, d') \<Rightarrow> (Inl e, d')
      | (Inr fs, d') \<Rightarrow> (case feed_pieces d' ps of (Inl e, d'') \<Rightarrow> (Inl e, d'') | (Inr gs, d'') \<Rightarrow> (Inr (fs @ gs), d'')))"

lemma decoder_feed_append:
  assumes "decoder_feed d (a @ b) = (Inr fs, d')"
  shows "\<exists>fs1 fs2 d1. decoder_feed d a = (Inr fs1, d1) \<and> decoder_feed d1 b = (Inr fs2, d') \<and> fs = fs1 @ fs2"
proof -
  from assms obtain buf where ok: "\<not> dec_failed d" "decode_loop ((dec_buffer d @ a) @ b) = (Inr fs, buf)"
    and d': "d' = \<lparr>dec_buffer = buf, dec_failed = False\<rparr>"
    by (auto simp: decoder_feed_def split: if_splits prod.splits sum.splits)
  from decode_loop_append [OF ok(2)] ok(1) d' show ?thesis
    by (fastforce simp: decoder_feed_def)
qed

lemma feed_pieces_concat:
  "ps \<noteq> [] \<Longrightarrow> decoder_feed d (concat ps) = (Inr fs, d') \<Longrightarrow> feed_pieces d ps = (Inr fs, d')"
proof (induction ps arbitrary: d fs)
  case (Cons p ps)
  show ?case
  proof (cases "ps = []")
    case False
    from Cons.prems(2) obtain fs1 fs2 d1 where
      "decoder_feed d p = (Inr fs1, d1)" "decoder_feed d1 (concat ps) = (Inr fs2, d')" "fs = fs1 @ fs2"
      using decoder_feed_append by fastforce
    with Cons.IH [OF False] show ?thesis by fastforce
  qed (use Cons.prems in simp)
qed simp

section \<open>Serialized frames are decoded again\<close>

lemma escape_Cons: "escape (c # v) = escape_char c @ escape v"
  by (simp add: escape_def)

lemma escape_Nil [simp]: "escape [] = []"
  by (simp add: escape_def)

lemma escape_Nil_iff [simp]: "escape v = [] \<longleftrightarrow> v = []"
  by (cases v) (simp_all add: escape_Cons escape_char_def)

lemma escape_clean: "c \<in> {LF, CR, CHR '':''} \<Longrightarrow> c \<notin> set (escape v)"
  by (auto simp: escape_def escape_char_def split: if_splits)

lemma unescape_escape: "unescape (escape v) = Inr v"
  by (induction v) (simp_all add: escape_Cons escape_char_def)

lemma header_field_escaped: "n \<noteq> [] \<Longrightarrow> header_field (escape n @ CHR '':'' # escape v) hs = Inr (AList.update n v hs)"
  by (simp add: header_field_def find_ch_append escape_clean unescape_escape)

lemma line_without_cr_id: "l \<noteq> [] \<Longrightarrow> last l \<noteq> CR \<Longrightarrow> line_without_cr l = l"
  by (cases l rule: rev_cases) (simp_all add: line_without_cr_def ends_with_def)

lemma read_headers_header_line:
  assumes "fst h \<noteq> []"
  shows "read_headers (stomp_header_line h @ rest) hs = read_headers rest (AList.update (fst h) (snd h) hs)"
proof -
  define l where "l = escape (fst h) @ CHR '':'' # escape (snd h)"
  have eq: "stomp_header_line h @ rest = l @ LF # rest" by (simp add: stomp_header_line_def l_def)
  have lf: "LF \<notin> set l" using escape_clean [of LF] by (simp add: l_def)
  have "CR \<notin> set l" using escape_clean [of CR] by (simp add: l_def)
  then have cr: "l \<noteq> []" "last l \<noteq> CR" using last_in_set [of l] by (auto simp: l_def)
  have "header_field l hs = Inr (AList.update (fst h) (snd h) hs)"
    unfolding l_def by (rule header_field_escaped [OF assms])
  with cr show ?thesis
    unfolding eq by (simp add: read_headers_line [OF find_ch_append [OF lf]] line_without_cr_id)
qed

lemma update_fresh: "k \<notin> fst ` set al \<Longrightarrow> AList.update k v al = al @ [(k, v)]"
  by (induction al) auto

lemma read_headers_lines:
  "distinct (map fst (acc @ hs)) \<Longrightarrow> [] \<notin> fst ` set hs \<Longrightarrow>
   read_headers (concat (map stomp_header_line hs) @ LF # rest) acc = Got (acc @ hs) rest"
proof (induction hs arbitrary: acc)
  case Nil
  then show ?case by (simp add: read_headers_line [of _ 0] find_ch_def line_without_cr_def ends_with_def)
next
  case (Cons h hs)
  then have "AList.update (fst h) (snd h) acc = acc @ [h]" by (subst update_fresh) auto
  with Cons show ?case by (auto simp: read_headers_header_line)
qed

text \<open>The headers on the wire: the frame's own in iteration order, and the length the serializer adds.\<close>

definition wire_headers :: "(header_table \<Rightarrow> header_table) \<Rightarrow> Frame \<Rightarrow> header_table" where
  "wire_headers ord f = ord (fr_headers f) @
     (if NUL \<in> set (fr_body f) \<and> ''content-length'' \<notin> fst ` set (fr_headers f)
      then [(''content-length'', to_string_nat (length (fr_body f)))] else [])"

definition wire_frame :: "(header_table \<Rightarrow> header_table) \<Rightarrow> Frame \<Rightarrow> Frame" where
  "wire_frame ord f = f\<lparr>fr_headers := wire_headers ord f\<rparr>"

definition frame_ok :: "Frame \<Rightarrow> bool" where
  "frame_ok f \<longleftrightarrow>
     fr_command f \<noteq> [] \<and> LF \<notin> set (fr_command f) \<and> last (fr_command f) \<noteq> CR \<and>
     distinct (map fst (fr_headers f)) \<and> [] \<notin> fst ` set (fr_headers f) \<and>
     (case map_of (fr_headers f) ''content-length'' of
        Some text \<Rightarrow> from_chars_u64 text = Some (length (fr_body f))
      | None \<Rightarrow> length (fr_body f) < 2 ^ 64)"

lemma escape_plain: "\<forall>c\<in>set v. c \<notin> {backslash, LF, CR, CHR '':''} \<Longrightarrow> escape v = v"
  by (induction v) (auto simp: escape_Cons escape_char_def)

lemma isdigit_plain: "isdigit c \<Longrightarrow> c \<notin> {backslash, LF, CR, CHR '':''}"
  by (auto simp: isdigit_def)

lemma header_line_length:
  "stomp_header_line (''content-length'', to_string_nat n) = ''content-length:'' @ to_string_nat n @ [LF]"
  using to_string_nat_digits [of n] isdigit_plain by (simp add: stomp_header_line_def escape_plain)

lemma order_entries:
  assumes "iteration_order ord"
  shows "set (ord hs) = set hs" "distinct (map fst hs) \<Longrightarrow> distinct (map fst (ord hs))"
    "distinct (map fst hs) \<Longrightarrow> map_of (ord hs) = map_of hs"
proof -
  have m: "mset (ord hs) = mset hs" using assms by (simp add: iteration_order_def)
  then show s: "set (ord hs) = set hs" by (rule mset_eq_setD)
  assume d: "distinct (map fst hs)"
  have "mset (map fst (ord hs)) = mset (map fst hs)" using m by (simp add: mset_map)
  then show d': "distinct (map fst (ord hs))" using d mset_eq_imp_distinct_iff by blast
  show "map_of (ord hs) = map_of hs" using d d' s map_of_inject_set by blast
qed

lemma serialize_wire:
  assumes "iteration_order ord"
  shows "serialize ord f = fr_command f @ LF # concat (map stomp_header_line (wire_headers ord f)) @ LF # fr_body f @ [NUL]"
  using order_entries(1) [OF assms, of "fr_headers f"]
  by (simp add: serialize_def Let_def wire_headers_def header_line_length image_iff Bex_def)

lemma wire_headers_ok:
  assumes "iteration_order ord" "frame_ok f"
  shows "distinct (map fst (wire_headers ord f))" "[] \<notin> fst ` set (wire_headers ord f)"
    "n \<noteq> ''content-length'' \<Longrightarrow> map_of (wire_headers ord f) n = map_of (fr_headers f) n"
  using assms(2) order_entries [OF assms(1), of "fr_headers f"]
  by (auto simp: wire_headers_def frame_ok_def map_add_def split: option.splits)

lemma read_frame_body_wire:
  assumes ord: "iteration_order ord" and ok: "frame_ok f"
  shows "read_frame_body (wire_headers ord f) (fr_body f @ NUL # rest) = Got (fr_body f) rest"
proof (cases "map_of (fr_headers f) ''content-length''")
  case (Some len)
  then have "''content-length'' \<in> fst ` set (fr_headers f)" by (metis domI dom_map_of_conv_image_fst)
  then have "map_of (wire_headers ord f) ''content-length'' = Some len"
    using Some ok order_entries(3) [OF ord, of "fr_headers f"] by (simp add: wire_headers_def frame_ok_def)
  with Some ok show ?thesis by (simp add: read_frame_body_def frame_ok_def)
next
  case None
  then have nm: "''content-length'' \<notin> fst ` set (fr_headers f)" by (simp add: map_of_eq_None_iff)
  have mo: "map_of (ord (fr_headers f)) ''content-length'' = None"
    using None ok order_entries(3) [OF ord, of "fr_headers f"] by (simp add: frame_ok_def)
  show ?thesis
  proof (cases "NUL \<in> set (fr_body f)")
    case True
    have "length (fr_body f) < 2 ^ 64" using ok None by (simp add: frame_ok_def)
    then have "from_chars_u64 (to_string_nat (length (fr_body f))) = Some (length (fr_body f))"
      by (rule from_chars_to_string)
    with True nm mo show ?thesis by (simp add: read_frame_body_def wire_headers_def map_add_def)
  next
    case False
    with mo show ?thesis by (simp add: read_frame_body_def wire_headers_def find_ch_append)
  qed
qed

lemma read_frame_serialize:
  assumes "iteration_order ord" "frame_ok f"
  shows "read_frame (serialize ord f @ rest) = Got (wire_frame ord f) rest"
proof -
  have c: "fr_command f \<noteq> []" "LF \<notin> set (fr_command f)" "last (fr_command f) \<noteq> CR"
    using assms(2) by (simp_all add: frame_ok_def)
  have "read_headers (concat (map stomp_header_line (wire_headers ord f)) @ LF # fr_body f @ NUL # rest) [] =
      Got (wire_headers ord f) (fr_body f @ NUL # rest)"
    using read_headers_lines [of "[]" "wire_headers ord f"] wire_headers_ok [OF assms] by simp
  with c read_frame_body_wire [OF assms] show ?thesis
    by (simp add: serialize_wire [OF assms(1)] read_frame_def find_ch_append line_without_cr_id wire_frame_def)
qed

lemma skip_heartbeats_serialize:
  assumes "frame_ok f"
  shows "skip_heartbeats (serialize ord f @ rest) = serialize ord f @ rest"
proof -
  obtain c cs where c: "fr_command f = c # cs" using assms by (cases "fr_command f") (auto simp: frame_ok_def)
  have "c \<noteq> LF" "c = CR \<Longrightarrow> cs \<noteq> [] \<and> hd cs \<noteq> LF"
    using assms c by (cases cs; auto simp: frame_ok_def split: if_splits)+
  with c show ?thesis by (cases cs) (auto simp: serialize_def Let_def skip_heartbeats_def)
qed

text \<open>A run of heartbeats that the decoder skips in one input: \<open>k\<close> LFs and then \<open>m\<close> CRLFs.\<close>

definition beats :: "nat \<Rightarrow> nat \<Rightarrow> string" where
  "beats k m = replicate k LF @ concat (replicate m [CR, LF])"

lemma skip_heartbeats_LFs: "skip_heartbeats (replicate k LF @ rest) = skip_heartbeats rest"
  by (induction k) (simp_all add: skip_heartbeats_def)

lemma skip_heartbeats_beats:
  assumes "rest = [] \<or> hd rest \<noteq> LF"
  shows "skip_heartbeats (beats k m @ rest) = skip_heartbeats rest"
proof -
  have "skip_crlf (concat (replicate m [CR, LF]) @ rest) = skip_crlf rest" by (induction m) simp_all
  moreover have "dropWhile (\<lambda>c. c = LF) (concat (replicate m [CR, LF]) @ rest) = concat (replicate m [CR, LF]) @ rest"
    using assms by (cases m; cases rest) simp_all
  moreover have "dropWhile (\<lambda>c. c = LF) rest = rest" using assms by (cases rest) simp_all
  ultimately show ?thesis by (simp add: beats_def skip_heartbeats_LFs) (simp add: skip_heartbeats_def)
qed

lemma decode_loop_beats: "rest = [] \<or> hd rest \<noteq> LF \<Longrightarrow> decode_loop (beats k m @ rest) = decode_loop rest"
  by (subst (1 2) decode_loop.simps) (simp add: skip_heartbeats_beats)

definition stream_of :: "(header_table \<Rightarrow> header_table) \<Rightarrow> (Frame \<times> nat \<times> nat) list \<Rightarrow> string" where
  "stream_of ord fs = concat (map (\<lambda>(f, k, m). serialize ord f @ beats k m) fs)"

lemma beats_0 [simp]: "beats 0 0 = []"
  by (simp add: beats_def)

lemma stream_starts: "\<forall>f\<in>fst ` set fs. frame_ok f \<Longrightarrow> stream_of ord fs = [] \<or> hd (stream_of ord fs) \<noteq> LF"
  by (cases fs) (auto simp: stream_of_def serialize_def Let_def frame_ok_def neq_Nil_conv)

lemma decode_loop_stream:
  "iteration_order ord \<Longrightarrow> \<forall>f\<in>fst ` set fs. frame_ok f \<Longrightarrow>
   decode_loop (stream_of ord fs) = (Inr (map (wire_frame ord \<circ> fst) fs), [])"
proof (induction fs)
  case Nil
  then show ?case by (subst decode_loop.simps) (simp add: stream_of_def skip_heartbeats_def read_frame_def)
next
  case (Cons p fs)
  obtain f k m where p: "p = (f, k, m)" by (cases p)
  let ?rest = "beats k m @ stream_of ord fs"
  have f: "frame_ok f" and fs: "\<forall>f\<in>fst ` set fs. frame_ok f" using Cons.prems p by simp_all
  have "stream_of ord (p # fs) = serialize ord f @ ?rest" by (simp add: stream_of_def p)
  moreover have "decode_loop ?rest = (Inr (map (wire_frame ord \<circ> fst) fs), [])"
    using Cons.IH [OF Cons.prems(1) fs] decode_loop_beats [OF stream_starts [OF fs]] by simp
  ultimately show ?case
    by (subst decode_loop.simps)
       (simp add: skip_heartbeats_serialize [OF f] read_frame_serialize [OF Cons.prems(1) f] p)
qed

section \<open>Properties\<close>

text \<open>
  The header a frame has once it crossed the wire: its own, and the length of the body for a frame with a NUL in
  its body that had none.
\<close>

definition received_header :: "Frame \<Rightarrow> string \<Rightarrow> string option" where
  "received_header f n =
     (if n = ''content-length'' \<and> map_of (fr_headers f) n = None \<and> NUL \<in> set (fr_body f)
      then Some (to_string_nat (length (fr_body f))) else map_of (fr_headers f) n)"

lemma wire_frame_received:
  assumes "iteration_order ord" "frame_ok f"
  shows "map_of (fr_headers (wire_frame ord f)) n = received_header f n"
proof (cases "n = ''content-length''")
  case True
  have "map_of (ord (fr_headers f)) = map_of (fr_headers f)"
    using assms(2) by (intro order_entries(3) [OF assms(1)]) (simp add: frame_ok_def)
  moreover have "''content-length'' \<in> fst ` set (fr_headers f) \<longleftrightarrow> map_of (fr_headers f) ''content-length'' \<noteq> None"
    by (simp add: map_of_eq_None_iff)
  ultimately show ?thesis using True
    by (simp add: wire_frame_def wire_headers_def received_header_def map_add_def split: option.split)
next
  case False
  with wire_headers_ok(3) [OF assms] show ?thesis by (simp add: wire_frame_def received_header_def)
qed

text \<open>
  C31: Frames serialized one after another, with any number of LF heartbeats and then of CRLF heartbeats between
  them, and delivered to a fresh decoder in any pieces, come out once each, in order, with command and body
  unchanged and every header as it was; the one header added is the content length of a body with NUL that
  had none. A frame has a command without line ends, distinct names of headers, none of them empty, and, where it
  has one, a content length that is the length of its body. (An LF heartbeat right after a CRLF one in the same
  input is an error: \<open>stomp_heartbeat_order\<close>.)\<close>

theorem stomp_frames_roundtrip:
  assumes "iteration_order ord" and "\<forall>f\<in>fst ` set fs. frame_ok f" and "ps \<noteq> []" and "concat ps = stream_of ord fs"
  shows "\<exists>gs. feed_pieces Decoder_new ps = (Inr gs, Decoder_new) \<and>
    list_all2 (\<lambda>f g. fr_command g = fr_command f \<and> fr_body g = fr_body f \<and>
        (\<forall>n. map_of (fr_headers g) n = received_header f n)) (map fst fs) gs"
proof -
  have "decoder_feed Decoder_new (concat ps) = (Inr (map (wire_frame ord \<circ> fst) fs), Decoder_new)"
    using decode_loop_stream [OF assms(1,2)] by (simp add: assms(4) decoder_feed_def Decoder_new_def)
  moreover have "list_all2 (\<lambda>f g. fr_command g = fr_command f \<and> fr_body g = fr_body f \<and>
        (\<forall>n. map_of (fr_headers g) n = received_header f n)) (map fst fs) (map (wire_frame ord \<circ> fst) fs)"
    using assms(2) wire_frame_received [OF assms(1)] by (auto simp: list.rel_map list_all2_same wire_frame_def)
  ultimately show ?thesis using feed_pieces_concat [OF assms(3)] by blast
qed

definition nul_frame :: Frame where
  "nul_frame = \<lparr>fr_command = ''SEND'', fr_headers = [(''destination'', ''/topic/a:b'')], fr_body = [NUL]\<rparr>"

lemma iteration_order_rev: "iteration_order rev"
  by (simp add: iteration_order_def)

lemma nul_frame_ok: "frame_ok nul_frame"
  by (simp add: frame_ok_def nul_frame_def)

definition sized_frame :: Frame where
  "sized_frame = \<lparr>fr_command = ''SEND'', fr_headers = [(''content-length'', ''2''), (''destination'', ''/queue/a'')], fr_body = ''hi''\<rparr>"

lemma sized_frame_ok: "frame_ok sized_frame"
proof -
  have "to_string_nat 2 = ''2''" by code_simp
  then have "from_chars_u64 ''2'' = Some 2" using from_chars_to_string [of 2] by simp
  then show ?thesis by (simp add: frame_ok_def sized_frame_def)
qed

theorem stomp_frames_roundtrip_witness:
  "\<exists>gs. feed_pieces Decoder_new (map (\<lambda>c. [c]) (stream_of rev [(nul_frame, 2, 1), (sized_frame, 0, 1)])) = (Inr gs, Decoder_new) \<and>
    list_all2 (\<lambda>f g. fr_command g = fr_command f \<and> fr_body g = fr_body f \<and>
        (\<forall>n. map_of (fr_headers g) n = received_header f n)) [nul_frame, sized_frame] gs"
  using stomp_frames_roundtrip [of rev "[(nul_frame, 2, 1), (sized_frame, 0, 1)]"
      "map (\<lambda>c. [c]) (stream_of rev [(nul_frame, 2, 1), (sized_frame, 0, 1)])"]
  by (simp add: iteration_order_rev nul_frame_ok sized_frame_ok) (simp add: stream_of_def serialize_def nul_frame_def)

text \<open>
  The heartbeats between frames are skipped as LFs first and CRLFs after them, so an LF behind a CRLF in
  one input is a protocol error, while the same bytes in two inputs are two heartbeats.
\<close>

lemma stomp_heartbeat_order:
  "fst (decoder_feed Decoder_new [CR, LF, LF]) = Inl ''STOMP command is empty''"
  "feed_pieces Decoder_new [[CR, LF], [LF]] = (Inr [], Decoder_new)"
  by (simp_all add: decoder_feed_def Decoder_new_def decode_loop.simps skip_heartbeats_def read_frame_def find_ch_def
      line_without_cr_def ends_with_def)

text \<open>
  A malformed frame discards the good frames decoded before it in the same input: the caller sees
  only the error.
\<close>

lemma stomp_error_discards_frames:
  assumes "iteration_order ord" "frame_ok f"
  shows "fst (decoder_feed Decoder_new (serialize ord f @ [CR, LF, LF])) = Inl ''STOMP command is empty''"
    and "feed_pieces Decoder_new [serialize ord f] = (Inr [wire_frame ord f], Decoder_new)"
proof -
  have "decode_loop [CR, LF, LF] = (Inl ''STOMP command is empty'', [LF])"
    by (simp add: decode_loop.simps skip_heartbeats_def read_frame_def find_ch_def line_without_cr_def ends_with_def)
  then show "fst (decoder_feed Decoder_new (serialize ord f @ [CR, LF, LF])) = Inl ''STOMP command is empty''"
    by (simp add: decoder_feed_def Decoder_new_def decode_loop.simps [of "serialize ord f @ _"]
        skip_heartbeats_serialize [OF assms(2)] read_frame_serialize [OF assms])
  show "feed_pieces Decoder_new [serialize ord f] = (Inr [wire_frame ord f], Decoder_new)"
    using decode_loop_stream [OF assms(1), of "[(f, 0, 0)]"] assms(2)
    by (simp add: decoder_feed_def Decoder_new_def stream_of_def)
qed

lemma destination_allowed_iff:
  "destination_allowed d ps \<longleftrightarrow> ps = [] \<or> (\<exists>p\<in>set ps. \<exists>rest. d = p @ rest \<and> (rest = [] \<or> hd rest = CHR ''/''))"
proof -
  have "(d = p \<or> starts_with d p \<and> length p < length d \<and> d ! length p = CHR ''/'') \<longleftrightarrow>
      (\<exists>rest. d = p @ rest \<and> (rest = [] \<or> hd rest = CHR ''/''))" for p
    using starts_withD [of d p] by (auto simp: hd_drop_conv_nth hd_conv_nth nth_append)
  then show ?thesis by (simp add: destination_allowed_def)
qed

end
