(* ===== verification/Jwt_Auth.thy ===== *)
theory Jwt_Auth
  imports Http_Filters Ws_Handshake Stomp_Codec
begin

text \<open>
  JSON Web Tokens (\<^verbatim>\<open>src/middleware/jwt_middleware.cpp\<close>): the token builder and issuer, verification with
  its temporal, issuer, audience, scope and claim checks, the middleware and the WebSocket authorizer.
  OpenSSL (base64 blocks, HMAC, RSA) and the JSON parser are parameters of the model. Times are nanoseconds
  since the epoch. \<open>jwt_middleware_guards\<close> says what a request that passes has proved.
\<close>

section \<open>Libraries\<close>

text \<open>
  A parsed JSON document. Integers outside 64 bits and fractions are \<open>J_real\<close>. Access by key finds the
  first field of an object.
\<close>

datatype json =
    J_null
  | J_bool bool
  | J_int int
  | J_real string
  | J_string string
  | J_array "json list"
  | J_object "(string \<times> json) list"

record jwt_libs =
  evp_encode :: "string \<Rightarrow> string"
  evp_decode :: "string \<Rightarrow> string option"
  hmac_sha256 :: "string \<Rightarrow> string \<Rightarrow> string option"
  rs256_sign :: "string \<Rightarrow> string \<Rightarrow> string + string"
  rs256_verify :: "string \<Rightarrow> string \<Rightarrow> string \<Rightarrow> string + unit"
  parse_json :: "string \<Rightarrow> json option"

definition at_key :: "json \<Rightarrow> string \<Rightarrow> json option" where
  "at_key j k = (case j of J_object fs \<Rightarrow> map_of fs k | _ \<Rightarrow> None)"

section \<open>Configuration\<close>

datatype JwtAlgorithm = HS256 | RS256

record JwtConfig =
  allowed_algorithms :: "JwtAlgorithm list"
  jc_hmac_secret :: string
  rsa_public_key_pem :: string
  jc_allowlist_paths :: "string list"
  jc_allow_options :: bool
  authorization_header :: string
  bearer_prefix :: string
  jwt_cookie_name :: "string option"
  websocket_cookie_name :: "string option"
  required_issuer :: "string option"
  required_audiences :: "string list"
  required_scopes_jwt :: "string list"
  required_claims :: "(string \<times> string) list"
  require_expiration :: bool
  validate_not_before :: bool
  validate_issued_at :: bool
  clock_skew :: int
  jc_scope_claim :: string
  jc_unauthorized_status :: int
  jc_unauthorized_body :: string

record JwtTokenBuilder =
  tb_subject :: "string option"
  tb_issuer :: "string option"
  tb_audience :: "string list"
  tb_scopes :: "string list"
  tb_token_id :: "string option"
  tb_expires_at :: "int option"
  tb_not_before :: "int option"
  tb_issued_at :: "int option"
  tb_string_claims :: "(string \<times> string) list"
  tb_integer_claims :: "(string \<times> int) list"
  tb_bool_claims :: "(string \<times> bool) list"
  tb_array_claims :: "(string \<times> string list) list"

definition JwtTokenBuilder_new :: JwtTokenBuilder where
  "JwtTokenBuilder_new = \<lparr>tb_subject = None, tb_issuer = None, tb_audience = [], tb_scopes = [], tb_token_id = None,
     tb_expires_at = None, tb_not_before = None, tb_issued_at = None, tb_string_claims = [], tb_integer_claims = [],
     tb_bool_claims = [], tb_array_claims = []\<rparr>"

record JwtIssuerConfig =
  is_algorithm :: JwtAlgorithm
  is_hmac_secret :: string
  is_rsa_private_key_pem :: string
  is_key_id :: string
  is_type :: string
  is_scope_claim :: string
  encode_scopes_as_array :: bool
  include_issued_at :: bool
  default_ttl :: int

section \<open>Builder\<close>

definition nanos :: "int \<Rightarrow> int" where
  "nanos seconds = seconds * 1000000000"

definition builder_subject :: "string \<Rightarrow> JwtTokenBuilder \<Rightarrow> JwtTokenBuilder" where
  "builder_subject value tb = tb\<lparr>tb_subject := Some value\<rparr>"

definition builder_issuer :: "string \<Rightarrow> JwtTokenBuilder \<Rightarrow> JwtTokenBuilder" where
  "builder_issuer value tb = tb\<lparr>tb_issuer := Some value\<rparr>"

definition builder_audience :: "string \<Rightarrow> JwtTokenBuilder \<Rightarrow> JwtTokenBuilder" where
  "builder_audience value tb = tb\<lparr>tb_audience := tb_audience tb @ [value]\<rparr>"

definition builder_audiences :: "string list \<Rightarrow> JwtTokenBuilder \<Rightarrow> JwtTokenBuilder" where
  "builder_audiences values tb = tb\<lparr>tb_audience := values\<rparr>"

definition builder_scope :: "string \<Rightarrow> JwtTokenBuilder \<Rightarrow> JwtTokenBuilder" where
  "builder_scope value tb = tb\<lparr>tb_scopes := tb_scopes tb @ [value]\<rparr>"

definition builder_scopes :: "string list \<Rightarrow> JwtTokenBuilder \<Rightarrow> JwtTokenBuilder" where
  "builder_scopes values tb = tb\<lparr>tb_scopes := values\<rparr>"

definition builder_token_id :: "string \<Rightarrow> JwtTokenBuilder \<Rightarrow> JwtTokenBuilder" where
  "builder_token_id value tb = tb\<lparr>tb_token_id := Some value\<rparr>"

definition builder_expires_at :: "int \<Rightarrow> JwtTokenBuilder \<Rightarrow> JwtTokenBuilder" where
  "builder_expires_at value tb = tb\<lparr>tb_expires_at := Some value\<rparr>"

definition builder_expires_in :: "int \<Rightarrow> int \<Rightarrow> JwtTokenBuilder \<Rightarrow> JwtTokenBuilder" where
  "builder_expires_in now seconds tb = tb\<lparr>tb_expires_at := Some (now + nanos seconds)\<rparr>"

definition builder_not_before :: "int \<Rightarrow> JwtTokenBuilder \<Rightarrow> JwtTokenBuilder" where
  "builder_not_before value tb = tb\<lparr>tb_not_before := Some value\<rparr>"

definition builder_issued_at :: "int \<Rightarrow> JwtTokenBuilder \<Rightarrow> JwtTokenBuilder" where
  "builder_issued_at value tb = tb\<lparr>tb_issued_at := Some value\<rparr>"

definition builder_issued_now :: "int \<Rightarrow> JwtTokenBuilder \<Rightarrow> JwtTokenBuilder" where
  "builder_issued_now now tb = tb\<lparr>tb_issued_at := Some now\<rparr>"

definition claim_string :: "string \<Rightarrow> string \<Rightarrow> JwtTokenBuilder \<Rightarrow> JwtTokenBuilder" where
  "claim_string name value tb = tb\<lparr>tb_string_claims := AList.update name value (tb_string_claims tb)\<rparr>"

definition claim_cstring :: "string \<Rightarrow> string option \<Rightarrow> JwtTokenBuilder \<Rightarrow> JwtTokenBuilder" where
  "claim_cstring name value tb =
     tb\<lparr>tb_string_claims := AList.update name (case value of None \<Rightarrow> [] | Some v \<Rightarrow> v) (tb_string_claims tb)\<rparr>"

definition claim_integer :: "string \<Rightarrow> int \<Rightarrow> JwtTokenBuilder \<Rightarrow> JwtTokenBuilder" where
  "claim_integer name value tb = tb\<lparr>tb_integer_claims := AList.update name value (tb_integer_claims tb)\<rparr>"

definition claim_bool :: "string \<Rightarrow> bool \<Rightarrow> JwtTokenBuilder \<Rightarrow> JwtTokenBuilder" where
  "claim_bool name value tb = tb\<lparr>tb_bool_claims := AList.update name value (tb_bool_claims tb)\<rparr>"

definition claim_array :: "string \<Rightarrow> string list \<Rightarrow> JwtTokenBuilder \<Rightarrow> JwtTokenBuilder" where
  "claim_array name value tb = tb\<lparr>tb_array_claims := AList.update name value (tb_array_claims tb)\<rparr>"

section \<open>Claims of a principal\<close>

definition claims_string :: "JwtClaims \<Rightarrow> string \<Rightarrow> string option" where
  "claims_string c name = string_claims c name"

definition claims_integer :: "JwtClaims \<Rightarrow> string \<Rightarrow> int option" where
  "claims_integer c name = integer_claims c name"

definition claims_boolean :: "JwtClaims \<Rightarrow> string \<Rightarrow> bool option" where
  "claims_boolean c name = bool_claims c name"

definition claims_string_array :: "JwtClaims \<Rightarrow> string \<Rightarrow> string list option" where
  "claims_string_array c name = string_array_claims c name"

section \<open>Writing tokens\<close>

text \<open>\<^verbatim>\<open>duration_cast\<close> to seconds truncates towards zero.\<close>

definition unix_seconds :: "int \<Rightarrow> int" where
  "unix_seconds t = (if 0 \<le> t then t div 1000000000 else - ((- t) div 1000000000))"

definition json_string :: "string \<Rightarrow> string" where
  "json_string s = quoted (json_escape s)"

fun json_items :: "string list \<Rightarrow> string" where
  "json_items [] = []"
| "json_items [v] = json_string v"
| "json_items (v # w # vs) = json_string v @ '','' @ json_items (w # vs)"

definition json_string_array :: "string list \<Rightarrow> string" where
  "json_string_array values = ''['' @ json_items values @ '']''"

definition space_join :: "string list \<Rightarrow> string" where
  "space_join values = join_with CHR '' '' values"

definition add_json_field :: "string \<Rightarrow> string \<Rightarrow> string \<times> bool \<Rightarrow> string \<times> bool" where
  "add_json_field name value st =
     (case st of (json, first) \<Rightarrow> (json @ (if first then [] else '','') @ json_string name @ '':'' @ value, False))"

definition json_object :: "(string \<times> string) list \<Rightarrow> string" where
  "json_object fs = fst (fold (\<lambda>(n, v). add_json_field n v) fs (''{'', True)) @ ''}''"

text \<open>
  The fields in the order they are added. \<open>ord\<close> gives the iteration orders of the four claim maps.
\<close>

record claim_orders =
  order_strings :: "(string \<times> string) list \<Rightarrow> (string \<times> string) list"
  order_integers :: "(string \<times> int) list \<Rightarrow> (string \<times> int) list"
  order_bools :: "(string \<times> bool) list \<Rightarrow> (string \<times> bool) list"
  order_arrays :: "(string \<times> string list) list \<Rightarrow> (string \<times> string list) list"

definition opt_field :: "string \<Rightarrow> ('a \<Rightarrow> string) \<Rightarrow> 'a option \<Rightarrow> (string \<times> string) list" where
  "opt_field name f v = (case v of None \<Rightarrow> [] | Some x \<Rightarrow> [(name, f x)])"

definition claim_fields :: "claim_orders \<Rightarrow> int \<Rightarrow> JwtIssuerConfig \<Rightarrow> JwtTokenBuilder \<Rightarrow> (string \<times> string) list" where
  "claim_fields ord now cfg tb =
     opt_field ''sub'' json_string (tb_subject tb) @
     opt_field ''iss'' json_string (tb_issuer tb) @
     (case tb_audience tb of [] \<Rightarrow> [] | [a] \<Rightarrow> [(''aud'', json_string a)] | _ \<Rightarrow> [(''aud'', json_string_array (tb_audience tb))]) @
     (if tb_scopes tb = [] then []
      else [(is_scope_claim cfg, if encode_scopes_as_array cfg then json_string_array (tb_scopes tb)
                                 else json_string (space_join (tb_scopes tb)))]) @
     opt_field ''jti'' json_string (tb_token_id tb) @
     opt_field ''exp'' (\<lambda>t. to_string_int (unix_seconds t))
       (case tb_expires_at tb of Some t \<Rightarrow> Some t
        | None \<Rightarrow> if default_ttl cfg > 0 then Some (now + nanos (default_ttl cfg)) else None) @
     opt_field ''nbf'' (\<lambda>t. to_string_int (unix_seconds t)) (tb_not_before tb) @
     opt_field ''iat'' (\<lambda>t. to_string_int (unix_seconds t))
       (case tb_issued_at tb of Some t \<Rightarrow> Some t | None \<Rightarrow> if include_issued_at cfg then Some now else None) @
     map (\<lambda>(n, v). (n, json_string v)) (order_strings ord (tb_string_claims tb)) @
     map (\<lambda>(n, v). (n, to_string_int v)) (order_integers ord (tb_integer_claims tb)) @
     map (\<lambda>(n, v). (n, if v then ''true'' else ''false'')) (order_bools ord (tb_bool_claims tb)) @
     map (\<lambda>(n, v). (n, json_string_array v)) (order_arrays ord (tb_array_claims tb))"

definition serialize_claims :: "claim_orders \<Rightarrow> int \<Rightarrow> JwtIssuerConfig \<Rightarrow> JwtTokenBuilder \<Rightarrow> string" where
  "serialize_claims ord now cfg tb = json_object (claim_fields ord now cfg tb)"

definition algorithm_name :: "JwtAlgorithm \<Rightarrow> string" where
  "algorithm_name a = (case a of HS256 \<Rightarrow> ''HS256'' | RS256 \<Rightarrow> ''RS256'')"

definition header_fields :: "JwtIssuerConfig \<Rightarrow> (string \<times> string) list" where
  "header_fields cfg =
     [(''alg'', json_string (algorithm_name (is_algorithm cfg))), (''typ'', json_string (is_type cfg))] @
     (if is_key_id cfg \<noteq> [] then [(''kid'', json_string (is_key_id cfg))] else [])"

definition serialize_header :: "JwtIssuerConfig \<Rightarrow> string" where
  "serialize_header cfg = json_object (header_fields cfg)"

definition to_url_char :: "char \<Rightarrow> char" where
  "to_url_char ch = (if ch = CHR ''+'' then CHR ''-'' else if ch = CHR ''/'' then CHR ''_'' else ch)"

definition base64url_encode :: "jwt_libs \<Rightarrow> string \<Rightarrow> string" where
  "base64url_encode L data = rev (dropWhile (\<lambda>c. c = CHR ''='') (rev (map to_url_char (evp_encode L data))))"

definition sign_hs256 :: "jwt_libs \<Rightarrow> string \<Rightarrow> string \<Rightarrow> string + string" where
  "sign_hs256 L input secret =
     (if secret = [] then Inl ''missing_hmac_secret''
      else case hmac_sha256 L secret input of None \<Rightarrow> Inl ''signature_error'' | Some digest \<Rightarrow> Inr digest)"

definition sign_rs256 :: "jwt_libs \<Rightarrow> string \<Rightarrow> string \<Rightarrow> string + string" where
  "sign_rs256 L input private_key_pem =
     (if private_key_pem = [] then Inl ''missing_rsa_private_key'' else rs256_sign L private_key_pem input)"

definition jwt_issue :: "jwt_libs \<Rightarrow> claim_orders \<Rightarrow> int \<Rightarrow> JwtIssuerConfig \<Rightarrow> JwtTokenBuilder \<Rightarrow> string + string" where
  "jwt_issue L ord now cfg tb =
     (let signing_input = base64url_encode L (serialize_header cfg) @ ''.'' @ base64url_encode L (serialize_claims ord now cfg tb);
          signature = (case is_algorithm cfg of
                         HS256 \<Rightarrow> sign_hs256 L signing_input (is_hmac_secret cfg)
                       | RS256 \<Rightarrow> sign_rs256 L signing_input (is_rsa_private_key_pem cfg))
      in case signature of Inl e \<Rightarrow> Inl e | Inr sig \<Rightarrow> Inr (signing_input @ ''.'' @ base64url_encode L sig))"

section \<open>Reading tokens\<close>

text \<open>The mapping loop of \<^verbatim>\<open>base64url_decode\<close> and the padding to a multiple of four.\<close>

fun from_url :: "string \<Rightarrow> string option" where
  "from_url [] = Some []"
| "from_url (ch # input) =
     (let mapped = (if ch = CHR ''-'' then Some CHR ''+''
                    else if ch = CHR ''_'' then Some CHR ''/''
                    else if isalnum ch \<or> ch = CHR ''='' then Some ch
                    else None)
      in case mapped of
           None \<Rightarrow> None
         | Some c \<Rightarrow> (case from_url input of None \<Rightarrow> None | Some cs \<Rightarrow> Some (c # cs)))"

definition pad4 :: "string \<Rightarrow> string" where
  "pad4 b64 = b64 @ replicate ((4 - length b64 mod 4) mod 4) CHR ''=''"

text \<open>
  Resizing to a length below zero asks for almost \<open>2 ^ 64\<close> bytes, which throws.
\<close>

definition base64url_decode :: "jwt_libs \<Rightarrow> string \<Rightarrow> (string + string) result" where
  "base64url_decode L input =
     (case from_url input of
        None \<Rightarrow> Inr (Inl ''invalid_base64url'')
      | Some mapped \<Rightarrow>
          (let b64 = pad4 mapped
           in case evp_decode L b64 of
                None \<Rightarrow> Inr (Inl ''invalid_base64'')
              | Some decoded \<Rightarrow>
                  (let padding = count_list b64 CHR ''=''
                   in if padding > length decoded then Inl (Std_exception ''std::length_error'' ''basic_string::_M_replace_aux'')
                      else Inr (Inr (take (length decoded - padding) decoded)))))"

record ParsedToken =
  header_json :: string
  payload_json :: string
  pt_signature :: string
  signing_input :: string

definition parse_compact_jwt :: "jwt_libs \<Rightarrow> string \<Rightarrow> (string + ParsedToken) result" where
  "parse_compact_jwt L token =
     (case find_ch CHR ''.'' token of
        None \<Rightarrow> Inr (Inl ''malformed_token'')
      | Some first_dot \<Rightarrow>
          (let rest = drop (Suc first_dot) token
           in case find_ch CHR ''.'' rest of
                None \<Rightarrow> Inr (Inl ''malformed_token'')
              | Some k \<Rightarrow>
                  (if find_ch CHR ''.'' (drop (Suc k) rest) \<noteq> None then Inr (Inl ''malformed_token'')
                   else case base64url_decode L (take first_dot token) of
                          Inl e \<Rightarrow> Inl e
                        | Inr header \<Rightarrow>
                            (case base64url_decode L (take k rest) of
                               Inl e \<Rightarrow> Inl e
                             | Inr payload \<Rightarrow>
                                 (case base64url_decode L (drop (Suc k) rest) of
                                    Inl e \<Rightarrow> Inl e
                                  | Inr signature \<Rightarrow>
                                      (case (header, payload, signature) of
                                         (Inr h, Inr p, Inr s) \<Rightarrow>
                                           Inr (Inr \<lparr>header_json = h, payload_json = p, pt_signature = s,
                                                     signing_input = take (first_dot + Suc k) token\<rparr>)
                                       | _ \<Rightarrow> Inr (Inl ''malformed_token'')))))))"

definition get_json_string :: "json \<Rightarrow> string \<Rightarrow> string option" where
  "get_json_string j key = (case at_key j key of Some (J_string s) \<Rightarrow> Some s | _ \<Rightarrow> None)"

definition get_json_int :: "json \<Rightarrow> string \<Rightarrow> int option" where
  "get_json_int j key = (case at_key j key of Some (J_int i) \<Rightarrow> Some i | _ \<Rightarrow> None)"

fun json_strings :: "json list \<Rightarrow> string list" where
  "json_strings [] = []"
| "json_strings (J_string s # js) = s # json_strings js"
| "json_strings (_ # js) = json_strings js"

definition read_string_or_array :: "json \<Rightarrow> string \<Rightarrow> string list" where
  "read_string_or_array j key =
     (case at_key j key of
        Some (J_string s) \<Rightarrow> [s]
      | Some (J_array js) \<Rightarrow> json_strings js
      | _ \<Rightarrow> [])"

function split_scopes :: "string \<Rightarrow> string list" where
  "split_scopes str =
     (if str = [] then []
      else
        let rest = dropWhile isspace str; word = takeWhile (\<lambda>c. \<not> isspace c) rest
        in (if word \<noteq> [] then [word] else []) @ split_scopes (drop (length word) rest))"
  by pat_completeness auto
termination
proof (relation "measure length", goal_cases)
  case (2 str rest word)
  then obtain c cs where str: "str = c # cs" by (cases str) auto
  have "length (dropWhile isspace str) \<le> length cs" if "isspace c" using that length_dropWhile_le str by simp
  with 2 str show ?case by (cases "isspace c") auto
qed simp

declare split_scopes.simps [simp del]

definition read_scopes :: "json \<Rightarrow> string \<Rightarrow> string list" where
  "read_scopes payload claim =
     (case at_key payload claim of
        Some (J_string s) \<Rightarrow> split_scopes s
      | _ \<Rightarrow> read_string_or_array payload claim)"

text \<open>Seconds become a 64-bit count of nanoseconds; a value that does not fit has no defined meaning.\<close>

definition from_unix_seconds :: "int \<Rightarrow> int result" where
  "from_unix_seconds seconds =
     (if - (2 ^ 63) \<le> nanos seconds \<and> nanos seconds < 2 ^ 63 then Inr (nanos seconds)
      else Inl (Undefined_behaviour ''time_point overflow''))"

definition algorithm_allowed :: "JwtConfig \<Rightarrow> string \<Rightarrow> bool" where
  "algorithm_allowed cfg alg \<longleftrightarrow>
     (\<exists>a\<in>set (allowed_algorithms cfg). (a = HS256 \<and> alg = ''HS256'') \<or> (a = RS256 \<and> alg = ''RS256''))"

definition constant_time_equal :: "8 word list \<Rightarrow> 8 word list \<Rightarrow> bool" where
  "constant_time_equal a b =
     (if length a \<noteq> length b then False
      else fold (\<lambda>(x, y) diff. or diff (xor x y)) (zip a b) 0 = 0)"

definition verify_hs256 :: "jwt_libs \<Rightarrow> ParsedToken \<Rightarrow> string \<Rightarrow> string + unit" where
  "verify_hs256 L token secret =
     (if secret = [] then Inl ''missing_hmac_secret''
      else case hmac_sha256 L secret (signing_input token) of
             None \<Rightarrow> Inl ''signature_error''
           | Some digest \<Rightarrow>
               (if \<not> constant_time_equal (str_bytes (pt_signature token)) (str_bytes digest)
                then Inl ''invalid_signature'' else Inr ()))"

definition verify_rs256 :: "jwt_libs \<Rightarrow> ParsedToken \<Rightarrow> string \<Rightarrow> string + unit" where
  "verify_rs256 L token public_key_pem =
     (if public_key_pem = [] then Inl ''missing_rsa_key''
      else rs256_verify L public_key_pem (signing_input token) (pt_signature token))"

definition empty_claims :: JwtClaims where
  "empty_claims = \<lparr>string_claims = Map.empty, integer_claims = Map.empty, bool_claims = Map.empty, string_array_claims = Map.empty\<rparr>"

fun add_claim :: "string \<times> json \<Rightarrow> JwtClaims \<Rightarrow> JwtClaims" where
  "add_claim (name, J_string s) c = c\<lparr>string_claims := (string_claims c)(name \<mapsto> s)\<rparr>"
| "add_claim (name, J_int i) c = c\<lparr>integer_claims := (integer_claims c)(name \<mapsto> i)\<rparr>"
| "add_claim (name, J_bool b) c = c\<lparr>bool_claims := (bool_claims c)(name \<mapsto> b)\<rparr>"
| "add_claim (name, J_array js) c =
     (if json_strings js \<noteq> [] then c\<lparr>string_array_claims := (string_array_claims c)(name \<mapsto> json_strings js)\<rparr> else c)"
| "add_claim (name, _) c = c"

definition read_all_claims :: "json \<Rightarrow> JwtClaims \<Rightarrow> JwtClaims" where
  "read_all_claims payload claims = (case payload of J_object fs \<Rightarrow> fold add_claim fs claims | _ \<Rightarrow> claims)"

section \<open>Verification\<close>

definition or_empty :: "string option \<Rightarrow> string" where
  "or_empty v = (case v of None \<Rightarrow> [] | Some s \<Rightarrow> s)"

definition read_principal :: "JwtConfig \<Rightarrow> json \<Rightarrow> JwtPrincipal" where
  "read_principal cfg payload = \<lparr>
     jwt_subject = or_empty (get_json_string payload ''sub''),
     jwt_issuer = or_empty (get_json_string payload ''iss''),
     jwt_audience = read_string_or_array payload ''aud'',
     jwt_scopes = read_scopes payload (jc_scope_claim cfg),
     jwt_token_id = or_empty (get_json_string payload ''jti''),
     jwt_expires_at = None, jwt_not_before = None, jwt_issued_at = None,
     jwt_claims = read_all_claims payload empty_claims\<rparr>"

type_synonym 'a verdict = "(string + 'a) result"

definition check_expiration :: "int \<Rightarrow> JwtConfig \<Rightarrow> json \<Rightarrow> JwtPrincipal \<Rightarrow> JwtPrincipal verdict" where
  "check_expiration now cfg payload p =
     (case get_json_int payload ''exp'' of
        Some e \<Rightarrow>
          (case from_unix_seconds e of
             Inl x \<Rightarrow> Inl x
           | Inr t \<Rightarrow> if now - nanos (clock_skew cfg) \<ge> t then Inr (Inl ''token_expired'')
                      else Inr (Inr (p\<lparr>jwt_expires_at := Some t\<rparr>)))
      | None \<Rightarrow> if require_expiration cfg then Inr (Inl ''missing_exp'') else Inr (Inr p))"

definition check_not_before :: "int \<Rightarrow> JwtConfig \<Rightarrow> json \<Rightarrow> JwtPrincipal \<Rightarrow> JwtPrincipal verdict" where
  "check_not_before now cfg payload p =
     (if validate_not_before cfg then
        (case get_json_int payload ''nbf'' of
           Some n \<Rightarrow>
             (case from_unix_seconds n of
                Inl x \<Rightarrow> Inl x
              | Inr t \<Rightarrow> if now + nanos (clock_skew cfg) < t then Inr (Inl ''token_not_yet_valid'')
                         else Inr (Inr (p\<lparr>jwt_not_before := Some t\<rparr>)))
         | None \<Rightarrow> Inr (Inr p))
      else Inr (Inr p))"

definition check_issued_at :: "int \<Rightarrow> JwtConfig \<Rightarrow> json \<Rightarrow> JwtPrincipal \<Rightarrow> JwtPrincipal verdict" where
  "check_issued_at now cfg payload p =
     (if validate_issued_at cfg then
        (case get_json_int payload ''iat'' of
           Some n \<Rightarrow>
             (case from_unix_seconds n of
                Inl x \<Rightarrow> Inl x
              | Inr t \<Rightarrow> if now + nanos (clock_skew cfg) < t then Inr (Inl ''token_issued_in_future'')
                         else Inr (Inr (p\<lparr>jwt_issued_at := Some t\<rparr>)))
         | None \<Rightarrow> Inr (Inr p))
      else Inr (Inr p))"

definition check_policy :: "JwtConfig \<Rightarrow> JwtPrincipal \<Rightarrow> string + JwtPrincipal" where
  "check_policy cfg p =
     (if (case required_issuer cfg of None \<Rightarrow> False | Some i \<Rightarrow> jwt_issuer p \<noteq> i) then Inl ''issuer_mismatch''
      else if \<exists>a\<in>set (required_audiences cfg). a \<notin> set (jwt_audience p) then Inl ''audience_mismatch''
      else if \<exists>s\<in>set (required_scopes_jwt cfg). s \<notin> set (jwt_scopes p) then Inl ''missing_scope''
      else if \<exists>(c, v)\<in>set (required_claims cfg). claims_string (jwt_claims p) c \<noteq> Some v then Inl ''claim_mismatch''
      else Inr p)"

definition check_signature :: "jwt_libs \<Rightarrow> JwtConfig \<Rightarrow> ParsedToken \<Rightarrow> string + string" where
  "check_signature L cfg token =
     (case parse_json L (header_json token) of
        None \<Rightarrow> Inl ''invalid_header_json''
      | Some doc \<Rightarrow>
          (case get_json_string doc ''alg'' of
             None \<Rightarrow> Inl ''unsupported_algorithm''
           | Some alg \<Rightarrow>
               (if alg = ''none'' \<or> \<not> algorithm_allowed cfg alg then Inl ''unsupported_algorithm''
                else
                  (case (if alg = ''HS256'' then verify_hs256 L token (jc_hmac_secret cfg)
                         else if alg = ''RS256'' then verify_rs256 L token (rsa_public_key_pem cfg)
                         else Inr ()) of
                     Inl e \<Rightarrow> Inl e
                   | Inr _ \<Rightarrow> Inr alg))))"

text \<open>Sequencing of checks that may throw or report an error.\<close>

definition then_check :: "'a verdict \<Rightarrow> ('a \<Rightarrow> 'b verdict) \<Rightarrow> 'b verdict" where
  "then_check r f = (case r of Inl x \<Rightarrow> Inl x | Inr (Inl e) \<Rightarrow> Inr (Inl e) | Inr (Inr v) \<Rightarrow> f v)"

definition verify_token :: "jwt_libs \<Rightarrow> int \<Rightarrow> JwtConfig \<Rightarrow> string \<Rightarrow> (string \<times> JwtPrincipal) verdict" where
  "verify_token L now cfg token_text =
     then_check (parse_compact_jwt L token_text) (\<lambda>parsed.
     then_check (Inr (check_signature L cfg parsed)) (\<lambda>alg.
     case parse_json L (payload_json parsed) of
       None \<Rightarrow> Inr (Inl ''invalid_payload_json'')
     | Some payload \<Rightarrow>
         then_check (check_expiration now cfg payload (read_principal cfg payload)) (\<lambda>p1.
         then_check (check_not_before now cfg payload p1) (\<lambda>p2.
         then_check (check_issued_at now cfg payload p2) (\<lambda>p3.
         then_check (Inr (check_policy cfg p3)) (\<lambda>p4. Inr (Inr (alg, p4))))))))"

section \<open>Middleware\<close>

definition bearer_token :: "JwtConfig \<Rightarrow> request \<Rightarrow> string option" where
  "bearer_token cfg req =
     (case request_header req (authorization_header cfg) of
        None \<Rightarrow> None
      | Some h \<Rightarrow> if starts_with h (bearer_prefix cfg) then Some (drop (length (bearer_prefix cfg)) h) else None)"

definition cookie_token :: "request \<Rightarrow> string \<Rightarrow> string option" where
  "cookie_token req name = request_cookie req name"

definition jwt_reject :: "JwtConfig \<Rightarrow> response \<Rightarrow> response" where
  "jwt_reject cfg r = Response_json
     (Response_header (Response_status r (jc_unauthorized_status cfg)) ''WWW-Authenticate'' (''Bearer error='' @ quoted ''invalid_token''))
     (jc_unauthorized_body cfg)"

definition http_token :: "JwtConfig \<Rightarrow> request \<Rightarrow> string option" where
  "http_token cfg req =
     (case bearer_token cfg req of
        Some t \<Rightarrow> Some t
      | None \<Rightarrow> (case jwt_cookie_name cfg of None \<Rightarrow> None | Some name \<Rightarrow> cookie_token req name))"

definition jwt_bypass :: "JwtConfig \<Rightarrow> request \<Rightarrow> bool" where
  "jwt_bypass cfg req \<longleftrightarrow> (jc_allow_options cfg \<and> req_method req = ''OPTIONS'') \<or> path_allowed (req_path req) (jc_allowlist_paths cfg)"

definition JwtMiddleware_handle :: "jwt_libs \<Rightarrow> JwtConfig \<Rightarrow> int \<Rightarrow> 'z exchange_scheme middleware" where
  "JwtMiddleware_handle L cfg now next s =
     (if jwt_bypass cfg (ex_req s) then next s
      else case http_token cfg (ex_req s) of
             None \<Rightarrow> (None, set_res s (jwt_reject cfg (ex_res s)))
           | Some token \<Rightarrow>
               (case verify_token L now cfg token of
                  Inl e \<Rightarrow> (Some e, s)
                | Inr (Inl _) \<Rightarrow> (None, set_res s (jwt_reject cfg (ex_res s)))
                | Inr (Inr (alg, p)) \<Rightarrow> next (s\<lparr>ex_ctx := ctx_set (ex_ctx s) (Jwt p)\<rparr>)))"

definition jwt_websocket_authorizer :: "jwt_libs \<Rightarrow> JwtConfig \<Rightarrow> int \<Rightarrow> request \<Rightarrow> HandshakeDecision result" where
  "jwt_websocket_authorizer L cfg now req =
     (let refuse = decision_reject (jc_unauthorized_status cfg) (jc_unauthorized_body cfg);
          cookie_name = (case websocket_cookie_name cfg of Some n \<Rightarrow> Some n | None \<Rightarrow> jwt_cookie_name cfg);
          token = (case bearer_token cfg req of
                     Some t \<Rightarrow> Some t
                   | None \<Rightarrow> (case cookie_name of None \<Rightarrow> None | Some n \<Rightarrow> cookie_token req n))
      in case token of
           None \<Rightarrow> Inr refuse
         | Some t \<Rightarrow>
             (case verify_token L now cfg t of
                Inl e \<Rightarrow> Inl e
              | Inr (Inl _) \<Rightarrow> Inr refuse
              | Inr (Inr (alg, p)) \<Rightarrow> if jwt_subject p = [] then Inr refuse else Inr (decision_allow (jwt_subject p))))"

section \<open>Signature comparison\<close>

lemma diff_zero_iff:
  "fold (\<lambda>(x, y) diff. or diff (xor x y)) zs d = (0 :: 8 word) \<longleftrightarrow> d = 0 \<and> (\<forall>(x, y)\<in>set zs. x = y)"
proof (induction zs arbitrary: d)
  case (Cons z zs)
  obtain x y where z: "z = (x, y)" by (cases z)
  have "or d (xor x y) = 0 \<longleftrightarrow> d = 0 \<and> x = y"
    by (auto simp: or_eq_0_iff xor_self_eq) (metis xor_self_eq bit.xor_left_self xor.right_neutral)
  with Cons z show ?case by auto
qed simp

lemma constant_time_equal_iff: "constant_time_equal a b \<longleftrightarrow> a = b"
proof (cases "length a = length b")
  case True
  then have "(\<forall>(x, y)\<in>set (zip a b). x = y) \<longleftrightarrow> a = b"
    by (induction a b rule: list_induct2) auto
  with True show ?thesis by (simp add: constant_time_equal_def diff_zero_iff)
qed (auto simp: constant_time_equal_def)

lemma str_bytes_inject: "str_bytes s = str_bytes t \<longleftrightarrow> s = t"
proof -
  have "map (\<lambda>w. char_of (unat w)) (str_bytes s) = s" for s
    by (induction s) (simp_all add: str_bytes_def unat_of_nat)
  then show ?thesis by metis
qed

section \<open>What an accepted token proves\<close>

definition signed_by :: "jwt_libs \<Rightarrow> JwtConfig \<Rightarrow> string \<Rightarrow> string \<Rightarrow> string \<Rightarrow> bool" where
  "signed_by L cfg alg input sig \<longleftrightarrow>
     (alg = ''HS256'' \<and> HS256 \<in> set (allowed_algorithms cfg) \<and> jc_hmac_secret cfg \<noteq> [] \<and>
        hmac_sha256 L (jc_hmac_secret cfg) input = Some sig) \<or>
     (alg = ''RS256'' \<and> RS256 \<in> set (allowed_algorithms cfg) \<and> rsa_public_key_pem cfg \<noteq> [] \<and>
        rs256_verify L (rsa_public_key_pem cfg) input sig = Inr ())"

text \<open>
  The validity period a payload states, in nanoseconds of the clock: before \<^verbatim>\<open>exp\<close>, and not
  before \<^verbatim>\<open>nbf\<close> and \<^verbatim>\<open>iat\<close> where the configuration asks for them, with the tolerated skew on
  each side. Times must fit the clock's 64 bits.
\<close>

definition fits64 :: "int \<Rightarrow> bool" where
  "fits64 t \<longleftrightarrow> - (2 ^ 63) \<le> t \<and> t < 2 ^ 63"

definition in_period :: "int \<Rightarrow> JwtConfig \<Rightarrow> json \<Rightarrow> bool" where
  "in_period now cfg payload \<longleftrightarrow>
     (case get_json_int payload ''exp'' of
        None \<Rightarrow> \<not> require_expiration cfg
      | Some e \<Rightarrow> fits64 (e * 10 ^ 9) \<and> now < e * 10 ^ 9 + clock_skew cfg * 10 ^ 9) \<and>
     (validate_not_before cfg \<longrightarrow>
       (case get_json_int payload ''nbf'' of
          None \<Rightarrow> True | Some n \<Rightarrow> fits64 (n * 10 ^ 9) \<and> n * 10 ^ 9 - clock_skew cfg * 10 ^ 9 \<le> now)) \<and>
     (validate_issued_at cfg \<longrightarrow>
       (case get_json_int payload ''iat'' of
          None \<Rightarrow> True | Some n \<Rightarrow> fits64 (n * 10 ^ 9) \<and> n * 10 ^ 9 - clock_skew cfg * 10 ^ 9 \<le> now))"

text \<open>The principal a payload describes, with the times that were checked.\<close>

definition principal_of :: "JwtConfig \<Rightarrow> json \<Rightarrow> JwtPrincipal" where
  "principal_of cfg payload = (read_principal cfg payload)\<lparr>
     jwt_expires_at := map_option nanos (get_json_int payload ''exp''),
     jwt_not_before := (if validate_not_before cfg then map_option nanos (get_json_int payload ''nbf'') else None),
     jwt_issued_at := (if validate_issued_at cfg then map_option nanos (get_json_int payload ''iat'') else None)\<rparr>"

definition meets_policy :: "JwtConfig \<Rightarrow> JwtPrincipal \<Rightarrow> bool" where
  "meets_policy cfg p \<longleftrightarrow>
     (case required_issuer cfg of None \<Rightarrow> True | Some i \<Rightarrow> jwt_issuer p = i) \<and>
     set (required_audiences cfg) \<subseteq> set (jwt_audience p) \<and> set (required_scopes_jwt cfg) \<subseteq> set (jwt_scopes p) \<and>
     (\<forall>(c, v)\<in>set (required_claims cfg). string_claims (jwt_claims p) c = Some v)"

definition token_valid :: "jwt_libs \<Rightarrow> JwtConfig \<Rightarrow> int \<Rightarrow> string \<Rightarrow> JwtPrincipal \<Rightarrow> bool" where
  "token_valid L cfg now token p \<longleftrightarrow>
     (\<exists>h pl sg header body sig head alg payload.
        token = h @ ''.'' @ pl @ ''.'' @ sg \<and> CHR ''.'' \<notin> set h \<union> set pl \<union> set sg \<and>
        base64url_decode L h = Inr (Inr header) \<and> base64url_decode L pl = Inr (Inr body) \<and>
        base64url_decode L sg = Inr (Inr sig) \<and>
        parse_json L header = Some head \<and> at_key head ''alg'' = Some (J_string alg) \<and>
        signed_by L cfg alg (h @ ''.'' @ pl) sig \<and>
        parse_json L body = Some payload \<and> in_period now cfg payload \<and>
        p = principal_of cfg payload \<and> meets_policy cfg p)"

lemma then_check_Inr:
  "then_check r f = Inr (Inr v) \<longleftrightarrow> (\<exists>u. r = Inr (Inr u) \<and> f u = Inr (Inr v))"
  by (auto simp: then_check_def split: sum.splits)

lemma get_json_string_iff: "get_json_string j k = Some s \<longleftrightarrow> at_key j k = Some (J_string s)"
  by (auto simp: get_json_string_def split: option.splits json.splits)

lemma check_signature_iff:
  "check_signature L cfg token = Inr alg \<longleftrightarrow>
     (\<exists>head. parse_json L (header_json token) = Some head \<and> at_key head ''alg'' = Some (J_string alg)) \<and>
     signed_by L cfg alg (signing_input token) (pt_signature token)"
  unfolding get_json_string_iff [symmetric]
  by (auto simp: check_signature_def signed_by_def verify_hs256_def verify_rs256_def algorithm_allowed_def
      constant_time_equal_iff str_bytes_inject split: option.splits if_splits sum.splits)

lemma parse_compact_sound:
  assumes "parse_compact_jwt L token = Inr (Inr pt)"
  shows "\<exists>h pl sg. token = h @ ''.'' @ pl @ ''.'' @ sg \<and> CHR ''.'' \<notin> set h \<union> set pl \<union> set sg \<and>
    base64url_decode L h = Inr (Inr (header_json pt)) \<and> base64url_decode L pl = Inr (Inr (payload_json pt)) \<and>
    base64url_decode L sg = Inr (Inr (pt_signature pt)) \<and> signing_input pt = h @ ''.'' @ pl"
proof -
  from assms obtain i k where i: "find_ch CHR ''.'' token = Some i"
    and k: "find_ch CHR ''.'' (drop (Suc i) token) = Some k"
    and n: "find_ch CHR ''.'' (drop (Suc k) (drop (Suc i) token)) = None"
    by (auto simp: parse_compact_jwt_def Let_def split: option.splits if_splits)
  let ?r = "drop (Suc i) token"
  let ?h = "take i token" and ?pl = "take k ?r" and ?sg = "drop (Suc k) ?r"
  note s = find_ch_SomeD [OF i] find_ch_SomeD [OF k]
  have tok: "token = ?h @ ''.'' @ ?pl @ ''.'' @ ?sg" using s(2,5) by simp
  have "take (i + Suc k) token = ?h @ CHR ''.'' # ?pl"
  proof -
    have "take (i + Suc k) token = ?h @ take (Suc k) (drop i token)" by (rule take_add)
    also have "drop i token = CHR ''.'' # ?r" using s(1,2) by (metis append_eq_conv_conj length_take min.absorb4 order_less_imp_le)
    finally show ?thesis by simp
  qed
  then have si: "signing_input pt = ?h @ ''.'' @ ?pl" and dec: "base64url_decode L ?h = Inr (Inr (header_json pt))"
    "base64url_decode L ?pl = Inr (Inr (payload_json pt))" "base64url_decode L ?sg = Inr (Inr (pt_signature pt))"
    using assms n by (auto simp: parse_compact_jwt_def Let_def i k split: sum.splits)
  have "CHR ''.'' \<notin> set ?h \<union> set ?pl \<union> set ?sg" using s(3,6) n by (simp add: find_ch_None)
  with tok si dec show ?thesis by blast
qed

lemma parse_compact_complete:
  assumes "CHR ''.'' \<notin> set h \<union> set pl \<union> set sg" "base64url_decode L h = Inr (Inr header)"
    "base64url_decode L pl = Inr (Inr body)" "base64url_decode L sg = Inr (Inr sig)"
  shows "parse_compact_jwt L (h @ ''.'' @ pl @ ''.'' @ sg) =
    Inr (Inr \<lparr>header_json = header, payload_json = body, pt_signature = sig, signing_input = h @ ''.'' @ pl\<rparr>)"
  using assms by (simp add: parse_compact_jwt_def Let_def find_ch_append find_ch_None)

text \<open>The three temporal checks in sequence.\<close>

definition check_times :: "int \<Rightarrow> JwtConfig \<Rightarrow> json \<Rightarrow> JwtPrincipal verdict" where
  "check_times now cfg payload =
     then_check (check_expiration now cfg payload (read_principal cfg payload)) (\<lambda>p1.
     then_check (check_not_before now cfg payload p1) (check_issued_at now cfg payload))"

lemma check_times_iff:
  "check_times now cfg payload = Inr (Inr p) \<longleftrightarrow> in_period now cfg payload \<and> p = principal_of cfg payload"
proof -
  let ?r = "read_principal cfg payload"
  have "?r\<lparr>jwt_expires_at := None\<rparr> = ?r" "?r\<lparr>jwt_not_before := None\<rparr> = ?r" "?r\<lparr>jwt_issued_at := None\<rparr> = ?r"
    by (simp_all add: read_principal_def)
  note none = this
  have e: "check_expiration now cfg payload r = Inr (Inr q) \<longleftrightarrow>
      (case get_json_int payload ''exp'' of None \<Rightarrow> \<not> require_expiration cfg
       | Some e \<Rightarrow> fits64 (e * 10 ^ 9) \<and> now < e * 10 ^ 9 + clock_skew cfg * 10 ^ 9) \<and>
      q = (case get_json_int payload ''exp'' of None \<Rightarrow> r | Some e \<Rightarrow> r\<lparr>jwt_expires_at := Some (nanos e)\<rparr>)" for r q
    by (auto simp: check_expiration_def from_unix_seconds_def fits64_def nanos_def split: option.splits if_splits)
  have n: "check_not_before now cfg payload r = Inr (Inr q) \<longleftrightarrow>
      (validate_not_before cfg \<longrightarrow> (case get_json_int payload ''nbf'' of None \<Rightarrow> True
       | Some e \<Rightarrow> fits64 (e * 10 ^ 9) \<and> e * 10 ^ 9 - clock_skew cfg * 10 ^ 9 \<le> now)) \<and>
      q = (if validate_not_before cfg then
        (case get_json_int payload ''nbf'' of None \<Rightarrow> r | Some e \<Rightarrow> r\<lparr>jwt_not_before := Some (nanos e)\<rparr>) else r)" for r q
    by (auto simp: check_not_before_def from_unix_seconds_def fits64_def nanos_def split: option.splits if_splits)
  have i: "check_issued_at now cfg payload r = Inr (Inr q) \<longleftrightarrow>
      (validate_issued_at cfg \<longrightarrow> (case get_json_int payload ''iat'' of None \<Rightarrow> True
       | Some e \<Rightarrow> fits64 (e * 10 ^ 9) \<and> e * 10 ^ 9 - clock_skew cfg * 10 ^ 9 \<le> now)) \<and>
      q = (if validate_issued_at cfg then
        (case get_json_int payload ''iat'' of None \<Rightarrow> r | Some e \<Rightarrow> r\<lparr>jwt_issued_at := Some (nanos e)\<rparr>) else r)" for r q
    by (auto simp: check_issued_at_def from_unix_seconds_def fits64_def nanos_def split: option.splits if_splits)
  have "principal_of cfg payload =
      (let q = (case get_json_int payload ''exp'' of None \<Rightarrow> ?r | Some e \<Rightarrow> ?r\<lparr>jwt_expires_at := Some (nanos e)\<rparr>);
           r = (if validate_not_before cfg then
             (case get_json_int payload ''nbf'' of None \<Rightarrow> q | Some e \<Rightarrow> q\<lparr>jwt_not_before := Some (nanos e)\<rparr>) else q)
       in if validate_issued_at cfg then
         (case get_json_int payload ''iat'' of None \<Rightarrow> r | Some e \<Rightarrow> r\<lparr>jwt_issued_at := Some (nanos e)\<rparr>) else r)"
    by (simp add: principal_of_def Let_def read_principal_def split: option.split)
  then show ?thesis
    unfolding check_times_def in_period_def by (auto simp: then_check_Inr e n i Let_def)
qed

lemma check_policy_iff: "check_policy cfg p = Inr q \<longleftrightarrow> q = p \<and> meets_policy cfg p"
  by (auto simp: check_policy_def meets_policy_def claims_string_def split: if_splits option.splits)

lemma verify_token_alt:
  "verify_token L now cfg token = Inr (Inr (alg, p)) \<longleftrightarrow>
     (\<exists>pt payload. parse_compact_jwt L token = Inr (Inr pt) \<and> check_signature L cfg pt = Inr alg \<and>
        parse_json L (payload_json pt) = Some payload \<and> check_times now cfg payload = Inr (Inr p) \<and> meets_policy cfg p)"
  by (auto simp: verify_token_def check_times_def then_check_Inr check_policy_iff split: option.splits)

lemma verify_token_iff:
  "(\<exists>alg. verify_token L now cfg token = Inr (Inr (alg, p))) \<longleftrightarrow> token_valid L cfg now token p"
proof
  assume "\<exists>alg. verify_token L now cfg token = Inr (Inr (alg, p))"
  then obtain alg pt payload where pt: "parse_compact_jwt L token = Inr (Inr pt)" and sig: "check_signature L cfg pt = Inr alg"
    and rest: "parse_json L (payload_json pt) = Some payload" "in_period now cfg payload" "p = principal_of cfg payload"
      "meets_policy cfg p"
    by (auto simp: verify_token_alt check_times_iff)
  with parse_compact_sound [OF pt] show "token_valid L cfg now token p"
    unfolding token_valid_def check_signature_iff by metis
next
  assume "token_valid L cfg now token p"
  then obtain h pl sg hdr body sig head alg payload where
    t: "token = h @ ''.'' @ pl @ ''.'' @ sg" "CHR ''.'' \<notin> set h \<union> set pl \<union> set sg"
      "base64url_decode L h = Inr (Inr hdr)" "base64url_decode L pl = Inr (Inr body)" "base64url_decode L sg = Inr (Inr sig)"
    and rest: "parse_json L hdr = Some head" "at_key head ''alg'' = Some (J_string alg)" "signed_by L cfg alg (h @ ''.'' @ pl) sig"
      "parse_json L body = Some payload" "in_period now cfg payload" "p = principal_of cfg payload" "meets_policy cfg p"
    unfolding token_valid_def by metis
  have "parse_compact_jwt L token = Inr (Inr \<lparr>header_json = hdr, payload_json = body, pt_signature = sig, signing_input = h @ ''.'' @ pl\<rparr>)"
    unfolding t(1) by (rule parse_compact_complete [OF t(2-5)])
  with rest show "\<exists>alg. verify_token L now cfg token = Inr (Inr (alg, p))"
    by (auto simp: verify_token_alt check_times_iff check_signature_iff)
qed

section \<open>The middleware and the handshake authorizer\<close>

definition JwtMiddleware_decide ::
    "jwt_libs \<Rightarrow> JwtConfig \<Rightarrow> int \<Rightarrow> 'z exchange_scheme \<Rightarrow> 'z exchange_scheme + (exn option \<times> 'z exchange_scheme)" where
  "JwtMiddleware_decide L cfg now s =
     (if jwt_bypass cfg (ex_req s) then Inl s
      else case http_token cfg (ex_req s) of
             None \<Rightarrow> Inr (None, set_res s (jwt_reject cfg (ex_res s)))
           | Some token \<Rightarrow>
               (case verify_token L now cfg token of
                  Inl e \<Rightarrow> Inr (Some e, s)
                | Inr (Inl _) \<Rightarrow> Inr (None, set_res s (jwt_reject cfg (ex_res s)))
                | Inr (Inr (alg, p)) \<Rightarrow> Inl (s\<lparr>ex_ctx := ctx_set (ex_ctx s) (Jwt p)\<rparr>)))"

interpretation jwt_gate: request_gate "JwtMiddleware_handle L cfg now" "JwtMiddleware_decide L cfg now" for L cfg now
  by unfold_locales
     (auto simp: JwtMiddleware_handle_def JwtMiddleware_decide_def split: option.split prod.split sum.split)

lemma decide_admits:
  assumes "JwtMiddleware_decide L cfg now s = Inl s'" "\<not> jwt_bypass cfg (ex_req s)"
  shows "\<exists>t p. http_token cfg (ex_req s) = Some t \<and> token_valid L cfg now t p \<and>
    s' = s\<lparr>ex_ctx := ctx_set (ex_ctx s) (Jwt p)\<rparr>"
  using assms
  by (auto simp: JwtMiddleware_decide_def verify_token_iff [symmetric] split: option.splits sum.splits prod.splits)

lemma decide_stops:
  assumes "JwtMiddleware_decide L cfg now s = Inr r"
  shows "(fst r = None \<and> status_code (ex_res (snd r)) = jc_unauthorized_status cfg) \<or> (fst r \<noteq> None \<and> snd r = s)"
    "\<not> jwt_bypass cfg (ex_req s)" "\<not> (\<exists>t p. http_token cfg (ex_req s) = Some t \<and> token_valid L cfg now t p)"
  using assms
  by (auto simp: JwtMiddleware_decide_def jwt_reject_def set_res_def response_defs verify_token_iff [symmetric]
      split: option.splits sum.splits prod.splits if_splits)

text \<open>
  C8: The handlers behind the JWT middleware run for a request outside the exempted ones exactly when it
  carries a token of three parts whose header names an allowed algorithm, whose signature with that algorithm
  and the configured key over the header and payload as sent verifies, whose payload's \<^verbatim>\<open>exp\<close>,
  \<^verbatim>\<open>nbf\<close> and \<^verbatim>\<open>iat\<close> admit the present time within the configured skew, and which meets the issuer,
  audience, scope and claim requirements; they then see the principal read from that payload. Every other
  request is answered with the unauthorized status or ends in an exception, whatever the handlers are.
\<close>

theorem jwt_middleware_guards:
  "if jwt_bypass cfg (ex_req s) then build_chain (JwtMiddleware_handle L cfg now # mws) h s = build_chain mws h s
   else if \<exists>t p. http_token cfg (ex_req s) = Some t \<and> token_valid L cfg now t p
   then \<exists>t p. http_token cfg (ex_req s) = Some t \<and> token_valid L cfg now t p \<and>
      build_chain (JwtMiddleware_handle L cfg now # mws) h s =
        build_chain mws h (s\<lparr>ex_ctx := ctx_set (ex_ctx s) (Jwt p)\<rparr>)
   else \<exists>r. (\<forall>mws' h'. build_chain (JwtMiddleware_handle L cfg now # mws') h' s = r) \<and>
      ((fst r = None \<and> status_code (ex_res (snd r)) = jc_unauthorized_status cfg) \<or> (fst r \<noteq> None \<and> snd r = s))"
proof (cases "JwtMiddleware_decide L cfg now s")
  case (Inr r)
  note stops = decide_stops [OF this]
  show ?thesis unfolding if_not_P [OF stops(2)] if_not_P [OF stops(3)]
    using stops(1) jwt_gate.stop_skips_rest [OF Inr] by blast
next
  case (Inl s')
  note run = jwt_gate.admitted_runs_rest [OF Inl]
  show ?thesis
  proof (cases "jwt_bypass cfg (ex_req s)")
    case True
    with Inl have "s' = s" by (simp add: JwtMiddleware_decide_def)
    with run True show ?thesis by simp
  next
    case False
    with decide_admits [OF Inl] run show ?thesis by (metis (no_types, lifting))
  qed
qed

text \<open>
  A request with the token \<^verbatim>\<open>h.p.s\<close>, for libraries that read \<^verbatim>\<open>h\<close> as a header for HS256 and \<^verbatim>\<open>p\<close> as
  a payload valid from second 10 to second 60.
\<close>

definition tiny_payload :: json where
  "tiny_payload = J_object [(''sub'', J_string ''ada''), (''nbf'', J_int 10), (''exp'', J_int 60)]"

definition tiny_libs :: jwt_libs where
  "tiny_libs = \<lparr>evp_encode = (\<lambda>s. s), evp_decode = Some, hmac_sha256 = (\<lambda>k m. if m = ''h.p'' then Some k else None),
     rs256_sign = (\<lambda>k m. Inl ''signature_error''), rs256_verify = (\<lambda>k m s. Inl ''invalid_signature''),
     parse_json = [''h'' \<mapsto> J_object [(''alg'', J_string ''HS256'')], ''p'' \<mapsto> tiny_payload]\<rparr>"

definition tiny_config :: JwtConfig where
  "tiny_config = \<lparr>allowed_algorithms = [HS256], jc_hmac_secret = ''s'', rsa_public_key_pem = [], jc_allowlist_paths = [],
     jc_allow_options = True, authorization_header = ''authorization'', bearer_prefix = ''Bearer '', jwt_cookie_name = None,
     websocket_cookie_name = None, required_issuer = None, required_audiences = [], required_scopes_jwt = [],
     required_claims = [], require_expiration = True, validate_not_before = True, validate_issued_at = True,
     clock_skew = 0, jc_scope_claim = ''scope'', jc_unauthorized_status = 401, jc_unauthorized_body = ''{}''\<rparr>"

definition tiny_exchange :: exchange where
  "tiny_exchange = \<lparr>ex_req = empty_request\<lparr>req_method := ''GET'', req_path := ''/'',
     req_headers := [\<lparr>hname = ''authorization'', hvalue = ''Bearer h.p.s''\<rparr>]\<rparr>, ex_res = default_response, ex_ctx = new_context 1,
     current_context = None\<rparr>"

lemma tiny_token:
  "\<not> jwt_bypass tiny_config (ex_req tiny_exchange)" "http_token tiny_config (ex_req tiny_exchange) = Some ''h.p.s''"
  by code_simp+

lemma tiny_verify:
  "verify_token tiny_libs now tiny_config ''h.p.s'' =
     (if 60000000000 \<le> now then Inr (Inl ''token_expired'')
      else if now < 10000000000 then Inr (Inl ''token_not_yet_valid'')
      else Inr (Inr (''HS256'', principal_of tiny_config tiny_payload)))"
proof -
  have "parse_compact_jwt tiny_libs ''h.p.s'' = Inr (Inr \<lparr>header_json = ''h'', payload_json = ''p'', pt_signature = ''s'', signing_input = ''h.p''\<rparr>)"
    by code_simp
  moreover have "check_signature tiny_libs tiny_config \<lparr>header_json = ''h'', payload_json = ''p'', pt_signature = ''s'', signing_input = ''h.p''\<rparr> = Inr ''HS256''"
    by code_simp
  ultimately show ?thesis
    by (simp add: verify_token_def then_check_def tiny_libs_def tiny_payload_def tiny_config_def check_expiration_def
        check_not_before_def check_issued_at_def check_policy_def get_json_int_def at_key_def from_unix_seconds_def nanos_def
        principal_of_def read_principal_def)
qed

lemma tiny_valid:
  "token_valid tiny_libs tiny_config now ''h.p.s'' p \<longleftrightarrow>
     10000000000 \<le> now \<and> now < 60000000000 \<and> p = principal_of tiny_config tiny_payload"
  by (auto simp: verify_token_iff [symmetric] tiny_verify)

definition tiny_handler :: "exchange proc" where
  "tiny_handler s = (None, set_res s (Response_status (ex_res s) 204))"

theorem jwt_middleware_guards_witness:
  "build_chain [JwtMiddleware_handle tiny_libs tiny_config 59000000000] tiny_handler tiny_exchange =
     tiny_handler (tiny_exchange\<lparr>ex_ctx := ctx_set (ex_ctx tiny_exchange) (Jwt (principal_of tiny_config tiny_payload))\<rparr>) \<and>
   (\<exists>r. (\<forall>mws h. build_chain (JwtMiddleware_handle tiny_libs tiny_config 60000000000 # mws) h tiny_exchange = r) \<and>
      (fst r = None \<and> status_code (ex_res (snd r)) = 401 \<or> fst r \<noteq> None \<and> snd r = tiny_exchange))"
proof -
  have eqs: "jc_unauthorized_status tiny_config = 401" "build_chain [] tiny_handler = tiny_handler"
    by (simp_all add: tiny_config_def build_chain_def)
  have valid: "(\<exists>t p. Some ''h.p.s'' = Some t \<and> token_valid tiny_libs tiny_config 59000000000 t p) = True"
    "(\<exists>t p. Some ''h.p.s'' = Some t \<and> token_valid tiny_libs tiny_config 60000000000 t p) = False"
    using tiny_valid [of 59000000000] tiny_valid [of 60000000000] by auto
  note guards = jwt_middleware_guards [where cfg = tiny_config and s = tiny_exchange and L = tiny_libs and mws = "[]" and
      h = tiny_handler, unfolded tiny_token(2) if_not_P [OF tiny_token(1)]]
  from guards [of 59000000000] guards [of 60000000000] show ?thesis
    unfolding valid if_True if_False eqs by (auto simp only: tiny_valid option.inject)
qed

lemma jwt_authorizer_sound:
  assumes "jwt_websocket_authorizer L cfg now req = Inr d" "accepted d"
  shows "\<exists>t p. token_valid L cfg now t p \<and> hd_principal d = jwt_subject p \<and> jwt_subject p \<noteq> [] \<and>
    (bearer_token cfg req = Some t \<or> (\<exists>n. request_cookie req n = Some t))"
  unfolding verify_token_iff [symmetric] using assms
  by (auto simp: jwt_websocket_authorizer_def Let_def decision_reject_def decision_allow_def cookie_token_def
      split: option.splits sum.splits prod.splits if_splits) blast+

end
