(* ===== verification/Json_Text.thy ===== *)
theory Json_Text
  imports Jwt_Auth
begin

text \<open>
  The JSON texts of RFC 8259 that tokens consist of: objects of strings, 64-bit integers, booleans and
  arrays of these, without white space. The grammar is stated apart from the code that prints tokens, so
  that what a JSON parser is relied on for can be said of texts of the grammar; the reader at the end of the
  theory is a parser that meets it.
\<close>

section \<open>Grammar\<close>

definition short_escapes :: "(char \<times> char) list" where
  "short_escapes = [(CHR 0x22, CHR 0x22), (CHR 0x5C, CHR 0x5C), (CHR ''/'', CHR ''/''), (CHR ''b'', CHR 0x08),
     (CHR ''f'', CHR 0x0C), (CHR ''n'', CHR 0x0A), (CHR ''r'', CHR 0x0D), (CHR ''t'', CHR 0x09)]"

text \<open>The texts that stand for one byte of a string: the byte itself, a short escape, or a code of four hexadecimal digits.\<close>

inductive json_char :: "char \<Rightarrow> string \<Rightarrow> bool" where
  plain: "0x20 \<le> byte_of c \<Longrightarrow> c \<noteq> CHR 0x22 \<Longrightarrow> c \<noteq> CHR 0x5C \<Longrightarrow> json_char c [c]"
| short: "(e, c) \<in> set short_escapes \<Longrightarrow> json_char c [CHR 0x5C, e]"
| code: "hex_value h = Some a \<Longrightarrow> hex_value l = Some b \<Longrightarrow> a * 16 + b < 128 \<Longrightarrow>
    json_char (char_of (a * 16 + b)) [CHR 0x5C, CHR ''u'', CHR ''0'', CHR ''0'', h, l]"

inductive json_chars :: "string \<Rightarrow> string \<Rightarrow> bool" where
  none: "json_chars [] []"
| char: "json_char c t \<Longrightarrow> json_chars cs ts \<Longrightarrow> json_chars (c # cs) (t @ ts)"

definition json_text :: "string \<Rightarrow> string \<Rightarrow> bool" where
  "json_text s t \<longleftrightarrow> (\<exists>b. json_chars s b \<and> t = CHR 0x22 # b @ [CHR 0x22])"

definition json_number :: "int \<Rightarrow> string \<Rightarrow> bool" where
  "json_number i t \<longleftrightarrow> fits64 i \<and>
     (\<exists>ds. ds \<noteq> [] \<and> list_all isdigit ds \<and> (hd ds = CHR ''0'' \<longrightarrow> ds = ''0'') \<and>
        (t = ds \<and> i = int (dec_value ds) \<or> t = CHR ''-'' # ds \<and> i = - int (dec_value ds) \<and> i \<noteq> 0))"

inductive json_item :: "json \<Rightarrow> string \<Rightarrow> bool" where
  str: "json_text s t \<Longrightarrow> json_item (J_string s) t"
| num: "json_number i t \<Longrightarrow> json_item (J_int i) t"
| yes: "json_item (J_bool True) ''true''"
| no: "json_item (J_bool False) ''false''"

inductive json_value :: "json \<Rightarrow> string \<Rightarrow> bool" where
  item: "json_item j t \<Longrightarrow> json_value j t"
| arr: "list_all2 json_item js ts \<Longrightarrow> json_value (J_array js) (''['' @ join_with CHR '','' ts @ '']'')"

inductive json_member :: "string \<times> json \<Rightarrow> string \<Rightarrow> bool" where
  member: "json_text n a \<Longrightarrow> json_value j b \<Longrightarrow> json_member (n, j) (a @ '':'' @ b)"

definition json_document :: "(string \<times> json) list \<Rightarrow> string \<Rightarrow> bool" where
  "json_document fs t \<longleftrightarrow> (\<exists>ts. list_all2 json_member fs ts \<and> t = ''{'' @ join_with CHR '','' ts @ ''}'')"

text \<open>
  What tokens rely on a JSON parser for: it reads every text of the grammar that is UTF-8 and within the
  parser's size limit, keeping the fields in order.
\<close>

definition text_fits :: "string \<Rightarrow> bool" where
  "text_fits t \<longleftrightarrow> valid_utf8 (str_bytes t) \<and> length t < 0xFFFFFFFF"

definition json_parser :: "(string \<Rightarrow> json option) \<Rightarrow> bool" where
  "json_parser parse \<longleftrightarrow> (\<forall>fs t. json_document fs t \<longrightarrow> text_fits t \<longrightarrow> parse t = Some (J_object fs))"

section \<open>What the token printer writes\<close>

lemma escape_char_conforms: "json_char c (json_escape_char c)"
proof -
  have b: "byte_of c = byte_of d \<longleftrightarrow> c = d" for d by simp
  note b = b [of "CHR 0x22"] b [of "CHR 0x5C"] b [of "CHR 0x08"] b [of "CHR 0x0C"] b [of "CHR 0x0A"] b [of "CHR 0x0D"]
    b [of "CHR 0x09"]
  consider "byte_of c \<in> {34, 92, 8, 12, 10, 13, 9}"
    | (ctrl) "byte_of c \<notin> {34, 92, 8, 12, 10, 13, 9}" "byte_of c < 32"
    | (plain) "byte_of c \<notin> {34, 92, 8, 12, 10, 13, 9}" "\<not> byte_of c < 32" by blast
  then show ?thesis
  proof cases
    case 1
    then show ?thesis
      by (elim insertE emptyE) (use b in \<open>auto simp: json_escape_char_def short_escapes_def intro!: json_char.short\<close>)
  next
    case ctrl
    have "json_char (char_of (byte_of c div 16 * 16 + byte_of c mod 16))
       [CHR 0x5C, CHR ''u'', CHR ''0'', CHR ''0'', hex_digit (byte_of c div 16), hex_digit (byte_of c mod 16)]"
      using ctrl by (intro json_char.code) (simp_all add: hex_value_digit)
    with ctrl show ?thesis by (simp add: json_escape_char_def)
  next
    case plain
    then show ?thesis by (auto simp: json_escape_char_def intro!: json_char.plain)
  qed
qed

lemma escape_conforms: "json_chars s (json_escape s)"
  by (induction s) (auto simp: json_escape_def intro: json_chars.intros escape_char_conforms)

lemma string_conforms: "json_text s (json_string s)"
  using escape_conforms by (auto simp: json_text_def json_string_def quoted_def)

lemma to_string_nat_hd: "hd (to_string_nat n) = CHR ''0'' \<longleftrightarrow> n = 0"
proof (induction n rule: to_string_nat.induct)
  case (1 n)
  have "digit_char d = CHR ''0'' \<longleftrightarrow> d = 0" if "d < 10" for d
  proof -
    have "digit_char 0 = CHR ''0''" by code_simp
    with that show ?thesis by (metis digit_val_digit_char zero_less_numeral)
  qed
  with 1 show ?case by (subst to_string_nat.simps) auto
qed

lemma int_conforms: "fits64 i \<Longrightarrow> json_number i (to_string_int i)"
proof -
  assume fits: "fits64 i"
  have zero: "to_string_nat 0 = ''0''" by code_simp
  have "hd (to_string_nat n) = CHR ''0'' \<longrightarrow> to_string_nat n = ''0''" for n
    by (simp add: to_string_nat_hd zero)
  then show ?thesis
    unfolding json_number_def using fits to_string_nat_digits dec_value_to_string
    by (intro conjI exI [of _ "to_string_nat (nat \<bar>i\<bar>)"]) (auto simp: to_string_int_def list_all_iff)
qed

lemma array_conforms: "json_value (J_array (map J_string vs)) (json_string_array vs)"
proof -
  have "json_items vs = join_with CHR '','' (map json_string vs)"
    by (induction vs rule: json_items.induct) auto
  moreover have "list_all2 json_item (map J_string vs) (map json_string vs)"
    by (simp add: list.rel_map list_all2_same json_item.str string_conforms)
  ultimately show ?thesis using json_value.arr by (simp add: json_string_array_def)
qed

lemma json_object_alt:
  "json_object fs = ''{'' @ join_with CHR '','' (map (\<lambda>(n, v). json_string n @ '':'' @ v) fs) @ ''}''"
proof -
  have join: "join_with CHR '','' (x # xs) = x @ concat (map (\<lambda>y. CHR '','' # y) xs)" for x xs
    by (induction xs arbitrary: x) auto
  have "fst (fold (\<lambda>(n, v). add_json_field n v) fs (acc, False)) =
      acc @ concat (map (\<lambda>(n, v). '','' @ json_string n @ '':'' @ v) fs)" for acc fs
    by (induction fs arbitrary: acc) (auto simp: add_json_field_def)
  then have "fst (fold (\<lambda>(n, v). add_json_field n v) fs (''{'', True)) =
      ''{'' @ join_with CHR '','' (map (\<lambda>(n, v). json_string n @ '':'' @ v) fs)"
    by (cases fs) (auto simp: add_json_field_def join comp_def case_prod_beta')
  then show ?thesis by (simp add: json_object_def)
qed

lemma document_conforms:
  assumes "\<forall>(n, j)\<in>set vs. json_value j (f j)"
  shows "json_document vs (json_object (map (\<lambda>(n, j). (n, f j)) vs))"
proof -
  have "list_all2 json_member vs (map (\<lambda>(n, j). json_string n @ '':'' @ f j) vs)"
    unfolding list.rel_map list_all2_same
    using assms json_member.member [OF string_conforms] by (auto simp del: append.simps append_Cons)
  then show ?thesis unfolding json_document_def json_object_alt by (intro exI conjI) (assumption, simp add: comp_def case_prod_beta')
qed

section \<open>A reader\<close>

text \<open>A parser of the grammar; each part returns what it read and the rest of the text.\<close>

fun read_chars :: "string \<Rightarrow> (string \<times> string) option" where
  "read_chars [] = None"
| "read_chars (c # cs) =
     (if c = CHR 0x22 then Some ([], cs)
      else if c \<noteq> CHR 0x5C then map_option (apfst (Cons c)) (read_chars cs)
      else case cs of
        [] \<Rightarrow> None
      | e # r \<Rightarrow>
          (case map_of short_escapes e of
             Some d \<Rightarrow> map_option (apfst (Cons d)) (read_chars r)
           | None \<Rightarrow>
               (case r of
                  z1 # z2 # h # l # rest \<Rightarrow>
                    (case (hex_value h, hex_value l) of
                       (Some a, Some b) \<Rightarrow> map_option (apfst (Cons (char_of (a * 16 + b)))) (read_chars rest)
                     | _ \<Rightarrow> None)
                | _ \<Rightarrow> None)))"

definition read_number :: "string \<Rightarrow> (json \<times> string) option" where
  "read_number t =
     (let neg = (t \<noteq> [] \<and> hd t = CHR ''-''); u = (if neg then tl t else t); n = int (dec_value (takeWhile isdigit u))
      in Some (J_int (if neg then - n else n), dropWhile isdigit u))"

definition read_item :: "string \<Rightarrow> (json \<times> string) option" where
  "read_item t =
     (if t = [] then None
      else if hd t = CHR 0x22 then map_option (apfst J_string) (read_chars (tl t))
      else if hd t = CHR ''t'' then Some (J_bool True, drop 4 t)
      else if hd t = CHR ''f'' then Some (J_bool False, drop 5 t)
      else read_number t)"

fun read_list :: "(string \<Rightarrow> ('a \<times> string) option) \<Rightarrow> char \<Rightarrow> nat \<Rightarrow> string \<Rightarrow> ('a list \<times> string) option" where
  "read_list f close 0 t = None"
| "read_list f close (Suc n) t =
     (case f t of
        Some (x, c # r) \<Rightarrow>
          if c = CHR '','' then map_option (apfst (Cons x)) (read_list f close n r)
          else if c = close then Some ([x], r) else None
      | _ \<Rightarrow> None)"

definition read_seq :: "(string \<Rightarrow> ('a \<times> string) option) \<Rightarrow> char \<Rightarrow> string \<Rightarrow> ('a list \<times> string) option" where
  "read_seq f close t =
     (if t = [] then None else if hd t = close then Some ([], tl t) else read_list f close (length t) t)"

definition read_value :: "string \<Rightarrow> (json \<times> string) option" where
  "read_value t =
     (if t \<noteq> [] \<and> hd t = CHR ''['' then map_option (apfst J_array) (read_seq read_item CHR '']'' (tl t)) else read_item t)"

definition read_member :: "string \<Rightarrow> ((string \<times> json) \<times> string) option" where
  "read_member t =
     (if t = [] then None
      else case read_chars (tl t) of
        Some (n, c # r) \<Rightarrow> map_option (apfst (Pair n)) (read_value r)
      | _ \<Rightarrow> None)"

definition read_document :: "string \<Rightarrow> json option" where
  "read_document t =
     (if t = [] then None
      else case read_seq read_member CHR ''}'' (tl t) of Some (fs, []) \<Rightarrow> Some (J_object fs) | _ \<Rightarrow> None)"

text \<open>What may follow a value inside an array or an object.\<close>

definition stops :: "string \<Rightarrow> bool" where
  "stops r \<longleftrightarrow> r \<noteq> [] \<and> hd r \<in> {CHR '','', CHR '']'', CHR ''}''}"

lemma read_char: "json_char c t \<Longrightarrow> read_chars (t @ r) = map_option (apfst (Cons c)) (read_chars r)"
proof (induction rule: json_char.induct)
  case (short e c)
  then show ?case by (auto simp: short_escapes_def)
next
  case (code h a l b)
  then show ?case by (auto simp: short_escapes_def)
qed simp

lemma read_text: "json_text s t \<Longrightarrow> t = CHR 0x22 # tl t \<and> read_chars (tl t @ r) = Some (s, r)"
proof -
  have "read_chars (b @ CHR 0x22 # r) = Some (s, r)" if "json_chars s b" for b
    using that by (induction rule: json_chars.induct) (simp_all add: read_char)
  then show "json_text s t \<Longrightarrow> ?thesis" by (auto simp: json_text_def)
qed

lemma read_json_number:
  assumes "json_number i t" "stops r"
  shows "read_number (t @ r) = Some (J_int i, r)" "t \<noteq> []" "isdigit (hd t) \<or> hd t = CHR ''-''"
proof -
  from assms(1) obtain ds where ds: "ds \<noteq> []" "list_all isdigit ds"
    "t = ds \<and> i = int (dec_value ds) \<or> t = CHR ''-'' # ds \<and> i = - int (dec_value ds)"
    by (auto simp: json_number_def)
  have "\<not> isdigit (hd r)" "r \<noteq> []" using assms(2) by (auto simp: stops_def isdigit_def)
  then have split: "takeWhile isdigit (ds @ r) = ds" "dropWhile isdigit (ds @ r) = r"
    using ds(2) by (cases r; simp add: list_all_iff takeWhile_append dropWhile_append)+
  have "hd ds \<noteq> CHR ''-''" "isdigit (hd ds)" using ds(1,2) by (cases ds; auto simp: isdigit_def)+
  with ds split show "read_number (t @ r) = Some (J_int i, r)" "t \<noteq> []" "isdigit (hd t) \<or> hd t = CHR ''-''"
    by (auto simp: read_number_def Let_def)
qed

lemma read_json_item:
  assumes "json_item j t" "stops r"
  shows "read_item (t @ r) = Some (j, r)" "t \<noteq> []" "hd t \<notin> {CHR '']'', CHR ''}'', CHR ''[''}"
proof -
  have "read_item (t @ r) = Some (j, r) \<and> t \<noteq> [] \<and> hd t \<notin> {CHR '']'', CHR ''}'', CHR ''[''}"
    using assms
  proof (cases rule: json_item.cases)
    case (str s)
    obtain b where "t = CHR 0x22 # b" using read_text [OF str(2)] by metis
    with read_text [OF str(2), of r] str show ?thesis by (simp add: read_item_def)
  next
    case (num i)
    note n = read_json_number [OF num(2) assms(2)]
    then have "hd t \<notin> {CHR 0x22, CHR ''t'', CHR ''f'', CHR '']'', CHR ''}'', CHR ''[''}" by (auto simp: isdigit_def)
    with n num show ?thesis by (simp add: read_item_def)
  qed (simp_all add: read_item_def)
  then show "read_item (t @ r) = Some (j, r)" "t \<noteq> []" "hd t \<notin> {CHR '']'', CHR ''}'', CHR ''[''}" by blast+
qed

lemma read_json_list:
  assumes "list_all2 R xs ts" "xs \<noteq> []" "\<And>x t r. R x t \<Longrightarrow> stops r \<Longrightarrow> f (t @ r) = Some (x, r)"
    "close \<in> {CHR '']'', CHR ''}''}" "length ts \<le> n"
  shows "read_list f close n (join_with CHR '','' ts @ close # r) = Some (xs, r)"
  using assms(1,2,5)
proof (induction xs arbitrary: ts n)
  case (Cons x xs)
  then obtain t us m where ts: "ts = t # us" "R x t" "list_all2 R xs us" "n = Suc m" "length us \<le> m"
    by (cases n) (auto simp: list_all2_Cons1)
  show ?case
  proof (cases us)
    case Nil
    moreover have "f (t @ close # r) = Some (x, close # r)" using assms(3,4) ts(2) by (auto simp: stops_def)
    ultimately show ?thesis using ts assms(4) by auto
  next
    case (Cons u vs)
    have "f (t @ CHR '','' # join_with CHR '','' us @ close # r) = Some (x, CHR '','' # join_with CHR '','' us @ close # r)"
      using assms(3) [OF ts(2)] by (auto simp: stops_def)
    moreover have "xs \<noteq> []" using ts(3) Cons by auto
    ultimately show ?thesis using Cons.IH [OF ts(3) _ ts(5)] ts Cons by simp
  qed
qed simp

lemma hd_join_with: "ts \<noteq> [] \<Longrightarrow> hd ts \<noteq> [] \<Longrightarrow> hd (join_with c ts @ r) = hd (hd ts) \<and> join_with c ts \<noteq> []"
  by (induction c ts rule: join_with.induct) auto

lemma length_join_with: "length ts \<le> Suc (length (join_with c ts))"
  by (induction c ts rule: join_with.induct) auto

lemma read_json_seq:
  assumes "list_all2 R xs ts" "\<And>x t r. R x t \<Longrightarrow> stops r \<Longrightarrow> f (t @ r) = Some (x, r)"
    "\<And>x t. R x t \<Longrightarrow> t \<noteq> [] \<and> hd t \<noteq> close" "close \<in> {CHR '']'', CHR ''}''}"
  shows "read_seq f close (join_with CHR '','' ts @ close # r) = Some (xs, r)"
proof (cases "xs = []")
  case True
  with assms(1) show ?thesis by (simp add: read_seq_def)
next
  case False
  with assms(1) obtain x t us where "ts = t # us" "R x t" by (auto simp: neq_Nil_conv list_all2_Cons1)
  with assms(3) [of x t] have ts: "ts \<noteq> []" "hd ts \<noteq> []" "hd (hd ts) \<noteq> close" by simp_all
  have "length ts \<le> length (join_with CHR '','' ts @ close # r)" using length_join_with [of ts "CHR '',''"] by simp
  from read_json_list [OF assms(1) False assms(2,4) this] ts hd_join_with [OF ts(1,2)] show ?thesis
    by (simp add: read_seq_def)
qed

lemma stops_close: "stops (CHR '']'' # r)" "stops (CHR ''}'' # r)"
  by (simp_all add: stops_def)

lemma read_json_value:
  assumes "json_value j t" "stops r"
  shows "read_value (t @ r) = Some (j, r)"
  using assms(1)
proof (cases rule: json_value.cases)
  case item
  from read_json_item [OF item assms(2)] show ?thesis by (cases t) (auto simp: read_value_def)
next
  case (arr js ts)
  have "read_seq read_item CHR '']'' (join_with CHR '','' ts @ CHR '']'' # r) = Some (js, r)"
    by (rule read_json_seq [OF arr(3)])
       (use read_json_item stops_close in \<open>auto dest: read_json_item(2,3) [OF _ stops_close(1)]\<close>)
  with arr show ?thesis by (simp add: read_value_def)
qed

lemma read_json_member:
  assumes "json_member m t"
  shows "stops r \<Longrightarrow> read_member (t @ r) = Some (m, r)" "t \<noteq> [] \<and> hd t = CHR 0x22"
proof -
  from assms obtain n j a b where m: "m = (n, j)" "t = a @ '':'' @ b" "json_text n a" "json_value j b"
    by (cases rule: json_member.cases)
  from read_text [OF m(3)] obtain u where a: "a = CHR 0x22 # u" by metis
  show "read_member (t @ r) = Some (m, r)" if "stops r"
    using read_text [OF m(3), of "'':'' @ b @ r"] read_json_value [OF m(4) that] by (simp add: read_member_def m(1,2) a)
  show "t \<noteq> [] \<and> hd t = CHR 0x22" by (simp add: m(2) a)
qed

lemma read_document_parses: "json_parser read_document"
proof -
  have "read_document t = Some (J_object fs)" if "json_document fs t" for fs t
  proof -
    from that obtain ts where ts: "list_all2 json_member fs ts" "t = ''{'' @ join_with CHR '','' ts @ ''}''"
      by (auto simp: json_document_def)
    have "read_seq read_member CHR ''}'' (join_with CHR '','' ts @ CHR ''}'' # []) = Some (fs, [])"
      by (rule read_json_seq [OF ts(1)]) (auto dest: read_json_member)
    with ts(2) show ?thesis by (simp add: read_document_def)
  qed
  then show ?thesis by (simp add: json_parser_def)
qed

end
