(* ===== verification/Jwt_Issue.thy ===== *)
theory Jwt_Issue
  imports Json_Text
begin

text \<open>
  Tokens from the issuer to the verifier (\<^verbatim>\<open>src/middleware/jwt_middleware.cpp\<close>). The locale \<open>base64_blocks\<close>
  states what OpenSSL documents of its base64 functions; it gives the round trip of the URL-safe encoding
  and is interpreted on the codec of RFC 4648. The claims are followed as JSON values from the builder
  through the printed payload, which is shown to be a text of the grammar of \<open>Json_Text\<close>, to the principal
  that the verifier reads.
\<close>

section \<open>Base64 blocks\<close>

text \<open>
  What OpenSSL documents of \<^verbatim>\<open>EVP_EncodeBlock\<close> and \<^verbatim>\<open>EVP_DecodeBlock\<close>: every three bytes become
  four characters of the alphabet, a shorter last group is completed by equals signs, and decoding
  returns the bytes with a zero for every sign of padding.
\<close>

definition b64_char :: "char \<Rightarrow> bool" where
  "b64_char c \<longleftrightarrow> isalnum c \<or> c = CHR ''+'' \<or> c = CHR ''/''"

lemma b64_char_not [simp]:
  "\<not> isalnum CHR ''=''" "\<not> isalnum CHR ''-''" "\<not> isalnum CHR ''_''" "\<not> isalnum CHR ''+''" "\<not> isalnum CHR ''/''"
  "\<not> isalnum CHR ''.''"
  by (simp_all add: isalnum_def isalpha_def isdigit_def)

lemma to_url_char_alphabet: "b64_char c \<Longrightarrow> to_url_char c \<noteq> CHR ''='' \<and> to_url_char c \<noteq> CHR ''.''"
  by (auto simp: b64_char_def to_url_char_def)

lemma padding_length:
  assumes "(n + p) mod 4 = (0::nat)" "p < 4" shows "(4 - n mod 4) mod 4 = p"
proof -
  have m: "(n mod 4 + p) mod 4 = 0" using assms(1) by (simp add: mod_add_left_eq)
  have "n mod 4 < 4" by simp
  then have "n mod 4 \<in> {0, 1, 2, 3}" "p \<in> {0, 1, 2, 3}" using assms(2) by auto
  with m show ?thesis by auto presburger+
qed

lemma dropWhile_notin: "c \<notin> set xs \<Longrightarrow> dropWhile (\<lambda>x. x = c) xs = xs"
  by (cases xs) auto

lemma count_replicate: "count_list (replicate n x) x = n"
  by (induction n) auto

locale base64_blocks =
  fixes enc :: "string \<Rightarrow> string" and dec :: "string \<Rightarrow> string option" and pads :: "string \<Rightarrow> nat"
  assumes blocks: "length (enc s) mod 4 = 0"
    and padded: "\<exists>body. enc s = body @ replicate (pads s) CHR ''='' \<and> list_all b64_char body"
    and few_pads: "pads s < 4"
    and decodes: "dec (enc s) = Some (s @ replicate (pads s) CHR 0x00)"
begin

lemma trim_padding:
  assumes "enc s = body @ replicate (pads s) CHR ''=''" "list_all b64_char body"
  shows "rev (dropWhile (\<lambda>c. c = CHR ''='') (rev (map to_url_char (enc s)))) = map to_url_char body"
proof -
  have no: "CHR ''='' \<notin> set (map to_url_char body)"
    using assms(2) to_url_char_alphabet by (force simp: list_all_iff)
  have "dropWhile (\<lambda>c. c = CHR ''='') (replicate n CHR ''='' @ xs) = dropWhile (\<lambda>c. c = CHR ''='') xs" for n and xs :: string
    by (induction n) auto
  then have "dropWhile (\<lambda>c. c = CHR ''='') (rev (map to_url_char (enc s))) = dropWhile (\<lambda>c. c = CHR ''='') (rev (map to_url_char body))"
    by (simp add: assms(1) to_url_char_def)
  also have "\<dots> = rev (map to_url_char body)"
    using no by (simp add: dropWhile_notin)
  finally show ?thesis by simp
qed

lemma url_roundtrip: "list_all b64_char body \<Longrightarrow> from_url (map to_url_char body) = Some body"
  by (induction body) (auto simp: b64_char_def to_url_char_def)

lemma repad:
  assumes "enc s = body @ replicate (pads s) CHR ''=''"
  shows "pad4 body = enc s"
proof -
  have "(length body + pads s) mod 4 = 0" using blocks [of s] assms by simp
  then have "(4 - length body mod 4) mod 4 = pads s" using few_pads by (rule padding_length)
  with assms show ?thesis by (simp add: pad4_def)
qed

lemma base64url_roundtrip:
  assumes "evp_encode L = enc" "evp_decode L = dec"
  shows "base64url_decode L (base64url_encode L s) = Inr (Inr s)"
proof -
  from padded obtain body where body: "enc s = body @ replicate (pads s) CHR ''=''" "list_all b64_char body" by blast
  have "count_list body CHR ''='' = 0"
    using body(2) by (auto simp: count_list_0_iff list_all_iff b64_char_def)
  then have "count_list (enc s) CHR ''='' = pads s"
    by (simp add: body(1) count_replicate)
  then show ?thesis
    by (simp add: base64url_decode_def base64url_encode_def assms trim_padding [OF body] url_roundtrip [OF body(2)]
        repad [OF body(1)] decodes)
qed

lemma base64url_no_dot:
  assumes "evp_encode L = enc"
  shows "CHR ''.'' \<notin> set (base64url_encode L s)"
proof -
  from padded obtain body where body: "enc s = body @ replicate (pads s) CHR ''=''" "list_all b64_char body" by blast
  have "base64url_encode L s = map to_url_char body"
    unfolding base64url_encode_def assms by (rule trim_padding [OF body])
  then show ?thesis using body(2) to_url_char_alphabet by (force simp: list_all_iff)
qed

end


text \<open>The codec of RFC 4648, on groups of 24 bits; the padding sign decodes as zero.\<close>

definition b64_alphabet :: string where
  "b64_alphabet = ''ABCDEFGHIJKLMNOPQRSTUVWXYZabcdefghijklmnopqrstuvwxyz0123456789+/''"

definition b64_sextets :: "nat \<Rightarrow> string" where
  "b64_sextets n = map (\<lambda>i. b64_alphabet ! i) [n div 262144 mod 64, n div 4096 mod 64, n div 64 mod 64, n mod 64]"

definition b64_group :: "char \<Rightarrow> char \<Rightarrow> char \<Rightarrow> nat" where
  "b64_group a b c = byte_of a * 65536 + byte_of b * 256 + byte_of c"

fun b64_encode :: "string \<Rightarrow> string" where
  "b64_encode [] = []"
| "b64_encode [a] = take 2 (b64_sextets (b64_group a CHR 0x00 CHR 0x00)) @ ''==''"
| "b64_encode [a, b] = take 3 (b64_sextets (b64_group a b CHR 0x00)) @ ''=''"
| "b64_encode (a # b # c # rest) = b64_sextets (b64_group a b c) @ b64_encode rest"

definition b64_value :: "char \<Rightarrow> nat option" where
  "b64_value c = (if c = CHR ''='' then Some 0 else find_ch c b64_alphabet)"

definition b64_bytes :: "nat \<Rightarrow> string" where
  "b64_bytes n = [char_of (n div 65536), char_of (n div 256), char_of n]"

fun b64_decode :: "string \<Rightarrow> string option" where
  "b64_decode [] = Some []"
| "b64_decode (a # b # c # d # rest) =
     (case (b64_value a, b64_value b, b64_value c, b64_value d, b64_decode rest) of
        (Some w, Some x, Some y, Some z, Some bytes) \<Rightarrow> Some (b64_bytes (w * 262144 + x * 4096 + y * 64 + z) @ bytes)
      | _ \<Rightarrow> None)"
| "b64_decode _ = None"

definition b64_pads :: "string \<Rightarrow> nat" where
  "b64_pads s = (3 - length s mod 3) mod 3"

lemma b64_alphabet_values: "list_all (\<lambda>i. b64_value (b64_alphabet ! i) = Some i \<and> b64_char (b64_alphabet ! i)) [0..<64]"
  by code_simp

lemma b64_value_nth: "i < 64 \<Longrightarrow> b64_value (b64_alphabet ! i) = Some i"
  and b64_char_nth: "i < 64 \<Longrightarrow> b64_char (b64_alphabet ! i)"
  using b64_alphabet_values by (simp_all only: list_all_iff set_upt atLeastLessThan_iff) auto

lemma b64_value_pad: "b64_value CHR ''='' = Some 0"
  by (simp add: b64_value_def)

lemma recombine:
  "n < 16777216 \<Longrightarrow> n div 262144 mod 64 * 262144 + n div 4096 mod 64 * 4096 + n div 64 mod 64 * 64 + n mod 64 = (n :: nat)"
proof -
  assume n: "n < 16777216"
  define m where "m = n div 64"
  define k where "k = m div 64"
  have "n div 4096 = k" "n div 262144 = k div 64" unfolding k_def m_def by (simp_all flip: div_mult2_eq)
  moreover have "k div 64 < 64" using n unfolding k_def m_def by (simp flip: div_mult2_eq add: div_less_iff_less_mult)
  moreover have "n = m * 64 + n mod 64" "m = k * 64 + m mod 64" "k = k div 64 * 64 + k mod 64"
    unfolding k_def m_def by simp_all
  ultimately show ?thesis unfolding m_def [symmetric] by (simp, linarith)
qed

lemma byte_bound: "byte_of c < 256"
  by simp

lemma group_bound: "b64_group a b c < 16777216"
  using byte_bound [of a] byte_bound [of b] byte_bound [of c] unfolding b64_group_def by linarith

lemma bytes_group: "b64_bytes (b64_group a b c) = [a, b, c]"
proof -
  have g: "b64_group a b c = (byte_of a * 256 + byte_of b) * 256 + byte_of c" by (simp add: b64_group_def)
  have d: "b64_group a b c div 256 = byte_of a * 256 + byte_of b" 
    unfolding g by (subst div_add1_eq) (simp add: byte_bound)
  have "b64_group a b c div 65536 = b64_group a b c div 256 div 256" by (simp flip: div_mult2_eq)
  also have "\<dots> = byte_of a" using byte_bound [of b] unfolding d by simp
  finally have "char_of (b64_group a b c div 65536) = a" by simp
  moreover have "b64_group a b c div 256 mod 256 = byte_of b" "b64_group a b c mod 256 = byte_of c"
    unfolding d unfolding g by (subst mod_mult_self3, simp add: byte_bound)+
  then have "char_of (b64_group a b c div 256) = b" "char_of (b64_group a b c) = c"
    by (simp_all add: char_of_eq_iff take_bit_eq_mod)
  ultimately show ?thesis by (simp add: b64_bytes_def)
qed

lemma decode_sextets:
  "b64_decode (b64_sextets (b64_group a b c) @ rest) = map_option (\<lambda>bytes. [a, b, c] @ bytes) (b64_decode rest)"
  by (simp add: b64_sextets_def b64_value_nth recombine [OF group_bound] bytes_group split: option.splits)

lemma decode_padded:
  assumes "n < 16777216"
  shows "n mod 64 = 0 \<Longrightarrow> b64_decode (take 3 (b64_sextets n) @ ''='') = Some (b64_bytes n)"
    and "n mod 4096 = 0 \<Longrightarrow> b64_decode (take 2 (b64_sextets n) @ ''=='') = Some (b64_bytes n)"
proof -
  define w x y z where "w = n div 262144 mod 64" and "x = n div 4096 mod 64" and "y = n div 64 mod 64" and "z = n mod 64"
  have v: "b64_value (b64_alphabet ! w) = Some w" "b64_value (b64_alphabet ! x) = Some x" "b64_value (b64_alphabet ! y) = Some y"
    unfolding w_def x_def y_def by (simp_all add: b64_value_nth)
  have n: "w * 262144 + x * 4096 + y * 64 + z = n" unfolding w_def x_def y_def z_def by (rule recombine [OF assms])
  have s: "b64_sextets n = [b64_alphabet ! w, b64_alphabet ! x, b64_alphabet ! y, b64_alphabet ! z]"
    by (simp add: b64_sextets_def w_def x_def y_def z_def)
  show "b64_decode (take 3 (b64_sextets n) @ ''='') = Some (b64_bytes n)" if "n mod 64 = 0"
    using n that [folded z_def] unfolding s by (simp add: v b64_value_pad)
  show "b64_decode (take 2 (b64_sextets n) @ ''=='') = Some (b64_bytes n)" if "n mod 4096 = 0"
  proof -
    from that obtain k where "n = 4096 * k" by auto
    then have "z = 0" "y = 0" unfolding z_def y_def by simp_all
    with n show ?thesis unfolding s by (simp add: v b64_value_pad)
  qed
qed

lemma b64_sextets_chars: "list_all b64_char (b64_sextets n)" "length (b64_sextets n) = 4"
  by (simp_all add: b64_sextets_def b64_char_nth)

lemma list_all_take: "list_all P xs \<Longrightarrow> list_all P (take n xs)"
  by (auto simp: list_all_iff dest: in_set_takeD)

lemma b64_encode_padded:
  "\<exists>body. b64_encode s = body @ replicate (b64_pads s) CHR ''='' \<and> list_all b64_char body"
proof (induction s rule: b64_encode.induct)
  case (4 a b c rest)
  then obtain body where "b64_encode rest = body @ replicate (b64_pads rest) CHR ''=''" "list_all b64_char body" by blast
  moreover have "b64_pads (a # b # c # rest) = b64_pads rest" by (simp add: b64_pads_def)
  ultimately show ?case using b64_sextets_chars by (intro exI [of _ "b64_sextets (b64_group a b c) @ body"]) simp
next
  case (2 a)
  then show ?case using list_all_take [OF b64_sextets_chars(1)] by (auto simp: b64_pads_def numeral_2_eq_2)
next
  case (3 a b)
  then show ?case using list_all_take [OF b64_sextets_chars(1)] by (auto simp: b64_pads_def)
qed (simp add: b64_pads_def)

lemma group_1: "b64_group a CHR 0x00 CHR 0x00 mod 4096 = 0"
  and group_2: "b64_group a b CHR 0x00 mod 64 = 0"
  by (simp_all add: b64_group_def)

lemma b64_decode_encode: "b64_decode (b64_encode s) = Some (s @ replicate (b64_pads s) CHR 0x00)"
proof (induction s rule: b64_encode.induct)
  case (4 a b c rest)
  moreover have "b64_pads (a # b # c # rest) = b64_pads rest" by (simp add: b64_pads_def)
  ultimately show ?case by (simp add: decode_sextets)
next
  case (2 a)
  then show ?case by (simp only: b64_encode.simps decode_padded(2) [OF group_bound group_1] bytes_group) (simp add: b64_pads_def numeral_2_eq_2)
next
  case (3 a b)
  then show ?case by (simp only: b64_encode.simps decode_padded(1) [OF group_bound group_2] bytes_group) (simp add: b64_pads_def)
qed (simp add: b64_pads_def)

interpretation b64: base64_blocks b64_encode b64_decode b64_pads
proof unfold_locales
  show "length (b64_encode s) mod 4 = 0" for s
    by (induction s rule: b64_encode.induct) (simp_all add: b64_sextets_chars)
  show "\<exists>body. b64_encode s = body @ replicate (b64_pads s) CHR ''='' \<and> list_all b64_char body" for s
    by (rule b64_encode_padded)
  show "b64_pads s < 4" for s
    unfolding b64_pads_def by (rule less_trans [OF mod_less_divisor]) simp_all
  show "b64_decode (b64_encode s) = Some (s @ replicate (b64_pads s) CHR 0x00)" for s
    by (rule b64_decode_encode)
qed

section \<open>Issued tokens\<close>

text \<open>The claims of a token as JSON values, and how a value is printed.\<close>

fun json_print :: "json \<Rightarrow> string" where
  "json_print (J_string v) = json_string v"
| "json_print (J_int i) = to_string_int i"
| "json_print (J_bool b) = (if b then ''true'' else ''false'')"
| "json_print (J_array js) = json_string_array (json_strings js)"
| "json_print _ = []"

definition opt_value :: "string \<Rightarrow> ('a \<Rightarrow> json) \<Rightarrow> 'a option \<Rightarrow> (string \<times> json) list" where
  "opt_value name f v = (case v of None \<Rightarrow> [] | Some x \<Rightarrow> [(name, f x)])"

definition issued_exp :: "int \<Rightarrow> JwtIssuerConfig \<Rightarrow> JwtTokenBuilder \<Rightarrow> int option" where
  "issued_exp now ic tb =
     (case tb_expires_at tb of Some t \<Rightarrow> Some t
      | None \<Rightarrow> if default_ttl ic > 0 then Some (now + nanos (default_ttl ic)) else None)"

definition issued_iat :: "int \<Rightarrow> JwtIssuerConfig \<Rightarrow> JwtTokenBuilder \<Rightarrow> int option" where
  "issued_iat now ic tb =
     (case tb_issued_at tb of Some t \<Rightarrow> Some t | None \<Rightarrow> if include_issued_at ic then Some now else None)"

definition scope_values :: "JwtIssuerConfig \<Rightarrow> JwtTokenBuilder \<Rightarrow> (string \<times> json) list" where
  "scope_values ic tb =
     (if tb_scopes tb = [] then []
      else [(is_scope_claim ic, if encode_scopes_as_array ic then J_array (map J_string (tb_scopes tb))
                                else J_string (space_join (tb_scopes tb)))])"

definition audience_values :: "JwtTokenBuilder \<Rightarrow> (string \<times> json) list" where
  "audience_values tb =
     (case tb_audience tb of [] \<Rightarrow> [] | [a] \<Rightarrow> [(''aud'', J_string a)]
      | _ \<Rightarrow> [(''aud'', J_array (map J_string (tb_audience tb)))])"

definition custom_values :: "claim_orders \<Rightarrow> JwtTokenBuilder \<Rightarrow> (string \<times> json) list" where
  "custom_values ord tb =
     map (\<lambda>(n, v). (n, J_string v)) (order_strings ord (tb_string_claims tb)) @
     map (\<lambda>(n, v). (n, J_int v)) (order_integers ord (tb_integer_claims tb)) @
     map (\<lambda>(n, v). (n, J_bool v)) (order_bools ord (tb_bool_claims tb)) @
     map (\<lambda>(n, v). (n, J_array (map J_string v))) (order_arrays ord (tb_array_claims tb))"

definition claim_values :: "claim_orders \<Rightarrow> int \<Rightarrow> JwtIssuerConfig \<Rightarrow> JwtTokenBuilder \<Rightarrow> (string \<times> json) list" where
  "claim_values ord now ic tb =
     opt_value ''sub'' J_string (tb_subject tb) @ opt_value ''iss'' J_string (tb_issuer tb) @
     audience_values tb @ scope_values ic tb @ opt_value ''jti'' J_string (tb_token_id tb) @
     opt_value ''exp'' (\<lambda>t. J_int (unix_seconds t)) (issued_exp now ic tb) @
     opt_value ''nbf'' (\<lambda>t. J_int (unix_seconds t)) (tb_not_before tb) @
     opt_value ''iat'' (\<lambda>t. J_int (unix_seconds t)) (issued_iat now ic tb) @ custom_values ord tb"

definition header_values :: "JwtIssuerConfig \<Rightarrow> (string \<times> json) list" where
  "header_values ic = [(''alg'', J_string (algorithm_name (is_algorithm ic))), (''typ'', J_string (is_type ic))] @
     (if is_key_id ic \<noteq> [] then [(''kid'', J_string (is_key_id ic))] else [])"

abbreviation printed :: "(string \<times> json) list \<Rightarrow> string" where
  "printed vs \<equiv> json_object (map (\<lambda>(n, j). (n, json_print j)) vs)"

lemma json_strings_map [simp]: "json_strings (map J_string ss) = ss"
  by (induction ss) auto

lemma print_opt_value:
  "map (\<lambda>(n, j). (n, json_print j)) (opt_value name f v) = opt_field name (json_print \<circ> f) v"
  by (simp add: opt_value_def opt_field_def split: option.split)

lemma print_custom_values:
  "map (\<lambda>(n, j). (n, json_print j)) (custom_values ord tb) =
     map (\<lambda>(n, v). (n, json_string v)) (order_strings ord (tb_string_claims tb)) @
     map (\<lambda>(n, v). (n, to_string_int v)) (order_integers ord (tb_integer_claims tb)) @
     map (\<lambda>(n, v). (n, if v then ''true'' else ''false'')) (order_bools ord (tb_bool_claims tb)) @
     map (\<lambda>(n, v). (n, json_string_array v)) (order_arrays ord (tb_array_claims tb))"
  by (simp add: custom_values_def case_prod_beta comp_def)

lemma claims_printed: "serialize_claims ord now ic tb = printed (claim_values ord now ic tb)"
proof -
  have "map (\<lambda>(n, j). (n, json_print j)) (audience_values tb) =
    (case tb_audience tb of [] \<Rightarrow> [] | [a] \<Rightarrow> [(''aud'', json_string a)] | _ \<Rightarrow> [(''aud'', json_string_array (tb_audience tb))])"
    by (simp add: audience_values_def split: list.split)
  moreover have "map (\<lambda>(n, j). (n, json_print j)) (scope_values ic tb) =
    (if tb_scopes tb = [] then []
     else [(is_scope_claim ic, if encode_scopes_as_array ic then json_string_array (tb_scopes tb)
                               else json_string (space_join (tb_scopes tb)))])"
    by (simp add: scope_values_def)
  ultimately show ?thesis
    unfolding serialize_claims_def claim_values_def claim_fields_def issued_exp_def issued_iat_def
    by (simp only: map_append print_opt_value print_custom_values comp_def json_print.simps)
qed

lemma header_printed: "serialize_header ic = printed (header_values ic)"
  by (simp add: serialize_header_def header_fields_def header_values_def)

text \<open>The printed documents are JSON texts for the values.\<close>

lemma printed_conforms:
  assumes "\<forall>(n, j)\<in>set vs. json_value j (json_print j)"
  shows "json_document vs (printed vs)"
  using document_conforms [OF assms] by simp

lemma print_value_conforms:
  "json_value (J_string v) (json_print (J_string v))" "fits64 i \<Longrightarrow> json_value (J_int i) (json_print (J_int i))"
  "json_value (J_bool b) (json_print (J_bool b))"
  "json_value (J_array (map J_string vs)) (json_print (J_array (map J_string vs)))"
  using array_conforms by (auto intro: json_value.item json_item.intros string_conforms int_conforms)

definition registered :: "string set" where
  "registered = {''sub'', ''iss'', ''aud'', ''jti'', ''exp'', ''nbf'', ''iat''}"

text \<open>
  Builders whose claims do not collide: the claim that carries the scopes is not a registered one, and
  no further claim has the name of either. Scopes written as one string are words, and integer claims
  have 64 bits.
\<close>

definition builder_ok :: "claim_orders \<Rightarrow> JwtIssuerConfig \<Rightarrow> JwtTokenBuilder \<Rightarrow> bool" where
  "builder_ok ord ic tb \<longleftrightarrow> is_scope_claim ic \<notin> registered \<and>
     fst ` set (custom_values ord tb) \<inter> insert (is_scope_claim ic) registered = {} \<and>
     (encode_scopes_as_array ic \<or> (\<forall>s\<in>set (tb_scopes tb). s \<noteq> [] \<and> (\<forall>c\<in>set s. \<not> isspace c))) \<and>
     (\<forall>(n, i)\<in>set (order_integers ord (tb_integer_claims tb)). fits64 i)"

text \<open>The claims of a principal as maps: of the values with one name, the last of each kind.\<close>

definition claims_of :: "(string \<times> json) list \<Rightarrow> JwtClaims" where
  "claims_of vs = \<lparr>
     string_claims = map_of (rev [(n, s). (n, J_string s) \<leftarrow> vs]),
     integer_claims = map_of (rev [(n, i). (n, J_int i) \<leftarrow> vs]),
     bool_claims = map_of (rev [(n, b). (n, J_bool b) \<leftarrow> vs]),
     string_array_claims = map_of (rev [(n, json_strings js). (n, J_array js) \<leftarrow> vs, json_strings js \<noteq> []])\<rparr>"

definition second_of :: "int \<Rightarrow> int" where
  "second_of t = nanos (unix_seconds t)"

definition issued_principal :: "claim_orders \<Rightarrow> int \<Rightarrow> JwtIssuerConfig \<Rightarrow> JwtTokenBuilder \<Rightarrow> JwtConfig \<Rightarrow> JwtPrincipal" where
  "issued_principal ord now ic tb cfg = \<lparr>
     jwt_subject = or_empty (tb_subject tb), jwt_issuer = or_empty (tb_issuer tb),
     jwt_audience = tb_audience tb, jwt_scopes = tb_scopes tb, jwt_token_id = or_empty (tb_token_id tb),
     jwt_expires_at = map_option second_of (issued_exp now ic tb),
     jwt_not_before = (if validate_not_before cfg then map_option second_of (tb_not_before tb) else None),
     jwt_issued_at = (if validate_issued_at cfg then map_option second_of (issued_iat now ic tb) else None),
     jwt_claims = claims_of (claim_values ord now ic tb)\<rparr>"

section \<open>Reading an issued token\<close>

lemma map_of_opt_value [simp]: "map_of (opt_value n f v) k = (if k = n then map_option f v else None)"
  by (auto simp: opt_value_def split: option.split)

lemma map_of_audience_values: "k \<noteq> ''aud'' \<Longrightarrow> map_of (audience_values tb) k = None"
  by (auto simp: audience_values_def split: list.split)

lemma map_of_scope_values: "k \<noteq> is_scope_claim ic \<Longrightarrow> map_of (scope_values ic tb) k = None"
  by (simp add: scope_values_def)

lemma map_of_custom_values:
  "builder_ok ord ic tb \<Longrightarrow> k \<in> insert (is_scope_claim ic) registered \<Longrightarrow> map_of (custom_values ord tb) k = None"
  unfolding builder_ok_def map_of_eq_None_iff by blast

lemma claim_lookups:
  fixes now :: int
  assumes "builder_ok ord ic tb"
  defines "m \<equiv> map_of (claim_values ord now ic tb)"
  shows "m ''sub'' = map_option J_string (tb_subject tb)" "m ''iss'' = map_option J_string (tb_issuer tb)"
    "m ''aud'' = map_of (audience_values tb) ''aud''" "m ''jti'' = map_option J_string (tb_token_id tb)"
    "m ''exp'' = map_option (\<lambda>t. J_int (unix_seconds t)) (issued_exp now ic tb)"
    "m ''nbf'' = map_option (\<lambda>t. J_int (unix_seconds t)) (tb_not_before tb)"
    "m ''iat'' = map_option (\<lambda>t. J_int (unix_seconds t)) (issued_iat now ic tb)"
    "m (is_scope_claim ic) = map_of (scope_values ic tb) (is_scope_claim ic)"
proof -
  have c: "map_of (custom_values ord tb) k = None" if "k \<in> insert (is_scope_claim ic) registered" for k
    using map_of_custom_values [OF assms(1) that] .
  have s: "is_scope_claim ic \<notin> registered" using assms(1) by (simp add: builder_ok_def)
  then have sc: "map_of (scope_values ic tb) k = None" if "k \<in> registered" for k
    using that by (intro map_of_scope_values) auto
  note lookups = m_def claim_values_def map_of_append map_add_def c sc map_of_audience_values registered_def
  show "m ''sub'' = map_option J_string (tb_subject tb)" "m ''iss'' = map_option J_string (tb_issuer tb)"
    "m ''aud'' = map_of (audience_values tb) ''aud''" "m ''jti'' = map_option J_string (tb_token_id tb)"
    "m ''exp'' = map_option (\<lambda>t. J_int (unix_seconds t)) (issued_exp now ic tb)"
    "m ''nbf'' = map_option (\<lambda>t. J_int (unix_seconds t)) (tb_not_before tb)"
    "m ''iat'' = map_option (\<lambda>t. J_int (unix_seconds t)) (issued_iat now ic tb)"
    by (simp_all add: lookups split: option.split)
  show "m (is_scope_claim ic) = map_of (scope_values ic tb) (is_scope_claim ic)"
    using s by (simp add: lookups split: option.split)
qed

lemma split_skip_space: "isspace c \<Longrightarrow> split_scopes (c # str) = split_scopes str"
  using split_scopes.simps [of "c # str"] split_scopes.simps [of str]
  by (cases "str = []") (simp_all add: split_scopes.simps [of "[]"])

lemma split_word:
  assumes "s \<noteq> []" "\<forall>c\<in>set s. \<not> isspace c" "rest = [] \<or> isspace (hd rest)"
  shows "split_scopes (s @ rest) = s # split_scopes rest"
proof -
  have "dropWhile isspace (s @ rest) = s @ rest" using assms(1,2) by (cases s) auto
  moreover have "takeWhile (\<lambda>c. \<not> isspace c) (s @ rest) = s" using assms(2,3) by (cases rest) (auto simp: takeWhile_append)
  ultimately show ?thesis using assms(1) by (simp add: split_scopes.simps [of "s @ rest"] Let_def)
qed

lemma split_space_join:
  "\<forall>s\<in>set ws. s \<noteq> [] \<and> (\<forall>c\<in>set s. \<not> isspace c) \<Longrightarrow> split_scopes (space_join ws) = ws"
proof (induction ws rule: induct_list012)
  case 1
  then show ?case by (simp add: space_join_def split_scopes.simps)
next
  case (2 s)
  then show ?case using split_word [of s "[]"] by (simp add: space_join_def split_scopes.simps [of "[]"])
next
  case (3 s t ws)
  have "isspace CHR '' ''" by (simp add: isspace_def)
  with 3 split_word [of s "CHR '' '' # join_with CHR '' '' (t # ws)"] show ?case
    by (simp add: space_join_def split_skip_space)
qed

lemma fold_add_claim: "fold add_claim vs empty_claims = claims_of vs"
proof (induction vs rule: rev_induct)
  case (snoc v vs)
  then show ?case by (cases v; cases "snd v") (auto simp: claims_of_def)
qed (simp add: claims_of_def empty_claims_def)

definition times_fit :: "int \<Rightarrow> JwtIssuerConfig \<Rightarrow> JwtTokenBuilder \<Rightarrow> bool" where
  "times_fit now ic tb \<longleftrightarrow>
     (\<forall>t\<in>set_option (issued_exp now ic tb) \<union> set_option (tb_not_before tb) \<union> set_option (issued_iat now ic tb). fits64 t)"

text \<open>The verifier's clock is within the times of the builder, in whole seconds, give or take the skew.\<close>

definition issued_in_time :: "int \<Rightarrow> JwtConfig \<Rightarrow> int \<Rightarrow> JwtIssuerConfig \<Rightarrow> JwtTokenBuilder \<Rightarrow> bool" where
  "issued_in_time now cfg at ic tb \<longleftrightarrow>
     (case issued_exp at ic tb of
        None \<Rightarrow> \<not> require_expiration cfg | Some t \<Rightarrow> now < second_of t + nanos (clock_skew cfg)) \<and>
     (validate_not_before cfg \<longrightarrow> (\<forall>t\<in>set_option (tb_not_before tb). second_of t \<le> now + nanos (clock_skew cfg))) \<and>
     (validate_issued_at cfg \<longrightarrow> (\<forall>t\<in>set_option (issued_iat at ic tb). second_of t \<le> now + nanos (clock_skew cfg)))"

lemma second_fits:
  assumes "fits64 t"
  shows "fits64 (unix_seconds t * 10 ^ 9)" "fits64 (unix_seconds t)"
proof -
  have "unix_seconds t * 10 ^ 9 \<le> t \<or> t < 0" "t \<le> unix_seconds t * 10 ^ 9 \<or> 0 \<le> t"
    "0 \<le> t \<Longrightarrow> 0 \<le> unix_seconds t" "t < 0 \<Longrightarrow> unix_seconds t \<le> 0"
    by (auto simp: unix_seconds_def)
  with assms show "fits64 (unix_seconds t * 10 ^ 9)" "fits64 (unix_seconds t)" by (auto simp: fits64_def)
qed

lemma get_claim_times:
  assumes "builder_ok ord ic tb"
  shows "get_json_int (J_object (claim_values ord now ic tb)) ''exp'' = map_option unix_seconds (issued_exp now ic tb)"
    "get_json_int (J_object (claim_values ord now ic tb)) ''nbf'' = map_option unix_seconds (tb_not_before tb)"
    "get_json_int (J_object (claim_values ord now ic tb)) ''iat'' = map_option unix_seconds (issued_iat now ic tb)"
  by (simp_all add: get_json_int_def at_key_def claim_lookups [OF assms] split: option.splits)

lemma principal_issued:
  assumes ok: "builder_ok ord ic tb" and sc: "jc_scope_claim cfg = is_scope_claim ic"
  shows "principal_of cfg (J_object (claim_values ord now ic tb)) = issued_principal ord now ic tb cfg"
proof -
  note l = claim_lookups [OF ok, of now]
  have "read_string_or_array (J_object (claim_values ord now ic tb)) ''aud'' = tb_audience tb"
    by (auto simp: read_string_or_array_def at_key_def l audience_values_def split: list.split)
  moreover have "read_scopes (J_object (claim_values ord now ic tb)) (is_scope_claim ic) = tb_scopes tb"
    using ok by (auto simp: read_scopes_def read_string_or_array_def at_key_def l scope_values_def builder_ok_def split_space_join)
  ultimately show ?thesis
    by (simp add: principal_of_def get_claim_times [OF ok] read_principal_def issued_principal_def get_json_string_def at_key_def
        l sc or_empty_def read_all_claims_def fold_add_claim option.map_comp comp_def second_of_def [abs_def] split: option.splits)
qed

lemma period_issued:
  assumes ok: "builder_ok ord ic tb" and fit: "times_fit at ic tb" and "issued_in_time now cfg at ic tb"
  shows "in_period now cfg (J_object (claim_values ord at ic tb))"
  using assms(2,3) second_fits
  by (auto simp: in_period_def get_claim_times [OF ok] issued_in_time_def times_fit_def second_of_def nanos_def algebra_simps
      split: option.splits)

abbreviation prints_json :: "(string \<times> json) list \<Rightarrow> bool" where
  "prints_json vs \<equiv> \<forall>(n, j)\<in>set vs. json_value j (json_print j)"

lemma prints_opt_value: "\<forall>x\<in>set_option v. json_value (f x) (json_print (f x)) \<Longrightarrow> prints_json (opt_value n f v)"
  by (cases v) (simp_all add: opt_value_def)

lemma prints_audience: "prints_json (audience_values tb)"
  using print_value_conforms(1) print_value_conforms(4) [of "tb_audience tb"]
  unfolding audience_values_def
  by (cases "tb_audience tb" rule: remdups_adj.cases) (simp_all del: json_print.simps)

lemma prints_scopes: "prints_json (scope_values ic tb)"
  using print_value_conforms(1) print_value_conforms(4) [of "tb_scopes tb"]
  by (simp add: scope_values_def del: json_print.simps)

lemma prints_custom: "builder_ok ord ic tb \<Longrightarrow> prints_json (custom_values ord tb)"
  using print_value_conforms by (auto simp: builder_ok_def custom_values_def simp del: json_print.simps)

lemma claims_conform:
  assumes ok: "builder_ok ord ic tb" and fit: "times_fit at ic tb"
  shows "json_document (claim_values ord at ic tb) (serialize_claims ord at ic tb)"
proof -
  have "prints_json (opt_value n J_string v)" for n v
    using print_value_conforms(1) by (intro prints_opt_value) blast
  moreover have times: "prints_json (opt_value n (\<lambda>t. J_int (unix_seconds t)) v)" if "\<forall>t\<in>set_option v. fits64 t" for n v
    using that second_fits(2) print_value_conforms(2) by (intro prints_opt_value) blast
  ultimately have "prints_json (claim_values ord at ic tb)"
    using fit prints_audience [of tb] prints_scopes [of ic tb] prints_custom [OF ok] times [of "issued_exp at ic tb"]
      times [of "tb_not_before tb"] times [of "issued_iat at ic tb"]
    by (simp add: claim_values_def times_fit_def ball_Un del: json_print.simps)
  then show ?thesis unfolding claims_printed by (rule printed_conforms)
qed

lemma header_conforms: "json_document (header_values ic) (serialize_header ic)"
  unfolding header_printed by (rule printed_conforms) (auto simp: header_values_def simp del: json_print.simps intro: print_value_conforms)

lemma verify_issued:
  assumes ok: "builder_ok ord ic tb" and sc: "jc_scope_claim cfg = is_scope_claim ic" and fit: "times_fit at ic tb"
    and pt: "parse_compact_jwt L token = Inr (Inr pt)" and sig: "check_signature L cfg pt = Inr alg"
    and json: "parse_json L (payload_json pt) = Some (J_object (claim_values ord at ic tb))"
    and time: "issued_in_time now cfg at ic tb"
    and pol: "meets_policy cfg (issued_principal ord at ic tb cfg)"
  shows "verify_token L now cfg token = Inr (Inr (alg, issued_principal ord at ic tb cfg))"
  using pt sig json pol period_issued [OF ok fit time]
  by (auto simp: verify_token_alt check_times_iff principal_issued [OF ok sc])

section \<open>Issue and verify\<close>

text \<open>The keys of issuer and verifier belong together.\<close>

definition keys_match :: "jwt_libs \<Rightarrow> JwtIssuerConfig \<Rightarrow> JwtConfig \<Rightarrow> bool" where
  "keys_match L ic cfg \<longleftrightarrow> is_algorithm ic \<in> set (allowed_algorithms cfg) \<and>
     (case is_algorithm ic of
        HS256 \<Rightarrow> jc_hmac_secret cfg = is_hmac_secret ic
      | RS256 \<Rightarrow> rsa_public_key_pem cfg \<noteq> [] \<and>
          (\<forall>m sig. rs256_sign L (is_rsa_private_key_pem ic) m = Inr sig \<longrightarrow>
             rs256_verify L (rsa_public_key_pem cfg) m sig = Inr ()))"

lemma signature_verifies:
  assumes keys: "keys_match L ic cfg" and hd: "parse_json L (header_json pt) = Some (J_object (header_values ic))"
    and sig: "(case is_algorithm ic of HS256 \<Rightarrow> sign_hs256 L (signing_input pt) (is_hmac_secret ic)
       | RS256 \<Rightarrow> sign_rs256 L (signing_input pt) (is_rsa_private_key_pem ic)) = Inr (pt_signature pt)"
  shows "check_signature L cfg pt = Inr (algorithm_name (is_algorithm ic))"
proof -
  have alg: "get_json_string (J_object (header_values ic)) ''alg'' = Some (algorithm_name (is_algorithm ic))"
    by (simp add: get_json_string_def at_key_def header_values_def)
  show ?thesis
    using keys sig
    by (cases "is_algorithm ic")
       (auto simp: check_signature_def hd alg algorithm_name_def algorithm_allowed_def keys_match_def sign_hs256_def
         sign_rs256_def verify_hs256_def verify_rs256_def constant_time_equal_iff split: if_splits option.splits)
qed

lemma parse_issued:
  assumes "base64_blocks (evp_encode L) (evp_decode L) pads"
  shows "parse_compact_jwt L (base64url_encode L h @ ''.'' @ base64url_encode L p @ ''.'' @ base64url_encode L sig) =
    Inr (Inr \<lparr>header_json = h, payload_json = p, pt_signature = sig,
              signing_input = base64url_encode L h @ ''.'' @ base64url_encode L p\<rparr>)"
proof -
  note dots = base64_blocks.base64url_no_dot [OF assms refl]
  note trip = base64_blocks.base64url_roundtrip [OF assms refl refl]
  show ?thesis by (simp add: parse_compact_jwt_def Let_def dots trip find_ch_append find_ch_None)
qed

text \<open>
  C9: A token issued for a builder is accepted by a verifier that shares its key, scope claim and
  algorithm, and the principal the verifier reads is the one the builder described, its times cut to
  seconds, with a JSON parser that reads the texts of RFC 8259. Conditions: the builder's further claims do not
  take the name of a registered claim or of the scope claim, scopes written as one string are words, integers
  and times have 64 bits, the printed documents are UTF-8 and within the parser's size limit, the verifier's
  clock is before the expiry and not before the other times give or take its skew, and the builder's claims
  meet the verifier's issuer, audience, scope and claim requirements.
\<close>

theorem jwt_issue_verify:
  assumes b64: "base64_blocks (evp_encode L) (evp_decode L) pads"
    and json: "json_parser (parse_json L)" "text_fits (serialize_header ic)" "text_fits (serialize_claims ord at ic tb)"
    and keys: "keys_match L ic cfg" and sc: "jc_scope_claim cfg = is_scope_claim ic"
    and tb: "builder_ok ord ic tb" "times_fit at ic tb"
    and time: "issued_in_time now cfg at ic tb"
    and pol: "meets_policy cfg (issued_principal ord at ic tb cfg)"
    and issued: "jwt_issue L ord at ic tb = Inr token"
  shows "verify_token L now cfg token = Inr (Inr (algorithm_name (is_algorithm ic), issued_principal ord at ic tb cfg))"
proof -
  let ?h = "serialize_header ic" and ?p = "serialize_claims ord at ic tb"
  let ?in = "base64url_encode L ?h @ ''.'' @ base64url_encode L ?p"
  let ?sign = "case is_algorithm ic of HS256 \<Rightarrow> sign_hs256 L ?in (is_hmac_secret ic)
       | RS256 \<Rightarrow> sign_rs256 L ?in (is_rsa_private_key_pem ic)"
  from issued obtain sig where sig: "?sign = Inr sig"
    and tok: "token = base64url_encode L ?h @ ''.'' @ base64url_encode L ?p @ ''.'' @ base64url_encode L sig"
    unfolding jwt_issue_def Let_def by (cases ?sign) simp_all
  note pt = parse_issued [OF b64, of ?h ?p sig, folded tok]
  have "parse_json L ?h = Some (J_object (header_values ic))" "parse_json L ?p = Some (J_object (claim_values ord at ic tb))"
    using json header_conforms claims_conform [OF tb] by (auto simp: json_parser_def)
  then show ?thesis
    by (intro verify_issued [OF tb(1) sc tb(2) pt signature_verifies [OF keys] _ time pol])
       (use sig in \<open>simp_all cong: JwtAlgorithm.case_cong\<close>)
qed

text \<open>An issuer and a verifier for one secret, with a reader of the two documents they exchange.\<close>

definition demo_orders :: claim_orders where
  "demo_orders = \<lparr>order_strings = (\<lambda>x. x), order_integers = (\<lambda>x. x), order_bools = (\<lambda>x. x), order_arrays = (\<lambda>x. x)\<rparr>"

definition demo_issuer :: JwtIssuerConfig where
  "demo_issuer = \<lparr>is_algorithm = HS256, is_hmac_secret = ''k'', is_rsa_private_key_pem = [], is_key_id = [], is_type = ''JWT'',
     is_scope_claim = ''scope'', encode_scopes_as_array = False, include_issued_at = True, default_ttl = 60\<rparr>"

definition demo_verifier :: JwtConfig where
  "demo_verifier = \<lparr>allowed_algorithms = [HS256], jc_hmac_secret = ''k'', rsa_public_key_pem = [], jc_allowlist_paths = [],
     jc_allow_options = True, authorization_header = ''authorization'', bearer_prefix = ''Bearer '', jwt_cookie_name = None,
     websocket_cookie_name = None, required_issuer = None, required_audiences = [], required_scopes_jwt = [''read''],
     required_claims = [], require_expiration = True, validate_not_before = True, validate_issued_at = True,
     clock_skew = 0, jc_scope_claim = ''scope'', jc_unauthorized_status = 401, jc_unauthorized_body = ''{}''\<rparr>"

definition demo_builder :: JwtTokenBuilder where
  "demo_builder = builder_scopes [''read'', ''write''] (builder_subject ''ada'' JwtTokenBuilder_new)"

definition demo_libs :: jwt_libs where
  "demo_libs = \<lparr>evp_encode = b64_encode, evp_decode = b64_decode, hmac_sha256 = (\<lambda>k m. Some (k @ m)),
     rs256_sign = (\<lambda>k m. Inl ''signature_error''), rs256_verify = (\<lambda>k m s. Inl ''invalid_signature''), parse_json = read_document\<rparr>"

lemmas demo_defs = demo_orders_def demo_issuer_def demo_verifier_def demo_builder_def demo_libs_def builder_scopes_def
  builder_subject_def JwtTokenBuilder_new_def

lemma demo_values:
  "header_values demo_issuer = [(''alg'', J_string ''HS256''), (''typ'', J_string ''JWT'')]"
  "claim_values demo_orders 0 demo_issuer demo_builder =
     [(''sub'', J_string ''ada''), (''scope'', J_string ''read write''), (''exp'', J_int 60), (''iat'', J_int 0)]"
  by (simp_all add: header_values_def claim_values_def opt_value_def audience_values_def scope_values_def issued_exp_def
      issued_iat_def custom_values_def unix_seconds_def nanos_def algorithm_name_def space_join_def demo_defs)

lemma demo_texts_fit:
  "text_fits (serialize_header demo_issuer)" "text_fits (serialize_claims demo_orders 0 demo_issuer demo_builder)"
proof -
  have short: "text_fits t" if "valid_utf8 (str_bytes t) \<and> length t < 200" for t
    using that by (simp add: text_fits_def)
  show "text_fits (serialize_header demo_issuer)" "text_fits (serialize_claims demo_orders 0 demo_issuer demo_builder)"
    unfolding claims_printed header_printed demo_values by (rule short, code_simp)+
qed

theorem jwt_issue_verify_witness:
  "\<exists>token. jwt_issue demo_libs demo_orders 0 demo_issuer demo_builder = Inr token \<and>
     verify_token demo_libs 59000000000 demo_verifier token =
       Inr (Inr (''HS256'', issued_principal demo_orders 0 demo_issuer demo_builder demo_verifier))"
proof -
  have b64: "base64_blocks (evp_encode demo_libs) (evp_decode demo_libs) b64_pads"
    using b64.base64_blocks_axioms by (simp add: demo_libs_def)
  have json: "json_parser (parse_json demo_libs)"
    using read_document_parses by (simp add: demo_libs_def)
  have keys: "keys_match demo_libs demo_issuer demo_verifier" "jc_scope_claim demo_verifier = is_scope_claim demo_issuer"
    by (simp_all add: keys_match_def demo_defs)
  have ok: "builder_ok demo_orders demo_issuer demo_builder" "times_fit 0 demo_issuer demo_builder"
    by (simp_all add: builder_ok_def registered_def custom_values_def times_fit_def issued_exp_def issued_iat_def nanos_def
        isspace_def fits64_def demo_defs)
  have "issued_in_time 59000000000 demo_verifier 0 demo_issuer demo_builder"
    "meets_policy demo_verifier (issued_principal demo_orders 0 demo_issuer demo_builder demo_verifier)"
    by (simp_all add: issued_in_time_def meets_policy_def issued_principal_def second_of_def issued_exp_def issued_iat_def nanos_def
        unix_seconds_def demo_defs)
  note verify = jwt_issue_verify [OF b64 json demo_texts_fit keys ok this]
  obtain token where "jwt_issue demo_libs demo_orders 0 demo_issuer demo_builder = Inr token"
    by (simp add: jwt_issue_def sign_hs256_def demo_defs)
  with verify [OF this] show ?thesis by (simp add: algorithm_name_def demo_issuer_def)
qed

section \<open>Inputs the code mishandles\<close>

text \<open>
  A signature of four padding signs makes the decoder resize to minus one: an exception any client can
  cause, before the signature is checked.
\<close>

lemma jwt_padding_signature_throws:
  assumes "evp_decode L [] = Some []" "evp_decode L ''===='' = Some [CHR 0x00, CHR 0x00, CHR 0x00]"
  shows "verify_token L now cfg ''..===='' = Inl (Std_exception ''std::length_error'' ''basic_string::_M_replace_aux'')"
  using assms
  by (simp add: verify_token_def then_check_def parse_compact_jwt_def base64url_decode_def pad4_def find_ch_def Let_def)

lemma b64_padding_only: "b64_decode ''===='' = Some [CHR 0x00, CHR 0x00, CHR 0x00]"
  by (simp add: b64_value_def b64_bytes_def char_of_def)

text \<open>An expiry past the year 2262 overflows the conversion to nanoseconds.\<close>

lemma jwt_far_expiry_undefined:
  assumes "get_json_int payload ''exp'' = Some e" "9223372036 < e"
  shows "check_expiration now cfg payload p = Inl (Undefined_behaviour ''time_point overflow'')"
  using assms by (simp add: check_expiration_def from_unix_seconds_def nanos_def)

text \<open>A scope that contains a space is read back as two scopes when scopes are written as one string.\<close>

lemma jwt_scope_with_space: "split_scopes (space_join [''read admin'']) = [''read'', ''admin'']"
  using split_space_join [of "[''read'', ''admin'']"] by (simp add: space_join_def isspace_def)

end
