(* ===== verification/Mem_Alloc.thy ===== *)
theory Mem_Alloc
  imports Nova_Prelude
begin

text \<open>
  The arena and pool allocators (\<^verbatim>\<open>src/memory/arena_allocator.cpp\<close>, \<^verbatim>\<open>memory/pool_allocator.h\<close>). Addresses are
  natural numbers; rounding is on 64-bit words as the code has it. The operating system's page mapping is a
  parameter, and the locale \<open>page_mapper\<close> states what \<^verbatim>\<open>mmap\<close> and \<^verbatim>\<open>munmap\<close> guarantee.
\<close>

unbundle bit_operations_syntax

section \<open>Pages\<close>

type_synonym region = "nat \<times> nat"

record 'w os =
  os_mmap :: "nat \<Rightarrow> 'w \<Rightarrow> nat option \<times> 'w"
  os_munmap :: "region \<Rightarrow> 'w \<Rightarrow> 'w"

definition bad_alloc :: exn where
  "bad_alloc = Std_exception ''std::bad_alloc'' ''std::bad_alloc''"

definition align_up :: "nat \<Rightarrow> nat \<Rightarrow> nat" where
  "align_up p a = unat ((of_nat p + of_nat a - 1) AND NOT (of_nat a - 1) :: 64 word)"

definition map_pages :: "'w os \<Rightarrow> nat \<Rightarrow> 'w \<Rightarrow> nat result \<times> 'w" where
  "map_pages os n w = (case os_mmap os n w of (None, w') \<Rightarrow> (Inl bad_alloc, w') | (Some p, w') \<Rightarrow> (Inr p, w'))"

definition unmap_all :: "'w os \<Rightarrow> region list \<Rightarrow> 'w \<Rightarrow> 'w" where
  "unmap_all os rs w = fold (os_munmap os) rs w"

section \<open>Arena\<close>

record arena =
  ar_block_size :: nat
  ar_ptr :: nat
  ar_end :: nat
  ar_blocks :: "region list"
  ar_large :: "region list"

definition allocate_new_block :: "'w os \<Rightarrow> arena \<Rightarrow> 'w \<Rightarrow> exn option \<times> arena \<times> 'w" where
  "allocate_new_block os a w =
     (case map_pages os (ar_block_size a) w of
        (Inl e, w1) \<Rightarrow> (Some e, a, w1)
      | (Inr p, w1) \<Rightarrow>
          (None, a\<lparr>ar_blocks := ar_blocks a @ [(p, ar_block_size a)], ar_ptr := p, ar_end := p + ar_block_size a\<rparr>, w1))"

definition arena_new :: "'w os \<Rightarrow> nat \<Rightarrow> 'w \<Rightarrow> exn option \<times> arena \<times> 'w" where
  "arena_new os block_size w =
     allocate_new_block os
       \<lparr>ar_block_size = max block_size 4096, ar_ptr = 0, ar_end = 0, ar_blocks = [], ar_large = []\<rparr> w"

definition arena_destroy :: "'w os \<Rightarrow> arena \<Rightarrow> 'w \<Rightarrow> 'w" where
  "arena_destroy os a w = unmap_all os (ar_large a) (unmap_all os (ar_blocks a) w)"

definition arena_reset :: "'w os \<Rightarrow> arena \<Rightarrow> 'w \<Rightarrow> arena \<times> 'w" where
  "arena_reset os a w =
     (let w1 = unmap_all os (ar_large a) (unmap_all os (drop 1 (ar_blocks a)) w); a1 = a\<lparr>ar_large := []\<rparr>
      in case ar_blocks a of
           [] \<Rightarrow> (a1, w1)
         | b # _ \<Rightarrow> (a1\<lparr>ar_blocks := [b], ar_ptr := fst b, ar_end := fst b + snd b\<rparr>, w1))"

definition total_allocated :: "arena \<Rightarrow> nat" where
  "total_allocated a = sum_list (map snd (ar_blocks a)) + sum_list (map snd (ar_large a))"

definition bytes_used :: "arena \<Rightarrow> nat" where
  "bytes_used a =
     sum_list (map snd (butlast (ar_blocks a))) +
     (if ar_blocks a = [] then 0 else ar_ptr a - fst (List.last (ar_blocks a))) +
     sum_list (map snd (ar_large a))"

definition large_alloc :: "'w os \<Rightarrow> nat \<Rightarrow> arena \<Rightarrow> 'w \<Rightarrow> nat result \<times> arena \<times> 'w" where
  "large_alloc os needed a w =
     (let alloc_size = align_up needed 4096
      in case map_pages os alloc_size w of
           (Inl e, w1) \<Rightarrow> (Inl e, a, w1)
         | (Inr p, w1) \<Rightarrow> (Inr p, a\<lparr>ar_large := ar_large a @ [(p, alloc_size)]\<rparr>, w1))"

definition do_allocate :: "'w os \<Rightarrow> nat \<Rightarrow> nat \<Rightarrow> arena \<Rightarrow> 'w \<Rightarrow> nat result \<times> arena \<times> 'w" where
  "do_allocate os bytes0 alignment a w =
     (let bytes = (if bytes0 = 0 then 1 else bytes0)
      in if bytes \<ge> 32 * 1024 then large_alloc os bytes a w
         else
           let aligned = align_up (ar_ptr a) alignment
           in if aligned + bytes > ar_end a
              then if bytes + alignment > ar_block_size a
                   then large_alloc os (bytes + alignment) a w
                   else
                     (case allocate_new_block os a w of
                        (Some e, a1, w1) \<Rightarrow> (Inl e, a1, w1)
                      | (None, a1, w1) \<Rightarrow>
                          let aligned = align_up (ar_ptr a1) alignment
                          in (Inr aligned, a1\<lparr>ar_ptr := aligned + bytes\<rparr>, w1))
              else (Inr aligned, a\<lparr>ar_ptr := aligned + bytes\<rparr>, w))"

definition do_deallocate :: "nat \<Rightarrow> nat \<Rightarrow> nat \<Rightarrow> arena \<Rightarrow> arena" where
  "do_deallocate ptr bytes alignment a = a"

section \<open>Pool\<close>

text \<open>
  \<open>pl_next\<close> is the memory of the slots as the free list reads it. \<open>slot_size\<close> is \<^verbatim>\<open>max(sizeof(T), alignof(T))\<close>.
\<close>

record pool =
  pl_storage :: nat
  pl_storage_size :: nat
  pl_capacity :: nat
  pl_in_use :: nat
  pl_free_head :: "nat option"
  pl_next :: "nat \<Rightarrow> nat option"

fun build_free_list :: "nat \<Rightarrow> nat \<Rightarrow> nat option \<Rightarrow> (nat \<Rightarrow> nat option) \<Rightarrow> nat \<Rightarrow> nat option \<times> (nat \<Rightarrow> nat option)" where
  "build_free_list storage slot_size head mem 0 = (head, mem)"
| "build_free_list storage slot_size head mem (Suc i) =
     build_free_list storage slot_size (Some (storage + i * slot_size)) (mem(storage + i * slot_size := head)) i"

definition pool_new :: "'w os \<Rightarrow> nat \<Rightarrow> nat \<Rightarrow> (nat \<Rightarrow> nat option) \<Rightarrow> 'w \<Rightarrow> pool result \<times> 'w" where
  "pool_new os slot_size capacity mem w =
     (let storage_size = align_up (slot_size * capacity mod 2 ^ 64) 4096
      in case map_pages os storage_size w of
           (Inl e, w1) \<Rightarrow> (Inl e, w1)
         | (Inr p, w1) \<Rightarrow>
             (case build_free_list p slot_size None mem capacity of
                (head, mem') \<Rightarrow>
                  (Inr \<lparr>pl_storage = p, pl_storage_size = storage_size, pl_capacity = capacity, pl_in_use = 0,
                        pl_free_head = head, pl_next = mem'\<rparr>, w1)))"

definition pool_destroy :: "'w os \<Rightarrow> pool \<Rightarrow> 'w \<Rightarrow> 'w" where
  "pool_destroy os pl w = os_munmap os (pl_storage pl, pl_storage_size pl) w"

definition pool_allocate :: "pool \<Rightarrow> nat option \<times> pool" where
  "pool_allocate pl =
     (case pl_free_head pl of
        None \<Rightarrow> (None, pl)
      | Some node \<Rightarrow> (Some node, pl\<lparr>pl_free_head := pl_next pl node, pl_in_use := Suc (pl_in_use pl)\<rparr>))"

definition pool_deallocate :: "nat \<Rightarrow> pool \<Rightarrow> pool" where
  "pool_deallocate p pl =
     pl\<lparr>pl_next := (pl_next pl)(p := pl_free_head pl), pl_free_head := Some p, pl_in_use := pl_in_use pl - 1\<rparr>"

definition pool_owns :: "nat \<Rightarrow> pool \<Rightarrow> bool" where
  "pool_owns p pl \<longleftrightarrow> pl_storage pl \<le> p \<and> p < pl_storage pl + pl_storage_size pl"

definition pool_available :: "pool \<Rightarrow> nat" where
  "pool_available pl = pl_capacity pl - pl_in_use pl"

text \<open>The constructor either succeeds, leaving its object in the slot, or throws.\<close>

definition pool_construct :: "nat option result \<Rightarrow> pool \<Rightarrow> nat option result \<times> pool" where
  "pool_construct ctor pl =
     (case pool_allocate pl of
        (None, pl1) \<Rightarrow> (Inr None, pl1)
      | (Some p, pl1) \<Rightarrow>
          (case ctor of
             Inl e \<Rightarrow> (Inl e, pl1)
           | Inr content \<Rightarrow> (Inr (Some p), pl1\<lparr>pl_next := (pl_next pl1)(p := content)\<rparr>)))"

definition pool_destroy_object :: "nat option \<Rightarrow> pool \<Rightarrow> pool" where
  "pool_destroy_object ptr pl = (case ptr of None \<Rightarrow> pl | Some p \<Rightarrow> pool_deallocate p pl)"

section \<open>Rounding\<close>

lemma and_not_mask: "x AND NOT (mask k) = push_bit k (drop_bit k (x :: 64 word))"
  by (rule bit_word_eqI) (auto simp: bit_and_iff bit_not_iff bit_mask_iff bit_push_bit_iff bit_drop_bit_eq)

lemma unat_and_not_mask: "unat (x AND NOT (mask k) :: 64 word) = unat x div 2 ^ k * 2 ^ k"
proof -
  have lt: "unat x < 2 ^ 64" by (rule order_less_le_trans [OF unsigned_less]) simp
  then have id: "take_bit 64 (unat x) = unat x" by (rule take_bit_nat_eq_self)
  have "unat (push_bit k (drop_bit k x)) = take_bit 64 (push_bit k (drop_bit k (unat x)))"
    by (simp add: unsigned_push_bit_eq unsigned_drop_bit_eq id)
  also have "\<dots> = take_bit 64 (unat x div 2 ^ k * 2 ^ k)" by (simp add: push_bit_eq_mult drop_bit_eq_div)
  also have "take_bit 64 (unat x div 2 ^ k * 2 ^ k) = unat x div 2 ^ k * 2 ^ k"
    using le_less_trans [OF div_times_less_eq_dividend lt] by (rule take_bit_nat_eq_self)
  finally show ?thesis unfolding and_not_mask .
qed

lemma align_up_pow2:
  assumes "p + 2 ^ k \<le> 2 ^ 64"
  shows "align_up p (2 ^ k) = (p + 2 ^ k - 1) div 2 ^ k * 2 ^ k"
proof -
  have m: "of_nat (2 ^ k) - 1 = (mask k :: 64 word)" by (simp add: mask_eq_exp_minus_1)
  have "of_nat p + of_nat (2 ^ k) - 1 = (of_nat (p + 2 ^ k - 1) :: 64 word)"
  proof -
    have "p + 2 ^ k - 1 = p + (2 ^ k - 1)" by simp
    also have "of_nat \<dots> = (of_nat p + (of_nat (2 ^ k) - 1) :: 64 word)" by (simp only: of_nat_add of_nat_diff one_le_power of_nat_1)
    finally show ?thesis by simp
  qed
  moreover have "unat (of_nat (p + 2 ^ k - 1) :: 64 word) = p + 2 ^ k - 1"
  proof -
    have "0 < (2 :: nat) ^ k" by simp
    with assms have "p + 2 ^ k - 1 < 2 ^ 64" by linarith
    then show ?thesis by (simp add: unat_of_nat)
  qed
  ultimately show ?thesis unfolding align_up_def m by (simp add: unat_and_not_mask)
qed

lemma align_up_bounds:
  assumes "p + 2 ^ k \<le> 2 ^ 64"
  shows "p \<le> align_up p (2 ^ k)" "align_up p (2 ^ k) < p + 2 ^ k" "2 ^ k dvd align_up p (2 ^ k)"
proof -
  let ?a = "(2 :: nat) ^ k"
  have e: "align_up p ?a = (p + ?a - 1) div ?a * ?a" by (rule align_up_pow2 [OF assms])
  have "(p + ?a - 1) div ?a * ?a + (p + ?a - 1) mod ?a = p + ?a - 1" by (rule div_mult_mod_eq)
  moreover have "(p + ?a - 1) mod ?a < ?a" by simp
  ultimately show "p \<le> align_up p ?a" "align_up p ?a < p + ?a" unfolding e by linarith+
  show "?a dvd align_up p ?a" unfolding e by simp
qed

section \<open>What the operating system guarantees\<close>

definition apart :: "region \<Rightarrow> region \<Rightarrow> bool" where
  "apart r s \<longleftrightarrow> fst r + snd r \<le> fst s \<or> fst s + snd s \<le> fst r"

definition within :: "region \<Rightarrow> region \<Rightarrow> bool" where
  "within r s \<longleftrightarrow> fst s \<le> fst r \<and> fst r + snd r \<le> fst s + snd s"

lemma within_apart: "within r R \<Longrightarrow> within s S \<Longrightarrow> apart R S \<Longrightarrow> apart r s"
  by (auto simp: within_def apart_def)

lemma apart_sym: "apart r s \<longleftrightarrow> apart s r"
  by (auto simp: apart_def)

fun all_apart :: "region list \<Rightarrow> bool" where
  "all_apart [] = True"
| "all_apart (r # rs) \<longleftrightarrow> (\<forall>s\<in>set rs. apart r s) \<and> all_apart rs"

lemma all_apart_append: "all_apart (rs @ ss) \<longleftrightarrow> all_apart rs \<and> all_apart ss \<and> (\<forall>r\<in>set rs. \<forall>s\<in>set ss. apart r s)"
  by (induction rs) auto

lemma all_apart_neq: "all_apart rs \<Longrightarrow> r \<in> set rs \<Longrightarrow> s \<in> set rs \<Longrightarrow> r \<noteq> s \<Longrightarrow> apart r s"
  by (induction rs) (auto simp: apart_sym)

text \<open>Mappings start at a page, lie in the lower half of the address space and do not overlap.\<close>

locale page_mapper =
  fixes os :: "'w os" and mapped :: "'w \<Rightarrow> region set"
  assumes mmap_fresh: "os_mmap os n w = (Some p, w') \<Longrightarrow>
      mapped w' = insert (p, n) (mapped w) \<and> (\<forall>r\<in>mapped w. apart (p, n) r) \<and> 4096 dvd p \<and> p + n < 2 ^ 63"
    and mmap_fails: "os_mmap os n w = (None, w') \<Longrightarrow> mapped w' = mapped w"
    and munmap: "mapped (os_munmap os r w) = mapped w - {r}"

section \<open>Arena allocations\<close>

text \<open>
  \<open>live\<close> are the allocations since the last reset. Each lies in a region of the arena, in the current block
  below the bump pointer, and no two overlap.
\<close>

definition regions :: "arena \<Rightarrow> region list" where
  "regions a = ar_blocks a @ ar_large a"

definition current_block :: "arena \<Rightarrow> region" where
  "current_block a = List.last (ar_blocks a)"

definition arena_inv :: "region set \<Rightarrow> arena \<Rightarrow> region list \<Rightarrow> bool" where
  "arena_inv m a live \<longleftrightarrow>
     all_apart (regions a) \<and> set (regions a) \<subseteq> m \<and> ar_blocks a \<noteq> [] \<and> 4096 \<le> ar_block_size a \<and>
     (\<forall>r\<in>set (regions a). 0 < snd r \<and> fst r + snd r < 2 ^ 63) \<and>
     fst (current_block a) \<le> ar_ptr a \<and> ar_ptr a \<le> ar_end a \<and> ar_end a = fst (current_block a) + snd (current_block a) \<and>
     (\<forall>r\<in>set live. (within r (current_block a) \<and> fst r + snd r \<le> ar_ptr a) \<or>
        (\<exists>s\<in>set (regions a). s \<noteq> current_block a \<and> within r s)) \<and>
     all_apart live"

lemma inv_end: "arena_inv m a live \<Longrightarrow> ar_ptr a \<le> ar_end a \<and> ar_end a < 2 ^ 63"
proof -
  assume inv: "arena_inv m a live"
  then have "current_block a \<in> set (regions a)" by (simp add: arena_inv_def regions_def current_block_def)
  with inv show ?thesis unfolding arena_inv_def by metis
qed

lemma inv_bump:
  assumes inv: "arena_inv m a live" and q: "ar_ptr a \<le> q" "q + n \<le> ar_end a"
  shows "arena_inv m (a\<lparr>ar_ptr := q + n\<rparr>) (live @ [(q, n)])"
proof -
  have b: "regions (a\<lparr>ar_ptr := q + n\<rparr>) = regions a" "current_block (a\<lparr>ar_ptr := q + n\<rparr>) = current_block a"
    by (simp_all add: regions_def current_block_def)
  have cur: "current_block a \<in> set (regions a)" using inv by (simp add: arena_inv_def regions_def current_block_def)
  have new: "within (q, n) (current_block a)" using inv q by (auto simp: arena_inv_def within_def)
  have "apart r (q, n)" if "r \<in> set live" for r
  proof -
    from inv that consider "fst r + snd r \<le> ar_ptr a" | s where "s \<in> set (regions a)" "s \<noteq> current_block a" "within r s"
      unfolding arena_inv_def by blast
    then show ?thesis
    proof cases
      case 1
      with q show ?thesis by (simp add: apart_def)
    next
      case 2
      have "apart s (current_block a)" using 2 cur inv unfolding arena_inv_def by (intro all_apart_neq) blast+
      with 2 new show ?thesis by (blast intro: within_apart)
    qed
  qed
  moreover have "\<forall>r\<in>set live. (within r (current_block a) \<and> fst r + snd r \<le> q + n) \<or>
      (\<exists>s\<in>set (regions a). s \<noteq> current_block a \<and> within r s)"
    using inv q(1) unfolding arena_inv_def by (meson le_trans le_add1)
  ultimately show ?thesis
    using inv q new by (auto simp: arena_inv_def b all_apart_append)
qed

lemma inv_large:
  assumes inv: "arena_inv m a live" and r: "\<forall>s\<in>m. apart (p, n) s" "p + n < 2 ^ 63" "0 < n" and k: "k \<le> n"
  shows "arena_inv (insert (p, n) m) (a\<lparr>ar_large := ar_large a @ [(p, n)]\<rparr>) (live @ [(p, k)])"
proof -
  let ?a = "a\<lparr>ar_large := ar_large a @ [(p, n)]\<rparr>"
  have b: "regions ?a = regions a @ [(p, n)]" "current_block ?a = current_block a"
    by (simp_all add: regions_def current_block_def)
  have cur: "current_block a \<in> set (regions a)" using inv by (simp add: arena_inv_def regions_def current_block_def)
  have in_m: "set (regions a) \<subseteq> m" using inv by (simp add: arena_inv_def)
  have far: "apart s (p, n)" if "s \<in> set (regions a)" for s using r(1) in_m that by (metis apart_sym subsetD)
  have ne: "(p, n) \<noteq> current_block a" using far [OF cur] r(3) by (cases "current_block a") (auto simp: apart_def)
  have new: "within (p, k) (p, n)" using k by (simp add: within_def)
  have "apart r (p, k)" if "r \<in> set live" for r
  proof -
    from inv that cur obtain s where "s \<in> set (regions a)" "within r s" unfolding arena_inv_def by blast
    with far new show ?thesis by (blast intro: within_apart)
  qed
  then show ?thesis
    using inv r far ne new in_m by (auto simp: arena_inv_def b all_apart_append)
qed

lemma inv_new_block:
  assumes inv: "arena_inv m a live" and r: "\<forall>s\<in>m. apart (p, ar_block_size a) s" "p + ar_block_size a < 2 ^ 63"
  shows "arena_inv (insert (p, ar_block_size a) m)
    (a\<lparr>ar_blocks := ar_blocks a @ [(p, ar_block_size a)], ar_ptr := p, ar_end := p + ar_block_size a\<rparr>) live"
proof -
  let ?n = "ar_block_size a"
  let ?a = "a\<lparr>ar_blocks := ar_blocks a @ [(p, ?n)], ar_ptr := p, ar_end := p + ?n\<rparr>"
  have b: "set (regions ?a) = insert (p, ?n) (set (regions a))" "current_block ?a = (p, ?n)"
    by (auto simp: regions_def current_block_def)
  have n: "0 < ?n" using inv by (simp add: arena_inv_def)
  have cur: "current_block a \<in> set (regions a)" using inv by (simp add: arena_inv_def regions_def current_block_def)
  have in_m: "set (regions a) \<subseteq> m" using inv by (simp add: arena_inv_def)
  have far: "apart (p, ?n) s" if "s \<in> set (regions a)" for s using r(1) in_m that by blast
  have ne: "s \<noteq> (p, ?n)" if "s \<in> set (regions a)" for s using far [OF that] n by (auto simp: apart_def)
  have "all_apart (regions ?a)" using inv far by (auto simp: arena_inv_def regions_def all_apart_append apart_sym)
  moreover have "\<forall>r\<in>set live. \<exists>s\<in>set (regions ?a). s \<noteq> (p, ?n) \<and> within r s"
    using inv cur ne unfolding arena_inv_def b by blast
  ultimately show ?thesis using inv r n in_m by (auto simp: arena_inv_def b)
qed

text \<open>Requests with a power of two as alignment, as \<^verbatim>\<open>memory_resource\<close> requires.\<close>

definition good_alignment :: "nat \<Rightarrow> bool" where
  "good_alignment al \<longleftrightarrow> (\<exists>k\<le>63. al = 2 ^ k)"

datatype arena_op = Allocate nat nat | Reset

definition arena_step :: "'w os \<Rightarrow> arena_op \<Rightarrow> arena \<times> region list \<times> 'w \<Rightarrow> arena \<times> region list \<times> 'w" where
  "arena_step os op s =
     (case s of (a, live, w) \<Rightarrow>
        (case op of
           Allocate n al \<Rightarrow>
             (case do_allocate os n al a w of
                (Inl e, a1, w1) \<Rightarrow> (a1, live, w1)
              | (Inr p, a1, w1) \<Rightarrow> (a1, live @ [(p, max 1 n)], w1))
         | Reset \<Rightarrow> (case arena_reset os a w of (a1, w1) \<Rightarrow> (a1, [], w1))))"

definition good_op :: "arena_op \<Rightarrow> bool" where
  "good_op op \<longleftrightarrow> (case op of Allocate n al \<Rightarrow> good_alignment al \<and> n + 8192 \<le> 2 ^ 64 | Reset \<Rightarrow> True)"

context page_mapper
begin

lemma map_pages_fresh:
  assumes "map_pages os n w = (Inr p, w')"
  shows "mapped w' = insert (p, n) (mapped w)" "\<forall>s\<in>mapped w. apart (p, n) s" "4096 dvd p" "p + n < 2 ^ 63"
  using assms mmap_fresh by (auto simp: map_pages_def split: prod.splits option.splits)

lemma map_pages_fails: "map_pages os n w = (Inl e, w') \<Longrightarrow> mapped w' = mapped w"
  using mmap_fails by (auto simp: map_pages_def split: prod.splits option.splits)

lemma large_alloc_inv:
  assumes inv: "arena_inv (mapped w) a live" and run: "large_alloc os needed a w = (r, a', w')"
    and n: "0 < k" "k \<le> needed" "needed + 4096 \<le> 2 ^ 64"
  shows "case r of Inl e \<Rightarrow> arena_inv (mapped w') a' live | Inr p \<Rightarrow> arena_inv (mapped w') a' (live @ [(p, k)]) \<and> 4096 dvd p"
proof -
  have le: "needed \<le> align_up needed 4096" using align_up_bounds(1) [of needed 12] n(3) by simp
  obtain rp w1 where m: "map_pages os (align_up needed 4096) w = (rp, w1)" by fastforce
  show ?thesis
  proof (cases rp)
    case (Inl e)
    with m run inv map_pages_fails [of _ w e w1] show ?thesis by (auto simp: large_alloc_def)
  next
    case (Inr p)
    note f = map_pages_fresh [OF m [unfolded Inr]]
    from inv_large [OF inv f(2,4), of k] n le m run f Inr show ?thesis by (auto simp: large_alloc_def)
  qed
qed

lemma new_block_inv:
  assumes inv: "arena_inv (mapped w) a live" and run: "allocate_new_block os a w = (e, a', w')"
  shows "arena_inv (mapped w') a' live" "e = None \<Longrightarrow> 4096 dvd ar_ptr a' \<and> ar_end a' = ar_ptr a' + ar_block_size a \<and> ar_ptr a' + ar_block_size a < 2 ^ 63"
proof -
  obtain rp w1 where m: "map_pages os (ar_block_size a) w = (rp, w1)" by fastforce
  have "arena_inv (mapped w') a' live \<and> (e = None \<longrightarrow> 4096 dvd ar_ptr a' \<and> ar_end a' = ar_ptr a' + ar_block_size a \<and> ar_ptr a' + ar_block_size a < 2 ^ 63)"
  proof (cases rp)
    case (Inl x)
    with m run inv map_pages_fails [of _ w x w1] show ?thesis by (auto simp: allocate_new_block_def)
  next
    case (Inr p)
    note f = map_pages_fresh [OF m [unfolded Inr]]
    from inv_new_block [OF inv f(2,4)] m run f Inr show ?thesis by (auto simp: allocate_new_block_def)
  qed
  then show "arena_inv (mapped w') a' live"
    "e = None \<Longrightarrow> 4096 dvd ar_ptr a' \<and> ar_end a' = ar_ptr a' + ar_block_size a \<and> ar_ptr a' + ar_block_size a < 2 ^ 63"
    by blast+
qed

lemma do_allocate_inv:
  assumes inv: "arena_inv (mapped w) a live" and run: "do_allocate os n al a w = (r, a', w')"
    and al: "good_alignment al" and n: "n + 8192 \<le> 2 ^ 64"
  shows "case r of Inl e \<Rightarrow> arena_inv (mapped w') a' live
    | Inr p \<Rightarrow> arena_inv (mapped w') a' (live @ [(p, max 1 n)]) \<and> (al \<le> 4096 \<longrightarrow> al dvd p)"
proof -
  define bytes where "bytes = (if n = 0 then 1 else n)"
  have b: "bytes = max 1 n" "0 < bytes" by (simp_all add: bytes_def)
  from al obtain k where k: "k \<le> 63" "al = 2 ^ k" by (auto simp: good_alignment_def)
  have page: "al dvd p" if "al \<le> 4096" "4096 dvd p" for p
  proof -
    have "k \<le> 12" using that(1) k(2) power_le_imp_le_exp [of "2 :: nat" k 12] by simp
    with k(2) le_imp_power_dvd [of k 12 "2 :: nat"] that(2) show ?thesis by (auto intro: dvd_trans)
  qed
  have al63: "al \<le> 2 ^ 63" using k power_increasing [of k 63 "2 :: nat"] by simp
  note big = large_alloc_inv [OF inv]
  consider "32 * 1024 \<le> bytes" | "bytes < 32 * 1024" "align_up (ar_ptr a) al + bytes \<le> ar_end a"
    | "bytes < 32 * 1024" "ar_end a < align_up (ar_ptr a) al + bytes" "ar_block_size a < bytes + al"
    | "bytes < 32 * 1024" "ar_end a < align_up (ar_ptr a) al + bytes" "bytes + al \<le> ar_block_size a"
    by linarith
  then show ?thesis
  proof cases
    case 1
    with run have "large_alloc os bytes a w = (r, a', w')" by (simp add: do_allocate_def bytes_def Let_def)
    from big [OF this, of bytes] n b(2) have "case r of Inl e \<Rightarrow> arena_inv (mapped w') a' live
        | Inr p \<Rightarrow> arena_inv (mapped w') a' (live @ [(p, bytes)]) \<and> 4096 dvd p"
      by (simp add: bytes_def)
    with page show ?thesis unfolding b(1) by (auto split: sum.splits)
  next
    case 2
    have "ar_ptr a < 2 ^ 63" using inv_end [OF inv] by linarith
    then have "ar_ptr a + 2 ^ k \<le> 2 ^ 64" using al63 k by simp
    note up = align_up_bounds [OF this, folded k(2)]
    from 2 run have "r = Inr (align_up (ar_ptr a) al)" "a' = a\<lparr>ar_ptr := align_up (ar_ptr a) al + bytes\<rparr>" "w' = w"
      by (auto simp: do_allocate_def bytes_def Let_def)
    with inv_bump [OF inv up(1) 2(2)] up(3) b show ?thesis by simp
  next
    case 3
    with run have "large_alloc os (bytes + al) a w = (r, a', w')" by (simp add: do_allocate_def bytes_def Let_def)
    from big [OF this, of bytes] b(2) al63 3(1) have "case r of Inl e \<Rightarrow> arena_inv (mapped w') a' live
        | Inr p \<Rightarrow> arena_inv (mapped w') a' (live @ [(p, bytes)]) \<and> 4096 dvd p"
      by simp
    with page show ?thesis unfolding b(1) by (auto split: sum.splits)
  next
    case 4
    obtain e a1 w1 where nb: "allocate_new_block os a w = (e, a1, w1)" by (metis prod_cases3)
    note new = new_block_inv [OF inv nb]
    show ?thesis
    proof (cases e)
      case (Some x)
      with 4 run nb new(1) show ?thesis by (auto simp: do_allocate_def bytes_def Let_def)
    next
      case None
      note at = new(2) [OF None]
      then have "ar_ptr a1 + 2 ^ k \<le> 2 ^ 64" using al63 k by simp
      note up = align_up_bounds [OF this, folded k(2)]
      have "align_up (ar_ptr a1) al + bytes \<le> ar_end a1" using up(2) at 4(3) by simp
      note bump = inv_bump [OF new(1) up(1) this]
      from 4 run nb None have "r = Inr (align_up (ar_ptr a1) al)" "a' = a1\<lparr>ar_ptr := align_up (ar_ptr a1) al + bytes\<rparr>" "w' = w1"
        by (auto simp: do_allocate_def bytes_def Let_def)
      with bump up(3) b show ?thesis by simp
    qed
  qed
qed

lemma mapped_unmap_all: "mapped (unmap_all os rs w) = mapped w - set rs"
  by (induction rs arbitrary: w) (auto simp: unmap_all_def munmap)

lemma reset_inv:
  assumes inv: "arena_inv (mapped w) a live" and run: "arena_reset os a w = (a', w')"
  shows "arena_inv (mapped w') a' []"
proof -
  obtain b bs where blocks: "ar_blocks a = b # bs" using inv by (cases "ar_blocks a") (auto simp: arena_inv_def)
  have b: "b \<in> mapped w" "0 < snd b" "fst b + snd b < 2 ^ 63" "4096 \<le> ar_block_size a"
    and far: "\<forall>s\<in>set (bs @ ar_large a). apart b s"
    using inv by (auto simp: arena_inv_def regions_def blocks)
  have "\<not> apart b b" using b(2) by (simp add: apart_def)
  with far have "b \<notin> set (bs @ ar_large a)" by blast
  with b run show ?thesis
    by (auto simp: arena_reset_def blocks Let_def arena_inv_def regions_def current_block_def mapped_unmap_all)
qed

lemma arena_new_inv:
  assumes "arena_new os bs w = (None, a, w')"
  shows "arena_inv (mapped w') a []"
proof -
  let ?n = "max bs 4096"
  obtain rp w1 where m: "map_pages os ?n w = (rp, w1)" by fastforce
  with assms obtain p where p: "rp = Inr p" and a: "w' = w1"
    "a = \<lparr>ar_block_size = ?n, ar_ptr = p, ar_end = p + ?n, ar_blocks = [(p, ?n)], ar_large = []\<rparr>"
    by (cases rp) (auto simp: arena_new_def allocate_new_block_def)
  note f = map_pages_fresh [OF m [unfolded p]]
  show ?thesis using f by (simp add: a arena_inv_def regions_def current_block_def)
qed

lemma arena_run_inv:
  "\<forall>op\<in>set ops. good_op op \<Longrightarrow> arena_inv (mapped w) a live \<Longrightarrow> fold (arena_step os) ops (a, live, w) = (a', live', w') \<Longrightarrow>
     arena_inv (mapped w') a' live'"
proof (induction ops arbitrary: a live w)
  case (Cons op ops)
  obtain a1 live1 w1 where step: "arena_step os op (a, live, w) = (a1, live1, w1)" by (metis prod_cases3)
  have "arena_inv (mapped w1) a1 live1"
  proof (cases op)
    case Reset
    with step reset_inv [OF Cons.prems(2)] show ?thesis by (auto simp: arena_step_def split: prod.splits)
  next
    case (Allocate n al)
    obtain r a2 w2 where d: "do_allocate os n al a w = (r, a2, w2)" by (metis prod_cases3)
    from Allocate Cons.prems(1) have "good_alignment al" "n + 8192 \<le> 2 ^ 64" by (auto simp: good_op_def)
    from do_allocate_inv [OF Cons.prems(2) d this] step Allocate d show ?thesis
      by (auto simp: arena_step_def split: sum.splits)
  qed
  with Cons step show ?case by auto
qed simp

end

text \<open>
  C22: Whatever allocations, of any size with any power of two as alignment, and whatever resets a connection makes,
  the memory handed out since the last reset lies in mapped pages and no two allocations overlap; the next one
  is aligned as requested when the alignment is at most a page. Larger alignments are not always met:
  \<open>arena_overaligned_request_misaligned\<close>. Sizes leave room below \<open>2 ^ 64\<close> for rounding up.
\<close>

theorem arena_allocations_disjoint:
  assumes os: "page_mapper os mapped" and new: "arena_new os block_size w = (None, a0, w0)"
    and ops: "\<forall>op\<in>set ops. good_op op" and run: "fold (arena_step os) ops (a0, [], w0) = (a, live, w1)"
  shows "all_apart live \<and> (\<forall>r\<in>set live. \<exists>s\<in>mapped w1. within r s) \<and>
    (\<forall>n al p a' w'. good_op (Allocate n al) \<and> al \<le> 4096 \<and> do_allocate os n al a w1 = (Inr p, a', w') \<longrightarrow> al dvd p)"
proof -
  have inv: "arena_inv (mapped w1) a live"
    by (rule page_mapper.arena_run_inv [OF os ops page_mapper.arena_new_inv [OF os new] run])
  have "current_block a \<in> set (regions a)" "set (regions a) \<subseteq> mapped w1"
    using inv by (simp_all add: arena_inv_def regions_def current_block_def)
  then have "\<forall>r\<in>set live. \<exists>s\<in>mapped w1. within r s" using inv unfolding arena_inv_def by blast
  moreover have "all_apart live" using inv by (simp add: arena_inv_def)
  moreover have "al dvd p" if "good_op (Allocate n al)" "al \<le> 4096" "do_allocate os n al a w1 = (Inr p, a', w')" for n al p a' w'
    using page_mapper.do_allocate_inv [OF os inv that(3)] that(1,2) by (simp add: good_op_def)
  ultimately show ?thesis by blast
qed

text \<open>An operating system that maps upwards and never reuses addresses.\<close>

definition demo_os :: "(nat \<times> region set) os" where
  "demo_os = \<lparr>os_mmap = (\<lambda>n (q, m). if 4096 * q + n < 2 ^ 63 \<and> 0 < n
       then (Some (4096 * q), q + n div 4096 + 1, insert (4096 * q, n) {r \<in> m. fst r + snd r \<le> 4096 * q})
       else (None, q, m)),
     os_munmap = (\<lambda>r (q, m). (q, m - {r}))\<rparr>"

text \<open>Regions above the frontier do not count as mapped.\<close>

definition demo_mapped :: "nat \<times> region set \<Rightarrow> region set" where
  "demo_mapped s = {r \<in> snd s. fst r + snd r \<le> 4096 * fst s}"

interpretation demo_pages: page_mapper demo_os demo_mapped
proof unfold_locales
  fix n p r and w w' :: "nat \<times> region set"
  obtain q m where w: "w = (q, m)" by (cases w)
  have up: "4096 * q + n \<le> 4096 * (q + n div 4096 + 1)" by (simp add: algebra_simps)
  show "demo_mapped w' = insert (p, n) (demo_mapped w) \<and> (\<forall>r\<in>demo_mapped w. apart (p, n) r) \<and> 4096 dvd p \<and> p + n < 2 ^ 63"
    if "os_mmap demo_os n w = (Some p, w')"
    using that up by (auto simp: demo_os_def demo_mapped_def w apart_def split: if_splits)
  show "demo_mapped w' = demo_mapped w" if "os_mmap demo_os n w = (None, w')"
    using that by (auto simp: demo_os_def w split: if_splits)
  show "demo_mapped (os_munmap demo_os r w) = demo_mapped w - {r}"
    by (auto simp: demo_os_def demo_mapped_def w)
qed

theorem arena_allocations_disjoint_witness:
  "\<exists>a0 w0. arena_new demo_os 0 (1, {}) = (None, a0, w0) \<and>
     all_apart (fst (snd (fold (arena_step demo_os) [Allocate 10 8, Allocate 0 8192, Reset, Allocate 40000 1, Allocate 3 2] (a0, [], w0))))"
proof -
  obtain a0 w0 where new: "arena_new demo_os 0 (1, {}) = (None, a0, w0)"
    by (simp add: arena_new_def allocate_new_block_def map_pages_def demo_os_def)
  let ?ops = "[Allocate 10 8, Allocate 0 8192, Reset, Allocate 40000 1, Allocate 3 2]"
  have pow: "good_alignment (2 ^ k)" if "k \<le> 63" for k using that by (auto simp: good_alignment_def)
  from pow [of 3] pow [of 13] pow [of 0] pow [of 1]
  have ops: "\<forall>op\<in>set ?ops. good_op op" by (simp add: good_op_def)
  obtain a live w1 where run: "fold (arena_step demo_os) ?ops (a0, [], w0) = (a, live, w1)" by (metis prod_cases3)
  from arena_allocations_disjoint [OF demo_pages.page_mapper_axioms new ops run] new run show ?thesis by auto
qed

text \<open>
  Memory from the dedicated mapping starts at a page whatever the alignment asked for, although room for
  aligning it was added.
\<close>

lemma arena_overaligned_request_misaligned:
  "\<exists>p a' w'. do_allocate demo_os 100 8192 \<lparr>ar_block_size = 4096, ar_ptr = 8000, ar_end = 8192, ar_blocks = [(4096, 4096)], ar_large = []\<rparr>
      (3, {}) = (Inr p, a', w') \<and> \<not> 8192 dvd p"
proof -
  have "align_up 8000 8192 = 8192" using align_up_pow2 [of 8000 13] by simp
  moreover have "align_up 8292 4096 = 12288" using align_up_pow2 [of 8292 12] by simp
  ultimately show ?thesis by (simp add: do_allocate_def large_alloc_def map_pages_def demo_os_def Let_def)
qed

section \<open>The pool as a state machine\<close>

text \<open>The free list in memory.\<close>

fun chain :: "(nat \<Rightarrow> nat option) \<Rightarrow> nat option \<Rightarrow> nat list \<Rightarrow> bool" where
  "chain mem head [] \<longleftrightarrow> head = None"
| "chain mem head (p # ps) \<longleftrightarrow> head = Some p \<and> chain mem (mem p) ps"

lemma chain_update: "p \<notin> set ps \<Longrightarrow> chain (mem(p := v)) head ps = chain mem head ps"
  by (induction ps arbitrary: head) auto

definition slots :: "nat \<Rightarrow> nat \<Rightarrow> nat \<Rightarrow> nat list" where
  "slots storage slot_size n = map (\<lambda>i. storage + i * slot_size) [0..<n]"

lemma build_free_list_chain:
  assumes "0 < slot_size"
  shows "chain mem head fs \<Longrightarrow> set fs \<inter> set (slots storage slot_size n) = {} \<Longrightarrow>
    build_free_list storage slot_size head mem n = (head', mem') \<Longrightarrow> chain mem' head' (slots storage slot_size n @ fs)"
proof (induction n arbitrary: mem head fs)
  case 0
  then show ?case by (simp add: slots_def)
next
  case (Suc n)
  let ?p = "storage + n * slot_size"
  have s: "slots storage slot_size (Suc n) = slots storage slot_size n @ [?p]" by (simp add: slots_def)
  have new: "?p \<notin> set (slots storage slot_size n)" using assms by (auto simp: slots_def)
  have c: "chain (mem(?p := head)) (Some ?p) (?p # fs)" using Suc.prems(1,2) s by (simp add: chain_update)
  have d: "set (?p # fs) \<inter> set (slots storage slot_size n) = {}" using Suc.prems(2) s new by auto
  have "chain mem' head' (slots storage slot_size n @ ?p # fs)" using Suc.prems(3) by (intro Suc.IH [OF c d]) (simp only: build_free_list.simps)
  then show ?case by (simp add: s)
qed

text \<open>
  Clients hold the slots \<open>used\<close>; they write to them, and give back only what they hold. A slot whose
  constructor threw is in use although no client has it.
\<close>

inductive pool_step :: "pool \<times> nat list \<Rightarrow> pool \<times> nat list \<Rightarrow> bool" where
  allocated: "pool_allocate pl = (Some p, pl') \<Longrightarrow> pool_step (pl, used) (pl', p # used)"
| exhausted: "pool_allocate pl = (None, pl') \<Longrightarrow> pool_step (pl, used) (pl', used)"
| constructed: "pool_construct ctor pl = (Inr (Some p), pl') \<Longrightarrow> pool_step (pl, used) (pl', p # used)"
| construct_exhausted: "pool_construct ctor pl = (Inr None, pl') \<Longrightarrow> pool_step (pl, used) (pl', used)"
| construct_thrown: "pool_construct ctor pl = (Inl e, pl') \<Longrightarrow> fst (pool_allocate pl) = Some p \<Longrightarrow> pool_step (pl, used) (pl', p # used)"
| deallocated: "p \<in> set used \<Longrightarrow> pool_step (pl, used) (pool_deallocate p pl, remove1 p used)"
| written: "p \<in> set used \<Longrightarrow> pool_step (pl, used) (pl\<lparr>pl_next := (pl_next pl)(p := v)\<rparr>, used)"

inductive_cases pool_stepE: "pool_step (pl, used) s'"

definition pool_wf :: "nat \<Rightarrow> pool \<Rightarrow> nat list \<Rightarrow> bool" where
  "pool_wf slot_size pl used \<longleftrightarrow>
     (\<exists>free. chain (pl_next pl) (pl_free_head pl) free \<and> distinct (free @ used) \<and>
        set free \<union> set used = set (slots (pl_storage pl) slot_size (pl_capacity pl))) \<and>
     pl_in_use pl = length used"

lemma pool_wf_allocate:
  assumes "pool_wf n pl used" "pool_allocate pl = (Some p, pl')"
  shows "pool_wf n pl' (p # used)"
proof -
  from assms obtain free where f: "chain (pl_next pl) (Some p) free" "distinct (free @ used)"
    "set free \<union> set used = set (slots (pl_storage pl) n (pl_capacity pl))" "pl_in_use pl = length used"
    and pl': "pl' = pl\<lparr>pl_free_head := pl_next pl p, pl_in_use := Suc (pl_in_use pl)\<rparr>"
    by (auto simp: pool_wf_def pool_allocate_def split: option.splits)
  then obtain fs where "free = p # fs" "chain (pl_next pl) (pl_next pl p) fs" by (cases free) auto
  with f show ?thesis by (auto simp: pool_wf_def pl' intro!: exI [of _ fs])
qed

lemma pool_wf_write:
  assumes "pool_wf n pl used" "p \<in> set used"
  shows "pool_wf n (pl\<lparr>pl_next := (pl_next pl)(p := v)\<rparr>) used"
proof -
  from assms(1) obtain free where f: "chain (pl_next pl) (pl_free_head pl) free" "distinct (free @ used)"
    "set free \<union> set used = set (slots (pl_storage pl) n (pl_capacity pl))" "pl_in_use pl = length used"
    by (auto simp: pool_wf_def)
  moreover have "p \<notin> set free" using f(2) assms(2) by auto
  then have "chain ((pl_next pl)(p := v)) (pl_free_head pl) free" using f(1) by (simp add: chain_update)
  ultimately show ?thesis unfolding pool_wf_def by auto
qed

lemma pool_wf_deallocate:
  assumes "pool_wf n pl used" "p \<in> set used"
  shows "pool_wf n (pool_deallocate p pl) (remove1 p used)"
proof -
  from assms(1) obtain free where f: "chain (pl_next pl) (pl_free_head pl) free" "distinct (free @ used)"
    "set free \<union> set used = set (slots (pl_storage pl) n (pl_capacity pl))" "pl_in_use pl = length used"
    by (auto simp: pool_wf_def)
  have "p \<notin> set free" using f(2) assms(2) by auto
  then have "chain ((pl_next pl)(p := pl_free_head pl)) (Some p) (p # free)" using f(1) by (simp add: chain_update)
  moreover have "distinct ((p # free) @ remove1 p used)" "set (p # free) \<union> set (remove1 p used) = set free \<union> set used"
    using f(2) assms(2) by (auto simp: distinct_remove1 set_remove1_eq)
  ultimately show ?thesis
    using f(3,4) assms(2) by (auto simp: pool_wf_def pool_deallocate_def length_remove1 intro!: exI [of _ "p # free"])
qed

lemma pool_step_wf: "pool_step (pl, used) (pl', used') \<Longrightarrow> pool_wf n pl used \<Longrightarrow> pool_wf n pl' used'"
proof (erule pool_stepE, goal_cases)
  case (1 p pl1)
  then show ?case by (auto intro: pool_wf_allocate)
next
  case (2 pl1)
  then show ?case by (auto simp: pool_allocate_def split: option.splits)
next
  case (3 ctor p pl1)
  then obtain pl2 v where "pool_allocate pl = (Some p, pl2)" "pl1 = pl2\<lparr>pl_next := (pl_next pl2)(p := v)\<rparr>"
    by (auto simp: pool_construct_def split: prod.splits option.splits sum.splits)
  with 3 show ?case using pool_wf_write [OF pool_wf_allocate, of n pl used p pl2 p v] by simp
next
  case (4 ctor pl1)
  then show ?case by (auto simp: pool_construct_def pool_allocate_def split: prod.splits option.splits sum.splits)
next
  case (5 ctor e pl1 p)
  then have "pool_allocate pl = (Some p, pl1)"
    by (auto simp: pool_construct_def split: prod.splits option.splits sum.splits)
  with 5 show ?case by (auto intro: pool_wf_allocate)
next
  case (6 p)
  then show ?case by (auto intro: pool_wf_deallocate)
next
  case (7 p v)
  then show ?case by (auto intro: pool_wf_write)
qed

lemma pool_run_wf: "pool_step\<^sup>*\<^sup>* s s' \<Longrightarrow> pool_wf n (fst s) (snd s) \<Longrightarrow> pool_wf n (fst s') (snd s')"
  by (induction rule: rtranclp_induct) (auto dest: pool_step_wf)

lemma pool_step_geometry:
  "pool_step s s' \<Longrightarrow> pl_storage (fst s') = pl_storage (fst s) \<and> pl_capacity (fst s') = pl_capacity (fst s) \<and>
     pl_storage_size (fst s') = pl_storage_size (fst s)"
  by (induction rule: pool_step.induct)
     (auto simp: pool_allocate_def pool_construct_def pool_deallocate_def split: option.splits sum.splits prod.splits)

lemma pool_run_geometry:
  "pool_step\<^sup>*\<^sup>* s s' \<Longrightarrow> pl_storage (fst s') = pl_storage (fst s) \<and> pl_capacity (fst s') = pl_capacity (fst s) \<and>
     pl_storage_size (fst s') = pl_storage_size (fst s)"
  by (induction rule: rtranclp_induct) (auto dest: pool_step_geometry)

lemma pool_new_wf:
  assumes "pool_new os n cap mem w = (Inr pl, w')" "0 < n"
  shows "pool_wf n pl []" "pl_capacity pl = cap" "pl_storage_size pl = align_up (n * cap mod 2 ^ 64) 4096"
proof -
  obtain p head mem' where b: "build_free_list p n None mem cap = (head, mem')"
    and pl: "pl = \<lparr>pl_storage = p, pl_storage_size = align_up (n * cap mod 2 ^ 64) 4096, pl_capacity = cap, pl_in_use = 0,
                   pl_free_head = head, pl_next = mem'\<rparr>"
    using assms(1) by (auto simp: pool_new_def Let_def split: prod.splits sum.splits)
  have "chain mem' head (slots p n cap)" using build_free_list_chain [OF assms(2) _ _ b, of "[]"] by simp
  moreover have "distinct (slots p n cap)" using assms(2) by (auto simp: slots_def distinct_map inj_on_def)
  ultimately show "pool_wf n pl []" by (auto simp: pool_wf_def pl)
  show "pl_capacity pl = cap" "pl_storage_size pl = align_up (n * cap mod 2 ^ 64) 4096" by (simp_all add: pl)
qed

text \<open>
  C23: In every reachable state of a pool the slots in use are distinct slots of its storage, as many as the
  counter says and no more than the capacity; an allocation fails exactly when all are in use, and otherwise
  returns a slot inside the storage that nobody holds.
\<close>

theorem pool_well_formed:
  assumes new: "pool_new os slot_size capacity mem w = (Inr pl0, w0)" and size: "0 < slot_size" "slot_size * capacity + 4096 \<le> 2 ^ 64"
    and run: "pool_step\<^sup>*\<^sup>* (pl0, []) (pl, used)"
  shows "distinct used \<and> pl_in_use pl = length used \<and> length used \<le> capacity \<and>
    (fst (pool_allocate pl) = None \<longleftrightarrow> length used = capacity) \<and>
    (\<forall>p. fst (pool_allocate pl) = Some p \<longrightarrow> p \<notin> set used) \<and>
    (\<forall>p. p \<in> set used \<or> fst (pool_allocate pl) = Some p \<longrightarrow> within (p, slot_size) (pl_storage pl, pl_storage_size pl))"
proof -
  note n = pool_new_wf [OF new size(1)]
  have wf: "pool_wf slot_size pl used" using pool_run_wf [OF run] n(1) by simp
  have geo: "pl_capacity pl = capacity" "pl_storage_size pl = align_up (slot_size * capacity) 4096"
    using pool_run_geometry [OF run] n(2,3) size(2) by simp_all
  obtain free where f: "chain (pl_next pl) (pl_free_head pl) free" "distinct (free @ used)"
    "set free \<union> set used = set (slots (pl_storage pl) slot_size capacity)"
    using wf by (auto simp: pool_wf_def geo)
  have dslots: "distinct (slots (pl_storage pl) slot_size capacity)" using size(1) by (auto simp: slots_def distinct_map inj_on_def)
  have "length free + length used = capacity"
    using distinct_card [OF f(2)] distinct_card [OF dslots] f(3) by (simp add: slots_def)
  moreover have alloc: "fst (pool_allocate pl) = (case free of [] \<Rightarrow> None | p # _ \<Rightarrow> Some p)"
    using f(1) by (cases free) (auto simp: pool_allocate_def)
  moreover have "within (p, slot_size) (pl_storage pl, pl_storage_size pl)" if mem_p: "p \<in> set free \<union> set used" for p
  proof -
    have "slot_size * capacity \<le> align_up (slot_size * capacity) 4096"
      using align_up_bounds(1) [of "slot_size * capacity" 12] size(2) by simp
    moreover obtain i where i: "i < capacity" "p = pl_storage pl + i * slot_size"
      using mem_p unfolding f(3) by (auto simp: slots_def)
    moreover have "(i + 1) * slot_size \<le> capacity * slot_size" using i(1) by (intro mult_le_mono1) simp
    ultimately show ?thesis by (simp add: within_def geo(2) algebra_simps)
  qed
  ultimately show ?thesis using f(2) wf by (auto simp: pool_wf_def split: list.splits)
qed

theorem pool_well_formed_witness:
  "\<exists>pl0 w0 pl. pool_new demo_os 16 2 Map.empty (1, {}) = (Inr pl0, w0) \<and> pool_step\<^sup>*\<^sup>* (pl0, []) (pl, [4096]) \<and> pl_in_use pl = 1"
proof -
  have "align_up 32 4096 = 4096" using align_up_pow2 [of 32 12] by simp
  moreover obtain mem' where "build_free_list 4096 16 None Map.empty 2 = (Some 4096, mem')" by (simp add: numeral_2_eq_2)
  ultimately obtain pl0 w0 where new: "pool_new demo_os 16 2 Map.empty (1, {}) = (Inr pl0, w0)" and h: "pl_free_head pl0 = Some 4096"
    by (simp add: pool_new_def map_pages_def demo_os_def Let_def)
  obtain pl where a: "pool_allocate pl0 = (Some 4096, pl)" using h by (simp add: pool_allocate_def)
  then have run: "pool_step\<^sup>*\<^sup>* (pl0, []) (pl, [4096])" by (blast intro: r_into_rtranclp pool_step.allocated)
  from pool_well_formed [OF new _ _ run] new run show ?thesis by auto
qed

text \<open>A constructor that throws leaves its slot neither free nor held by anyone.\<close>

lemma pool_construct_leaks:
  assumes "pl_free_head pl = Some p"
  shows "\<exists>pl'. pool_construct (Inl e) pl = (Inl e, pl') \<and> pl_in_use pl' = Suc (pl_in_use pl)"
  using assms by (simp add: pool_construct_def pool_allocate_def)

end
