(* ===== verification/Rate_Limit.thy ===== *)
theory Rate_Limit
  imports Complex_Main Request_Pipeline Http_Filters Concurrency_Limit "HOL-Library.AList"
begin

text \<open>
  Rate limiting, \<^verbatim>\<open>src/middleware/rate_limit_middleware.cpp\<close>: the in-memory store with its four
  algorithms and the middleware that asks it.

  Time points and durations are integers in nanoseconds, the unit of \<^verbatim>\<open>steady_clock\<close>; a policy's window
  is in milliseconds, as in the code. Where the code computes in \<^verbatim>\<open>double\<close> (token counts and
  roundings to seconds) the model computes in exact rationals.
\<close>

section \<open>Policies and entries\<close>

datatype RateLimitAlgorithm = TokenBucket | FixedWindow | SlidingWindow | Gcra

record RateLimitPolicy =
  policy_name :: string
  policy_algorithm :: RateLimitAlgorithm
  policy_limit :: nat
  policy_window_ms :: int
  policy_burst :: nat

record RateLimitResult =
  rl_allowed :: bool
  rl_remaining :: nat
  retry_after :: int

datatype rl_state =
    TokenBucketState rat int
  | FixedWindowState int nat
  | SlidingWindowState "int list"
  | GcraState int

record rl_entry =
  entry_algorithm :: RateLimitAlgorithm
  entry_state :: rl_state
  entry_updated_at :: int

record RateLimit_StoreConfig =
  rl_max_keys :: nat
  idle_ttl :: int

type_synonym rl_entries = "(string \<times> rl_entry) list"

definition validate_policy :: "RateLimitPolicy \<Rightarrow> unit result" where
  "validate_policy p =
     (if policy_name p = [] \<or> policy_limit p = 0 \<or> policy_window_ms p \<le> 0
      then Inl (Invalid_argument ''Rate-limit policy requires a name, positive limit, and window'')
      else Inr ())"

definition InMemoryRateLimitStore_new :: "RateLimit_StoreConfig \<Rightarrow> rl_entries result" where
  "InMemoryRateLimitStore_new cfg =
     (if rl_max_keys cfg = 0 \<or> idle_ttl cfg \<le> 0
      then Inl (Invalid_argument ''In-memory rate-limit store requires positive key limit and idle TTL'')
      else Inr [])"

definition prune_idle :: "RateLimit_StoreConfig \<Rightarrow> int \<Rightarrow> rl_entries \<Rightarrow> rl_entries" where
  "prune_idle cfg now es =
     filter (\<lambda>(k, e). \<not> (now \<ge> entry_updated_at e \<and> now - entry_updated_at e \<ge> idle_ttl cfg)) es"

definition policy_window :: "RateLimitPolicy \<Rightarrow> int result" where
  "policy_window p =
     (case validate_policy p of
        Inl e \<Rightarrow> Inl e
      | Inr _ \<Rightarrow>
          let window = policy_window_ms p * 1000000
          in if window \<le> 0
             then Inl (Invalid_argument ''Rate-limit window is too small for the configured clock'')
             else Inr window)"

definition burst_capacity :: "RateLimitPolicy \<Rightarrow> nat" where
  "burst_capacity p = (if policy_burst p = 0 then policy_limit p else policy_burst p)"

definition seconds_of :: "int \<Rightarrow> rat" where
  "seconds_of d = of_int d / 1000000000"

definition ceil_seconds :: "int \<Rightarrow> int" where
  "ceil_seconds d = (if d \<le> 0 then 0 else min \<lceil>seconds_of d\<rceil> (2 ^ 63 - 1))"

section \<open>The four algorithms\<close>

definition granted :: "nat \<Rightarrow> RateLimitResult" where
  "granted n = \<lparr>rl_allowed = True, rl_remaining = n, retry_after = 0\<rparr>"

definition denied :: "int \<Rightarrow> RateLimitResult" where
  "denied t = \<lparr>rl_allowed = False, rl_remaining = 0, retry_after = t\<rparr>"

definition token_refill :: "nat \<Rightarrow> nat \<Rightarrow> int \<Rightarrow> int \<Rightarrow> rat \<Rightarrow> int \<Rightarrow> rat \<times> int" where
  "token_refill capacity limit window now tokens updated =
     (if now > updated then
        let elapsed = seconds_of (now - updated);
            refill_rate = of_nat limit / seconds_of window
        in (min (of_nat capacity) (tokens + elapsed * refill_rate), now)
      else (tokens, updated))"

definition token_take :: "nat \<Rightarrow> int \<Rightarrow> rat \<times> int \<Rightarrow> RateLimitResult \<times> rl_state" where
  "token_take limit window b =
     (case b of (tokens, updated) \<Rightarrow>
        if tokens < 1 then
          let refill_rate = of_nat limit / seconds_of window;
              wait = \<lfloor>(1 - tokens) / refill_rate * 1000000000\<rfloor>
          in (denied (ceil_seconds wait), TokenBucketState tokens updated)
        else (granted (nat \<lfloor>tokens - 1\<rfloor>), TokenBucketState (tokens - 1) updated))"

definition acquire_token_bucket :: "RateLimitPolicy \<Rightarrow> int \<Rightarrow> rl_state \<Rightarrow> RateLimitResult result \<times> rl_state" where
  "acquire_token_bucket p now st =
     (case policy_window p of
        Inl e \<Rightarrow> (Inl e, st)
      | Inr window \<Rightarrow>
          let capacity = burst_capacity p;
              bucket = (case st of
                  TokenBucketState tokens updated \<Rightarrow> (tokens, updated)
                | _ \<Rightarrow> (of_nat capacity, now));
              (r, st') = token_take (policy_limit p) window
                (case bucket of (tokens, updated) \<Rightarrow>
                   token_refill capacity (policy_limit p) window now tokens updated)
          in (Inr r, st'))"

definition acquire_fixed_window :: "RateLimitPolicy \<Rightarrow> int \<Rightarrow> rl_state \<Rightarrow> RateLimitResult result \<times> rl_state" where
  "acquire_fixed_window p now st =
     (case policy_window p of
        Inl e \<Rightarrow> (Inl e, st)
      | Inr window \<Rightarrow>
          let (started, used) = (case st of FixedWindowState s u \<Rightarrow> (s, u) | _ \<Rightarrow> (now, 0));
              (started, used) = (if now \<ge> started \<and> now - started \<ge> window then (now, 0) else (started, used))
          in if used \<ge> policy_limit p
             then (Inr (denied (ceil_seconds (window - (now - started)))), FixedWindowState started used)
             else (Inr (granted (policy_limit p - (used + 1))), FixedWindowState started (used + 1)))"

definition acquire_sliding_window :: "RateLimitPolicy \<Rightarrow> int \<Rightarrow> rl_state \<Rightarrow> RateLimitResult result \<times> rl_state" where
  "acquire_sliding_window p now st =
     (case policy_window p of
        Inl e \<Rightarrow> (Inl e, st)
      | Inr window \<Rightarrow>
          let requests = (case st of SlidingWindowState rs \<Rightarrow> rs | _ \<Rightarrow> []);
              requests = dropWhile (\<lambda>r. now \<ge> r \<and> now - r \<ge> window) requests
          in if length requests \<ge> policy_limit p
             then (Inr (denied (ceil_seconds (hd requests + window - now))), SlidingWindowState requests)
             else (Inr (granted (policy_limit p - (length requests + 1))),
                   SlidingWindowState (requests @ [now])))"

definition acquire_gcra :: "RateLimitPolicy \<Rightarrow> int \<Rightarrow> rl_state \<Rightarrow> RateLimitResult result \<times> rl_state" where
  "acquire_gcra p now st =
     (case policy_window p of
        Inl e \<Rightarrow> (Inl e, st)
      | Inr window \<Rightarrow>
          let interval = window div int (policy_limit p)
          in if interval \<le> 0
             then (Inl (Invalid_argument ''GCRA interval is too small for the configured policy''), st)
             else
               let burst = burst_capacity p;
                   tolerance = interval * int (burst - 1);
                   tat = (case st of GcraState t \<Rightarrow> t | _ \<Rightarrow> now);
                   allowed_at = tat - tolerance
               in if now < allowed_at
                  then (Inr (denied (ceil_seconds (allowed_at - now))), GcraState tat)
                  else
                    let tat' = max tat now + interval;
                        debt = (if tat' > now then tat' - now else 0);
                        used = nat \<lceil>seconds_of debt / seconds_of interval\<rceil>
                    in (Inr (granted (if burst > used then burst - used else 0)), GcraState tat'))"

fun acquire_state :: "RateLimitAlgorithm \<Rightarrow> RateLimitPolicy \<Rightarrow> int \<Rightarrow> rl_state \<Rightarrow> RateLimitResult result \<times> rl_state" where
  "acquire_state TokenBucket p now st = acquire_token_bucket p now st"
| "acquire_state FixedWindow p now st = acquire_fixed_window p now st"
| "acquire_state SlidingWindow p now st = acquire_sliding_window p now st"
| "acquire_state Gcra p now st = acquire_gcra p now st"

section \<open>The store\<close>

definition normalized_key :: "RateLimitPolicy \<Rightarrow> string \<Rightarrow> string" where
  "normalized_key p key =
     to_string_nat (length (policy_name p)) @ '':'' @ policy_name p @
       (if key = [] then ''anonymous'' else key)"

definition fresh_entry :: "RateLimitPolicy \<Rightarrow> int \<Rightarrow> rl_entry" where
  "fresh_entry p now = \<lparr>entry_algorithm = policy_algorithm p, entry_state = TokenBucketState 0 0,
     entry_updated_at = now\<rparr>"

definition acquire_entry ::
    "RateLimitPolicy \<Rightarrow> int \<Rightarrow> string \<Rightarrow> rl_entry \<Rightarrow> rl_entries \<Rightarrow> RateLimitResult result \<times> rl_entries" where
  "acquire_entry p now nk e es =
     (let st = (if entry_algorithm e \<noteq> policy_algorithm p then TokenBucketState 0 0 else entry_state e);
          (r, st') = acquire_state (policy_algorithm p) p now st
      in (r, AList.update nk \<lparr>entry_algorithm = policy_algorithm p, entry_state = st',
               entry_updated_at = now\<rparr> es))"

definition acquire ::
    "RateLimit_StoreConfig \<Rightarrow> string \<Rightarrow> RateLimitPolicy \<Rightarrow> int \<Rightarrow> rl_entries \<Rightarrow> RateLimitResult result \<times> rl_entries" where
  "acquire cfg key p now es =
     (case validate_policy p of
        Inl e \<Rightarrow> (Inl e, es)
      | Inr _ \<Rightarrow>
          let nk = normalized_key p key
          in case map_of es nk of
               Some e \<Rightarrow> acquire_entry p now nk e es
             | None \<Rightarrow>
                 let es' = (if length es \<ge> rl_max_keys cfg then prune_idle cfg now es else es)
                 in if length es' \<ge> rl_max_keys cfg then (Inr (denied 1), es')
                    else acquire_entry p now nk (fresh_entry p now) es')"

section \<open>The middleware\<close>

text \<open>
  The store is an interface (\<^verbatim>\<open>RateLimitStore\<close>), so the handler takes the store's \<^verbatim>\<open>acquire\<close> and the
  store's state as arguments. The clock is read once per request.
\<close>

record RateLimit_Config =
  rl_policy :: RateLimitPolicy
  rl_key_resolver :: "(request \<Rightarrow> request_context \<Rightarrow> string) option"
  rl_allowlist_paths :: "string list"
  rl_max_key_length :: nat
  rl_rejected_status :: int
  rl_rejected_body :: string

record 'st rate_exchange = exchange +
  rl_store :: 'st
  rl_clock :: int

type_synonym 'st rate_acquire = "string \<Rightarrow> RateLimitPolicy \<Rightarrow> int \<Rightarrow> 'st \<Rightarrow> RateLimitResult result \<times> 'st"

definition authenticated_principal_key :: "request \<Rightarrow> request_context \<Rightarrow> string" where
  "authenticated_principal_key req ctx =
     (case get_jwt ctx of
        Some jwt \<Rightarrow> if jwt_subject jwt \<noteq> [] then ''jwt:'' @ jwt_subject jwt
                    else (case get_session ctx of
                            Some s \<Rightarrow> if sp_subject s \<noteq> [] then ''session:'' @ sp_subject s else ''anonymous''
                          | None \<Rightarrow> ''anonymous'')
      | None \<Rightarrow> (case get_session ctx of
                   Some s \<Rightarrow> if sp_subject s \<noteq> [] then ''session:'' @ sp_subject s else ''anonymous''
                 | None \<Rightarrow> ''anonymous''))"

definition RateLimit_new :: "RateLimit_Config \<Rightarrow> RateLimit_Config result" where
  "RateLimit_new cfg =
     (case validate_policy (rl_policy cfg) of
        Inl e \<Rightarrow> Inl e
      | Inr _ \<Rightarrow>
          if rl_key_resolver cfg = None \<or> rl_max_key_length cfg = 0
          then Inl (Invalid_argument ''Rate limiting requires a key resolver and positive key length'')
          else Inr cfg)"

definition publish_headers :: "RateLimit_Config \<Rightarrow> RateLimitResult \<Rightarrow> response \<Rightarrow> response" where
  "publish_headers cfg r res =
     (let res1 = Response_header res ''ratelimit-limit'' (to_string_nat (policy_limit (rl_policy cfg)));
          res2 = Response_header res1 ''ratelimit-remaining'' (to_string_nat (rl_remaining r))
      in if \<not> rl_allowed r then
           Response_header (Response_header res2 ''ratelimit-reset'' (to_string_int (retry_after r)))
             ''retry-after'' (to_string_int (retry_after r))
         else res2)"

definition rl_key :: "RateLimit_Config \<Rightarrow> request \<Rightarrow> request_context \<Rightarrow> string" where
  "rl_key cfg req ctx =
     (let key = (case rl_key_resolver cfg of Some f \<Rightarrow> f req ctx | None \<Rightarrow> [])
      in if key = [] then ''anonymous'' else key)"

definition rl_key_too_long_json :: string where
  "rl_key_too_long_json = ''{'' @ quoted ''error'' @ '':'' @ quoted ''Bad Request'' @ '','' @
     quoted ''message'' @ '':'' @ quoted ''Rate limit key is too long'' @ ''}''"

definition RateLimit_handle ::
    "'st rate_acquire \<Rightarrow> RateLimit_Config \<Rightarrow> ('st, 'z) rate_exchange_scheme middleware" where
  "RateLimit_handle acq cfg next s =
     (if path_allowed (req_path (ex_req s)) (rl_allowlist_paths cfg) then next s
      else let key = rl_key cfg (ex_req s) (ex_ctx s)
      in if length key > rl_max_key_length cfg
         then (None, set_res s (Response_json (Response_status (ex_res s) 400) rl_key_too_long_json))
      else case acq key (rl_policy cfg) (rl_clock s) (rl_store s) of
             (Inl e, st) \<Rightarrow> (Some e, s\<lparr>rl_store := st\<rparr>)
           | (Inr r, st) \<Rightarrow>
               let s1 = set_res (s\<lparr>rl_store := st\<rparr>) (publish_headers cfg r (ex_res s))
               in if \<not> rl_allowed r
                  then (None, set_res s1 (Response_json (Response_status (ex_res s1) (rl_rejected_status cfg))
                          (rl_rejected_body cfg)))
                  else next s1)"

definition RateLimit_decide ::
    "'st rate_acquire \<Rightarrow> RateLimit_Config \<Rightarrow> ('st, 'z) rate_exchange_scheme \<Rightarrow>
     ('st, 'z) rate_exchange_scheme + (exn option \<times> ('st, 'z) rate_exchange_scheme)" where
  "RateLimit_decide acq cfg s =
     (if path_allowed (req_path (ex_req s)) (rl_allowlist_paths cfg) then Inl s
      else let key = rl_key cfg (ex_req s) (ex_ctx s)
      in if length key > rl_max_key_length cfg
         then Inr (None, set_res s (Response_json (Response_status (ex_res s) 400) rl_key_too_long_json))
      else case acq key (rl_policy cfg) (rl_clock s) (rl_store s) of
             (Inl e, st) \<Rightarrow> Inr (Some e, s\<lparr>rl_store := st\<rparr>)
           | (Inr r, st) \<Rightarrow>
               let s1 = set_res (s\<lparr>rl_store := st\<rparr>) (publish_headers cfg r (ex_res s))
               in if \<not> rl_allowed r
                  then Inr (None, set_res s1 (Response_json (Response_status (ex_res s1) (rl_rejected_status cfg))
                          (rl_rejected_body cfg)))
                  else Inl s1)"

interpretation rate_limit: request_gate "RateLimit_handle acq cfg" "RateLimit_decide acq cfg"
  for acq cfg
  by unfold_locales
     (auto simp: RateLimit_handle_def RateLimit_decide_def Let_def split: prod.split sum.split)

section \<open>Admission over time\<close>

text \<open>
  The decisions of one entry over a sequence of requests, as the list of the times at which a
  request was admitted.
\<close>

definition entry_decide :: "RateLimitAlgorithm \<Rightarrow> RateLimitPolicy \<Rightarrow> int \<Rightarrow> rl_state \<Rightarrow> bool \<times> rl_state" where
  "entry_decide alg p t st =
     (case acquire_state alg p t st of
        (Inr r, st') \<Rightarrow> (rl_allowed r, st')
      | (Inl e, st') \<Rightarrow> (False, st'))"

fun grants :: "(int \<Rightarrow> 's \<Rightarrow> bool \<times> 's) \<Rightarrow> int list \<Rightarrow> 's \<Rightarrow> int list" where
  "grants acq [] s = []"
| "grants acq (t # ts) s =
     (case acq t s of (ok, s') \<Rightarrow> (if ok then [t] else []) @ grants acq ts s')"

text \<open>
  What a metered limiter promises: there is a credit that an admission uses up, that grows at most
  at a fixed rate and that never exceeds the capacity; and a request with credit is admitted.
\<close>

locale rate_potential =
  fixes acq :: "int \<Rightarrow> 's \<Rightarrow> bool \<times> 's"
    and inv :: "'s \<Rightarrow> bool"
    and pot :: "'s \<Rightarrow> int \<Rightarrow> rat"
    and rate cap :: rat
  assumes inv_acq: "inv s \<Longrightarrow> inv (snd (acq t s))"
    and pot_nonneg: "0 \<le> pot s t"
    and pot_cap: "inv s \<Longrightarrow> pot s t \<le> cap"
    and grant_cost: "inv s \<Longrightarrow> fst (acq t s) \<Longrightarrow> pot (snd (acq t s)) t + 1 \<le> pot s t"
    and deny_free: "inv s \<Longrightarrow> \<not> fst (acq t s) \<Longrightarrow> pot (snd (acq t s)) t \<le> pot s t"
    and growth: "inv s \<Longrightarrow> t \<le> t' \<Longrightarrow> pot s t' \<le> pot s t + rate * of_int (t' - t)"
    and credit_admits: "inv s \<Longrightarrow> 1 \<le> pot s t \<Longrightarrow> fst (acq t s)"
begin

lemma grants_from:
  "inv s \<Longrightarrow> sorted (t0 # ts) \<Longrightarrow>
   of_nat (length (grants acq ts s)) \<le> pot s t0 + rate * of_int (last (t0 # ts) - t0)"
proof (induction ts arbitrary: s t0)
  case Nil
  then show ?case using pot_nonneg [of s t0] by simp
next
  case (Cons t ts)
  let ?s' = "snd (acq t s)"
  have "of_nat (length (grants acq ts ?s')) \<le> pot ?s' t + rate * of_int (last (t # ts) - t)"
    using Cons inv_acq by simp
  moreover have "pot s t \<le> pot s t0 + rate * of_int (t - t0)"
    using Cons.prems by (intro growth) auto
  moreover have "rate * of_int (last (t # ts) - t) + rate * of_int (t - t0) =
      rate * of_int (last (t0 # t # ts) - t0)"
    by (simp add: algebra_simps)
  ultimately show ?case
    using grant_cost [OF Cons.prems(1), of t] deny_free [OF Cons.prems(1), of t]
    by (auto split: prod.splits)
qed

lemma grants_bounded:
  "inv s \<Longrightarrow> sorted ts \<Longrightarrow> ts \<noteq> [] \<Longrightarrow>
   of_nat (length (grants acq ts s)) \<le> cap + rate * of_int (last ts - hd ts)"
  using grants_from [of s "hd ts" ts] pot_cap [of s "hd ts"] by (cases ts) auto

end

subsection \<open>Token bucket and GCRA meter requests\<close>

definition token_inv :: "RateLimitPolicy \<Rightarrow> rl_state \<Rightarrow> bool" where
  "token_inv p st = (case st of TokenBucketState tok u \<Rightarrow> tok \<le> of_nat (burst_capacity p) | _ \<Rightarrow> True)"

definition token_rate :: "RateLimitPolicy \<Rightarrow> rat" where
  "token_rate p = (case policy_window p of Inl _ \<Rightarrow> 0 | Inr w \<Rightarrow> of_nat (policy_limit p) / of_int w)"

definition token_now :: "RateLimitPolicy \<Rightarrow> rl_state \<Rightarrow> int \<Rightarrow> rat" where
  "token_now p st now =
     (case st of
        TokenBucketState tok u \<Rightarrow>
          min (of_nat (burst_capacity p)) (tok + token_rate p * of_int (max 0 (now - u)))
      | _ \<Rightarrow> of_nat (burst_capacity p))"

definition token_pot :: "RateLimitPolicy \<Rightarrow> rl_state \<Rightarrow> int \<Rightarrow> rat" where
  "token_pot p st now = (case policy_window p of Inl _ \<Rightarrow> 0 | Inr w \<Rightarrow> max 0 (token_now p st now))"

definition token_upd :: "rl_state \<Rightarrow> int \<Rightarrow> int" where
  "token_upd st now = (case st of TokenBucketState tok u \<Rightarrow> max now u | _ \<Rightarrow> now)"

lemma policy_window_pos: "policy_window p = Inr w \<Longrightarrow> 0 < w"
  by (auto simp: policy_window_def Let_def split: sum.splits if_splits)

lemma policy_window_limit: "policy_window p = Inr w \<Longrightarrow> 0 < policy_limit p"
  by (auto simp: policy_window_def validate_policy_def Let_def split: sum.splits if_splits)

lemma burst_capacity_pos: "policy_window p = Inr w \<Longrightarrow> 1 \<le> burst_capacity p"
  using policy_window_limit [of p w] by (auto simp: burst_capacity_def)

lemma token_rate_nonneg: "0 \<le> token_rate p"
  using policy_window_pos [of p] by (auto simp: token_rate_def less_imp_le split: sum.split)

lemma token_refill_eq:
  assumes "policy_window p = Inr w" and "tok \<le> of_nat (burst_capacity p)"
  shows "token_refill (burst_capacity p) (policy_limit p) w now tok u =
     (token_now p (TokenBucketState tok u) now, max now u)"
proof -
  have "seconds_of (now - u) * (of_nat (policy_limit p) / seconds_of w) = token_rate p * of_int (now - u)"
    using assms(1) policy_window_pos [of p w] by (simp add: seconds_of_def token_rate_def)
  with assms show ?thesis
    by (simp add: token_refill_def token_now_def Let_def max_def)
qed

lemma token_decide:
  assumes "token_inv p st"
  shows "entry_decide TokenBucket p t st =
     (case policy_window p of Inl _ \<Rightarrow> (False, st) | Inr w \<Rightarrow>
       if token_now p st t < 1 then (False, TokenBucketState (token_now p st t) (token_upd st t))
       else (True, TokenBucketState (token_now p st t - 1) (token_upd st t)))"
proof (cases "policy_window p")
  case (Inr w)
  have "token_now p (TokenBucketState (of_nat (burst_capacity p)) t) t = of_nat (burst_capacity p)"
    by (simp add: token_now_def)
  then show ?thesis
    using assms Inr
    by (cases st)
       (auto simp: entry_decide_def acquire_token_bucket_def token_take_def Let_def granted_def denied_def
         token_refill_eq token_inv_def token_upd_def, auto simp: token_now_def)
qed (simp add: entry_decide_def acquire_token_bucket_def)

lemma token_now_le: "token_now p st t \<le> of_nat (burst_capacity p)"
  by (simp add: token_now_def split: rl_state.split)

lemma token_now_idem:
  "tok \<le> of_nat (burst_capacity p) \<Longrightarrow> token_now p (TokenBucketState tok (token_upd st t)) t = tok"
  by (auto simp: token_now_def token_upd_def max_def split: rl_state.split)

lemma token_now_growth:
  assumes "t \<le> t'"
  shows "token_now p st t' \<le> token_now p st t + token_rate p * of_int (t' - t)"
proof (cases st)
  case (TokenBucketState tok u)
  have "token_rate p * of_int (max 0 (t' - u)) \<le> token_rate p * (of_int (max 0 (t - u)) + of_int (t' - t))"
    using assms token_rate_nonneg [of p]
    by (intro mult_left_mono) (auto simp: max_def simp flip: of_int_add of_int_diff)
  moreover have "0 \<le> token_rate p * of_int (t' - t)"
    using assms token_rate_nonneg [of p] by simp
  ultimately show ?thesis by (auto simp: TokenBucketState token_now_def min_def algebra_simps)
qed (use assms token_rate_nonneg [of p] in \<open>simp_all add: token_now_def\<close>)

interpretation token_bucket: rate_potential
    "entry_decide TokenBucket p" "token_inv p" "token_pot p" "token_rate p" "of_nat (burst_capacity p)"
  for p
proof unfold_locales
  fix s t t'
  assume inv: "token_inv p s"
  note d = token_decide [OF inv]
  show "token_inv p (snd (entry_decide TokenBucket p t s))"
    using inv token_now_le [of p s t] by (auto simp: d token_inv_def split: sum.split)
  show "token_pot p s t \<le> of_nat (burst_capacity p)"
    using token_now_le [of p s t] by (simp add: token_pot_def split: sum.split)
  show "1 \<le> token_pot p s t \<Longrightarrow> fst (entry_decide TokenBucket p t s)"
    by (auto simp: d token_pot_def split: sum.splits)
  show "fst (entry_decide TokenBucket p t s) \<Longrightarrow>
      token_pot p (snd (entry_decide TokenBucket p t s)) t + 1 \<le> token_pot p s t"
    using token_now_le [of p s t] token_now_idem [of "token_now p s t - 1" p s t]
    by (auto simp: d token_pot_def split: sum.splits if_splits)
  show "\<not> fst (entry_decide TokenBucket p t s) \<Longrightarrow>
      token_pot p (snd (entry_decide TokenBucket p t s)) t \<le> token_pot p s t"
    using token_now_le [of p s t] token_now_idem [of "token_now p s t" p s t]
    by (auto simp: d token_pot_def split: sum.splits if_splits)
  show "t \<le> t' \<Longrightarrow> token_pot p s t' \<le> token_pot p s t + token_rate p * of_int (t' - t)"
    using token_now_growth [of t t' p s] mult_nonneg_nonneg [OF token_rate_nonneg [of p], of "of_int (t' - t)"]
    by (auto simp: token_pot_def max_def split: sum.split)
qed (simp add: token_pot_def split: sum.split)

text \<open>GCRA: the credit is how far the theoretical arrival time may still run ahead.\<close>

definition gcra_interval :: "RateLimitPolicy \<Rightarrow> int" where
  "gcra_interval p = (case policy_window p of Inl _ \<Rightarrow> 0 | Inr w \<Rightarrow> w div int (policy_limit p))"

definition gcra_tat :: "rl_state \<Rightarrow> int \<Rightarrow> int" where
  "gcra_tat st now = (case st of GcraState tat \<Rightarrow> tat | _ \<Rightarrow> now)"

definition gcra_pot :: "RateLimitPolicy \<Rightarrow> rl_state \<Rightarrow> int \<Rightarrow> rat" where
  "gcra_pot p st now =
     (if gcra_interval p \<le> 0 then 0
      else max 0 (of_nat (burst_capacity p) -
             max 0 (of_int (gcra_tat st now - now) / of_int (gcra_interval p))))"

definition gcra_rate :: "RateLimitPolicy \<Rightarrow> rat" where
  "gcra_rate p = (if gcra_interval p \<le> 0 then 0 else 1 / of_int (gcra_interval p))"

lemma gcra_decide:
  "entry_decide Gcra p t st =
     (if gcra_interval p \<le> 0 then (False, st)
      else if t < gcra_tat st t - gcra_interval p * int (burst_capacity p - 1)
      then (False, GcraState (gcra_tat st t))
      else (True, GcraState (max (gcra_tat st t) t + gcra_interval p)))"
  by (auto simp: entry_decide_def acquire_gcra_def Let_def gcra_interval_def gcra_tat_def granted_def
      denied_def split: sum.split rl_state.split)

lemma gcra_burst_pos: "0 < gcra_interval p \<Longrightarrow> 1 \<le> burst_capacity p"
  by (auto simp: gcra_interval_def dest: burst_capacity_pos split: sum.splits)

lemma gcra_admit_iff:
  assumes "0 < gcra_interval p"
  shows "t < gcra_tat st t - gcra_interval p * int (burst_capacity p - 1) \<longleftrightarrow> gcra_pot p st t < 1"
proof -
  let ?i = "gcra_interval p" and ?b = "burst_capacity p" and ?d = "gcra_tat st t - t"
  have b: "1 \<le> ?b" using assms by (rule gcra_burst_pos)
  then have b': "1 \<le> (of_nat ?b :: rat)" by (metis of_nat_1 of_nat_le_iff)
  have "t < gcra_tat st t - ?i * int (?b - 1) \<longleftrightarrow> ?i * int (?b - 1) < ?d" by auto
  also have "\<dots> \<longleftrightarrow> (of_int (?i * int (?b - 1)) :: rat) < of_int ?d" by (simp only: of_int_less_iff)
  also have "(of_int (?i * int (?b - 1)) :: rat) = of_int ?i * (of_nat ?b - 1)"
    using b by (simp add: of_nat_diff)
  also have "of_int ?i * (of_nat ?b - 1) < (of_int ?d :: rat) \<longleftrightarrow> of_nat ?b - 1 < (of_int ?d / of_int ?i :: rat)"
    using assms by (simp only: pos_less_divide_eq of_int_0_less_iff mult.commute)
  also have "\<dots> \<longleftrightarrow> gcra_pot p st t < 1"
    using assms b' by (auto simp: gcra_pot_def max_def)
  finally show ?thesis .
qed

lemma gcra_ratio_growth:
  assumes "0 < i" "t \<le> t'"
  shows "max 0 (of_int (a - t) / of_int i :: rat) \<le> max 0 (of_int (a - t') / of_int i) + 1 / of_int i * of_int (t' - t)"
proof -
  have "of_int (a - t) / of_int i = of_int (a - t') / of_int i + (1 / of_int i * of_int (t' - t) :: rat)"
    by (simp add: diff_divide_distrib)
  moreover have "0 \<le> (1 / of_int i * of_int (t' - t) :: rat)" using assms by simp
  ultimately show ?thesis by (auto simp: max_def)
qed

interpretation gcra: rate_potential
    "entry_decide Gcra p" "\<lambda>_. True" "gcra_pot p" "gcra_rate p" "of_nat (burst_capacity p)"
  for p
proof unfold_locales
  fix s t t'
  show "gcra_pot p s t \<le> of_nat (burst_capacity p)" by (simp add: gcra_pot_def)
  show "1 \<le> gcra_pot p s t \<Longrightarrow> fst (entry_decide Gcra p t s)"
    using gcra_admit_iff [of p t s] by (auto simp: gcra_decide gcra_pot_def [of p] split: if_splits)
  show "\<not> fst (entry_decide Gcra p t s) \<Longrightarrow> gcra_pot p (snd (entry_decide Gcra p t s)) t \<le> gcra_pot p s t"
    by (auto simp: gcra_decide gcra_pot_def gcra_tat_def split: rl_state.splits if_splits)
  show "fst (entry_decide Gcra p t s) \<Longrightarrow> gcra_pot p (snd (entry_decide Gcra p t s)) t + 1 \<le> gcra_pot p s t"
  proof -
    assume ok: "fst (entry_decide Gcra p t s)"
    then have i: "0 < gcra_interval p" and one: "1 \<le> gcra_pot p s t"
      using gcra_admit_iff [of p t s] by (auto simp: gcra_decide split: if_splits)
    let ?r = "of_int (gcra_tat s t - t) / of_int (gcra_interval p) :: rat"
    have "of_int (max (gcra_tat s t) t + gcra_interval p - t) / of_int (gcra_interval p) = max 0 ?r + 1"
      using i by (simp add: max_def add_divide_distrib diff_divide_distrib divide_le_cancel)
    then have "gcra_pot p (GcraState (max (gcra_tat s t) t + gcra_interval p)) t =
        max 0 (of_nat (burst_capacity p) - (max 0 ?r + 1))"
      using i by (simp add: gcra_pot_def gcra_tat_def)
    with i one ok show ?thesis by (auto simp: gcra_decide gcra_pot_def split: if_splits)
  qed
  show "t \<le> t' \<Longrightarrow> gcra_pot p s t' \<le> gcra_pot p s t + gcra_rate p * of_int (t' - t)"
  proof (cases "gcra_interval p \<le> 0")
    case False
    assume le: "t \<le> t'"
    have "max 0 (of_int (gcra_tat s t - t) / of_int (gcra_interval p) :: rat)
        \<le> max 0 (of_int (gcra_tat s t' - t') / of_int (gcra_interval p)) + 1 / of_int (gcra_interval p) * of_int (t' - t)"
      using False le gcra_ratio_growth [of "gcra_interval p" t t' "gcra_tat s t"]
      by (auto simp: gcra_tat_def split: rl_state.split)
    moreover have "0 \<le> (1 / of_int (gcra_interval p) * of_int (t' - t) :: rat)" using False le by simp
    ultimately show ?thesis using False by (auto simp: gcra_pot_def gcra_rate_def max_def)
  qed (simp add: gcra_pot_def gcra_rate_def)
qed (simp_all add: gcra_pot_def)

subsection \<open>Windowed limits through the store\<close>

text \<open>
  A sequence of calls on one store, by any clients under any policies; the result lists the times at
  which the entry \<open>nk\<close> was granted.
\<close>

type_synonym rl_event = "string \<times> RateLimitPolicy \<times> int"

definition granted_times :: "string \<Rightarrow> rl_event \<Rightarrow> RateLimitResult result \<Rightarrow> int list" where
  "granted_times nk ev r =
     (case ev of (key, q, t) \<Rightarrow>
        case r of Inr x \<Rightarrow> if rl_allowed x \<and> normalized_key q key = nk then [t] else [] | Inl _ \<Rightarrow> [])"

fun store_grants :: "RateLimit_StoreConfig \<Rightarrow> string \<Rightarrow> rl_event list \<Rightarrow> rl_entries \<Rightarrow> int list" where
  "store_grants cfg nk [] es = []"
| "store_grants cfg nk ((key, q, t) # evs) es =
     (case acquire cfg key q t es of
        (r, es') \<Rightarrow> granted_times nk (key, q, t) r @ store_grants cfg nk evs es')"

definition in_window :: "int \<Rightarrow> int \<Rightarrow> int list \<Rightarrow> nat" where
  "in_window w t gs = length (filter (\<lambda>g. t \<le> g \<and> g < t + w) gs)"

definition quiet :: "int \<Rightarrow> int \<Rightarrow> int list \<Rightarrow> bool" where
  "quiet w now gs \<longleftrightarrow> (\<forall>g\<in>set gs. g + w \<le> now)"

lemma in_window_append: "in_window w t (xs @ ys) = in_window w t xs + in_window w t ys"
  by (simp add: in_window_def)

lemma in_window_le_length: "in_window w t xs \<le> length xs"
  by (simp add: in_window_def)

lemma in_window_old: "\<forall>g\<in>set xs. g + w \<le> c \<Longrightarrow> t \<le> c \<Longrightarrow> c < t + w \<Longrightarrow> in_window w t xs = 0"
  by (auto simp: in_window_def filter_empty_conv)

lemma in_window_one [simp]: "in_window w t [c] = (if t \<le> c \<and> c < t + w then 1 else 0)"
  by (simp add: in_window_def)

lemma quiet_mono: "quiet w now gs \<Longrightarrow> now \<le> now' \<Longrightarrow> quiet w now' gs"
  by (auto simp: quiet_def)

lemma acquire_entry_decide:
  "entry_decide (policy_algorithm p) p now
     (if entry_algorithm e \<noteq> policy_algorithm p then TokenBucketState 0 0 else entry_state e) = (ok, st') \<Longrightarrow>
   \<exists>r. acquire_entry p now nk e es = (r, AList.update nk \<lparr>entry_algorithm = policy_algorithm p,
          entry_state = st', entry_updated_at = now\<rparr> es) \<and>
       (ok \<longleftrightarrow> (case r of Inr x \<Rightarrow> rl_allowed x | Inl _ \<Rightarrow> False))"
  by (auto simp: acquire_entry_def entry_decide_def Let_def split: prod.splits sum.splits)

lemma prune_idle_lookup:
  "distinct (map fst es) \<Longrightarrow>
   map_of (prune_idle cfg now es) nk =
     (case map_of es nk of
        None \<Rightarrow> None
      | Some e \<Rightarrow> if now \<ge> entry_updated_at e \<and> now - entry_updated_at e \<ge> idle_ttl cfg then None else Some e)"
proof (induction es)
  case (Cons x es)
  then have "fst x \<notin> fst ` set es" by simp
  then have "map_of es (fst x) = None" by (simp add: map_of_eq_None_iff)
  with Cons show ?case by (cases x) (auto simp: prune_idle_def split: option.splits)
qed (simp add: prune_idle_def)

lemma distinct_prune_idle: "distinct (map fst es) \<Longrightarrow> distinct (map fst (prune_idle cfg now es))"
  by (simp add: prune_idle_def distinct_map_filter)

text \<open>
  What a windowed algorithm promises about the history of one entry, so that the bound carries
  over to the store, which may drop idle entries between requests.
\<close>

locale windowed_entry =
  fixes alg :: RateLimitAlgorithm and p :: RateLimitPolicy and w :: int and bound :: nat
    and hist :: "int \<Rightarrow> int list \<Rightarrow> rl_state \<Rightarrow> bool"
  assumes hist_fresh: "policy_window p = Inr w \<Longrightarrow> quiet w now gs \<Longrightarrow> (\<And>t. in_window w t gs \<le> bound) \<Longrightarrow>
      hist now gs (TokenBucketState 0 0)"
    and hist_mono: "hist now gs st \<Longrightarrow> now \<le> now' \<Longrightarrow> hist now' gs st"
    and hist_step: "policy_window p = Inr w \<Longrightarrow> hist now gs st \<Longrightarrow> entry_decide alg p now st = (ok, st') \<Longrightarrow>
      hist now (gs @ (if ok then [now] else [])) st'"
    and hist_bound: "hist now gs st \<Longrightarrow> in_window w t gs \<le> bound"
begin

definition store_hist :: "string \<Rightarrow> int \<Rightarrow> int list \<Rightarrow> rl_entries \<Rightarrow> bool" where
  "store_hist nk now gs es \<longleftrightarrow> distinct (map fst es) \<and>
     (case map_of es nk of
        None \<Rightarrow> quiet w now gs \<and> (\<forall>t. in_window w t gs \<le> bound)
      | Some e \<Rightarrow> entry_algorithm e = alg \<and> hist now gs (entry_state e) \<and> (\<forall>g\<in>set gs. g \<le> entry_updated_at e))"

lemma store_hist_bound: "store_hist nk now gs es \<Longrightarrow> in_window w t gs \<le> bound"
  by (auto simp: store_hist_def hist_bound split: option.splits)

lemma store_hist_mono: "store_hist nk now gs es \<Longrightarrow> now \<le> now' \<Longrightarrow> store_hist nk now' gs es"
  by (cases "map_of es nk") (auto simp: store_hist_def quiet_def hist_mono simp del: map_of_eq_Some_iff)

lemma store_hist_prune:
  "store_hist nk now gs es \<Longrightarrow> w \<le> idle_ttl cfg \<Longrightarrow> store_hist nk now gs (prune_idle cfg now es)"
  by (cases "map_of es nk")
     (auto simp: store_hist_def prune_idle_lookup distinct_prune_idle quiet_def hist_bound
       simp del: map_of_eq_Some_iff)

lemma store_hist_other:
  "store_hist nk now gs es \<Longrightarrow> nk' \<noteq> nk \<Longrightarrow> store_hist nk now gs (AList.update nk' e es)"
  by (simp add: store_hist_def update_conv' distinct_update)

lemma store_hist_update:
  "distinct (map fst es) \<Longrightarrow> hist now gs st \<Longrightarrow> \<forall>g\<in>set gs. g \<le> now \<Longrightarrow>
   store_hist nk now gs (AList.update nk \<lparr>entry_algorithm = alg, entry_state = st, entry_updated_at = now\<rparr> es)"
  by (simp add: store_hist_def update_conv' distinct_update)

lemma acquire_entry_hist:
  assumes "policy_window p = Inr w" "policy_algorithm p = alg" "distinct (map fst es)"
    and st: "hist now gs (if entry_algorithm e \<noteq> alg then TokenBucketState 0 0 else entry_state e)"
    and gs: "\<forall>g\<in>set gs. g \<le> now"
  shows "\<exists>r es'. acquire_entry p now nk e es = (r, es') \<and>
    store_hist nk now (gs @ (case r of Inr x \<Rightarrow> if rl_allowed x then [now] else [] | Inl _ \<Rightarrow> [])) es'"
proof -
  obtain ok st' where d: "entry_decide alg p now
      (if entry_algorithm e \<noteq> alg then TokenBucketState 0 0 else entry_state e) = (ok, st')" by force
  have h: "hist now (gs @ (if ok then [now] else [])) st'" by (rule hist_step [OF assms(1) st d])
  obtain r where r: "acquire_entry p now nk e es = (r, AList.update nk \<lparr>entry_algorithm = alg,
          entry_state = st', entry_updated_at = now\<rparr> es)"
    and ok: "ok \<longleftrightarrow> (case r of Inr x \<Rightarrow> rl_allowed x | Inl _ \<Rightarrow> False)"
    using acquire_entry_decide [of p now e ok st' nk es] d assms(2) by auto
  have "(case r of Inr x \<Rightarrow> if rl_allowed x then [now] else [] | Inl _ \<Rightarrow> []) = (if ok then [now] else [])"
    using ok by (auto split: sum.splits)
  moreover have "\<forall>g\<in>set (gs @ (if ok then [now] else [])). g \<le> now" using gs by auto
  ultimately show ?thesis using r store_hist_update [OF assms(3) h] by simp
qed

lemma acquire_hist:
  assumes p: "policy_window p = Inr w" "policy_algorithm p = alg" and ttl: "w \<le> idle_ttl cfg"
    and own: "normalized_key q key = nk \<Longrightarrow> q = p"
    and h: "store_hist nk now gs es" and gs: "\<forall>g\<in>set gs. g \<le> now"
  shows "\<exists>r es'. acquire cfg key q now es = (r, es') \<and> store_hist nk now (gs @ granted_times nk (key, q, now) r) es'"
proof (cases "validate_policy q")
  case (Inl e)
  with h show ?thesis by (simp add: acquire_def granted_times_def)
next
  case (Inr u)
  let ?nk = "normalized_key q key"
  let ?es' = "if length es \<ge> rl_max_keys cfg then prune_idle cfg now es else es"
  have h': "store_hist nk now gs ?es'" using h ttl by (simp add: store_hist_prune)
  show ?thesis
  proof (cases "?nk = nk")
    case True
    then have q: "q = p" by (rule own)
    have gt: "granted_times nk (key, q, now) r =
        (case r of Inr x \<Rightarrow> if rl_allowed x then [now] else [] | Inl _ \<Rightarrow> [])" for r
      using True by (simp add: granted_times_def split: sum.split)
    have entry: "\<exists>r es'. acquire_entry p now nk e es0 = (r, es') \<and>
        store_hist nk now (gs @ granted_times nk (key, q, now) r) es'"
      if "store_hist nk now gs es0"
        "hist now gs (if entry_algorithm e \<noteq> alg then TokenBucketState 0 0 else entry_state e)" for e es0
    proof -
      have "distinct (map fst es0)" using that(1) by (simp add: store_hist_def)
      from acquire_entry_hist [OF p this that(2) gs, of nk] show ?thesis by (simp only: gt)
    qed
    have fresh: "hist now gs (TokenBucketState 0 0)" if "map_of es nk = None"
      using h that hist_fresh [OF p(1)] by (simp add: store_hist_def)
    show ?thesis
    proof (cases "map_of es nk")
      case None
      with entry [OF h', of "fresh_entry p now"] fresh h' Inr True q p(2) show ?thesis
        by (auto simp: acquire_def Let_def fresh_entry_def denied_def granted_times_def)
    next
      case (Some e)
      with h have "hist now gs (if entry_algorithm e \<noteq> alg then TokenBucketState 0 0 else entry_state e)"
        by (simp add: store_hist_def)
      from entry [OF h this] Some Inr True q show ?thesis by (simp add: acquire_def Let_def)
    qed
  next
    case False
    then have none: "granted_times nk (key, q, now) r = []" for r
      by (simp add: granted_times_def split: sum.split)
    have "\<exists>r es'. acquire_entry q now ?nk e es0 = (r, es') \<and> store_hist nk now gs es'"
      if "store_hist nk now gs es0" for e es0
      using store_hist_other [OF that False] by (auto simp: acquire_entry_def Let_def split: prod.split)
    with h h' Inr none show ?thesis by (auto simp: acquire_def Let_def split: option.split)
  qed
qed

lemma store_grants_hist:
  assumes p: "policy_window p = Inr w" "policy_algorithm p = alg" and ttl: "w \<le> idle_ttl cfg"
  shows "sorted (now # map (\<lambda>(k, q, t). t) evs) \<Longrightarrow> \<forall>(k, q, t)\<in>set evs. normalized_key q k = nk \<longrightarrow> q = p \<Longrightarrow>
     store_hist nk now gs es \<Longrightarrow> \<forall>g\<in>set gs. g \<le> now \<Longrightarrow>
     \<exists>now' es'. store_hist nk now' (gs @ store_grants cfg nk evs es) es'"
proof (induction evs arbitrary: now gs es)
  case (Cons ev evs)
  obtain k q t where ev: "ev = (k, q, t)" by (cases ev)
  with Cons.prems have le: "now \<le> t" and own: "normalized_key q k = nk \<Longrightarrow> q = p" by auto
  have h: "store_hist nk t gs es" using Cons.prems(3) le by (rule store_hist_mono)
  have gs: "\<forall>g\<in>set gs. g \<le> t" using Cons.prems(4) le by auto
  obtain r es' where a: "acquire cfg k q t es = (r, es')"
    and h': "store_hist nk t (gs @ granted_times nk (k, q, t) r) es'"
    using acquire_hist [OF p ttl own h gs] by blast
  have gs': "\<forall>g\<in>set (gs @ granted_times nk (k, q, t) r). g \<le> t"
    using gs by (auto simp: granted_times_def split: sum.splits if_splits)
  from Cons.IH [OF _ _ h' gs'] Cons.prems(1,2) ev a show ?case by auto
qed (auto intro: exI)

lemma store_bound:
  assumes "policy_window p = Inr w" "policy_algorithm p = alg" "w \<le> idle_ttl cfg"
    and "sorted (map (\<lambda>(k, q, t). t) evs)" and "\<forall>(k, q, t)\<in>set evs. normalized_key q k = nk \<longrightarrow> q = p"
  shows "in_window w t (store_grants cfg nk evs []) \<le> bound"
proof (cases evs)
  case (Cons ev evs')
  have "store_hist nk (case ev of (k, q, t) \<Rightarrow> t) [] []"
    by (simp add: store_hist_def quiet_def in_window_def)
  moreover have "sorted ((case ev of (k, q, t) \<Rightarrow> t) # map (\<lambda>(k, q, t). t) evs)"
    using assms(4) by (auto simp: Cons)
  ultimately have "\<exists>now' es'. store_hist nk now' ([] @ store_grants cfg nk evs []) es'"
    using assms(5) by (intro store_grants_hist [OF assms(1-3)]) auto
  then show ?thesis by (auto dest: store_hist_bound)
qed (simp add: in_window_def)

end

definition sliding_hist :: "RateLimitPolicy \<Rightarrow> int \<Rightarrow> int \<Rightarrow> int list \<Rightarrow> rl_state \<Rightarrow> bool" where
  "sliding_hist p w now gs st \<longleftrightarrow> (\<forall>t. in_window w t gs \<le> policy_limit p) \<and>
     (case st of
        SlidingWindowState cur \<Rightarrow> \<exists>old. gs = old @ cur \<and> quiet w now old \<and> length cur \<le> policy_limit p
      | _ \<Rightarrow> quiet w now gs)"

lemma sliding_decide:
  "policy_window p = Inr w \<Longrightarrow> entry_decide SlidingWindow p now st =
     (let rs = dropWhile (\<lambda>r. r + w \<le> now) (case st of SlidingWindowState rs \<Rightarrow> rs | _ \<Rightarrow> [])
      in if length rs \<ge> policy_limit p then (False, SlidingWindowState rs)
         else (True, SlidingWindowState (rs @ [now])))"
proof -
  assume w: "policy_window p = Inr w"
  have "(\<lambda>r. now \<ge> r \<and> now - r \<ge> w) = (\<lambda>r. r + w \<le> now)"
    using policy_window_pos [OF w] by auto
  with w show ?thesis
    by (simp add: entry_decide_def acquire_sliding_window_def Let_def granted_def denied_def)
qed

lemma sliding_hist_split:
  assumes "sliding_hist p w now gs st"
  shows "\<exists>old. gs = old @ dropWhile (\<lambda>r. r + w \<le> now) (case st of SlidingWindowState rs \<Rightarrow> rs | _ \<Rightarrow> []) \<and>
     quiet w now old \<and> length (dropWhile (\<lambda>r. r + w \<le> now) (case st of SlidingWindowState rs \<Rightarrow> rs | _ \<Rightarrow> []))
       \<le> policy_limit p"
proof (cases st)
  case (SlidingWindowState cur)
  with assms obtain old where gs: "gs = old @ cur" and q: "quiet w now old" and l: "length cur \<le> policy_limit p"
    by (auto simp: sliding_hist_def)
  let ?P = "\<lambda>r. r + w \<le> now"
  have "gs = (old @ takeWhile ?P cur) @ dropWhile ?P cur" by (simp add: gs)
  moreover have "quiet w now (old @ takeWhile ?P cur)"
    using q by (auto simp: quiet_def dest: set_takeWhileD)
  moreover have "length (dropWhile ?P cur) \<le> policy_limit p"
    using l length_dropWhile_le [of ?P cur] by linarith
  ultimately show ?thesis unfolding SlidingWindowState rl_state.case by blast
qed (use assms in \<open>simp_all add: sliding_hist_def\<close>)

lemma in_window_after_quiet:
  assumes "quiet w now old" and "length cur < n" and "\<And>t. in_window w t (old @ cur) \<le> n"
  shows "in_window w t ((old @ cur) @ [now]) \<le> n"
proof (cases "t \<le> now \<and> now < t + w")
  case True
  then have "in_window w t old = 0"
    using in_window_old [of old w now t] assms(1) by (simp add: quiet_def)
  with True assms(2) in_window_le_length [of w t cur] show ?thesis
    by (simp add: in_window_append)
next
  case False
  with assms(3) [of t] show ?thesis by (auto simp: in_window_append)
qed

interpretation sliding: windowed_entry SlidingWindow p w "policy_limit p" "sliding_hist p w" for p w
proof unfold_locales
  fix now now' gs st ok st' t
  show "quiet w now gs \<Longrightarrow> (\<And>t. in_window w t gs \<le> policy_limit p) \<Longrightarrow> sliding_hist p w now gs (TokenBucketState 0 0)"
    by (simp add: sliding_hist_def)
  show "sliding_hist p w now gs st \<Longrightarrow> now \<le> now' \<Longrightarrow> sliding_hist p w now' gs st"
    by (cases st) (auto simp: sliding_hist_def intro: quiet_mono)
  show "sliding_hist p w now gs st \<Longrightarrow> in_window w t gs \<le> policy_limit p" by (simp add: sliding_hist_def)
  assume w: "policy_window p = Inr w" and h: "sliding_hist p w now gs st"
    and d: "entry_decide SlidingWindow p now st = (ok, st')"
  let ?rs = "dropWhile (\<lambda>r. r + w \<le> now) (case st of SlidingWindowState rs \<Rightarrow> rs | _ \<Rightarrow> [])"
  from sliding_hist_split [OF h] obtain old where gs: "gs = old @ ?rs" and q: "quiet w now old"
    and l: "length ?rs \<le> policy_limit p" by blast
  have b: "in_window w t gs \<le> policy_limit p" for t using h by (simp add: sliding_hist_def)
  show "sliding_hist p w now (gs @ (if ok then [now] else [])) st'"
  proof (cases "length ?rs \<ge> policy_limit p")
    case True
    with d sliding_decide [OF w, of now st] have "ok = False" "st' = SlidingWindowState ?rs" by auto
    with gs q l b show ?thesis by (auto simp: sliding_hist_def)
  next
    case False
    with d sliding_decide [OF w, of now st] have ok: "ok = True" "st' = SlidingWindowState (?rs @ [now])" by auto
    have "in_window w t (gs @ [now]) \<le> policy_limit p" for t
      using in_window_after_quiet [OF q, of ?rs "policy_limit p" t] False b unfolding gs [symmetric] by simp
    moreover have "gs @ [now] = old @ ?rs @ [now]" using gs by simp
    moreover have "length (?rs @ [now]) \<le> policy_limit p" using False by simp
    ultimately show ?thesis using ok q unfolding sliding_hist_def by (simp only: if_True rl_state.case) blast
  qed
qed

text \<open>A fixed window starts at the first request after the previous one ended, so a sliding window of the same length sees at most two of them.\<close>

definition fixed_hist :: "RateLimitPolicy \<Rightarrow> int \<Rightarrow> int \<Rightarrow> int list \<Rightarrow> rl_state \<Rightarrow> bool" where
  "fixed_hist p w now gs st \<longleftrightarrow> (\<forall>t. in_window w t gs \<le> 2 * policy_limit p) \<and>
     (case st of
        FixedWindowState started used \<Rightarrow> started \<le> now \<and>
          (\<exists>older prev cur. gs = older @ prev @ cur \<and> quiet w started older \<and>
             (\<forall>g\<in>set prev. g \<le> started) \<and> (\<forall>g\<in>set cur. g \<le> now) \<and>
             length prev \<le> policy_limit p \<and> length cur = used \<and> used \<le> policy_limit p)
      | _ \<Rightarrow> quiet w now gs)"

definition fixed_roll :: "int \<Rightarrow> int \<Rightarrow> rl_state \<Rightarrow> int \<times> nat" where
  "fixed_roll w now st =
     (case st of
        FixedWindowState s u \<Rightarrow> if now \<ge> s \<and> now - s \<ge> w then (now, 0) else (s, u)
      | _ \<Rightarrow> (now, 0))"

lemma fixed_decide:
  "policy_window p = Inr w \<Longrightarrow> entry_decide FixedWindow p now st =
     (case fixed_roll w now st of (started, used) \<Rightarrow>
        if used \<ge> policy_limit p then (False, FixedWindowState started used)
        else (True, FixedWindowState started (used + 1)))"
  using policy_window_pos [of p w]
  by (auto simp: entry_decide_def acquire_fixed_window_def fixed_roll_def Let_def granted_def denied_def
      split: rl_state.split)

lemma fixed_hist_roll:
  assumes "fixed_hist p w now gs st"
  shows "case fixed_roll w now st of (started, used) \<Rightarrow> started \<le> now \<and>
    (\<exists>older prev cur. gs = older @ prev @ cur \<and> quiet w started older \<and>
       (\<forall>g\<in>set prev. g \<le> started) \<and> (\<forall>g\<in>set cur. g \<le> now) \<and>
       length prev \<le> policy_limit p \<and> length cur = used \<and> used \<le> policy_limit p)"
proof -
  have idle: ?thesis if "quiet w now gs" "fixed_roll w now st = (now, 0)"
  proof -
    have "gs = gs @ [] @ []" by simp
    with that show ?thesis unfolding that(2) prod.case by (metis empty_iff empty_set le0 list.size(3) order_refl)
  qed
  show ?thesis
  proof (cases st)
    case (FixedWindowState started used)
    with assms obtain older prev cur where gs: "gs = older @ prev @ cur" and le: "started \<le> now"
      and q: "quiet w started older" and prev: "\<forall>g\<in>set prev. g \<le> started" "length prev \<le> policy_limit p"
      and cur: "\<forall>g\<in>set cur. g \<le> now" "length cur = used" "used \<le> policy_limit p"
      by (auto simp: fixed_hist_def)
    show ?thesis
    proof (cases "now - started \<ge> w")
      case True
      then have "quiet w now (older @ prev)" using q prev le by (fastforce simp: quiet_def)
      moreover have "gs = (older @ prev) @ cur @ []" by (simp add: gs)
      moreover have "fixed_roll w now st = (now, 0)" using True le by (simp add: fixed_roll_def FixedWindowState)
      ultimately show ?thesis
        using cur by (simp, rule_tac exI [of _ "older @ prev"], rule_tac exI [of _ cur], simp)
    next
      case False
      with FixedWindowState gs le q prev cur show ?thesis by (auto simp: fixed_roll_def)
    qed
  qed (use assms idle in \<open>simp_all add: fixed_hist_def fixed_roll_def\<close>)
qed

interpretation fixed: windowed_entry FixedWindow p w "2 * policy_limit p" "fixed_hist p w" for p w
proof unfold_locales
  fix now now' gs st ok st' t
  show "quiet w now gs \<Longrightarrow> (\<And>t. in_window w t gs \<le> 2 * policy_limit p) \<Longrightarrow> fixed_hist p w now gs (TokenBucketState 0 0)"
    by (simp add: fixed_hist_def)
  show "fixed_hist p w now gs st \<Longrightarrow> now \<le> now' \<Longrightarrow> fixed_hist p w now' gs st"
    by (cases st) (force simp: fixed_hist_def intro: quiet_mono)+
  show "fixed_hist p w now gs st \<Longrightarrow> in_window w t gs \<le> 2 * policy_limit p" by (simp add: fixed_hist_def)
  assume w: "policy_window p = Inr w" and h: "fixed_hist p w now gs st"
    and d: "entry_decide FixedWindow p now st = (ok, st')"
  obtain started used where roll: "fixed_roll w now st = (started, used)" by force
  with fixed_hist_roll [OF h] obtain older prev cur where le: "started \<le> now"
    and gs: "gs = older @ prev @ cur" and q: "quiet w started older"
    and prev: "\<forall>g\<in>set prev. g \<le> started" "length prev \<le> policy_limit p"
    and cur: "\<forall>g\<in>set cur. g \<le> now" "length cur = used" "used \<le> policy_limit p"
    by auto
  have b: "in_window w t gs \<le> 2 * policy_limit p" for t using h by (simp add: fixed_hist_def)
  show "fixed_hist p w now (gs @ (if ok then [now] else [])) st'"
  proof (cases "used \<ge> policy_limit p")
    case True
    with d fixed_decide [OF w, of now st] roll have "ok = False" "st' = FixedWindowState started used" by auto
    with gs q le prev cur b show ?thesis by (auto simp: fixed_hist_def)
  next
    case False
    with d fixed_decide [OF w, of now st] roll have ok: "ok = True" "st' = FixedWindowState started (used + 1)" by auto
    have "in_window w t (gs @ [now]) \<le> 2 * policy_limit p" for t
      using in_window_after_quiet [OF quiet_mono [OF q le], of "prev @ cur" "2 * policy_limit p" t] False b gs prev cur
      by simp
    moreover have "\<exists>older' prev' cur'. gs @ [now] = older' @ prev' @ cur' \<and> quiet w started older' \<and>
        (\<forall>g\<in>set prev'. g \<le> started) \<and> (\<forall>g\<in>set cur'. g \<le> now) \<and> length prev' \<le> policy_limit p \<and>
        length cur' = used + 1"
      using gs q prev cur by (intro exI [of _ older] exI [of _ prev] exI [of _ "cur @ [now]"]) auto
    ultimately show ?thesis using ok le False by (simp add: fixed_hist_def)
  qed
qed

subsection \<open>What the middleware relies on\<close>

text \<open>
  The \<^verbatim>\<open>RateLimitStore\<close> contract the middleware publishes to clients: a refused call leaves nothing
  remaining, and a granted one asks for no wait.
\<close>

locale rate_limit_store =
  fixes acq :: "'st rate_acquire"
  assumes refused_leaves_nothing: "acq k p t st = (Inr r, st') \<Longrightarrow> \<not> rl_allowed r \<Longrightarrow> rl_remaining r = 0"
    and granted_needs_no_wait: "acq k p t st = (Inr r, st') \<Longrightarrow> rl_allowed r \<Longrightarrow> retry_after r = 0"
begin

lemma rejected_response:
  assumes "\<not> path_allowed (req_path (ex_req s)) (rl_allowlist_paths cfg)"
    and "length (rl_key cfg (ex_req s) (ex_ctx s)) \<le> rl_max_key_length cfg"
    and "acq (rl_key cfg (ex_req s) (ex_ctx s)) (rl_policy cfg) (rl_clock s) (rl_store s) = (Inr r, st)"
    and "\<not> rl_allowed r"
  shows "build_chain (RateLimit_handle acq cfg # mws) h s =
     (None, s\<lparr>rl_store := st, ex_res := Response_json (Response_status (Response_header (Response_header
        (Response_header (Response_header (ex_res s)
           ''ratelimit-limit'' (to_string_nat (policy_limit (rl_policy cfg))))
           ''ratelimit-remaining'' ''0'')
           ''ratelimit-reset'' (to_string_int (retry_after r)))
           ''retry-after'' (to_string_int (retry_after r)))
        (rl_rejected_status cfg)) (rl_rejected_body cfg)\<rparr>)"
proof -
  have zero: "to_string_nat 0 = ''0''" by code_simp
  show ?thesis
    using assms refused_leaves_nothing [OF assms(3,4)]
    by (intro rate_limit.stop_skips_rest)
       (simp add: RateLimit_decide_def Let_def publish_headers_def set_res_def zero)
qed

lemma admitted_response:
  assumes "\<not> path_allowed (req_path (ex_req s)) (rl_allowlist_paths cfg)"
    and "length (rl_key cfg (ex_req s) (ex_ctx s)) \<le> rl_max_key_length cfg"
    and "acq (rl_key cfg (ex_req s) (ex_ctx s)) (rl_policy cfg) (rl_clock s) (rl_store s) = (Inr r, st)"
    and "rl_allowed r"
  shows "build_chain (RateLimit_handle acq cfg # mws) h s =
     build_chain mws h (s\<lparr>rl_store := st, ex_res := Response_header (Response_header (ex_res s)
        ''ratelimit-limit'' (to_string_nat (policy_limit (rl_policy cfg))))
        ''ratelimit-remaining'' (to_string_nat (rl_remaining r))\<rparr>)"
  using assms
  by (intro rate_limit.admitted_runs_rest)
     (simp add: RateLimit_decide_def Let_def publish_headers_def set_res_def)

end

lemma acquire_state_result:
  assumes "acquire_state alg p now st = (Inr r, st')"
  shows "(\<not> rl_allowed r \<longrightarrow> rl_remaining r = 0) \<and> (rl_allowed r \<longrightarrow> retry_after r = 0)"
  using assms
  by (cases alg)
     (auto simp: acquire_token_bucket_def token_take_def acquire_fixed_window_def
       acquire_sliding_window_def acquire_gcra_def granted_def denied_def Let_def
       split: sum.splits prod.splits if_splits)

lemma acquire_result:
  assumes "acquire cfg k p now es = (Inr r, es')"
  shows "(\<not> rl_allowed r \<longrightarrow> rl_remaining r = 0) \<and> (rl_allowed r \<longrightarrow> retry_after r = 0)"
proof -
  have "(\<not> rl_allowed r \<longrightarrow> rl_remaining r = 0) \<and> (rl_allowed r \<longrightarrow> retry_after r = 0)"
    if "acquire_entry p now nk e es0 = (Inr r, es')" for nk e es0
    using that by (auto simp: acquire_entry_def Let_def dest: acquire_state_result split: prod.splits)
  with assms show ?thesis
    by (auto simp: acquire_def Let_def denied_def split: sum.splits option.splits if_splits)
qed

interpretation memory_store: rate_limit_store "acquire cfg" for cfg
  by unfold_locales (auto dest: acquire_result)

subsection \<open>Keys and table size\<close>

lemma append_colon_inject:
  assumes "list_all isdigit a" "list_all isdigit b" and "a @ CHR '':'' # x = b @ CHR '':'' # y"
  shows "a = b \<and> x = y"
proof -
  have colon: "\<not> isdigit CHR '':''" by (simp add: isdigit_def)
  have tw: "takeWhile isdigit (c @ CHR '':'' # z) = c" if "list_all isdigit c" for c z
    using that colon by (induction c) simp_all
  have "a = b" using tw [OF assms(1), of x] tw [OF assms(2), of y] assms(3) by metis
  with assms(3) show ?thesis by simp
qed

lemma length_update: "length (AList.update k v es) = (if k \<in> fst ` set es then length es else length es + 1)"
  by (induction es) auto

section \<open>Properties\<close>

text \<open>
  entries cannot collide: two calls use the same entry of the store exactly when their policy
  names and their client keys (an empty key standing for anonymous) are equal, whatever characters
  those contain.
\<close>

theorem rate_limit_keys_injective:
  "normalized_key p k = normalized_key q l \<longleftrightarrow>
     policy_name p = policy_name q \<and>
     (if k = [] then ''anonymous'' else k) = (if l = [] then ''anonymous'' else l)"
proof
  assume "normalized_key p k = normalized_key q l"
  then have "to_string_nat (length (policy_name p)) = to_string_nat (length (policy_name q)) \<and>
      policy_name p @ (if k = [] then ''anonymous'' else k) = policy_name q @ (if l = [] then ''anonymous'' else l)"
    by (intro append_colon_inject) (auto simp: normalized_key_def to_string_nat_digits list_all_iff)
  then show "policy_name p = policy_name q \<and>
      (if k = [] then ''anonymous'' else k) = (if l = [] then ''anonymous'' else l)"
    using to_string_nat_inject append_eq_append_conv by blast
qed (auto simp: normalized_key_def)

text \<open>
  C19: the sliding window is a real bound through the store: for one entry, in every interval of the
  window's length at most \<^verbatim>\<open>limit\<close> requests are granted, whatever other clients do in between and even if the
  store drops idle entries. This is for calls that enter the store in the order of their clock readings, for one
  policy per entry, and for an idle time to live no shorter than the window: \<open>sliding_window_short_ttl\<close> and
  \<open>sliding_window_late_entry\<close> show that the bound is lost without the first and the last of these.
\<close>

theorem sliding_window_bound:
  assumes "policy_window p = Inr w" and "policy_algorithm p = SlidingWindow" and "w \<le> idle_ttl cfg"
    and "sorted (map (\<lambda>(k, q, t). t) evs)" and "\<forall>(k, q, t)\<in>set evs. normalized_key q k = nk \<longrightarrow> q = p"
  shows "length (filter (\<lambda>g. t \<le> g \<and> g < t + w) (store_grants cfg nk evs [])) \<le> policy_limit p"
  using sliding.store_bound [OF assms] by (simp add: in_window_def)

definition rl_sample :: "RateLimitAlgorithm \<Rightarrow> nat \<Rightarrow> RateLimitPolicy" where
  "rl_sample alg n = \<lparr>policy_name = ''api'', policy_algorithm = alg, policy_limit = n, policy_window_ms = 1,
     policy_burst = 0\<rparr>"

definition rl_store_sample :: RateLimit_StoreConfig where
  "rl_store_sample = \<lparr>rl_max_keys = 1, idle_ttl = 1000000\<rparr>"

lemma rl_sample_window: "0 < n \<Longrightarrow> policy_window (rl_sample alg n) = Inr 1000000"
  by (simp add: policy_window_def validate_policy_def rl_sample_def)

lemma rl_sample_valid: "0 < n \<Longrightarrow> validate_policy (rl_sample alg n) = Inr ()"
  by (simp add: validate_policy_def rl_sample_def)

lemma rl_sample_fields [simp]: "policy_algorithm (rl_sample alg n) = alg" "policy_limit (rl_sample alg n) = n"
  by (simp_all add: rl_sample_def)

theorem sliding_window_bound_witness:
  "length (filter (\<lambda>g. 0 \<le> g \<and> g < 0 + 1000000)
     (store_grants rl_store_sample (normalized_key (rl_sample SlidingWindow 2) ''bob'')
        [(''bob'', rl_sample SlidingWindow 2, 5), (''bob'', rl_sample SlidingWindow 2, 6),
         (''bob'', rl_sample SlidingWindow 2, 7)] [])) \<le> 2"
proof -
  have "length (filter (\<lambda>g. 0 \<le> g \<and> g < 0 + 1000000)
     (store_grants rl_store_sample (normalized_key (rl_sample SlidingWindow 2) ''bob'')
        [(''bob'', rl_sample SlidingWindow 2, 5), (''bob'', rl_sample SlidingWindow 2, 6),
         (''bob'', rl_sample SlidingWindow 2, 7)] [])) \<le> policy_limit (rl_sample SlidingWindow 2)"
    by (rule sliding_window_bound) (simp_all add: rl_sample_window, simp_all add: rl_sample_def rl_store_sample_def)
  then show ?thesis by (simp add: rl_sample_def)
qed

text \<open>
  With an idle time to live shorter than the window, a full store forgets an entry whose window is still open,
  and grants again.
\<close>

lemma sliding_window_short_ttl:
  "store_grants \<lparr>rl_max_keys = 1, idle_ttl = 10\<rparr> (normalized_key (rl_sample SlidingWindow 1) ''bob'')
     [(''bob'', rl_sample SlidingWindow 1, 0), (''ann'', rl_sample SlidingWindow 1, 20), (''bob'', rl_sample SlidingWindow 1, 40)] [] =
   [0, 40]"
  by code_simp

text \<open>
  The clock is read before the mutex is taken. A request that reads it and is overtaken finds the requests of
  its own window already dropped: three grants within a window whose limit is two.
\<close>

lemma sliding_window_late_entry:
  "length (filter (\<lambda>g. 3 \<le> g \<and> g < 3 + 1000000)
     (store_grants rl_store_sample (normalized_key (rl_sample SlidingWindow 2) ''bob'')
        (map (\<lambda>t. (''bob'', rl_sample SlidingWindow 2, t)) [3, 3, 1000003, 4]) [])) = 3"
  by code_simp

text \<open>
  the fixed window grants at most twice its limit in any interval of the window's length,
  under the same conditions (the boundary between two windows is where the factor two comes from).
\<close>

theorem fixed_window_bound:
  assumes "policy_window p = Inr w" and "policy_algorithm p = FixedWindow" and "w \<le> idle_ttl cfg"
    and "sorted (map (\<lambda>(k, q, t). t) evs)" and "\<forall>(k, q, t)\<in>set evs. normalized_key q k = nk \<longrightarrow> q = p"
  shows "length (filter (\<lambda>g. t \<le> g \<and> g < t + w) (store_grants cfg nk evs [])) \<le> 2 * policy_limit p"
  using fixed.store_bound [OF assms] by (simp add: in_window_def)

theorem fixed_window_bound_witness:
  "length (filter (\<lambda>g. 999999 \<le> g \<and> g < 999999 + 1000000)
     (store_grants rl_store_sample (normalized_key (rl_sample FixedWindow 1) ''bob'')
        [(''bob'', rl_sample FixedWindow 1, 999999), (''bob'', rl_sample FixedWindow 1, 1999999)] [])) \<le> 2"
proof -
  have "length (filter (\<lambda>g. 999999 \<le> g \<and> g < 999999 + 1000000)
     (store_grants rl_store_sample (normalized_key (rl_sample FixedWindow 1) ''bob'')
        [(''bob'', rl_sample FixedWindow 1, 999999), (''bob'', rl_sample FixedWindow 1, 1999999)] []))
       \<le> 2 * policy_limit (rl_sample FixedWindow 1)"
    by (rule fixed_window_bound) (simp_all add: rl_sample_window, simp_all add: rl_sample_def rl_store_sample_def)
  then show ?thesis by (simp add: rl_sample_def)
qed

text \<open>
  the token bucket admits over any period at most its burst capacity plus the configured rate
  times the length of the period.
\<close>

theorem token_bucket_bound:
  assumes "policy_window p = Inr w" and "tok \<le> of_nat (burst_capacity p)" and "sorted ts" and "ts \<noteq> []"
  shows "of_nat (length (grants (entry_decide TokenBucket p) ts (TokenBucketState tok u)))
     \<le> of_nat (burst_capacity p) + of_nat (policy_limit p) / of_int w * (of_int (last ts - hd ts) :: rat)"
  using token_bucket.grants_bounded [of p "TokenBucketState tok u" ts] assms
  by (simp add: token_inv_def token_rate_def)

theorem token_bucket_bound_witness:
  "of_nat (length (grants (entry_decide TokenBucket (rl_sample TokenBucket 2)) [5, 6, 7, 1000007]
       (TokenBucketState 2 0))) \<le> (5 :: rat)"
proof -
  have "of_nat (length (grants (entry_decide TokenBucket (rl_sample TokenBucket 2)) [5, 6, 7, 1000007]
       (TokenBucketState 2 0))) \<le> of_nat (burst_capacity (rl_sample TokenBucket 2)) +
       of_nat (policy_limit (rl_sample TokenBucket 2)) / of_int 1000000 *
         (of_int (last [5, 6, 7, 1000007] - hd [5, 6, 7, 1000007]) :: rat)"
    by (rule token_bucket_bound) (simp_all add: rl_sample_window, simp_all add: burst_capacity_def rl_sample_def)
  also have "\<dots> \<le> 5" by (simp add: burst_capacity_def rl_sample_def)
  finally show ?thesis .
qed

text \<open>
  GCRA admits over any period at most its burst capacity plus one request per emission interval
  (the window divided by the limit, rounded down to nanoseconds).
\<close>

theorem gcra_bound:
  assumes "policy_window p = Inr w" and "0 < w div int (policy_limit p)" and "sorted ts" and "ts \<noteq> []"
  shows "of_nat (length (grants (entry_decide Gcra p) ts st))
     \<le> of_nat (burst_capacity p) + 1 / of_int (w div int (policy_limit p)) * (of_int (last ts - hd ts) :: rat)"
  using gcra.grants_bounded [of ts p st] assms by (simp add: gcra_rate_def gcra_interval_def)

theorem gcra_bound_witness:
  "of_nat (length (grants (entry_decide Gcra (rl_sample Gcra 2)) [5, 6, 7, 1000007] (GcraState 0))) \<le> (5 :: rat)"
proof -
  have "of_nat (length (grants (entry_decide Gcra (rl_sample Gcra 2)) [5, 6, 7, 1000007] (GcraState 0)))
     \<le> of_nat (burst_capacity (rl_sample Gcra 2)) + 1 / of_int (1000000 div int (policy_limit (rl_sample Gcra 2))) *
         (of_int (last [5, 6, 7, 1000007] - hd [5, 6, 7, 1000007]) :: rat)"
    by (rule gcra_bound) (simp_all add: rl_sample_window)
  also have "\<dots> \<le> 5" by (simp add: burst_capacity_def rl_sample_def)
  finally show ?thesis .
qed

text \<open>
  the store never holds more than \<^verbatim>\<open>max_keys\<close> entries; a new client is given an entry whenever
  there is room or some entry is idle, and otherwise is refused with a retry delay of one second
  and without any change to the table.
\<close>

theorem rate_store_bounded:
  assumes "length es \<le> rl_max_keys cfg"
  shows "length (snd (acquire cfg key p now es)) \<le> rl_max_keys cfg \<and>
    (validate_policy p = Inr () \<and> map_of es (normalized_key p key) = None \<longrightarrow>
       (if length es < rl_max_keys cfg \<or> prune_idle cfg now es \<noteq> es
        then map_of (snd (acquire cfg key p now es)) (normalized_key p key) \<noteq> None
        else acquire cfg key p now es = (Inr (denied 1), es)))"
proof -
  let ?nk = "normalized_key p key"
  have prune: "length (prune_idle cfg now es) \<le> length es" by (simp add: prune_idle_def)
  have shrinks: "length (prune_idle cfg now es) < length es" if "prune_idle cfg now es \<noteq> es"
    using that length_filter_less filter_id_conv unfolding prune_idle_def by (metis (no_types, lifting))
  have up: "length (snd (acquire_entry p now ?nk e es0)) =
      (if ?nk \<in> fst ` set es0 then length es0 else length es0 + 1)" for e es0
    by (simp add: acquire_entry_def Let_def length_update split: prod.split)
  have there: "map_of (snd (acquire_entry p now ?nk e es0)) ?nk \<noteq> None" for e es0
    by (simp add: acquire_entry_def Let_def update_conv' split: prod.split)
  have known: "?nk \<in> fst ` set es" if "map_of es ?nk = Some e" for e
    using that by (force dest: map_of_SomeD)
  show ?thesis
  proof (cases "validate_policy p")
    case (Inl e)
    with assms show ?thesis by (simp add: acquire_def)
  next
    case (Inr u)
    show ?thesis
    proof (cases "map_of es ?nk")
      case (Some e)
      with Inr known assms show ?thesis by (simp add: acquire_def up)
    next
      case None
      consider (room) "length es < rl_max_keys cfg"
        | (pruned) "length es = rl_max_keys cfg" "prune_idle cfg now es \<noteq> es"
        | (full) "length es = rl_max_keys cfg" "prune_idle cfg now es = es"
        using assms by linarith
      then show ?thesis
      proof cases
        case room
        then show ?thesis using Inr None there [of _ es] by (simp add: acquire_def up)
      next
        case pruned
        then show ?thesis
          using Inr None there [of _ "prune_idle cfg now es"] shrinks by (simp add: acquire_def up)
      next
        case full
        then show ?thesis using Inr None by (simp add: acquire_def)
      qed
    qed
  qed
qed

theorem rate_store_bounded_witness:
  "length (snd (acquire rl_store_sample ''bob'' (rl_sample Gcra 1) 5 [])) \<le> 1"
  using rate_store_bounded [of "[]" rl_store_sample "''bob''" "rl_sample Gcra 1" 5]
  by (simp add: rl_store_sample_def)

text \<open>
  what the client sees. When the store refuses, the chain stops with the configured status and
  body and the response carries the limit, a remaining count of 0, and the retry delay twice; when it
  grants, the chain continues with the limit and the remaining count on the response.
\<close>

theorem rate_limit_handler_contract:
  assumes "\<not> path_allowed (req_path (ex_req s)) (rl_allowlist_paths cfg)"
    and "length (rl_key cfg (ex_req s) (ex_ctx s)) \<le> rl_max_key_length cfg"
    and "acquire sc (rl_key cfg (ex_req s) (ex_ctx s)) (rl_policy cfg) (rl_clock s) (rl_store s) = (Inr r, st)"
  shows "build_chain (RateLimit_handle (acquire sc) cfg # mws) h s =
    (let res = Response_header (ex_res s) ''ratelimit-limit'' (to_string_nat (policy_limit (rl_policy cfg)))
     in if rl_allowed r
        then build_chain mws h (s\<lparr>rl_store := st, ex_res :=
               Response_header res ''ratelimit-remaining'' (to_string_nat (rl_remaining r))\<rparr>)
        else (None, s\<lparr>rl_store := st, ex_res := Response_json (Response_status (Response_header (Response_header
               (Response_header res ''ratelimit-remaining'' ''0'')
               ''ratelimit-reset'' (to_string_int (retry_after r)))
               ''retry-after'' (to_string_int (retry_after r)))
               (rl_rejected_status cfg)) (rl_rejected_body cfg)\<rparr>))"
  using memory_store.rejected_response [OF assms] memory_store.admitted_response [OF assms]
  by (cases "rl_allowed r") (simp_all add: Let_def del: build_chain_Cons)

definition rl_mw_sample :: RateLimit_Config where
  "rl_mw_sample = \<lparr>rl_policy = rl_sample FixedWindow 1, rl_key_resolver = Some global_key,
     rl_allowlist_paths = [], rl_max_key_length = 32, rl_rejected_status = 429, rl_rejected_body = ''slow down''\<rparr>"

definition rl_exchange_sample :: "rl_entries rate_exchange" where
  "rl_exchange_sample = \<lparr>ex_req = empty_request, ex_res = default_response, ex_ctx = new_context 1,
     current_context = None, rl_store = [(normalized_key (rl_sample FixedWindow 1) ''global'',
       \<lparr>entry_algorithm = FixedWindow, entry_state = FixedWindowState 3 1, entry_updated_at = 3\<rparr>)], rl_clock = 4\<rparr>"

theorem rate_limit_handler_contract_witness:
  "status_code (ex_res (snd (build_chain [RateLimit_handle (acquire rl_store_sample) rl_mw_sample]
      (\<lambda>s. (None, s)) rl_exchange_sample))) = 429"
proof -
  have a: "\<not> path_allowed (req_path (ex_req rl_exchange_sample)) (rl_allowlist_paths rl_mw_sample)"
    by (simp add: rl_mw_sample_def)
  have k: "rl_key rl_mw_sample (ex_req rl_exchange_sample) (ex_ctx rl_exchange_sample) = ''global''"
    by (simp add: rl_key_def rl_mw_sample_def global_key_def)
  have b: "length (rl_key rl_mw_sample (ex_req rl_exchange_sample) (ex_ctx rl_exchange_sample)) \<le> rl_max_key_length rl_mw_sample"
    by (simp add: k) (simp add: rl_mw_sample_def)
  obtain r st where c: "acquire rl_store_sample (rl_key rl_mw_sample (ex_req rl_exchange_sample) (ex_ctx rl_exchange_sample))
      (rl_policy rl_mw_sample) (rl_clock rl_exchange_sample) (rl_store rl_exchange_sample) = (Inr r, st)"
    and refused: "\<not> rl_allowed r"
    unfolding k
    by (simp add: acquire_def rl_mw_sample_def rl_exchange_sample_def acquire_entry_def
        acquire_fixed_window_def rl_sample_window rl_sample_valid denied_def Let_def)
  from rate_limit_handler_contract [OF a b c, of "[]" "\<lambda>s. (None, s)"] refused show ?thesis
    by (simp add: response_defs) (simp add: rl_mw_sample_def)
qed

text \<open>
  a token bucket that is new to the store starts empty at the clock's epoch, not full at the
  time of the request (the branch that would fill it is never taken, because every entry starts out
  in the token-bucket alternative): the first request of a client is refused while the clock is below one refill period.
\<close>

theorem token_bucket_first_request_refused:
  assumes "policy_window p = Inr w" and "policy_algorithm p = TokenBucket" and "0 < rl_max_keys cfg"
    and "0 \<le> now" and "now * int (policy_limit p) < w"
  shows "\<exists>t. fst (acquire cfg key p now []) = Inr (denied t)"
proof -
  have v: "validate_policy p = Inr ()" using assms(1) by (cases "validate_policy p") (auto simp: policy_window_def)
  have "token_now p (TokenBucketState 0 0) now < 1"
  proof -
    have "token_rate p * of_int now < 1"
      using assms policy_window_pos [OF assms(1)] of_int_less_iff [of "now * int (policy_limit p)" w, where 'a = rat]
      by (simp add: token_rate_def field_simps)
    then show ?thesis using assms(4) by (simp add: token_now_def)
  qed
  moreover have "token_refill (burst_capacity p) (policy_limit p) w now 0 0 =
      (token_now p (TokenBucketState 0 0) now, max now 0)"
    by (rule token_refill_eq [OF assms(1)]) simp
  ultimately show ?thesis
    using assms(1-3) v
    by (auto simp: acquire_def acquire_entry_def fresh_entry_def acquire_token_bucket_def token_take_def Let_def)
qed

theorem token_bucket_first_request_refused_witness:
  "\<exists>t. fst (acquire rl_store_sample ''bob'' (rl_sample TokenBucket 100) 9999 []) = Inr (denied t)"
  by (rule token_bucket_first_request_refused [OF rl_sample_window])
     (simp_all add: rl_sample_def rl_store_sample_def)

end
