(* ===== verification/Rest_Client.thy ===== *)
theory Rest_Client
  imports Http1_Session Http_Multipart Exchange_Filters "HOL-Library.AList" "HOL-Library.Multiset"
begin

text \<open>
  The outgoing HTTP client of \<^verbatim>\<open>src/client/rest_client.cpp\<close>: the request it writes on an HTTP/1.1 connection,
  the incremental reader of responses, the tables of waiting requests of HTTP/2 and HTTP/3, what a lost
  connection does to them, reconnection and the retry policy. A coroutine that waits is a number; resuming it
  records the value its \<^verbatim>\<open>co_await\<close> returns. Encryption, sockets and the protocol libraries are parameters.
\<close>

section \<open>Responses\<close>

record ClientResponse =
  cr_status :: int
  cr_headers :: header_map
  cr_body :: string

definition response_ok :: "ClientResponse \<Rightarrow> bool" where
  "response_ok r \<longleftrightarrow> 200 \<le> cr_status r \<and> cr_status r < 300"

text \<open>\<^verbatim>\<open>std::stoi\<close>, for a 32-bit \<^verbatim>\<open>int\<close>.\<close>

definition stoi :: "string \<Rightarrow> int result" where
  "stoi s =
     (let s1 = dropWhile isspace s;
          neg = (s1 \<noteq> [] \<and> hd s1 = CHR ''-'');
          s2 = (if s1 \<noteq> [] \<and> (hd s1 = CHR ''-'' \<or> hd s1 = CHR ''+'') then tl s1 else s1);
          ds = takeWhile isdigit s2;
          v = (if neg then - int (dec_value ds) else int (dec_value ds))
      in if ds = [] then Inl (Invalid_argument ''stoi'')
         else if v < - (2 ^ 31) \<or> 2 ^ 31 \<le> v then Inl (Out_of_range ''stoi'')
         else Inr v)"

definition parse_status :: "string \<Rightarrow> int option" where
  "parse_status status_text =
     (if \<not> starts_with status_text ''HTTP/1.'' then None
      else case find_ch CHR '' '' status_text of
             None \<Rightarrow> None
           | Some i \<Rightarrow>
               let after = drop (i + 1) status_text
               in case stoi (substr_upto (find_ch CHR '' '' after) after) of Inl _ \<Rightarrow> None | Inr code \<Rightarrow> Some code)"

type_synonym read_headers = "header_map \<times> nat \<times> bool"

definition client_header :: "string \<Rightarrow> read_headers \<Rightarrow> read_headers result" where
  "client_header line st =
     (case st of (hs, len, chunked) \<Rightarrow>
        (case find_ch CHR '':'' line of
           None \<Rightarrow> Inr st
         | Some colon \<Rightarrow>
             let name = trim_by blank_or_tab (take colon line);
                 val = trim_by blank_or_tab (drop (colon + 1) line);
                 hs1 = HeaderMap_add hs name val
             in if lower name = ''content-length'' then
                  (case stoull val of Inl e \<Rightarrow> Inl e | Inr (v, _) \<Rightarrow> Inr (hs1, v, chunked))
                else if lower name = ''transfer-encoding'' then Inr (hs1, len, chunked \<or> lower val = ''chunked'')
                else Inr (hs1, len, chunked)))"

function client_headers :: "string \<Rightarrow> read_headers \<Rightarrow> read_headers result" where
  "client_headers block st =
     (if block = [] then Inr st
      else let line_end = (case find_crlf block of Some k \<Rightarrow> k | None \<Rightarrow> length block)
           in case client_header (take line_end block) st of
                Inl e \<Rightarrow> Inl e
              | Inr st1 \<Rightarrow> client_headers (drop (line_end + 2) block) st1)"
  by pat_completeness auto
termination by (relation "measure (\<lambda>(block, st). length block)") auto

declare client_headers.simps [simp del]

text \<open>The chunks of a body. Positions are 64 bit and wrap, so the loop need not end.\<close>

datatype chunk_outcome = Chunks_wait | Chunks_bad | Chunks_done string nat

partial_function (option) client_chunks :: "string \<Rightarrow> nat \<Rightarrow> string \<Rightarrow> chunk_outcome option" where
  "client_chunks buf pos body =
     (case find_crlf (drop pos buf) of
        None \<Rightarrow> Some Chunks_wait
      | Some k \<Rightarrow>
          (case stoull16 (take k (drop pos buf)) of
             Inl _ \<Rightarrow> Some Chunks_bad
           | Inr n \<Rightarrow>
               if n = 0 then
                 (if length buf < pos + k + 4 then Some Chunks_wait else Some (Chunks_done body (pos + k + 4)))
               else if length buf < (pos + k + 2 + n + 2) mod 2 ^ 64 then Some Chunks_wait
               else client_chunks buf ((pos + k + 2 + n + 2) mod 2 ^ 64) (body @ take n (drop (pos + k + 2) buf))))"

declare client_chunks.simps [code]

datatype parse_outcome = Parse_wait | Parse_throw exn | Parse_disconnect | Parse_done ClientResponse string

definition client_body :: "string \<Rightarrow> int \<Rightarrow> nat \<Rightarrow> read_headers \<Rightarrow> parse_outcome option" where
  "client_body buf code body_start st =
     (case st of (hs, len, chunked) \<Rightarrow>
        if chunked then
          (case client_chunks buf body_start [] of
             None \<Rightarrow> None
           | Some Chunks_wait \<Rightarrow> Some Parse_wait
           | Some Chunks_bad \<Rightarrow> Some Parse_disconnect
           | Some (Chunks_done body after) \<Rightarrow>
               Some (Parse_done \<lparr>cr_status = code, cr_headers = hs, cr_body = body\<rparr> (drop after buf)))
        else if length buf < (body_start + len) mod 2 ^ 64 then Some Parse_wait
        else Some (Parse_done \<lparr>cr_status = code, cr_headers = hs, cr_body = take len (drop body_start buf)\<rparr>
               (drop ((body_start + len) mod 2 ^ 64) buf)))"

definition parse_http1_response :: "string \<Rightarrow> parse_outcome option" where
  "parse_http1_response buf =
     (case find_crlf buf of
        None \<Rightarrow> Some Parse_wait
      | Some e \<Rightarrow>
          (case parse_status (take e buf) of
             None \<Rightarrow> Some Parse_wait
           | Some code \<Rightarrow>
               (case find_str (CRLF @ CRLF) (drop (e + 2) buf) of
                  None \<Rightarrow> Some Parse_wait
                | Some b \<Rightarrow>
                    (case client_headers (take b (drop (e + 2) buf)) ([], 0, False) of
                       Inl x \<Rightarrow> Some (Parse_throw x)
                     | Inr st \<Rightarrow> client_body buf code (e + 2 + b + 4) st))))"

section \<open>Requests\<close>

definition has_content_length :: "header_map \<Rightarrow> bool" where
  "has_content_length hs \<longleftrightarrow> (\<exists>h\<in>set hs. lower (hname h) = ''content-length'')"

fun to_hex_upper :: "nat \<Rightarrow> string" where
  "to_hex_upper n = (if n < 16 then [toupper (hex_digit n)] else to_hex_upper (n div 16) @ [toupper (hex_digit (n mod 16))])"

declare to_hex_upper.simps [simp del]

text \<open>A streamed body is the list of chunks its producer returns.\<close>

definition streamed_body :: "string list \<Rightarrow> string" where
  "streamed_body cs =
     concat (map (\<lambda>c. if c = [] then [] else to_hex_upper (length c) @ CRLF @ c @ CRLF) cs) @ ''0'' @ CRLF @ CRLF"

definition http1_request_text :: "string \<Rightarrow> string \<Rightarrow> string \<Rightarrow> string \<Rightarrow> header_map \<Rightarrow> string list option \<Rightarrow> string" where
  "http1_request_text host method path body headers stream =
     method @ '' '' @ path @ '' HTTP/1.1'' @ CRLF @ ''Host: '' @ host @ CRLF @ concat (map header_line headers) @
     (if body \<noteq> [] \<and> \<not> has_content_length headers then ''Content-Length: '' @ to_string_nat (length body) @ CRLF
      else if stream \<noteq> None \<and> \<not> has_content_length headers then ''Transfer-Encoding: chunked'' @ CRLF else []) @
     ''Connection: keep-alive'' @ CRLF @ CRLF @
     (if body \<noteq> [] then body else case stream of None \<Rightarrow> [] | Some cs \<Rightarrow> streamed_body cs)"

section \<open>The client\<close>

datatype Protocol = HTTP3 | HTTP2 | HTTP1_1

text \<open>The settings the client's own code consults; certificates and addresses go to the libraries, deadlines are part of a loop turn.\<close>

record Client_Config =
  cc_host :: string
  cc_port :: nat
  cc_protocol :: Protocol
  max_reconnect_attempts :: int
  propagate_trace_context :: bool
  max_request_attempts :: int
  should_retry :: "(string \<Rightarrow> ClientResponse \<Rightarrow> int \<Rightarrow> bool) option"

record H2PendingStream =
  h2_response :: ClientResponse
  h2_coroutine :: "nat option"
  h2_complete :: bool
  h2_cancelled :: bool

record H3PendingStream =
  h3_response :: "ClientResponse option"
  h3_coroutine :: "nat option"
  h3_cancelled :: bool

type_synonym request_result = "ClientResponse result"

record rest_client =
  cl_cfg :: Client_Config
  tcp_open :: bool
  tcp_connected :: bool
  tls_handshake_done :: bool
  quic_ready :: bool
  tcp_write_buf :: string
  http1_recv_buf :: string
  h2_session :: bool
  h2_pending :: "(int \<times> H2PendingStream) list"
  h3_pending :: "(int \<times> H3PendingStream) list"
  pending_tcp :: "nat option"
  tcp_response :: "ClientResponse option"
  reconnect_attempts :: int
  reconnect_pending :: bool
  reconnect_timer :: "int option"
  next_backoff :: int
  completed :: "(nat \<times> request_result) list"

definition kMaxBackoff :: int where
  "kMaxBackoff = 30000"

definition new_client :: "Client_Config \<Rightarrow> rest_client" where
  "new_client cfg = \<lparr>cl_cfg = cfg, tcp_open = False, tcp_connected = False, tls_handshake_done = False, quic_ready = False,
     tcp_write_buf = [], http1_recv_buf = [], h2_session = False, h2_pending = [], h3_pending = [], pending_tcp = None,
     tcp_response = None, reconnect_attempts = 0, reconnect_pending = False, reconnect_timer = None, next_backoff = 100,
     completed = []\<rparr>"

definition client_error :: "string \<Rightarrow> exn" where
  "client_error msg = Std_exception ''novaboot::client::ClientError'' msg"

definition request_cancelled :: exn where
  "request_cancelled = Std_exception ''novaboot::client::RequestCancelled'' ''RestClient request cancelled''"

definition error_response :: "string \<Rightarrow> ClientResponse" where
  "error_response msg = \<lparr>cr_status = 0, cr_headers = [], cr_body = msg\<rparr>"

definition complete_with :: "nat \<Rightarrow> request_result \<Rightarrow> rest_client \<Rightarrow> rest_client" where
  "complete_with w r c = c\<lparr>completed := completed c @ [(w, r)]\<rparr>"

text \<open>
  What a request does when it is resumed after its \<^verbatim>\<open>co_await\<close>, up to where it returns to its caller. The
  caller's own continuation also runs inside \<^verbatim>\<open>handle.resume()\<close> and may call the client again; in the model
  it runs, as a further step, once the event that resumed it has been handled. What this leaves out is the
  subject of \<open>rest_retry_lost_on_disconnect\<close>.
\<close>

definition resume_tcp :: "nat \<Rightarrow> rest_client \<Rightarrow> rest_client" where
  "resume_tcp w c =
     (case tcp_response c of
        Some r \<Rightarrow> complete_with w (Inr r) (c\<lparr>tcp_response := None\<rparr>)
      | None \<Rightarrow> complete_with w (Inl (client_error ''RestClient: request failed or connection lost'')) c)"

definition resume_h2 :: "int \<Rightarrow> nat \<Rightarrow> rest_client \<Rightarrow> rest_client" where
  "resume_h2 sid w c =
     (case map_of (h2_pending c) sid of
        Some st \<Rightarrow>
          if h2_complete st
          then complete_with w (if h2_cancelled st then Inl request_cancelled else Inr (h2_response st))
                 (c\<lparr>h2_pending := AList.delete sid (h2_pending c)\<rparr>)
          else complete_with w (Inl (client_error ''RestClient: HTTP/2 request failed or connection lost'')) c
      | None \<Rightarrow> complete_with w (Inl (client_error ''RestClient: HTTP/2 request failed or connection lost'')) c)"

definition resume_h3 :: "int \<Rightarrow> nat \<Rightarrow> rest_client \<Rightarrow> rest_client" where
  "resume_h3 sid w c =
     (case map_of (h3_pending c) sid of
        Some st \<Rightarrow>
          (case h3_response st of
             Some r \<Rightarrow> complete_with w (if h3_cancelled st then Inl request_cancelled else Inr r)
                         (c\<lparr>h3_pending := AList.delete sid (h3_pending c)\<rparr>)
           | None \<Rightarrow> complete_with w (Inl (client_error ''RestClient: response lost or connection dropped'')) c)
      | None \<Rightarrow> complete_with w (Inl (client_error ''RestClient: response lost or connection dropped'')) c)"

section \<open>Losing the connection\<close>

definition waiting_h2 :: "rest_client \<Rightarrow> (int \<times> nat) list" where
  "waiting_h2 c = concat (map (\<lambda>(sid, st). case h2_coroutine st of None \<Rightarrow> [] | Some w \<Rightarrow> [(sid, w)]) (h2_pending c))"

definition waiting_h3 :: "rest_client \<Rightarrow> (int \<times> nat) list" where
  "waiting_h3 c = concat (map (\<lambda>(sid, st). case h3_coroutine st of None \<Rightarrow> [] | Some w \<Rightarrow> [(sid, w)]) (h3_pending c))"

definition fail_entries :: "string \<Rightarrow> rest_client \<Rightarrow> rest_client" where
  "fail_entries msg c =
     c\<lparr>h3_pending := map (\<lambda>(sid, st). (sid, st\<lparr>h3_response := Some (error_response msg)\<rparr>)) (h3_pending c),
       h2_pending := map (\<lambda>(sid, st). (sid, st\<lparr>h2_complete := True, h2_response := error_response msg\<rparr>)) (h2_pending c),
       tcp_response := (if pending_tcp c = None then tcp_response c else Some (error_response msg)),
       pending_tcp := None\<rparr>"

definition complete_pending_with_error :: "string \<Rightarrow> rest_client \<Rightarrow> rest_client" where
  "complete_pending_with_error msg c =
     (let c1 = fail_entries msg c;
          c2 = fold (\<lambda>(sid, w). resume_h3 sid w) (waiting_h3 c) c1;
          c3 = fold (\<lambda>(sid, w). resume_h2 sid w) (waiting_h2 c) c2;
          c4 = (case pending_tcp c of None \<Rightarrow> c3 | Some w \<Rightarrow> resume_tcp w c3)
      in c4\<lparr>h3_pending := [], h2_pending := []\<rparr>)"

definition close_tcp :: "rest_client \<Rightarrow> rest_client" where
  "close_tcp c = c\<lparr>tcp_open := False, tcp_connected := False, tls_handshake_done := False, http1_recv_buf := [], h2_session := False\<rparr>"

definition schedule_reconnect :: "rest_client \<Rightarrow> rest_client" where
  "schedule_reconnect c =
     (if reconnect_pending c then c
      else let c1 = c\<lparr>reconnect_pending := True\<rparr>
           in if reconnect_attempts c1 \<ge> max_reconnect_attempts (cl_cfg c1) then c1
              else c1\<lparr>reconnect_timer := Some (next_backoff c1), next_backoff := min (next_backoff c1 * 2) kMaxBackoff,
                      reconnect_attempts := reconnect_attempts c1 + 1\<rparr>)"

definition on_disconnect :: "rest_client \<Rightarrow> rest_client" where
  "on_disconnect c = schedule_reconnect (close_tcp (complete_pending_with_error ''Connection lost'' c))"

text \<open>Each call of \<^verbatim>\<open>send\<close> accepts some bytes, would block, or fails; when nothing more is known it would block.\<close>

datatype send_result = Sent nat | Would_block | Send_failed

fun write_pending_tcp_data :: "send_result list \<Rightarrow> rest_client \<Rightarrow> rest_client" where
  "write_pending_tcp_data [] c = c"
| "write_pending_tcp_data (r # rs) c =
     (if tcp_write_buf c = [] then c
      else case r of
             Would_block \<Rightarrow> c
           | Send_failed \<Rightarrow> on_disconnect c
           | Sent n \<Rightarrow> if n = 0 then on_disconnect c
                       else write_pending_tcp_data rs (c\<lparr>tcp_write_buf := drop n (tcp_write_buf c)\<rparr>))"

text \<open>
  A step of the TLS handshake: the bytes it writes, whether the handshake is complete, and, for HTTP/2, the
  connection preface the protocol library writes then and the results of sending it.
\<close>

record tls_step =
  hs_out :: string
  hs_complete :: bool
  hs_preface :: string
  hs_sends :: "send_result list"

definition init_h2_session :: "string \<Rightarrow> send_result list \<Rightarrow> rest_client \<Rightarrow> rest_client" where
  "init_h2_session preface sends c =
     write_pending_tcp_data sends (c\<lparr>h2_session := True, tcp_write_buf := tcp_write_buf c @ preface\<rparr>)"

definition finish_handshake :: "tls_step \<Rightarrow> rest_client \<Rightarrow> rest_client" where
  "finish_handshake t c =
     (let c1 = c\<lparr>tls_handshake_done := True\<rparr>
      in if cc_protocol (cl_cfg c) = HTTP2 then init_h2_session (hs_preface t) (hs_sends t) c1 else c1)"

text \<open>
  The result of connecting a socket: an error before it exists, an error of \<^verbatim>\<open>connect\<close>, a connection in
  progress, or a connection with the first step of the handshake.
\<close>

datatype connect_result = No_socket | Connect_failed string | In_progress | Connected tls_step "send_result list"

definition do_connect_tcp :: "connect_result \<Rightarrow> rest_client \<Rightarrow> exn option \<times> rest_client" where
  "do_connect_tcp r c =
     (case r of
        No_socket \<Rightarrow> (Some (client_error ''RestClient: failed to create TCP socket''), c)
      | Connect_failed why \<Rightarrow>
          (Some (client_error (''RestClient: connect failed: '' @ why)),
           c\<lparr>tcp_open := False, tcp_connected := False, tls_handshake_done := False\<rparr>)
      | In_progress \<Rightarrow> (None, c\<lparr>tcp_open := True, tcp_connected := False, tls_handshake_done := False\<rparr>)
      | Connected t sends \<Rightarrow>
          let c1 = c\<lparr>tcp_open := True, tcp_connected := True, tls_handshake_done := False\<rparr>;
              c2 = (if hs_out t = [] then c1
                    else write_pending_tcp_data sends (c1\<lparr>tcp_write_buf := tcp_write_buf c1 @ hs_out t\<rparr>))
          in (None, if hs_complete t then finish_handshake t c2 else c2))"

definition handle_tcp_writable :: "bool \<Rightarrow> tls_step \<Rightarrow> send_result list \<Rightarrow> rest_client \<Rightarrow> rest_client" where
  "handle_tcp_writable socket_error t sends c =
     (if tcp_connected c then write_pending_tcp_data sends c
      else if socket_error then on_disconnect c
      else let c1 = c\<lparr>tcp_connected := True, tcp_write_buf := tcp_write_buf c @ hs_out t\<rparr>
           in write_pending_tcp_data sends (if hs_complete t then finish_handshake t c1 else c1))"

definition do_reconnect :: "connect_result \<Rightarrow> rest_client \<Rightarrow> rest_client" where
  "do_reconnect r c =
     (case do_connect_tcp r (close_tcp c) of
        (None, c1) \<Rightarrow> c1
      | (Some e, c1) \<Rightarrow> on_disconnect c1)"

definition reconnect_fires :: "connect_result \<Rightarrow> rest_client \<Rightarrow> rest_client" where
  "reconnect_fires r c = do_reconnect r (c\<lparr>reconnect_pending := False, reconnect_timer := None\<rparr>)"

definition quic_handshake_done :: "rest_client \<Rightarrow> rest_client" where
  "quic_handshake_done c = c\<lparr>quic_ready := True, reconnect_attempts := 0, next_backoff := 100\<rparr>"

text \<open>The QUIC connection reports that it is closed: it is no longer usable, and the client is told.\<close>

definition quic_disconnected :: "rest_client \<Rightarrow> rest_client" where
  "quic_disconnected c = on_disconnect (c\<lparr>quic_ready := False\<rparr>)"

definition is_connected :: "rest_client \<Rightarrow> bool" where
  "is_connected c =
     (if cc_protocol (cl_cfg c) = HTTP3 then quic_ready c
      else tcp_open c \<and> tcp_connected c \<and> tls_handshake_done c)"

section \<open>Receiving\<close>

definition try_parse_http1_response :: "rest_client \<Rightarrow> (exn option \<times> rest_client) option" where
  "try_parse_http1_response c =
     (case parse_http1_response (http1_recv_buf c) of
        None \<Rightarrow> None
      | Some Parse_wait \<Rightarrow> Some (None, c)
      | Some (Parse_throw e) \<Rightarrow> Some (Some e, c)
      | Some Parse_disconnect \<Rightarrow> Some (None, on_disconnect c)
      | Some (Parse_done r after) \<Rightarrow>
          let c1 = c\<lparr>http1_recv_buf := after, tcp_response := Some r, pending_tcp := None\<rparr>
          in Some (None, case pending_tcp c of None \<Rightarrow> c1 | Some w \<Rightarrow> resume_tcp w c1))"

definition process_http1_data :: "string \<Rightarrow> rest_client \<Rightarrow> (exn option \<times> rest_client) option" where
  "process_http1_data data c = try_parse_http1_response (c\<lparr>http1_recv_buf := http1_recv_buf c @ data\<rparr>)"

definition new_h2_stream :: H2PendingStream where
  "new_h2_stream = \<lparr>h2_response = \<lparr>cr_status = 0, cr_headers = [], cr_body = []\<rparr>, h2_coroutine = None,
     h2_complete = False, h2_cancelled = False\<rparr>"

definition h2_stream :: "int \<Rightarrow> rest_client \<Rightarrow> H2PendingStream" where
  "h2_stream sid c = (case map_of (h2_pending c) sid of Some st \<Rightarrow> st | None \<Rightarrow> new_h2_stream)"

definition put_h2 :: "int \<Rightarrow> H2PendingStream \<Rightarrow> rest_client \<Rightarrow> rest_client" where
  "put_h2 sid st c = c\<lparr>h2_pending := AList.update sid st (h2_pending c)\<rparr>"

definition h2_on_header :: "bool \<Rightarrow> int \<Rightarrow> string \<Rightarrow> string \<Rightarrow> rest_client \<Rightarrow> exn option \<times> rest_client" where
  "h2_on_header response_headers sid name val c =
     (if \<not> response_headers then (None, c)
      else let st = h2_stream sid c; r = h2_response st
           in if name = '':status'' then
                (case stoi val of
                   Inl e \<Rightarrow> (Some e, put_h2 sid st c)
                 | Inr code \<Rightarrow> (None, put_h2 sid (st\<lparr>h2_response := r\<lparr>cr_status := code\<rparr>\<rparr>) c))
              else (None, put_h2 sid (st\<lparr>h2_response := r\<lparr>cr_headers := HeaderMap_add (cr_headers r) name val\<rparr>\<rparr>) c))"

definition h2_on_data_chunk :: "int \<Rightarrow> string \<Rightarrow> rest_client \<Rightarrow> rest_client" where
  "h2_on_data_chunk sid data c =
     (case map_of (h2_pending c) sid of
        None \<Rightarrow> c
      | Some st \<Rightarrow> let r = h2_response st in put_h2 sid (st\<lparr>h2_response := r\<lparr>cr_body := cr_body r @ data\<rparr>\<rparr>) c)"

definition h2_on_stream_close :: "int \<Rightarrow> rest_client \<Rightarrow> rest_client" where
  "h2_on_stream_close sid c =
     (case map_of (h2_pending c) sid of
        None \<Rightarrow> c
      | Some st \<Rightarrow>
          let c1 = put_h2 sid (st\<lparr>h2_complete := True\<rparr>) c
          in case h2_coroutine st of None \<Rightarrow> c1 | Some w \<Rightarrow> resume_h2 sid w c1)"

text \<open>Cancelling resets the stream; the bytes of the reset are written by the protocol library.\<close>

definition cancel_h2_stream :: "int \<Rightarrow> string \<Rightarrow> send_result list \<Rightarrow> rest_client \<Rightarrow> rest_client" where
  "cancel_h2_stream sid reset sends c =
     (case map_of (h2_pending c) sid of
        None \<Rightarrow> c
      | Some st \<Rightarrow>
          if h2_complete st then c
          else let c1 = put_h2 sid (st\<lparr>h2_cancelled := True, h2_complete := True\<rparr>) c;
                   c2 = write_pending_tcp_data sends (c1\<lparr>tcp_write_buf := tcp_write_buf c1 @ reset\<rparr>)
               in case h2_coroutine st of None \<Rightarrow> c2 | Some w \<Rightarrow> resume_h2 sid w c2)"

definition h3_on_response :: "int \<Rightarrow> ClientResponse \<Rightarrow> rest_client \<Rightarrow> rest_client" where
  "h3_on_response sid r c =
     (case map_of (h3_pending c) sid of
        None \<Rightarrow> c
      | Some st \<Rightarrow>
          let c1 = c\<lparr>h3_pending := AList.update sid (st\<lparr>h3_response := Some r\<rparr>) (h3_pending c)\<rparr>
          in case h3_coroutine st of None \<Rightarrow> c1 | Some w \<Rightarrow> resume_h3 sid w c1)"

definition cancel_h3_stream :: "int \<Rightarrow> rest_client \<Rightarrow> rest_client" where
  "cancel_h3_stream sid c =
     (case map_of (h3_pending c) sid of
        None \<Rightarrow> c
      | Some st \<Rightarrow>
          if h3_response st \<noteq> None then c
          else let c1 = c\<lparr>h3_pending := AList.update sid
                     (st\<lparr>h3_cancelled := True, h3_response := Some (error_response ''cancelled'')\<rparr>) (h3_pending c)\<rparr>
               in case h3_coroutine st of None \<Rightarrow> c1 | Some w \<Rightarrow> resume_h3 sid w c1)"

text \<open>
  Bytes for HTTP/2 go to the protocol library, which calls back and may have frames to send.
\<close>

datatype h2_event = On_header bool int string string | On_data int string | On_close int

fun h2_events :: "h2_event list \<Rightarrow> rest_client \<Rightarrow> exn option \<times> rest_client" where
  "h2_events [] c = (None, c)"
| "h2_events (On_header resp sid n v # es) c =
     (case h2_on_header resp sid n v c of (Some e, c1) \<Rightarrow> (Some e, c1) | (None, c1) \<Rightarrow> h2_events es c1)"
| "h2_events (On_data sid d # es) c = h2_events es (h2_on_data_chunk sid d c)"
| "h2_events (On_close sid # es) c = h2_events es (h2_on_stream_close sid c)"

record h2_input =
  hi_events :: "h2_event list"
  hi_failed :: bool
  hi_frames :: string
  hi_sends :: "send_result list"

definition process_h2_data :: "h2_input \<Rightarrow> rest_client \<Rightarrow> exn option \<times> rest_client" where
  "process_h2_data i c =
     (if \<not> h2_session c then (None, c)
      else case h2_events (hi_events i) c of
             (Some e, c1) \<Rightarrow> (Some e, c1)
           | (None, c1) \<Rightarrow>
               (if hi_failed i then (None, on_disconnect c1)
                else (None, write_pending_tcp_data (hi_sends i) (c1\<lparr>tcp_write_buf := tcp_write_buf c1 @ hi_frames i\<rparr>))))"

definition process_decrypted_tcp_data :: "string \<Rightarrow> h2_input \<Rightarrow> rest_client \<Rightarrow> (exn option \<times> rest_client) option" where
  "process_decrypted_tcp_data data i c =
     (if cc_protocol (cl_cfg c) = HTTP1_1 then process_http1_data data c
      else if cc_protocol (cl_cfg c) = HTTP2 then Some (process_h2_data i c)
      else Some (None, c))"

datatype recv_result = Recv_wait | Recv_closed | Feed_failed | Fed tls_step "send_result list" string h2_input

definition handle_tcp_readable :: "recv_result \<Rightarrow> rest_client \<Rightarrow> (exn option \<times> rest_client) option" where
  "handle_tcp_readable r c =
     (case r of
        Recv_wait \<Rightarrow> Some (None, c)
      | Recv_closed \<Rightarrow> Some (None, on_disconnect c)
      | Feed_failed \<Rightarrow> Some (None, on_disconnect c)
      | Fed t sends data i \<Rightarrow>
          let c1 = (if hs_out t = [] then c
                    else write_pending_tcp_data sends (c\<lparr>tcp_write_buf := tcp_write_buf c @ hs_out t\<rparr>))
          in if \<not> hs_complete t then Some (None, c1)
             else let c2 = (if tls_handshake_done c1 then c1 else finish_handshake t c1)
                  in if data = [] then Some (None, c2) else process_decrypted_tcp_data data i c2)"

section \<open>Sending\<close>

text \<open>
  A request up to the point where it waits. On HTTP/1.1 the text is encrypted and written; on HTTP/2 the
  library assigns a stream and produces frames; on HTTP/3 it assigns a stream.
\<close>

definition start_http1_request ::
    "(string \<Rightarrow> string option) \<Rightarrow> send_result list \<Rightarrow> nat \<Rightarrow> string \<Rightarrow> string \<Rightarrow> string \<Rightarrow> header_map \<Rightarrow> string list option \<Rightarrow>
     rest_client \<Rightarrow> exn option \<times> rest_client" where
  "start_http1_request enc sends w method path body headers stream c =
     (case enc (http1_request_text (cc_host (cl_cfg c)) method path body headers stream) of
        None \<Rightarrow> (Some (client_error ''RestClient: failed to encrypt HTTP/1.1 request''), c)
      | Some bytes \<Rightarrow>
          (None, (write_pending_tcp_data sends (c\<lparr>tcp_write_buf := tcp_write_buf c @ bytes\<rparr>))\<lparr>pending_tcp := Some w\<rparr>))"

definition start_h2_request :: "int \<Rightarrow> string \<Rightarrow> send_result list \<Rightarrow> nat \<Rightarrow> rest_client \<Rightarrow> exn option \<times> rest_client" where
  "start_h2_request sid frames sends w c =
     (if \<not> h2_session c then (Some (client_error ''RestClient: HTTP/2 session not ready''), c)
      else if sid < 0 then (Some (client_error ''RestClient: failed to submit H2 request''), c)
      else let c1 = write_pending_tcp_data sends (c\<lparr>tcp_write_buf := tcp_write_buf c @ frames\<rparr>)
           in (None, put_h2 sid ((h2_stream sid c1)\<lparr>h2_coroutine := Some w\<rparr>) c1))"

definition start_h3_request :: "int \<Rightarrow> nat \<Rightarrow> rest_client \<Rightarrow> exn option \<times> rest_client" where
  "start_h3_request sid w c =
     (if sid < 0 then (Some (client_error ''RestClient: failed to submit''), c)
      else (None, c\<lparr>h3_pending := AList.update sid
             (case map_of (h3_pending c) sid of
                Some st \<Rightarrow> st\<lparr>h3_coroutine := Some w\<rparr>
              | None \<Rightarrow> \<lparr>h3_response = None, h3_coroutine = Some w, h3_cancelled = False\<rparr>) (h3_pending c)\<rparr>))"

text \<open>The header list of an HTTP/2 request, and its body as the protocol library reads it, at most \<open>n\<close> bytes at a time.\<close>

definition h2_request_fields :: "string \<Rightarrow> nat \<Rightarrow> string \<Rightarrow> string \<Rightarrow> header_map \<Rightarrow> (string \<times> string) list" where
  "h2_request_fields host port method path headers =
     [('':method'', method), ('':path'', path), ('':scheme'', ''https''), ('':authority'', host @ '':'' @ to_string_nat port)] @
     map (\<lambda>h. (hname h, hvalue h)) headers"

record RequestBodySource =
  bs_data :: string
  bs_offset :: nat
  bs_provider :: "string list"
  bs_finished :: bool

definition new_body_source :: "string \<Rightarrow> string list option \<Rightarrow> RequestBodySource" where
  "new_body_source body stream =
     \<lparr>bs_data = body, bs_offset = 0, bs_provider = (case stream of None \<Rightarrow> [] | Some cs \<Rightarrow> cs), bs_finished = (stream = None)\<rparr>"

definition refill :: "RequestBodySource \<Rightarrow> RequestBodySource" where
  "refill src =
     (if bs_offset src \<ge> length (bs_data src) \<and> \<not> bs_finished src then
        (case bs_provider src of
           chunk # rest \<Rightarrow> if chunk \<noteq> [] then src\<lparr>bs_data := chunk, bs_offset := 0, bs_provider := rest\<rparr>
                           else src\<lparr>bs_data := [], bs_offset := 0, bs_provider := rest, bs_finished := True\<rparr>
         | [] \<Rightarrow> src\<lparr>bs_data := [], bs_offset := 0, bs_finished := True\<rparr>)
      else src)"

definition h2_client_read :: "nat \<Rightarrow> RequestBodySource \<Rightarrow> string \<times> bool \<times> RequestBodySource" where
  "h2_client_read n src0 =
     (let src = refill src0;
          to_write = min n (length (bs_data src) - bs_offset src);
          src1 = src\<lparr>bs_offset := bs_offset src + to_write\<rparr>
      in (take to_write (drop (bs_offset src) (bs_data src)),
          bs_offset src1 \<ge> length (bs_data src1) \<and> bs_finished src1, src1))"

text \<open>
  Waiting for the handshake and for an answer, in turns of the event loop: whether the caller has cancelled, whether
  the QUIC connection has failed, whether the deadline has passed after the turn, and what the turn does.
\<close>

record loop_turn =
  lt_cancelled :: bool
  lt_quic_failed :: bool
  lt_late :: bool
  lt_run :: "rest_client \<Rightarrow> rest_client"

fun wait_for_connection :: "loop_turn list \<Rightarrow> rest_client \<Rightarrow> (exn option \<times> rest_client) option" where
  "wait_for_connection [] c = (if is_connected c then Some (None, c) else None)"
| "wait_for_connection (t # ts) c =
     (if is_connected c then Some (None, c)
      else if lt_cancelled t then Some (Some request_cancelled, c)
      else if (if cc_protocol (cl_cfg c) = HTTP3 then lt_quic_failed t else \<not> tcp_open c)
      then Some (Some (client_error (''RestClient: connection to '' @ cc_host (cl_cfg c) @ '':'' @ to_string_nat (cc_port (cl_cfg c)) @ '' failed'')), c)
      else if lt_late t then Some (Some (client_error ''RestClient: handshake timed out''), c)
      else wait_for_connection ts (lt_run t c))"

fun sync_execute :: "nat \<Rightarrow> loop_turn list \<Rightarrow> rest_client \<Rightarrow> (request_result \<times> rest_client) option" where
  "sync_execute w [] c = (case map_of (completed c) w of Some r \<Rightarrow> Some (r, c) | None \<Rightarrow> None)"
| "sync_execute w (t # ts) c =
     (case map_of (completed c) w of
        Some r \<Rightarrow> Some (r, c)
      | None \<Rightarrow>
          let c1 = lt_run t c
          in if lt_late t then Some (Inl (client_error ''RestClient: request timed out''), on_disconnect c1)
             else sync_execute w ts c1)"

text \<open>
  The retry loop. \<open>attempt\<close> is one request, with the headers and, the first time only, the streamed body; it
  runs to its end and may change anything in the world, which also holds the cancellation token.
\<close>

function retry_loop ::
    "('w \<Rightarrow> bool) \<Rightarrow> (string list option \<Rightarrow> 'w \<Rightarrow> request_result \<times> 'w) \<Rightarrow> (ClientResponse \<Rightarrow> int \<Rightarrow> bool) option \<Rightarrow> int \<Rightarrow> int \<Rightarrow>
     string list option \<Rightarrow> 'w \<Rightarrow> request_result \<times> 'w" where
  "retry_loop cancelled attempt retry max_attempts k stream w =
     (if k > max_attempts then (Inl (client_error ''RestClient retry loop terminated unexpectedly''), w)
      else case attempt stream w of
             (Inl e, w1) \<Rightarrow> (Inl e, w1)
           | (Inr r, w1) \<Rightarrow>
               (if cancelled w1 then (Inl request_cancelled, w1)
                else if k = max_attempts \<or> (case retry of None \<Rightarrow> True | Some p \<Rightarrow> \<not> p r k) then (Inr r, w1)
                else retry_loop cancelled attempt retry max_attempts (k + 1) None w1))"
  by pat_completeness auto
termination by (relation "measure (\<lambda>(_, _, _, m, k, _, _). nat (m - k + 1))") auto

declare retry_loop.simps [simp del]

definition traced_headers :: "nat list option \<Rightarrow> nat list option \<Rightarrow> Client_Config \<Rightarrow> header_map \<Rightarrow> header_map result" where
  "traced_headers rand_trace rand_span cfg headers =
     (if propagate_trace_context cfg \<and> \<not> HeaderMap_has headers ''traceparent''
      then case begin_client_span rand_trace rand_span None of
             Inl e \<Rightarrow> Inl e
           | Inr t \<Rightarrow> Inr (inject_trace_headers t headers)
      else Inr headers)"

definition async_request_with_retry ::
    "nat list option \<Rightarrow> nat list option \<Rightarrow> Client_Config \<Rightarrow> ('w \<Rightarrow> bool) \<Rightarrow>
     (string \<Rightarrow> string \<Rightarrow> string \<Rightarrow> header_map \<Rightarrow> string list option \<Rightarrow> 'w \<Rightarrow> request_result \<times> 'w) \<Rightarrow>
     string \<Rightarrow> string \<Rightarrow> string \<Rightarrow> header_map \<Rightarrow> string list option \<Rightarrow> 'w \<Rightarrow> request_result \<times> 'w" where
  "async_request_with_retry rand_trace rand_span cfg cancelled async_request method path body headers stream w =
     (case traced_headers rand_trace rand_span cfg headers of
        Inl e \<Rightarrow> (Inl e, w)
      | Inr hs \<Rightarrow>
          retry_loop cancelled (async_request method path body hs)
            (case should_retry cfg of None \<Rightarrow> None | Some p \<Rightarrow> Some (p method))
            (max 1 (max_request_attempts cfg)) 1 stream w)"

text \<open>The calls of the interface, over a request with retries.\<close>

type_synonym 'w requester = "string \<Rightarrow> string \<Rightarrow> string \<Rightarrow> header_map \<Rightarrow> string list option \<Rightarrow> 'w \<Rightarrow> request_result \<times> 'w"

definition async_get :: "'w requester \<Rightarrow> string \<Rightarrow> header_map \<Rightarrow> 'w \<Rightarrow> request_result \<times> 'w" where
  "async_get req path headers = req ''GET'' path [] headers None"

definition async_post :: "'w requester \<Rightarrow> string \<Rightarrow> string \<Rightarrow> header_map \<Rightarrow> 'w \<Rightarrow> request_result \<times> 'w" where
  "async_post req path body headers = req ''POST'' path body headers None"

definition async_put :: "'w requester \<Rightarrow> string \<Rightarrow> string \<Rightarrow> header_map \<Rightarrow> 'w \<Rightarrow> request_result \<times> 'w" where
  "async_put req path body headers = req ''PUT'' path body headers None"

definition async_del :: "'w requester \<Rightarrow> string \<Rightarrow> header_map \<Rightarrow> 'w \<Rightarrow> request_result \<times> 'w" where
  "async_del req path headers = req ''DELETE'' path [] headers None"

definition async_patch :: "'w requester \<Rightarrow> string \<Rightarrow> string \<Rightarrow> header_map \<Rightarrow> 'w \<Rightarrow> request_result \<times> 'w" where
  "async_patch req path body headers = req ''PATCH'' path body headers None"

definition async_post_stream :: "'w requester \<Rightarrow> string \<Rightarrow> string list \<Rightarrow> header_map \<Rightarrow> 'w \<Rightarrow> request_result \<times> 'w" where
  "async_post_stream req path chunks headers = req ''POST'' path [] headers (Some chunks)"

definition async_put_stream :: "'w requester \<Rightarrow> string \<Rightarrow> string list \<Rightarrow> header_map \<Rightarrow> 'w \<Rightarrow> request_result \<times> 'w" where
  "async_put_stream req path chunks headers = req ''PUT'' path [] headers (Some chunks)"

section \<open>Reading what the server writes\<close>

lemma find_crlf_longer: "find_crlf s = Some k \<Longrightarrow> find_crlf (s @ t) = Some k"
  by (induction s arbitrary: k rule: find_crlf.induct) (auto split: if_splits)

lemma find_crlf_absent: "CR \<notin> set s \<Longrightarrow> find_crlf s = None"
  by (induction s rule: find_crlf.induct) auto

lemma starts_with_longer: "starts_with s p \<Longrightarrow> starts_with (s @ t) p"
  by (metis append_assoc starts_withD starts_with_append)

lemma find_str_length: "find_str p s = Some k \<Longrightarrow> k + length p \<le> length s"
proof (induction s arbitrary: k)
  case (Cons c s)
  show ?case
  proof (cases "starts_with (c # s) p")
    case True
    then have "length p \<le> length (c # s)" by (auto simp: starts_with_def dest: arg_cong [of _ _ length])
    with True Cons.prems show ?thesis by simp
  next
    case False
    with Cons show ?thesis by auto
  qed
qed (auto split: if_splits)

lemma starts_with_shorter_text:
  assumes "starts_with (s @ t) p" "length p \<le> length s"
  shows "starts_with s p"
  using assms by (simp add: starts_with_def)

lemma find_str_longer: "find_str p s = Some k \<Longrightarrow> find_str p (s @ t) = Some k"
proof (induction s arbitrary: k)
  case Nil
  then show ?case by (cases t) (auto split: if_splits)
next
  case (Cons c s)
  have "length p \<le> length (c # s)" using find_str_length [OF Cons.prems] by simp
  then have "starts_with (c # s @ t) p \<longleftrightarrow> starts_with (c # s) p"
    using starts_with_longer [of "c # s" p t] starts_with_shorter_text [of "c # s" t p] by auto
  with Cons show ?case by (auto split: if_splits)
qed

text \<open>The lines of a header block: every line ends with CRLF, the last one of the block excepted.\<close>

fun header_block :: "(string \<times> string) list \<Rightarrow> string" where
  "header_block [] = []"
| "header_block [h] = fst h @ '': '' @ snd h"
| "header_block (h # g # hs) = (fst h @ '': '' @ snd h) @ CRLF @ header_block (g # hs)"

lemma header_texts: "hs \<noteq> [] \<Longrightarrow> concat (map header_text hs) = header_block hs @ CRLF"
  by (induction hs rule: header_block.induct) (simp_all add: header_text_def)

lemma find_header_end:
  assumes "hs \<noteq> []" "list_all field_ok hs"
  shows "find_str (CRLF @ CRLF) (header_block hs @ CRLF @ CRLF @ rest) = Some (length (header_block hs))"
  using assms
proof (induction hs rule: header_block.induct)
  case (2 h)
  then have "CR \<notin> set (fst h @ '': '' @ snd h)" by (simp add: field_ok_def)
  from find_str_skip [OF this, of "[LF, CR, LF]" "CRLF @ CRLF @ rest"] show ?case by simp
next
  case (3 h g hs)
  let ?line = "fst h @ '': '' @ snd h" and ?tail = "header_block (g # hs) @ CRLF @ CRLF @ rest"
  have line: "CR \<notin> set ?line" "CR \<notin> set (fst g)" using 3(3) by (simp_all add: field_ok_def)
  obtain d u where tail: "?tail = d # u" "d \<noteq> CR"
    using line(2) by (cases "fst g"; cases hs) auto
  have "find_str (CRLF @ CRLF) (CRLF @ ?tail) = map_option (\<lambda>k. Suc (Suc k)) (find_str (CRLF @ CRLF) ?tail)"
    unfolding tail(1) using tail(2) by (simp add: option.map_comp comp_def)
  then have "find_str (CRLF @ CRLF) (?line @ CRLF @ ?tail) = Some (length ?line + 2 + length (header_block (g # hs)))"
    using find_str_skip [OF line(1), of "[LF, CR, LF]" "CRLF @ ?tail"] 3 by simp
  then show ?case by simp
qed simp

definition read_field :: "string \<times> string \<Rightarrow> read_headers \<Rightarrow> read_headers" where
  "read_field h st =
     (case st of (hs, len, chunked) \<Rightarrow>
        (hs @ [header_entry h], if lower (fst h) = ''content-length'' then fst (projr (stoull (snd h))) else len,
         chunked \<or> lower (fst h) = ''transfer-encoding'' \<and> lower (snd h) = ''chunked''))"

lemma client_header_field:
  assumes "field_ok h" "length_parses h"
  shows "client_header (fst h @ '': '' @ snd h) st = Inr (read_field h st)"
proof -
  have "find_ch CHR '':'' (fst h @ '': '' @ snd h) = Some (length (fst h))"
    using assms(1) find_ch_append [of "CHR '':''" "fst h" "CHR '' '' # snd h"] by (simp add: field_ok_def)
  moreover have "trim_by blank_or_tab (fst h) = fst h" "trim_by blank_or_tab (CHR '' '' # snd h) = snd h"
    using assms(1) by (simp_all add: field_ok_def h1_trim_def)
  ultimately show ?thesis using assms(2)
    by (cases st) (auto simp: client_header_def read_field_def HeaderMap_add_def header_entry_def length_parses_def Let_def)
qed

lemma client_headers_line:
  assumes "find_crlf (l @ CRLF @ t) = Some (length l)"
  shows "client_headers (l @ CRLF @ t) st = (case client_header l st of Inl e \<Rightarrow> Inl e | Inr st1 \<Rightarrow> client_headers t st1)"
proof -
  have "drop (length l + 2) (l @ CRLF @ t) = t" by simp
  with assms show ?thesis by (subst client_headers.simps, cases "client_header l st") simp_all
qed

lemma client_headers_block:
  assumes "list_all field_ok hs" "list_all length_parses hs"
  shows "client_headers (header_block hs) st = Inr (fold read_field hs st)"
  using assms
proof (induction hs arbitrary: st rule: header_block.induct)
  case 1
  then show ?case by (simp add: client_headers.simps)
next
  case (2 h)
  let ?line = "fst h @ '': '' @ snd h"
  have "CR \<notin> set ?line" using 2(1) by (simp add: field_ok_def)
  then have "find_crlf ?line = None" by (rule find_crlf_absent)
  then show ?case
    using 2 client_header_field [of h st] by (subst client_headers.simps) (simp add: client_headers.simps [of "[]"])
next
  case (3 h g hs)
  let ?line = "fst h @ '': '' @ snd h"
  have "CR \<notin> set ?line" using 3(2) by (simp add: field_ok_def)
  then have "find_crlf (?line @ CRLF @ header_block (g # hs)) = Some (length ?line)"
    using find_crlf_append [of ?line "header_block (g # hs)"] by simp
  from client_headers_line [OF this] 3 client_header_field [of h st] show ?case by simp
qed

text \<open>A response with a declared length, as a text.\<close>

definition response_text :: "int \<Rightarrow> string \<Rightarrow> (string \<times> string) list \<Rightarrow> string \<Rightarrow> string" where
  "response_text code reason hs body =
     (''HTTP/1.1 '' @ to_string_int code @ '' '' @ reason) @ CRLF @ concat (map header_text hs) @ CRLF @ body"

lemma to_string_int_nat: "0 \<le> i \<Longrightarrow> to_string_int i = to_string_nat (nat i)"
  by (simp add: to_string_int_def)

lemma stoi_to_string:
  assumes "0 \<le> i" "i < 2 ^ 31"
  shows "stoi (to_string_int i) = Inr i"
proof -
  let ?s = "to_string_nat (nat i)"
  obtain c cs where s: "?s = c # cs" by (cases ?s) auto
  have digits: "\<forall>c\<in>set ?s. isdigit c" by (rule to_string_nat_digits)
  then have c: "isdigit c" "c \<noteq> CHR ''-''" "c \<noteq> CHR ''+''" using s by auto
  have "dropWhile isspace ?s = ?s" "takeWhile isdigit ?s = ?s" using digits c s by (simp_all add: takeWhile_eq_all_conv)
  moreover have "hd ?s \<noteq> CHR ''-''" "hd ?s \<noteq> CHR ''+''" using c s by auto
  ultimately show ?thesis
    using assms by (simp add: stoi_def to_string_int_nat Let_def del: takeWhile_eq_all_conv)
qed

lemma parse_status_line:
  assumes "0 \<le> code" "code < 2 ^ 31"
  shows "parse_status (''HTTP/1.1 '' @ to_string_int code @ '' '' @ reason) = Some code"
proof -
  let ?t = "to_string_int code"
  have "CHR '' '' \<notin> set ?t"
  proof -
    have "\<not> isdigit CHR '' ''" by code_simp
    then show ?thesis using to_string_nat_digits [of "nat code"] assms(1) by (auto simp: to_string_int_nat)
  qed
  then have t: "find_ch CHR '' '' (?t @ '' '' @ reason) = Some (length ?t)"
    using find_ch_append [of "CHR '' ''" ?t reason] by simp
  have "find_ch CHR '' '' (''HTTP/1.1'' @ CHR '' '' # ?t @ '' '' @ reason) = Some 8"
    by (subst find_ch_append) simp_all
  moreover have "starts_with (''HTTP/1.1 '' @ ?t @ '' '' @ reason) ''HTTP/1.''" by simp
  ultimately show ?thesis
    using t stoi_to_string [OF assms] by (simp add: parse_status_def substr_upto_def)
qed

lemma response_text_parts:
  assumes "0 \<le> code" "CR \<notin> set reason" "hs \<noteq> []"
  defines "l \<equiv> ''HTTP/1.1 '' @ to_string_int code @ '' '' @ reason"
  shows "response_text code reason hs body = l @ CRLF @ header_block hs @ CRLF @ CRLF @ body"
    and "find_crlf (response_text code reason hs body) = Some (length l)"
proof -
  show eq: "response_text code reason hs body = l @ CRLF @ header_block hs @ CRLF @ CRLF @ body"
    using assms(3) by (simp add: response_text_def l_def header_texts)
  have "\<not> isdigit CR" by code_simp
  then have "CR \<notin> set l"
    using assms(1,2) to_string_nat_digits [of "nat code"] by (auto simp: l_def to_string_int_nat)
  then show "find_crlf (response_text code reason hs body) = Some (length l)"
    unfolding eq using find_crlf_append [of l] by simp
qed

text \<open>A text the client can read: a status, headers without line breaks, and the length of the body.\<close>

definition readable :: "int \<Rightarrow> string \<Rightarrow> (string \<times> string) list \<Rightarrow> string \<Rightarrow> bool" where
  "readable code reason hs body \<longleftrightarrow> 0 \<le> code \<and> code < 2 ^ 31 \<and> CR \<notin> set reason \<and> hs \<noteq> [] \<and>
     list_all field_ok hs \<and> list_all length_parses hs \<and>
     fold read_field hs ([], 0, False) = (map header_entry hs, length body, False) \<and>
     length (response_text code reason hs body) < 2 ^ 64"

definition read_response :: "int \<Rightarrow> (string \<times> string) list \<Rightarrow> string \<Rightarrow> ClientResponse" where
  "read_response code hs body = \<lparr>cr_status = code, cr_headers = map header_entry hs, cr_body = body\<rparr>"

lemma split_at_line:
  assumes "buf = l @ CRLF @ t"
  shows "take (length l) buf = l" "drop (length l + 2) buf = t"
  using assms by simp_all

lemma parse_readable:
  assumes "readable code reason hs body"
  shows "parse_http1_response (response_text code reason hs body @ rest) = Some (Parse_done (read_response code hs body) rest)"
proof -
  let ?l = "''HTTP/1.1 '' @ to_string_int code @ '' '' @ reason" and ?b = "header_block hs"
  let ?buf = "response_text code reason hs body @ rest"
  have r: "0 \<le> code" "code < 2 ^ 31" "CR \<notin> set reason" "hs \<noteq> []" "list_all field_ok hs" "list_all length_parses hs"
      "fold read_field hs ([], 0, False) = (map header_entry hs, length body, False)"
      "length (response_text code reason hs body) < 2 ^ 64"
    using assms by (simp_all add: readable_def)
  note parts = response_text_parts [OF r(1,3,4), of body]
  have len: "length ?l + 2 + length ?b + 4 + length body = length (response_text code reason hs body)"
    unfolding parts(1) by simp
  have buf: "?buf = ?l @ CRLF @ ?b @ CRLF @ CRLF @ body @ rest" unfolding parts(1) by simp
  note take = split_at_line(1) [OF buf] and tail = split_at_line(2) [OF buf]
  have body: "drop (length ?l + 2 + length ?b + 4) ?buf = body @ rest"
  proof -
    have "drop (length ?b + 4) (drop (length ?l + 2) ?buf) = body @ rest" unfolding tail by simp
    then show ?thesis unfolding drop_drop by (simp only: ac_simps)
  qed
  have e: "find_crlf ?buf = Some (length ?l)" by (rule find_crlf_longer) (rule parts(2))
  have b: "find_str (CRLF @ CRLF) (drop (length ?l + 2) ?buf) = Some (length ?b)"
    unfolding tail by (rule find_header_end [OF r(4,5)])
  have hb: "take (length ?b) (drop (length ?l + 2) ?buf) = ?b" unfolding tail by simp
  have m: "(length ?l + 2 + length ?b + 4 + length body) mod 2 ^ 64 = length (response_text code reason hs body)"
    unfolding len using r(8) by simp
  have "client_body ?buf code (length ?l + 2 + length ?b + 4) (map header_entry hs, length body, False) =
      Some (Parse_done (read_response code hs body) rest)"
    unfolding client_body_def prod.case m body by (simp add: read_response_def)
  then show ?thesis
    unfolding parse_http1_response_def e option.case take parse_status_line [OF r(1,2)] b hb
      client_headers_block [OF r(5,6)] r(7) sum.case .
qed

lemma parse_prefix_waits:
  assumes "readable code reason hs body" "response_text code reason hs body = p @ q" "q \<noteq> []"
  shows "parse_http1_response p = Some Parse_wait"
proof (cases "find_crlf p")
  case None
  then show ?thesis by (simp add: parse_http1_response_def)
next
  case (Some e)
  let ?l = "''HTTP/1.1 '' @ to_string_int code @ '' '' @ reason" and ?b = "header_block hs"
  have r: "0 \<le> code" "code < 2 ^ 31" "CR \<notin> set reason" "hs \<noteq> []" "list_all field_ok hs" "list_all length_parses hs"
      "fold read_field hs ([], 0, False) = (map header_entry hs, length body, False)"
      "length (response_text code reason hs body) < 2 ^ 64"
    using assms by (simp_all add: readable_def)
  note parts = response_text_parts [OF r(1,3,4), of body]
  have len: "length ?l + 2 + length ?b + 4 + length body = length p + length q"
    using arg_cong [OF assms(2), of length] unfolding parts(1) by simp
  have e: "e = length ?l" using find_crlf_longer [OF Some, of q] parts(2) by (simp add: assms(2) [symmetric])
  have elen: "e + 2 \<le> length p" using find_crlf_length [OF Some] .
  have pq: "p @ q = ?l @ CRLF @ ?b @ CRLF @ CRLF @ body" using parts(1) assms(2) by simp
  have "take e p = take e (p @ q)" using elen by simp
  then have take: "take e p = ?l" using split_at_line(1) [OF pq] by (simp only: e)
  have "drop (e + 2) p @ q = drop (e + 2) (p @ q)" using elen by simp
  then have tail: "drop (e + 2) p @ q = ?b @ CRLF @ CRLF @ body" using split_at_line(2) [OF pq] by (simp only: e)
  show ?thesis
  proof (cases "find_str (CRLF @ CRLF) (drop (e + 2) p)")
    case None
    then show ?thesis
      unfolding parse_http1_response_def Some option.case take parse_status_line [OF r(1,2)] by simp
  next
    case b: (Some b)
    have "find_str (CRLF @ CRLF) (drop (e + 2) p @ q) = Some b" by (rule find_str_longer [OF b])
    then have bl: "b = length ?b" unfolding tail find_header_end [OF r(4,5)] by simp
    have "b + 4 \<le> length (drop (e + 2) p)" using find_str_length [OF b] by simp
    then have "take b (drop (e + 2) p) = take b (drop (e + 2) p @ q)" by simp
    then have hb: "take b (drop (e + 2) p) = ?b" unfolding tail bl by simp
    have "length p < length (response_text code reason hs body)" using assms(2,3) by simp
    moreover have "(e + 2 + b + 4 + length body) mod 2 ^ 64 = length (response_text code reason hs body)"
      using len r(8) by (simp add: e bl assms(2))
    ultimately have "client_body p code (e + 2 + b + 4) (map header_entry hs, length body, False) = Some Parse_wait"
      unfolding client_body_def prod.case by simp
    then show ?thesis
      unfolding parse_http1_response_def Some option.case take parse_status_line [OF r(1,2)] b hb
        client_headers_block [OF r(5,6)] r(7) sum.case .
  qed
qed

fun receive_all :: "string list \<Rightarrow> rest_client \<Rightarrow> (exn option \<times> rest_client) option" where
  "receive_all [] c = Some (None, c)"
| "receive_all (d # ds) c =
     (case process_http1_data d c of Some (None, c1) \<Rightarrow> receive_all ds c1 | r \<Rightarrow> r)"

lemma receive_pieces:
  assumes "readable code reason hs body" "pending_tcp c = Some w"
  shows "[] \<notin> set ds \<Longrightarrow> ds \<noteq> [] \<Longrightarrow> http1_recv_buf c @ concat ds = response_text code reason hs body \<Longrightarrow>
    receive_all ds c = Some (None, c\<lparr>http1_recv_buf := [], tcp_response := None, pending_tcp := None,
      completed := completed c @ [(w, Inr (read_response code hs body))]\<rparr>)"
  using assms(2)
proof (induction ds arbitrary: c)
  case (Cons d ds)
  show ?case
  proof (cases "ds = []")
    case True
    then have "http1_recv_buf c @ d = response_text code reason hs body" using Cons.prems(3) by simp
    then show ?thesis
      using parse_readable [OF assms(1), of "[]"] Cons.prems(4) True
      by (simp add: process_http1_data_def try_parse_http1_response_def resume_tcp_def complete_with_def Let_def)
  next
    case False
    let ?c1 = "c\<lparr>http1_recv_buf := http1_recv_buf c @ d\<rparr>"
    have "concat ds \<noteq> []" using False Cons.prems(1) by (cases ds) auto
    then have "parse_http1_response (http1_recv_buf c @ d) = Some Parse_wait"
      using parse_prefix_waits [OF assms(1), of "http1_recv_buf c @ d" "concat ds"] Cons.prems(3) by simp
    then have "process_http1_data d c = Some (None, ?c1)"
      by (simp add: process_http1_data_def try_parse_http1_response_def)
    with Cons.IH [of ?c1] Cons.prems False show ?thesis by simp
  qed
qed simp

section \<open>A request and its answer\<close>

text \<open>The request as the server's specification describes it, and the answer as the client sees it.\<close>

definition pair_of :: "Entry \<Rightarrow> string \<times> string" where
  "pair_of e = (hname e, hvalue e)"

definition client_request :: "string \<Rightarrow> string \<Rightarrow> string \<Rightarrow> string \<Rightarrow> header_map \<Rightarrow> plain_request" where
  "client_request host method path body headers =
     \<lparr>pr_method = method, pr_target = path, pr_headers = (''Host'', host) # map pair_of headers,
      pr_last_headers = [(''Connection'', ''keep-alive'')], pr_body = body\<rparr>"

definition answer_headers :: "response \<Rightarrow> (string \<times> string) list" where
  "answer_headers res =
     [(''Alt-Svc'', ''h3='' @ [CHR 0x22] @ '':4433'' @ [CHR 0x22] @ ''; ma=86400''), (''Connection'', ''keep-alive'')] @
     map pair_of (filter (header_written False) (res_headers res)) @
     [(''Content-Length'', to_string_nat (length (res_body res)))]"

definition plain_response :: "response \<Rightarrow> bool" where
  "plain_response res \<longleftrightarrow> sse_channel res = None \<and> 0 \<le> status_code res \<and> status_code res < 2 ^ 31 \<and>
     list_all (\<lambda>e. field_ok (pair_of e) \<and> lower (hname e) \<notin> {''content-length'', ''transfer-encoding''}) (res_headers res) \<and>
     length (serialize_response True res) < 2 ^ 64"

lemma header_line_pair: "header_line e = header_text (pair_of e)"
  by (simp add: header_line_def header_text_def pair_of_def)

lemma no_length_header:
  "list_all (\<lambda>e. lower (hname e) \<noteq> ''content-length'') hs \<Longrightarrow> \<not> HeaderMap_has hs ''content-length''"
proof (induction hs)
  case (Cons e hs)
  have "map tolower ''content-length'' = ''content-length''" by code_simp
  with Cons show ?case by (simp add: HeaderMap_has_def names_equal_iff lower_def)
qed (simp add: HeaderMap_has_def)

lemma serialize_plain:
  assumes "plain_response res"
  shows "serialize_response True res =
    response_text (status_code res) (get_status_text (status_code res)) (answer_headers res) (res_body res)"
proof -
  have "\<not> HeaderMap_has (res_headers res) ''content-length''"
    using assms by (intro no_length_header) (auto simp: plain_response_def list_all_iff)
  then show ?thesis using assms
    by (simp add: serialize_response_def response_text_def status_line_def answer_headers_def plain_response_def
      header_line_pair [abs_def] header_text_def comp_def Let_def)
qed

lemma read_fields_plain:
  "list_all (\<lambda>h. lower (fst h) \<notin> {''content-length'', ''transfer-encoding''}) hs \<Longrightarrow>
   fold read_field hs (acc, n, ch) = (acc @ map header_entry hs, n, ch)"
  by (induction hs arbitrary: acc) (auto simp: read_field_def)

lemma length_field:
  "field_ok (''Content-Length'', to_string_nat n)"
proof -
  have "\<forall>c\<in>set (to_string_nat n). \<not> blank_or_tab c \<and> c \<noteq> CR"
    using to_string_nat_digits [of n] by (auto simp: isdigit_def blank_or_tab_def)
  then have "h1_trim (CHR '' '' # to_string_nat n) = to_string_nat n" "CR \<notin> set (to_string_nat n)"
    using trim_by_id [of "to_string_nat n" blank_or_tab] by (auto simp: h1_trim_def trim_by_def blank_or_tab_def)
  moreover have "h1_trim ''Content-Length'' = ''Content-Length''" by code_simp
  ultimately show ?thesis by (simp add: field_ok_def)
qed

lemma answer_readable:
  assumes "plain_response res"
  shows "readable (status_code res) (get_status_text (status_code res)) (answer_headers res) (res_body res)"
proof -
  let ?n = "length (res_body res)" and ?hs = "filter (header_written False) (res_headers res)"
  let ?first = "[(''Alt-Svc'', ''h3='' @ [CHR 0x22] @ '':4433'' @ [CHR 0x22] @ ''; ma=86400''), (''Connection'', ''keep-alive'')]"
  have p: "0 \<le> status_code res" "status_code res < 2 ^ 31" "length (serialize_response True res) < 2 ^ 64"
      "list_all (\<lambda>e. field_ok (pair_of e) \<and> lower (hname e) \<notin> {''content-length'', ''transfer-encoding''}) (res_headers res)"
    using assms by (simp_all add: plain_response_def)
  have "length (response_text (status_code res) (get_status_text (status_code res)) (answer_headers res) (res_body res)) < 2 ^ 64"
    using p(3) serialize_plain [OF assms] by simp
  moreover from this have n: "stoull (to_string_nat ?n) = Inr (?n, length (to_string_nat ?n))"
    by (intro stoull_to_string) (simp add: response_text_def)
  moreover have first: "list_all field_ok ?first" "lower ''Alt-Svc'' = ''alt-svc''" "lower ''Connection'' = ''connection''"
    by code_simp+
  moreover have hs: "list_all (\<lambda>h. field_ok h \<and> lower (fst h) \<notin> {''content-length'', ''transfer-encoding''}) (map pair_of ?hs)"
    using p(4) by (auto simp: list_all_iff pair_of_def)
  moreover have "CR \<notin> set (get_status_text code)" for code by (simp add: get_status_text_def)
  moreover have "list_all field_ok (answer_headers res)"
    using first(1) hs length_field by (auto simp: answer_headers_def list_all_iff)
  moreover have "list_all length_parses (answer_headers res)"
    using first(2,3) hs n by (auto simp: answer_headers_def list_all_iff length_parses_def)
  moreover have "fold read_field (answer_headers res) ([], 0, False) = (map header_entry (answer_headers res), ?n, False)"
  proof -
    have "list_all (\<lambda>h. lower (fst h) \<notin> {''content-length'', ''transfer-encoding''}) (?first @ map pair_of ?hs)"
      using first(2,3) hs by (auto simp: list_all_iff)
    from read_fields_plain [OF this, of "[]" 0 False] show ?thesis
      by (simp add: answer_headers_def read_field_def length_header n)
  qed
  ultimately show ?thesis using p(1,2) by (simp add: readable_def answer_headers_def)
qed

lemma client_request_text:
  assumes "plain_ok (client_request host method path body headers)"
  shows "http1_request_text host method path body headers None = render_request (client_request host method path body headers)"
proof -
  have "\<not> has_content_length headers"
    using assms by (auto simp: plain_ok_def client_request_def pr_named_headers_def list_all_iff has_content_length_def pair_of_def)
  then show ?thesis
    by (simp add: http1_request_text_def render_request_def client_request_def request_line_def pr_all_headers_def
      header_line_pair [abs_def] header_text_def comp_def)
qed

text \<open>
  C12: The client and the server of this framework understand each other over HTTP/1.1. The text the client
  writes for a request makes the server call its handler once, on exactly the request that was meant; and
  however the network cuts the text of the answer, the waiting call is completed once, with the status,
  headers and body of the handler's response.
\<close>

theorem rest_client_exchange:
  assumes handler: "\<And>req w. sse_channel (fst (request_handler env req w)) = None"
    and server: "ready s" "h1_buffer s = []" "parse_offset s = 0"
    and request: "plain_ok (client_request host method path body headers)"
    and answer: "request_handler env (request_of (h1_peer_address s) (client_request host method path body headers)) w = (res, w1)"
      "plain_response res"
    and client: "pending_tcp c = Some k" "http1_recv_buf c = []"
  shows "\<exists>answer. feed_data env (http1_request_text host method path body headers None) s w =
      Some (Feed_out [answer], s\<lparr>keep_alive := True\<rparr>, w1) \<and>
    (\<forall>pieces. concat pieces = answer \<and> [] \<notin> set pieces \<longrightarrow>
       receive_all pieces c = Some (None, c\<lparr>http1_recv_buf := [], tcp_response := None, pending_tcp := None,
         completed := completed c @ [(k, Inr (read_response (status_code res) (answer_headers res) (res_body res)))]\<rparr>))"
proof -
  let ?pr = "client_request host method path body headers"
  have "lower ''Connection'' = ''connection''" "lower ''keep-alive'' = ''keep-alive''" by code_simp+
  then have keep: "fold keep_header (pr_named_headers ?pr) b = True" for b
    by (simp add: pr_named_headers_def client_request_def keep_header_def)
  have "feed_data env (concat (map render_request [?pr])) s w = Some (Feed_out [serialize_response True res], s\<lparr>keep_alive := True\<rparr>, w1)"
    using feed_plain_requests [OF handler server, of "[?pr]" w] request answer(1) keep by simp
  then have "feed_data env (http1_request_text host method path body headers None) s w =
      Some (Feed_out [serialize_response True res], s\<lparr>keep_alive := True\<rparr>, w1)"
    by (simp add: client_request_text [OF request])
  moreover have "receive_all pieces c = Some (None, c\<lparr>http1_recv_buf := [], tcp_response := None, pending_tcp := None,
         completed := completed c @ [(k, Inr (read_response (status_code res) (answer_headers res) (res_body res)))]\<rparr>)"
    if "concat pieces = serialize_response True res" "[] \<notin> set pieces" for pieces
  proof -
    have "pieces \<noteq> []" using that(1) by (auto simp: serialize_response_def status_line_def Let_def)
    then show ?thesis
      using receive_pieces [OF answer_readable [OF answer(2)] client(1), of pieces] that client(2)
      by (simp add: serialize_plain [OF answer(2)])
  qed
  ultimately show ?thesis by blast
qed

definition demo_client :: rest_client where
  "demo_client = (new_client \<lparr>cc_host = ''h'', cc_port = 443, cc_protocol = HTTP1_1, max_reconnect_attempts = 5,
     propagate_trace_context = False, max_request_attempts = 1, should_retry = None\<rparr>)\<lparr>pending_tcp := Some 7\<rparr>"

theorem rest_client_exchange_witness:
  "\<exists>answer c. feed_data echo_env (http1_request_text ''h'' ''POST'' ''/b'' ''xy'' [] None) new_http1 \<lparr>app = 0, channels = Map.empty\<rparr> =
      Some (Feed_out [answer], new_http1\<lparr>keep_alive := True\<rparr>, \<lparr>app = 1, channels = Map.empty\<rparr>) \<and>
    receive_all [answer] demo_client = Some (None, c) \<and> map fst (completed c) = [7]"
proof -
  let ?pr = "client_request ''h'' ''POST'' ''/b'' ''xy'' []"
  let ?res = "Response_text default_response ''xy''" and ?w = "\<lparr>app = 0 :: nat, channels = Map.empty\<rparr>"
  have sse: "sse_channel (fst (request_handler echo_env req w)) = None" for req and w :: "nat world"
    by (simp add: echo_env_def Response_text_def Response_header_def default_response_def Response_body_def)
  have server: "ready new_http1" "h1_buffer new_http1 = []" "parse_offset new_http1 = 0"
    by (simp_all add: ready_def h1_reset_def new_http1_def set_peer_address_def empty_request_def)
  have request: "plain_ok ?pr" by (simp add: client_request_def plain_ok_def pr_named_headers_def) code_simp
  have answer: "request_handler echo_env (request_of (h1_peer_address new_http1) ?pr) ?w = (?res, \<lparr>app = 1, channels = Map.empty\<rparr>)"
    by (simp add: echo_env_def request_of_def client_request_def)
  have "length (serialize_response True ?res) < 200" "sse_channel ?res = None" "status_code ?res = 200"
      "list_all (\<lambda>e. field_ok (pair_of e) \<and> lower (hname e) \<notin> {''content-length'', ''transfer-encoding''}) (res_headers ?res)"
    by code_simp+
  then have plain: "plain_response ?res" by (simp add: plain_response_def)
  have client: "pending_tcp demo_client = Some 7" "http1_recv_buf demo_client = []"
    by (simp_all add: demo_client_def new_client_def)
  obtain a where a: "feed_data echo_env (http1_request_text ''h'' ''POST'' ''/b'' ''xy'' [] None) new_http1 ?w =
      Some (Feed_out [a], new_http1\<lparr>keep_alive := True\<rparr>, \<lparr>app = 1, channels = Map.empty\<rparr>)"
    "\<forall>pieces. concat pieces = a \<and> [] \<notin> set pieces \<longrightarrow>
       receive_all pieces demo_client = Some (None, demo_client\<lparr>http1_recv_buf := [], tcp_response := None, pending_tcp := None,
         completed := completed demo_client @ [(7, Inr (read_response (status_code ?res) (answer_headers ?res) (res_body ?res)))]\<rparr>)"
    using rest_client_exchange [OF sse server request answer plain client] by blast
  have "receive_all [] demo_client = Some (None, demo_client)" by simp
  then have "a \<noteq> []" using a(2) [rule_format, of "[]"] by (auto simp: demo_client_def new_client_def dest: arg_cong [of _ _ completed])
  with a(2) [rule_format, of "[a]"]
  obtain c where "receive_all [a] demo_client = Some (None, c)" "map fst (completed c) = map fst (completed demo_client) @ [7]"
    by (simp del: receive_all.simps)
  moreover have "completed demo_client = []" by (simp add: demo_client_def new_client_def)
  ultimately show ?thesis using a(1) by (intro exI [of _ a] exI [of _ c]) (simp del: receive_all.simps)
qed

section \<open>Every request is accounted for\<close>

definition waits :: "('a \<Rightarrow> nat option) \<Rightarrow> (int \<times> 'a) list \<Rightarrow> nat list" where
  "waits f t = concat (map (\<lambda>(k, st). case f st of None \<Rightarrow> [] | Some w \<Rightarrow> [w]) t)"

abbreviation opt :: "nat option \<Rightarrow> nat list" where
  "opt x \<equiv> (case x of None \<Rightarrow> [] | Some w \<Rightarrow> [w])"

lemma waits_simps [simp]: "waits f [] = []" "waits f ((k, st) # t) = opt (f st) @ waits f t"
  by (simp_all add: waits_def)

lemma waits_update_new: "map_of t k = None \<Longrightarrow> waits f (AList.update k st t) = waits f t @ opt (f st)"
  by (induction t) (auto split: if_splits)

lemma waits_update:
  "map_of t k = Some st \<Longrightarrow> mset (waits f (AList.update k st' t)) + mset (opt (f st)) = mset (waits f t) + mset (opt (f st'))"
  by (induction t) (auto split: if_splits)

lemma delete_absent: "k \<notin> fst ` set t \<Longrightarrow> AList.delete k t = t"
  by (simp add: AList.delete_eq filter_id_conv) force

lemma waits_delete:
  "map_of t k = Some st \<Longrightarrow> distinct (map fst t) \<Longrightarrow> mset (waits f (AList.delete k t)) + mset (opt (f st)) = mset (waits f t)"
  by (induction t) (auto simp: delete_absent split: if_splits)

definition waiters :: "rest_client \<Rightarrow> nat list" where
  "waiters c = waits h3_coroutine (h3_pending c) @ waits h2_coroutine (h2_pending c) @ opt (pending_tcp c)"

definition ledger :: "rest_client \<Rightarrow> nat multiset" where
  "ledger c = mset (waiters c) + mset (map fst (completed c))"

definition client_ok :: "rest_client \<Rightarrow> bool" where
  "client_ok c \<longleftrightarrow> distinct (map fst (h2_pending c)) \<and> distinct (map fst (h3_pending c)) \<and>
     100 \<le> next_backoff c \<and> next_backoff c \<le> kMaxBackoff \<and> 0 \<le> reconnect_attempts c \<and>
     reconnect_attempts c \<le> max 0 (max_reconnect_attempts (cl_cfg c))"

text \<open>An operation keeps the books when it leaves the ledger as it is and the tables well formed.\<close>

definition keeps :: "rest_client \<Rightarrow> rest_client \<Rightarrow> bool" where
  "keeps c c' \<longleftrightarrow> (client_ok c \<longrightarrow> client_ok c' \<and> ledger c' = ledger c \<and> cl_cfg c' = cl_cfg c)"

lemma keeps_refl [simp]: "keeps c c"
  by (simp add: keeps_def)

lemma keeps_trans: "keeps c d \<Longrightarrow> keeps d e \<Longrightarrow> keeps c e"
  by (simp add: keeps_def)

lemma keeps_plain:
  "keeps c (c\<lparr>tcp_write_buf := b\<rparr>)" "keeps c (c\<lparr>http1_recv_buf := b\<rparr>)" "keeps c (c\<lparr>tcp_connected := x\<rparr>)"
  "keeps c (c\<lparr>tls_handshake_done := x\<rparr>)" "keeps c (c\<lparr>h2_session := x\<rparr>)" "keeps c (c\<lparr>tcp_open := x\<rparr>)"
  "keeps c (c\<lparr>tcp_response := r\<rparr>)" "keeps c (c\<lparr>reconnect_pending := x\<rparr>)" "keeps c (c\<lparr>reconnect_timer := t\<rparr>)"
  "keeps c (c\<lparr>quic_ready := x\<rparr>)"
  by (simp_all add: keeps_def client_ok_def ledger_def waiters_def)

lemma keeps_close_tcp: "keeps c (close_tcp c)"
  by (simp add: keeps_def close_tcp_def client_ok_def ledger_def waiters_def)

lemma keeps_schedule: "keeps c (schedule_reconnect c)"
  by (auto simp: keeps_def schedule_reconnect_def client_ok_def ledger_def waiters_def kMaxBackoff_def Let_def)

text \<open>Resuming adds one completion; the books of a lost connection are closed in one go.\<close>

lemma resume_completes:
  "map fst (completed (resume_h2 sid w c)) = map fst (completed c) @ [w]"
  "map fst (completed (resume_h3 sid w c)) = map fst (completed c) @ [w]"
  "map fst (completed (resume_tcp w c)) = map fst (completed c) @ [w]"
  by (auto simp: resume_h2_def resume_h3_def resume_tcp_def complete_with_def split: option.split)

lemma resume_other:
  "pending_tcp (resume_h2 sid w c) = pending_tcp c" "pending_tcp (resume_h3 sid w c) = pending_tcp c"
  "pending_tcp (resume_tcp w c) = pending_tcp c"
  "next_backoff (resume_h2 sid w c) = next_backoff c" "next_backoff (resume_h3 sid w c) = next_backoff c"
  "next_backoff (resume_tcp w c) = next_backoff c"
  "reconnect_attempts (resume_h2 sid w c) = reconnect_attempts c" "reconnect_attempts (resume_h3 sid w c) = reconnect_attempts c"
  "reconnect_attempts (resume_tcp w c) = reconnect_attempts c"
  "cl_cfg (resume_h2 sid w c) = cl_cfg c" "cl_cfg (resume_h3 sid w c) = cl_cfg c" "cl_cfg (resume_tcp w c) = cl_cfg c"
  by (auto simp: resume_h2_def resume_h3_def resume_tcp_def complete_with_def split: option.split)

lemma fold_resume:
  "map fst (completed (fold (\<lambda>(sid, w). resume_h2 sid w) ws c)) = map fst (completed c) @ map snd ws"
  "map fst (completed (fold (\<lambda>(sid, w). resume_h3 sid w) ws c)) = map fst (completed c) @ map snd ws"
  "pending_tcp (fold (\<lambda>(sid, w). resume_h2 sid w) ws c) = pending_tcp c"
  "pending_tcp (fold (\<lambda>(sid, w). resume_h3 sid w) ws c) = pending_tcp c"
  "next_backoff (fold (\<lambda>(sid, w). resume_h2 sid w) ws c) = next_backoff c"
  "next_backoff (fold (\<lambda>(sid, w). resume_h3 sid w) ws c) = next_backoff c"
  "reconnect_attempts (fold (\<lambda>(sid, w). resume_h2 sid w) ws c) = reconnect_attempts c"
  "reconnect_attempts (fold (\<lambda>(sid, w). resume_h3 sid w) ws c) = reconnect_attempts c"
  "cl_cfg (fold (\<lambda>(sid, w). resume_h2 sid w) ws c) = cl_cfg c" "cl_cfg (fold (\<lambda>(sid, w). resume_h3 sid w) ws c) = cl_cfg c"
  by (induction ws arbitrary: c) (auto simp: resume_completes resume_other)

lemma waiting_waits: "map snd (waiting_h2 c) = waits h2_coroutine (h2_pending c)" "map snd (waiting_h3 c) = waits h3_coroutine (h3_pending c)"
  unfolding waiting_h2_def waiting_h3_def waits_def map_concat map_map
  by (rule arg_cong [of _ _ concat], rule map_cong, simp, auto split: option.split)+

lemma complete_pending_effect:
  fixes c msg defines "d \<equiv> complete_pending_with_error msg c"
  shows "map fst (completed d) = map fst (completed c) @ waiters c" "waiters d = []"
    "h2_pending d = []" "h3_pending d = []" "next_backoff d = next_backoff c" "reconnect_attempts d = reconnect_attempts c" "cl_cfg d = cl_cfg c"
  by (simp_all add: d_def complete_pending_with_error_def fail_entries_def waiters_def fold_resume resume_completes resume_other
      waiting_waits Let_def split: option.split)

lemma keeps_complete_pending: "keeps c (complete_pending_with_error msg c)"
  by (simp add: keeps_def client_ok_def ledger_def complete_pending_effect)

lemma keeps_on_disconnect: "keeps c (on_disconnect c)"
  unfolding on_disconnect_def by (meson keeps_complete_pending keeps_close_tcp keeps_schedule keeps_trans)

lemma keeps_write: "keeps c (write_pending_tcp_data rs c)"
proof (induction rs c rule: write_pending_tcp_data.induct)
  case (2 r rs c)
  have "keeps c (write_pending_tcp_data rs (c\<lparr>tcp_write_buf := drop n (tcp_write_buf c)\<rparr>))"
    if "tcp_write_buf c \<noteq> []" "r = Sent n" "n \<noteq> 0" for n
    by (rule keeps_trans [OF keeps_plain(1) 2 [OF that]])
  then show ?case by (auto simp: keeps_on_disconnect split: send_result.split)
qed simp

lemma keeps_handshake: "keeps c (finish_handshake t c)"
proof -
  let ?c1 = "c\<lparr>tls_handshake_done := True\<rparr>"
  let ?c2 = "?c1\<lparr>h2_session := True, tcp_write_buf := tcp_write_buf ?c1 @ hs_preface t\<rparr>"
  have "keeps c ?c1" by (rule keeps_plain)
  moreover have "keeps ?c1 ?c2" by (rule keeps_trans [OF keeps_plain(5) keeps_plain(1)])
  moreover have "keeps ?c2 (write_pending_tcp_data (hs_sends t) ?c2)" by (rule keeps_write)
  ultimately show ?thesis by (auto simp: finish_handshake_def init_h2_session_def Let_def intro: keeps_trans)
qed

lemma keeps_connect: "do_connect_tcp r c = (x, c') \<Longrightarrow> keeps c c'"
proof -
  let ?c1 = "c\<lparr>tcp_open := True, tcp_connected := True, tls_handshake_done := False\<rparr>"
  have 1: "keeps c ?c1" by (rule keeps_trans [OF keeps_trans [OF keeps_plain(6) keeps_plain(3)] keeps_plain(4)])
  have 2: "keeps ?c1 (write_pending_tcp_data sends (?c1\<lparr>tcp_write_buf := b\<rparr>))" for sends b
    by (rule keeps_trans [OF keeps_plain(1) keeps_write])
  have 3: "keeps c (c\<lparr>tcp_open := y, tcp_connected := False, tls_handshake_done := False\<rparr>)" for y
    by (rule keeps_trans [OF keeps_trans [OF keeps_plain(6) keeps_plain(3)] keeps_plain(4)])
  assume "do_connect_tcp r c = (x, c')"
  then show ?thesis
    using 1 3 keeps_trans [OF 1 2] keeps_trans [OF 1 keeps_handshake] keeps_trans [OF keeps_trans [OF 1 2] keeps_handshake]
    by (cases r) (auto simp: do_connect_tcp_def Let_def)
qed

lemma keeps_reconnect: "keeps c (reconnect_fires r c)"
proof -
  let ?c0 = "c\<lparr>reconnect_pending := False, reconnect_timer := None\<rparr>"
  have "keeps c (close_tcp ?c0)"
    by (rule keeps_trans [OF keeps_trans [OF keeps_plain(8) keeps_plain(9)] keeps_close_tcp])
  moreover have "keeps (close_tcp ?c0) (do_reconnect r ?c0)"
  proof -
    obtain x c1 where r: "do_connect_tcp r (close_tcp ?c0) = (x, c1)" by (cases "do_connect_tcp r (close_tcp ?c0)")
    from keeps_connect [OF r] keeps_trans [OF keeps_connect [OF r] keeps_on_disconnect] r show ?thesis
      by (cases x) (simp_all add: do_reconnect_def)
  qed
  ultimately show ?thesis unfolding reconnect_fires_def by (rule keeps_trans)
qed

lemma keeps_quic_ready: "keeps c (quic_handshake_done c)"
  by (auto simp: keeps_def quic_handshake_done_def client_ok_def ledger_def waiters_def kMaxBackoff_def)

lemma keeps_quic_lost: "keeps c (quic_disconnected c)"
  unfolding quic_disconnected_def by (rule keeps_trans [OF keeps_plain(10) keeps_on_disconnect])

lemma keeps_writable: "keeps c (handle_tcp_writable err t sends c)"
proof -
  let ?c1 = "c\<lparr>tcp_connected := True, tcp_write_buf := tcp_write_buf c @ hs_out t\<rparr>"
  have 1: "keeps c ?c1" by (rule keeps_trans [OF keeps_plain(3) keeps_plain(1)])
  have "keeps c (write_pending_tcp_data sends (if hs_complete t then finish_handshake t ?c1 else ?c1))"
    using keeps_trans [OF keeps_trans [OF 1 keeps_handshake] keeps_write] keeps_trans [OF 1 keeps_write] by simp
  then show ?thesis using keeps_write keeps_on_disconnect by (simp add: handle_tcp_writable_def Let_def)
qed

text \<open>Changing an entry, or completing it.\<close>

lemma keeps_put_h2:
  assumes "h2_coroutine st' = h2_coroutine (h2_stream sid c)"
  shows "keeps c (put_h2 sid st' c)"
proof (cases "map_of (h2_pending c) sid")
  case None
  then show ?thesis using assms
    by (auto simp: keeps_def put_h2_def client_ok_def ledger_def waiters_def h2_stream_def new_h2_stream_def
      waits_update_new AList.distinct_update)
next
  case (Some st)
  then have "mset (waits h2_coroutine (AList.update sid st' (h2_pending c))) = mset (waits h2_coroutine (h2_pending c))"
    using waits_update [OF Some, of h2_coroutine st'] assms by (simp add: h2_stream_def)
  then show ?thesis
    by (auto simp: keeps_def put_h2_def client_ok_def ledger_def waiters_def AList.distinct_update)
qed

lemma keeps_resume_h2:
  assumes "map_of (h2_pending c) sid = Some st" "h2_complete st" "h2_coroutine st = Some w"
  shows "keeps c (resume_h2 sid w c)"
  using assms waits_delete [OF assms(1), of h2_coroutine]
  by (auto simp: keeps_def resume_h2_def complete_with_def client_ok_def ledger_def waiters_def AList.distinct_delete)

lemma keeps_resume_h3:
  assumes "map_of (h3_pending c) sid = Some st" "h3_response st = Some r" "h3_coroutine st = Some w"
  shows "keeps c (resume_h3 sid w c)"
  using assms waits_delete [OF assms(1), of h3_coroutine]
  by (auto simp: keeps_def resume_h3_def complete_with_def client_ok_def ledger_def waiters_def AList.distinct_delete)

lemma put_h2_lookup [simp]: "map_of (h2_pending (put_h2 sid st c)) sid = Some st"
  by (simp add: put_h2_def AList.update_conv)

lemma keeps_h2_close: "keeps c (h2_on_stream_close sid c)"
proof (cases "map_of (h2_pending c) sid")
  case (Some st)
  let ?c1 = "put_h2 sid (st\<lparr>h2_complete := True\<rparr>) c"
  have 1: "keeps c ?c1" by (rule keeps_put_h2) (simp add: h2_stream_def Some)
  have "keeps ?c1 (resume_h2 sid w ?c1)" if "h2_coroutine st = Some w" for w
    by (rule keeps_resume_h2 [where st = "st\<lparr>h2_complete := True\<rparr>"]) (simp_all add: that)
  with 1 show ?thesis by (auto simp: h2_on_stream_close_def Some Let_def intro: keeps_trans split: option.split)
qed (simp add: h2_on_stream_close_def)

lemma keeps_h2_events: "h2_events es c = (x, c') \<Longrightarrow> keeps c c'"
proof (induction es c arbitrary: x c' rule: h2_events.induct)
  case (2 resp sid n v es c)
  obtain y c1 where h: "h2_on_header resp sid n v c = (y, c1)" by (cases "h2_on_header resp sid n v c")
  have "keeps c c1" using h by (auto simp: h2_on_header_def Let_def keeps_put_h2 split: if_splits sum.splits)
  with 2 h show ?case by (auto split: option.splits intro: keeps_trans)
next
  case (3 sid d es c)
  have "keeps c (h2_on_data_chunk sid d c)"
    by (auto simp: h2_on_data_chunk_def h2_stream_def Let_def intro!: keeps_put_h2 split: option.split)
  with 3 show ?case by (auto intro: keeps_trans)
next
  case (4 sid es c)
  then show ?case using keeps_h2_close by (auto intro: keeps_trans)
qed simp

lemma keeps_h2_data: "process_h2_data i c = (x, c') \<Longrightarrow> keeps c c'"
proof -
  obtain y c1 where h: "h2_events (hi_events i) c = (y, c1)" by (cases "h2_events (hi_events i) c")
  note k = keeps_h2_events [OF h]
  from k keeps_trans [OF k keeps_on_disconnect] keeps_trans [OF k keeps_trans [OF keeps_plain(1) keeps_write]] h
  show "process_h2_data i c = (x, c') \<Longrightarrow> keeps c c'"
    by (auto simp: process_h2_data_def split: if_splits option.splits)
qed

lemma keeps_resume_tcp:
  "keeps c (case pending_tcp c of None \<Rightarrow> c\<lparr>http1_recv_buf := b, tcp_response := r, pending_tcp := None\<rparr>
     | Some w \<Rightarrow> resume_tcp w (c\<lparr>http1_recv_buf := b, tcp_response := r, pending_tcp := None\<rparr>))"
  by (auto simp: keeps_def client_ok_def ledger_def waiters_def resume_tcp_def complete_with_def split: option.split)

lemma keeps_h1_data: "process_http1_data d c = Some (x, c') \<Longrightarrow> keeps c c'"
proof -
  let ?c = "c\<lparr>http1_recv_buf := http1_recv_buf c @ d\<rparr>"
  assume "process_http1_data d c = Some (x, c')"
  then have p: "try_parse_http1_response ?c = Some (x, c')" by (simp add: process_http1_data_def)
  have "keeps ?c c'"
  proof (cases "parse_http1_response (http1_recv_buf ?c)")
    case None
    with p show ?thesis by (simp add: try_parse_http1_response_def)
  next
    case (Some out)
    show ?thesis
    proof (cases out)
      case (Parse_done r b)
      with Some p have "c' = (case pending_tcp ?c of None \<Rightarrow> ?c\<lparr>http1_recv_buf := b, tcp_response := Some r, pending_tcp := None\<rparr>
          | Some w \<Rightarrow> resume_tcp w (?c\<lparr>http1_recv_buf := b, tcp_response := Some r, pending_tcp := None\<rparr>))"
        by (cases "pending_tcp c") (simp_all add: try_parse_http1_response_def Let_def)
      then show ?thesis using keeps_resume_tcp [where c = ?c and b = b and r = "Some r"] by (simp only:)
    qed (use Some p keeps_on_disconnect [of ?c] in \<open>auto simp: try_parse_http1_response_def\<close>)
  qed
  with keeps_plain(2) [of c "http1_recv_buf c @ d"] show "keeps c c'" by (rule keeps_trans)
qed

lemma keeps_h3_response: "keeps c (h3_on_response sid r c)"
proof (cases "map_of (h3_pending c) sid")
  case (Some st)
  let ?st = "st\<lparr>h3_response := Some r\<rparr>"
  let ?c1 = "c\<lparr>h3_pending := AList.update sid ?st (h3_pending c)\<rparr>"
  have 1: "keeps c ?c1"
    using waits_update [OF Some, of h3_coroutine ?st]
    by (auto simp: keeps_def client_ok_def ledger_def waiters_def AList.distinct_update)
  have "keeps ?c1 (resume_h3 sid w ?c1)" if "h3_coroutine st = Some w" for w
    by (rule keeps_resume_h3 [where st = ?st and r = r]) (simp_all add: that AList.update_conv)
  with 1 show ?thesis by (auto simp: h3_on_response_def Some Let_def intro: keeps_trans split: option.split)
qed (simp add: h3_on_response_def)

lemma keeps_cancel_h3: "keeps c (cancel_h3_stream sid c)"
proof (cases "map_of (h3_pending c) sid")
  case (Some st)
  let ?st = "st\<lparr>h3_cancelled := True, h3_response := Some (error_response ''cancelled'')\<rparr>"
  let ?c1 = "c\<lparr>h3_pending := AList.update sid ?st (h3_pending c)\<rparr>"
  have 1: "keeps c ?c1"
    using waits_update [OF Some, of h3_coroutine ?st]
    by (auto simp: keeps_def client_ok_def ledger_def waiters_def AList.distinct_update)
  have "keeps ?c1 (resume_h3 sid w ?c1)" if "h3_coroutine st = Some w" for w
    by (rule keeps_resume_h3 [where st = ?st and r = "error_response ''cancelled''"]) (simp_all add: that AList.update_conv)
  with 1 show ?thesis by (auto simp: cancel_h3_stream_def Some Let_def intro: keeps_trans split: option.split)
qed (simp add: cancel_h3_stream_def)

definition sends_ok :: "send_result list \<Rightarrow> bool" where
  "sends_ok rs \<longleftrightarrow> (\<forall>r\<in>set rs. r \<noteq> Send_failed \<and> r \<noteq> Sent 0)"

lemma write_ok: "sends_ok rs \<Longrightarrow> \<exists>b. write_pending_tcp_data rs c = c\<lparr>tcp_write_buf := b\<rparr>"
proof (induction rs c rule: write_pending_tcp_data.induct)
  case (1 c)
  then show ?case by (intro exI [of _ "tcp_write_buf c"]) simp
next
  case (2 r rs c)
  have self: "\<exists>b. c = c\<lparr>tcp_write_buf := b\<rparr>" by (intro exI [of _ "tcp_write_buf c"]) simp
  show ?case
  proof (cases "tcp_write_buf c = [] \<or> r = Would_block")
    case True
    then show ?thesis using self by (auto split: send_result.split)
  next
    case False
    with 2(2) obtain n where r: "r = Sent n" "n \<noteq> 0" by (cases r) (auto simp: sends_ok_def)
    have "sends_ok rs" using 2(2) by (simp add: sends_ok_def)
    with 2(1) [of n] r False show ?thesis by auto
  qed
qed

lemma keeps_cancel_h2:
  assumes "sends_ok sends"
  shows "keeps c (cancel_h2_stream sid reset sends c)"
proof (cases "map_of (h2_pending c) sid")
  case (Some st)
  let ?st = "st\<lparr>h2_cancelled := True, h2_complete := True\<rparr>"
  let ?c1 = "put_h2 sid ?st c"
  let ?c2 = "write_pending_tcp_data sends (?c1\<lparr>tcp_write_buf := tcp_write_buf ?c1 @ reset\<rparr>)"
  have 1: "keeps c ?c1" by (rule keeps_put_h2) (simp add: h2_stream_def Some)
  have 2: "keeps c ?c2" by (rule keeps_trans [OF 1 keeps_trans [OF keeps_plain(1) keeps_write]])
  have "map_of (h2_pending ?c2) sid = Some ?st" using write_ok [OF assms] by (metis put_h2_lookup rest_client.select_convs(9) rest_client.surjective rest_client.update_convs(6))
  then have "keeps ?c2 (resume_h2 sid w ?c2)" if "h2_coroutine st = Some w" for w
    by (rule keeps_resume_h2) (simp_all add: that)
  with 2 show ?thesis by (auto simp: cancel_h2_stream_def Some Let_def intro: keeps_trans split: option.split)
qed (simp add: cancel_h2_stream_def)

text \<open>
  The runs of a client. Requests overlap freely on HTTP/2 and HTTP/3, where the library gives each its own
  stream; on HTTP/1.1 one request is made at a time. Resetting a cancelled stream does not fail.
\<close>

inductive client_run :: "Client_Config \<Rightarrow> nat list \<Rightarrow> rest_client \<Rightarrow> bool" for cfg where
  created: "client_run cfg [] (new_client cfg)"
| http1_request: "client_run cfg ws c \<Longrightarrow> pending_tcp c = None \<Longrightarrow>
    start_http1_request enc sends w method path body headers stream c = (None, c') \<Longrightarrow> client_run cfg (ws @ [w]) c'"
| h2_request: "client_run cfg ws c \<Longrightarrow> map_of (h2_pending c) sid = None \<Longrightarrow>
    start_h2_request sid frames sends w c = (None, c') \<Longrightarrow> client_run cfg (ws @ [w]) c'"
| h3_request: "client_run cfg ws c \<Longrightarrow> map_of (h3_pending c) sid = None \<Longrightarrow>
    start_h3_request sid w c = (None, c') \<Longrightarrow> client_run cfg (ws @ [w]) c'"
| readable_event: "client_run cfg ws c \<Longrightarrow> handle_tcp_readable r c = Some (x, c') \<Longrightarrow> client_run cfg ws c'"
| writable_event: "client_run cfg ws c \<Longrightarrow> client_run cfg ws (handle_tcp_writable err t sends c)"
| h3_answer: "client_run cfg ws c \<Longrightarrow> client_run cfg ws (h3_on_response sid r c)"
| h3_cancel: "client_run cfg ws c \<Longrightarrow> client_run cfg ws (cancel_h3_stream sid c)"
| h2_cancel: "client_run cfg ws c \<Longrightarrow> sends_ok sends \<Longrightarrow> client_run cfg ws (cancel_h2_stream sid reset sends c)"
| lost: "client_run cfg ws c \<Longrightarrow> client_run cfg ws (on_disconnect c)"
| timer: "client_run cfg ws c \<Longrightarrow> client_run cfg ws (reconnect_fires r c)"
| quic: "client_run cfg ws c \<Longrightarrow> client_run cfg ws (quic_handshake_done c)"
| quic_lost: "client_run cfg ws c \<Longrightarrow> client_run cfg ws (quic_disconnected c)"

lemma keeps_readable:
  assumes "handle_tcp_readable r c = Some (x, c')"
  shows "keeps c c'"
proof (cases r)
  case (Fed t sends data i)
  let ?c1 = "if hs_out t = [] then c else write_pending_tcp_data sends (c\<lparr>tcp_write_buf := tcp_write_buf c @ hs_out t\<rparr>)"
  let ?c2 = "if tls_handshake_done ?c1 then ?c1 else finish_handshake t ?c1"
  have 1: "keeps c ?c1" using keeps_trans [OF keeps_plain(1) keeps_write] by simp
  have 2: "keeps c ?c2" using 1 keeps_trans [OF 1 keeps_handshake] by simp
  have 3: "keeps ?c2 c'" if "process_decrypted_tcp_data data i ?c2 = Some (x, c')"
    using that keeps_h1_data [of data ?c2 x c'] keeps_h2_data [of i ?c2 x c']
    by (simp add: process_decrypted_tcp_data_def split: if_splits)
  show ?thesis
  proof (cases "hs_complete t \<and> data \<noteq> []")
    case True
    then have "process_decrypted_tcp_data data i ?c2 = Some (x, c')"
      using assms unfolding handle_tcp_readable_def Fed recv_result.case Let_def by simp
    from keeps_trans [OF 2 3 [OF this]] show ?thesis .
  next
    case False
    then show ?thesis
      using assms 1 2 unfolding handle_tcp_readable_def Fed recv_result.case Let_def by (auto split: if_splits)
  qed
qed (use assms keeps_on_disconnect in \<open>auto simp: handle_tcp_readable_def\<close>)

lemma on_disconnect_empty [simp]: "h2_pending (on_disconnect c) = []" "h3_pending (on_disconnect c) = []" "pending_tcp (on_disconnect c) = None"
proof -
  have e: "h2_pending (schedule_reconnect (close_tcp d)) = h2_pending d" "h3_pending (schedule_reconnect (close_tcp d)) = h3_pending d"
      "pending_tcp (schedule_reconnect (close_tcp d)) = pending_tcp d" for d
    by (simp_all add: schedule_reconnect_def close_tcp_def Let_def)
  have "pending_tcp (complete_pending_with_error msg c) = None" for msg
    using complete_pending_effect(2) [of msg c] by (auto simp: waiters_def split: option.splits)
  then show "h2_pending (on_disconnect c) = []" "h3_pending (on_disconnect c) = []" "pending_tcp (on_disconnect c) = None"
    by (simp_all add: on_disconnect_def e complete_pending_effect)
qed

lemma write_pending_tables:
  "map_of (h2_pending c) sid = None \<Longrightarrow> map_of (h2_pending (write_pending_tcp_data rs c)) sid = None"
  "pending_tcp c = None \<Longrightarrow> pending_tcp (write_pending_tcp_data rs c) = None"
  by (induction rs c rule: write_pending_tcp_data.induct) (auto split: send_result.split)

text \<open>A request that starts to wait enters the books.\<close>

lemma enter_tcp: "client_ok d \<Longrightarrow> pending_tcp d = None \<Longrightarrow>
    client_ok (d\<lparr>pending_tcp := Some w\<rparr>) \<and> ledger (d\<lparr>pending_tcp := Some w\<rparr>) = ledger d + {#w#}"
  by (simp add: client_ok_def ledger_def waiters_def)

lemma enter_h2: "client_ok d \<Longrightarrow> map_of (h2_pending d) sid = None \<Longrightarrow> h2_coroutine st = Some w \<Longrightarrow>
    client_ok (put_h2 sid st d) \<and> ledger (put_h2 sid st d) = ledger d + {#w#} \<and> cl_cfg (put_h2 sid st d) = cl_cfg d"
  by (simp add: put_h2_def client_ok_def ledger_def waiters_def waits_update_new AList.distinct_update)

lemma enters_http1:
  assumes "pending_tcp c = None" "start_http1_request enc sends w method path body headers stream c = (None, c')" "client_ok c"
  shows "client_ok c' \<and> cl_cfg c' = cl_cfg c \<and> ledger c' = ledger c + {#w#}"
proof -
  obtain b where c': "c' = (write_pending_tcp_data sends (c\<lparr>tcp_write_buf := b\<rparr>))\<lparr>pending_tcp := Some w\<rparr>"
    using assms(2) by (auto simp: start_http1_request_def split: option.splits)
  let ?d = "write_pending_tcp_data sends (c\<lparr>tcp_write_buf := b\<rparr>)"
  have "keeps c ?d" by (rule keeps_trans [OF keeps_plain(1) keeps_write])
  moreover have "pending_tcp ?d = None" using assms(1) by (intro write_pending_tables) simp
  ultimately show ?thesis using assms(3) enter_tcp [of ?d w] by (simp add: c' keeps_def)
qed

lemma enters_h2:
  assumes "map_of (h2_pending c) sid = None" "start_h2_request sid frames sends w c = (None, c')" "client_ok c"
  shows "client_ok c' \<and> cl_cfg c' = cl_cfg c \<and> ledger c' = ledger c + {#w#}"
proof -
  let ?d = "write_pending_tcp_data sends (c\<lparr>tcp_write_buf := tcp_write_buf c @ frames\<rparr>)"
  have c': "c' = put_h2 sid ((h2_stream sid ?d)\<lparr>h2_coroutine := Some w\<rparr>) ?d"
    using assms(2) by (auto simp: start_h2_request_def Let_def split: if_splits)
  have "keeps c ?d" by (rule keeps_trans [OF keeps_plain(1) keeps_write])
  moreover have "map_of (h2_pending ?d) sid = None" using assms(1) by (intro write_pending_tables) simp
  ultimately show ?thesis
    using assms(3) enter_h2 [of ?d sid "(h2_stream sid ?d)\<lparr>h2_coroutine := Some w\<rparr>" w] by (simp add: c' keeps_def)
qed

lemma enters_h3:
  assumes "map_of (h3_pending c) sid = None" "start_h3_request sid w c = (None, c')" "client_ok c"
  shows "client_ok c' \<and> cl_cfg c' = cl_cfg c \<and> ledger c' = ledger c + {#w#}"
  using assms
  by (auto simp: start_h3_request_def client_ok_def ledger_def waiters_def waits_update_new AList.distinct_update split: if_splits)

lemma client_run_books: "client_run cfg ws c \<Longrightarrow> client_ok c \<and> cl_cfg c = cfg \<and> ledger c = mset ws"
proof (induction rule: client_run.induct)
  case created
  then show ?case by (simp add: client_ok_def new_client_def ledger_def waiters_def kMaxBackoff_def)
next
  case (http1_request ws c enc sends w meth path body headers stream c')
  then show ?case using enters_http1 [OF http1_request(2,3)] by simp
next
  case (h2_request ws c sid frames sends w c')
  then show ?case using enters_h2 [OF h2_request(2,3)] by simp
next
  case (h3_request ws c sid w c')
  then show ?case using enters_h3 [OF h3_request(2,3)] by simp
next
  case (readable_event ws c r x c')
  then show ?case using keeps_readable [OF readable_event(2)] by (simp add: keeps_def)
qed (use keeps_writable keeps_h3_response keeps_cancel_h3 keeps_cancel_h2 keeps_on_disconnect keeps_reconnect keeps_quic_ready keeps_quic_lost
  in \<open>auto simp: keeps_def\<close>)

text \<open>
  The books of the client, for runs in which HTTP/1.1 calls do not overlap, stream identifiers are fresh, the
  sends of a cancellation succeed, and the continuations of resumed calls run after the event that resumed
  them: the calls made so far are exactly those still waiting and those completed, a lost connection leaves none
  waiting, and reconnection keeps to the configured number of attempts, with delays between a tenth of a
  second and half a minute.
\<close>

lemma client_run_accounts:
  assumes "client_run cfg ws c"
  shows "mset ws = mset (waiters c) + mset (map fst (completed c))" "waiters (on_disconnect c) = []"
    "reconnect_attempts c \<le> max 0 (max_reconnect_attempts cfg)" "100 \<le> next_backoff c" "next_backoff c \<le> 30000"
  using client_run_books [OF assms] by (auto simp: ledger_def client_ok_def kMaxBackoff_def waiters_def)

text \<open>
  The last of these conditions matters. When the connection is lost, a resumed call whose retry loop starts
  its next attempt at once enters the table of pending streams that is cleared right afterwards: the call is
  neither waiting nor completed.
\<close>

lemma rest_retry_lost_on_disconnect:
  assumes "h3_pending c = [(0, st)]" "h3_coroutine st = Some w" "completed c = []" "h2_pending c = []" "pending_tcp c = None"
  shows "\<exists>d. start_h3_request 4 v (resume_h3 0 w (fail_entries msg c)) = (None, d) \<and> v \<in> set (waiters d) \<and>
    v \<notin> set (waiters (d\<lparr>h3_pending := [], h2_pending := []\<rparr>)) \<and> map fst (completed d) = [w]"
  using assms
  by (simp add: start_h3_request_def resume_h3_def fail_entries_def complete_with_def waiters_def waiting_h3_def waiting_h2_def)

section \<open>Retries\<close>

text \<open>The same request made \<open>n\<close> times; only the first has the streamed body.\<close>

fun make_requests :: "(string list option \<Rightarrow> 'w \<Rightarrow> request_result \<times> 'w) \<Rightarrow> nat \<Rightarrow> string list option \<Rightarrow> 'w \<Rightarrow> request_result list \<times> 'w" where
  "make_requests attempt 0 stream w = ([], w)"
| "make_requests attempt (Suc n) stream w =
     (case attempt stream w of (r, w1) \<Rightarrow> (case make_requests attempt n None w1 of (rs, w2) \<Rightarrow> (r # rs, w2)))"

definition approves :: "(ClientResponse \<Rightarrow> int \<Rightarrow> bool) option \<Rightarrow> request_result \<Rightarrow> int \<Rightarrow> bool" where
  "approves retry r k \<longleftrightarrow> (\<exists>x p. r = Inr x \<and> retry = Some p \<and> p x k)"

text \<open>
  A logical request is made at least once and at most as often as configured; every request before the last
  had a response the policy wanted to retry, and the caller gets the outcome of the last one, or the
  notice that it was cancelled.
\<close>

lemma retry_loop_bounded:
  assumes "k \<le> max_attempts" "retry_loop cancelled attempt retry max_attempts k stream w = (r, w')"
  shows "\<exists>n rs x. make_requests attempt (Suc n) stream w = (rs @ [x], w') \<and> length rs = n \<and> k + int n \<le> max_attempts \<and>
    (\<forall>i<n. approves retry (rs ! i) (k + int i)) \<and> (r = x \<or> r = Inl request_cancelled \<and> cancelled w')"
  using assms
proof (induction cancelled attempt retry max_attempts k stream w rule: retry_loop.induct)
  case (1 cancelled attempt retry max_attempts k stream w)
  obtain y w1 where a: "attempt stream w = (y, w1)" by (cases "attempt stream w")
  have stop: "\<exists>n rs x. make_requests attempt (Suc n) stream w = (rs @ [x], w') \<and> length rs = n \<and> k + int n \<le> max_attempts \<and>
      (\<forall>i<n. approves retry (rs ! i) (k + int i)) \<and> (r = x \<or> r = Inl request_cancelled \<and> cancelled w')"
    if "w' = w1" "r = y \<or> r = Inl request_cancelled \<and> cancelled w'"
    using that a 1(2) by (intro exI [of _ 0] exI [of _ "[]"] exI [of _ y]) simp
  show ?case
  proof (cases y)
    case (Inl e)
    with 1(2,3) a have "r = y" "w' = w1" by (simp_all add: retry_loop.simps [of cancelled attempt retry max_attempts k])
    then show ?thesis by (intro stop) auto
  next
    case (Inr res)
    show ?thesis
    proof (cases "cancelled w1 \<or> k = max_attempts \<or> (case retry of None \<Rightarrow> True | Some p \<Rightarrow> \<not> p res k)")
      case True
      with 1(2,3) a Inr have "w' = w1" "r = y \<or> r = Inl request_cancelled \<and> cancelled w'"
        by (auto simp: retry_loop.simps [of cancelled attempt retry max_attempts k] split: if_splits)
      then show ?thesis by (rule stop)
    next
      case False
      then obtain p where p: "retry = Some p" "p res k" by (cases retry) auto
      from False 1(2,3) a Inr have go: "retry_loop cancelled attempt retry max_attempts (k + 1) None w1 = (r, w')"
        by (simp add: retry_loop.simps [of cancelled attempt retry max_attempts k])
      have le: "k + 1 \<le> max_attempts" using False 1(2) by simp
      obtain n rs x where ih: "make_requests attempt (Suc n) None w1 = (rs @ [x], w')" "length rs = n" "k + 1 + int n \<le> max_attempts"
          "\<forall>i<n. approves retry (rs ! i) (k + 1 + int i)" "r = x \<or> r = Inl request_cancelled \<and> cancelled w'"
        using 1(1) [OF _ a [symmetric] Inr _ _ le go] False 1(2) by auto
      have "\<forall>i<Suc n. approves retry ((y # rs) ! i) (k + int i)"
        using ih(4) p Inr by (auto simp: approves_def nth_Cons add.assoc split: nat.split)
      moreover have "make_requests attempt (Suc (Suc n)) stream w = ((y # rs) @ [x], w')"
        using ih(1) a by simp
      ultimately show ?thesis using ih by (intro exI [of _ "Suc n"] exI [of _ "y # rs"] exI [of _ x]) auto
    qed
  qed
qed

section \<open>Uploads and deadlines\<close>

text \<open>Reading to the end of a body gives all of it, in pieces of at most \<open>n\<close> bytes.\<close>

definition body_left :: "RequestBodySource \<Rightarrow> string" where
  "body_left src = drop (bs_offset src) (bs_data src) @ (if bs_finished src then [] else concat (takeWhile (\<lambda>c. c \<noteq> []) (bs_provider src)))"

lemma refill_left: "body_left (refill src) = body_left src"
  by (auto simp: refill_def body_left_def split: list.split)

lemma refilled: "bs_offset (refill src) < length (bs_data (refill src)) \<or> bs_finished (refill src)"
  by (auto simp: refill_def split: list.split)

lemma h2_read_step:
  assumes "h2_client_read n src = (d, eof, src')" "0 < n"
  shows "body_left src = d @ body_left src'" "eof \<Longrightarrow> body_left src' = []" "\<not> eof \<Longrightarrow> d \<noteq> []" "length d \<le> n"
proof -
  let ?s = "refill src" and ?k = "min n (length (bs_data (refill src)) - bs_offset (refill src))"
  have d: "d = take ?k (drop (bs_offset ?s) (bs_data ?s))" "src' = ?s\<lparr>bs_offset := bs_offset ?s + ?k\<rparr>"
      "eof \<longleftrightarrow> length (bs_data ?s) \<le> bs_offset ?s + ?k \<and> bs_finished ?s"
    using assms(1) by (auto simp: h2_client_read_def Let_def)
  have "drop (bs_offset ?s) (bs_data ?s) = d @ drop ?k (drop (bs_offset ?s) (bs_data ?s))" unfolding d(1) by (rule append_take_drop_id [symmetric])
  then show "body_left src = d @ body_left src'"
    unfolding refill_left [of src, symmetric] by (simp add: body_left_def d(2) add.commute)
  show "eof \<Longrightarrow> body_left src' = []" using d by (simp add: body_left_def)
  show "length d \<le> n" by (simp add: d(1))
  show "d \<noteq> []" if "\<not> eof"
  proof (rule ccontr)
    assume "\<not> d \<noteq> []"
    then have "length (bs_data ?s) \<le> bs_offset ?s" using assms(2) by (auto simp: d(1) min_def split: if_splits)
    with refilled [of src] that d(3) show False by auto
  qed
qed

fun read_to_end :: "nat \<Rightarrow> nat \<Rightarrow> RequestBodySource \<Rightarrow> string option" where
  "read_to_end 0 n src = None"
| "read_to_end (Suc fuel) n src =
     (case h2_client_read n src of (d, eof, src') \<Rightarrow>
        if eof then Some d else map_option (\<lambda>rest. d @ rest) (read_to_end fuel n src'))"

lemma h2_upload_complete: "0 < n \<Longrightarrow> length (body_left src) < fuel \<Longrightarrow> read_to_end fuel n src = Some (body_left src)"
proof (induction fuel arbitrary: src)
  case (Suc fuel)
  obtain d eof src' where r: "h2_client_read n src = (d, eof, src')" by (cases "h2_client_read n src") auto
  note s = h2_read_step [OF r Suc.prems(1)]
  show ?case
  proof (cases eof)
    case True
    with s r show ?thesis by simp
  next
    case False
    with s(1,3) Suc.prems(2) have "length (body_left src') < fuel" by (cases d) auto
    with Suc.IH [OF Suc.prems(1), of src'] False r s(1) show ?thesis by simp
  qed
qed simp

text \<open>A call that waits returns by its deadline, and one that timed out is no longer waiting.\<close>

lemma sync_execute_returns:
  assumes "\<exists>t\<in>set ts. lt_late t"
  shows "\<exists>r c'. sync_execute w ts c = Some (r, c')"
  using assms by (induction w ts c rule: sync_execute.induct) (auto simp: Let_def split: option.split)

lemma wait_for_connection_returns:
  assumes "\<exists>t\<in>set ts. lt_late t"
  shows "\<exists>r c'. wait_for_connection ts c = Some (r, c')"
  using assms by (induction ts c rule: wait_for_connection.induct) (auto, blast+)

lemma wait_for_connection_ready: "wait_for_connection ts c = Some (None, c') \<Longrightarrow> is_connected c'"
  by (induction ts c rule: wait_for_connection.induct) (auto split: if_splits)

section \<open>What the client does not promise\<close>

text \<open>Bytes encrypted for a lost connection stay in the buffer and are sent first on the next one.\<close>

lemma rest_stale_bytes_resent:
  assumes "hs_out t \<noteq> []" "\<not> hs_complete t"
  shows "tcp_write_buf (reconnect_fires (Connected t []) c) = tcp_write_buf c @ hs_out t"
  using assms by (simp add: reconnect_fires_def do_reconnect_def do_connect_tcp_def close_tcp_def Let_def)

text \<open>A successful connection over TCP does not reset the count of attempts.\<close>

lemma rest_attempts_not_reset:
  "cc_protocol (cl_cfg c) = HTTP1_1 \<Longrightarrow> reconnect_attempts (reconnect_fires (Connected t []) c) = reconnect_attempts c"
  by (simp add: reconnect_fires_def do_reconnect_def do_connect_tcp_def close_tcp_def finish_handshake_def Let_def)

text \<open>A lost connection completes a call with a response of status 0, not with an exception.\<close>

lemma rest_lost_is_response:
  assumes "h2_pending c = []" "h3_pending c = []" "pending_tcp c = Some w"
  shows "completed (on_disconnect c) = completed c @ [(w, Inr (error_response ''Connection lost''))]"
  using assms
  by (simp add: on_disconnect_def complete_pending_with_error_def fail_entries_def waiting_h2_def waiting_h3_def resume_tcp_def
    complete_with_def close_tcp_def schedule_reconnect_def Let_def)

text \<open>A second request on HTTP/1.1 replaces the first one that waits, which is never completed.\<close>

lemma rest_overlap_forgets:
  "waiters (snd (start_http1_request Some [] 2 m p b h s (snd (start_http1_request Some [] 1 m p b h s (new_client cfg))))) = [2]"
  by (simp add: start_http1_request_def waiters_def new_client_def)

text \<open>A request whose bytes cannot be sent waits on a connection that is already closed.\<close>

lemma rest_send_failure_waits:
  "let c = snd (start_http1_request Some [Send_failed] 1 m p b h s (new_client cfg)) in waiters c = [1] \<and> \<not> tcp_open c"
  by (simp add: start_http1_request_def http1_request_text_def waiters_def Let_def on_disconnect_def close_tcp_def schedule_reconnect_def
    complete_pending_effect)

text \<open>When the reset of a cancelled stream cannot be sent, its coroutine is resumed twice.\<close>

lemma rest_cancel_completes_twice:
  "map fst (completed (cancel_h2_stream 1 ''rst'' [Send_failed]
     ((new_client cfg)\<lparr>h2_pending := [(1, new_h2_stream\<lparr>h2_coroutine := Some 7\<rparr>)]\<rparr>))) = [7, 7]"
proof -
  have "completed (on_disconnect c) = completed (complete_pending_with_error ''Connection lost'' c)" for c
    by (simp add: on_disconnect_def schedule_reconnect_def close_tcp_def Let_def)
  then show ?thesis
    by (simp add: cancel_h2_stream_def put_h2_def new_client_def new_h2_stream_def resume_completes complete_pending_effect waiters_def)
qed

text \<open>With a declared length a streamed body is written in chunks without saying so.\<close>

lemma rest_stream_with_length:
  "http1_request_text ''h'' ''PUT'' ''/f'' [] [\<lparr>hname = ''Content-Length'', hvalue = ''2''\<rparr>] (Some [''ab'']) =
   ''PUT /f HTTP/1.1'' @ CRLF @ ''Host: h'' @ CRLF @ ''Content-Length: 2'' @ CRLF @ ''Connection: keep-alive'' @ CRLF @ CRLF @
   ''2'' @ CRLF @ ''ab'' @ CRLF @ ''0'' @ CRLF @ CRLF"
  by code_simp

text \<open>A retried upload is sent again without its body.\<close>

lemma rest_retry_drops_stream:
  "snd (retry_loop (\<lambda>_. False) (\<lambda>s w. (Inr (error_response []), w @ [s])) (Some (\<lambda>_ _. True)) 2 1 (Some cs) []) = [Some cs, None]"
  by (simp add: retry_loop.simps)

text \<open>A response without header fields is never recognised as complete.\<close>

lemma rest_headerless_response_waits: "parse_http1_response (''HTTP/1.1 204 No Content'' @ CRLF @ CRLF) = Some Parse_wait"
  by code_simp

text \<open>A chunk size near the end of the 64-bit range sends the reader back to the same size line, for ever.\<close>

lemma rest_chunk_loop_diverges: "client_chunks (''FFFFFFFFFFFFFFEC'' @ CRLF) 0 [] = None"
proof -
  define X where "X = ''FFFFFFFFFFFFFFEC'' @ CRLF"
  have size: "find_crlf X = Some 16" "stoull16 (take 16 X) = Inr (2 ^ 64 - 20)"
    by (simp_all add: X_def stoull16_def starts_with_def isspace_def isxdigit_def xdigit_val_def isdigit_def)
  have "client_chunks buf pos body = Some r \<Longrightarrow> buf = X \<longrightarrow> pos \<noteq> 0" for buf pos body r
    apply (erule client_chunks.raw_induct [rotated])
    subgoal premises prems for f buf pos body r
    proof (intro impI notI)
      assume "buf = X" "pos = 0"
      then have "f X 0 (body @ take (2 ^ 64 - 20) (drop 18 X)) = Some r" using prems(2) by (simp add: size)
      with prems(1) show False by blast
    qed
    done
  then show ?thesis unfolding X_def [symmetric] by (cases "client_chunks X 0 []") auto
qed

section \<open>Traces of calls\<close>

definition hex_char :: "char \<Rightarrow> bool" where
  "hex_char c \<longleftrightarrow> c \<in> set ''0123456789abcdef''"

text \<open>The form of a \<^verbatim>\<open>traceparent\<close> header in the W3C recommendation, version 00.\<close>

definition w3c_traceparent :: "string \<Rightarrow> string \<Rightarrow> string \<Rightarrow> string \<Rightarrow> bool" where
  "w3c_traceparent tid parent flags v \<longleftrightarrow>
     v = ''00-'' @ tid @ ''-'' @ parent @ ''-'' @ flags \<and> length tid = 32 \<and> length parent = 16 \<and> length flags = 2 \<and>
     (\<forall>c\<in>set tid \<union> set parent \<union> set flags. hex_char c) \<and>
     (\<exists>c\<in>set tid. c \<noteq> CHR ''0'') \<and> (\<exists>c\<in>set parent. c \<noteq> CHR ''0'')"

lemma hex_char_iff: "hex_char c \<longleftrightarrow> isdigit c \<or> 97 \<le> byte_of c \<and> byte_of c \<le> 102"
proof -
  have "set ''0123456789abcdef'' = char_of ` ({48..57} \<union> {97..102} :: nat set)" by code_simp
  moreover have "c \<in> char_of ` ({48..57} \<union> {97..102} :: nat set) \<longleftrightarrow> byte_of c \<in> {48..57} \<union> {97..102}"
    by (auto intro: image_eqI [of _ _ "byte_of c"])
  ultimately show ?thesis by (simp add: hex_char_def isdigit_def)
qed

lemma hex_chars: "is_lower_hex v \<longleftrightarrow> v \<noteq> [] \<and> (\<forall>c\<in>set v. hex_char c)"
  by (simp add: is_lower_hex_def list_all_iff hex_char_iff)

lemma server_span_continues:
  assumes w: "w3c_traceparent tid parent flags v" and h: "request_header req ''traceparent'' = Some v"
    and server: "begin_server_span (Some a) (Some b) req = Inr s"
  shows "trace_id s = tid" "parent_span_id s = parent" "trace_flags s = flags" "span_id s = hex_encode b"
    "tracestate s = (case request_header req ''tracestate'' of Some st \<Rightarrow> st | None \<Rightarrow> [])"
proof -
  let ?st = "case request_header req ''tracestate'' of Some st \<Rightarrow> st | None \<Rightarrow> []"
  let ?t = "\<lparr>trace_id = tid, span_id = parent, parent_span_id = [], trace_flags = flags, tracestate = ?st\<rparr>"
  have ne: "tid \<noteq> []" "parent \<noteq> []" "flags \<noteq> []" using w by (auto simp: w3c_traceparent_def)
  then have "valid_trace ?t"
    using w by (auto simp: valid_trace_def w3c_traceparent_def all_zero_def list_all_iff hex_chars)
  moreover have "request_header req ''traceparent'' = Some (traceparent ?t)" using w h by (simp add: w3c_traceparent_def traceparent_def)
  ultimately have "extract_trace_context req = Some \<lparr>trace_id = tid, span_id = [], parent_span_id = parent, trace_flags = flags, tracestate = ?st\<rparr>"
    using extract_written [of ?t req] by simp
  then have "s = \<lparr>trace_id = tid, span_id = hex_encode b, parent_span_id = parent, trace_flags = flags, tracestate = ?st\<rparr>"
    using server ne by (simp add: begin_server_span_def fill_span_def random_hex_def)
  then show "trace_id s = tid" "parent_span_id s = parent" "trace_flags s = flags" "span_id s = hex_encode b" "tracestate s = ?st"
    by simp_all
qed

lemma hex_encode_w3c:
  assumes "random_bytes 16 a" "random_bytes 8 b"
  shows "w3c_traceparent (hex_encode a) (hex_encode b) ''01'' (''00-'' @ hex_encode a @ ''-'' @ hex_encode b @ ''-01'')"
proof -
  have "hex_char CHR ''0''" "hex_char CHR ''1''" by code_simp+
  then show ?thesis
    using random_hex_ok [OF assms(1)] random_hex_ok [OF assms(2)]
    by (auto simp: w3c_traceparent_def all_zero_def list_all_iff hex_chars)
qed

text \<open>
  C27: The trace of a call of the client reaches the server that answers it. When the caller gave a valid
  \<^verbatim>\<open>traceparent\<close>, the server's span continues that trace: it has its trace identifier, flags and state, and
  the caller's span as parent. Otherwise, also inside a request that has a trace, the call starts a trace of its own,
  with a span of the client as the parent of the server's span and no state. The server's span is new. This is
  for a client with trace propagation on, whose two headers arrive as sent.
\<close>

theorem trace_context_propagates:
  assumes rand: "random_bytes 16 a" "random_bytes 8 b" and cfg: "propagate_trace_context cfg"
    and call: "traced_headers (Some a) (Some b) cfg headers = Inr hs"
    and arrives: "request_header req ''traceparent'' = HeaderMap_get hs ''traceparent''"
      "request_header req ''tracestate'' = HeaderMap_get hs ''tracestate''"
    and server: "begin_server_span (Some a') (Some b') req = Inr s"
  shows "span_id s = hex_encode b' \<and>
    (case HeaderMap_get headers ''traceparent'' of
       None \<Rightarrow> trace_id s = hex_encode a \<and> parent_span_id s = hex_encode b \<and> trace_flags s = ''01'' \<and> tracestate s = []
     | Some v \<Rightarrow> \<forall>tid parent flags. w3c_traceparent tid parent flags v \<longrightarrow>
         trace_id s = tid \<and> parent_span_id s = parent \<and> trace_flags s = flags \<and>
         tracestate s = (case HeaderMap_get headers ''tracestate'' of None \<Rightarrow> [] | Some st \<Rightarrow> st))"
proof -
  have span: "span_id s = hex_encode b'"
    using server by (auto simp: begin_server_span_def fill_span_def random_hex_def split: sum.splits)
  show ?thesis
  proof (cases "HeaderMap_get headers ''traceparent''")
    case None
    have "\<not> names_equal ''tracestate'' ''traceparent''" by code_simp
    then have hs: "HeaderMap_get hs ''traceparent'' = Some (''00-'' @ hex_encode a @ ''-'' @ hex_encode b @ ''-01'')"
      "HeaderMap_get hs ''tracestate'' = None"
      using call cfg None
      by (auto simp: traced_headers_def HeaderMap_has_def begin_client_span_def fill_span_def empty_trace_def random_hex_def
          inject_trace_headers_def traceparent_def HeaderMap_get_set HeaderMap_get_remove)
    from server_span_continues [OF hex_encode_w3c [OF rand] _ server] arrives hs None span show ?thesis by simp
  next
    case (Some v)
    then have hs: "hs = headers" using call by (simp add: traced_headers_def HeaderMap_has_def)
    with arrives have "request_header req ''traceparent'' = Some v"
      "request_header req ''tracestate'' = HeaderMap_get headers ''tracestate''" using Some by simp_all
    with server_span_continues [OF _ _ server] span Some show ?thesis by (auto split: option.splits)
  qed
qed

definition demo_bytes :: "nat \<Rightarrow> nat list" where
  "demo_bytes n = replicate n 17"

definition demo_parent :: string where
  "demo_parent = ''00-0af7651916cd43dd8448eb211c80319c-b7ad6b7169203331-01''"

definition demo_call :: header_map where
  "demo_call = HeaderMap_set (HeaderMap_set [] ''traceparent'' demo_parent) ''tracestate'' ''vendor=1''"

theorem trace_context_propagates_witness:
  "\<exists>s. begin_server_span (Some (demo_bytes 16)) (Some (demo_bytes 8)) (empty_request\<lparr>req_headers := demo_call\<rparr>) = Inr s \<and>
     trace_id s = ''0af7651916cd43dd8448eb211c80319c'' \<and> parent_span_id s = ''b7ad6b7169203331'' \<and> tracestate s = ''vendor=1''"
proof -
  let ?cfg = "cl_cfg demo_client\<lparr>propagate_trace_context := True\<rparr>" and ?req = "empty_request\<lparr>req_headers := demo_call\<rparr>"
  have r: "random_bytes 16 (demo_bytes 16)" "random_bytes 8 (demo_bytes 8)" by (simp_all add: random_bytes_def demo_bytes_def)
  have get: "HeaderMap_get demo_call ''traceparent'' = Some demo_parent" "HeaderMap_get demo_call ''tracestate'' = Some ''vendor=1''"
    by code_simp+
  have call: "traced_headers (Some (demo_bytes 16)) (Some (demo_bytes 8)) ?cfg demo_call = Inr demo_call"
    by (simp add: traced_headers_def HeaderMap_has_def get)
  obtain s where s: "begin_server_span (Some (demo_bytes 16)) (Some (demo_bytes 8)) ?req = Inr s"
    unfolding begin_server_span_def using fill_span_total by blast
  have "w3c_traceparent ''0af7651916cd43dd8448eb211c80319c'' ''b7ad6b7169203331'' ''01'' demo_parent"
    by code_simp
  with trace_context_propagates [OF r _ call _ _ s] s get show ?thesis by (simp add: request_header_def)
qed

end
