(* ===== verification/Session_Auth.thy ===== *)
theory Session_Auth
  imports Request_Pipeline Http_Cookie Http_Filters
begin

text \<open>
  Browser sessions, \<^verbatim>\<open>src/middleware/session_middleware.cpp\<close>: the session store interface and its
  in-memory implementation, the manager that logs in, authenticates and logs out, and the
  middleware that puts the principal in the request context.

  Time points are integers in nanoseconds. The bytes OpenSSL's \<^verbatim>\<open>RAND_bytes\<close> returns are an argument,
  \<open>None\<close> standing for its failure.
\<close>

section \<open>Stores\<close>

record Session =
  session_id :: string
  session_principal :: SessionPrincipal
  expires_at :: int

type_synonym sessions = "string \<rightharpoonup> Session"

record 'st SessionStore =
  ss_put :: "Session \<Rightarrow> 'st \<Rightarrow> 'st"
  ss_find :: "string \<Rightarrow> int \<Rightarrow> 'st \<Rightarrow> Session option \<times> 'st"
  ss_erase :: "string \<Rightarrow> 'st \<Rightarrow> 'st"

definition memory_put :: "Session \<Rightarrow> sessions \<Rightarrow> sessions" where
  "memory_put s m = m(session_id s \<mapsto> s)"

definition memory_find :: "string \<Rightarrow> int \<Rightarrow> sessions \<Rightarrow> Session option \<times> sessions" where
  "memory_find i now m =
     (case m i of
        None \<Rightarrow> (None, m)
      | Some s \<Rightarrow> if expires_at s \<le> now then (None, m(i := None)) else (Some s, m))"

definition memory_erase :: "string \<Rightarrow> sessions \<Rightarrow> sessions" where
  "memory_erase i m = m(i := None)"

definition InMemorySessionStore :: "sessions SessionStore" where
  "InMemorySessionStore = \<lparr>ss_put = memory_put, ss_find = memory_find, ss_erase = memory_erase\<rparr>"

section \<open>SessionManager\<close>

record SessionManager_Config =
  sm_cookie_name :: string
  sm_cookie_path :: string
  sm_cookie_domain :: "string option"
  sm_ttl :: int
  sm_secure_cookie :: bool
  sm_same_site :: SameSite

definition SessionManager_new :: "SessionManager_Config \<Rightarrow> SessionManager_Config result" where
  "SessionManager_new cfg =
     (if sm_cookie_name cfg = [] \<or> sm_cookie_path cfg = [] \<or> hd (sm_cookie_path cfg) \<noteq> CHR ''/'' \<or>
         sm_ttl cfg \<le> 0
      then Inl (Invalid_argument ''Session cookie name, absolute path, and positive TTL are required'')
      else if sm_same_site cfg = SameSite_None \<and> \<not> sm_secure_cookie cfg
      then Inl (Invalid_argument ''Session SameSite=None cookie must be Secure'')
      else Inr cfg)"

definition generate_id :: "nat list option \<Rightarrow> string result" where
  "generate_id rand = (case rand of
       None \<Rightarrow> Inl (Runtime_error ''OpenSSL could not generate a session identifier'')
     | Some bytes \<Rightarrow> Inr (hex_encode bytes))"

definition issue_cookie :: "SessionManager_Config \<Rightarrow> response \<Rightarrow> string \<Rightarrow> int \<Rightarrow> response result" where
  "issue_cookie cfg res i max_age =
     set_cookie res \<lparr>ck_name = sm_cookie_name cfg, ck_value = i, ck_path = sm_cookie_path cfg,
       ck_domain = sm_cookie_domain cfg, ck_max_age = Some max_age, ck_secure = sm_secure_cookie cfg,
       ck_http_only = True, ck_same_site = sm_same_site cfg\<rparr>"

definition drop_inbound :: "'st SessionStore \<Rightarrow> SessionManager_Config \<Rightarrow> request \<Rightarrow> 'st \<Rightarrow> 'st" where
  "drop_inbound ops cfg req st =
     (case request_cookie req (sm_cookie_name cfg) of Some i \<Rightarrow> ss_erase ops i st | None \<Rightarrow> st)"

definition login ::
    "'st SessionStore \<Rightarrow> SessionManager_Config \<Rightarrow> nat list option \<Rightarrow> int \<Rightarrow> request \<Rightarrow> SessionPrincipal \<Rightarrow>
     response \<Rightarrow> 'st \<Rightarrow> Session result \<times> response \<times> 'st" where
  "login ops cfg rand now req who res st =
     (if sp_subject who = []
      then (Inl (Invalid_argument ''Session principal subject must not be empty''), res, st)
      else
        let st1 = drop_inbound ops cfg req st
        in case generate_id rand of
             Inl e \<Rightarrow> (Inl e, res, st1)
           | Inr i \<Rightarrow>
               let session = \<lparr>session_id = i, session_principal = who,
                              expires_at = now + sm_ttl cfg * 1000000000\<rparr>;
                   st2 = ss_put ops session st1
               in case issue_cookie cfg res i (sm_ttl cfg) of
                    Inl e \<Rightarrow> (Inl e, res, st2)
                  | Inr res' \<Rightarrow> (Inr session, res', st2))"

definition authenticate ::
    "'st SessionStore \<Rightarrow> SessionManager_Config \<Rightarrow> int \<Rightarrow> request \<Rightarrow> 'st \<Rightarrow> SessionPrincipal option \<times> 'st" where
  "authenticate ops cfg now req st =
     (case request_cookie req (sm_cookie_name cfg) of
        None \<Rightarrow> (None, st)
      | Some i \<Rightarrow>
          if i = [] then (None, st)
          else (case ss_find ops i now st of
                  (None, st') \<Rightarrow> (None, st')
                | (Some s, st') \<Rightarrow> (Some (session_principal s), st')))"

definition logout ::
    "'st SessionStore \<Rightarrow> SessionManager_Config \<Rightarrow> request \<Rightarrow> response \<Rightarrow> 'st \<Rightarrow> response result \<times> 'st" where
  "logout ops cfg req res st = (issue_cookie cfg res [] 0, drop_inbound ops cfg req st)"

section \<open>SessionMiddleware\<close>

record SessionMiddleware_Config =
  sess_allowlist_paths :: "string list"
  allow_options_requests :: bool
  unauthorized_status :: int
  unauthorized_body :: string

record 'st session_exchange = exchange +
  sess_store :: 'st
  sess_clock :: int

definition SessionMiddleware_handle ::
    "'st SessionStore \<Rightarrow> SessionManager_Config \<Rightarrow> SessionMiddleware_Config \<Rightarrow>
     ('st, 'z) session_exchange_scheme middleware" where
  "SessionMiddleware_handle ops mgr cfg next s =
     (if (allow_options_requests cfg \<and> req_method (ex_req s) = ''OPTIONS'') \<or>
         path_allowed (req_path (ex_req s)) (sess_allowlist_paths cfg)
      then next s
      else case authenticate ops mgr (sess_clock s) (ex_req s) (sess_store s) of
             (Some who, st) \<Rightarrow>
               next (s\<lparr>sess_store := st, ex_ctx := ctx_set (ex_ctx s) (Sess who)\<rparr>)
           | (None, st) \<Rightarrow>
               (None, set_res (s\<lparr>sess_store := st\<rparr>)
                  (Response_json (Response_status (ex_res s) (unauthorized_status cfg)) (unauthorized_body cfg))))"

definition SessionMiddleware_decide ::
    "'st SessionStore \<Rightarrow> SessionManager_Config \<Rightarrow> SessionMiddleware_Config \<Rightarrow> ('st, 'z) session_exchange_scheme \<Rightarrow>
     ('st, 'z) session_exchange_scheme + (exn option \<times> ('st, 'z) session_exchange_scheme)" where
  "SessionMiddleware_decide ops mgr cfg s =
     (if (allow_options_requests cfg \<and> req_method (ex_req s) = ''OPTIONS'') \<or>
         path_allowed (req_path (ex_req s)) (sess_allowlist_paths cfg)
      then Inl s
      else case authenticate ops mgr (sess_clock s) (ex_req s) (sess_store s) of
             (Some who, st) \<Rightarrow>
               Inl (s\<lparr>sess_store := st, ex_ctx := ctx_set (ex_ctx s) (Sess who)\<rparr>)
           | (None, st) \<Rightarrow>
               Inr (None, set_res (s\<lparr>sess_store := st\<rparr>)
                  (Response_json (Response_status (ex_res s) (unauthorized_status cfg)) (unauthorized_body cfg))))"

interpretation session_gate: request_gate "SessionMiddleware_handle ops mgr cfg" "SessionMiddleware_decide ops mgr cfg"
  for ops mgr cfg
  by unfold_locales
     (auto simp: SessionMiddleware_handle_def SessionMiddleware_decide_def split: option.split prod.split)

section \<open>The store contract and what the manager gets from it\<close>

text \<open>
  A store stands for a partial map from identifiers to sessions. A lookup may forget expired
  sessions but keeps every live one.
\<close>

locale session_store =
  fixes ops :: "'st SessionStore" and abs :: "'st \<Rightarrow> string \<rightharpoonup> Session"
  assumes abs_put: "abs (ss_put ops s st) = (abs st)(session_id s \<mapsto> s)"
    and abs_erase: "abs (ss_erase ops i st) = (abs st)(i := None)"
    and find_result: "fst (ss_find ops i now st) =
      (case abs st i of Some s \<Rightarrow> if now < expires_at s then Some s else None | None \<Rightarrow> None)"
    and find_live: "abs st k = Some s \<Longrightarrow> now < expires_at s \<Longrightarrow> abs (snd (ss_find ops i now st)) k = Some s"
    and find_sub: "abs (snd (ss_find ops i now st)) k = Some s \<Longrightarrow> abs st k = Some s"
begin

lemma authenticate_result:
  "fst (authenticate ops cfg now req st) =
     (case request_cookie req (sm_cookie_name cfg) of
        Some i \<Rightarrow> (if i = [] then None else case abs st i of
            Some s \<Rightarrow> if now < expires_at s then Some (session_principal s) else None
          | None \<Rightarrow> None)
      | None \<Rightarrow> None)"
proof (cases "request_cookie req (sm_cookie_name cfg)")
  case (Some i)
  obtain r st' where f: "ss_find ops i now st = (r, st')" by force
  with find_result [of i now st] Some show ?thesis
    by (simp add: authenticate_def split: option.split)
qed (simp add: authenticate_def)

lemma authenticate_keeps_live:
  "abs st k = Some s \<Longrightarrow> now < expires_at s \<Longrightarrow> abs (snd (authenticate ops cfg now req st)) k = Some s"
proof (cases "request_cookie req (sm_cookie_name cfg)")
  case (Some i)
  assume live: "abs st k = Some s" "now < expires_at s"
  obtain r st' where f: "ss_find ops i now st = (r, st')" by force
  with find_live [OF live, of i] live Some show ?thesis
    by (simp add: authenticate_def split: option.split)
qed (simp add: authenticate_def)

lemma drop_inbound_abs:
  "abs (drop_inbound ops cfg req st) =
     (case request_cookie req (sm_cookie_name cfg) of Some i \<Rightarrow> (abs st)(i := None) | None \<Rightarrow> abs st)"
  by (simp add: drop_inbound_def abs_erase split: option.split)

lemma login_abs:
  assumes "login ops cfg rand now req who res st = (Inr session, res', st')"
  shows "abs st' = (abs (drop_inbound ops cfg req st))(session_id session \<mapsto> session) \<and>
    session_principal session = who \<and> expires_at session = now + sm_ttl cfg * 1000000000 \<and>
    generate_id rand = Inr (session_id session) \<and>
    issue_cookie cfg res (session_id session) (sm_ttl cfg) = Inr res'"
  using assms by (auto simp: login_def Let_def abs_put split: if_splits sum.splits)

end

interpretation in_memory: session_store InMemorySessionStore id
  by unfold_locales
     (auto simp: InMemorySessionStore_def memory_put_def memory_erase_def memory_find_def
       split: option.splits if_splits)

section \<open>Runs of the manager\<close>

datatype session_op =
    Op_login "nat list option" int request SessionPrincipal response
  | Op_authenticate int request
  | Op_logout request

fun session_op_run :: "SessionManager_Config \<Rightarrow> session_op \<Rightarrow> sessions \<Rightarrow> sessions" where
  "session_op_run cfg (Op_login rand now req who res) st =
     snd (snd (login InMemorySessionStore cfg rand now req who res st))"
| "session_op_run cfg (Op_authenticate now req) st = snd (authenticate InMemorySessionStore cfg now req st)"
| "session_op_run cfg (Op_logout req) st = drop_inbound InMemorySessionStore cfg req st"

text \<open>
  The operations that leave a session alone: they happen before it expires, they are not a login or
  logout carrying its identifier, and the generator does not produce the identifier again.
\<close>

fun op_spares :: "SessionManager_Config \<Rightarrow> Session \<Rightarrow> session_op \<Rightarrow> bool" where
  "op_spares cfg s (Op_login rand now req who res) \<longleftrightarrow>
     request_cookie req (sm_cookie_name cfg) \<noteq> Some (session_id s) \<and> generate_id rand \<noteq> Inr (session_id s)"
| "op_spares cfg s (Op_authenticate now req) \<longleftrightarrow> now < expires_at s"
| "op_spares cfg s (Op_logout req) \<longleftrightarrow> request_cookie req (sm_cookie_name cfg) \<noteq> Some (session_id s)"

lemma ss_put_memory: "ss_put InMemorySessionStore s m = m(session_id s \<mapsto> s)"
  by (simp add: InMemorySessionStore_def memory_put_def)

lemma drop_inbound_spares:
  "request_cookie req (sm_cookie_name cfg) \<noteq> Some k \<Longrightarrow> drop_inbound InMemorySessionStore cfg req st k = st k"
  using in_memory.drop_inbound_abs [of cfg req st] by (auto split: option.splits)

lemma op_spares_keeps:
  assumes "op_spares cfg s op" and "st (session_id s) = Some s"
  shows "session_op_run cfg op st (session_id s) = Some s"
proof (cases op)
  case (Op_login rand now req who res)
  with assms show ?thesis
    by (auto simp: login_def Let_def ss_put_memory drop_inbound_spares split: sum.split)
next
  case (Op_authenticate now req)
  with assms show ?thesis using in_memory.authenticate_keeps_live [of st "session_id s" s] by simp
next
  case (Op_logout req)
  with assms show ?thesis by (simp add: drop_inbound_spares)
qed

lemma ops_spare_keep:
  "list_all (op_spares cfg s) ops \<Longrightarrow> st (session_id s) = Some s \<Longrightarrow>
   foldl (\<lambda>st op. session_op_run cfg op st) st ops (session_id s) = Some s"
  by (induction ops arbitrary: st) (auto simp: op_spares_keeps)

lemma cookie_of_header:
  "list_all cookie_pair_ok cs \<Longrightarrow> map_of cs n = Some v \<Longrightarrow>
   HeaderMap_get_all (req_headers req) ''cookie'' = [cookie_header cs] \<Longrightarrow> request_cookie req n = Some v"
  by (cases "cs = []") (auto simp: request_cookie_def cookie_loop_header)

section \<open>Properties\<close>

text \<open>
  a successful login is good exactly until it expires. Whatever other logins, lookups and
  logouts happen in between (as long as none of them carries or regenerates this identifier), a
  request whose \<^verbatim>\<open>Cookie\<close> header contains the issued identifier is authenticated as the principal
  that logged in before the time to live is over, and as nobody afterwards.
\<close>

theorem session_login_lifecycle:
  assumes "login InMemorySessionStore cfg (Some bytes) now req who res st = (Inr session, res', st')"
    and "length bytes = 32"
    and "list_all (op_spares cfg session) ops"
    and "list_all cookie_pair_ok cs" and "map_of cs (sm_cookie_name cfg) = Some (hex_encode bytes)"
    and "HeaderMap_get_all (req_headers req') ''cookie'' = [cookie_header cs]"
  shows "fst (authenticate InMemorySessionStore cfg now' req' (foldl (\<lambda>st op. session_op_run cfg op st) st' ops)) =
    (if now' < now + sm_ttl cfg * 1000000000 then Some who else None)"
proof -
  note l = in_memory.login_abs [OF assms(1)]
  have i: "session_id session = hex_encode bytes" using l by (simp add: generate_id_def)
  have "st' (session_id session) = Some session" using l by simp
  then have live: "foldl (\<lambda>st op. session_op_run cfg op st) st' ops (hex_encode bytes) = Some session"
    using ops_spare_keep [OF assms(3)] i by simp
  have ne: "hex_encode bytes \<noteq> []" using assms(2) by (cases bytes) (auto simp: hex_encode_def)
  show ?thesis
    using l live ne by (simp add: in_memory.authenticate_result cookie_of_header [OF assms(4,5,6)])
qed

definition sm_sample :: SessionManager_Config where
  "sm_sample = \<lparr>sm_cookie_name = ''SID'', sm_cookie_path = ''/'', sm_cookie_domain = None, sm_ttl = 60,
     sm_secure_cookie = True, sm_same_site = Lax\<rparr>"

definition alice :: SessionPrincipal where
  "alice = \<lparr>sp_subject = ''alice'', sp_roles = [''admin''], sp_scopes = []\<rparr>"

definition sid_request :: "string \<Rightarrow> request" where
  "sid_request v = empty_request\<lparr>req_headers := [\<lparr>hname = ''cookie'', hvalue = ''SID='' @ v\<rparr>]\<rparr>"

lemma sid_request_header:
  "HeaderMap_get_all (req_headers (sid_request v)) ''cookie'' = [cookie_header [(''SID'', v)]]"
  by (simp add: sid_request_def cookie_pair_def)

lemma sample_login:
  "\<exists>session res'. login InMemorySessionStore sm_sample (Some (replicate 32 255)) 7 empty_request alice
      default_response Map.empty = (Inr session, res', Map.empty(session_id session \<mapsto> session)) \<and>
    session_id session = hex_encode (replicate 32 255)"
proof -
  let ?i = "hex_encode (replicate 32 255)"
  have "\<not> contains_cookie_delimiter ?i" by code_simp
  then obtain res' where r: "issue_cookie sm_sample default_response ?i (sm_ttl sm_sample) = Inr res'"
    by (simp add: issue_cookie_def set_cookie_def serialize_cookie_def sm_sample_def cookie_token_character_def
        isalpha_def contains_cookie_delimiter_def cookie_delimiter_def)
  have "request_cookie empty_request (sm_cookie_name sm_sample) = None" by code_simp
  with r show ?thesis
    by (simp add: login_def alice_def generate_id_def drop_inbound_def ss_put_memory Let_def)
qed

theorem session_login_lifecycle_witness:
  "\<exists>st. fst (authenticate InMemorySessionStore sm_sample 60000000006
       (sid_request (hex_encode (replicate 32 255))) st) = Some alice"
proof -
  obtain session res' where l: "login InMemorySessionStore sm_sample (Some (replicate 32 255)) 7 empty_request alice
      default_response Map.empty = (Inr session, res', Map.empty(session_id session \<mapsto> session))"
    using sample_login by blast
  have ok: "list_all cookie_pair_ok [(''SID'', hex_encode (replicate 32 255))]" by code_simp
  from session_login_lifecycle [OF l _ _ ok _ sid_request_header, of "[]" 60000000006]
  show ?thesis by (auto simp: sm_sample_def)
qed

text \<open>
  C18: an identifier a client presents at login or logout is dead afterwards: it authenticates
  nobody at any time (at login, unless the generator happened to produce the very same identifier), so a
  fixed session identifier cannot survive a login. This holds on the error paths of login too.
\<close>

theorem session_inbound_id_invalidated:
  assumes "request_cookie req (sm_cookie_name cfg) = Some i"
    and "request_cookie req' (sm_cookie_name cfg) = Some i"
    and "sp_subject who \<noteq> []" and "generate_id rand \<noteq> Inr i"
  shows "fst (authenticate InMemorySessionStore cfg now' req'
           (snd (snd (login InMemorySessionStore cfg rand now req who res st)))) = None \<and>
    fst (authenticate InMemorySessionStore cfg now' req'
           (snd (logout InMemorySessionStore cfg req res st))) = None"
proof -
  have dead: "drop_inbound InMemorySessionStore cfg req st i = None"
    using in_memory.drop_inbound_abs [of cfg req st] assms(1) by simp
  have "snd (snd (login InMemorySessionStore cfg rand now req who res st)) i = None"
    using assms(3,4) dead
    by (auto simp: login_def Let_def ss_put_memory split: sum.split)
  with assms(2) dead show ?thesis by (simp add: in_memory.authenticate_result logout_def)
qed

theorem session_inbound_id_invalidated_witness:
  "fst (authenticate InMemorySessionStore sm_sample 9 (sid_request ''abc'')
      (snd (snd (login InMemorySessionStore sm_sample None 8 (sid_request ''abc'') alice default_response
        [''abc'' \<mapsto> \<lparr>session_id = ''abc'', session_principal = alice, expires_at = 99\<rparr>])))) = None"
proof -
  have c: "request_cookie (sid_request ''abc'') (sm_cookie_name sm_sample) = Some ''abc''" by code_simp
  have "generate_id None \<noteq> Inr ''abc''" by (simp add: generate_id_def)
  moreover have "sp_subject alice \<noteq> []" by (simp add: alice_def)
  ultimately show ?thesis using session_inbound_id_invalidated [OF c c] by blast
qed

text \<open>The session a request is entitled to, read off the store.\<close>

definition live_session :: "SessionManager_Config \<Rightarrow> int \<Rightarrow> request \<Rightarrow> sessions \<Rightarrow> Session option" where
  "live_session mgr now req st =
     (case request_cookie req (sm_cookie_name mgr) of
        None \<Rightarrow> None
      | Some i \<Rightarrow> if i = [] then None else
          (case st i of Some x \<Rightarrow> if now < expires_at x then Some x else None | None \<Rightarrow> None))"

text \<open>
  behind the session middleware the rest of the chain runs only with a live session, whose
  principal is then in the context (preflight and allowlisted requests apart); every other request is
  answered with the configured status and body, and an expired session is dropped from the store.
\<close>

theorem session_middleware_guards:
  assumes "\<not> (allow_options_requests cfg \<and> req_method (ex_req s) = ''OPTIONS'')"
    and "\<not> path_allowed (req_path (ex_req s)) (sess_allowlist_paths cfg)"
  shows "build_chain (SessionMiddleware_handle InMemorySessionStore mgr cfg # mws) h s =
    (case live_session mgr (sess_clock s) (ex_req s) (sess_store s) of
       Some x \<Rightarrow> build_chain mws h (s\<lparr>ex_ctx := ctx_set (ex_ctx s) (Sess (session_principal x))\<rparr>)
     | None \<Rightarrow> (None, s\<lparr>ex_res := Response_json (Response_status (ex_res s) (unauthorized_status cfg)) (unauthorized_body cfg),
          sess_store := (case request_cookie (ex_req s) (sm_cookie_name mgr) of
             Some i \<Rightarrow> if i = [] then sess_store s else (sess_store s)(i := None)
           | None \<Rightarrow> sess_store s)\<rparr>))"
proof -
  have keep: "m(i := None) = m" if "m i = None" for m :: sessions and i using that by auto
  show ?thesis
    using assms
    by (auto simp: SessionMiddleware_handle_def live_session_def authenticate_def InMemorySessionStore_def
        memory_find_def set_res_def keep split: option.split)
qed

definition sess_mw_sample :: SessionMiddleware_Config where
  "sess_mw_sample = \<lparr>sess_allowlist_paths = [''/login''], allow_options_requests = True,
     unauthorized_status = 401, unauthorized_body = ''no session''\<rparr>"

definition sess_exchange_sample :: "sessions session_exchange" where
  "sess_exchange_sample = \<lparr>ex_req = sid_request ''abc'', ex_res = default_response, ex_ctx = new_context 1,
     current_context = None, sess_store = [''abc'' \<mapsto> \<lparr>session_id = ''abc'', session_principal = alice, expires_at = 99\<rparr>],
     sess_clock = 5\<rparr>"

theorem session_middleware_guards_witness:
  "get_session (ex_ctx (snd (build_chain [SessionMiddleware_handle InMemorySessionStore sm_sample sess_mw_sample]
     (\<lambda>s. (None, s)) sess_exchange_sample))) = Some alice"
proof -
  have a: "\<not> (allow_options_requests sess_mw_sample \<and> req_method (ex_req sess_exchange_sample) = ''OPTIONS'')"
    by (simp add: sess_exchange_sample_def sid_request_def empty_request_def)
  have b: "\<not> path_allowed (req_path (ex_req sess_exchange_sample)) (sess_allowlist_paths sess_mw_sample)"
    by code_simp
  have c: "request_cookie (sid_request ''abc'') (sm_cookie_name sm_sample) = Some ''abc''" by code_simp
  have l: "live_session sm_sample (sess_clock sess_exchange_sample) (ex_req sess_exchange_sample)
      (sess_store sess_exchange_sample) = Some \<lparr>session_id = ''abc'', session_principal = alice, expires_at = 99\<rparr>"
    using c by (simp add: live_session_def sess_exchange_sample_def)
  from session_middleware_guards [OF a b, of sm_sample "[]" "\<lambda>s. (None, s)"] show ?thesis by (simp add: l)
qed

end
