(* ===== verification/Static_Files.thy ===== *)
theory Static_Files
  imports Http_Message
begin

text \<open>
  Static resources (\<^verbatim>\<open>src/http/static_resource.cpp\<close>): the resolution of a request path below a root directory,
  validators and single byte ranges. The file system is the parameter \<open>fs\<close>; a canonical path is the list of its
  components, any other path a text. Every exception ends in the answer \<open>False\<close>, as the code's catch-all does.
\<close>

section \<open>Paths\<close>

record filesystem =
  fs_canonical :: "string \<Rightarrow> string list result"
  fs_weakly_canonical :: "string \<Rightarrow> string list result"
  fs_is_regular :: "string list \<Rightarrow> bool result"
  fs_size :: "string list \<Rightarrow> nat result"
  fs_modified :: "string list \<Rightarrow> int result"
  fs_read :: "string list \<Rightarrow> nat \<Rightarrow> nat \<Rightarrow> string option"

definition path_text :: "string list \<Rightarrow> string" where
  "path_text p = concat (map (\<lambda>c. CHR ''/'' # c) p)"

definition path_append :: "string list \<Rightarrow> string \<Rightarrow> string" where
  "path_append base rel = (if starts_with rel ''/'' then rel else path_text base @ ''/'' @ rel)"

fun lexically_relative :: "string list \<Rightarrow> string list \<Rightarrow> string list" where
  "lexically_relative [] [] = [''.'']"
| "lexically_relative (t # ts) (b # bs) =
     (if t = b then lexically_relative ts bs else replicate (length (b # bs)) ''..'' @ t # ts)"
| "lexically_relative ts bs = replicate (length bs) ''..'' @ ts"

definition is_below :: "string list \<Rightarrow> string list \<Rightarrow> bool" where
  "is_below base target =
     (let relative = lexically_relative target base
      in if relative = [] then False else list_all (\<lambda>component. component \<noteq> ''..'') relative)"

definition last_dot :: "string \<Rightarrow> nat option" where
  "last_dot s =
     (let k = length (takeWhile (\<lambda>c. c \<noteq> CHR ''.'') (rev s)) in if k = length s then None else Some (length s - Suc k))"

definition path_extension :: "string list \<Rightarrow> string" where
  "path_extension p =
     (if p = [] then []
      else
        let name = last p
        in if name = ''.'' \<or> name = ''..'' then []
           else case last_dot name of None \<Rightarrow> [] | Some n \<Rightarrow> if n = 0 then [] else drop n name)"

definition mime_type :: "string list \<Rightarrow> string" where
  "mime_type p =
     (let extension = path_extension p
      in if extension = ''.html'' \<or> extension = ''.htm'' then ''text/html; charset=utf-8''
         else if extension = ''.css'' then ''text/css; charset=utf-8''
         else if extension = ''.js'' \<or> extension = ''.mjs'' then ''application/javascript; charset=utf-8''
         else if extension = ''.json'' then ''application/json''
         else if extension = ''.png'' then ''image/png''
         else if extension = ''.jpg'' \<or> extension = ''.jpeg'' then ''image/jpeg''
         else if extension = ''.gif'' then ''image/gif''
         else if extension = ''.svg'' then ''image/svg+xml''
         else if extension = ''.ico'' then ''image/x-icon''
         else if extension = ''.txt'' then ''text/plain; charset=utf-8''
         else if extension = ''.pdf'' then ''application/pdf''
         else if extension = ''.xml'' then ''application/xml''
         else ''application/octet-stream'')"

section \<open>Ranges and validators\<close>

datatype RangeParse = Absent | Valid_range nat nat | Invalid_range

definition parse_range :: "string \<Rightarrow> nat \<Rightarrow> RangeParse" where
  "parse_range v file_size =
     (if v = [] then Absent
      else if \<not> starts_with v ''bytes='' \<or> CHR '','' \<in> set v \<or> file_size = 0 then Invalid_range
      else
        let spec = drop 6 v
        in case find_ch CHR ''-'' spec of
             None \<Rightarrow> Invalid_range
           | Some dash \<Rightarrow>
               (let start = take dash spec; stop = drop (Suc dash) spec
                in if CHR ''-'' \<in> set stop then Invalid_range
                   else if start = [] then
                     (case from_chars_u64 stop of
                        None \<Rightarrow> Invalid_range
                      | Some suffix \<Rightarrow>
                          (if suffix = 0 then Invalid_range
                           else Valid_range (file_size - min suffix file_size) (file_size - 1)))
                   else
                     (case from_chars_u64 start of
                        None \<Rightarrow> Invalid_range
                      | Some first \<Rightarrow>
                          (if first \<ge> file_size then Invalid_range
                           else if stop = [] then Valid_range first (min (file_size - 1) (file_size - 1))
                           else
                             case from_chars_u64 stop of
                               None \<Rightarrow> Invalid_range
                             | Some l \<Rightarrow> if l < first then Invalid_range else Valid_range first (min l (file_size - 1))))))"

definition etag_for :: "nat \<Rightarrow> int \<Rightarrow> string" where
  "etag_for n modified = [CHR 0x22] @ to_string_nat n @ ''-'' @ to_string_int modified @ [CHR 0x22]"

section \<open>Serving\<close>

definition static_target :: "filesystem \<Rightarrow> string \<Rightarrow> request \<Rightarrow> string list option" where
  "static_target fs root req =
     (if root = [] then None
      else case fs_canonical fs root of
             Inl e \<Rightarrow> None
           | Inr base \<Rightarrow>
               let p0 = substr_upto (find_ch CHR ''?'' (req_path req)) (req_path req);
                   request_path = (if p0 = [] \<or> p0 = ''/'' then ''/index.html'' else p0)
               in if \<not> starts_with request_path ''/'' \<or> CHR 0x5C \<in> set request_path \<or> CHR 0x00 \<in> set request_path then None
                  else case fs_weakly_canonical fs (path_append base (drop 1 request_path)) of
                         Inl e \<Rightarrow> None
                       | Inr target \<Rightarrow>
                           (if \<not> is_below base target then None
                            else case fs_is_regular fs target of
                                   Inl e \<Rightarrow> None
                                 | Inr regular \<Rightarrow> if regular then Some target else None))"

definition add_headers :: "(string \<times> string) list \<Rightarrow> response \<Rightarrow> response" where
  "add_headers hs res = fold (\<lambda>(n, v) r. Response_header r n v) hs res"

definition cached_headers :: "string \<Rightarrow> (string \<times> string) list" where
  "cached_headers etag = [(''etag'', etag), (''cache-control'', ''public, max-age=3600''), (''accept-ranges'', ''bytes'')]"

definition send_content ::
    "filesystem \<Rightarrow> string list \<Rightarrow> nat \<Rightarrow> string \<Rightarrow> RangeParse \<Rightarrow> bool \<Rightarrow> response \<Rightarrow> bool \<times> response" where
  "send_content fs target file_size etag rng head_only res =
     (let (partial, first, stop) =
            (case rng of Valid_range f l \<Rightarrow> (True, f, l) | _ \<Rightarrow> (False, 0, if file_size = 0 then 0 else file_size - 1));
          body_size = (if partial then stop - first + 1 else file_size);
          answer = add_headers
            ([(''content-type'', mime_type target), (''content-length'', to_string_nat body_size)] @ cached_headers etag @
             (if partial
              then [(''content-range'', ''bytes '' @ to_string_nat first @ ''-'' @ to_string_nat stop @ ''/'' @ to_string_nat file_size)]
              else []))
            (Response_status res (if partial then 206 else 200))
      in if head_only then (True, answer)
         else case fs_read fs target first body_size of
                None \<Rightarrow> (False, res)
              | Some body \<Rightarrow> if length body \<noteq> body_size then (False, res) else (True, Response_body answer body))"

definition serve_static_resource :: "filesystem \<Rightarrow> string \<Rightarrow> request \<Rightarrow> response \<Rightarrow> bool \<Rightarrow> bool \<times> response" where
  "serve_static_resource fs root req res head_only =
     (case static_target fs root req of
        None \<Rightarrow> (False, res)
      | Some target \<Rightarrow>
          (case (fs_size fs target, fs_modified fs target) of
             (Inr file_size, Inr modified) \<Rightarrow>
               (let etag = etag_for file_size modified
                in if request_header req ''if-none-match'' = Some etag \<or> request_header req ''if-none-match'' = Some ''*''
                   then (True, add_headers (cached_headers etag) (Response_status res 304))
                   else
                     let rng = (case request_header req ''range'' of None \<Rightarrow> Absent | Some v \<Rightarrow> parse_range v file_size)
                     in if rng = Invalid_range
                        then (True, add_headers [(''content-range'', ''bytes */'' @ to_string_nat file_size), (''accept-ranges'', ''bytes'')]
                               (Response_status res 416))
                        else send_content fs target file_size etag rng head_only res)
           | _ \<Rightarrow> (False, res)))"

section \<open>Confinement\<close>

lemma lexically_relative_below:
  "list_all (\<lambda>component. component \<noteq> ''..'') (lexically_relative target base) \<Longrightarrow> \<exists>rest. target = base @ rest"
  by (induction target base rule: lexically_relative.induct) (auto split: if_splits)

lemma is_below_prefix: "is_below base target \<Longrightarrow> \<exists>rest. target = base @ rest"
  by (auto simp: is_below_def Let_def split: if_splits dest: lexically_relative_below)

lemma static_target_below:
  "static_target fs root req = Some target \<Longrightarrow>
   \<exists>base rest. fs_canonical fs root = Inr base \<and> target = base @ rest \<and> fs_is_regular fs target = Inr True"
  by (auto simp: static_target_def Let_def split: if_splits sum.splits dest: is_below_prefix)

lemma add_headers_simps [simp]:
  "res_body (add_headers hs res) = res_body res" "status_code (add_headers hs res) = status_code res"
  "res_headers (add_headers hs res) = res_headers res @ map (\<lambda>(n, v). \<lparr>hname = n, hvalue = v\<rparr>) hs"
  by (induction hs arbitrary: res) (auto simp: add_headers_def Response_header_def HeaderMap_add_def)

lemma send_content_reads:
  "send_content fs target n etag rng head res = (ok, res') \<Longrightarrow>
   (ok \<or> res' = res) \<and> (res_body res' = res_body res \<or> (\<exists>i k. fs_read fs target i k = Some (res_body res')))"
  by (auto simp: send_content_def Let_def Response_status_def Response_body_def split: if_splits option.splits prod.splits)

text \<open>
  C15: Whatever path a client asks for, the only file whose bytes can reach the response is a regular file
  below the canonical root directory; a request that is not served leaves the response as it was.
\<close>

theorem static_resource_confined:
  assumes "serve_static_resource fs root req res head_only = (ok, res')"
  shows "if ok then \<exists>base rest. fs_canonical fs root = Inr base \<and> fs_is_regular fs (base @ rest) = Inr True \<and>
      (res_body res' = res_body res \<or> (\<exists>i k. fs_read fs (base @ rest) i k = Some (res_body res')))
    else res' = res"
proof (cases "static_target fs root req")
  case None
  then show ?thesis using assms by (simp add: serve_static_resource_def)
next
  case (Some target)
  obtain base rest where t: "fs_canonical fs root = Inr base" "target = base @ rest" "fs_is_regular fs target = Inr True"
    using static_target_below [OF Some] by blast
  have "(ok \<or> res' = res) \<and> (res_body res' = res_body res \<or> (\<exists>i k. fs_read fs target i k = Some (res_body res')))"
    using assms send_content_reads
    by (auto simp: serve_static_resource_def Some Let_def Response_status_def split: sum.splits if_splits)
  with t show ?thesis by auto
qed

section \<open>Byte ranges\<close>

text \<open>The three forms of a single range (RFC 9110), as text and as positions in a file of \<open>n\<close> bytes.\<close>

datatype byte_range = From_to nat nat | From nat | Suffix nat

fun range_text :: "byte_range \<Rightarrow> string" where
  "range_text (From_to a b) = ''bytes='' @ to_string_nat a @ ''-'' @ to_string_nat b"
| "range_text (From a) = ''bytes='' @ to_string_nat a @ ''-''"
| "range_text (Suffix k) = ''bytes=-'' @ to_string_nat k"

fun range_numbers :: "byte_range \<Rightarrow> nat set" where
  "range_numbers (From_to a b) = {a, b}"
| "range_numbers (From a) = {a}"
| "range_numbers (Suffix k) = {k}"

fun satisfied :: "byte_range \<Rightarrow> nat \<Rightarrow> (nat \<times> nat) option" where
  "satisfied (From_to a b) n = (if a \<le> b \<and> a < n then Some (a, min b (n - 1)) else None)"
| "satisfied (From a) n = (if a < n then Some (a, n - 1) else None)"
| "satisfied (Suffix k) n = (if 0 < k \<and> 0 < n then Some (n - min k n, n - 1) else None)"

lemma to_string_nat_plain: "CHR ''-'' \<notin> set (to_string_nat n)" "CHR '','' \<notin> set (to_string_nat n)" "to_string_nat n \<noteq> []"
proof -
  have "isdigit c" if "c \<in> set (to_string_nat n)" for c using that to_string_nat_digits by blast
  then show "CHR ''-'' \<notin> set (to_string_nat n)" "CHR '','' \<notin> set (to_string_nat n)" by (fastforce simp: isdigit_def)+
  show "to_string_nat n \<noteq> []" by (subst to_string_nat.simps) simp
qed

lemma parse_range_text:
  assumes "\<forall>k\<in>range_numbers r. k < 2 ^ 64"
  shows "parse_range (range_text r) n = (case satisfied r n of None \<Rightarrow> Invalid_range | Some (f, l) \<Rightarrow> Valid_range f l)"
proof (cases r)
  case (From_to a b)
  have "find_ch CHR ''-'' (to_string_nat a @ CHR ''-'' # to_string_nat b) = Some (length (to_string_nat a))"
    by (rule find_ch_append [OF to_string_nat_plain(1)])
  then show ?thesis using assms From_to to_string_nat_plain
    by (auto simp: parse_range_def Let_def starts_with_def from_chars_to_string not_less)
next
  case (From a)
  have "find_ch CHR ''-'' (to_string_nat a @ [CHR ''-'']) = Some (length (to_string_nat a))"
    by (rule find_ch_append [OF to_string_nat_plain(1)])
  then show ?thesis using assms From to_string_nat_plain
    by (auto simp: parse_range_def Let_def starts_with_def from_chars_to_string not_less)
next
  case (Suffix k)
  have "find_ch CHR ''-'' (CHR ''-'' # to_string_nat k) = Some 0" using find_ch_append [of "CHR ''-''" "[]"] by simp
  then show ?thesis using assms Suffix to_string_nat_plain
    by (auto simp: parse_range_def Let_def starts_with_def from_chars_to_string not_less)
qed

locale stored_file =
  fixes fs :: filesystem and target :: "string list" and content :: string
  assumes size_law: "fs_size fs target = Inr (length content)"
    and read_law: "fs_read fs target i n = Some (take n (drop i content))"
begin

lemma sends_slice:
  assumes "f \<le> l" "l < length content"
  shows "send_content fs target (length content) etag (Valid_range f l) False res = (True, res') \<longleftrightarrow>
    res' = Response_body (add_headers ([(''content-type'', mime_type target), (''content-length'', to_string_nat (l - f + 1))] @
        cached_headers etag @ [(''content-range'', ''bytes '' @ to_string_nat f @ ''-'' @ to_string_nat l @ ''/'' @ to_string_nat (length content))])
      (Response_status res 206)) (take (l - f + 1) (drop f content))"
proof -
  have "length (take (l - f + 1) (drop f content)) = l - f + 1" using assms by simp
  then show ?thesis by (auto simp: send_content_def Let_def read_law)
qed

end

lemma satisfied_bounds: "satisfied r n = Some (f, l) \<Longrightarrow> f \<le> l \<and> l < n"
  by (cases r) (auto split: if_splits)

text \<open>
  A range request for a served file is answered with exactly the bytes the range selects, with their
  position and the size of the file in Content-Range, or with 416 when no byte of the file is selected.
\<close>

theorem static_range_exact:
  assumes st: "static_target fs root req = Some target" "stored_file fs target content" "fs_modified fs target = Inr modified"
    and range: "request_header req ''range'' = Some (range_text r)" "\<forall>k\<in>range_numbers r. k < 2 ^ 64"
    and fresh: "request_header req ''if-none-match'' = None"
  shows "\<exists>res'. serve_static_resource fs root req res False = (True, res') \<and>
    (case satisfied r (length content) of
       None \<Rightarrow> status_code res' = 416 \<and> res_body res' = res_body res
     | Some (f, l) \<Rightarrow> status_code res' = 206 \<and> res_body res' = take (l - f + 1) (drop f content) \<and>
         \<lparr>hname = ''content-range'', hvalue = ''bytes '' @ to_string_nat f @ ''-'' @ to_string_nat l @ ''/'' @ to_string_nat (length content)\<rparr>
           \<in> set (res_headers res'))"
proof -
  have size: "fs_size fs target = Inr (length content)" using st(2) by (simp add: stored_file_def)
  note p = parse_range_text [OF range(2), of "length content"]
  show ?thesis
  proof (cases "satisfied r (length content)")
    case None
    then show ?thesis using p
      by (simp add: serve_static_resource_def st size range(1) fresh Let_def Response_status_def)
  next
    case (Some fl)
    obtain f l where fl: "fl = (f, l)" by (cases fl)
    with Some satisfied_bounds have b: "f \<le> l" "l < length content" by blast+
    obtain res' where "send_content fs target (length content) (etag_for (length content) modified) (Valid_range f l) False res = (True, res')"
        "res' = Response_body (add_headers ([(''content-type'', mime_type target), (''content-length'', to_string_nat (l - f + 1))] @
            cached_headers (etag_for (length content) modified) @
            [(''content-range'', ''bytes '' @ to_string_nat f @ ''-'' @ to_string_nat l @ ''/'' @ to_string_nat (length content))])
          (Response_status res 206)) (take (l - f + 1) (drop f content))"
      using stored_file.sends_slice [OF st(2) b] by blast
    then show ?thesis using p Some fl
      by (simp add: serve_static_resource_def st size range(1) fresh Let_def Response_status_def Response_body_def)
  qed
qed

section \<open>An example\<close>

definition demo_fs :: filesystem where
  "demo_fs = \<lparr>fs_canonical = (\<lambda>p. Inr [''srv'']), fs_weakly_canonical = (\<lambda>p. Inr (if p = ''/srv/a.txt'' then [''srv'', ''a.txt''] else [''etc''])),
     fs_is_regular = (\<lambda>p. Inr True), fs_size = (\<lambda>p. Inr 5), fs_modified = (\<lambda>p. Inr 7),
     fs_read = (\<lambda>p i n. Some (take n (drop i ''hello'')))\<rparr>"

interpretation demo_file: stored_file demo_fs "[''srv'', ''a.txt'']" "''hello''"
  by unfold_locales (simp_all add: demo_fs_def)

definition demo_range_request :: request where
  "demo_range_request = empty_request\<lparr>req_path := ''/a.txt?v=1'', req_headers := [\<lparr>hname = ''Range'', hvalue = ''bytes=1-3''\<rparr>]\<rparr>"

lemma demo_target: "static_target demo_fs ''www'' demo_range_request = Some [''srv'', ''a.txt'']"
  by (simp add: static_target_def demo_fs_def demo_range_request_def empty_request_def substr_upto_def find_ch_def path_append_def
    path_text_def starts_with_def is_below_def)

theorem static_range_exact_witness:
  "\<exists>res'. serve_static_resource demo_fs ''www'' demo_range_request default_response False = (True, res') \<and>
     status_code res' = 206 \<and> res_body res' = ''ell''"
proof -
  have h: "request_header demo_range_request ''range'' = Some (range_text (From_to 1 3))"
      "request_header demo_range_request ''if-none-match'' = None"
    by code_simp+
  have m: "fs_modified demo_fs [''srv'', ''a.txt''] = Inr 7" by (simp add: demo_fs_def)
  show ?thesis
    using static_range_exact [OF demo_target demo_file.stored_file_axioms m h(1) _ h(2), of default_response] by auto
qed

lemma demo_head_served: "fst (serve_static_resource demo_fs ''www'' demo_range_request default_response True)"
  unfolding serve_static_resource_def demo_target
  by (simp add: demo_fs_def send_content_def Let_def request_header_def demo_range_request_def names_equal_def etag_for_def
    parse_range_def starts_with_def split: RangeParse.split)

theorem static_resource_confined_witness:
  "\<exists>res' rest. serve_static_resource demo_fs ''www'' demo_range_request default_response True = (True, res') \<and>
     fs_is_regular demo_fs ([''srv''] @ rest) = Inr True"
proof -
  obtain res' where "serve_static_resource demo_fs ''www'' demo_range_request default_response True = (True, res')"
    using demo_head_served by (metis prod.collapse)
  from this static_resource_confined [OF this] show ?thesis by (auto simp: demo_fs_def)
qed

text \<open>
  RFC 9110 requires a server to ignore a Range header with a unit it does not know; the code answers 416.
\<close>

lemma static_unknown_unit_refused: "parse_range ''items=0-5'' 100 = Invalid_range"
  by (simp add: parse_range_def starts_with_def)

end
