(* ===== verification/Stomp_Broker.thy ===== *)
theory Stomp_Broker
  imports Stomp_Codec Ws_Session
begin

text \<open>
  The in-process STOMP broker of \<^verbatim>\<open>src/messaging/stomp.cpp\<close>: subscriptions, deliveries that wait for an
  acknowledgement, publication to topics, queues and users, and the dispatcher of application
  destinations. Sessions are handles into the heap of shared sessions of \<open>Ws_Session\<close>. Each section
  that holds the broker's mutex is one definition; \<open>broker_publish\<close> is the sequence the code has.
\<close>

section \<open>State\<close>

datatype AckMode = Ack_Auto | Ack_Client | Ack_ClientIndividual

record Subscription =
  sub_session :: nat
  sub_id :: string
  sub_ack_mode :: AckMode
  sub_principal :: string

record PendingDelivery =
  pd_sequence :: nat
  pd_ack_id :: string
  pd_ack_mode :: AckMode
  pd_message :: Frame

text \<open>
  The unordered maps are association lists with distinct keys; the two counters and the queue cursors
  are 64-bit and count messages one at a time, so they do not wrap.
\<close>

record SimpleBroker =
  subscriptions :: "(string \<times> Subscription list) list"
  queue_cursors :: "(string \<times> nat) list"
  pending_acks :: "(nat \<times> PendingDelivery list) list"
  next_message_id :: nat
  next_delivery_sequence :: nat

definition SimpleBroker_new :: SimpleBroker where
  "SimpleBroker_new = \<lparr>subscriptions = [], queue_cursors = [], pending_acks = [], next_message_id = 1,
     next_delivery_sequence = 1\<rparr>"

definition table_at :: "('a \<times> 'b list) list \<Rightarrow> 'a \<Rightarrow> 'b list" where
  "table_at t k = (case map_of t k of None \<Rightarrow> [] | Some xs \<Rightarrow> xs)"

section \<open>Subscriptions\<close>

definition supported_destination :: "string \<Rightarrow> bool" where
  "supported_destination d \<longleftrightarrow> starts_with d ''/topic/'' \<or> starts_with d ''/queue/'' \<or> starts_with d ''/user/''"

text \<open>The loop over the subscriptions of one destination: replace the entry, or append it.\<close>

fun put_subscription :: "Subscription \<Rightarrow> Subscription list \<Rightarrow> Subscription list" where
  "put_subscription s [] = [s]"
| "put_subscription s (t # ts) =
     (if sub_session t = sub_session s \<and> sub_id t = sub_id s then s # ts else t # put_subscription s ts)"

definition subscribe ::
    "shared_heap \<Rightarrow> string \<Rightarrow> string \<Rightarrow> nat \<Rightarrow> AckMode \<Rightarrow> string \<Rightarrow> SimpleBroker \<Rightarrow> bool \<times> SimpleBroker" where
  "subscribe hp destination sid session mode who b =
     (if \<not> supported_destination destination \<or> sid = [] \<or> session = 0 \<or> \<not> handle_active hp session then (False, b)
      else (True, b\<lparr>subscriptions := AList.update destination
              (put_subscription \<lparr>sub_session = session, sub_id = sid, sub_ack_mode = mode, sub_principal = who\<rparr>
                 (table_at (subscriptions b) destination)) (subscriptions b)\<rparr>))"

text \<open>The loop that erases matching subscriptions everywhere and drops destinations left empty.\<close>

definition erase_subscriptions :: "(Subscription \<Rightarrow> bool) \<Rightarrow> SimpleBroker \<Rightarrow> SimpleBroker" where
  "erase_subscriptions P b = b\<lparr>subscriptions :=
     filter (\<lambda>(d, ss). ss \<noteq> []) (map (\<lambda>(d, ss). (d, filter (\<lambda>s. \<not> P s) ss)) (subscriptions b))\<rparr>"

definition unsubscribe :: "nat \<Rightarrow> string \<Rightarrow> SimpleBroker \<Rightarrow> SimpleBroker" where
  "unsubscribe session sid b =
     (let b1 = erase_subscriptions (\<lambda>s. sub_session s = session \<and> sub_id s = sid) b
      in b1\<lparr>pending_acks := AList.delete session (pending_acks b1)\<rparr>)"

section \<open>Acknowledgements\<close>

fun erase_first :: "('a \<Rightarrow> bool) \<Rightarrow> 'a list \<Rightarrow> 'a list" where
  "erase_first P [] = []"
| "erase_first P (x # xs) = (if P x then xs else x # erase_first P xs)"

definition acknowledge :: "nat \<Rightarrow> string \<Rightarrow> SimpleBroker \<Rightarrow> bool \<times> SimpleBroker" where
  "acknowledge session ack_id b =
     (case map_of (pending_acks b) session of
        None \<Rightarrow> (False, b)
      | Some pending \<Rightarrow>
          (case find (\<lambda>p. pd_ack_id p = ack_id) pending of
             None \<Rightarrow> (False, b)
           | Some p \<Rightarrow>
               (let rest = (if pd_ack_mode p = Ack_Client
                            then filter (\<lambda>q. \<not> pd_sequence q \<le> pd_sequence p) pending
                            else erase_first (\<lambda>q. pd_ack_id q = ack_id) pending)
                in (True, b\<lparr>pending_acks := (if rest = [] then AList.delete session (pending_acks b)
                                              else AList.update session rest (pending_acks b))\<rparr>))))"

text \<open>
  The subscription that receives a redelivery is searched in the iteration order of the destinations;
  a default-constructed handle has identifier 0 and is not active.
\<close>

definition redelivery_session ::
    "((string \<times> Subscription list) list \<Rightarrow> (string \<times> Subscription list) list) \<Rightarrow> SimpleBroker \<Rightarrow> nat \<Rightarrow> Frame \<Rightarrow> nat" where
  "redelivery_session sord b session f =
     (case find (\<lambda>(d, ss). \<exists>s\<in>set ss. sub_session s = session \<and> sub_id s = frame_header f ''subscription'')
             (sord (subscriptions b)) of
        None \<Rightarrow> 0
      | Some (d, ss) \<Rightarrow> session)"

definition negative_acknowledge ::
    "((string \<times> Subscription list) list \<Rightarrow> (string \<times> Subscription list) list) \<Rightarrow> (header_table \<Rightarrow> header_table) \<Rightarrow>
     nat \<Rightarrow> string \<Rightarrow> SimpleBroker \<Rightarrow> shared_heap \<Rightarrow> bool \<times> shared_heap" where
  "negative_acknowledge sord ord session ack_id b hp =
     (case map_of (pending_acks b) session of
        None \<Rightarrow> (False, hp)
      | Some pending \<Rightarrow>
          (case find (\<lambda>p. pd_ack_id p = ack_id) pending of
             None \<Rightarrow> (False, hp)
           | Some p \<Rightarrow>
               (let redelivery = (pd_message p)\<lparr>fr_headers := AList.update ''redelivered'' ''true'' (fr_headers (pd_message p))\<rparr>;
                    target = redelivery_session sord b session redelivery
                in if handle_active hp target
                   then handle_send Queued_Text (str_bytes (serialize ord redelivery)) target hp
                   else (False, hp))))"

section \<open>Publication\<close>

text \<open>The first active subscription from the cursor on, going round.\<close>

definition queue_target :: "shared_heap \<Rightarrow> nat \<Rightarrow> Subscription list \<Rightarrow> Subscription list" where
  "queue_target hp cursor subs =
     (case find (\<lambda>offset. handle_active hp (sub_session (subs ! ((cursor + offset) mod length subs)))) [0..<length subs] of
        None \<Rightarrow> []
      | Some offset \<Rightarrow> [subs ! ((cursor + offset) mod length subs)])"

definition user_of :: "string \<Rightarrow> string option" where
  "user_of destination =
     (case find_ch CHR ''/'' (drop 6 destination) of None \<Rightarrow> None | Some k \<Rightarrow> Some (take k (drop 6 destination)))"

definition take_message_id :: "SimpleBroker \<Rightarrow> string \<times> SimpleBroker" where
  "take_message_id b = (to_string_nat (next_message_id b), b\<lparr>next_message_id := next_message_id b + 1\<rparr>)"

definition select_targets ::
    "shared_heap \<Rightarrow> string \<Rightarrow> SimpleBroker \<Rightarrow> (Subscription list \<times> string) option \<times> SimpleBroker" where
  "select_targets hp destination b =
     (case map_of (subscriptions b) destination of
        None \<Rightarrow> (None, b)
      | Some subs \<Rightarrow>
          (if starts_with destination ''/queue/'' then
             let cursor = (case map_of (queue_cursors b) destination of None \<Rightarrow> 0 | Some c \<Rightarrow> c);
                 b1 = b\<lparr>queue_cursors := AList.update destination (cursor + 1) (queue_cursors b)\<rparr>;
                 (mid, b2) = take_message_id b1
             in (Some (queue_target hp cursor subs, mid), b2)
           else if starts_with destination ''/user/'' then
             (case user_of destination of
                None \<Rightarrow> (None, b)
              | Some who \<Rightarrow>
                  let (mid, b1) = take_message_id b
                  in (Some (filter (\<lambda>s. sub_principal s = who) subs, mid), b1))
           else let (mid, b1) = take_message_id b in (Some (subs, mid), b1)))"

definition message_frame :: "string \<Rightarrow> string \<Rightarrow> header_table \<Rightarrow> string \<Rightarrow> Subscription \<Rightarrow> Frame" where
  "message_frame destination body headers mid target =
     (let hs = AList.update ''message-id'' mid (AList.update ''subscription'' (sub_id target)
                 (AList.update ''destination'' destination headers))
      in \<lparr>fr_command = ''MESSAGE'',
          fr_headers = (if sub_ack_mode target = Ack_Auto then hs else AList.update ''ack'' mid hs),
          fr_body = body\<rparr>)"

definition push_pending :: "Subscription \<Rightarrow> string \<Rightarrow> Frame \<Rightarrow> SimpleBroker \<Rightarrow> SimpleBroker" where
  "push_pending target mid message b = b\<lparr>
     pending_acks := AList.update (sub_session target)
       (table_at (pending_acks b) (sub_session target) @
          [\<lparr>pd_sequence = next_delivery_sequence b, pd_ack_id = mid, pd_ack_mode = sub_ack_mode target, pd_message = message\<rparr>])
       (pending_acks b),
     next_delivery_sequence := next_delivery_sequence b + 1\<rparr>"

fun deliver_targets ::
    "(header_table \<Rightarrow> header_table) \<Rightarrow> (Subscription \<Rightarrow> Frame) \<Rightarrow> string \<Rightarrow> Subscription list \<Rightarrow>
     SimpleBroker \<Rightarrow> shared_heap \<Rightarrow> nat \<times> nat list \<times> SimpleBroker \<times> shared_heap" where
  "deliver_targets ord msg mid [] b hp = (0, [], b, hp)"
| "deliver_targets ord msg mid (target # targets) b hp =
     (if \<not> handle_active hp (sub_session target) then
        (case deliver_targets ord msg mid targets b hp of
           (n, stale, b', hp') \<Rightarrow> (n, sub_session target # stale, b', hp'))
      else case handle_send Queued_Text (str_bytes (serialize ord (msg target))) (sub_session target) hp of
             (True, hp1) \<Rightarrow>
               (case deliver_targets ord msg mid targets
                       (if sub_ack_mode target \<noteq> Ack_Auto then push_pending target mid (msg target) b else b) hp1 of
                  (n, stale, b', hp') \<Rightarrow> (n + 1, stale, b', hp'))
           | (False, hp1) \<Rightarrow>
               (case deliver_targets ord msg mid targets b hp1 of
                  (n, stale, b', hp') \<Rightarrow>
                    (n, (if \<not> handle_active hp1 (sub_session target) then sub_session target # stale else stale), b', hp')))"

text \<open>
  A publication that no other operation of the broker overlaps. The code lets go of the mutex between choosing
  the targets, sending and recording pending deliveries; what may happen in between is the subject of the step
  relation below.
\<close>

definition broker_publish ::
    "(header_table \<Rightarrow> header_table) \<Rightarrow> string \<Rightarrow> string \<Rightarrow> header_table \<Rightarrow> SimpleBroker \<Rightarrow> shared_heap \<Rightarrow>
     nat \<times> SimpleBroker \<times> shared_heap" where
  "broker_publish ord destination body headers b hp =
     (if \<not> supported_destination destination then (0, b, hp)
      else case select_targets hp destination b of
             (None, b1) \<Rightarrow> (0, b1, hp)
           | (Some (targets, mid), b1) \<Rightarrow>
               (case deliver_targets ord (message_frame destination body headers mid) mid targets b1 hp of
                  (delivered, stale, b2, hp') \<Rightarrow>
                    (delivered, (if stale \<noteq> [] then erase_subscriptions (\<lambda>s. sub_session s \<in> set stale) b2 else b2), hp')))"

definition subscription_count :: "SimpleBroker \<Rightarrow> string \<Rightarrow> nat" where
  "subscription_count b destination = length (table_at (subscriptions b) destination)"

definition pending_ack_count :: "SimpleBroker \<Rightarrow> nat \<Rightarrow> nat" where
  "pending_ack_count b session = length (table_at (pending_acks b) session)"

section \<open>Application destinations\<close>

text \<open>
  A handler is the function the application registered; it answers whether it took the message and
  may use the broker, so it acts on a state of the caller's choice.
\<close>

type_synonym 's message_handler = "string \<Rightarrow> 's \<Rightarrow> bool \<times> 's"
type_synonym 's message_mappings = "(string \<times> 's message_handler) list"

definition add_mapping ::
    "string \<Rightarrow> 's message_handler option \<Rightarrow> 's message_mappings \<Rightarrow> 's message_mappings result" where
  "add_mapping destination handler m =
     (case handler of
        None \<Rightarrow> Inl (Invalid_argument ''STOMP message mapping requires an absolute destination and handler'')
      | Some h \<Rightarrow>
          if destination = [] \<or> hd destination \<noteq> CHR ''/''
          then Inl (Invalid_argument ''STOMP message mapping requires an absolute destination and handler'')
          else Inr (AList.update destination h m))"

definition dispatch :: "'s message_mappings \<Rightarrow> string \<Rightarrow> string \<Rightarrow> 's \<Rightarrow> bool \<times> 's" where
  "dispatch m destination body st =
     (case map_of m destination of None \<Rightarrow> (False, st) | Some h \<Rightarrow> h body st)"

section \<open>Invariant\<close>

definition subs_ok :: "string \<Rightarrow> Subscription list \<Rightarrow> bool" where
  "subs_ok d ss \<longleftrightarrow> supported_destination d \<and> ss \<noteq> [] \<and> distinct (map (\<lambda>s. (sub_session s, sub_id s)) ss) \<and>
     (\<forall>s\<in>set ss. sub_session s \<noteq> 0 \<and> sub_id s \<noteq> [])"

definition pending_ok :: "nat \<Rightarrow> PendingDelivery list \<Rightarrow> bool" where
  "pending_ok bound ps \<longleftrightarrow> ps \<noteq> [] \<and> sorted_wrt (<) (map pd_sequence ps) \<and>
     (\<forall>p\<in>set ps. pd_sequence p < bound \<and> pd_ack_mode p \<noteq> Ack_Auto \<and> fr_command (pd_message p) = ''MESSAGE'' \<and>
        frame_header (pd_message p) ''ack'' = pd_ack_id p)"

definition broker_inv :: "SimpleBroker \<Rightarrow> bool" where
  "broker_inv b \<longleftrightarrow>
     distinct (map fst (subscriptions b)) \<and> (\<forall>(d, ss)\<in>set (subscriptions b). subs_ok d ss) \<and>
     distinct (map fst (pending_acks b)) \<and> (\<forall>(i, ps)\<in>set (pending_acks b). pending_ok (next_delivery_sequence b) ps)"

text \<open>What every section under the broker's mutex promises to the others.\<close>

locale broker_section =
  fixes run :: "SimpleBroker \<Rightarrow> SimpleBroker"
  assumes keeps_inv: "broker_inv b \<Longrightarrow> broker_inv (run b)"
begin

lemma iterate_keeps: "broker_inv b \<Longrightarrow> broker_inv ((run ^^ n) b)"
  by (induction n) (simp_all add: keeps_inv)

end

lemma set_update: "x \<in> set (AList.update k v al) \<Longrightarrow> x = (k, v) \<or> x \<in> set al"
  by (induction al) (auto split: if_splits)

lemma set_delete: "x \<in> set (AList.delete k al) \<longleftrightarrow> x \<in> set al \<and> fst x \<noteq> k"
  by (auto simp: AList.delete_eq)

lemma table_at_mem: "table_at t k \<noteq> [] \<Longrightarrow> (k, table_at t k) \<in> set t"
  by (auto simp: table_at_def split: option.splits dest: map_of_SomeD)

lemma put_subscription_keys:
  "(\<lambda>s. (sub_session s, sub_id s)) ` set (put_subscription s ss) =
     insert (sub_session s, sub_id s) ((\<lambda>s. (sub_session s, sub_id s)) ` set ss)"
  by (induction ss) auto

lemma put_subscription_ok:
  "supported_destination d \<Longrightarrow> sub_session s \<noteq> 0 \<Longrightarrow> sub_id s \<noteq> [] \<Longrightarrow> ss = [] \<or> subs_ok d ss \<Longrightarrow>
   subs_ok d (put_subscription s ss)"
proof (induction ss)
  case (Cons t ts)
  have "ts = [] \<or> subs_ok d ts" using Cons.prems(4) by (simp add: subs_ok_def)
  with Cons.IH [OF Cons.prems(1-3)] have "subs_ok d (put_subscription s ts)" by blast
  moreover have "(sub_session t, sub_id t) \<notin> (\<lambda>s. (sub_session s, sub_id s)) ` set (put_subscription s ts)"
    if "\<not> (sub_session t = sub_session s \<and> sub_id t = sub_id s)"
    using that Cons.prems(4) by (auto simp: put_subscription_keys subs_ok_def)
  ultimately show ?case using Cons.prems by (auto simp: subs_ok_def)
qed (simp add: subs_ok_def)

interpretation sec_subscribe: broker_section "\<lambda>b. snd (subscribe hp d sid session mode who b)" for hp d sid session mode who
proof
  fix b assume inv: "broker_inv b"
  let ?ss = "table_at (subscriptions b) d"
  have "?ss = [] \<or> subs_ok d ?ss" using inv table_at_mem [of "subscriptions b" d] by (auto simp: broker_inv_def)
  then have "subs_ok d (put_subscription \<lparr>sub_session = session, sub_id = sid, sub_ack_mode = mode, sub_principal = who\<rparr> ?ss)"
    if "supported_destination d" "sid \<noteq> []" "session \<noteq> 0"
    using that by (intro put_subscription_ok) simp_all
  then show "broker_inv (snd (subscribe hp d sid session mode who b))"
    using inv by (auto simp: subscribe_def broker_inv_def distinct_update dest!: set_update)
qed

interpretation sec_erase: broker_section "erase_subscriptions P" for P
  by unfold_locales
    (auto simp: broker_inv_def erase_subscriptions_def subs_ok_def distinct_map filter_map comp_def inj_on_def
       split_beta intro: distinct_filter)

interpretation sec_unsubscribe: broker_section "unsubscribe session sid" for session sid
proof
  fix b assume "broker_inv b"
  from sec_erase.keeps_inv [OF this, of "\<lambda>s. sub_session s = session \<and> sub_id s = sid"]
  show "broker_inv (unsubscribe session sid b)"
    by (auto simp: unsubscribe_def Let_def broker_inv_def distinct_delete simp: set_delete)
qed

lemma sorted_wrt_map_filter: "sorted_wrt R (map f xs) \<Longrightarrow> sorted_wrt R (map f (filter P xs))"
  by (simp add: sorted_wrt_map sorted_wrt_filter)

lemma erase_first_split: "\<forall>x\<in>set xs. \<not> P x \<Longrightarrow> P y \<Longrightarrow> erase_first P (xs @ y # ys) = xs @ ys"
  by (induction xs) auto

lemma find_split: "\<forall>x\<in>set xs. \<not> P x \<Longrightarrow> P y \<Longrightarrow> find P (xs @ y # ys) = Some y"
  by (induction xs) auto

lemma sorted_cut:
  "sorted_wrt (<) (map f (xs @ y # ys)) \<Longrightarrow> filter (\<lambda>q. \<not> (f q :: nat) \<le> f y) (xs @ y # ys) = ys"
proof -
  assume "sorted_wrt (<) (map f (xs @ y # ys))"
  then have "\<forall>x\<in>set xs. f x \<le> f y" "\<forall>x\<in>set ys. \<not> f x \<le> f y" by (auto simp: sorted_wrt_append)
  then have "filter (\<lambda>q. \<not> f q \<le> f y) xs = []" "filter (\<lambda>q. \<not> f q \<le> f y) ys = ys"
    by (auto simp: filter_empty_conv intro!: filter_True)
  then show ?thesis by (simp del: not_le)
qed

lemma acknowledge_split:
  assumes inv: "broker_inv b" and at: "table_at (pending_acks b) session = ps @ p # qs"
    and p: "pd_ack_id p = ack_id" "ack_id \<notin> pd_ack_id ` set ps"
  defines "rest \<equiv> if pd_ack_mode p = Ack_Client then qs else ps @ qs"
  shows "acknowledge session ack_id b = (True, b\<lparr>pending_acks :=
     (if rest = [] then AList.delete session (pending_acks b) else AList.update session rest (pending_acks b))\<rparr>)"
proof -
  have mo: "map_of (pending_acks b) session = Some (ps @ p # qs)"
    using at by (auto simp: table_at_def split: option.splits)
  have ok: "pending_ok (next_delivery_sequence b) (ps @ p # qs)"
    using inv map_of_SomeD [OF mo] by (auto simp: broker_inv_def)
  have np: "\<forall>x\<in>set ps. pd_ack_id x \<noteq> ack_id" using p(2) by auto
  have f: "filter (\<lambda>q. \<not> pd_sequence q \<le> pd_sequence p) (ps @ p # qs) = qs"
    by (rule sorted_cut) (use ok in \<open>simp add: pending_ok_def\<close>)
  have e: "find (\<lambda>q. pd_ack_id q = ack_id) (ps @ p # qs) = Some p"
    "erase_first (\<lambda>q. pd_ack_id q = ack_id) (ps @ p # qs) = ps @ qs"
    using np p(1) by (simp_all add: find_split erase_first_split)
  show ?thesis unfolding acknowledge_def mo option.case e f Let_def rest_def by (rule refl)
qed

interpretation sec_ack: broker_section "\<lambda>b. snd (acknowledge session ack_id b)" for session ack_id
proof
  fix b assume inv: "broker_inv b"
  show "broker_inv (snd (acknowledge session ack_id b))"
  proof (cases "find (\<lambda>p. pd_ack_id p = ack_id) (table_at (pending_acks b) session)")
    case None
    then have "acknowledge session ack_id b = (False, b)"
      by (auto simp: acknowledge_def table_at_def split: option.splits)
    with inv show ?thesis by simp
  next
    case (Some p)
    then obtain ps qs where at: "table_at (pending_acks b) session = ps @ p # qs"
      and p: "pd_ack_id p = ack_id" "\<forall>x\<in>set ps. pd_ack_id x \<noteq> ack_id"
      by (auto dest!: find_Some_split)
    have "pending_ok (next_delivery_sequence b) (ps @ p # qs)"
      using inv table_at_mem [of "pending_acks b" session] at by (auto simp: broker_inv_def)
    then have "qs \<noteq> [] \<Longrightarrow> pending_ok (next_delivery_sequence b) qs"
      "ps @ qs \<noteq> [] \<Longrightarrow> pending_ok (next_delivery_sequence b) (ps @ qs)"
      by (auto simp: pending_ok_def sorted_wrt_append)
    then have rest: "r = qs \<or> r = ps @ qs \<Longrightarrow> r \<noteq> [] \<Longrightarrow> pending_ok (next_delivery_sequence b) r" for r by blast
    have "ack_id \<notin> pd_ack_id ` set ps" using p(2) by auto
    from acknowledge_split [OF inv at p(1) this] show ?thesis
      using inv rest
      by (auto simp: broker_inv_def distinct_update distinct_delete set_delete dest!: set_update)
  qed
qed

interpretation sec_select: broker_section "\<lambda>b. snd (select_targets hp d b)" for hp d
  by unfold_locales
    (auto simp: select_targets_def take_message_id_def Let_def broker_inv_def split: option.split if_splits)

text \<open>A pending entry is pushed for a message built for its own target, in a mode other than auto.\<close>

definition push_message :: "string \<Rightarrow> string \<Rightarrow> header_table \<Rightarrow> string \<Rightarrow> Subscription \<Rightarrow> SimpleBroker \<Rightarrow> SimpleBroker" where
  "push_message d body hs mid target b =
     (if sub_ack_mode target \<noteq> Ack_Auto then push_pending target mid (message_frame d body hs mid target) b else b)"

lemma message_frame_ack:
  "sub_ack_mode target \<noteq> Ack_Auto \<Longrightarrow> frame_header (message_frame d body hs mid target) ''ack'' = mid"
  by (simp add: message_frame_def frame_header_def Let_def update_conv')

lemma pending_ok_mono: "pending_ok n ps \<Longrightarrow> n \<le> m \<Longrightarrow> pending_ok m ps"
  by (auto simp: pending_ok_def)

interpretation sec_push: broker_section "push_message d body hs mid target" for d body hs mid target
proof
  fix b assume inv: "broker_inv b"
  let ?n = "next_delivery_sequence b"
  let ?ps = "table_at (pending_acks b) (sub_session target)"
  let ?p = "\<lparr>pd_sequence = ?n, pd_ack_id = mid, pd_ack_mode = sub_ack_mode target,
              pd_message = message_frame d body hs mid target\<rparr>"
  have "?ps = [] \<or> pending_ok ?n ?ps"
    using inv table_at_mem [of "pending_acks b" "sub_session target"] by (auto simp: broker_inv_def)
  then have "sub_ack_mode target \<noteq> Ack_Auto \<Longrightarrow> pending_ok (Suc ?n) (?ps @ [?p])"
    by (auto simp: pending_ok_def sorted_wrt_append message_frame_ack less_SucI) (simp_all add: message_frame_def)
  then show "broker_inv (push_message d body hs mid target b)"
    using inv pending_ok_mono [of ?n _ "Suc ?n"]
    by (auto simp: push_message_def push_pending_def broker_inv_def distinct_update dest!: set_update)
qed

lemma deliver_targets_inv:
  "broker_inv b \<Longrightarrow> deliver_targets ord (message_frame d body hs mid) mid targets b hp = (n, stale, b', hp') \<Longrightarrow> broker_inv b'"
proof (induction targets arbitrary: b hp n stale hp')
  case (Cons target targets)
  have "broker_inv (if sub_ack_mode target \<noteq> Ack_Auto
      then push_pending target mid (message_frame d body hs mid target) b else b)"
    using sec_push.keeps_inv [OF Cons.prems(1), of d body hs mid target] by (simp add: push_message_def)
  with Cons show ?case by (fastforce split: if_splits prod.splits bool.splits)
qed simp

lemma publish_inv:
  assumes "broker_inv b" "broker_publish ord d body hs b hp = (n, b', hp')"
  shows "broker_inv b'"
proof -
  have sel: "broker_inv (snd (select_targets hp d b))" by (rule sec_select.keeps_inv [OF assms(1)])
  show ?thesis
    using assms sel by (auto simp: broker_publish_def split: if_splits prod.splits option.splits
        dest!: deliver_targets_inv [rotated] intro: sec_erase.keeps_inv)
qed

section \<open>Interleavings\<close>

text \<open>
  Threads meet at the mutex: a step is one section under it. A publication contributes its selection, one
  push per delivery that waits for an acknowledgement, and the pruning, with other sections in between;
  the state of the sessions is whatever it is at that moment.
\<close>

inductive broker_step :: "SimpleBroker \<Rightarrow> SimpleBroker \<Rightarrow> bool" where
  step_subscribe: "broker_step b (snd (subscribe hp d sid session mode who b))"
| step_unsubscribe: "broker_step b (unsubscribe session sid b)"
| step_acknowledge: "broker_step b (snd (acknowledge session ack_id b))"
| step_select: "broker_step b (snd (select_targets hp d b))"
| step_push: "broker_step b (push_message d body hs mid target b)"
| step_prune: "broker_step b (erase_subscriptions (\<lambda>s. sub_session s \<in> set stale) b)"

inductive broker_reachable :: "SimpleBroker \<Rightarrow> bool" where
  reach_new: "broker_reachable SimpleBroker_new"
| reach_step: "broker_reachable b \<Longrightarrow> broker_step b b' \<Longrightarrow> broker_reachable b'"

lemma broker_inv_new: "broker_inv SimpleBroker_new"
  by (simp add: broker_inv_def SimpleBroker_new_def)

lemma broker_inv_step: "broker_step b b' \<Longrightarrow> broker_inv b \<Longrightarrow> broker_inv b'"
  by (induction rule: broker_step.induct)
     (simp_all add: sec_subscribe.keeps_inv sec_unsubscribe.keeps_inv sec_ack.keeps_inv sec_select.keeps_inv
        sec_push.keeps_inv sec_erase.keeps_inv)

lemma broker_reachable_inv: "broker_reachable b \<Longrightarrow> broker_inv b"
  by (induction rule: broker_reachable.induct) (auto intro: broker_inv_new broker_inv_step)

section \<open>What a publication delivers\<close>

definition text_command :: "bytes \<Rightarrow> QueuedCommand" where
  "text_command payload = \<lparr>cmd_kind = Queued_Text, cmd_payload = payload, cmd_close_code = 1000, cmd_close_reason = []\<rparr>"

definition enqueue_texts :: "bytes list \<Rightarrow> SharedSession \<Rightarrow> SharedSession" where
  "enqueue_texts ps sh = sh\<lparr>queued := queued sh @ map text_command ps,
     queued_bytes := queued_bytes sh + sum_list (map (\<lambda>p. length p + 10) ps)\<rparr>"

definition has_room :: "bytes list \<Rightarrow> SharedSession option \<Rightarrow> bool" where
  "has_room ps x = (case x of None \<Rightarrow> False | Some sh \<Rightarrow> shared_active sh \<and>
     queued_bytes sh + sum_list (map (\<lambda>p. length p + 10) ps) \<le> sh_max_pending sh)"

definition payloads_for :: "(Subscription \<Rightarrow> bytes) \<Rightarrow> Subscription list \<Rightarrow> nat \<Rightarrow> bytes list" where
  "payloads_for payload targets i = map payload (filter (\<lambda>t. sub_session t = i) targets)"

lemma enqueue_texts_Nil [simp]: "enqueue_texts [] sh = sh"
  by (simp add: enqueue_texts_def)

lemma enqueue_texts_Cons: "enqueue_texts (p # ps) sh = enqueue_texts ps (enqueue_texts [p] sh)"
  by (simp add: enqueue_texts_def)

lemma has_room_Cons:
  "has_room (p # ps) (Some sh) \<Longrightarrow>
   enqueue Queued_Text p sh = (True, enqueue_texts [p] sh) \<and> has_room ps (Some (enqueue_texts [p] sh))"
  by (simp add: has_room_def enqueue_def enqueue_texts_def text_command_def shared_active_def Let_def)

lemma deliver_targets_all:
  assumes "\<forall>t\<in>set targets. has_room (payloads_for (\<lambda>t. str_bytes (serialize ord (msg t))) targets (sub_session t))
     (hp (sub_session t))"
  shows "deliver_targets ord msg mid targets b hp = (length targets, [],
     fold (\<lambda>t b. if sub_ack_mode t \<noteq> Ack_Auto then push_pending t mid (msg t) b else b) targets b,
     (\<lambda>i. map_option (enqueue_texts (payloads_for (\<lambda>t. str_bytes (serialize ord (msg t))) targets i)) (hp i)))"
  using assms
proof (induction targets arbitrary: b hp)
  case Nil
  then show ?case by (simp add: payloads_for_def map_option.identity [unfolded id_def] fun_eq_iff option.map_ident)
next
  case (Cons t ts)
  define pl where "pl = (\<lambda>t. str_bytes (serialize ord (msg t)))"
  let ?i = "sub_session t"
  have room: "has_room (payloads_for pl (t # ts) (sub_session s)) (hp (sub_session s))" if "s \<in> set (t # ts)" for s
    using Cons.prems that by (simp only: pl_def)
  obtain sh where sh: "hp ?i = Some sh" using room [of t] by (auto simp: has_room_def split: option.splits)
  have r: "has_room (pl t # payloads_for pl ts ?i) (Some sh)" using room [of t] by (simp add: payloads_for_def sh)
  note enq = has_room_Cons [OF r]
  let ?hp = "hp(?i \<mapsto> enqueue_texts [pl t] sh)"
  have act: "handle_active hp ?i" using r by (simp add: handle_active_def sh has_room_def)
  have send: "handle_send Queued_Text (pl t) ?i hp = (True, ?hp)" using enq by (simp add: handle_send_def sh)
  have "\<forall>s\<in>set ts. has_room (payloads_for pl ts (sub_session s)) (?hp (sub_session s))"
  proof
    fix s assume "s \<in> set ts"
    with room [of s] enq show "has_room (payloads_for pl ts (sub_session s)) (?hp (sub_session s))"
      by (cases "sub_session s = ?i") (auto simp: payloads_for_def)
  qed
  from Cons.IH [folded pl_def, OF this]
  have IH: "deliver_targets ord msg mid ts c ?hp = (length ts, [],
     fold (\<lambda>t b. if sub_ack_mode t \<noteq> Ack_Auto then push_pending t mid (msg t) b else b) ts c,
     (\<lambda>i. map_option (enqueue_texts (payloads_for pl ts i)) (?hp i)))" for c .
  have eq: "(\<lambda>i. map_option (enqueue_texts (payloads_for pl ts i)) (?hp i)) =
      (\<lambda>i. map_option (enqueue_texts (payloads_for pl (t # ts) i)) (hp i))"
    by (auto simp: fun_eq_iff payloads_for_def sh enqueue_texts_Cons [symmetric])
  have plt: "str_bytes (serialize ord (msg t)) = pl t" by (simp add: pl_def)
  show ?case
    using act send by (simp add: IH [unfolded eq] plt pl_def [symmetric] del: fun_upd_apply)
qed

lemma deliver_targets_frame:
  "deliver_targets ord msg mid targets b hp = (n, stale, b', hp') \<Longrightarrow> i \<notin> sub_session ` set targets \<Longrightarrow> hp' i = hp i"
proof (induction targets arbitrary: b hp n stale)
  case (Cons t ts)
  then show ?case
    by (fastforce simp: handle_send_def split: if_splits prod.splits bool.splits option.splits)
qed simp

lemma select_targets_subset:
  "select_targets hp d b = (Some (targets, mid), b1) \<Longrightarrow> set targets \<subseteq> set (table_at (subscriptions b) d)"
  by (auto simp: select_targets_def queue_target_def take_message_id_def table_at_def Let_def
      split: option.splits if_splits intro!: nth_mem mod_less_divisor dest: map_of_SomeD)

lemma push_fold:
  "subscriptions (fold (\<lambda>t b. if sub_ack_mode t \<noteq> Ack_Auto then push_pending t mid (msg t) b else b) ts b) = subscriptions b"
  "map pd_message (table_at (pending_acks (fold (\<lambda>t b. if sub_ack_mode t \<noteq> Ack_Auto then push_pending t mid (msg t) b else b) ts b)) i) =
     map pd_message (table_at (pending_acks b) i) @ map msg (filter (\<lambda>t. sub_session t = i \<and> sub_ack_mode t \<noteq> Ack_Auto) ts)"
  by (induction ts arbitrary: b) (auto simp: push_pending_def table_at_def update_conv')

lemma push_fold_entries:
  "\<exists>new. table_at (pending_acks (fold (\<lambda>t b. if sub_ack_mode t \<noteq> Ack_Auto then push_pending t mid (msg t) b else b) ts b)) i =
       table_at (pending_acks b) i @ new \<and>
     map (\<lambda>p. (pd_ack_id p, pd_ack_mode p, pd_message p)) new =
       map (\<lambda>t. (mid, sub_ack_mode t, msg t)) (filter (\<lambda>t. sub_session t = i \<and> sub_ack_mode t \<noteq> Ack_Auto) ts)"
proof (induction ts arbitrary: b)
  case (Cons t ts)
  let ?b = "if sub_ack_mode t \<noteq> Ack_Auto then push_pending t mid (msg t) b else b"
  obtain first where "table_at (pending_acks ?b) i = table_at (pending_acks b) i @ first"
    "map (\<lambda>p. (pd_ack_id p, pd_ack_mode p, pd_message p)) first =
       (if sub_session t = i \<and> sub_ack_mode t \<noteq> Ack_Auto then [(mid, sub_ack_mode t, msg t)] else [])"
    by (cases "sub_session t = i \<and> sub_ack_mode t \<noteq> Ack_Auto")
       (auto simp: push_pending_def table_at_def update_conv' split: option.split)
  with Cons.IH [of ?b] show ?case by fastforce
qed simp

text \<open>What a client reads in a delivered message: the broker's headers override the publisher's, the others are kept.\<close>

definition delivered_header :: "string \<Rightarrow> header_table \<Rightarrow> string \<Rightarrow> Subscription \<Rightarrow> string \<Rightarrow> string" where
  "delivered_header d hs mid t n =
     (if n = ''destination'' then d
      else if n = ''subscription'' then sub_id t
      else if n = ''message-id'' then mid
      else if n = ''ack'' \<and> sub_ack_mode t \<in> {Ack_Client, Ack_ClientIndividual} then mid
      else case map_of hs n of Some v \<Rightarrow> v | None \<Rightarrow> [])"

lemma message_frame_headers:
  "frame_header (message_frame d body hs mid t) n = delivered_header d hs mid t n"
  by (cases "sub_ack_mode t") (auto simp: message_frame_def frame_header_def delivered_header_def Let_def update_conv')

definition payload_ok :: "header_table \<Rightarrow> string \<Rightarrow> bool" where
  "payload_ok hs body \<longleftrightarrow> frame_ok \<lparr>fr_command = ''SEND'', fr_headers = hs, fr_body = body\<rparr>"

lemma message_frame_sel [simp]:
  "fr_command (message_frame d body hs mid t) = ''MESSAGE''" "fr_body (message_frame d body hs mid t) = body"
  by (simp_all add: message_frame_def Let_def)

lemma message_frame_ok: "payload_ok hs body \<Longrightarrow> frame_ok (message_frame d body hs mid t)"
  by (cases "map_of hs ''content-length''")
     (auto simp: payload_ok_def frame_ok_def message_frame_def Let_def update_conv' distinct_update dom_update)

lemma decode_one:
  assumes "iteration_order ord" "frame_ok f"
  shows "decoder_feed Decoder_new (serialize ord f) = (Inr [wire_frame ord f], Decoder_new)"
  using decode_loop_stream [OF assms(1), of "[(f, 0, 0)]"] assms(2)
  by (simp add: decoder_feed_def Decoder_new_def stream_of_def)

lemma wire_frame_sel [simp]: "fr_command (wire_frame ord f) = fr_command f" "fr_body (wire_frame ord f) = fr_body f"
  by (simp_all add: wire_frame_def)

lemma wire_frame_header:
  "iteration_order ord \<Longrightarrow> frame_ok f \<Longrightarrow> n \<noteq> ''content-length'' \<Longrightarrow> frame_header (wire_frame ord f) n = frame_header f n"
  using wire_headers_ok(3) by (simp add: wire_frame_def frame_header_def)

lemma starts_with_topic: "starts_with d ''/topic/'' \<Longrightarrow> \<not> starts_with d ''/queue/'' \<and> \<not> starts_with d ''/user/''"
  using starts_with_shorter [of d "''/topic/''" "''/queue/''"] starts_with_shorter [of d "''/topic/''" "''/user/''"]
  by (auto simp: starts_with_def)

lemma starts_with_user: "starts_with d ''/user/'' \<Longrightarrow> \<not> starts_with d ''/queue/''"
  using starts_with_shorter [of d "''/queue/''" "''/user/''"] by (auto simp: starts_with_def)

section \<open>Properties\<close>

text \<open>
  C6: A publication to a topic all of whose subscribers are active and have room in their queues reaches every
  subscription exactly once, in the order of subscription: each session's queue grows by the messages of its
  own subscriptions and no other session is touched; every queued text decodes at the client to one
  MESSAGE frame with the body published, the destination, its subscription and the message id, an acknowledgement
  id exactly for manual subscriptions, and otherwise the headers the publisher gave; and exactly the
  deliveries to manual subscriptions become pending, under that id, their mode and that message.\<close>

theorem stomp_topic_delivery:
  assumes ord: "iteration_order ord" and d: "starts_with d ''/topic/''"
    and subs: "map_of (subscriptions b) d = Some subs" and ok: "payload_ok hs body"
  defines "mid \<equiv> to_string_nat (next_message_id b)"
  defines "wire \<equiv> \<lambda>t. serialize ord (message_frame d body hs mid t)"
  assumes room: "\<forall>t\<in>set subs. has_room (payloads_for (str_bytes \<circ> wire) subs (sub_session t)) (hp (sub_session t))"
  shows "\<exists>b' hp'. broker_publish ord d body hs b hp = (length subs, b', hp') \<and>
     (\<forall>i. hp' i = map_option (enqueue_texts (payloads_for (str_bytes \<circ> wire) subs i)) (hp i)) \<and>
     (\<forall>t\<in>set subs. \<exists>g. decoder_feed Decoder_new (wire t) = (Inr [g], Decoder_new) \<and>
        fr_command g = ''MESSAGE'' \<and> fr_body g = body \<and>
        (\<forall>n. n \<noteq> ''content-length'' \<longrightarrow> frame_header g n = delivered_header d hs mid t n)) \<and>
     subscriptions b' = subscriptions b \<and>
     (\<forall>i. \<exists>new. table_at (pending_acks b') i = table_at (pending_acks b) i @ new \<and>
        map (\<lambda>p. (pd_ack_id p, pd_ack_mode p, pd_message p)) new =
        map (\<lambda>t. (mid, sub_ack_mode t, message_frame d body hs mid t))
          (filter (\<lambda>t. sub_session t = i \<and> sub_ack_mode t \<noteq> Ack_Auto) subs))"
proof -
  let ?msg = "message_frame d body hs mid"
  let ?b1 = "b\<lparr>next_message_id := next_message_id b + 1\<rparr>"
  let ?b' = "fold (\<lambda>t b. if sub_ack_mode t \<noteq> Ack_Auto then push_pending t mid (?msg t) b else b) subs ?b1"
  have sel: "select_targets hp d b = (Some (subs, mid), ?b1)"
    using starts_with_topic [OF d] by (simp add: select_targets_def subs take_message_id_def mid_def)
  have "deliver_targets ord ?msg mid subs ?b1 hp = (length subs, [], ?b',
      (\<lambda>i. map_option (enqueue_texts (payloads_for (str_bytes \<circ> wire) subs i)) (hp i)))"
    using deliver_targets_all [of subs ord ?msg hp mid ?b1] room by (simp add: wire_def comp_def)
  then have "broker_publish ord d body hs b hp = (length subs, ?b',
      (\<lambda>i. map_option (enqueue_texts (payloads_for (str_bytes \<circ> wire) subs i)) (hp i)))"
    using d by (simp add: broker_publish_def sel supported_destination_def)
  moreover have "\<exists>g. decoder_feed Decoder_new (wire t) = (Inr [g], Decoder_new) \<and>
        fr_command g = ''MESSAGE'' \<and> fr_body g = body \<and>
        (\<forall>n. n \<noteq> ''content-length'' \<longrightarrow> frame_header g n = delivered_header d hs mid t n)" for t
  proof -
    have f: "frame_ok (?msg t)" by (rule message_frame_ok [OF ok])
    show ?thesis
      using decode_one [OF ord f] wire_frame_header [OF ord f]
      by (intro exI [of _ "wire_frame ord (?msg t)"]) (simp add: wire_def message_frame_headers)
  qed
  moreover have "\<exists>new. table_at (pending_acks ?b') i = table_at (pending_acks b) i @ new \<and>
        map (\<lambda>p. (pd_ack_id p, pd_ack_mode p, pd_message p)) new =
        map (\<lambda>t. (mid, sub_ack_mode t, ?msg t)) (filter (\<lambda>t. sub_session t = i \<and> sub_ack_mode t \<noteq> Ack_Auto) subs)" for i
    using push_fold_entries [of mid ?msg subs ?b1 i] by simp
  ultimately show ?thesis using push_fold(1) [of mid ?msg subs ?b1] by auto
qed

lemma to_string_one: "to_string_nat (Suc 0) = ''1''"
  by code_simp

definition topic_broker :: SimpleBroker where
  "topic_broker = SimpleBroker_new\<lparr>subscriptions := [(''/topic/a'',
     [\<lparr>sub_session = 1, sub_id = ''s1'', sub_ack_mode = Ack_Auto, sub_principal = []\<rparr>,
      \<lparr>sub_session = 2, sub_id = ''s2'', sub_ack_mode = Ack_Client, sub_principal = []\<rparr>])]\<rparr>"

definition two_sessions :: shared_heap where
  "two_sessions i = (if i \<in> {1, 2} then Some (new_shared 1000 False) else None)"

theorem stomp_topic_delivery_witness:
  "\<exists>b' hp'. broker_publish id ''/topic/a'' ''hi'' [(''x'', ''y'')] topic_broker two_sessions = (2, b', hp') \<and>
     map pd_ack_id (table_at (pending_acks b') 2) = [''1''] \<and> table_at (pending_acks b') 1 = []"
proof -
  let ?hs = "[(''x'', ''y'')]"
  have "\<exists>subs. map_of (subscriptions topic_broker) ''/topic/a'' = Some subs \<and> length subs = 2 \<and>
     length (filter (\<lambda>t. sub_session t = 2 \<and> sub_ack_mode t \<noteq> Ack_Auto) subs) = 1 \<and>
     filter (\<lambda>t. sub_session t = 1 \<and> sub_ack_mode t \<noteq> Ack_Auto) subs = [] \<and>
     (\<forall>t\<in>set subs. has_room (payloads_for (str_bytes \<circ> (\<lambda>t. serialize id (message_frame ''/topic/a'' ''hi'' ?hs
          (to_string_nat (next_message_id topic_broker)) t))) subs (sub_session t)) (two_sessions (sub_session t)))"
    by (simp add: topic_broker_def SimpleBroker_new_def two_sessions_def has_room_def payloads_for_def new_shared_def
        shared_active_def serialize_def message_frame_def str_bytes_def stomp_header_line_def escape_def escape_char_def
        to_string_one)
  then obtain subs where s: "map_of (subscriptions topic_broker) ''/topic/a'' = Some subs" "length subs = 2"
     "length (filter (\<lambda>t. sub_session t = 2 \<and> sub_ack_mode t \<noteq> Ack_Auto) subs) = 1"
     "filter (\<lambda>t. sub_session t = 1 \<and> sub_ack_mode t \<noteq> Ack_Auto) subs = []"
     "\<forall>t\<in>set subs. has_room (payloads_for (str_bytes \<circ> (\<lambda>t. serialize id (message_frame ''/topic/a'' ''hi'' ?hs
          (to_string_nat (next_message_id topic_broker)) t))) subs (sub_session t)) (two_sessions (sub_session t))"
    by blast
  have h: "iteration_order id" "starts_with ''/topic/a'' ''/topic/''" "payload_ok ?hs ''hi''"
    "table_at (pending_acks topic_broker) i = []" "to_string_nat (next_message_id topic_broker) = ''1''" for i
    by (simp_all add: iteration_order_def starts_with_def payload_ok_def frame_ok_def table_at_def
        topic_broker_def SimpleBroker_new_def to_string_one)
  from stomp_topic_delivery [OF h(1,2) s(1) h(3) s(5)] obtain b' hp' where
    p: "broker_publish id ''/topic/a'' ''hi'' ?hs topic_broker two_sessions = (length subs, b', hp')"
    and e: "\<forall>i. \<exists>new. table_at (pending_acks b') i = table_at (pending_acks topic_broker) i @ new \<and>
        map (\<lambda>p. (pd_ack_id p, pd_ack_mode p, pd_message p)) new =
        map (\<lambda>t. (to_string_nat (next_message_id topic_broker), sub_ack_mode t,
            message_frame ''/topic/a'' ''hi'' ?hs (to_string_nat (next_message_id topic_broker)) t))
          (filter (\<lambda>t. sub_session t = i \<and> sub_ack_mode t \<noteq> Ack_Auto) subs)"
    by blast
  obtain t where t: "filter (\<lambda>t. sub_session t = 2 \<and> sub_ack_mode t \<noteq> Ack_Auto) subs = [t]"
    using s(3) by (auto simp: length_Suc_conv)
  have "map pd_ack_id (table_at (pending_acks b') 2) = [''1'']" using spec [OF e, of 2] by (auto simp: t h(4,5))
  moreover have "table_at (pending_acks b') 1 = []" using spec [OF e, of 1] by (auto simp: s(4) h(4) simp del: One_nat_def)
  ultimately show ?thesis using p s(2) by auto
qed

text \<open>
  A message published to a user destination reaches only sessions that subscribed to it under that very
  principal: no other session's queue changes.\<close>

theorem stomp_user_isolation:
  assumes "starts_with d ''/user/''" and "broker_publish ord d body hs b hp = (n, b', hp')" and "hp' i \<noteq> hp i"
  shows "\<exists>s\<in>set (table_at (subscriptions b) d). sub_session s = i \<and> user_of d = Some (sub_principal s)"
proof -
  note nq = starts_with_user [OF assms(1)]
  from assms obtain targets mid b1 where sel: "select_targets hp d b = (Some (targets, mid), b1)"
    and i: "i \<in> sub_session ` set targets"
    by (auto simp: broker_publish_def split: if_splits prod.splits option.splits dest!: deliver_targets_frame [of _ _ _ _ _ _ _ _ _ _ i])
  from sel assms(1) nq obtain who where
    "user_of d = Some who" "targets = filter (\<lambda>s. sub_principal s = who) (table_at (subscriptions b) d)"
    by (auto simp: select_targets_def take_message_id_def table_at_def split: option.splits)
  with i show ?thesis by auto
qed

theorem stomp_user_isolation_witness:
  "\<exists>s\<in>set [\<lparr>sub_session = 1, sub_id = ''s1'', sub_ack_mode = Ack_Auto, sub_principal = ''al''\<rparr>].
     sub_session s = 1 \<and> user_of ''/user/al/q'' = Some (sub_principal s)"
proof -
  define s :: Subscription where "s = \<lparr>sub_session = 1, sub_id = ''s1'', sub_ack_mode = Ack_Auto, sub_principal = ''al''\<rparr>"
  define b where "b = SimpleBroker_new\<lparr>subscriptions := [(''/user/al/q'', [s])]\<rparr>"
  have "broker_publish id ''/user/al/q'' ''hi'' [] b two_sessions = (1, b\<lparr>next_message_id := 2\<rparr>,
      two_sessions(1 \<mapsto> enqueue_texts [str_bytes (serialize id (message_frame ''/user/al/q'' ''hi'' [] ''1'' s))]
        (new_shared 1000 False)))"
    by (simp add: broker_publish_def supported_destination_def starts_with_def select_targets_def b_def SimpleBroker_new_def
        user_of_def find_ch_def take_message_id_def s_def handle_active_def two_sessions_def new_shared_def shared_active_def
        handle_send_def enqueue_def enqueue_texts_def text_command_def str_bytes_def serialize_def message_frame_def
        stomp_header_line_def escape_def escape_char_def to_string_one Let_def)
  from stomp_user_isolation [OF _ this, of 1] show ?thesis
    by (auto simp: starts_with_def two_sessions_def enqueue_texts_def new_shared_def b_def s_def table_at_def SimpleBroker_new_def)
qed

text \<open>
  C33: In every state the broker can reach under any interleaving, an acknowledgement of a pending delivery
  removes exactly that delivery in client-individual mode, and it with all earlier deliveries of the
  session in client mode; later deliveries and other sessions keep theirs. An identifier that is not
  pending for the session is refused and changes nothing.\<close>

theorem stomp_acknowledge_exact:
  assumes "broker_reachable b"
  shows "(ack_id \<notin> pd_ack_id ` set (table_at (pending_acks b) session) \<longrightarrow> acknowledge session ack_id b = (False, b)) \<and>
    (\<forall>ps p qs. table_at (pending_acks b) session = ps @ p # qs \<and> pd_ack_id p = ack_id \<and> ack_id \<notin> pd_ack_id ` set ps \<longrightarrow>
       (\<exists>b'. acknowledge session ack_id b = (True, b') \<and>
          (\<forall>i. table_at (pending_acks b') i =
             (if i \<noteq> session then table_at (pending_acks b) i
              else if pd_ack_mode p = Ack_Client then qs else ps @ qs)) \<and>
          subscriptions b' = subscriptions b))"
proof (intro conjI allI impI)
  assume "ack_id \<notin> pd_ack_id ` set (table_at (pending_acks b) session)"
  then show "acknowledge session ack_id b = (False, b)"
    by (auto simp: acknowledge_def table_at_def split: option.splits) (auto dest!: find_Some_split)
next
  fix ps p qs
  assume "table_at (pending_acks b) session = ps @ p # qs \<and> pd_ack_id p = ack_id \<and> ack_id \<notin> pd_ack_id ` set ps"
  then have a: "table_at (pending_acks b) session = ps @ p # qs" "pd_ack_id p = ack_id" "ack_id \<notin> pd_ack_id ` set ps"
    by simp_all
  show "\<exists>b'. acknowledge session ack_id b = (True, b') \<and>
          (\<forall>i. table_at (pending_acks b') i =
             (if i \<noteq> session then table_at (pending_acks b) i
              else if pd_ack_mode p = Ack_Client then qs else ps @ qs)) \<and>
          subscriptions b' = subscriptions b"
    unfolding acknowledge_split [OF broker_reachable_inv [OF assms] a]
    by (auto simp: table_at_def update_conv' delete_conv' split: option.split)
qed

definition pending_broker :: SimpleBroker where
  "pending_broker = push_message ''/topic/a'' ''hi'' [] ''1''
     \<lparr>sub_session = 2, sub_id = ''s2'', sub_ack_mode = Ack_Client, sub_principal = []\<rparr> SimpleBroker_new"

theorem stomp_acknowledge_exact_witness:
  "\<exists>b'. acknowledge 2 ''1'' pending_broker = (True, b') \<and> table_at (pending_acks b') 2 = []"
proof -
  have r: "broker_reachable pending_broker"
    unfolding pending_broker_def by (rule reach_step [OF reach_new step_push])
  obtain p where "table_at (pending_acks pending_broker) 2 = [] @ p # []" "pd_ack_id p = ''1''"
    by (simp add: pending_broker_def push_message_def push_pending_def table_at_def SimpleBroker_new_def)
  with conjunct2 [OF stomp_acknowledge_exact [OF r, of "''1''" 2], rule_format, of "[]" p "[]"] show ?thesis
    by (cases "pd_ack_mode p") auto
qed

section \<open>Queues, redelivery and unsubscription\<close>

text \<open>With all subscribers active a queue serves them in turn.\<close>

lemma queue_target_next:
  assumes "subs \<noteq> []" "handle_active hp (sub_session (subs ! (c mod length subs)))"
  shows "queue_target hp c subs = [subs ! (c mod length subs)]"
proof -
  obtain k where "length subs = Suc k" using assms(1) by (cases subs) auto
  then have "[0..<length subs] = 0 # [1..<length subs]" by (simp add: upt_conv_Cons)
  with assms(2) show ?thesis by (simp add: queue_target_def)
qed

fun select_n :: "shared_heap \<Rightarrow> string \<Rightarrow> nat \<Rightarrow> SimpleBroker \<Rightarrow> Subscription list" where
  "select_n hp d 0 b = []"
| "select_n hp d (Suc n) b =
     (case select_targets hp d b of (None, b') \<Rightarrow> select_n hp d n b' | (Some (ts, _), b') \<Rightarrow> ts @ select_n hp d n b')"

lemma select_n_round:
  assumes "starts_with d ''/queue/''" "\<forall>s\<in>set subs. handle_active hp (sub_session s)" "subs \<noteq> []"
  shows "map_of (subscriptions b) d = Some subs \<Longrightarrow>
    map_of (queue_cursors b) d = (if c = 0 then map_of (queue_cursors b) d else Some c) \<Longrightarrow>
    (c = 0 \<Longrightarrow> map_of (queue_cursors b) d \<in> {None, Some 0}) \<Longrightarrow>
    select_n hp d n b = map (\<lambda>k. subs ! ((c + k) mod length subs)) [0..<n]"
proof (induction n arbitrary: b c)
  case (Suc n)
  have cur: "(case map_of (queue_cursors b) d of None \<Rightarrow> 0 | Some c \<Rightarrow> c) = c"
    using Suc.prems(2,3) by (cases "c = 0") auto
  define b' where "b' = snd (select_targets hp d b)"
  have sel: "select_targets hp d b = (Some ([subs ! (c mod length subs)], to_string_nat (next_message_id b)), b')"
    and b': "map_of (subscriptions b') d = Some subs" "map_of (queue_cursors b') d = Some (Suc c)"
    unfolding b'_def using Suc.prems(1) assms queue_target_next [OF assms(3), of hp c]
    by (simp_all add: select_targets_def cur take_message_id_def Let_def update_conv')
  have "select_n hp d n b' = map (\<lambda>k. subs ! ((Suc c + k) mod length subs)) [0..<n]"
    by (rule Suc.IH) (simp_all add: b')
  moreover have "[0..<Suc n] = 0 # map Suc [0..<n]" by (simp add: upt_conv_Cons map_Suc_upt del: upt_Suc)
  ultimately show ?case by (simp add: sel comp_def del: upt_Suc)
qed simp

lemma stomp_queue_round_robin:
  assumes "starts_with d ''/queue/''" "\<forall>s\<in>set subs. handle_active hp (sub_session s)" "subs \<noteq> []"
    and "map_of (subscriptions b) d = Some subs" "map_of (queue_cursors b) d = None"
  shows "select_n hp d (length subs) b = subs"
proof -
  have "select_n hp d (length subs) b = map (\<lambda>k. subs ! ((0 + k) mod length subs)) [0..<length subs]"
    by (rule select_n_round [OF assms(1-3)]) (simp_all add: assms)
  also have "\<dots> = subs" by (rule nth_equalityI) simp_all
  finally show ?thesis .
qed

text \<open>
  Removing one subscription forgets the pending deliveries of every subscription of the session: an
  acknowledgement of a message of another subscription is refused afterwards.
\<close>

lemma stomp_unsubscribe_drops_acks: "acknowledge session ack_id (unsubscribe session sid b) = (False, unsubscribe session sid b)"
  by (simp add: acknowledge_def unsubscribe_def Let_def delete_conv')

text \<open>
  Two subscriptions of one session to a topic receive the same message with the same acknowledgement
  identifier, so the client cannot tell the broker which of the two it acknowledges.
\<close>

lemma stomp_shared_ack_id:
  assumes "sub_ack_mode s \<noteq> Ack_Auto" "sub_ack_mode t \<noteq> Ack_Auto"
  shows "frame_header (message_frame d body hs mid s) ''ack'' = frame_header (message_frame d body hs mid t) ''ack''"
  using assms by (simp add: message_frame_ack)

end
