(* ===== verification/Stomp_Endpoint.thy ===== *)
theory Stomp_Endpoint
  imports Stomp_Broker Ws_Handshake
begin

text \<open>
  The STOMP endpoint of \<^verbatim>\<open>src/messaging/stomp.cpp\<close>: the per-connection protocol state on top of the
  broker, driven by WebSocket callbacks and by the heartbeat thread. The sessions of the server are a
  heap of \<open>Ws_Session\<close> sessions; the broker reaches their shared parts through handles, the callbacks
  reach the session itself.
\<close>

section \<open>Sessions and their shared parts\<close>

type_synonym session_heap = "nat \<rightharpoonup> WsSession"

definition shared_of :: "session_heap \<Rightarrow> shared_heap" where
  "shared_of ws i = map_option shared (ws i)"

definition with_shared :: "session_heap \<Rightarrow> shared_heap \<Rightarrow> session_heap" where
  "with_shared ws hp i = (case ws i of None \<Rightarrow> None | Some s \<Rightarrow>
     (case hp i of None \<Rightarrow> Some s | Some sh \<Rightarrow> Some (s\<lparr>shared := sh\<rparr>)))"

definition on_session :: "nat \<Rightarrow> (WsSession \<Rightarrow> WsSession) \<Rightarrow> session_heap \<Rightarrow> session_heap" where
  "on_session i g ws = (case ws i of None \<Rightarrow> ws | Some s \<Rightarrow> ws(i \<mapsto> g s))"

section \<open>State\<close>

text \<open>
  Durations are 64-bit signed counts of milliseconds. An application handler acts on the broker and
  the queues of the sessions. The interceptor sees the session and the frame.
\<close>

type_synonym broker_world = "SimpleBroker \<times> shared_heap"

record EndpointConfig =
  server_outgoing_heartbeat :: int
  server_incoming_heartbeat :: int
  dispatcher :: "broker_world message_mappings option"
  application_destination_prefix :: string
  interceptor :: "(WsSession \<Rightarrow> Frame \<Rightarrow> bool) option"

record ConnectionState =
  cs_decoder :: Decoder
  cs_connected :: bool
  cs_handle :: nat
  cs_principal :: string
  subscription_ids :: "string list"
  outgoing_heartbeat :: int
  incoming_heartbeat :: int
  last_received_ms :: int
  last_sent_ms :: int

record Endpoint =
  ep_broker :: SimpleBroker
  ep_sessions :: session_heap
  ep_connections :: "(nat \<times> ConnectionState) list"
  accepting :: bool

text \<open>The unspecified iteration orders of the two unordered maps the code iterates.\<close>

record hash_orders =
  header_order :: "header_table \<Rightarrow> header_table"
  destination_order :: "(string \<times> Subscription list) list \<Rightarrow> (string \<times> Subscription list) list"

section \<open>Frames to the client\<close>

definition ep_send :: "hash_orders \<Rightarrow> Frame \<Rightarrow> WsSession \<Rightarrow> WsSession" where
  "ep_send ords f s = snd (session_send_text (str_bytes (serialize (header_order ords) f)) s)"

definition error_frame :: "string \<Rightarrow> Frame" where
  "error_frame msg = \<lparr>fr_command = ''ERROR'', fr_headers = [(''message'', msg)], fr_body = msg\<rparr>"

definition receipt_frame :: "string \<Rightarrow> Frame" where
  "receipt_frame receipt = \<lparr>fr_command = ''RECEIPT'', fr_headers = [(''receipt-id'', receipt)], fr_body = []\<rparr>"

definition stomp_protocol_error :: "hash_orders \<Rightarrow> string \<Rightarrow> WsSession \<Rightarrow> WsSession" where
  "stomp_protocol_error ords msg s =
     snd (session_close 1002 (str_bytes ''Invalid STOMP frame'') (ep_send ords (error_frame msg) s))"

section \<open>Processing of a frame\<close>

record frame_context =
  cx_conn :: ConnectionState
  cx_broker :: SimpleBroker
  cx_sessions :: session_heap

definition cx_reply :: "nat \<Rightarrow> (WsSession \<Rightarrow> WsSession) \<Rightarrow> frame_context \<Rightarrow> frame_context" where
  "cx_reply i g cx = cx\<lparr>cx_sessions := on_session i g (cx_sessions cx)\<rparr>"

definition cx_world :: "frame_context \<Rightarrow> broker_world" where
  "cx_world cx = (cx_broker cx, shared_of (cx_sessions cx))"

definition cx_set_world :: "broker_world \<Rightarrow> frame_context \<Rightarrow> frame_context" where
  "cx_set_world w cx = cx\<lparr>cx_broker := fst w, cx_sessions := with_shared (cx_sessions cx) (snd w)\<rparr>"

definition send_receipt :: "hash_orders \<Rightarrow> nat \<Rightarrow> Frame \<Rightarrow> frame_context \<Rightarrow> frame_context" where
  "send_receipt ords i f cx =
     (let receipt = frame_header f ''receipt''
      in if receipt \<noteq> [] then cx_reply i (ep_send ords (receipt_frame receipt)) cx else cx)"

definition u64_of_i64 :: "int \<Rightarrow> nat" where
  "u64_of_i64 x = nat (x mod 2 ^ 64)"

definition i64_of_u64 :: "nat \<Rightarrow> int" where
  "i64_of_u64 n = (if n < 2 ^ 63 then int n else int n - 2 ^ 64)"

definition negotiate :: "nat \<Rightarrow> nat \<Rightarrow> nat" where
  "negotiate client server = (if client = 0 \<or> server = 0 then 0 else max client server)"

text \<open>\<^verbatim>\<open>std::string_view::find\<close> of a text: whether it occurs.\<close>

fun contains_text :: "string \<Rightarrow> string \<Rightarrow> bool" where
  "contains_text [] p = (p = [])"
| "contains_text (c # s) p = (starts_with (c # s) p \<or> contains_text s p)"

definition connected_frame :: "EndpointConfig \<Rightarrow> Frame" where
  "connected_frame cfg = \<lparr>fr_command = ''CONNECTED'',
     fr_headers = [(''version'', ''1.2''),
       (''heart-beat'', to_string_nat (u64_of_i64 (server_outgoing_heartbeat cfg)) @ '','' @
                        to_string_nat (u64_of_i64 (server_incoming_heartbeat cfg)))],
     fr_body = []\<rparr>"

definition process_connect :: "EndpointConfig \<Rightarrow> hash_orders \<Rightarrow> nat \<Rightarrow> Frame \<Rightarrow> frame_context \<Rightarrow> frame_context" where
  "process_connect cfg ords i f cx =
     (if fr_command f \<noteq> ''CONNECT'' \<and> fr_command f \<noteq> ''STOMP''
      then cx_reply i (stomp_protocol_error ords ''CONNECT or STOMP must be the first frame'') cx
      else if frame_header f ''accept-version'' = [] \<or> \<not> contains_text (frame_header f ''accept-version'') ''1.2''
      then cx_reply i (stomp_protocol_error ords ''STOMP 1.2 is required'') cx
      else case parse_heartbeat (frame_header f ''heart-beat'') of
             Inl e \<Rightarrow> cx_reply i (stomp_protocol_error ords e) cx
           | Inr (client_outgoing, client_incoming) \<Rightarrow>
               let server_outgoing = u64_of_i64 (server_outgoing_heartbeat cfg);
                   server_incoming = u64_of_i64 (server_incoming_heartbeat cfg);
                   outgoing = negotiate client_outgoing server_incoming;
                   incoming = negotiate client_incoming server_outgoing
               in cx_reply i (ep_send ords (connected_frame cfg))
                    (cx\<lparr>cx_conn := (cx_conn cx)\<lparr>outgoing_heartbeat := i64_of_u64 outgoing,
                         incoming_heartbeat := i64_of_u64 incoming, cs_connected := True\<rparr>\<rparr>))"

definition ack_mode_of :: "string \<Rightarrow> AckMode option" where
  "ack_mode_of ack =
     (if ack = [] \<or> ack = ''auto'' then Some Ack_Auto
      else if ack = ''client'' then Some Ack_Client
      else if ack = ''client-individual'' then Some Ack_ClientIndividual
      else None)"

definition process_subscribe :: "hash_orders \<Rightarrow> nat \<Rightarrow> Frame \<Rightarrow> frame_context \<Rightarrow> frame_context" where
  "process_subscribe ords i f cx =
     (let destination = frame_header f ''destination''; sid = frame_header f ''id'';
          refuse = cx_reply i (stomp_protocol_error ords ''invalid STOMP subscription'')
      in if destination = [] \<or> sid = [] then refuse cx
         else case ack_mode_of (frame_header f ''ack'') of
                None \<Rightarrow> refuse cx
              | Some mode \<Rightarrow>
                  (case subscribe (shared_of (cx_sessions cx)) destination sid (cs_handle (cx_conn cx)) mode
                          (cs_principal (cx_conn cx)) (cx_broker cx) of
                     (False, b) \<Rightarrow> refuse (cx\<lparr>cx_broker := b\<rparr>)
                   | (True, b) \<Rightarrow>
                       send_receipt ords i f (cx\<lparr>cx_broker := b,
                         cx_conn := (cx_conn cx)\<lparr>subscription_ids := subscription_ids (cx_conn cx) @ [sid]\<rparr>\<rparr>)))"

definition process_unsubscribe :: "hash_orders \<Rightarrow> nat \<Rightarrow> Frame \<Rightarrow> frame_context \<Rightarrow> frame_context" where
  "process_unsubscribe ords i f cx =
     (let sid = frame_header f ''id''
      in if sid = [] then cx_reply i (stomp_protocol_error ords ''UNSUBSCRIBE requires id'') cx
         else send_receipt ords i f (cx\<lparr>cx_broker := unsubscribe (cs_handle (cx_conn cx)) sid (cx_broker cx),
                cx_conn := (cx_conn cx)\<lparr>subscription_ids := removeAll sid (subscription_ids (cx_conn cx))\<rparr>\<rparr>))"

definition process_send :: "EndpointConfig \<Rightarrow> hash_orders \<Rightarrow> nat \<Rightarrow> Frame \<Rightarrow> frame_context \<Rightarrow> frame_context" where
  "process_send cfg ords i f cx =
     (let destination = frame_header f ''destination''; prefix = application_destination_prefix cfg
      in if prefix \<noteq> [] \<and> starts_with destination (prefix @ ''/'') then
           (case dispatcher cfg of
              None \<Rightarrow> cx_reply i (stomp_protocol_error ords ''unmapped STOMP application destination'') cx
            | Some m \<Rightarrow>
                (case dispatch m (drop (length prefix) destination) (fr_body f) (cx_world cx) of
                   (False, w) \<Rightarrow> cx_reply i (stomp_protocol_error ords ''unmapped STOMP application destination'')
                                   (cx_set_world w cx)
                 | (True, w) \<Rightarrow> send_receipt ords i f (cx_set_world w cx)))
         else
           (let (n, w) = (if destination = [] then (0, cx_world cx)
                          else broker_publish (header_order ords) destination (fr_body f) (fr_headers f)
                                 (cx_broker cx) (shared_of (cx_sessions cx)));
                cx' = cx_set_world w cx
            in if n = 0 \<and> \<not> starts_with destination ''/topic/'' \<and> \<not> starts_with destination ''/queue/''
               then cx_reply i (stomp_protocol_error ords ''unsupported STOMP destination'') cx'
               else send_receipt ords i f cx'))"

definition process_ack :: "hash_orders \<Rightarrow> nat \<Rightarrow> Frame \<Rightarrow> frame_context \<Rightarrow> frame_context" where
  "process_ack ords i f cx =
     (let ack_id = frame_header f ''id'';
          refuse = cx_reply i (stomp_protocol_error ords ''unknown STOMP acknowledgement id'')
      in if ack_id = [] then refuse cx
         else if fr_command f = ''ACK'' then
           (case acknowledge (cs_handle (cx_conn cx)) ack_id (cx_broker cx) of
              (False, b) \<Rightarrow> refuse (cx\<lparr>cx_broker := b\<rparr>)
            | (True, b) \<Rightarrow> send_receipt ords i f (cx\<lparr>cx_broker := b\<rparr>))
         else
           (case negative_acknowledge (destination_order ords) (header_order ords) (cs_handle (cx_conn cx)) ack_id
                   (cx_broker cx) (shared_of (cx_sessions cx)) of
              (False, hp) \<Rightarrow> refuse (cx_set_world (cx_broker cx, hp) cx)
            | (True, hp) \<Rightarrow> send_receipt ords i f (cx_set_world (cx_broker cx, hp) cx)))"

definition process_disconnect :: "hash_orders \<Rightarrow> nat \<Rightarrow> Frame \<Rightarrow> frame_context \<Rightarrow> frame_context" where
  "process_disconnect ords i f cx =
     cx_reply i (\<lambda>s. snd (session_close 1000 (str_bytes ''STOMP disconnect'') s)) (send_receipt ords i f cx)"

definition stomp_process_frame :: "EndpointConfig \<Rightarrow> hash_orders \<Rightarrow> nat \<Rightarrow> Frame \<Rightarrow> frame_context \<Rightarrow> frame_context" where
  "stomp_process_frame cfg ords i f cx =
     (if \<not> cs_connected (cx_conn cx) then process_connect cfg ords i f cx
      else if fr_command f = ''SUBSCRIBE'' then process_subscribe ords i f cx
      else if fr_command f = ''UNSUBSCRIBE'' then process_unsubscribe ords i f cx
      else if fr_command f = ''SEND'' then process_send cfg ords i f cx
      else if fr_command f = ''ACK'' \<or> fr_command f = ''NACK'' then process_ack ords i f cx
      else if fr_command f = ''DISCONNECT'' then process_disconnect ords i f cx
      else cx_reply i (stomp_protocol_error ords ''unsupported STOMP command'') cx)"

section \<open>Callbacks\<close>

definition session_closing :: "nat \<Rightarrow> session_heap \<Rightarrow> bool" where
  "session_closing i ws = (case ws i of None \<Rightarrow> True | Some s \<Rightarrow> close_sent s)"

definition intercepted :: "EndpointConfig \<Rightarrow> nat \<Rightarrow> Frame \<Rightarrow> session_heap \<Rightarrow> bool" where
  "intercepted cfg i f ws =
     (case interceptor cfg of
        None \<Rightarrow> False
      | Some g \<Rightarrow> (case ws i of None \<Rightarrow> True | Some s \<Rightarrow> \<not> g s f))"

fun frame_loop :: "EndpointConfig \<Rightarrow> hash_orders \<Rightarrow> nat \<Rightarrow> Frame list \<Rightarrow> frame_context \<Rightarrow> frame_context" where
  "frame_loop cfg ords i [] cx = cx"
| "frame_loop cfg ords i (f # fs) cx =
     (if session_closing i (cx_sessions cx) then cx
      else if intercepted cfg i f (cx_sessions cx)
      then cx_reply i (stomp_protocol_error ords ''STOMP frame rejected by interceptor'') cx
      else frame_loop cfg ords i fs (stomp_process_frame cfg ords i f cx))"

definition bytes_str :: "bytes \<Rightarrow> string" where
  "bytes_str bs = map (\<lambda>w. char_of (unat w)) bs"

definition ep_on_open :: "int \<Rightarrow> nat \<Rightarrow> Endpoint \<Rightarrow> Endpoint" where
  "ep_on_open now i ep =
     (if \<not> accepting ep
      then ep\<lparr>ep_sessions := on_session i (\<lambda>s. snd (session_close 1001 (str_bytes ''Server shutting down'') s)) (ep_sessions ep)\<rparr>
      else ep\<lparr>ep_connections := AList.update i
             \<lparr>cs_decoder = Decoder_new, cs_connected = False, cs_handle = i,
              cs_principal = (case ep_sessions ep i of None \<Rightarrow> [] | Some s \<Rightarrow> ws_principal s),
              subscription_ids = [], outgoing_heartbeat = 0, incoming_heartbeat = 0,
              last_received_ms = now, last_sent_ms = now\<rparr> (ep_connections ep)\<rparr>)"

definition ep_on_message :: "EndpointConfig \<Rightarrow> hash_orders \<Rightarrow> int \<Rightarrow> nat \<Rightarrow> Opcode \<Rightarrow> bytes \<Rightarrow> Endpoint \<Rightarrow> Endpoint" where
  "ep_on_message cfg ords now i opc payload ep =
     (if opc \<noteq> Text
      then ep\<lparr>ep_sessions := on_session i (stomp_protocol_error ords ''STOMP requires text WebSocket messages'') (ep_sessions ep)\<rparr>
      else case map_of (ep_connections ep) i of
             None \<Rightarrow> ep
           | Some c \<Rightarrow>
               (case decoder_feed (cs_decoder c) (bytes_str payload) of
                  (Inl e, d) \<Rightarrow>
                    ep\<lparr>ep_connections := AList.update i (c\<lparr>last_received_ms := now, cs_decoder := d\<rparr>) (ep_connections ep),
                       ep_sessions := on_session i (stomp_protocol_error ords e) (ep_sessions ep)\<rparr>
                | (Inr fs, d) \<Rightarrow>
                    (let cx = frame_loop cfg ords i fs \<lparr>cx_conn = c\<lparr>last_received_ms := now, cs_decoder := d\<rparr>,
                                cx_broker = ep_broker ep, cx_sessions = ep_sessions ep\<rparr>
                     in ep\<lparr>ep_connections := AList.update i (cx_conn cx) (ep_connections ep),
                           ep_broker := cx_broker cx, ep_sessions := cx_sessions cx\<rparr>)))"

definition drop_subscriptions :: "ConnectionState \<Rightarrow> SimpleBroker \<Rightarrow> SimpleBroker" where
  "drop_subscriptions c b = fold (unsubscribe (cs_handle c)) (subscription_ids c) b"

definition ep_on_close :: "nat \<Rightarrow> Endpoint \<Rightarrow> Endpoint" where
  "ep_on_close i ep =
     (case map_of (ep_connections ep) i of
        None \<Rightarrow> ep
      | Some c \<Rightarrow> ep\<lparr>ep_connections := AList.delete i (ep_connections ep),
                    ep_broker := drop_subscriptions c (ep_broker ep)\<rparr>)"

definition ep_authorize :: "Endpoint \<Rightarrow> request \<Rightarrow> HandshakeDecision" where
  "ep_authorize ep req =
     (if accepting ep then decision_allow [] else decision_reject 503 ''STOMP endpoint is shutting down'')"

section \<open>Shutdown\<close>

definition close_handle :: "string \<Rightarrow> nat \<Rightarrow> session_heap \<Rightarrow> session_heap" where
  "close_handle reason i ws = with_shared ws (snd (handle_close 1001 (str_bytes reason) i (shared_of ws)))"

definition ep_begin_shutdown :: "Endpoint \<Rightarrow> Endpoint" where
  "ep_begin_shutdown ep = ep\<lparr>accepting := False,
     ep_sessions := fold (close_handle ''Server shutting down'') (map (cs_handle \<circ> snd) (ep_connections ep)) (ep_sessions ep)\<rparr>"

definition ep_drained :: "Endpoint \<Rightarrow> bool" where
  "ep_drained ep \<longleftrightarrow> ep_connections ep = []"

definition ep_force_shutdown :: "Endpoint \<Rightarrow> Endpoint" where
  "ep_force_shutdown ep = ep\<lparr>accepting := False, ep_connections := [],
     ep_broker := fold drop_subscriptions (map snd (ep_connections ep)) (ep_broker ep),
     ep_sessions := fold (close_handle ''Server shutdown deadline exceeded'') (map (cs_handle \<circ> snd) (ep_connections ep))
                      (ep_sessions ep)\<rparr>"

section \<open>Heartbeats\<close>

text \<open>
  What the loop does for one connection. Doubling the negotiated interval is signed 64-bit arithmetic;
  an interval of which the double does not fit has no defined behaviour.
\<close>

datatype hb_action = Hb_skip | Hb_undefined | Hb_timeout | Hb_idle | Hb_beat

definition heartbeat_action :: "int \<Rightarrow> bool \<Rightarrow> ConnectionState \<Rightarrow> hb_action" where
  "heartbeat_action now active c =
     (if \<not> cs_connected c \<or> \<not> active then Hb_skip
      else if incoming_heartbeat c > 0 \<and> incoming_heartbeat c * 2 \<ge> 2 ^ 63 then Hb_undefined
      else if incoming_heartbeat c > 0 \<and> now - last_received_ms c > incoming_heartbeat c * 2 then Hb_timeout
      else if outgoing_heartbeat c > 0 \<and> now - last_sent_ms c \<ge> outgoing_heartbeat c then Hb_beat
      else Hb_idle)"

definition heartbeat_visit :: "hash_orders \<Rightarrow> int \<Rightarrow> ConnectionState \<Rightarrow> session_heap \<Rightarrow> (ConnectionState \<times> session_heap) option" where
  "heartbeat_visit ords now c ws =
     (let h = cs_handle c; hp = shared_of ws
      in case heartbeat_action now (handle_active hp h) c of
           Hb_undefined \<Rightarrow> None
         | Hb_timeout \<Rightarrow>
             (let hp1 = snd (handle_send Queued_Text
                          (str_bytes (serialize (header_order ords) (error_frame ''STOMP heartbeat timeout''))) h hp);
                  hp2 = snd (handle_close 1002 (str_bytes ''STOMP heartbeat timeout'') h hp1)
              in Some (c, with_shared ws hp2))
         | Hb_beat \<Rightarrow>
             (case handle_send Queued_Text (str_bytes [LF]) h hp of
                (ok, hp1) \<Rightarrow> Some (if ok then c\<lparr>last_sent_ms := now\<rparr> else c, with_shared ws hp1))
         | _ \<Rightarrow> Some (c, ws))"

fun heartbeat_loop :: "hash_orders \<Rightarrow> int \<Rightarrow> (nat \<times> ConnectionState) list \<Rightarrow> session_heap \<Rightarrow>
    ((nat \<times> ConnectionState) list \<times> session_heap) option" where
  "heartbeat_loop ords now [] ws = Some ([], ws)"
| "heartbeat_loop ords now ((i, c) # cs) ws =
     (case heartbeat_visit ords now c ws of
        None \<Rightarrow> None
      | Some (c', ws1) \<Rightarrow>
          (case heartbeat_loop ords now cs ws1 of None \<Rightarrow> None | Some (cs', ws2) \<Rightarrow> Some ((i, c') # cs', ws2)))"

definition ep_heartbeat :: "hash_orders \<Rightarrow> int \<Rightarrow> Endpoint \<Rightarrow> Endpoint option" where
  "ep_heartbeat ords now ep =
     (case heartbeat_loop ords now (ep_connections ep) (ep_sessions ep) of
        None \<Rightarrow> None
      | Some (cs, ws) \<Rightarrow> Some (ep\<lparr>ep_connections := cs, ep_sessions := ws\<rparr>))"

section \<open>Ownership of subscriptions\<close>

text \<open>
  Every subscription of the broker belongs to a live connection that lists its identifier and has its
  principal, and a session with pending deliveries has a subscription to drop when it closes.
\<close>

definition all_subs :: "SimpleBroker \<Rightarrow> Subscription list" where
  "all_subs b = concat (map snd (subscriptions b))"

definition has_pending :: "SimpleBroker \<Rightarrow> nat \<Rightarrow> bool" where
  "has_pending b i \<longleftrightarrow> map_of (pending_acks b) i \<noteq> None"

definition owned :: "(nat \<rightharpoonup> ConnectionState) \<Rightarrow> SimpleBroker \<Rightarrow> bool" where
  "owned M b \<longleftrightarrow>
     (\<forall>s\<in>set (all_subs b). \<exists>c. M (sub_session s) = Some c \<and> sub_id s \<in> set (subscription_ids c) \<and>
        sub_principal s = cs_principal c) \<and>
     (\<forall>i. has_pending b i \<longrightarrow> (\<exists>c. M i = Some c \<and> subscription_ids c \<noteq> []))"

lemma table_at_all_subs: "s \<in> set (table_at (subscriptions b) d) \<Longrightarrow> s \<in> set (all_subs b)"
  using table_at_mem [of "subscriptions b" d] by (force simp: all_subs_def)

lemma put_subscription_mem: "x \<in> set (put_subscription s ss) \<Longrightarrow> x = s \<or> x \<in> set ss"
  by (induction ss) (auto split: if_splits)

lemma all_subs_subscribe:
  assumes "subscribe hp d sid session mode who b = (ok, b')" "s \<in> set (all_subs b')"
  shows "s \<in> set (all_subs b) \<or> (ok \<and> s = \<lparr>sub_session = session, sub_id = sid, sub_ack_mode = mode, sub_principal = who\<rparr>)"
proof (cases ok)
  case True
  let ?s = "\<lparr>sub_session = session, sub_id = sid, sub_ack_mode = mode, sub_principal = who\<rparr>"
  have b': "subscriptions b' = AList.update d (put_subscription ?s (table_at (subscriptions b) d)) (subscriptions b)"
    using assms(1) True by (auto simp: subscribe_def split: if_splits)
  from assms(2) obtain e ss where e: "(e, ss) \<in> set (subscriptions b')" "s \<in> set ss" by (auto simp: all_subs_def)
  from set_update [OF e(1) [unfolded b']] show ?thesis
    using e(2) True put_subscription_mem table_at_all_subs by (fastforce simp: all_subs_def)
qed (use assms in \<open>auto simp: subscribe_def split: if_splits\<close>)

lemma subscribe_pending: "subscribe hp d sid session mode who b = (ok, b') \<Longrightarrow> pending_acks b' = pending_acks b"
  by (auto simp: subscribe_def split: if_splits)

lemma all_subs_mem: "s \<in> set (all_subs b) \<longleftrightarrow> (\<exists>d ss. (d, ss) \<in> set (subscriptions b) \<and> s \<in> set ss)"
  by (force simp: all_subs_def)

lemma erase_subscriptions_mem:
  "(d, ss) \<in> set (subscriptions (erase_subscriptions P b)) \<longleftrightarrow>
   ss \<noteq> [] \<and> (\<exists>ts. (d, ts) \<in> set (subscriptions b) \<and> ss = filter (\<lambda>s. \<not> P s) ts)"
  by (force simp: erase_subscriptions_def)

lemma all_subs_erase: "s \<in> set (all_subs (erase_subscriptions P b)) \<longleftrightarrow> s \<in> set (all_subs b) \<and> \<not> P s"
proof
  assume "s \<in> set (all_subs b) \<and> \<not> P s"
  then obtain d ts where "(d, ts) \<in> set (subscriptions b)" "s \<in> set (filter (\<lambda>s. \<not> P s) ts)"
    by (auto simp: all_subs_mem)
  then have "(d, filter (\<lambda>s. \<not> P s) ts) \<in> set (subscriptions (erase_subscriptions P b))"
    unfolding erase_subscriptions_mem by (metis empty_iff empty_set)
  with \<open>s \<in> set (filter (\<lambda>s. \<not> P s) ts)\<close> show "s \<in> set (all_subs (erase_subscriptions P b))"
    unfolding all_subs_mem by blast
qed (simp add: all_subs_mem erase_subscriptions_mem, force)

lemma owned_subsD:
  "owned M b \<Longrightarrow> s \<in> set (all_subs b) \<Longrightarrow>
   \<exists>c. M (sub_session s) = Some c \<and> sub_id s \<in> set (subscription_ids c) \<and> sub_principal s = cs_principal c"
  by (simp add: owned_def)

lemma owned_pendingD: "owned M b \<Longrightarrow> has_pending b i \<Longrightarrow> \<exists>c. M i = Some c \<and> subscription_ids c \<noteq> []"
  by (simp add: owned_def)

lemma owned_mono:
  "owned M b \<Longrightarrow> (\<And>s. s \<in> set (all_subs b') \<Longrightarrow> s \<in> set (all_subs b)) \<Longrightarrow>
   (\<And>i. has_pending b' i \<Longrightarrow> has_pending b i \<or> i \<in> sub_session ` set (all_subs b)) \<Longrightarrow> owned M b'"
  by (force simp: owned_def)

lemma owned_erase: "owned M b \<Longrightarrow> owned M (erase_subscriptions P b)"
  by (erule owned_mono) (simp_all add: all_subs_erase, simp add: has_pending_def erase_subscriptions_def)

lemma unsubscribe_subs:
  "s \<in> set (all_subs (unsubscribe i sid b)) \<longleftrightarrow> s \<in> set (all_subs b) \<and> \<not> (sub_session s = i \<and> sub_id s = sid)"
  "has_pending (unsubscribe i sid b) j \<longleftrightarrow> has_pending b j \<and> j \<noteq> i"
proof -
  have "all_subs (unsubscribe i sid b) = all_subs (erase_subscriptions (\<lambda>s. sub_session s = i \<and> sub_id s = sid) b)"
    by (simp add: unsubscribe_def Let_def all_subs_def)
  then show "s \<in> set (all_subs (unsubscribe i sid b)) \<longleftrightarrow> s \<in> set (all_subs b) \<and> \<not> (sub_session s = i \<and> sub_id s = sid)"
    by (simp add: all_subs_erase)
  show "has_pending (unsubscribe i sid b) j \<longleftrightarrow> has_pending b j \<and> j \<noteq> i"
    by (simp add: has_pending_def unsubscribe_def Let_def delete_conv' erase_subscriptions_def)
qed

lemma owned_unsubscribe:
  assumes own: "owned (M(i \<mapsto> c)) b" and c': "cs_principal c' = cs_principal c"
    "\<And>x. x \<in> set (subscription_ids c) \<Longrightarrow> x \<noteq> sid \<Longrightarrow> x \<in> set (subscription_ids c')"
  shows "owned (M(i \<mapsto> c')) (unsubscribe i sid b)"
  unfolding owned_def unsubscribe_subs
proof (intro conjI ballI allI impI)
  fix s assume "s \<in> set (all_subs (unsubscribe i sid b))"
  then have s: "s \<in> set (all_subs b)" "sub_session s = i \<Longrightarrow> sub_id s \<noteq> sid" by (simp_all add: unsubscribe_subs)
  from owned_subsD [OF own s(1)] s(2) c'
  show "\<exists>e. (M(i \<mapsto> c')) (sub_session s) = Some e \<and> sub_id s \<in> set (subscription_ids e) \<and> sub_principal s = cs_principal e"
    by (cases "sub_session s = i") auto
next
  fix j assume "has_pending b j \<and> j \<noteq> i"
  then show "\<exists>e. (M(i \<mapsto> c')) j = Some e \<and> subscription_ids e \<noteq> []" using owned_pendingD [OF own, of j] by simp
qed

lemma owned_acknowledge: "owned M b \<Longrightarrow> acknowledge i a b = (ok, b') \<Longrightarrow> owned M b'"
  by (erule owned_mono)
     (auto simp: acknowledge_def all_subs_def has_pending_def Let_def update_conv' delete_conv' split: option.splits if_splits)

lemma select_targets_keeps:
  assumes "select_targets hp d b = (r, b')"
  shows "subscriptions b' = subscriptions b" "pending_acks b' = pending_acks b"
  using assms by (auto simp: select_targets_def take_message_id_def Let_def split: option.splits if_splits)

lemma push_pending_keeps:
  "subscriptions (push_pending t mid m b) = subscriptions b"
  "has_pending (push_pending t mid m b) i \<longleftrightarrow> has_pending b i \<or> i = sub_session t"
  by (auto simp: push_pending_def has_pending_def update_conv')

lemma deliver_targets_keeps:
  "deliver_targets ord msg mid ts b hp = (n, stale, b', hp') \<Longrightarrow>
   subscriptions b' = subscriptions b \<and> (has_pending b' i \<longrightarrow> has_pending b i \<or> i \<in> sub_session ` set ts)"
proof (induction ts arbitrary: b hp n stale)
  case (Cons t ts)
  from Cons.prems obtain b1 hp1 n1 stale1 where "b1 = b \<or> b1 = push_pending t mid (msg t) b"
    "deliver_targets ord msg mid ts b1 hp1 = (n1, stale1, b', hp')"
    by (auto split: if_splits prod.splits bool.splits)
  with Cons.IH [of b1 hp1 n1 stale1] show ?case by (auto simp: push_pending_keeps)
qed simp

lemma owned_publish:
  assumes own: "owned M b" and pub: "broker_publish ord d body hs b hp = (n, b', hp')"
  shows "owned M b'"
proof -
  obtain r b1 where sel: "select_targets hp d b = (r, b1)" by (cases "select_targets hp d b")
  note kept = select_targets_keeps [OF sel]
  show ?thesis
  proof (cases r)
    case None
    have "owned M b1" using own by (rule owned_mono) (simp_all add: kept all_subs_def has_pending_def)
    with None pub own sel show ?thesis by (auto simp: broker_publish_def split: if_splits)
  next
    case (Some p)
    obtain ts mid where p: "p = (ts, mid)" by (cases p)
    obtain k stale b2 hp2 where del: "deliver_targets ord (message_frame d body hs mid) mid ts b1 hp = (k, stale, b2, hp2)"
      by (metis prod_cases4)
    have ts: "set ts \<subseteq> set (all_subs b)"
      using select_targets_subset [OF sel [unfolded Some p]] table_at_all_subs by blast
    have "owned M b2" using own
    proof (rule owned_mono)
      fix s assume "s \<in> set (all_subs b2)"
      then show "s \<in> set (all_subs b)" using deliver_targets_keeps [OF del] kept by (simp add: all_subs_def)
    next
      fix i assume "has_pending b2 i"
      then show "has_pending b i \<or> i \<in> sub_session ` set (all_subs b)"
        using deliver_targets_keeps [OF del, of i] kept ts by (auto simp: has_pending_def)
    qed
    with owned_erase [OF this] pub own sel Some p del show ?thesis by (auto simp: broker_publish_def split: if_splits)
  qed
qed

section \<open>The endpoint keeps ownership\<close>

text \<open>
  What an application handler may do to the broker: anything that keeps its invariant and gives no
  subscription or pending delivery to a connection that does not have one, as publishing does.
\<close>

definition handlers_ok :: "broker_world message_mappings option \<Rightarrow> bool" where
  "handlers_ok m \<longleftrightarrow> (\<forall>ms d h body w ok w'. m = Some ms \<and> map_of ms d = Some h \<and> h body w = (ok, w') \<and> broker_inv (fst w) \<longrightarrow>
     broker_inv (fst w') \<and> (\<forall>M. owned M (fst w) \<longrightarrow> owned M (fst w')))"

definition cx_inv :: "(nat \<rightharpoonup> ConnectionState) \<Rightarrow> nat \<Rightarrow> frame_context \<Rightarrow> bool" where
  "cx_inv M i cx \<longleftrightarrow> broker_inv (cx_broker cx) \<and> owned (M(i \<mapsto> cx_conn cx)) (cx_broker cx) \<and> cs_handle (cx_conn cx) = i"

lemma cx_inv_reply [simp]: "cx_inv M i (cx_reply j g cx) = cx_inv M i cx"
  by (simp add: cx_inv_def cx_reply_def)

lemma cx_inv_receipt [simp]: "cx_inv M i (send_receipt ords j f cx) = cx_inv M i cx"
  by (simp add: send_receipt_def Let_def)

lemma owned_conn:
  assumes "owned (M(i \<mapsto> c)) b" "cs_principal c' = cs_principal c" "set (subscription_ids c) \<subseteq> set (subscription_ids c')"
  shows "owned (M(i \<mapsto> c')) b"
proof -
  have "(\<exists>e. (M(i \<mapsto> c)) k = Some e \<and> P e) \<Longrightarrow> P c \<longrightarrow> P c' \<Longrightarrow> (\<exists>e. (M(i \<mapsto> c')) k = Some e \<and> P e)" for k P
    by (cases "k = i") auto
  with assms show ?thesis unfolding owned_def
    by (smt (verit, best) empty_set fun_upd_apply option.inject subset_eq subset_empty set_empty)
qed

lemma cx_inv_connect: "cx_inv M i cx \<Longrightarrow> cx_inv M i (process_connect cfg ords i f cx)"
  by (auto simp: process_connect_def Let_def cx_inv_def cx_reply_def split: sum.split intro: owned_conn)

lemma cx_inv_subscribe:
  assumes inv: "cx_inv M i cx"
  shows "cx_inv M i (process_subscribe ords i f cx)"
proof -
  let ?c = "cx_conn cx"
  let ?sid = "frame_header f ''id''"
  let ?c' = "?c\<lparr>subscription_ids := subscription_ids ?c @ [?sid]\<rparr>"
  have own: "owned (M(i \<mapsto> ?c)) (cx_broker cx)" and h: "cs_handle ?c = i" and b: "broker_inv (cx_broker cx)"
    using inv by (simp_all add: cx_inv_def)
  have new: "owned (M(i \<mapsto> ?c')) b' \<and> broker_inv b'"
    if sub: "subscribe hp d ?sid i mode (cs_principal ?c) (cx_broker cx) = (True, b')" for hp d mode b'
  proof
    show "broker_inv b'" using sec_subscribe.keeps_inv [OF b, of hp d ?sid i mode "cs_principal ?c"] sub by simp
    have own': "owned (M(i \<mapsto> ?c')) (cx_broker cx)" using own by (rule owned_conn) auto
    show "owned (M(i \<mapsto> ?c')) b'"
      unfolding owned_def
    proof (intro conjI ballI allI impI)
      fix s assume "s \<in> set (all_subs b')"
      from all_subs_subscribe [OF sub this]
      show "\<exists>e. (M(i \<mapsto> ?c')) (sub_session s) = Some e \<and> sub_id s \<in> set (subscription_ids e) \<and> sub_principal s = cs_principal e"
        using owned_subsD [OF own', of s] by (elim disjE) (simp_all del: fun_upd_apply, simp)
    next
      fix j assume "has_pending b' j"
      then show "\<exists>e. (M(i \<mapsto> ?c')) j = Some e \<and> subscription_ids e \<noteq> []"
        using owned_pendingD [OF own', of j] subscribe_pending [OF sub] by (simp add: has_pending_def)
    qed
  qed
  have "cx_inv M i (cx\<lparr>cx_broker := b'\<rparr>)"
    if "subscribe hp d ?sid (cs_handle ?c) mode w (cx_broker cx) = (False, b')" for hp d mode w b'
  proof -
    have "b' = cx_broker cx" using that by (auto simp: subscribe_def split: if_splits)
    with inv show ?thesis by simp
  qed
  moreover have "cx_inv M i (cx\<lparr>cx_broker := b', cx_conn := ?c'\<rparr>)"
    if "subscribe hp d ?sid (cs_handle ?c) mode (cs_principal ?c) (cx_broker cx) = (True, b')" for hp d mode b'
    using new [OF that [unfolded h]] h by (simp add: cx_inv_def)
  ultimately show ?thesis
    using inv by (simp add: process_subscribe_def Let_def split: option.split prod.split bool.split)
qed

lemma cx_inv_unsubscribe: "cx_inv M i cx \<Longrightarrow> cx_inv M i (process_unsubscribe ords i f cx)"
  by (auto simp: process_unsubscribe_def Let_def) (auto simp: cx_inv_def sec_unsubscribe.keeps_inv intro!: owned_unsubscribe)

lemma cx_inv_world:
  "cx_inv M i cx \<Longrightarrow> broker_inv (fst w) \<Longrightarrow> owned (M(i \<mapsto> cx_conn cx)) (fst w) \<Longrightarrow> cx_inv M i (cx_set_world w cx)"
  by (simp add: cx_inv_def cx_set_world_def)

lemma cx_inv_send:
  assumes inv: "cx_inv M i cx" and ok: "handlers_ok (dispatcher cfg)"
  shows "cx_inv M i (process_send cfg ords i f cx)"
proof -
  have own: "owned (M(i \<mapsto> cx_conn cx)) (cx_broker cx)" and b: "broker_inv (cx_broker cx)"
    using inv by (simp_all add: cx_inv_def)
  have disp: "cx_inv M i (cx_set_world w cx)"
    if "dispatcher cfg = Some m" "dispatch m d body (cx_world cx) = (r, w)" for m d body r w
  proof (cases "map_of m d")
    case None
    with that own b inv show ?thesis by (intro cx_inv_world) (auto simp: dispatch_def cx_world_def)
  next
    case (Some h)
    then have "h body (cx_world cx) = (r, w)" using that by (simp add: dispatch_def)
    with ok that(1) Some b own have "broker_inv (fst w) \<and> owned (M(i \<mapsto> cx_conn cx)) (fst w)"
      unfolding handlers_ok_def by (metis cx_world_def fst_conv)
    with inv show ?thesis by (intro cx_inv_world) simp_all
  qed
  have pub: "cx_inv M i (cx_set_world (b', hp') cx)"
    if "broker_publish ord d body hs (cx_broker cx) hp = (n, b', hp')" for ord d body hs hp n b' hp'
    using inv publish_inv [OF b that] owned_publish [OF own that] by (intro cx_inv_world) simp_all
  have same: "cx_inv M i (cx_set_world (cx_world cx) cx)"
    using inv own b by (intro cx_inv_world) (simp_all add: cx_world_def)
  show ?thesis
    using inv disp pub same
    by (auto simp: process_send_def Let_def split: option.split prod.split bool.split)
qed

lemma cx_inv_ack:
  assumes inv: "cx_inv M i cx"
  shows "cx_inv M i (process_ack ords i f cx)"
proof -
  have own: "owned (M(i \<mapsto> cx_conn cx)) (cx_broker cx)" and b: "broker_inv (cx_broker cx)"
    using inv by (simp_all add: cx_inv_def)
  have ack: "cx_inv M i (cx\<lparr>cx_broker := b'\<rparr>)" if "acknowledge j a (cx_broker cx) = (ok, b')" for j a ok b'
    using inv owned_acknowledge [OF own that] sec_ack.keeps_inv [OF b, of j a] that by (simp add: cx_inv_def)
  have nack: "cx_inv M i (cx_set_world (cx_broker cx, hp) cx)" for hp
    using inv own b by (intro cx_inv_world) simp_all
  show ?thesis
    using inv ack nack by (auto simp: process_ack_def Let_def split: prod.split bool.split)
qed

lemma cx_inv_frame:
  "cx_inv M i cx \<Longrightarrow> handlers_ok (dispatcher cfg) \<Longrightarrow> cx_inv M i (stomp_process_frame cfg ords i f cx)"
  by (simp add: stomp_process_frame_def cx_inv_connect cx_inv_subscribe cx_inv_unsubscribe cx_inv_send cx_inv_ack
      process_disconnect_def)

lemma cx_inv_loop:
  "cx_inv M i cx \<Longrightarrow> handlers_ok (dispatcher cfg) \<Longrightarrow> cx_inv M i (frame_loop cfg ords i fs cx)"
  by (induction fs arbitrary: cx) (simp_all add: cx_inv_frame)

definition ep_inv :: "Endpoint \<Rightarrow> bool" where
  "ep_inv ep \<longleftrightarrow> broker_inv (ep_broker ep) \<and> owned (map_of (ep_connections ep)) (ep_broker ep) \<and>
     distinct (map fst (ep_connections ep)) \<and> (\<forall>(i, c)\<in>set (ep_connections ep). cs_handle c = i)"

lemma ep_inv_message:
  assumes "ep_inv ep" "handlers_ok (dispatcher cfg)"
  shows "ep_inv (ep_on_message cfg ords now i opc payload ep)"
proof (cases "opc = Text \<and> map_of (ep_connections ep) i \<noteq> None")
  case True
  then obtain c where c: "map_of (ep_connections ep) i = Some c" by auto
  obtain r d where fd: "decoder_feed (cs_decoder c) (bytes_str payload) = (r, d)"
    by (cases "decoder_feed (cs_decoder c) (bytes_str payload)")
  let ?c = "c\<lparr>last_received_ms := now, cs_decoder := d\<rparr>"
  have h: "cs_handle c = i" using assms(1) map_of_SomeD [OF c] by (auto simp: ep_inv_def)
  have own: "owned ((map_of (ep_connections ep))(i \<mapsto> ?c)) (ep_broker ep)"
    by (rule owned_conn [of _ _ c]) (use assms(1) c in \<open>auto simp: ep_inv_def fun_upd_idem\<close>)
  let ?cx = "\<lparr>cx_conn = ?c, cx_broker = ep_broker ep, cx_sessions = ep_sessions ep\<rparr>"
  have cx: "cx_inv (map_of (ep_connections ep)) i ?cx" using own assms(1) h by (simp add: cx_inv_def ep_inv_def)
  have upd: "ep_inv (ep\<lparr>ep_connections := AList.update i e (ep_connections ep), ep_broker := b, ep_sessions := ws\<rparr>)"
    if "broker_inv b" "owned ((map_of (ep_connections ep))(i \<mapsto> e)) b" "cs_handle e = i" for e b ws
    using that assms(1) by (auto simp: ep_inv_def update_conv' distinct_update dest!: set_update)
  show ?thesis
  proof (cases r)
    case (Inl e)
    have "ep_on_message cfg ords now i opc payload ep = ep\<lparr>ep_connections := AList.update i ?c (ep_connections ep),
        ep_broker := ep_broker ep, ep_sessions := on_session i (stomp_protocol_error ords e) (ep_sessions ep)\<rparr>"
      using True c fd Inl by (cases ep) (simp add: ep_on_message_def)
    with upd [of "ep_broker ep" ?c] cx show ?thesis by (simp add: cx_inv_def)
  next
    case (Inr fs)
    have "ep_on_message cfg ords now i opc payload ep =
        ep\<lparr>ep_connections := AList.update i (cx_conn (frame_loop cfg ords i fs ?cx)) (ep_connections ep),
           ep_broker := cx_broker (frame_loop cfg ords i fs ?cx), ep_sessions := cx_sessions (frame_loop cfg ords i fs ?cx)\<rparr>"
      using True c fd Inr by (simp add: ep_on_message_def Let_def)
    with upd cx_inv_loop [OF cx assms(2), of ords fs] show ?thesis by (simp add: cx_inv_def)
  qed
qed (use assms(1) in \<open>auto simp: ep_on_message_def ep_inv_def\<close>)

lemma ep_inv_open:
  assumes "ep_inv ep" "i \<notin> fst ` set (ep_connections ep)"
  shows "ep_inv (ep_on_open now i ep)"
proof -
  have free: "map_of (ep_connections ep) i = None" using assms(2) by (simp add: map_of_eq_None_iff)
  have own: "owned ((map_of (ep_connections ep))(i \<mapsto> c)) (ep_broker ep)" for c
    unfolding owned_def
  proof (intro conjI ballI allI impI)
    fix s assume "s \<in> set (all_subs (ep_broker ep))"
    then obtain e where "map_of (ep_connections ep) (sub_session s) = Some e" "sub_id s \<in> set (subscription_ids e)"
      "sub_principal s = cs_principal e"
      using assms(1) owned_subsD unfolding ep_inv_def by blast
    with free show "\<exists>e. ((map_of (ep_connections ep))(i \<mapsto> c)) (sub_session s) = Some e \<and>
        sub_id s \<in> set (subscription_ids e) \<and> sub_principal s = cs_principal e" by auto
  next
    fix j assume "has_pending (ep_broker ep) j"
    then obtain e where "map_of (ep_connections ep) j = Some e" "subscription_ids e \<noteq> []"
      using assms(1) owned_pendingD unfolding ep_inv_def by blast
    with free show "\<exists>e. ((map_of (ep_connections ep))(i \<mapsto> c)) j = Some e \<and> subscription_ids e \<noteq> []" by auto
  qed
  show ?thesis
    using assms(1) own by (auto simp: ep_on_open_def ep_inv_def update_conv' distinct_update dest!: set_update)
qed

lemma drop_subscriptions_subs:
  "s \<in> set (all_subs (drop_subscriptions c b)) \<longleftrightarrow>
     s \<in> set (all_subs b) \<and> \<not> (sub_session s = cs_handle c \<and> sub_id s \<in> set (subscription_ids c))"
  "has_pending (drop_subscriptions c b) j \<longleftrightarrow> has_pending b j \<and> (j = cs_handle c \<longrightarrow> subscription_ids c = [])"
proof -
  have "(s \<in> set (all_subs (fold (unsubscribe i) ids b)) \<longleftrightarrow> s \<in> set (all_subs b) \<and> \<not> (sub_session s = i \<and> sub_id s \<in> set ids)) \<and>
    (has_pending (fold (unsubscribe i) ids b) j \<longleftrightarrow> has_pending b j \<and> (j = i \<longrightarrow> ids = []))" for i ids
    by (induction ids arbitrary: b) (auto simp: unsubscribe_subs)
  then show "s \<in> set (all_subs (drop_subscriptions c b)) \<longleftrightarrow>
      s \<in> set (all_subs b) \<and> \<not> (sub_session s = cs_handle c \<and> sub_id s \<in> set (subscription_ids c))"
    "has_pending (drop_subscriptions c b) j \<longleftrightarrow> has_pending b j \<and> (j = cs_handle c \<longrightarrow> subscription_ids c = [])"
    by (simp_all add: drop_subscriptions_def)
qed

lemma broker_inv_drop: "broker_inv b \<Longrightarrow> broker_inv (drop_subscriptions c b)"
proof -
  have "broker_inv b \<Longrightarrow> broker_inv (fold (unsubscribe i) ids b)" for i ids
    by (induction ids arbitrary: b) (simp_all add: sec_unsubscribe.keeps_inv)
  then show "broker_inv b \<Longrightarrow> broker_inv (drop_subscriptions c b)" by (simp add: drop_subscriptions_def)
qed

text \<open>Dropping the subscriptions of a connection leaves nothing of its session behind.\<close>

lemma dropped_nothing:
  assumes "owned M b" "M i = Some c" "cs_handle c = i"
  shows "s \<in> set (all_subs (drop_subscriptions c b)) \<Longrightarrow> sub_session s \<noteq> i" "\<not> has_pending (drop_subscriptions c b) i"
  using assms owned_subsD [OF assms(1), of s] owned_pendingD [OF assms(1), of i] by (auto simp: drop_subscriptions_subs)

lemma owned_drop:
  assumes "owned M b" "M i = Some c" "cs_handle c = i"
  shows "owned (M(i := None)) (drop_subscriptions c b)"
  unfolding owned_def
proof (intro conjI ballI allI impI)
  fix s assume s: "s \<in> set (all_subs (drop_subscriptions c b))"
  with dropped_nothing(1) [OF assms s] owned_subsD [OF assms(1), of s]
  show "\<exists>e. (M(i := None)) (sub_session s) = Some e \<and> sub_id s \<in> set (subscription_ids e) \<and> sub_principal s = cs_principal e"
    by (simp add: drop_subscriptions_subs)
next
  fix j assume j: "has_pending (drop_subscriptions c b) j"
  then have "j \<noteq> i" using dropped_nothing(2) [OF assms] by blast
  with j owned_pendingD [OF assms(1), of j] show "\<exists>e. (M(i := None)) j = Some e \<and> subscription_ids e \<noteq> []"
    by (simp add: drop_subscriptions_subs)
qed

lemma ep_inv_close: "ep_inv ep \<Longrightarrow> ep_inv (ep_on_close i ep)"
proof (cases "map_of (ep_connections ep) i")
  case (Some c)
  assume inv: "ep_inv ep"
  have "cs_handle c = i" using inv map_of_SomeD [OF Some] by (auto simp: ep_inv_def)
  with inv owned_drop [of "map_of (ep_connections ep)" "ep_broker ep" i c] Some show ?thesis
    by (auto simp: ep_on_close_def Some ep_inv_def broker_inv_drop distinct_delete set_delete delete_conv')
qed (simp add: ep_on_close_def)

lemma owned_drop_all:
  "owned (map_of cs) b \<Longrightarrow> distinct (map fst cs) \<Longrightarrow> \<forall>(i, c)\<in>set cs. cs_handle c = i \<Longrightarrow>
   owned (\<lambda>_. None) (fold drop_subscriptions (map snd cs) b)"
proof (induction cs arbitrary: b)
  case (Cons p cs)
  obtain i c where p: "p = (i, c)" by (cases p)
  have eq: "(map_of (p # cs))(i := None) = map_of cs"
    using Cons.prems(2) p map_of_eq_None_iff [of cs i] by (auto simp: fun_eq_iff)
  have "owned ((map_of (p # cs))(i := None)) (drop_subscriptions c b)"
    by (rule owned_drop [OF Cons.prems(1)]) (use Cons.prems(3) p in auto)
  then have "owned (map_of cs) (drop_subscriptions c b)" unfolding eq .
  with Cons p show ?case by simp
qed simp

lemma broker_inv_drop_all: "broker_inv b \<Longrightarrow> broker_inv (fold drop_subscriptions cs b)"
  by (induction cs arbitrary: b) (simp_all add: broker_inv_drop)

lemma ep_inv_force: "ep_inv ep \<Longrightarrow> ep_inv (ep_force_shutdown ep)"
  by (simp add: ep_inv_def ep_force_shutdown_def broker_inv_drop_all owned_drop_all)

text \<open>Heartbeats touch neither subscriptions nor identities.\<close>

definition conn_view :: "ConnectionState \<Rightarrow> string list \<times> string \<times> nat" where
  "conn_view c = (subscription_ids c, cs_principal c, cs_handle c)"

lemma owned_view:
  assumes "\<And>i. map_option conn_view (M i) = map_option conn_view (M' i)" "owned M b"
  shows "owned M' b"
proof -
  have ex: "\<exists>c'. M' i = Some c' \<and> conn_view c' = conn_view c" if "M i = Some c" for i c
    using assms(1) [of i] that by (cases "M' i") auto
  show ?thesis
    unfolding owned_def
  proof (intro conjI ballI allI impI)
    fix s assume "s \<in> set (all_subs b)"
    from owned_subsD [OF assms(2) this] obtain c where c: "M (sub_session s) = Some c"
      "sub_id s \<in> set (subscription_ids c)" "sub_principal s = cs_principal c" by blast
    from ex [OF c(1)] c(2,3) show "\<exists>c. M' (sub_session s) = Some c \<and> sub_id s \<in> set (subscription_ids c) \<and>
        sub_principal s = cs_principal c"
      by (auto simp: conn_view_def)
  next
    fix j assume "has_pending b j"
    from owned_pendingD [OF assms(2) this] obtain c where c: "M j = Some c" "subscription_ids c \<noteq> []" by blast
    from ex [OF c(1)] c(2) show "\<exists>c. M' j = Some c \<and> subscription_ids c \<noteq> []" by (auto simp: conn_view_def)
  qed
qed

lemma heartbeat_loop_view:
  "heartbeat_loop ords now cs ws = Some (cs', ws') \<Longrightarrow>
   map (\<lambda>(i, c). (i, conn_view c)) cs' = map (\<lambda>(i, c). (i, conn_view c)) cs"
proof (induction ords now cs ws arbitrary: cs' ws' rule: heartbeat_loop.induct)
  case (2 ords now i c cs ws)
  have "conn_view c' = conn_view c" if "heartbeat_visit ords now c ws = Some (c', w)" for c' w
    using that by (auto simp: heartbeat_visit_def Let_def conn_view_def split: hb_action.splits prod.splits if_splits)
  with 2 show ?case by (auto split: option.splits)
qed simp

lemma ep_inv_heartbeat: "ep_inv ep \<Longrightarrow> ep_heartbeat ords now ep = Some ep' \<Longrightarrow> ep_inv ep'"
proof -
  assume inv: "ep_inv ep" and hb: "ep_heartbeat ords now ep = Some ep'"
  then obtain cs ws where l: "heartbeat_loop ords now (ep_connections ep) (ep_sessions ep) = Some (cs, ws)"
    and ep': "ep' = ep\<lparr>ep_connections := cs, ep_sessions := ws\<rparr>"
    by (auto simp: ep_heartbeat_def split: option.splits)
  note view = heartbeat_loop_view [OF l]
  have m: "map_option conn_view (map_of cs i) = map_option conn_view (map_of (ep_connections ep) i)" for i
    using arg_cong [OF view, of "\<lambda>l. map_of l i"] by (simp add: map_of_map)
  have d: "map fst cs = map fst (ep_connections ep)"
    using arg_cong [OF view, of "map fst"] by (simp add: comp_def split_beta)
  have "cs_handle c = i" if "(i, c) \<in> set cs" for i c
  proof -
    from that have "(i, conn_view c) \<in> set (map (\<lambda>(i, c). (i, conn_view c)) cs)" by force
    then obtain c' where "(i, c') \<in> set (ep_connections ep)" "conn_view c' = conn_view c" unfolding view by auto
    with inv show ?thesis by (auto simp: ep_inv_def conn_view_def)
  qed
  with inv d owned_view [OF m [symmetric]] show "ep_inv ep'" by (auto simp: ep_inv_def ep')
qed

section \<open>Runs of the endpoint\<close>

text \<open>
  A step is a WebSocket callback, a round of the heartbeat thread, a publication by the application, a
  shutdown request, or any change of the sessions by their transports. A session is opened under an
  identifier not in use.
\<close>

inductive ep_step :: "EndpointConfig \<Rightarrow> hash_orders \<Rightarrow> Endpoint \<Rightarrow> Endpoint \<Rightarrow> bool" for cfg ords where
  ep_open: "i \<notin> fst ` set (ep_connections ep) \<Longrightarrow> ep_step cfg ords ep (ep_on_open now i ep)"
| ep_message: "ep_step cfg ords ep (ep_on_message cfg ords now i opc payload ep)"
| ep_close: "ep_step cfg ords ep (ep_on_close i ep)"
| ep_beat: "ep_heartbeat ords now ep = Some ep' \<Longrightarrow> ep_step cfg ords ep ep'"
| ep_publish: "broker_publish (header_order ords) d body hs (ep_broker ep) (shared_of (ep_sessions ep)) = (n, b, hp) \<Longrightarrow>
    ep_step cfg ords ep (ep\<lparr>ep_broker := b, ep_sessions := with_shared (ep_sessions ep) hp\<rparr>)"
| ep_stop: "ep_step cfg ords ep (ep_begin_shutdown ep)"
| ep_force: "ep_step cfg ords ep (ep_force_shutdown ep)"
| ep_transport: "ep_step cfg ords ep (ep\<lparr>ep_sessions := ws\<rparr>)"

inductive ep_reachable :: "EndpointConfig \<Rightarrow> hash_orders \<Rightarrow> Endpoint \<Rightarrow> bool" for cfg ords where
  ep_start: "ep_reachable cfg ords \<lparr>ep_broker = SimpleBroker_new, ep_sessions = (\<lambda>_. None), ep_connections = [], accepting = True\<rparr>"
| ep_next: "ep_reachable cfg ords ep \<Longrightarrow> ep_step cfg ords ep ep' \<Longrightarrow> ep_reachable cfg ords ep'"

lemma ep_inv_sessions: "ep_inv (ep\<lparr>ep_sessions := ws\<rparr>) = ep_inv ep" "ep_inv (ep_begin_shutdown ep) = ep_inv ep"
  by (simp_all add: ep_inv_def ep_begin_shutdown_def)

lemma ep_inv_step: "ep_step cfg ords ep ep' \<Longrightarrow> handlers_ok (dispatcher cfg) \<Longrightarrow> ep_inv ep \<Longrightarrow> ep_inv ep'"
proof (induction rule: ep_step.induct)
  case (ep_publish d body hs ep n b hp)
  then show ?case using publish_inv owned_publish by (auto simp: ep_inv_def)
qed (simp_all add: ep_inv_open ep_inv_message ep_inv_close ep_inv_heartbeat ep_inv_force ep_inv_sessions)

lemma ep_reachable_inv: "ep_reachable cfg ords ep \<Longrightarrow> handlers_ok (dispatcher cfg) \<Longrightarrow> ep_inv ep"
proof (induction rule: ep_reachable.induct)
  case ep_start
  then show ?case by (simp add: ep_inv_def owned_def all_subs_def has_pending_def SimpleBroker_new_def broker_inv_def)
qed (auto intro: ep_inv_step)

section \<open>Destinations of subscriptions\<close>

definition dests :: "SimpleBroker \<Rightarrow> string set" where
  "dests b = fst ` set (subscriptions b)"

lemma dests_erase: "dests (erase_subscriptions P b) \<subseteq> dests b"
  by (force simp: dests_def erase_subscriptions_def)

lemma dests_unsubscribe: "dests (unsubscribe i sid b) \<subseteq> dests b"
  using dests_erase [of "\<lambda>s. sub_session s = i \<and> sub_id s = sid" b] by (simp add: unsubscribe_def Let_def dests_def)

lemma dests_subscribe: "subscribe hp d sid i mode who b = (ok, b') \<Longrightarrow> dests b' \<subseteq> insert d (dests b)"
  by (auto simp: subscribe_def dests_def split: if_splits dest!: set_update)

lemma dests_acknowledge: "acknowledge i a b = (ok, b') \<Longrightarrow> dests b' = dests b"
  by (auto simp: acknowledge_def dests_def Let_def split: option.splits)

lemma dests_publish: "broker_publish ord d body hs b hp = (n, b', hp') \<Longrightarrow> dests b' \<subseteq> dests b"
proof -
  assume pub: "broker_publish ord d body hs b hp = (n, b', hp')"
  obtain r b1 where sel: "select_targets hp d b = (r, b1)" by (cases "select_targets hp d b")
  have k: "dests b1 = dests b" using select_targets_keeps [OF sel] by (simp add: dests_def)
  have "dests b2 = dests b" if "deliver_targets ord msg mid ts b1 hp = (m, stale, b2, hp2)" for msg mid ts m stale b2 hp2
    using deliver_targets_keeps [OF that] k by (simp add: dests_def)
  with pub sel k dests_erase show ?thesis
    by (fastforce simp: broker_publish_def split: if_splits prod.splits option.splits)
qed

lemma dests_drop: "dests (drop_subscriptions c b) \<subseteq> dests b"
proof -
  have "dests (fold (unsubscribe i) ids b) \<subseteq> dests b" for i ids
    by (induction ids arbitrary: b) (use dests_unsubscribe in \<open>fastforce+\<close>)
  then show ?thesis by (simp add: drop_subscriptions_def)
qed

lemma dests_drop_all: "dests (fold drop_subscriptions cs b) \<subseteq> dests b"
  by (induction cs arbitrary: b) (use dests_drop in \<open>fastforce+\<close>)

text \<open>Application handlers that do not subscribe on behalf of clients.\<close>

definition handlers_no_subscribe :: "broker_world message_mappings option \<Rightarrow> bool" where
  "handlers_no_subscribe m \<longleftrightarrow> (\<forall>ms d h body w ok w'. m = Some ms \<and> map_of ms d = Some h \<and> h body w = (ok, w') \<longrightarrow>
     dests (fst w') \<subseteq> dests (fst w))"

lemma dests_reply [simp]: "cx_broker (cx_reply i g cx) = cx_broker cx" "cx_broker (send_receipt ords i f cx) = cx_broker cx"
  by (simp_all add: cx_reply_def send_receipt_def Let_def)

lemma dests_connect: "cx_broker (process_connect cfg ords i f cx) = cx_broker cx"
  by (simp add: process_connect_def Let_def split: sum.split)

lemma dests_process_subscribe:
  "dests (cx_broker (process_subscribe ords i f cx)) \<subseteq> insert (frame_header f ''destination'') (dests (cx_broker cx))"
proof -
  let ?D = "insert (frame_header f ''destination'') (dests (cx_broker cx))"
  have "dests b' \<subseteq> ?D" if "subscribe hp (frame_header f ''destination'') sid j mode who (cx_broker cx) = (ok, b')"
    for hp sid j mode who ok b' using dests_subscribe [OF that] .
  then have "dests (cx_broker cx) \<subseteq> ?D \<and> (\<forall>hp sid j mode who ok b'.
      subscribe hp (frame_header f ''destination'') sid j mode who (cx_broker cx) = (ok, b') \<longrightarrow> dests b' \<subseteq> ?D)" by blast
  then show ?thesis by (simp add: process_subscribe_def Let_def split: option.split prod.split bool.split)
qed

lemma dests_process_send:
  assumes "handlers_no_subscribe (dispatcher cfg)"
  shows "dests (cx_broker (process_send cfg ords i f cx)) \<subseteq> dests (cx_broker cx)"
proof -
  have disp: "dests (fst w) \<subseteq> dests (cx_broker cx)"
    if m: "dispatcher cfg = Some m" and d: "dispatch m d body (cx_world cx) = (r, w)" for m d body r w
  proof (cases "map_of m d")
    case None
    with d show ?thesis by (auto simp: dispatch_def cx_world_def)
  next
    case (Some h)
    with d have "h body (cx_world cx) = (r, w)" by (simp add: dispatch_def)
    with assms m Some show ?thesis unfolding handlers_no_subscribe_def cx_world_def by (metis fst_conv)
  qed
  have pub: "dests (fst w) \<subseteq> dests (cx_broker cx)"
    if "(if destination = [] then (0, cx_world cx)
         else broker_publish ord destination body hs (cx_broker cx) hp) = (n, w)" for destination ord body hs hp n w
    using that dests_publish [of ord destination body hs "cx_broker cx" hp n "fst w" "snd w"]
    by (auto simp: cx_world_def split: if_splits)
  have disp': "dests (cx_broker (cx_set_world w cx)) \<subseteq> dests (cx_broker cx)"
    if "dispatcher cfg = Some m" "dispatch m d body (cx_world cx) = (r, w)" for m d body r w
    using disp [OF that] by (simp add: cx_set_world_def)
  have pub': "dests (cx_broker (cx_set_world w cx)) \<subseteq> dests (cx_broker cx)"
    if "(if destination = [] then (0, cx_world cx)
         else broker_publish ord destination body hs (cx_broker cx) hp) = (n, w)" for destination ord body hs hp n w
    using pub [OF that] by (simp add: cx_set_world_def)
  obtain n w where pw: "(if frame_header f ''destination'' = [] then (0, cx_world cx)
      else broker_publish (header_order ords) (frame_header f ''destination'') (fr_body f) (fr_headers f)
             (cx_broker cx) (shared_of (cx_sessions cx))) = (n, w)"
    by (meson surj_pair)
  show ?thesis
  proof (cases "application_destination_prefix cfg \<noteq> [] \<and>
      starts_with (frame_header f ''destination'') (application_destination_prefix cfg @ ''/'')")
    case True
    with disp' show ?thesis by (simp add: process_send_def Let_def split: option.split prod.split bool.split)
  next
    case False
    show ?thesis
      unfolding process_send_def Let_def if_not_P [OF False] pw prod.case using pub' [OF pw] by simp
  qed
qed

lemma dests_frame:
  assumes "handlers_no_subscribe (dispatcher cfg)"
  shows "dests (cx_broker (stomp_process_frame cfg ords i f cx)) \<subseteq> dests (cx_broker cx) \<union>
     (if fr_command f = ''SUBSCRIBE'' then {frame_header f ''destination''} else {})"
proof -
  have "dests (cx_broker (process_ack ords i f cx)) \<subseteq> dests (cx_broker cx)"
    using dests_acknowledge by (auto simp: process_ack_def Let_def cx_set_world_def split: prod.split bool.split)
  moreover have "dests (cx_broker (process_unsubscribe ords i f cx)) \<subseteq> dests (cx_broker cx)"
    using dests_unsubscribe by (auto simp: process_unsubscribe_def Let_def)
  ultimately show ?thesis
    using dests_process_subscribe [of ords i f cx] dests_process_send [OF assms, of ords i f cx]
    by (auto simp: stomp_process_frame_def dests_connect process_disconnect_def)
qed

definition policy_interceptor :: "AuthorizationPolicy \<Rightarrow> WsSession \<Rightarrow> Frame \<Rightarrow> bool" where
  "policy_interceptor policy s f = frame_authorizer policy (ws_principal s) f"

definition dests_allowed :: "AuthorizationPolicy \<Rightarrow> SimpleBroker \<Rightarrow> bool" where
  "dests_allowed policy b \<longleftrightarrow> (\<forall>d\<in>dests b. destination_allowed d (allowed_subscribe_destinations policy))"

lemma dests_allowed_loop:
  assumes "handlers_no_subscribe (dispatcher cfg)" "interceptor cfg = Some (policy_interceptor policy)"
  shows "dests_allowed policy (cx_broker cx) \<Longrightarrow> dests_allowed policy (cx_broker (frame_loop cfg ords i fs cx))"
proof (induction fs arbitrary: cx)
  case (Cons f fs)
  show ?case
  proof (cases "session_closing i (cx_sessions cx) \<or> intercepted cfg i f (cx_sessions cx)")
    case False
    then have "fr_command f = ''SUBSCRIBE'' \<Longrightarrow>
        destination_allowed (frame_header f ''destination'') (allowed_subscribe_destinations policy)"
      using assms(2) by (auto simp: intercepted_def policy_interceptor_def frame_authorizer_def Let_def split: option.splits if_splits)
    then have "dests_allowed policy (cx_broker (stomp_process_frame cfg ords i f cx))"
      using Cons.prems dests_frame [OF assms(1), of ords i f cx] by (auto simp: dests_allowed_def split: if_splits)
    with Cons.IH False show ?thesis by simp
  qed (use Cons.prems in auto)
qed simp

lemma dests_allowed_step:
  assumes "handlers_no_subscribe (dispatcher cfg)" "interceptor cfg = Some (policy_interceptor policy)"
  shows "ep_step cfg ords ep ep' \<Longrightarrow> dests_allowed policy (ep_broker ep) \<Longrightarrow> dests_allowed policy (ep_broker ep')"
proof (induction rule: ep_step.induct)
  case (ep_message ep now i opc payload)
  show ?case
    using ep_message dests_allowed_loop [OF assms]
    by (auto simp: ep_on_message_def Let_def split: option.split prod.split sum.split)
next
  case (ep_close ep i)
  then show ?case using dests_drop by (auto simp: ep_on_close_def dests_allowed_def split: option.split)
next
  case (ep_publish d body hs ep n b hp)
  then show ?case using dests_publish by (fastforce simp: dests_allowed_def)
next
  case (ep_force ep)
  then show ?case using dests_drop_all by (auto simp: ep_force_shutdown_def dests_allowed_def)
qed (auto simp: ep_on_open_def ep_heartbeat_def ep_begin_shutdown_def split: option.splits)

section \<open>Properties\<close>

text \<open>
  C7: In every run whose callbacks, publications and shutdown requests do not overlap in time, closing a connection
  leaves nothing of its session in the broker, no subscription and no pending delivery, and a forced
  shutdown leaves the broker without any subscription or pending delivery and the endpoint drained.
  (A publication that overlaps a close can leave a pending delivery, see \<open>stomp_publish_close_race\<close>.)\<close>

theorem stomp_close_releases:
  assumes "ep_reachable cfg ords ep" and "handlers_ok (dispatcher cfg)"
  shows "(\<forall>s\<in>set (all_subs (ep_broker (ep_on_close i ep))). sub_session s \<noteq> i) \<and>
    pending_ack_count (ep_broker (ep_on_close i ep)) i = 0 \<and> map_of (ep_connections (ep_on_close i ep)) i = None \<and>
    all_subs (ep_broker (ep_force_shutdown ep)) = [] \<and> (\<forall>j. pending_ack_count (ep_broker (ep_force_shutdown ep)) j = 0) \<and>
    ep_drained (ep_force_shutdown ep)"
proof -
  note inv = ep_reachable_inv [OF assms]
  have closed: "(\<forall>s\<in>set (all_subs (ep_broker (ep_on_close i ep))). sub_session s \<noteq> i) \<and>
      \<not> has_pending (ep_broker (ep_on_close i ep)) i \<and> map_of (ep_connections (ep_on_close i ep)) i = None"
  proof -
    have none: "map_of (ep_connections (ep_on_close i ep)) i = None"
      by (simp add: ep_on_close_def delete_conv' split: option.split)
    have "owned (map_of (ep_connections (ep_on_close i ep))) (ep_broker (ep_on_close i ep))"
      using ep_inv_close [OF inv, of i] by (simp add: ep_inv_def)
    with none owned_subsD owned_pendingD show ?thesis by fastforce
  qed
  have "owned (\<lambda>_. None) (ep_broker (ep_force_shutdown ep))"
    using inv owned_drop_all by (simp add: ep_inv_def ep_force_shutdown_def)
  then have "set (all_subs (ep_broker (ep_force_shutdown ep))) = {}" "\<not> has_pending (ep_broker (ep_force_shutdown ep)) j" for j
    by (auto simp: owned_def)
  moreover have "\<not> has_pending b j \<Longrightarrow> pending_ack_count b j = 0" for b j
    by (simp add: has_pending_def pending_ack_count_def table_at_def)
  ultimately show ?thesis using closed by (simp add: ep_drained_def ep_force_shutdown_def)
qed

definition id_orders :: hash_orders where
  "id_orders = \<lparr>header_order = id, destination_order = id\<rparr>"

text \<open>
  C32: With the frame authorizer installed as interceptor, every subscription the broker ever holds is for a
  destination the policy allows, whatever bytes the clients send and however their messages,
  publications, heartbeats and shutdowns are interleaved.\<close>

theorem stomp_subscriptions_authorized:
  assumes "ep_reachable cfg ords ep" and "interceptor cfg = Some (policy_interceptor policy)"
    and "handlers_no_subscribe (dispatcher cfg)" and "allowed_subscribe_destinations policy = p # ps"
    and "(d, subs) \<in> set (subscriptions (ep_broker ep))"
  shows "\<exists>q\<in>set (p # ps). \<exists>rest. d = q @ rest \<and> (rest = [] \<or> hd rest = CHR ''/'')"
proof -
  have "dests_allowed policy (ep_broker ep)"
    using assms(1)
  proof (induction rule: ep_reachable.induct)
    case ep_start
    then show ?case by (simp add: dests_allowed_def dests_def SimpleBroker_new_def)
  qed (rule dests_allowed_step [OF assms(3,2)])
  then have "destination_allowed d (p # ps)"
    using assms(4,5) by (force simp: dests_allowed_def dests_def)
  then show ?thesis by (simp only: destination_allowed_iff) simp
qed

definition topic_policy :: AuthorizationPolicy where
  "topic_policy = \<lparr>require_authenticated_principal = False, allowed_send_destinations = [],
     allowed_subscribe_destinations = [''/topic'']\<rparr>"

definition guarded_config :: EndpointConfig where
  "guarded_config = \<lparr>server_outgoing_heartbeat = 0, server_incoming_heartbeat = 0, dispatcher = None,
     application_destination_prefix = ''/app'', interceptor = Some (policy_interceptor topic_policy)\<rparr>"

definition connect_frame :: Frame where
  "connect_frame = \<lparr>fr_command = ''CONNECT'', fr_headers = [(''accept-version'', ''1.2'')], fr_body = []\<rparr>"

definition subscribe_frame :: Frame where
  "subscribe_frame = \<lparr>fr_command = ''SUBSCRIBE'', fr_headers = [(''destination'', ''/topic/a''), (''id'', ''s''), (''ack'', ''client'')], fr_body = []\<rparr>"

definition opened_endpoint :: Endpoint where
  "opened_endpoint = ep_on_open 0 7 (\<lparr>ep_broker = SimpleBroker_new, ep_sessions = (\<lambda>_. None), ep_connections = [], accepting = True\<rparr>
     \<lparr>ep_sessions := [7 \<mapsto> new_session 1000 [] False None]\<rparr>)"

definition subscribed_endpoint :: Endpoint where
  "subscribed_endpoint = ep_on_message guarded_config id_orders 5 7 Text
     (str_bytes (stream_of id [(connect_frame, 0, 0), (subscribe_frame, 0, 0)])) opened_endpoint"

lemma subscribed_endpoint_reachable: "ep_reachable guarded_config id_orders subscribed_endpoint"
  unfolding subscribed_endpoint_def opened_endpoint_def
  by (rule ep_next [OF _ ep_message], rule ep_next [OF _ ep_open], rule ep_next [OF ep_start ep_transport]) simp

lemma bytes_str_bytes: "bytes_str (str_bytes s) = s"
  by (induction s) (simp_all add: bytes_str_def str_bytes_def unat_of_nat)

lemma demo_decoded:
  "decoder_feed Decoder_new (stream_of id [(connect_frame, 0, 0), (subscribe_frame, 0, 0)]) =
     (Inr [connect_frame, subscribe_frame], Decoder_new)"
proof -
  have "iteration_order id" by (simp add: iteration_order_def)
  then have "decode_loop (stream_of id [(connect_frame, 0, 0), (subscribe_frame, 0, 0)]) = (Inr [connect_frame, subscribe_frame], [])"
    by (subst decode_loop_stream)
       (simp_all add: frame_ok_def connect_frame_def subscribe_frame_def wire_frame_def wire_headers_def)
  then show ?thesis by (simp add: decoder_feed_def Decoder_new_def)
qed

lemma demo_connected:
  "\<exists>s. ep_send id_orders (connected_frame guarded_config) (new_session 1000 [] False None) = s \<and>
     \<not> close_sent s \<and> shared s = new_shared 1000 False \<and> ws_principal s = []"
proof -
  have "to_string_nat 0 = ''0''" by code_simp
  then have "length (serialize id (connected_frame guarded_config)) < 900"
    by (simp add: connected_frame_def guarded_config_def u64_of_i64_def serialize_def stomp_header_line_def escape_def escape_char_def)
  then show ?thesis
    by (simp add: ep_send_def id_orders_def session_send_text_def new_session_def send_frame_def str_bytes_def
        frame_header_size_def Let_def)
qed

lemma demo_first_frame:
  assumes "\<not> cs_connected (cx_conn cx)"
  shows "stomp_process_frame guarded_config ords i connect_frame cx =
    cx_reply i (ep_send ords (connected_frame guarded_config))
      (cx\<lparr>cx_conn := (cx_conn cx)\<lparr>outgoing_heartbeat := 0, incoming_heartbeat := 0, cs_connected := True\<rparr>\<rparr>)"
  using assms by (simp add: stomp_process_frame_def process_connect_def connect_frame_def frame_header_def starts_with_def
      parse_heartbeat_def negotiate_def i64_of_u64_def)

definition demo_subscription :: Subscription where
  "demo_subscription = \<lparr>sub_session = 7, sub_id = ''s'', sub_ack_mode = Ack_Client, sub_principal = []\<rparr>"

lemma demo_second_frame:
  assumes "cs_connected (cx_conn cx)" "cs_handle (cx_conn cx) = 7" "cs_principal (cx_conn cx) = []" "cx_broker cx = SimpleBroker_new"
    "cx_sessions cx 7 = Some s" "shared s = new_shared 1000 False"
  shows "cx_broker (stomp_process_frame guarded_config ords 7 subscribe_frame cx) =
      SimpleBroker_new\<lparr>subscriptions := [(''/topic/a'', [demo_subscription])]\<rparr> \<and>
    cx_sessions (stomp_process_frame guarded_config ords 7 subscribe_frame cx) = cx_sessions cx"
  using assms by (simp add: stomp_process_frame_def process_subscribe_def subscribe_frame_def frame_header_def ack_mode_of_def
      subscribe_def supported_destination_def starts_with_def handle_active_def shared_of_def new_shared_def shared_active_def
      SimpleBroker_new_def demo_subscription_def table_at_def send_receipt_def Let_def)

lemma demo_not_intercepted:
  "ws 7 = Some s \<Longrightarrow> f \<in> {connect_frame, subscribe_frame} \<Longrightarrow> \<not> intercepted guarded_config 7 f ws"
  by (auto simp: intercepted_def guarded_config_def policy_interceptor_def frame_authorizer_def topic_policy_def
      connect_frame_def subscribe_frame_def frame_header_def destination_allowed_def starts_with_def)

lemma subscribed_endpoint_state:
  "ep_broker subscribed_endpoint = SimpleBroker_new\<lparr>subscriptions := [(''/topic/a'', [demo_subscription])]\<rparr> \<and>
   (\<exists>s. ep_sessions subscribed_endpoint 7 = Some s \<and> shared s = new_shared 1000 False)"
proof -
  obtain s where s: "ep_send id_orders (connected_frame guarded_config) (new_session 1000 [] False None) = s"
    "\<not> close_sent s" "shared s = new_shared 1000 False"
    using demo_connected by blast
  define c where "c = \<lparr>cs_decoder = Decoder_new, cs_connected = False, cs_handle = 7, cs_principal = [], subscription_ids = [],
    outgoing_heartbeat = 0, incoming_heartbeat = 0, last_received_ms = 5, last_sent_ms = 0\<rparr>"
  define cx where "cx = \<lparr>cx_conn = c, cx_broker = SimpleBroker_new, cx_sessions = [7 \<mapsto> new_session 1000 [] False None]\<rparr>"
  have ep: "ep_broker subscribed_endpoint = cx_broker (frame_loop guarded_config id_orders 7 [connect_frame, subscribe_frame] cx)"
    "ep_sessions subscribed_endpoint = cx_sessions (frame_loop guarded_config id_orders 7 [connect_frame, subscribe_frame] cx)"
    unfolding subscribed_endpoint_def
    by (simp_all add: opened_endpoint_def ep_on_message_def ep_on_open_def bytes_str_bytes demo_decoded Let_def cx_def c_def
        new_session_def del: frame_loop.simps)
  let ?cx1 = "stomp_process_frame guarded_config id_orders 7 connect_frame cx"
  have cx1: "cs_connected (cx_conn ?cx1)" "cs_handle (cx_conn ?cx1) = 7" "cs_principal (cx_conn ?cx1) = []" "cx_broker ?cx1 = SimpleBroker_new"
    "cx_sessions ?cx1 7 = Some s"
    by (simp_all add: demo_first_frame cx_def c_def cx_reply_def on_session_def s(1))
  have "\<not> session_closing 7 (cx_sessions cx)" "\<not> session_closing 7 (cx_sessions ?cx1)"
    using cx1(5) s(2) by (simp_all add: session_closing_def cx_def new_session_def)
  moreover have "\<not> intercepted guarded_config 7 connect_frame (cx_sessions cx)"
    "\<not> intercepted guarded_config 7 subscribe_frame (cx_sessions ?cx1)"
    using cx1(5) demo_not_intercepted [of "cx_sessions ?cx1" s subscribe_frame]
      demo_not_intercepted [of "cx_sessions cx" _ connect_frame] by (simp_all add: cx_def)
  ultimately have "frame_loop guarded_config id_orders 7 [connect_frame, subscribe_frame] cx =
      stomp_process_frame guarded_config id_orders 7 subscribe_frame ?cx1" by simp
  with demo_second_frame [OF cx1 s(3), of id_orders] ep cx1(5) s(3) show ?thesis by simp
qed

lemma subscribed_endpoint_subs: "\<exists>subs. (''/topic/a'', subs) \<in> set (subscriptions (ep_broker subscribed_endpoint))"
  using subscribed_endpoint_state by simp

text \<open>The application publishes to the subscriber, whose delivery then waits for its acknowledgement.\<close>

definition published_endpoint :: Endpoint where
  "published_endpoint = (case broker_publish id ''/topic/a'' ''hi'' [] (ep_broker subscribed_endpoint) (shared_of (ep_sessions subscribed_endpoint))
     of (n, b, hp) \<Rightarrow> subscribed_endpoint\<lparr>ep_broker := b, ep_sessions := with_shared (ep_sessions subscribed_endpoint) hp\<rparr>)"

lemma published_endpoint_reachable: "ep_reachable guarded_config id_orders published_endpoint"
proof -
  obtain n b hp where p: "broker_publish id ''/topic/a'' ''hi'' [] (ep_broker subscribed_endpoint) (shared_of (ep_sessions subscribed_endpoint)) = (n, b, hp)"
    by (cases "broker_publish id ''/topic/a'' ''hi'' [] (ep_broker subscribed_endpoint) (shared_of (ep_sessions subscribed_endpoint))")
  then have "ep_step guarded_config id_orders subscribed_endpoint published_endpoint"
    using ep_publish [of id_orders "''/topic/a''" "''hi''" "[]" subscribed_endpoint n b hp guarded_config]
    by (simp add: published_endpoint_def id_orders_def)
  with subscribed_endpoint_reachable show ?thesis by (rule ep_next)
qed

lemma published_endpoint_pending:
  "demo_subscription \<in> set (all_subs (ep_broker published_endpoint)) \<and> pending_ack_count (ep_broker published_endpoint) 7 = 1"
proof -
  let ?hp = "shared_of (ep_sessions subscribed_endpoint)"
  let ?b = "SimpleBroker_new\<lparr>subscriptions := [(''/topic/a'', [demo_subscription])]\<rparr>"
  let ?m = "message_frame ''/topic/a'' ''hi'' [] ''1'' demo_subscription"
  obtain s where s: "ep_sessions subscribed_endpoint 7 = Some s" "shared s = new_shared 1000 False"
    using subscribed_endpoint_state by blast
  then have hp: "?hp 7 = Some (new_shared 1000 False)" by (simp add: shared_of_def)
  have "length (str_bytes (serialize id ?m)) + 10 \<le> 1000"
    by (simp add: serialize_def message_frame_def str_bytes_def stomp_header_line_def escape_def escape_char_def demo_subscription_def)
  then obtain hp1 where "handle_send Queued_Text (str_bytes (serialize id ?m)) 7 ?hp = (True, hp1)"
    using hp by (simp add: handle_send_def enqueue_def new_shared_def Let_def)
  moreover have "handle_active ?hp 7" using hp by (simp add: handle_active_def new_shared_def shared_active_def)
  moreover have "sub_session demo_subscription = 7" "sub_ack_mode demo_subscription \<noteq> Ack_Auto" by (simp_all add: demo_subscription_def)
  ultimately have d: "deliver_targets id (message_frame ''/topic/a'' ''hi'' [] ''1'') ''1'' [demo_subscription] b ?hp =
      (1, [], push_pending demo_subscription ''1'' ?m b, hp1)" for b by simp
  have "broker_publish id ''/topic/a'' ''hi'' [] ?b ?hp = (1, push_pending demo_subscription ''1'' ?m (?b\<lparr>next_message_id := 2\<rparr>), hp1)"
    by (simp add: broker_publish_def supported_destination_def starts_with_def select_targets_def take_message_id_def
        SimpleBroker_new_def to_string_one d [unfolded SimpleBroker_new_def, simplified] numeral_2_eq_2)
  then show ?thesis
    using subscribed_endpoint_state
    by (simp add: published_endpoint_def push_pending_def pending_ack_count_def table_at_def all_subs_def SimpleBroker_new_def
        demo_subscription_def)
qed

theorem stomp_close_releases_witness:
  "pending_ack_count (ep_broker published_endpoint) 7 = 1 \<and> demo_subscription \<in> set (all_subs (ep_broker published_endpoint)) \<and>
   pending_ack_count (ep_broker (ep_on_close 7 published_endpoint)) 7 = 0 \<and>
   demo_subscription \<notin> set (all_subs (ep_broker (ep_on_close 7 published_endpoint)))"
  using published_endpoint_pending
    stomp_close_releases [OF published_endpoint_reachable, of 7]
  by (auto simp: handlers_ok_def guarded_config_def demo_subscription_def)

theorem stomp_subscriptions_authorized_witness:
  "\<exists>subs. (''/topic/a'', subs) \<in> set (subscriptions (ep_broker subscribed_endpoint)) \<and>
     (\<exists>q\<in>set [''/topic'']. \<exists>rest. ''/topic/a'' = q @ rest \<and> (rest = [] \<or> hd rest = CHR ''/''))"
proof -
  obtain subs where "(''/topic/a'', subs) \<in> set (subscriptions (ep_broker subscribed_endpoint))"
    using subscribed_endpoint_subs by blast
  with stomp_subscriptions_authorized [OF subscribed_endpoint_reachable, of topic_policy "''/topic''" "[]" "''/topic/a''" subs]
  show ?thesis
    by (auto simp: guarded_config_def topic_policy_def handlers_no_subscribe_def)
qed

section \<open>Deviations\<close>

text \<open>
  A publication holds the broker's mutex only while it selects its targets and, again, for each delivery that waits
  for an acknowledgement. When the connection of a target closes after the message was queued and before the delivery is
  recorded, the delivery is recorded for a session that has no subscription left, and nothing removes it.
\<close>

lemma stomp_publish_close_race:
  fixes m :: Frame
  defines "b0 \<equiv> SimpleBroker_new\<lparr>subscriptions := [(''/topic/a'', [demo_subscription])]\<rparr>"
  defines "hp \<equiv> [7 \<mapsto> new_shared 1000 False]"
  defines "b1 \<equiv> snd (select_targets hp ''/topic/a'' b0)"
  defines "b2 \<equiv> unsubscribe 7 ''s'' b1"
  defines "b3 \<equiv> push_pending demo_subscription ''1'' m b2"
  shows "fst (select_targets hp ''/topic/a'' b0) = Some ([demo_subscription], ''1'') \<and> all_subs b3 = [] \<and> pending_ack_count b3 7 = 1"
  by (simp add: b3_def b2_def b1_def b0_def hp_def select_targets_def take_message_id_def starts_with_def to_string_one
      SimpleBroker_new_def unsubscribe_def erase_subscriptions_def push_pending_def all_subs_def pending_ack_count_def table_at_def
      demo_subscription_def)

text \<open>
  The authorizer the endpoint installs for the handshake names no principal, so every session upgraded
  through it is anonymous: a policy that requires an authenticated principal refuses every frame.
\<close>

lemma stomp_sessions_are_anonymous:
  assumes "websocket_upgrade_handler r req = (Upgrade_accepted we who protocol, req')"
    and "authorize we = Some (ep_authorize ep)" and "require_authenticated_principal policy"
  shows "who = [] \<and> \<not> frame_authorizer policy who f"
  using assms
  by (auto simp: websocket_upgrade_handler_def Let_def ep_authorize_def decision_allow_def decision_reject_def frame_authorizer_def
      split: option.splits if_splits prod.splits)

text \<open>
  The two halves of the heart-beat header are taken for the wrong direction: the period at which the
  server sends comes from what the client offers to send and the server wants to receive. A client
  that cannot send heartbeats but wants them (\<open>0,n\<close>) gets none and is timed out for not sending.
\<close>

lemma stomp_heartbeat_roles_swapped:
  assumes "\<not> cs_connected (cx_conn cx)" "fr_command f = ''CONNECT''" "frame_header f ''accept-version'' = ''1.2''"
    and "parse_heartbeat (frame_header f ''heart-beat'') = Inr (client_sends, client_wants)"
    and "0 < client_wants" "client_wants < 2 ^ 63" "0 < server_outgoing_heartbeat cfg" "server_outgoing_heartbeat cfg < 2 ^ 63"
  shows "outgoing_heartbeat (cx_conn (stomp_process_frame cfg ords i f cx)) =
      i64_of_u64 (negotiate client_sends (u64_of_i64 (server_incoming_heartbeat cfg)))"
    and "incoming_heartbeat (cx_conn (stomp_process_frame cfg ords i f cx)) > 0"
  using assms by (simp_all add: stomp_process_frame_def process_connect_def starts_with_def Let_def cx_reply_def)
     (auto simp: negotiate_def i64_of_u64_def u64_of_i64_def max_def)

text \<open>
  A legitimate acknowledgement after the removal of another subscription ends the session.
\<close>

lemma stomp_ack_after_unsubscribe_fails:
  assumes "cs_connected (cx_conn cx)" "fr_command f = ''ACK''" "cs_handle (cx_conn cx) = i"
    "cx_broker cx = unsubscribe i sid b"
  shows "stomp_process_frame cfg ords i f cx =
    cx_reply i (stomp_protocol_error ords ''unknown STOMP acknowledgement id'') cx"
  using assms stomp_unsubscribe_drops_acks [of i "frame_header f ''id''" sid b]
  by (cases cx) (simp add: stomp_process_frame_def process_ack_def Let_def)

text \<open>
  A message to a user destination without subscribers is a protocol error, while one to a topic or a
  queue without subscribers is accepted.
\<close>

lemma stomp_user_send_without_subscribers:
  assumes "cs_connected (cx_conn cx)" "fr_command f = ''SEND''" "frame_header f ''destination'' = d"
    "\<not> starts_with d (application_destination_prefix cfg @ ''/'')" "map_of (subscriptions (cx_broker cx)) d = None" "d \<noteq> []"
  shows "stomp_process_frame cfg ords i f cx =
    (if starts_with d ''/topic/'' \<or> starts_with d ''/queue/''
     then send_receipt ords i f (cx_set_world (cx_world cx) cx)
     else cx_reply i (stomp_protocol_error ords ''unsupported STOMP destination'') (cx_set_world (cx_world cx) cx))"
proof -
  have "broker_publish ord d body hs (cx_broker cx) (shared_of (cx_sessions cx)) = (0, cx_world cx)" for ord body hs
    using assms(5) by (simp add: broker_publish_def select_targets_def cx_world_def)
  with assms(1-4,6) show ?thesis by (simp add: stomp_process_frame_def process_send_def Let_def)
qed

end
