(* ===== verification/Stomp_Relay.thy ===== *)
theory Stomp_Relay
  imports Stomp_Endpoint
begin

text \<open>
  The relay to an external STOMP broker (\<^verbatim>\<open>RelayEndpoint\<close> in \<^verbatim>\<open>src/messaging/stomp.cpp\<close>). The state of a
  browser connection is the queue towards the broker and what is replayed after a reconnect. The TCP
  connection to the broker is outside: whether a send succeeds and what arrives are inputs.
\<close>

section \<open>State\<close>

record RelayConfig =
  relay_host :: string
  relay_port :: nat
  max_queued_frames :: nat
  relay_interceptor :: "(WsSession \<Rightarrow> Frame \<Rightarrow> bool) option"

definition RelayEndpoint_new :: "RelayConfig \<Rightarrow> RelayConfig result" where
  "RelayEndpoint_new cfg =
     (if relay_host cfg = [] then Inl (Invalid_argument ''STOMP relay requires a broker host'')
      else if relay_port cfg = 0 then Inl (Invalid_argument ''STOMP relay requires a broker port'')
      else Inr cfg)"

record RelayState =
  rs_handle :: nat
  browser_decoder :: Decoder
  rs_outbound :: "string list"
  rs_connect_frame :: "string option"
  rs_subscriptions :: "(string \<times> string) list"

record Relay =
  rl_sessions :: session_heap
  rl_connections :: "(nat \<times> RelayState) list"
  rl_accepting :: bool

definition relay_close :: "nat \<Rightarrow> string \<Rightarrow> WsSession \<Rightarrow> WsSession" where
  "relay_close code reason s = snd (session_close code (str_bytes reason) s)"

section \<open>Callbacks\<close>

definition relay_on_open :: "nat \<Rightarrow> Relay \<Rightarrow> Relay" where
  "relay_on_open i rl =
     (if \<not> rl_accepting rl
      then rl\<lparr>rl_sessions := on_session i (relay_close 1001 ''Server shutting down'') (rl_sessions rl)\<rparr>
      else rl\<lparr>rl_connections := (if i \<in> fst ` set (rl_connections rl) then rl_connections rl
             else rl_connections rl @ [(i, \<lparr>rs_handle = i, browser_decoder = Decoder_new, rs_outbound = [],
                    rs_connect_frame = None, rs_subscriptions = []\<rparr>)])\<rparr>)"

text \<open>
  One frame of the browser: the connect frame and the subscriptions are remembered for a replay, and
  every frame but the connect frame is queued. The second component is the reason to close, if any.
\<close>

definition remember :: "string \<Rightarrow> Frame \<Rightarrow> RelayState \<Rightarrow> RelayState" where
  "remember wire f rs =
     (let sid = frame_header f ''id''
      in if fr_command f = ''SUBSCRIBE''
         then (if sid \<noteq> [] then rs\<lparr>rs_subscriptions := AList.update sid wire (rs_subscriptions rs)\<rparr> else rs)
         else if fr_command f = ''UNSUBSCRIBE''
         then (if sid \<noteq> [] then rs\<lparr>rs_subscriptions := AList.delete sid (rs_subscriptions rs)\<rparr> else rs)
         else rs)"

fun relay_frames ::
    "RelayConfig \<Rightarrow> (header_table \<Rightarrow> header_table) \<Rightarrow> WsSession option \<Rightarrow> Frame list \<Rightarrow> RelayState \<Rightarrow> (nat \<times> string) option \<times> RelayState" where
  "relay_frames cfg ord s [] rs = (None, rs)"
| "relay_frames cfg ord s (f # fs) rs =
     (if (case relay_interceptor cfg of None \<Rightarrow> False | Some g \<Rightarrow> (case s of None \<Rightarrow> True | Some s \<Rightarrow> \<not> g s f))
      then (Some (1008, ''STOMP frame rejected''), rs)
      else
        let wire = serialize ord f
        in if fr_command f = ''CONNECT'' \<or> fr_command f = ''STOMP''
           then relay_frames cfg ord s fs (rs\<lparr>rs_connect_frame := Some wire\<rparr>)
           else
             let rs1 = remember wire f rs
             in if length (rs_outbound rs1) \<ge> max_queued_frames cfg
                then (Some (1013, ''STOMP relay queue is full''), rs1)
                else relay_frames cfg ord s fs (rs1\<lparr>rs_outbound := rs_outbound rs1 @ [wire]\<rparr>))"

definition relay_on_message ::
    "RelayConfig \<Rightarrow> (header_table \<Rightarrow> header_table) \<Rightarrow> nat \<Rightarrow> Opcode \<Rightarrow> bytes \<Rightarrow> Relay \<Rightarrow> Relay" where
  "relay_on_message cfg ord i opc payload rl =
     (if opc \<noteq> Text
      then rl\<lparr>rl_sessions := on_session i (relay_close 1003 ''STOMP requires text WebSocket messages'') (rl_sessions rl)\<rparr>
      else case map_of (rl_connections rl) i of
             None \<Rightarrow> rl
           | Some rs \<Rightarrow>
               (case decoder_feed (browser_decoder rs) (bytes_str payload) of
                  (Inl e, d) \<Rightarrow>
                    rl\<lparr>rl_connections := AList.update i (rs\<lparr>browser_decoder := d\<rparr>) (rl_connections rl),
                       rl_sessions := on_session i (\<lambda>s. relay_close 1002 ''Invalid STOMP frame''
                         (snd (session_send_text (str_bytes (serialize ord (error_frame e))) s))) (rl_sessions rl)\<rparr>
                | (Inr fs, d) \<Rightarrow>
                    (case relay_frames cfg ord (rl_sessions rl i) fs (rs\<lparr>browser_decoder := d\<rparr>) of
                       (failure, rs') \<Rightarrow>
                         rl\<lparr>rl_connections := AList.update i rs' (rl_connections rl),
                            rl_sessions := (case failure of
                               None \<Rightarrow> rl_sessions rl
                             | Some (code, reason) \<Rightarrow> on_session i (relay_close code reason) (rl_sessions rl))\<rparr>)))"

definition relay_on_close :: "nat \<Rightarrow> Relay \<Rightarrow> Relay" where
  "relay_on_close i rl = rl\<lparr>rl_connections := AList.delete i (rl_connections rl)\<rparr>"

definition relay_begin_shutdown :: "Relay \<Rightarrow> Relay" where
  "relay_begin_shutdown rl = rl\<lparr>rl_accepting := False,
     rl_sessions := fold (close_handle ''Server shutting down'') (map (rs_handle \<circ> snd) (rl_connections rl)) (rl_sessions rl)\<rparr>"

definition relay_drained :: "Relay \<Rightarrow> bool" where
  "relay_drained rl \<longleftrightarrow> rl_connections rl = []"

definition relay_force_shutdown :: "Relay \<Rightarrow> Relay" where
  "relay_force_shutdown rl = rl\<lparr>rl_accepting := False, rl_connections := [],
     rl_sessions := fold (close_handle ''Server shutdown'') (map (rs_handle \<circ> snd) (rl_connections rl)) (rl_sessions rl)\<rparr>"

section \<open>The upstream connection\<close>

text \<open>
  Sends are tried in order until one fails; each answer of the network is one element of the script, and
  a frame whose send failed is not seen by the broker. The result holds the frames sent, whether
  all were, and the rest of the script.
\<close>

fun send_until :: "bool list \<Rightarrow> string list \<Rightarrow> string list \<times> bool \<times> bool list" where
  "send_until net [] = ([], True, net)"
| "send_until net (w # ws) =
     (case net of
        [] \<Rightarrow> ([], False, [])
      | ok # net' \<Rightarrow>
          if ok then (case send_until net' ws of (sent, all, net'') \<Rightarrow> (w # sent, all, net'')) else ([], False, net'))"

definition replayed_elsewhere :: "string \<Rightarrow> bool" where
  "replayed_elsewhere wire =
     (case fst (decoder_feed Decoder_new wire) of
        Inl e \<Rightarrow> False
      | Inr [] \<Rightarrow> False
      | Inr (f # fs) \<Rightarrow> fr_command f = ''SUBSCRIBE'' \<or> fr_command f = ''UNSUBSCRIBE'')"

text \<open>
  The start of an upstream connection: what is sent, whether the connection is kept, the state left and
  the rest of the script. The iteration order of the remembered subscriptions is the second argument.
\<close>

definition relay_start ::
    "bool list \<Rightarrow> ((string \<times> string) list \<Rightarrow> (string \<times> string) list) \<Rightarrow> RelayState \<Rightarrow>
     string list \<times> bool \<times> RelayState \<times> bool list" where
  "relay_start net sord rs =
     (let subs = map snd (sord (rs_subscriptions rs));
          outbound = filter (\<lambda>w. \<not> replayed_elsewhere w) (rs_outbound rs);
          rs' = rs\<lparr>rs_outbound := []\<rparr>
      in case rs_connect_frame rs of
           None \<Rightarrow> ([], False, rs', net)
         | Some connect \<Rightarrow>
             (case send_until net (connect # subs @ outbound) of (sent, all, net') \<Rightarrow> (sent, all, rs', net')))"

text \<open>One round of the inner loop: drain the queue, then take what the broker sent, if anything.\<close>

datatype upstream = Up_idle | Up_lost | Up_bytes string

fun forward_frames :: "(header_table \<Rightarrow> header_table) \<Rightarrow> nat \<Rightarrow> Frame list \<Rightarrow> shared_heap \<Rightarrow> bool \<times> shared_heap" where
  "forward_frames ord i [] hp = (True, hp)"
| "forward_frames ord i (f # fs) hp =
     (case handle_send Queued_Text (str_bytes (serialize ord f)) i hp of
        (True, hp') \<Rightarrow> forward_frames ord i fs hp'
      | (False, hp') \<Rightarrow> (False, hp'))"

definition relay_round ::
    "bool list \<Rightarrow> upstream \<Rightarrow> (header_table \<Rightarrow> header_table) \<Rightarrow> Decoder \<Rightarrow> RelayState \<Rightarrow> shared_heap \<Rightarrow>
     string list \<times> bool \<times> Decoder \<times> RelayState \<times> shared_heap" where
  "relay_round net up ord d rs hp =
     (let rs' = rs\<lparr>rs_outbound := []\<rparr>
      in case send_until net (rs_outbound rs) of
           (sent, False, net') \<Rightarrow> (sent, False, d, rs', hp)
         | (sent, True, net') \<Rightarrow>
             (case up of
                Up_idle \<Rightarrow> (sent, True, d, rs', hp)
              | Up_lost \<Rightarrow> (sent, False, d, rs', hp)
              | Up_bytes bytes \<Rightarrow>
                  (case decoder_feed d bytes of
                     (Inl e, d') \<Rightarrow> (sent, False, d', rs', hp)
                   | (Inr fs, d') \<Rightarrow>
                       (case forward_frames ord (rs_handle rs) fs hp of (ok, hp') \<Rightarrow> (sent, ok, d', rs', hp')))))"

section \<open>What is queued and remembered\<close>

lemma remember_fields [simp]:
  "rs_outbound (remember w f rs) = rs_outbound rs" "rs_connect_frame (remember w f rs) = rs_connect_frame rs"
  "rs_handle (remember w f rs) = rs_handle rs"
  by (simp_all add: remember_def Let_def)

lemma relay_queue_bounded:
  "length (rs_outbound rs) \<le> max_queued_frames cfg \<Longrightarrow>
   length (rs_outbound (snd (relay_frames cfg ord s fs rs))) \<le> max_queued_frames cfg"
  by (induction fs arbitrary: rs) (simp_all add: Let_def)

text \<open>The subscriptions a client holds after a sequence of frames, and its last connect frame.\<close>

fun active_subs :: "Frame list \<Rightarrow> (string \<rightharpoonup> Frame) \<Rightarrow> (string \<rightharpoonup> Frame)" where
  "active_subs [] m = m"
| "active_subs (f # fs) m = active_subs fs
     (if fr_command f = ''SUBSCRIBE'' \<and> frame_header f ''id'' \<noteq> [] then m(frame_header f ''id'' \<mapsto> f)
      else if fr_command f = ''UNSUBSCRIBE'' \<and> frame_header f ''id'' \<noteq> [] then m(frame_header f ''id'' := None)
      else m)"

definition is_connect :: "Frame \<Rightarrow> bool" where
  "is_connect f \<longleftrightarrow> fr_command f = ''CONNECT'' \<or> fr_command f = ''STOMP''"

definition is_subscription :: "Frame \<Rightarrow> bool" where
  "is_subscription f \<longleftrightarrow> fr_command f = ''SUBSCRIBE'' \<or> fr_command f = ''UNSUBSCRIBE''"

lemma relay_frames_state:
  assumes "relay_frames cfg ord s fs rs = (None, rs')" "map_of (rs_subscriptions rs) = map_option (serialize ord) \<circ> m"
    "distinct (map fst (rs_subscriptions rs))"
  shows "rs_outbound rs' = rs_outbound rs @ map (serialize ord) (filter (\<lambda>f. \<not> is_connect f) fs) \<and>
    rs_connect_frame rs' = (if filter is_connect fs = [] then rs_connect_frame rs else Some (serialize ord (last (filter is_connect fs)))) \<and>
    map_of (rs_subscriptions rs') = map_option (serialize ord) \<circ> active_subs fs m \<and>
    distinct (map fst (rs_subscriptions rs'))"
  using assms
proof (induction fs arbitrary: rs m)
  case (Cons f fs)
  define w where "w = serialize ord f"
  define rs1 where "rs1 = (if is_connect f then rs\<lparr>rs_connect_frame := Some w\<rparr>
     else (remember w f rs)\<lparr>rs_outbound := rs_outbound rs @ [w]\<rparr>)"
  define m1 where "m1 = (if fr_command f = ''SUBSCRIBE'' \<and> frame_header f ''id'' \<noteq> [] then m(frame_header f ''id'' \<mapsto> f)
      else if fr_command f = ''UNSUBSCRIBE'' \<and> frame_header f ''id'' \<noteq> [] then m(frame_header f ''id'' := None) else m)"
  have step: "relay_frames cfg ord s fs rs1 = (None, rs')"
    using Cons.prems(1) by (auto simp: rs1_def w_def is_connect_def Let_def split: if_splits)
  have subs: "map_of (rs_subscriptions rs1) = map_option (serialize ord) \<circ> m1"
    using Cons.prems(2) by (auto simp: rs1_def m1_def w_def remember_def is_connect_def Let_def update_conv' delete_conv' fun_eq_iff)
  have dist: "distinct (map fst (rs_subscriptions rs1))"
    using Cons.prems(3) by (auto simp: rs1_def remember_def Let_def distinct_update distinct_delete)
  have out: "rs_outbound rs1 = rs_outbound rs @ (if is_connect f then [] else [w])"
    "rs_connect_frame rs1 = (if is_connect f then Some w else rs_connect_frame rs)" by (simp_all add: rs1_def)
  have act: "active_subs (f # fs) m = active_subs fs m1" by (simp add: m1_def)
  from Cons.IH [OF step subs dist] show ?case
    unfolding act using out by (auto simp: w_def)
qed simp

lemma send_until_all: "length ws \<le> n \<Longrightarrow> send_until (replicate n True) ws = (ws, True, replicate (n - length ws) True)"
proof (induction ws arbitrary: n)
  case (Cons w ws)
  then obtain k where "n = Suc k" by (cases n) auto
  with Cons show ?case by simp
qed simp

lemma send_until_prefix: "send_until net ws = (sent, all, net') \<Longrightarrow> \<exists>rest. ws = sent @ rest \<and> (all \<longrightarrow> rest = [])"
  by (induction net ws arbitrary: sent rule: send_until.induct) (fastforce split: list.splits if_splits prod.splits)+

lemma replayed_elsewhere_serialize:
  assumes "iteration_order ord" "frame_ok f"
  shows "replayed_elsewhere (serialize ord f) \<longleftrightarrow> is_subscription f"
  using decode_one [OF assms] by (simp add: replayed_elsewhere_def is_subscription_def)

section \<open>Properties\<close>

text \<open>
  After any sequence of accepted client frames, a new upstream connection on which every send succeeds
  carries the last connect frame, then exactly the subscriptions the client still holds, each once, and
  then every queued frame that is no subscription frame, in the order the client sent them.\<close>

theorem stomp_relay_replay:
  assumes ord: "iteration_order ord" and sord: "iteration_order sord" and ok: "\<forall>f\<in>set fs. frame_ok f"
    and fresh: "rs_outbound rs = []" "rs_connect_frame rs = None" "rs_subscriptions rs = []"
    and run: "relay_frames cfg ord s fs rs = (None, rs')" and connect: "filter is_connect fs = cs @ [c]"
    and net: "Suc (length (rs_subscriptions rs') + length fs) \<le> n"
  shows "\<exists>subs. fst (relay_start (replicate n True) sord rs') =
      serialize ord c # map (serialize ord \<circ> snd) subs @
        map (serialize ord) (filter (\<lambda>f. \<not> is_connect f \<and> \<not> is_subscription f) fs) \<and>
    fst (snd (relay_start (replicate n True) sord rs')) \<and>
    distinct (map fst subs) \<and> (\<forall>sid f. (sid, f) \<in> set subs \<longleftrightarrow> active_subs fs (\<lambda>_. None) sid = Some f)"
proof -
  define act where "act = active_subs fs (\<lambda>_. None)"
  from relay_frames_state [OF run, of "\<lambda>_. None"] fresh
  have out: "rs_outbound rs' = map (serialize ord) (filter (\<lambda>f. \<not> is_connect f) fs)"
    and con: "rs_connect_frame rs' = Some (serialize ord c)"
    and subs: "map_of (rs_subscriptions rs') = map_option (serialize ord) \<circ> act"
    and dist: "distinct (map fst (rs_subscriptions rs'))"
    by (simp_all add: connect act_def fun_eq_iff)
  let ?l = "sord (rs_subscriptions rs')"
  have l: "set ?l = set (rs_subscriptions rs')" "distinct (map fst ?l)" "length ?l = length (rs_subscriptions rs')"
    using order_entries(1,2) [OF sord, of "rs_subscriptions rs'"] dist sord mset_eq_length
    unfolding iteration_order_def by blast+
  define ss where "ss = map (\<lambda>(sid, w). (sid, the (act sid))) ?l"
  have mem: "(sid, w) \<in> set ?l \<longleftrightarrow> (\<exists>f. act sid = Some f \<and> w = serialize ord f)" for sid w
    using dist subs l(1) map_of_eq_Some_iff [OF dist, of sid w] by (auto simp: fun_eq_iff)
  have "snd x = serialize ord (the (act (fst x)))" if "x \<in> set ?l" for x
    using mem [of "fst x" "snd x"] that by auto
  then have wires: "map snd ?l = map (serialize ord \<circ> snd) ss"
    unfolding ss_def by (auto simp: split_beta)
  have keys: "map fst ss = map fst ?l" by (simp add: ss_def comp_def split_beta)
  have members: "(sid, f) \<in> set ss \<longleftrightarrow> act sid = Some f" for sid f
  proof
    assume "(sid, f) \<in> set ss"
    then obtain w where "(sid, w) \<in> set ?l" "f = the (act sid)" by (auto simp: ss_def)
    with mem show "act sid = Some f" by auto
  next
    assume a: "act sid = Some f"
    with mem have "(sid, serialize ord f) \<in> set ?l" by auto
    with a show "(sid, f) \<in> set ss" unfolding ss_def by force
  qed
  have "filter (\<lambda>w. \<not> replayed_elsewhere w) (rs_outbound rs') =
      map (serialize ord) (filter (\<lambda>f. \<not> is_connect f \<and> \<not> is_subscription f) fs)"
    using ok unfolding out
    by (induction fs) (auto simp: replayed_elsewhere_serialize [OF ord])
  then have start: "relay_start (replicate n True) sord rs' =
      (let ws = serialize ord c # map snd ?l @ map (serialize ord) (filter (\<lambda>f. \<not> is_connect f \<and> \<not> is_subscription f) fs)
       in case send_until (replicate n True) ws of (sent, all, net') \<Rightarrow> (sent, all, rs'\<lparr>rs_outbound := []\<rparr>, net'))"
    by (simp add: relay_start_def con Let_def)
  have "length (serialize ord c # map snd ?l @ map (serialize ord) (filter (\<lambda>f. \<not> is_connect f \<and> \<not> is_subscription f) fs)) \<le> n"
    by (rule le_trans [OF _ net]) (simp add: l(3))
  from send_until_all [OF this] start wires keys members l(2) show ?thesis
    unfolding act_def [symmetric] by (intro exI [of _ ss]) (simp add: Let_def)
qed

theorem stomp_relay_replay_witness:
  "\<exists>rs'. relay_frames \<lparr>relay_host = ''b'', relay_port = 61613, max_queued_frames = 9, relay_interceptor = None\<rparr> id None
      [connect_frame, subscribe_frame, nul_frame]
      \<lparr>rs_handle = 7, browser_decoder = Decoder_new, rs_outbound = [], rs_connect_frame = None, rs_subscriptions = []\<rparr> = (None, rs') \<and>
    (\<exists>subs. fst (relay_start (replicate 9 True) id rs') =
      serialize id connect_frame # map (serialize id \<circ> snd) subs @ [serialize id nul_frame] \<and>
      (\<forall>sid f. (sid, f) \<in> set subs \<longleftrightarrow> active_subs [connect_frame, subscribe_frame, nul_frame] (\<lambda>_. None) sid = Some f))"
proof -
  let ?cfg = "\<lparr>relay_host = ''b'', relay_port = 61613, max_queued_frames = 9, relay_interceptor = None\<rparr> :: RelayConfig"
  let ?rs = "\<lparr>rs_handle = 7, browser_decoder = Decoder_new, rs_outbound = [], rs_connect_frame = None, rs_subscriptions = []\<rparr> :: RelayState"
  let ?fs = "[connect_frame, subscribe_frame, nul_frame]"
  obtain rs' where rs': "relay_frames ?cfg id None ?fs ?rs = (None, rs')" and len: "length (rs_subscriptions rs') = 1"
    by (simp add: connect_frame_def subscribe_frame_def nul_frame_def frame_header_def remember_def Let_def)
  have ok: "\<forall>f\<in>set ?fs. frame_ok f" and ord: "iteration_order (id :: header_table \<Rightarrow> header_table)"
    by (simp_all add: frame_ok_def connect_frame_def subscribe_frame_def nul_frame_def iteration_order_def)
  have con: "filter is_connect ?fs = [] @ [connect_frame]"
    and plain: "filter (\<lambda>f. \<not> is_connect f \<and> \<not> is_subscription f) ?fs = [nul_frame]"
    by (simp_all add: is_connect_def is_subscription_def connect_frame_def subscribe_frame_def nul_frame_def)
  have "Suc (length (rs_subscriptions rs') + length ?fs) \<le> 9" by (simp add: len)
  from stomp_relay_replay [OF ord ord ok _ _ _ rs' con this] have "\<exists>subs. fst (relay_start (replicate 9 True) id rs') =
      serialize id connect_frame # map (serialize id \<circ> snd) subs @ map (serialize id) [nul_frame] \<and>
      (\<forall>sid f. (sid, f) \<in> set subs \<longleftrightarrow> active_subs ?fs (\<lambda>_. None) sid = Some f)"
    unfolding plain by (simp only: RelayState.simps simp_thms) blast
  with rs' show ?thesis by (simp only: list.map) blast
qed

section \<open>Frames that are lost\<close>

text \<open>
  What was queued is cleared before it is sent: when the connect frame is not there yet, its send fails
  or a later send fails, the frames behind the failure are gone, although they were never sent.
\<close>

lemma stomp_relay_start_drops_queue:
  "rs_connect_frame rs = None \<Longrightarrow> relay_start net sord rs = ([], False, rs\<lparr>rs_outbound := []\<rparr>, net)"
  "rs_connect_frame rs = Some c \<Longrightarrow> relay_start (False # net) sord rs = ([], False, rs\<lparr>rs_outbound := []\<rparr>, net)"
  by (simp_all add: relay_start_def Let_def)

lemma stomp_relay_round_drops_rest:
  assumes "relay_round net up ord d rs hp = (sent, ok, d', rs', hp')"
  shows "rs_outbound rs' = [] \<and> (\<exists>lost. rs_outbound rs = sent @ lost)"
  using assms send_until_prefix [of net "rs_outbound rs"]
  by (fastforce simp: relay_round_def Let_def split: prod.splits bool.splits upstream.splits sum.splits)

end
