(* ===== verification/Spec2Isabelle.thy ===== *)
theory Spec2Isabelle
  imports Actuator_Endpoints Authorization Cancel_Token Concurrency_Limit Db_Migration Db_Query Db_Transaction Di_Container Exchange_Filters
    Forwarded_Headers Http_Filters Http_Multipart Http1_Session Jwt_Issue Mem_Alloc Rate_Limit Rest_Client
    Session_Auth Static_Files Stomp_Relay
begin

text \<open>
  NovaBoot is a C++ application framework: a thread-per-core HTTP server (HTTP/1.1, HTTP/2 and
  HTTP/3), a router, a chain of middleware, WebSocket, server-sent events and STOMP messaging on top
  of it, and the services an application uses behind it. This development models the parts that
  decide what a request may do and what the peer is told, from the bytes of a connection to the
  handler and back.

  \<^bold>\<open>How the parts interact.\<close> A transport session turns bytes into a \<open>request\<close> (theory
  \<open>Http1_Session\<close>), the shard's request handler runs the middleware chain around the router's
  handler and maps exceptions to responses (\<open>Request_Pipeline\<close>, \<open>Route_Tree\<close>), each middleware may
  answer by itself or call the rest of the chain (\<open>Http_Filters\<close>, \<open>Concurrency_Limit\<close>, \<open>Rate_Limit\<close>,
  \<open>Session_Auth\<close>, \<open>Jwt_Auth\<close>, \<open>Authorization\<close>, \<open>Forwarded_Headers\<close>, \<open>Exchange_Filters\<close>), and the session writes the response.
  Handlers are beans of a container (\<open>Di_Container\<close>); they read forms (\<open>Http_Multipart\<close>), serve files (\<open>Static_Files\<close>)
  and use a database through transactions, migrations and the query builder (\<open>Db_Transaction\<close>, \<open>Db_Migration\<close>,
  \<open>Db_Query\<close>). An
  upgrade request leaves HTTP through the opening handshake (\<open>Ws_Handshake\<close>) and continues as a
  WebSocket connection (\<open>Ws_Frame\<close>, \<open>Ws_Session\<close>, \<open>Ws_Connection\<close>); an event stream continues on a
  channel (\<open>Sse_Channel\<close>). A handler may call other services (\<open>Rest_Client\<close>) and
  cancel calls (\<open>Cancel_Token\<close>). What was observed is kept in a registry (\<open>Meter_Registry\<close>) that management routes
  report (\<open>Actuator_Endpoints\<close>). STOMP endpoints are WebSocket callbacks over a broker that all connections
  share (\<open>Stomp_Codec\<close>, \<open>Stomp_Broker\<close>, \<open>Stomp_Endpoint\<close>) and a relay to an external broker
  (\<open>Stomp_Relay\<close>).

  \<^bold>\<open>Theories and sources\<close> (paths under \<^verbatim>\<open>src/\<close>; headers are under \<^verbatim>\<open>src/include/novaboot/\<close>).

  \<^item> \<open>Nova_Prelude\<close>: exceptions and effects as values, the string-view, C-locale, decimal and
    hexadecimal operations the code uses, generic list lemmas.
  \<^item> \<open>Http_Message\<close>: \<^verbatim>\<open>http3/header_map\<close>, \<^verbatim>\<open>request\<close>, \<^verbatim>\<open>response\<close>, \<^verbatim>\<open>path_params\<close>. The header map and
    the path parameters are interpreted as the map interface the middleware relies on.
  \<^item> \<open>Http_Cookie\<close>: \<^verbatim>\<open>http3/cookie.h\<close>.
  \<^item> \<open>Route_Tree\<close>: \<^verbatim>\<open>router/router.cpp\<close>. The radix tree refines the table of registrations; static
    routes win over parameters, parameters are bound; the search leaks parameters of abandoned
    branches.
  \<^item> \<open>Request_Pipeline\<close>: \<^verbatim>\<open>middleware/pipeline.cpp\<close>, \<^verbatim>\<open>core/error_response.h\<close> and the final handler of
    \<^verbatim>\<open>core/shard.cpp\<close>. Every exception of a route handler becomes the response the code assigns to it (one of an exception handler
    escapes), JSON escaping can be read back, hidden details stay hidden.
  \<^item> \<open>Http_Filters\<close>: body size limit, CORS, CSRF and security headers middleware.
  \<^item> \<open>Concurrency_Limit\<close>: the keyed permit table, the drain gate and the shutdown coordinator
    (\<^verbatim>\<open>core/http_drain.h\<close>, \<^verbatim>\<open>core/shutdown.cpp\<close>), with step relations for the interleavings.
  \<^item> \<open>Rate_Limit\<close>: the in-memory store with its four algorithms and its middleware, with the bound
    each algorithm promises.
  \<^item> \<open>Session_Auth\<close>, \<open>Authorization\<close>, \<open>Forwarded_Headers\<close>: sessions and session fixation, policies
    and declarative authorization, trusted proxies.
  \<^item> \<open>Ws_Frame\<close>, \<open>Ws_Session\<close>, \<open>Ws_Connection\<close>, \<open>Ws_Handshake\<close>: \<^verbatim>\<open>websocket/websocket.cpp\<close>. The frame
    codec and UTF-8 validation, bounded output, the connection state machine with its invariant and the frames
    it writes, independence of the byte stream's chunking, reassembly, what the opening handshake checks, and that
    only registered endpoints whose authorizer accepts are upgraded.
  \<^item> \<open>Sse_Channel\<close>: \<^verbatim>\<open>http/sse.h\<close>, the encoding read back by an EventSource reader and the bounded
    channel as a queue.
  \<^item> \<open>Http1_Session\<close>: \<^verbatim>\<open>http1/http1_session.cpp\<close>, the incremental parser and the response writer:
    pipelined requests are served in order, and the parser returns on all input.
  \<^item> \<open>Stomp_Codec\<close>, \<open>Stomp_Broker\<close>, \<open>Stomp_Endpoint\<close>, \<open>Stomp_Relay\<close>: \<^verbatim>\<open>messaging/stomp.cpp\<close>. Frames written
    by the serializer are read back whatever the pieces they arrive in; a publication reaches every
    subscription once; acknowledgements remove what their mode names; closing a connection that no
    publication overlaps leaves nothing of it in the broker; subscriptions are authorized; a new connection of the relay starts with
    the active subscriptions. The iteration orders of unordered maps are parameters, the relay's
    network is a script.
  \<^item> \<open>Jwt_Auth\<close>, \<open>Json_Text\<close>, \<open>Jwt_Issue\<close>: \<^verbatim>\<open>middleware/jwt_middleware.cpp\<close>. Which tokens are accepted, and that issued
    tokens are accepted and read back; base64, HMAC, RSA and the JSON parser are parameters. The parser is relied
    on for the texts of a grammar of JSON, to which the printed documents are shown to belong.
  \<^item> \<open>Http_Multipart\<close>: \<^verbatim>\<open>http/multipart.cpp\<close>. Forms written by a client are read back.
  \<^item> \<open>Db_Transaction\<close>: \<^verbatim>\<open>db/transaction.h\<close>. Every transaction ends in the commit or rollback its outcome
    calls for, joined calls run in one transaction, and the thread's stack of transactions is restored.
    Service code is a script language whose calls nest as C++ calls would.
  \<^item> \<open>Db_Migration\<close>: \<^verbatim>\<open>db/migration.h\<close>. A run refines the plan of pending migrations, and refuses a ledger
    that does not match; the database is an interface with laws, interpreted on an in-memory one.
  \<^item> \<open>Db_Query\<close>: \<^verbatim>\<open>db/query_builder.h\<close>, \<^verbatim>\<open>db/dialect.h\<close>. A chain of builder calls means the filter it reads as, values
    are only ever bound, each to its placeholder; pages and the batched loading of collections are exact.
    Entities are described by their table, columns and relations.
  \<^item> \<open>Di_Container\<close>: \<^verbatim>\<open>di/container.h\<close>, \<^verbatim>\<open>di/container.cpp\<close>, \<^verbatim>\<open>di/lifecycle.cpp\<close>. Cycle detection is exact, a build follows the
    dependencies and shutdown undoes it; a factory is the list of the types it resolves, and a log records
    constructions, callbacks and destructions. Resolution takes fuel for nested factories: as many
    steps as there are registrations are shown to be enough for an acyclic wiring.
  \<^item> \<open>Static_Files\<close>: \<^verbatim>\<open>http/static_resource.cpp\<close> over a filesystem interface: only files below the root are served,
    and byte ranges are answered exactly.
  \<^item> \<open>Exchange_Filters\<close>: request identifiers, compression, trace context and the observation middleware.
    Compression is transparent, trace contexts survive their headers, the gauge of active requests is balanced.
  \<^item> \<open>Rest_Client\<close>: \<^verbatim>\<open>client/rest_client.cpp\<close>. The client's HTTP/1.1 requests are understood by \<open>Http1_Session\<close> and its
    answers by the client, whatever the pieces they arrive in; the trace of a call reaches the server. Waiting
    coroutines are numbers, and resuming one records its outcome: what the caller then does is a later step, so the
    books of waiting and completed calls are shown for continuations that do not call the client at once, and an
    example shows what is lost when they do.
  \<^item> \<open>Meter_Registry\<close>: \<^verbatim>\<open>observability/observation.cpp\<close>. The registry refines the table of series computed from all
    observations, as long as the texts avoid the separators of its keys; retained spans and events are the latest.
  \<^item> \<open>Actuator_Endpoints\<close>: \<^verbatim>\<open>actuator/actuator.cpp\<close>. A refused request gets nothing from any management endpoint, secret
    values reach no response, the overall health is the worst of its parts.
  \<^item> \<open>Cancel_Token\<close>: \<^verbatim>\<open>async/cancellation.h\<close> as a step relation over the calls in flight. Every callback runs or is
    unsubscribed once, and the calls can always finish.
  \<^item> \<open>Mem_Alloc\<close>: \<^verbatim>\<open>memory/arena_allocator.cpp\<close>, \<^verbatim>\<open>memory/pool_allocator.h\<close>. Allocations never overlap, also
    with alignments beyond a page, which are not met; the free list of a pool is exact; \<^verbatim>\<open>mmap\<close> is an interface with laws.

  \<^bold>\<open>Conventions.\<close> A function that may throw returns \<open>exn + 'a\<close>; a procedure returns the exception
  with the state it left. Sizes are natural numbers unless the code can wrap at them, and then the
  wrap is written out. Doubles of the rate limiter are real numbers, those of the meters a parameter. Loops are recursive functions
  with a termination measure, except the polling loops of the shutdown coordinator and the parser
  loop of HTTP/1.1, which are \<^theory_text>\<open>partial_function (option)\<close>: \<^const>\<open>None\<close> is a run that does not end, and
  theorems show when they end. Application callbacks of a WebSocket are scripts of session actions;
  handlers and the rest of a chain are arbitrary procedures. The request handler of an HTTP/1.1 session and the
  authorizer of a WebSocket endpoint are functions: they return. Cryptography, random bytes, address
  parsing and the clock are parameters. Methods that hold a mutex are single atomic operations;
  code that reads and writes atomics without one is a step relation with the steps the code has.

  \<^bold>\<open>Not modelled.\<close> Sockets, io_uring, QUIC, TLS, HTTP/2 and HTTP/3 framing are calls into
  third-party libraries and their callbacks. The object-relational mapping, validation and the annotation
  scanner are code that compile-time reflection unrolls over the members of a type. Coroutine frames are
  made by the compiler. Database drivers and the configuration reader call external libraries. Content
  negotiation ranks floating-point qualities. Logging does not influence the modelled state.
\<close>

end
